(* ===== verification/Prelude.thy ===== *)
theory Prelude
  imports
    Main
    "HOL-Library.Word"
    "HOL-Library.Char_ord"
    "HOL-Library.List_Lexorder"
    "HOL-Library.Product_Lexorder"
begin

section \<open>Prelude: results, checked integers, decimal strings\<close>

text \<open>
  What every component of the development shares.

  \<^item> \<open>result\<close> is the outcome of a Rust call: \<open>Ok\<close>, \<open>Err\<close>, or a panic with its message.
    A function that takes \<open>&mut self\<close> returns the pair of the new state and its outcome, so
    that the state a failed call leaves behind is visible.
  \<^item> \<open>u64\<close> and \<open>usize\<close> values are natural numbers; the checked, saturating and wrapping
    operations write the width out. A plain \<open>+\<close> of the source is \<open>wrapping_add\<close>: the release
    profile of the workspace wraps (a debug build panics at the same place).
  \<^item> Rust's \<open>String\<close> is Isabelle's \<open>string\<close>, one \<open>char\<close> per UTF-8 byte, compared
    bytewise by \<open>HOL-Library.List_Lexorder\<close>, as Rust compares strings.
  \<^item> Decimal printing and parsing of unsigned integers, as \<open>format!("{}")\<close> and
    \<open>str::parse\<close> do it, with their round trip.
\<close>

named_theorems u64_simps \<open>checked and saturating arithmetic\<close>

named_theorems budget_simps \<open>field equations of the operations on a memory budget\<close>

named_theorems wf_intros \<open>well-formedness preserved by an operation\<close>

subsection \<open>Outcomes of calls\<close>

datatype ('a, 'e) result = Ok 'a | Err 'e | Panic string

fun is_ok :: "('a, 'e) result \<Rightarrow> bool" where
  "is_ok (Ok _) = True"
| "is_ok (Err _) = False"
| "is_ok (Panic _) = False"

fun is_panic :: "('a, 'e) result \<Rightarrow> bool" where
  "is_panic (Panic _) = True"
| "is_panic (Ok _) = False"
| "is_panic (Err _) = False"

text \<open>The \<open>?\<close> operator of a pure computation.\<close>

fun rbind :: "('a, 'e) result \<Rightarrow> ('a \<Rightarrow> ('b, 'e) result) \<Rightarrow> ('b, 'e) result" where
  "rbind (Ok a) f = f a"
| "rbind (Err e) f = Err e"
| "rbind (Panic m) f = Panic m"

fun map_err :: "('e \<Rightarrow> 'f) \<Rightarrow> ('a, 'e) result \<Rightarrow> ('a, 'f) result" where
  "map_err g (Ok a) = Ok a"
| "map_err g (Err e) = Err (g e)"
| "map_err g (Panic m) = Panic m"

text \<open>\<open>Option::ok_or\<close> and \<open>Option::expect\<close>.\<close>

fun ok_or :: "'e \<Rightarrow> 'a option \<Rightarrow> ('a, 'e) result" where
  "ok_or e (Some a) = Ok a"
| "ok_or e None = Err e"

fun expect :: "string \<Rightarrow> 'a option \<Rightarrow> ('a, 'e) result" where
  "expect m (Some a) = Ok a"
| "expect m None = Panic m"

lemma rbind_eq_Ok: "rbind r f = Ok b \<longleftrightarrow> (\<exists>a. r = Ok a \<and> f a = Ok b)"
  by (cases r) auto

lemma rbind_eq_Panic: "rbind r f = Panic m \<longleftrightarrow> r = Panic m \<or> (\<exists>a. r = Ok a \<and> f a = Panic m)"
  by (cases r) auto

lemma rbind_eq_Err: "rbind r f = Err e \<longleftrightarrow> r = Err e \<or> (\<exists>a. r = Ok a \<and> f a = Err e)"
  by (cases r) auto

lemma ok_or_eq_Panic [simp]: "ok_or e x \<noteq> Panic m"
  by (cases x) auto

lemma rbind_assoc: "rbind (rbind r f) g = rbind r (\<lambda>a. rbind (f a) g)"
  by (cases r) auto

lemma rbind_not_panic:
  "\<not> is_panic r \<Longrightarrow> (\<And>a. r = Ok a \<Longrightarrow> \<not> is_panic (f a)) \<Longrightarrow> \<not> is_panic (rbind r f)"
  by (cases r) auto

lemma is_panic_rbind: "is_panic (rbind r f) \<longleftrightarrow> is_panic r \<or> (\<exists>a. r = Ok a \<and> is_panic (f a))"
  by (cases r) auto

lemma rbind_cong [fundef_cong]:
  "r = r' \<Longrightarrow> (\<And>a. r' = Ok a \<Longrightarrow> f a = f' a) \<Longrightarrow> rbind r f = rbind r' f'"
  by (cases r') auto

lemma ok_or_eq_Ok [simp]: "ok_or e x = Ok a \<longleftrightarrow> x = Some a"
  by (cases x) auto

lemma ok_or_not_panic [simp]: "\<not> is_panic (ok_or e x)"
  by (cases x) auto

lemma expect_eq_Ok [simp]: "expect m x = Ok a \<longleftrightarrow> x = Some a"
  by (cases x) auto

lemma map_err_eq_Ok [simp]: "map_err g r = Ok a \<longleftrightarrow> r = Ok a"
  by (cases r) auto

lemma is_panic_map_err [simp]: "is_panic (map_err g r) = is_panic r"
  by (cases r) auto

text \<open>
  Sequencing of stateful calls with the \<open>?\<close> operator: the state reached so far is kept when the
  call fails.
\<close>

definition sbind ::
  "'s \<times> ('a, 'e) result \<Rightarrow> ('s \<Rightarrow> 'a \<Rightarrow> 's \<times> ('b, 'e) result) \<Rightarrow> 's \<times> ('b, 'e) result"
where
  "sbind p f =
     (case p of (s, Ok a) \<Rightarrow> f s a | (s, Err e) \<Rightarrow> (s, Err e) | (s, Panic m) \<Rightarrow> (s, Panic m))"

lemma sbind_simps [simp]:
  "sbind (s, Ok a) f = f s a"
  "sbind (s, Err e) f = (s, Err e)"
  "sbind (s, Panic m) f = (s, Panic m)"
  by (simp_all add: sbind_def)

lemma sbind_eq_Ok: "sbind p f = (s', Ok b) \<longleftrightarrow> (\<exists>s a. p = (s, Ok a) \<and> f s a = (s', Ok b))"
  by (cases p; cases "snd p") auto

lemma sbind_cong [fundef_cong]:
  "p = p' \<Longrightarrow> (\<And>s a. p' = (s, Ok a) \<Longrightarrow> f s a = f' s a) \<Longrightarrow> sbind p f = sbind p' f'"
  by (cases p'; cases "snd p'") (auto simp: sbind_def)

subsection \<open>Unsigned 64-bit arithmetic\<close>

type_synonym u64 = nat
type_synonym usize = nat
type_synonym byte = "8 word"

definition U64_MAX :: nat where
  "U64_MAX = 2 ^ 64 - 1"

definition checked_add :: "u64 \<Rightarrow> u64 \<Rightarrow> u64 option" where
  "checked_add a b = (if a + b \<le> U64_MAX then Some (a + b) else None)"

definition checked_sub :: "u64 \<Rightarrow> u64 \<Rightarrow> u64 option" where
  "checked_sub a b = (if b \<le> a then Some (a - b) else None)"

definition checked_mul :: "u64 \<Rightarrow> u64 \<Rightarrow> u64 option" where
  "checked_mul a b = (if a * b \<le> U64_MAX then Some (a * b) else None)"

definition saturating_add :: "u64 \<Rightarrow> u64 \<Rightarrow> u64" where
  "saturating_add a b = min (a + b) U64_MAX"

definition saturating_mul :: "u64 \<Rightarrow> u64 \<Rightarrow> u64" where
  "saturating_mul a b = min (a * b) U64_MAX"

text \<open>Subtraction of natural numbers stops at 0, as \<open>saturating_sub\<close> does.\<close>

definition saturating_sub :: "u64 \<Rightarrow> u64 \<Rightarrow> u64" where
  "saturating_sub a b = a - b"

definition wrapping_add :: "u64 \<Rightarrow> u64 \<Rightarrow> u64" where
  "wrapping_add a b = (a + b) mod 2 ^ 64"

definition wrapping_sub :: "u64 \<Rightarrow> u64 \<Rightarrow> u64" where
  "wrapping_sub a b = (if b \<le> a then a - b else 2 ^ 64 + a - b)"

text \<open>\<open>u64::try_from(usize)\<close> and back; the modelled target has 64-bit \<open>usize\<close>.\<close>

definition try_u64 :: "nat \<Rightarrow> u64 option" where
  "try_u64 n = (if n \<le> U64_MAX then Some n else None)"

lemma checked_add_eq_Some [simp, u64_simps]:
  "checked_add a b = Some c \<longleftrightarrow> a + b \<le> U64_MAX \<and> c = a + b"
  by (auto simp: checked_add_def)

lemma checked_add_eq_None [simp, u64_simps]: "checked_add a b = None \<longleftrightarrow> U64_MAX < a + b"
  by (auto simp: checked_add_def)

lemma checked_sub_eq_Some [simp, u64_simps]:
  "checked_sub a b = Some c \<longleftrightarrow> b \<le> a \<and> c = a - b"
  by (auto simp: checked_sub_def)

lemma checked_sub_eq_None [simp, u64_simps]: "checked_sub a b = None \<longleftrightarrow> a < b"
  by (auto simp: checked_sub_def)

lemma checked_mul_eq_Some [simp, u64_simps]:
  "checked_mul a b = Some c \<longleftrightarrow> a * b \<le> U64_MAX \<and> c = a * b"
  by (auto simp: checked_mul_def)

lemma checked_mul_eq_None [simp, u64_simps]: "checked_mul a b = None \<longleftrightarrow> U64_MAX < a * b"
  by (auto simp: checked_mul_def)

text \<open>Conditional rules, to evaluate a checked operation inside a larger term.\<close>

lemma checked_exact:
  "a + b \<le> U64_MAX \<Longrightarrow> checked_add a b = Some (a + b)"
  "b \<le> a \<Longrightarrow> checked_sub a b = Some (a - b)"
  "a * b \<le> U64_MAX \<Longrightarrow> checked_mul a b = Some (a * b)"
  by simp_all

lemma try_u64_eq_Some [simp]: "try_u64 n = Some m \<longleftrightarrow> n \<le> U64_MAX \<and> m = n"
  by (auto simp: try_u64_def)

lemma try_u64_eq_None [simp]: "try_u64 n = None \<longleftrightarrow> U64_MAX < n"
  by (auto simp: try_u64_def)

lemma wrapping_add_exact [u64_simps]: "a + b \<le> U64_MAX \<Longrightarrow> wrapping_add a b = a + b"
  by (simp add: wrapping_add_def U64_MAX_def)

lemma wrapping_add_bound: "wrapping_add a b \<le> U64_MAX"
  by (simp add: wrapping_add_def U64_MAX_def less_Suc_eq_le [symmetric])

lemma wrapping_sub_exact [u64_simps]: "b \<le> a \<Longrightarrow> wrapping_sub a b = a - b"
  by (simp add: wrapping_sub_def)

lemma saturating_add_bound [simp]: "saturating_add a b \<le> U64_MAX"
  by (simp add: saturating_add_def)

lemma saturating_add_exact [u64_simps]: "a + b \<le> U64_MAX \<Longrightarrow> saturating_add a b = a + b"
  by (simp add: saturating_add_def)

subsection \<open>Checked folds\<close>

text \<open>\<open>iter.try_fold(0, |t, x| t.checked_add(x))\<close>.\<close>

fun try_sum :: "u64 \<Rightarrow> u64 list \<Rightarrow> u64 option" where
  "try_sum t [] = Some t"
| "try_sum t (x # xs) = (case checked_add t x of None \<Rightarrow> None | Some t' \<Rightarrow> try_sum t' xs)"

lemma try_sum_eq_Some:
  "try_sum t xs = Some s \<longleftrightarrow> s = t + sum_list xs \<and> (xs = [] \<or> s \<le> U64_MAX)"
proof (induction xs arbitrary: t)
  case Nil
  then show ?case by auto
next
  case (Cons x xs)
  show ?case
    by (cases "xs = []") (auto simp: Cons.IH add.assoc checked_add_def)
qed

lemma try_sum_exact: "t + sum_list xs \<le> U64_MAX \<Longrightarrow> try_sum t xs = Some (t + sum_list xs)"
  by (simp add: try_sum_eq_Some)

subsection \<open>Lists and sums\<close>

lemma sum_list_filter_split:
  "sum_list (map f xs) = sum_list (map f (filter P xs)) + sum_list (map f (filter (\<lambda>x. \<not> P x) xs))"
  for f :: "'a \<Rightarrow> nat"
  by (induction xs) auto

lemma sum_list_filter_le: "sum_list (map f (filter P xs)) \<le> sum_list (map f xs)"
  for f :: "'a \<Rightarrow> nat"
  by (induction xs) auto

lemma set_map_swap: "(a, b) \<in> set (map prod.swap xs) \<longleftrightarrow> (b, a) \<in> set xs"
  by (induction xs) auto

lemma filter_append_last: "xs \<noteq> [] \<Longrightarrow> filter P xs = filter P (butlast xs) @ filter P [last xs]"
  by (metis append_butlast_last_id filter_append)

lemma distinct_butlast_last: "distinct xs \<Longrightarrow> xs \<noteq> [] \<Longrightarrow> last xs \<notin> set (butlast xs)"
  by (metis append_butlast_last_id distinct_append disjoint_iff list.set_intros(1))

lemma butlast_eq_removeAll: "distinct xs \<Longrightarrow> xs \<noteq> [] \<Longrightarrow> butlast xs = removeAll (last xs) xs"
  by (induction xs rule: rev_induct) auto

lemma set_butlast_distinct: "distinct xs \<Longrightarrow> xs \<noteq> [] \<Longrightarrow> set (butlast xs) = set xs - {last xs}"
  by (induction xs rule: rev_induct) auto

text \<open>
  The longest prefix whose weights sum to at most \<open>room\<close>: what an LRU eviction leaves of a
  recency list.
\<close>

fun fit_prefix :: "('a \<Rightarrow> nat) \<Rightarrow> nat \<Rightarrow> 'a list \<Rightarrow> 'a list" where
  "fit_prefix w room [] = []"
| "fit_prefix w room (x # xs) =
     (if w x \<le> room then x # fit_prefix w (room - w x) xs else [])"

lemma fit_prefix_all: "sum_list (map w xs) \<le> room \<Longrightarrow> fit_prefix w room xs = xs"
  by (induction w room xs rule: fit_prefix.induct) auto

lemma fit_prefix_butlast:
  "room < sum_list (map w xs) \<Longrightarrow> fit_prefix w room (butlast xs) = fit_prefix w room xs"
  by (induction w room xs rule: fit_prefix.induct) auto

lemma fit_prefix_fits: "sum_list (map w (fit_prefix w room xs)) \<le> room"
  by (induction w room xs rule: fit_prefix.induct) auto

lemma fit_prefix_le: "sum_list (map w (fit_prefix w room xs)) \<le> sum_list (map w xs)"
  by (induction w room xs rule: fit_prefix.induct) auto

lemma fit_prefix_take: "\<exists>n \<le> length xs. fit_prefix w room xs = take n xs"
proof (induction w room xs rule: fit_prefix.induct)
  case (2 w room x xs)
  then show ?case
    by (cases "w x \<le> room") (auto intro: exI [of _ 0] exI [of _ "Suc _"])
qed simp

lemma fit_prefix_maximal:
  "n \<le> length xs \<Longrightarrow> sum_list (map w (take n xs)) \<le> room \<Longrightarrow> n \<le> length (fit_prefix w room xs)"
proof (induction w room xs arbitrary: n rule: fit_prefix.induct)
  case (2 w room x xs)
  then show ?case by (cases n) auto
qed simp

lemma fit_prefix_subset: "set (fit_prefix w room xs) \<subseteq> set xs"
  using fit_prefix_take [of xs w room] by (metis set_take_subset)

subsection \<open>Decimal strings\<close>

text \<open>\<open>format!("{}", n)\<close> of an unsigned integer, and \<open>str::parse::<u64>\<close>.\<close>

definition digit_char :: "nat \<Rightarrow> char" where
  "digit_char d = char_of (48 + d)"

definition digit_value :: "char \<Rightarrow> nat option" where
  "digit_value c = (let v = of_char c :: nat in if 48 \<le> v \<and> v \<le> 57 then Some (v - 48) else None)"

fun show_nat :: "nat \<Rightarrow> string" where
  "show_nat n = (if n < 10 then [digit_char n] else show_nat (n div 10) @ [digit_char (n mod 10)])"

declare show_nat.simps [simp del]

text \<open>The digit loop: an accumulator that must stay a \<open>u64\<close> after every digit.\<close>

fun parse_digits :: "u64 \<Rightarrow> string \<Rightarrow> u64 option" where
  "parse_digits acc [] = Some acc"
| "parse_digits acc (c # cs) =
     (case digit_value c of
        None \<Rightarrow> None
      | Some d \<Rightarrow>
          (case Option.bind (checked_mul acc 10) (\<lambda>a. checked_add a d) of
             None \<Rightarrow> None
           | Some acc' \<Rightarrow> parse_digits acc' cs))"

definition parse_u64 :: "string \<Rightarrow> u64 option" where
  "parse_u64 s =
     (case s of
        [] \<Rightarrow> None
      | c # cs \<Rightarrow>
          if c = CHR ''+'' then (if cs = [] then None else parse_digits 0 cs)
          else parse_digits 0 s)"

lemma digit_value_char [simp]: "d < 10 \<Longrightarrow> digit_value (digit_char d) = Some d"
  by (simp add: digit_value_def digit_char_def Let_def)

lemma digit_value_not [simp]: "digit_value CHR '':'' = None" "digit_value CHR ''.'' = None"
    "digit_value CHR ''+'' = None"
  by (simp_all add: digit_value_def)

lemma show_nat_digits: "c \<in> set (show_nat n) \<Longrightarrow> \<exists>d. digit_value c = Some d"
proof (induction n rule: show_nat.induct)
  case (1 n)
  then show ?case
    by (cases "n < 10") (auto simp: show_nat.simps [of n])
qed

lemma show_nat_not_Nil [simp]: "show_nat n \<noteq> []"
  by (subst show_nat.simps) simp

lemma parse_digits_append:
  "parse_digits acc (xs @ ys) = Option.bind (parse_digits acc xs) (\<lambda>a. parse_digits a ys)"
  by (induction acc xs rule: parse_digits.induct) (auto split: option.splits)

lemma parse_show_digits: "n \<le> U64_MAX \<Longrightarrow> parse_digits 0 (show_nat n) = Some n"
proof (induction n rule: show_nat.induct)
  case (1 n)
  show ?case
  proof (cases "n < 10")
    case True
    then show ?thesis
      using "1.prems" by (simp add: show_nat.simps [of n] checked_add_def checked_mul_def)
  next
    case False
    then have IH: "parse_digits 0 (show_nat (n div 10)) = Some (n div 10)"
      using 1 by simp
    have "n div 10 * 10 + n mod 10 = n" by simp
    then show ?thesis
      using False IH "1.prems"
      by (simp add: show_nat.simps [of n] parse_digits_append checked_add_def checked_mul_def)
  qed
qed

lemma parse_show_nat: "n \<le> U64_MAX \<Longrightarrow> parse_u64 (show_nat n) = Some n"
proof -
  assume n: "n \<le> U64_MAX"
  obtain c cs where s: "show_nat n = c # cs" by (cases "show_nat n") auto
  then have "c \<noteq> CHR ''+''" using show_nat_digits [of c n] by auto
  then show ?thesis using parse_show_digits [OF n] s by (simp add: parse_u64_def)
qed

fun digits_value :: "nat \<Rightarrow> string \<Rightarrow> nat" where
  "digits_value acc [] = acc"
| "digits_value acc (c # cs) = digits_value (acc * 10 + the (digit_value c)) cs"

lemma digits_value_append: "digits_value acc (xs @ ys) = digits_value (digits_value acc xs) ys"
  by (induction acc xs rule: digits_value.induct) auto

lemma digits_value_show: "digits_value 0 (show_nat n) = n"
proof (induction n rule: show_nat.induct)
  case (1 n)
  then show ?case
    by (cases "n < 10") (simp_all add: show_nat.simps [of n] digits_value_append)
qed

lemma show_nat_inj [simp]: "show_nat m = show_nat n \<longleftrightarrow> m = n"
  by (metis digits_value_show)

text \<open>A number and the delimiter after it are read off a string in one way.\<close>

lemma show_nat_delimited:
  assumes "digit_value c = None"
  shows "show_nat m @ c # s = show_nat n @ c # t \<longleftrightarrow> m = n \<and> s = t"
proof
  assume eq: "show_nat m @ c # s = show_nat n @ c # t"
  let ?P = "\<lambda>c. digit_value c \<noteq> None"
  have tw: "takeWhile ?P (show_nat k @ c # u) = show_nat k" for k u
    using show_nat_digits [of _ k] assms by (subst takeWhile_append2) auto
  have "show_nat m = show_nat n" using arg_cong [OF eq, of "takeWhile ?P"] by (simp only: tw)
  with eq show "m = n \<and> s = t" by simp
qed simp

subsection \<open>Little-endian bytes\<close>

text \<open>\<open>to_le_bytes\<close> of an integer of \<open>n\<close> bytes.\<close>

fun le_bytes :: "nat \<Rightarrow> nat \<Rightarrow> byte list" where
  "le_bytes 0 v = []"
| "le_bytes (Suc n) v = of_nat (v mod 256) # le_bytes n (v div 256)"

lemma length_le_bytes [simp]: "length (le_bytes n v) = n"
  by (induction n arbitrary: v) simp_all

end
