(* ===== verification/Ordered_Map.thy ===== *)
theory Ordered_Map
  imports Prelude
begin

section \<open>Ordered maps\<close>

text \<open>
  The program's \<open>BTreeMap\<close>s: association lists with strictly increasing keys, so that an
  iteration over the list is the iteration order of the code and every operation computes.
  \<open>HashMap\<close>s are modelled by the same type; the code never depends on their order.
  \<open>om_ok\<close> is the representation invariant; \<open>om_get\<close> reads a map as a partial function,
  and \<open>om_total f\<close> sums a measure over the values.
\<close>

type_synonym ('k, 'v) omap = "('k \<times> 'v) list"

definition om_ok :: "('k::linorder, 'v) omap \<Rightarrow> bool" where
  "om_ok m \<longleftrightarrow> sorted_wrt (<) (map fst m)"

definition om_get :: "('k, 'v) omap \<Rightarrow> 'k \<Rightarrow> 'v option" where
  "om_get m k = map_of m k"

definition om_mem :: "('k, 'v) omap \<Rightarrow> 'k \<Rightarrow> bool" where
  "om_mem m k \<longleftrightarrow> k \<in> fst ` set m"

definition om_keys :: "('k, 'v) omap \<Rightarrow> 'k list" where
  "om_keys m = map fst m"

fun om_put :: "'k::linorder \<Rightarrow> 'v \<Rightarrow> ('k, 'v) omap \<Rightarrow> ('k, 'v) omap" where
  "om_put k v [] = [(k, v)]"
| "om_put k v ((a, b) # m) =
     (if k < a then (k, v) # (a, b) # m
      else if k = a then (k, v) # m
      else (a, b) # om_put k v m)"

definition om_del :: "'k \<Rightarrow> ('k, 'v) omap \<Rightarrow> ('k, 'v) omap" where
  "om_del k m = filter (\<lambda>p. fst p \<noteq> k) m"

definition om_total :: "('v \<Rightarrow> nat) \<Rightarrow> ('k, 'v) omap \<Rightarrow> nat" where
  "om_total f m = sum_list (map (f \<circ> snd) m)"

subsection \<open>The representation invariant\<close>

lemma om_ok_Nil [simp]: "om_ok []"
  by (simp add: om_ok_def)

lemma om_ok_Cons: "om_ok (p # m) \<longleftrightarrow> (\<forall>q\<in>set m. fst p < fst q) \<and> om_ok m"
  by (auto simp: om_ok_def)

lemma om_ok_distinct: "om_ok m \<Longrightarrow> distinct (map fst m)"
  by (simp add: om_ok_def strict_sorted_iff)

lemma set_om_put: "om_ok m \<Longrightarrow> set (om_put k v m) = insert (k, v) {p \<in> set m. fst p \<noteq> k}"
  by (induction k v m rule: om_put.induct) (auto simp: om_ok_Cons)

lemma om_ok_put [simp, wf_intros]: "om_ok m \<Longrightarrow> om_ok (om_put k v m)"
proof (induction k v m rule: om_put.induct)
  case (1 k v)
  then show ?case by (simp add: om_ok_def)
next
  case (2 k v a b m)
  then show ?case by (force simp: om_ok_Cons set_om_put)
qed

lemma om_ok_del [simp, wf_intros]: "om_ok m \<Longrightarrow> om_ok (om_del k m)"
  by (induction m) (auto simp: om_ok_Cons om_del_def)

lemma om_ok_filter [simp, wf_intros]: "om_ok m \<Longrightarrow> om_ok (filter P m)"
  by (induction m) (auto simp: om_ok_Cons)

subsection \<open>Reading\<close>

lemma om_get_Nil [simp]: "om_get [] k = None"
  by (simp add: om_get_def)

lemma om_get_Cons [simp]: "om_get ((a, b) # m) k = (if a = k then Some b else om_get m k)"
  by (simp add: om_get_def)

lemma om_mem_iff: "om_mem m k \<longleftrightarrow> om_get m k \<noteq> None"
  by (auto simp: om_mem_def om_get_def map_of_eq_None_iff)

lemma om_mem_keys: "om_mem m k \<longleftrightarrow> k \<in> set (om_keys m)"
  by (simp add: om_mem_def om_keys_def)

lemma om_get_in_set: "om_ok m \<Longrightarrow> (k, v) \<in> set m \<longleftrightarrow> om_get m k = Some v"
  by (simp add: om_get_def om_ok_distinct)

lemma om_get_put [simp]:
  "om_ok m \<Longrightarrow> om_get (om_put k v m) = (om_get m)(k \<mapsto> v)"
  by (induction k v m rule: om_put.induct) (auto simp: om_ok_Cons om_get_def fun_eq_iff)

lemma om_get_del [simp]: "om_get (om_del k m) = (om_get m)(k := None)"
  by (induction m) (auto simp: om_del_def om_get_def fun_eq_iff)

lemma om_get_None_not_in: "om_get m k = None \<Longrightarrow> (k, v) \<notin> set m"
  by (force simp: om_get_def map_of_eq_None_iff)

lemma om_keys_sorted: "om_ok m \<Longrightarrow> sorted (om_keys m) \<and> distinct (om_keys m)"
  by (auto simp: om_ok_def om_keys_def strict_sorted_iff)

lemma om_get_filter:
  "om_ok m \<Longrightarrow> om_get (filter (\<lambda>p. P (fst p)) m) k = (if P k then om_get m k else None)"
  by (induction m) (auto simp: om_ok_Cons)

text \<open>Two ordered maps that read the same are the same list.\<close>

lemma om_eqI:
  assumes "om_ok m" and "om_ok n" and "om_get m = om_get n"
  shows "m = n"
proof -
  have sets: "set m = set n"
  proof (rule set_eqI)
    fix p
    show "p \<in> set m \<longleftrightarrow> p \<in> set n"
      by (cases p) (simp add: om_get_in_set assms)
  qed
  have "sorted_wrt (\<lambda>p q. fst p < fst q) m" and "sorted_wrt (\<lambda>p q. fst p < fst q) n"
    using assms(1,2) by (simp_all add: om_ok_def sorted_wrt_map)
  with sets show ?thesis
  proof (induction m arbitrary: n)
    case Nil
    then show ?case by simp
  next
    case (Cons p m)
    then obtain q n' where n: "n = q # n'" by (cases n) auto
    have "p = q"
    proof (rule ccontr)
      assume "p \<noteq> q"
      with Cons.prems n have "p \<in> set n'" and "q \<in> set m" by auto
      with Cons.prems n have "fst q < fst p" and "fst p < fst q" by auto
      then show False by simp
    qed
    moreover have "set m = set n'"
    proof -
      have "p \<notin> set m" and "q \<notin> set n'" using Cons.prems n by auto
      with \<open>p = q\<close> Cons.prems(1) n show ?thesis by auto
    qed
    ultimately show ?case using Cons n by auto
  qed
qed

lemma om_del_put [simp]:
  assumes "om_ok m" and "om_get m k = None"
  shows "om_del k (om_put k v m) = m"
  by (rule om_eqI) (use assms in \<open>auto simp: fun_eq_iff\<close>)

lemma om_del_absent [simp]: "om_get m k = None \<Longrightarrow> om_del k m = m"
  by (induction m) (auto simp: om_del_def split: if_splits)

subsection \<open>Sums over the values\<close>

lemma om_total_Nil [simp]: "om_total f [] = 0"
  by (simp add: om_total_def)

lemma om_total_Cons [simp]: "om_total f (p # m) = f (snd p) + om_total f m"
  by (simp add: om_total_def)

lemma om_total_del:
  "om_ok m \<Longrightarrow> om_get m k = Some v \<Longrightarrow> om_total f (om_del k m) + f v = om_total f m"
proof (induction m)
  case Nil
  then show ?case by simp
next
  case (Cons p m)
  obtain a b where p: "p = (a, b)" by (cases p)
  show ?case
  proof (cases "a = k")
    case True
    then have "om_get m k = None"
      using Cons.prems(1) p by (auto simp: om_ok_Cons om_get_def map_of_eq_None_iff)
    then have "om_del k m = m" by simp
    with True p Cons.prems show ?thesis by (simp add: om_del_def)
  next
    case False
    with Cons p show ?thesis by (auto simp: om_ok_Cons om_del_def)
  qed
qed

lemma om_total_put_new:
  "om_get m k = None \<Longrightarrow> om_total f (om_put k v m) = om_total f m + f v"
  by (induction k v m rule: om_put.induct) (auto split: if_splits)

lemma om_total_put_old:
  "om_ok m \<Longrightarrow> om_get m k = Some w \<Longrightarrow> om_total f (om_put k v m) + f w = om_total f m + f v"
proof (induction k v m rule: om_put.induct)
  case (1 k v)
  then show ?case by simp
next
  case (2 k v a b m)
  have "k < a \<Longrightarrow> om_get m k = None"
    using "2.prems"(1) by (force simp: om_ok_Cons om_get_def map_of_eq_None_iff)
  with 2 show ?case by (auto simp: om_ok_Cons split: if_splits)
qed

lemma om_total_get_le: "om_get m k = Some v \<Longrightarrow> f v \<le> om_total f m"
  by (induction m) (auto split: if_splits)

lemma om_total_filter_split:
  "om_total f m = om_total f (filter P m) + om_total f (filter (\<lambda>p. \<not> P p) m)"
  by (induction m) auto

lemma om_total_keys:
  "om_ok m \<Longrightarrow> om_total f m = sum_list (map (\<lambda>k. f (the (om_get m k))) (om_keys m))"
proof (induction m)
  case (Cons p m)
  obtain k v where p: "p = (k, v)" by (cases p)
  have "map (\<lambda>k'. f (the (om_get (p # m) k'))) (om_keys m) =
      map (\<lambda>k'. f (the (om_get m k'))) (om_keys m)"
    using Cons.prems p by (auto simp: om_ok_Cons om_keys_def)
  then have "sum_list (map (\<lambda>k'. f (the (om_get (p # m) k'))) (om_keys m)) = om_total f m"
    using Cons by (simp only: om_ok_Cons)
  then show ?case using p by (simp add: om_keys_def)
qed (simp add: om_keys_def)

text \<open>Summing along any enumeration of the keys, such as a recency queue.\<close>

lemma om_total_recency:
  assumes "om_ok m" and "distinct ks" and "set ks = set (om_keys m)"
  shows "sum_list (map (\<lambda>k. f (the (om_get m k))) ks) = om_total f m"
  using assms om_keys_sorted [of m]
  by (simp add: om_total_keys sum_list_distinct_conv_sum_set)

lemma om_keys_del: "set (om_keys (om_del k m)) = set (om_keys m) - {k}"
  by (auto simp: om_keys_def om_del_def)

lemma om_keys_put: "om_ok m \<Longrightarrow> set (om_keys (om_put k v m)) = insert k (set (om_keys m))"
  using set_om_put [of m k v] by (auto simp: om_keys_def)

end
