(* ===== verification/Memory_Budget.thy ===== *)
theory Memory_Budget
  imports Ordered_Map
begin

section \<open>The memory budget\<close>

text \<open>
  \<open>MemoryBudget\<close> of \<open>crates/ramforge-core/src/memory.rs\<close>, the ledger of named charges that
  every managed allocation goes through, with the \<open>MemoryError\<close> of \<open>error.rs\<close>.
  A \<open>&mut self\<close> method returns the new budget and its outcome. \<open>budget_ok\<close> is the
  invariant: \<open>used\<close> is the sum of the charges, never above \<open>total\<close>, and the recorded peak
  lies between them. The locale \<open>budget_ledger\<close> is the contract the caches and the KV cache
  rely on; it is interpreted on the model at the end.
\<close>

datatype memory_error =
    Insufficient string u64 u64 u64 u64  \<comment> \<open>name, requested, available, total, used\<close>
  | AlreadyExists string
  | NotFound string
  | InvalidSize u64
  | AccountingUnderflow string u64 u64  \<comment> \<open>name, released, used\<close>
  | AccountingOverflow string u64 u64  \<comment> \<open>name, requested, used\<close>

record memory_budget =
  total :: u64
  allocations :: "(string, u64) omap"
  used :: u64
  peak_used :: u64

definition budget_new :: "u64 \<Rightarrow> (memory_budget, memory_error) result" where
  "budget_new total_bytes =
     (if total_bytes = 0 then Err (InvalidSize total_bytes)
      else Ok \<lparr>total = total_bytes, allocations = [], used = 0, peak_used = 0\<rparr>)"

text \<open>\<open>None\<close> is the \<open>expect\<close> panic of \<open>available_bytes\<close>.\<close>

definition available_bytes :: "memory_budget \<Rightarrow> u64 option" where
  "available_bytes b = checked_sub (total b) (used b)"

definition can_allocate :: "memory_budget \<Rightarrow> u64 \<Rightarrow> bool option" where
  "can_allocate b bytes = map_option (\<lambda>available. bytes \<le> available) (available_bytes b)"

definition budget_get :: "memory_budget \<Rightarrow> string \<Rightarrow> u64 option" where
  "budget_get b name = om_get (allocations b) name"

abbreviation invariant_message :: string where
  "invariant_message \<equiv> ''MemoryBudget invariant violated: used bytes exceed total''"

definition allocate ::
  "string \<Rightarrow> u64 \<Rightarrow> memory_budget \<Rightarrow> memory_budget \<times> (unit, memory_error) result"
where
  "allocate name bytes b =
     (if bytes = 0 then (b, Err (InvalidSize bytes))
      else if om_mem (allocations b) name then (b, Err (AlreadyExists name))
      else (case available_bytes b of
          None \<Rightarrow> (b, Panic invariant_message)
        | Some available \<Rightarrow>
            if \<not> bytes \<le> available
            then (b, Err (Insufficient name bytes available (total b) (used b)))
            else (case checked_add (used b) bytes of
                None \<Rightarrow> (b, Err (AccountingOverflow name bytes (used b)))
              | Some new_used \<Rightarrow>
                  (b\<lparr>allocations := om_put name bytes (allocations b),
                     used := new_used,
                     peak_used := max (peak_used b) new_used\<rparr>, Ok ()))))"

definition reserve ::
  "string \<Rightarrow> u64 \<Rightarrow> memory_budget \<Rightarrow> memory_budget \<times> (unit, memory_error) result"
where
  "reserve name bytes b = allocate name bytes b"

definition release ::
  "string \<Rightarrow> memory_budget \<Rightarrow> memory_budget \<times> (u64, memory_error) result"
where
  "release name b =
     (case om_get (allocations b) name of
        None \<Rightarrow> (b, Err (NotFound name))
      | Some bytes \<Rightarrow>
          (case checked_sub (used b) bytes of
             None \<Rightarrow> (b, Err (AccountingUnderflow name bytes (used b)))
           | Some new_used \<Rightarrow>
               (b\<lparr>allocations := om_del name (allocations b), used := new_used\<rparr>, Ok bytes)))"

definition resize ::
  "string \<Rightarrow> u64 \<Rightarrow> memory_budget \<Rightarrow> memory_budget \<times> (u64, memory_error) result"
where
  "resize name new_bytes b =
     (if new_bytes = 0 then (b, Err (InvalidSize new_bytes))
      else case om_get (allocations b) name of
        None \<Rightarrow> (b, Err (NotFound name))
      | Some old_bytes \<Rightarrow>
          let settle = (\<lambda>new_used.
                (b\<lparr>allocations := om_put name new_bytes (allocations b),
                   used := new_used,
                   peak_used := max (peak_used b) new_used\<rparr>, Ok old_bytes))
          in if old_bytes < new_bytes
             then let additional = new_bytes - old_bytes in
               (case available_bytes b of
                  None \<Rightarrow> (b, Panic invariant_message)
                | Some available \<Rightarrow>
                    if \<not> additional \<le> available
                    then (b, Err (Insufficient name additional available (total b) (used b)))
                    else (case checked_add (used b) additional of
                        None \<Rightarrow> (b, Err (AccountingOverflow name additional (used b)))
                      | Some new_used \<Rightarrow> settle new_used))
             else (case checked_sub (used b) (old_bytes - new_bytes) of
                 None \<Rightarrow> (b, Err (AccountingUnderflow name (old_bytes - new_bytes) (used b)))
               | Some new_used \<Rightarrow> settle new_used))"

definition commit_resize ::
  "string \<Rightarrow> string \<Rightarrow> u64 \<Rightarrow> memory_budget \<Rightarrow> memory_budget \<times> (unit, memory_error) result"
where
  "commit_resize target reservation final_bytes b =
     (if final_bytes = 0 then (b, Err (InvalidSize final_bytes))
      else if target = reservation then (b, Err (AlreadyExists reservation))
      else case om_get (allocations b) target of
        None \<Rightarrow> (b, Err (NotFound target))
      | Some old_bytes \<Rightarrow>
        (case om_get (allocations b) reservation of
          None \<Rightarrow> (b, Err (NotFound reservation))
        | Some reserved_bytes \<Rightarrow>
          (case Option.bind (checked_sub (used b) old_bytes)
                  (\<lambda>u. checked_sub u reserved_bytes) of
            None \<Rightarrow> (b, Err (AccountingUnderflow target old_bytes (used b)))
          | Some base_used \<Rightarrow>
            (case checked_add base_used final_bytes of
              None \<Rightarrow> (b, Err (AccountingOverflow target final_bytes base_used))
            | Some new_used \<Rightarrow>
              if total b < new_used
              then (case checked_sub (total b) base_used of
                  None \<Rightarrow> (b, Panic ''MemoryBudget invariant violated during resize commit'')
                | Some available \<Rightarrow>
                    (b, Err (Insufficient target final_bytes available (total b) base_used)))
              else
                (b\<lparr>allocations := om_put target final_bytes
                     (om_del reservation (om_del target (allocations b))),
                   used := new_used,
                   peak_used := max (peak_used b) new_used\<rparr>, Ok ())))))"

text \<open>
  \<open>rename_prefix\<close>: the renames are computed from the keys in map order, all destinations are
  checked against the map as it was, and only then are the charges moved one by one.
\<close>

definition starts_with :: "string \<Rightarrow> string \<Rightarrow> bool" where
  "starts_with s prefix \<longleftrightarrow> take (length prefix) s = prefix"

definition rename_targets :: "string \<Rightarrow> string \<Rightarrow> string list \<Rightarrow> (string \<times> string) list" where
  "rename_targets old_prefix new_prefix names =
     map (\<lambda>old_name. (old_name, new_prefix @ drop (length old_prefix) old_name))
       (filter (\<lambda>name. starts_with name old_prefix) names)"

fun move_charges :: "(string \<times> string) list \<Rightarrow> (string, u64) omap \<Rightarrow>
  string list \<Rightarrow> (string, u64) omap \<times> (string list, memory_error) result"
where
  "move_charges [] allocs new_names = (allocs, Ok new_names)"
| "move_charges ((old_name, new_name) # renames) allocs new_names =
     (case om_get allocs old_name of
        None \<Rightarrow> (allocs, Panic ''rename source validated above'')
      | Some bytes \<Rightarrow>
          move_charges renames (om_put new_name bytes (om_del old_name allocs))
            (new_names @ [new_name]))"

definition rename_prefix :: "string \<Rightarrow> string \<Rightarrow> memory_budget \<Rightarrow>
  memory_budget \<times> (string list, memory_error) result"
where
  "rename_prefix old_prefix new_prefix b =
     (let renames = rename_targets old_prefix new_prefix (om_keys (allocations b)) in
      if renames = [] then (b, Err (NotFound old_prefix))
      else case find (\<lambda>(_, new_name). om_mem (allocations b) new_name) renames of
        Some (_, new_name) \<Rightarrow> (b, Err (AlreadyExists new_name))
      | None \<Rightarrow>
          let (allocs, r) = move_charges renames (allocations b) []
          in (b\<lparr>allocations := allocs\<rparr>, r))"

text \<open>
  \<open>with_temp\<close>: the closure is a state transformer with an outcome of its own; a panic of the
  closure is caught, the charge released and the panic resumed.
\<close>

definition with_temp :: "(memory_error \<Rightarrow> 'e) \<Rightarrow> string \<Rightarrow> u64 \<Rightarrow>
  (memory_budget \<Rightarrow> memory_budget \<times> ('a, 'e) result) \<Rightarrow> memory_budget \<Rightarrow>
  memory_budget \<times> ('a, 'e) result"
where
  "with_temp from_error name bytes f b =
     (if bytes = 0 then f b
      else case allocate name bytes b of
        (b1, Err e) \<Rightarrow> (b1, Err (from_error e))
      | (b1, Panic m) \<Rightarrow> (b1, Panic m)
      | (b1, Ok _) \<Rightarrow>
          let (b2, r) = f b1; (b3, rel) = release name b2 in
          (case rel of
             Ok _ \<Rightarrow> (b3, r)
           | Err e \<Rightarrow>
               (if is_panic r
                then (b3, Panic (''temporary allocation failed to release during unwind: '' @ name))
                else (b3, Err (from_error e)))
           | Panic m \<Rightarrow> (b3, Panic m)))"

subsection \<open>The invariant\<close>

definition budget_ok :: "memory_budget \<Rightarrow> bool" where
  "budget_ok b \<longleftrightarrow> om_ok (allocations b)
     \<and> used b = om_total id (allocations b)
     \<and> used b \<le> total b
     \<and> used b \<le> peak_used b \<and> peak_used b \<le> total b
     \<and> 0 < total b \<and> total b \<le> U64_MAX"

lemma budget_okD:
  assumes "budget_ok b"
  shows "om_ok (allocations b)" and "used b = om_total id (allocations b)"
    and "used b \<le> total b" and "total b \<le> U64_MAX"
    and "available_bytes b = Some (total b - used b)"
  using assms by (auto simp: budget_ok_def available_bytes_def checked_sub_def)

lemma budget_ok_new:
  "budget_new n = Ok b \<Longrightarrow> n \<le> U64_MAX \<Longrightarrow> budget_ok b \<and> total b = n \<and> used b = 0"
  by (auto simp: budget_new_def budget_ok_def split: if_splits)

lemma budget_get_le_used: "budget_ok b \<Longrightarrow> budget_get b name = Some k \<Longrightarrow> k \<le> used b"
  using om_total_get_le [of "allocations b" name k id] by (simp add: budget_ok_def budget_get_def)

lemma can_allocate_ok:
  "budget_ok b \<Longrightarrow> can_allocate b k = Some (used b + k \<le> total b)"
  using budget_okD [of b] by (auto simp: can_allocate_def)

subsection \<open>Allocation and release\<close>

lemma allocate_result:
  assumes "budget_ok b"
  shows "allocate name bytes b =
    (if bytes = 0 then (b, Err (InvalidSize 0))
     else if budget_get b name \<noteq> None then (b, Err (AlreadyExists name))
     else if total b < used b + bytes
     then (b, Err (Insufficient name bytes (total b - used b) (total b) (used b)))
     else (b\<lparr>allocations := om_put name bytes (allocations b), used := used b + bytes,
             peak_used := max (peak_used b) (used b + bytes)\<rparr>, Ok ()))"
  using budget_okD [OF assms]
  by (auto simp: allocate_def om_mem_iff budget_get_def checked_add_def)

lemma allocate_ok:
  assumes "budget_ok b" and "allocate name bytes b = (b', Ok u)"
  shows "budget_ok b'" and "budget_get b name = None" and "0 < bytes"
    and "budget_get b' = (budget_get b)(name \<mapsto> bytes)"
    and "used b' = used b + bytes" and "total b' = total b"
    and "peak_used b' = max (peak_used b) (used b')"
    and "used b + bytes \<le> total b"
  using assms
  by (auto simp: allocate_result budget_ok_def om_total_put_new budget_get_def fun_eq_iff
      split: if_splits)

lemma allocate_err: "budget_ok b \<Longrightarrow> allocate name bytes b = (b', Err e) \<Longrightarrow> b' = b"
  by (auto simp: allocate_result split: if_splits)

lemma allocate_fits:
  "budget_ok b \<Longrightarrow> 0 < bytes \<Longrightarrow> budget_get b name = None \<Longrightarrow> used b + bytes \<le> total b \<Longrightarrow>
    \<exists>b'. allocate name bytes b = (b', Ok ())"
  by (auto simp: allocate_result)

lemma release_result:
  assumes "budget_ok b"
  shows "release name b =
    (case budget_get b name of
       None \<Rightarrow> (b, Err (NotFound name))
     | Some k \<Rightarrow> (b\<lparr>allocations := om_del name (allocations b), used := used b - k\<rparr>, Ok k))"
  using budget_get_le_used [OF assms]
  by (auto simp: release_def budget_get_def checked_sub_def split: option.splits)

lemma release_ok:
  assumes "budget_ok b" and "budget_get b name = Some k"
  shows "\<exists>b'. release name b = (b', Ok k) \<and> budget_ok b' \<and>
    budget_get b' = (budget_get b)(name := None) \<and> used b' = used b - k \<and> total b' = total b
    \<and> peak_used b' = peak_used b"
proof -
  have "om_total id (om_del name (allocations b)) + k = used b"
    using om_total_del [of "allocations b" name k id] assms
    by (simp add: budget_get_def budget_ok_def)
  with assms show ?thesis
    by (auto simp: release_result budget_ok_def budget_get_def fun_eq_iff)
qed

lemma release_missing: "budget_get b name = None \<Longrightarrow> release name b = (b, Err (NotFound name))"
  by (simp add: release_def budget_get_def)


subsection \<open>Resizing\<close>

lemma budget_ok_update:
  assumes "budget_ok b" and "budget_get b name = Some old" and "used b + new - old \<le> total b"
  shows "budget_ok (b\<lparr>allocations := om_put name new (allocations b),
    used := used b + new - old, peak_used := max (peak_used b) (used b + new - old)\<rparr>)"
proof -
  have "om_total id (om_put name new (allocations b)) + old = used b + new"
    using om_total_put_old [of "allocations b" name old id new] assms(1,2)
    by (simp add: budget_get_def budget_ok_def)
  moreover have "old \<le> used b" using budget_get_le_used assms(1,2) by blast
  ultimately show ?thesis using assms by (auto simp: budget_ok_def)
qed

lemma resize_result:
  assumes "budget_ok b"
  shows "resize name new b =
    (if new = 0 then (b, Err (InvalidSize 0))
     else case budget_get b name of
       None \<Rightarrow> (b, Err (NotFound name))
     | Some old \<Rightarrow>
         if total b < used b + new - old
         then (b, Err (Insufficient name (new - old) (total b - used b) (total b) (used b)))
         else (b\<lparr>allocations := om_put name new (allocations b), used := used b + new - old,
                 peak_used := max (peak_used b) (used b + new - old)\<rparr>, Ok old))"
proof (cases "budget_get b name")
  case None
  then show ?thesis by (simp add: resize_def budget_get_def)
next
  case (Some old)
  have le: "old \<le> used b" using budget_get_le_used [OF assms Some] .
  note fields = budget_okD(3-5) [OF assms]
  have get: "om_get (allocations b) name = Some old" using Some by (simp add: budget_get_def)
  show ?thesis
  proof (cases "old < new")
    case True
    have eq: "used b + (new - old) = used b + new - old" using True by simp
    have fit: "new - old \<le> total b - used b \<longleftrightarrow> \<not> total b < used b + new - old"
      using True fields(1) by linarith
    have bound: "used b + new - old \<le> U64_MAX" if "\<not> total b < used b + new - old"
      using that fields(2) by linarith
    show ?thesis
      using True Some get fields(3) bound
      by (cases "total b < used b + new - old")
        (simp_all add: resize_def checked_add_def Let_def fit eq)
  next
    case False
    have "old - new \<le> used b" and "used b - (old - new) = used b + new - old"
      and "\<not> total b < used b + new - old" using False le fields(1) by linarith+
    then show ?thesis using False Some get
      by (simp add: resize_def checked_sub_def Let_def)
  qed
qed

lemma resize_ok:
  assumes "budget_ok b" and "resize name new b = (b', Ok old)"
  shows "budget_ok b'" and "budget_get b name = Some old" and "0 < new"
    and "budget_get b' = (budget_get b)(name \<mapsto> new)"
    and "used b' = used b + new - old" and "total b' = total b" and "peak_used b \<le> peak_used b'"
proof -
  from assms have get: "budget_get b name = Some old" and new: "0 < new"
    and fits: "used b + new - old \<le> total b"
    and b': "b' = b\<lparr>allocations := om_put name new (allocations b), used := used b + new - old,
                 peak_used := max (peak_used b) (used b + new - old)\<rparr>"
    by (auto simp: resize_result split: if_splits option.splits)
  show "budget_ok b'" unfolding b' by (rule budget_ok_update) fact+
  show "budget_get b' = (budget_get b)(name \<mapsto> new)"
    using budget_okD(1) [OF assms(1)] by (simp add: b' budget_get_def fun_eq_iff)
  show "budget_get b name = Some old" and "0 < new" by fact+
  show "used b' = used b + new - old" and "total b' = total b" and "peak_used b \<le> peak_used b'"
    by (simp_all add: b')
qed

lemma budget_two_charges:
  assumes "budget_ok b" and "budget_get b t = Some x" and "budget_get b r = Some y" and "t \<noteq> r"
  shows "om_total id (om_del r (om_del t (allocations b))) + x + y = used b"
proof -
  have ok: "om_ok (allocations b)" using assms(1) by (rule budget_okD)
  have "om_total id (om_del t (allocations b)) + x = used b"
    using om_total_del [of _ t x id] ok assms(1,2) by (simp add: budget_get_def budget_ok_def)
  moreover have "om_total id (om_del r (om_del t (allocations b))) + y
      = om_total id (om_del t (allocations b))"
    using om_total_del [of "om_del t (allocations b)" r y id] ok assms(3,4)
    by (simp add: budget_get_def)
  ultimately show ?thesis by simp
qed

lemma commit_resize_result:
  assumes "budget_ok b" and "budget_get b t = Some x" and "budget_get b r = Some y"
    and "t \<noteq> r" and "0 < k"
  shows "commit_resize t r k b =
    (if total b < used b - x - y + k
     then (b, if U64_MAX < used b - x - y + k then Err (AccountingOverflow t k (used b - x - y))
              else Err (Insufficient t k (total b - (used b - x - y)) (total b) (used b - x - y)))
     else (b\<lparr>allocations := om_put t k (om_del r (om_del t (allocations b))),
             used := used b - x - y + k,
             peak_used := max (peak_used b) (used b - x - y + k)\<rparr>, Ok ()))"
proof -
  have "x + y \<le> used b" using budget_two_charges [OF assms(1-4)] by simp
  then show ?thesis
    using assms budget_okD [OF assms(1)]
    by (auto simp: commit_resize_def budget_get_def checked_sub_def checked_add_def)
qed

lemma commit_resize_ok:
  assumes "budget_ok b" and "budget_get b t = Some x" and "budget_get b r = Some y"
    and "t \<noteq> r" and "0 < k" and "used b - x - y + k \<le> total b"
  shows "\<exists>b'. commit_resize t r k b = (b', Ok ()) \<and> budget_ok b' \<and>
    budget_get b' = (budget_get b)(r := None, t \<mapsto> k) \<and> used b' = used b - x - y + k \<and>
    total b' = total b \<and> peak_used b \<le> peak_used b'"
proof -
  let ?a = "om_del r (om_del t (allocations b))"
  have ok: "om_ok ?a" using budget_okD(1) [OF assms(1)] by simp
  have "om_total id ?a = used b - x - y" using budget_two_charges [OF assms(1-4)] by simp
  then have "om_total id (om_put t k ?a) = used b - x - y + k"
    using om_total_put_new [of ?a t id k] by simp
  moreover have "om_get (om_put t k ?a) = (om_get (allocations b))(r := None, t \<mapsto> k)"
    using ok assms(4) by (simp add: fun_eq_iff)
  ultimately show ?thesis
    using assms ok by (auto simp: commit_resize_result budget_ok_def budget_get_def)
qed

subsection \<open>Renaming a prefix\<close>

lemma starts_with_append [simp]: "starts_with (p @ s) p"
  by (simp add: starts_with_def)

lemma starts_with_iff: "starts_with n p \<longleftrightarrow> (\<exists>s. n = p @ s)"
  by (metis append_take_drop_id starts_with_append starts_with_def)

lemma move_charges_ok:
  assumes "om_ok a" and "distinct (map fst rs)" and "distinct (map snd rs)"
    and "\<And>old new. (old, new) \<in> set rs \<Longrightarrow> om_get a old \<noteq> None \<and> om_get a new = None"
  shows "\<exists>a'. move_charges rs a ns = (a', Ok (ns @ map snd rs)) \<and> om_ok a' \<and>
    om_total f a' = om_total f a \<and>
    (\<forall>n. om_get a' n = (case map_of (map prod.swap rs) n of
         Some old \<Rightarrow> om_get a old
       | None \<Rightarrow> if n \<in> fst ` set rs then None else om_get a n))"
  using assms
proof (induction rs arbitrary: a ns)
  case Nil
  then show ?case by simp
next
  case (Cons p rs)
  obtain old new where p: "p = (old, new)" by (cases p)
  obtain v where v: "om_get a old = Some v" using Cons.prems(4) p by fastforce
  have new: "om_get a new = None" using Cons.prems(4) p by fastforce
  then have ne: "old \<noteq> new" using v by auto
  let ?a = "om_put new v (om_del old a)"
  have ok: "om_ok ?a" using Cons.prems(1) by simp
  have get: "om_get ?a = (om_get a)(old := None, new \<mapsto> v)" using Cons.prems(1) ne by simp
  have tot: "om_total f ?a = om_total f a"
    using om_total_put_new [of "om_del old a" new f v] om_total_del [OF Cons.prems(1) v, of f] new
    by simp
  have rest: "om_get ?a o' \<noteq> None \<and> om_get ?a n' = None" if m: "(o', n') \<in> set rs" for o' n'
  proof -
    have "o' \<noteq> old" and "n' \<noteq> new" using m Cons.prems(2,3) p by force+
    moreover have "om_get a o' \<noteq> None" and "om_get a n' = None" using m Cons.prems(4) by auto
    ultimately show ?thesis using get new by auto
  qed
  obtain a' where a': "move_charges rs ?a (ns @ [new]) = (a', Ok ((ns @ [new]) @ map snd rs))"
    "om_ok a'" "om_total f a' = om_total f ?a"
    "\<forall>n. om_get a' n = (case map_of (map prod.swap rs) n of
         Some old \<Rightarrow> om_get ?a old
       | None \<Rightarrow> if n \<in> fst ` set rs then None else om_get ?a n)"
    using Cons.IH [OF ok _ _ rest, of "ns @ [new]"] Cons.prems(2,3) by auto
  have new_out: "new \<notin> snd ` set rs" and old_out: "old \<notin> fst ` set rs"
    and new_fst: "new \<notin> fst ` set rs" and old_snd: "old \<notin> snd ` set rs"
    using Cons.prems(2-4) p v new by force+
  have keep: "om_get ?a o' = om_get a o'" if "o' \<in> fst ` set rs" for o'
    using that get new_fst old_out by auto
  have swap_None: "map_of (map prod.swap rs) n = None \<longleftrightarrow> n \<notin> snd ` set rs" for n
    by (force simp: map_of_eq_None_iff)
  have swap_Some: "map_of (map prod.swap rs) n = Some o' \<Longrightarrow> o' \<in> fst ` set rs" for n o'
    by (force dest: map_of_SomeD)
  have "om_get a' n = (case map_of (map prod.swap (p # rs)) n of
         Some old \<Rightarrow> om_get a old
       | None \<Rightarrow> if n \<in> fst ` set (p # rs) then None else om_get a n)" for n
  proof (cases "map_of (map prod.swap rs) n")
    case None
    then have "om_get a' n = (if n \<in> fst ` set rs then None else om_get ?a n)"
      using a'(4) by simp
    then show ?thesis using None p get v new_fst ne by auto
  next
    case (Some o')
    have "n \<in> snd ` set rs" using Some swap_None [of n] by auto
    then have "n \<noteq> new" using new_out by auto
    then show ?thesis using a'(4) p Some keep [OF swap_Some [OF Some]] by simp
  qed
  then show ?case using a'(1-3) v tot p by simp
qed


text \<open>The renames of \<open>rename_prefix\<close> meet the conditions of the move.\<close>

lemma rename_targets_distinct:
  assumes "distinct names"
  shows "distinct (map fst (rename_targets op np names))"
    and "distinct (map snd (rename_targets op np names))"
proof -
  have "map fst (rename_targets op np names) = filter (\<lambda>n. starts_with n op) names"
    by (simp add: rename_targets_def comp_def)
  then show "distinct (map fst (rename_targets op np names))" using assms by simp
  have "inj_on (\<lambda>n. np @ drop (length op) n) (set (filter (\<lambda>n. starts_with n op) names))"
    by (rule inj_onI) (auto simp: starts_with_iff)
  then show "distinct (map snd (rename_targets op np names))"
    using assms by (simp add: rename_targets_def comp_def distinct_map)
qed

lemma set_rename_targets:
  "(old, new) \<in> set (rename_targets op np names) \<longleftrightarrow>
    old \<in> set names \<and> (\<exists>s. old = op @ s \<and> new = np @ s)"
  by (auto simp: rename_targets_def starts_with_iff)

lemma budget_get_keys: "n \<in> set (om_keys (allocations b)) \<longleftrightarrow> budget_get b n \<noteq> None"
  by (auto simp: budget_get_def om_mem_iff simp flip: om_mem_keys)

lemma map_of_rename_targets:
  assumes "distinct names"
  shows "map_of (map prod.swap (rename_targets op np names)) n =
    (if starts_with n np \<and> op @ drop (length np) n \<in> set names
     then Some (op @ drop (length np) n) else None)"
proof -
  let ?m = "map prod.swap (rename_targets op np names)"
  have dist: "distinct (map fst ?m)"
    using rename_targets_distinct(2) [OF assms, of op np] by (simp add: comp_def)
  have mem: "(n, old) \<in> set ?m \<longleftrightarrow>
      old \<in> set names \<and> starts_with n np \<and> old = op @ drop (length np) n" for old
  proof -
    have "(n, old) \<in> set ?m \<longleftrightarrow> (old, n) \<in> set (rename_targets op np names)"
      by (rule set_map_swap)
    then show ?thesis by (auto simp: set_rename_targets starts_with_iff)
  qed
  show ?thesis
  proof (cases "map_of ?m n")
    case None
    then have "(n, old) \<notin> set ?m" for old
      using dist map_of_is_SomeI by fastforce
    then show ?thesis using None mem [of "op @ drop (length np) n"] by auto
  next
    case (Some old)
    then have "(n, old) \<in> set ?m" by (rule map_of_SomeD)
    then have "old \<in> set names \<and> starts_with n np \<and> old = op @ drop (length np) n"
      using mem by blast
    then show ?thesis using Some by auto
  qed
qed

lemma rename_prefix_ok:
  assumes ok: "budget_ok b" and ren: "rename_prefix op np b = (b', Ok names)"
  shows "budget_ok b'" and "used b' = used b" and "total b' = total b"
    and "peak_used b' = peak_used b"
    and "names = map snd (rename_targets op np (om_keys (allocations b)))"
    and "budget_get b' n =
      (if starts_with n np \<and> budget_get b (op @ drop (length np) n) \<noteq> None
       then budget_get b (op @ drop (length np) n)
       else if starts_with n op then None else budget_get b n)"
proof -
  let ?rs = "rename_targets op np (om_keys (allocations b))"
  have a_ok: "om_ok (allocations b)" using ok by (rule budget_okD)
  have dist: "distinct (om_keys (allocations b))" using om_keys_sorted [OF a_ok] by simp
  from ren have "find (\<lambda>(_, new_name). om_mem (allocations b) new_name) ?rs = None"
    by (auto simp: rename_prefix_def Let_def split: if_splits option.splits)
  then have free: "(old, new) \<in> set ?rs \<Longrightarrow> om_get (allocations b) new = None" for old new
    by (auto simp: find_None_iff om_mem_iff)
  have src: "(old, new) \<in> set ?rs \<Longrightarrow> om_get (allocations b) old \<noteq> None" for old new
    using budget_get_keys by (auto simp: set_rename_targets budget_get_def)
  obtain a' where a': "move_charges ?rs (allocations b) [] = (a', Ok ([] @ map snd ?rs))"
    "om_ok a'" "om_total id a' = om_total id (allocations b)"
    "\<And>n. om_get a' n = (case map_of (map prod.swap ?rs) n of
         Some old \<Rightarrow> om_get (allocations b) old
       | None \<Rightarrow> if n \<in> fst ` set ?rs then None else om_get (allocations b) n)"
    using move_charges_ok [OF a_ok rename_targets_distinct [OF dist], of op np "[]" id] free src
    by blast
  have b': "b' = b\<lparr>allocations := a'\<rparr>" and names: "names = map snd ?rs"
    using ren a'(1) by (auto simp: rename_prefix_def Let_def split: if_splits option.splits)
  show "budget_ok b'" using ok a'(2,3) by (simp add: b' budget_ok_def)
  show "used b' = used b" "total b' = total b" "peak_used b' = peak_used b"
    by (simp_all add: b')
  show "names = map snd ?rs" by fact
  have fst_iff: "n \<in> fst ` set ?rs \<longleftrightarrow> starts_with n op \<and> budget_get b n \<noteq> None"
    by (force simp: rename_targets_def budget_get_keys)
  have "n \<in> fst ` set ?rs \<Longrightarrow> starts_with n op" using fst_iff by simp
  moreover have "n \<notin> fst ` set ?rs \<Longrightarrow> starts_with n op \<Longrightarrow> budget_get b n = None"
    using fst_iff by simp
  ultimately show "budget_get b' n =
      (if starts_with n np \<and> budget_get b (op @ drop (length np) n) \<noteq> None
       then budget_get b (op @ drop (length np) n)
       else if starts_with n op then None else budget_get b n)"
    using a'(4) [of n]
    by (auto simp: b' map_of_rename_targets [OF dist] budget_get_keys budget_get_def)
qed

lemma rename_prefix_total:
  assumes ok: "budget_ok b" and some: "budget_get b (op @ s) \<noteq> None"
    and free: "\<And>s. budget_get b (op @ s) \<noteq> None \<Longrightarrow> budget_get b (np @ s) = None"
  shows "\<exists>b' names. rename_prefix op np b = (b', Ok names)"
proof -
  let ?rs = "rename_targets op np (om_keys (allocations b))"
  have a_ok: "om_ok (allocations b)" using ok by (rule budget_okD)
  have dist: "distinct (om_keys (allocations b))" using om_keys_sorted [OF a_ok] by simp
  have mem: "(old, new) \<in> set ?rs \<Longrightarrow>
      om_get (allocations b) old \<noteq> None \<and> om_get (allocations b) new = None" for old new
    using free by (auto simp: set_rename_targets budget_get_keys budget_get_def)
  have none: "find (\<lambda>(_, new_name). om_mem (allocations b) new_name) ?rs = None"
    using mem by (fastforce simp: find_None_iff om_mem_iff)
  have "(op @ s, np @ s) \<in> set ?rs" using some by (simp add: set_rename_targets budget_get_keys)
  then have "?rs \<noteq> []" by auto
  moreover obtain a' where "move_charges ?rs (allocations b) [] = (a', Ok ([] @ map snd ?rs))"
    using move_charges_ok [OF a_ok rename_targets_distinct [OF dist], of op np "[]" id] mem
    by blast
  ultimately show ?thesis using none by (auto simp: rename_prefix_def Let_def)
qed


subsection \<open>The contract of a ledger\<close>

text \<open>
  What the caches and the KV cache need of the budget: named charges, a limit, acquiring and
  discharging a charge. \<open>release_each\<close> is the loop that releases a list of charges in order; the
  flag is false when a release failed, on which the eviction loops of the caches panic.
\<close>

fun release_each ::
  "('s \<Rightarrow> 'b \<Rightarrow> 'b \<times> (nat, 'e) result) \<Rightarrow> 's list \<Rightarrow> 'b \<Rightarrow> 'b \<times> bool"
where
  "release_each rel [] b = (b, True)"
| "release_each rel (n # ns) b =
     (case rel n b of (b', Ok _) \<Rightarrow> release_each rel ns b' | (b', _) \<Rightarrow> (b', False))"

locale budget_ledger =
  fixes good :: "'b \<Rightarrow> bool"
    and charge :: "'b \<Rightarrow> 's \<Rightarrow> nat option"
    and spent :: "'b \<Rightarrow> nat"
    and limit :: "'b \<Rightarrow> nat"
    and acquire :: "'s \<Rightarrow> nat \<Rightarrow> 'b \<Rightarrow> 'b \<times> (unit, 'e) result"
    and discharge :: "'s \<Rightarrow> 'b \<Rightarrow> 'b \<times> (nat, 'e) result"
  assumes spent_le_limit: "good b \<Longrightarrow> spent b \<le> limit b"
    and charge_le_spent: "good b \<Longrightarrow> charge b n = Some k \<Longrightarrow> k \<le> spent b"
    and acquire_ok: "good b \<Longrightarrow> acquire n k b = (b', Ok u) \<Longrightarrow>
      good b' \<and> charge b n = None \<and> 0 < k \<and> charge b' = (charge b)(n \<mapsto> k)
      \<and> spent b' = spent b + k \<and> limit b' = limit b"
    and acquire_err: "good b \<Longrightarrow> acquire n k b = (b', Err e) \<Longrightarrow> b' = b"
    and acquire_no_panic: "good b \<Longrightarrow> \<not> is_panic (snd (acquire n k b))"
    and acquire_fits: "good b \<Longrightarrow> 0 < k \<Longrightarrow> charge b n = None \<Longrightarrow> spent b + k \<le> limit b \<Longrightarrow>
      \<exists>b'. acquire n k b = (b', Ok ())"
    and discharge_ok: "good b \<Longrightarrow> charge b n = Some k \<Longrightarrow>
      \<exists>b'. discharge n b = (b', Ok k) \<and> good b' \<and> charge b' = (charge b)(n := None)
        \<and> spent b' = spent b - k \<and> limit b' = limit b"
begin

text \<open>A charge taken and given back leaves the ledger as it was.\<close>

lemma acquire_discharge:
  assumes "good b" and "acquire n k b = (b1, Ok u)"
  shows "\<exists>b2. discharge n b1 = (b2, Ok k) \<and> good b2 \<and> charge b2 = charge b
    \<and> spent b2 = spent b \<and> limit b2 = limit b"
proof -
  note acq = acquire_ok [OF assms]
  then have "charge b1 n = Some k" by simp
  with acq obtain b2 where "discharge n b1 = (b2, Ok k)" "good b2"
    "charge b2 = (charge b1)(n := None)" "spent b2 = spent b1 - k" "limit b2 = limit b1"
    using discharge_ok [of b1 n k] by auto
  with acq show ?thesis by (auto simp: fun_eq_iff)
qed

text \<open>Discharging a list of charges never fails and frees exactly their sum.\<close>

lemma release_each_ok:
  assumes "good b" and "distinct ns" and "\<And>n. n \<in> set ns \<Longrightarrow> charge b n \<noteq> None"
  shows "\<exists>b'. release_each discharge ns b = (b', True) \<and> good b'
    \<and> (\<forall>n. charge b' n = (if n \<in> set ns then None else charge b n))
    \<and> spent b = spent b' + sum_list (map (\<lambda>n. the (charge b n)) ns) \<and> limit b' = limit b"
  using assms
proof (induction ns arbitrary: b)
  case Nil
  then show ?case by simp
next
  case (Cons n ns)
  then obtain k where k: "charge b n = Some k" by fastforce
  obtain b1 where b1: "discharge n b = (b1, Ok k)" "good b1" "charge b1 = (charge b)(n := None)"
    "spent b1 = spent b - k" "limit b1 = limit b"
    using discharge_ok [OF Cons.prems(1) k] by blast
  have others: "n' \<in> set ns \<Longrightarrow> charge b1 n' = charge b n'" for n'
    using b1(3) Cons.prems(2) by auto
  then have charged: "\<And>n'. n' \<in> set ns \<Longrightarrow> charge b1 n' \<noteq> None" using Cons.prems(3) by simp
  have dist: "distinct ns" using Cons.prems(2) by simp
  have "\<exists>b'. release_each discharge ns b1 = (b', True) \<and> good b'
    \<and> (\<forall>n. charge b' n = (if n \<in> set ns then None else charge b1 n))
    \<and> spent b1 = spent b' + sum_list (map (\<lambda>n. the (charge b1 n)) ns) \<and> limit b' = limit b1"
    by (rule Cons.IH [OF b1(2) dist]) (rule charged)
  then obtain b' where b': "release_each discharge ns b1 = (b', True)" "good b'"
    "\<forall>n. charge b' n = (if n \<in> set ns then None else charge b1 n)"
    "spent b1 = spent b' + sum_list (map (\<lambda>n. the (charge b1 n)) ns)" "limit b' = limit b1"
    by blast
  have "map (\<lambda>n. the (charge b1 n)) ns = map (\<lambda>n. the (charge b n)) ns"
    using others by (simp del: fun_upd_apply)
  then have "sum_list (map (\<lambda>n. the (charge b1 n)) ns) = sum_list (map (\<lambda>n. the (charge b n)) ns)"
    by (rule arg_cong)
  with b'(4) b1(4) charge_le_spent [OF Cons.prems(1) k]
  have "spent b = spent b' + (k + sum_list (map (\<lambda>n. the (charge b n)) ns))" by linarith
  then show ?case using b1(1,3,5) b'(1-3,5) k by simp
qed

end

text \<open>
  A ledger whose charges can be replaced: \<open>settle\<close> turns an old charge and the reservation
  made for its successor into one charge.
\<close>

locale resizable_ledger = budget_ledger good charge spent limit acquire discharge
  for good :: "'b \<Rightarrow> bool"
    and charge :: "'b \<Rightarrow> 's \<Rightarrow> nat option"
    and spent :: "'b \<Rightarrow> nat"
    and limit :: "'b \<Rightarrow> nat"
    and acquire :: "'s \<Rightarrow> nat \<Rightarrow> 'b \<Rightarrow> 'b \<times> (unit, 'e) result"
    and discharge :: "'s \<Rightarrow> 'b \<Rightarrow> 'b \<times> (nat, 'e) result" +
  fixes settle :: "'s \<Rightarrow> 's \<Rightarrow> nat \<Rightarrow> 'b \<Rightarrow> 'b \<times> (unit, 'e) result"
  assumes settle_ok: "good b \<Longrightarrow> charge b t = Some x \<Longrightarrow> charge b r = Some y \<Longrightarrow> t \<noteq> r \<Longrightarrow> 0 < k \<Longrightarrow>
    spent b - x - y + k \<le> limit b \<Longrightarrow>
    \<exists>b'. settle t r k b = (b', Ok ()) \<and> good b' \<and> charge b' = (charge b)(r := None, t \<mapsto> k)
      \<and> spent b' = spent b - x - y + k \<and> limit b' = limit b"
begin

text \<open>
  The growth protocol: while the reservation stands both sizes are charged; settling it leaves
  one charge of the new size, and cannot fail.
\<close>

lemma reserve_then_settle:
  assumes "good b" and "charge b t = Some x" and "t \<noteq> r" and "acquire r k b = (b1, Ok u)"
  shows "spent b1 = spent b + k \<and> charge b1 t = Some x \<and> charge b1 r = Some k \<and>
    (\<exists>b2. settle t r k b1 = (b2, Ok ()) \<and> good b2 \<and> charge b2 = (charge b)(t \<mapsto> k)
      \<and> spent b2 = spent b - x + k \<and> limit b2 = limit b)"
proof -
  note acq = acquire_ok [OF assms(1,4)]
  have t: "charge b1 t = Some x" and r: "charge b1 r = Some k" using acq assms(2,3) by simp_all
  have le: "x \<le> spent b" using charge_le_spent [OF assms(1,2)] .
  have "spent b1 - x - k + k \<le> limit b1"
    using acq le spent_le_limit [of b1] by auto
  then obtain b2 where b2: "settle t r k b1 = (b2, Ok ())" "good b2"
    "charge b2 = (charge b1)(r := None, t \<mapsto> k)" "spent b2 = spent b1 - x - k + k"
    "limit b2 = limit b1"
    using settle_ok [OF _ t r assms(3)] acq by blast
  have "charge b2 = (charge b)(t \<mapsto> k)" using b2(3) acq assms(3) by (auto simp: fun_eq_iff)
  then show ?thesis using b2 t r acq le by simp
qed

end

interpretation mb: resizable_ledger budget_ok budget_get used total allocate release commit_resize
proof unfold_locales
  fix b :: memory_budget and n k u b'
  show "budget_ok b \<Longrightarrow> used b \<le> total b" by (rule budget_okD)
  show "budget_ok b \<Longrightarrow> budget_get b n = Some k \<Longrightarrow> k \<le> used b" by (rule budget_get_le_used)
  show "budget_ok b \<Longrightarrow> allocate n k b = (b', Ok u) \<Longrightarrow>
      budget_ok b' \<and> budget_get b n = None \<and> 0 < k \<and> budget_get b' = (budget_get b)(n \<mapsto> k)
      \<and> used b' = used b + k \<and> total b' = total b"
    using allocate_ok [of b n k b' u] by blast
  show "budget_ok b \<Longrightarrow> allocate n k b = (b', Err e) \<Longrightarrow> b' = b" for e by (rule allocate_err)
  show "budget_ok b \<Longrightarrow> \<not> is_panic (snd (allocate n k b))" by (simp add: allocate_result)
  show "budget_ok b \<Longrightarrow> 0 < k \<Longrightarrow> budget_get b n = None \<Longrightarrow> used b + k \<le> total b \<Longrightarrow>
      \<exists>b'. allocate n k b = (b', Ok ())"
    by (rule allocate_fits)
  show "budget_ok b \<Longrightarrow> budget_get b n = Some k \<Longrightarrow>
      \<exists>b'. release n b = (b', Ok k) \<and> budget_ok b' \<and> budget_get b' = (budget_get b)(n := None)
        \<and> used b' = used b - k \<and> total b' = total b"
    using release_ok [of b n k] by blast
  show "budget_ok b \<Longrightarrow> budget_get b t = Some x \<Longrightarrow> budget_get b r = Some y \<Longrightarrow> t \<noteq> r \<Longrightarrow> 0 < k \<Longrightarrow>
      used b - x - y + k \<le> total b \<Longrightarrow>
      \<exists>b'. commit_resize t r k b = (b', Ok ()) \<and> budget_ok b'
        \<and> budget_get b' = (budget_get b)(r := None, t \<mapsto> k)
        \<and> used b' = used b - x - y + k \<and> total b' = total b" for t r x y
    using commit_resize_ok [of b t x r y k] by blast
qed


subsection \<open>Runs of the ledger\<close>

text \<open>One step is any public mutating call, whatever its outcome.\<close>

inductive budget_step :: "memory_budget \<Rightarrow> memory_budget \<Rightarrow> bool" where
  step_allocate: "allocate n k b = (b', r) \<Longrightarrow> budget_step b b'"
| step_reserve: "reserve n k b = (b', r) \<Longrightarrow> budget_step b b'"
| step_release: "release n b = (b', q) \<Longrightarrow> budget_step b b'"
| step_resize: "resize n k b = (b', q) \<Longrightarrow> budget_step b b'"
| step_commit: "commit_resize t n k b = (b', r) \<Longrightarrow> budget_step b b'"
| step_rename: "rename_prefix op np b = (b', names) \<Longrightarrow> budget_step b b'"

inductive_cases budget_stepE: "budget_step b b'"

lemma failed_keeps:
  shows "allocate n k b = (b', r) \<Longrightarrow> \<not> is_ok r \<Longrightarrow> b' = b"
    and "release n b = (b', q) \<Longrightarrow> \<not> is_ok q \<Longrightarrow> b' = b"
    and "resize n k b = (b', q) \<Longrightarrow> \<not> is_ok q \<Longrightarrow> b' = b"
    and "commit_resize t n k b = (b', r) \<Longrightarrow> \<not> is_ok r \<Longrightarrow> b' = b"
  by (auto simp: allocate_def release_def resize_def commit_resize_def Let_def
      split: if_splits option.splits)

lemma rename_prefix_failed:
  assumes ok: "budget_ok b" and ren: "rename_prefix op np b = (b', r)" and bad: "\<not> is_ok r"
  shows "b' = b \<and> \<not> is_panic r"
proof (cases "find (\<lambda>(_, new_name). om_mem (allocations b) new_name)
    (rename_targets op np (om_keys (allocations b)))")
  case (Some p)
  then show ?thesis using ren by (cases p) (auto simp: rename_prefix_def Let_def split: if_splits)
next
  case None
  show ?thesis
  proof (cases "rename_targets op np (om_keys (allocations b)) = []")
    case True
    then show ?thesis using ren by (auto simp: rename_prefix_def)
  next
    case False
    then obtain old new where mem: "(old, new) \<in> set (rename_targets op np (om_keys (allocations b)))"
      by (metis ex_in_conv set_empty surj_pair)
    then obtain s where s: "budget_get b (op @ s) \<noteq> None"
      by (auto simp: set_rename_targets budget_get_keys)
    have free: "budget_get b (np @ s) = None" if "budget_get b (op @ s) \<noteq> None" for s
    proof -
      have "(op @ s, np @ s) \<in> set (rename_targets op np (om_keys (allocations b)))"
        using that by (simp only: set_rename_targets budget_get_keys) blast
      then have "\<not> om_mem (allocations b) (np @ s)"
        using None by (auto simp only: find_None_iff split: prod.splits)
      then show ?thesis by (simp add: om_mem_iff budget_get_def)
    qed
    obtain b2 names where "rename_prefix op np b = (b2, Ok names)"
      using rename_prefix_total [OF ok s free] by blast
    then show ?thesis using ren bad by simp
  qed
qed

lemma commit_resize_inv:
  assumes "commit_resize t n k b = (b', Ok u)" and "budget_ok b"
  shows "\<exists>x y. budget_get b t = Some x \<and> budget_get b n = Some y \<and> t \<noteq> n \<and> 0 < k
    \<and> used b - x - y + k \<le> total b"
proof -
  from assms(1) obtain x y where *: "budget_get b t = Some x" "budget_get b n = Some y"
    "t \<noteq> n" "0 < k"
    by (auto simp: commit_resize_def budget_get_def split: if_splits option.splits)
  have "used b - x - y + k \<le> total b"
    using assms(1) commit_resize_result [OF assms(2) *] by (auto split: if_splits)
  with * show ?thesis by blast
qed

lemma commit_resize_outcome:
  assumes "budget_ok b"
  shows "(\<exists>u. snd (commit_resize t n k b) = Ok u) \<or> (\<exists>e. commit_resize t n k b = (b, Err e))"
proof (cases "budget_get b t = None \<or> budget_get b n = None \<or> t = n \<or> k = 0")
  case True
  then show ?thesis by (auto simp: commit_resize_def budget_get_def split: option.splits)
next
  case False
  then obtain x y where xy: "budget_get b t = Some x" "budget_get b n = Some y" by auto
  with False show ?thesis
    by (cases "U64_MAX < used b - x - y + k") (auto simp: commit_resize_result [OF assms xy])
qed

abbreviation budget_keeps :: "memory_budget \<Rightarrow> memory_budget \<Rightarrow> bool" where
  "budget_keeps b b' \<equiv> budget_ok b' \<and> total b' = total b \<and> peak_used b \<le> peak_used b'"

lemma allocate_keeps: "budget_ok b \<Longrightarrow> allocate n k b = (b', r) \<Longrightarrow> budget_keeps b b'"
  using allocate_ok [of b n k b'] failed_keeps(1) [of n k b b' r]
  by (cases r) auto

lemma release_keeps: "budget_ok b \<Longrightarrow> release n b = (b', q) \<Longrightarrow> budget_keeps b b'"
  using release_ok [of b n] release_missing [of b n] by (cases "budget_get b n") auto

lemma resize_keeps: "budget_ok b \<Longrightarrow> resize n k b = (b', q) \<Longrightarrow> budget_keeps b b'"
  using resize_ok [of b n k b'] failed_keeps(3) [of n k b b' q] by (cases q) auto

lemma commit_resize_keeps: "budget_ok b \<Longrightarrow> commit_resize t n k b = (b', r) \<Longrightarrow> budget_keeps b b'"
proof (cases r)
  case (Ok u)
  assume ok: "budget_ok b" and c: "commit_resize t n k b = (b', r)"
  then obtain x y where "budget_get b t = Some x" "budget_get b n = Some y" "t \<noteq> n" "0 < k"
    "used b - x - y + k \<le> total b"
    using commit_resize_inv [of t n k b b' u] Ok by blast
  from commit_resize_ok [OF ok this] c show ?thesis by auto
qed (use failed_keeps(4) [of t n k b b' r] in auto)

lemma rename_prefix_keeps:
  "budget_ok b \<Longrightarrow> rename_prefix op np b = (b', names) \<Longrightarrow> budget_keeps b b'"
  using rename_prefix_ok(1-4) [of b op np b'] rename_prefix_failed [of b op np b' names]
  by (cases names) auto

lemmas budget_op_keeps =
  allocate_keeps release_keeps resize_keeps commit_resize_keeps rename_prefix_keeps

lemma budget_step_ok:
  assumes "budget_step b b'" and "budget_ok b"
  shows "budget_keeps b b'"
  using assms by (cases rule: budget_step.cases) (auto simp: reserve_def dest: budget_op_keeps)

lemma budget_steps_ok:
  "budget_step\<^sup>*\<^sup>* b b' \<Longrightarrow> budget_ok b \<Longrightarrow> budget_ok b' \<and> total b' = total b"
  by (induction rule: rtranclp_induct) (auto dest: budget_step_ok)

subsection \<open>Properties\<close>

text \<open>
  C1: after any sequence of public calls on a fresh budget, whatever succeeded or failed, the
  used bytes are exactly the sum of the live charges, they never exceed the total the budget was
  created with, and the recorded peak lies between the two. (The bound on \<open>n\<close> is the width of
  \<open>u64\<close>.)
\<close>

theorem budget_run_invariant:
  assumes "n \<le> U64_MAX" and "budget_new n = Ok b0" and "budget_step\<^sup>*\<^sup>* b0 b"
  shows "used b = om_total id (allocations b) \<and> used b \<le> total b \<and> total b = n
    \<and> used b \<le> peak_used b \<and> peak_used b \<le> n"
proof -
  have "budget_ok b0" and "total b0 = n" using budget_ok_new assms(1,2) by blast+
  then have "budget_ok b \<and> total b = n" using budget_steps_ok [OF assms(3)] by simp
  then show ?thesis by (auto simp: budget_ok_def)
qed

theorem budget_run_invariant_witness:
  "\<exists>b::memory_budget. used b = 4 \<and> used b = om_total id (allocations b) \<and> used b \<le> peak_used b \<and> peak_used b \<le> 10"
proof -
  let ?b0 = "\<lparr>total = 10, allocations = [], used = 0, peak_used = 0\<rparr>"
  have new: "budget_new 10 = Ok ?b0" by (simp add: budget_new_def)
  obtain b r where b: "allocate ''kv_cache'' 4 ?b0 = (b, r)" by (cases "allocate ''kv_cache'' 4 ?b0")
  then have "used b = 4"
    by (auto simp: allocate_def om_mem_def available_bytes_def checked_sub_def checked_add_def
        U64_MAX_def)
  moreover have "budget_step\<^sup>*\<^sup>* ?b0 b" using step_allocate [OF b] by blast
  moreover have "10 \<le> U64_MAX" by (simp add: U64_MAX_def)
  ultimately show ?thesis
    using budget_run_invariant [OF \<open>10 \<le> U64_MAX\<close> new, of b] by metis
qed

text \<open>
  A call that does not succeed changes nothing, and no call panics: on a well-formed budget,
  \<open>allocate\<close>, \<open>release\<close>, \<open>resize\<close>, \<open>commit_resize\<close> and \<open>rename_prefix\<close> either return
  \<open>Ok\<close> or return an error with the budget unchanged.
\<close>

theorem failed_call_keeps_budget:
  assumes "budget_ok b"
  shows "((\<exists>u. snd (allocate n k b) = Ok u) \<or> (\<exists>e. allocate n k b = (b, Err e)))
    \<and> ((\<exists>u. snd (release n b) = Ok u) \<or> (\<exists>e. release n b = (b, Err e)))
    \<and> ((\<exists>u. snd (resize n k b) = Ok u) \<or> (\<exists>e. resize n k b = (b, Err e)))
    \<and> ((\<exists>u. snd (commit_resize t n k b) = Ok u) \<or> (\<exists>e. commit_resize t n k b = (b, Err e)))
    \<and> ((\<exists>u. snd (rename_prefix p q b) = Ok u) \<or> (\<exists>e. rename_prefix p q b = (b, Err e)))"
proof (intro conjI)
  show "(\<exists>u. snd (allocate n k b) = Ok u) \<or> (\<exists>e. allocate n k b = (b, Err e))"
    using assms by (auto simp: allocate_result)
  show "(\<exists>u. snd (release n b) = Ok u) \<or> (\<exists>e. release n b = (b, Err e))"
    using assms by (auto simp: release_result split: option.splits)
  show "(\<exists>u. snd (resize n k b) = Ok u) \<or> (\<exists>e. resize n k b = (b, Err e))"
    using assms by (auto simp: resize_result split: option.splits)
  show "(\<exists>u. snd (commit_resize t n k b) = Ok u) \<or> (\<exists>e. commit_resize t n k b = (b, Err e))"
    by (rule commit_resize_outcome) fact
  show "(\<exists>u. snd (rename_prefix p q b) = Ok u) \<or> (\<exists>e. rename_prefix p q b = (b, Err e))"
    using rename_prefix_failed [OF assms, of p q]
    by (cases "rename_prefix p q b"; cases "snd (rename_prefix p q b)") auto
qed

theorem failed_call_keeps_budget_witness:
  "\<exists>e. allocate ''a'' 11 \<lparr>total = 10, allocations = [], used = 0, peak_used = 0\<rparr>
     = (\<lparr>total = 10, allocations = [], used = 0, peak_used = 0\<rparr>, Err e)"
proof -
  let ?b = "\<lparr>total = 10, allocations = [], used = 0, peak_used = 0\<rparr> :: memory_budget"
  have "budget_ok ?b" by (simp add: budget_ok_def U64_MAX_def)
  moreover have "snd (allocate ''a'' 11 ?b) \<noteq> Ok u" for u
    by (simp add: allocate_def om_mem_def available_bytes_def checked_sub_def)
  ultimately show ?thesis using failed_call_keeps_budget [of ?b "''a''" 11] by auto
qed


text \<open>The temporary charge around any closure that leaves the other charges alone.\<close>

lemma with_temp_run:
  assumes ok: "budget_ok b" and pos: "0 < k"
    and f: "\<And>b1. allocate n k b = (b1, Ok ()) \<Longrightarrow>
      budget_ok (fst (f b1)) \<and> budget_get (fst (f b1)) n = Some k"
    and run: "with_temp g n k f b = (b', r)"
  shows "(\<exists>e. allocate n k b = (b, Err e) \<and> b' = b \<and> r = Err (g e)) \<or>
    (\<exists>b1. allocate n k b = (b1, Ok ()) \<and> r = snd (f b1) \<and> budget_ok b'
      \<and> budget_get b' = (budget_get (fst (f b1)))(n := None) \<and> used b' + k = used (fst (f b1)))"
proof -
  obtain b1 r1 where a: "allocate n k b = (b1, r1)" by (cases "allocate n k b")
  show ?thesis
  proof (cases r1)
    case (Ok u)
    then have a: "allocate n k b = (b1, Ok ())" using a by simp
    obtain b2 r2 where f2: "f b1 = (b2, r2)" by (cases "f b1")
    with f [OF a] have ok2: "budget_ok b2" and get2: "budget_get b2 n = Some k" by simp_all
    from release_ok [OF this] obtain b3 where "release n b2 = (b3, Ok k)" "budget_ok b3"
      "budget_get b3 = (budget_get b2)(n := None)" "used b3 = used b2 - k" by blast
    moreover have "k \<le> used b2" using budget_get_le_used [OF ok2 get2] .
    ultimately show ?thesis using run pos a f2 by (simp add: with_temp_def)
  next
    case (Err e)
    then show ?thesis using run pos a allocate_err [OF ok] by (auto simp: with_temp_def)
  next
    case (Panic m)
    then show ?thesis using a mb.acquire_no_panic [OF ok, of n k] by simp
  qed
qed

text \<open>
  The scoped helper never leaks. If the closure, on every budget it can be given, keeps the
  budget well-formed and its charges as it found them, then after \<open>with_temp\<close> the charges and the
  used bytes are those before the call, whether the closure succeeded, failed or panicked, and
  its outcome is passed through unchanged once the reservation was made.
\<close>

theorem with_temp_no_leak:
  assumes "budget_ok b"
    and "\<And>b1. budget_ok b1 \<Longrightarrow> budget_ok (fst (f b1)) \<and> allocations (fst (f b1)) = allocations b1"
    and "with_temp g n k f b = (b', r)"
  shows "budget_ok b' \<and> allocations b' = allocations b \<and> used b' = used b \<and>
    (\<forall>b1. 0 < k \<and> allocate n k b = (b1, Ok ()) \<longrightarrow> r = snd (f b1)) \<and>
    (\<forall>e. 0 < k \<and> allocate n k b = (b, Err e) \<longrightarrow> r = Err (g e))"
proof (cases "k = 0")
  case True
  then have "f b = (b', r)" using assms(3) by (simp add: with_temp_def)
  then have "budget_ok b'" and "allocations b' = allocations b" using assms(2) [OF assms(1)] by auto
  then show ?thesis using True assms(1) by (simp add: budget_ok_def)
next
  case False
  then have pos: "0 < k" by simp
  have keeps: "budget_ok (fst (f b1)) \<and> budget_get (fst (f b1)) n = Some k"
    if a: "allocate n k b = (b1, Ok ())" for b1
  proof -
    note acq = allocate_ok [OF assms(1) a]
    have "budget_get (fst (f b1)) n = budget_get b1 n"
      using assms(2) [OF acq(1)] by (simp add: budget_get_def)
    then show ?thesis using acq(4) assms(2) [OF acq(1)] by simp
  qed
  have "(\<exists>e. allocate n k b = (b, Err e) \<and> b' = b \<and> r = Err (g e)) \<or>
    (\<exists>b1. allocate n k b = (b1, Ok ()) \<and> r = snd (f b1) \<and> budget_ok b'
      \<and> budget_get b' = (budget_get (fst (f b1)))(n := None) \<and> used b' + k = used (fst (f b1)))"
    by (rule with_temp_run [OF assms(1) pos _ assms(3)]) (rule keeps)
  then show ?thesis
  proof (elim disjE exE conjE)
    fix e assume "allocate n k b = (b, Err e)" "b' = b" "r = Err (g e)"
    then show ?thesis using assms(1) by simp
  next
    fix b1 assume a: "allocate n k b = (b1, Ok ())" and r: "r = snd (f b1)" and ok': "budget_ok b'"
      and get: "budget_get b' = (budget_get (fst (f b1)))(n := None)"
    note acq = allocate_ok [OF assms(1) a]
    have "budget_get (fst (f b1)) = budget_get b1"
      using assms(2) [OF acq(1)] by (simp add: budget_get_def fun_eq_iff)
    then have "om_get (allocations b') = om_get (allocations b)"
      using get acq(2,4) by (auto simp: budget_get_def fun_eq_iff)
    then have same: "allocations b' = allocations b"
      using om_eqI budget_okD(1) ok' assms(1) by blast
    then have "used b' = used b" using ok' assms(1) by (simp add: budget_ok_def)
    then show ?thesis using ok' same r a by simp
  qed
qed

theorem with_temp_no_leak_witness:
  "\<exists>b' r. with_temp id ''tmp'' 4 (\<lambda>b. (b, Panic ''boom''))
     \<lparr>total = 10, allocations = [], used = 0, peak_used = 0\<rparr> = (b', (r :: (nat, memory_error) result))
     \<and> allocations b' = [] \<and> r = Panic ''boom''"
proof -
  let ?b = "\<lparr>total = 10, allocations = [], used = 0, peak_used = 0\<rparr> :: memory_budget"
  let ?f = "\<lambda>b. (b, Panic ''boom'') :: memory_budget \<times> (nat, memory_error) result"
  obtain b' r where w: "with_temp id ''tmp'' 4 ?f ?b = (b', r)"
    by (cases "with_temp id ''tmp'' 4 ?f ?b")
  have ok: "budget_ok ?b" by (simp add: budget_ok_def U64_MAX_def)
  have "\<exists>b1. allocate ''tmp'' 4 ?b = (b1, Ok ())"
    by (rule allocate_fits [OF ok]) (simp_all add: budget_get_def)
  then show ?thesis using with_temp_no_leak [OF ok _ w] w by auto
qed

text \<open>
  A successful \<open>rename_prefix\<close> moves exactly the charges below the old prefix: afterwards the
  charge of a name is the one its old name had, the old names are free, every other charge is
  where it was, the byte totals are unchanged, and the returned names are the new names in map
  order.
\<close>

theorem rename_prefix_moves_charges:
  assumes "budget_ok b" and "rename_prefix op np b = (b', Ok names)"
  shows "(\<forall>n. budget_get b' n =
      (if starts_with n np \<and> budget_get b (op @ drop (length np) n) \<noteq> None
       then budget_get b (op @ drop (length np) n)
       else if starts_with n op then None else budget_get b n))
    \<and> used b' = used b \<and> peak_used b' = peak_used b \<and> budget_ok b'
    \<and> names = map (\<lambda>old. np @ drop (length op) old)
        (filter (\<lambda>n. starts_with n op) (om_keys (allocations b)))"
  using rename_prefix_ok [OF assms] by (auto simp: rename_targets_def comp_def)

theorem rename_prefix_moves_charges_witness:
  "\<exists>b'. rename_prefix ''layer:'' ''cache:''
      \<lparr>total = 10, allocations = [(''kv'', 1), (''layer:3'', 4)], used = 5, peak_used = 5\<rparr>
      = (b', Ok [''cache:3'']) \<and> budget_get b' ''cache:3'' = Some 4 \<and> used b' = 5"
proof -
  let ?b = "\<lparr>total = 10, allocations = [(''kv'', 1), (''layer:3'', 4)], used = 5, peak_used = 5\<rparr>
    :: memory_budget"
  have ok: "budget_ok ?b" by (simp add: budget_ok_def U64_MAX_def om_ok_def less_char_def)
  obtain b' names where run: "rename_prefix ''layer:'' ''cache:'' ?b = (b', Ok names)"
    by (simp add: rename_prefix_def rename_targets_def om_keys_def starts_with_def om_mem_def)
  from rename_prefix_moves_charges [OF ok run] have
    "budget_get b' ''cache:3'' = Some 4" and "names = [''cache:3'']" and "used b' = 5"
    by (simp_all add: budget_get_def starts_with_def om_keys_def)
  with run show ?thesis by blast
qed

end
