(* ===== verification/Bounded_Cache.thy ===== *)
theory Bounded_Cache
  imports Memory_Budget
begin

section \<open>The bounded LRU cache\<close>

text \<open>
  \<open>BoundedCache\<close> of \<open>crates/ramforge-core/src/cache.rs\<close>: byte buffers under string keys, a
  strict byte capacity, least-recently-used eviction, and the budget-charged operations that
  keep a charge \<open>cache:<key>\<close> in the \<open>MemoryBudget\<close> for every entry. The recency queue has the
  most recently used key in front. \<open>cache_ok\<close> is the cache's own invariant; \<open>cache_charged\<close>
  says that the charges of the budget below \<open>cache:\<close> are exactly the entries of the cache.
  An \<open>unwrap_or_else(|e| panic!(...))\<close> and an \<open>expect\<close> are \<open>Panic\<close> with the fixed part of their
  message; so are the error texts that the code formats.
\<close>

record cache_stats =
  hits :: u64
  misses :: u64
  evictions :: u64
  current_bytes :: u64
  capacity_bytes :: u64
  num_entries :: usize

record cache_entry =
  ce_data :: "byte list"
  ce_size :: u64

record bounded_cache =
  bc_capacity :: u64
  bc_used :: u64
  bc_entries :: "(string, cache_entry) omap"
  bc_lru :: "string list"
  bc_stats :: cache_stats

datatype cache_error = TooLarge u64 u64 | General string

definition cache_new :: "u64 \<Rightarrow> (bounded_cache, cache_error) result" where
  "cache_new capacity =
     (if capacity = 0 then Err (General ''cache capacity must be > 0'')
      else Ok \<lparr>bc_capacity = capacity, bc_used = 0, bc_entries = [], bc_lru = [],
        bc_stats = \<lparr>hits = 0, misses = 0, evictions = 0, current_bytes = 0,
          capacity_bytes = capacity, num_entries = 0\<rparr>\<rparr>)"

definition cache_available_bytes :: "bounded_cache \<Rightarrow> u64 option" where
  "cache_available_bytes c = checked_sub (bc_capacity c) (bc_used c)"

definition cache_len :: "bounded_cache \<Rightarrow> usize" where
  "cache_len c = length (bc_entries c)"

definition cache_contains :: "bounded_cache \<Rightarrow> string \<Rightarrow> bool" where
  "cache_contains c key = om_mem (bc_entries c) key"

definition cache_peek :: "bounded_cache \<Rightarrow> string \<Rightarrow> byte list option" where
  "cache_peek c key = map_option ce_data (om_get (bc_entries c) key)"

definition cache_get :: "string \<Rightarrow> bounded_cache \<Rightarrow> bounded_cache \<times> byte list option" where
  "cache_get key c =
     (if om_mem (bc_entries c) key
      then (c\<lparr>bc_lru := key # removeAll key (bc_lru c),
              bc_stats := (bc_stats c)\<lparr>hits := wrapping_add (hits (bc_stats c)) 1\<rparr>\<rparr>,
            map_option ce_data (om_get (bc_entries c) key))
      else (c\<lparr>bc_stats := (bc_stats c)\<lparr>misses := wrapping_add (misses (bc_stats c)) 1\<rparr>\<rparr>, None))"

definition update_stats :: "bounded_cache \<Rightarrow> bounded_cache" where
  "update_stats c = c\<lparr>bc_stats := (bc_stats c)\<lparr>current_bytes := bc_used c,
     num_entries := length (bc_entries c)\<rparr>\<rparr>"

definition cache_stats_of :: "bounded_cache \<Rightarrow> cache_stats" where
  "cache_stats_of c = (bc_stats c)\<lparr>current_bytes := bc_used c, capacity_bytes := bc_capacity c,
     num_entries := length (bc_entries c)\<rparr>"

text \<open>
  Dropping the old entry of a key that is replaced: the entry is removed, its size subtracted
  from the usage (a panic if that underflows) and the key taken out of the recency queue.
\<close>

definition drop_replaced :: "string \<Rightarrow> string \<Rightarrow> bounded_cache \<Rightarrow> bounded_cache \<times> (bool, cache_error) result"
where
  "drop_replaced m key c =
     (case om_get (bc_entries c) key of
        None \<Rightarrow> (c, Ok False)
      | Some old \<Rightarrow>
          let c1 = c\<lparr>bc_entries := om_del key (bc_entries c)\<rparr> in
          (case checked_sub (bc_used c1) (ce_size old) of
             None \<Rightarrow> (c1, Panic m)
           | Some u \<Rightarrow> (c1\<lparr>bc_used := u, bc_lru := removeAll key (bc_lru c1)\<rparr>, Ok True)))"

text \<open>The eviction loop of \<open>insert\<close>.\<close>

function evict_for :: "u64 \<Rightarrow> bounded_cache \<Rightarrow> bounded_cache \<times> (unit, cache_error) result" where
  "evict_for sz c =
     (case checked_add (bc_used c) sz of
        None \<Rightarrow> (c, Panic ''BoundedCache accounting overflow while inserting'')
      | Some wanted \<Rightarrow>
          if wanted \<le> bc_capacity c then (c, Ok ())
          else if bc_lru c = []
          then (c, Err (General ''cache LRU is empty while usage exceeds capacity''))
          else
            let lru_key = last (bc_lru c); c1 = c\<lparr>bc_lru := butlast (bc_lru c)\<rparr> in
            (case om_get (bc_entries c1) lru_key of
               None \<Rightarrow> evict_for sz c1
             | Some entry \<Rightarrow>
                 let c2 = c1\<lparr>bc_entries := om_del lru_key (bc_entries c1)\<rparr> in
                 (case checked_sub (bc_used c2) (ce_size entry) of
                    None \<Rightarrow> (c2, Panic ''BoundedCache accounting underflow while evicting'')
                  | Some u \<Rightarrow>
                      evict_for sz (c2\<lparr>bc_used := u,
                        bc_stats := (bc_stats c2)\<lparr>evictions :=
                          wrapping_add (evictions (bc_stats c2)) 1\<rparr>\<rparr>))))"
  by pat_completeness auto
termination
  by (relation "measure (\<lambda>(_, c). length (bc_lru c))") auto

declare evict_for.simps [simp del]

text \<open>The common tail of both insertions: the new entry becomes the most recently used one.\<close>

definition store_entry :: "string \<Rightarrow> string \<Rightarrow> byte list \<Rightarrow> u64 \<Rightarrow> bounded_cache \<Rightarrow>
  bounded_cache \<times> (unit, cache_error) result"
where
  "store_entry m key data sz c =
     (let c1 = c\<lparr>bc_lru := key # bc_lru c,
                 bc_entries := om_put key \<lparr>ce_data = data, ce_size = sz\<rparr> (bc_entries c)\<rparr> in
      (case checked_add (bc_used c1) sz of
         None \<Rightarrow> (c1, Panic m)
       | Some u \<Rightarrow> (update_stats (c1\<lparr>bc_used := u\<rparr>), Ok ())))"

text \<open>The check between the eviction loop and the insertion.\<close>

definition check_fits :: "u64 \<Rightarrow> bounded_cache \<Rightarrow> bounded_cache \<times> (unit, cache_error) result" where
  "check_fits sz c =
     (case checked_add (bc_used c) sz of
        None \<Rightarrow> (c, Err (General ''cache accounting cannot fit entry after eviction''))
      | Some u \<Rightarrow>
          if bc_capacity c < u
          then (c, Err (General ''cache accounting cannot fit entry after eviction''))
          else (c, Ok ()))"

definition cache_insert :: "string \<Rightarrow> byte list \<Rightarrow> bounded_cache \<Rightarrow>
  bounded_cache \<times> (unit, cache_error) result"
where
  "cache_insert key data c =
     (case try_u64 (length data) of
        None \<Rightarrow> (c, Err (General ''cache entry length exceeds u64''))
      | Some sz \<Rightarrow>
          if bc_capacity c < sz then (c, Err (TooLarge sz (bc_capacity c)))
          else sbind (drop_replaced ''BoundedCache accounting underflow while replacing entry'' key c) (\<lambda>c1 _.
            sbind (evict_for sz c1) (\<lambda>c2 _.
              sbind (check_fits sz c2) (\<lambda>c3 _.
                store_entry ''BoundedCache accounting overflow while inserting'' key data sz c3))))"

definition cache_remove :: "string \<Rightarrow> bounded_cache \<Rightarrow>
  bounded_cache \<times> (byte list option, cache_error) result"
where
  "cache_remove key c =
     (case om_get (bc_entries c) key of
        None \<Rightarrow> (c, Ok None)
      | Some entry \<Rightarrow>
          let c1 = c\<lparr>bc_entries := om_del key (bc_entries c)\<rparr> in
          (case checked_sub (bc_used c1) (ce_size entry) of
             None \<Rightarrow> (c1, Panic ''BoundedCache accounting underflow while removing entry'')
           | Some u \<Rightarrow>
               (update_stats (c1\<lparr>bc_used := u, bc_lru := removeAll key (bc_lru c1)\<rparr>),
                Ok (Some (ce_data entry)))))"

definition cache_clear :: "bounded_cache \<Rightarrow> bounded_cache" where
  "cache_clear c = update_stats (c\<lparr>bc_entries := [], bc_lru := [], bc_used := 0\<rparr>)"

subsection \<open>Budget-charged operations\<close>

definition budget_key :: "string \<Rightarrow> string" where
  "budget_key key = ''cache:'' @ key"

type_synonym charged_cache = "bounded_cache \<times> memory_budget"

text \<open>\<open>budget.release(...).unwrap_or_else(|e| panic!(...))\<close>.\<close>

definition release_or_panic :: "string \<Rightarrow> string \<Rightarrow> memory_budget \<Rightarrow>
  memory_budget \<times> (unit, cache_error) result"
where
  "release_or_panic m name b =
     (case release name b of (b', Ok _) \<Rightarrow> (b', Ok ()) | (b', _) \<Rightarrow> (b', Panic m))"

definition evict_lru_budgeted :: "charged_cache \<Rightarrow> charged_cache \<times> (bool, cache_error) result" where
  "evict_lru_budgeted s =
     (let (c, b) = s in
      if bc_lru c = [] then ((c, b), Ok False)
      else
        let lru_key = last (bc_lru c); c1 = c\<lparr>bc_lru := butlast (bc_lru c)\<rparr> in
        (case om_get (bc_entries c1) lru_key of
           None \<Rightarrow> ((c1, b), Ok False)
         | Some entry \<Rightarrow>
             let c2 = c1\<lparr>bc_entries := om_del lru_key (bc_entries c1)\<rparr> in
             (case checked_sub (bc_used c2) (ce_size entry) of
                None \<Rightarrow> ((c2, b), Panic ''BoundedCache accounting underflow while budgeted eviction'')
              | Some u \<Rightarrow>
                  let c3 = c2\<lparr>bc_used := u,
                    bc_stats := (bc_stats c2)\<lparr>evictions :=
                      wrapping_add (evictions (bc_stats c2)) 1\<rparr>\<rparr> in
                  (case release_or_panic ''failed to release evicted cache charge''
                          (budget_key lru_key) b of
                     (b', Ok _) \<Rightarrow> ((update_stats c3, b'), Ok True)
                   | (b', Err e) \<Rightarrow> ((c3, b'), Err e)
                   | (b', Panic m) \<Rightarrow> ((c3, b'), Panic m)))))"

lemma evict_lru_budgeted_shorter:
  "evict_lru_budgeted (c, b) = ((c', b'), Ok True) \<Longrightarrow> length (bc_lru c') < length (bc_lru c)"
  by (auto simp: evict_lru_budgeted_def Let_def update_stats_def
      split: if_splits option.splits prod.splits result.splits)

text \<open>The two eviction loops of \<open>insert_budgeted_with\<close>.\<close>

function evict_capacity :: "u64 \<Rightarrow> charged_cache \<Rightarrow> charged_cache \<times> (unit, cache_error) result" where
  "evict_capacity sz (c, b) =
     (case checked_add (bc_used c) sz of
        None \<Rightarrow> ((c, b), Panic ''BoundedCache accounting overflow while inserting budgeted entry'')
      | Some wanted \<Rightarrow>
          if wanted \<le> bc_capacity c then ((c, b), Ok ())
          else (case evict_lru_budgeted (c, b) of
              (s, Ok evicted) \<Rightarrow>
                if evicted then evict_capacity sz s
                else (s, Err (General ''cache LRU is empty while usage exceeds capacity''))
            | (s, Err e) \<Rightarrow> (s, Err e)
            | (s, Panic m) \<Rightarrow> (s, Panic m)))"
  by pat_completeness auto
termination
  by (relation "measure (\<lambda>(_, c, _). length (bc_lru c))")
    (auto dest: evict_lru_budgeted_shorter [OF sym])

function evict_budget :: "u64 \<Rightarrow> charged_cache \<Rightarrow> charged_cache \<times> (bool, cache_error) result" where
  "evict_budget sz (c, b) =
     (case can_allocate b sz of
        None \<Rightarrow> ((c, b), Panic invariant_message)
      | Some True \<Rightarrow> ((c, b), Ok True)
      | Some False \<Rightarrow>
          (case evict_lru_budgeted (c, b) of
             (s, Ok evicted) \<Rightarrow> if evicted then evict_budget sz s else (s, Ok False)
           | (s, Err e) \<Rightarrow> (s, Err e)
           | (s, Panic m) \<Rightarrow> (s, Panic m)))"
  by pat_completeness auto
termination
  by (relation "measure (\<lambda>(_, c, _). length (bc_lru c))")
    (auto dest: evict_lru_budgeted_shorter [OF sym])

declare evict_capacity.simps [simp del] evict_budget.simps [simp del]

text \<open>
  \<open>insert_budgeted_with\<close>. The builder is the outcome of the closure, run after the charge is
  taken; its panic is caught, the charge rolled back and the panic resumed.
\<close>

definition roll_back :: "string \<Rightarrow> string \<Rightarrow> charged_cache \<Rightarrow> ('a, cache_error) result \<Rightarrow>
  charged_cache \<times> ('a, cache_error) result"
where
  "roll_back m key s r =
     (case release_or_panic m (budget_key key) (snd s) of
        (b', Panic p) \<Rightarrow> ((fst s, b'), Panic p)
      | (b', _) \<Rightarrow> ((fst s, b'), r))"

definition drop_replaced_budgeted :: "string \<Rightarrow> charged_cache \<Rightarrow>
  charged_cache \<times> (unit, cache_error) result"
where
  "drop_replaced_budgeted key s =
     (case drop_replaced ''BoundedCache accounting underflow while replacing budgeted entry''
             key (fst s) of
        (c1, Ok replaced) \<Rightarrow>
          if replaced
          then (case release_or_panic ''failed to release replaced cache charge''
                       (budget_key key) (snd s) of
              (b1, r) \<Rightarrow> ((c1, b1), r))
          else ((c1, snd s), Ok ())
      | (c1, Err e) \<Rightarrow> ((c1, snd s), Err e)
      | (c1, Panic m) \<Rightarrow> ((c1, snd s), Panic m))"

definition build_entry :: "string \<Rightarrow> u64 \<Rightarrow> (byte list, cache_error) result \<Rightarrow> charged_cache \<Rightarrow>
  charged_cache \<times> (bool, cache_error) result"
where
  "build_entry key sz build s =
     (case allocate (budget_key key) sz (snd s) of
        (b1, Err _) \<Rightarrow> ((fst s, b1), Err (General ''budget charge failed''))
      | (b1, Panic m) \<Rightarrow> ((fst s, b1), Panic m)
      | (b1, Ok _) \<Rightarrow>
          (case build of
             Err e \<Rightarrow> roll_back ''failed to roll back cache build charge'' key (fst s, b1) (Err e)
           | Panic m \<Rightarrow>
               roll_back ''failed to roll back cache build charge during unwind'' key (fst s, b1)
                 (Panic m)
           | Ok data \<Rightarrow>
               (case try_u64 (length data) of
                  None \<Rightarrow>
                    roll_back ''failed to release oversized cache build charge'' key (fst s, b1)
                      (Err (General ''cache entry length exceeds u64''))
                | Some actual_size \<Rightarrow>
                    if actual_size \<noteq> sz
                    then roll_back ''failed to release mismatched cache charge'' key (fst s, b1)
                      (Err (General ''cache builder returned a buffer of another size''))
                    else (case store_entry ''BoundedCache accounting overflow after budgeted insert''
                          key data sz (fst s) of
                        (c2, Ok _) \<Rightarrow> ((c2, b1), Ok True)
                      | (c2, Err e) \<Rightarrow> ((c2, b1), Err e)
                      | (c2, Panic m) \<Rightarrow> ((c2, b1), Panic m)))))"

definition insert_budgeted_with :: "string \<Rightarrow> u64 \<Rightarrow> (byte list, cache_error) result \<Rightarrow>
  charged_cache \<Rightarrow> charged_cache \<times> (bool, cache_error) result"
where
  "insert_budgeted_with key sz build s =
     (if sz = 0 then (s, Err (General ''budgeted cache entries must have positive size''))
      else if bc_capacity (fst s) < sz then (s, Err (TooLarge sz (bc_capacity (fst s))))
      else sbind (drop_replaced_budgeted key s) (\<lambda>s1 _.
        sbind (evict_capacity sz s1) (\<lambda>s2 _.
          case check_fits sz (fst s2) of
            (_, Err e) \<Rightarrow> (s2, Err e)
          | (_, Panic m) \<Rightarrow> (s2, Panic m)
          | (_, Ok _) \<Rightarrow>
              sbind (evict_budget sz s2) (\<lambda>s3 room.
                if room then build_entry key sz build s3 else (s3, Ok False)))))"

definition insert_budgeted :: "string \<Rightarrow> byte list \<Rightarrow> charged_cache \<Rightarrow>
  charged_cache \<times> (bool, cache_error) result"
where
  "insert_budgeted key data s =
     (case try_u64 (length data) of
        None \<Rightarrow> (s, Err (General ''cache entry length exceeds u64''))
      | Some sz \<Rightarrow> insert_budgeted_with key sz (Ok data) s)"

text \<open>
  \<open>remove_budgeted\<close>: \<open>reserved\<close> is the outcome of \<open>try_reserve_exact\<close> for the returned copy; when
  the allocator refuses, the entry is dropped all the same and nothing is returned.
\<close>

definition remove_budgeted :: "bool \<Rightarrow> string \<Rightarrow> charged_cache \<Rightarrow>
  charged_cache \<times> (byte list option, cache_error) result"
where
  "remove_budgeted reserved key s =
     (case cache_remove key (fst s) of
        (c1, Ok None) \<Rightarrow> ((c1, snd s), Ok None)
      | (c1, Ok (Some data)) \<Rightarrow>
          roll_back ''failed to release removed cache charge'' key (c1, snd s)
            (Ok (if reserved then Some data else None))
      | (c1, Err e) \<Rightarrow> ((c1, snd s), Err e)
      | (c1, Panic m) \<Rightarrow> ((c1, snd s), Panic m))"

definition clear_budgeted :: "charged_cache \<Rightarrow> charged_cache \<times> (unit, cache_error) result" where
  "clear_budgeted s =
     (let c = fst s; c1 = c\<lparr>bc_entries := [], bc_lru := [], bc_used := 0\<rparr> in
      case release_each release (map budget_key (om_keys (bc_entries c))) (snd s) of
        (b', True) \<Rightarrow> ((update_stats c1, b'), Ok ())
      | (b', False) \<Rightarrow> ((c1, b'), Panic ''failed to release cleared cache charge''))"

subsection \<open>The invariant and the recency view\<close>

definition cache_ok :: "bounded_cache \<Rightarrow> bool" where
  "cache_ok c \<longleftrightarrow> om_ok (bc_entries c) \<and> distinct (bc_lru c)
     \<and> set (bc_lru c) = set (om_keys (bc_entries c))
     \<and> bc_used c = om_total ce_size (bc_entries c)
     \<and> bc_used c \<le> bc_capacity c
     \<and> (\<forall>k e. om_get (bc_entries c) k = Some e \<longrightarrow> ce_size e = length (ce_data e))"

text \<open>
  The abstract cache: the entries in recency order. An insertion keeps the longest prefix of the
  other entries that still fits beside the new one.
\<close>

type_synonym cache_view = "(string \<times> byte list) list"

definition view :: "bounded_cache \<Rightarrow> cache_view" where
  "view c = map (\<lambda>k. (k, ce_data (the (om_get (bc_entries c) k)))) (bc_lru c)"

abbreviation view_bytes :: "cache_view \<Rightarrow> nat" where
  "view_bytes xs \<equiv> sum_list (map (length \<circ> snd) xs)"

abbreviation lru_keep :: "nat \<Rightarrow> cache_view \<Rightarrow> cache_view" where
  "lru_keep room xs \<equiv> fit_prefix (length \<circ> snd) room xs"

definition lru_without :: "string \<Rightarrow> cache_view \<Rightarrow> cache_view" where
  "lru_without key xs = filter (\<lambda>p. fst p \<noteq> key) xs"

definition lru_insert :: "nat \<Rightarrow> string \<Rightarrow> byte list \<Rightarrow> cache_view \<Rightarrow> cache_view" where
  "lru_insert capacity key data xs =
     (key, data) # lru_keep (capacity - length data) (lru_without key xs)"

lemma lru_keep_fst: "set (map fst (lru_keep room xs)) \<subseteq> set (map fst xs)"
  using fit_prefix_subset [of "length \<circ> snd" room xs] by auto

lemma map_fst_view [simp]: "map fst (view c) = bc_lru c"
  by (simp add: view_def comp_def)

lemma view_Nil_iff [simp]: "view c = [] \<longleftrightarrow> bc_lru c = []"
  by (simp add: view_def)

lemma cache_okD:
  assumes "cache_ok c"
  shows "om_ok (bc_entries c)" and "distinct (bc_lru c)" and "bc_used c \<le> bc_capacity c"
    and "k \<in> set (bc_lru c) \<longleftrightarrow> om_get (bc_entries c) k \<noteq> None"
    and "om_get (bc_entries c) k = Some e \<Longrightarrow> ce_size e = length (ce_data e)"
    and "om_get (bc_entries c) k = Some e \<Longrightarrow> ce_size e \<le> bc_used c"
  using assms om_total_get_le [of "bc_entries c" k _ ce_size]
  by (auto simp: cache_ok_def om_mem_iff simp flip: om_mem_keys)

lemma view_bytes_used: "cache_ok c \<Longrightarrow> view_bytes (view c) = bc_used c"
proof -
  assume ok: "cache_ok c"
  let ?m = "bc_entries c"
  have "view_bytes (view c) = sum_list (map (\<lambda>k. length (ce_data (the (om_get ?m k)))) (bc_lru c))"
    by (simp add: view_def comp_def)
  also have "\<dots> = sum_list (map (\<lambda>k. ce_size (the (om_get ?m k))) (bc_lru c))"
    by (rule arg_cong [where f = sum_list], rule map_cong [OF refl])
      (use cache_okD(4,5) [OF ok] in force)
  also have "\<dots> = om_total ce_size ?m"
    using ok by (intro om_total_recency) (simp_all add: cache_ok_def)
  finally show ?thesis using ok by (simp add: cache_ok_def)
qed

text \<open>Reading through the view.\<close>

lemma map_of_view: "cache_ok c \<Longrightarrow> map_of (view c) k = cache_peek c k"
proof -
  assume ok: "cache_ok c"
  show ?thesis
    using cache_okD(4) [OF ok]
    by (auto simp: view_def cache_peek_def map_of_map_restrict restrict_map_def)
qed

text \<open>Dropping one entry, the step every eviction, removal and replacement shares.\<close>

definition cache_without :: "string \<Rightarrow> bounded_cache \<Rightarrow> bounded_cache" where
  "cache_without k c = c\<lparr>bc_lru := removeAll k (bc_lru c), bc_entries := om_del k (bc_entries c),
     bc_used := bc_used c - (case om_get (bc_entries c) k of None \<Rightarrow> 0 | Some e \<Rightarrow> ce_size e)\<rparr>"

lemma cache_ok_cong:
  assumes "bc_entries c' = bc_entries c" and "bc_lru c' = bc_lru c"
    and "bc_used c' = bc_used c" and "bc_capacity c' = bc_capacity c"
  shows "cache_ok c' = cache_ok c" and "view c' = view c"
  using assms by (simp_all add: cache_ok_def view_def)

lemma cache_without_props:
  assumes ok: "cache_ok c"
  shows "cache_ok (cache_without k c)" and "view (cache_without k c) = lru_without k (view c)"
    and "bc_capacity (cache_without k c) = bc_capacity c"
proof -
  have tot: "om_total ce_size (om_del k (bc_entries c)) =
      bc_used c - (case om_get (bc_entries c) k of None \<Rightarrow> 0 | Some e \<Rightarrow> ce_size e)"
    using ok om_total_del [of "bc_entries c" k _ ce_size]
    by (cases "om_get (bc_entries c) k") (fastforce simp: cache_ok_def)+
  have keys: "set (om_keys (om_del k (bc_entries c))) = set (om_keys (bc_entries c)) - {k}"
    by (auto simp: om_keys_def om_del_def)
  show "cache_ok (cache_without k c)"
    using ok tot keys by (auto simp: cache_ok_def cache_without_def distinct_removeAll)
  show "view (cache_without k c) = lru_without k (view c)"
    by (auto simp: view_def cache_without_def lru_without_def filter_map comp_def
        removeAll_filter_not_eq intro!: map_cong filter_cong)
  show "bc_capacity (cache_without k c) = bc_capacity c" by (simp add: cache_without_def)
qed

lemma cache_without_absent: "cache_ok c \<Longrightarrow> om_get (bc_entries c) k = None \<Longrightarrow> cache_without k c = c"
  using cache_okD(4) [of c k] by (simp add: cache_without_def)

lemma cache_without_last:
  assumes ok: "cache_ok c" and "bc_lru c \<noteq> []"
  shows "view (cache_without (last (bc_lru c)) c) = butlast (view c)"
proof -
  have "view (cache_without (last (bc_lru c)) c) =
      map (\<lambda>k. (k, ce_data (the (om_get (bc_entries c) k)))) (removeAll (last (bc_lru c)) (bc_lru c))"
    unfolding cache_without_props(2) [OF ok]
    by (auto simp: view_def lru_without_def filter_map comp_def removeAll_filter_not_eq
        intro!: map_cong filter_cong)
  then show ?thesis
    using butlast_eq_removeAll [OF cache_okD(2) [OF ok] assms(2)] by (simp add: view_def flip: map_butlast)
qed

lemma last_entry:
  assumes "cache_ok c" and "bc_lru c \<noteq> []"
  obtains e where "om_get (bc_entries c) (last (bc_lru c)) = Some e" and "ce_size e \<le> bc_used c"
  using cache_okD(4,6) [OF assms(1), of "last (bc_lru c)"] assms(2) by fastforce

subsection \<open>Insertion\<close>

text \<open>Two caches that differ in their counters only.\<close>

definition same_entries :: "bounded_cache \<Rightarrow> bounded_cache \<Rightarrow> bool" where
  "same_entries c c' \<longleftrightarrow> bc_entries c' = bc_entries c \<and> bc_lru c' = bc_lru c
     \<and> bc_used c' = bc_used c \<and> bc_capacity c' = bc_capacity c"

lemma same_entriesD:
  assumes "same_entries c c'"
  shows "cache_ok c' = cache_ok c" and "view c' = view c" and "bc_used c' = bc_used c"
    and "bc_capacity c' = bc_capacity c" and "bc_entries c' = bc_entries c"
    and "cache_peek c' k = cache_peek c k"
  using assms cache_ok_cong [of c' c] by (auto simp: same_entries_def cache_peek_def)

lemma same_entries_update_stats [simp]: "same_entries c (update_stats c)"
  by (simp add: same_entries_def update_stats_def)

lemma drop_replaced_result:
  assumes ok: "cache_ok c"
  shows "\<exists>replaced. drop_replaced m key c = (cache_without key c, Ok replaced)
    \<and> (replaced \<longleftrightarrow> om_get (bc_entries c) key \<noteq> None)"
  using cache_okD(6) [OF ok, of key] cache_without_absent [OF ok, of key]
  by (cases "om_get (bc_entries c) key")
    (auto simp: drop_replaced_def cache_without_def Let_def checked_sub_def)

lemma evict_for_step:
  assumes ok: "cache_ok c" and full: "bc_capacity c < bc_used c + sz"
    and "sz \<le> bc_capacity c" and "bc_used c + sz \<le> U64_MAX"
  obtains c' where "evict_for sz c = evict_for sz c'" and "cache_ok c'"
    and "bc_capacity c' = bc_capacity c" and "view c' = butlast (view c)"
    and "length (bc_lru c') < length (bc_lru c)"
proof -
  have ne: "bc_lru c \<noteq> []"
    using assms view_bytes_used [OF ok] by (auto simp: view_def)
  obtain e where e: "om_get (bc_entries c) (last (bc_lru c)) = Some e" "ce_size e \<le> bc_used c"
    using last_entry [OF ok ne] .
  let ?c = "cache_without (last (bc_lru c)) c"
  let ?s = "?c\<lparr>bc_stats := (bc_stats c)\<lparr>evictions := wrapping_add (evictions (bc_stats c)) 1\<rparr>\<rparr>"
  have same: "same_entries ?c ?s" by (simp add: same_entries_def)
  have "evict_for sz c = evict_for sz ?s"
    using full ne e assms(4) butlast_eq_removeAll [OF cache_okD(2) [OF ok] ne]
    by (simp add: evict_for.simps [of sz c] Let_def cache_without_def checked_sub_def checked_add_def)
  moreover have "bc_lru ?s = butlast (bc_lru c)"
    using butlast_eq_removeAll [OF cache_okD(2) [OF ok] ne] by (simp add: cache_without_def)
  ultimately show thesis
    using same_entriesD [OF same] cache_without_props [OF ok] cache_without_last [OF ok ne] ne
    by (intro that [of ?s]) simp_all
qed

lemma evict_for_result:
  assumes "cache_ok c" and "sz \<le> bc_capacity c" and "bc_capacity c + sz \<le> U64_MAX"
  shows "\<exists>c'. evict_for sz c = (c', Ok ()) \<and> cache_ok c' \<and> bc_capacity c' = bc_capacity c
    \<and> bc_used c' + sz \<le> bc_capacity c \<and> view c' = lru_keep (bc_capacity c - sz) (view c)"
  using assms
proof (induction "length (bc_lru c)" arbitrary: c rule: less_induct)
  case less
  have fits: "bc_used c + sz \<le> U64_MAX" using less.prems cache_okD(3) by fastforce
  show ?case
  proof (cases "bc_used c + sz \<le> bc_capacity c")
    case True
    then have "lru_keep (bc_capacity c - sz) (view c) = view c"
      using view_bytes_used [OF less.prems(1)] by (intro fit_prefix_all) simp
    then show ?thesis
      using True fits less.prems by (simp add: evict_for.simps [of sz c] checked_add_def)
  next
    case False
    then obtain c' where c': "evict_for sz c = evict_for sz c'" "cache_ok c'"
      "bc_capacity c' = bc_capacity c" "view c' = butlast (view c)"
      "length (bc_lru c') < length (bc_lru c)"
      using evict_for_step [OF less.prems(1) _ less.prems(2) fits] by auto
    have "lru_keep (bc_capacity c - sz) (butlast (view c)) = lru_keep (bc_capacity c - sz) (view c)"
      using False less.prems(2) view_bytes_used [OF less.prems(1)] by (intro fit_prefix_butlast) simp
    then show ?thesis using less.hyps [OF c'(5,2)] less.prems(2,3) c' by simp
  qed
qed

lemma store_entry_result:
  assumes ok: "cache_ok c" and "om_get (bc_entries c) key = None"
    and "length data = sz" and "bc_used c + sz \<le> bc_capacity c" and "bc_capacity c \<le> U64_MAX"
  shows "\<exists>c'. store_entry m key data sz c = (c', Ok ()) \<and> cache_ok c'
    \<and> bc_capacity c' = bc_capacity c \<and> view c' = (key, data) # view c
    \<and> bc_entries c' = om_put key \<lparr>ce_data = data, ce_size = sz\<rparr> (bc_entries c)"
proof -
  let ?c = "c\<lparr>bc_lru := key # bc_lru c,
    bc_entries := om_put key \<lparr>ce_data = data, ce_size = sz\<rparr> (bc_entries c),
    bc_used := bc_used c + sz\<rparr>"
  have m: "om_ok (bc_entries c)" using ok by (rule cache_okD)
  have new: "key \<notin> set (bc_lru c)" using cache_okD(4) [OF ok] assms(2) by auto
  have keys: "set (om_keys (om_put key e (bc_entries c))) = insert key (set (om_keys (bc_entries c)))"
    for e using set_om_put [OF m] by (auto simp: om_keys_def)
  have "cache_ok ?c"
    using ok assms(2-4) new keys om_total_put_new [OF assms(2), of ce_size] m
    by (auto simp: cache_ok_def)
  moreover have "view ?c = (key, data) # view c" using new m by (auto simp: view_def)
  moreover have "store_entry m key data sz c = (update_stats ?c, Ok ())"
    using assms(4,5) by (simp add: store_entry_def Let_def checked_add_def)
  ultimately show ?thesis
    using same_entriesD [OF same_entries_update_stats, of ?c] by simp
qed

lemma lru_without_fst: "set (map fst (lru_without key xs)) = set (map fst xs) - {key}"
  by (auto simp: lru_without_def)

text \<open>What an insertion does, on a machine where \<open>capacity + size\<close> is a \<open>u64\<close>.\<close>

lemma cache_insert_result:
  assumes ok: "cache_ok c" and len: "length data \<le> bc_capacity c"
    and cap: "bc_capacity c + length data \<le> U64_MAX"
  shows "\<exists>c'. cache_insert key data c = (c', Ok ()) \<and> cache_ok c'
    \<and> bc_capacity c' = bc_capacity c \<and> view c' = lru_insert (bc_capacity c) key data (view c)"
proof -
  let ?n = "length data" and ?c1 = "cache_without key c"
  note c1 = cache_without_props [OF ok, of key]
  obtain c2 where c2: "evict_for ?n ?c1 = (c2, Ok ())" "cache_ok c2" "bc_capacity c2 = bc_capacity c"
    "bc_used c2 + ?n \<le> bc_capacity c" "view c2 = lru_keep (bc_capacity c - ?n) (lru_without key (view c))"
    using evict_for_result [OF c1(1), of ?n, unfolded c1(2,3), OF len cap] by blast
  have "key \<notin> set (map fst (view c2))"
    using lru_keep_fst [of "bc_capacity c - ?n" "lru_without key (view c)"]
      lru_without_fst [of key "view c"]
    unfolding c2(5) by blast
  then have absent: "om_get (bc_entries c2) key = None" using cache_okD(4) [OF c2(2)] by simp
  have room: "bc_used c2 + ?n \<le> bc_capacity c2" "bc_capacity c2 \<le> U64_MAX"
    using c2(3,4) cap by simp_all
  obtain c3 where c3: "store_entry ''BoundedCache accounting overflow while inserting''
        key data ?n c2 = (c3, Ok ())" "cache_ok c3" "bc_capacity c3 = bc_capacity c2"
      "view c3 = (key, data) # view c2"
    using store_entry_result [OF c2(2) absent refl] room by blast
  obtain replaced where "drop_replaced ''BoundedCache accounting underflow while replacing entry'' key c
      = (?c1, Ok replaced)"
    using drop_replaced_result [OF ok] by blast
  moreover have "check_fits ?n c2 = (c2, Ok ())"
    using c2(3,4) cap by (simp add: check_fits_def checked_add_def)
  ultimately have "cache_insert key data c = (c3, Ok ())"
    unfolding cache_insert_def try_u64_def using c2(1) c3(1) len cap by simp
  then show ?thesis using c2(3,5) c3(2-4) by (simp add: lru_insert_def)
qed

subsection \<open>The joint invariant of a cache and its budget\<close>

definition cache_charged :: "charged_cache \<Rightarrow> bool" where
  "cache_charged s \<longleftrightarrow> cache_ok (fst s) \<and> budget_ok (snd s)
     \<and> (\<forall>k. budget_get (snd s) (budget_key k) = map_option ce_size (om_get (bc_entries (fst s)) k))"

text \<open>Charges of other owners, and the limit, are untouched.\<close>

definition others_kept :: "memory_budget \<Rightarrow> memory_budget \<Rightarrow> bool" where
  "others_kept b b' \<longleftrightarrow> total b' = total b
     \<and> (\<forall>n. \<not> starts_with n ''cache:'' \<longrightarrow> budget_get b' n = budget_get b n)"

lemma others_kept_refl [simp]: "others_kept b b"
  by (simp add: others_kept_def)

lemma others_kept_trans: "others_kept a b \<Longrightarrow> others_kept b c \<Longrightarrow> others_kept a c"
  by (simp add: others_kept_def)

lemma budget_key_inj [simp]: "budget_key k = budget_key k' \<longleftrightarrow> k = k'"
  by (simp add: budget_key_def)

lemma starts_with_budget_key [simp]: "starts_with (budget_key k) ''cache:''"
  by (simp add: budget_key_def starts_with_def)

text \<open>The bytes of the budget that are not the cache's.\<close>

definition outside :: "charged_cache \<Rightarrow> nat" where
  "outside s = used (snd s) - bc_used (fst s)"

lemma cache_charged_used:
  assumes "cache_charged s"
  shows "bc_used (fst s) \<le> used (snd s)"
proof -
  let ?m = "bc_entries (fst s)"
  have m: "om_ok ?m" using assms cache_okD(1) by (auto simp: cache_charged_def)
  have d: "distinct (map budget_key (om_keys ?m))"
    using om_keys_sorted [OF m] by (auto simp: distinct_map inj_on_def)
  have c: "n \<in> set (map budget_key (om_keys ?m)) \<Longrightarrow> budget_get (snd s) n \<noteq> None" for n
    using assms by (auto simp: cache_charged_def om_mem_iff simp flip: om_mem_keys)
  have "sum_list (map (\<lambda>n. the (budget_get (snd s) n)) (map budget_key (om_keys ?m)))
      \<le> used (snd s)"
    using mb.release_each_ok [OF _ d c] assms by (auto simp: cache_charged_def)
  also have "map (\<lambda>n. the (budget_get (snd s) n)) (map budget_key (om_keys ?m)) =
      map (\<lambda>k. ce_size (the (om_get ?m k))) (om_keys ?m)"
    using assms by (auto simp: cache_charged_def om_mem_iff simp flip: om_mem_keys)
  also have "sum_list \<dots> = bc_used (fst s)"
    using assms om_total_keys [OF m, of ce_size] by (simp add: cache_charged_def cache_ok_def)
  finally show ?thesis .
qed

lemma release_entry_charge:
  assumes ch: "cache_charged (c, b)" and e: "om_get (bc_entries c) k = Some e"
    and same: "same_entries (cache_without k c) c'"
  shows "\<exists>b'. release_or_panic m (budget_key k) b = (b', Ok ()) \<and> cache_charged (c', b')
    \<and> others_kept b b' \<and> outside (c', b') = outside (c, b)"
proof -
  have b: "budget_ok b" and k: "budget_get b (budget_key k) = Some (ce_size e)"
    and ok: "cache_ok c" using ch e by (auto simp: cache_charged_def)
  have le: "bc_used c \<le> used b" "ce_size e \<le> bc_used c"
    using cache_charged_used [OF ch] cache_okD(6) [OF ok e] by auto
  obtain b' where b': "release (budget_key k) b = (b', Ok (ce_size e))" "budget_ok b'"
    "budget_get b' = (budget_get b)(budget_key k := None)" "used b' = used b - ce_size e"
    "total b' = total b"
    using mb.discharge_ok [OF b k] by blast
  have c': "cache_ok c'" "bc_entries c' = om_del k (bc_entries c)" "bc_used c' = bc_used c - ce_size e"
    using same_entriesD(1,3,5) [OF same] cache_without_props(1) [OF ok, of k] e
    by (simp, simp_all add: cache_without_def)
  have "others_kept b b'" using b'(3,5) starts_with_budget_key [of k] by (auto simp: others_kept_def)
  then show ?thesis
    using b' c' ch le by (auto simp: release_or_panic_def cache_charged_def outside_def)
qed

lemma evict_lru_budgeted_empty: "bc_lru c = [] \<Longrightarrow> evict_lru_budgeted (c, b) = ((c, b), Ok False)"
  by (simp add: evict_lru_budgeted_def)

lemma evict_lru_budgeted_step:
  assumes ch: "cache_charged (c, b)" and ne: "bc_lru c \<noteq> []"
  obtains c' b' where "evict_lru_budgeted (c, b) = ((c', b'), Ok True)" and "cache_charged (c', b')"
    and "view c' = butlast (view c)" and "bc_capacity c' = bc_capacity c" and "others_kept b b'"
    and "outside (c', b') = outside (c, b)" and "length (bc_lru c') < length (bc_lru c)"
proof -
  have ok: "cache_ok c" using ch by (simp add: cache_charged_def)
  obtain e where e: "om_get (bc_entries c) (last (bc_lru c)) = Some e" "ce_size e \<le> bc_used c"
    using last_entry [OF ok ne] .
  let ?c = "cache_without (last (bc_lru c)) c"
  let ?s = "?c\<lparr>bc_stats := (bc_stats c)\<lparr>evictions := wrapping_add (evictions (bc_stats c)) 1\<rparr>\<rparr>"
  have same: "same_entries ?c (update_stats ?s)" by (simp add: same_entries_def update_stats_def)
  obtain b' where b': "release_or_panic ''failed to release evicted cache charge''
      (budget_key (last (bc_lru c))) b = (b', Ok ())" "cache_charged (update_stats ?s, b')"
    "others_kept b b'" "outside (update_stats ?s, b') = outside (c, b)"
    using release_entry_charge [OF ch e(1) same] by blast
  have "evict_lru_budgeted (c, b) = ((update_stats ?s, b'), Ok True)"
    using ne e b'(1) butlast_eq_removeAll [OF cache_okD(2) [OF ok] ne]
    by (simp add: evict_lru_budgeted_def Let_def cache_without_def checked_sub_def)
  moreover have "view (update_stats ?s) = butlast (view c)"
    using same_entriesD(2) [OF same] cache_without_last [OF ok ne] by simp
  moreover have "bc_capacity (update_stats ?s) = bc_capacity c"
    using same_entriesD(4) [OF same] by (simp add: cache_without_def)
  ultimately show thesis
    using that [of "update_stats ?s" b'] b'(2-4) evict_lru_budgeted_shorter by blast
qed

subsection \<open>Budgeted insertion\<close>

lemma drop_replaced_budgeted_result:
  assumes ch: "cache_charged (c, b)"
  shows "\<exists>b'. drop_replaced_budgeted key (c, b) = ((cache_without key c, b'), Ok ())
    \<and> cache_charged (cache_without key c, b') \<and> others_kept b b'
    \<and> outside (cache_without key c, b') = outside (c, b)"
proof -
  let ?m = "''BoundedCache accounting underflow while replacing budgeted entry''"
  have ok: "cache_ok c" using ch by (simp add: cache_charged_def)
  obtain replaced where r: "drop_replaced ?m key c = (cache_without key c, Ok replaced)"
    "replaced \<longleftrightarrow> om_get (bc_entries c) key \<noteq> None"
    using drop_replaced_result [OF ok] by blast
  show ?thesis
  proof (cases "om_get (bc_entries c) key")
    case None
    then show ?thesis
      using r cache_without_absent [OF ok None] ch by (simp add: drop_replaced_budgeted_def)
  next
    case (Some e)
    have "same_entries (cache_without key c) (cache_without key c)" by (simp add: same_entries_def)
    from release_entry_charge [OF ch Some this, of "''failed to release replaced cache charge''"]
    show ?thesis using r Some by (auto simp: drop_replaced_budgeted_def)
  qed
qed

text \<open>The capacity loop, as \<open>evict_for\<close>, and the budget loop.\<close>

lemma evict_capacity_result:
  assumes "cache_charged (c, b)" and "sz \<le> bc_capacity c" and "bc_capacity c + sz \<le> U64_MAX"
  shows "\<exists>c' b'. evict_capacity sz (c, b) = ((c', b'), Ok ()) \<and> cache_charged (c', b')
    \<and> bc_capacity c' = bc_capacity c \<and> bc_used c' + sz \<le> bc_capacity c
    \<and> view c' = lru_keep (bc_capacity c - sz) (view c) \<and> others_kept b b'
    \<and> outside (c', b') = outside (c, b)"
  using assms
proof (induction "length (bc_lru c)" arbitrary: c b rule: less_induct)
  case less
  have ok: "cache_ok c" using less.prems(1) by (simp add: cache_charged_def)
  have fits: "bc_used c + sz \<le> U64_MAX" using ok less.prems(3) cache_okD(3) by fastforce
  show ?case
  proof (cases "bc_used c + sz \<le> bc_capacity c")
    case True
    then have "lru_keep (bc_capacity c - sz) (view c) = view c"
      using view_bytes_used [OF ok] by (intro fit_prefix_all) simp
    then show ?thesis
      using True fits less.prems by (simp add: evict_capacity.simps checked_add_def)
  next
    case False
    then have ne: "bc_lru c \<noteq> []"
      using less.prems(2) view_bytes_used [OF ok] by (auto simp: view_def)
    obtain c1 b1 where s: "evict_lru_budgeted (c, b) = ((c1, b1), Ok True)"
      "cache_charged (c1, b1)" "view c1 = butlast (view c)" "bc_capacity c1 = bc_capacity c"
      "others_kept b b1" "outside (c1, b1) = outside (c, b)"
      "length (bc_lru c1) < length (bc_lru c)"
      using evict_lru_budgeted_step [OF less.prems(1) ne] by blast
    have step: "evict_capacity sz (c, b) = evict_capacity sz (c1, b1)"
      using False fits s(1) by (simp add: evict_capacity.simps [of sz c b] checked_add_def)
    have "lru_keep (bc_capacity c - sz) (butlast (view c)) = lru_keep (bc_capacity c - sz) (view c)"
      using False less.prems(2) view_bytes_used [OF ok] by (intro fit_prefix_butlast) simp
    then show ?thesis
      using less.hyps [OF s(7,2)] less.prems(2,3) step s(3-6)
      by (auto intro: others_kept_trans)
  qed
qed

lemma evict_budget_result:
  assumes "cache_charged (c, b)"
  shows "\<exists>c' b'. evict_budget sz (c, b) = ((c', b'), Ok (outside (c, b) + sz \<le> total b))
    \<and> cache_charged (c', b') \<and> bc_capacity c' = bc_capacity c
    \<and> view c' = (if outside (c, b) + sz \<le> total b
                 then lru_keep (total b - outside (c, b) - sz) (view c) else [])
    \<and> others_kept b b' \<and> outside (c', b') = outside (c, b)"
  using assms
proof (induction "length (bc_lru c)" arbitrary: c b rule: less_induct)
  case less
  have ok: "cache_ok c" and b: "budget_ok b" using less.prems by (simp_all add: cache_charged_def)
  have u: "used b = outside (c, b) + bc_used c"
    using cache_charged_used [OF less.prems] by (simp add: outside_def)
  note vb = view_bytes_used [OF ok]
  show ?case
  proof (cases "used b + sz \<le> total b")
    case True
    then have "lru_keep (total b - outside (c, b) - sz) (view c) = view c"
      using vb u by (intro fit_prefix_all) simp
    then show ?thesis
      using True less.prems u by (simp add: evict_budget.simps can_allocate_ok [OF b])
  next
    case full: False
    show ?thesis
    proof (cases "bc_lru c = []")
      case True
      then have "bc_used c = 0" using vb by (simp add: view_def)
      then show ?thesis
        using full True less.prems u
        by (simp add: evict_budget.simps can_allocate_ok [OF b] evict_lru_budgeted_empty)
    next
      case False
      obtain c1 b1 where s: "evict_lru_budgeted (c, b) = ((c1, b1), Ok True)"
        "cache_charged (c1, b1)" "view c1 = butlast (view c)" "bc_capacity c1 = bc_capacity c"
        "others_kept b b1" "outside (c1, b1) = outside (c, b)"
        "length (bc_lru c1) < length (bc_lru c)"
        using evict_lru_budgeted_step [OF less.prems False] by blast
      have step: "evict_budget sz (c, b) = evict_budget sz (c1, b1)"
        using full s(1) by (simp add: evict_budget.simps [of sz c b] can_allocate_ok [OF b])
      have tot: "total b1 = total b" using s(5) by (simp add: others_kept_def)
      have "outside (c, b) + sz \<le> total b \<Longrightarrow>
          lru_keep (total b - outside (c, b) - sz) (butlast (view c)) =
          lru_keep (total b - outside (c, b) - sz) (view c)"
        using full vb u by (intro fit_prefix_butlast) simp
      then show ?thesis
        using less.hyps [OF s(7,2)] step s(3-6) tot
        by (auto intro: others_kept_trans)
    qed
  qed
qed

lemma cache_charged_release:
  assumes ch: "cache_charged (c, b)" and al: "allocate (budget_key key) sz b = (b1, Ok u)"
  shows "\<exists>b'. roll_back m key (c, b1) r = ((c, b'), r) \<and> cache_charged (c, b')
    \<and> others_kept b b'"
proof -
  have b: "budget_ok b" using ch by (simp add: cache_charged_def)
  obtain b' where "release (budget_key key) b1 = (b', Ok sz)" "budget_ok b'"
    "budget_get b' = budget_get b" "total b' = total b"
    using mb.acquire_discharge [OF b al] by blast
  then show ?thesis
    using ch by (auto simp: roll_back_def release_or_panic_def cache_charged_def others_kept_def)
qed

lemma build_entry_result:
  assumes ch: "cache_charged (c, b)" and absent: "om_get (bc_entries c) key = None"
    and cap: "bc_used c + sz \<le> bc_capacity c" "bc_capacity c \<le> U64_MAX"
    and room: "used b + sz \<le> total b" and "0 < sz"
  shows "\<exists>c' b' r. build_entry key sz build (c, b) = ((c', b'), r) \<and> cache_charged (c', b')
    \<and> others_kept b b' \<and> bc_capacity c' = bc_capacity c
    \<and> (case build of
         Ok data \<Rightarrow> if length data = sz then r = Ok True \<and> view c' = (key, data) # view c
                     else (\<exists>m. r = Err (General m)) \<and> view c' = view c
       | Err e \<Rightarrow> r = Err e \<and> view c' = view c
       | Panic p \<Rightarrow> r = Panic p \<and> view c' = view c)"
proof -
  have b: "budget_ok b" and ok: "cache_ok c" using ch by (simp_all add: cache_charged_def)
  have free: "budget_get b (budget_key key) = None" using ch absent by (simp add: cache_charged_def)
  obtain b1 where al: "allocate (budget_key key) sz b = (b1, Ok ())"
    using mb.acquire_fits [OF b assms(6) free room] by blast
  note acq = mb.acquire_ok [OF b al]
  note undo = cache_charged_release [OF ch al]
  show ?thesis
  proof (cases build)
    case (Err e)
    then show ?thesis
      using al undo [of "''failed to roll back cache build charge''" "Err e"]
      by (auto simp: build_entry_def)
  next
    case (Panic p)
    then show ?thesis
      using al undo [of "''failed to roll back cache build charge during unwind''" "Panic p"]
      by (auto simp: build_entry_def)
  next
    case (Ok data)
    show ?thesis
    proof (cases "length data = sz")
      case True
      let ?m = "''BoundedCache accounting overflow after budgeted insert''"
      obtain c' where c': "store_entry ?m key data sz c = (c', Ok ())" "cache_ok c'"
        "bc_capacity c' = bc_capacity c" "view c' = (key, data) # view c"
        "bc_entries c' = om_put key \<lparr>ce_data = data, ce_size = sz\<rparr> (bc_entries c)"
        using store_entry_result [OF ok absent True cap] by blast
      have "cache_charged (c', b1)"
        using ch c'(2,5) acq cache_okD(1) [OF ok] by (auto simp: cache_charged_def)
      moreover have "others_kept b b1"
        using acq starts_with_budget_key [of key] by (auto simp: others_kept_def)
      moreover have "build_entry key sz build (c, b) = ((c', b1), Ok True)"
        using al c'(1) True Ok cap by (simp add: build_entry_def try_u64_def)
      ultimately show ?thesis using c'(3,4) True Ok by simp
    next
      case False
      let ?e = "if length data \<le> U64_MAX
        then Err (General ''cache builder returned a buffer of another size'')
        else Err (General ''cache entry length exceeds u64'') :: (bool, cache_error) result"
      let ?m = "if length data \<le> U64_MAX then ''failed to release mismatched cache charge''
        else ''failed to release oversized cache build charge''"
      have "build_entry key sz build (c, b) = roll_back ?m key (c, b1) ?e"
        using al False Ok by (simp add: build_entry_def try_u64_def)
      then show ?thesis using undo [of ?m ?e] False Ok by auto
    qed
  qed
qed

text \<open>The entries a budgeted insertion leaves beside the new one.\<close>

definition charged_survivors :: "string \<Rightarrow> nat \<Rightarrow> charged_cache \<Rightarrow> cache_view" where
  "charged_survivors key sz s =
     lru_keep (total (snd s) - outside s - sz)
       (lru_keep (bc_capacity (fst s) - sz) (lru_without key (view (fst s))))"

lemma insert_budgeted_with_result:
  assumes ch: "cache_charged (c, b)" and "0 < sz" and le: "sz \<le> bc_capacity c"
    and cap: "bc_capacity c + sz \<le> U64_MAX"
  shows "\<exists>c' b' r. insert_budgeted_with key sz build (c, b) = ((c', b'), r)
    \<and> cache_charged (c', b') \<and> others_kept b b' \<and> bc_capacity c' = bc_capacity c
    \<and> (if total b < outside (c, b) + sz then r = Ok False \<and> view c' = []
       else let xs = charged_survivors key sz (c, b) in case build of
         Ok data \<Rightarrow> if length data = sz then r = Ok True \<and> view c' = (key, data) # xs
                     else (\<exists>m. r = Err (General m)) \<and> view c' = xs
       | Err e \<Rightarrow> r = Err e \<and> view c' = xs
       | Panic p \<Rightarrow> r = Panic p \<and> view c' = xs)"
proof -
  let ?c1 = "cache_without key c"
  obtain b1 where s1: "drop_replaced_budgeted key (c, b) = ((?c1, b1), Ok ())"
    "cache_charged (?c1, b1)" "others_kept b b1" "outside (?c1, b1) = outside (c, b)"
    using drop_replaced_budgeted_result [OF ch] by blast
  have ok: "cache_ok c" using ch by (simp add: cache_charged_def)
  note c1 = cache_without_props(2,3) [OF ok, of key]
  obtain c2 b2 where s2: "evict_capacity sz (?c1, b1) = ((c2, b2), Ok ())" "cache_charged (c2, b2)"
    "bc_capacity c2 = bc_capacity c" "bc_used c2 + sz \<le> bc_capacity c"
    "view c2 = lru_keep (bc_capacity c - sz) (lru_without key (view c))" "others_kept b1 b2"
    "outside (c2, b2) = outside (c, b)"
    using evict_capacity_result [OF s1(2), of sz, unfolded c1 s1(4), OF le cap] by blast
  have fits: "check_fits sz c2 = (c2, Ok ())"
    using s2(3,4) cap by (simp add: check_fits_def checked_add_def)
  have tot: "total b2 = total b" using s1(3) s2(6) by (simp add: others_kept_def)
  obtain c3 b3 where s3: "evict_budget sz (c2, b2) =
      ((c3, b3), Ok (outside (c, b) + sz \<le> total b))" "cache_charged (c3, b3)"
    "bc_capacity c3 = bc_capacity c" "others_kept b2 b3" "outside (c3, b3) = outside (c, b)"
    "view c3 = (if outside (c, b) + sz \<le> total b
                 then lru_keep (total b - outside (c, b) - sz) (view c2) else [])"
    using evict_budget_result [OF s2(2), of sz, unfolded s2(3,7) tot] by blast
  have run: "insert_budgeted_with key sz build (c, b) =
      (if outside (c, b) + sz \<le> total b then build_entry key sz build (c3, b3)
       else ((c3, b3), Ok False))"
    using assms(2) le s1(1) s2(1) fits s3(1) by (simp add: insert_budgeted_with_def)
  have kept: "others_kept b b3" using s1(3) s2(6) s3(4) by (blast intro: others_kept_trans)
  show ?thesis
  proof (cases "outside (c, b) + sz \<le> total b")
    case False
    then show ?thesis using run s3(2,3,6) kept by simp
  next
    case True
    have v3: "view c3 = charged_survivors key sz (c, b)"
      using True s3(6) s2(5) by (simp add: charged_survivors_def)
    have ok3: "cache_ok c3" using s3(2) by (simp add: cache_charged_def)
    let ?xs = "lru_without key (view c)" and ?r = "bc_capacity c - sz"
    have "set (map fst (view c3)) \<subseteq> set (map fst ?xs)"
      using lru_keep_fst [of "total b - outside (c, b) - sz" "lru_keep ?r ?xs"]
        lru_keep_fst [of ?r ?xs]
      unfolding v3 charged_survivors_def fst_conv snd_conv by blast
    then have "key \<notin> set (map fst (view c3))" unfolding lru_without_fst by blast
    then have absent: "om_get (bc_entries c3) key = None" using cache_okD(4) [OF ok3] by simp
    have "bc_used c3 \<le> bc_used c2"
      using fit_prefix_le [of "length \<circ> snd" "total b - outside (c, b) - sz" "view c2"] True
        view_bytes_used [OF ok3] s3(6) view_bytes_used [of c2] s2(2)
      by (simp add: cache_charged_def)
    then have room3: "bc_used c3 + sz \<le> bc_capacity c3" using s2(4) s3(3) by simp
    have "bc_used c3 \<le> total b - outside (c, b) - sz"
      using view_bytes_used [OF ok3] fit_prefix_fits [of "length \<circ> snd" "total b - outside (c, b) - sz" "view c2"]
        s3(6) True by simp
    moreover have "used b3 = outside (c, b) + bc_used c3"
      using cache_charged_used [OF s3(2)] s3(5) by (simp add: outside_def)
    moreover have "total b3 = total b" using kept by (simp add: others_kept_def)
    ultimately have room: "used b3 + sz \<le> total b3" using True by simp
    have cap3: "bc_capacity c3 \<le> U64_MAX" using s3(3) cap by simp
    obtain c4 b4 r where r: "build_entry key sz build (c3, b3) = ((c4, b4), r)"
      "cache_charged (c4, b4)" "others_kept b3 b4" "bc_capacity c4 = bc_capacity c3"
      "case build of
         Ok data \<Rightarrow> if length data = sz then r = Ok True \<and> view c4 = (key, data) # view c3
                     else (\<exists>m. r = Err (General m)) \<and> view c4 = view c3
       | Err e \<Rightarrow> r = Err e \<and> view c4 = view c3
       | Panic p \<Rightarrow> r = Panic p \<and> view c4 = view c3"
      using build_entry_result [OF s3(2) absent room3 cap3 room assms(2), of build] by blast
    have "others_kept b b4" using kept r(3) by (rule others_kept_trans)
    then show ?thesis
      using run True r(1,2,4) r(5) [unfolded v3] s3(3) by (cases build) (simp_all add: Let_def)
  qed
qed

subsection \<open>Removal, clearing and reading\<close>

lemma cache_remove_result:
  assumes ok: "cache_ok c"
  shows "\<exists>c'. cache_remove key c = (c', Ok (cache_peek c key)) \<and> same_entries (cache_without key c) c'"
proof (cases "om_get (bc_entries c) key")
  case None
  then show ?thesis
    using cache_without_absent [OF ok None]
    by (simp add: cache_remove_def cache_peek_def same_entries_def)
next
  case (Some e)
  let ?c' = "update_stats (cache_without key c)"
  have "cache_remove key c = (?c', Ok (cache_peek c key))"
    using Some cache_okD(6) [OF ok Some]
    by (simp add: cache_remove_def cache_peek_def Let_def checked_sub_def cache_without_def
        update_stats_def)
  then show ?thesis using same_entries_update_stats by blast
qed

lemma remove_budgeted_result:
  assumes ch: "cache_charged (c, b)"
  shows "\<exists>c' b'. remove_budgeted reserved key (c, b) =
      ((c', b'), Ok (if reserved then cache_peek c key else None))
    \<and> cache_charged (c', b') \<and> others_kept b b' \<and> same_entries (cache_without key c) c'"
proof -
  have ok: "cache_ok c" using ch by (simp add: cache_charged_def)
  obtain c' where c': "cache_remove key c = (c', Ok (cache_peek c key))"
    "same_entries (cache_without key c) c'"
    using cache_remove_result [OF ok] by blast
  show ?thesis
  proof (cases "om_get (bc_entries c) key")
    case None
    then have "cache_charged (c', b)"
      using same_entriesD(1,5) [OF c'(2)] cache_without_absent [OF ok None] ch
      by (simp add: cache_charged_def)
    then show ?thesis using c' None by (simp add: remove_budgeted_def cache_peek_def)
  next
    case (Some e)
    then show ?thesis
      using release_entry_charge [OF ch Some c'(2), of "''failed to release removed cache charge''"]
        c' by (auto simp: remove_budgeted_def roll_back_def cache_peek_def)
  qed
qed

lemma clear_budgeted_result:
  assumes ch: "cache_charged (c, b)"
  shows "\<exists>c' b'. clear_budgeted (c, b) = ((c', b'), Ok ()) \<and> cache_charged (c', b')
    \<and> others_kept b b' \<and> view c' = [] \<and> bc_capacity c' = bc_capacity c
    \<and> used b' = outside (c, b)"
proof -
  let ?m = "bc_entries c" and ?ns = "map budget_key (om_keys (bc_entries c))"
  have ok: "cache_ok c" and b: "budget_ok b" using ch by (simp_all add: cache_charged_def)
  note m = cache_okD(1) [OF ok]
  have d: "distinct ?ns" using om_keys_sorted [OF m] by (auto simp: distinct_map inj_on_def)
  have in_ns: "n \<in> set ?ns \<longleftrightarrow> (\<exists>k. n = budget_key k \<and> om_get ?m k \<noteq> None)" for n
    by (auto simp: om_mem_iff simp flip: om_mem_keys)
  have charged: "n \<in> set ?ns \<Longrightarrow> budget_get b n \<noteq> None" for n
    using ch in_ns by (auto simp: cache_charged_def)
  obtain b' where b': "release_each release ?ns b = (b', True)" "budget_ok b'"
    "\<forall>n. budget_get b' n = (if n \<in> set ?ns then None else budget_get b n)"
    "used b = used b' + sum_list (map (\<lambda>n. the (budget_get b n)) ?ns)" "total b' = total b"
    using mb.release_each_ok [OF b d charged] by blast
  have "map (\<lambda>n. the (budget_get b n)) ?ns = map (\<lambda>k. ce_size (the (om_get ?m k))) (om_keys ?m)"
    using ch by (auto simp: cache_charged_def om_mem_iff simp flip: om_mem_keys)
  then have "sum_list (map (\<lambda>n. the (budget_get b n)) ?ns) =
      sum_list (map (\<lambda>k. ce_size (the (om_get ?m k))) (om_keys ?m))"
    by (rule arg_cong)
  also have "\<dots> = bc_used c"
    using om_total_keys [OF m, of ce_size] ok by (simp add: cache_ok_def)
  finally have sum: "sum_list (map (\<lambda>n. the (budget_get b n)) ?ns) = bc_used c" .
  let ?c1 = "c\<lparr>bc_entries := [], bc_lru := [], bc_used := 0\<rparr>"
  have c1: "cache_ok ?c1" by (simp add: cache_ok_def om_keys_def)
  have none: "budget_get b' (budget_key k) = None" for k
    using ch b'(3) in_ns [of "budget_key k"] by (auto simp: cache_charged_def)
  have "cache_charged (update_stats ?c1, b')"
    using none b'(2) c1 same_entriesD(1,5) [OF same_entries_update_stats, of ?c1]
    by (simp add: cache_charged_def)
  moreover have "others_kept b b'"
    using b'(3,5) in_ns starts_with_budget_key by (auto simp: others_kept_def)
  moreover have "clear_budgeted (c, b) = ((update_stats ?c1, b'), Ok ())"
    using b'(1) by (simp add: clear_budgeted_def)
  moreover have "used b' = outside (c, b)" using b'(4) sum by (simp add: outside_def)
  ultimately show ?thesis
    using same_entriesD(2,4) [OF same_entries_update_stats, of ?c1] by (simp add: view_def)
qed

lemma cache_get_result:
  assumes ok: "cache_ok c"
  shows "cache_ok (fst (cache_get key c)) \<and> snd (cache_get key c) = cache_peek c key
    \<and> view (fst (cache_get key c)) =
       (case cache_peek c key of
          None \<Rightarrow> view c
        | Some d \<Rightarrow> (key, d) # lru_without key (view c))
    \<and> bc_entries (fst (cache_get key c)) = bc_entries c"
proof (cases "om_get (bc_entries c) key")
  case None
  then show ?thesis
    using ok by (simp add: cache_get_def om_mem_iff cache_peek_def cache_ok_def view_def)
next
  case (Some e)
  have "key \<in> set (bc_lru c)" using cache_okD(4) [OF ok] Some by simp
  then have "cache_ok (fst (cache_get key c))"
    using ok Some by (auto simp: cache_get_def om_mem_iff cache_ok_def distinct_removeAll)
  moreover have "view (fst (cache_get key c)) = (key, ce_data e) # lru_without key (view c)"
    using Some by (auto simp: cache_get_def om_mem_iff view_def lru_without_def filter_map comp_def
        removeAll_filter_not_eq intro!: map_cong filter_cong)
  ultimately show ?thesis using Some by (simp add: cache_get_def om_mem_iff cache_peek_def)
qed

subsection \<open>Runs of a charged cache\<close>

text \<open>
  Every budgeted call and every read of the cache, and any call of another owner on a charge that
  is not the cache's.
\<close>

inductive charged_step :: "charged_cache \<Rightarrow> charged_cache \<Rightarrow> bool" where
  step_get: "charged_step (c, b) (fst (cache_get key c), b)"
| step_insert_with: "insert_budgeted_with key sz build (c, b) = (s', r) \<Longrightarrow>
    bc_capacity c + sz \<le> U64_MAX \<Longrightarrow> charged_step (c, b) s'"
| step_remove: "remove_budgeted reserved key (c, b) = (s', q) \<Longrightarrow> charged_step (c, b) s'"
| step_clear: "clear_budgeted (c, b) = (s', u) \<Longrightarrow> charged_step (c, b) s'"
| step_other_allocate: "\<not> starts_with n ''cache:'' \<Longrightarrow> allocate n k b = (b', u') \<Longrightarrow>
    charged_step (c, b) (c, b')"
| step_other_release: "\<not> starts_with n ''cache:'' \<Longrightarrow> release n b = (b', v) \<Longrightarrow>
    charged_step (c, b) (c, b')"

inductive_cases charged_stepE: "charged_step s s'"

lemma cache_charged_cong:
  assumes "cache_charged (c, b)" and "cache_ok c'" and "bc_entries c' = bc_entries c"
    and "budget_ok b'" and "\<And>k. budget_get b' (budget_key k) = budget_get b (budget_key k)"
  shows "cache_charged (c', b')"
  using assms by (simp add: cache_charged_def)

lemma other_allocate_charged:
  assumes ch: "cache_charged (c, b)" and n: "\<not> starts_with n ''cache:''"
    and al: "allocate n k b = (b', r)"
  shows "cache_charged (c, b') \<and> total b' = total b"
proof -
  have b: "budget_ok b" and ok: "cache_ok c" using ch by (simp_all add: cache_charged_def)
  have "budget_get b' (budget_key k') = budget_get b (budget_key k')" for k'
    using allocate_ok(4) [OF b, of n k b'] failed_keeps(1) [OF al] al n starts_with_budget_key [of k']
    by (cases r) auto
  then show ?thesis
    using cache_charged_cong [OF ch ok refl] allocate_keeps [OF b al] by blast
qed

lemma other_release_charged:
  assumes ch: "cache_charged (c, b)" and n: "\<not> starts_with n ''cache:''"
    and rel: "release n b = (b', r)"
  shows "cache_charged (c, b') \<and> total b' = total b"
proof -
  have b: "budget_ok b" and ok: "cache_ok c" using ch by (simp_all add: cache_charged_def)
  have "budget_get b' (budget_key k') = budget_get b (budget_key k')" for k'
  proof (cases "budget_get b n")
    case None
    then show ?thesis using release_missing [of b n] rel by simp
  next
    case (Some k)
    then show ?thesis
      using mb.discharge_ok [OF b Some] rel n starts_with_budget_key [of k'] by auto
  qed
  then show ?thesis
    using cache_charged_cong [OF ch ok refl] release_keeps [OF b rel] by blast
qed

lemma insert_budgeted_with_refused:
  "sz = 0 \<or> bc_capacity c < sz \<Longrightarrow> \<exists>e. insert_budgeted_with key sz build (c, b) = ((c, b), Err e)"
  by (auto simp: insert_budgeted_with_def)

lemma charged_step_ok:
  assumes "charged_step s s'" and "cache_charged s"
  shows "cache_charged s' \<and> bc_capacity (fst s') = bc_capacity (fst s) \<and> total (snd s') = total (snd s)"
  using assms
proof (cases rule: charged_step.cases)
  case (step_get c b key)
  have ch: "cache_charged (c, b)" using assms(2) step_get(1) by simp
  then have ok: "cache_ok c" and b: "budget_ok b" by (simp_all add: cache_charged_def)
  have "bc_capacity (fst (cache_get key c)) = bc_capacity c" by (simp add: cache_get_def)
  moreover have "cache_charged (fst (cache_get key c), b)"
    by (rule cache_charged_cong [OF ch _ _ b refl]) (simp_all add: cache_get_result [OF ok])
  ultimately show ?thesis using step_get by simp
next
  case (step_insert_with key sz build c b r)
  have ch: "cache_charged (c, b)" using assms(2) step_insert_with(1) by simp
  show ?thesis
  proof (cases "sz = 0 \<or> bc_capacity c < sz")
    case True
    then obtain e where "insert_budgeted_with key sz build (c, b) = ((c, b), Err e)"
      using insert_budgeted_with_refused by blast
    then show ?thesis using step_insert_with(1,2) ch by simp
  next
    case False
    then have "0 < sz" and "sz \<le> bc_capacity c" by simp_all
    then obtain c' b' r' where "insert_budgeted_with key sz build (c, b) = ((c', b'), r')"
      "cache_charged (c', b')" "others_kept b b'" "bc_capacity c' = bc_capacity c"
      using insert_budgeted_with_result [OF ch _ _ step_insert_with(3)] by blast
    then show ?thesis using step_insert_with(1,2) by (simp add: others_kept_def)
  qed
next
  case (step_remove reserved key c b q)
  have ch: "cache_charged (c, b)" using assms(2) step_remove(1) by simp
  obtain c' b' where r: "remove_budgeted reserved key (c, b) =
      ((c', b'), Ok (if reserved then cache_peek c key else None))"
    "cache_charged (c', b')" "others_kept b b'" "same_entries (cache_without key c) c'"
    using remove_budgeted_result [OF ch] by blast
  have "bc_capacity c' = bc_capacity c"
    using same_entriesD(4) [OF r(4)] by (simp add: cache_without_def)
  then show ?thesis using r(1-3) step_remove by (simp add: others_kept_def)
next
  case (step_clear c b u)
  have ch: "cache_charged (c, b)" using assms(2) step_clear(1) by simp
  obtain c' b' where "clear_budgeted (c, b) = ((c', b'), Ok ())" "cache_charged (c', b')"
    "others_kept b b'" "bc_capacity c' = bc_capacity c"
    using clear_budgeted_result [OF ch] by blast
  then show ?thesis using step_clear by (simp add: others_kept_def)
next
  case (step_other_allocate n k b b' u' c)
  then show ?thesis using other_allocate_charged [of c b n k b' u'] assms(2) by simp
next
  case (step_other_release n b b' v c)
  then show ?thesis using other_release_charged [of c b n b' v] assms(2) by simp
qed

lemma charged_steps_ok:
  "charged_step\<^sup>*\<^sup>* s s' \<Longrightarrow> cache_charged s \<Longrightarrow>
    cache_charged s' \<and> bc_capacity (fst s') = bc_capacity (fst s) \<and> total (snd s') = total (snd s)"
  by (induction rule: rtranclp_induct) (auto dest: charged_step_ok)

lemma cache_new_charged:
  assumes "cache_new cap = Ok c" and "budget_new n = Ok b" and "n \<le> U64_MAX"
  shows "cache_charged (c, b) \<and> bc_capacity c = cap \<and> total b = n"
proof -
  have "allocations b = []" using assms(2) by (auto simp: budget_new_def split: if_splits)
  then show ?thesis
    using assms budget_ok_new [OF assms(2,3)]
    by (auto simp: cache_new_def cache_charged_def cache_ok_def om_keys_def budget_get_def
        split: if_splits)
qed

subsection \<open>Properties\<close>

text \<open>
  C5: \<open>insert\<close> is the abstract LRU insertion. An entry larger than the capacity is refused and
  nothing changes; otherwise the call succeeds, the new entry is the most recently used one, the
  entries that survive beside it are the longest prefix of the others (in recency order) that
  fits, so an entry is evicted only when it has to be, and the capacity is never exceeded. (The
  bound is the width of \<open>u64\<close>: beyond it the code panics.)
\<close>

theorem cache_insert_refines_lru:
  assumes "cache_ok c" and "bc_capacity c + length data \<le> U64_MAX"
  shows "if bc_capacity c < length data
    then cache_insert key data c = (c, Err (TooLarge (length data) (bc_capacity c)))
    else \<exists>c' n. cache_insert key data c = (c', Ok ()) \<and> cache_ok c'
      \<and> view c' = (key, data) # take n (lru_without key (view c))
      \<and> (\<forall>m. m \<le> length (lru_without key (view c)) \<and>
            length data + view_bytes (take m (lru_without key (view c))) \<le> bc_capacity c \<longrightarrow> m \<le> n)
      \<and> bc_used c' = length data + view_bytes (take n (lru_without key (view c)))
      \<and> bc_used c' \<le> bc_capacity c"
proof (cases "bc_capacity c < length data")
  case True
  then show ?thesis using assms(2) by (simp add: cache_insert_def try_u64_def)
next
  case False
  let ?xs = "lru_without key (view c)" and ?room = "bc_capacity c - length data"
  obtain c' where c': "cache_insert key data c = (c', Ok ())" "cache_ok c'"
    "bc_capacity c' = bc_capacity c" "view c' = lru_insert (bc_capacity c) key data (view c)"
    using cache_insert_result [OF assms(1) _ assms(2)] False by auto
  obtain n where n: "n \<le> length ?xs" "lru_keep ?room ?xs = take n ?xs"
    using fit_prefix_take [of ?xs "length \<circ> snd" ?room] by blast
  have "m \<le> n" if "m \<le> length ?xs" "length data + view_bytes (take m ?xs) \<le> bc_capacity c" for m
    using fit_prefix_maximal [of m ?xs "length \<circ> snd" ?room] that n by simp
  moreover have "view_bytes (view c') \<le> bc_capacity c"
    using fit_prefix_fits [of "length \<circ> snd" ?room ?xs] False c'(4) by (simp add: lru_insert_def)
  ultimately show ?thesis
    using False c' n view_bytes_used [OF c'(2)] by (auto simp: lru_insert_def)
qed

theorem cache_insert_refines_lru_witness:
  "\<exists>c'. cache_insert ''c'' [1, 2]
     \<lparr>bc_capacity = 4, bc_used = 4,
      bc_entries = [(''a'', \<lparr>ce_data = [7, 7], ce_size = 2\<rparr>), (''b'', \<lparr>ce_data = [8, 8], ce_size = 2\<rparr>)],
      bc_lru = [''b'', ''a''], bc_stats = \<lparr>hits = 0, misses = 0, evictions = 0, current_bytes = 4,
        capacity_bytes = 4, num_entries = 2\<rparr>\<rparr> = (c', Ok ())
   \<and> view c' = [(''c'', [1, 2]), (''b'', [8, 8])]"
proof -
  let ?c = "\<lparr>bc_capacity = 4, bc_used = 4,
      bc_entries = [(''a'', \<lparr>ce_data = [7, 7], ce_size = 2\<rparr>), (''b'', \<lparr>ce_data = [8, 8], ce_size = 2\<rparr>)],
      bc_lru = [''b'', ''a''], bc_stats = \<lparr>hits = 0, misses = 0, evictions = 0, current_bytes = 4,
        capacity_bytes = 4, num_entries = 2\<rparr>\<rparr> :: bounded_cache"
  have ok: "cache_ok ?c"
    by (auto simp: cache_ok_def om_ok_def om_keys_def less_char_def split: if_splits)
  have v: "lru_without ''c'' (view ?c) = [(''b'', [8, 8]), (''a'', [7, 7])]"
    by (simp add: view_def lru_without_def)
  obtain c' n where r: "cache_insert ''c'' [1, 2] ?c = (c', Ok ())"
    "view c' = (''c'', [1, 2]) # take n [(''b'', [8, 8]), (''a'', [7, 7])]"
    "\<forall>m. m \<le> 2 \<and> 2 + view_bytes (take m [(''b'', [8, 8]), (''a'', [7, 7])]) \<le> 4 \<longrightarrow> m \<le> n"
    "2 + view_bytes (take n [(''b'', [8, 8]), (''a'', [7, 7])]) \<le> 4"
    using cache_insert_refines_lru [OF ok, of "[1, 2]" "''c''"] v by (auto simp: U64_MAX_def)
  have "1 \<le> n" using r(3) by (auto dest: spec [of _ 1])
  moreover have "\<not> 2 \<le> n"
  proof
    assume "2 \<le> n"
    then have "take n [(''b'', [8, 8]), (''a'', [7, 7])] = [(''b'', [8, 8 :: byte]), (''a'', [7, 7])]"
      by simp
    with r(4) show False by simp
  qed
  ultimately have "n = 1" by simp
  then show ?thesis using r(1,2) by simp
qed

text \<open>
  \<open>insert_budgeted_with\<close> on a cache whose entries are exactly charged leaves it so, whatever
  happens, and touches no charge of another owner and not the limit. When the bytes charged to
  others leave no room even with the cache empty, it answers \<open>Ok(false)\<close> with every entry evicted;
  otherwise the surviving entries are those a capacity eviction followed by a budget eviction
  keep, the entry is stored and charged when the builder delivers the promised length, and a
  builder that fails, panics or delivers another length leaves only the survivors, its charge
  rolled back.
\<close>

theorem insert_budgeted_with_outcome:
  assumes "cache_charged (c, b)" and "0 < sz" and "sz \<le> bc_capacity c"
    and "bc_capacity c + sz \<le> U64_MAX"
    and "insert_budgeted_with key sz build (c, b) = ((c', b'), r)"
  shows "cache_charged (c', b') \<and> others_kept b b' \<and> bc_capacity c' = bc_capacity c
    \<and> (if total b < outside (c, b) + sz then r = Ok False \<and> view c' = []
       else let xs = charged_survivors key sz (c, b) in case build of
         Ok data \<Rightarrow> if length data = sz then r = Ok True \<and> view c' = (key, data) # xs
                     else (\<exists>m. r = Err (General m)) \<and> view c' = xs
       | Err e \<Rightarrow> r = Err e \<and> view c' = xs
       | Panic p \<Rightarrow> r = Panic p \<and> view c' = xs)"
  using insert_budgeted_with_result [OF assms(1-4), of key build] assms(5) by auto

abbreviation example_cache :: bounded_cache where
  "example_cache \<equiv> \<lparr>bc_capacity = 4, bc_used = 2,
     bc_entries = [(''a'', \<lparr>ce_data = [7, 7], ce_size = 2\<rparr>)], bc_lru = [''a''],
     bc_stats = \<lparr>hits = 0, misses = 0, evictions = 0, current_bytes = 2, capacity_bytes = 4,
       num_entries = 1\<rparr>\<rparr>"

abbreviation example_budget :: memory_budget where
  "example_budget \<equiv> \<lparr>total = 8, allocations = [(''cache:a'', 2), (''kv'', 3)], used = 5,
     peak_used = 5\<rparr>"

lemma example_charged: "cache_charged (example_cache, example_budget)"
  by (auto simp: cache_charged_def cache_ok_def budget_ok_def om_ok_def om_keys_def budget_key_def
      budget_get_def U64_MAX_def less_char_def split: if_splits)

theorem insert_budgeted_with_outcome_witness:
  "\<exists>c' b'. insert_budgeted_with ''b'' 3 (Ok [1, 2, 3]) (example_cache, example_budget)
      = ((c', b'), Ok True) \<and> view c' = [(''b'', [1, 2, 3])] \<and> cache_charged (c', b')"
proof -
  obtain c' b' r where run:
    "insert_budgeted_with ''b'' 3 (Ok [1, 2, 3]) (example_cache, example_budget) = ((c', b'), r)"
    by (metis surj_pair)
  have "outside (example_cache, example_budget) = 3" by (simp add: outside_def)
  moreover have "charged_survivors ''b'' 3 (example_cache, example_budget) = []"
    by (simp add: charged_survivors_def view_def lru_without_def)
  ultimately show ?thesis
    using insert_budgeted_with_outcome [OF example_charged _ _ _ run] run by (auto simp: U64_MAX_def)
qed

text \<open>
  C2: from a fresh cache and a fresh budget, after any interleaving of reads, budgeted insertions
  (whatever their builders do), removals, clears and calls of other owners: every entry has a
  charge of exactly its length and no charge below \<open>cache:\<close> is without an entry, the recency
  queue lists exactly the entries, the cache stays within its capacity, and cache bytes and
  budget within the budget.
\<close>

theorem charged_cache_run_invariant:
  assumes "cache_new cap = Ok c0" and "budget_new n = Ok b0" and "n \<le> U64_MAX"
    and "charged_step\<^sup>*\<^sup>* (c0, b0) (c, b)"
  shows "(\<forall>k. budget_get b (''cache:'' @ k) = map_option length (cache_peek c k))
    \<and> distinct (bc_lru c) \<and> (\<forall>k. k \<in> set (bc_lru c) \<longleftrightarrow> cache_contains c k)
    \<and> bc_used c = view_bytes (view c) \<and> bc_used c \<le> cap \<and> bc_used c \<le> used b \<and> used b \<le> n"
proof -
  have ch: "cache_charged (c, b)" and cap: "bc_capacity c = cap" "total b = n"
    using charged_steps_ok [OF assms(4)] cache_new_charged [OF assms(1-3)] by auto
  then have ok: "cache_ok c" and b: "budget_ok b" by (simp_all add: cache_charged_def)
  have "budget_get b (''cache:'' @ k) = map_option length (cache_peek c k)" for k
    using ch cache_okD(5) [OF ok, of k] unfolding budget_key_def [symmetric]
    by (cases "om_get (bc_entries c) k") (auto simp: cache_charged_def cache_peek_def)
  then show ?thesis
    using cache_okD(2-4) [OF ok] view_bytes_used [OF ok] cache_charged_used [OF ch] cap
      budget_okD(3) [OF b] by (auto simp: cache_contains_def om_mem_iff)
qed

theorem charged_cache_run_invariant_witness:
  "\<exists>c0 b0. cache_new 4 = Ok c0 \<and> budget_new 8 = Ok b0 \<and>
     budget_get b0 (''cache:'' @ ''a'') = map_option length (cache_peek c0 ''a'')"
proof -
  obtain c0 b0 where "cache_new 4 = Ok c0" and "budget_new 8 = Ok b0"
    by (simp add: cache_new_def budget_new_def)
  with charged_cache_run_invariant [OF this] show ?thesis by (auto simp: U64_MAX_def)
qed

end
