(* ===== verification/Layer_Cache.thy ===== *)
theory Layer_Cache
  imports Memory_Budget
begin

section \<open>The cache of decoded layers\<close>

text \<open>
  \<open>LayerCache\<close> of \<open>crates/ramforge-runtime/src/layer_cache.rs\<close>. Unlike \<open>BoundedCache\<close> it
  does not allocate: an entry arrives with live charges \<open>layer:<i>:*\<close>, which a successful
  insertion renames to \<open>cache:layer:<i>:*\<close> and an eviction releases. The decoded value is a type
  parameter. Dropping a value has no effect on the model's state; errors are the fixed part of the
  code's messages. \<open>layer_charged\<close> is the joint invariant of the cache and the budget.
\<close>

record 'v layer_entry =
  le_value :: 'v
  le_bytes :: u64
  le_charge_names :: "string list"

record 'v layer_cache =
  lc_capacity_bytes :: u64
  lc_used_bytes :: u64
  lc_entries :: "(usize, 'v layer_entry) omap"
  lc_lru :: "usize list"

datatype 'v insert_outcome = Cached usize | Skipped 'v usize

type_synonym 'v layer_state = "'v layer_cache \<times> memory_budget"

definition layer_cache_new :: "u64 \<Rightarrow> 'v layer_cache" where
  "layer_cache_new capacity_bytes =
     \<lparr>lc_capacity_bytes = capacity_bytes, lc_used_bytes = 0, lc_entries = [], lc_lru = []\<rparr>"

definition layer_prefix :: "usize \<Rightarrow> string" where
  "layer_prefix layer_index = ''layer:'' @ show_nat layer_index @ '':''"

definition cached_prefix :: "usize \<Rightarrow> string" where
  "cached_prefix layer_index = ''cache:layer:'' @ show_nat layer_index @ '':''"

definition touch :: "usize \<Rightarrow> 'v layer_cache \<Rightarrow> 'v layer_cache" where
  "touch layer_index c = c\<lparr>lc_lru := layer_index # removeAll layer_index (lc_lru c)\<rparr>"

definition with_entry :: "usize \<Rightarrow> ('v \<Rightarrow> 'r) \<Rightarrow> 'v layer_cache \<Rightarrow> 'v layer_cache \<times> 'r option" where
  "with_entry layer_index use_entry c =
     (if \<not> om_mem (lc_entries c) layer_index then (c, None)
      else let c1 = touch layer_index c
           in (c1, map_option (\<lambda>e. use_entry (le_value e)) (om_get (lc_entries c1) layer_index)))"

text \<open>The checked sum of the charges of an entry.\<close>

fun charge_total :: "memory_budget \<Rightarrow> u64 \<Rightarrow> string list \<Rightarrow> (u64, string) result" where
  "charge_total b t [] = Ok t"
| "charge_total b t (name # names) =
     (case budget_get b name of
        None \<Rightarrow> Err ''cached layer charge disappeared during eviction''
      | Some charge \<Rightarrow>
          (case checked_add t charge of
             None \<Rightarrow> Err ''cached layer charge total overflow''
           | Some t' \<Rightarrow> charge_total b t' names))"

definition release_entry :: "usize \<Rightarrow> 'v layer_state \<Rightarrow> 'v layer_state \<times> (unit, string) result" where
  "release_entry layer_index s =
     (let (c, b) = s in
      case om_get (lc_entries c) layer_index of
        None \<Rightarrow> (s, Err ''cached layer missing during eviction'')
      | Some entry \<Rightarrow>
          if \<exists>name \<in> set (le_charge_names entry). budget_get b name = None
          then (s, Err ''cached layer charge missing before eviction'')
          else (case charge_total b 0 (le_charge_names entry) of
              Err e \<Rightarrow> (s, Err e)
            | Panic m \<Rightarrow> (s, Panic m)
            | Ok charge_bytes \<Rightarrow>
                if charge_bytes \<noteq> le_bytes entry
                then (s, Err ''cached layer charge total does not match entry size'')
                else (case checked_sub (lc_used_bytes c) (le_bytes entry) of
                    None \<Rightarrow> (s, Err ''layer cache byte accounting underflow'')
                  | Some new_used_bytes \<Rightarrow>
                      let c1 = c\<lparr>lc_entries := om_del layer_index (lc_entries c)\<rparr> in
                      (case release_each release (le_charge_names entry) b of
                         (b', True) \<Rightarrow> ((c1\<lparr>lc_used_bytes := new_used_bytes\<rparr>, b'), Ok ())
                       | (b', False) \<Rightarrow>
                           ((c1, b'), Panic ''failed to release cached layer charge'')))))"

definition evict_lru :: "'v layer_state \<Rightarrow> 'v layer_state \<times> (bool, string) result" where
  "evict_lru s =
     (if lc_lru (fst s) = [] then (s, Ok False)
      else sbind (release_entry (last (lc_lru (fst s))) s) (\<lambda>(c, b) _.
        ((c\<lparr>lc_lru := butlast (lc_lru c)\<rparr>, b), Ok True)))"

definition evict_layer :: "usize \<Rightarrow> 'v layer_state \<Rightarrow> 'v layer_state \<times> (unit, string) result" where
  "evict_layer layer_index s =
     sbind (release_entry layer_index s) (\<lambda>(c, b) _.
       ((c\<lparr>lc_lru := removeAll layer_index (lc_lru c)\<rparr>, b), Ok ()))"

text \<open>
  The loop the three evicting operations share: while \<open>wanting\<close> holds, evict the least recently used
  entry; \<open>True\<close> is returned when the condition ended the loop, \<open>False\<close> when the cache ran empty,
  each with the count of evictions.
\<close>

lemma release_entry_lru: "release_entry i s = (s', r) \<Longrightarrow> lc_lru (fst s') = lc_lru (fst s)"
  by (cases s) (auto simp: release_entry_def Let_def
      split: option.splits if_splits result.splits prod.splits bool.splits)

lemma evict_lru_shorter:
  "evict_lru s = (s', Ok True) \<Longrightarrow> length (lc_lru (fst s')) < length (lc_lru (fst s))"
  by (auto simp: evict_lru_def sbind_eq_Ok split: if_splits dest: release_entry_lru)

function evict_while :: "('v layer_state \<Rightarrow> (bool, string) result) \<Rightarrow> usize \<Rightarrow> 'v layer_state \<Rightarrow>
  'v layer_state \<times> (bool \<times> usize, string) result"
where
  "evict_while wanting evictions s =
     (case wanting s of
        Err e \<Rightarrow> (s, Err e)
      | Panic m \<Rightarrow> (s, Panic m)
      | Ok False \<Rightarrow> (s, Ok (True, evictions))
      | Ok True \<Rightarrow>
          (case evict_lru s of
             (s', Ok True) \<Rightarrow> evict_while wanting (Suc evictions) s'
           | (s', Ok False) \<Rightarrow> (s', Ok (False, evictions))
           | (s', Err e) \<Rightarrow> (s', Err e)
           | (s', Panic m) \<Rightarrow> (s', Panic m)))"
  by pat_completeness auto
termination
  by (relation "measure (\<lambda>(_, _, s). length (lc_lru (fst s)))")
    (auto dest: evict_lru_shorter [OF sym])

declare evict_while.simps [simp del]

definition release_budget_prefix :: "string \<Rightarrow> memory_budget \<Rightarrow>
  memory_budget \<times> (unit, string) result"
where
  "release_budget_prefix prefix b =
     (let names = filter (\<lambda>name. starts_with name prefix) (om_keys (allocations b)) in
      if \<exists>name \<in> set names. budget_get b name = None
      then (b, Err ''charge disappeared during prefix cleanup'')
      else (case release_each release names b of
          (b', True) \<Rightarrow> (b', Ok ())
        | (b', False) \<Rightarrow> (b', Panic ''failed to release charge during prefix cleanup'')))"

text \<open>The conditions of the three eviction loops.\<close>

definition over_capacity :: "u64 \<Rightarrow> 'v layer_state \<Rightarrow> (bool, string) result" where
  "over_capacity bytes s =
     (case checked_add (lc_used_bytes (fst s)) bytes of
        None \<Rightarrow> Err ''layer cache byte accounting overflow''
      | Some wanted \<Rightarrow> Ok (lc_capacity_bytes (fst s) < wanted))"

definition budget_full :: "u64 \<Rightarrow> 'v layer_state \<Rightarrow> (bool, string) result" where
  "budget_full bytes s =
     (case can_allocate (snd s) bytes of
        None \<Rightarrow> Panic invariant_message
      | Some room \<Rightarrow> Ok (\<not> room))"

definition active_charge_bytes :: "usize \<Rightarrow> memory_budget \<Rightarrow> u64 option" where
  "active_charge_bytes layer_index b =
     try_sum 0 (map snd (filter (\<lambda>(name, _). starts_with name (layer_prefix layer_index))
       (allocations b)))"

text \<open>The tail of \<open>insert_loaded\<close>, after room has been made.\<close>

definition adopt_charges :: "usize \<Rightarrow> 'v \<Rightarrow> u64 \<Rightarrow> usize \<Rightarrow> 'v layer_state \<Rightarrow>
  'v layer_state \<times> ('v insert_outcome, string) result"
where
  "adopt_charges layer_index val bytes evictions s =
     (let (c, b) = s in
      case checked_add (lc_used_bytes c) bytes of
        None \<Rightarrow> (s, Err ''layer cache byte accounting overflow'')
      | Some new_used_bytes \<Rightarrow>
          (case rename_prefix (layer_prefix layer_index) (cached_prefix layer_index) b of
             (b1, Ok names) \<Rightarrow>
               ((c\<lparr>lc_used_bytes := new_used_bytes,
                   lc_entries := om_put layer_index
                     \<lparr>le_value = val, le_bytes = bytes, le_charge_names = names\<rparr> (lc_entries c),
                   lc_lru := layer_index # lc_lru c\<rparr>, b1), Ok (Cached evictions))
           | (b1, Err _) \<Rightarrow>
               (case release_budget_prefix (layer_prefix layer_index) b1 of
                  (b2, Panic m) \<Rightarrow> ((c, b2), Panic m)
                | (b2, Err _) \<Rightarrow>
                    ((c, b2), Err ''failed to convert layer charges; charge cleanup failed'')
                | (b2, Ok _) \<Rightarrow> ((c, b2), Err ''failed to convert layer charges''))
           | (b1, Panic m) \<Rightarrow> ((c, b1), Panic m)))"

definition insert_loaded :: "usize \<Rightarrow> 'v \<Rightarrow> u64 \<Rightarrow> 'v layer_state \<Rightarrow>
  'v layer_state \<times> ('v insert_outcome, string) result"
where
  "insert_loaded layer_index val bytes s =
     (if bytes = 0 \<or> lc_capacity_bytes (fst s) < bytes then (s, Ok (Skipped val 0))
      else if active_charge_bytes layer_index (snd s) \<noteq> Some bytes then (s, Ok (Skipped val 0))
      else sbind
        (if om_mem (lc_entries (fst s)) layer_index
         then sbind (evict_layer layer_index s) (\<lambda>s1 _. (s1, Ok 1))
         else (s, Ok 0))
        (\<lambda>s1 evictions.
          sbind (evict_while (over_capacity bytes) evictions s1) (\<lambda>s2 (room, evictions').
            if room then adopt_charges layer_index val bytes evictions' s2
            else (s2, Ok (Skipped val evictions')))))"

definition evict_until_available :: "u64 \<Rightarrow> 'v layer_state \<Rightarrow>
  'v layer_state \<times> (usize, string) result"
where
  "evict_until_available required_bytes s =
     sbind (evict_while (budget_full required_bytes) 0 s) (\<lambda>s' (_, evictions). (s', Ok evictions))"

definition clear_layers :: "'v layer_state \<Rightarrow> 'v layer_state \<times> (usize, string) result" where
  "clear_layers s =
     sbind (evict_while (\<lambda>_. Ok True) 0 s) (\<lambda>s' (_, evictions). (s', Ok evictions))"

subsection \<open>The joint invariant\<close>

definition layer_cache_ok :: "'v layer_cache \<Rightarrow> bool" where
  "layer_cache_ok c \<longleftrightarrow> om_ok (lc_entries c) \<and> distinct (lc_lru c)
     \<and> set (lc_lru c) = set (om_keys (lc_entries c))
     \<and> lc_used_bytes c = om_total le_bytes (lc_entries c)
     \<and> lc_used_bytes c \<le> lc_capacity_bytes c \<and> lc_capacity_bytes c \<le> U64_MAX"

text \<open>
  The charges below \<open>cache:layer:<i>:\<close> are those of the entry of layer \<open>i\<close>, and they sum to its
  size.
\<close>

definition layer_charged :: "'v layer_state \<Rightarrow> bool" where
  "layer_charged s \<longleftrightarrow> layer_cache_ok (fst s) \<and> budget_ok (snd s)
     \<and> (\<forall>i e. om_get (lc_entries (fst s)) i = Some e \<longrightarrow>
          distinct (le_charge_names e)
          \<and> (\<forall>n \<in> set (le_charge_names e).
               starts_with n (cached_prefix i) \<and> budget_get (snd s) n \<noteq> None)
          \<and> le_bytes e = sum_list (map (\<lambda>n. the (budget_get (snd s) n)) (le_charge_names e)))
     \<and> (\<forall>i n. starts_with n (cached_prefix i) \<longrightarrow> budget_get (snd s) n \<noteq> None \<longrightarrow>
          (\<exists>e. om_get (lc_entries (fst s)) i = Some e \<and> n \<in> set (le_charge_names e)))"

definition layer_view :: "'v layer_cache \<Rightarrow> (usize \<times> 'v \<times> u64) list" where
  "layer_view c = map (\<lambda>i. (i, le_value (the (om_get (lc_entries c) i)),
     le_bytes (the (om_get (lc_entries c) i)))) (lc_lru c)"

abbreviation layer_weight :: "usize \<times> 'v \<times> u64 \<Rightarrow> nat" where
  "layer_weight \<equiv> snd \<circ> snd"

definition layer_others_kept :: "memory_budget \<Rightarrow> memory_budget \<Rightarrow> bool" where
  "layer_others_kept b b' \<longleftrightarrow> total b' = total b
     \<and> (\<forall>n. \<not> starts_with n ''cache:layer:'' \<longrightarrow> budget_get b' n = budget_get b n)"

lemma layer_others_kept_refl [simp]: "layer_others_kept b b"
  by (simp add: layer_others_kept_def)

lemma layer_others_kept_trans:
  "layer_others_kept a b \<Longrightarrow> layer_others_kept b c \<Longrightarrow> layer_others_kept a c"
  by (simp add: layer_others_kept_def)

lemma cached_prefix_inj:
  "starts_with n (cached_prefix i) \<Longrightarrow> starts_with n (cached_prefix j) \<Longrightarrow> i = j"
  by (auto simp: starts_with_iff cached_prefix_def show_nat_delimited)

lemma cached_prefix_family: "starts_with n (cached_prefix i) \<Longrightarrow> starts_with n ''cache:layer:''"
  by (auto simp: starts_with_iff cached_prefix_def)

lemma layer_prefix_family: "starts_with n (layer_prefix i) \<Longrightarrow> \<not> starts_with n ''cache:layer:''"
  by (auto simp: starts_with_iff layer_prefix_def)

lemma layer_cache_okD:
  assumes "layer_cache_ok c"
  shows "om_ok (lc_entries c)" and "distinct (lc_lru c)"
    and "lc_used_bytes c \<le> lc_capacity_bytes c" and "lc_capacity_bytes c \<le> U64_MAX"
    and "i \<in> set (lc_lru c) \<longleftrightarrow> om_get (lc_entries c) i \<noteq> None"
    and "om_get (lc_entries c) i = Some e \<Longrightarrow> le_bytes e \<le> lc_used_bytes c"
  using assms om_total_get_le [of "lc_entries c" i _ le_bytes]
  by (auto simp: layer_cache_ok_def om_mem_iff simp flip: om_mem_keys)

lemma layer_view_total:
  "layer_cache_ok c \<Longrightarrow> sum_list (map layer_weight (layer_view c)) = lc_used_bytes c"
  using om_total_recency [of "lc_entries c" "lc_lru c" le_bytes]
  by (simp add: layer_cache_ok_def layer_view_def comp_def)

lemma map_fst_layer_view [simp]: "map fst (layer_view c) = lc_lru c"
  by (simp add: layer_view_def comp_def)

lemma layer_view_Nil_iff [simp]: "layer_view c = [] \<longleftrightarrow> lc_lru c = []"
  by (simp add: layer_view_def)

lemma layer_chargedD:
  assumes "layer_charged (c, b)"
  shows "layer_cache_ok c" and "budget_ok b"
    and "om_get (lc_entries c) i = Some e \<Longrightarrow> distinct (le_charge_names e)"
    and "om_get (lc_entries c) i = Some e \<Longrightarrow> n \<in> set (le_charge_names e) \<Longrightarrow>
      starts_with n (cached_prefix i) \<and> budget_get b n \<noteq> None"
    and "om_get (lc_entries c) i = Some e \<Longrightarrow>
      le_bytes e = sum_list (map (\<lambda>n. the (budget_get b n)) (le_charge_names e))"
    and "starts_with n (cached_prefix i) \<Longrightarrow> budget_get b n \<noteq> None \<Longrightarrow>
      \<exists>e. om_get (lc_entries c) i = Some e \<and> n \<in> set (le_charge_names e)"
  using assms by (auto simp: layer_charged_def)

subsection \<open>Releasing an entry\<close>

definition layer_without :: "usize \<Rightarrow> 'v layer_cache \<Rightarrow> 'v layer_cache" where
  "layer_without i c = c\<lparr>lc_lru := removeAll i (lc_lru c), lc_entries := om_del i (lc_entries c),
     lc_used_bytes := lc_used_bytes c -
       (case om_get (lc_entries c) i of None \<Rightarrow> 0 | Some e \<Rightarrow> le_bytes e)\<rparr>"

lemma layer_without_props:
  assumes ok: "layer_cache_ok c"
  shows "layer_cache_ok (layer_without i c)"
    and "layer_view (layer_without i c) = filter (\<lambda>p. fst p \<noteq> i) (layer_view c)"
    and "lc_capacity_bytes (layer_without i c) = lc_capacity_bytes c"
    and "lc_entries (layer_without i c) = om_del i (lc_entries c)"
proof -
  have "om_total le_bytes (om_del i (lc_entries c)) =
      lc_used_bytes c - (case om_get (lc_entries c) i of None \<Rightarrow> 0 | Some e \<Rightarrow> le_bytes e)"
    using ok om_total_del [of "lc_entries c" i _ le_bytes]
    by (cases "om_get (lc_entries c) i") (fastforce simp: layer_cache_ok_def)+
  then show "layer_cache_ok (layer_without i c)"
    using ok by (auto simp: layer_cache_ok_def layer_without_def distinct_removeAll om_keys_del)
  show "layer_view (layer_without i c) = filter (\<lambda>p. fst p \<noteq> i) (layer_view c)"
    by (auto simp: layer_view_def layer_without_def filter_map comp_def
        removeAll_filter_not_eq intro!: map_cong filter_cong)
qed (simp_all add: layer_without_def)

lemma charge_total_ok:
  "(\<And>n. n \<in> set ns \<Longrightarrow> budget_get b n \<noteq> None) \<Longrightarrow>
    t + sum_list (map (\<lambda>n. the (budget_get b n)) ns) \<le> U64_MAX \<Longrightarrow>
    charge_total b t ns = Ok (t + sum_list (map (\<lambda>n. the (budget_get b n)) ns))"
proof (induction b t ns rule: charge_total.induct)
  case (2 b t n ns)
  then obtain k where "budget_get b n = Some k" by fastforce
  then show ?case using 2 by (simp add: checked_add_def add.assoc)
qed simp

text \<open>Every entry of an exactly charged cache can be released, and that frees its charges.\<close>

lemma release_entry_result:
  assumes ch: "layer_charged (c, b)" and e: "om_get (lc_entries c) i = Some e"
  shows "\<exists>b'. release_entry i (c, b) = ((layer_without i c\<lparr>lc_lru := lc_lru c\<rparr>, b'), Ok ())
    \<and> layer_charged (layer_without i c, b') \<and> layer_others_kept b b'
    \<and> used b = used b' + le_bytes e"
proof -
  let ?ns = "le_charge_names e"
  note d = layer_chargedD [OF ch] and ok = layer_chargedD(1) [OF ch]
  have present: "n \<in> set ?ns \<Longrightarrow> budget_get b n \<noteq> None" for n using d(4) [OF e] by blast
  obtain b' where b': "release_each release ?ns b = (b', True)" "budget_ok b'"
    "\<forall>n. budget_get b' n = (if n \<in> set ?ns then None else budget_get b n)"
    "used b = used b' + sum_list (map (\<lambda>n. the (budget_get b n)) ?ns)" "total b' = total b"
    using mb.release_each_ok [OF d(2) d(3) [OF e] present] by blast
  have sum: "sum_list (map (\<lambda>n. the (budget_get b n)) ?ns) = le_bytes e" using d(5) [OF e] by simp
  have "le_bytes e \<le> U64_MAX" using b'(4) sum budget_okD(3,4) [OF d(2)] by linarith
  then have tot: "charge_total b 0 ?ns = Ok (le_bytes e)"
    using charge_total_ok [of ?ns b 0] present sum by auto
  have rel: "release_entry i (c, b) = ((layer_without i c\<lparr>lc_lru := lc_lru c\<rparr>, b'), Ok ())"
    using e present tot b'(1) layer_cache_okD(6) [OF ok e]
    by (auto simp: release_entry_def checked_sub_def layer_without_def)
  have foreign: "n \<notin> set ?ns" if "starts_with n (cached_prefix j)" "j \<noteq> i" for n j
    using that d(4) [OF e] cached_prefix_inj by blast
  have ent: "lc_entries (layer_without i c) = om_del i (lc_entries c)"
    by (simp add: layer_without_def)
  have get: "om_get (lc_entries (layer_without i c)) j = Some f \<longleftrightarrow>
      j \<noteq> i \<and> om_get (lc_entries c) j = Some f" for j f by (auto simp: ent)
  have kept: "budget_get b' n = budget_get b n"
    if "om_get (lc_entries c) j = Some f" "j \<noteq> i" "n \<in> set (le_charge_names f)" for j f n
    using b'(3) foreign d(4) [OF that(1,3)] that(2) by auto
  have sums: "map (\<lambda>n. the (budget_get b' n)) (le_charge_names f) =
      map (\<lambda>n. the (budget_get b n)) (le_charge_names f)"
    if "om_get (lc_entries c) j = Some f" "j \<noteq> i" for j f
    using kept [OF that] by (intro map_cong refl) simp
  have "layer_charged (layer_without i c, b')"
    unfolding layer_charged_def fst_conv snd_conv
  proof (intro conjI allI impI)
    show "layer_cache_ok (layer_without i c)" using layer_without_props(1) [OF ok] .
    show "budget_ok b'" by fact
    fix j f assume "om_get (lc_entries (layer_without i c)) j = Some f"
    then have f: "j \<noteq> i" "om_get (lc_entries c) j = Some f" using get by blast+
    show "distinct (le_charge_names f)" using d(3) f(2) .
    show "\<forall>n\<in>set (le_charge_names f). starts_with n (cached_prefix j) \<and> budget_get b' n \<noteq> None"
      using d(4) [OF f(2)] kept [OF f(2,1)] by simp
    show "le_bytes f = sum_list (map (\<lambda>n. the (budget_get b' n)) (le_charge_names f))"
      using d(5) [OF f(2)] unfolding sums [OF f(2,1)] .
  next
    fix j n assume n: "starts_with n (cached_prefix j)" "budget_get b' n \<noteq> None"
    then have "n \<notin> set ?ns" "budget_get b n \<noteq> None" using b'(3) by (auto split: if_splits)
    with d(6) [OF n(1)] e obtain f where "om_get (lc_entries c) j = Some f"
      "n \<in> set (le_charge_names f)" by blast
    moreover have "j \<noteq> i" using calculation e \<open>n \<notin> set ?ns\<close> by auto
    ultimately show "\<exists>f. om_get (lc_entries (layer_without i c)) j = Some f
        \<and> n \<in> set (le_charge_names f)" using get by blast
  qed
  moreover have "layer_others_kept b b'"
    using b'(3,5) d(4) [OF e] cached_prefix_family by (auto simp: layer_others_kept_def)
  ultimately show ?thesis using rel b'(4) sum by auto
qed

lemma evict_layer_result:
  assumes ch: "layer_charged (c, b)" and e: "om_get (lc_entries c) i = Some e"
  shows "\<exists>b'. evict_layer i (c, b) = ((layer_without i c, b'), Ok ())
    \<and> layer_charged (layer_without i c, b') \<and> layer_others_kept b b' \<and> used b = used b' + le_bytes e"
proof -
  obtain b' where b': "release_entry i (c, b) = ((layer_without i c\<lparr>lc_lru := lc_lru c\<rparr>, b'), Ok ())"
    "layer_charged (layer_without i c, b')" "layer_others_kept b b'" "used b = used b' + le_bytes e"
    using release_entry_result [OF ch e] by blast
  then show ?thesis by (simp add: evict_layer_def layer_without_def)
qed

lemma evict_lru_empty: "lc_lru c = [] \<Longrightarrow> evict_lru (c, b) = ((c, b), Ok False)"
  by (simp add: evict_lru_def)

lemma evict_lru_step:
  assumes ch: "layer_charged (c, b)" and ne: "lc_lru c \<noteq> []"
  obtains c' b' where "evict_lru (c, b) = ((c', b'), Ok True)" and "layer_charged (c', b')"
    and "layer_view c' = butlast (layer_view c)" and "lc_capacity_bytes c' = lc_capacity_bytes c"
    and "layer_others_kept b b'" and "used b + lc_used_bytes c' = used b' + lc_used_bytes c"
proof -
  let ?i = "last (lc_lru c)"
  note ok = layer_chargedD(1) [OF ch]
  obtain e where e: "om_get (lc_entries c) ?i = Some e"
    using layer_cache_okD(5) [OF ok, of ?i] ne by auto
  obtain b' where b': "release_entry ?i (c, b) = ((layer_without ?i c\<lparr>lc_lru := lc_lru c\<rparr>, b'), Ok ())"
    "layer_charged (layer_without ?i c, b')" "layer_others_kept b b'" "used b = used b' + le_bytes e"
    using release_entry_result [OF ch e] by blast
  have lru: "butlast (lc_lru c) = removeAll ?i (lc_lru c)"
    using butlast_eq_removeAll [OF layer_cache_okD(2) [OF ok] ne] .
  have "evict_lru (c, b) = ((layer_without ?i c, b'), Ok True)"
    using ne b'(1) lru by (simp add: evict_lru_def layer_without_def)
  moreover have "layer_view (layer_without ?i c) = butlast (layer_view c)"
    using lru unfolding layer_without_props(2) [OF ok]
    by (auto simp: layer_view_def filter_map comp_def removeAll_filter_not_eq
        simp flip: map_butlast intro!: map_cong filter_cong)
  moreover have "used b + lc_used_bytes (layer_without ?i c) = used b' + lc_used_bytes c"
    using b'(4) layer_cache_okD(6) [OF ok e] e by (simp add: layer_without_def)
  ultimately show thesis
    using that b'(2,3) layer_without_props(3) [OF ok] by blast
qed

text \<open>All the bytes of the cache are charged.\<close>

lemma layer_charged_used: "layer_charged (c, b) \<Longrightarrow> lc_used_bytes c \<le> used b"
proof (induction "length (layer_view c)" arbitrary: c b)
  case 0
  then have "lc_used_bytes c = 0" 
    using layer_view_total [OF layer_chargedD(1) [OF 0(2)]] by (simp add: layer_view_def)
  then show ?case by simp
next
  case (Suc n)
  then have ne: "lc_lru c \<noteq> []" by (auto simp: layer_view_def)
  obtain c' b' where s: "layer_charged (c', b')" "layer_view c' = butlast (layer_view c)"
    "used b + lc_used_bytes c' = used b' + lc_used_bytes c"
    using evict_lru_step [OF Suc.prems ne] by metis
  have "lc_used_bytes c' \<le> used b'" using Suc.hyps s(1,2) by simp
  with s(3) show ?case by linarith
qed

text \<open>
  The eviction loop with a condition of the form \<open>limit < used + need\<close>: it leaves the longest
  prefix of the recency list that brings the usage below, or the empty cache when there is none,
  and counts its evictions.
\<close>

lemma evict_while_result:
  assumes "layer_charged (c, b)"
    and "\<And>c' b'. layer_charged (c', b') \<Longrightarrow> lc_capacity_bytes c' = lc_capacity_bytes c \<Longrightarrow>
      total b' = total b \<Longrightarrow> used b + lc_used_bytes c' = used b' + lc_used_bytes c \<Longrightarrow>
      lc_used_bytes c' \<le> lc_used_bytes c \<Longrightarrow>
      wanting (c', b') = Ok (limit < lc_used_bytes c' + need)"
  shows "\<exists>c' b'. evict_while wanting n (c, b) =
      ((c', b'), Ok (need \<le> limit, n + (length (lc_lru c) - length (lc_lru c'))))
    \<and> layer_charged (c', b') \<and> layer_others_kept b b' \<and> lc_capacity_bytes c' = lc_capacity_bytes c
    \<and> layer_view c' = (if need \<le> limit then fit_prefix layer_weight (limit - need) (layer_view c) else [])
    \<and> used b + lc_used_bytes c' = used b' + lc_used_bytes c"
  using assms
proof (induction "length (lc_lru c)" arbitrary: c b n rule: less_induct)
  case less
  note ch = less.prems(1) and ok = layer_chargedD(1) [OF less.prems(1)]
  note tot = layer_view_total [OF ok]
  have cond: "wanting (c, b) = Ok (limit < lc_used_bytes c + need)"
    using less.prems(2) ch by simp
  show ?case
  proof (cases "limit < lc_used_bytes c + need")
    case False
    then have "fit_prefix layer_weight (limit - need) (layer_view c) = layer_view c"
      using tot by (intro fit_prefix_all) simp
    then show ?thesis using False cond ch by (simp add: evict_while.simps [of wanting n "(c, b)"])
  next
    case full: True
    show ?thesis
    proof (cases "lc_lru c = []")
      case True
      then have "lc_used_bytes c = 0" using tot by (simp add: layer_view_def)
      then show ?thesis
        using full cond ch evict_lru_empty [OF True, of b] True
        by (simp add: evict_while.simps [of wanting n "(c, b)"] layer_view_def)
    next
      case False
      obtain c1 b1 where s: "evict_lru (c, b) = ((c1, b1), Ok True)" "layer_charged (c1, b1)"
        "layer_view c1 = butlast (layer_view c)" "lc_capacity_bytes c1 = lc_capacity_bytes c"
        "layer_others_kept b b1" "used b + lc_used_bytes c1 = used b1 + lc_used_bytes c"
        using evict_lru_step [OF ch False] by metis
      have le: "lc_used_bytes c1 \<le> lc_used_bytes c"
        using tot layer_view_total [OF layer_chargedD(1) [OF s(2)]] s(3) False
        by (cases "layer_view c" rule: rev_cases) auto
      have len: "length (lc_lru c1) = length (lc_lru c) - 1"
        using arg_cong [OF s(3), of length] by (simp add: layer_view_def)
      then have shorter: "length (lc_lru c1) < length (lc_lru c)" using False by simp
      have tb: "total b1 = total b" using s(5) by (simp add: layer_others_kept_def)
      have step: "evict_while wanting n (c, b) = evict_while wanting (Suc n) (c1, b1)"
        using full cond s(1) by (simp add: evict_while.simps [of wanting n "(c, b)"])
      have cond1: "wanting (c', b') = Ok (limit < lc_used_bytes c' + need)"
        if "layer_charged (c', b')" "lc_capacity_bytes c' = lc_capacity_bytes c1"
          "total b' = total b1" "used b1 + lc_used_bytes c' = used b' + lc_used_bytes c1"
          "lc_used_bytes c' \<le> lc_used_bytes c1" for c' b'
        by (rule less.prems(2) [OF that(1)]) (use that s(4,6) tb le in simp_all)
      obtain c' b' where r: "evict_while wanting (Suc n) (c1, b1) =
          ((c', b'), Ok (need \<le> limit, Suc n + (length (lc_lru c1) - length (lc_lru c'))))"
        "layer_charged (c', b')" "layer_others_kept b1 b'"
        "lc_capacity_bytes c' = lc_capacity_bytes c1"
        "layer_view c' = (if need \<le> limit then fit_prefix layer_weight (limit - need) (layer_view c1) else [])"
        "used b1 + lc_used_bytes c' = used b' + lc_used_bytes c1"
        using less.hyps [OF shorter s(2) cond1, of "Suc n"] by blast
      have view: "layer_view c' = (if need \<le> limit
          then fit_prefix layer_weight (limit - need) (layer_view c) else [])"
        using r(5) s(3) fit_prefix_butlast [of "limit - need" layer_weight "layer_view c"] full tot
        by (cases "need \<le> limit") simp_all
      have "length (layer_view c') \<le> length (layer_view c1)"
        using r(5) fit_prefix_take [of "layer_view c1" layer_weight "limit - need"]
        by (cases "need \<le> limit") (auto simp del: layer_view_Nil_iff)
      then have "length (lc_lru c') \<le> length (lc_lru c1)" by (simp add: layer_view_def)
      then have "Suc n + (length (lc_lru c1) - length (lc_lru c')) =
          n + (length (lc_lru c) - length (lc_lru c'))" using len shorter by simp
      moreover have "layer_others_kept b b'" using s(5) r(3) by (rule layer_others_kept_trans)
      moreover have "used b + lc_used_bytes c' = used b' + lc_used_bytes c" using s(6) r(6) by simp
      ultimately show ?thesis using step r(1,2,4) s(4) view by simp
    qed
  qed
qed

subsection \<open>Insertion\<close>

lemma active_charge_sum:
  assumes "budget_ok b"
  shows "active_charge_bytes i b = Some k \<longleftrightarrow>
    k = sum_list (map (\<lambda>n. the (budget_get b n))
      (filter (\<lambda>n. starts_with n (layer_prefix i)) (om_keys (allocations b))))"
proof -
  let ?f = "filter (\<lambda>p. starts_with (fst p) (layer_prefix i)) (allocations b)"
  have ok: "om_ok (allocations b)" using budget_okD [OF assms] by blast
  have "map snd ?f = map (\<lambda>n. the (budget_get b n)) (map fst ?f)"
    using om_get_in_set [OF ok] by (auto simp: budget_get_def)
  moreover have "map fst ?f = filter (\<lambda>n. starts_with n (layer_prefix i)) (om_keys (allocations b))"
    by (simp add: om_keys_def filter_map comp_def)
  ultimately have eq: "map snd ?f = map (\<lambda>n. the (budget_get b n))
      (filter (\<lambda>n. starts_with n (layer_prefix i)) (om_keys (allocations b)))" by simp
  have "sum_list (map snd ?f) \<le> om_total id (allocations b)"
    using sum_list_filter_le [of snd] by (simp add: om_total_def)
  then have "sum_list (map snd ?f) \<le> U64_MAX"
    using budget_okD(2,3,4) [OF assms] by linarith
  then have "try_sum 0 (map snd ?f) = Some (0 + sum_list (map snd ?f))" by (intro try_sum_exact) simp
  then show ?thesis unfolding active_charge_bytes_def case_prod_beta eq by auto
qed

text \<open>
  With the charges of layer \<open>i\<close> live and no entry of layer \<open>i\<close>, the rename succeeds: no charge has a
  name below \<open>cache:layer:<i>:\<close>.
\<close>

lemma adopt_charges_result:
  assumes ch: "layer_charged (c, b)" and absent: "om_get (lc_entries c) i = None"
    and act: "active_charge_bytes i b = Some bytes" and "0 < bytes"
    and room: "lc_used_bytes c + bytes \<le> lc_capacity_bytes c"
  shows "\<exists>c' b'. adopt_charges i val bytes ev (c, b) = ((c', b'), Ok (Cached ev))
    \<and> layer_charged (c', b') \<and> layer_view c' = (i, val, bytes) # layer_view c
    \<and> lc_capacity_bytes c' = lc_capacity_bytes c
    \<and> used b' = used b \<and> total b' = total b
    \<and> (\<forall>n. budget_get b' (layer_prefix i @ n) = None)
    \<and> (\<forall>n. budget_get b' (cached_prefix i @ n) = budget_get b (layer_prefix i @ n))
    \<and> (\<forall>n. \<not> starts_with n ''cache:layer:'' \<and> \<not> starts_with n (layer_prefix i) \<longrightarrow>
         budget_get b' n = budget_get b n)"
proof -
  let ?lp = "layer_prefix i" and ?cp = "cached_prefix i"
  note d = layer_chargedD [OF ch] and ok = layer_chargedD(1) [OF ch]
  let ?olds = "filter (\<lambda>n. starts_with n ?lp) (om_keys (allocations b))"
  have sum: "bytes = sum_list (map (\<lambda>n. the (budget_get b n)) ?olds)"
    using act active_charge_sum [OF d(2)] by blast
  then have "?olds \<noteq> []" using \<open>0 < bytes\<close> by auto
  then obtain n0 where "n0 \<in> set ?olds" by (cases ?olds) auto
  then obtain s0 where s0: "budget_get b (?lp @ s0) \<noteq> None"
    by (auto simp: budget_get_keys starts_with_iff)
  have free: "budget_get b (?cp @ s) = None" for s
    using d(6) [of "?cp @ s" i] absent by (cases "budget_get b (?cp @ s)") auto
  obtain b' names where ren: "rename_prefix ?lp ?cp b = (b', Ok names)"
    using rename_prefix_total [OF d(2) s0] free by blast
  note r = rename_prefix_ok [OF d(2) ren]
  let ?e = "\<lparr>le_value = val, le_bytes = bytes, le_charge_names = names\<rparr>"
  let ?c = "c\<lparr>lc_used_bytes := lc_used_bytes c + bytes, lc_entries := om_put i ?e (lc_entries c),
    lc_lru := i # lc_lru c\<rparr>"
  have not_both: "\<not> starts_with n ?lp" if "starts_with n ''cache:layer:''" for n
    using that layer_prefix_family by blast
  have cp_lp: "\<not> starts_with n ?lp" if "starts_with n ?cp" for n
    using not_both cached_prefix_family that by blast
  have moved: "budget_get b' (?cp @ s) = budget_get b (?lp @ s)" for s
    using r(6) [of "?cp @ s"] free [of s] cp_lp [of "?cp @ s"] by auto
  have gone: "budget_get b' (?lp @ s) = None" for s
    using r(6) [of "?lp @ s"] cp_lp [of "?lp @ s"] by auto
  have kept: "budget_get b' n = budget_get b n"
    if "\<not> starts_with n ?cp" "\<not> starts_with n ?lp" for n
    using r(6) [of n] that by simp
  have names: "names = map (\<lambda>old. ?cp @ drop (length ?lp) old) ?olds"
    using r(5) by (simp add: rename_targets_def comp_def)
  have olds_lp: "?lp @ drop (length ?lp) n = n" if "n \<in> set ?olds" for n
    using that by (auto simp: starts_with_iff)
  have "adopt_charges i val bytes ev (c, b) = ((?c, b'), Ok (Cached ev))"
    using ren room layer_cache_okD(4) [OF ok] by (simp add: adopt_charges_def checked_add_def)
  moreover have view: "layer_view ?c = (i, val, bytes) # layer_view c"
    using absent layer_cache_okD(1,5) [OF ok] by (auto simp: layer_view_def)
  moreover have "layer_charged (?c, b')"
    unfolding layer_charged_def fst_conv snd_conv
  proof (intro conjI allI impI)
    show "layer_cache_ok ?c"
      using ok room om_total_put_new [OF absent, of le_bytes ?e] layer_cache_okD(5) [OF ok, of i] absent
      by (auto simp: layer_cache_ok_def om_keys_put)
    show "budget_ok b'" using r(1) .
    fix j f assume "om_get (lc_entries ?c) j = Some f"
    then have f: "if j = i then f = ?e else om_get (lc_entries c) j = Some f"
      using layer_cache_okD(1) [OF ok] by (auto split: if_splits)
    have same: "budget_get b' n = budget_get b n" if "j \<noteq> i" "n \<in> set (le_charge_names f)" for n
      using f that d(4) [of j f n] kept [of n] cached_prefix_inj [of n i j]
        not_both [OF cached_prefix_family [of n j]] by auto
    have olds_map: "map (\<lambda>n. the (budget_get b' n)) names = map (\<lambda>n. the (budget_get b n)) ?olds"
      unfolding names map_map using moved olds_lp by (intro map_cong refl) simp
    have same_map: "map (\<lambda>n. the (budget_get b' n)) (le_charge_names f) =
        map (\<lambda>n. the (budget_get b n)) (le_charge_names f)" if "j \<noteq> i"
      using same [OF that] by (intro map_cong refl) simp
    show "distinct (le_charge_names f)"
    proof (cases "j = i")
      case True
      have "distinct (om_keys (allocations b))"
        using om_keys_sorted budget_okD(1) [OF d(2)] by blast
      then show ?thesis using True f r(5) rename_targets_distinct(2) by auto
    qed (use f d(3) in simp)
    show "\<forall>n\<in>set (le_charge_names f). starts_with n (cached_prefix j) \<and> budget_get b' n \<noteq> None"
    proof (cases "j = i")
      case True
      have "budget_get b' (?cp @ drop (length ?lp) n) \<noteq> None" if "n \<in> set ?olds" for n
        using moved olds_lp [OF that] that budget_get_keys by auto
      then show ?thesis using True f names by auto
    next
      case False
      then show ?thesis using f d(4) same by auto
    qed
    show "le_bytes f = sum_list (map (\<lambda>n. the (budget_get b' n)) (le_charge_names f))"
    proof (cases "j = i")
      case True
      then show ?thesis using f sum olds_map by simp
    next
      case False
      then show ?thesis
        using f d(5) [of j f] arg_cong [OF same_map [OF False], of sum_list]
        by (simp del: map_eq_conv)
    qed
  next
    fix j n assume n: "starts_with n (cached_prefix j)" "budget_get b' n \<noteq> None"
    show "\<exists>e. om_get (lc_entries ?c) j = Some e \<and> n \<in> set (le_charge_names e)"
    proof (cases "j = i")
      case True
      with n(1) obtain s where s: "n = ?cp @ s" by (auto simp: starts_with_iff)
      then have "?lp @ s \<in> set ?olds" using n(2) moved [of s] budget_get_keys by auto
      then have "n \<in> set names" using s unfolding names by force
      then show ?thesis using True layer_cache_okD(1) [OF ok] by simp
    next
      case False
      have "\<not> starts_with n ?cp" using False n(1) cached_prefix_inj by blast
      moreover have "\<not> starts_with n ?lp" using not_both [OF cached_prefix_family [OF n(1)]] .
      ultimately have "budget_get b n \<noteq> None" using kept n(2) by simp
      then show ?thesis using d(6) [OF n(1)] False layer_cache_okD(1) [OF ok] by auto
    qed
  qed
  moreover have "budget_get b' n = budget_get b n"
    if "\<not> starts_with n ''cache:layer:''" "\<not> starts_with n ?lp" for n
    using kept [of n] cached_prefix_family [of n i] that by blast
  ultimately show ?thesis using r(2,3) moved gone by simp
qed

lemma active_charge_agree:
  assumes "budget_ok b" and "budget_ok b'"
    and "\<And>n. starts_with n (layer_prefix i) \<Longrightarrow> budget_get b' n = budget_get b n"
  shows "active_charge_bytes i b' = active_charge_bytes i b"
proof -
  let ?P = "\<lambda>n. starts_with n (layer_prefix i)"
  have sd: "sorted (om_keys (allocations x)) \<and> distinct (om_keys (allocations x))" if "budget_ok x" for x
    using om_keys_sorted budget_okD(1) [OF that] by blast
  have "set (filter ?P (om_keys (allocations b'))) = set (filter ?P (om_keys (allocations b)))"
    using assms(3) budget_get_keys by auto
  then have keys: "filter ?P (om_keys (allocations b')) = filter ?P (om_keys (allocations b))"
    using sd [OF assms(1)] sd [OF assms(2)]
    by (intro sorted_distinct_set_unique sorted_wrt_filter distinct_filter) auto
  have "map (\<lambda>n. the (budget_get b' n)) (filter ?P (om_keys (allocations b))) =
      map (\<lambda>n. the (budget_get b n)) (filter ?P (om_keys (allocations b)))"
    using assms(3) by (intro map_cong refl) simp
  then show ?thesis
    using active_charge_sum [OF assms(1), of i] active_charge_sum [OF assms(2), of i] keys
    by (metis (no_types, lifting))
qed

lemma drop_old_result:
  assumes ch: "layer_charged (c, b)"
  shows "\<exists>b1. (if om_mem (lc_entries c) i
      then sbind (evict_layer i (c, b)) (\<lambda>s1 _. (s1, Ok 1)) else ((c, b), Ok (0 :: nat)))
      = ((layer_without i c, b1), Ok (length (lc_lru c) - length (lc_lru (layer_without i c))))
    \<and> layer_charged (layer_without i c, b1) \<and> layer_others_kept b b1
    \<and> used b + lc_used_bytes (layer_without i c) = used b1 + lc_used_bytes c"
proof (cases "om_get (lc_entries c) i")
  case None
  have "i \<notin> set (lc_lru c)"
    using None layer_cache_okD(5) [OF layer_chargedD(1) [OF ch]] by blast
  then have "layer_without i c = c" using None by (simp add: layer_without_def)
  then show ?thesis using None ch by (simp add: om_mem_iff)
next
  case (Some e)
  note ok = layer_chargedD(1) [OF ch]
  obtain b' where b': "evict_layer i (c, b) = ((layer_without i c, b'), Ok ())"
    "layer_charged (layer_without i c, b')" "layer_others_kept b b'" "used b = used b' + le_bytes e"
    using evict_layer_result [OF ch Some] by blast
  have "i \<in> set (lc_lru c)" using Some layer_cache_okD(5) [OF ok] by simp
  then have "length (removeAll i (lc_lru c)) = length (lc_lru c) - 1" and "0 < length (lc_lru c)"
    using layer_cache_okD(2) [OF ok] length_pos_if_in_set [of i "lc_lru c"]
    by (simp_all add: distinct_remove1_removeAll [symmetric] length_remove1)
  then have "length (lc_lru c) - length (lc_lru (layer_without i c)) = 1"
    by (cases "lc_lru c") (simp_all add: layer_without_def)
  moreover have "used b + lc_used_bytes (layer_without i c) = used b' + lc_used_bytes c"
    using b'(4) Some layer_cache_okD(6) [OF ok Some] by (simp add: layer_without_def)
  ultimately show ?thesis using b' Some by (simp add: om_mem_iff)
qed

lemma insert_loaded_result:
  assumes ch: "layer_charged (c, b)" and act: "active_charge_bytes i b = Some bytes"
    and "0 < bytes" and le: "bytes \<le> lc_capacity_bytes c"
    and cap: "lc_capacity_bytes c + bytes \<le> U64_MAX"
  shows "\<exists>c' b'. insert_loaded i val bytes (c, b) =
      ((c', b'), Ok (Cached (Suc (length (lc_lru c)) - length (lc_lru c'))))
    \<and> layer_charged (c', b') \<and> lc_capacity_bytes c' = lc_capacity_bytes c
    \<and> layer_view c' = (i, val, bytes) # fit_prefix layer_weight (lc_capacity_bytes c - bytes)
        (filter (\<lambda>p. fst p \<noteq> i) (layer_view c))
    \<and> (\<forall>n. budget_get b' (layer_prefix i @ n) = None)
    \<and> (\<forall>n. budget_get b' (cached_prefix i @ n) = budget_get b (layer_prefix i @ n))
    \<and> (\<forall>n. \<not> starts_with n ''cache:layer:'' \<and> \<not> starts_with n (layer_prefix i) \<longrightarrow>
         budget_get b' n = budget_get b n)
    \<and> used b + lc_used_bytes c' = used b' + lc_used_bytes c + bytes \<and> total b' = total b"
proof -
  let ?c1 = "layer_without i c"
  note ok = layer_chargedD(1) [OF ch]
  note p1 = layer_without_props [OF ok, of i]
  obtain b1 where s1: "(if om_mem (lc_entries c) i
      then sbind (evict_layer i (c, b)) (\<lambda>s1 _. (s1, Ok 1)) else ((c, b), Ok 0))
      = ((?c1, b1), Ok (length (lc_lru c) - length (lc_lru ?c1)))"
    "layer_charged (?c1, b1)" "layer_others_kept b b1"
    "used b + lc_used_bytes ?c1 = used b1 + lc_used_bytes c"
    using drop_old_result [OF ch] by blast
  have cond: "over_capacity bytes (c', b') = Ok (lc_capacity_bytes c < lc_used_bytes c' + bytes)"
    if "layer_charged (c', b')" "lc_capacity_bytes c' = lc_capacity_bytes ?c1" for c' b'
    using that layer_cache_okD(3) [OF layer_chargedD(1) [OF that(1)]] cap p1(3)
    by (simp add: over_capacity_def checked_add_def)
  obtain c2 b2 where s2: "evict_while (over_capacity bytes)
        (length (lc_lru c) - length (lc_lru ?c1)) (?c1, b1) =
      ((c2, b2), Ok (bytes \<le> lc_capacity_bytes c, length (lc_lru c) - length (lc_lru ?c1) +
        (length (lc_lru ?c1) - length (lc_lru c2))))"
    "layer_charged (c2, b2)" "layer_others_kept b1 b2" "lc_capacity_bytes c2 = lc_capacity_bytes ?c1"
    "layer_view c2 = (if bytes \<le> lc_capacity_bytes c
      then fit_prefix layer_weight (lc_capacity_bytes c - bytes) (layer_view ?c1) else [])"
    "used b1 + lc_used_bytes c2 = used b2 + lc_used_bytes ?c1"
    using evict_while_result [OF s1(2), where wanting = "over_capacity bytes" and need = bytes
        and limit = "lc_capacity_bytes c" and n = "length (lc_lru c) - length (lc_lru ?c1)"] cond
    by blast
  note ok2 = layer_chargedD(1) [OF s2(2)]
  let ?xs = "filter (\<lambda>p. fst p \<noteq> i) (layer_view c)"
  have v2: "layer_view c2 = fit_prefix layer_weight (lc_capacity_bytes c - bytes) ?xs"
    using s2(5) le p1(2) by simp
  have "set (layer_view c2) \<subseteq> set ?xs" unfolding v2 by (rule fit_prefix_subset)
  then have "i \<notin> fst ` set (layer_view c2)" by auto
  then have "i \<notin> set (lc_lru c2)" unfolding map_fst_layer_view [symmetric] set_map .
  then have absent: "om_get (lc_entries c2) i = None" using layer_cache_okD(5) [OF ok2] by simp
  have same: "budget_get b2 n = budget_get b n" if "\<not> starts_with n ''cache:layer:''" for n
    using layer_others_kept_trans [OF s1(3) s2(3)] that by (simp add: layer_others_kept_def)
  have lp: "budget_get b2 n = budget_get b n" if "starts_with n (layer_prefix i)" for n
    using same layer_prefix_family that by blast
  note bud = layer_chargedD(2) [OF ch] layer_chargedD(2) [OF s2(2)]
  have act2: "active_charge_bytes i b2 = Some bytes"
    using act active_charge_agree [OF bud lp] by simp
  have "lc_used_bytes c2 \<le> lc_capacity_bytes c - bytes"
    using fit_prefix_fits [of layer_weight "lc_capacity_bytes c - bytes" ?xs] layer_view_total [OF ok2]
    unfolding v2 by simp
  then have room: "lc_used_bytes c2 + bytes \<le> lc_capacity_bytes c2" using le s2(4) p1(3) by simp
  let ?ev = "length (lc_lru c) - length (lc_lru ?c1) + (length (lc_lru ?c1) - length (lc_lru c2))"
  obtain c3 b3 where s3: "adopt_charges i val bytes ?ev (c2, b2) = ((c3, b3), Ok (Cached ?ev))"
    "layer_charged (c3, b3)" "layer_view c3 = (i, val, bytes) # layer_view c2"
    "lc_capacity_bytes c3 = lc_capacity_bytes c2" "used b3 = used b2" "total b3 = total b2"
    "\<forall>n. budget_get b3 (layer_prefix i @ n) = None"
    "\<forall>n. budget_get b3 (cached_prefix i @ n) = budget_get b2 (layer_prefix i @ n)"
    "\<forall>n. \<not> starts_with n ''cache:layer:'' \<and> \<not> starts_with n (layer_prefix i) \<longrightarrow>
         budget_get b3 n = budget_get b2 n"
    using adopt_charges_result [OF s2(2) absent act2 assms(3) room, of val ?ev] by blast
  have "length (layer_view c2) \<le> length ?xs"
    using fit_prefix_take [of ?xs layer_weight "lc_capacity_bytes c - bytes"] v2 by auto
  then have len2: "length (lc_lru c2) \<le> length (lc_lru ?c1)"
    using arg_cong [OF p1(2), of length] by (simp add: layer_view_def)
  have "length (lc_lru ?c1) \<le> length (lc_lru c)" by (simp add: layer_without_def)
  moreover have "length (lc_lru c3) = Suc (length (lc_lru c2))"
    using arg_cong [OF s3(3), of length] by (simp add: layer_view_def)
  ultimately have ev: "?ev = Suc (length (lc_lru c)) - length (lc_lru c3)" using len2 by simp
  have "insert_loaded i val bytes (c, b) = ((c3, b3), Ok (Cached ?ev))"
    using assms(3) le act s1(1) s2(1) s3(1) by (simp add: insert_loaded_def)
  moreover have "lc_used_bytes c3 = lc_used_bytes c2 + bytes"
    using layer_view_total [OF layer_chargedD(1) [OF s3(2)]] layer_view_total [OF ok2] s3(3) by simp
  then have "used b + lc_used_bytes c3 = used b3 + lc_used_bytes c + bytes"
    using s1(4) s2(6) s3(5) by simp
  moreover have "total b3 = total b"
    using s1(3) s2(3) s3(6) by (simp add: layer_others_kept_def)
  ultimately show ?thesis
    using ev s3(2,3,7-9) s3(4) s2(4) p1(3) v2 lp same by auto
qed

subsection \<open>Properties\<close>

text \<open>
  C4: \<open>insert_loaded\<close> on a layer cache whose entries are exactly charged. A size that is zero,
  above the capacity or not the sum of the live charges \<open>layer:<i>:*\<close> changes nothing and hands the
  value back. Otherwise the call succeeds: the layer is the most recently used entry, beside it
  survives the longest prefix of the other entries that fits, the outcome counts the evictions,
  the live charges of the layer have become its cache charges of the same sizes, the charges of
  evicted entries are released, and every charge that is neither is untouched.
\<close>

theorem insert_loaded_outcome:
  assumes "layer_charged (c, b)" and "lc_capacity_bytes c + bytes \<le> U64_MAX"
    and "insert_loaded i val bytes (c, b) = ((c', b'), r)"
  shows "if bytes = 0 \<or> lc_capacity_bytes c < bytes \<or> active_charge_bytes i b \<noteq> Some bytes
    then (c', b') = (c, b) \<and> r = Ok (Skipped val 0)
    else r = Ok (Cached (Suc (length (lc_lru c)) - length (lc_lru c')))
      \<and> layer_charged (c', b')
      \<and> layer_view c' = (i, val, bytes) # fit_prefix layer_weight (lc_capacity_bytes c - bytes)
          (filter (\<lambda>p. fst p \<noteq> i) (layer_view c))
      \<and> (\<forall>n. budget_get b' (layer_prefix i @ n) = None)
      \<and> (\<forall>n. budget_get b' (cached_prefix i @ n) = budget_get b (layer_prefix i @ n))
      \<and> (\<forall>n. \<not> starts_with n ''cache:layer:'' \<and> \<not> starts_with n (layer_prefix i) \<longrightarrow>
           budget_get b' n = budget_get b n)
      \<and> used b + lc_used_bytes c' = used b' + lc_used_bytes c + bytes"
proof (cases "bytes = 0 \<or> lc_capacity_bytes c < bytes \<or> active_charge_bytes i b \<noteq> Some bytes")
  case True
  then have "insert_loaded i val bytes (c, b) = ((c, b), Ok (Skipped val 0))"
    by (auto simp: insert_loaded_def)
  then show ?thesis using True assms(3) by simp
next
  case False
  then have "active_charge_bytes i b = Some bytes" "0 < bytes" "bytes \<le> lc_capacity_bytes c"
    by simp_all
  from insert_loaded_result [OF assms(1) this assms(2), of val] False assms(3)
  show ?thesis by auto
qed

theorem insert_loaded_outcome_witness:
  "\<exists>c' b'. insert_loaded 3 True 4 (layer_cache_new 10,
      \<lparr>total = 10, allocations = [(''kv'', 1), (''layer:3:w'', 4)], used = 5, peak_used = 5\<rparr>)
    = ((c', b'), Ok (Cached 0)) \<and> layer_view c' = [(3, True, 4)]
    \<and> budget_get b' ''cache:layer:3:w'' = Some 4"
proof -
  let ?c = "layer_cache_new 10 :: bool layer_cache"
  let ?b = "\<lparr>total = 10, allocations = [(''kv'', 1), (''layer:3:w'', 4)], used = 5, peak_used = 5\<rparr>
    :: memory_budget"
  have "budget_ok ?b" by (simp add: budget_ok_def om_ok_def U64_MAX_def less_char_def)
  then have ch: "layer_charged (?c, ?b)"
    by (auto simp: layer_charged_def layer_cache_ok_def layer_cache_new_def om_keys_def budget_get_def
        starts_with_iff cached_prefix_def U64_MAX_def split: if_splits)
  have lp: "layer_prefix 3 = ''layer:3:''"
    by (simp add: layer_prefix_def show_nat.simps digit_char_def char_of_eq_iff)
  then have act: "active_charge_bytes 3 ?b = Some 4"
    by (simp add: active_charge_bytes_def starts_with_def U64_MAX_def checked_add_def)
  obtain c' b' r where run: "insert_loaded 3 True 4 (?c, ?b) = ((c', b'), r)" by (metis surj_pair)
  have cp: "cached_prefix 3 @ ''w'' = ''cache:layer:3:w''"
    by (simp add: cached_prefix_def show_nat.simps digit_char_def char_of_eq_iff)
  have res: "layer_view c' = [(3, True, 4)]" "r = Ok (Cached (1 - length (lc_lru c')))"
    "\<forall>n. budget_get b' (cached_prefix 3 @ n) = budget_get ?b (layer_prefix 3 @ n)"
    using insert_loaded_outcome [OF ch _ run] act
    by (auto simp: layer_cache_new_def U64_MAX_def layer_view_def)
  have "length (lc_lru c') = 1"
    using arg_cong [OF res(1), of length] by (simp add: layer_view_def)
  then show ?thesis
    using run res(1,2) spec [OF res(3), of "''w''"] unfolding cp by (simp add: lp budget_get_def)
qed

text \<open>
  \<open>evict_until_available\<close> gives the budget room by dropping least recently used layers only: it
  keeps the longest recency prefix that leaves \<open>required_bytes\<close> available beside the bytes charged to
  others, answers the number of evictions, and empties the cache when even that is not enough;
  \<open>clear\<close> always empties it and releases exactly its bytes.
\<close>

theorem evict_until_available_outcome:
  assumes "layer_charged (c, b)"
  shows "(\<exists>c' b'. evict_until_available required (c, b) =
        ((c', b'), Ok (length (lc_lru c) - length (lc_lru c')))
      \<and> layer_charged (c', b') \<and> layer_others_kept b b'
      \<and> (if used b - lc_used_bytes c + required \<le> total b
         then layer_view c' = fit_prefix layer_weight
             (total b - (used b - lc_used_bytes c + required)) (layer_view c)
           \<and> can_allocate b' required = Some True
         else layer_view c' = [])
      \<and> used b + lc_used_bytes c' = used b' + lc_used_bytes c)
    \<and> (\<exists>c' b'. clear_layers (c, b) = ((c', b'), Ok (length (lc_lru c)))
      \<and> layer_charged (c', b') \<and> layer_others_kept b b' \<and> layer_view c' = []
      \<and> used b' = used b - lc_used_bytes c)"
proof
  let ?need = "used b - lc_used_bytes c + required"
  note le = layer_charged_used [OF assms]
  have cond: "budget_full required (c', b') = Ok (total b < lc_used_bytes c' + ?need)"
    if "layer_charged (c', b')" "total b' = total b"
      "used b + lc_used_bytes c' = used b' + lc_used_bytes c" for c' b'
  proof -
    have "used b' + required = lc_used_bytes c' + ?need" using that(3) le by simp
    then show ?thesis
      using can_allocate_ok [OF layer_chargedD(2) [OF that(1)]] that(2)
      by (simp add: budget_full_def not_le add.assoc)
  qed
  obtain c' b' where r: "evict_while (budget_full required) 0 (c, b) =
      ((c', b'), Ok (?need \<le> total b, 0 + (length (lc_lru c) - length (lc_lru c'))))"
    "layer_charged (c', b')" "layer_others_kept b b'"
    "layer_view c' = (if ?need \<le> total b then fit_prefix layer_weight (total b - ?need) (layer_view c) else [])"
    "used b + lc_used_bytes c' = used b' + lc_used_bytes c"
    using evict_while_result [OF assms, where wanting = "budget_full required" and need = ?need
        and limit = "total b" and n = 0] cond by blast
  have "can_allocate b' required = Some True" if "?need \<le> total b"
  proof -
    have "lc_used_bytes c' \<le> total b - ?need"
      using layer_view_total [OF layer_chargedD(1) [OF r(2)]] r(4) that
        fit_prefix_fits [of layer_weight "total b - ?need" "layer_view c"] by simp
    then show ?thesis
      using can_allocate_ok [OF layer_chargedD(2) [OF r(2)]] r(3,5) le that
      by (simp add: layer_others_kept_def)
  qed
  then show "\<exists>c' b'. evict_until_available required (c, b) =
        ((c', b'), Ok (length (lc_lru c) - length (lc_lru c')))
      \<and> layer_charged (c', b') \<and> layer_others_kept b b'
      \<and> (if ?need \<le> total b
         then layer_view c' = fit_prefix layer_weight (total b - ?need) (layer_view c)
           \<and> can_allocate b' required = Some True
         else layer_view c' = [])
      \<and> used b + lc_used_bytes c' = used b' + lc_used_bytes c"
    using r by (auto simp: evict_until_available_def)
next
  obtain c' b' where r: "evict_while (\<lambda>_. Ok True) 0 (c, b) =
      ((c', b'), Ok (1 \<le> (0 :: nat), 0 + (length (lc_lru c) - length (lc_lru c'))))"
    "layer_charged (c', b')" "layer_others_kept b b'"
    "layer_view c' = (if 1 \<le> (0 :: nat) then fit_prefix layer_weight (0 - 1) (layer_view c) else [])"
    "used b + lc_used_bytes c' = used b' + lc_used_bytes c"
    using evict_while_result [OF assms, where wanting = "\<lambda>_. Ok True" and need = 1
        and limit = 0 and n = 0] by auto
  then have "lc_lru c' = []" by simp
  moreover have "lc_used_bytes c' = 0"
    using layer_view_total [OF layer_chargedD(1) [OF r(2)]] r(4) by simp
  ultimately show "\<exists>c' b'. clear_layers (c, b) = ((c', b'), Ok (length (lc_lru c)))
      \<and> layer_charged (c', b') \<and> layer_others_kept b b' \<and> layer_view c' = []
      \<and> used b' = used b - lc_used_bytes c"
    using r by (auto simp: clear_layers_def)
qed

theorem evict_until_available_outcome_witness:
  "\<exists>c' b'. clear_layers (layer_cache_new 10 :: bool layer_cache,
      \<lparr>total = 10, allocations = [(''kv'', 1)], used = 1, peak_used = 5\<rparr>) = ((c', b'), Ok 0)
    \<and> used b' = 1"
proof -
  let ?c = "layer_cache_new 10 :: bool layer_cache"
  let ?b = "\<lparr>total = 10, allocations = [(''kv'', 1)], used = 1, peak_used = 5\<rparr> :: memory_budget"
  have "budget_ok ?b" by (simp add: budget_ok_def om_ok_def U64_MAX_def)
  then have "layer_charged (?c, ?b)"
    by (auto simp: layer_charged_def layer_cache_ok_def layer_cache_new_def om_keys_def budget_get_def
        starts_with_iff cached_prefix_def U64_MAX_def split: if_splits)
  from conjunct2 [OF evict_until_available_outcome [OF this, of 0]] show ?thesis
    by (auto simp: layer_cache_new_def)
qed

end
