(* ===== verification/Kv_Cache.thy ===== *)
theory Kv_Cache
  imports Memory_Budget
begin

section \<open>The key/value cache\<close>

text \<open>
  \<open>KvCache\<close> of \<open>crates/ramforge-runtime/src/kv_cache.rs\<close>: per layer one key and one value
  buffer in the layout \<open>[position][kv_head][head_dim]\<close>, of which the first \<open>seq_len\<close> positions are
  committed history. The element type (\<open>f32\<close> in the code, only ever stored and copied) is a type
  parameter with its zero as an argument. The outcome of \<open>Vec::try_reserve_exact\<close> is a parameter
  \<open>grant\<close>: whether the \<open>n\<close>-th request of a call, for \<open>len\<close> elements, is granted.
  \<open>kv_ok\<close> is the invariant; \<open>kv_charged\<close> adds that the cache's charge is its byte size.
\<close>

type_synonym allocator = "nat \<Rightarrow> usize \<Rightarrow> bool"

record 'f kv_cache =
  n_layers :: usize
  n_kv_heads :: usize
  head_dim :: usize
  max_seq_len :: usize
  seq_len :: usize
  k_caches :: "'f list list"
  v_caches :: "'f list list"
  bytes_per_layer :: usize

record kv_layout =
  kl_elems_per_layer :: usize
  kl_bytes_per_layer :: usize
  kl_total_bytes :: usize

abbreviation GROW_CHUNK_TOKENS :: usize where
  "GROW_CHUNK_TOKENS \<equiv> 256"

abbreviation size_of_f32 :: usize where
  "size_of_f32 \<equiv> 4"

definition kv_layout_of :: "usize \<Rightarrow> usize \<Rightarrow> usize \<Rightarrow> usize \<Rightarrow> (kv_layout, string) result" where
  "kv_layout_of layers kv_heads dim max_len =
     (if layers = 0 \<or> kv_heads = 0 \<or> dim = 0 \<or> max_len = 0
      then Err ''invalid KV cache dimensions''
      else rbind (ok_or ''KV cache element count overflow''
             (Option.bind (checked_mul max_len kv_heads) (\<lambda>v. checked_mul v dim)))
        (\<lambda>elems. rbind (ok_or ''KV cache per-layer byte size overflow''
             (Option.bind (checked_mul elems size_of_f32) (\<lambda>v. checked_mul v 2)))
        (\<lambda>layer_bytes. rbind (ok_or ''KV cache total byte size overflow''
             (checked_mul layer_bytes layers))
        (\<lambda>total_bytes. Ok \<lparr>kl_elems_per_layer = elems, kl_bytes_per_layer = layer_bytes,
             kl_total_bytes = total_bytes\<rparr>))))"

definition zeroed_buffer :: "allocator \<Rightarrow> 'f \<Rightarrow> nat \<Rightarrow> usize \<Rightarrow> string \<Rightarrow> ('f list, string) result" where
  "zeroed_buffer grant zero call len label =
     (if grant call len then Ok (replicate len zero)
      else Err (''failed to reserve '' @ label))"

fun fresh_layers :: "allocator \<Rightarrow> 'f \<Rightarrow> nat \<Rightarrow> usize \<Rightarrow> nat \<Rightarrow>
  ('f list list \<times> 'f list list, string) result"
where
  "fresh_layers grant zero call elems 0 = Ok ([], [])"
| "fresh_layers grant zero call elems (Suc n) =
     rbind (zeroed_buffer grant zero call elems ''KV K storage'') (\<lambda>k.
       rbind (zeroed_buffer grant zero (call + 1) elems ''KV V storage'') (\<lambda>v.
         rbind (fresh_layers grant zero (call + 2) elems n) (\<lambda>(ks, vs).
           Ok (k # ks, v # vs))))"

definition allocate_from_layout :: "allocator \<Rightarrow> 'f \<Rightarrow> usize \<Rightarrow> usize \<Rightarrow> usize \<Rightarrow> usize \<Rightarrow> kv_layout \<Rightarrow>
  ('f kv_cache, string) result"
where
  "allocate_from_layout grant zero layers kv_heads dim max_len lay =
     (if \<not> grant 0 layers then Err ''failed to reserve KV K-layer table''
      else if \<not> grant 1 layers then Err ''failed to reserve KV V-layer table''
      else rbind (fresh_layers grant zero 2 (kl_elems_per_layer lay) layers) (\<lambda>(ks, vs).
        Ok \<lparr>n_layers = layers, n_kv_heads = kv_heads, head_dim = dim, max_seq_len = max_len,
            seq_len = 0, k_caches = ks, v_caches = vs, bytes_per_layer = kl_bytes_per_layer lay\<rparr>))"

definition kv_new :: "allocator \<Rightarrow> 'f \<Rightarrow> usize \<Rightarrow> usize \<Rightarrow> usize \<Rightarrow> usize \<Rightarrow>
  ('f kv_cache, string) result"
where
  "kv_new grant zero layers kv_heads dim max_len =
     rbind (kv_layout_of layers kv_heads dim max_len)
       (allocate_from_layout grant zero layers kv_heads dim max_len)"

definition kv_new_with_budget :: "allocator \<Rightarrow> 'f \<Rightarrow> usize \<Rightarrow> usize \<Rightarrow> usize \<Rightarrow> usize \<Rightarrow> string \<Rightarrow>
  memory_budget \<Rightarrow> memory_budget \<times> ('f kv_cache, string) result"
where
  "kv_new_with_budget grant zero layers kv_heads dim max_len charge_name b =
     (case rbind (kv_layout_of layers kv_heads dim max_len) (\<lambda>lay.
            rbind (ok_or ''KV cache byte size exceeds u64'' (try_u64 (kl_total_bytes lay)))
              (\<lambda>bytes. Ok (lay, bytes))) of
        Err e \<Rightarrow> (b, Err e)
      | Panic m \<Rightarrow> (b, Panic m)
      | Ok (lay, total_bytes) \<Rightarrow>
          (case allocate charge_name total_bytes b of
             (b1, Err _) \<Rightarrow> (b1, Err ''failed to reserve KV cache'')
           | (b1, Panic m) \<Rightarrow> (b1, Panic m)
           | (b1, Ok _) \<Rightarrow>
               (case allocate_from_layout grant zero layers kv_heads dim max_len lay of
                  Ok cache \<Rightarrow> (b1, Ok cache)
                | Panic m \<Rightarrow> (b1, Panic m)
                | Err e \<Rightarrow>
                    (case release charge_name b1 of
                       (b2, Ok _) \<Rightarrow> (b2, Err e)
                     | (b2, Err _) \<Rightarrow>
                         (b2, Err ''KV cache allocation failed; reservation rollback failed'')
                     | (b2, Panic m) \<Rightarrow> (b2, Panic m)))))"

definition capacity_tokens :: "'f kv_cache \<Rightarrow> usize" where
  "capacity_tokens c = max_seq_len c"

definition try_bytes_for_tokens :: "'f kv_cache \<Rightarrow> usize \<Rightarrow> (usize, string) result" where
  "try_bytes_for_tokens c tokens =
     ok_or ''KV cache byte size overflow''
       (Option.bind (checked_mul tokens (n_kv_heads c)) (\<lambda>v.
        Option.bind (checked_mul v (head_dim c)) (\<lambda>v.
        Option.bind (checked_mul v size_of_f32) (\<lambda>v.
        Option.bind (checked_mul v 2) (\<lambda>v. checked_mul v (n_layers c))))))"

definition try_chunk_aligned_capacity :: "usize \<Rightarrow> (usize, string) result" where
  "try_chunk_aligned_capacity required =
     rbind (ok_or ''KV cache chunk capacity overflow''
         (checked_add required (GROW_CHUNK_TOKENS - 1)))
       (\<lambda>rounded. ok_or ''KV cache chunk capacity overflow''
         (checked_mul (rounded div GROW_CHUNK_TOKENS) GROW_CHUNK_TOKENS))"

text \<open>
  \<open>k[..old].copy_from_slice(&src)\<close>: panics when \<open>old\<close> is out of range or \<open>src\<close> has another length.
\<close>

definition copy_prefix :: "usize \<Rightarrow> 'f list \<Rightarrow> 'f list \<Rightarrow> ('f list, string) result" where
  "copy_prefix old src dst =
     (if length dst < old then Panic ''range end index out of range''
      else if length src \<noteq> old then Panic ''copy_from_slice: slice lengths differ''
      else Ok (src @ drop old dst))"

definition layer_at :: "'f list list \<Rightarrow> nat \<Rightarrow> ('f list, string) result" where
  "layer_at xs i = (if i < length xs then Ok (xs ! i) else Panic ''index out of bounds'')"

fun grown_layers :: "allocator \<Rightarrow> 'f \<Rightarrow> nat \<Rightarrow> usize \<Rightarrow> usize \<Rightarrow> 'f kv_cache \<Rightarrow> nat \<Rightarrow> nat \<Rightarrow>
  ('f list list \<times> 'f list list, string) result"
where
  "grown_layers grant zero call elems old c layer 0 = Ok ([], [])"
| "grown_layers grant zero call elems old c layer (Suc n) =
     rbind (zeroed_buffer grant zero call elems ''grown KV K storage'') (\<lambda>k0.
       rbind (rbind (layer_at (k_caches c) layer) (\<lambda>src. copy_prefix old src k0)) (\<lambda>k.
         rbind (zeroed_buffer grant zero (call + 1) elems ''grown KV V storage'') (\<lambda>v0.
           rbind (rbind (layer_at (v_caches c) layer) (\<lambda>src. copy_prefix old src v0)) (\<lambda>v.
             rbind (grown_layers grant zero (call + 2) elems old c (layer + 1) n) (\<lambda>(ks, vs).
               Ok (k # ks, v # vs))))))"

definition existing_elems :: "'f kv_cache \<Rightarrow> (usize, string) result" where
  "existing_elems c = ok_or ''existing KV cache element count overflow''
     (Option.bind (checked_mul (max_seq_len c) (n_kv_heads c)) (\<lambda>v. checked_mul v (head_dim c)))"

definition allocate_grown_buffers :: "allocator \<Rightarrow> 'f \<Rightarrow> usize \<Rightarrow> 'f kv_cache \<Rightarrow>
  ('f list list \<times> 'f list list \<times> kv_layout, string) result"
where
  "allocate_grown_buffers grant zero new_capacity c =
     (if new_capacity \<le> max_seq_len c
      then rbind (existing_elems c) (\<lambda>elems.
        rbind (try_bytes_for_tokens c (max_seq_len c)) (\<lambda>total_bytes.
          Ok (k_caches c, v_caches c, \<lparr>kl_elems_per_layer = elems,
            kl_bytes_per_layer = bytes_per_layer c, kl_total_bytes = total_bytes\<rparr>)))
      else rbind (kv_layout_of (n_layers c) (n_kv_heads c) (head_dim c) new_capacity) (\<lambda>lay.
        rbind (existing_elems c) (\<lambda>old.
          if \<not> grant 0 (n_layers c) then Err ''failed to reserve grown KV K-layer table''
          else if \<not> grant 1 (n_layers c) then Err ''failed to reserve grown KV V-layer table''
          else rbind (grown_layers grant zero 2 (kl_elems_per_layer lay) old c 0 (n_layers c))
            (\<lambda>(ks, vs). Ok (ks, vs, lay)))))"

definition install_buffers :: "usize \<Rightarrow> 'f list list \<times> 'f list list \<times> kv_layout \<Rightarrow> 'f kv_cache \<Rightarrow>
  'f kv_cache"
where
  "install_buffers new_capacity bufs c =
     (case bufs of (ks, vs, lay) \<Rightarrow>
        c\<lparr>k_caches := ks, v_caches := vs, max_seq_len := new_capacity,
          bytes_per_layer := kl_bytes_per_layer lay\<rparr>)"

definition grow_to :: "allocator \<Rightarrow> 'f \<Rightarrow> usize \<Rightarrow> 'f kv_cache \<Rightarrow>
  'f kv_cache \<times> (unit, string) result"
where
  "grow_to grant zero new_capacity c =
     (if new_capacity \<le> max_seq_len c then (c, Ok ())
      else case allocate_grown_buffers grant zero new_capacity c of
        Ok bufs \<Rightarrow> (install_buffers new_capacity bufs c, Ok ())
      | Err e \<Rightarrow> (c, Err e)
      | Panic m \<Rightarrow> (c, Panic m))"

type_synonym 'f charged_kv = "'f kv_cache \<times> memory_budget"

definition growth_name :: "string \<Rightarrow> string" where
  "growth_name charge_name = charge_name @ '':growth''"

definition grow_to_with_budget :: "allocator \<Rightarrow> 'f \<Rightarrow> usize \<Rightarrow> string \<Rightarrow> 'f charged_kv \<Rightarrow>
  'f charged_kv \<times> (unit, string) result"
where
  "grow_to_with_budget grant zero new_capacity charge_name s =
     (let (c, b) = s in
      if new_capacity \<le> max_seq_len c then (s, Ok ())
      else case rbind (try_bytes_for_tokens c (max_seq_len c)) (\<lambda>n.
             rbind (ok_or ''existing KV cache byte size exceeds u64'' (try_u64 n)) (\<lambda>old_bytes.
               rbind (try_bytes_for_tokens c new_capacity) (\<lambda>m.
                 rbind (ok_or ''grown KV cache byte size exceeds u64'' (try_u64 m)) (\<lambda>new_bytes.
                   Ok (old_bytes, new_bytes))))) of
        Err e \<Rightarrow> (s, Err e)
      | Panic m \<Rightarrow> (s, Panic m)
      | Ok (old_bytes, new_bytes) \<Rightarrow>
        (case allocate (growth_name charge_name) new_bytes b of
          (b1, Err _) \<Rightarrow> ((c, b1), Err ''failed to reserve grown KV cache'')
        | (b1, Panic m) \<Rightarrow> ((c, b1), Panic m)
        | (b1, Ok _) \<Rightarrow>
            if budget_get b1 charge_name \<noteq> Some old_bytes
            then (case release (growth_name charge_name) b1 of
                (b2, Ok _) \<Rightarrow>
                  ((c, b2), Err ''existing KV cache charge does not match physical cache size'')
              | (b2, Err _) \<Rightarrow> ((c, b2), Err ''growth reservation rollback failed'')
              | (b2, Panic m) \<Rightarrow> ((c, b2), Panic m))
            else (case allocate_grown_buffers grant zero new_capacity c of
                Err e \<Rightarrow>
                  (case release (growth_name charge_name) b1 of
                     (b2, Ok _) \<Rightarrow> ((c, b2), Err e)
                   | (b2, Err _) \<Rightarrow> ((c, b2), Err ''growth reservation rollback failed'')
                   | (b2, Panic m) \<Rightarrow> ((c, b2), Panic m))
              | Panic m \<Rightarrow> ((c, b1), Panic m)
              | Ok bufs \<Rightarrow>
                  let c' = install_buffers new_capacity bufs c in
                  (case commit_resize charge_name (growth_name charge_name) new_bytes b1 of
                     (b2, Ok _) \<Rightarrow> ((c', b2), Ok ())
                   | (b2, _) \<Rightarrow>
                       ((c', b2), Panic ''KV cache budget commit failed after physical replacement'')))))"

definition kv_total_bytes :: "'f kv_cache \<Rightarrow> usize option" where
  "kv_total_bytes c = checked_mul (bytes_per_layer c) (n_layers c)"

text \<open>\<open>allocate_from_budget\<close>: the charge of a cache that exists already; \<open>total_bytes\<close> panics when its product overflows.\<close>

definition allocate_from_budget :: "'f kv_cache \<Rightarrow> memory_budget \<Rightarrow> memory_budget \<times> (unit, memory_error) result" where
  "allocate_from_budget c b =
     (case kv_total_bytes c of
        None \<Rightarrow> (b, Panic ''KV cache total byte size must be representable'')
      | Some n \<Rightarrow> (case try_u64 n of None \<Rightarrow> (b, Err (InvalidSize U64_MAX)) | Some bytes \<Rightarrow> allocate ''kv_cache'' bytes b))"

text \<open>\<open>append\<close>: the slice assignment panics when the slot is outside the layer's buffer.\<close>

definition store_slot :: "usize \<Rightarrow> usize \<Rightarrow> 'f list \<Rightarrow> 'f list \<Rightarrow> ('f list, string) result" where
  "store_slot offset stop xs buf =
     (if length buf < stop then Panic ''range end index out of range''
      else Ok (take offset buf @ xs @ drop stop buf))"

definition append_kv :: "usize \<Rightarrow> 'f list \<Rightarrow> 'f list \<Rightarrow> 'f kv_cache \<Rightarrow>
  'f kv_cache \<times> (unit, string) result"
where
  "append_kv layer k v c =
     (if n_layers c \<le> layer then (c, Err ''layer out of bounds'')
      else if max_seq_len c \<le> seq_len c then (c, Err ''KV cache full'')
      else case rbind (ok_or ''K/V element count overflow''
               (checked_mul (n_kv_heads c) (head_dim c))) (\<lambda>expected.
             if length k \<noteq> expected \<or> length v \<noteq> expected then Err ''K/V size mismatch''
             else rbind (ok_or ''K/V cache offset overflow'' (checked_mul (seq_len c) expected))
               (\<lambda>offset. rbind (ok_or ''K/V cache slice end overflow'' (checked_add offset expected))
               (\<lambda>stop. Ok (offset, stop)))) of
        Err e \<Rightarrow> (c, Err e)
      | Panic m \<Rightarrow> (c, Panic m)
      | Ok (offset, stop) \<Rightarrow>
        (case rbind (layer_at (k_caches c) layer) (store_slot offset stop k) of
          Err e \<Rightarrow> (c, Err e)
        | Panic m \<Rightarrow> (c, Panic m)
        | Ok kb \<Rightarrow>
          let c1 = c\<lparr>k_caches := (k_caches c)[layer := kb]\<rparr> in
          (case rbind (layer_at (v_caches c1) layer) (store_slot offset stop v) of
             Err e \<Rightarrow> (c1, Err e)
           | Panic m \<Rightarrow> (c1, Panic m)
           | Ok vb \<Rightarrow> (c1\<lparr>v_caches := (v_caches c1)[layer := vb]\<rparr>, Ok ()))))"

definition increment_seq_len :: "'f kv_cache \<Rightarrow> 'f kv_cache \<times> (unit, string) result" where
  "increment_seq_len c =
     (case checked_add (seq_len c) 1 of
        None \<Rightarrow> (c, Panic ''KV cache sequence length overflow'')
      | Some n \<Rightarrow> (c\<lparr>seq_len := n\<rparr>, Ok ()))"

text \<open>\<open>get_k\<close> and \<open>get_v\<close>, on the buffers they read.\<close>

definition history :: "usize \<Rightarrow> 'f list list \<Rightarrow> 'f kv_cache \<Rightarrow> ('f list, string) result" where
  "history layer bufs c =
     rbind (expect ''K/V element count must be representable''
         (checked_mul (n_kv_heads c) (head_dim c))) (\<lambda>expected.
       rbind (expect ''cache history length must be representable''
           (checked_mul (seq_len c) expected)) (\<lambda>len.
         rbind (layer_at bufs layer) (\<lambda>buf.
           if length buf < len then Panic ''range end index out of range'' else Ok (take len buf))))"

definition get_k :: "usize \<Rightarrow> 'f kv_cache \<Rightarrow> ('f list, string) result" where
  "get_k layer c = history layer (k_caches c) c"

definition get_v :: "usize \<Rightarrow> 'f kv_cache \<Rightarrow> ('f list, string) result" where
  "get_v layer c = history layer (v_caches c) c"

definition validate_read_range :: "usize \<Rightarrow> usize \<Rightarrow> usize \<Rightarrow> 'f kv_cache \<Rightarrow> (unit, string) result" where
  "validate_read_range layer start stop c =
     (if n_layers c \<le> layer then Err ''layer out of bounds''
      else if stop < start \<or> seq_len c < stop
      then Err ''KV read range is outside committed history''
      else Ok ())"

definition read_range :: "usize \<Rightarrow> usize \<Rightarrow> usize \<Rightarrow> 'f list list \<Rightarrow> 'f kv_cache \<Rightarrow>
  ('f list, string) result"
where
  "read_range layer start stop bufs c =
     rbind (validate_read_range layer start stop c) (\<lambda>_.
       rbind (ok_or ''K/V element count overflow'' (checked_mul (n_kv_heads c) (head_dim c)))
         (\<lambda>width. rbind (ok_or ''cache range start overflow'' (checked_mul start width))
         (\<lambda>start_offset. rbind (ok_or ''cache range end overflow'' (checked_mul stop width))
         (\<lambda>end_offset. rbind (layer_at bufs layer)
         (\<lambda>buf. if end_offset < start_offset \<or> length buf < end_offset
           then Panic ''range end index out of range''
           else Ok (take (end_offset - start_offset) (drop start_offset buf)))))))"

definition get_k_range :: "usize \<Rightarrow> usize \<Rightarrow> usize \<Rightarrow> 'f kv_cache \<Rightarrow> ('f list, string) result" where
  "get_k_range layer start stop c = read_range layer start stop (k_caches c) c"

definition get_v_range :: "usize \<Rightarrow> usize \<Rightarrow> usize \<Rightarrow> 'f kv_cache \<Rightarrow> ('f list, string) result" where
  "get_v_range layer start stop c = read_range layer start stop (v_caches c) c"

definition kv_clear :: "'f kv_cache \<Rightarrow> 'f kv_cache" where
  "kv_clear c = c\<lparr>seq_len := 0\<rparr>"

subsection \<open>Sizes\<close>

definition row :: "'f kv_cache \<Rightarrow> nat" where
  "row c = n_kv_heads c * head_dim c"

lemma kv_layout_of_Ok:
  "kv_layout_of l h d m = Ok lay \<longleftrightarrow> 0 < l \<and> 0 < h \<and> 0 < d \<and> 0 < m \<and> m * h * d * 8 * l \<le> U64_MAX
    \<and> lay = \<lparr>kl_elems_per_layer = m * h * d, kl_bytes_per_layer = m * h * d * 8,
        kl_total_bytes = m * h * d * 8 * l\<rparr>"
proof (cases "0 < l \<and> 0 < h \<and> 0 < d \<and> 0 < m")
  case True
  have le: "m * h \<le> m * h * d" "m * h * d \<le> m * h * d * 8" "m * h * d * 4 \<le> m * h * d * 8"
    "m * h * d * 8 \<le> m * h * d * 8 * l" using True by simp_all
  have "kv_layout_of l h d m = Ok lay \<longleftrightarrow> m * h \<le> U64_MAX \<and> m * h * d \<le> U64_MAX
      \<and> m * h * d * 4 \<le> U64_MAX \<and> m * h * d * 8 \<le> U64_MAX \<and> m * h * d * 8 * l \<le> U64_MAX
      \<and> lay = \<lparr>kl_elems_per_layer = m * h * d, kl_bytes_per_layer = m * h * d * 8,
        kl_total_bytes = m * h * d * 8 * l\<rparr>"
    using True
    by (auto simp: kv_layout_of_def rbind_eq_Ok Option.bind_eq_Some_conv checked_mul_def
        split: if_splits)
  moreover have "m * h * d * 8 * l \<le> U64_MAX \<Longrightarrow> m * h \<le> U64_MAX \<and> m * h * d \<le> U64_MAX
      \<and> m * h * d * 4 \<le> U64_MAX \<and> m * h * d * 8 \<le> U64_MAX"
    using le by linarith
  ultimately show ?thesis using True by blast
next
  case False
  then show ?thesis by (auto simp: kv_layout_of_def)
qed

lemma kv_layout_of_no_panic: "\<not> is_panic (kv_layout_of l h d m)"
  by (cases "kv_layout_of l h d m")
    (auto simp: kv_layout_of_def rbind_eq_Panic split: if_splits)

lemma try_bytes_for_tokens_Ok:
  assumes "0 < n_kv_heads c" "0 < head_dim c" "0 < n_layers c"
  shows "try_bytes_for_tokens c t = Ok n \<longleftrightarrow>
    n = t * n_kv_heads c * head_dim c * 8 * n_layers c \<and> n \<le> U64_MAX"
proof -
  let ?m = "t * n_kv_heads c" let ?e = "?m * head_dim c"
  have le: "?m \<le> ?e" "?e \<le> ?e * 4" "?e * 4 \<le> ?e * 8" "?e * 8 \<le> ?e * 8 * n_layers c"
    using assms by simp_all
  have "try_bytes_for_tokens c t = Ok n \<longleftrightarrow> ?m \<le> U64_MAX \<and> ?e \<le> U64_MAX \<and> ?e * 4 \<le> U64_MAX
      \<and> ?e * 8 \<le> U64_MAX \<and> ?e * 8 * n_layers c \<le> U64_MAX \<and> n = ?e * 8 * n_layers c"
    by (auto simp: try_bytes_for_tokens_def Option.bind_eq_Some_conv)
  moreover have "?e * 8 * n_layers c \<le> U64_MAX \<Longrightarrow> ?m \<le> U64_MAX \<and> ?e \<le> U64_MAX
      \<and> ?e * 4 \<le> U64_MAX \<and> ?e * 8 \<le> U64_MAX"
    using le by linarith
  ultimately show ?thesis by blast
qed

text \<open>\<open>try_chunk_aligned_capacity\<close>: the least multiple of the chunk that holds \<open>required\<close>.\<close>

lemma round_up_least:
  fixes n k :: nat
  assumes "0 < k"
  shows "n \<le> (n + (k - 1)) div k * k" and "k dvd m \<Longrightarrow> n \<le> m \<Longrightarrow> (n + (k - 1)) div k * k \<le> m"
proof -
  have "n + (k - 1) = (n + (k - 1)) div k * k + (n + (k - 1)) mod k" by simp
  moreover have "(n + (k - 1)) mod k \<le> k - 1" using assms by (simp add: less_Suc_eq_le [symmetric])
  ultimately show "n \<le> (n + (k - 1)) div k * k" by linarith
  assume "k dvd m" and le: "n \<le> m"
  then obtain q where m: "m = q * k" by (auto simp: dvd_def mult.commute)
  have "(n + (k - 1)) div k \<le> (q * k + (k - 1)) div k" using le m by (intro div_le_mono) simp
  also have "\<dots> = q" using assms div_mult_self3 [of k q "k - 1"] by (simp add: add.commute)
  finally have "(n + (k - 1)) div k * k \<le> q * k" by (rule mult_le_mono1)
  then show "(n + (k - 1)) div k * k \<le> m" using m by simp
qed

subsection \<open>The invariant\<close>

definition kv_ok :: "'f kv_cache \<Rightarrow> bool" where
  "kv_ok c \<longleftrightarrow> 0 < n_layers c \<and> 0 < n_kv_heads c \<and> 0 < head_dim c \<and> 0 < max_seq_len c
     \<and> seq_len c \<le> max_seq_len c
     \<and> length (k_caches c) = n_layers c \<and> length (v_caches c) = n_layers c
     \<and> (\<forall>buf \<in> set (k_caches c) \<union> set (v_caches c). length buf = max_seq_len c * row c)
     \<and> bytes_per_layer c = max_seq_len c * row c * 8
     \<and> max_seq_len c * row c * 8 * n_layers c \<le> U64_MAX"

definition kv_bytes :: "'f kv_cache \<Rightarrow> nat" where
  "kv_bytes c = max_seq_len c * row c * 8 * n_layers c"

definition kv_charged :: "string \<Rightarrow> 'f charged_kv \<Rightarrow> bool" where
  "kv_charged name s \<longleftrightarrow> kv_ok (fst s) \<and> budget_ok (snd s)
     \<and> budget_get (snd s) name = Some (kv_bytes (fst s))"

lemma kv_okD:
  assumes "kv_ok c"
  shows "0 < n_layers c" and "0 < n_kv_heads c" and "0 < head_dim c" and "0 < max_seq_len c"
    and "seq_len c \<le> max_seq_len c" and "length (k_caches c) = n_layers c"
    and "length (v_caches c) = n_layers c"
    and "i < n_layers c \<Longrightarrow> length (k_caches c ! i) = max_seq_len c * row c"
    and "i < n_layers c \<Longrightarrow> length (v_caches c ! i) = max_seq_len c * row c"
    and "0 < row c" and "kv_bytes c \<le> U64_MAX"
  using assms by (auto simp: kv_ok_def row_def kv_bytes_def)

lemma kv_ok_bounds:
  assumes "kv_ok c" and "n \<le> max_seq_len c"
  shows "n * row c \<le> U64_MAX" and "row c \<le> U64_MAX"
proof -
  have "n * row c \<le> max_seq_len c * row c" using assms(2) by simp
  also have "\<dots> \<le> kv_bytes c" using kv_okD(1) [OF assms(1)] by (simp add: kv_bytes_def)
  finally show "n * row c \<le> U64_MAX" using kv_okD(11) [OF assms(1)] by simp
  have "row c \<le> max_seq_len c * row c" using kv_okD(4) [OF assms(1)] by simp
  also have "\<dots> \<le> kv_bytes c" using kv_okD(1) [OF assms(1)] by (simp add: kv_bytes_def)
  finally show "row c \<le> U64_MAX" using kv_okD(11) [OF assms(1)] by simp
qed

subsection \<open>Appending\<close>

lemma append_kv_ok:
  assumes ok: "kv_ok c" and l: "layer < n_layers c" and room: "seq_len c < max_seq_len c"
    and k: "length k = row c" and v: "length v = row c"
  defines "o1 \<equiv> seq_len c * row c"
  defines "store \<equiv> \<lambda>buf xs. take o1 buf @ xs @ drop (o1 + row c) buf"
  shows "append_kv layer k v c = (c\<lparr>k_caches := (k_caches c)[layer := store (k_caches c ! layer) k],
    v_caches := (v_caches c)[layer := store (v_caches c ! layer) v]\<rparr>, Ok ())"
proof -
  have "o1 + row c = Suc (seq_len c) * row c" by (simp add: o1_def)
  then have stop: "o1 + row c \<le> U64_MAX" "o1 + row c \<le> max_seq_len c * row c"
    using kv_ok_bounds(1) [OF ok, of "Suc (seq_len c)"] room mult_le_mono1 [of "Suc (seq_len c)" "max_seq_len c" "row c"]
    by simp_all
  have "rbind (ok_or ''K/V element count overflow''
      (checked_mul (n_kv_heads c) (head_dim c))) (\<lambda>expected.
        if length k \<noteq> expected \<or> length v \<noteq> expected then Err ''K/V size mismatch''
        else rbind (ok_or ''K/V cache offset overflow'' (checked_mul (seq_len c) expected))
          (\<lambda>offset. rbind (ok_or ''K/V cache slice end overflow'' (checked_add offset expected))
          (\<lambda>stop. Ok (offset, stop)))) = Ok (o1, o1 + row c)"
    using kv_ok_bounds [OF ok less_imp_le [OF room]] stop(1) k v
    by (simp add: checked_mul_def checked_add_def row_def o1_def)
  then show ?thesis
    unfolding append_kv_def
    using kv_okD(6-9) [OF ok] l room stop(2)
    by (simp add: layer_at_def store_slot_def store_def)
qed

text \<open>Appending the rows of a token, one per layer, and committing it.\<close>

fun append_layers :: "nat \<Rightarrow> ('f list \<times> 'f list) list \<Rightarrow> 'f kv_cache \<Rightarrow>
  'f kv_cache \<times> (unit, string) result"
where
  "append_layers layer [] c = increment_seq_len c"
| "append_layers layer ((k, v) # kvs) c =
     sbind (append_kv layer k v c) (\<lambda>c' _. append_layers (Suc layer) kvs c')"

definition history_of :: "'f kv_cache \<Rightarrow> 'f list list \<Rightarrow> nat \<Rightarrow> 'f list" where
  "history_of c bufs layer = take (seq_len c * row c) (bufs ! layer)"

lemma history_ok:
  assumes ok: "kv_ok c" and l: "layer < n_layers c"
  shows "get_k layer c = Ok (history_of c (k_caches c) layer)"
    and "get_v layer c = Ok (history_of c (v_caches c) layer)"
proof -
  have m: "n_kv_heads c * head_dim c \<le> U64_MAX" "seq_len c * (n_kv_heads c * head_dim c) \<le> U64_MAX"
    using kv_ok_bounds [OF ok kv_okD(5) [OF ok]] by (simp_all add: row_def)
  show "get_k layer c = Ok (history_of c (k_caches c) layer)"
    and "get_v layer c = Ok (history_of c (v_caches c) layer)"
    using kv_okD(5-9) [OF ok] l m
    by (simp_all add: get_k_def get_v_def history_def checked_mul_def layer_at_def history_of_def row_def)
qed

text \<open>A range of committed positions is the slice of the history.\<close>

lemma read_range_ok:
  assumes ok: "kv_ok c" and l: "layer < n_layers c" and "start \<le> stop" and "stop \<le> seq_len c"
    and bufs: "length bufs = n_layers c" "length (bufs ! layer) = max_seq_len c * row c"
  shows "read_range layer start stop bufs c =
    Ok (take ((stop - start) * row c) (drop (start * row c) (history_of c bufs layer)))"
proof -
  have le: "stop \<le> max_seq_len c" "start \<le> max_seq_len c" using assms kv_okD(5) [OF ok] by linarith+
  have m: "row c \<le> U64_MAX" "start * row c \<le> U64_MAX" "stop * row c \<le> U64_MAX"
    using kv_ok_bounds [OF ok] le by blast+
  have le': "start * row c \<le> stop * row c" "stop * row c \<le> max_seq_len c * row c"
    "stop * row c \<le> seq_len c * row c"
    using assms le by simp_all
  have "read_range layer start stop bufs c =
      Ok (take (stop * row c - start * row c) (drop (start * row c) (bufs ! layer)))"
    using assms m le(1) by (simp add: read_range_def validate_read_range_def checked_mul_def
        layer_at_def row_def)
  moreover have "take (stop * row c - start * row c) (drop (start * row c) (bufs ! layer)) =
      take (stop * row c - start * row c) (drop (start * row c) (history_of c bufs layer))"
    using diff_le_mono [OF le'(3), of "start * row c"]
    by (simp only: history_of_def drop_take take_take min_absorb1)
  ultimately show ?thesis by (simp add: diff_mult_distrib)
qed

definition put_row :: "nat \<Rightarrow> 'f list \<Rightarrow> 'f list \<Rightarrow> 'f list" where
  "put_row offset xs buf = take offset buf @ xs @ drop (offset + length xs) buf"

lemma length_put_row [simp]: "offset + length xs \<le> length buf \<Longrightarrow> length (put_row offset xs buf) = length buf"
  by (simp add: put_row_def)

lemma take_put_row:
  "offset + length xs \<le> length buf \<Longrightarrow> take (offset + length xs) (put_row offset xs buf) = take offset buf @ xs"
  by (simp add: put_row_def)

lemma kv_ok_slot:
  assumes "kv_ok c" and "seq_len c < max_seq_len c"
  shows "seq_len c * row c + row c \<le> max_seq_len c * row c"
  using mult_le_mono1 [of "Suc (seq_len c)" "max_seq_len c" "row c"] assms(2) by simp

lemma append_layers_result:
  assumes "kv_ok c" and "seq_len c < max_seq_len c" and "layer + length kvs = n_layers c"
    and "\<forall>(k, v) \<in> set kvs. length k = row c \<and> length v = row c"
  shows "\<exists>c'. append_layers layer kvs c = (c', Ok ()) \<and> kv_ok c' \<and> seq_len c' = Suc (seq_len c)
    \<and> max_seq_len c' = max_seq_len c \<and> n_layers c' = n_layers c \<and> row c' = row c
    \<and> (\<forall>i < n_layers c.
        k_caches c' ! i = (if i < layer then k_caches c ! i
          else put_row (seq_len c * row c) (fst (kvs ! (i - layer))) (k_caches c ! i)) \<and>
        v_caches c' ! i = (if i < layer then v_caches c ! i
          else put_row (seq_len c * row c) (snd (kvs ! (i - layer))) (v_caches c ! i)))"
  using assms
proof (induction layer kvs c rule: append_layers.induct)
  case (1 layer c)
  have "checked_add (seq_len c) 1 = Some (Suc (seq_len c))"
  proof -
    have "Suc (seq_len c) * row c \<le> U64_MAX" "0 < row c"
      using kv_ok_bounds(1) [OF 1(1), of "Suc (seq_len c)"] 1(2) kv_okD(10) [OF 1(1)] by simp_all
    moreover have "Suc (seq_len c) * 1 \<le> Suc (seq_len c) * row c"
      using \<open>0 < row c\<close> by (intro mult_le_mono2) simp
    ultimately show ?thesis by simp
  qed
  then have "append_layers layer [] c = (c\<lparr>seq_len := Suc (seq_len c)\<rparr>, Ok ())"
    unfolding append_layers.simps increment_seq_len_def by (simp only: option.case)
  then show ?case using 1 by (auto simp: kv_ok_def row_def)
next
  case (2 layer k v kvs c)
  have l: "layer < n_layers c" and len: "length k = row c" "length v = row c"
    using 2(4,5) by auto
  let ?o = "seq_len c * row c"
  let ?c1 = "c\<lparr>k_caches := (k_caches c)[layer := put_row ?o k (k_caches c ! layer)],
    v_caches := (v_caches c)[layer := put_row ?o v (v_caches c ! layer)]\<rparr>"
  have app: "append_kv layer k v c = (?c1, Ok ())"
    using append_kv_ok [OF 2(2) l 2(3) len] len by (simp add: put_row_def)
  have slot: "?o + row c \<le> max_seq_len c * row c" using kv_ok_slot 2(2,3) .
  have same: "row ?c1 = row c" by (simp add: row_def)
  have lens: "length (put_row ?o k (k_caches c ! layer)) = max_seq_len c * row c"
    "length (put_row ?o v (v_caches c ! layer)) = max_seq_len c * row c"
    using kv_okD(8,9) [OF 2(2) l] slot len by simp_all
  have sub: "set (xs[i := x]) \<subseteq> insert x (set xs)" for xs :: "'a list list" and i x
    by (rule set_update_subset_insert)
  have ok1: "kv_ok ?c1"
    using 2(2) lens same sub [of "k_caches c" layer] sub [of "v_caches c" layer]
    by (simp add: kv_ok_def ball_Un) blast
  obtain c' where c': "append_layers (Suc layer) kvs ?c1 = (c', Ok ())" "kv_ok c'"
    "seq_len c' = Suc (seq_len c)" "max_seq_len c' = max_seq_len c" "n_layers c' = n_layers c"
    "row c' = row c"
    "\<forall>i < n_layers c.
        k_caches c' ! i = (if i < Suc layer then k_caches ?c1 ! i
          else put_row ?o (fst (kvs ! (i - Suc layer))) (k_caches ?c1 ! i)) \<and>
        v_caches c' ! i = (if i < Suc layer then v_caches ?c1 ! i
          else put_row ?o (snd (kvs ! (i - Suc layer))) (v_caches ?c1 ! i))"
    using 2(1) [OF app ok1] 2(3-5) same by auto
  have "k_caches c' ! i = (if i < layer then k_caches c ! i
          else put_row ?o (fst (((k, v) # kvs) ! (i - layer))) (k_caches c ! i)) \<and>
        v_caches c' ! i = (if i < layer then v_caches c ! i
          else put_row ?o (snd (((k, v) # kvs) ! (i - layer))) (v_caches c ! i))"
    if i: "i < n_layers c" for i
    using c'(7) i l kv_okD(6,7) [OF 2(2)]
    by (cases "i < layer"; cases "i = layer") (auto simp: nth_Cons' less_Suc_eq)
  then show ?case using app c'(1-6) by simp
qed

subsection \<open>Allocation and growth\<close>

lemma fresh_layers_ok:
  "fresh_layers grant zero call elems n = Ok (ks, vs) \<Longrightarrow>
    ks = replicate n (replicate elems zero) \<and> vs = replicate n (replicate elems zero)"
  by (induction n arbitrary: call ks vs) (auto simp: rbind_eq_Ok zeroed_buffer_def split: if_splits)

lemma fresh_layers_no_panic: "fresh_layers grant zero call elems n \<noteq> Panic m"
  by (induction n arbitrary: call) (auto simp: rbind_eq_Panic zeroed_buffer_def split: if_splits)

lemma allocate_from_layout_ok:
  assumes "allocate_from_layout grant zero l h d m lay = Ok c" and "kv_layout_of l h d m = Ok lay"
  shows "kv_ok c \<and> seq_len c = 0 \<and> kv_bytes c = kl_total_bytes lay \<and> n_layers c = l
    \<and> n_kv_heads c = h \<and> head_dim c = d \<and> max_seq_len c = m"
proof -
  obtain ks vs where f: "fresh_layers grant zero 2 (kl_elems_per_layer lay) l = Ok (ks, vs)"
    "c = \<lparr>n_layers = l, n_kv_heads = h, head_dim = d, max_seq_len = m,
            seq_len = 0, k_caches = ks, v_caches = vs, bytes_per_layer = kl_bytes_per_layer lay\<rparr>"
    using assms(1) by (auto simp: allocate_from_layout_def rbind_eq_Ok split: if_splits)
  show ?thesis
    using fresh_layers_ok [OF f(1)] f(2) assms(2) unfolding kv_layout_of_Ok
    by (auto simp: kv_ok_def kv_bytes_def row_def mult.assoc)
qed

lemma allocate_from_layout_no_panic: "allocate_from_layout grant zero l h d m lay \<noteq> Panic p"
  by (auto simp: allocate_from_layout_def rbind_eq_Panic fresh_layers_no_panic split: if_splits)

text \<open>The grown buffers: the old contents, then zeroes.\<close>

lemma grown_layers_outcome:
  assumes "kv_ok c" and "max_seq_len c * row c \<le> elems" and "layer + n = n_layers c"
  shows "case grown_layers grant zero call elems (max_seq_len c * row c) c layer n of
      Ok (ks, vs) \<Rightarrow>
        ks = map (\<lambda>buf. buf @ replicate (elems - max_seq_len c * row c) zero) (drop layer (k_caches c))
        \<and> vs = map (\<lambda>buf. buf @ replicate (elems - max_seq_len c * row c) zero) (drop layer (v_caches c))
    | Err e \<Rightarrow> True
    | Panic m \<Rightarrow> False"
  using assms
proof (induction n arbitrary: layer call)
  case 0
  then show ?case using kv_okD(6,7) [OF 0(1)] by simp
next
  case (Suc n)
  have l: "layer < n_layers c" using Suc.prems(3) by simp
  have at: "layer_at (k_caches c) layer = Ok (k_caches c ! layer)"
    "layer_at (v_caches c) layer = Ok (v_caches c ! layer)"
    using kv_okD(6,7) [OF Suc.prems(1)] l by (simp_all add: layer_at_def)
  have copy: "copy_prefix (max_seq_len c * row c) src (replicate elems zero) =
      Ok (src @ replicate (elems - max_seq_len c * row c) zero)"
    if "length src = max_seq_len c * row c" for src
    using that Suc.prems(2) by (simp add: copy_prefix_def)
  have drops: "drop layer (k_caches c) = k_caches c ! layer # drop (Suc layer) (k_caches c)"
    "drop layer (v_caches c) = v_caches c ! layer # drop (Suc layer) (v_caches c)"
    using kv_okD(6,7) [OF Suc.prems(1)] l by (simp_all add: Cons_nth_drop_Suc)
  have IH: "case grown_layers grant zero (call + 2) elems (max_seq_len c * row c) c (Suc layer) n of
      Ok (ks, vs) \<Rightarrow>
        ks = map (\<lambda>buf. buf @ replicate (elems - max_seq_len c * row c) zero) (drop (Suc layer) (k_caches c))
        \<and> vs = map (\<lambda>buf. buf @ replicate (elems - max_seq_len c * row c) zero) (drop (Suc layer) (v_caches c))
    | Err e \<Rightarrow> True
    | Panic m \<Rightarrow> False"
    using Suc.IH [of "Suc layer" "call + 2"] Suc.prems by simp
  show ?case
    using IH copy [OF kv_okD(8) [OF Suc.prems(1) l]] copy [OF kv_okD(9) [OF Suc.prems(1) l]]
    by (cases "grown_layers grant zero (call + 2) elems (max_seq_len c * row c) c (Suc layer) n")
      (auto simp: zeroed_buffer_def at drops)
qed

lemma existing_elems_ok: "kv_ok c \<Longrightarrow> existing_elems c = Ok (max_seq_len c * row c)"
proof -
  assume ok: "kv_ok c"
  have "max_seq_len c * n_kv_heads c * head_dim c \<le> U64_MAX"
    using kv_ok_bounds(1) [OF ok le_refl] by (simp add: row_def mult.assoc)
  moreover have "max_seq_len c * n_kv_heads c \<le> max_seq_len c * n_kv_heads c * head_dim c"
    using kv_okD(3) [OF ok] by simp
  ultimately have h: "max_seq_len c * n_kv_heads c * head_dim c \<le> U64_MAX"
    "max_seq_len c * n_kv_heads c \<le> U64_MAX" by linarith+
  then show ?thesis
    by (simp add: existing_elems_def checked_mul_def row_def flip: mult.assoc)
qed

definition same_history :: "'f kv_cache \<Rightarrow> 'f kv_cache \<Rightarrow> bool" where
  "same_history c c' \<longleftrightarrow> seq_len c' = seq_len c \<and> n_layers c' = n_layers c
     \<and> n_kv_heads c' = n_kv_heads c \<and> head_dim c' = head_dim c
     \<and> (\<forall>i < n_layers c. get_k i c' = get_k i c \<and> get_v i c' = get_v i c)"

lemma install_grown:
  assumes ok: "kv_ok c" and lt: "max_seq_len c < new"
  shows "case allocate_grown_buffers grant zero new c of
      Ok bufs \<Rightarrow> kv_ok (install_buffers new bufs c) \<and> same_history c (install_buffers new bufs c)
        \<and> max_seq_len (install_buffers new bufs c) = new
    | Err e \<Rightarrow> True
    | Panic m \<Rightarrow> False"
proof (cases "kv_layout_of (n_layers c) (n_kv_heads c) (head_dim c) new")
  case (Ok lay)
  then have lay: "lay = \<lparr>kl_elems_per_layer = new * row c, kl_bytes_per_layer = new * row c * 8,
      kl_total_bytes = new * row c * 8 * n_layers c\<rparr>" "new * row c * 8 * n_layers c \<le> U64_MAX"
    unfolding kv_layout_of_Ok by (simp_all add: row_def mult.assoc)
  have le: "max_seq_len c * row c \<le> new * row c" using lt by simp
  let ?g = "grown_layers grant zero 2 (new * row c) (max_seq_len c * row c) c 0 (n_layers c)"
  note out = grown_layers_outcome [OF ok le, where layer = 0 and n = "n_layers c"
      and grant = grant and zero = zero and call = 2]
  show ?thesis
  proof (cases ?g)
    case g: (Ok p)
    obtain ks vs where p: "p = (ks, vs)" by (cases p)
    let ?ext = "\<lambda>buf. buf @ replicate (new * row c - max_seq_len c * row c) zero"
    have kv: "ks = map ?ext (k_caches c)" "vs = map ?ext (v_caches c)" using out g p by simp_all
    let ?c = "install_buffers new (ks, vs, lay) c"
    have fields: "k_caches ?c = ks" "v_caches ?c = vs" "max_seq_len ?c = new" "row ?c = row c"
      "seq_len ?c = seq_len c" "n_layers ?c = n_layers c" "n_kv_heads ?c = n_kv_heads c"
      "head_dim ?c = head_dim c" "bytes_per_layer ?c = new * row c * 8"
      by (simp_all add: install_buffers_def row_def lay(1))
    have ok': "kv_ok ?c"
      unfolding kv_ok_def fields using ok lay(2) le lt by (auto simp: kv_ok_def kv)
    have hist: "take (seq_len c * row c) (?ext buf) = take (seq_len c * row c) buf"
      if "length buf = max_seq_len c * row c" for buf
      using that kv_okD(5) [OF ok] by simp
    have "get_k i ?c = get_k i c \<and> get_v i ?c = get_v i c" if i: "i < n_layers c" for i
    proof -
      have i': "i < n_layers ?c" using i fields by simp
      have "history_of ?c (k_caches ?c) i = history_of c (k_caches c) i"
        using hist [OF kv_okD(8) [OF ok i]] i kv_okD(6) [OF ok]
        unfolding history_of_def fields by (simp add: kv)
      moreover have "history_of ?c (v_caches ?c) i = history_of c (v_caches c) i"
        using hist [OF kv_okD(9) [OF ok i]] i kv_okD(7) [OF ok]
        unfolding history_of_def fields by (simp add: kv)
      ultimately show ?thesis unfolding history_ok [OF ok' i'] history_ok [OF ok i] by simp
    qed
    then have "same_history c ?c" unfolding same_history_def fields by simp
    then show ?thesis
      using ok' fields(3) lt Ok g p lay(1)
      by (simp add: allocate_grown_buffers_def existing_elems_ok [OF ok])
  next
    case (Err e)
    then show ?thesis
      using lt Ok lay(1) by (simp add: allocate_grown_buffers_def existing_elems_ok [OF ok])
  next
    case (Panic m)
    then show ?thesis using out by simp
  qed
next
  case (Err e)
  then show ?thesis using lt by (simp add: allocate_grown_buffers_def)
next
  case (Panic m)
  then show ?thesis using kv_layout_of_no_panic [of "n_layers c" "n_kv_heads c" "head_dim c" new] by simp
qed

lemma try_bytes_now:
  assumes "kv_ok c"
  shows "try_bytes_for_tokens c (max_seq_len c) = Ok (kv_bytes c)"
  using kv_okD(1-3,11) [OF assms]
  by (simp add: try_bytes_for_tokens_Ok kv_bytes_def row_def mult.assoc)

lemma growth_name_neq [simp]: "growth_name name \<noteq> name" "name \<noteq> growth_name name"
  by (simp_all add: growth_name_def)

text \<open>Every outcome of a budgeted growth.\<close>

lemma grow_with_budget_cases:
  assumes ch: "kv_charged name (c, b)" and lt: "max_seq_len c < new"
    and run: "grow_to_with_budget grant zero new name (c, b) = ((c', b'), r)"
  shows "(\<exists>e. r = Err e \<and> c' = c \<and> budget_ok b' \<and> budget_get b' = budget_get b \<and> used b' = used b)
    \<or> (r = Ok () \<and> kv_ok c' \<and> budget_ok b' \<and> same_history c c' \<and> max_seq_len c' = new
      \<and> budget_get b' = (budget_get b)(name \<mapsto> kv_bytes c')
      \<and> used b' = used b - kv_bytes c + kv_bytes c' \<and> used b + kv_bytes c' \<le> peak_used b')"
proof (cases "try_bytes_for_tokens c new")
  case (Err e)
  then have "grow_to_with_budget grant zero new name (c, b) = ((c, b), Err e)"
    using lt try_bytes_now [of c] kv_okD(11) [of c] ch
    by (simp add: grow_to_with_budget_def kv_charged_def try_u64_def)
  then show ?thesis using run ch by (auto simp: kv_charged_def)
next
  case (Panic m)
  then show ?thesis by (simp add: try_bytes_for_tokens_def)
next
  case (Ok new_bytes)
  have ok: "kv_ok c" and b: "budget_ok b" and chg: "budget_get b name = Some (kv_bytes c)"
    using ch by (simp_all add: kv_charged_def)
  have nb: "new_bytes = new * row c * 8 * n_layers c" "new_bytes \<le> U64_MAX"
    using Ok kv_okD(1-3) [OF ok] by (simp_all add: try_bytes_for_tokens_Ok row_def mult.assoc)
  have sizes: "rbind (try_bytes_for_tokens c (max_seq_len c)) (\<lambda>n.
      rbind (ok_or ''existing KV cache byte size exceeds u64'' (try_u64 n)) (\<lambda>old_bytes.
        rbind (try_bytes_for_tokens c new) (\<lambda>m.
          rbind (ok_or ''grown KV cache byte size exceeds u64'' (try_u64 m)) (\<lambda>new_bytes.
            Ok (old_bytes, new_bytes))))) = Ok (kv_bytes c, new_bytes)"
    using try_bytes_now [OF ok] kv_okD(11) [OF ok] Ok nb(2) by (simp add: try_u64_def)
  let ?g = "growth_name name"
  obtain b1 q where al: "allocate ?g new_bytes b = (b1, q)" by (metis surj_pair)
  note grow_def = grow_to_with_budget_def
  have start: "grow_to_with_budget grant zero new name (c, b) =
      (case allocate ?g new_bytes b of
          (b1, Err _) \<Rightarrow> ((c, b1), Err ''failed to reserve grown KV cache'')
        | (b1, Panic m) \<Rightarrow> ((c, b1), Panic m)
        | (b1, Ok _) \<Rightarrow>
            if budget_get b1 name \<noteq> Some (kv_bytes c)
            then (case release ?g b1 of
                (b2, Ok _) \<Rightarrow>
                  ((c, b2), Err ''existing KV cache charge does not match physical cache size'')
              | (b2, Err _) \<Rightarrow> ((c, b2), Err ''growth reservation rollback failed'')
              | (b2, Panic m) \<Rightarrow> ((c, b2), Panic m))
            else (case allocate_grown_buffers grant zero new c of
                Err e \<Rightarrow>
                  (case release ?g b1 of
                     (b2, Ok _) \<Rightarrow> ((c, b2), Err e)
                   | (b2, Err _) \<Rightarrow> ((c, b2), Err ''growth reservation rollback failed'')
                   | (b2, Panic m) \<Rightarrow> ((c, b2), Panic m))
              | Panic m \<Rightarrow> ((c, b1), Panic m)
              | Ok bufs \<Rightarrow>
                  let c' = install_buffers new bufs c in
                  (case commit_resize name ?g new_bytes b1 of
                     (b2, Ok _) \<Rightarrow> ((c', b2), Ok ())
                   | (b2, _) \<Rightarrow>
                       ((c', b2), Panic ''KV cache budget commit failed after physical replacement''))))"
    unfolding grow_def using lt sizes by simp
  show ?thesis
  proof (cases q)
    case (Err e)
    then have "b1 = b" using mb.acquire_err [OF b] al by simp
    then show ?thesis using start al Err run b by auto
  next
    case (Panic m)
    then show ?thesis using mb.acquire_no_panic [OF b, of ?g new_bytes] al by simp
  next
    case (Ok u)
    have al': "allocate ?g new_bytes b = (b1, Ok ())" using al Ok by simp
    note settle = mb.reserve_then_settle [OF b chg growth_name_neq(2) al']
    obtain b2 where rb: "release ?g b1 = (b2, Ok new_bytes)" "budget_ok b2"
      "budget_get b2 = budget_get b" "used b2 = used b"
      using mb.acquire_discharge [OF b al'] by blast
    show ?thesis
    proof (cases "allocate_grown_buffers grant zero new c")
      case (Err e)
      then have "grow_to_with_budget grant zero new name (c, b) = ((c, b2), Err e)"
        unfolding start al' using settle rb(1) by simp
      then show ?thesis using run rb by simp
    next
      case (Panic m)
      then show ?thesis using install_grown [OF ok lt, of grant zero] by simp
    next
      case (Ok bufs)
      let ?c = "install_buffers new bufs c"
      have inst: "kv_ok ?c" "same_history c ?c" "max_seq_len ?c = new"
        using install_grown [OF ok lt, of grant zero] Ok by simp_all
      have size: "kv_bytes ?c = new_bytes"
        using inst(2,3) nb(1) by (simp add: kv_bytes_def same_history_def row_def)
      obtain b3 where b3: "commit_resize name ?g new_bytes b1 = (b3, Ok ())" "budget_ok b3"
        "budget_get b3 = (budget_get b)(name \<mapsto> new_bytes)"
        "used b3 = used b - kv_bytes c + new_bytes"
        using settle by blast
      have "peak_used b1 \<le> peak_used b3"
        using commit_resize_keeps [OF allocate_ok(1) [OF b al'] b3(1)] by simp
      then have peak: "used b + new_bytes \<le> peak_used b3"
        using allocate_ok(5,7) [OF b al'] by simp
      have "grow_to_with_budget grant zero new name (c, b) = ((?c, b3), Ok ())"
        unfolding start al' using settle b3(1) Ok by (simp add: Let_def)
      then show ?thesis using run inst b3(2-4) size peak by auto
    qed
  qed
qed

subsection \<open>Properties\<close>

abbreviation example_kv :: "nat kv_cache" where
  "example_kv \<equiv> \<lparr>n_layers = 2, n_kv_heads = 1, head_dim = 1, max_seq_len = 2, seq_len = 1,
     k_caches = [[5, 0], [6, 0]], v_caches = [[7, 0], [8, 0]], bytes_per_layer = 16\<rparr>"

lemma example_kv_ok: "kv_ok example_kv"
  by (auto simp: kv_ok_def row_def U64_MAX_def)

text \<open>
  C6: appending one row of keys and one of values to every layer and committing the position
  succeeds on a cache with room, keeps the invariant and extends every layer's history by exactly
  its row: what was committed before is unchanged and the new row is the last.
\<close>

theorem append_token_extends_history:
  assumes "kv_ok c" and "seq_len c < max_seq_len c" and "length kvs = n_layers c"
    and "\<forall>(k, v) \<in> set kvs. length k = n_kv_heads c * head_dim c \<and> length v = n_kv_heads c * head_dim c"
  shows "\<exists>c'. append_layers 0 kvs c = (c', Ok ()) \<and> kv_ok c' \<and> seq_len c' = Suc (seq_len c)
    \<and> (\<forall>i < n_layers c. \<exists>hk hv. get_k i c = Ok hk \<and> get_k i c' = Ok (hk @ fst (kvs ! i))
         \<and> get_v i c = Ok hv \<and> get_v i c' = Ok (hv @ snd (kvs ! i)))"
proof -
  have rows: "\<forall>(k, v) \<in> set kvs. length k = row c \<and> length v = row c"
    using assms(4) by (simp add: row_def)
  obtain c' where c': "append_layers 0 kvs c = (c', Ok ())" "kv_ok c'" "seq_len c' = Suc (seq_len c)"
    "n_layers c' = n_layers c" "row c' = row c"
    "\<forall>i < n_layers c. k_caches c' ! i = put_row (seq_len c * row c) (fst (kvs ! i)) (k_caches c ! i) \<and>
        v_caches c' ! i = put_row (seq_len c * row c) (snd (kvs ! i)) (v_caches c ! i)"
    using append_layers_result [OF assms(1,2) _ rows, of 0] assms(3) by auto
  have "\<exists>hk hv. get_k i c = Ok hk \<and> get_k i c' = Ok (hk @ fst (kvs ! i))
      \<and> get_v i c = Ok hv \<and> get_v i c' = Ok (hv @ snd (kvs ! i))" if i: "i < n_layers c" for i
  proof -
    have "kvs ! i \<in> set kvs" using i assms(3) by simp
    then have len: "length (fst (kvs ! i)) = row c" "length (snd (kvs ! i)) = row c"
      using rows by auto
    have slot: "seq_len c * row c + row c \<le> max_seq_len c * row c" using kv_ok_slot assms(1,2) .
    have "history_of c' (k_caches c') i = history_of c (k_caches c) i @ fst (kvs ! i)"
      "history_of c' (v_caches c') i = history_of c (v_caches c) i @ snd (kvs ! i)"
      using c'(3,5,6) i len slot kv_okD(8,9) [OF assms(1) i]
        take_put_row [of "seq_len c * row c" "fst (kvs ! i)" "k_caches c ! i"]
        take_put_row [of "seq_len c * row c" "snd (kvs ! i)" "v_caches c ! i"]
      by (simp_all add: history_of_def add.commute)
    then show ?thesis
      using history_ok [OF assms(1) i] history_ok [OF c'(2), of i] i c'(4) by simp
  qed
  then show ?thesis using c'(1-3) by blast
qed

theorem append_token_extends_history_witness:
  "\<exists>c'. append_layers 0 [([2], [3]), ([4], [5])] example_kv = (c', Ok ())
     \<and> get_k 1 c' = Ok [6, 4] \<and> get_v 0 c' = Ok [7, 3]"
proof -
  let ?kvs = "[([2], [3]), ([4], [5])] :: (nat list \<times> nat list) list"
  have old: "get_k 1 example_kv = Ok [6]" "get_v 0 example_kv = Ok [7]"
    by (simp_all add: get_k_def get_v_def history_def checked_mul_def layer_at_def U64_MAX_def)
  have pre: "seq_len example_kv < max_seq_len example_kv" "length ?kvs = n_layers example_kv"
    "\<forall>(k, v) \<in> set ?kvs. length k = n_kv_heads example_kv * head_dim example_kv
      \<and> length v = n_kv_heads example_kv * head_dim example_kv" by simp_all
  obtain c' where run: "append_layers 0 ?kvs example_kv = (c', Ok ())"
    and hist: "\<forall>i < n_layers example_kv. \<exists>hk hv. get_k i example_kv = Ok hk
      \<and> get_k i c' = Ok (hk @ fst (?kvs ! i))
      \<and> get_v i example_kv = Ok hv \<and> get_v i c' = Ok (hv @ snd (?kvs ! i))"
    using append_token_extends_history [OF example_kv_ok pre] by blast
  have "get_k 1 c' = Ok [6, 4]" using spec [OF hist, of 1] old(1) by auto
  moreover have "get_v 0 c' = Ok [7, 3]" using spec [OF hist, of 0] old(2) by auto
  ultimately show ?thesis using run by blast
qed

text \<open>
  \<open>get_k_range\<close> never panics: a layer or a range outside the committed history is an error, any
  other range reads exactly that slice of the layer's history.
\<close>

theorem get_k_range_exact:
  assumes "kv_ok c"
  shows "get_k_range layer start stop c =
    (if n_layers c \<le> layer then Err ''layer out of bounds''
     else if stop < start \<or> seq_len c < stop
     then Err ''KV read range is outside committed history''
     else rbind (get_k layer c) (\<lambda>h. Ok (take ((stop - start) * (n_kv_heads c * head_dim c))
            (drop (start * (n_kv_heads c * head_dim c)) h))))"
proof (cases "n_layers c \<le> layer \<or> stop < start \<or> seq_len c < stop")
  case True
  then show ?thesis by (auto simp: get_k_range_def read_range_def validate_read_range_def)
next
  case False
  then have l: "layer < n_layers c" "start \<le> stop" "stop \<le> seq_len c" by simp_all
  show ?thesis
    using False read_range_ok [OF assms l kv_okD(6) [OF assms] kv_okD(8) [OF assms l(1)]]
      history_ok(1) [OF assms l(1)] by (simp add: get_k_range_def row_def)
qed

theorem get_k_range_exact_witness: "get_k_range 1 0 1 example_kv = Ok [6]"
  using get_k_range_exact [OF example_kv_ok, of 1 0 1] history_ok(1) [OF example_kv_ok, of 1]
  by (simp add: history_of_def row_def)

text \<open>
  C3: a budgeted growth is a transaction. It never panics, whatever the allocator grants. When it
  succeeds the cache has the new capacity and the histories it had, its charge is its new size and
  the only charge that changed, and the recorded peak covers old and new buffers together; when it
  fails the cache is the old one and every charge is what it was.
\<close>

theorem grow_with_budget_transactional:
  assumes "kv_charged name (c, b)" and "max_seq_len c < new"
    and "grow_to_with_budget grant zero new name (c, b) = ((c', b'), r)"
  shows "case r of
      Ok _ \<Rightarrow> kv_charged name (c', b') \<and> same_history c c' \<and> max_seq_len c' = new
        \<and> (\<forall>n. n \<noteq> name \<longrightarrow> budget_get b' n = budget_get b n)
        \<and> used b' = used b - kv_bytes c + kv_bytes c' \<and> used b + kv_bytes c' \<le> peak_used b'
    | Err e \<Rightarrow> c' = c \<and> budget_get b' = budget_get b \<and> used b' = used b
    | Panic m \<Rightarrow> False"
  using grow_with_budget_cases [OF assms] by (auto simp: kv_charged_def)

theorem grow_with_budget_transactional_witness:
  "\<exists>c' b' r. grow_to_with_budget (\<lambda>_ _. False) 0 3 ''kv'' (example_kv,
      \<lparr>total = 200, allocations = [(''kv'', 32)], used = 32, peak_used = 32\<rparr>) = ((c', b'), r)
    \<and> \<not> is_panic r"
proof -
  let ?b = "\<lparr>total = 200, allocations = [(''kv'', 32)], used = 32, peak_used = 32\<rparr> :: memory_budget"
  have "budget_ok ?b" by (simp add: budget_ok_def om_ok_def U64_MAX_def)
  then have "kv_charged ''kv'' (example_kv, ?b)"
    using example_kv_ok by (simp add: kv_charged_def budget_get_def kv_bytes_def row_def)
  from grow_with_budget_transactional [OF this, of 3 "\<lambda>_ _. False" 0] show ?thesis
    by (cases "grow_to_with_budget (\<lambda>_ _. False) 0 3 ''kv'' (example_kv, ?b)")
      (force split: result.splits)
qed

text \<open>
  \<open>new_with_budget\<close> reserves before it allocates and rolls back when it fails: on success the
  cache is empty, well-formed, has the requested shape and is charged with exactly its size under
  the given name; on failure every charge is what it was; it never panics.
\<close>

theorem new_with_budget_outcome:
  assumes "budget_ok b" and "kv_new_with_budget grant zero l h d m name b = (b', r)"
  shows "case r of
      Ok c \<Rightarrow> kv_charged name (c, b') \<and> seq_len c = 0 \<and> n_layers c = l \<and> n_kv_heads c = h
        \<and> head_dim c = d \<and> max_seq_len c = m \<and> budget_get b name = None
        \<and> (\<forall>n. n \<noteq> name \<longrightarrow> budget_get b' n = budget_get b n) \<and> used b' = used b + kv_bytes c
    | Err e \<Rightarrow> budget_ok b' \<and> budget_get b' = budget_get b \<and> used b' = used b
    | Panic p \<Rightarrow> False"
proof (cases "kv_layout_of l h d m")
  case (Ok lay)
  then have size: "kl_total_bytes lay \<le> U64_MAX" unfolding kv_layout_of_Ok by auto
  obtain b1 q where al: "allocate name (kl_total_bytes lay) b = (b1, q)" by (metis surj_pair)
  show ?thesis
  proof (cases q)
    case (Ok u)
    have al': "allocate name (kl_total_bytes lay) b = (b1, Ok ())" using al Ok by simp
    note acq = mb.acquire_ok [OF assms(1) al']
    obtain b2 where rb: "release name b1 = (b2, Ok (kl_total_bytes lay))" "budget_ok b2"
      "budget_get b2 = budget_get b" "used b2 = used b"
      using mb.acquire_discharge [OF assms(1) al'] by blast
    show ?thesis
    proof (cases "allocate_from_layout grant zero l h d m lay")
      case c: (Ok c)
      have "kv_new_with_budget grant zero l h d m name b = (b1, Ok c)"
        using \<open>kv_layout_of l h d m = Ok lay\<close> size al' c by (simp add: kv_new_with_budget_def try_u64_def)
      then show ?thesis
        using allocate_from_layout_ok [OF c \<open>kv_layout_of l h d m = Ok lay\<close>] assms(2) acq
        by (auto simp: kv_charged_def)
    next
      case (Err e)
      then have "kv_new_with_budget grant zero l h d m name b = (b2, Err e)"
        using \<open>kv_layout_of l h d m = Ok lay\<close> size al' rb(1)
        by (simp add: kv_new_with_budget_def try_u64_def)
      then show ?thesis using rb assms(2) by auto
    qed (simp add: allocate_from_layout_no_panic)
  next
    case (Err e)
    have "b1 = b" using mb.acquire_err [OF assms(1)] al Err by simp
    then show ?thesis
      using \<open>kv_layout_of l h d m = Ok lay\<close> size al Err assms
      by (auto simp: kv_new_with_budget_def try_u64_def)
  next
    case (Panic p)
    then show ?thesis
      using mb.acquire_no_panic [OF assms(1), of name "kl_total_bytes lay"] al by simp
  qed
next
  case (Err e)
  then show ?thesis using assms by (auto simp: kv_new_with_budget_def)
next
  case (Panic p)
  then show ?thesis using kv_layout_of_no_panic [of l h d m] by simp
qed

theorem new_with_budget_outcome_witness:
  "\<exists>b' c. kv_new_with_budget (\<lambda>_ _. True) (0 :: nat) 1 1 1 2 ''kv''
      \<lparr>total = 200, allocations = [], used = 0, peak_used = 0\<rparr> = (b', Ok c) \<and> used b' = kv_bytes c"
proof -
  let ?b = "\<lparr>total = 200, allocations = [], used = 0, peak_used = 0\<rparr> :: memory_budget"
  have ok: "budget_ok ?b" by (simp add: budget_ok_def U64_MAX_def)
  obtain b' c where run: "kv_new_with_budget (\<lambda>_ _. True) (0 :: nat) 1 1 1 2 ''kv'' ?b = (b', Ok c)"
    by (simp add: kv_new_with_budget_def kv_layout_of_def checked_mul_def try_u64_def U64_MAX_def
        allocate_result [OF ok] budget_get_def allocate_from_layout_def zeroed_buffer_def)
  show ?thesis using new_with_budget_outcome [OF ok run] run by auto
qed

text \<open>
  \<open>try_chunk_aligned_capacity\<close> answers the least multiple of the growth chunk that holds the
  required tokens, and fails exactly when rounding up leaves \<open>usize\<close>.
\<close>

theorem chunk_aligned_capacity_least:
  "(\<exists>n. try_chunk_aligned_capacity required = Ok n \<and> 256 dvd n \<and> required \<le> n
      \<and> (\<forall>m. 256 dvd m \<and> required \<le> m \<longrightarrow> n \<le> m) \<and> required + 255 \<le> U64_MAX)
    \<or> (try_chunk_aligned_capacity required = Err ''KV cache chunk capacity overflow''
      \<and> U64_MAX < required + 255)"
proof (cases "required + 255 \<le> U64_MAX")
  case True
  let ?n = "(required + (256 - 1)) div 256 * 256"
  have "?n \<le> required + 255" using div_times_less_eq_dividend [of "required + 255" 256] by simp
  then have "try_chunk_aligned_capacity required = Ok ?n"
    using True by (simp add: try_chunk_aligned_capacity_def checked_add_def checked_mul_def)
  moreover have "256 dvd ?n" by simp
  moreover have "required \<le> ?n" using round_up_least(1) [of 256 required] by simp
  moreover have "\<forall>m. 256 dvd m \<and> required \<le> m \<longrightarrow> ?n \<le> m"
    using round_up_least(2) [of 256 _ required] by simp
  ultimately show ?thesis using True by blast
next
  case False
  then show ?thesis by (simp add: try_chunk_aligned_capacity_def checked_add_def)
qed

theorem chunk_aligned_capacity_least_witness:
  "try_chunk_aligned_capacity 257 = Ok 512"
proof -
  have "\<not> U64_MAX < 257 + 255" by (simp add: U64_MAX_def)
  with chunk_aligned_capacity_least [of 257] obtain n where
    n: "try_chunk_aligned_capacity 257 = Ok n" "256 dvd n" "257 \<le> n"
    "\<forall>m. 256 dvd m \<and> 257 \<le> m \<longrightarrow> n \<le> m" by blast
  from n(4) have "n \<le> 512" by (auto dest: spec [of _ 512])
  with n(1-3) show ?thesis by (auto elim!: dvdE)
qed

end
