(* ===== verification/Gguf_Types.thy ===== *)
theory Gguf_Types
  imports Ordered_Map
begin

section \<open>GGUF and GGML types\<close>

text \<open>
  \<open>crates/ramforge-core/src/types.rs\<close>: the tags of GGUF metadata values, the values themselves
  (integers as words of their width, a float as its bit pattern, a string as its bytes), and the
  GGML element types with their file numbers, names and block sizes. A \<open>u32\<close> read from a file is
  a natural number.
\<close>

datatype gguf_value_type =
    TUInt8 | TInt8 | TUInt16 | TInt16 | TUInt32 | TInt32 | TFloat32 | TBool | TString | TArray
  | TUInt64 | TInt64 | TFloat64

definition value_type_from_u32 :: "nat \<Rightarrow> gguf_value_type option" where
  "value_type_from_u32 v =
     (if v = 0 then Some TUInt8 else if v = 1 then Some TInt8 else if v = 2 then Some TUInt16
      else if v = 3 then Some TInt16 else if v = 4 then Some TUInt32 else if v = 5 then Some TInt32
      else if v = 6 then Some TFloat32 else if v = 7 then Some TBool else if v = 8 then Some TString
      else if v = 9 then Some TArray else if v = 10 then Some TUInt64
      else if v = 11 then Some TInt64 else if v = 12 then Some TFloat64 else None)"

text \<open>The discriminants of \<open>#[repr(u32)]\<close>.\<close>

fun value_type_tag :: "gguf_value_type \<Rightarrow> nat" where
  "value_type_tag TUInt8 = 0"
| "value_type_tag TInt8 = 1"
| "value_type_tag TUInt16 = 2"
| "value_type_tag TInt16 = 3"
| "value_type_tag TUInt32 = 4"
| "value_type_tag TInt32 = 5"
| "value_type_tag TFloat32 = 6"
| "value_type_tag TBool = 7"
| "value_type_tag TString = 8"
| "value_type_tag TArray = 9"
| "value_type_tag TUInt64 = 10"
| "value_type_tag TInt64 = 11"
| "value_type_tag TFloat64 = 12"

datatype metadata_value =
    UInt8 "8 word"
  | Int8 "8 word"
  | UInt16 "16 word"
  | Int16 "16 word"
  | UInt32 "32 word"
  | Int32 "32 word"
  | Float32 "32 word"
  | Bool bool
  | String string
  | Array gguf_value_type "metadata_value list"
  | UInt64 "64 word"
  | Int64 "64 word"
  | Float64 "64 word"

fun type_name :: "metadata_value \<Rightarrow> string" where
  "type_name (UInt8 _) = ''uint8''"
| "type_name (Int8 _) = ''int8''"
| "type_name (UInt16 _) = ''uint16''"
| "type_name (Int16 _) = ''int16''"
| "type_name (UInt32 _) = ''uint32''"
| "type_name (Int32 _) = ''int32''"
| "type_name (Float32 _) = ''float32''"
| "type_name (Bool _) = ''bool''"
| "type_name (String _) = ''string''"
| "type_name (Array _ _) = ''array''"
| "type_name (UInt64 _) = ''uint64''"
| "type_name (Int64 _) = ''int64''"
| "type_name (Float64 _) = ''float64''"

text \<open>\<open>as u64\<close> sign-extends a signed integer and reads the bits as unsigned.\<close>

fun as_u64 :: "metadata_value \<Rightarrow> u64 option" where
  "as_u64 (UInt8 v) = Some (unat v)"
| "as_u64 (Int8 v) = Some (unat (signed v :: 64 word))"
| "as_u64 (UInt16 v) = Some (unat v)"
| "as_u64 (Int16 v) = Some (unat (signed v :: 64 word))"
| "as_u64 (UInt32 v) = Some (unat v)"
| "as_u64 (Int32 v) = Some (unat (signed v :: 64 word))"
| "as_u64 (UInt64 v) = Some (unat v)"
| "as_u64 (Int64 v) = Some (unat v)"
| "as_u64 _ = None"

definition as_u32 :: "metadata_value \<Rightarrow> nat option" where
  "as_u32 m = Option.bind (as_u64 m) (\<lambda>v. if v < 2 ^ 32 then Some v else None)"

fun as_i64 :: "metadata_value \<Rightarrow> int option" where
  "as_i64 (UInt8 v) = Some (uint v)"
| "as_i64 (Int8 v) = Some (sint v)"
| "as_i64 (UInt16 v) = Some (uint v)"
| "as_i64 (Int16 v) = Some (sint v)"
| "as_i64 (UInt32 v) = Some (uint v)"
| "as_i64 (Int32 v) = Some (sint v)"
| "as_i64 (UInt64 v) = Some (sint v)"
| "as_i64 (Int64 v) = Some (sint v)"
| "as_i64 _ = None"

fun as_string :: "metadata_value \<Rightarrow> string option" where
  "as_string (String s) = Some s"
| "as_string _ = None"

fun as_bool :: "metadata_value \<Rightarrow> bool option" where
  "as_bool (Bool b) = Some b"
| "as_bool _ = None"

fun as_array :: "metadata_value \<Rightarrow> (gguf_value_type \<times> metadata_value list) option" where
  "as_array (Array t vs) = Some (t, vs)"
| "as_array _ = None"

subsection \<open>GGML element types\<close>

datatype ggml_type =
    F32 | F16 | Q4_0 | Q4_1 | Q5_0 | Q5_1 | Q8_0 | Q8_1 | Q2_K | Q3_K | Q4_K | Q5_K | Q6_K |
    Q8_K | IQ2_XXS | IQ2_XS | IQ3_XXS | IQ1_S | IQ4_NL | IQ3_S | IQ2_S | IQ4_XS | I8 | I16 |
    I32 | I64 | F64 | IQ1_M | BF16 | TQ1_0 | TQ2_0 | MXFP4 | IQ4_0 | IQ4_NL_B16 | IQ4_NL_B32 |
    IQ4_NL_B64 | IQ4_SQ | IQ4_K | IQ5_0 | IQ5_NL | IQ5_SQ | IQ5_K | IQ6_0 | IQ6_NL | IQ6_K |
    IQ2_K | IQ2_0 | IQ3_T | IQ8_0 | Q3_I | Unknown nat

text \<open>The \<open>match\<close> of \<open>from_u32\<close> as a table, with \<open>Unknown\<close> for any other number.\<close>

definition ggml_table :: "(nat \<times> ggml_type) list" where
  "ggml_table =
     [(0, F32), (1, F16), (2, Q4_0), (3, Q4_1), (6, Q5_0), (7, Q5_1), (8, Q8_0), (9, Q8_1),
      (10, Q2_K), (11, Q3_K), (12, Q4_K), (13, Q5_K), (14, Q6_K), (15, Q8_K), (16, IQ2_XXS),
      (17, IQ2_XS), (18, IQ3_XXS), (19, IQ1_S), (20, IQ4_NL), (21, IQ3_S), (22, IQ2_S),
      (23, IQ4_XS), (24, I8), (25, I16), (26, I32), (27, I64), (28, F64), (29, IQ1_M),
      (30, BF16), (34, TQ1_0), (35, TQ2_0), (39, MXFP4), (32, IQ4_0), (33, IQ4_NL_B16),
      (36, IQ4_NL_B32), (37, IQ4_NL_B64), (38, IQ4_SQ), (40, IQ8_0), (41, Q3_I)]"

definition ggml_from_u32 :: "nat \<Rightarrow> ggml_type" where
  "ggml_from_u32 v = (case map_of ggml_table v of Some t \<Rightarrow> t | None \<Rightarrow> Unknown v)"

fun ggml_name :: "ggml_type \<Rightarrow> string" where
  "ggml_name F32 = ''F32''"
| "ggml_name F16 = ''F16''"
| "ggml_name Q4_0 = ''Q4_0''"
| "ggml_name Q4_1 = ''Q4_1''"
| "ggml_name Q5_0 = ''Q5_0''"
| "ggml_name Q5_1 = ''Q5_1''"
| "ggml_name Q8_0 = ''Q8_0''"
| "ggml_name Q8_1 = ''Q8_1''"
| "ggml_name Q2_K = ''Q2_K''"
| "ggml_name Q3_K = ''Q3_K''"
| "ggml_name Q4_K = ''Q4_K''"
| "ggml_name Q5_K = ''Q5_K''"
| "ggml_name Q6_K = ''Q6_K''"
| "ggml_name Q8_K = ''Q8_K''"
| "ggml_name IQ2_XXS = ''IQ2_XXS''"
| "ggml_name IQ2_XS = ''IQ2_XS''"
| "ggml_name IQ3_XXS = ''IQ3_XXS''"
| "ggml_name IQ1_S = ''IQ1_S''"
| "ggml_name IQ4_NL = ''IQ4_NL''"
| "ggml_name IQ3_S = ''IQ3_S''"
| "ggml_name IQ2_S = ''IQ2_S''"
| "ggml_name IQ4_XS = ''IQ4_XS''"
| "ggml_name I8 = ''I8''"
| "ggml_name I16 = ''I16''"
| "ggml_name I32 = ''I32''"
| "ggml_name I64 = ''I64''"
| "ggml_name F64 = ''F64''"
| "ggml_name IQ1_M = ''IQ1_M''"
| "ggml_name BF16 = ''BF16''"
| "ggml_name TQ1_0 = ''TQ1_0''"
| "ggml_name TQ2_0 = ''TQ2_0''"
| "ggml_name MXFP4 = ''MXFP4''"
| "ggml_name IQ4_0 = ''IQ4_0''"
| "ggml_name IQ4_NL_B16 = ''IQ4_NL_B16''"
| "ggml_name IQ4_NL_B32 = ''IQ4_NL_B32''"
| "ggml_name IQ4_NL_B64 = ''IQ4_NL_B64''"
| "ggml_name IQ4_SQ = ''IQ4_SQ''"
| "ggml_name IQ4_K = ''IQ4_K''"
| "ggml_name IQ5_0 = ''IQ5_0''"
| "ggml_name IQ5_NL = ''IQ5_NL''"
| "ggml_name IQ5_SQ = ''IQ5_SQ''"
| "ggml_name IQ5_K = ''IQ5_K''"
| "ggml_name IQ6_0 = ''IQ6_0''"
| "ggml_name IQ6_NL = ''IQ6_NL''"
| "ggml_name IQ6_K = ''IQ6_K''"
| "ggml_name IQ2_K = ''IQ2_K''"
| "ggml_name IQ2_0 = ''IQ2_0''"
| "ggml_name IQ3_T = ''IQ3_T''"
| "ggml_name IQ8_0 = ''IQ8_0''"
| "ggml_name Q3_I = ''Q3_I''"
| "ggml_name (Unknown v) = ''UNKNOWN('' @ show_nat v @ '')''"

text \<open>Elements of a block and its bytes, where they are known.\<close>

fun type_info :: "ggml_type \<Rightarrow> (u64 \<times> u64) option" where
  "type_info F32 = Some (1, 4)"
| "type_info F16 = Some (1, 2)"
| "type_info Q4_0 = Some (32, 18)"
| "type_info Q4_1 = Some (32, 20)"
| "type_info Q5_0 = Some (32, 22)"
| "type_info Q5_1 = Some (32, 24)"
| "type_info Q8_0 = Some (32, 34)"
| "type_info Q8_1 = Some (32, 40)"
| "type_info Q2_K = Some (256, 84)"
| "type_info Q3_K = Some (256, 110)"
| "type_info Q4_K = Some (256, 144)"
| "type_info Q5_K = Some (256, 176)"
| "type_info Q6_K = Some (256, 210)"
| "type_info Q8_K = Some (256, 292)"
| "type_info IQ2_XXS = Some (256, 66)"
| "type_info IQ2_XS = Some (256, 74)"
| "type_info IQ3_XXS = Some (256, 98)"
| "type_info IQ1_S = Some (256, 50)"
| "type_info IQ4_NL = Some (32, 18)"
| "type_info IQ3_S = Some (256, 110)"
| "type_info IQ2_S = Some (256, 82)"
| "type_info IQ4_XS = Some (256, 136)"
| "type_info I8 = Some (1, 1)"
| "type_info I16 = Some (1, 2)"
| "type_info I32 = Some (1, 4)"
| "type_info I64 = Some (1, 8)"
| "type_info F64 = Some (1, 8)"
| "type_info IQ1_M = Some (256, 56)"
| "type_info BF16 = Some (1, 2)"
| "type_info TQ1_0 = Some (256, 54)"
| "type_info TQ2_0 = Some (256, 70)"
| "type_info MXFP4 = Some (32, 18)"
| "type_info _ = None"

fun ggml_as_u32 :: "ggml_type \<Rightarrow> nat" where
  "ggml_as_u32 F32 = 0"
| "ggml_as_u32 F16 = 1"
| "ggml_as_u32 Q4_0 = 2"
| "ggml_as_u32 Q4_1 = 3"
| "ggml_as_u32 Q5_0 = 6"
| "ggml_as_u32 Q5_1 = 7"
| "ggml_as_u32 Q8_0 = 8"
| "ggml_as_u32 Q8_1 = 9"
| "ggml_as_u32 Q2_K = 10"
| "ggml_as_u32 Q3_K = 11"
| "ggml_as_u32 Q4_K = 12"
| "ggml_as_u32 Q5_K = 13"
| "ggml_as_u32 Q6_K = 14"
| "ggml_as_u32 Q8_K = 15"
| "ggml_as_u32 IQ2_XXS = 16"
| "ggml_as_u32 IQ2_XS = 17"
| "ggml_as_u32 IQ3_XXS = 18"
| "ggml_as_u32 IQ1_S = 19"
| "ggml_as_u32 IQ4_NL = 20"
| "ggml_as_u32 IQ3_S = 21"
| "ggml_as_u32 IQ2_S = 22"
| "ggml_as_u32 IQ4_XS = 23"
| "ggml_as_u32 I8 = 24"
| "ggml_as_u32 I16 = 25"
| "ggml_as_u32 I32 = 26"
| "ggml_as_u32 I64 = 27"
| "ggml_as_u32 F64 = 28"
| "ggml_as_u32 IQ1_M = 29"
| "ggml_as_u32 BF16 = 30"
| "ggml_as_u32 TQ1_0 = 34"
| "ggml_as_u32 TQ2_0 = 35"
| "ggml_as_u32 MXFP4 = 39"
| "ggml_as_u32 IQ4_0 = 32"
| "ggml_as_u32 IQ4_NL_B16 = 33"
| "ggml_as_u32 IQ4_NL_B32 = 36"
| "ggml_as_u32 IQ4_NL_B64 = 37"
| "ggml_as_u32 IQ4_SQ = 38"
| "ggml_as_u32 IQ4_K = 27"
| "ggml_as_u32 IQ5_0 = 28"
| "ggml_as_u32 IQ5_NL = 29"
| "ggml_as_u32 IQ5_SQ = 30"
| "ggml_as_u32 IQ5_K = 31"
| "ggml_as_u32 IQ6_0 = 32"
| "ggml_as_u32 IQ6_NL = 33"
| "ggml_as_u32 IQ6_K = 34"
| "ggml_as_u32 IQ2_K = 35"
| "ggml_as_u32 IQ2_0 = 38"
| "ggml_as_u32 IQ3_T = 39"
| "ggml_as_u32 IQ8_0 = 40"
| "ggml_as_u32 Q3_I = 41"
| "ggml_as_u32 (Unknown v) = v"

subsection \<open>Lemmas\<close>

lemma value_type_from_tag [simp]: "value_type_from_u32 (value_type_tag t) = Some t"
  by (cases t) (simp_all add: value_type_from_u32_def)

lemma value_type_tag_less: "value_type_tag t < 13"
  by (cases t) simp_all

lemma ggml_table_distinct: "distinct (map fst ggml_table)"
  by (simp add: ggml_table_def)

lemma ggml_table_as_u32: "(v, t) \<in> set ggml_table \<Longrightarrow> ggml_as_u32 t = v"
  by (auto simp: ggml_table_def)

lemma as_u32_from_u32: "ggml_as_u32 (ggml_from_u32 v) = v"
  by (auto simp: ggml_from_u32_def split: option.splits dest!: map_of_SomeD ggml_table_as_u32)

lemma type_info_pos: "type_info t = Some (b, s) \<Longrightarrow> 0 < b \<and> 0 < s"
  by (cases t) auto

text \<open>Reading a type back from its name; the names of different types differ.\<close>

definition ggml_of_name :: "string \<Rightarrow> ggml_type" where
  "ggml_of_name s =
     (case find (\<lambda>t. ggml_name t = s) (map snd ggml_table @
          [IQ4_K, IQ5_0, IQ5_NL, IQ5_SQ, IQ5_K, IQ6_0, IQ6_NL, IQ6_K, IQ2_K, IQ2_0, IQ3_T]) of
        Some t \<Rightarrow> t
      | None \<Rightarrow> Unknown (digits_value 0 (takeWhile (\<lambda>c. c \<noteq> CHR '')'') (drop 8 s))))"

lemma takeWhile_digits: "takeWhile (\<lambda>c. c \<noteq> CHR '')'') (show_nat v @ '')'') = show_nat v"
proof (subst takeWhile_append2)
  fix c assume "c \<in> set (show_nat v)"
  then obtain d where "digit_value c = Some d" using show_nat_digits by blast
  then show "c \<noteq> CHR '')''" by (auto simp: digit_value_def)
qed simp

lemma ggml_of_name_Unknown: "ggml_of_name (ggml_name (Unknown v)) = Unknown v"
  by (simp add: ggml_of_name_def ggml_table_def takeWhile_digits digits_value_show)

lemma ggml_of_name: "ggml_of_name (ggml_name t) = t"
proof (cases t)
  case (Unknown v)
  then show ?thesis using ggml_of_name_Unknown by simp
qed (simp_all add: ggml_of_name_def ggml_table_def)

lemma ggml_name_inj: "ggml_name s = ggml_name t \<longleftrightarrow> s = t"
  by (metis ggml_of_name)

subsection \<open>Properties\<close>

text \<open>
  Writing the type read from a file number gives the number back, for every number; reading
  the number of a type gives the type back for every type a file number denotes, and so never for
  the eleven placeholder types, whose numbers belong to other types; the names of distinct types
  are distinct, and a known block layout has a positive number of elements and bytes.
\<close>

theorem ggml_type_numbers:
  "ggml_as_u32 (ggml_from_u32 v) = v
    \<and> (ggml_from_u32 (ggml_as_u32 t) = t \<longleftrightarrow>
        t \<notin> {IQ4_K, IQ5_0, IQ5_NL, IQ5_SQ, IQ5_K, IQ6_0, IQ6_NL, IQ6_K, IQ2_K, IQ2_0, IQ3_T}
        \<and> t \<notin> Unknown ` fst ` set ggml_table)
    \<and> (ggml_name s = ggml_name t \<longleftrightarrow> s = t)
    \<and> type_info t \<noteq> Some (0, n) \<and> type_info t \<noteq> Some (n, 0)"
proof (intro conjI)
  show "ggml_as_u32 (ggml_from_u32 v) = v" by (rule as_u32_from_u32)
  show "ggml_from_u32 (ggml_as_u32 t) = t \<longleftrightarrow>
        t \<notin> {IQ4_K, IQ5_0, IQ5_NL, IQ5_SQ, IQ5_K, IQ6_0, IQ6_NL, IQ6_K, IQ2_K, IQ2_0, IQ3_T}
        \<and> t \<notin> Unknown ` fst ` set ggml_table"
  proof (cases t)
    case (Unknown u)
    have "map_of ggml_table u \<noteq> Some (Unknown u)"
      by (auto dest!: map_of_SomeD simp: ggml_table_def)
    moreover have "Unknown u \<in> Unknown ` fst ` set ggml_table \<longleftrightarrow> map_of ggml_table u \<noteq> None"
      by (auto simp: map_of_eq_None_iff)
    ultimately show ?thesis
      using Unknown by (cases "map_of ggml_table u") (auto simp: ggml_from_u32_def)
  qed (auto simp: ggml_from_u32_def ggml_table_def)
  show "ggml_name s = ggml_name t \<longleftrightarrow> s = t" by (rule ggml_name_inj)
  show "type_info t \<noteq> Some (0, n)" "type_info t \<noteq> Some (n, 0)" using type_info_pos by fastforce+
qed

text \<open>The integer a metadata value denotes.\<close>

fun metadata_int :: "metadata_value \<Rightarrow> int option" where
  "metadata_int (UInt8 v) = Some (uint v)"
| "metadata_int (Int8 v) = Some (sint v)"
| "metadata_int (UInt16 v) = Some (uint v)"
| "metadata_int (Int16 v) = Some (sint v)"
| "metadata_int (UInt32 v) = Some (uint v)"
| "metadata_int (Int32 v) = Some (sint v)"
| "metadata_int (UInt64 v) = Some (uint v)"
| "metadata_int (Int64 v) = Some (sint v)"
| "metadata_int _ = None"

lemma unat_signed: "int (unat (signed v :: 64 word)) = sint (v :: 'a::len word) mod 2 ^ 64"
  by (simp add: take_bit_eq_mod, transfer) (simp add: take_bit_eq_mod)

lemma unat_sint: "int (unat (v :: 64 word)) = sint v mod 2 ^ 64"
proof -
  have "sint v mod 2 ^ 64 = take_bit 64 (sint v)" by (simp add: take_bit_eq_mod)
  also have "\<dots> = uint v" by transfer (simp add: take_bit_signed_take_bit)
  finally show ?thesis by simp
qed

lemma uint_range:
  assumes "LENGTH('a) \<le> 64"
  shows "- (2 ^ 63) \<le> uint (v :: 'a::len word)" and "uint v < 2 ^ 64"
proof -
  have "(2 :: int) ^ LENGTH('a) \<le> 2 ^ 64" using assms by (intro power_increasing) simp_all
  with uint_lt2p [of v] show "uint v < 2 ^ 64" by (rule less_le_trans)
  show "- (2 ^ 63) \<le> uint v" by (rule order_trans [OF _ uint_ge_0]) simp
qed

lemma sint_range:
  assumes "LENGTH('a) \<le> 64"
  shows "- (2 ^ 63) \<le> sint (v :: 'a::len word)" and "sint v < 2 ^ 63"
proof -
  have le: "(2 :: int) ^ (LENGTH('a) - 1) \<le> 2 ^ 63" using assms by (intro power_increasing) simp_all
  have "- (2 ^ (LENGTH('a) - 1)) \<le> sint v" using sint_greater_eq [of v] by simp
  with le show "- (2 ^ 63) \<le> sint v" by linarith
  have "sint v < 2 ^ (LENGTH('a) - 1)" using sint_less [of v] by simp
  with le show "sint v < 2 ^ 63" by linarith
qed

text \<open>The same with the powers written out, as the simplifier has them.\<close>

lemma word_range_literals:
  assumes "LENGTH('a) \<le> 64"
  shows "uint (v :: 'a::len word) < 18446744073709551616" and "- 9223372036854775808 \<le> uint v"
    and "- 9223372036854775808 \<le> sint v" and "sint v < 18446744073709551616"
    and "nat (uint v mod 18446744073709551616) = unat v"
proof -
  show 1: "uint v < 18446744073709551616" using uint_range(2) [OF assms, of v] by simp
  show "- 9223372036854775808 \<le> uint v" using uint_range(1) [OF assms, of v] by simp
  show "- 9223372036854775808 \<le> sint v" using sint_range(1) [OF assms, of v] by simp
  show "sint v < 18446744073709551616" using sint_range(2) [OF assms, of v] by simp
  have "uint v mod 18446744073709551616 = uint v" using 1 by (intro mod_pos_pos_trivial) simp_all
  then show "nat (uint v mod 18446744073709551616) = unat v" by simp
qed

lemma metadata_int_range: "metadata_int m = Some i \<Longrightarrow> - (2 ^ 63) \<le> i \<and> i < 2 ^ 64"
  by (cases m) (auto simp: word_range_literals)

lemma nat_sint_mod:
  "nat (sint (v :: 'a::len word) mod 18446744073709551616) = unat (signed v :: 64 word)"
  using arg_cong [OF unat_signed [of v], of nat] by simp

lemma nat_sint_mod_64: "nat (sint (v :: 64 word) mod 18446744073709551616) = unat v"
  using arg_cong [OF unat_sint [of v], of nat] by simp

lemma as_u64_int: "as_u64 m = map_option (\<lambda>i. nat (i mod 2 ^ 64)) (metadata_int m)"
  by (cases m) (simp_all add: word_range_literals nat_sint_mod nat_sint_mod_64)

lemma sint_uint_wrap: "sint (v :: 64 word) = uint v \<or> (2 ^ 63 \<le> uint v \<and> sint v = uint v - 2 ^ 64)"
proof -
  have "int (unat v) = sint v mod 2 ^ 64" by (rule unat_sint)
  then have u: "uint v = sint v mod 2 ^ 64" by simp
  show ?thesis
  proof (cases "0 \<le> sint v")
    case True
    then show ?thesis using u sint_range(2) [of v] by simp
  next
    case False
    then have "sint v mod 2 ^ 64 = (sint v + 2 ^ 64) mod 2 ^ 64" by simp
    also have "\<dots> = sint v + 2 ^ 64"
      using False sint_range(1) [of v] by (intro mod_pos_pos_trivial) simp_all
    finally show ?thesis using u sint_range(1) [of v] by simp
  qed
qed

text \<open>
  \<open>as_u64\<close> is the value modulo \<open>2^64\<close>, so a negative integer becomes a number above
  \<open>2^63\<close>; \<open>as_u32\<close> accepts exactly the integers that are a \<open>u32\<close>; \<open>as_i64\<close> is the value, except that
  an unsigned one above the \<open>i64\<close> range wraps.
\<close>

theorem metadata_integers:
  "as_u64 m = map_option (\<lambda>i. nat (i mod 2 ^ 64)) (metadata_int m)
    \<and> as_u32 m = (case metadata_int m of
         None \<Rightarrow> None
       | Some i \<Rightarrow> if 0 \<le> i \<and> i < 2 ^ 32 then Some (nat i) else None)
    \<and> (case as_i64 m of
         None \<Rightarrow> metadata_int m = None
       | Some j \<Rightarrow> \<exists>i. metadata_int m = Some i \<and> (j = i \<or> (2 ^ 63 \<le> i \<and> j = i - 2 ^ 64)))"
proof (intro conjI)
  show "as_u64 m = map_option (\<lambda>i. nat (i mod 2 ^ 64)) (metadata_int m)" by (rule as_u64_int)
  show "as_u32 m = (case metadata_int m of
         None \<Rightarrow> None
       | Some i \<Rightarrow> if 0 \<le> i \<and> i < 2 ^ 32 then Some (nat i) else None)"
  proof (cases "metadata_int m")
    case None
    then show ?thesis by (simp add: as_u32_def as_u64_int)
  next
    case (Some i)
    note r = metadata_int_range [OF Some]
    show ?thesis
    proof (cases "0 \<le> i")
      case True
      then have "i mod 2 ^ 64 = i" using r by simp
      then show ?thesis using True Some by (auto simp: as_u32_def as_u64_int nat_less_iff)
    next
      case False
      then have "i mod 2 ^ 64 = (i + 2 ^ 64) mod 2 ^ 64" by simp
      also have "\<dots> = i + 2 ^ 64" using False r by (intro mod_pos_pos_trivial) simp_all
      finally show ?thesis using False Some r by (simp add: as_u32_def as_u64_int nat_less_iff)
    qed
  qed
  show "case as_i64 m of
         None \<Rightarrow> metadata_int m = None
       | Some j \<Rightarrow> \<exists>i. metadata_int m = Some i \<and> (j = i \<or> (2 ^ 63 \<le> i \<and> j = i - 2 ^ 64))"
    using sint_uint_wrap by (cases m) (simp_all, blast?)
qed


end
