(* ===== verification/Gguf_Model.thy ===== *)
theory Gguf_Model
  imports Gguf_Types
begin

section \<open>The file-backed model\<close>

text \<open>
  \<open>TensorDescriptor\<close>, \<open>GgufModel\<close> and \<open>ModelInfo\<close> of \<open>crates/ramforge-core/src/model.rs\<close>. The
  path of the file is left out. \<open>info\<close> takes the \<open>Display\<close> of a metadata value as a parameter: it
  is used only when \<open>general.architecture\<close> is not a string, and would print floats.
\<close>

record tensor_descriptor =
  td_name :: string
  dimensions :: "u64 list"
  td_type :: ggml_type
  td_offset :: u64
  file_offset :: u64
  byte_length :: "u64 option"
  num_elements :: u64

record gguf_model =
  file_size :: u64
  gm_version :: nat
  metadata :: "(string, metadata_value) omap"
  tensors :: "tensor_descriptor list"
  alignment :: u64
  data_start_offset :: u64

record model_info =
  architecture :: "string option"
  context_length :: "u64 option"
  embedding_length :: "u64 option"
  block_count :: "u64 option"
  head_count :: "u64 option"
  head_count_kv :: "u64 option"
  expert_count :: "u64 option"
  expert_used_count :: "u64 option"
  file_type :: "nat option"
  tokenizer_model :: "string option"
  vocab_size :: "usize option"
  mi_name :: "string option"
  mi_description :: "string option"

definition shape_string :: "tensor_descriptor \<Rightarrow> string" where
  "shape_string t =
     (case dimensions t of
        [] \<Rightarrow> ''scalar''
      | d # ds \<Rightarrow> show_nat d @ concat (map (\<lambda>d. ''x'' @ show_nat d) ds))"

definition get_metadata :: "gguf_model \<Rightarrow> string \<Rightarrow> metadata_value option" where
  "get_metadata m key = om_get (metadata m) key"

definition get_u64 :: "gguf_model \<Rightarrow> string \<Rightarrow> u64 option" where
  "get_u64 m key = Option.bind (get_metadata m key) as_u64"

definition get_string :: "gguf_model \<Rightarrow> string \<Rightarrow> string option" where
  "get_string m key = Option.bind (get_metadata m key) as_string"

fun or_else :: "'a option \<Rightarrow> 'a option \<Rightarrow> 'a option" where
  "or_else (Some a) _ = Some a"
| "or_else None b = b"

definition model_architecture :: "(metadata_value \<Rightarrow> string) \<Rightarrow> gguf_model \<Rightarrow> string option" where
  "model_architecture show_value m =
     or_else (get_string m ''general.architecture'')
       (map_option show_value (get_metadata m ''general.architecture''))"

definition info :: "(metadata_value \<Rightarrow> string) \<Rightarrow> gguf_model \<Rightarrow> model_info" where
  "info show_value m =
     (let arch_opt = model_architecture show_value m;
          arch = (case arch_opt of Some a \<Rightarrow> a | None \<Rightarrow> ''unknown'');
          try_arch_key = (\<lambda>suffix. get_u64 m (arch @ ''.'' @ suffix)) in
      \<lparr>architecture = arch_opt,
       context_length = or_else (try_arch_key ''context_length'')
         (or_else (get_u64 m ''general.context_length'') (get_u64 m ''llama.context_length'')),
       embedding_length = or_else (try_arch_key ''embedding_length'')
         (or_else (get_u64 m ''general.embedding_length'') (get_u64 m ''llama.embedding_length'')),
       block_count = or_else (try_arch_key ''block_count'')
         (or_else (get_u64 m ''general.block_count'') (get_u64 m ''llama.block_count'')),
       head_count = or_else (try_arch_key ''attention.head_count'')
         (or_else (get_u64 m ''llama.attention.head_count'')
           (get_u64 m ''general.attention.head_count'')),
       head_count_kv = or_else (try_arch_key ''attention.head_count_kv'')
         (get_u64 m ''llama.attention.head_count_kv''),
       expert_count = or_else (try_arch_key ''expert_count'')
         (or_else (get_u64 m ''llama.expert_count'') (try_arch_key ''experts_count'')),
       expert_used_count = or_else (try_arch_key ''expert_used_count'')
         (get_u64 m ''llama.expert_used_count''),
       file_type = map_option (\<lambda>v. v mod 2 ^ 32) (get_u64 m ''general.file_type''),
       tokenizer_model = or_else (get_string m ''tokenizer.ggml.model'')
         (get_string m ''general.tokenizer_model''),
       vocab_size = map_option (\<lambda>arr. length (snd arr))
         (Option.bind (get_metadata m ''tokenizer.ggml.tokens'') as_array),
       mi_name = get_string m ''general.name'',
       mi_description = get_string m ''general.description''\<rparr>)"

definition count_name :: "string \<Rightarrow> (string, usize) omap \<Rightarrow> (string, usize) omap" where
  "count_name name m =
     om_put name ((case om_get m name of None \<Rightarrow> 0 | Some n \<Rightarrow> n) + 1) m"

definition type_summary :: "gguf_model \<Rightarrow> (string, usize) omap" where
  "type_summary m = fold (\<lambda>t. count_name (ggml_name (td_type t))) (tensors m) []"

fun sum_lengths :: "u64 \<Rightarrow> tensor_descriptor list \<Rightarrow> u64 option" where
  "sum_lengths tot [] = Some tot"
| "sum_lengths tot (t # ts) =
     (case byte_length t of
        None \<Rightarrow> None
      | Some len \<Rightarrow> (case checked_add tot len of None \<Rightarrow> None | Some tot' \<Rightarrow> sum_lengths tot' ts))"

definition total_tensor_bytes :: "gguf_model \<Rightarrow> u64 option" where
  "total_tensor_bytes m = sum_lengths 0 (tensors m)"

text \<open>The final addition of \<open>align_offset\<close> is a plain \<open>+\<close>.\<close>

definition align_offset :: "u64 \<Rightarrow> u64 \<Rightarrow> u64" where
  "align_offset offset align =
     (if align = 0 then offset
      else let remainder = offset mod align in
        if remainder = 0 then offset else wrapping_add offset (align - remainder))"

subsection \<open>Lemmas\<close>

lemma round_up_mod:
  fixes n k :: nat
  assumes "n mod k \<noteq> 0" and "0 < k"
  shows "k dvd n + (k - n mod k)" and "n + (k - n mod k) < n + k"
    and "k dvd m \<Longrightarrow> n \<le> m \<Longrightarrow> n + (k - n mod k) \<le> m"
proof -
  have r: "n mod k < k" "n mod k \<le> n" using assms(2) by simp_all
  have eq: "n + (k - n mod k) = Suc (n div k) * k"
  proof -
    have "n div k * k + n mod k = n" by simp
    with r(1) have "n + (k - n mod k) = n div k * k + k" by linarith
    then show ?thesis by simp
  qed
  show "k dvd n + (k - n mod k)" unfolding eq by simp
  show "n + (k - n mod k) < n + k" using assms r by simp
  assume m: "k dvd m" "n \<le> m"
  then obtain q where q: "m = q * k" by (auto simp: dvd_def mult.commute)
  have "n div k < q"
  proof (rule ccontr)
    assume "\<not> n div k < q"
    then have "q * k \<le> n div k * k" by simp
    also have "\<dots> < n" using assms(1) div_times_less_eq_dividend [of n k]
      by (metis le_neq_implies_less mod_mult_self2_is_0 mult.commute)
    finally show False using m(2) q by simp
  qed
  then have "Suc (n div k) * k \<le> q * k" by (intro mult_le_mono1) simp
  then show "n + (k - n mod k) \<le> m" unfolding eq q .
qed

lemma om_ok_count_name: "om_ok m \<Longrightarrow> om_ok (count_name name m)"
  by (simp add: count_name_def)

lemma fold_count_name:
  "om_ok m \<Longrightarrow> om_ok (fold (\<lambda>x. count_name (f x)) xs m) \<and>
    om_get (fold (\<lambda>x. count_name (f x)) xs m) name =
      (let k = (case om_get m name of None \<Rightarrow> 0 | Some n \<Rightarrow> n) + length (filter (\<lambda>x. f x = name) xs) in
       if om_get m name = None \<and> k = 0 then None else Some k)"
proof (induction xs arbitrary: m)
  case Nil
  then show ?case by (auto simp: Let_def split: option.splits)
next
  case (Cons x xs)
  show ?case
    using Cons.IH [OF om_ok_count_name [OF Cons.prems]] Cons.prems
    by (auto simp: count_name_def Let_def split: option.splits)
qed

lemma sum_lengths_eq:
  "sum_lengths tot ts = Some s \<longleftrightarrow> (\<forall>t \<in> set ts. byte_length t \<noteq> None)
    \<and> s = tot + sum_list (map (\<lambda>t. the (byte_length t)) ts) \<and> (ts = [] \<or> s \<le> U64_MAX)"
proof (induction tot ts rule: sum_lengths.induct)
  case (2 tot t ts)
  then show ?case
    by (cases "ts = []") (auto simp: checked_add_def add.assoc split: option.splits)
qed auto

subsection \<open>Properties\<close>

text \<open>
  Unless the addition leaves \<open>u64\<close>, \<open>align_offset\<close> answers the least multiple of the alignment
  that is not below the offset (the offset itself for alignment 0).
\<close>

theorem align_offset_least:
  assumes "offset + align \<le> U64_MAX"
  shows "offset \<le> align_offset offset align
    \<and> (if align = 0 then align_offset offset align = offset
       else align dvd align_offset offset align
         \<and> (\<forall>m. align dvd m \<and> offset \<le> m \<longrightarrow> align_offset offset align \<le> m))"
proof (cases "align = 0 \<or> offset mod align = 0")
  case True
  then show ?thesis by (auto simp: align_offset_def)
next
  case False
  then have "offset mod align \<noteq> 0" "0 < align" by simp_all
  note r = round_up_mod [OF this]
  have eq: "align_offset offset align = offset + (align - offset mod align)"
    using False r(2) assms by (simp add: align_offset_def Let_def wrapping_add_exact)
  have "offset \<le> align_offset offset align" unfolding eq by (rule le_add1)
  moreover have "align dvd align_offset offset align" unfolding eq by (rule r(1))
  moreover have "align dvd m \<Longrightarrow> offset \<le> m \<Longrightarrow> align_offset offset align \<le> m" for m
    unfolding eq by (rule r(3))
  ultimately show ?thesis using \<open>0 < align\<close> by simp
qed

theorem align_offset_least_witness: "align_offset 33 32 = 64"
proof -
  have "33 + 32 \<le> U64_MAX" by (simp add: U64_MAX_def)
  note a = align_offset_least [OF this]
  from a have "32 dvd align_offset 33 32" "33 \<le> align_offset 33 32" by simp_all
  moreover from a have "align_offset 33 32 \<le> 64" by (auto dest: spec [of _ 64])
  ultimately show ?thesis by (auto elim!: dvdE)
qed

text \<open>
  The summary of a model counts, under the name of each type, exactly the tensors of that type,
  and has no entry for a type without tensors; the total of the tensor bytes is the sum of the
  lengths when every length is known and the sum is a \<open>u64\<close>, and unknown otherwise.
\<close>

theorem model_summaries:
  "om_get (type_summary m) (ggml_name t) =
      (let k = length (filter (\<lambda>d. td_type d = t) (tensors m)) in if k = 0 then None else Some k)
    \<and> total_tensor_bytes m =
      (if (\<exists>d \<in> set (tensors m). byte_length d = None)
          \<or> U64_MAX < sum_list (map (\<lambda>d. the (byte_length d)) (tensors m))
       then None else Some (sum_list (map (\<lambda>d. the (byte_length d)) (tensors m))))"
proof
  show "om_get (type_summary m) (ggml_name t) =
      (let k = length (filter (\<lambda>d. td_type d = t) (tensors m)) in if k = 0 then None else Some k)"
    using fold_count_name [of "[]" "\<lambda>d. ggml_name (td_type d)" "tensors m" "ggml_name t"]
    by (simp add: type_summary_def ggml_name_inj Let_def)
  let ?s = "sum_list (map (\<lambda>d. the (byte_length d)) (tensors m))"
  have "total_tensor_bytes m = Some s \<longleftrightarrow> (\<forall>d \<in> set (tensors m). byte_length d \<noteq> None)
      \<and> s = ?s \<and> (tensors m = [] \<or> s \<le> U64_MAX)" for s
    using sum_lengths_eq [of 0 "tensors m" s] by (simp add: total_tensor_bytes_def)
  note some = this
  have nil: "tensors m = [] \<Longrightarrow> ?s \<le> U64_MAX" by simp
  show "total_tensor_bytes m = (if (\<exists>d \<in> set (tensors m). byte_length d = None)
      \<or> U64_MAX < ?s then None else Some ?s)"
  proof (cases "(\<exists>d \<in> set (tensors m). byte_length d = None) \<or> U64_MAX < ?s")
    case True
    then have "total_tensor_bytes m \<noteq> Some s" for s using some [of s] nil by auto
    then have "total_tensor_bytes m = None" by (cases "total_tensor_bytes m") blast+
    then show ?thesis using True by simp
  next
    case False
    then show ?thesis using some [of ?s] by auto
  qed
qed

end
