(* ===== verification/Gguf_Parse.thy ===== *)
theory Gguf_Parse
  imports Gguf_Model
begin

section \<open>Parsing a GGUF file\<close>

text \<open>
  \<open>crates/ramforge-core/src/gguf.rs\<close>: the reader, the metadata and tensor-info loops and
  \<open>parse_gguf_file\<close>, over the bytes of the file (opening it and I/O errors other than an early end are
  not modelled). A parser is a function from a reader to a value and the advanced reader, or an
  error. \<open>parser_local\<close> says that a parser consumes a prefix of the input and does not look beyond
  it; \<open>codec\<close> is the contract between an encoder and a parser of the same data, interpreted on
  every piece of the format, which gives the round trip of whole files.
\<close>

datatype gguf_error =
    InvalidMagic "byte list"
  | UnsupportedVersion nat
  | Truncated string
  | InvalidStringUtf8
  | InvalidMetadataType nat
  | InvalidStringLength u64
  | InvalidDimensionsCount nat
  | GeneralError string

abbreviation DEFAULT_ALIGNMENT :: u64 where "DEFAULT_ALIGNMENT \<equiv> 32"
abbreviation MAX_STRING_LEN :: u64 where "MAX_STRING_LEN \<equiv> 10485760"
abbreviation MAX_DIMENSIONS :: nat where "MAX_DIMENSIONS \<equiv> 8"
abbreviation MAX_KV_COUNT :: u64 where "MAX_KV_COUNT \<equiv> 100000"
abbreviation MAX_TENSOR_COUNT :: u64 where "MAX_TENSOR_COUNT \<equiv> 10000000"
abbreviation MAX_ARRAY_LEN :: u64 where "MAX_ARRAY_LEN \<equiv> 10000000"

definition GGUF_MAGIC :: "byte list" where
  "GGUF_MAGIC = [0x47, 0x47, 0x55, 0x46]"

subsection \<open>The reader\<close>

record reader =
  rd_rest :: "byte list"
  rd_pos :: u64

type_synonym 'a parser = "reader \<Rightarrow> ('a \<times> reader, gguf_error) result"

definition preturn :: "'a \<Rightarrow> 'a parser" where
  "preturn a r = Ok (a, r)"

definition pfail :: "gguf_error \<Rightarrow> 'a parser" where
  "pfail e r = Err e"

definition pbind :: "'a parser \<Rightarrow> ('a \<Rightarrow> 'b parser) \<Rightarrow> 'b parser" where
  "pbind p f r = rbind (p r) (\<lambda>(a, r'). f a r')"

definition position :: "u64 parser" where
  "position r = Ok (rd_pos r, r)"

definition read_exact :: "string \<Rightarrow> nat \<Rightarrow> byte list parser" where
  "read_exact m n r =
     (if n \<le> length (rd_rest r)
      then Ok (take n (rd_rest r), \<lparr>rd_rest = drop n (rd_rest r), rd_pos = rd_pos r + n\<rparr>)
      else Err (Truncated m))"

definition read_exact_bytes :: "nat \<Rightarrow> byte list parser" where
  "read_exact_bytes n = read_exact ''expected more bytes, got EOF'' n"

text \<open>\<open>from_le_bytes\<close>, as a number.\<close>

fun le_nat :: "byte list \<Rightarrow> nat" where
  "le_nat [] = 0"
| "le_nat (b # bs) = unat b + 256 * le_nat bs"

definition read_u8 :: "nat parser" where
  "read_u8 = pbind (read_exact ''unexpected EOF while reading u8'' 1) (\<lambda>bs. preturn (le_nat bs))"

definition read_u16_le :: "nat parser" where
  "read_u16_le = pbind (read_exact ''unexpected EOF while reading u16'' 2) (\<lambda>bs. preturn (le_nat bs))"

definition read_u32_le :: "nat parser" where
  "read_u32_le = pbind (read_exact ''unexpected EOF while reading u32'' 4) (\<lambda>bs. preturn (le_nat bs))"

definition read_u64_le :: "nat parser" where
  "read_u64_le = pbind (read_exact ''unexpected EOF while reading u64'' 8) (\<lambda>bs. preturn (le_nat bs))"

text \<open>The well-formed UTF-8 sequences, as \<open>String::from_utf8\<close> accepts them.\<close>

definition continuation :: "nat \<Rightarrow> bool" where
  "continuation b \<longleftrightarrow> 128 \<le> b \<and> b \<le> 191"

definition second_of_three :: "nat \<Rightarrow> nat \<Rightarrow> bool" where
  "second_of_three a b \<longleftrightarrow> (if a = 224 then 160 \<le> b \<and> b \<le> 191
     else if a = 237 then 128 \<le> b \<and> b \<le> 159 else continuation b)"

definition second_of_four :: "nat \<Rightarrow> nat \<Rightarrow> bool" where
  "second_of_four a b \<longleftrightarrow> (if a = 240 then 144 \<le> b \<and> b \<le> 191
     else if a = 244 then 128 \<le> b \<and> b \<le> 143 else continuation b)"

fun utf8_ok :: "nat list \<Rightarrow> bool" where
  "utf8_ok [] = True"
| "utf8_ok (a # r) =
     (if a < 128 then utf8_ok r
      else if 194 \<le> a \<and> a \<le> 223
      then (case r of b # r' \<Rightarrow> continuation b \<and> utf8_ok r' | [] \<Rightarrow> False)
      else if 224 \<le> a \<and> a \<le> 239
      then (case r of b # c # r' \<Rightarrow> second_of_three a b \<and> continuation c \<and> utf8_ok r' | _ \<Rightarrow> False)
      else if 240 \<le> a \<and> a \<le> 244
      then (case r of b # c # d # r' \<Rightarrow>
          second_of_four a b \<and> continuation c \<and> continuation d \<and> utf8_ok r' | _ \<Rightarrow> False)
      else False)"

definition string_of_bytes :: "byte list \<Rightarrow> string" where
  "string_of_bytes bs = map (\<lambda>b. char_of (unat b)) bs"

definition read_string :: "string parser" where
  "read_string =
     pbind read_u64_le (\<lambda>len.
       if MAX_STRING_LEN < len then pfail (InvalidStringLength len)
       else pbind (read_exact_bytes len) (\<lambda>bytes.
         if utf8_ok (map unat bytes) then preturn (string_of_bytes bytes)
         else pfail InvalidStringUtf8))"

fun read_metadata_value :: "gguf_value_type \<Rightarrow> metadata_value parser" where
  "read_metadata_value TUInt8 = pbind read_u8 (\<lambda>v. preturn (UInt8 (of_nat v)))"
| "read_metadata_value TInt8 = pbind read_u8 (\<lambda>v. preturn (Int8 (of_nat v)))"
| "read_metadata_value TUInt16 = pbind read_u16_le (\<lambda>v. preturn (UInt16 (of_nat v)))"
| "read_metadata_value TInt16 = pbind read_u16_le (\<lambda>v. preturn (Int16 (of_nat v)))"
| "read_metadata_value TUInt32 = pbind read_u32_le (\<lambda>v. preturn (UInt32 (of_nat v)))"
| "read_metadata_value TInt32 = pbind read_u32_le (\<lambda>v. preturn (Int32 (of_nat v)))"
| "read_metadata_value TFloat32 = pbind read_u32_le (\<lambda>v. preturn (Float32 (of_nat v)))"
| "read_metadata_value TBool = pbind read_u8 (\<lambda>v. preturn (Bool (v \<noteq> 0)))"
| "read_metadata_value TString = pbind read_string (\<lambda>s. preturn (String s))"
| "read_metadata_value TUInt64 = pbind read_u64_le (\<lambda>v. preturn (UInt64 (of_nat v)))"
| "read_metadata_value TInt64 = pbind read_u64_le (\<lambda>v. preturn (Int64 (of_nat v)))"
| "read_metadata_value TFloat64 = pbind read_u64_le (\<lambda>v. preturn (Float64 (of_nat v)))"
| "read_metadata_value TArray =
     pfail (GeneralError ''nested array type not expected in scalar value path'')"

text \<open>A counted loop that collects what it reads.\<close>

fun read_times :: "nat \<Rightarrow> 'a parser \<Rightarrow> 'a list parser" where
  "read_times 0 p = preturn []"
| "read_times (Suc n) p = pbind p (\<lambda>x. pbind (read_times n p) (\<lambda>xs. preturn (x # xs)))"

definition read_value_type :: "gguf_value_type parser" where
  "read_value_type =
     pbind read_u32_le (\<lambda>v. case value_type_from_u32 v of
         None \<Rightarrow> pfail (InvalidMetadataType v)
       | Some t \<Rightarrow> preturn t)"

definition read_array_value :: "metadata_value parser" where
  "read_array_value =
     pbind read_value_type (\<lambda>array_type.
       if array_type = TArray then pfail (GeneralError ''array of arrays is not supported'')
       else pbind read_u64_le (\<lambda>array_len.
         if MAX_ARRAY_LEN < array_len then pfail (GeneralError ''array length too large'')
         else pbind (read_times array_len
             (if array_type = TString then pbind read_string (\<lambda>s. preturn (String s))
              else read_metadata_value array_type))
           (\<lambda>values. preturn (Array array_type values))))"

subsection \<open>The file\<close>

definition read_kv :: "(string \<times> metadata_value) parser" where
  "read_kv =
     pbind read_string (\<lambda>key.
       pbind read_value_type (\<lambda>value_type.
         pbind (if value_type = TArray then read_array_value
                else if value_type = TString then pbind read_string (\<lambda>s. preturn (String s))
                else read_metadata_value value_type)
           (\<lambda>val. preturn (key, val))))"

definition insert_all :: "(string \<times> metadata_value) list \<Rightarrow> (string, metadata_value) omap" where
  "insert_all kvs = fold (\<lambda>(key, val). om_put key val) kvs []"

definition metadata_alignment :: "(string, metadata_value) omap \<Rightarrow> u64" where
  "metadata_alignment md =
     (case Option.bind (om_get md ''general.alignment'') as_u64 of
        Some a \<Rightarrow> a
      | None \<Rightarrow> DEFAULT_ALIGNMENT)"

type_synonym raw_tensor = "string \<times> u64 list \<times> nat \<times> u64"

definition read_tensor_info :: "raw_tensor parser" where
  "read_tensor_info =
     pbind read_string (\<lambda>name.
       pbind read_u32_le (\<lambda>n_dims.
         if MAX_DIMENSIONS < n_dims then pfail (InvalidDimensionsCount n_dims)
         else pbind (read_times n_dims read_u64_le) (\<lambda>dims.
           pbind read_u32_le (\<lambda>ty.
             pbind read_u64_le (\<lambda>offset. preturn (name, dims, ty, offset))))))"

text \<open>The element count saturates; \<open>U64_MAX\<close> elements have no known length.\<close>

fun checked_product :: "u64 \<Rightarrow> u64 list \<Rightarrow> u64 option" where
  "checked_product acc [] = Some acc"
| "checked_product acc (d # ds) =
     (case checked_mul acc d of None \<Rightarrow> None | Some a \<Rightarrow> checked_product a ds)"

definition element_count :: "u64 list \<Rightarrow> u64" where
  "element_count dims =
     (if dims = [] then 1 else case checked_product 1 dims of Some n \<Rightarrow> n | None \<Rightarrow> U64_MAX)"

definition div_ceil :: "u64 \<Rightarrow> u64 \<Rightarrow> u64" where
  "div_ceil a b = a div b + (if a mod b = 0 then 0 else 1)"

definition tensor_byte_length :: "ggml_type \<Rightarrow> u64 \<Rightarrow> u64 option" where
  "tensor_byte_length ty n =
     (case type_info ty of
        None \<Rightarrow> None
      | Some (block_size, type_size) \<Rightarrow>
          if n = U64_MAX then None else checked_mul (div_ceil n block_size) type_size)"

definition describe_tensor :: "u64 \<Rightarrow> raw_tensor \<Rightarrow> tensor_descriptor" where
  "describe_tensor data_start raw =
     (case raw of (name, dims, ty, offset) \<Rightarrow>
        let n = element_count dims in
        \<lparr>td_name = name, dimensions = dims, td_type = ggml_from_u32 ty, td_offset = offset,
         file_offset = wrapping_add data_start offset,
         byte_length = tensor_byte_length (ggml_from_u32 ty) n, num_elements = n\<rparr>)"

definition read_header :: "(nat \<times> u64 \<times> u64) parser" where
  "read_header =
     pbind (read_exact_bytes 4) (\<lambda>magic.
       if magic \<noteq> GGUF_MAGIC then pfail (InvalidMagic magic)
       else pbind read_u32_le (\<lambda>version.
         if version \<noteq> 1 \<and> version \<noteq> 2 \<and> version \<noteq> 3 then pfail (UnsupportedVersion version)
         else pbind read_u64_le (\<lambda>tensor_count.
           pbind read_u64_le (\<lambda>kv_count.
             if MAX_TENSOR_COUNT < tensor_count then pfail (GeneralError ''tensor count too large'')
             else if MAX_KV_COUNT < kv_count
             then pfail (GeneralError ''metadata kv count too large'')
             else preturn (version, tensor_count, kv_count)))))"

definition read_gguf :: "u64 \<Rightarrow> gguf_model parser" where
  "read_gguf size_of_file =
     pbind read_header (\<lambda>(version, tensor_count, kv_count).
       pbind (read_times kv_count read_kv) (\<lambda>kvs.
         let md = insert_all kvs; align = metadata_alignment md in
         pbind (read_times tensor_count read_tensor_info) (\<lambda>raws.
           pbind position (\<lambda>after_tensor_info.
             let data_start = align_offset after_tensor_info align in
             preturn \<lparr>file_size = size_of_file, gm_version = version, metadata = md,
               tensors = map (describe_tensor data_start) raws, alignment = align,
               data_start_offset = data_start\<rparr>))))"

definition parse_gguf_file :: "byte list \<Rightarrow> (gguf_model, gguf_error) result" where
  "parse_gguf_file bytes =
     rbind (read_gguf (length bytes) \<lparr>rd_rest = bytes, rd_pos = 0\<rparr>) (\<lambda>(m, _). Ok m)"

subsection \<open>Locality\<close>

text \<open>
  A local parser consumes a prefix of its input, and anything may follow that prefix. It never
  panics.
\<close>

abbreviation reader_at :: "byte list \<Rightarrow> u64 \<Rightarrow> reader" where
  "reader_at bs pos \<equiv> \<lparr>rd_rest = bs, rd_pos = pos\<rparr>"

definition parser_local :: "'a parser \<Rightarrow> bool" where
  "parser_local p \<longleftrightarrow>
     (\<forall>bs pos x r'. p (reader_at bs pos) = Ok (x, r') \<longrightarrow>
        (\<exists>k \<le> length bs. r' = reader_at (drop k bs) (pos + k) \<and>
           (\<forall>ys. p (reader_at (take k bs @ ys) pos) = Ok (x, reader_at ys (pos + k)))))
     \<and> (\<forall>r m. p r \<noteq> Panic m)"

named_theorems parser_intros \<open>locality of the parsers\<close>

lemma parser_localI:
  assumes "\<And>bs pos x r'. p (reader_at bs pos) = Ok (x, r') \<Longrightarrow>
      \<exists>k \<le> length bs. r' = reader_at (drop k bs) (pos + k) \<and>
         (\<forall>ys. p (reader_at (take k bs @ ys) pos) = Ok (x, reader_at ys (pos + k)))"
    and "\<And>r m. p r \<noteq> Panic m"
  shows "parser_local p"
  using assms unfolding parser_local_def by blast

lemma parser_localD:
  assumes "parser_local p" and "p (reader_at bs pos) = Ok (x, r')"
  obtains k where "k \<le> length bs" and "r' = reader_at (drop k bs) (pos + k)"
    and "\<And>ys. p (reader_at (take k bs @ ys) pos) = Ok (x, reader_at ys (pos + k))"
  using assms unfolding parser_local_def by blast

lemma parser_local_no_panic: "parser_local p \<Longrightarrow> p r \<noteq> Panic m"
  unfolding parser_local_def by blast

lemma local_return [parser_intros]: "parser_local (preturn a)"
  by (rule parser_localI) (auto simp: preturn_def)

lemma local_fail [parser_intros]: "parser_local (pfail e)"
  by (rule parser_localI) (auto simp: pfail_def)

lemma local_position [parser_intros]: "parser_local position"
  by (rule parser_localI) (auto simp: position_def)

lemma local_read_exact [parser_intros]: "parser_local (read_exact m n)"
  by (rule parser_localI)
    (auto simp: read_exact_def min_def split: if_splits intro!: exI [of _ n])

lemma local_bind [parser_intros]:
  assumes p: "parser_local p" and f: "\<And>a. parser_local (f a)"
  shows "parser_local (pbind p f)"
proof (rule parser_localI)
  fix r m
  show "pbind p f r \<noteq> Panic m"
    using parser_local_no_panic [OF p] parser_local_no_panic [OF f]
    by (auto simp: pbind_def rbind_eq_Panic)
next
  fix bs pos x r'
  assume "pbind p f (reader_at bs pos) = Ok (x, r')"
  then obtain a r1 where a: "p (reader_at bs pos) = Ok (a, r1)" and x: "f a r1 = Ok (x, r')"
    by (auto simp: pbind_def rbind_eq_Ok)
  obtain k where k: "k \<le> length bs" "r1 = reader_at (drop k bs) (pos + k)"
    "\<And>ys. p (reader_at (take k bs @ ys) pos) = Ok (a, reader_at ys (pos + k))"
    using parser_localD [OF p a] by blast
  obtain l where l: "l \<le> length (drop k bs)" "r' = reader_at (drop l (drop k bs)) (pos + k + l)"
    "\<And>ys. f a (reader_at (take l (drop k bs) @ ys) (pos + k)) = Ok (x, reader_at ys (pos + k + l))"
    using parser_localD [OF f x [unfolded k(2)]] by blast
  have "pbind p f (reader_at (take (k + l) bs @ ys) pos) = Ok (x, reader_at ys (pos + (k + l)))" for ys
    using k(3) [of "take l (drop k bs) @ ys"] l(3) [of ys]
    by (simp add: pbind_def take_add add.assoc)
  moreover have "r' = reader_at (drop (k + l) bs) (pos + (k + l))"
    using l(2) by (simp add: add.commute add.left_commute)
  ultimately show "\<exists>k \<le> length bs. r' = reader_at (drop k bs) (pos + k) \<and>
      (\<forall>ys. pbind p f (reader_at (take k bs @ ys) pos) = Ok (x, reader_at ys (pos + k)))"
    using k(1) l(1) by (intro exI [of _ "k + l"]) auto
qed

lemma local_if [parser_intros]:
  "(c \<Longrightarrow> parser_local p) \<Longrightarrow> (\<not> c \<Longrightarrow> parser_local q) \<Longrightarrow> parser_local (if c then p else q)"
  by simp

lemma local_option [parser_intros]:
  "parser_local p \<Longrightarrow> (\<And>a. parser_local (f a)) \<Longrightarrow> parser_local (case x of None \<Rightarrow> p | Some a \<Rightarrow> f a)"
  by (cases x) simp_all

lemma local_prod [parser_intros]:
  "(\<And>a b. parser_local (f a b)) \<Longrightarrow> parser_local (case x of (a, b) \<Rightarrow> f a b)"
  by (cases x) simp

lemma local_times [parser_intros]: "parser_local p \<Longrightarrow> parser_local (read_times n p)"
  by (induction n) (auto intro!: parser_intros)

lemma local_numbers [parser_intros]:
  "parser_local read_u8" "parser_local read_u16_le" "parser_local read_u32_le" "parser_local read_u64_le"
  unfolding read_u8_def read_u16_le_def read_u32_le_def read_u64_le_def
  by (intro parser_intros)+

lemma local_string [parser_intros]: "parser_local read_string"
  unfolding read_string_def read_exact_bytes_def by (intro parser_intros)

lemma local_value [parser_intros]: "parser_local (read_metadata_value t)"
  by (cases t) (auto intro!: parser_intros)

lemma local_value_type [parser_intros]: "parser_local read_value_type"
  unfolding read_value_type_def by (intro parser_intros)

lemma local_array [parser_intros]: "parser_local read_array_value"
  unfolding read_array_value_def by (intro parser_intros)

lemma local_kv [parser_intros]: "parser_local read_kv"
  unfolding read_kv_def by (intro parser_intros)

lemma local_tensor_info [parser_intros]: "parser_local read_tensor_info"
  unfolding read_tensor_info_def by (intro parser_intros)

lemma local_header [parser_intros]: "parser_local read_header"
  unfolding read_header_def read_exact_bytes_def by (intro parser_intros)

lemma local_gguf [parser_intros]: "parser_local (read_gguf n)"
  unfolding read_gguf_def Let_def by (intro parser_intros)

subsection \<open>Encoders and parsers\<close>

locale codec =
  fixes enc :: "'a \<Rightarrow> byte list"
    and dec :: "'a parser"
    and valid :: "'a \<Rightarrow> bool"
  assumes dec_local: "parser_local dec"
    and dec_enc: "valid x \<Longrightarrow> dec (reader_at (enc x) pos) = Ok (x, reader_at [] (pos + length (enc x)))"
begin

text \<open>Whatever follows an encoded value, the parser reads the value and stops after it.\<close>

lemma dec_enc_rest:
  assumes "valid x"
  shows "dec (reader_at (enc x @ ys) pos) = Ok (x, reader_at ys (pos + length (enc x)))"
proof -
  obtain k where k: "k \<le> length (enc x)"
    "reader_at [] (pos + length (enc x)) = reader_at (drop k (enc x)) (pos + k)"
    "\<And>ys. dec (reader_at (take k (enc x) @ ys) pos) = Ok (x, reader_at ys (pos + k))"
    using parser_localD [OF dec_local dec_enc [OF assms]] by blast
  then have "k = length (enc x)" by simp
  then show ?thesis using k(3) [of ys] by simp
qed

text \<open>A truncated encoding is an error, never another value.\<close>

lemma dec_truncated:
  assumes "valid x" and "n < length (enc x)"
  shows "\<exists>e. dec (reader_at (take n (enc x)) pos) = Err e"
proof (cases "dec (reader_at (take n (enc x)) pos)")
  case (Ok p)
  obtain y r' where p: "p = (y, r')" by (cases p)
  obtain k where k: "k \<le> length (take n (enc x))"
    "\<And>ys. dec (reader_at (take k (take n (enc x)) @ ys) pos) = Ok (y, reader_at ys (pos + k))"
    using parser_localD [OF dec_local Ok [unfolded p]] by blast
  have "take k (take n (enc x)) = take k (enc x)" using k(1) by simp
  then have "dec (reader_at (enc x) pos) = Ok (y, reader_at (drop k (enc x)) (pos + k))"
    using k(2) [of "drop k (enc x)"] by simp
  then have "drop k (enc x) = []" using dec_enc [OF assms(1), of pos] by auto
  then show ?thesis using k(1) assms(2) by simp
next
  case (Panic m)
  then show ?thesis using parser_local_no_panic [OF dec_local] by blast
qed blast

lemma read_times_enc:
  "(\<forall>x \<in> set xs. valid x) \<Longrightarrow> read_times (length xs) dec (reader_at (concat (map enc xs) @ ys) pos) =
    Ok (xs, reader_at ys (pos + length (concat (map enc xs))))"
  by (induction xs arbitrary: pos)
    (simp_all add: preturn_def pbind_def dec_enc_rest add.assoc)

end

lemma le_nat_le_bytes: "le_nat (le_bytes n v) = v mod 256 ^ n"
proof (induction n arbitrary: v)
  case (Suc n)
  have "unat (of_nat (v mod 256) :: byte) = v mod 256"
    by (simp add: unat_of_nat take_bit_eq_mod)
  then show ?case using Suc [of "v div 256"] mod_mult2_eq [of v 256 "256 ^ n"] by simp
qed simp

lemma read_number:
  "v < 256 ^ n \<Longrightarrow> pbind (read_exact m n) (\<lambda>bs. preturn (le_nat bs)) (reader_at (le_bytes n v @ ys) pos) =
    Ok (v, reader_at ys (pos + n))"
  by (simp add: pbind_def preturn_def read_exact_def le_nat_le_bytes)

interpretation u8: codec "le_bytes 1" read_u8 "\<lambda>v. v < 2 ^ 8"
  by unfold_locales (use read_number [of _ 1 _ "[]"] in \<open>simp_all add: parser_intros read_u8_def\<close>)

interpretation u16: codec "le_bytes 2" read_u16_le "\<lambda>v. v < 2 ^ 16"
  by unfold_locales (use read_number [of _ 2 _ "[]"] in \<open>simp_all add: parser_intros read_u16_le_def\<close>)

interpretation u32: codec "le_bytes 4" read_u32_le "\<lambda>v. v < 2 ^ 32"
  by unfold_locales (use read_number [of _ 4 _ "[]"] in \<open>simp_all add: parser_intros read_u32_le_def\<close>)

interpretation u64: codec "le_bytes 8" read_u64_le "\<lambda>v. v < 2 ^ 64"
  by unfold_locales (use read_number [of _ 8 _ "[]"] in \<open>simp_all add: parser_intros read_u64_le_def\<close>)

subsection \<open>Strings and values\<close>

definition bytes_of_string :: "string \<Rightarrow> byte list" where
  "bytes_of_string s = map (\<lambda>c. of_nat (of_char c)) s"

definition enc_string :: "string \<Rightarrow> byte list" where
  "enc_string s = le_bytes 8 (length s) @ bytes_of_string s"

definition valid_string :: "string \<Rightarrow> bool" where
  "valid_string s \<longleftrightarrow> length s \<le> MAX_STRING_LEN \<and> utf8_ok (map of_char s)"

lemma length_bytes_of_string [simp]: "length (bytes_of_string s) = length s"
  by (simp add: bytes_of_string_def)

lemma unat_of_char: "unat (of_nat (of_char c) :: byte) = of_char c"
  by (simp add: unat_of_nat take_bit_eq_mod)

lemma string_of_bytes_of_string: "string_of_bytes (bytes_of_string s) = s"
  by (simp add: string_of_bytes_def bytes_of_string_def comp_def unat_of_char)

interpretation str: codec enc_string read_string valid_string
proof
  show "parser_local read_string" by (rule local_string)
  fix s pos assume v: "valid_string s"
  then have len: "length s < 2 ^ 64" by (simp add: valid_string_def)
  have "map unat (bytes_of_string s) = map of_char s"
    by (simp add: bytes_of_string_def comp_def unat_of_char)
  then show "read_string (reader_at (enc_string s) pos) = Ok (s, reader_at [] (pos + length (enc_string s)))"
    using v u64.dec_enc_rest [OF len, of "bytes_of_string s" pos]
    by (simp add: read_string_def pbind_def enc_string_def valid_string_def read_exact_bytes_def
        read_exact_def preturn_def string_of_bytes_of_string)
qed

fun value_tag :: "metadata_value \<Rightarrow> gguf_value_type" where
  "value_tag (UInt8 _) = TUInt8"
| "value_tag (Int8 _) = TInt8"
| "value_tag (UInt16 _) = TUInt16"
| "value_tag (Int16 _) = TInt16"
| "value_tag (UInt32 _) = TUInt32"
| "value_tag (Int32 _) = TInt32"
| "value_tag (Float32 _) = TFloat32"
| "value_tag (Bool _) = TBool"
| "value_tag (String _) = TString"
| "value_tag (Array _ _) = TArray"
| "value_tag (UInt64 _) = TUInt64"
| "value_tag (Int64 _) = TInt64"
| "value_tag (Float64 _) = TFloat64"

fun enc_value :: "metadata_value \<Rightarrow> byte list" where
  "enc_value (UInt8 v) = le_bytes 1 (unat v)"
| "enc_value (Int8 v) = le_bytes 1 (unat v)"
| "enc_value (UInt16 v) = le_bytes 2 (unat v)"
| "enc_value (Int16 v) = le_bytes 2 (unat v)"
| "enc_value (UInt32 v) = le_bytes 4 (unat v)"
| "enc_value (Int32 v) = le_bytes 4 (unat v)"
| "enc_value (Float32 v) = le_bytes 4 (unat v)"
| "enc_value (Bool b) = le_bytes 1 (if b then 1 else 0)"
| "enc_value (String s) = enc_string s"
| "enc_value (UInt64 v) = le_bytes 8 (unat v)"
| "enc_value (Int64 v) = le_bytes 8 (unat v)"
| "enc_value (Float64 v) = le_bytes 8 (unat v)"
| "enc_value (Array t vs) =
     le_bytes 4 (value_type_tag t) @ le_bytes 8 (length vs) @ concat (map enc_value vs)"

definition valid_scalar :: "gguf_value_type \<Rightarrow> metadata_value \<Rightarrow> bool" where
  "valid_scalar t v \<longleftrightarrow> t \<noteq> TArray \<and> value_tag v = t
     \<and> (case v of String s \<Rightarrow> valid_string s | _ \<Rightarrow> True)"

definition valid_value :: "metadata_value \<Rightarrow> bool" where
  "valid_value v \<longleftrightarrow>
     (case v of
        Array t vs \<Rightarrow> length vs \<le> MAX_ARRAY_LEN \<and> t \<noteq> TArray \<and> (\<forall>x \<in> set vs. valid_scalar t x)
      | _ \<Rightarrow> valid_scalar (value_tag v) v)"

lemma unat_bounds:
  "unat (v :: 8 word) < 2 ^ 8" "unat (w :: 16 word) < 2 ^ 16" "unat (x :: 32 word) < 2 ^ 32"
  "unat (y :: 64 word) < 2 ^ 64"
  using unsigned_less [of v] unsigned_less [of w] unsigned_less [of x] unsigned_less [of y]
  by simp_all

interpretation scalar: codec enc_value "read_metadata_value t" "valid_scalar t" for t
proof
  show "parser_local (read_metadata_value t)" by (rule local_value)
  fix v pos assume v: "valid_scalar t v"
  then have t: "t = value_tag v" "t \<noteq> TArray" by (auto simp: valid_scalar_def)
  show "read_metadata_value t (reader_at (enc_value v) pos) =
      Ok (v, reader_at [] (pos + length (enc_value v)))"
    unfolding t(1) using v t(2)
      u8.dec_enc [OF unat_bounds(1)] u16.dec_enc [OF unat_bounds(2)] u32.dec_enc [OF unat_bounds(3)]
      u64.dec_enc [OF unat_bounds(4)] str.dec_enc u8.dec_enc [of 0] u8.dec_enc [of 1]
    by (cases v) (simp_all add: pbind_def preturn_def valid_scalar_def)
qed

lemma read_value_type_tag:
  "read_value_type (reader_at (le_bytes 4 (value_type_tag t) @ ys) pos) = Ok (t, reader_at ys (pos + 4))"
  using u32.dec_enc_rest [of "value_type_tag t"] value_type_tag_less [of t]
  by (simp add: read_value_type_def pbind_def preturn_def)

lemma array_element_parser:
  "(if t = TString then pbind read_string (\<lambda>s. preturn (String s)) else read_metadata_value t) =
    read_metadata_value t"
  by simp

text \<open>What the loop over the metadata reads after the type: an array or a scalar.\<close>

definition read_typed_value :: "gguf_value_type \<Rightarrow> metadata_value parser" where
  "read_typed_value t =
     (if t = TArray then read_array_value
      else if t = TString then pbind read_string (\<lambda>s. preturn (String s))
      else read_metadata_value t)"

lemma local_typed_value [parser_intros]: "parser_local (read_typed_value t)"
  unfolding read_typed_value_def by (intro parser_intros)

lemma read_array_enc:
  assumes "valid_value (Array t vs)"
  shows "read_array_value (reader_at (enc_value (Array t vs)) pos) =
    Ok (Array t vs, reader_at [] (pos + length (enc_value (Array t vs))))"
proof -
  have v: "length vs \<le> MAX_ARRAY_LEN" "t \<noteq> TArray" "\<forall>x \<in> set vs. valid_scalar t x"
    using assms by (simp_all add: valid_value_def)
  then have len: "length vs < 2 ^ 64" by simp
  show ?thesis
    using v read_value_type_tag u64.dec_enc_rest [OF len]
      scalar.read_times_enc [OF v(3), of "[]" "pos + 4 + 8"]
    by (simp add: read_array_value_def pbind_def preturn_def array_element_parser add.assoc)
qed

interpretation typed: codec enc_value "read_typed_value t" "\<lambda>v. value_tag v = t \<and> valid_value v" for t
proof
  show "parser_local (read_typed_value t)" by (rule local_typed_value)
  fix v pos assume v: "value_tag v = t \<and> valid_value v"
  show "read_typed_value t (reader_at (enc_value v) pos) =
      Ok (v, reader_at [] (pos + length (enc_value v)))"
  proof (cases "t = TArray")
    case True
    with v obtain u vs where "v = Array u vs" by (cases v) simp_all
    then show ?thesis using read_array_enc v True by (simp add: read_typed_value_def)
  next
    case False
    then have "valid_scalar t v" using v by (cases v) (simp_all add: valid_value_def)
    then show ?thesis
      using scalar.dec_enc False by (simp add: read_typed_value_def array_element_parser)
  qed
qed

subsection \<open>Entries and the file\<close>

definition enc_kv :: "string \<times> metadata_value \<Rightarrow> byte list" where
  "enc_kv kv = (case kv of (key, v) \<Rightarrow>
     enc_string key @ le_bytes 4 (value_type_tag (value_tag v)) @ enc_value v)"

definition valid_kv :: "string \<times> metadata_value \<Rightarrow> bool" where
  "valid_kv kv \<longleftrightarrow> valid_string (fst kv) \<and> valid_value (snd kv)"

interpretation kv: codec enc_kv read_kv valid_kv
proof
  show "parser_local read_kv" by (rule local_kv)
  fix p pos assume v: "valid_kv p"
  obtain key val where p: "p = (key, val)" by (cases p)
  have def: "read_kv = pbind read_string (\<lambda>key. pbind read_value_type (\<lambda>t.
      pbind (read_typed_value t) (\<lambda>val. preturn (key, val))))"
    by (simp add: read_kv_def read_typed_value_def)
  have "valid_string key" and "value_tag val = value_tag val \<and> valid_value val"
    using v by (simp_all add: p valid_kv_def)
  then show "read_kv (reader_at (enc_kv p) pos) = Ok (p, reader_at [] (pos + length (enc_kv p)))"
    using str.dec_enc_rest read_value_type_tag typed.dec_enc
    by (simp add: def pbind_def preturn_def enc_kv_def p add.assoc)
qed

definition enc_tensor :: "raw_tensor \<Rightarrow> byte list" where
  "enc_tensor raw = (case raw of (name, dims, ty, offset) \<Rightarrow>
     enc_string name @ le_bytes 4 (length dims) @ concat (map (le_bytes 8) dims)
       @ le_bytes 4 ty @ le_bytes 8 offset)"

definition valid_tensor :: "raw_tensor \<Rightarrow> bool" where
  "valid_tensor raw \<longleftrightarrow> (case raw of (name, dims, ty, offset) \<Rightarrow>
     valid_string name \<and> length dims \<le> MAX_DIMENSIONS \<and> (\<forall>d \<in> set dims. d < 2 ^ 64)
     \<and> ty < 2 ^ 32 \<and> offset < 2 ^ 64)"

interpretation tensor: codec enc_tensor read_tensor_info valid_tensor
proof
  show "parser_local read_tensor_info" by (rule local_tensor_info)
  fix raw pos assume v: "valid_tensor raw"
  obtain name dims ty offset where raw: "raw = (name, dims, ty, offset)" by (cases raw)
  have v': "valid_string name" "length dims \<le> MAX_DIMENSIONS" "\<forall>d \<in> set dims. d < 2 ^ 64"
    "ty < 2 ^ 32" "offset < 2 ^ 64" using v by (simp_all add: raw valid_tensor_def)
  then have len: "length dims < 2 ^ 32" by simp
  have "length (concat (map (le_bytes 8) dims)) = 8 * length dims" for dims
    by (induction dims) simp_all
  then show "read_tensor_info (reader_at (enc_tensor raw) pos) =
      Ok (raw, reader_at [] (pos + length (enc_tensor raw)))"
    using v'(2) str.dec_enc_rest [OF v'(1)] u32.dec_enc_rest [OF len] u64.read_times_enc [OF v'(3)]
      u32.dec_enc_rest [OF v'(4)] u64.dec_enc [OF v'(5)]
    by (simp add: read_tensor_info_def pbind_def preturn_def enc_tensor_def raw add.assoc)
qed

type_synonym gguf_contents = "nat \<times> (string \<times> metadata_value) list \<times> raw_tensor list"

definition enc_header :: "nat \<times> u64 \<times> u64 \<Rightarrow> byte list" where
  "enc_header h = (case h of (version, tensor_count, kv_count) \<Rightarrow>
     GGUF_MAGIC @ le_bytes 4 version @ le_bytes 8 tensor_count @ le_bytes 8 kv_count)"

definition valid_header :: "nat \<times> u64 \<times> u64 \<Rightarrow> bool" where
  "valid_header h \<longleftrightarrow> fst h \<in> {1, 2, 3} \<and> fst (snd h) \<le> MAX_TENSOR_COUNT \<and> snd (snd h) \<le> MAX_KV_COUNT"

interpretation header: codec enc_header read_header valid_header
proof
  show "parser_local read_header" by (rule local_header)
  fix h pos assume v: "valid_header h"
  obtain version tc kc where h: "h = (version, tc, kc)" by (cases h)
  have v': "version < 2 ^ 32" "tc < 2 ^ 64" "kc < 2 ^ 64" "version \<in> {1, 2, 3}"
    "tc \<le> MAX_TENSOR_COUNT" "kc \<le> MAX_KV_COUNT" using v by (auto simp: h valid_header_def)
  show "read_header (reader_at (enc_header h) pos) = Ok (h, reader_at [] (pos + length (enc_header h)))"
    using v'(4-6) u32.dec_enc_rest [OF v'(1)] u64.dec_enc_rest [OF v'(2)] u64.dec_enc [OF v'(3)]
    by (auto simp: read_header_def pbind_def preturn_def enc_header_def h read_exact_bytes_def
        read_exact_def GGUF_MAGIC_def)
qed

definition enc_contents :: "gguf_contents \<Rightarrow> byte list" where
  "enc_contents f = (case f of (version, kvs, raws) \<Rightarrow>
     enc_header (version, length raws, length kvs) @ concat (map enc_kv kvs)
       @ concat (map enc_tensor raws))"

definition valid_contents :: "gguf_contents \<Rightarrow> bool" where
  "valid_contents f \<longleftrightarrow> (case f of (version, kvs, raws) \<Rightarrow>
     valid_header (version, length raws, length kvs) \<and> (\<forall>kv \<in> set kvs. valid_kv kv)
     \<and> (\<forall>raw \<in> set raws. valid_tensor raw))"

definition read_contents :: "gguf_contents parser" where
  "read_contents =
     pbind read_header (\<lambda>(version, tensor_count, kv_count).
       pbind (read_times kv_count read_kv) (\<lambda>kvs.
         pbind (read_times tensor_count read_tensor_info) (\<lambda>raws. preturn (version, kvs, raws))))"

lemma local_contents [parser_intros]: "parser_local read_contents"
  unfolding read_contents_def by (intro parser_intros)

interpretation contents: codec enc_contents read_contents valid_contents
proof
  show "parser_local read_contents" by (rule local_contents)
  fix f pos assume v: "valid_contents f"
  obtain version kvs raws where f: "f = (version, kvs, raws)" by (cases f)
  have v': "valid_header (version, length raws, length kvs)" "\<forall>kv \<in> set kvs. valid_kv kv"
    "\<forall>raw \<in> set raws. valid_tensor raw" using v by (simp_all add: f valid_contents_def)
  show "read_contents (reader_at (enc_contents f) pos) = Ok (f, reader_at [] (pos + length (enc_contents f)))"
    using header.dec_enc_rest [OF v'(1)] kv.read_times_enc [OF v'(2)]
      tensor.read_times_enc [OF v'(3), of "[]"]
    by (simp add: read_contents_def pbind_def preturn_def enc_contents_def f add.assoc)
qed

text \<open>The model made of the contents and the position after them.\<close>

definition model_of :: "u64 \<Rightarrow> gguf_contents \<Rightarrow> u64 \<Rightarrow> gguf_model" where
  "model_of size_of_file f after =
     (case f of (version, kvs, raws) \<Rightarrow>
        let md = insert_all kvs; data_start = align_offset after (metadata_alignment md) in
        \<lparr>file_size = size_of_file, gm_version = version, metadata = md,
         tensors = map (describe_tensor data_start) raws, alignment = metadata_alignment md,
         data_start_offset = data_start\<rparr>)"

lemma pbind_assoc: "pbind (pbind p f) g = pbind p (\<lambda>a. pbind (f a) g)"
  by (rule ext) (simp add: pbind_def rbind_assoc case_prod_unfold)

lemma pbind_return: "pbind (preturn a) f = f a"
  by (rule ext) (simp add: pbind_def preturn_def)

lemma read_gguf_contents:
  "read_gguf n = pbind read_contents (\<lambda>f. pbind position (\<lambda>p. preturn (model_of n f p)))"
  by (simp add: read_gguf_def read_contents_def pbind_assoc pbind_return case_prod_beta' model_of_def
      Let_def)

lemma parse_result:
  "parse_gguf_file bytes =
    rbind (read_contents (reader_at bytes 0)) (\<lambda>(f, r). Ok (model_of (length bytes) f (rd_pos r)))"
  by (simp add: parse_gguf_file_def read_gguf_contents pbind_def position_def preturn_def rbind_assoc
      case_prod_beta')

lemma om_fold_put:
  "om_ok m \<Longrightarrow> om_ok (fold (\<lambda>(k, v). om_put k v) kvs m) \<and>
    om_get (fold (\<lambda>(k, v). om_put k v) kvs m) = om_get m ++ map_of (rev kvs)"
proof (induction kvs arbitrary: m)
  case (Cons kv kvs)
  obtain k v where kv: "kv = (k, v)" by (cases kv)
  show ?case using Cons by (auto simp: kv map_add_def fun_eq_iff split: option.splits)
qed (simp add: map_add_def)

lemma insert_all_get: "om_get (insert_all kvs) = map_of (rev kvs)"
  using om_fold_put [of "[]" kvs] by (auto simp: insert_all_def map_add_def fun_eq_iff split: option.splits)

subsection \<open>Tensor sizes\<close>

lemma checked_product_exact:
  "0 \<notin> set dims \<Longrightarrow> 0 < acc \<Longrightarrow> acc \<le> U64_MAX \<Longrightarrow>
    checked_product acc dims = (if acc * prod_list dims \<le> U64_MAX then Some (acc * prod_list dims) else None)"
proof (induction acc dims rule: checked_product.induct)
  case (2 acc d ds)
  show ?case
  proof (cases "acc * d \<le> U64_MAX")
    case True
    then show ?thesis using 2 by (simp add: checked_mul_def mult.assoc)
  next
    case False
    have "prod_list ds \<noteq> 0" using 2(2) by (simp add: prod_list_zero_iff)
    then have "acc * d \<le> acc * d * prod_list ds" by simp
    with False have "\<not> acc * d * prod_list ds \<le> U64_MAX" by linarith
    then show ?thesis using False by (simp add: checked_mul_def mult.assoc)
  qed
qed simp

lemma div_ceil_least:
  assumes "0 < b"
  shows "n \<le> div_ceil n b * b" and "n \<le> q * b \<Longrightarrow> div_ceil n b \<le> q"
proof -
  have n: "n = n div b * b + n mod b" by simp
  have r: "n mod b < b" using assms by simp
  show "n \<le> div_ceil n b * b"
  proof (cases "n mod b = 0")
    case True
    then show ?thesis using n by (simp add: div_ceil_def)
  next
    case False
    have "n \<le> n div b * b + b" using n r by linarith
    then show ?thesis using False by (simp add: div_ceil_def add_mult_distrib)
  qed
  assume le: "n \<le> q * b"
  show "div_ceil n b \<le> q"
  proof (cases "n mod b = 0")
    case True
    then have "n div b * b \<le> q * b" using le n by simp
    then show ?thesis using True assms by (simp add: div_ceil_def)
  next
    case False
    then have "n div b * b < q * b" using le n by linarith
    then have "n div b < q" by (simp add: mult_less_cancel2)
    then show ?thesis using False by (simp add: div_ceil_def)
  qed
qed

subsection \<open>Properties\<close>

text \<open>
  C9: the parser reads back what the format's encoding writes. For any version, metadata entries and
  tensor infos within the limits, followed by any payload, \<open>parse_gguf_file\<close> succeeds; the model has
  exactly those tensors and, for a repeated key, the last value; the data section starts at the end
  of the tensor infos rounded up to the alignment.
\<close>

theorem parse_encoded_file:
  assumes "valid_contents (version, kvs, raws)"
  shows "\<exists>m. parse_gguf_file (enc_contents (version, kvs, raws) @ payload) = Ok m
    \<and> gm_version m = version
    \<and> om_get (metadata m) = map_of (rev kvs)
    \<and> tensors m = map (describe_tensor (data_start_offset m)) raws
    \<and> alignment m = (case Option.bind (map_of (rev kvs) ''general.alignment'') as_u64 of
        Some a \<Rightarrow> a | None \<Rightarrow> 32)
    \<and> data_start_offset m = align_offset (length (enc_contents (version, kvs, raws))) (alignment m)
    \<and> file_size m = length (enc_contents (version, kvs, raws)) + length payload"
  using contents.dec_enc_rest [OF assms, of payload 0]
  by (simp add: parse_result model_of_def Let_def insert_all_get metadata_alignment_def)

theorem parse_encoded_file_witness:
  "\<exists>m. parse_gguf_file (enc_contents (3, [(''general.alignment'', UInt32 64)],
       [(''w'', [2, 4], 0, 0)]) @ [7, 7]) = Ok m
     \<and> alignment m = 64 \<and> map num_elements (tensors m) = [8]"
proof -
  have "valid_contents (3, [(''general.alignment'', UInt32 64)], [(''w'', [2, 4], 0, 0)])"
    by (simp add: valid_contents_def valid_header_def valid_kv_def valid_string_def valid_value_def
        valid_scalar_def valid_tensor_def)
  from parse_encoded_file [OF this, of "[7, 7]"] obtain m where
    m: "parse_gguf_file (enc_contents (3, [(''general.alignment'', UInt32 64)],
       [(''w'', [2, 4], 0, 0)]) @ [7, 7]) = Ok m"
    "tensors m = map (describe_tensor (data_start_offset m)) [(''w'', [2, 4], 0, 0)]"
    "alignment m = (case Option.bind (map_of (rev [(''general.alignment'', UInt32 64)])
        ''general.alignment'') as_u64 of Some a \<Rightarrow> a | None \<Rightarrow> 32)" by blast
  have "num_elements (describe_tensor d (''w'', [2, 4], 0, 0)) = 8" for d
    by (simp add: describe_tensor_def element_count_def checked_mul_def U64_MAX_def Let_def)
  with m show ?thesis by (intro exI [of _ m]) simp
qed

text \<open>
  A file cut anywhere before the end of its tensor infos is rejected: no truncated header,
  string, array or tensor table is taken for another one.
\<close>

theorem truncated_file_rejected:
  assumes "valid_contents f" and "n < length (enc_contents f)"
  shows "\<exists>e. parse_gguf_file (take n (enc_contents f)) = Err e"
  using contents.dec_truncated [OF assms, of 0] by (auto simp: parse_result)

theorem truncated_file_rejected_witness:
  "\<exists>e. parse_gguf_file (take 20 (enc_contents (3, [], []))) = Err e"
proof -
  have "valid_contents (3, [], [])" by (simp add: valid_contents_def valid_header_def)
  then show ?thesis
    using truncated_file_rejected [of "(3, [], [])" 20]
    by (simp add: enc_contents_def enc_header_def GGUF_MAGIC_def)
qed

text \<open>
  Parsing does not look at the tensor data. When a file parses, the bytes up to some position
  determine everything but the recorded file size, the data section starts at that position
  rounded up to the alignment, and parsing never panics.
\<close>

theorem parse_ignores_payload:
  assumes "parse_gguf_file bytes = Ok m"
  shows "\<exists>k \<le> length bytes. data_start_offset m = align_offset k (alignment m)
    \<and> (\<forall>payload. parse_gguf_file (take k bytes @ payload) = Ok (m\<lparr>file_size := k + length payload\<rparr>))
    \<and> (\<forall>any p. parse_gguf_file any \<noteq> Panic p)"
proof -
  from assms obtain f r where r: "read_contents (reader_at bytes 0) = Ok (f, r)"
    and m: "m = model_of (length bytes) f (rd_pos r)"
    by (auto simp: parse_result rbind_eq_Ok)
  obtain k where k: "k \<le> length bytes" "r = reader_at (drop k bytes) (0 + k)"
    "\<And>ys. read_contents (reader_at (take k bytes @ ys) 0) = Ok (f, reader_at ys (0 + k))"
    using parser_localD [OF local_contents r] by blast
  have "parse_gguf_file (take k bytes @ payload) = Ok (m\<lparr>file_size := k + length payload\<rparr>)" for payload
    using k(1,2) k(3) [of payload] m
    by (simp add: parse_result model_of_def Let_def case_prod_beta)
  moreover have "data_start_offset m = align_offset k (alignment m)"
    using m k(2) by (simp add: model_of_def Let_def case_prod_beta)
  moreover have "parse_gguf_file any \<noteq> Panic p" for any p
    using parser_local_no_panic [OF local_contents] by (auto simp: parse_result rbind_eq_Panic)
  ultimately show ?thesis using k(1) by blast
qed

theorem parse_ignores_payload_witness:
  "\<exists>m k. parse_gguf_file (enc_contents (3, [], [])) = Ok m \<and> data_start_offset m = align_offset k 32"
proof -
  have run: "parse_gguf_file (enc_contents (3, [], [])) = Ok (model_of 24 (3, [], []) 24)"
    using contents.dec_enc [of "(3, [], [])" 0]
    by (simp add: parse_result valid_contents_def valid_header_def enc_contents_def enc_header_def
        GGUF_MAGIC_def)
  have "alignment (model_of 24 (3, [], []) 24) = 32"
    by (simp add: model_of_def Let_def insert_all_def metadata_alignment_def)
  with parse_ignores_payload [OF run] run show ?thesis by metis
qed

text \<open>
  C10: the descriptor of a tensor. With positive dimensions the element count is their product,
  saturated at the largest \<open>u64\<close>; for a known type the byte length is the least number of whole
  blocks that hold the elements times the block size, or unknown when it is no \<open>u64\<close>. The file
  offset is the sum of data start and tensor offset, but only when that sum is a \<open>u64\<close>: beyond, it
  wraps and lies before the data section.
\<close>

theorem tensor_descriptor_sizes:
  assumes "0 \<notin> set dims" and "data_start \<le> U64_MAX" and "offset \<le> U64_MAX"
    and "t = describe_tensor data_start (name, dims, ty, offset)"
  shows "num_elements t = min (prod_list dims) U64_MAX
    \<and> (case type_info (td_type t) of
        None \<Rightarrow> byte_length t = None
      | Some (b, s) \<Rightarrow> \<exists>q. num_elements t \<le> q * b \<and> (\<forall>q'. num_elements t \<le> q' * b \<longrightarrow> q \<le> q')
          \<and> byte_length t = (if num_elements t = U64_MAX \<or> U64_MAX < q * s then None else Some (q * s)))
    \<and> (if data_start + offset \<le> U64_MAX then file_offset t = data_start + offset
       else file_offset t < data_start)"
proof (intro conjI)
  have "1 \<le> U64_MAX" by (simp add: U64_MAX_def)
  then show "num_elements t = min (prod_list dims) U64_MAX"
    using checked_product_exact [OF assms(1), of 1]
    by (auto simp: assms(4) describe_tensor_def Let_def element_count_def min_def)
  show "if data_start + offset \<le> U64_MAX then file_offset t = data_start + offset
       else file_offset t < data_start"
  proof (cases "data_start + offset \<le> U64_MAX")
    case True
    then show ?thesis by (simp add: assms(4) describe_tensor_def Let_def wrapping_add_exact)
  next
    case False
    then have "(data_start + offset) mod 2 ^ 64 = data_start + offset - 2 ^ 64"
      using assms(2,3) by (subst le_mod_geq) (simp_all add: U64_MAX_def)
    then show ?thesis
      using False assms(2,3) by (simp add: assms(4) describe_tensor_def Let_def wrapping_add_def U64_MAX_def)
  qed
  show "case type_info (td_type t) of
        None \<Rightarrow> byte_length t = None
      | Some (b, s) \<Rightarrow> \<exists>q. num_elements t \<le> q * b \<and> (\<forall>q'. num_elements t \<le> q' * b \<longrightarrow> q \<le> q')
          \<and> byte_length t = (if num_elements t = U64_MAX \<or> U64_MAX < q * s then None else Some (q * s))"
  proof (cases "type_info (td_type t)")
    case None
    then show ?thesis by (simp add: assms(4) describe_tensor_def Let_def tensor_byte_length_def)
  next
    case (Some p)
    obtain b s where p: "p = (b, s)" by (cases p)
    have b: "0 < b" using type_info_pos Some p by blast
    have "byte_length t = (if num_elements t = U64_MAX \<or> U64_MAX < div_ceil (num_elements t) b * s
        then None else Some (div_ceil (num_elements t) b * s))"
      using Some p
      by (auto simp: assms(4) describe_tensor_def Let_def tensor_byte_length_def checked_mul_def)
    then show ?thesis
      unfolding Some p using div_ceil_least [OF b, of "num_elements t"]
      by (auto intro!: exI [of _ "div_ceil (num_elements t) b"])
  qed
qed

theorem tensor_descriptor_sizes_witness:
  "\<exists>t. t = describe_tensor 64 (''w'', [33], 8, U64_MAX)
    \<and> byte_length t = Some 68 \<and> file_offset t < 64"
proof -
  let ?t = "describe_tensor 64 (''w'', [33], 8, U64_MAX)"
  have ty: "type_info (td_type ?t) = Some (32, 34)"
    by (simp add: describe_tensor_def Let_def ggml_from_u32_def ggml_table_def)
  have *: "0 \<notin> set [33 :: nat]" "64 \<le> U64_MAX" by (simp_all add: U64_MAX_def)
  note s = tensor_descriptor_sizes [OF * le_refl refl, of "''w''" 8]
  from s have n: "num_elements ?t = 33" by (simp add: U64_MAX_def)
  from s ty n obtain q where "33 \<le> q * 32" "\<forall>q'. 33 \<le> q' * 32 \<longrightarrow> q \<le> q'"
    "byte_length ?t = (if U64_MAX < q * 34 then None else Some (q * 34))"
    by (auto simp: U64_MAX_def)
  moreover from this have "q = 2" by (auto dest: spec [of _ 2])
  ultimately show ?thesis using s by (simp add: U64_MAX_def)
qed

end
