(* ===== verification/Resource_Accounting.thy ===== *)
theory Resource_Accounting
  imports Gguf_Parse Memory_Budget
begin

section \<open>Resource records and accounting snapshots\<close>

text \<open>
  \<open>crates/ramforge-core/src/resource.rs\<close>: byte measurements that are exact, estimated or unknown,
  resource and allocation records, the registry \<open>ResourceAccounting\<close> with its identity checks, and
  the snapshot that totals the measurements per memory domain and category. The string newtypes are
  strings, a layer id is its index, and a path is a string. The orders of domains and categories are
  those that the code derives for its map keys.
\<close>

type_synonym model_id = string
type_synonym tensor_id = string
type_synonym resource_id = string
type_synonym allocation_id = string
type_synonym device_id = string
type_synonym backend_id = string
type_synonym layer_id = u64

definition tensor_id_of :: "model_id \<Rightarrow> string \<Rightarrow> tensor_id" where
  "tensor_id_of model tensor_name = ''model='' @ model @ '';tensor='' @ tensor_name"

definition resource_id_for_tensor :: "tensor_id \<Rightarrow> resource_id" where
  "resource_id_for_tensor tensor = ''tensor-resource:'' @ tensor"

definition allocation_id_for_resource :: "resource_id \<Rightarrow> allocation_id" where
  "allocation_id_for_resource res = ''allocation:'' @ res"

datatype memory_domain = Storage | HostRam | Device device_id | MappedVirtual | UnknownDomain

datatype resource_category =
    Weights | KvCacheBytes | Activations | ScratchWorkspaces | StagingBytes | PinnedHostBytes
  | MappedModel | OtherCategory string

datatype weight_scope = Embedding | Layer layer_id | Output | OtherScope string

datatype resource_kind =
    ModelMetadata | Weight weight_scope | KvCache | Activation | ScratchWorkspace | Staging
  | PinnedHost | MappedModelData | OtherKind string

fun category :: "resource_kind \<Rightarrow> resource_category" where
  "category (Weight _) = Weights"
| "category KvCache = KvCacheBytes"
| "category Activation = Activations"
| "category ScratchWorkspace = ScratchWorkspaces"
| "category Staging = StagingBytes"
| "category PinnedHost = PinnedHostBytes"
| "category MappedModelData = MappedModel"
| "category ModelMetadata = OtherCategory ''other''"
| "category (OtherKind _) = OtherCategory ''other''"

subsection \<open>The derived orders\<close>

text \<open>\<open>#[derive(Ord)]\<close> on an enum compares the variant's position, then its fields.\<close>

fun domain_key :: "memory_domain \<Rightarrow> nat \<times> string" where
  "domain_key Storage = (0, [])"
| "domain_key HostRam = (1, [])"
| "domain_key (Device d) = (2, d)"
| "domain_key MappedVirtual = (3, [])"
| "domain_key UnknownDomain = (4, [])"

fun category_key :: "resource_category \<Rightarrow> nat \<times> string" where
  "category_key Weights = (0, [])"
| "category_key KvCacheBytes = (1, [])"
| "category_key Activations = (2, [])"
| "category_key ScratchWorkspaces = (3, [])"
| "category_key StagingBytes = (4, [])"
| "category_key PinnedHostBytes = (5, [])"
| "category_key MappedModel = (6, [])"
| "category_key (OtherCategory s) = (7, s)"

lemma domain_key_inj: "domain_key a = domain_key b \<longleftrightarrow> a = b"
  by (cases a; cases b) simp_all

lemma category_key_inj: "category_key a = category_key b \<longleftrightarrow> a = b"
  by (cases a; cases b) simp_all

instantiation memory_domain :: linorder
begin

definition less_eq_memory_domain :: "memory_domain \<Rightarrow> memory_domain \<Rightarrow> bool" where
  "less_eq_memory_domain a b \<longleftrightarrow> domain_key a \<le> domain_key b"

definition less_memory_domain :: "memory_domain \<Rightarrow> memory_domain \<Rightarrow> bool" where
  "less_memory_domain a b \<longleftrightarrow> domain_key a < domain_key b"

instance
  by standard (auto simp: less_eq_memory_domain_def less_memory_domain_def domain_key_inj [symmetric])

end

instantiation resource_category :: linorder
begin

definition less_eq_resource_category :: "resource_category \<Rightarrow> resource_category \<Rightarrow> bool" where
  "less_eq_resource_category a b \<longleftrightarrow> category_key a \<le> category_key b"

definition less_resource_category :: "resource_category \<Rightarrow> resource_category \<Rightarrow> bool" where
  "less_resource_category a b \<longleftrightarrow> category_key a < category_key b"

instance
  by standard
    (auto simp: less_eq_resource_category_def less_resource_category_def category_key_inj [symmetric])

end

subsection \<open>Byte measurements\<close>

datatype measurement_provenance =
    GgufDescriptor | DerivedFromGgufType | TensorDataRepresentation | RuntimeMemoryBudget
  | RuntimeAllocator | ForgeCoreSafeApi | OperatingSystem | PlannerEstimate | CallerProvided
  | Derived string | Unavailable string

fun provenance_description :: "measurement_provenance \<Rightarrow> string" where
  "provenance_description GgufDescriptor = ''GGUF tensor descriptor''"
| "provenance_description DerivedFromGgufType = ''derived from GGUF shape and dtype''"
| "provenance_description TensorDataRepresentation = ''TensorData resident representation''"
| "provenance_description RuntimeMemoryBudget = ''RAMforge MemoryBudget''"
| "provenance_description RuntimeAllocator = ''runtime/backend allocator''"
| "provenance_description ForgeCoreSafeApi = ''ForgeCore safe API''"
| "provenance_description OperatingSystem = ''operating-system report''"
| "provenance_description PlannerEstimate = ''planner estimate''"
| "provenance_description CallerProvided = ''caller-provided measurement''"
| "provenance_description (Derived detail) = ''derived: '' @ detail"
| "provenance_description (Unavailable reason) = ''unavailable: '' @ reason"

datatype measurement_certainty = Exact | Estimated | UnknownCertainty

record byte_measurement =
  bm_bytes :: "u64 option"
  bm_certainty :: measurement_certainty
  bm_provenance :: measurement_provenance

definition exact_bytes :: "u64 \<Rightarrow> measurement_provenance \<Rightarrow> byte_measurement" where
  "exact_bytes n p = \<lparr>bm_bytes = Some n, bm_certainty = Exact, bm_provenance = p\<rparr>"

definition estimated_bytes :: "u64 \<Rightarrow> measurement_provenance \<Rightarrow> byte_measurement" where
  "estimated_bytes n p = \<lparr>bm_bytes = Some n, bm_certainty = Estimated, bm_provenance = p\<rparr>"

definition unknown_bytes :: "string \<Rightarrow> byte_measurement" where
  "unknown_bytes reason =
     \<lparr>bm_bytes = None, bm_certainty = UnknownCertainty, bm_provenance = Unavailable reason\<rparr>"

definition unknown_with_provenance :: "measurement_provenance \<Rightarrow> byte_measurement" where
  "unknown_with_provenance p =
     \<lparr>bm_bytes = None, bm_certainty = UnknownCertainty, bm_provenance = p\<rparr>"

definition is_exact :: "byte_measurement \<Rightarrow> bool" where
  "is_exact m \<longleftrightarrow> bm_certainty m = Exact"

definition is_estimated :: "byte_measurement \<Rightarrow> bool" where
  "is_estimated m \<longleftrightarrow> bm_certainty m = Estimated"

definition is_unknown :: "byte_measurement \<Rightarrow> bool" where
  "is_unknown m \<longleftrightarrow> bm_certainty m = UnknownCertainty"

datatype resource_accounting_error =
    DuplicateResourceId resource_id
  | DuplicateAllocationId allocation_id
  | InvalidResource string
  | ArithmeticOverflow string

record byte_total =
  bt_exact :: u64
  bt_estimated :: u64
  bt_unknown :: u64
  bt_reasons :: "string list"

definition byte_total_zero :: byte_total where
  "byte_total_zero = \<lparr>bt_exact = 0, bt_estimated = 0, bt_unknown = 0, bt_reasons = []\<rparr>"

definition total_is_exact :: "byte_total \<Rightarrow> bool" where
  "total_is_exact t \<longleftrightarrow> bt_estimated t = 0 \<and> bt_unknown t = 0"

definition total_is_complete :: "byte_total \<Rightarrow> bool" where
  "total_is_complete t \<longleftrightarrow> total_is_exact t"

definition known_lower_bound_bytes :: "byte_total \<Rightarrow> u64" where
  "known_lower_bound_bytes t = bt_exact t"

definition add_measurement :: "byte_measurement \<Rightarrow> string \<Rightarrow> byte_total \<Rightarrow>
  (byte_total, resource_accounting_error) result"
where
  "add_measurement m label t =
     (case (bm_certainty m, bm_bytes m) of
        (Exact, Some bytes) \<Rightarrow>
          rbind (ok_or (ArithmeticOverflow label) (checked_add (bt_exact t) bytes))
            (\<lambda>n. Ok (t\<lparr>bt_exact := n\<rparr>))
      | (Estimated, Some bytes) \<Rightarrow>
          rbind (ok_or (ArithmeticOverflow label) (checked_add (bt_estimated t) bytes))
            (\<lambda>n. Ok (t\<lparr>bt_estimated := n\<rparr>))
      | (UnknownCertainty, None) \<Rightarrow>
          rbind (ok_or (ArithmeticOverflow label) (checked_add (bt_unknown t) 1))
            (\<lambda>n. Ok (t\<lparr>bt_unknown := n, bt_reasons := bt_reasons t @
              [label @ '' ('' @ provenance_description (bm_provenance m) @ '')'']\<rparr>))
      | _ \<Rightarrow>
          rbind (ok_or (ArithmeticOverflow label) (checked_add (bt_unknown t) 1))
            (\<lambda>n. Ok (t\<lparr>bt_unknown := n, bt_reasons := bt_reasons t @
              [label @ '' (malformed measurement)'']\<rparr>)))"

subsection \<open>Records\<close>

definition quoted :: "string \<Rightarrow> string" where
  "quoted s = [char_of (39 :: nat)] @ s @ [char_of (39 :: nat)]"

record file_backed_range =
  fr_model :: model_id
  fr_path :: string
  fr_relative_offset :: u64
  fr_file_offset :: u64
  fr_byte_length :: byte_measurement

record gguf_tensor_metadata =
  gt_name :: string
  gt_dimensions :: "u64 list"
  gt_type :: ggml_type
  gt_num_elements :: u64
  gt_relative_offset :: u64
  gt_file_offset :: u64

record logical_tensor_properties =
  lt_tensor :: tensor_id
  lt_shape :: "u64 list"
  lt_type :: ggml_type
  lt_element_count :: u64
  lt_logical_bytes :: byte_measurement

datatype resource_origin =
    GgufTensor gguf_tensor_metadata logical_tensor_properties file_backed_range
  | Runtime string byte_measurement
  | Unmeasured string

fun origin_logical_bytes :: "resource_origin \<Rightarrow> byte_measurement" where
  "origin_logical_bytes (GgufTensor _ logical _) = lt_logical_bytes logical"
| "origin_logical_bytes (Runtime _ bytes) = bytes"
| "origin_logical_bytes (Unmeasured reason) = unknown_bytes reason"

fun origin_file_range :: "resource_origin \<Rightarrow> file_backed_range option" where
  "origin_file_range (GgufTensor _ _ r) = Some r"
| "origin_file_range (Runtime _ _) = None"
| "origin_file_range (Unmeasured _) = None"

record resource_owner =
  ro_model :: "model_id option"
  ro_layer :: "layer_id option"
  ro_tensor :: "tensor_id option"

record allocation_record =
  al_id :: allocation_id
  al_domain :: memory_domain
  al_backend :: "backend_id option"
  al_requested :: byte_measurement
  al_actual :: byte_measurement
  al_alignment :: "u64 option"
  al_padding :: byte_measurement
  al_resident :: byte_measurement

text \<open>Padding is unknown unless both sizes are known and the actual one is not smaller.\<close>

definition alignment_padding :: "byte_measurement \<Rightarrow> byte_measurement \<Rightarrow> byte_measurement" where
  "alignment_padding requested actual =
     (let exact = is_exact requested \<and> is_exact actual;
          p = Derived ''actual minus requested allocation'' in
      case (bm_bytes requested, bm_bytes actual) of
        (Some r, Some a) \<Rightarrow>
          if a < r then unknown_bytes (''actual allocation '' @ show_nat a
            @ '' is smaller than requested allocation '' @ show_nat r)
          else if exact then exact_bytes (a - r) p else estimated_bytes (a - r) p
      | _ \<Rightarrow> unknown_bytes ''alignment padding requires requested and actual bytes'')"

definition allocation_new :: "allocation_id \<Rightarrow> memory_domain \<Rightarrow> byte_measurement \<Rightarrow>
  byte_measurement \<Rightarrow> byte_measurement \<Rightarrow> u64 option \<Rightarrow> backend_id option \<Rightarrow> allocation_record"
where
  "allocation_new aid domain requested actual resident align backend =
     \<lparr>al_id = aid, al_domain = domain, al_backend = backend, al_requested = requested,
      al_actual = actual, al_alignment = align,
      al_padding = alignment_padding requested actual, al_resident = resident\<rparr>"

definition allocation_unmeasured :: "allocation_id \<Rightarrow> memory_domain \<Rightarrow> byte_measurement \<Rightarrow>
  u64 option \<Rightarrow> backend_id option \<Rightarrow> string \<Rightarrow> allocation_record"
where
  "allocation_unmeasured aid domain requested align backend reason =
     allocation_new aid domain requested (unknown_bytes reason)
       (unknown_bytes ''resident bytes are not measured'') align backend"

record resource_record =
  rr_id :: resource_id
  rr_owner :: resource_owner
  rr_kind :: resource_kind
  rr_source_domain :: memory_domain
  rr_origin :: resource_origin
  rr_allocation :: "allocation_record option"

text \<open>
  Classification of tensor names. \<open>split_dot\<close> is \<open>split_once('.')\<close>. The number between the dots is
  read with \<open>str::parse::<u64>\<close>.
\<close>

fun split_dot :: "string \<Rightarrow> (string \<times> string) option" where
  "split_dot [] = None"
| "split_dot (c # cs) =
     (if c = CHR ''.'' then Some ([], cs)
      else map_option (\<lambda>(a, b). (c # a, b)) (split_dot cs))"

definition strip_prefix :: "string \<Rightarrow> string \<Rightarrow> string option" where
  "strip_prefix prefix s = (if starts_with s prefix then Some (drop (length prefix) s) else None)"

definition layer_id_from_tensor_name :: "string \<Rightarrow> layer_id option" where
  "layer_id_from_tensor_name name =
     Option.bind (strip_prefix ''blk.'' name) (\<lambda>rest.
       Option.bind (split_dot rest) (\<lambda>(number, suffix).
         if suffix = [] then None else parse_u64 number))"

definition classify_tensor_name :: "string \<Rightarrow> resource_kind \<times> layer_id option" where
  "classify_tensor_name name =
     (if name = ''token_embd.weight'' \<or> starts_with name ''token_embd.'' then (Weight Embedding, None)
      else if name = ''output.weight'' then (Weight Output, None)
      else if name = ''output_norm.weight'' then (Weight (OtherScope ''persistent''), None)
      else case layer_id_from_tensor_name name of
        Some l \<Rightarrow> (Weight (Layer l), Some l)
      | None \<Rightarrow> (Weight (OtherScope ''model''), None))"

definition best_effort_types :: "ggml_type list" where
  "best_effort_types = [Q8_1, IQ2_XXS, IQ2_XS, IQ3_XXS, IQ1_S, IQ4_NL, IQ3_S, IQ2_S, IQ4_XS, IQ1_M,
     TQ1_0, TQ2_0, MXFP4]"

definition measure_logical_tensor_bytes :: "ggml_type \<Rightarrow> u64 \<Rightarrow> byte_measurement" where
  "measure_logical_tensor_bytes ty element_cnt =
     (if element_cnt = 0 then exact_bytes 0 DerivedFromGgufType
      else case type_info ty of
        None \<Rightarrow> unknown_bytes (''logical size unavailable for GGML type '' @ ggml_name ty)
      | Some (block_size, type_size) \<Rightarrow>
          if block_size = 0 then unknown_bytes (''invalid zero block size for GGML type '' @ ggml_name ty)
          else if 1 < block_size \<and> element_cnt mod block_size \<noteq> 0
          then unknown_bytes (show_nat element_cnt @ '' elements is not a complete ''
            @ show_nat block_size @ ''-element block for '' @ ggml_name ty)
          else (case checked_mul (element_cnt div block_size) type_size of
              None \<Rightarrow> unknown_bytes (''logical size overflow for '' @ show_nat element_cnt
                @ '' elements of '' @ ggml_name ty)
            | Some bytes \<Rightarrow>
                if ty \<in> set best_effort_types then estimated_bytes bytes DerivedFromGgufType
                else exact_bytes bytes DerivedFromGgufType))"

definition checked_element_count :: "u64 list \<Rightarrow> (u64, resource_accounting_error) result" where
  "checked_element_count dims =
     ok_or (ArithmeticOverflow ''tensor element count'') (checked_product 1 dims)"

definition from_descriptor_with_kind :: "model_id \<Rightarrow> string \<Rightarrow> tensor_descriptor \<Rightarrow> resource_kind \<Rightarrow>
  layer_id option \<Rightarrow> resource_record"
where
  "from_descriptor_with_kind model path d kind layer =
     (let tensor = tensor_id_of model (td_name d) in
      \<lparr>rr_id = resource_id_for_tensor tensor,
       rr_owner = \<lparr>ro_model = Some model, ro_layer = layer, ro_tensor = Some tensor\<rparr>,
       rr_kind = kind,
       rr_source_domain = Storage,
       rr_origin = GgufTensor
         \<lparr>gt_name = td_name d, gt_dimensions = dimensions d, gt_type = td_type d,
          gt_num_elements = num_elements d, gt_relative_offset = td_offset d,
          gt_file_offset = file_offset d\<rparr>
         \<lparr>lt_tensor = tensor, lt_shape = dimensions d, lt_type = td_type d,
          lt_element_count = num_elements d,
          lt_logical_bytes = measure_logical_tensor_bytes (td_type d) (num_elements d)\<rparr>
         \<lparr>fr_model = model, fr_path = path, fr_relative_offset = td_offset d,
          fr_file_offset = file_offset d,
          fr_byte_length = (case byte_length d of
              Some bytes \<Rightarrow> exact_bytes bytes GgufDescriptor
            | None \<Rightarrow> unknown_bytes (''GGUF byte length unavailable for tensor '' @ quoted (td_name d)))\<rparr>,
       rr_allocation = None\<rparr>)"

definition from_descriptor :: "model_id \<Rightarrow> string \<Rightarrow> tensor_descriptor \<Rightarrow> resource_record" where
  "from_descriptor model path d =
     (case classify_tensor_name (td_name d) of
        (kind, layer) \<Rightarrow> from_descriptor_with_kind model path d kind layer)"

definition record_runtime :: "resource_id \<Rightarrow> resource_owner \<Rightarrow> resource_kind \<Rightarrow> memory_domain \<Rightarrow>
  string \<Rightarrow> byte_measurement \<Rightarrow> allocation_record option \<Rightarrow> resource_record"
where
  "record_runtime rid owner kind source_domain description bytes allocation =
     \<lparr>rr_id = rid, rr_owner = owner, rr_kind = kind, rr_source_domain = source_domain,
      rr_origin = Runtime description bytes, rr_allocation = allocation\<rparr>"

definition record_unmeasured :: "resource_id \<Rightarrow> resource_owner \<Rightarrow> resource_kind \<Rightarrow> memory_domain \<Rightarrow>
  string \<Rightarrow> allocation_record option \<Rightarrow> resource_record"
where
  "record_unmeasured rid owner kind source_domain reason allocation =
     \<lparr>rr_id = rid, rr_owner = owner, rr_kind = kind, rr_source_domain = source_domain,
      rr_origin = Unmeasured reason, rr_allocation = allocation\<rparr>"

subsection \<open>Budgets and the registry\<close>

record resource_budgets =
  rb_host_ram :: byte_measurement
  rb_device_vram :: "(device_id, byte_measurement) omap"

definition budgets_host_ram :: "u64 \<Rightarrow> resource_budgets" where
  "budgets_host_ram bytes =
     \<lparr>rb_host_ram = exact_bytes bytes RuntimeMemoryBudget, rb_device_vram = []\<rparr>"

definition with_device :: "device_id \<Rightarrow> u64 \<Rightarrow> resource_budgets \<Rightarrow> resource_budgets" where
  "with_device device bytes b =
     b\<lparr>rb_device_vram := om_put device (exact_bytes bytes CallerProvided) (rb_device_vram b)\<rparr>"

definition host_ram_bytes :: "resource_budgets \<Rightarrow> u64 option" where
  "host_ram_bytes b = bm_bytes (rb_host_ram b)"

definition device_bytes :: "resource_budgets \<Rightarrow> device_id \<Rightarrow> u64 option" where
  "device_bytes b device = Option.bind (om_get (rb_device_vram b) device) bm_bytes"

definition budgets_from_memory_budget :: "memory_budget \<Rightarrow> resource_budgets" where
  "budgets_from_memory_budget b = budgets_host_ram (memory_budget.total b)"

record resource_accounting =
  ra_budgets :: resource_budgets
  ra_resources :: "(resource_id, resource_record) omap"
  ra_owners :: "(allocation_id, resource_id) omap"

definition accounting_new :: "resource_budgets \<Rightarrow> resource_accounting" where
  "accounting_new b = \<lparr>ra_budgets = b, ra_resources = [], ra_owners = []\<rparr>"

definition accounting_insert :: "resource_record \<Rightarrow> resource_accounting \<Rightarrow>
  resource_accounting \<times> (unit, resource_accounting_error) result"
where
  "accounting_insert rec a =
     (if rr_id rec = [] then (a, Err (InvalidResource ''resource ID must not be empty''))
      else if om_mem (ra_resources a) (rr_id rec) then (a, Err (DuplicateResourceId (rr_id rec)))
      else (case rr_allocation rec of
          None \<Rightarrow> (a\<lparr>ra_resources := om_put (rr_id rec) rec (ra_resources a)\<rparr>, Ok ())
        | Some allocation \<Rightarrow>
            if al_id allocation = []
            then (a, Err (InvalidResource ''allocation ID must not be empty''))
            else if om_mem (ra_owners a) (al_id allocation)
            then (a, Err (DuplicateAllocationId (al_id allocation)))
            else (a\<lparr>ra_owners := om_put (al_id allocation) (rr_id rec) (ra_owners a),
                    ra_resources := om_put (rr_id rec) rec (ra_resources a)\<rparr>, Ok ())))"

definition accounting_remove :: "resource_id \<Rightarrow> resource_accounting \<Rightarrow>
  resource_accounting \<times> resource_record option"
where
  "accounting_remove rid a =
     (case om_get (ra_resources a) rid of
        None \<Rightarrow> (a, None)
      | Some rec \<Rightarrow>
          let a1 = a\<lparr>ra_resources := om_del rid (ra_resources a)\<rparr> in
          (case rr_allocation rec of
             None \<Rightarrow> (a1, Some rec)
           | Some allocation \<Rightarrow>
               (a1\<lparr>ra_owners := om_del (al_id allocation) (ra_owners a1)\<rparr>, Some rec)))"

definition accounting_get :: "resource_accounting \<Rightarrow> resource_id \<Rightarrow> resource_record option" where
  "accounting_get a rid = om_get (ra_resources a) rid"

fun insert_records :: "resource_record list \<Rightarrow> resource_accounting \<Rightarrow>
  (resource_accounting, resource_accounting_error) result"
where
  "insert_records [] a = Ok a"
| "insert_records (r # rs) a =
     (case accounting_insert r a of
        (a', Ok _) \<Rightarrow> insert_records rs a'
      | (_, Err e) \<Rightarrow> Err e
      | (_, Panic m) \<Rightarrow> Panic m)"

definition accounting_from_model :: "gguf_model \<Rightarrow> string \<Rightarrow> model_id \<Rightarrow> resource_budgets \<Rightarrow>
  (resource_accounting, resource_accounting_error) result"
where
  "accounting_from_model m path model budgets =
     insert_records (map (from_descriptor model path) (tensors m)) (accounting_new budgets)"

subsection \<open>Snapshots\<close>

record accounting_snapshot =
  sn_count :: usize
  sn_ids :: "resource_id list"
  sn_budgets :: resource_budgets
  sn_logical_model :: byte_total
  sn_file_backed :: byte_total
  sn_file_backed_by_domain :: "(memory_domain, byte_total) omap"
  sn_requested :: "(memory_domain, byte_total) omap"
  sn_actual :: "(memory_domain, byte_total) omap"
  sn_padding :: "(memory_domain, byte_total) omap"
  sn_resident :: "(memory_domain, byte_total) omap"
  sn_by_category :: "(memory_domain \<times> resource_category, byte_total) omap"

definition add_total :: "'k::linorder \<Rightarrow> byte_measurement \<Rightarrow> string \<Rightarrow> ('k, byte_total) omap \<Rightarrow>
  (('k, byte_total) omap, resource_accounting_error) result"
where
  "add_total key m label mp =
     rbind (add_measurement m label (case om_get mp key of None \<Rightarrow> byte_total_zero | Some t \<Rightarrow> t))
       (\<lambda>t. Ok (om_put key t mp))"

definition snapshot_file_range :: "resource_record \<Rightarrow> accounting_snapshot \<Rightarrow>
  (accounting_snapshot, resource_accounting_error) result"
where
  "snapshot_file_range rec s =
     (case origin_file_range (rr_origin rec) of
        None \<Rightarrow> Ok s
      | Some r \<Rightarrow>
          rbind (add_measurement (fr_byte_length r) (''file-backed range '' @ quoted (rr_id rec))
              (sn_file_backed s)) (\<lambda>t.
            rbind (add_total Storage (fr_byte_length r) (''storage range '' @ quoted (rr_id rec))
                (sn_file_backed_by_domain s)) (\<lambda>m.
              Ok (s\<lparr>sn_file_backed := t, sn_file_backed_by_domain := m\<rparr>))))"

definition snapshot_allocation :: "resource_record \<Rightarrow> accounting_snapshot \<Rightarrow>
  (accounting_snapshot, resource_accounting_error) result"
where
  "snapshot_allocation rec s =
     (case rr_allocation rec of
        None \<Rightarrow> Ok s
      | Some a \<Rightarrow>
          let d = al_domain a; name = quoted (rr_id rec) in
          rbind (add_total d (al_requested a) (''requested allocation '' @ name) (sn_requested s)) (\<lambda>m1.
          rbind (add_total d (al_actual a) (''actual allocation '' @ name) (sn_actual s)) (\<lambda>m2.
          rbind (add_total d (al_padding a) (''allocation padding '' @ name) (sn_padding s)) (\<lambda>m3.
          rbind (add_total d (al_resident a) (''resident allocation '' @ name) (sn_resident s)) (\<lambda>m4.
          rbind (add_total (d, category (rr_kind rec)) (al_actual a) (''category allocation '' @ name)
              (sn_by_category s)) (\<lambda>m5.
            Ok (s\<lparr>sn_requested := m1, sn_actual := m2, sn_padding := m3, sn_resident := m4,
              sn_by_category := m5\<rparr>)))))))"

definition snapshot_logical :: "resource_record \<Rightarrow> accounting_snapshot \<Rightarrow>
  (accounting_snapshot, resource_accounting_error) result"
where
  "snapshot_logical rec s =
     (if category (rr_kind rec) = Weights
      then rbind (add_measurement (origin_logical_bytes (rr_origin rec))
          (''logical model tensor '' @ quoted (rr_id rec)) (sn_logical_model s))
        (\<lambda>t. Ok (s\<lparr>sn_logical_model := t\<rparr>))
      else Ok s)"

definition snapshot_record :: "resource_record \<Rightarrow> accounting_snapshot \<Rightarrow>
  (accounting_snapshot, resource_accounting_error) result"
where
  "snapshot_record rec s =
     rbind (snapshot_logical rec s) (\<lambda>s1.
       rbind (snapshot_file_range rec s1) (snapshot_allocation rec))"

fun snapshot_records :: "resource_record list \<Rightarrow> accounting_snapshot \<Rightarrow>
  (accounting_snapshot, resource_accounting_error) result"
where
  "snapshot_records [] s = Ok s"
| "snapshot_records (r # rs) s = rbind (snapshot_record r s) (snapshot_records rs)"

definition snapshot :: "resource_accounting \<Rightarrow> (accounting_snapshot, resource_accounting_error) result"
where
  "snapshot a =
     snapshot_records (map snd (ra_resources a))
       \<lparr>sn_count = length (ra_resources a), sn_ids = om_keys (ra_resources a),
        sn_budgets = ra_budgets a, sn_logical_model = byte_total_zero,
        sn_file_backed = byte_total_zero, sn_file_backed_by_domain = [], sn_requested = [],
        sn_actual = [], sn_padding = [], sn_resident = [], sn_by_category = []\<rparr>"

definition host_actual :: "accounting_snapshot \<Rightarrow> byte_total option" where
  "host_actual s = om_get (sn_actual s) HostRam"

definition device_actual :: "accounting_snapshot \<Rightarrow> device_id \<Rightarrow> byte_total option" where
  "device_actual s device = om_get (sn_actual s) (Device device)"

definition category_actual :: "accounting_snapshot \<Rightarrow> memory_domain \<Rightarrow> resource_category \<Rightarrow>
  byte_total option"
where
  "category_actual s domain cat = om_get (sn_by_category s) (domain, cat)"

subsection \<open>The registry invariant\<close>

text \<open>Every record is filed under its id, and the allocation index is the exact inverse.\<close>

definition allocation_of :: "resource_record \<Rightarrow> allocation_id option" where
  "allocation_of rec = map_option al_id (rr_allocation rec)"

definition registry_ok :: "resource_accounting \<Rightarrow> bool" where
  "registry_ok a \<longleftrightarrow> om_ok (ra_resources a) \<and> om_ok (ra_owners a)
     \<and> (\<forall>rid rec. om_get (ra_resources a) rid = Some rec \<longrightarrow> rr_id rec = rid \<and> rid \<noteq> [])
     \<and> (\<forall>aid rid. om_get (ra_owners a) aid = Some rid \<longleftrightarrow>
          Option.bind (om_get (ra_resources a) rid) allocation_of = Some aid)"

lemma registry_okD:
  assumes "registry_ok a"
  shows "om_ok (ra_resources a)" and "om_ok (ra_owners a)"
    and "om_get (ra_resources a) rid = Some rec \<Longrightarrow> rr_id rec = rid \<and> rid \<noteq> []"
    and "om_get (ra_owners a) aid = Some rid \<longleftrightarrow>
      Option.bind (om_get (ra_resources a) rid) allocation_of = Some aid"
  using assms by (auto simp: registry_ok_def)

inductive registry_step :: "resource_accounting \<Rightarrow> resource_accounting \<Rightarrow> bool" where
  step_insert: "accounting_insert rec a = (a', r) \<Longrightarrow> registry_step a a'"
| step_remove_record: "accounting_remove rid a = (a', q) \<Longrightarrow> registry_step a a'"

inductive_cases registry_stepE: "registry_step a a'"

lemma accounting_insert_ok:
  assumes ok: "registry_ok a" and ins: "accounting_insert rec a = (a', Ok u)"
  shows "registry_ok a' \<and> om_get (ra_resources a) (rr_id rec) = None
    \<and> om_get (ra_resources a') = (om_get (ra_resources a))(rr_id rec \<mapsto> rec)
    \<and> ra_budgets a' = ra_budgets a"
proof -
  note d = registry_okD [OF ok]
  have new: "om_get (ra_resources a) (rr_id rec) = None" "rr_id rec \<noteq> []"
    using ins by (auto simp: accounting_insert_def om_mem_iff split: if_splits)
  have unclaimed: "om_get (ra_owners a) aid \<noteq> Some (rr_id rec)" for aid
    using d(4) [of aid "rr_id rec"] new(1) by simp
  have res: "om_get (ra_resources a') = (om_get (ra_resources a))(rr_id rec \<mapsto> rec)"
    and res_ok: "om_ok (ra_resources a')" and budgets: "ra_budgets a' = ra_budgets a"
    using ins d(1) by (auto simp: accounting_insert_def split: if_splits option.splits)
  have own: "om_ok (ra_owners a') \<and> (\<forall>aid. om_get (ra_owners a') aid =
      (if allocation_of rec = Some aid then Some (rr_id rec) else om_get (ra_owners a) aid))
      \<and> (\<forall>aid. allocation_of rec = Some aid \<longrightarrow> om_get (ra_owners a) aid = None)"
    using ins d(2)
    by (cases "rr_allocation rec")
      (auto simp: accounting_insert_def allocation_of_def om_mem_iff split: if_splits)
  have "om_get (ra_owners a') aid = Some rid \<longleftrightarrow>
      Option.bind (om_get (ra_resources a') rid) allocation_of = Some aid" for aid rid
  proof (cases "rid = rr_id rec")
    case True
    then show ?thesis using own unclaimed [of aid] by (simp add: res)
  next
    case False
    then show ?thesis using own d(4) [of aid rid] by (auto simp: res)
  qed
  then have "registry_ok a'"
    unfolding registry_ok_def using own res_ok d(3) new(2) by (auto simp: res)
  then show ?thesis using new res budgets by blast
qed

lemma accounting_remove_ok:
  assumes ok: "registry_ok a" and rem: "accounting_remove rid a = (a', q)"
  shows "registry_ok a' \<and> q = om_get (ra_resources a) rid
    \<and> om_get (ra_resources a') = (om_get (ra_resources a))(rid := None)
    \<and> ra_budgets a' = ra_budgets a"
proof (cases "om_get (ra_resources a) rid")
  case None
  then show ?thesis using rem ok by (auto simp: accounting_remove_def fun_eq_iff)
next
  case (Some rec)
  note d = registry_okD [OF ok]
  have res: "om_get (ra_resources a') = (om_get (ra_resources a))(rid := None)"
    "om_ok (ra_resources a')" "ra_budgets a' = ra_budgets a" "q = Some rec"
    using rem Some d(1) by (auto simp: accounting_remove_def Let_def split: option.splits)
  have own: "om_ok (ra_owners a')" "\<And>aid. om_get (ra_owners a') aid =
      (if allocation_of rec = Some aid then None else om_get (ra_owners a) aid)"
    using rem Some d(2)
    by (auto simp: accounting_remove_def Let_def allocation_of_def split: option.splits)
  have claim: "allocation_of rec = Some aid \<longleftrightarrow> om_get (ra_owners a) aid = Some rid" for aid
    using d(4) [of aid rid] Some by simp
  have "om_get (ra_owners a') aid = Some rid' \<longleftrightarrow>
      Option.bind (om_get (ra_resources a') rid') allocation_of = Some aid" for aid rid'
    using own(2) [of aid] claim [of aid] d(4) [of aid rid'] by (auto simp: res(1))
  then have "registry_ok a'"
    unfolding registry_ok_def using own(1) res(2) d(3) by (auto simp: res(1) split: if_splits)
  then show ?thesis using res Some by simp
qed

lemma accounting_insert_err:
  "accounting_insert rec a = (a', r) \<Longrightarrow> \<not> is_ok r \<Longrightarrow> a' = a \<and> \<not> is_panic r"
  by (auto simp: accounting_insert_def split: if_splits option.splits)

lemma registry_step_ok:
  assumes "registry_step a a'" and "registry_ok a"
  shows "registry_ok a'"
  using assms(1)
proof (cases rule: registry_step.cases)
  case (step_insert rec r)
  show ?thesis
  proof (cases r)
    case (Ok u)
    then show ?thesis using accounting_insert_ok [OF assms(2), of rec a' u] step_insert by simp
  qed (use accounting_insert_err [OF step_insert] assms(2) in simp_all)
next
  case (step_remove_record rid q)
  then show ?thesis using accounting_remove_ok [OF assms(2) step_remove_record] by blast
qed

lemma registry_steps_ok: "registry_step\<^sup>*\<^sup>* a a' \<Longrightarrow> registry_ok a \<Longrightarrow> registry_ok a'"
  by (induction rule: rtranclp_induct) (auto dest: registry_step_ok)

subsection \<open>What a snapshot totals\<close>

text \<open>The total of a list of labelled measurements, without bounds.\<close>

definition well_measured :: "byte_measurement \<Rightarrow> bool" where
  "well_measured m \<longleftrightarrow> (bm_certainty m = UnknownCertainty \<longleftrightarrow> bm_bytes m = None)"

definition exact_part :: "byte_measurement \<Rightarrow> nat" where
  "exact_part m = (if is_exact m then case bm_bytes m of Some n \<Rightarrow> n | None \<Rightarrow> 0 else 0)"

definition estimated_part :: "byte_measurement \<Rightarrow> nat" where
  "estimated_part m = (if is_estimated m then case bm_bytes m of Some n \<Rightarrow> n | None \<Rightarrow> 0 else 0)"

definition unknown_part :: "byte_measurement \<Rightarrow> nat" where
  "unknown_part m = (if is_unknown m \<or> bm_bytes m = None then 1 else 0)"

definition totals :: "byte_measurement list \<Rightarrow> byte_total \<Rightarrow> bool" where
  "totals ms t \<longleftrightarrow> bt_exact t = sum_list (map exact_part ms)
     \<and> bt_estimated t = sum_list (map estimated_part ms)
     \<and> bt_unknown t = sum_list (map unknown_part ms)
     \<and> length (bt_reasons t) = bt_unknown t"

lemma totals_zero: "totals [] byte_total_zero"
  by (simp add: totals_def byte_total_zero_def)

lemma add_measurement_totals:
  assumes "totals ms t" and "add_measurement m label t = Ok t'"
  shows "totals (ms @ [m]) t'"
  using assms
  by (cases "bm_certainty m"; cases "bm_bytes m")
    (auto simp: add_measurement_def totals_def rbind_eq_Ok exact_part_def estimated_part_def
      unknown_part_def is_exact_def is_estimated_def is_unknown_def)

text \<open>A map of totals over the keyed measurements added so far.\<close>

definition totals_by :: "('k \<times> byte_measurement) list \<Rightarrow> ('k::linorder, byte_total) omap \<Rightarrow> bool" where
  "totals_by kms mp \<longleftrightarrow> om_ok mp \<and>
     (\<forall>k. case om_get mp k of
        None \<Rightarrow> k \<notin> fst ` set kms
      | Some t \<Rightarrow> k \<in> fst ` set kms \<and> totals (map snd (filter (\<lambda>p. fst p = k) kms)) t)"

lemma totals_by_Nil: "totals_by [] []"
  by (simp add: totals_by_def)

lemma totals_byD:
  assumes "totals_by kms mp"
  shows "om_ok mp" and "om_get mp k = None \<Longrightarrow> k \<notin> fst ` set kms"
    and "om_get mp k = Some t \<Longrightarrow> k \<in> fst ` set kms \<and> totals (map snd (filter (\<lambda>p. fst p = k) kms)) t"
proof -
  have "case om_get mp k of
        None \<Rightarrow> k \<notin> fst ` set kms
      | Some t \<Rightarrow> k \<in> fst ` set kms \<and> totals (map snd (filter (\<lambda>p. fst p = k) kms)) t"
    using assms by (simp add: totals_by_def)
  then show "om_get mp k = None \<Longrightarrow> k \<notin> fst ` set kms"
    and "om_get mp k = Some t \<Longrightarrow> k \<in> fst ` set kms \<and> totals (map snd (filter (\<lambda>p. fst p = k) kms)) t"
    by simp_all
qed (use assms in \<open>simp add: totals_by_def\<close>)

lemma add_total_totals:
  assumes inv: "totals_by kms mp" and add: "add_total k m label mp = Ok mp'"
  shows "totals_by (kms @ [(k, m)]) mp'"
proof -
  have ok: "om_ok mp" using inv by (simp add: totals_by_def)
  let ?t0 = "case om_get mp k of None \<Rightarrow> byte_total_zero | Some t \<Rightarrow> t"
  obtain t where t: "add_measurement m label ?t0 = Ok t" and mp': "mp' = om_put k t mp"
    using add by (auto simp: add_total_def rbind_eq_Ok)
  have "totals (map snd (filter (\<lambda>p. fst p = k) kms)) ?t0"
  proof (cases "om_get mp k")
    case None
    then have "k \<notin> fst ` set kms" using totals_byD(2) [OF inv] by blast
    then have "filter (\<lambda>p. fst p = k) kms = []" by (force simp: filter_empty_conv)
    then show ?thesis using None totals_zero by simp
  next
    case (Some t0)
    then show ?thesis using totals_byD(3) [OF inv Some] by simp
  qed
  then have "totals (map snd (filter (\<lambda>p. fst p = k) kms) @ [m]) t"
    using add_measurement_totals t by blast
  moreover have "om_get mp' = (om_get mp)(k \<mapsto> t)" using ok mp' by simp
  moreover have "om_ok mp'" using ok mp' by simp
  ultimately have new: "om_ok mp'" "om_get mp' = (om_get mp)(k \<mapsto> t)"
    "totals (map snd (filter (\<lambda>p. fst p = k) kms) @ [m]) t" by blast+
  have "case om_get mp' k' of
        None \<Rightarrow> k' \<notin> fst ` set (kms @ [(k, m)])
      | Some t \<Rightarrow> k' \<in> fst ` set (kms @ [(k, m)]) \<and>
          totals (map snd (filter (\<lambda>p. fst p = k') (kms @ [(k, m)]))) t" for k'
  proof (cases "k' = k")
    case True
    then show ?thesis using new by simp
  next
    case False
    then show ?thesis
      using new(2) totals_byD(2) [OF inv, of k'] totals_byD(3) [OF inv, of k']
      by (cases "om_get mp k'") simp_all
  qed
  then show ?thesis using new(1) by (simp add: totals_by_def)
qed

text \<open>The keyed measurements a list of records contributes.\<close>

definition logical_items :: "resource_record list \<Rightarrow> byte_measurement list" where
  "logical_items rs = map (\<lambda>r. origin_logical_bytes (rr_origin r))
     (filter (\<lambda>r. category (rr_kind r) = Weights) rs)"

definition file_items :: "resource_record list \<Rightarrow> byte_measurement list" where
  "file_items rs = map fr_byte_length (List.map_filter (\<lambda>r. origin_file_range (rr_origin r)) rs)"

definition allocated :: "resource_record list \<Rightarrow> (resource_record \<times> allocation_record) list" where
  "allocated rs = List.map_filter (\<lambda>r. map_option (Pair r) (rr_allocation r)) rs"

definition domain_items :: "(allocation_record \<Rightarrow> byte_measurement) \<Rightarrow> resource_record list \<Rightarrow>
  (memory_domain \<times> byte_measurement) list"
where
  "domain_items f rs = map (\<lambda>(r, al). (al_domain al, f al)) (allocated rs)"

definition category_items :: "resource_record list \<Rightarrow>
  ((memory_domain \<times> resource_category) \<times> byte_measurement) list"
where
  "category_items rs = map (\<lambda>(r, al). ((al_domain al, category (rr_kind r)), al_actual al)) (allocated rs)"

definition snapshot_inv :: "resource_record list \<Rightarrow> accounting_snapshot \<Rightarrow> bool" where
  "snapshot_inv rs s \<longleftrightarrow> totals (logical_items rs) (sn_logical_model s)
     \<and> totals (file_items rs) (sn_file_backed s)
     \<and> totals_by (map (Pair Storage) (file_items rs)) (sn_file_backed_by_domain s)
     \<and> totals_by (domain_items al_requested rs) (sn_requested s)
     \<and> totals_by (domain_items al_actual rs) (sn_actual s)
     \<and> totals_by (domain_items al_padding rs) (sn_padding s)
     \<and> totals_by (domain_items al_resident rs) (sn_resident s)
     \<and> totals_by (category_items rs) (sn_by_category s)"

lemma items_snoc:
  "logical_items (rs @ [r]) = logical_items rs @
    (if category (rr_kind r) = Weights then [origin_logical_bytes (rr_origin r)] else [])"
  "file_items (rs @ [r]) = file_items rs @
    (case origin_file_range (rr_origin r) of None \<Rightarrow> [] | Some f \<Rightarrow> [fr_byte_length f])"
  "domain_items g (rs @ [r]) = domain_items g rs @
    (case rr_allocation r of None \<Rightarrow> [] | Some al \<Rightarrow> [(al_domain al, g al)])"
  "category_items (rs @ [r]) = category_items rs @
    (case rr_allocation r of None \<Rightarrow> []
     | Some al \<Rightarrow> [((al_domain al, category (rr_kind r)), al_actual al)])"
  by (simp_all add: logical_items_def file_items_def domain_items_def category_items_def allocated_def
      map_filter_def split: option.splits)

lemma snapshot_record_inv:
  assumes inv: "snapshot_inv rs s" and run: "snapshot_record r s = Ok s'"
  shows "snapshot_inv (rs @ [r]) s' \<and> sn_count s' = sn_count s \<and> sn_ids s' = sn_ids s
    \<and> sn_budgets s' = sn_budgets s"
proof -
  obtain s1 s2 where l: "snapshot_logical r s = Ok s1" and f: "snapshot_file_range r s1 = Ok s2"
    and a: "snapshot_allocation r s2 = Ok s'"
    using run by (auto simp: snapshot_record_def rbind_eq_Ok)
  note i = inv [unfolded snapshot_inv_def]
  have l1: "totals (logical_items (rs @ [r])) (sn_logical_model s1) \<and>
      s1 = s\<lparr>sn_logical_model := sn_logical_model s1\<rparr>"
    using l i add_measurement_totals
    by (auto simp: snapshot_logical_def items_snoc rbind_eq_Ok split: if_splits)
  have f1: "totals (file_items (rs @ [r])) (sn_file_backed s2) \<and>
      totals_by (map (Pair Storage) (file_items (rs @ [r]))) (sn_file_backed_by_domain s2) \<and>
      s2 = s1\<lparr>sn_file_backed := sn_file_backed s2, sn_file_backed_by_domain := sn_file_backed_by_domain s2\<rparr>"
  proof (cases "origin_file_range (rr_origin r)")
    case None
    then show ?thesis using f i l1 by (cases s1) (auto simp: snapshot_file_range_def items_snoc)
  next
    case (Some fr)
    then obtain t m where "add_measurement (fr_byte_length fr) (''file-backed range '' @ quoted (rr_id r))
          (sn_file_backed s1) = Ok t"
      "add_total Storage (fr_byte_length fr) (''storage range '' @ quoted (rr_id r))
          (sn_file_backed_by_domain s1) = Ok m"
      "s2 = s1\<lparr>sn_file_backed := t, sn_file_backed_by_domain := m\<rparr>"
      using f by (auto simp: snapshot_file_range_def rbind_eq_Ok)
    moreover have "sn_file_backed s1 = sn_file_backed s"
      "sn_file_backed_by_domain s1 = sn_file_backed_by_domain s"
      using l1 by (metis accounting_snapshot.select_convs(5,6) accounting_snapshot.surjective
          accounting_snapshot.update_convs(4))+
    ultimately show ?thesis
      using Some i add_measurement_totals add_total_totals by (fastforce simp: items_snoc)
  qed
  have s2: "sn_logical_model s2 = sn_logical_model s1" "sn_requested s2 = sn_requested s"
    "sn_actual s2 = sn_actual s" "sn_padding s2 = sn_padding s" "sn_resident s2 = sn_resident s"
    "sn_by_category s2 = sn_by_category s" "sn_count s2 = sn_count s" "sn_ids s2 = sn_ids s"
    "sn_budgets s2 = sn_budgets s"
    using l f by (auto simp: snapshot_logical_def snapshot_file_range_def rbind_eq_Ok
        split: if_splits option.splits)
  show ?thesis
  proof (cases "rr_allocation r")
    case None
    then show ?thesis
      using a i l1 f1 s2 by (simp add: snapshot_allocation_def snapshot_inv_def items_snoc)
  next
    case (Some al)
    then obtain m1 m2 m3 m4 m5 where
      m: "add_total (al_domain al) (al_requested al) (''requested allocation '' @ quoted (rr_id r))
            (sn_requested s2) = Ok m1"
         "add_total (al_domain al) (al_actual al) (''actual allocation '' @ quoted (rr_id r))
            (sn_actual s2) = Ok m2"
         "add_total (al_domain al) (al_padding al) (''allocation padding '' @ quoted (rr_id r))
            (sn_padding s2) = Ok m3"
         "add_total (al_domain al) (al_resident al) (''resident allocation '' @ quoted (rr_id r))
            (sn_resident s2) = Ok m4"
         "add_total (al_domain al, category (rr_kind r)) (al_actual al)
            (''category allocation '' @ quoted (rr_id r)) (sn_by_category s2) = Ok m5"
      and s': "s' = s2\<lparr>sn_requested := m1, sn_actual := m2, sn_padding := m3, sn_resident := m4,
              sn_by_category := m5\<rparr>"
      using a by (auto simp: snapshot_allocation_def Let_def rbind_eq_Ok)
    note t = add_total_totals [OF _ m(1), unfolded s2] add_total_totals [OF _ m(2), unfolded s2]
      add_total_totals [OF _ m(3), unfolded s2] add_total_totals [OF _ m(4), unfolded s2]
      add_total_totals [OF _ m(5), unfolded s2]
    show ?thesis
      using i t l1 f1 s2 Some by (simp add: snapshot_inv_def items_snoc s')
  qed
qed


lemma snapshot_records_inv:
  "snapshot_inv rs s \<Longrightarrow> snapshot_records qs s = Ok s' \<Longrightarrow> snapshot_inv (rs @ qs) s'
    \<and> sn_count s' = sn_count s \<and> sn_ids s' = sn_ids s \<and> sn_budgets s' = sn_budgets s"
proof (induction qs arbitrary: rs s)
  case (Cons q qs)
  obtain s1 where q: "snapshot_record q s = Ok s1" and qs: "snapshot_records qs s1 = Ok s'"
    using Cons.prems(2) by (auto simp: rbind_eq_Ok)
  show ?case
    using Cons.IH [OF _ qs, of "rs @ [q]"] snapshot_record_inv [OF Cons.prems(1) q] by simp
qed simp

text \<open>Enough room for every total: the weights of all measurements of a record.\<close>

definition measurement_weight :: "byte_measurement \<Rightarrow> nat" where
  "measurement_weight m = exact_part m + estimated_part m + unknown_part m"

definition record_weight :: "resource_record \<Rightarrow> nat" where
  "record_weight r = measurement_weight (origin_logical_bytes (rr_origin r))
     + (case origin_file_range (rr_origin r) of None \<Rightarrow> 0
        | Some f \<Rightarrow> measurement_weight (fr_byte_length f))
     + (case rr_allocation r of None \<Rightarrow> 0
        | Some al \<Rightarrow> measurement_weight (al_requested al) + measurement_weight (al_actual al)
            + measurement_weight (al_padding al) + measurement_weight (al_resident al))"

abbreviation weights :: "byte_measurement list \<Rightarrow> nat" where
  "weights ms \<equiv> sum_list (map measurement_weight ms)"

abbreviation record_weights :: "resource_record list \<Rightarrow> nat" where
  "record_weights rs \<equiv> sum_list (map record_weight rs)"

lemma item_weights:
  "weights (logical_items rs) \<le> record_weights rs"
  "weights (file_items rs) \<le> record_weights rs"
  "weights (map snd (domain_items al_requested rs)) \<le> record_weights rs"
  "weights (map snd (domain_items al_actual rs)) \<le> record_weights rs"
  "weights (map snd (domain_items al_padding rs)) \<le> record_weights rs"
  "weights (map snd (domain_items al_resident rs)) \<le> record_weights rs"
  "weights (map snd (category_items rs)) \<le> record_weights rs"
proof (induction rs rule: rev_induct)
  case Nil
  show "weights (logical_items []) \<le> record_weights []" "weights (file_items []) \<le> record_weights []"
    "weights (map snd (domain_items al_requested [])) \<le> record_weights []"
    "weights (map snd (domain_items al_actual [])) \<le> record_weights []"
    "weights (map snd (domain_items al_padding [])) \<le> record_weights []"
    "weights (map snd (domain_items al_resident [])) \<le> record_weights []"
    "weights (map snd (category_items [])) \<le> record_weights []"
    by (simp_all add: logical_items_def file_items_def domain_items_def category_items_def
        allocated_def map_filter_def)
next
  case (snoc r rs)
  {
    case 1 then show ?case using snoc.IH(1) by (simp add: items_snoc record_weight_def)
  next
    case 2 then show ?case using snoc.IH(2)
      by (simp add: items_snoc record_weight_def split: option.splits)
  next
    case 3 then show ?case using snoc.IH(3)
      by (simp add: items_snoc record_weight_def split: option.splits)
  next
    case 4 then show ?case using snoc.IH(4)
      by (simp add: items_snoc record_weight_def split: option.splits)
  next
    case 5 then show ?case using snoc.IH(5)
      by (simp add: items_snoc record_weight_def split: option.splits)
  next
    case 6 then show ?case using snoc.IH(6)
      by (simp add: items_snoc record_weight_def split: option.splits)
  next
    case 7 then show ?case using snoc.IH(7)
      by (simp add: items_snoc record_weight_def split: option.splits)
  }
qed

lemma parts_le_weights:
  "sum_list (map exact_part ms) \<le> weights ms" "sum_list (map estimated_part ms) \<le> weights ms"
  "sum_list (map unknown_part ms) \<le> weights ms"
  by (induction ms) (auto simp: measurement_weight_def)

lemma add_measurement_fits:
  assumes "totals ms t" and "weights (ms @ [m]) \<le> U64_MAX"
  shows "\<exists>t'. add_measurement m label t = Ok t'"
proof -
  have "bt_exact t \<le> weights ms" "bt_estimated t \<le> weights ms" "bt_unknown t \<le> weights ms"
    using assms(1) parts_le_weights [of ms] by (simp_all add: totals_def)
  moreover have "weights ms + measurement_weight m \<le> U64_MAX" using assms(2) by simp
  ultimately show ?thesis
    by (cases "bm_certainty m"; cases "bm_bytes m")
      (simp_all add: add_measurement_def measurement_weight_def exact_part_def estimated_part_def
        unknown_part_def is_exact_def is_estimated_def is_unknown_def checked_add_def)
qed

lemma weights_filter: "weights (map snd (filter P kms)) \<le> weights (map snd kms)"
  by (induction kms) auto

lemma add_total_fits:
  assumes "totals_by kms mp" and "weights (map snd (kms @ [(k, m)])) \<le> U64_MAX"
  shows "\<exists>mp'. add_total k m label mp = Ok mp'"
proof (cases "om_get mp k")
  case None
  have "weights ([] @ [m]) \<le> U64_MAX" using assms(2) by simp
  then obtain t where "add_measurement m label byte_total_zero = Ok t"
    using add_measurement_fits [OF totals_zero] by blast
  then show ?thesis using None by (simp add: add_total_def)
next
  case (Some t0)
  have "weights (map snd (filter (\<lambda>p. fst p = k) kms) @ [m]) \<le> U64_MAX"
    using weights_filter [of "\<lambda>p. fst p = k" kms] assms(2) by simp
  then obtain t where "add_measurement m label t0 = Ok t"
    using add_measurement_fits totals_byD(3) [OF assms(1) Some] by blast
  then show ?thesis using Some by (simp add: add_total_def)
qed

lemma snapshot_record_fits:
  assumes inv: "snapshot_inv rs s" and fits: "record_weights (rs @ [r]) \<le> U64_MAX"
  shows "\<exists>s'. snapshot_record r s = Ok s'"
proof -
  note w = item_weights [of "rs @ [r]", THEN order_trans, OF fits]
  note i = inv [unfolded snapshot_inv_def]
  have "\<exists>s1. snapshot_logical r s = Ok s1"
  proof (cases "category (rr_kind r) = Weights")
    case True
    then obtain t where "add_measurement (origin_logical_bytes (rr_origin r))
        (''logical model tensor '' @ quoted (rr_id r)) (sn_logical_model s) = Ok t"
      using add_measurement_fits i w(1) by (fastforce simp: items_snoc)
    then show ?thesis using True by (simp add: snapshot_logical_def)
  qed (simp add: snapshot_logical_def)
  then obtain s1 where s1: "snapshot_logical r s = Ok s1" ..
  have f1: "sn_file_backed s1 = sn_file_backed s"
    "sn_file_backed_by_domain s1 = sn_file_backed_by_domain s"
    using s1 by (auto simp: snapshot_logical_def rbind_eq_Ok split: if_splits)
  have "\<exists>s2. snapshot_file_range r s1 = Ok s2"
  proof (cases "origin_file_range (rr_origin r)")
    case (Some f)
    have *: "weights (file_items rs @ [fr_byte_length f]) \<le> U64_MAX"
      using w(2) Some by (simp add: items_snoc)
    then have "weights (map snd (map (Pair Storage) (file_items rs) @ [(Storage, fr_byte_length f)]))
        \<le> U64_MAX" by (simp add: comp_def)
    then obtain m where "add_total Storage (fr_byte_length f) (''storage range '' @ quoted (rr_id r))
          (sn_file_backed_by_domain s) = Ok m" using add_total_fits i by blast
    moreover obtain t where "add_measurement (fr_byte_length f)
        (''file-backed range '' @ quoted (rr_id r)) (sn_file_backed s) = Ok t"
      using add_measurement_fits * i by blast
    ultimately show ?thesis using Some f1 by (simp add: snapshot_file_range_def)
  qed (simp add: snapshot_file_range_def)
  then obtain s2 where s2: "snapshot_file_range r s1 = Ok s2" ..
  have eq: "sn_requested s2 = sn_requested s" "sn_actual s2 = sn_actual s"
    "sn_padding s2 = sn_padding s" "sn_resident s2 = sn_resident s"
    "sn_by_category s2 = sn_by_category s"
    using s1 s2 by (auto simp: snapshot_logical_def snapshot_file_range_def rbind_eq_Ok
        split: if_splits option.splits)
  have "\<exists>s'. snapshot_allocation r s2 = Ok s'"
  proof (cases "rr_allocation r")
    case (Some al)
    have "\<exists>m. add_total (al_domain al) (al_requested al) lab (sn_requested s) = Ok m" for lab
      using add_total_fits i w(3) Some by (fastforce simp: items_snoc)
    moreover have "\<exists>m. add_total (al_domain al) (al_actual al) lab (sn_actual s) = Ok m" for lab
      using add_total_fits i w(4) Some by (fastforce simp: items_snoc)
    moreover have "\<exists>m. add_total (al_domain al) (al_padding al) lab (sn_padding s) = Ok m" for lab
      using add_total_fits i w(5) Some by (fastforce simp: items_snoc)
    moreover have "\<exists>m. add_total (al_domain al) (al_resident al) lab (sn_resident s) = Ok m" for lab
      using add_total_fits i w(6) Some by (fastforce simp: items_snoc)
    moreover have "\<exists>m. add_total (al_domain al, category (rr_kind r)) (al_actual al) lab
        (sn_by_category s) = Ok m" for lab
      using add_total_fits i w(7) Some by (fastforce simp: items_snoc)
    ultimately show ?thesis
      using Some by (simp add: snapshot_allocation_def Let_def eq) (metis rbind.simps(1))
  qed (simp add: snapshot_allocation_def)
  then show ?thesis using s1 s2 by (auto simp: snapshot_record_def)
qed


lemma snapshot_records_fits:
  "snapshot_inv rs s \<Longrightarrow> record_weights (rs @ qs) \<le> U64_MAX \<Longrightarrow> \<exists>s'. snapshot_records qs s = Ok s'"
proof (induction qs arbitrary: rs s)
  case (Cons q qs)
  have "record_weights (rs @ [q]) \<le> U64_MAX" using Cons.prems(2) by simp
  then obtain s1 where s1: "snapshot_record q s = Ok s1"
    using snapshot_record_fits [OF Cons.prems(1)] by blast
  have "snapshot_inv (rs @ [q]) s1" using snapshot_record_inv [OF Cons.prems(1) s1] by blast
  then show ?case using Cons.IH [of "rs @ [q]" s1] Cons.prems(2) s1 by simp
qed simp

lemma add_measurement_err:
  "add_measurement m label t = Panic x \<Longrightarrow> False"
  "add_measurement m label t = Err e \<Longrightarrow> e = ArithmeticOverflow label"
  by (auto simp: add_measurement_def checked_add_def split: option.splits measurement_certainty.splits
      if_splits)

lemma add_total_err:
  "add_total k m label mp = Panic x \<Longrightarrow> False"
  "add_total k m label mp = Err e \<Longrightarrow> e = ArithmeticOverflow label"
  using add_measurement_err
  by (auto simp: add_total_def rbind_eq_Panic rbind_eq_Err)

lemma snapshot_records_err:
  "\<not> is_panic (snapshot_records rs s)
   \<and> (snapshot_records rs s = Err e \<longrightarrow> (\<exists>label. e = ArithmeticOverflow label))"
proof (induction rs arbitrary: s)
  case (Cons r rs)
  have l: "snapshot_logical r s \<noteq> Panic m" "snapshot_file_range r s \<noteq> Panic m"
    "snapshot_allocation r s \<noteq> Panic m" for s m
    by (auto simp: snapshot_logical_def snapshot_file_range_def snapshot_allocation_def Let_def
        rbind_eq_Panic split: option.splits dest: add_measurement_err(1) add_total_err(1))
  have e: "snapshot_logical r s = Err e \<Longrightarrow> \<exists>label. e = ArithmeticOverflow label"
    "snapshot_file_range r s = Err e \<Longrightarrow> \<exists>label. e = ArithmeticOverflow label"
    "snapshot_allocation r s = Err e \<Longrightarrow> \<exists>label. e = ArithmeticOverflow label" for s e
    by (auto simp: snapshot_logical_def snapshot_file_range_def snapshot_allocation_def Let_def
        rbind_eq_Err split: option.splits if_splits dest: add_measurement_err(2) add_total_err(2))
  have np: "snapshot_record r s \<noteq> Panic m" for m
    using l by (auto simp: snapshot_record_def rbind_eq_Panic)
  show ?case
  proof (cases "snapshot_record r s")
    case (Ok s1)
    then show ?thesis using Cons.IH by simp
  next
    case (Err e')
    then show ?thesis using e by (auto simp: snapshot_record_def rbind_eq_Err)
  qed (use np in simp)
qed simp

text \<open>The initial snapshot holds no measurement.\<close>

lemma snapshot_start:
  "snapshot_inv [] \<lparr>sn_count = n, sn_ids = ids, sn_budgets = b, sn_logical_model = byte_total_zero,
     sn_file_backed = byte_total_zero, sn_file_backed_by_domain = [], sn_requested = [],
     sn_actual = [], sn_padding = [], sn_resident = [], sn_by_category = []\<rparr>"
  by (simp add: snapshot_inv_def logical_items_def file_items_def domain_items_def category_items_def
      allocated_def map_filter_def totals_zero totals_by_Nil)

text \<open>The reading of a map of totals at one key.\<close>

lemma totals_by_get:
  assumes "totals_by kms mp"
  shows "case om_get mp k of
      None \<Rightarrow> filter (\<lambda>p. fst p = k) kms = []
    | Some t \<Rightarrow> bt_exact t = (\<Sum>(k', m) \<leftarrow> filter (\<lambda>p. fst p = k) kms. exact_part m)
        \<and> bt_estimated t = (\<Sum>(k', m) \<leftarrow> filter (\<lambda>p. fst p = k) kms. estimated_part m)
        \<and> bt_unknown t = (\<Sum>(k', m) \<leftarrow> filter (\<lambda>p. fst p = k) kms. unknown_part m)"
proof (cases "om_get mp k")
  case None
  then show ?thesis using totals_byD(2) [OF assms] by (force simp: filter_empty_conv)
next
  case (Some t)
  then show ?thesis
    using totals_byD(3) [OF assms] by (simp add: totals_def comp_def case_prod_unfold)
qed

subsection \<open>Properties\<close>

text \<open>
  C11: after any run of insertions and removals on a fresh registry the allocation index is the exact
  inverse of the stored records, and an insertion is accepted precisely when its resource id is
  nonempty and new and its allocation id, if any, is nonempty and not carried by any stored record.
  An accepted insertion adds exactly that record; a refused one changes nothing and never panics.
\<close>

theorem registry_insert_outcome:
  assumes "registry_step\<^sup>*\<^sup>* (accounting_new b) a" and "accounting_insert rec a = (a', r)"
  shows "registry_ok a \<and> registry_ok a' \<and> \<not> is_panic r
    \<and> (is_ok r \<longleftrightarrow> rr_id rec \<noteq> [] \<and> accounting_get a (rr_id rec) = None
        \<and> (case allocation_of rec of None \<Rightarrow> True | Some aid \<Rightarrow> aid \<noteq> []
            \<and> (\<forall>rid q. accounting_get a rid = Some q \<longrightarrow> allocation_of q \<noteq> Some aid)))
    \<and> (if is_ok r then accounting_get a' = (accounting_get a)(rr_id rec \<mapsto> rec) else a' = a)"
proof -
  have "registry_ok (accounting_new b)" by (simp add: registry_ok_def accounting_new_def)
  then have ok: "registry_ok a" using registry_steps_ok assms(1) by blast
  have ok': "registry_ok a'" using ok registry_step_ok step_insert assms(2) by blast
  have index: "om_mem (ra_owners a) aid \<longleftrightarrow>
      (\<exists>rid q. accounting_get a rid = Some q \<and> allocation_of q = Some aid)" for aid
    using registry_okD(4) [OF ok, of aid]
    by (auto simp: om_mem_iff accounting_get_def bind_eq_Some_conv)
  have "is_ok r \<longleftrightarrow> rr_id rec \<noteq> [] \<and> accounting_get a (rr_id rec) = None
        \<and> (case allocation_of rec of None \<Rightarrow> True | Some aid \<Rightarrow> aid \<noteq> [] \<and> \<not> om_mem (ra_owners a) aid)"
    using assms(2)
    by (cases "rr_allocation rec")
      (auto simp: accounting_insert_def allocation_of_def accounting_get_def om_mem_iff split: if_splits)
  moreover have "if is_ok r then accounting_get a' = (accounting_get a)(rr_id rec \<mapsto> rec) else a' = a"
  proof (cases r)
    case (Ok u)
    then have "om_get (ra_resources a') = (om_get (ra_resources a))(rr_id rec \<mapsto> rec)"
      using accounting_insert_ok [OF ok, of rec a' u] assms(2) by simp
    then show ?thesis using Ok by (auto simp: accounting_get_def fun_eq_iff)
  qed (use accounting_insert_err [OF assms(2)] in auto)
  moreover have "\<not> is_panic r"
    using accounting_insert_err [OF assms(2)] by (cases r) auto
  ultimately show ?thesis using ok ok' by (simp add: index split: option.splits)
qed

theorem registry_insert_outcome_witness:
  "\<exists>a rec. snd (accounting_insert rec a) = Ok () \<and> accounting_get a (rr_id rec) = None
    \<and> rr_allocation rec \<noteq> None"
proof -
  let ?rec = "record_runtime ''kv'' \<lparr>ro_model = None, ro_layer = None, ro_tensor = None\<rparr> KvCache HostRam
    ''cache'' (unknown_bytes '''') (Some (allocation_unmeasured ''a'' HostRam (unknown_bytes '''') None None ''''))"
  let ?a = "accounting_new (budgets_host_ram 8)"
  have "is_ok (snd (accounting_insert ?rec ?a)) \<longleftrightarrow> True"
    using registry_insert_outcome [of "budgets_host_ram 8" ?a ?rec, OF _ surjective_pairing]
    by (simp add: accounting_get_def accounting_new_def record_runtime_def allocation_of_def
        allocation_unmeasured_def allocation_new_def)
  then have "snd (accounting_insert ?rec ?a) = Ok ()" by (cases "snd (accounting_insert ?rec ?a)") auto
  then show ?thesis
    by (intro exI [of _ ?a] exI [of _ ?rec]) (simp add: accounting_get_def accounting_new_def record_runtime_def)
qed

text \<open>
  A snapshot totals every record exactly once. It lists the ids, and the exact, estimated and
  unknown parts of the logical model bytes, the file-backed bytes, the four allocation measures of
  every memory domain and the actual bytes of every domain and category are the sums over the stored
  records concerned; a domain or category is absent only when no record belongs to it. The only error
  is an arithmetic overflow, which does not occur while all measured bytes together fit a \<open>u64\<close>.
\<close>

theorem snapshot_totals:
  assumes "registry_ok a"
  shows "\<not> is_panic (snapshot a)
    \<and> (\<forall>e. snapshot a = Err e \<longrightarrow> (\<exists>label. e = ArithmeticOverflow label)
        \<and> U64_MAX < record_weights (map snd (ra_resources a)))
    \<and> (\<forall>s. snapshot a = Ok s \<longrightarrow> sn_count s = card (dom (accounting_get a))
        \<and> set (sn_ids s) = dom (accounting_get a) \<and> sn_budgets s = ra_budgets a
        \<and> snapshot_inv (map snd (ra_resources a)) s)"
proof -
  let ?rs = "map snd (ra_resources a)"
  have ok: "om_ok (ra_resources a)" using registry_okD(1) [OF assms] .
  then have dom: "dom (accounting_get a) = set (om_keys (ra_resources a))"
    unfolding accounting_get_def om_keys_def om_get_def by (simp add: dom_map_of_conv_image_fst)
  have card: "card (set (om_keys (ra_resources a))) = length (ra_resources a)"
    using om_ok_distinct [OF ok] by (simp add: om_keys_def distinct_card del: set_map)
  have "record_weights ?rs \<le> U64_MAX \<Longrightarrow> \<exists>s. snapshot a = Ok s"
    unfolding snapshot_def using snapshot_records_fits [OF snapshot_start, of ?rs] by auto
  moreover have "snapshot a = Ok s \<Longrightarrow> sn_count s = card (dom (accounting_get a))
        \<and> set (sn_ids s) = dom (accounting_get a) \<and> sn_budgets s = ra_budgets a
        \<and> snapshot_inv ?rs s" for s
    unfolding snapshot_def using snapshot_records_inv [OF snapshot_start, where qs = ?rs and s' = s]
    by (simp add: dom card)
  moreover have "\<not> is_panic (snapshot a)"
    "snapshot a = Err e \<Longrightarrow> \<exists>label. e = ArithmeticOverflow label" for e
    unfolding snapshot_def using snapshot_records_err by blast+
  ultimately show ?thesis by (cases "snapshot a") (auto simp: not_le [symmetric])
qed

theorem snapshot_totals_witness:
  "\<exists>a s. snapshot a = Ok s \<and> set (sn_ids s) = dom (accounting_get a) \<and> ra_resources a \<noteq> []"
proof -
  let ?rec = "record_unmeasured ''kv'' \<lparr>ro_model = None, ro_layer = None, ro_tensor = None\<rparr> KvCache HostRam
    '''' None"
  let ?a = "fst (accounting_insert ?rec (accounting_new (budgets_host_ram 8)))"
  have a: "?a = \<lparr>ra_budgets = budgets_host_ram 8, ra_resources = [(''kv'', ?rec)], ra_owners = []\<rparr>"
    by (simp add: accounting_insert_def accounting_new_def record_unmeasured_def om_mem_def)
  have "registry_ok (accounting_new (budgets_host_ram 8))"
    by (simp add: registry_ok_def accounting_new_def)
  then have ok: "registry_ok ?a" using registry_step_ok step_insert prod.collapse by metis
  have w: "record_weights (map snd (ra_resources ?a)) \<le> U64_MAX"
    unfolding a
    by (simp add: record_weight_def record_unmeasured_def measurement_weight_def exact_part_def
        estimated_part_def unknown_part_def is_exact_def is_estimated_def unknown_bytes_def U64_MAX_def)
  note t = snapshot_totals [OF ok]
  then obtain s where "snapshot ?a = Ok s" using w by (cases "snapshot ?a") auto
  moreover have "ra_resources ?a \<noteq> []" unfolding a by simp
  ultimately show ?thesis using t by blast
qed

lemma sum_list_parts_add:
  "(\<And>p. p \<in> set ps \<Longrightarrow> f p = g p + h p) \<Longrightarrow>
    sum_list (map f ps) = sum_list (map g ps) + (sum_list (map h ps) :: nat)"
  by (induction ps) auto

lemma sum_domain_items:
  "(\<Sum>(k', m) \<leftarrow> filter (\<lambda>p. fst p = d) (domain_items f rs). g m) =
    (\<Sum>(r, al) \<leftarrow> filter (\<lambda>(r, al). al_domain al = d) (allocated rs). g (f al))"
  by (simp add: domain_items_def filter_map comp_def case_prod_unfold)

lemma no_domain_items:
  "filter (\<lambda>p. fst p = d) (domain_items f rs) = [] \<longleftrightarrow> filter (\<lambda>(r, al). al_domain al = d) (allocated rs) = []"
  by (simp add: domain_items_def filter_map comp_def case_prod_unfold)

lemma in_allocated: "(r, al) \<in> set (allocated rs) \<Longrightarrow> r \<in> set rs \<and> rr_allocation r = Some al"
  by (induction rs) (auto simp: allocated_def map_filter_def split: option.splits if_splits)

text \<open>
  When every allocation in a memory domain was built by \<open>AllocationRecord::new\<close> from exact
  sizes, the actual one not smaller than the requested one, the snapshot's actual bytes of the domain
  are its requested bytes plus its padding, all three exact; the three readings of the snapshot
  (\<open>host_actual\<close>, \<open>device_actual\<close>) return those totals, or nothing for a domain without allocations.
\<close>

theorem snapshot_padding_identity:
  assumes "registry_ok a" and "snapshot a = Ok s"
    and "\<And>rid r al. accounting_get a rid = Some r \<Longrightarrow> rr_allocation r = Some al \<Longrightarrow> al_domain al = d \<Longrightarrow>
      (\<exists>x y res align bk. y \<ge> x \<and> al = allocation_new (al_id al) d (exact_bytes x RuntimeAllocator)
         (exact_bytes y RuntimeAllocator) res align bk)"
  shows "(case om_get (sn_actual s) d of
      None \<Rightarrow> om_get (sn_requested s) d = None \<and> om_get (sn_padding s) d = None
    | Some t \<Rightarrow> total_is_exact t \<and> (\<exists>tr tp. om_get (sn_requested s) d = Some tr \<and> total_is_exact tr
        \<and> om_get (sn_padding s) d = Some tp \<and> total_is_exact tp \<and> bt_exact t = bt_exact tr + bt_exact tp))
    \<and> (d = HostRam \<longrightarrow> host_actual s = om_get (sn_actual s) d)
    \<and> (\<forall>dev. d = Device dev \<longrightarrow> device_actual s dev = om_get (sn_actual s) d)"
proof -
  let ?rs = "map snd (ra_resources a)"
  let ?al = "filter (\<lambda>(r, al). al_domain al = d) (allocated ?rs)"
  have inv: "snapshot_inv ?rs s" using snapshot_totals [OF assms(1)] assms(2) by blast
  have stored: "r \<in> set ?rs \<Longrightarrow> \<exists>rid. accounting_get a rid = Some r" for r
    using registry_okD(1) [OF assms(1)] by (auto simp: accounting_get_def om_get_in_set [symmetric])
  have al: "exact_part (al_actual al) = exact_part (al_requested al) + exact_part (al_padding al)
      \<and> estimated_part (al_actual al) = 0 \<and> unknown_part (al_actual al) = 0
      \<and> estimated_part (al_requested al) = 0 \<and> unknown_part (al_requested al) = 0
      \<and> estimated_part (al_padding al) = 0 \<and> unknown_part (al_padding al) = 0"
    if "(r, al) \<in> set ?al" for r al
  proof -
    have "r \<in> set ?rs" "rr_allocation r = Some al" "al_domain al = d"
      using that in_allocated [of r al ?rs] by auto
    moreover from this obtain rid where "accounting_get a rid = Some r" using stored by blast
    ultimately obtain x y res align bk where xy: "x \<le> y" and new: "al = allocation_new (al_id al) d
        (exact_bytes x RuntimeAllocator) (exact_bytes y RuntimeAllocator) res align bk"
      using assms(3) [of rid r al] by blast
    show ?thesis
      using xy by (subst (1 2 3 4 5 6 7 8 9) new) (simp add: allocation_new_def alignment_padding_def exact_part_def
          estimated_part_def unknown_part_def exact_bytes_def is_exact_def is_estimated_def
          is_unknown_def Let_def)
  qed
  note g = inv [unfolded snapshot_inv_def]
  have sums: "(\<Sum>(r, al) \<leftarrow> ?al. exact_part (al_actual al)) =
      (\<Sum>(r, al) \<leftarrow> ?al. exact_part (al_requested al)) + (\<Sum>(r, al) \<leftarrow> ?al. exact_part (al_padding al))"
    using al by (intro sum_list_parts_add) auto
  have zero: "(\<Sum>(r, al) \<leftarrow> ?al. estimated_part (f al)) = 0 \<and> (\<Sum>(r, al) \<leftarrow> ?al. unknown_part (f al)) = 0"
    if "f \<in> {al_actual, al_requested, al_padding}" for f
  proof -
    have "estimated_part (f al) = 0 \<and> unknown_part (f al) = 0" if "(r, al) \<in> set ?al" for r al
      using al [OF that] \<open>f \<in> {al_actual, al_requested, al_padding}\<close> by blast
    then show ?thesis by (auto simp: case_prod_unfold)
  qed
  have q: "totals_by (domain_items f ?rs) mp \<Longrightarrow> case om_get mp d of None \<Rightarrow> ?al = []
      | Some t \<Rightarrow> ?al \<noteq> [] \<and> bt_exact t = (\<Sum>(r, al) \<leftarrow> ?al. exact_part (f al))
          \<and> bt_estimated t = (\<Sum>(r, al) \<leftarrow> ?al. estimated_part (f al))
          \<and> bt_unknown t = (\<Sum>(r, al) \<leftarrow> ?al. unknown_part (f al))" for f mp
    using totals_by_get [of "domain_items f ?rs" mp d] totals_byD(3) [of "domain_items f ?rs" mp d]
      no_domain_items [of d f ?rs]
    by (cases "om_get mp d") (auto simp: sum_domain_items filter_empty_conv)
  have qs: "totals_by (domain_items al_actual ?rs) (sn_actual s)"
    "totals_by (domain_items al_requested ?rs) (sn_requested s)"
    "totals_by (domain_items al_padding ?rs) (sn_padding s)" using g by blast+
  have "case om_get (sn_actual s) d of
      None \<Rightarrow> om_get (sn_requested s) d = None \<and> om_get (sn_padding s) d = None
    | Some t \<Rightarrow> total_is_exact t \<and> (\<exists>tr tp. om_get (sn_requested s) d = Some tr \<and> total_is_exact tr
        \<and> om_get (sn_padding s) d = Some tp \<and> total_is_exact tp \<and> bt_exact t = bt_exact tr + bt_exact tp)"
  proof (cases "om_get (sn_actual s) d")
    case None
    then have "?al = []" using q [OF qs(1)] by simp
    then show ?thesis using q [OF qs(2)] q [OF qs(3)] None
      by (cases "om_get (sn_requested s) d"; cases "om_get (sn_padding s) d") simp_all
  next
    case (Some t)
    then have ne: "?al \<noteq> []" using q [OF qs(1)] by simp
    then obtain tr tp where t: "om_get (sn_requested s) d = Some tr" "om_get (sn_padding s) d = Some tp"
      using q [OF qs(2)] q [OF qs(3)]
      by (cases "om_get (sn_requested s) d"; cases "om_get (sn_padding s) d") simp_all
    show ?thesis
      using q [OF qs(1)] q [OF qs(2)] q [OF qs(3)] sums zero [of al_actual] zero [of al_requested]
        zero [of al_padding]
      by (simp add: Some t total_is_exact_def)
  qed
  then show ?thesis by (auto simp: host_actual_def device_actual_def)
qed

theorem snapshot_padding_identity_witness:
  "\<exists>a s t. snapshot a = Ok s \<and> om_get (sn_actual s) HostRam = Some t \<and> bt_exact t = 16 \<and> host_actual s = Some t"
proof -
  let ?al = "allocation_new ''a'' HostRam (exact_bytes 10 RuntimeAllocator) (exact_bytes 16 RuntimeAllocator)
    (unknown_bytes '''') None None"
  let ?rec = "record_runtime ''kv'' \<lparr>ro_model = None, ro_layer = None, ro_tensor = None\<rparr> KvCache HostRam
    ''cache'' (unknown_bytes '''') (Some ?al)"
  obtain a where a: "a = fst (accounting_insert ?rec (accounting_new (budgets_host_ram 8)))" by blast
  have a': "ra_resources a = [(''kv'', ?rec)]"
    by (simp add: a accounting_insert_def accounting_new_def record_runtime_def om_mem_def allocation_new_def)
  have "registry_ok (accounting_new (budgets_host_ram 8))"
    by (simp add: registry_ok_def accounting_new_def)
  then have ok: "registry_ok a" unfolding a using registry_step_ok step_insert prod.collapse by metis
  have e: "add_measurement (exact_bytes n p) l byte_total_zero =
      Ok \<lparr>bt_exact = n, bt_estimated = 0, bt_unknown = 0, bt_reasons = []\<rparr>" if "n \<le> U64_MAX" for n p l
    using that by (simp add: add_measurement_def exact_bytes_def byte_total_zero_def checked_add_def)
  have u: "\<exists>t. add_measurement (unknown_bytes q) l byte_total_zero = Ok t" for q l
    by (simp add: add_measurement_def unknown_bytes_def byte_total_zero_def checked_add_def U64_MAX_def)
  have pad: "alignment_padding (exact_bytes 10 RuntimeAllocator) (exact_bytes 16 RuntimeAllocator)
      = exact_bytes 6 (Derived ''actual minus requested allocation'')"
    by (simp add: alignment_padding_def exact_bytes_def is_exact_def)
  have small: "10 \<le> U64_MAX" "16 \<le> U64_MAX" "6 \<le> U64_MAX" by (simp_all add: U64_MAX_def)
  have al: "al_domain ?al = HostRam" "al_actual ?al = exact_bytes 16 RuntimeAllocator"
    "al_requested ?al = exact_bytes 10 RuntimeAllocator" "al_resident ?al = unknown_bytes ''''"
    "al_padding ?al = exact_bytes 6 (Derived ''actual minus requested allocation'')"
    by (simp_all add: allocation_new_def pad)
  have rec: "rr_kind ?rec = KvCache" "rr_allocation ?rec = Some ?al" "origin_file_range (rr_origin ?rec) = None"
    by (simp_all add: record_runtime_def)
  obtain t where "add_measurement (unknown_bytes '''') (''resident allocation '' @ quoted (rr_id ?rec))
      byte_total_zero = Ok t" using u by blast
  then obtain s where s: "snapshot a = Ok s"
    by (auto simp: snapshot_def a' snapshot_record_def snapshot_logical_def snapshot_file_range_def
        snapshot_allocation_def rec al add_total_def e small Let_def)
  have inv: "snapshot_inv [?rec] s" using snapshot_totals [OF ok] s a' by simp
  have prem: "accounting_get a rid = Some r \<Longrightarrow> rr_allocation r = Some q \<Longrightarrow> al_domain q = HostRam \<Longrightarrow>
      (\<exists>x y res align bk. y \<ge> x \<and> q = allocation_new (al_id q) HostRam (exact_bytes x RuntimeAllocator)
         (exact_bytes y RuntimeAllocator) res align bk)" for rid r q
  proof -
    assume "accounting_get a rid = Some r" "rr_allocation r = Some q"
    then have q: "q = ?al" using rec(2) by (auto simp: accounting_get_def a' split: if_splits)
    have "al_id ?al = ''a''" by (simp add: allocation_new_def)
    then show ?thesis unfolding q
      by (intro exI [of _ 10] exI [of _ 16] exI [of _ "unknown_bytes ''''"] exI [of _ None]) simp
  qed
  have "host_actual s = om_get (sn_actual s) HostRam"
    by (rule snapshot_padding_identity [OF ok s, of HostRam, THEN conjunct2, THEN conjunct1,
          rule_format, OF _ refl]) (rule prem)
  note p = this
  have it: "domain_items f [?rec] = [(HostRam, f ?al)]" for f
    by (simp add: domain_items_def allocated_def map_filter_def rec al)
  have "totals_by (domain_items al_actual [?rec]) (sn_actual s)" using inv by (simp add: snapshot_inv_def)
  note g = totals_by_get [OF this, of HostRam, unfolded it al]
  have "exact_part (exact_bytes 16 RuntimeAllocator) = 16"
    by (simp add: exact_part_def exact_bytes_def is_exact_def)
  then obtain t where "om_get (sn_actual s) HostRam = Some t" "bt_exact t = 16"
    using g by (cases "om_get (sn_actual s) HostRam") simp_all
  then show ?thesis using s p by metis
qed

lemma div_ceil_dvd: "0 < b \<Longrightarrow> b dvd n \<Longrightarrow> div_ceil n b = n div b"
  by (simp add: div_ceil_def)

lemma split_dot_number: "CHR ''.'' \<notin> set s \<Longrightarrow> split_dot (s @ CHR ''.'' # t) = Some (s, t)"
  by (induction s) auto

lemma show_nat_no_dot: "CHR ''.'' \<notin> set (show_nat i)"
  using show_nat_digits [of "CHR ''.''" i] by auto

lemma layer_name:
  "CHR ''.'' \<notin> set number \<Longrightarrow> layer_id_from_tensor_name (''blk.'' @ number @ ''.'' @ suffix) =
    (if suffix = [] then None else parse_u64 number)"
  by (simp add: layer_id_from_tensor_name_def strip_prefix_def split_dot_number starts_with_def)

lemma blk_not_special:
  "classify_tensor_name (''blk.'' @ s) = (case layer_id_from_tensor_name (''blk.'' @ s) of
     Some l \<Rightarrow> (Weight (Layer l), Some l) | None \<Rightarrow> (Weight (OtherScope ''model''), None))"
  by (simp add: classify_tensor_name_def starts_with_def)

lemma parse_u64_variants:
  assumes "i \<le> U64_MAX"
  shows "parse_u64 (CHR ''0'' # show_nat i) = Some i" and "parse_u64 (CHR ''+'' # show_nat i) = Some i"
proof -
  have "digit_value CHR ''0'' = Some 0" by (simp add: digit_value_def)
  then show "parse_u64 (CHR ''0'' # show_nat i) = Some i" "parse_u64 (CHR ''+'' # show_nat i) = Some i"
    using parse_show_digits [OF assms]
    by (simp_all add: parse_u64_def checked_mul_def checked_add_def)
qed

text \<open>
  The logical size of a tensor against the byte length the parser gives its descriptor. For every
  element count the parser can size, the logical size is known exactly when the count is zero or a
  whole number of blocks of a known type, and then it is the parser's byte length; otherwise it is
  unknown. A known size is marked exact, or estimated for the types with best-effort block tables, and
  a record built from a descriptor carries both sizes.
\<close>

theorem logical_bytes_agree_with_file:
  assumes "n \<noteq> U64_MAX"
  shows "bm_bytes (measure_logical_tensor_bytes ty n) =
      (if n = 0 then Some 0
       else case type_info ty of
         None \<Rightarrow> None
       | Some (block, _) \<Rightarrow> if block dvd n then tensor_byte_length ty n else None)
    \<and> (is_estimated (measure_logical_tensor_bytes ty n) \<longleftrightarrow>
        bm_bytes (measure_logical_tensor_bytes ty n) \<noteq> None \<and> n \<noteq> 0 \<and> ty \<in> set best_effort_types)
    \<and> (is_unknown (measure_logical_tensor_bytes ty n) \<longleftrightarrow>
        bm_bytes (measure_logical_tensor_bytes ty n) = None)
    \<and> origin_logical_bytes (rr_origin (from_descriptor model path d)) =
        measure_logical_tensor_bytes (td_type d) (num_elements d)"
proof (intro conjI)
  note defs = measure_logical_tensor_bytes_def exact_bytes_def estimated_bytes_def unknown_bytes_def
    is_estimated_def is_unknown_def

  let ?q = "bm_bytes (measure_logical_tensor_bytes ty n) =
      (if n = 0 then Some 0
       else case type_info ty of
         None \<Rightarrow> None
       | Some (block, _) \<Rightarrow> if block dvd n then tensor_byte_length ty n else None)"
  let ?e = "is_estimated (measure_logical_tensor_bytes ty n) \<longleftrightarrow>
        bm_bytes (measure_logical_tensor_bytes ty n) \<noteq> None \<and> n \<noteq> 0 \<and> ty \<in> set best_effort_types"
  let ?u = "is_unknown (measure_logical_tensor_bytes ty n) \<longleftrightarrow>
        bm_bytes (measure_logical_tensor_bytes ty n) = None"
  have "?q \<and> ?e \<and> ?u"
  proof (cases "type_info ty")
    case None
    then show ?thesis by (simp add: defs)
  next
    case (Some p)
    obtain b s where p: "p = (b, s)" by (cases p)
    have "0 < b" using type_info_pos Some p by blast
    moreover have "n mod b \<noteq> 0 \<Longrightarrow> 1 < b" using \<open>0 < b\<close> by (cases "b = 1") auto
    ultimately show ?thesis
      using assms Some p
      by (cases "checked_mul (n div b) s"; cases "n mod b = 0"; cases "n = 0";
          cases "ty \<in> set best_effort_types")
        (simp_all add: defs tensor_byte_length_def div_ceil_dvd dvd_eq_mod_eq_0 del: checked_mul_eq_Some
          checked_mul_eq_None)
  qed
  then show ?q ?e ?u by blast+
  show "origin_logical_bytes (rr_origin (from_descriptor model path d)) =
        measure_logical_tensor_bytes (td_type d) (num_elements d)"
    by (simp add: from_descriptor_def from_descriptor_with_kind_def Let_def split: prod.split)
qed

theorem logical_bytes_agree_with_file_witness:
  "bm_bytes (measure_logical_tensor_bytes Q4_0 64) = Some 36 \<and> bm_bytes (measure_logical_tensor_bytes Q4_0 33) = None"
proof -
  have n: "64 \<noteq> U64_MAX" "33 \<noteq> U64_MAX" by (simp_all add: U64_MAX_def)
  show ?thesis
    using logical_bytes_agree_with_file [OF n(1), of Q4_0] logical_bytes_agree_with_file [OF n(2), of Q4_0] n
    by (simp add: tensor_byte_length_def div_ceil_def checked_mul_def U64_MAX_def)
qed

text \<open>
  Tensor names. A name \<open>blk.<i>.<suffix>\<close> with the decimal form of a \<open>u64\<close> index and a
  nonempty suffix is classified as a weight of layer \<open>i\<close>, and different indices are different
  layers; the code also accepts leading zeros and a plus sign, so that \<open>blk.01.w\<close> and \<open>blk.+1.w\<close> are
  weights of layer 1 although they do not start with \<open>blk.1.\<close>, the prefix by which the layer grouping
  selects.
\<close>

theorem classify_tensor_name_layers:
  assumes "i \<le> U64_MAX" and "suffix \<noteq> []"
  shows "classify_tensor_name (''blk.'' @ show_nat i @ ''.'' @ suffix) = (Weight (Layer i), Some i)
    \<and> classify_tensor_name (''blk.0'' @ show_nat i @ ''.'' @ suffix) = (Weight (Layer i), Some i)
    \<and> classify_tensor_name (''blk.+'' @ show_nat i @ ''.'' @ suffix) = (Weight (Layer i), Some i)
    \<and> \<not> starts_with (''blk.+'' @ show_nat i @ ''.'' @ suffix) (''blk.'' @ show_nat i @ ''.'')
    \<and> classify_tensor_name (''blk.'' @ show_nat i @ ''.'') = (Weight (OtherScope ''model''), None)"
proof (intro conjI)
  show "classify_tensor_name (''blk.'' @ show_nat i @ ''.'' @ suffix) = (Weight (Layer i), Some i)"
    using layer_name [OF show_nat_no_dot, of i suffix] assms blk_not_special
    by (simp only: parse_show_nat if_False option.case)
  have "CHR ''.'' \<notin> set (CHR ''0'' # show_nat i)" "CHR ''.'' \<notin> set (CHR ''+'' # show_nat i)"
    using show_nat_no_dot by simp_all
  from this [THEN layer_name, of suffix]
  show "classify_tensor_name (''blk.0'' @ show_nat i @ ''.'' @ suffix) = (Weight (Layer i), Some i)"
    "classify_tensor_name (''blk.+'' @ show_nat i @ ''.'' @ suffix) = (Weight (Layer i), Some i)"
    using blk_not_special [of "CHR ''0'' # show_nat i @ ''.'' @ suffix"]
      blk_not_special [of "CHR ''+'' # show_nat i @ ''.'' @ suffix"] assms
    by (simp_all add: parse_u64_variants)
  obtain c cs where s: "show_nat i = c # cs" by (cases "show_nat i") auto
  then have "c \<noteq> CHR ''+''" using show_nat_digits [of c i] by auto
  then show "\<not> starts_with (''blk.+'' @ show_nat i @ ''.'' @ suffix) (''blk.'' @ show_nat i @ ''.'')"
    by (simp add: starts_with_def s)
  show "classify_tensor_name (''blk.'' @ show_nat i @ ''.'') = (Weight (OtherScope ''model''), None)"
    using layer_name [OF show_nat_no_dot, of i "[]"] blk_not_special [of "show_nat i @ ''.''"] by simp
qed

theorem classify_tensor_name_layers_witness:
  "classify_tensor_name (''blk.'' @ show_nat 1 @ ''.'' @ ''w'') = (Weight (Layer 1), Some 1)"
  using classify_tensor_name_layers [of 1 "''w''"] by (simp add: U64_MAX_def)

end
