(* ===== verification/Page_Intervals.thy ===== *)
theory Page_Intervals
  imports Prelude
begin

section \<open>Page intervals\<close>

text \<open>
  The half-open byte intervals of \<open>crates/ramforge-runtime/src/residency_engine.rs\<close>:
  \<open>merged_interval_bytes\<close> (the size of a union, after sorting), \<open>covered_bytes\<close> and
  \<open>insert_interval\<close> (the requested ranges of the staging plan, kept sorted and apart). The
  specification of all three is the set of bytes that a list of intervals covers.
\<close>

type_synonym interval = "u64 \<times> u64"

fun merge_loop :: "u64 \<Rightarrow> u64 \<Rightarrow> u64 \<Rightarrow> interval list \<Rightarrow> u64" where
  "merge_loop total_bytes first last_end [] = wrapping_sub (wrapping_add total_bytes last_end) first"
| "merge_loop total_bytes first last_end ((next_first, next_last) # rest) =
     (if last_end < next_first
      then merge_loop (wrapping_add total_bytes (wrapping_sub last_end first)) next_first next_last rest
      else if last_end < next_last then merge_loop total_bytes first next_last rest
      else merge_loop total_bytes first last_end rest)"

definition merged_interval_bytes :: "interval list \<Rightarrow> u64" where
  "merged_interval_bytes intervals =
     (case sort intervals of [] \<Rightarrow> 0 | (first, last_end) # rest \<Rightarrow> merge_loop 0 first last_end rest)"

definition covered_bytes :: "interval list \<Rightarrow> u64 \<Rightarrow> u64 \<Rightarrow> u64" where
  "covered_bytes ranges start stop =
     (if stop \<le> start then 0
      else fold (\<lambda>(range_start, range_end) covered.
          let first = max start range_start; final = min stop range_end in
          if first < final then saturating_add covered (final - first) else covered) ranges 0)"

fun insert_loop :: "interval list \<Rightarrow> interval \<Rightarrow> interval list" where
  "insert_loop [] pending = [pending]"
| "insert_loop ((range_start, range_end) # rest) pending =
     (if range_end < fst pending then (range_start, range_end) # insert_loop rest pending
      else if snd pending < range_start then pending # insert_loop rest (range_start, range_end)
      else insert_loop rest (min (fst pending) range_start, max (snd pending) range_end))"

definition insert_interval :: "interval list \<Rightarrow> u64 \<Rightarrow> u64 \<Rightarrow> interval list" where
  "insert_interval ranges start stop = (if stop \<le> start then ranges else insert_loop ranges (start, stop))"

subsection \<open>The covered set\<close>

definition covered_set :: "interval list \<Rightarrow> nat set" where
  "covered_set ivs = (\<Union>(a, b) \<in> set ivs. {a..<b})"

lemma covered_set_simps [simp]:
  "covered_set [] = {}" "covered_set ((a, b) # ivs) = {a..<b} \<union> covered_set ivs"
  "covered_set (xs @ ys) = covered_set xs \<union> covered_set ys"
  by (auto simp: covered_set_def)

lemma covered_set_sort [simp]: "covered_set (sort ivs) = covered_set ivs"
  by (simp add: covered_set_def)

lemma finite_covered [simp]: "finite (covered_set ivs)"
  by (auto simp: covered_set_def)

lemma covered_set_iff: "x \<in> covered_set ivs \<longleftrightarrow> (\<exists>a b. (a, b) \<in> set ivs \<and> a \<le> x \<and> x < b)"
  by (fastforce simp: covered_set_def)

lemma covered_set_bex: "x \<in> covered_set ivs \<longleftrightarrow> (\<exists>(a, b) \<in> set ivs. a \<le> x \<and> x < b)"
  by (auto simp: covered_set_def case_prod_unfold)

text \<open>Well-formed intervals of a \<open>u64\<close> address range.\<close>

definition proper :: "interval list \<Rightarrow> bool" where
  "proper ivs \<longleftrightarrow> (\<forall>(a, b) \<in> set ivs. a < b \<and> b \<le> U64_MAX)"

lemma covered_set_bound: "proper ivs \<Longrightarrow> covered_set ivs \<subseteq> {..<U64_MAX}"
  by (fastforce simp: proper_def covered_set_iff)

lemma wrap_total: "t + b - a \<le> U64_MAX \<Longrightarrow> a \<le> b \<Longrightarrow> b \<le> U64_MAX \<Longrightarrow> t \<le> U64_MAX \<Longrightarrow>
    wrapping_sub (wrapping_add t b) a = t + b - a"
proof -
  assume *: "t + b - a \<le> U64_MAX" "a \<le> b" "b \<le> U64_MAX" "t \<le> U64_MAX"
  show ?thesis
  proof (cases "t + b \<le> U64_MAX")
    case True
    then show ?thesis using * by (simp add: wrapping_add_exact wrapping_sub_exact)
  next
    case False
    then have "(t + b) mod 2 ^ 64 = t + b - 2 ^ 64"
      using * by (subst le_mod_geq) (simp_all add: U64_MAX_def)
    then show ?thesis using False * by (simp add: wrapping_add_def wrapping_sub_def U64_MAX_def)
  qed
qed

text \<open>
  The loop over sorted intervals: \<open>done\<close> is the covered set left of the current run
  \<open>[first, last_end)\<close>, which no later interval reaches.
\<close>

lemma merge_loop_card:
  assumes "sorted (map fst ivs)" and "proper ivs" and "\<forall>p \<in> set ivs. first \<le> fst p"
    and "first < last_end" and "last_end \<le> U64_MAX" and "total_bytes \<le> first"
  shows "merge_loop total_bytes first last_end ivs = total_bytes + card ({first..<last_end} \<union> covered_set ivs)"
  using assms
proof (induction ivs arbitrary: total_bytes first last_end)
  case Nil
  then show ?case by (simp add: wrap_total)
next
  case (Cons p ivs)
  obtain a b where p: "p = (a, b)" by (cases p)
  have ab: "a < b" "b \<le> U64_MAX" "first \<le> a" "proper ivs" "sorted (map fst ivs)"
    "\<forall>p \<in> set ivs. a \<le> fst p"
    using Cons.prems by (auto simp: p proper_def)
  consider (gap) "last_end < a" | (extend) "a \<le> last_end" "last_end < b" | (inside) "a \<le> last_end" "b \<le> last_end"
    by linarith
  then show ?case
  proof cases
    case gap
    let ?t = "total_bytes + (last_end - first)"
    have t: "wrapping_add total_bytes (wrapping_sub last_end first) = ?t"
      using Cons.prems by (simp add: wrapping_sub_exact wrapping_add_exact)
    have "merge_loop ?t a b ivs = ?t + card ({a..<b} \<union> covered_set ivs)"
      using ab gap Cons.prems by (intro Cons.IH) auto
    moreover have "{first..<last_end} \<inter> ({a..<b} \<union> covered_set ivs) = {}"
      using gap ab(6) by (fastforce simp: covered_set_iff)
    then have "card ({first..<last_end} \<union> ({a..<b} \<union> covered_set ivs)) =
        (last_end - first) + card ({a..<b} \<union> covered_set ivs)"
      by (subst card_Un_disjoint) auto
    ultimately show ?thesis using gap t by (simp add: p)
  next
    case extend
    have "merge_loop total_bytes first b ivs = total_bytes + card ({first..<b} \<union> covered_set ivs)"
      using ab extend Cons.prems by (intro Cons.IH) auto
    moreover have "{first..<last_end} \<union> ({a..<b} \<union> covered_set ivs) = {first..<b} \<union> covered_set ivs"
      using extend ab Cons.prems by auto
    ultimately show ?thesis using extend by (simp add: p)
  next
    case inside
    have "merge_loop total_bytes first last_end ivs = total_bytes + card ({first..<last_end} \<union> covered_set ivs)"
      using ab inside Cons.prems by (intro Cons.IH) auto
    moreover have "{first..<last_end} \<union> ({a..<b} \<union> covered_set ivs) = {first..<last_end} \<union> covered_set ivs"
      using inside ab Cons.prems by auto
    ultimately show ?thesis using inside by (simp add: p)
  qed
qed

lemma sorted_fst: "sorted ivs \<Longrightarrow> sorted (map fst ivs)" for ivs :: "interval list"
  by (induction ivs) (auto simp: less_eq_prod_def)

lemma merged_interval_bytes_card:
  assumes "proper ivs"
  shows "merged_interval_bytes ivs = card (covered_set ivs)"
proof (cases "sort ivs")
  case Nil
  then have "ivs = []" by (metis length_0_conv length_sort)
  then show ?thesis by (simp add: merged_interval_bytes_def)
next
  case (Cons p rest)
  obtain a b where p: "p = (a, b)" by (cases p)
  have s: "sorted (map fst (sort ivs))" by (rule sorted_fst) simp
  have pr: "proper (sort ivs)" using assms by (simp add: proper_def)
  have "merge_loop 0 a b rest = 0 + card ({a..<b} \<union> covered_set rest)"
    using s pr by (intro merge_loop_card) (auto simp: Cons p proper_def)
  moreover have "covered_set ivs = {a..<b} \<union> covered_set rest"
    using covered_set_sort [of ivs] Cons p by simp
  ultimately show ?thesis by (simp add: merged_interval_bytes_def Cons p)
qed

subsection \<open>Sorted, separated ranges\<close>

definition separated :: "interval list \<Rightarrow> bool" where
  "separated ivs \<longleftrightarrow> sorted_wrt (\<lambda>p q. snd p < fst q) ivs \<and> proper ivs"

lemma separated_Nil [simp]: "separated []"
  by (simp add: separated_def proper_def)

lemma separated_Cons:
  "separated ((a, b) # ivs) \<longleftrightarrow> a < b \<and> b \<le> U64_MAX \<and> (\<forall>q \<in> set ivs. b < fst q) \<and> separated ivs"
  by (auto simp: separated_def proper_def)

lemma separated_proper: "separated ivs \<Longrightarrow> proper ivs"
  by (simp add: separated_def)

lemma covered_by_one_fold:
  assumes "separated ivs" and "acc + card (covered_set ivs \<inter> {start..<stop}) \<le> U64_MAX"
  shows "fold (\<lambda>(range_start, range_end) covered.
          let first = max start range_start; final = min stop range_end in
          if first < final then saturating_add covered (final - first) else covered) ivs acc
    = acc + card (covered_set ivs \<inter> {start..<stop})"
  using assms
proof (induction ivs arbitrary: acc)
  case (Cons p ivs)
  obtain a b where p: "p = (a, b)" by (cases p)
  have sep: "separated ivs" "a < b" "\<forall>q \<in> set ivs. b < fst q"
    using Cons.prems(1) by (auto simp: p separated_Cons)
  have "{a..<b} \<inter> covered_set ivs = {}"
    using sep by (fastforce simp: covered_set_iff)
  moreover have "{a..<b} \<inter> {start..<stop} = {max start a..<min stop b}" by auto
  moreover have "covered_set (p # ivs) \<inter> {start..<stop} =
      ({a..<b} \<inter> {start..<stop}) \<union> (covered_set ivs \<inter> {start..<stop})" by (auto simp: p)
  ultimately have card: "card (covered_set (p # ivs) \<inter> {start..<stop}) =
      (min stop b - max start a) + card (covered_set ivs \<inter> {start..<stop})"
    by (subst \<open>covered_set (p # ivs) \<inter> {start..<stop} = _\<close>, subst card_Un_disjoint) auto
  have "acc + (min stop b - max start a) \<le> U64_MAX" using Cons.prems(2) card by simp
  then have step: "(if max start a < min stop b
      then saturating_add acc (min stop b - max start a) else acc) = acc + (min stop b - max start a)"
    by (cases "max start a < min stop b")
      (simp_all only: if_True if_False saturating_add_exact not_less diff_is_0_eq' add_0_right if_cancel)
  have "acc + (min stop b - max start a) + card (covered_set ivs \<inter> {start..<stop}) \<le> U64_MAX"
    using Cons.prems(2) card by simp
  from Cons.IH [OF sep(1) this] show ?case
    unfolding card by (simp add: p Let_def step del: max_less_iff_conj min_less_iff_conj)
qed simp

lemma covered_bytes_card:
  assumes "separated ivs" and "stop \<le> U64_MAX"
  shows "covered_bytes ivs start stop = card (covered_set ivs \<inter> {start..<stop})"
proof -
  have "card (covered_set ivs \<inter> {start..<stop}) \<le> card {start..<stop}" by (intro card_mono) auto
  then have "0 + card (covered_set ivs \<inter> {start..<stop}) \<le> U64_MAX" using assms(2) by simp
  note f = covered_by_one_fold [OF assms(1) this]
  show ?thesis unfolding covered_bytes_def f by simp
qed

lemma insert_loop_fst: "q \<in> set (insert_loop ivs p) \<Longrightarrow> fst q \<in> insert (fst p) (fst ` set ivs)"
proof (induction ivs p rule: insert_loop.induct)
  case (2 a b rest p)
  then show ?case by (auto split: if_splits simp: min_def)
qed simp

lemma insert_loop_separated:
  "separated ivs \<Longrightarrow> fst p < snd p \<Longrightarrow> snd p \<le> U64_MAX \<Longrightarrow> separated (insert_loop ivs p)"
proof (induction ivs p rule: insert_loop.induct)
  case (1 p)
  then show ?case by (cases p) (simp add: separated_Cons)
next
  case (2 a b rest p)
  have sep: "separated rest" "a < b" "b \<le> U64_MAX" "\<forall>q \<in> set rest. b < fst q"
    using "2.prems"(1) by (auto simp: separated_Cons)
  obtain x y where p: "p = (x, y)" by (cases p)
  consider "b < x" | "\<not> b < x" "y < a" | "\<not> b < x" "\<not> y < a" by blast
  then show ?case
  proof cases
    case 1
    have "b < fst q" if "q \<in> set (insert_loop rest p)" for q
      using insert_loop_fst [OF that] sep(4) 1 by (auto simp: p)
    then show ?thesis using 1 2 sep by (simp add: p separated_Cons)
  next
    case 2
    have "y < fst q" if "q \<in> set (insert_loop rest (a, b))" for q
      using insert_loop_fst [OF that] sep 2 by auto
    then show ?thesis using 2 "2.IH"(2) "2.prems" sep by (simp add: p separated_Cons)
  next
    case 3
    then show ?thesis using "2.IH"(3) "2.prems" sep by (simp add: p)
  qed
qed




lemma insert_loop_covered:
  "separated ivs \<Longrightarrow> fst p < snd p \<Longrightarrow>
    covered_set (insert_loop ivs p) = {fst p..<snd p} \<union> covered_set ivs"
proof (induction ivs p rule: insert_loop.induct)
  case (1 p)
  then show ?case by (cases p) simp
next
  case (2 a b rest p)
  have sep: "separated rest" "a < b" using "2.prems"(1) by (auto simp: separated_Cons)
  obtain x y where p: "p = (x, y)" by (cases p)
  consider "b < x" | "\<not> b < x" "y < a" | "\<not> b < x" "\<not> y < a" by blast
  then show ?case
  proof cases
    case 3
    have "{min x a..<max y b} = {x..<y} \<union> {a..<b}"
      using 3 sep "2.prems" by (auto simp: p min_def max_def)
    then show ?thesis using 3 "2.IH"(3) "2.prems" sep by (auto simp: p)
  qed (use 2 sep in \<open>auto simp: p\<close>)
qed

lemma insert_interval_separated:
  "separated ivs \<Longrightarrow> stop \<le> U64_MAX \<Longrightarrow> separated (insert_interval ivs start stop)"
  by (simp add: insert_interval_def insert_loop_separated)

lemma insert_interval_covered:
  "separated ivs \<Longrightarrow> covered_set (insert_interval ivs start stop) = covered_set ivs \<union> {start..<stop}"
  by (auto simp: insert_interval_def insert_loop_covered)

subsection \<open>Properties\<close>

text \<open>
  The size of a union of intervals. For any list of nonempty \<open>u64\<close> intervals, in any order and
  overlapping in any way, \<open>merged_interval_bytes\<close> is the number of bytes that at least one of them
  covers; the intermediate sum may wrap, the result never does.
\<close>

theorem merged_interval_bytes_union:
  assumes "\<And>a b. (a, b) \<in> set ivs \<Longrightarrow> a < b \<and> b \<le> U64_MAX"
  shows "merged_interval_bytes ivs = card {x. \<exists>(a, b) \<in> set ivs. a \<le> x \<and> x < b}
    \<and> merged_interval_bytes ivs \<le> U64_MAX"
proof -
  have p: "proper ivs" using assms by (auto simp: proper_def)
  have "card (covered_set ivs) \<le> card {..<U64_MAX}"
    using covered_set_bound [OF p] by (intro card_mono) auto
  moreover have "covered_set ivs = {x. \<exists>(a, b) \<in> set ivs. a \<le> x \<and> x < b}"
    by (rule set_eqI) (simp only: covered_set_bex mem_Collect_eq)
  ultimately show ?thesis using merged_interval_bytes_card [OF p] by simp
qed

theorem merged_interval_bytes_union_witness:
  "merged_interval_bytes [(8192, 12288), (0, 4096), (2048, 8192)] =
     card {x. \<exists>(a, b) \<in> set [(8192, 12288), (0, 4096), (2048, 8192)]. a \<le> x \<and> x < (b :: nat)}"
  by (rule merged_interval_bytes_union [THEN conjunct1]) (auto simp: U64_MAX_def)

text \<open>
  The requested ranges. Starting from no ranges, any sequence of insertions keeps them sorted with
  a gap between neighbours, they cover exactly the bytes inserted, and \<open>covered_bytes\<close> of any window
  counts exactly the bytes of the window that were inserted before.
\<close>

theorem inserted_ranges_exact:
  assumes "\<And>a b. (a, b) \<in> set ivs \<Longrightarrow> b \<le> U64_MAX" and "stop \<le> U64_MAX"
    and "rs = foldl (\<lambda>rs (a, b). insert_interval rs a b) [] ivs"
  shows "sorted_wrt (\<lambda>p q. snd p < fst q) rs \<and> (\<forall>(a, b) \<in> set rs. a < b)
    \<and> (\<forall>x. (\<exists>(a, b) \<in> set rs. a \<le> x \<and> x < b) \<longleftrightarrow> (\<exists>(a, b) \<in> set ivs. a \<le> x \<and> x < b))
    \<and> covered_bytes rs start stop =
        card {x. start \<le> x \<and> x < stop \<and> (\<exists>(a, b) \<in> set ivs. a \<le> x \<and> x < b)}"
proof -
  have "separated (foldl (\<lambda>rs (a, b). insert_interval rs a b) rs0 ivs)
      \<and> covered_set (foldl (\<lambda>rs (a, b). insert_interval rs a b) rs0 ivs) = covered_set rs0 \<union> covered_set ivs"
    if "separated rs0" for rs0
    using that assms(1)
  proof (induction ivs arbitrary: rs0)
    case (Cons p ivs)
    obtain a b where p: "p = (a, b)" by (cases p)
    have "separated (insert_interval rs0 a b)"
      using Cons.prems by (intro insert_interval_separated) (auto simp: p)
    from Cons.IH [OF this] show ?case
      using Cons.prems by (auto simp: p insert_interval_covered)
  qed simp
  from this [of "[]"] have rs: "separated rs" "covered_set rs = covered_set ivs"
    by (simp_all add: assms(3))
  note iff = covered_set_bex
  have "covered_set ivs \<inter> {start..<stop} =
      {x. start \<le> x \<and> x < stop \<and> (\<exists>(a, b) \<in> set ivs. a \<le> x \<and> x < b)}"
    by (rule set_eqI) (simp only: iff Int_iff atLeastLessThan_iff mem_Collect_eq conj_ac)
  moreover have "sorted_wrt (\<lambda>p q. snd p < fst q) rs \<and> (\<forall>(a, b) \<in> set rs. a < b)"
    using rs(1) by (auto simp: separated_def proper_def)
  ultimately show ?thesis
    using rs(2) covered_bytes_card [OF rs(1) assms(2), of start] by (simp only: iff [symmetric]) simp
qed

theorem inserted_ranges_exact_witness:
  "covered_bytes (insert_interval (insert_interval [] 10 20) 15 30) 0 25 =
     card {x. 0 \<le> x \<and> x < 25 \<and> (\<exists>(a, b) \<in> set [(10, 20), (15, 30)]. a \<le> x \<and> x < (b :: nat))}"
  by (rule inserted_ranges_exact [THEN conjunct2, THEN conjunct2, THEN conjunct2])
    (auto simp: U64_MAX_def)

end
