(* ===== verification/Residency_Inventory.thy ===== *)
theory Residency_Inventory
  imports Page_Intervals Resource_Accounting
begin

section \<open>The residency inventory\<close>

text \<open>
  \<open>ResourceInventory\<close> of \<open>crates/ramforge-runtime/src/residency_engine.rs\<close>: one resource for every
  tensor mapping that the native library reports, with its page range, its eligibility and the number
  of its page bytes that other tensors of the same mapping share. \<open>tensor_mapping_info\<close> has the fields
  of the external \<open>TensorMappingInfo\<close> that the code reads. Paths are strings. The counters of the
  summary that the code adds with a plain \<open>+=\<close> wrap.
\<close>

subsection \<open>Keys, layers, resources\<close>

datatype resource_key = ResourceKey (key_generation: u64) (key_tensor_index: int)

instantiation resource_key :: linorder
begin

definition less_eq_resource_key :: "resource_key \<Rightarrow> resource_key \<Rightarrow> bool" where
  "less_eq_resource_key a b \<longleftrightarrow>
     (key_generation a, key_tensor_index a) \<le> (key_generation b, key_tensor_index b)"

definition less_resource_key :: "resource_key \<Rightarrow> resource_key \<Rightarrow> bool" where
  "less_resource_key a b \<longleftrightarrow>
     (key_generation a, key_tensor_index a) < (key_generation b, key_tensor_index b)"

instance
  by standard (auto simp: less_eq_resource_key_def less_resource_key_def resource_key.expand)

end

abbreviation U32_MAX :: nat where "U32_MAX \<equiv> 4294967295"
abbreviation I32_MAX :: nat where "I32_MAX \<equiv> 2147483647"

text \<open>The provenance of a known layer has one value in the code and is left out.\<close>

datatype layer_identity = Known nat | UnknownLayer

fun identity_layer :: "layer_identity \<Rightarrow> nat option" where
  "identity_layer (Known l) = Some l"
| "identity_layer UnknownLayer = None"

fun layer_sort_key :: "layer_identity \<Rightarrow> nat \<times> nat" where
  "layer_sort_key (Known l) = (0, l)"
| "layer_sort_key UnknownLayer = (1, U32_MAX)"

text \<open>\<open>str::parse::<u32>\<close>: the number that \<open>parse::<u64>\<close> reads, when it is a \<open>u32\<close>.\<close>

definition parse_u32 :: "string \<Rightarrow> nat option" where
  "parse_u32 s = (case parse_u64 s of None \<Rightarrow> None | Some n \<Rightarrow> if n \<le> U32_MAX then Some n else None)"

definition layer_from_name :: "string \<Rightarrow> layer_identity" where
  "layer_from_name name =
     (case strip_prefix ''blk.'' name of
        None \<Rightarrow> UnknownLayer
      | Some rest \<Rightarrow>
          (case split_dot rest of
             None \<Rightarrow> UnknownLayer
           | Some (number, suffix) \<Rightarrow>
               if suffix = [] then UnknownLayer
               else (case parse_u32 number of None \<Rightarrow> UnknownLayer | Some l \<Rightarrow> Known l)))"

datatype metadata_confidence = Native | Inferred | UnknownConfidence

datatype ineligibility_reason = AnonymousReason | EmptyRangeReason | InvalidMappingMetadata

datatype storage_owner = ModelFileMapping | ModelAnonymousBuffer | ContextOwned | UnknownOwner

datatype release_lifetime = PageReleaseSafeAfterOperation | UnsupportedLifetime | UnknownLifetime

record tensor_mapping_info =
  tm_name :: string
  tm_file_backed :: bool
  tm_mapping_index :: "nat option"
  tm_mapping_id :: "u64 option"
  tm_mapping_generation :: "u64 option"
  tm_file_path :: "string option"
  tm_file_size :: "u64 option"
  tm_mapping_size :: u64
  tm_offset :: u64
  tm_size :: u64
  tm_page_size :: u64
  tm_page_start :: u64
  tm_page_end :: u64

record tensor_resource =
  tr_key :: resource_key
  tr_name :: string
  tr_layer :: layer_identity
  tr_file_backed :: bool
  tr_mapping_index :: "nat option"
  tr_mapping_id :: "u64 option"
  tr_mapping_generation :: "u64 option"
  tr_mapping_file_path :: "string option"
  tr_mapping_file_size :: "u64 option"
  tr_mapping_size :: u64
  tr_offset :: u64
  tr_logical_bytes :: u64
  tr_page_size :: u64
  tr_page_start :: u64
  tr_page_end :: u64
  tr_page_bytes :: u64
  tr_shared_page_bytes :: u64
  tr_owner :: storage_owner
  tr_lifetime :: release_lifetime
  tr_eligibility :: "(unit, ineligibility_reason) result"
  tr_metadata_confidence :: metadata_confidence

definition unique_reclaimable_bytes :: "tensor_resource \<Rightarrow> u64" where
  "unique_reclaimable_bytes r = saturating_sub (tr_page_bytes r) (tr_shared_page_bytes r)"

record inventory_summary =
  is_tensors :: usize
  is_file_backed_tensors :: usize
  is_anonymous_tensors :: usize
  is_unknown_tensors :: usize
  is_mappings :: usize
  is_logical_file_backed_bytes :: u64
  is_logical_anonymous_bytes :: u64
  is_page_bytes :: u64
  is_shared_page_bytes :: u64

definition summary_default :: inventory_summary where
  "summary_default =
     \<lparr>is_tensors = 0, is_file_backed_tensors = 0, is_anonymous_tensors = 0, is_unknown_tensors = 0,
      is_mappings = 0, is_logical_file_backed_bytes = 0, is_logical_anonymous_bytes = 0,
      is_page_bytes = 0, is_shared_page_bytes = 0\<rparr>"

record resource_inventory =
  ri_model_id :: string
  ri_generation :: u64
  ri_native_model_instance :: "u64 option"
  ri_native_contract_version :: "nat option"
  ri_resources :: "tensor_resource list"
  ri_by_index :: "(int, usize) omap"
  ri_summary :: inventory_summary

datatype inventory_error =
    EmptyModel
  | InvalidPageSize string u64
  | UnalignedPage string u64 u64
  | InvalidRange string u64 u64 u64

subsection \<open>Building the inventory\<close>

definition check_mapping :: "tensor_mapping_info \<Rightarrow> (unit, inventory_error) result" where
  "check_mapping m =
     (if \<not> tm_file_backed m then Ok ()
      else if tm_page_size m = 0 then Err (InvalidPageSize (tm_name m) 0)
      else if tm_page_start m mod tm_page_size m \<noteq> 0
      then Err (UnalignedPage (tm_name m) (tm_page_start m) (tm_page_size m))
      else (case checked_add (tm_offset m) (tm_size m) of
          None \<Rightarrow> Err (InvalidRange (tm_name m) (tm_offset m) (tm_size m) (tm_mapping_size m))
        | Some stop \<Rightarrow>
            if tm_mapping_size m < stop
            then Err (InvalidRange (tm_name m) (tm_offset m) (tm_size m) (tm_mapping_size m))
            else Ok ()))"

definition mapped_start :: "tensor_mapping_info \<Rightarrow> u64" where
  "mapped_start m = (if tm_file_backed m then min (tm_page_start m) (tm_mapping_size m) else 0)"

definition mapped_end :: "tensor_mapping_info \<Rightarrow> u64" where
  "mapped_end m = (if tm_file_backed m then min (tm_page_end m) (tm_mapping_size m) else 0)"

definition describe_mapping :: "u64 \<Rightarrow> int \<Rightarrow> tensor_mapping_info \<Rightarrow> tensor_resource" where
  "describe_mapping generation tensor_index m =
     \<lparr>tr_key = ResourceKey generation tensor_index,
      tr_name = tm_name m,
      tr_layer = layer_from_name (tm_name m),
      tr_file_backed = tm_file_backed m,
      tr_mapping_index = tm_mapping_index m,
      tr_mapping_id = tm_mapping_id m,
      tr_mapping_generation = tm_mapping_generation m,
      tr_mapping_file_path = tm_file_path m,
      tr_mapping_file_size = tm_file_size m,
      tr_mapping_size = tm_mapping_size m,
      tr_offset = tm_offset m,
      tr_logical_bytes = tm_size m,
      tr_page_size = tm_page_size m,
      tr_page_start = mapped_start m,
      tr_page_end = mapped_end m,
      tr_page_bytes = saturating_sub (mapped_end m) (mapped_start m),
      tr_shared_page_bytes = 0,
      tr_owner = (if tm_file_backed m then ModelFileMapping
                  else if tm_mapping_index m = None then ModelAnonymousBuffer else UnknownOwner),
      tr_lifetime = (if tm_file_backed m then PageReleaseSafeAfterOperation
                     else if tm_mapping_index m = None then UnsupportedLifetime else UnknownLifetime),
      tr_eligibility = (if tm_file_backed m
                        then (if mapped_end m \<le> mapped_start m then Err EmptyRangeReason else Ok ())
                        else Err AnonymousReason),
      tr_metadata_confidence = (if tm_file_backed m then Native else UnknownConfidence)\<rparr>"

definition summarize_mapping :: "tensor_mapping_info \<Rightarrow> inventory_summary \<Rightarrow> inventory_summary" where
  "summarize_mapping m s =
     (if tm_file_backed m
      then s\<lparr>is_file_backed_tensors := is_file_backed_tensors s + 1,
             is_logical_file_backed_bytes := wrapping_add (is_logical_file_backed_bytes s) (tm_size m),
             is_page_bytes := wrapping_add (is_page_bytes s) (wrapping_sub (mapped_end m) (mapped_start m))\<rparr>
      else s\<lparr>is_anonymous_tensors := is_anonymous_tensors s + 1,
             is_logical_anonymous_bytes := wrapping_add (is_logical_anonymous_bytes s) (tm_size m)\<rparr>)"

record inventory_build =
  ib_resources :: "tensor_resource list"
  ib_by_index :: "(int, usize) omap"
  ib_mapping_indices :: "nat list"
  ib_summary :: inventory_summary

text \<open>
  \<open>ib_mapping_indices\<close> is the \<open>BTreeSet\<close> of mapping indices, of which only the size is used, as a list
  without duplicates.
\<close>

fun collect_resources :: "u64 \<Rightarrow> nat \<Rightarrow> tensor_mapping_info list \<Rightarrow> inventory_build \<Rightarrow>
  (inventory_build, inventory_error) result"
where
  "collect_resources generation pos [] b = Ok b"
| "collect_resources generation pos (m # ms) b =
     (if I32_MAX < pos then Err EmptyModel
      else rbind (check_mapping m) (\<lambda>_.
        collect_resources generation (pos + 1) ms
          \<lparr>ib_resources = ib_resources b @ [describe_mapping generation (int pos) m],
           ib_by_index = om_put (int pos) (length (ib_resources b)) (ib_by_index b),
           ib_mapping_indices =
             (if tm_file_backed m
              then List.insert (case tm_mapping_index m of None \<Rightarrow> U32_MAX | Some i \<Rightarrow> i) (ib_mapping_indices b)
              else ib_mapping_indices b),
           ib_summary = summarize_mapping m (ib_summary b)\<rparr>))"

text \<open>The parts of the resource's page range that other tensors of its mapping also hold.\<close>

definition overlap_with :: "tensor_resource \<Rightarrow> tensor_resource \<Rightarrow> interval option" where
  "overlap_with r other =
     (if \<not> tr_file_backed other \<or> tr_mapping_index other \<noteq> tr_mapping_index r \<or> tr_page_bytes other = 0
      then None
      else let first = max (tr_page_start r) (tr_page_start other);
               final = min (tr_page_end r) (tr_page_end other) in
        if first < final then Some (first, final) else None)"

definition shared_intervals :: "tensor_resource list \<Rightarrow> nat \<Rightarrow> interval list" where
  "shared_intervals rs index =
     List.map_filter (\<lambda>(other_index, other).
        if index = other_index then None else overlap_with (rs ! index) other)
       (List.enumerate 0 rs)"

definition shared_bytes :: "tensor_resource list \<Rightarrow> nat \<Rightarrow> u64" where
  "shared_bytes rs index =
     (if \<not> tr_file_backed (rs ! index) \<or> tr_page_bytes (rs ! index) = 0 then 0
      else merged_interval_bytes (shared_intervals rs index))"

definition with_shared_bytes :: "tensor_resource list \<Rightarrow> tensor_resource list" where
  "with_shared_bytes rs =
     map (\<lambda>index. (rs ! index)\<lparr>tr_shared_page_bytes := shared_bytes rs index\<rparr>) [0..<length rs]"

definition from_tensor_mappings :: "string \<Rightarrow> u64 \<Rightarrow> tensor_mapping_info list \<Rightarrow>
  (resource_inventory, inventory_error) result"
where
  "from_tensor_mappings model generation mappings =
     (if mappings = [] then Err EmptyModel
      else rbind (collect_resources generation 0 mappings
          \<lparr>ib_resources = [], ib_by_index = [], ib_mapping_indices = [], ib_summary = summary_default\<rparr>)
        (\<lambda>b. let rs = with_shared_bytes (ib_resources b) in
          Ok \<lparr>ri_model_id = model, ri_generation = generation, ri_native_model_instance = None,
              ri_native_contract_version = None, ri_resources = rs, ri_by_index = ib_by_index b,
              ri_summary = (ib_summary b)
                \<lparr>is_tensors := length rs, is_mappings := length (ib_mapping_indices b),
                 is_unknown_tensors := length (filter (\<lambda>r. \<not> tr_file_backed r) rs),
                 is_shared_page_bytes := foldl wrapping_add 0 (map tr_shared_page_bytes rs)\<rparr>\<rparr>))"

subsection \<open>Reading the inventory\<close>

definition inventory_get :: "resource_inventory \<Rightarrow> resource_key \<Rightarrow> tensor_resource option" where
  "inventory_get iv key =
     (if key_generation key \<noteq> ri_generation iv then None
      else (case om_get (ri_by_index iv) (key_tensor_index key) of
          None \<Rightarrow> None
        | Some index \<Rightarrow> if index < length (ri_resources iv) then Some (ri_resources iv ! index) else None))"

definition is_current :: "resource_inventory \<Rightarrow> u64 \<Rightarrow> bool" where
  "is_current iv generation \<longleftrightarrow> ri_generation iv = generation"

definition file_backed_keys :: "resource_inventory \<Rightarrow> resource_key set" where
  "file_backed_keys iv = set (map tr_key (filter tr_file_backed (ri_resources iv)))"

record page_range =
  pr_name :: string
  pr_tensor_index :: int
  pr_generation :: u64
  pr_mapping_index :: "nat option"
  pr_mapping_path :: "string option"
  pr_page_start :: u64
  pr_page_end :: u64
  pr_page_size :: u64
  pr_mapping_size :: u64

definition page_ranges :: "resource_inventory \<Rightarrow> string list \<Rightarrow> page_range list" where
  "page_ranges iv shard_paths =
     map (\<lambda>r. \<lparr>pr_name = tr_name r, pr_tensor_index = key_tensor_index (tr_key r),
        pr_generation = key_generation (tr_key r), pr_mapping_index = tr_mapping_index r,
        pr_mapping_path = (case tr_mapping_index r of None \<Rightarrow> None
          | Some i \<Rightarrow> if i < length shard_paths then Some (shard_paths ! i) else None),
        pr_page_start = tr_page_start r, pr_page_end = tr_page_end r, pr_page_size = tr_page_size r,
        pr_mapping_size = tr_mapping_size r\<rparr>)
      (ri_resources iv)"

definition resources_in_layer :: "resource_inventory \<Rightarrow> nat \<Rightarrow> tensor_resource list" where
  "resources_in_layer iv layer =
     filter (\<lambda>r. identity_layer (tr_layer r) = Some layer) (ri_resources iv)"

subsection \<open>The collected resources\<close>

lemma collect_resources_ok:
  assumes "collect_resources g pos ms b = Ok b'" and "om_ok (ib_by_index b)"
  shows "(\<forall>m \<in> set ms. check_mapping m = Ok ()) \<and> (ms \<noteq> [] \<longrightarrow> pos + length ms \<le> I32_MAX + 1)
    \<and> ib_resources b' = ib_resources b @ map (\<lambda>(i, m). describe_mapping g (int i) m) (List.enumerate pos ms)
    \<and> om_ok (ib_by_index b')
    \<and> (\<forall>k. om_get (ib_by_index b') k =
        (if int pos \<le> k \<and> k < int (pos + length ms)
         then Some (length (ib_resources b) + nat (k - int pos)) else om_get (ib_by_index b) k))
    \<and> ib_summary b' = foldl (\<lambda>s m. summarize_mapping m s) (ib_summary b) ms"
  using assms
proof (induction g pos ms b rule: collect_resources.induct)
  case (1 g pos b)
  then show ?case by auto
next
  case (2 g pos m ms b)
  have pos: "pos \<le> I32_MAX" and m: "check_mapping m = Ok ()"
    using "2.prems"(1) by (auto simp: rbind_eq_Ok split: if_splits)
  let ?b = "\<lparr>ib_resources = ib_resources b @ [describe_mapping g (int pos) m],
           ib_by_index = om_put (int pos) (length (ib_resources b)) (ib_by_index b),
           ib_mapping_indices =
             (if tm_file_backed m
              then List.insert (case tm_mapping_index m of None \<Rightarrow> U32_MAX | Some i \<Rightarrow> i) (ib_mapping_indices b)
              else ib_mapping_indices b),
           ib_summary = summarize_mapping m (ib_summary b)\<rparr>"
  have rest: "collect_resources g (pos + 1) ms ?b = Ok b'"
    using "2.prems"(1) pos m by simp
  have ok: "om_ok (ib_by_index ?b)" using "2.prems"(2) by simp
  note IH = "2.IH" [OF _ m rest ok]
  have "\<not> I32_MAX < pos" using pos by simp
  note IH = IH [OF this]
  have g: "om_get (ib_by_index ?b) k = (if k = int pos then Some (length (ib_resources b)) else om_get (ib_by_index b) k)"
    for k using "2.prems"(2) by simp
  have "om_get (ib_by_index b') k =
        (if int pos \<le> k \<and> k < int (pos + length (m # ms))
         then Some (length (ib_resources b) + nat (k - int pos)) else om_get (ib_by_index b) k)" for k
  proof -
    have "om_get (ib_by_index b') k =
        (if int (pos + 1) \<le> k \<and> k < int (pos + 1 + length ms)
         then Some (length (ib_resources ?b) + nat (k - int (pos + 1))) else om_get (ib_by_index ?b) k)"
      using IH by blast
    then show ?thesis unfolding g by (cases "k = int pos") (auto simp: nat_diff_distrib')
  qed
  then show ?case using IH m pos by (cases ms) auto
qed

lemma collect_resources_err:
  "\<not> is_panic (collect_resources g pos ms b) \<and>
   ((\<forall>m \<in> set ms. check_mapping m = Ok ()) \<longrightarrow> pos + length ms \<le> I32_MAX + 1 \<longrightarrow>
      is_ok (collect_resources g pos ms b))"
proof (induction g pos ms b rule: collect_resources.induct)
  case (2 g pos m ms b)
  have "check_mapping m \<noteq> Panic x" for x by (auto simp: check_mapping_def split: option.splits)
  then show ?case using 2 by (cases "check_mapping m") auto
qed simp

lemma from_tensor_mappings_eq:
  assumes "from_tensor_mappings model g ms = Ok iv"
  shows "\<exists>b. ms \<noteq> [] \<and> collect_resources g 0 ms
        \<lparr>ib_resources = [], ib_by_index = [], ib_mapping_indices = [], ib_summary = summary_default\<rparr> = Ok b
    \<and> ib_resources b = map (\<lambda>(i, m). describe_mapping g (int i) m) (List.enumerate 0 ms)
    \<and> ri_resources iv = with_shared_bytes (ib_resources b) \<and> ri_generation iv = g
    \<and> ri_by_index iv = ib_by_index b
    \<and> ri_summary iv = (ib_summary b)
                \<lparr>is_tensors := length (ri_resources iv), is_mappings := length (ib_mapping_indices b),
                 is_unknown_tensors := length (filter (\<lambda>r. \<not> tr_file_backed r) (ri_resources iv)),
                 is_shared_page_bytes := foldl wrapping_add 0 (map tr_shared_page_bytes (ri_resources iv))\<rparr>"
proof -
  let ?b0 = "\<lparr>ib_resources = [], ib_by_index = [], ib_mapping_indices = [], ib_summary = summary_default\<rparr>"
  obtain b where b: "ms \<noteq> []" "collect_resources g 0 ms ?b0 = Ok b"
    using assms by (auto simp: from_tensor_mappings_def rbind_eq_Ok split: if_splits)
  have "ib_resources b = map (\<lambda>(i, m). describe_mapping g (int i) m) (List.enumerate 0 ms)"
    using collect_resources_ok [OF b(2)] by simp
  then show ?thesis
    using b assms by (intro exI [of _ b]) (auto simp: from_tensor_mappings_def Let_def)
qed

lemma with_shared_bytes_nth:
  "i < length rs \<Longrightarrow> with_shared_bytes rs ! i = (rs ! i)\<lparr>tr_shared_page_bytes := shared_bytes rs i\<rparr>"
  "length (with_shared_bytes rs) = length rs"
  by (simp_all add: with_shared_bytes_def)

lemma inventory_nth:
  assumes "from_tensor_mappings model g ms = Ok iv" and "i < length ms"
  shows "\<exists>n. ri_resources iv ! i = (describe_mapping g (int i) (ms ! i))\<lparr>tr_shared_page_bytes := n\<rparr>"
    and "length (ri_resources iv) = length ms"
proof -
  obtain b :: inventory_build where "ib_resources b = map (\<lambda>(i, m). describe_mapping g (int i) m) (List.enumerate 0 ms)"
    "ri_resources iv = with_shared_bytes (ib_resources b)"
    using from_tensor_mappings_eq [OF assms(1)] by blast
  then show "\<exists>n. ri_resources iv ! i = (describe_mapping g (int i) (ms ! i))\<lparr>tr_shared_page_bytes := n\<rparr>"
    "length (ri_resources iv) = length ms"
    using assms(2) by (auto simp: with_shared_bytes_nth nth_enumerate_eq)
qed

subsection \<open>Shared pages\<close>

text \<open>The bytes of a resource's page range.\<close>

definition page_bytes_of :: "tensor_resource \<Rightarrow> nat set" where
  "page_bytes_of r = {tr_page_start r..<tr_page_end r}"

definition shares_mapping :: "tensor_resource \<Rightarrow> tensor_resource \<Rightarrow> bool" where
  "shares_mapping r other \<longleftrightarrow> tr_file_backed other \<and> tr_mapping_index other = tr_mapping_index r"

text \<open>A resource as the collection makes it, with addresses of 64 bits.\<close>

definition collected :: "tensor_resource \<Rightarrow> bool" where
  "collected r \<longleftrightarrow> tr_page_bytes r = tr_page_end r - tr_page_start r \<and> tr_page_end r \<le> U64_MAX"

lemma overlap_with_covered:
  assumes "collected other"
  shows "covered_set (case overlap_with r other of None \<Rightarrow> [] | Some iv \<Rightarrow> [iv]) =
    (if shares_mapping r other then page_bytes_of r \<inter> page_bytes_of other else {})"
  using assms
  by (auto simp: overlap_with_def Let_def shares_mapping_def page_bytes_of_def collected_def)

lemma overlap_with_proper:
  "overlap_with r other = Some (a, b) \<Longrightarrow> collected other \<Longrightarrow> a < b \<and> b \<le> U64_MAX"
  by (auto simp: overlap_with_def Let_def collected_def split: if_splits)

lemma covered_set_map_filter:
  "covered_set (List.map_filter f xs) = (\<Union>x \<in> set xs. covered_set (case f x of None \<Rightarrow> [] | Some iv \<Rightarrow> [iv]))"
proof (induction xs)
  case (Cons x xs)
  then show ?case by (cases "f x") (auto simp: map_filter_simps)
qed (simp add: map_filter_def)

lemma set_map_filter: "y \<in> set (List.map_filter f xs) \<longleftrightarrow> (\<exists>x \<in> set xs. f x = Some y)"
  by (induction xs) (auto simp: map_filter_def)

lemma set_enumerate_nth: "set (List.enumerate 0 xs) = (\<lambda>j. (j, xs ! j)) ` {..<length xs}"
  by (auto simp: in_set_enumerate_eq image_iff)

lemma shared_intervals_spec:
  assumes "\<And>r. r \<in> set rs \<Longrightarrow> collected r" and "i < length rs"
  shows "covered_set (shared_intervals rs i) =
      {x \<in> page_bytes_of (rs ! i). \<exists>j < length rs. j \<noteq> i \<and> shares_mapping (rs ! i) (rs ! j)
        \<and> x \<in> page_bytes_of (rs ! j)}"
    and "proper (shared_intervals rs i)"
proof -
  let ?f = "\<lambda>(j, other). if i = j then None else overlap_with (rs ! i) other"
  have "covered_set (shared_intervals rs i) = (\<Union>(j, other) \<in> set (List.enumerate 0 rs).
      if i = j then {} else if shares_mapping (rs ! i) other then page_bytes_of (rs ! i) \<inter> page_bytes_of other else {})"
    unfolding shared_intervals_def covered_set_map_filter
  proof (rule SUP_cong)
    fix p assume p: "p \<in> set (List.enumerate 0 rs)"
    obtain j other where jo: "p = (j, other)" by (cases p)
    then have "other \<in> set rs" using p by (auto simp: set_enumerate_nth)
    then show "covered_set (case ?f p of None \<Rightarrow> [] | Some iv \<Rightarrow> [iv]) = (case p of (j, other) \<Rightarrow>
        if i = j then {} else if shares_mapping (rs ! i) other then page_bytes_of (rs ! i) \<inter> page_bytes_of other else {})"
      using overlap_with_covered [of other "rs ! i"] assms(1) by (simp add: jo)
  qed simp
  also have "\<dots> = {x \<in> page_bytes_of (rs ! i). \<exists>j < length rs. j \<noteq> i \<and> shares_mapping (rs ! i) (rs ! j)
        \<and> x \<in> page_bytes_of (rs ! j)}"
  proof (rule set_eqI)
    fix x
    show "x \<in> (\<Union>(j, other) \<in> set (List.enumerate 0 rs). if i = j then {}
        else if shares_mapping (rs ! i) other then page_bytes_of (rs ! i) \<inter> page_bytes_of other else {})
      \<longleftrightarrow> x \<in> {x \<in> page_bytes_of (rs ! i). \<exists>j < length rs. j \<noteq> i \<and> shares_mapping (rs ! i) (rs ! j)
        \<and> x \<in> page_bytes_of (rs ! j)}"
      unfolding set_enumerate_nth by (auto split: if_splits)
  qed
  finally show "covered_set (shared_intervals rs i) = {x \<in> page_bytes_of (rs ! i). \<exists>j < length rs. j \<noteq> i
        \<and> shares_mapping (rs ! i) (rs ! j) \<and> x \<in> page_bytes_of (rs ! j)}" .
  have "a < b \<and> b \<le> U64_MAX" if ab: "(a, b) \<in> set (shared_intervals rs i)" for a b
  proof -
    obtain j where j: "j < length rs" "overlap_with (rs ! i) (rs ! j) = Some (a, b)"
      using ab by (auto simp: shared_intervals_def set_map_filter set_enumerate_nth split: if_splits)
    show ?thesis using overlap_with_proper [OF j(2)] assms(1) [OF nth_mem [OF j(1)]] by blast
  qed
  then show "proper (shared_intervals rs i)" by (auto simp: proper_def)
qed

lemma shared_bytes_card:
  assumes "\<And>r. r \<in> set rs \<Longrightarrow> collected r" and "i < length rs" and "tr_file_backed (rs ! i)"
  shows "shared_bytes rs i =
      card {x \<in> page_bytes_of (rs ! i). \<exists>j < length rs. j \<noteq> i \<and> shares_mapping (rs ! i) (rs ! j)
        \<and> x \<in> page_bytes_of (rs ! j)}"
proof -
  note s = shared_intervals_spec [OF assms(1,2)]
  have "tr_page_bytes (rs ! i) = 0 \<Longrightarrow> page_bytes_of (rs ! i) = {}"
    using assms by (auto simp: page_bytes_of_def collected_def)
  then show ?thesis
    using assms(3) merged_interval_bytes_card [OF s(2)] s(1) by (auto simp: shared_bytes_def)
qed

lemma describe_collected: "tm_mapping_size m \<le> U64_MAX \<Longrightarrow> collected (describe_mapping g k m)"
  by (simp add: collected_def describe_mapping_def saturating_sub_def mapped_end_def min.coboundedI2)

lemma from_tensor_mappings_ok_iff:
  "(is_ok (from_tensor_mappings model g ms) \<longleftrightarrow> ms \<noteq> [] \<and> length ms \<le> 2 ^ 31
      \<and> (\<forall>m \<in> set ms. tm_file_backed m \<longrightarrow> tm_page_size m \<noteq> 0
          \<and> tm_page_start m mod tm_page_size m = 0 \<and> tm_offset m + tm_size m \<le> U64_MAX
          \<and> tm_offset m + tm_size m \<le> tm_mapping_size m))
    \<and> \<not> is_panic (from_tensor_mappings model g ms)"
proof -
  let ?b0 = "\<lparr>ib_resources = [], ib_by_index = [], ib_mapping_indices = [], ib_summary = summary_default\<rparr>"
  have check: "check_mapping m = Ok () \<longleftrightarrow> (tm_file_backed m \<longrightarrow> tm_page_size m \<noteq> 0
          \<and> tm_page_start m mod tm_page_size m = 0 \<and> tm_offset m + tm_size m \<le> U64_MAX
          \<and> tm_offset m + tm_size m \<le> tm_mapping_size m)" for m
    by (auto simp: check_mapping_def split: option.splits)
  have is_ok_iff: "is_ok (collect_resources g 0 ms ?b0) \<longleftrightarrow>
      (\<forall>m \<in> set ms. check_mapping m = Ok ()) \<and> (ms \<noteq> [] \<longrightarrow> length ms \<le> I32_MAX + 1)"
  proof
    assume "is_ok (collect_resources g 0 ms ?b0)"
    then obtain b where "collect_resources g 0 ms ?b0 = Ok b"
      by (cases "collect_resources g 0 ms ?b0") auto
    from collect_resources_ok [OF this] show "(\<forall>m \<in> set ms. check_mapping m = Ok ())
        \<and> (ms \<noteq> [] \<longrightarrow> length ms \<le> I32_MAX + 1)" by simp
  qed (use collect_resources_err [of g 0 ms ?b0] in \<open>cases ms; simp\<close>)
  have "is_ok (from_tensor_mappings model g ms) \<longleftrightarrow> ms \<noteq> [] \<and> is_ok (collect_resources g 0 ms ?b0)"
    by (cases "collect_resources g 0 ms ?b0") (auto simp: from_tensor_mappings_def Let_def)
  moreover have "\<not> is_panic (from_tensor_mappings model g ms)"
    using collect_resources_err [of g 0 ms ?b0]
    by (cases "collect_resources g 0 ms ?b0") (auto simp: from_tensor_mappings_def Let_def)
  ultimately show ?thesis unfolding is_ok_iff check by auto
qed

text \<open>Two tensors of one mapping whose page ranges overlap, as witness input.\<close>

definition example_mapping :: "u64 \<Rightarrow> u64 \<Rightarrow> tensor_mapping_info" where
  "example_mapping start stop =
     \<lparr>tm_name = ''blk.1.w'', tm_file_backed = True, tm_mapping_index = Some 0, tm_mapping_id = None,
      tm_mapping_generation = None, tm_file_path = None, tm_file_size = None, tm_mapping_size = 100,
      tm_offset = start, tm_size = 1, tm_page_size = 10, tm_page_start = start, tm_page_end = stop\<rparr>"

lemma example_inventory:
  obtains iv where "from_tensor_mappings ''m'' 7 [example_mapping 0 30, example_mapping 20 50] = Ok iv"
proof -
  have "is_ok (from_tensor_mappings ''m'' 7 [example_mapping 0 30, example_mapping 20 50])"
    unfolding from_tensor_mappings_ok_iff [of "''m''" 7, THEN conjunct1] by (simp add: example_mapping_def U64_MAX_def)
  then show ?thesis
    using that by (cases "from_tensor_mappings ''m'' 7 [example_mapping 0 30, example_mapping 20 50]") auto
qed

lemma inventory_lookup_spec:
  assumes "from_tensor_mappings model g ms = Ok iv"
  shows "length (ri_resources iv) = length ms
    \<and> (\<forall>i < length ms. tr_name (ri_resources iv ! i) = tm_name (ms ! i)
        \<and> tr_key (ri_resources iv ! i) = ResourceKey g (int i)
        \<and> tr_logical_bytes (ri_resources iv ! i) = tm_size (ms ! i)
        \<and> tr_file_backed (ri_resources iv ! i) = tm_file_backed (ms ! i))
    \<and> (\<forall>key. inventory_get iv key =
        (if key_generation key = g \<and> 0 \<le> key_tensor_index key \<and> key_tensor_index key < int (length ms)
         then Some (ri_resources iv ! nat (key_tensor_index key)) else None))"
proof -
  obtain b :: inventory_build where b: "collect_resources g 0 ms
        \<lparr>ib_resources = [], ib_by_index = [], ib_mapping_indices = [], ib_summary = summary_default\<rparr> = Ok b"
    "ri_generation iv = g" "ri_by_index iv = ib_by_index b"
    using from_tensor_mappings_eq [OF assms] by blast
  have by_index: "om_get (ri_by_index iv) k = (if 0 \<le> k \<and> k < int (length ms) then Some (nat k) else None)" for k
    using collect_resources_ok [OF b(1)] b(3) by simp
  have len: "length (ri_resources iv) = length ms"
    using from_tensor_mappings_eq [OF assms] by (auto simp: with_shared_bytes_nth)
  have "tr_name (ri_resources iv ! i) = tm_name (ms ! i)
        \<and> tr_key (ri_resources iv ! i) = ResourceKey g (int i)
        \<and> tr_logical_bytes (ri_resources iv ! i) = tm_size (ms ! i)
        \<and> tr_file_backed (ri_resources iv ! i) = tm_file_backed (ms ! i)" if "i < length ms" for i
    using inventory_nth(1) [OF assms that] by (auto simp: describe_mapping_def)
  moreover have "inventory_get iv key =
        (if key_generation key = g \<and> 0 \<le> key_tensor_index key \<and> key_tensor_index key < int (length ms)
         then Some (ri_resources iv ! nat (key_tensor_index key)) else None)" for key
    by (auto simp: inventory_get_def by_index b(2) len nat_less_iff)
  ultimately show ?thesis using len by blast
qed

text \<open>Every resource is found under its own key.\<close>

definition inventory_sound :: "resource_inventory \<Rightarrow> bool" where
  "inventory_sound iv \<longleftrightarrow> (\<forall>r \<in> set (ri_resources iv). inventory_get iv (tr_key r) = Some r)"

lemma from_tensor_mappings_sound: "from_tensor_mappings model g ms = Ok iv \<Longrightarrow> inventory_sound iv"
proof -
  assume iv: "from_tensor_mappings model g ms = Ok iv"
  note spec = inventory_lookup_spec [OF iv]
  have "inventory_get iv (tr_key (ri_resources iv ! i)) = Some (ri_resources iv ! i)" if "i < length ms" for i
  proof -
    have "tr_key (ri_resources iv ! i) = ResourceKey g (int i)" using spec that by blast
    then show ?thesis using spec that by simp
  qed
  then show ?thesis unfolding inventory_sound_def using spec by (metis in_set_conv_nth)
qed

lemma inventory_sound_update [simp]:
  "inventory_sound (iv\<lparr>ri_native_model_instance := i, ri_native_contract_version := c\<rparr>) = inventory_sound iv"
  by (simp add: inventory_sound_def inventory_get_def cong: option.case_cong if_cong)

subsection \<open>Properties\<close>

text \<open>
  An inventory is built exactly when the model has tensors, no more than an \<open>i32\<close> index can
  number, and every file-backed mapping has a nonzero page size, an aligned page start and a range
  inside its mapping; every other input is reported as an error, and nothing panics.
\<close>

theorem inventory_outcome:
  "(is_ok (from_tensor_mappings model g ms) \<longleftrightarrow> ms \<noteq> [] \<and> length ms \<le> 2 ^ 31
      \<and> (\<forall>m \<in> set ms. tm_file_backed m \<longrightarrow> tm_page_size m \<noteq> 0
          \<and> tm_page_start m mod tm_page_size m = 0 \<and> tm_offset m + tm_size m \<le> U64_MAX
          \<and> tm_offset m + tm_size m \<le> tm_mapping_size m))
    \<and> \<not> is_panic (from_tensor_mappings model g ms)"
  by (rule from_tensor_mappings_ok_iff)

theorem inventory_outcome_witness:
  "is_ok (from_tensor_mappings ''m'' 7 [example_mapping 0 30]) \<and> \<not> is_ok (from_tensor_mappings ''m'' 7 [example_mapping 5 30])"
  using inventory_outcome [of "''m''" 7 "[example_mapping 0 30]"]
    inventory_outcome [of "''m''" 7 "[example_mapping 5 30]"]
  by (simp add: example_mapping_def U64_MAX_def)

text \<open>
  What an inventory holds. Resource \<open>i\<close> describes mapping \<open>i\<close>, \<open>get\<close> returns it for the key of
  this generation and index \<open>i\<close>, and returns nothing for any other key.
\<close>

theorem inventory_lookup:
  assumes "from_tensor_mappings model g ms = Ok iv"
  shows "length (ri_resources iv) = length ms
    \<and> (\<forall>i < length ms. tr_name (ri_resources iv ! i) = tm_name (ms ! i)
        \<and> tr_key (ri_resources iv ! i) = ResourceKey g (int i)
        \<and> tr_logical_bytes (ri_resources iv ! i) = tm_size (ms ! i)
        \<and> tr_file_backed (ri_resources iv ! i) = tm_file_backed (ms ! i))
    \<and> (\<forall>key. inventory_get iv key =
        (if key_generation key = g \<and> 0 \<le> key_tensor_index key \<and> key_tensor_index key < int (length ms)
         then Some (ri_resources iv ! nat (key_tensor_index key)) else None))"
  using assms by (rule inventory_lookup_spec)

text \<open>
  Page sharing. In an inventory of mappings with 64-bit sizes, the shared bytes of a file-backed
  resource are the bytes of its page range that the page range of another file-backed resource of the
  same mapping also holds, each counted once, and \<open>unique_reclaimable_bytes\<close> is the number of bytes
  that it holds alone: releasing them touches no other tensor.
\<close>

theorem reclaimable_bytes_unshared:
  assumes "from_tensor_mappings model g ms = Ok iv" and "\<And>m. m \<in> set ms \<Longrightarrow> tm_mapping_size m \<le> U64_MAX"
    and "i < length (ri_resources iv)" and "tr_file_backed (ri_resources iv ! i)"
    and "others = (\<Union>j \<in> {j. j < length (ri_resources iv) \<and> j \<noteq> i \<and> tr_file_backed (ri_resources iv ! j)
        \<and> tr_mapping_index (ri_resources iv ! j) = tr_mapping_index (ri_resources iv ! i)}.
        {tr_page_start (ri_resources iv ! j)..<tr_page_end (ri_resources iv ! j)})"
  shows "tr_shared_page_bytes (ri_resources iv ! i) =
      card ({tr_page_start (ri_resources iv ! i)..<tr_page_end (ri_resources iv ! i)} \<inter> others)
    \<and> unique_reclaimable_bytes (ri_resources iv ! i) =
      card ({tr_page_start (ri_resources iv ! i)..<tr_page_end (ri_resources iv ! i)} - others)"
proof -
  obtain b :: inventory_build where b: "ib_resources b = map (\<lambda>(i, m). describe_mapping g (int i) m) (List.enumerate 0 ms)"
    "ri_resources iv = with_shared_bytes (ib_resources b)"
    using from_tensor_mappings_eq [OF assms(1)] by blast
  let ?rs = "ib_resources b"
  have coll: "collected r" if r: "r \<in> set ?rs" for r
  proof -
    obtain j where "j < length ms" "r = describe_mapping g (int j) (ms ! j)"
      using r by (auto simp: b(1) set_enumerate_nth)
    then show ?thesis using assms(2) [OF nth_mem] describe_collected by blast
  qed
  have same: "tr_page_start (ri_resources iv ! j) = tr_page_start (?rs ! j)"
    "tr_page_end (ri_resources iv ! j) = tr_page_end (?rs ! j)"
    "tr_page_bytes (ri_resources iv ! j) = tr_page_bytes (?rs ! j)"
    "tr_file_backed (ri_resources iv ! j) = tr_file_backed (?rs ! j)"
    "tr_mapping_index (ri_resources iv ! j) = tr_mapping_index (?rs ! j)"
    "tr_shared_page_bytes (ri_resources iv ! j) = shared_bytes ?rs j" if "j < length ?rs" for j
    using that by (simp_all add: b(2) with_shared_bytes_nth)
  have len: "length (ri_resources iv) = length ?rs" by (simp add: b(2) with_shared_bytes_nth)
  have i: "i < length ?rs" using assms(3) len by simp
  let ?P = "{tr_page_start (ri_resources iv ! i)..<tr_page_end (ri_resources iv ! i)}"
  have "{x \<in> page_bytes_of (?rs ! i). \<exists>j < length ?rs. j \<noteq> i \<and> shares_mapping (?rs ! i) (?rs ! j)
        \<and> x \<in> page_bytes_of (?rs ! j)} = ?P \<inter> others"
    unfolding assms(5) len using same i by (auto simp: page_bytes_of_def shares_mapping_def)
  then have sh: "tr_shared_page_bytes (ri_resources iv ! i) = card (?P \<inter> others)"
    using shared_bytes_card [OF coll i] same [OF i] assms(4) by simp
  have "tr_page_bytes (?rs ! i) = card ?P"
    using coll [OF nth_mem [OF i]] same [OF i] by (simp add: collected_def)
  then have "unique_reclaimable_bytes (ri_resources iv ! i) = card ?P - card (?P \<inter> others)"
    using sh same [OF i] by (simp add: unique_reclaimable_bytes_def saturating_sub_def)
  then show ?thesis using sh by (simp add: card_Diff_subset_Int)
qed

theorem inventory_lookup_witness:
  "\<exists>iv. from_tensor_mappings ''m'' 7 [example_mapping 0 30, example_mapping 20 50] = Ok iv
    \<and> inventory_get iv (ResourceKey 7 1) = Some (ri_resources iv ! 1) \<and> inventory_get iv (ResourceKey 6 1) = None"
proof -
  obtain iv where iv: "from_tensor_mappings ''m'' 7 [example_mapping 0 30, example_mapping 20 50] = Ok iv"
    by (rule example_inventory)
  show ?thesis using inventory_lookup [OF iv] iv by simp
qed

theorem reclaimable_bytes_unshared_witness:
  "\<exists>iv. from_tensor_mappings ''m'' 7 [example_mapping 0 30, example_mapping 20 50] = Ok iv
    \<and> unique_reclaimable_bytes (ri_resources iv ! 0) = 20"
proof -
  let ?ms = "[example_mapping 0 30, example_mapping 20 50]"
  obtain iv where iv: "from_tensor_mappings ''m'' 7 ?ms = Ok iv"
    by (rule example_inventory)
  have len: "length (ri_resources iv) = 2" using inventory_nth(2) [OF iv, of 0] by simp
  have "\<exists>n. ri_resources iv ! 0 = (describe_mapping 7 0 (example_mapping 0 30))\<lparr>tr_shared_page_bytes := n\<rparr>"
    "\<exists>n. ri_resources iv ! 1 = (describe_mapping 7 1 (example_mapping 20 50))\<lparr>tr_shared_page_bytes := n\<rparr>"
    using inventory_nth(1) [OF iv, of 0] inventory_nth(1) [OF iv, of 1] by simp_all
  then have r: "tr_page_start (ri_resources iv ! 0) = 0" "tr_page_end (ri_resources iv ! 0) = 30"
    "tr_page_start (ri_resources iv ! 1) = 20" "tr_page_end (ri_resources iv ! 1) = 50"
    "tr_file_backed (ri_resources iv ! 0)" "tr_file_backed (ri_resources iv ! 1)"
    "tr_mapping_index (ri_resources iv ! 0) = Some 0" "tr_mapping_index (ri_resources iv ! 1) = Some 0"
    by (auto simp: describe_mapping_def mapped_start_def mapped_end_def example_mapping_def)
  have "{j. j < length (ri_resources iv) \<and> j \<noteq> 0 \<and> tr_file_backed (ri_resources iv ! j)
        \<and> tr_mapping_index (ri_resources iv ! j) = tr_mapping_index (ri_resources iv ! 0)} = {1}"
    using r len by (auto simp: less_2_cases_iff)
  then have o: "{20..<50} = (\<Union>j \<in> {j. j < length (ri_resources iv) \<and> j \<noteq> 0 \<and> tr_file_backed (ri_resources iv ! j)
        \<and> tr_mapping_index (ri_resources iv ! j) = tr_mapping_index (ri_resources iv ! 0)}.
        {tr_page_start (ri_resources iv ! j)..<tr_page_end (ri_resources iv ! j)})"
    using r by simp
  have "{0..<30} - {20..<50} = {0..<20 :: nat}" by auto
  moreover have "0 < length (ri_resources iv)" using len by simp
  moreover have "m \<in> set ?ms \<Longrightarrow> tm_mapping_size m \<le> U64_MAX" for m
    by (auto simp: example_mapping_def U64_MAX_def)
  ultimately have "unique_reclaimable_bytes (ri_resources iv ! 0) = 20"
    using reclaimable_bytes_unshared [OF iv _ _ r(5) o] r by simp
  then show ?thesis using iv by blast
qed

text \<open>
  The two layer classifications of the program agree. The residency inventory reads the layer of a
  tensor name as the resource registry does, but only when the index is a \<open>u32\<close>; for a larger index
  the registry has a layer and the inventory has none.
\<close>

theorem layer_identities_agree:
  "layer_from_name name =
     (case layer_id_from_tensor_name name of
        None \<Rightarrow> UnknownLayer
      | Some l \<Rightarrow> if l < 2 ^ 32 then Known l else UnknownLayer)"
  by (auto simp: layer_from_name_def layer_id_from_tensor_name_def parse_u32_def
      split: option.splits prod.splits)

text \<open>
  The page total of the summary. For one file-backed tensor whose page range ends before it starts,
  which the inventory accepts and marks as an empty range, the summary's page bytes are not zero but
  wrap to more than every \<open>u64\<close> mapping could hold: the amount the planner takes as the current
  residency when nothing was measured.
\<close>

theorem inverted_page_range_wraps:
  assumes "from_tensor_mappings model g [m] = Ok iv" and "tm_file_backed m"
    and "tm_page_end m < tm_page_start m" and "tm_page_start m \<le> tm_mapping_size m"
    and "tm_mapping_size m \<le> U64_MAX"
  shows "tr_page_bytes (ri_resources iv ! 0) = 0
    \<and> tr_eligibility (ri_resources iv ! 0) = Err EmptyRangeReason
    \<and> is_page_bytes (ri_summary iv) = 2 ^ 64 - (tm_page_start m - tm_page_end m)"
proof -
  obtain b :: inventory_build where b: "collect_resources g 0 [m]
        \<lparr>ib_resources = [], ib_by_index = [], ib_mapping_indices = [], ib_summary = summary_default\<rparr> = Ok b"
    "is_page_bytes (ri_summary iv) = is_page_bytes (ib_summary b)"
    using from_tensor_mappings_eq [OF assms(1)] by auto
  have "ib_summary b = summarize_mapping m summary_default"
    using collect_resources_ok [OF b(1)] by simp
  then have "is_page_bytes (ri_summary iv) = 2 ^ 64 - (tm_page_start m - tm_page_end m)"
    using assms(2-5) b(2)
    by (simp add: summarize_mapping_def summary_default_def mapped_start_def mapped_end_def
        wrapping_sub_def wrapping_add_def U64_MAX_def)
  moreover have "tr_page_bytes (ri_resources iv ! 0) = 0
    \<and> tr_eligibility (ri_resources iv ! 0) = Err EmptyRangeReason"
    using inventory_nth(1) [OF assms(1), of 0] assms(2-4)
    by (auto simp: describe_mapping_def mapped_start_def mapped_end_def saturating_sub_def)
  ultimately show ?thesis by blast
qed

theorem inverted_page_range_wraps_witness:
  "\<exists>iv. from_tensor_mappings ''m'' 7 [example_mapping 20 10] = Ok iv \<and> is_page_bytes (ri_summary iv) = 2 ^ 64 - 10"
proof -
  have "is_ok (from_tensor_mappings ''m'' 7 [example_mapping 20 10])"
    unfolding from_tensor_mappings_ok_iff [of "''m''" 7, THEN conjunct1]
    by (simp add: example_mapping_def U64_MAX_def)
  then obtain iv where iv: "from_tensor_mappings ''m'' 7 [example_mapping 20 10] = Ok iv"
    by (cases "from_tensor_mappings ''m'' 7 [example_mapping 20 10]") auto
  show ?thesis using inverted_page_range_wraps [OF iv] iv by (simp add: example_mapping_def U64_MAX_def)
qed

end
