(* ===== verification/Graph_Manifest.thy ===== *)
theory Graph_Manifest
  imports Residency_Inventory
begin

section \<open>Graph manifests\<close>

text \<open>
  \<open>crates/ramforge-runtime/src/graph_manifest.rs\<close>: the nodes, consumers and last uses that a bounded
  trace of one graph execution shows, and the depth-first count of dependency back edges. A trace event
  has the fields of the external \<open>TraceEvent\<close> that the code reads; of its phases the code tells two
  from the rest. The recursion of the search is given fuel, and the theorem at the end shows that one
  unit for every node is enough.
\<close>

subsection \<open>Data\<close>

datatype trace_phase = Requested | CompletedSynchronized | OtherPhase

record trace_event =
  te_execution_id :: u64
  te_node_id :: u64
  te_node_name :: "string option"
  te_op_name :: "string option"
  te_bytes :: u64
  te_dependencies :: "string list"
  te_dependency_ids :: "u64 list"
  te_phase :: trace_phase

record graph_node =
  gn_id :: usize
  gn_native_id :: u64
  gn_name :: "string option"
  gn_op :: "string option"
  gn_bytes :: u64
  gn_dependencies :: "usize list"
  gn_unresolved :: "string list"
  gn_layer :: "nat option"

datatype last_use_status = GraphOrderOnly | UnknownUse

record last_use =
  lu_node_index :: usize
  lu_node_name :: "string option"
  lu_status :: last_use_status
  lu_completion_proven :: bool
  lu_reuse_unknown :: bool

record graph_manifest =
  gm_execution_id :: "u64 option"
  gm_nodes :: "graph_node list"
  gm_tensor_to_nodes :: "(string, usize list) omap"
  gm_last_use :: "(string, last_use) omap"
  gm_edges_known :: bool
  gm_completion_proven :: bool
  gm_intra_decode_safe :: bool

record manifest_summary =
  ms_nodes :: usize
  ms_tensors :: usize
  ms_edges_known :: bool
  ms_dependency_cycles :: usize
  ms_completion_proven :: bool
  ms_intra_decode_safe :: bool
  ms_graph_order_last_use :: usize
  ms_unknown_last_use :: usize

subsection \<open>The manifest of a trace\<close>

definition node_layer :: "string \<Rightarrow> nat option" where
  "node_layer name =
     Option.bind (strip_prefix ''blk.'' name) (\<lambda>rest.
       Option.bind (split_dot rest) (\<lambda>(number, suffix).
         if suffix = [] then None else parse_u32 number))"

text \<open>The index of every native id, the last one of a repeated id, and whether no id repeats.\<close>

fun index_ids :: "usize \<Rightarrow> trace_event list \<Rightarrow> (u64, usize) omap \<times> bool \<Rightarrow> (u64, usize) omap \<times> bool" where
  "index_ids i [] st = st"
| "index_ids i (e # es) (ids, known) =
     index_ids (i + 1) es (om_put (te_node_id e) i ids, known \<and> \<not> om_mem ids (te_node_id e))"

definition event_edges :: "(u64, usize) omap \<Rightarrow> trace_event \<Rightarrow> (string \<times> usize option) list" where
  "event_edges ids e =
     map (\<lambda>(name, dependency_id). (name, om_get ids dependency_id))
       (zip (te_dependencies e) (te_dependency_ids e))"

definition push_consumer :: "usize \<Rightarrow> string \<Rightarrow> (string, usize list) omap \<Rightarrow> (string, usize list) omap" where
  "push_consumer i name consumers =
     om_put name ((case om_get consumers name of None \<Rightarrow> [] | Some is \<Rightarrow> is) @ [i]) consumers"

definition node_of_event :: "(u64, usize) omap \<Rightarrow> usize \<Rightarrow> trace_event \<Rightarrow> graph_node" where
  "node_of_event ids i e =
     \<lparr>gn_id = i, gn_native_id = te_node_id e, gn_name = te_node_name e, gn_op = te_op_name e,
      gn_bytes = te_bytes e,
      gn_dependencies = List.map_filter snd (event_edges ids e),
      gn_unresolved = map fst (filter (\<lambda>(name, d). d = None) (event_edges ids e)),
      gn_layer = Option.bind (te_node_name e) node_layer\<rparr>"

definition tensor_consumers :: "(u64, usize) omap \<Rightarrow> trace_event list \<Rightarrow> (string, usize list) omap" where
  "tensor_consumers ids es =
     fold (\<lambda>(i, e) consumers. fold (\<lambda>(name, d). push_consumer i name) (event_edges ids e) consumers)
       (List.enumerate 0 es) []"

definition last_use_of :: "graph_node list \<Rightarrow> u64 list \<Rightarrow> bool \<Rightarrow> usize list \<Rightarrow> last_use option" where
  "last_use_of nodes completed known consumers =
     (if consumers = [] then None
      else let i = Max (set consumers); node = nodes ! i;
               proven = (gn_native_id node \<in> set completed) in
        Some \<lparr>lu_node_index = i, lu_node_name = gn_name node,
              lu_status = (if known \<and> proven then GraphOrderOnly else UnknownUse),
              lu_completion_proven = proven, lu_reuse_unknown = True\<rparr>)"

definition manifest_from_trace :: "trace_event list \<Rightarrow> graph_manifest" where
  "manifest_from_trace events =
     (let requested = filter (\<lambda>e. te_phase e = Requested) events;
          completed = map te_node_id (filter (\<lambda>e. te_phase e = CompletedSynchronized) events);
          (ids, known) = index_ids 0 requested ([], True);
          nodes = map (\<lambda>(i, e). node_of_event ids i e) (List.enumerate 0 requested);
          consumers = tensor_consumers ids requested;
          uses = List.map_filter (\<lambda>(name, is). map_option (Pair name) (last_use_of nodes completed known is))
            consumers in
      \<lparr>gm_execution_id = (case requested of [] \<Rightarrow> None | e # _ \<Rightarrow> Some (te_execution_id e)),
       gm_nodes = nodes, gm_tensor_to_nodes = consumers, gm_last_use = uses, gm_edges_known = known,
       gm_completion_proven = list_all (\<lambda>(name, u). lu_completion_proven u) uses,
       gm_intra_decode_safe = False\<rparr>)"

subsection \<open>Dependency cycles\<close>

datatype mark = Unvisited | Visiting | Done

fun visit :: "nat \<Rightarrow> usize list list \<Rightarrow> usize \<Rightarrow> mark list \<times> usize \<Rightarrow> (mark list \<times> usize) option"
  and visit_all :: "nat \<Rightarrow> usize list list \<Rightarrow> usize list \<Rightarrow> mark list \<times> usize \<Rightarrow> (mark list \<times> usize) option"
where
  "visit 0 deps node st = None"
| "visit (Suc fuel) deps node (marks, cycles) =
     (case visit_all fuel deps (deps ! node) (marks[node := Visiting], cycles) of
        None \<Rightarrow> None
      | Some (marks', cycles') \<Rightarrow> Some (marks'[node := Done], cycles'))"
| "visit_all fuel deps [] st = Some st"
| "visit_all fuel deps (d # ds) (marks, cycles) =
     (case (if d < length marks then marks ! d else Done) of
        Unvisited \<Rightarrow>
          (case visit fuel deps d (marks, cycles) of
             None \<Rightarrow> None
           | Some st \<Rightarrow> visit_all fuel deps ds st)
      | Visiting \<Rightarrow> visit_all fuel deps ds (marks, cycles + 1)
      | Done \<Rightarrow> visit_all fuel deps ds (marks, cycles))"

fun visit_roots :: "nat \<Rightarrow> usize list list \<Rightarrow> usize list \<Rightarrow> mark list \<times> usize \<Rightarrow> (mark list \<times> usize) option" where
  "visit_roots fuel deps [] st = Some st"
| "visit_roots fuel deps (node # nodes) (marks, cycles) =
     (if marks ! node = Unvisited
      then (case visit fuel deps node (marks, cycles) of
          None \<Rightarrow> None
        | Some st \<Rightarrow> visit_roots fuel deps nodes st)
      else visit_roots fuel deps nodes (marks, cycles))"

definition count_back_edges :: "usize list list \<Rightarrow> usize option" where
  "count_back_edges deps =
     map_option snd (visit_roots (length deps) deps [0..<length deps] (replicate (length deps) Unvisited, 0))"

definition dependency_cycles :: "graph_manifest \<Rightarrow> usize option" where
  "dependency_cycles m = count_back_edges (map gn_dependencies (gm_nodes m))"

definition manifest_summary_of :: "graph_manifest \<Rightarrow> manifest_summary option" where
  "manifest_summary_of m =
     map_option (\<lambda>cycles.
       \<lparr>ms_nodes = length (gm_nodes m), ms_tensors = length (gm_tensor_to_nodes m),
        ms_edges_known = gm_edges_known m, ms_dependency_cycles = cycles,
        ms_completion_proven = gm_completion_proven m, ms_intra_decode_safe = gm_intra_decode_safe m,
        ms_graph_order_last_use = length (filter (\<lambda>(k, u). lu_status u = GraphOrderOnly) (gm_last_use m)),
        ms_unknown_last_use = length (filter (\<lambda>(k, u). lu_status u = UnknownUse) (gm_last_use m))\<rparr>)
      (dependency_cycles m)"

subsection \<open>The depth-first search\<close>

definition with_mark :: "mark \<Rightarrow> mark list \<Rightarrow> nat set" where
  "with_mark x marks = {v. v < length marks \<and> marks ! v = x}"

definition dep_edges :: "usize list list \<Rightarrow> (nat \<times> nat) set" where
  "dep_edges deps = {(i, d). i < length deps \<and> d \<in> set (deps ! i) \<and> d < length deps}"

text \<open>A set of finished nodes: closed under the edges, without a cycle.\<close>

definition finished :: "(nat \<times> nat) set \<Rightarrow> nat set \<Rightarrow> bool" where
  "finished E D \<longleftrightarrow> (\<forall>a b. (a, b) \<in> E \<longrightarrow> a \<in> D \<longrightarrow> b \<in> D) \<and> (\<forall>x \<in> D. (x, x) \<notin> E\<^sup>+)"

lemma finite_with_mark [simp]: "finite (with_mark x marks)"
  by (simp add: with_mark_def)

lemma with_mark_update:
  "v < length marks \<Longrightarrow> with_mark x (marks[v := y]) =
     (if x = y then insert v (with_mark x marks) else with_mark x marks - {v})"
  by (auto simp: with_mark_def nth_list_update)

lemma finished_closed: "(a, b) \<in> E\<^sup>* \<Longrightarrow> finished E D \<Longrightarrow> a \<in> D \<Longrightarrow> b \<in> D"
  by (induction rule: rtrancl_induct) (auto simp: finished_def)

lemma finished_insert:
  assumes fin: "finished E D" and n: "n \<notin> D" and edges: "\<And>d. (n, d) \<in> E \<Longrightarrow> d \<in> D"
  shows "finished E (insert n D)"
proof -
  have "(n, n) \<notin> E\<^sup>+"
  proof
    assume "(n, n) \<in> E\<^sup>+"
    then obtain d where "(n, d) \<in> E" "(d, n) \<in> E\<^sup>*" by (metis tranclD)
    then show False using edges finished_closed [OF _ fin] n by blast
  qed
  then show ?thesis using fin edges by (auto simp: finished_def)
qed

text \<open>What one call of the search keeps, and what it achieves when it counts no back edge.\<close>

definition keeps :: "nat \<Rightarrow> (nat \<times> nat) set \<Rightarrow> mark list \<times> nat \<Rightarrow> mark list \<times> nat \<Rightarrow> bool" where
  "keeps n E st st' \<longleftrightarrow> length (fst st') = n \<and> with_mark Visiting (fst st') = with_mark Visiting (fst st)
     \<and> with_mark Done (fst st) \<subseteq> with_mark Done (fst st') \<and> snd st \<le> snd st'
     \<and> (snd st' = snd st \<longrightarrow> finished E (with_mark Done (fst st)) \<longrightarrow> finished E (with_mark Done (fst st')))"

lemma keeps_refl: "length (fst st) = n \<Longrightarrow> keeps n E st st"
  by (simp add: keeps_def)

lemma keeps_trans: "keeps n E a b \<Longrightarrow> keeps n E b c \<Longrightarrow> keeps n E a c"
  by (auto simp: keeps_def)

lemma keeps_count: "keeps n E (marks, c + 1) st \<Longrightarrow> keeps n E (marks, c) st"
  by (auto simp: keeps_def)

lemma visit_keeps:
  "visit fuel deps node (marks, c) = Some st' \<Longrightarrow> length marks = length deps \<Longrightarrow> node < length deps
    \<Longrightarrow> marks ! node = Unvisited \<Longrightarrow>
    keeps (length deps) (dep_edges deps) (marks, c) st' \<and> node \<in> with_mark Done (fst st')"
  and visit_all_keeps:
  "visit_all fuel deps ds (marks, c) = Some st' \<Longrightarrow> length marks = length deps \<Longrightarrow>
    keeps (length deps) (dep_edges deps) (marks, c) st'
    \<and> (snd st' = c \<longrightarrow> (\<forall>d \<in> set ds. d < length deps \<longrightarrow> d \<in> with_mark Done (fst st')))"
proof (induction fuel deps node "(marks, c)" and fuel deps ds "(marks, c)"
    arbitrary: marks c st' and marks c st' rule: visit_visit_all.induct)
  case (2 fuel deps node marks cycles)
  let ?E = "dep_edges deps" and ?n = "length deps"
  obtain marks2 c2 where inner: "visit_all fuel deps (deps ! node) (marks[node := Visiting], cycles) = Some (marks2, c2)"
    and st': "st' = (marks2[node := Done], c2)"
    using "2.prems"(1)
    by (cases "visit_all fuel deps (deps ! node) (marks[node := Visiting], cycles)") auto
  have IH: "keeps ?n ?E (marks[node := Visiting], cycles) (marks2, c2)
    \<and> (c2 = cycles \<longrightarrow> (\<forall>d \<in> set (deps ! node). d < ?n \<longrightarrow> d \<in> with_mark Done marks2))"
    using "2.hyps" [OF inner] "2.prems" by simp
  have node: "node \<notin> with_mark Visiting marks" "node \<notin> with_mark Done marks"
    using "2.prems" by (auto simp: with_mark_def)
  have len2: "length marks2 = ?n" using IH by (simp add: keeps_def)
  have vis2: "with_mark Visiting marks2 = insert node (with_mark Visiting marks)"
    and done2: "with_mark Done marks \<subseteq> with_mark Done marks2" "cycles \<le> c2"
    using IH node "2.prems"(2,3) by (simp_all add: keeps_def with_mark_update)
  have "node \<in> with_mark Visiting marks2" using vis2 by blast
  then have notdone: "node \<notin> with_mark Done marks2" by (simp add: with_mark_def)
  have vis': "with_mark Visiting (marks2[node := Done]) = with_mark Visiting marks"
    "with_mark Done (marks2[node := Done]) = insert node (with_mark Done marks2)"
    using len2 "2.prems"(3) vis2 node by (simp_all add: with_mark_update)
  have fin: "finished ?E (insert node (with_mark Done marks2))"
    if "c2 = cycles" "finished ?E (with_mark Done marks)"
  proof (rule finished_insert [OF _ notdone])
    show "finished ?E (with_mark Done marks2)"
      using IH that node "2.prems"(2,3) by (simp add: keeps_def with_mark_update)
    show "\<And>d. (node, d) \<in> ?E \<Longrightarrow> d \<in> with_mark Done marks2"
      using IH that by (auto simp: dep_edges_def)
  qed
  have "keeps ?n ?E (marks, cycles) (marks2[node := Done], c2)"
    unfolding keeps_def fst_conv snd_conv vis' using len2 done2 fin by simp blast
  then show ?case using vis'(2) by (simp add: st')
next
  case (4 fuel deps d ds marks cycles)
  let ?E = "dep_edges deps" and ?n = "length deps"
  let ?m = "if d < length marks then marks ! d else Done"
  show ?case
  proof (cases ?m)
    case Unvisited
    then have d: "d < ?n" "marks ! d = Unvisited" using "4.prems" by (auto split: if_splits)
    obtain marks2 c2 where v: "visit fuel deps d (marks, cycles) = Some (marks2, c2)"
      and rest: "visit_all fuel deps ds (marks2, c2) = Some st'"
      using "4.prems"(1) Unvisited by (auto split: option.splits)
    have k: "keeps ?n ?E (marks, cycles) (marks2, c2)" "d \<in> with_mark Done marks2"
      using "4.hyps"(1) [OF Unvisited v] "4.prems"(2) d by auto
    have "length marks2 = ?n" using k by (simp add: keeps_def)
    then have r: "keeps ?n ?E (marks2, c2) st'
        \<and> (snd st' = c2 \<longrightarrow> (\<forall>d \<in> set ds. d < ?n \<longrightarrow> d \<in> with_mark Done (fst st')))"
      using "4.hyps"(2) [OF Unvisited v rest] by simp
    have "cycles \<le> c2" "c2 \<le> snd st'" using k r by (simp_all add: keeps_def)
    have "with_mark Done marks2 \<subseteq> with_mark Done (fst st')" using r by (simp add: keeps_def)
    then have "snd st' = cycles \<Longrightarrow> \<forall>d \<in> set (d # ds). d < ?n \<longrightarrow> d \<in> with_mark Done (fst st')"
      using k(2) r \<open>cycles \<le> c2\<close> \<open>c2 \<le> snd st'\<close> by auto
    moreover have "keeps ?n ?E (marks, cycles) st'" using keeps_trans k(1) r by blast
    ultimately show ?thesis by blast
  next
    case Visiting
    have r: "visit_all fuel deps ds (marks, cycles + 1) = Some st'" using "4.prems"(1) Visiting by simp
    have "keeps ?n ?E (marks, cycles + 1) st'" using "4.hyps"(3) [OF Visiting r] "4.prems"(2) by simp
    moreover from this have "snd st' \<noteq> cycles" by (simp add: keeps_def)
    ultimately show ?thesis using keeps_count by blast
  next
    case Done
    have r: "visit_all fuel deps ds (marks, cycles) = Some st'" using "4.prems"(1) Done by simp
    have "d < ?n \<Longrightarrow> d \<in> with_mark Done marks" using Done "4.prems"(2) by (auto simp: with_mark_def split: if_splits)
    moreover have k: "keeps ?n ?E (marks, cycles) st'
        \<and> (snd st' = cycles \<longrightarrow> (\<forall>d \<in> set ds. d < ?n \<longrightarrow> d \<in> with_mark Done (fst st')))"
      using "4.hyps"(4) [OF Done r] "4.prems"(2) by blast
    moreover from k have "with_mark Done marks \<subseteq> with_mark Done (fst st')" by (simp add: keeps_def)
    ultimately show ?thesis by auto
  qed
qed (auto simp: keeps_refl)

text \<open>On an acyclic graph no back edge is counted: whatever is being visited reaches the node at hand.\<close>

lemma visit_acyclic:
  "visit fuel deps node (marks, c) = Some st' \<Longrightarrow> length marks = length deps \<Longrightarrow> node < length deps
    \<Longrightarrow> marks ! node = Unvisited \<Longrightarrow> acyclic (dep_edges deps)
    \<Longrightarrow> \<forall>v \<in> with_mark Visiting marks. (v, node) \<in> (dep_edges deps)\<^sup>* \<Longrightarrow> snd st' = c"
  and visit_all_acyclic:
  "visit_all fuel deps ds (marks, c) = Some st' \<Longrightarrow> length marks = length deps \<Longrightarrow> acyclic (dep_edges deps)
    \<Longrightarrow> \<forall>d \<in> set ds. d < length deps \<longrightarrow> (cur, d) \<in> dep_edges deps
    \<Longrightarrow> \<forall>v \<in> with_mark Visiting marks. (v, cur) \<in> (dep_edges deps)\<^sup>* \<Longrightarrow> snd st' = c"
proof (induction fuel deps node "(marks, c)" and fuel deps ds "(marks, c)"
    arbitrary: marks c st' and marks c st' cur rule: visit_visit_all.induct)
  case (2 fuel deps node marks cycles)
  obtain marks2 c2 where inner: "visit_all fuel deps (deps ! node) (marks[node := Visiting], cycles) = Some (marks2, c2)"
    and st': "st' = (marks2[node := Done], c2)"
    using "2.prems"(1)
    by (cases "visit_all fuel deps (deps ! node) (marks[node := Visiting], cycles)") auto
  have "\<forall>d \<in> set (deps ! node). d < length deps \<longrightarrow> (node, d) \<in> dep_edges deps"
    using "2.prems"(3) by (simp add: dep_edges_def)
  moreover have "\<forall>v \<in> with_mark Visiting (marks[node := Visiting]). (v, node) \<in> (dep_edges deps)\<^sup>*"
    using "2.prems" by (simp add: with_mark_update)
  ultimately have "snd (marks2, c2) = cycles"
    using "2.hyps" [OF inner] "2.prems" by simp
  then show ?case by (simp add: st')
next
  case (4 fuel deps d ds marks cycles)
  let ?E = "dep_edges deps" and ?n = "length deps"
  let ?m = "if d < length marks then marks ! d else Done"
  have ds: "\<forall>d \<in> set ds. d < ?n \<longrightarrow> (cur, d) \<in> ?E" using "4.prems"(4) by simp
  show ?case
  proof (cases ?m)
    case Unvisited
    then have d: "d < ?n" "marks ! d = Unvisited" "(cur, d) \<in> ?E"
      using "4.prems" by (auto split: if_splits)
    obtain marks2 c2 where v: "visit fuel deps d (marks, cycles) = Some (marks2, c2)"
      and rest: "visit_all fuel deps ds (marks2, c2) = Some st'"
      using "4.prems"(1) Unvisited by (auto split: option.splits)
    have "\<forall>v \<in> with_mark Visiting marks. (v, d) \<in> ?E\<^sup>*"
      using "4.prems"(5) d(3) by (meson rtrancl.rtrancl_into_rtrancl)
    then have "c2 = cycles"
      using "4.hyps"(1) [OF Unvisited v] "4.prems"(2,3) d by simp
    moreover have "keeps ?n ?E (marks, cycles) (marks2, c2)"
      using visit_keeps [OF v "4.prems"(2) d(1,2)] by blast
    then have "length marks2 = ?n" "with_mark Visiting marks2 = with_mark Visiting marks"
      by (simp_all add: keeps_def)
    ultimately show ?thesis
      using "4.hyps"(2) [OF Unvisited v rest] "4.prems"(3,5) ds by simp
  next
    case Visiting
    then have "d < ?n" "d \<in> with_mark Visiting marks"
      using "4.prems"(2) by (auto simp: with_mark_def split: if_splits)
    then have "(cur, d) \<in> ?E" "(d, cur) \<in> ?E\<^sup>*" using "4.prems"(4,5) by auto
    then have "(d, d) \<in> ?E\<^sup>+" by (meson rtrancl_into_trancl1)
    then show ?thesis using "4.prems"(3) by (simp add: acyclic_def)
  next
    case Done
    have r: "visit_all fuel deps ds (marks, cycles) = Some st'" using "4.prems"(1) Done by simp
    show ?thesis using "4.hyps"(4) [OF Done r] "4.prems"(2,3,5) ds by simp
  qed
qed auto

lemma keeps_unvisited:
  assumes "keeps n E (marks, c) (marks2, c2)" and "length marks = n"
  shows "card (with_mark Unvisited marks2) \<le> card (with_mark Unvisited marks)"
proof (rule card_mono [OF finite_with_mark])
  have "with_mark Unvisited ms = {..<length ms} - with_mark Visiting ms - with_mark Done ms" for ms
    by (auto simp: with_mark_def) (metis mark.exhaust)
  then show "with_mark Unvisited marks2 \<subseteq> with_mark Unvisited marks"
    using assms by (auto simp: keeps_def)
qed

text \<open>Fuel: every nested call has one unvisited node less.\<close>

lemma visit_fuel:
  "card (with_mark Unvisited marks) \<le> fuel \<Longrightarrow> length marks = length deps \<Longrightarrow> node < length deps
    \<Longrightarrow> marks ! node = Unvisited \<Longrightarrow> \<exists>st'. visit fuel deps node (marks, c) = Some st'"
  and visit_all_fuel:
  "card (with_mark Unvisited marks) \<le> fuel \<Longrightarrow> length marks = length deps \<Longrightarrow>
    \<exists>st'. visit_all fuel deps ds (marks, c) = Some st'"
proof (induction fuel deps node "(marks, c)" and fuel deps ds "(marks, c)"
    arbitrary: marks c and marks c rule: visit_visit_all.induct)
  case (1 deps node marks c)
  then have "node \<in> with_mark Unvisited marks" by (simp add: with_mark_def)
  then show ?case using 1 by auto
next
  case (2 fuel deps node marks cycles)
  have "node \<in> with_mark Unvisited marks" using "2.prems" by (simp add: with_mark_def)
  then have "card (with_mark Unvisited (marks[node := Visiting])) \<le> fuel"
    using "2.prems" by (simp add: with_mark_update)
  then obtain st where "visit_all fuel deps (deps ! node) (marks[node := Visiting], cycles) = Some st"
    using "2.hyps" "2.prems" by fastforce
  then show ?case by (cases st) simp
next
  case (4 fuel deps d ds marks cycles)
  let ?m = "if d < length marks then marks ! d else Done"
  show ?case
  proof (cases ?m)
    case Unvisited
    then have d: "d < length deps" "marks ! d = Unvisited" using "4.prems" by (auto split: if_splits)
    then obtain marks2 c2 where v: "visit fuel deps d (marks, cycles) = Some (marks2, c2)"
      using "4.hyps"(1) [OF Unvisited] "4.prems" by auto
    have k: "keeps (length deps) (dep_edges deps) (marks, cycles) (marks2, c2)"
      using visit_keeps [OF v "4.prems"(2) d] by blast
    have "card (with_mark Unvisited marks2) \<le> fuel"
      using keeps_unvisited [OF k "4.prems"(2)] "4.prems"(1) by simp
    moreover have "length marks2 = length deps" using k by (simp add: keeps_def)
    ultimately obtain st' where "visit_all fuel deps ds (marks2, c2) = Some st'"
      using "4.hyps"(2) [OF Unvisited v] by blast
    then show ?thesis using Unvisited v by simp
  next
    case Visiting
    then show ?thesis using "4.hyps"(3) "4.prems" by simp
  next
    case Done
    then show ?thesis using "4.hyps"(4) "4.prems" by simp
  qed
qed simp_all

lemma visit_roots_keeps:
  "visit_roots fuel deps ns (marks, c) = Some st' \<Longrightarrow> length marks = length deps \<Longrightarrow> set ns \<subseteq> {..<length deps}
    \<Longrightarrow> with_mark Visiting marks = {} \<Longrightarrow>
    keeps (length deps) (dep_edges deps) (marks, c) st' \<and> set ns \<subseteq> with_mark Done (fst st')
    \<and> (acyclic (dep_edges deps) \<longrightarrow> snd st' = c)"
proof (induction fuel deps ns "(marks, c)" arbitrary: marks c rule: visit_roots.induct)
  case (2 fuel deps node nodes marks cycles)
  let ?E = "dep_edges deps" and ?n = "length deps"
  have node: "node < ?n" using "2.prems"(3) by simp
  show ?case
  proof (cases "marks ! node = Unvisited")
    case True
    obtain marks2 c2 where v: "visit fuel deps node (marks, cycles) = Some (marks2, c2)"
      and rest: "visit_roots fuel deps nodes (marks2, c2) = Some st'"
      using "2.prems"(1) True by (auto split: option.splits)
    have k: "keeps ?n ?E (marks, cycles) (marks2, c2)" "node \<in> with_mark Done marks2"
      using visit_keeps [OF v "2.prems"(2) node True] by auto
    have l: "length marks2 = ?n" "with_mark Visiting marks2 = {}"
      using k(1) "2.prems"(4) by (simp_all add: keeps_def)
    have r: "keeps ?n ?E (marks2, c2) st' \<and> set nodes \<subseteq> with_mark Done (fst st') \<and> (acyclic ?E \<longrightarrow> snd st' = c2)"
      using "2.hyps"(1) [OF True v rest l(1) _ l(2)] "2.prems"(3) by simp
    have "with_mark Done marks2 \<subseteq> with_mark Done (fst st')" using r by (simp add: keeps_def)
    moreover have "acyclic ?E \<Longrightarrow> c2 = cycles"
      using visit_acyclic [OF v "2.prems"(2) node True] "2.prems"(4) by simp
    moreover have "keeps ?n ?E (marks, cycles) st'" using keeps_trans k(1) r by blast
    ultimately show ?thesis using k(2) r by auto
  next
    case False
    have rest: "visit_roots fuel deps nodes (marks, cycles) = Some st'" using "2.prems"(1) False by simp
    have r: "keeps ?n ?E (marks, cycles) st' \<and> set nodes \<subseteq> with_mark Done (fst st') \<and> (acyclic ?E \<longrightarrow> snd st' = cycles)"
      using "2.hyps"(2) [OF False rest "2.prems"(2) _ "2.prems"(4)] "2.prems"(3) by simp
    have "node \<notin> with_mark Visiting marks" using "2.prems"(4) by simp
    then have "node \<in> with_mark Done marks"
      using False node "2.prems"(2) by (cases "marks ! node") (simp_all add: with_mark_def)
    moreover have "with_mark Done marks \<subseteq> with_mark Done (fst st')" using r by (simp add: keeps_def)
    ultimately show ?thesis using r by auto
  qed
qed (auto simp: keeps_refl)

lemma visit_roots_fuel:
  "card (with_mark Unvisited marks) \<le> fuel \<Longrightarrow> length marks = length deps \<Longrightarrow> set ns \<subseteq> {..<length deps}
    \<Longrightarrow> \<exists>st'. visit_roots fuel deps ns (marks, c) = Some st'"
proof (induction fuel deps ns "(marks, c)" arbitrary: marks c rule: visit_roots.induct)
  case (2 fuel deps node nodes marks cycles)
  have node: "node < length deps" using "2.prems"(3) by simp
  show ?case
  proof (cases "marks ! node = Unvisited")
    case True
    obtain marks2 c2 where v: "visit fuel deps node (marks, cycles) = Some (marks2, c2)"
      using visit_fuel [OF "2.prems"(1,2) node True] by (metis prod.collapse)
    have k: "keeps (length deps) (dep_edges deps) (marks, cycles) (marks2, c2)"
      using visit_keeps [OF v "2.prems"(2) node True] by blast
    have "card (with_mark Unvisited marks2) \<le> fuel"
      using keeps_unvisited [OF k "2.prems"(2)] "2.prems"(1) by simp
    moreover have "length marks2 = length deps" using k by (simp add: keeps_def)
    ultimately show ?thesis using "2.hyps"(1) [OF True v] "2.prems"(3) True v by simp
  next
    case False
    then show ?thesis using "2.hyps"(2) [OF False] "2.prems" by simp
  qed
qed simp

subsection \<open>The consumers of a tensor\<close>

definition consumers_of :: "(string, usize list) omap \<Rightarrow> string \<Rightarrow> usize list" where
  "consumers_of cs name = (case om_get cs name of None \<Rightarrow> [] | Some is \<Rightarrow> is)"

definition consumers_ok :: "(string, usize list) omap \<Rightarrow> bool" where
  "consumers_ok cs \<longleftrightarrow> om_ok cs \<and> (\<forall>name. om_get cs name \<noteq> Some [])"

lemma push_consumer_spec:
  "consumers_ok cs \<Longrightarrow> consumers_ok (push_consumer i name cs) \<and>
    consumers_of (push_consumer i name cs) other = consumers_of cs other @ (if other = name then [i] else [])"
  by (auto simp: consumers_ok_def consumers_of_def push_consumer_def split: option.splits)

lemma push_edges_spec:
  "consumers_ok cs \<Longrightarrow> consumers_ok (fold (\<lambda>(name, d). push_consumer i name) edges cs) \<and>
    consumers_of (fold (\<lambda>(name, d). push_consumer i name) edges cs) other =
      consumers_of cs other @ map (\<lambda>_. i) (filter (\<lambda>(name, d). name = other) edges)"
proof (induction edges arbitrary: cs)
  case (Cons e edges)
  obtain name d where e: "e = (name, d)" by (cases e)
  have ok: "consumers_ok (push_consumer i name cs)" using push_consumer_spec [OF Cons.prems] by blast
  show ?case
    using Cons.IH [OF ok] push_consumer_spec [OF Cons.prems, of i name other] by (auto simp: e)
qed simp

lemma tensor_consumers_spec:
  "consumers_ok (tensor_consumers ids es) \<and> consumers_of (tensor_consumers ids es) name =
    concat (map (\<lambda>(i, e). map (\<lambda>_. i) (filter (\<lambda>(n, d). n = name) (event_edges ids e))) (List.enumerate 0 es))"
proof -
  have "consumers_ok (fold (\<lambda>(i, e) cs. fold (\<lambda>(n, d). push_consumer i n) (event_edges ids e) cs) ps cs)
    \<and> consumers_of (fold (\<lambda>(i, e) cs. fold (\<lambda>(n, d). push_consumer i n) (event_edges ids e) cs) ps cs) name =
      consumers_of cs name @ concat (map (\<lambda>(i, e). map (\<lambda>_. i) (filter (\<lambda>(n, d). n = name) (event_edges ids e))) ps)"
    if "consumers_ok cs" for ps :: "(nat \<times> trace_event) list" and cs
    using that
  proof (induction ps arbitrary: cs)
    case (Cons p ps)
    obtain i e where p: "p = (i, e)" by (cases p)
    note s = push_edges_spec [OF Cons.prems, of i "event_edges ids e" name]
    show ?case using Cons.IH [OF s [THEN conjunct1]] s by (simp add: p)
  qed simp
  from this [of "[]" "List.enumerate 0 es"] show ?thesis
    by (simp add: tensor_consumers_def consumers_ok_def consumers_of_def)
qed

lemma in_tensor_consumers:
  "i \<in> set (consumers_of (tensor_consumers ids es) name) \<longleftrightarrow>
    i < length es \<and> (\<exists>d. (name, d) \<in> set (zip (te_dependencies (es ! i)) (te_dependency_ids (es ! i))))"
  by (auto simp: tensor_consumers_spec [THEN conjunct2] set_enumerate_nth event_edges_def)

lemma index_ids_bound:
  "index_ids i es (ids, known) = (ids', known') \<Longrightarrow> om_ok ids \<and> (\<forall>k d. om_get ids k = Some d \<longrightarrow> d < i) \<Longrightarrow>
    \<forall>k d. om_get ids' k = Some d \<longrightarrow> d < i + length es"
proof (induction i es "(ids, known)" arbitrary: ids known rule: index_ids.induct)
  case (2 i e es ids known)
  have "om_ok (om_put (te_node_id e) i ids)
      \<and> (\<forall>k d. om_get (om_put (te_node_id e) i ids) k = Some d \<longrightarrow> d < i + 1)"
    using "2.prems"(2) by (auto simp: less_Suc_eq)
  then show ?case using "2.hyps" "2.prems"(1) by fastforce
qed simp

subsection \<open>Properties\<close>

lemma dependency_cycles_total:
  "\<exists>c. dependency_cycles m = Some c \<and>
    (c = 0 \<longleftrightarrow> acyclic {(i, d). i < length (gm_nodes m) \<and> d < length (gm_nodes m)
      \<and> d \<in> set (gn_dependencies (gm_nodes m ! i))})"
proof -
  let ?deps = "map gn_dependencies (gm_nodes m)" and ?n = "length (gm_nodes m)"
  let ?start = "(replicate ?n Unvisited, 0 :: nat)"
  have E: "{(i, d). i < ?n \<and> d < ?n \<and> d \<in> set (gn_dependencies (gm_nodes m ! i))} = dep_edges ?deps"
    by (auto simp: dep_edges_def)
  have marks: "with_mark Visiting (replicate ?n Unvisited) = {}" "with_mark Done (replicate ?n Unvisited) = {}"
    "with_mark Unvisited (replicate ?n Unvisited) = {..<?n}"
    by (auto simp: with_mark_def)
  have fuel: "card (with_mark Unvisited (replicate ?n Unvisited)) \<le> ?n" by (simp add: marks(3))
  have "\<exists>st. visit_roots ?n ?deps [0..<?n] ?start = Some st"
    by (rule visit_roots_fuel [OF fuel]) auto
  then obtain st where st: "visit_roots ?n ?deps [0..<?n] ?start = Some st" ..
  note r = visit_roots_keeps [OF st _ _ marks(1)]
  have k: "keeps ?n (dep_edges ?deps) ?start st" "{0..<?n} \<subseteq> with_mark Done (fst st)"
    "acyclic (dep_edges ?deps) \<longrightarrow> snd st = 0" using r by (simp_all add: lessThan_atLeast0)
  have "acyclic (dep_edges ?deps)" if "snd st = 0"
  proof -
    have "finished (dep_edges ?deps) {}" by (simp add: finished_def)
    then have fin: "finished (dep_edges ?deps) (with_mark Done (fst st))"
      using k(1) that marks by (simp add: keeps_def)
    have "x \<in> {0..<?n}" if "(x, x) \<in> (dep_edges ?deps)\<^sup>+" for x
      using that by (auto simp: dep_edges_def dest: tranclD)
    then have "(x, x) \<notin> (dep_edges ?deps)\<^sup>+" for x
      using fin k(2) unfolding finished_def by blast
    then show ?thesis by (simp add: acyclic_def)
  qed
  then show ?thesis
    using k(3) st by (intro exI [of _ "snd st"]) (auto simp: dependency_cycles_def count_back_edges_def E)
qed

text \<open>
  C12: the search for dependency cycles. On every manifest it returns (a recursion depth of one per node
  is enough), and the count is zero exactly when the dependency graph of the nodes has no cycle.
\<close>

theorem dependency_cycles_acyclic:
  "\<exists>c. dependency_cycles m = Some c \<and>
    (c = 0 \<longleftrightarrow> acyclic {(i, d). i < length (gm_nodes m) \<and> d < length (gm_nodes m)
      \<and> d \<in> set (gn_dependencies (gm_nodes m ! i))})"
  by (rule dependency_cycles_total)

text \<open>
  Last uses. The manifest of a trace lists for every tensor name exactly the requested events that
  read it; its last use is the latest of them, and it is called known only when no native id repeats
  and the completion of that node was observed. Dependencies point at nodes of the manifest, and the
  manifest never claims that eviction within a decode is safe.
\<close>

theorem manifest_last_use:
  assumes "m = manifest_from_trace events" and "requested = filter (\<lambda>e. te_phase e = Requested) events"
  shows "length (gm_nodes m) = length requested \<and> \<not> gm_intra_decode_safe m
    \<and> (\<forall>node \<in> set (gm_nodes m). \<forall>d \<in> set (gn_dependencies node). d < length requested)
    \<and> (\<forall>name. set (case om_get (gm_tensor_to_nodes m) name of None \<Rightarrow> [] | Some is \<Rightarrow> is) =
        {i. i < length requested \<and>
          (\<exists>d. (name, d) \<in> set (zip (te_dependencies (requested ! i)) (te_dependency_ids (requested ! i))))})
    \<and> (\<forall>name u. (name, u) \<in> set (gm_last_use m) \<longrightarrow>
        (\<exists>is. om_get (gm_tensor_to_nodes m) name = Some is \<and> lu_node_index u = Max (set is)
          \<and> lu_reuse_unknown u
          \<and> (lu_status u = GraphOrderOnly \<longleftrightarrow> gm_edges_known m \<and> (\<exists>e \<in> set events.
              te_phase e = CompletedSynchronized \<and> te_node_id e = te_node_id (requested ! Max (set is))))))"
proof -
  obtain ids known where ids: "index_ids 0 requested ([], True) = (ids, known)" by (cases "index_ids 0 requested ([], True)")
  let ?n = "length requested"
  let ?cs = "tensor_consumers ids requested"
  let ?done = "map te_node_id (filter (\<lambda>e. te_phase e = CompletedSynchronized) events)"
  have m: "gm_nodes m = map (\<lambda>(i, e). node_of_event ids i e) (List.enumerate 0 requested)"
    "gm_tensor_to_nodes m = ?cs" "gm_edges_known m = known" "\<not> gm_intra_decode_safe m"
    "gm_last_use m = List.map_filter (\<lambda>(name, is). map_option (Pair name)
      (last_use_of (gm_nodes m) ?done known is)) ?cs"
    by (simp_all add: assms manifest_from_trace_def Let_def ids [unfolded assms(2)])
  have bound: "om_get ids k = Some d \<Longrightarrow> d < ?n" for k d :: nat
    using index_ids_bound [OF ids] by simp
  have deps: "d < ?n" if "node \<in> set (gm_nodes m)" "d \<in> set (gn_dependencies node)" for node d
    using that bound
    by (auto simp: m(1) node_of_event_def set_map_filter event_edges_def)
  have cons: "set (case om_get ?cs name of None \<Rightarrow> [] | Some is \<Rightarrow> is) = {i. i < ?n \<and>
      (\<exists>d. (name, d) \<in> set (zip (te_dependencies (requested ! i)) (te_dependency_ids (requested ! i))))}" for name
    using in_tensor_consumers [of _ ids requested name] by (auto simp: consumers_of_def)
  have ok: "consumers_ok ?cs" using tensor_consumers_spec by blast
  have uses: "\<exists>is. om_get ?cs name = Some is \<and> lu_node_index u = Max (set is) \<and> lu_reuse_unknown u
      \<and> (lu_status u = GraphOrderOnly \<longleftrightarrow> known \<and> (\<exists>e \<in> set events.
          te_phase e = CompletedSynchronized \<and> te_node_id e = te_node_id (requested ! Max (set is))))"
    if u: "(name, u) \<in> set (gm_last_use m)" for name u
  proof -
    obtain "is" where "is": "(name, is) \<in> set ?cs" "last_use_of (gm_nodes m) ?done known is = Some u"
      using u by (auto simp: m(5) set_map_filter)
    then have get: "om_get ?cs name = Some is" using ok by (simp add: consumers_ok_def om_get_in_set)
    have "is \<noteq> []" using "is"(2) by (auto simp: last_use_of_def)
    then have "Max (set is) \<in> set is" by simp
    then have "Max (set is) < ?n" using cons [of name] get by auto
    then have "gn_native_id (gm_nodes m ! Max (set is)) = te_node_id (requested ! Max (set is))"
      by (simp add: m(1) nth_enumerate_eq node_of_event_def)
    moreover have "te_node_id e' \<in> set ?done \<longleftrightarrow> (\<exists>e \<in> set events.
          te_phase e = CompletedSynchronized \<and> te_node_id e = te_node_id e')" for e'
      by (auto simp: image_iff)
    ultimately show ?thesis using get "is"(2) \<open>is \<noteq> []\<close>
      by (auto simp: last_use_of_def Let_def split: if_splits simp del: set_map set_filter)
  qed
  show ?thesis using deps cons uses m(2-4) by (simp add: m(1))
qed

theorem manifest_last_use_witness:
  "\<exists>e. set (case om_get (gm_tensor_to_nodes (manifest_from_trace [e])) ''w'' of None \<Rightarrow> [] | Some is \<Rightarrow> is) = {0}"
proof -
  let ?e = "\<lparr>te_execution_id = 1, te_node_id = 5, te_node_name = None, te_op_name = None, te_bytes = 0,
    te_dependencies = [''w''], te_dependency_ids = [9], te_phase = Requested\<rparr>"
  have "set (case om_get (gm_tensor_to_nodes (manifest_from_trace [?e])) ''w'' of None \<Rightarrow> [] | Some is \<Rightarrow> is) = {0}"
    unfolding manifest_last_use [OF refl refl, of "[?e]", THEN conjunct2, THEN conjunct2, THEN conjunct2,
        THEN conjunct1, THEN spec, of "''w''"]
    by auto
  then show ?thesis by blast
qed

end
