(* ===== verification/Execution_Profile.thy ===== *)
theory Execution_Profile
  imports Graph_Manifest
begin

section \<open>Execution profiles\<close>

text \<open>
  \<open>crates/ramforge-runtime/src/execution_profile.rs\<close>: access patterns gathered from complete graph
  manifests, and the checks on a profile that is stored or loaded. Reading the file and decoding its
  JSON (\<open>serde_json\<close>) is a parameter of \<open>load_profile\<close> and \<open>inspect_profile\<close>: the size of the file and
  the decoded contents, each a result. Encoding is the parameter \<open>encode\<close> of \<open>to_json_file\<close>. The
  64-bit counters of observations wrap.
\<close>

definition EXECUTION_PROFILE_VERSION :: nat where "EXECUTION_PROFILE_VERSION = 1"
definition PROFILE_SCHEMA_VERSION :: nat where "PROFILE_SCHEMA_VERSION = 1"
definition PROFILE_KIND :: string where "PROFILE_KIND = ''ramforge.execution_profile''"
definition MAX_PROFILE_BYTES :: u64 where "MAX_PROFILE_BYTES = 16 * 1024 * 1024"
definition MAX_PROFILE_ENTRIES :: usize where "MAX_PROFILE_ENTRIES = 100000"

record access_pattern =
  first_order :: usize
  last_order :: usize
  observed_consumers :: usize

record execution_profile =
  ep_version :: nat
  ep_model_id :: string
  ep_generation :: u64
  ep_complete :: u64
  ep_incomplete :: u64
  ep_last_node_count :: usize
  ep_last_tensor_count :: usize
  ep_access :: "(string, access_pattern) omap"
  ep_invalidated :: "string option"

definition profile_new :: "string \<Rightarrow> u64 \<Rightarrow> execution_profile" where
  "profile_new model generation =
     \<lparr>ep_version = EXECUTION_PROFILE_VERSION, ep_model_id = model, ep_generation = generation,
      ep_complete = 0, ep_incomplete = 0, ep_last_node_count = 0, ep_last_tensor_count = 0,
      ep_access = [], ep_invalidated = None\<rparr>"

definition access_of_consumers :: "usize list \<Rightarrow> access_pattern" where
  "access_of_consumers consumers =
     \<lparr>first_order = (if consumers = [] then 0 else Min (set consumers)),
      last_order = (if consumers = [] then 0 else Max (set consumers)),
      observed_consumers = length consumers\<rparr>"

text \<open>None means that the cycle count did not return; the property below excludes it.\<close>

definition profile_update :: "graph_manifest \<Rightarrow> bool \<Rightarrow> execution_profile \<Rightarrow> execution_profile option" where
  "profile_update m trace_complete p =
     (if gm_execution_id m = None then Some (p\<lparr>ep_incomplete := wrapping_add (ep_incomplete p) 1\<rparr>)
      else map_option (\<lambda>cycles.
        let usable = trace_complete \<and> gm_edges_known m \<and> gm_completion_proven m \<and> cycles = 0
              \<and> \<not> gm_intra_decode_safe m;
            p = p\<lparr>ep_last_node_count := length (gm_nodes m),
                  ep_last_tensor_count := length (gm_tensor_to_nodes m)\<rparr> in
        if \<not> usable then p\<lparr>ep_incomplete := wrapping_add (ep_incomplete p) 1\<rparr>
        else p\<lparr>ep_complete := wrapping_add (ep_complete p) 1,
               ep_access := map (\<lambda>(tensor, consumers). (tensor, access_of_consumers consumers))
                 (gm_tensor_to_nodes m),
               ep_invalidated := None\<rparr>)
        (dependency_cycles m))"

fun update_executions :: "trace_event list \<Rightarrow> bool \<Rightarrow> u64 list \<Rightarrow> execution_profile \<Rightarrow> execution_profile option" where
  "update_executions events complete [] p = Some p"
| "update_executions events complete (i # is) p =
     Option.bind (profile_update (manifest_from_trace (filter (\<lambda>e. te_execution_id e = i) events)) complete p)
       (update_executions events complete is)"

definition update_from_trace :: "trace_event list \<Rightarrow> bool \<Rightarrow> execution_profile \<Rightarrow> execution_profile option" where
  "update_from_trace events trace_complete p =
     (let ids = sort (remdups (map te_execution_id events)) in
      if ids = [] then Some (p\<lparr>ep_incomplete := wrapping_add (ep_incomplete p) 1\<rparr>)
      else update_executions events trace_complete ids p)"

definition invalidate :: "string \<Rightarrow> execution_profile \<Rightarrow> execution_profile" where
  "invalidate reason p =
     p\<lparr>ep_access := [], ep_last_node_count := 0, ep_last_tensor_count := 0, ep_invalidated := Some reason\<rparr>"

definition is_valid_for :: "string \<Rightarrow> u64 \<Rightarrow> execution_profile \<Rightarrow> bool" where
  "is_valid_for model generation p \<longleftrightarrow> ep_model_id p = model \<and> ep_generation p = generation
     \<and> 0 < ep_complete p \<and> ep_invalidated p = None"

definition profile_last_order :: "execution_profile \<Rightarrow> string \<Rightarrow> usize option" where
  "profile_last_order p tensor_name = map_option last_order (om_get (ep_access p) tensor_name)"

definition profile_is_complete :: "execution_profile \<Rightarrow> bool" where
  "profile_is_complete p \<longleftrightarrow> 0 < ep_complete p \<and> ep_invalidated p = None"

subsection \<open>Persistence\<close>

record profile_identity =
  pi_model_path :: string
  pi_model_size :: u64
  pi_modified :: "u64 option"
  pi_generation :: u64
  pi_contract :: nat

record execution_profile_file =
  pf_schema :: nat
  pf_kind :: string
  pf_identity :: profile_identity
  pf_profile :: execution_profile

record profile_inspection =
  in_schema :: nat
  in_kind :: string
  in_identity :: profile_identity
  in_version :: nat
  in_complete :: u64
  in_incomplete :: u64
  in_entries :: usize
  in_invalidated :: bool

datatype profile_error =
    ProfileIo string
  | ProfileJson string
  | ProfileTooLarge u64 u64
  | ProfileSchema nat
  | ProfileKind string
  | ProfileVersion nat
  | ProfileNativeContract nat
  | ProfileModelPath string
  | ProfileModelSize u64 u64
  | ProfileModelModified "u64 option" "u64 option"
  | ProfileGeneration u64 u64
  | ProfileIncomplete
  | ProfileInvalidated string
  | TooManyEntries usize
  | InvalidEntry string

text \<open>The formatted part of \<open>InvalidEntry\<close> is left out.\<close>

fun check_entries :: "(string, access_pattern) omap \<Rightarrow> (unit, profile_error) result" where
  "check_entries [] = Ok ()"
| "check_entries ((name, pattern) # rest) =
     (if name = [] \<or> 4096 < length name then Err (InvalidEntry ''tensor name length'')
      else if last_order pattern < first_order pattern \<or> observed_consumers pattern = 0
      then Err (InvalidEntry ''inconsistent access range'')
      else check_entries rest)"

definition validate_for_persistence :: "execution_profile \<Rightarrow> (unit, profile_error) result" where
  "validate_for_persistence p =
     (case ep_invalidated p of
        Some reason \<Rightarrow> Err (ProfileInvalidated reason)
      | None \<Rightarrow>
          if ep_complete p = 0 \<or> ep_access p = [] then Err ProfileIncomplete
          else if MAX_PROFILE_ENTRIES < length (ep_access p) then Err (TooManyEntries (length (ep_access p)))
          else check_entries (ep_access p))"

definition to_json_file :: "(execution_profile_file \<Rightarrow> ('b list, string) result) \<Rightarrow> profile_identity \<Rightarrow>
  execution_profile \<Rightarrow> ('b list, profile_error) result"
where
  "to_json_file encode ident p =
     rbind (validate_for_persistence p) (\<lambda>_.
       if ep_model_id p \<noteq> pi_model_path ident then Err (ProfileModelPath (ep_model_id p))
       else if ep_generation p \<noteq> pi_generation ident
       then Err (ProfileGeneration (pi_generation ident) (ep_generation p))
       else rbind (map_err ProfileJson (encode \<lparr>pf_schema = PROFILE_SCHEMA_VERSION, pf_kind = PROFILE_KIND,
              pf_identity = ident, pf_profile = p\<rparr>)) (\<lambda>bytes.
          if MAX_PROFILE_BYTES < length bytes then Err (ProfileTooLarge (length bytes) MAX_PROFILE_BYTES)
          else Ok bytes))"

definition check_file_header :: "execution_profile_file \<Rightarrow> (unit, profile_error) result" where
  "check_file_header f =
     (if pf_schema f \<noteq> PROFILE_SCHEMA_VERSION then Err (ProfileSchema (pf_schema f))
      else if pf_kind f \<noteq> PROFILE_KIND then Err (ProfileKind (pf_kind f))
      else if ep_version (pf_profile f) \<noteq> EXECUTION_PROFILE_VERSION
      then Err (ProfileVersion (ep_version (pf_profile f)))
      else Ok ())"

definition check_identity :: "profile_identity \<Rightarrow> execution_profile_file \<Rightarrow> (unit, profile_error) result" where
  "check_identity expected f =
     (let i = pf_identity f; p = pf_profile f in
      if pi_contract i \<noteq> pi_contract expected then Err (ProfileNativeContract (pi_contract i))
      else if pi_model_path i \<noteq> pi_model_path expected then Err (ProfileModelPath (pi_model_path i))
      else if pi_model_size i \<noteq> pi_model_size expected
      then Err (ProfileModelSize (pi_model_size expected) (pi_model_size i))
      else if pi_modified i \<noteq> pi_modified expected
      then Err (ProfileModelModified (pi_modified expected) (pi_modified i))
      else if pi_generation i \<noteq> pi_generation expected
      then Err (ProfileGeneration (pi_generation expected) (pi_generation i))
      else if ep_model_id p \<noteq> pi_model_path i then Err (ProfileModelPath (ep_model_id p))
      else if ep_generation p \<noteq> pi_generation i
      then Err (ProfileGeneration (pi_generation i) (ep_generation p))
      else Ok ())"

definition read_profile_file :: "(u64, string) result \<Rightarrow> (execution_profile_file, profile_error) result \<Rightarrow>
  (execution_profile_file, profile_error) result"
where
  "read_profile_file file_len contents =
     rbind (map_err ProfileIo file_len) (\<lambda>bytes.
       if MAX_PROFILE_BYTES < bytes then Err (ProfileTooLarge bytes MAX_PROFILE_BYTES) else contents)"

definition load_profile :: "(u64, string) result \<Rightarrow> (execution_profile_file, profile_error) result \<Rightarrow>
  profile_identity \<Rightarrow> (execution_profile, profile_error) result"
where
  "load_profile file_len contents expected =
     rbind (read_profile_file file_len contents) (\<lambda>f.
       rbind (check_file_header f) (\<lambda>_.
         rbind (check_identity expected f) (\<lambda>_.
           rbind (validate_for_persistence (pf_profile f)) (\<lambda>_.
             if \<not> is_valid_for (ep_model_id (pf_profile f)) (ep_generation (pf_profile f)) (pf_profile f)
             then Err ProfileIncomplete else Ok (pf_profile f)))))"

definition inspect_profile :: "(u64, string) result \<Rightarrow> (execution_profile_file, profile_error) result \<Rightarrow>
  (profile_inspection, profile_error) result"
where
  "inspect_profile file_len contents =
     rbind (read_profile_file file_len contents) (\<lambda>f.
       rbind (check_file_header f) (\<lambda>_.
         rbind (validate_for_persistence (pf_profile f)) (\<lambda>_.
           Ok \<lparr>in_schema = pf_schema f, in_kind = pf_kind f, in_identity = pf_identity f,
               in_version = ep_version (pf_profile f), in_complete = ep_complete (pf_profile f),
               in_incomplete = ep_incomplete (pf_profile f), in_entries = length (ep_access (pf_profile f)),
               in_invalidated = (ep_invalidated (pf_profile f) \<noteq> None)\<rparr>)))"

subsection \<open>Properties\<close>

lemma check_entries_ok:
  "check_entries a = Ok () \<longleftrightarrow> (\<forall>(name, p) \<in> set a. name \<noteq> [] \<and> length name \<le> 4096
     \<and> first_order p \<le> last_order p \<and> 0 < observed_consumers p)"
  by (induction a rule: check_entries.induct) (auto simp: not_less)

lemma validate_ok:
  "validate_for_persistence p = Ok () \<longleftrightarrow> ep_invalidated p = None \<and> 0 < ep_complete p \<and> ep_access p \<noteq> []
     \<and> length (ep_access p) \<le> MAX_PROFILE_ENTRIES \<and> check_entries (ep_access p) = Ok ()"
  by (auto simp: validate_for_persistence_def split: option.splits)

text \<open>What every access map of a profile satisfies, and the steps of a profile's life.\<close>

definition access_ok :: "execution_profile \<Rightarrow> bool" where
  "access_ok p \<longleftrightarrow> om_ok (ep_access p)
     \<and> (\<forall>(name, a) \<in> set (ep_access p). first_order a \<le> last_order a \<and> 0 < observed_consumers a)"

inductive profile_step :: "execution_profile \<Rightarrow> execution_profile \<Rightarrow> bool" where
  step_trace: "update_from_trace events complete p = Some p' \<Longrightarrow> profile_step p p'"
| step_invalidate: "profile_step p (invalidate reason p)"

lemma access_of_consumers_ok:
  "is \<noteq> [] \<Longrightarrow> first_order (access_of_consumers is) \<le> last_order (access_of_consumers is)
     \<and> 0 < observed_consumers (access_of_consumers is)"
  by (simp add: access_of_consumers_def)

lemma manifest_consumers_ok: "consumers_ok (gm_tensor_to_nodes (manifest_from_trace events))"
proof -
  obtain ids known where "index_ids 0 (filter (\<lambda>e. te_phase e = Requested) events) ([], True) = (ids, known)"
    by (cases "index_ids 0 (filter (\<lambda>e. te_phase e = Requested) events) ([], True)")
  then show ?thesis using tensor_consumers_spec by (simp add: manifest_from_trace_def Let_def)
qed

lemma access_map_ok:
  assumes "consumers_ok cs"
  shows "om_ok (map (\<lambda>(t, is). (t, access_of_consumers is)) cs)
    \<and> (\<forall>(name, a) \<in> set (map (\<lambda>(t, is). (t, access_of_consumers is)) cs).
        first_order a \<le> last_order a \<and> 0 < observed_consumers a)"
proof
  have "map fst (map (\<lambda>(t, is). (t, access_of_consumers is)) cs) = map fst cs"
    by (simp add: comp_def case_prod_unfold)
  then show "om_ok (map (\<lambda>(t, is). (t, access_of_consumers is)) cs)"
    using assms unfolding consumers_ok_def om_ok_def by metis
  have "is \<noteq> []" if "(t, is) \<in> set cs" for t "is"
    using assms that by (metis consumers_ok_def om_get_in_set)
  then show "\<forall>(name, a) \<in> set (map (\<lambda>(t, is). (t, access_of_consumers is)) cs).
        first_order a \<le> last_order a \<and> 0 < observed_consumers a"
    using access_of_consumers_ok by fastforce
qed

lemma profile_update_spec:
  "\<exists>p'. profile_update (manifest_from_trace events) c p = Some p' \<and> ep_model_id p' = ep_model_id p
    \<and> ep_generation p' = ep_generation p \<and> (access_ok p \<longrightarrow> access_ok p')
    \<and> (\<not> c \<longrightarrow> ep_access p' = ep_access p \<and> ep_complete p' = ep_complete p \<and> ep_invalidated p' = ep_invalidated p)"
proof (cases "gm_execution_id (manifest_from_trace events)")
  case None
  then show ?thesis by (simp add: profile_update_def access_ok_def)
next
  case (Some x)
  obtain cycles where "dependency_cycles (manifest_from_trace events) = Some cycles"
    using dependency_cycles_total by blast
  then show ?thesis
    using Some access_map_ok [OF manifest_consumers_ok, of events]
    by (simp add: profile_update_def Let_def access_ok_def del: set_map)
qed

lemma update_executions_spec:
  "\<exists>p'. update_executions events c is p = Some p' \<and> ep_model_id p' = ep_model_id p
    \<and> ep_generation p' = ep_generation p \<and> (access_ok p \<longrightarrow> access_ok p')
    \<and> (\<not> c \<longrightarrow> ep_access p' = ep_access p \<and> ep_complete p' = ep_complete p \<and> ep_invalidated p' = ep_invalidated p)"
proof (induction "is" arbitrary: p)
  case (Cons i "is")
  obtain p1 where p1: "profile_update (manifest_from_trace (filter (\<lambda>e. te_execution_id e = i) events)) c p = Some p1"
    "ep_model_id p1 = ep_model_id p \<and> ep_generation p1 = ep_generation p \<and> (access_ok p \<longrightarrow> access_ok p1)
    \<and> (\<not> c \<longrightarrow> ep_access p1 = ep_access p \<and> ep_complete p1 = ep_complete p \<and> ep_invalidated p1 = ep_invalidated p)"
    using profile_update_spec by blast
  obtain p2 where "update_executions events c is p1 = Some p2 \<and> ep_model_id p2 = ep_model_id p1
    \<and> ep_generation p2 = ep_generation p1 \<and> (access_ok p1 \<longrightarrow> access_ok p2)
    \<and> (\<not> c \<longrightarrow> ep_access p2 = ep_access p1 \<and> ep_complete p2 = ep_complete p1 \<and> ep_invalidated p2 = ep_invalidated p1)"
    using Cons.IH by blast
  then show ?case using p1 by simp
qed simp

lemma update_from_trace_spec:
  "\<exists>p'. update_from_trace events c p = Some p' \<and> ep_model_id p' = ep_model_id p
    \<and> ep_generation p' = ep_generation p \<and> (access_ok p \<longrightarrow> access_ok p')
    \<and> (\<not> c \<longrightarrow> ep_access p' = ep_access p \<and> ep_complete p' = ep_complete p \<and> ep_invalidated p' = ep_invalidated p)"
  using update_executions_spec [of events c _ p]
  by (simp add: update_from_trace_def Let_def access_ok_def)

lemma profile_step_keeps:
  "profile_step p p' \<Longrightarrow> ep_model_id p' = ep_model_id p \<and> ep_generation p' = ep_generation p \<and> (access_ok p \<longrightarrow> access_ok p')"
proof (induction rule: profile_step.induct)
  case (step_trace events complete p p')
  then show ?case using update_from_trace_spec [of events complete p] by auto
next
  case (step_invalidate p reason)
  then show ?case by (simp add: invalidate_def access_ok_def)
qed

text \<open>
  Storing and loading. With a decoder that inverts the encoder, a profile that \<open>to_json_file\<close>
  stores under an identity is loaded back unchanged under that identity, and under no identity that
  differs in model path, size, modification time, generation or native contract.
\<close>

theorem profile_file_roundtrip:
  assumes "to_json_file encode ident p = Ok bytes" and "ep_version p = EXECUTION_PROFILE_VERSION"
    and "\<And>f bs. encode f = Ok bs \<Longrightarrow> decode bs = Ok f"
  shows "load_profile (Ok (length bytes)) (decode bytes) ident = Ok p
    \<and> (\<forall>other q. load_profile (Ok (length bytes)) (decode bytes) other = Ok q \<longrightarrow> other = ident)"
proof -
  let ?f = "\<lparr>pf_schema = PROFILE_SCHEMA_VERSION, pf_kind = PROFILE_KIND, pf_identity = ident, pf_profile = p\<rparr>"
  have enc: "encode ?f = Ok bytes" and small: "length bytes \<le> MAX_PROFILE_BYTES"
    and same: "ep_model_id p = pi_model_path ident" "ep_generation p = pi_generation ident"
    and ok: "validate_for_persistence p = Ok ()"
    using assms(1) by (auto simp: to_json_file_def rbind_eq_Ok split: if_splits)
  have dec: "decode bytes = Ok ?f" by (rule assms(3) [OF enc])
  have valid: "is_valid_for (ep_model_id p) (ep_generation p) p"
    using ok by (simp add: validate_ok is_valid_for_def)
  have "load_profile (Ok (length bytes)) (decode bytes) ident = Ok p"
    using assms(2) small same ok valid
    by (simp add: dec load_profile_def read_profile_file_def check_file_header_def check_identity_def)
  moreover have "other = ident" if "load_profile (Ok (length bytes)) (decode bytes) other = Ok q" for other q
    using that small
    by (auto simp: dec load_profile_def read_profile_file_def check_file_header_def check_identity_def
        rbind_eq_Ok Let_def split: if_splits)
  ultimately show ?thesis by blast
qed

definition example_profile :: execution_profile where
  "example_profile = (profile_new ''m'' 3)\<lparr>ep_complete := 1, ep_access :=
     [(''w'', \<lparr>first_order = 0, last_order = 4, observed_consumers = 2\<rparr>)]\<rparr>"

definition example_identity :: "profile_identity" where
  "example_identity = \<lparr>pi_model_path = ''m'', pi_model_size = 10, pi_modified = None, pi_generation = 3, pi_contract = 1\<rparr>"

theorem profile_file_roundtrip_witness:
  "load_profile (Ok (length [()])) (Ok \<lparr>pf_schema = PROFILE_SCHEMA_VERSION, pf_kind = PROFILE_KIND,
     pf_identity = example_identity, pf_profile = example_profile\<rparr>) example_identity = Ok example_profile"
proof -
  let ?f = "\<lparr>pf_schema = PROFILE_SCHEMA_VERSION, pf_kind = PROFILE_KIND,
     pf_identity = example_identity, pf_profile = example_profile\<rparr>"
  let ?encode = "\<lambda>f :: execution_profile_file. if f = ?f then Ok [()] else Err ''''"
  have "to_json_file ?encode example_identity example_profile = Ok [()]"
    by (simp add: to_json_file_def validate_for_persistence_def example_profile_def example_identity_def
        profile_new_def MAX_PROFILE_ENTRIES_def MAX_PROFILE_BYTES_def)
  moreover have "ep_version example_profile = EXECUTION_PROFILE_VERSION"
    by (simp add: example_profile_def profile_new_def)
  moreover have "?encode f = Ok bs \<Longrightarrow> (\<lambda>_. Ok ?f) bs = Ok f" for f bs by (auto split: if_splits)
  ultimately have "load_profile (Ok (length [()])) ((\<lambda>_. Ok ?f) [()]) example_identity = Ok example_profile"
    by (intro profile_file_roundtrip [of ?encode, THEN conjunct1])
  then show ?thesis by simp
qed

text \<open>
  The life of a profile. After any run of trace updates and invalidations the profile keeps its
  model and generation, every access pattern is consistent (first order not after the last, at least
  one consumer), a further update always returns, and an update from an incomplete trace leaves the
  access map, the count of complete observations and the validity as they are.
\<close>

theorem profile_run_invariant:
  assumes "profile_step\<^sup>*\<^sup>* (profile_new model g) p"
  shows "ep_model_id p = model \<and> ep_generation p = g
    \<and> (\<forall>name a. om_get (ep_access p) name = Some a \<longrightarrow> first_order a \<le> last_order a \<and> 0 < observed_consumers a)
    \<and> (\<forall>events c. \<exists>p'. update_from_trace events c p = Some p')
    \<and> (\<forall>events. \<exists>p'. update_from_trace events False p = Some p' \<and> ep_access p' = ep_access p
        \<and> is_valid_for model g p' = is_valid_for model g p)"
proof -
  have inv: "ep_model_id p = model \<and> ep_generation p = g \<and> access_ok p"
    using assms
  proof (induction rule: rtranclp_induct)
    case base
    then show ?case by (simp add: profile_new_def access_ok_def)
  next
    case (step p p')
    then show ?case using profile_step_keeps by blast
  qed
  have "first_order a \<le> last_order a \<and> 0 < observed_consumers a" if "om_get (ep_access p) name = Some a" for name a
    using inv that by (auto simp: access_ok_def om_get_in_set [symmetric])
  moreover have "\<exists>p'. update_from_trace events False p = Some p' \<and> ep_access p' = ep_access p
        \<and> is_valid_for model g p' = is_valid_for model g p" for events
    using update_from_trace_spec [of events False p] inv by (auto simp: is_valid_for_def)
  moreover have "\<exists>p'. update_from_trace events c p = Some p'" for events c
    using update_from_trace_spec by blast
  ultimately show ?thesis using inv by blast
qed

theorem profile_run_invariant_witness:
  "\<exists>p. profile_step\<^sup>*\<^sup>* (profile_new ''m'' 3) p \<and> p \<noteq> profile_new ''m'' 3 \<and> ep_generation p = 3"
proof -
  have s: "profile_step\<^sup>*\<^sup>* (profile_new ''m'' 3) (invalidate ''stale'' (profile_new ''m'' 3))"
    by (intro r_into_rtranclp step_invalidate)
  moreover have "invalidate ''stale'' (profile_new ''m'' 3) \<noteq> profile_new ''m'' 3"
    by (simp add: invalidate_def profile_new_def)
  ultimately show ?thesis using profile_run_invariant [OF s] by blast
qed

end
