(* ===== verification/Residency_Planner.thy ===== *)
theory Residency_Planner
  imports Execution_Profile "HOL-Library.Multiset"
begin

section \<open>Residency policy, plans and admission\<close>

text \<open>
  \<open>ResidencyPolicy\<close>, \<open>Planner\<close> and \<open>admit\<close> of \<open>crates/ramforge-runtime/src/residency_engine.rs\<close>. A plan
  decides for every resource of the inventory whether its pages are released: first the reasons to
  retain it, in the order of the code, then a greedy choice among the candidates in rank order until
  the bytes over the soft target are covered. The sum of the reclaimed bytes is a plain \<open>+=\<close> and wraps.
\<close>

subsection \<open>Policy\<close>

datatype policy_mode = ModeOff | Observe | Conservative | MemoryBound | ReuseAware | Active

record residency_policy =
  rp_mode :: policy_mode
  rp_target :: "u64 option"
  rp_reserve :: u64

definition policy_default :: residency_policy where
  "policy_default = \<lparr>rp_mode = ModeOff, rp_target = None, rp_reserve = 0\<rparr>"

datatype policy_error = ReserveExceedsTarget u64 u64 | ActiveWithoutTarget

definition validate_policy :: "residency_policy \<Rightarrow> (residency_policy, policy_error) result" where
  "validate_policy p =
     (case rp_target p of
        Some target \<Rightarrow> if target < rp_reserve p then Err (ReserveExceedsTarget target (rp_reserve p)) else Ok p
      | None \<Rightarrow> if rp_mode p = Active \<or> rp_mode p = MemoryBound then Err ActiveWithoutTarget else Ok p)"

record operation_context =
  oc_required :: "resource_key set"
  oc_pinned :: "resource_key set"

subsection \<open>Plans\<close>

datatype decision_action = Release | Retain

datatype decision_reason =
    PolicyOff | RequiredByOperation | Pinned | AnonymousOrRepacked | EmptyPageRange
  | AlreadyAttempted | AllPagesShared | SharedPageConservative | LifetimeUnsupported
  | LifetimeUnknown | SynchronizationMissing | BudgetAlreadyMet | SelectedEligible
  | EligibleButNotNeeded | InsufficientReclaimableCapacity

record resource_decision =
  rd_key :: resource_key
  rd_name :: string
  rd_layer :: layer_identity
  rd_action :: decision_action
  rd_reason :: decision_reason
  rd_page_bytes :: u64
  rd_shared_page_bytes :: u64
  rd_estimated_reclaim :: u64

datatype measurement_source = Measured | EstimatedFromMapping | UnknownSource

record residency_plan =
  rl_mode :: policy_mode
  rl_target :: "u64 option"
  rl_reserve :: u64
  rl_observed :: "u64 option"
  rl_source :: measurement_source
  rl_decisions :: "resource_decision list"
  rl_selected :: "resource_key list"
  rl_profile_used :: bool
  rl_estimated_reclaim :: u64
  rl_estimated_after :: "u64 option"
  rl_budget_met :: bool
  rl_notes :: "string list"

definition is_noop :: "residency_plan \<Rightarrow> bool" where
  "is_noop p \<longleftrightarrow> rl_selected p = []"

record planner =
  pn_inventory :: resource_inventory
  pn_attempted :: "resource_key set"
  pn_contract :: "nat option"
  pn_quiescent :: bool
  pn_guard :: bool

definition planner_new :: "resource_inventory \<Rightarrow> resource_key set \<Rightarrow> planner" where
  "planner_new iv attempted =
     \<lparr>pn_inventory = iv, pn_attempted = attempted, pn_contract = None, pn_quiescent = False, pn_guard = False\<rparr>"

definition with_native_guard :: "nat option \<Rightarrow> bool \<Rightarrow> planner \<Rightarrow> planner" where
  "with_native_guard contract quiescent p =
     p\<lparr>pn_contract := contract, pn_quiescent := quiescent, pn_guard := True\<rparr>"

definition base_decision :: "tensor_resource \<Rightarrow> resource_decision" where
  "base_decision r =
     \<lparr>rd_key = tr_key r, rd_name = tr_name r, rd_layer = tr_layer r, rd_action = Retain,
      rd_reason = EligibleButNotNeeded, rd_page_bytes = tr_page_bytes r,
      rd_shared_page_bytes = tr_shared_page_bytes r, rd_estimated_reclaim = unique_reclaimable_bytes r\<rparr>"

text \<open>The chain of reasons to retain a resource; None for a candidate.\<close>

definition retain_reason :: "planner \<Rightarrow> residency_policy \<Rightarrow> operation_context \<Rightarrow> u64 \<Rightarrow> tensor_resource \<Rightarrow>
  decision_reason option"
where
  "retain_reason p policy ctx need r =
     (if rp_mode policy = ModeOff then Some PolicyOff
      else if tr_key r \<in> oc_required ctx then Some RequiredByOperation
      else if tr_key r \<in> oc_pinned ctx then Some Pinned
      else if \<not> tr_file_backed r then Some AnonymousOrRepacked
      else if tr_lifetime r = UnsupportedLifetime then Some LifetimeUnsupported
      else if tr_lifetime r = UnknownLifetime then Some LifetimeUnknown
      else if pn_guard p \<and> (pn_contract p \<noteq> Some 1 \<or> \<not> pn_quiescent p)
      then Some (if pn_contract p \<noteq> Some 1 then LifetimeUnknown else SynchronizationMissing)
      else if tr_page_bytes r = 0 then Some EmptyPageRange
      else if tr_key r \<in> pn_attempted p then Some AlreadyAttempted
      else if unique_reclaimable_bytes r = 0 then Some AllPagesShared
      else if rp_mode policy = Conservative \<and> 0 < tr_shared_page_bytes r then Some SharedPageConservative
      else if need = 0 then Some BudgetAlreadyMet
      else None)"

fun sort_out :: "(tensor_resource \<Rightarrow> decision_reason option) \<Rightarrow> tensor_resource list \<Rightarrow>
  resource_decision list \<times> resource_decision list"
where
  "sort_out reason [] = ([], [])"
| "sort_out reason (r # rs) =
     (case sort_out reason rs of (retained, candidates) \<Rightarrow>
        (case reason r of
           Some why \<Rightarrow> ((base_decision r)\<lparr>rd_reason := why\<rparr> # retained, candidates)
         | None \<Rightarrow> (retained, base_decision r # candidates)))"

text \<open>
  The comparison of two candidates is the lexicographic order of these keys; the sort of the code is
  stable, as is \<open>sort_key\<close>. The reclaimed bytes are negated because the code compares them reversed.
\<close>

definition candidate_rank :: "execution_profile option \<Rightarrow> bool \<Rightarrow> resource_decision \<Rightarrow>
  bool \<times> nat \<times> int \<times> (nat \<times> nat) \<times> int"
where
  "candidate_rank profile profile_used d =
     (0 < rd_shared_page_bytes d,
      (if profile_used
       then (case profile of None \<Rightarrow> 0
         | Some p \<Rightarrow> (case profile_last_order p (rd_name d) of None \<Rightarrow> 0 | Some n \<Rightarrow> n))
       else 0),
      - int (rd_estimated_reclaim d), layer_sort_key (rd_layer d), key_tensor_index (rd_key d))"

fun select_candidates :: "u64 \<Rightarrow> u64 \<Rightarrow> resource_decision list \<Rightarrow>
  resource_decision list \<times> resource_key list \<times> u64"
where
  "select_candidates need reclaim [] = ([], [], reclaim)"
| "select_candidates need reclaim (c # cs) =
     (if 0 < need \<and> reclaim < need
      then (case select_candidates need (wrapping_add reclaim (rd_estimated_reclaim c)) cs of
          (decisions, selected, total_reclaim) \<Rightarrow>
            (c\<lparr>rd_action := Release, rd_reason := SelectedEligible\<rparr> # decisions, rd_key c # selected,
             total_reclaim))
      else (case select_candidates need reclaim cs of
          (decisions, selected, total_reclaim) \<Rightarrow>
            (c\<lparr>rd_reason := EligibleButNotNeeded\<rparr> # decisions, selected, total_reclaim)))"

definition effective_target :: "residency_policy \<Rightarrow> u64 option" where
  "effective_target policy = map_option (\<lambda>t. saturating_sub t (rp_reserve policy)) (rp_target policy)"

definition needed_bytes :: "u64 \<Rightarrow> u64 option \<Rightarrow> u64" where
  "needed_bytes current target = (case target of Some t \<Rightarrow> saturating_sub current t | None \<Rightarrow> 0)"

definition plan_notes :: "policy_mode \<Rightarrow> bool \<Rightarrow> measurement_source \<Rightarrow> bool \<Rightarrow> bool \<Rightarrow> string list" where
  "plan_notes mode profile_used source met none_selected =
     (if mode = ModeOff then [''residency policy is off''] else [])
     @ (if mode = ReuseAware \<and> \<not> profile_used
        then [''reuse-aware policy has no valid profile; using deterministic memory-bound ordering''] else [])
     @ (if source = EstimatedFromMapping
        then [''current residency is estimated from mapped tensor pages''] else [])
     @ (if \<not> met \<and> none_selected then [''insufficient eligible reclaimable capacity'']
        else if \<not> met then [''selected candidates do not fully meet the soft target''] else [])"

definition plan_with_profile :: "planner \<Rightarrow> residency_policy \<Rightarrow> u64 option \<Rightarrow> operation_context \<Rightarrow>
  execution_profile option \<Rightarrow> residency_plan"
where
  "plan_with_profile p policy observed ctx profile =
     (let target = effective_target policy;
          (current, source) = (case observed of
              Some bytes \<Rightarrow> (bytes, Measured)
            | None \<Rightarrow> (is_page_bytes (ri_summary (pn_inventory p)), EstimatedFromMapping));
          need = needed_bytes current target;
          (retained, candidates) = sort_out (retain_reason p policy ctx need) (ri_resources (pn_inventory p));
          profile_used = (rp_mode policy = ReuseAware \<and> profile \<noteq> None);
          ranked = sort_key (candidate_rank profile profile_used) candidates;
          (chosen, selected, reclaim) = select_candidates need 0 ranked;
          after = saturating_sub current reclaim;
          met = (case target of Some t \<Rightarrow> after \<le> t | None \<Rightarrow> True) in
      \<lparr>rl_mode = rp_mode policy, rl_target = rp_target policy, rl_reserve = rp_reserve policy,
       rl_observed = Some current, rl_source = source, rl_decisions = retained @ chosen,
       rl_selected = selected, rl_profile_used = profile_used, rl_estimated_reclaim = reclaim,
       rl_estimated_after = Some after, rl_budget_met = met,
       rl_notes = plan_notes (rp_mode policy) profile_used source met (selected = [])\<rparr>)"

definition plan :: "planner \<Rightarrow> residency_policy \<Rightarrow> u64 option \<Rightarrow> operation_context \<Rightarrow> residency_plan" where
  "plan p policy observed ctx = plan_with_profile p policy observed ctx None"

subsection \<open>Admission\<close>

datatype admission_outcome = Admitted | AdmittedWithWarning | Rejected | UnknownAdmission | UnsupportedAdmission

record admission_decision =
  ad_outcome :: admission_outcome
  ad_native_model :: "u64 option"
  ad_native_contract :: "nat option"
  ad_native_quiescent :: bool
  ad_reclaimable :: u64
  ad_soft :: "u64 option"
  ad_hard :: "u64 option"
  ad_reserve :: u64
  ad_current :: "u64 option"
  ad_known :: u64
  ad_reasons :: "string list"
  ad_unknown :: "string list"

definition unknown_memory_components :: "string list" where
  "unknown_memory_components = [''KV cache'', ''graph/scratch buffers'', ''allocator/runtime overhead'']"

definition soft_target_reasons :: "string list" where
  "soft_target_reasons =
     [''current memory plus reserve exceeds the soft target'',
      ''soft target is policy guidance; requested page release is not an observed RSS or cgroup reduction'',
      ''KV cache, scratch, and runtime memory are unknown and may dominate the excess'']"

definition admission_of :: "u64 option \<Rightarrow> u64 option \<Rightarrow> u64 \<Rightarrow> u64 option \<Rightarrow> u64 \<Rightarrow>
  admission_outcome \<times> string list"
where
  "admission_of soft hard margin current known =
     (case current of
        Some cur \<Rightarrow>
          (case (checked_add cur margin, checked_add known margin) of
             (Some current_with_reserve, Some known_with_reserve) \<Rightarrow>
               (case hard of
                  Some limit \<Rightarrow>
                    if limit < current_with_reserve \<or> limit < known_with_reserve
                    then (Rejected, [''current/known memory plus reserve exceeds the hard cgroup limit'',
                      ''page release is not a substitute for hard cgroup enforcement''])
                    else (case soft of
                        Some t \<Rightarrow> if t < current_with_reserve then (AdmittedWithWarning, soft_target_reasons)
                          else (Admitted, [])
                      | None \<Rightarrow> (Admitted, []))
                | None \<Rightarrow>
                    (case soft of
                        Some t \<Rightarrow> if t < current_with_reserve then (AdmittedWithWarning, soft_target_reasons)
                          else (Admitted, [])
                      | None \<Rightarrow> (Admitted, [])))
           | _ \<Rightarrow> (Rejected, [''memory accounting overflowed while adding the safety reserve'']))
      | None \<Rightarrow>
          if hard \<noteq> None \<or> soft \<noteq> None then (UnknownAdmission, [''current memory is unavailable''])
          else (Admitted, [''no soft or hard budget was configured'']))"

definition admit :: "u64 option \<Rightarrow> u64 option \<Rightarrow> u64 \<Rightarrow> u64 option \<Rightarrow> u64 \<Rightarrow> admission_decision" where
  "admit soft hard margin current known =
     (case admission_of soft hard margin current known of (outcome, reasons) \<Rightarrow>
      \<lparr>ad_outcome = outcome, ad_native_model = None, ad_native_contract = None, ad_native_quiescent = False,
       ad_reclaimable = 0, ad_soft = soft, ad_hard = hard, ad_reserve = margin, ad_current = current,
       ad_known = known, ad_reasons = reasons, ad_unknown = unknown_memory_components\<rparr>)"

subsection \<open>The greedy choice\<close>

lemma sort_out_spec:
  "sort_out reason rs =
     (map (\<lambda>r. (base_decision r)\<lparr>rd_reason := the (reason r)\<rparr>) (filter (\<lambda>r. reason r \<noteq> None) rs),
      map base_decision (filter (\<lambda>r. reason r = None) rs))"
  by (induction rs) (auto split: option.splits)

text \<open>The chosen candidates are the shortest prefix of the ranking that covers the need.\<close>

fun greedy_prefix :: "u64 \<Rightarrow> u64 \<Rightarrow> resource_decision list \<Rightarrow> resource_decision list" where
  "greedy_prefix need reclaim [] = []"
| "greedy_prefix need reclaim (c # cs) =
     (if reclaim < need then c # greedy_prefix need (reclaim + rd_estimated_reclaim c) cs else [])"

abbreviation reclaim_sum :: "resource_decision list \<Rightarrow> nat" where
  "reclaim_sum cs \<equiv> sum_list (map rd_estimated_reclaim cs)"

lemma greedy_prefix_take: "\<exists>n \<le> length cs. greedy_prefix need reclaim cs = take n cs"
proof (induction need reclaim cs rule: greedy_prefix.induct)
  case (2 need reclaim c cs)
  then show ?case
    by (cases "reclaim < need") (auto intro: exI [of _ 0] exI [of _ "Suc _"])
qed simp

lemma greedy_prefix_minimal:
  "n < length (greedy_prefix need reclaim cs) \<Longrightarrow> reclaim + reclaim_sum (take n (greedy_prefix need reclaim cs)) < need"
proof (induction need reclaim cs arbitrary: n rule: greedy_prefix.induct)
  case (2 need reclaim c cs)
  then show ?case by (cases n) (auto simp: add.assoc split: if_splits)
qed simp

lemma greedy_prefix_covers:
  "reclaim + reclaim_sum (greedy_prefix need reclaim cs) < need \<Longrightarrow> greedy_prefix need reclaim cs = cs"
  by (induction need reclaim cs rule: greedy_prefix.induct) (auto simp: add.assoc split: if_splits)

lemma select_candidates_spec:
  assumes "reclaim + reclaim_sum cs \<le> U64_MAX"
  shows "select_candidates need reclaim cs =
    (map (\<lambda>c. c\<lparr>rd_action := Release, rd_reason := SelectedEligible\<rparr>) (greedy_prefix need reclaim cs)
       @ map (\<lambda>c. c\<lparr>rd_reason := EligibleButNotNeeded\<rparr>) (drop (length (greedy_prefix need reclaim cs)) cs),
     map rd_key (greedy_prefix need reclaim cs), reclaim + reclaim_sum (greedy_prefix need reclaim cs))"
  using assms
proof (induction need reclaim cs rule: select_candidates.induct)
  case (2 need reclaim c cs)
  show ?case
  proof (cases "reclaim < need")
    case True
    then have need: "0 < need \<and> reclaim < need" by simp
    have "wrapping_add reclaim (rd_estimated_reclaim c) = reclaim + rd_estimated_reclaim c"
      using "2.prems" by (intro wrapping_add_exact) simp
    then show ?thesis
      using "2.IH"(1) [OF need] "2.prems" need by (simp add: add.assoc)
  next
    case False
    then have "greedy_prefix need reclaim cs = []" by (cases cs) simp_all
    then show ?thesis using "2.IH"(2) False "2.prems" by (simp add: add.assoc)
  qed
qed simp

text \<open>The candidates of a plan, in rank order.\<close>

definition eligible :: "planner \<Rightarrow> residency_policy \<Rightarrow> operation_context \<Rightarrow> tensor_resource \<Rightarrow> bool" where
  "eligible p policy ctx r \<longleftrightarrow> rp_mode policy \<noteq> ModeOff \<and> tr_key r \<notin> oc_required ctx \<and> tr_key r \<notin> oc_pinned ctx
     \<and> tr_file_backed r \<and> tr_lifetime r = PageReleaseSafeAfterOperation
     \<and> (pn_guard p \<longrightarrow> pn_contract p = Some 1 \<and> pn_quiescent p)
     \<and> 0 < tr_page_bytes r \<and> tr_key r \<notin> pn_attempted p \<and> 0 < unique_reclaimable_bytes r
     \<and> (rp_mode policy = Conservative \<longrightarrow> tr_shared_page_bytes r = 0)"

lemma base_decision_simps [simp]:
  "rd_key (base_decision r) = tr_key r" "rd_action (base_decision r) = Retain"
  "rd_estimated_reclaim (base_decision r) = unique_reclaimable_bytes r"
  "rd_shared_page_bytes (base_decision r) = tr_shared_page_bytes r"
  by (simp_all add: base_decision_def)

lemma select_candidates_keys: "set (fst (snd (select_candidates need reclaim cs))) \<subseteq> rd_key ` set cs"
  by (induction need reclaim cs rule: select_candidates.induct) (auto split: prod.splits)

lemma retain_reason_None:
  "retain_reason p policy ctx need r = None \<longleftrightarrow> eligible p policy ctx r \<and> 0 < need"
  by (cases "tr_lifetime r") (auto simp: retain_reason_def eligible_def)

lemma retain_reason_not_selected:
  "retain_reason p policy ctx need r \<noteq> Some SelectedEligible"
  by (simp add: retain_reason_def)

definition ranked_candidates :: "planner \<Rightarrow> residency_policy \<Rightarrow> operation_context \<Rightarrow>
  execution_profile option \<Rightarrow> u64 \<Rightarrow> resource_decision list"
where
  "ranked_candidates p policy ctx profile need =
     sort_key (candidate_rank profile (rp_mode policy = ReuseAware \<and> profile \<noteq> None))
       (map base_decision (filter (\<lambda>r. retain_reason p policy ctx need r = None)
          (ri_resources (pn_inventory p))))"

definition current_of :: "planner \<Rightarrow> u64 option \<Rightarrow> u64" where
  "current_of p observed = (case observed of Some b \<Rightarrow> b | None \<Rightarrow> is_page_bytes (ri_summary (pn_inventory p)))"

lemma set_ranked:
  "set (ranked_candidates p policy ctx profile need) =
    base_decision ` {r \<in> set (ri_resources (pn_inventory p)). eligible p policy ctx r \<and> 0 < need}"
  by (auto simp: ranked_candidates_def retain_reason_None)

lemma selected_eligible:
  assumes "key \<in> set (rl_selected (plan_with_profile p policy observed ctx profile))"
  shows "\<exists>r \<in> set (ri_resources (pn_inventory p)). tr_key r = key \<and> eligible p policy ctx r"
proof -
  define need where "need = needed_bytes (current_of p observed) (effective_target policy)"
  have "rl_selected (plan_with_profile p policy observed ctx profile) =
      fst (snd (select_candidates need 0 (ranked_candidates p policy ctx profile need)))"
    by (cases observed) (simp_all add: plan_with_profile_def ranked_candidates_def sort_out_spec Let_def
        current_of_def need_def case_prod_beta)
  then show ?thesis
    using assms select_candidates_keys [of need 0 "ranked_candidates p policy ctx profile need"]
    by (fastforce simp: set_ranked)
qed

lemma reclaim_sum_ranked:
  "reclaim_sum (ranked_candidates p policy ctx profile need) \<le>
    sum_list (map unique_reclaimable_bytes (ri_resources (pn_inventory p)))"
proof -
  let ?rs = "filter (\<lambda>r. retain_reason p policy ctx need r = None) (ri_resources (pn_inventory p))"
  have "mset (ranked_candidates p policy ctx profile need) = mset (map base_decision ?rs)"
    by (simp add: ranked_candidates_def)
  then have "reclaim_sum (ranked_candidates p policy ctx profile need) = reclaim_sum (map base_decision ?rs)"
    by (simp only: sum_mset_sum_list [symmetric] mset_map)
  also have "\<dots> = sum_list (map unique_reclaimable_bytes ?rs)"
    by (simp add: comp_def base_decision_def)
  also have "\<dots> \<le> sum_list (map unique_reclaimable_bytes (ri_resources (pn_inventory p)))"
    by (rule sum_list_filter_le)
  finally show ?thesis .
qed

lemma plan_fields:
  assumes "sum_list (map unique_reclaimable_bytes (ri_resources (pn_inventory p))) \<le> U64_MAX"
    and "need = needed_bytes (current_of p observed) (effective_target policy)"
    and "cs = ranked_candidates p policy ctx profile need" and "chosen = greedy_prefix need 0 cs"
    and "pl = plan_with_profile p policy observed ctx profile"
  shows "rl_selected pl = map rd_key chosen" and "rl_estimated_reclaim pl = reclaim_sum chosen"
    and "rl_decisions pl = map (\<lambda>r. (base_decision r)\<lparr>rd_reason := the (retain_reason p policy ctx need r)\<rparr>)
          (filter (\<lambda>r. retain_reason p policy ctx need r \<noteq> None) (ri_resources (pn_inventory p)))
        @ map (\<lambda>c. c\<lparr>rd_action := Release, rd_reason := SelectedEligible\<rparr>) chosen
        @ map (\<lambda>c. c\<lparr>rd_reason := EligibleButNotNeeded\<rparr>) (drop (length chosen) cs)"
    and "rl_estimated_after pl = Some (current_of p observed - reclaim_sum chosen)"
    and "rl_budget_met pl \<longleftrightarrow> (case effective_target policy of None \<Rightarrow> True
          | Some t \<Rightarrow> current_of p observed - reclaim_sum chosen \<le> t)"
proof -
  have "0 + reclaim_sum cs \<le> U64_MAX"
    using reclaim_sum_ranked [of p policy ctx profile need] assms(1) by (simp add: assms(3))
  note sel = select_candidates_spec [OF this, of need]
  have cur: "(case observed of Some bytes \<Rightarrow> (bytes, Measured)
        | None \<Rightarrow> (is_page_bytes (ri_summary (pn_inventory p)), EstimatedFromMapping)) =
      (current_of p observed, case observed of Some _ \<Rightarrow> Measured | None \<Rightarrow> EstimatedFromMapping)"
    by (simp add: current_of_def split: option.splits)
  note all = assms(5) [unfolded plan_with_profile_def Let_def cur prod.case sort_out_spec
    assms(2) [symmetric] ranked_candidates_def [symmetric] assms(3) [symmetric] sel assms(4) [symmetric] add_0]
  show "rl_selected pl = map rd_key chosen" "rl_estimated_reclaim pl = reclaim_sum chosen"
    "rl_decisions pl = map (\<lambda>r. (base_decision r)\<lparr>rd_reason := the (retain_reason p policy ctx need r)\<rparr>)
          (filter (\<lambda>r. retain_reason p policy ctx need r \<noteq> None) (ri_resources (pn_inventory p)))
        @ map (\<lambda>c. c\<lparr>rd_action := Release, rd_reason := SelectedEligible\<rparr>) chosen
        @ map (\<lambda>c. c\<lparr>rd_reason := EligibleButNotNeeded\<rparr>) (drop (length chosen) cs)"
    "rl_estimated_after pl = Some (current_of p observed - reclaim_sum chosen)"
    "rl_budget_met pl \<longleftrightarrow> (case effective_target policy of None \<Rightarrow> True
          | Some t \<Rightarrow> current_of p observed - reclaim_sum chosen \<le> t)"
    by (simp_all add: all saturating_sub_def split: option.split)
qed

lemma mset_filter_split: "mset (map f (filter P xs)) + mset (map f (filter (\<lambda>x. \<not> P x) xs)) = mset (map f xs)"
  by (induction xs) auto

text \<open>A planner for one tensor, as witness input.\<close>

definition example_planner :: planner where
  "example_planner = planner_new
     \<lparr>ri_model_id = ''m'', ri_generation = 7, ri_native_model_instance = None, ri_native_contract_version = None,
      ri_resources = [describe_mapping 7 0 (example_mapping 0 30)], ri_by_index = [(0, 0)],
      ri_summary = summary_default\<rparr> {}"

definition example_policy :: residency_policy where
  "example_policy = \<lparr>rp_mode = MemoryBound, rp_target = Some 10, rp_reserve = 0\<rparr>"

lemma example_planner_resource:
  "ri_resources (pn_inventory example_planner) = [describe_mapping 7 0 (example_mapping 0 30)]"
  "unique_reclaimable_bytes (describe_mapping 7 0 (example_mapping 0 30)) = 30"
  "pn_attempted example_planner = {}" "\<not> pn_guard example_planner"
  by (simp_all add: example_planner_def planner_new_def unique_reclaimable_bytes_def describe_mapping_def
      mapped_start_def mapped_end_def example_mapping_def saturating_sub_def)

lemma example_eligible:
  "eligible example_planner example_policy \<lparr>oc_required = {}, oc_pinned = {}\<rparr> (describe_mapping 7 0 (example_mapping 0 30))"
  "tr_key (describe_mapping 7 0 (example_mapping 0 30)) = ResourceKey 7 0"
  using example_planner_resource
  by (simp_all add: eligible_def example_policy_def describe_mapping_def mapped_start_def mapped_end_def
      example_mapping_def saturating_sub_def)

subsection \<open>Properties\<close>

text \<open>
  C13: safety of a plan. Every selected key is that of an inventory resource that is file-backed, safe to
  release after the operation, not required, not pinned, not attempted before and with bytes of its
  own; with the native guard the contract is version 1 and the model quiescent; a conservative policy
  selects no resource with shared pages; and the off policy selects nothing. The plan decides every
  resource exactly once, and releases exactly the selected ones.
\<close>

theorem plan_safety:
  assumes "sum_list (map unique_reclaimable_bytes (ri_resources (pn_inventory p))) \<le> U64_MAX"
    and "pl = plan_with_profile p policy observed ctx profile"
  shows "(\<forall>key \<in> set (rl_selected pl). \<exists>r \<in> set (ri_resources (pn_inventory p)). tr_key r = key
        \<and> tr_file_backed r \<and> tr_lifetime r = PageReleaseSafeAfterOperation \<and> 0 < unique_reclaimable_bytes r
        \<and> (rp_mode policy = Conservative \<longrightarrow> tr_shared_page_bytes r = 0))
    \<and> set (rl_selected pl) \<inter> (oc_required ctx \<union> oc_pinned ctx \<union> pn_attempted p) = {}
    \<and> (rl_selected pl \<noteq> [] \<longrightarrow> rp_mode policy \<noteq> ModeOff
        \<and> (pn_guard p \<longrightarrow> pn_contract p = Some 1 \<and> pn_quiescent p))
    \<and> mset (map rd_key (rl_decisions pl)) = mset (map tr_key (ri_resources (pn_inventory p)))
    \<and> map rd_key (filter (\<lambda>d. rd_action d = Release) (rl_decisions pl)) = rl_selected pl"
proof -
  let ?need = "needed_bytes (current_of p observed) (effective_target policy)"
  let ?cs = "ranked_candidates p policy ctx profile ?need"
  let ?chosen = "greedy_prefix ?need 0 ?cs"
  note f = plan_fields [OF assms(1) refl refl refl assms(2)]
  obtain n where n: "?chosen = take n ?cs" using greedy_prefix_take by blast
  then have "set ?chosen \<subseteq> set ?cs" by (metis set_take_subset)
  then have chosen: "\<exists>r. c = base_decision r \<and> r \<in> set (ri_resources (pn_inventory p)) \<and> eligible p policy ctx r"
    if "c \<in> set ?chosen" for c
    using that by (auto simp: set_ranked)
  have sel: "\<exists>r. key = tr_key r \<and> r \<in> set (ri_resources (pn_inventory p)) \<and> eligible p policy ctx r"
    if "key \<in> set (rl_selected pl)" for key
    using that chosen unfolding f(1) by fastforce
  have keys: "mset (map rd_key (rl_decisions pl)) = mset (map tr_key (ri_resources (pn_inventory p)))"
  proof -
    let ?R = "\<lambda>r. retain_reason p policy ctx ?need r \<noteq> None"
    have "map rd_key ?chosen @ map rd_key (drop (length ?chosen) ?cs) = map rd_key ?cs"
    proof -
      have "drop (length ?chosen) ?cs = drop n ?cs" unfolding n by (simp add: min_def)
      then show ?thesis by (simp add: n flip: map_append)
    qed
    then have "map rd_key (rl_decisions pl) =
        map tr_key (filter ?R (ri_resources (pn_inventory p))) @ map rd_key ?cs"
      by (simp add: f(3) comp_def)
    then have "mset (map rd_key (rl_decisions pl)) =
        mset (map tr_key (filter ?R (ri_resources (pn_inventory p)))) + mset (map rd_key ?cs)"
      by (simp only: mset_append)
    also have "mset (map rd_key ?cs) = mset (map tr_key (filter (\<lambda>r. \<not> ?R r) (ri_resources (pn_inventory p))))"
      by (simp add: ranked_candidates_def image_mset.compositionality comp_def)
    finally show ?thesis by (simp only: mset_filter_split)
  qed
  have act: "rd_action c = Retain" if "c \<in> set ?cs" for c
    using that by (auto simp: set_ranked)
  have "map rd_key (filter (\<lambda>d. rd_action d = Release) (rl_decisions pl)) = rl_selected pl"
  proof -
    have "filter (\<lambda>d. rd_action d = Release) (map (\<lambda>c. c\<lparr>rd_reason := EligibleButNotNeeded\<rparr>)
        (drop (length ?chosen) ?cs)) = []"
      using act by (auto simp: filter_empty_conv dest: in_set_dropD)
    then show ?thesis by (simp add: f(1,3) filter_map comp_def)
  qed
  moreover have "rl_selected pl \<noteq> [] \<longrightarrow> rp_mode policy \<noteq> ModeOff
      \<and> (pn_guard p \<longrightarrow> pn_contract p = Some 1 \<and> pn_quiescent p)"
  proof
    assume "rl_selected pl \<noteq> []"
    then obtain key where "key \<in> set (rl_selected pl)" by fastforce
    then show "rp_mode policy \<noteq> ModeOff \<and> (pn_guard p \<longrightarrow> pn_contract p = Some 1 \<and> pn_quiescent p)"
      using sel by (auto simp: eligible_def)
  qed
  moreover have "set (rl_selected pl) \<inter> (oc_required ctx \<union> oc_pinned ctx \<union> pn_attempted p) = {}"
    using sel by (fastforce simp: eligible_def)
  moreover have "\<forall>key \<in> set (rl_selected pl). \<exists>r \<in> set (ri_resources (pn_inventory p)). tr_key r = key
        \<and> tr_file_backed r \<and> tr_lifetime r = PageReleaseSafeAfterOperation \<and> 0 < unique_reclaimable_bytes r
        \<and> (rp_mode policy = Conservative \<longrightarrow> tr_shared_page_bytes r = 0)"
    using sel by (fastforce simp: eligible_def)
  ultimately show ?thesis using keys by blast
qed

theorem plan_safety_witness:
  "ResourceKey 7 0 \<notin> set (rl_selected (plan_with_profile example_planner example_policy (Some 100)
     \<lparr>oc_required = {ResourceKey 7 0}, oc_pinned = {}\<rparr> None))"
proof -
  have "sum_list (map unique_reclaimable_bytes (ri_resources (pn_inventory example_planner))) \<le> U64_MAX"
    by (simp add: example_planner_resource U64_MAX_def)
  from plan_safety [OF this refl, of example_policy "Some 100" "\<lparr>oc_required = {ResourceKey 7 0}, oc_pinned = {}\<rparr>" None]
  show ?thesis by auto
qed

text \<open>
  The greedy choice. The plan selects the shortest prefix of the ranked candidates whose own bytes
  cover what the observed residency exceeds the target by: without the last selected one the need is
  not met, and when the whole plan does not meet the target every eligible resource is selected. The
  estimate is the exact sum of the selected bytes.
\<close>

theorem plan_greedy:
  assumes "sum_list (map unique_reclaimable_bytes (ri_resources (pn_inventory p))) \<le> U64_MAX"
    and "need = needed_bytes (current_of p observed) (effective_target policy)"
    and "pl = plan_with_profile p policy observed ctx profile"
  shows "\<exists>n \<le> length (ranked_candidates p policy ctx profile need).
      rl_selected pl = map rd_key (take n (ranked_candidates p policy ctx profile need))
    \<and> rl_estimated_reclaim pl = reclaim_sum (take n (ranked_candidates p policy ctx profile need))
    \<and> (0 < n \<longrightarrow> reclaim_sum (take (n - 1) (ranked_candidates p policy ctx profile need)) < need)
    \<and> (\<not> rl_budget_met pl \<longrightarrow> set (rl_selected pl) =
        tr_key ` {r \<in> set (ri_resources (pn_inventory p)). eligible p policy ctx r})
    \<and> (rl_budget_met pl \<longleftrightarrow> need \<le> rl_estimated_reclaim pl)"
proof -
  let ?cs = "ranked_candidates p policy ctx profile need"
  let ?chosen = "greedy_prefix need 0 ?cs"
  note f = plan_fields [OF assms(1,2) refl refl assms(3)]
  obtain n where n: "n \<le> length ?cs" "?chosen = take n ?cs" using greedy_prefix_take by blast
  have met: "rl_budget_met pl \<longleftrightarrow> need \<le> reclaim_sum ?chosen"
    by (auto simp: f(5) assms(2) needed_bytes_def saturating_sub_def split: option.splits)
  have "take (n - 1) ?chosen = take (n - 1) ?cs" by (simp add: n(2))
  then have "0 < n \<longrightarrow> reclaim_sum (take (n - 1) ?cs) < need"
    using greedy_prefix_minimal [of "n - 1" need 0 ?cs] n by auto
  moreover have "set (rl_selected pl) = tr_key ` {r \<in> set (ri_resources (pn_inventory p)). eligible p policy ctx r}"
    if "\<not> rl_budget_met pl"
  proof -
    have "reclaim_sum ?chosen < need" using that met by simp
    then have "?chosen = ?cs" "0 < need" using greedy_prefix_covers [of 0 need ?cs] by simp_all
    then show ?thesis by (auto simp: f(1) set_ranked image_image)
  qed
  ultimately show ?thesis using n f(1,2) met by (intro exI [of _ n]) simp
qed

theorem plan_greedy_witness:
  "set (rl_selected (plan_with_profile example_planner example_policy (Some 100)
     \<lparr>oc_required = {}, oc_pinned = {}\<rparr> None)) = {ResourceKey 7 0}"
proof -
  let ?ctx = "\<lparr>oc_required = {}, oc_pinned = {}\<rparr> :: operation_context"
  let ?pl = "plan_with_profile example_planner example_policy (Some 100) ?ctx None"
  have s: "sum_list (map unique_reclaimable_bytes (ri_resources (pn_inventory example_planner))) = 30"
    by (simp add: example_planner_resource)
  have b: "sum_list (map unique_reclaimable_bytes (ri_resources (pn_inventory example_planner))) \<le> U64_MAX"
    by (simp add: s U64_MAX_def)
  have need: "90 = needed_bytes (current_of example_planner (Some 100)) (effective_target example_policy)"
    by (simp add: needed_bytes_def current_of_def effective_target_def example_policy_def saturating_sub_def)
  let ?cs = "ranked_candidates example_planner example_policy ?ctx None 90"
  obtain n where n: "rl_estimated_reclaim ?pl = reclaim_sum (take n ?cs)"
    "\<not> rl_budget_met ?pl \<longrightarrow> set (rl_selected ?pl) = tr_key ` {r \<in> set (ri_resources (pn_inventory example_planner)).
        eligible example_planner example_policy ?ctx r}"
    "rl_budget_met ?pl \<longleftrightarrow> 90 \<le> rl_estimated_reclaim ?pl"
    using plan_greedy [OF b need refl, of ?ctx None] by blast
  have "reclaim_sum (take n ?cs) \<le> reclaim_sum ?cs"
    by (metis append_take_drop_id le_add1 map_append sum_list_append)
  also have "\<dots> \<le> 30" using reclaim_sum_ranked [of example_planner example_policy ?ctx None 90] by (simp only: s)
  finally have "\<not> rl_budget_met ?pl" using n by simp
  then have "set (rl_selected ?pl) = tr_key ` {r \<in> set (ri_resources (pn_inventory example_planner)).
        eligible example_planner example_policy ?ctx r}" using n(2) by blast
  then show ?thesis using example_eligible by (auto simp: example_planner_resource(1))
qed

text \<open>
  Admission. With a measured current size the request is rejected exactly when adding the safety
  reserve overflows or the current or known bytes with the reserve exceed the hard limit; otherwise it
  is admitted, with a warning exactly when the current bytes with the reserve exceed the soft target.
  Without a measurement it is unknown as soon as any limit is configured, and never rejected.
\<close>

theorem admission_outcomes:
  "(case current of
      Some cur \<Rightarrow>
        (ad_outcome (admit soft hard margin current known) = Rejected \<longleftrightarrow>
           U64_MAX < cur + margin \<or> U64_MAX < known + margin
           \<or> (\<exists>limit. hard = Some limit \<and> limit < max cur known + margin))
        \<and> (ad_outcome (admit soft hard margin current known) = AdmittedWithWarning \<longleftrightarrow>
           ad_outcome (admit soft hard margin current known) \<noteq> Rejected
           \<and> (\<exists>t. soft = Some t \<and> t < cur + margin))
        \<and> ad_outcome (admit soft hard margin current known) \<in> {Admitted, AdmittedWithWarning, Rejected}
    | None \<Rightarrow> ad_outcome (admit soft hard margin current known) =
        (if soft = None \<and> hard = None then Admitted else UnknownAdmission))
    \<and> (ad_outcome (admit soft hard margin current known) = Admitted \<longrightarrow>
        ad_reasons (admit soft hard margin current known) = [] \<or> current = None)"
proof -
  have o: "ad_outcome (admit soft hard margin current known) = fst (admission_of soft hard margin current known)"
    "ad_reasons (admit soft hard margin current known) = snd (admission_of soft hard margin current known)"
    by (simp_all add: admit_def split: prod.splits)
  show ?thesis
  proof (cases current)
    case (Some cur)
    consider "checked_add cur margin = None" | "checked_add known margin = None"
      | "checked_add cur margin = Some (cur + margin)" "checked_add known margin = Some (known + margin)"
      by (metis checked_add_def)
    then show ?thesis
      unfolding o by cases
       (auto simp: Some admission_of_def max_def checked_add_def split: option.splits if_splits)
  next
    case None
    show ?thesis unfolding o by (auto simp: None admission_of_def)
  qed
qed

theorem admission_outcomes_witness:
  "ad_outcome (admit (Some 50) (Some 100) 10 (Some 45) 20) = AdmittedWithWarning
    \<and> ad_outcome (admit (Some 50) (Some 100) 10 (Some 45) 95) = Rejected"
  using admission_outcomes [where current = "Some 45" and soft = "Some 50" and hard = "Some 100"
      and margin = 10 and known = 20]
    admission_outcomes [where current = "Some 45" and soft = "Some 50" and hard = "Some 100"
      and margin = 10 and known = 95]
  by (simp add: U64_MAX_def)

end
