(* ===== verification/Resource_Lifetime.thy ===== *)
theory Resource_Lifetime
  imports Prelude
begin

section \<open>The resource lifetime machine\<close>

text \<open>
  \<open>crates/ramforge-runtime/src/resource_lifetime.rs\<close>: the states a resource goes through from its
  discovery to the release of its pages, the events that move it, and the refusal of every other
  event. Names that an event shares with a state carry the suffix \<open>Event\<close>.
\<close>

datatype lifetime_state =
    Discovered | Owned | Referenced | ExecutionSubmitted | ExecutionCompleted | FinalUseProven
  | ReleaseEligible | ReleaseRequested | ReleaseAccepted | Reconciled | SharedOrReused | Invalidated
  | ReleaseFailed | UnknownState

datatype lifetime_event =
    ModelBound | ContextReferenced | ExecutionSubmittedEvent | ExecutionCompletedEvent
  | OperationBoundarySynchronized | ModelDestroyed | ReleaseSelected | ReleaseSubmitted
  | NativeAccepted | ReconciliationComplete | SharedAccessObserved | GenerationInvalidated
  | NativeFailure

datatype invalid_transition = InvalidLifetimeTransition lifetime_state lifetime_event

record resource_lifetime =
  rt_state :: lifetime_state
  rt_transitions :: u64
  rt_evidence :: string

definition lifetime_default :: resource_lifetime where
  "lifetime_default = \<lparr>rt_state = Discovered, rt_transitions = 0, rt_evidence = ''inventory discovery''\<rparr>"

definition next_lifetime_state :: "lifetime_state \<Rightarrow> lifetime_event \<Rightarrow> lifetime_state option" where
  "next_lifetime_state s e =
     (case (s, e) of
        (Discovered, ModelBound) \<Rightarrow> Some Owned
      | (Owned, ContextReferenced) \<Rightarrow> Some Referenced
      | (Owned, OperationBoundarySynchronized) \<Rightarrow> Some ReleaseEligible
      | (Referenced, ExecutionSubmittedEvent) \<Rightarrow> Some ExecutionSubmitted
      | (ExecutionSubmitted, ExecutionCompletedEvent) \<Rightarrow> Some ExecutionCompleted
      | (ExecutionCompleted, OperationBoundarySynchronized) \<Rightarrow> Some ReleaseEligible
      | (ExecutionCompleted, SharedAccessObserved) \<Rightarrow> Some SharedOrReused
      | (ReleaseEligible, ReleaseSelected) \<Rightarrow> Some ReleaseRequested
      | (ReleaseRequested, ReleaseSubmitted) \<Rightarrow> Some ReleaseRequested
      | (ReleaseRequested, NativeAccepted) \<Rightarrow> Some ReleaseAccepted
      | (ReleaseRequested, NativeFailure) \<Rightarrow> Some ReleaseFailed
      | (ReleaseAccepted, ReconciliationComplete) \<Rightarrow> Some Reconciled
      | (_, GenerationInvalidated) \<Rightarrow> Some Invalidated
      | (ExecutionCompleted, ModelDestroyed) \<Rightarrow> Some FinalUseProven
      | _ \<Rightarrow> None)"

definition lifetime_apply :: "lifetime_event \<Rightarrow> string \<Rightarrow> resource_lifetime \<Rightarrow>
  resource_lifetime \<times> (lifetime_state, invalid_transition) result"
where
  "lifetime_apply e evidence t =
     (case next_lifetime_state (rt_state t) e of
        None \<Rightarrow> (t, Err (InvalidLifetimeTransition (rt_state t) e))
      | Some s \<Rightarrow>
          (t\<lparr>rt_state := s, rt_transitions := saturating_add (rt_transitions t) 1, rt_evidence := evidence\<rparr>, Ok s))"

text \<open>The callers ignore a refused event: a run of events.\<close>

fun lifetime_run :: "(lifetime_event \<times> string) list \<Rightarrow> resource_lifetime \<Rightarrow> resource_lifetime" where
  "lifetime_run [] t = t"
| "lifetime_run ((e, evidence) # es) t = lifetime_run es (fst (lifetime_apply e evidence t))"

inductive lifetime_step :: "lifetime_state \<Rightarrow> lifetime_event \<Rightarrow> lifetime_state \<Rightarrow> bool" where
  moves: "next_lifetime_state s e = Some s' \<Longrightarrow> lifetime_step s e s'"

inductive_simps lifetime_step_iff: "lifetime_step s e s'"

text \<open>Whether the state lies on the release path, and whether it is after the selection.\<close>

definition release_path :: "lifetime_state set" where
  "release_path = {ReleaseEligible, ReleaseRequested, ReleaseAccepted, Reconciled, ReleaseFailed}"

lemma next_lifetime_state_cases:
  "next_lifetime_state s e = Some s' \<Longrightarrow> (s, e, s') \<in>
     {(Discovered, ModelBound, Owned), (Owned, ContextReferenced, Referenced),
      (Owned, OperationBoundarySynchronized, ReleaseEligible),
      (Referenced, ExecutionSubmittedEvent, ExecutionSubmitted),
      (ExecutionSubmitted, ExecutionCompletedEvent, ExecutionCompleted),
      (ExecutionCompleted, OperationBoundarySynchronized, ReleaseEligible),
      (ExecutionCompleted, SharedAccessObserved, SharedOrReused),
      (ExecutionCompleted, ModelDestroyed, FinalUseProven),
      (ReleaseEligible, ReleaseSelected, ReleaseRequested),
      (ReleaseRequested, ReleaseSubmitted, ReleaseRequested),
      (ReleaseRequested, NativeAccepted, ReleaseAccepted),
      (ReleaseRequested, NativeFailure, ReleaseFailed),
      (ReleaseAccepted, ReconciliationComplete, Reconciled)}
     \<or> e = GenerationInvalidated \<and> s' = Invalidated"
  by (cases s; cases e) (simp_all add: next_lifetime_state_def)

lemma lifetime_apply_state:
  "rt_state (fst (lifetime_apply e v t)) =
     (case next_lifetime_state (rt_state t) e of None \<Rightarrow> rt_state t | Some s \<Rightarrow> s)"
  by (simp add: lifetime_apply_def split: option.splits)

text \<open>What the events so far must contain for a state to be reached.\<close>

definition explained :: "lifetime_event set \<Rightarrow> lifetime_state \<Rightarrow> bool" where
  "explained es s \<longleftrightarrow> (s \<in> release_path \<longrightarrow> OperationBoundarySynchronized \<in> es)
     \<and> (s \<in> release_path - {ReleaseEligible} \<longrightarrow> ReleaseSelected \<in> es)
     \<and> (s \<in> {ReleaseAccepted, Reconciled} \<longrightarrow> NativeAccepted \<in> es)
     \<and> (s \<noteq> Discovered \<longrightarrow> s \<noteq> Invalidated \<longrightarrow> ModelBound \<in> es)"

lemma explained_step:
  assumes "explained es s" and "next_lifetime_state s e = Some s'"
  shows "explained (insert e es) s'"
  using next_lifetime_state_cases [OF assms(2)] assms(1)
  unfolding explained_def release_path_def by (elim disjE insertE emptyE) simp_all

lemma explained_mono: "explained es s \<Longrightarrow> es \<subseteq> es' \<Longrightarrow> explained es' s"
  unfolding explained_def by blast

lemma lifetime_run_explained:
  "explained es (rt_state t) \<Longrightarrow> explained (es \<union> fst ` set evs) (rt_state (lifetime_run evs t))"
proof (induction evs arbitrary: es t)
  case (Cons p evs)
  obtain e v where p: "p = (e, v)" by (cases p)
  have "explained (insert e es) (rt_state (fst (lifetime_apply e v t)))"
  proof (cases "next_lifetime_state (rt_state t) e")
    case None
    then show ?thesis using explained_mono [OF Cons.prems, of "insert e es"] by (simp add: lifetime_apply_state subset_insertI)
  next
    case (Some s)
    then show ?thesis using explained_step [OF Cons.prems Some] by (simp add: lifetime_apply_state)
  qed
  from Cons.IH [OF this] show ?case by (simp add: p)
qed simp

subsection \<open>Properties\<close>

text \<open>
  No release without synchronization. Whatever events a resource sees after its discovery, refused
  ones included, it is eligible for release, requested, accepted, reconciled or failed only if an
  operation boundary was synchronized; beyond eligibility a plan selected it; and it is accepted or
  reconciled only if the native call was accepted. Completion of graph nodes alone never leads there.
\<close>

theorem release_needs_synchronization:
  assumes "s = rt_state (lifetime_run evs lifetime_default)"
  shows "(s \<in> {ReleaseEligible, ReleaseRequested, ReleaseAccepted, Reconciled, ReleaseFailed} \<longrightarrow>
      ModelBound \<in> fst ` set evs \<and> OperationBoundarySynchronized \<in> fst ` set evs)
    \<and> (s \<in> {ReleaseRequested, ReleaseAccepted, Reconciled, ReleaseFailed} \<longrightarrow> ReleaseSelected \<in> fst ` set evs)
    \<and> (s \<in> {ReleaseAccepted, Reconciled} \<longrightarrow> NativeAccepted \<in> fst ` set evs)"
proof -
  have "explained {} (rt_state lifetime_default)"
    by (simp add: explained_def lifetime_default_def release_path_def)
  from lifetime_run_explained [OF this, of evs] show ?thesis
    unfolding assms explained_def by (auto simp: release_path_def)
qed

theorem release_needs_synchronization_witness:
  "\<exists>evs. rt_state (lifetime_run evs lifetime_default) = ReleaseAccepted \<and> NativeAccepted \<in> fst ` set evs"
proof -
  let ?evs = "[(ModelBound, ''''), (OperationBoundarySynchronized, ''''), (ReleaseSelected, ''''), (NativeAccepted, '''')]"
  have "rt_state (lifetime_run ?evs lifetime_default) = ReleaseAccepted"
    by (simp add: lifetime_apply_def lifetime_default_def next_lifetime_state_def)
  then show ?thesis
    using release_needs_synchronization [of ReleaseAccepted ?evs] by (intro exI [of _ ?evs]) simp
qed

end
