(* ===== verification/Residency_Staging.thy ===== *)
theory Residency_Staging
  imports Residency_Planner
begin

section \<open>Staging plans\<close>

text \<open>
  \<open>staging_plan_with_profile\<close> of \<open>crates/ramforge-runtime/src/residency_engine.rs\<close>: the resources whose
  pages are requested ahead of an operation, up to a byte limit, with the ranges already requested in
  every mapping kept as separated intervals, so that shared and overlapping pages are counted once.
\<close>

record staging_plan =
  sp_selected :: "resource_key list"
  sp_selected_bytes :: u64
  sp_skipped_bytes :: u64
  sp_overlap_avoided :: u64
  sp_notes :: "string list"

definition staging_is_empty :: "staging_plan \<Rightarrow> bool" where
  "staging_is_empty p \<longleftrightarrow> sp_selected p = []"

record staging_state =
  ss_selected :: "resource_key list"
  ss_bytes :: u64
  ss_skipped :: u64
  ss_avoided :: u64
  ss_ranges :: "(nat, interval list) omap"
  ss_overflow :: bool

definition staging_start :: staging_state where
  "staging_start = \<lparr>ss_selected = [], ss_bytes = 0, ss_skipped = 0, ss_avoided = 0, ss_ranges = [],
     ss_overflow = False\<rparr>"

definition ranges_of :: "staging_state \<Rightarrow> nat \<Rightarrow> interval list" where
  "ranges_of s i = (case om_get (ss_ranges s) i of None \<Rightarrow> [] | Some rs \<Rightarrow> rs)"

text \<open>One candidate: \<open>entry(mapping_index).or_default()\<close>, the new bytes, the limits, the insertion.\<close>

definition stage_resource :: "u64 \<Rightarrow> tensor_resource \<Rightarrow> staging_state \<Rightarrow> staging_state" where
  "stage_resource max_bytes r s =
     (case tr_mapping_index r of
        None \<Rightarrow> s\<lparr>ss_skipped := saturating_add (ss_skipped s) (tr_page_bytes r)\<rparr>
      | Some i \<Rightarrow>
          let ranges = ranges_of s i;
              s = s\<lparr>ss_ranges := om_put i ranges (ss_ranges s)\<rparr>;
              overlap = covered_bytes ranges (tr_page_start r) (tr_page_end r);
              new_bytes = saturating_sub (tr_page_bytes r) overlap;
              s = s\<lparr>ss_avoided := saturating_add (ss_avoided s) overlap\<rparr>;
              skip = s\<lparr>ss_skipped := saturating_add (ss_skipped s) new_bytes\<rparr> in
          if max_bytes = 0 \<or> new_bytes = 0 then skip
          else (case checked_add (ss_bytes s) new_bytes of
              None \<Rightarrow> skip\<lparr>ss_overflow := True\<rparr>
            | Some next_total \<Rightarrow>
                if max_bytes < next_total then skip
                else s\<lparr>ss_ranges := om_put i (insert_interval ranges (tr_page_start r) (tr_page_end r)) (ss_ranges s),
                       ss_selected := ss_selected s @ [tr_key r], ss_bytes := next_total\<rparr>))"

definition staging_rank :: "execution_profile option \<Rightarrow> tensor_resource \<Rightarrow> int \<times> (nat \<times> nat) \<times> int" where
  "staging_rank profile r =
     (- int (case profile of None \<Rightarrow> 0
         | Some p \<Rightarrow> (case profile_last_order p (tr_name r) of None \<Rightarrow> 0 | Some n \<Rightarrow> n)),
      layer_sort_key (tr_layer r), key_tensor_index (tr_key r))"

definition staging_candidates :: "resource_inventory \<Rightarrow> execution_profile option \<Rightarrow> tensor_resource list" where
  "staging_candidates iv profile =
     sort_key (staging_rank profile) (filter (\<lambda>r. tr_file_backed r \<and> 0 < tr_page_bytes r) (ri_resources iv))"

definition staging_notes :: "staging_state \<Rightarrow> string list" where
  "staging_notes s =
     [''prefetch is a MADV_WILLNEED hint, not a synchronous load or residency guarantee'']
     @ (if 0 < ss_skipped s then [''some eligible pages exceeded the staging limit''] else [])
     @ (if 0 < ss_avoided s then [''overlapping/shared page ranges were requested once''] else [])
     @ (if ss_overflow s then [''staging byte arithmetic overflowed''] else [])"

definition staging_plan_with_profile :: "resource_inventory \<Rightarrow> u64 \<Rightarrow> execution_profile option \<Rightarrow> staging_plan" where
  "staging_plan_with_profile iv max_bytes profile =
     (let s = fold (stage_resource max_bytes) (staging_candidates iv profile) staging_start in
      \<lparr>sp_selected = ss_selected s, sp_selected_bytes = ss_bytes s, sp_skipped_bytes = ss_skipped s,
       sp_overlap_avoided = ss_avoided s, sp_notes = staging_notes s\<rparr>)"

definition staging_plan_of :: "resource_inventory \<Rightarrow> u64 \<Rightarrow> staging_plan" where
  "staging_plan_of iv max_bytes = staging_plan_with_profile iv max_bytes None"

subsection \<open>The requested bytes\<close>

text \<open>The file bytes of a resource: its page range in its mapping.\<close>

definition file_bytes :: "tensor_resource \<Rightarrow> (nat \<times> nat) set" where
  "file_bytes r = (case tr_mapping_index r of None \<Rightarrow> {} | Some i \<Rightarrow> Pair i ` {tr_page_start r..<tr_page_end r})"

definition requested_set :: "staging_state \<Rightarrow> (nat \<times> nat) set" where
  "requested_set s = {(i, x). x \<in> covered_set (ranges_of s i)}"

text \<open>\<open>chosen\<close> are the resources selected so far, in order.\<close>

definition staging_inv :: "u64 \<Rightarrow> tensor_resource list \<Rightarrow> staging_state \<Rightarrow> bool" where
  "staging_inv max_bytes chosen s \<longleftrightarrow> om_ok (ss_ranges s) \<and> (\<forall>i. separated (ranges_of s i))
     \<and> ss_selected s = map tr_key chosen
     \<and> requested_set s = (\<Union>r \<in> set chosen. file_bytes r) \<and> finite (requested_set s)
     \<and> ss_bytes s = card (requested_set s) \<and> ss_bytes s \<le> max_bytes
     \<and> (\<forall>k < length chosen. \<not> file_bytes (chosen ! k) \<subseteq> (\<Union>r \<in> set (take k chosen). file_bytes r))"

lemma staging_inv_start: "staging_inv max_bytes [] staging_start"
  by (simp add: staging_inv_def staging_start_def ranges_of_def requested_set_def)

lemma ranges_of_put:
  "om_ok (ss_ranges s) \<Longrightarrow> ranges_of (s\<lparr>ss_ranges := om_put i rs (ss_ranges s)\<rparr>) j = (if j = i then rs else ranges_of s j)"
  by (simp add: ranges_of_def)

lemma union_of_inserted:
  "covered_set rs' = covered_set rs \<union> A \<Longrightarrow> {(j, x). x \<in> covered_set (if j = i then rs' else f j)} =
    {(j, x). x \<in> covered_set (if j = i then rs else f j)} \<union> Pair i ` A"
  by (auto split: if_splits)

lemma staging_inv_cong:
  assumes "staging_inv max_bytes chosen s" and "ss_selected s' = ss_selected s" and "ss_bytes s' = ss_bytes s"
    and "om_ok (ss_ranges s')" and "ranges_of s' = ranges_of s"
  shows "staging_inv max_bytes chosen s'"
proof -
  have "requested_set s' = requested_set s" using assms(5) by (simp add: requested_set_def)
  then show ?thesis using assms unfolding staging_inv_def by metis
qed

lemma stage_resource_inv:
  assumes inv: "staging_inv max_bytes chosen s" and coll: "collected r"
  shows "\<exists>chosen'. staging_inv max_bytes chosen' (stage_resource max_bytes r s) \<and> (chosen' = chosen \<or> chosen' = chosen @ [r])"
proof (cases "tr_mapping_index r")
  case None
  then have "staging_inv max_bytes chosen (stage_resource max_bytes r s)"
    using inv by (intro staging_inv_cong [OF inv])
      (simp_all add: stage_resource_def staging_inv_def fun_eq_iff ranges_of_def)
  then show ?thesis by blast
next
  case (Some i)
  have ok: "om_ok (ss_ranges s)" and sep: "separated (ranges_of s j)" for j
    using inv by (simp_all add: staging_inv_def)
  let ?A = "{tr_page_start r..<tr_page_end r}"
  let ?ranges = "ranges_of s i"
  let ?new = "saturating_sub (tr_page_bytes r) (covered_bytes ?ranges (tr_page_start r) (tr_page_end r))"
  have new: "?new = card (?A - covered_set ?ranges)"
  proof -
    have "covered_bytes ?ranges (tr_page_start r) (tr_page_end r) = card (covered_set ?ranges \<inter> ?A)"
      using covered_bytes_card [OF sep] coll by (simp add: collected_def)
    moreover have "tr_page_bytes r = card ?A" using coll by (simp add: collected_def)
    ultimately show ?thesis by (simp add: saturating_sub_def card_Diff_subset_Int Int_commute)
  qed
  show ?thesis
  proof (cases "max_bytes = 0 \<or> ?new = 0 \<or> max_bytes < ss_bytes s + ?new \<or> U64_MAX < ss_bytes s + ?new")
    case True
    have "ss_ranges (stage_resource max_bytes r s) = om_put i ?ranges (ss_ranges s)
        \<and> ss_selected (stage_resource max_bytes r s) = ss_selected s
        \<and> ss_bytes (stage_resource max_bytes r s) = ss_bytes s"
      using True Some by (auto simp: stage_resource_def Let_def checked_add_def split: option.splits if_splits)
    moreover from this have "ranges_of (stage_resource max_bytes r s) = ranges_of s"
      using ok by (simp add: ranges_of_def fun_eq_iff)
    ultimately have "staging_inv max_bytes chosen (stage_resource max_bytes r s)"
      using ok by (intro staging_inv_cong [OF inv]) simp_all
    then show ?thesis by blast
  next
    case False
    let ?s' = "stage_resource max_bytes r s"
    let ?ranges' = "insert_interval ?ranges (tr_page_start r) (tr_page_end r)"
    have s': "ss_selected ?s' = ss_selected s @ [tr_key r]" "ss_bytes ?s' = ss_bytes s + ?new"
      "ss_ranges ?s' = om_put i ?ranges' (om_put i ?ranges (ss_ranges s))"
      using False Some by (auto simp: stage_resource_def Let_def checked_add_def split: option.splits if_splits)
    have rng: "ranges_of ?s' j = (if j = i then ?ranges' else ranges_of s j)" for j
      using ok by (simp add: ranges_of_def s'(3))
    have "requested_set ?s' = {(j, x). x \<in> covered_set (if j = i then ?ranges' else ranges_of s j)}"
      by (simp add: requested_set_def rng)
    also have "\<dots> = {(j, x). x \<in> covered_set (if j = i then ?ranges else ranges_of s j)} \<union> Pair i ` ?A"
      by (rule union_of_inserted) (rule insert_interval_covered [OF sep])
    also have "{(j, x). x \<in> covered_set (if j = i then ?ranges else ranges_of s j)} = requested_set s"
      by (auto simp: requested_set_def split: if_splits)
    finally have req: "requested_set ?s' = requested_set s \<union> file_bytes r"
      by (simp add: file_bytes_def Some)
    have diff: "file_bytes r - requested_set s = Pair i ` (?A - covered_set ?ranges)"
      by (auto simp: file_bytes_def Some requested_set_def)
    have "card (requested_set s \<union> file_bytes r) = card (requested_set s \<union> (file_bytes r - requested_set s))"
      by simp
    also have "\<dots> = card (requested_set s) + card (file_bytes r - requested_set s)"
      using inv by (intro card_Un_disjoint) (auto simp: staging_inv_def file_bytes_def Some)
    also have "card (file_bytes r - requested_set s) = ?new"
      unfolding diff new by (rule card_image) (simp add: inj_on_def)
    finally have card: "card (requested_set ?s') = ss_bytes s + ?new"
      using inv by (simp add: req staging_inv_def)
    have "?new \<noteq> 0" using False by simp
    then have "\<not> file_bytes r \<subseteq> requested_set s"
      using \<open>card (file_bytes r - requested_set s) = ?new\<close> by (metis Diff_eq_empty_iff card.empty)
    then have fresh: "\<not> file_bytes r \<subseteq> (\<Union>q \<in> set chosen. file_bytes q)" using inv by (simp add: staging_inv_def)
    have "separated ?ranges'"
      using insert_interval_separated [OF sep] coll by (simp add: collected_def)
    moreover have "finite (requested_set ?s')"
    proof -
      have "finite (file_bytes r)" by (simp add: file_bytes_def Some)
      then show ?thesis using inv unfolding req staging_inv_def by blast
    qed
    moreover have "\<not> file_bytes ((chosen @ [r]) ! k) \<subseteq> (\<Union>q \<in> set (take k (chosen @ [r])). file_bytes q)"
      if "k < length (chosen @ [r])" for k
      using that fresh inv by (cases "k = length chosen") (auto simp: staging_inv_def nth_append)
    ultimately have "staging_inv max_bytes (chosen @ [r]) ?s'"
      using inv s' card req False ok by (auto simp: staging_inv_def rng)
    then show ?thesis by blast
  qed
qed

lemma staging_fold_inv:
  "staging_inv max_bytes chosen s \<Longrightarrow> (\<And>r. r \<in> set rs \<Longrightarrow> collected r) \<Longrightarrow>
    \<exists>chosen'. staging_inv max_bytes chosen' (fold (stage_resource max_bytes) rs s) \<and> set chosen' \<subseteq> set chosen \<union> set rs"
proof (induction rs arbitrary: chosen s)
  case (Cons r rs)
  obtain chosen1 where c1: "staging_inv max_bytes chosen1 (stage_resource max_bytes r s)"
    "chosen1 = chosen \<or> chosen1 = chosen @ [r]"
    using stage_resource_inv [OF Cons.prems(1)] Cons.prems(2) by force
  obtain chosen2 where "staging_inv max_bytes chosen2 (fold (stage_resource max_bytes) rs (stage_resource max_bytes r s))"
    "set chosen2 \<subseteq> set chosen1 \<union> set rs"
    using Cons.IH [OF c1(1)] Cons.prems(2) by auto
  then show ?case using c1(2) by (intro exI [of _ chosen2]) auto
qed auto

subsection \<open>Properties\<close>

text \<open>
  A staging plan asks for every byte once and stays within its limit. The selected bytes are the
  number of distinct file bytes, in all mappings, that the page ranges of the selected resources
  cover; they do not exceed the limit, and every selected resource adds bytes that the ones before it
  do not cover. Only file-backed resources with pages are selected.
\<close>

theorem staging_plan_distinct_bytes:
  assumes "\<And>r. r \<in> set (ri_resources iv) \<Longrightarrow> tr_page_bytes r = tr_page_end r - tr_page_start r \<and> tr_page_end r \<le> U64_MAX"
    and "p = staging_plan_with_profile iv max_bytes profile"
  shows "\<exists>chosen. sp_selected p = map tr_key chosen \<and> set chosen \<subseteq> {r \<in> set (ri_resources iv). tr_file_backed r \<and> 0 < tr_page_bytes r}
    \<and> sp_selected_bytes p = card (\<Union>r \<in> set chosen. file_bytes r) \<and> sp_selected_bytes p \<le> max_bytes
    \<and> (\<forall>k < length chosen. \<not> file_bytes (chosen ! k) \<subseteq> (\<Union>r \<in> set (take k chosen). file_bytes r))"
proof -
  have "collected r" if "r \<in> set (staging_candidates iv profile)" for r
    using that assms(1) by (auto simp: staging_candidates_def collected_def)
  then obtain chosen where "staging_inv max_bytes chosen (fold (stage_resource max_bytes) (staging_candidates iv profile) staging_start)"
    "set chosen \<subseteq> set (staging_candidates iv profile)"
    using staging_fold_inv [OF staging_inv_start, of "staging_candidates iv profile" max_bytes] by auto
  then show ?thesis
    by (intro exI [of _ chosen])
      (auto simp: assms(2) staging_plan_with_profile_def Let_def staging_inv_def staging_candidates_def)
qed

theorem staging_plan_distinct_bytes_witness:
  "\<exists>p. p = staging_plan_with_profile (pn_inventory example_planner) 30 None \<and> sp_selected_bytes p \<le> 30"
proof -
  have "tr_page_bytes r = tr_page_end r - tr_page_start r \<and> tr_page_end r \<le> U64_MAX"
    if "r \<in> set (ri_resources (pn_inventory example_planner))" for r
    using that describe_collected [of "example_mapping 0 30" 7 0]
    by (simp add: example_planner_resource collected_def example_mapping_def U64_MAX_def)
  from staging_plan_distinct_bytes [OF this refl, where max_bytes = 30 and profile = None] show ?thesis by blast
qed

end
