(* ===== verification/Residency_Manager.thy ===== *)
theory Residency_Manager
  imports Residency_Staging Resource_Lifetime
begin

section \<open>The residency manager\<close>

text \<open>
  \<open>ResidencyLifecycle\<close> and \<open>ResidencyManager\<close> of \<open>crates/ramforge-runtime/src/residency_engine.rs\<close>:
  the lifecycle states of one model, and the manager that plans at safe boundaries and submits the
  selected indices to a release closure. The closure (a call into the external library) is a parameter
  of \<open>apply_last_plan\<close>, from the indices to its result of type \<open>'r\<close>, an error, or a panic; elapsed times
  are left out. A method with \<open>&mut self\<close> returns the manager it leaves and its outcome.
\<close>

subsection \<open>Lifecycle\<close>

datatype residency_state =
    ModelReady | PreparingOperation | Executing | Synchronizing | SafeBoundary | Planning | Applying
  | Failed | ShuttingDown

datatype lifecycle_error = LifecycleError residency_state residency_state

definition legal_transitions :: "(residency_state \<times> residency_state) list" where
  "legal_transitions =
     [(ModelReady, PreparingOperation), (ModelReady, Planning),
      (PreparingOperation, Executing), (PreparingOperation, Planning), (PreparingOperation, SafeBoundary),
      (Executing, Synchronizing), (Synchronizing, SafeBoundary),
      (SafeBoundary, Executing), (SafeBoundary, Planning), (SafeBoundary, PreparingOperation),
      (Planning, Applying), (Planning, SafeBoundary), (Applying, SafeBoundary), (Failed, SafeBoundary),
      (ModelReady, ShuttingDown), (PreparingOperation, ShuttingDown), (Executing, ShuttingDown),
      (Synchronizing, ShuttingDown), (SafeBoundary, ShuttingDown), (Planning, ShuttingDown),
      (Applying, ShuttingDown), (Failed, ShuttingDown)]"

definition lifecycle_transition :: "residency_state \<Rightarrow> residency_state \<Rightarrow> (residency_state, lifecycle_error) result" where
  "lifecycle_transition from_state to_state =
     (if (from_state, to_state) \<in> set legal_transitions then Ok to_state
      else Err (LifecycleError from_state to_state))"

definition lifecycle_fail :: "residency_state \<Rightarrow> residency_state" where
  "lifecycle_fail s = (if s \<noteq> ShuttingDown then Failed else s)"

subsection \<open>The manager\<close>

record 'r application_report =
  ar_attempted :: "resource_key list"
  ar_indices :: "int list"
  ar_native :: "'r option"
  ar_error :: "string option"

record 'r residency_manager =
  mg_model_id :: string
  mg_inventory :: resource_inventory
  mg_policy :: residency_policy
  mg_hard_limit :: "u64 option"
  mg_state :: residency_state
  mg_attempted :: "resource_key set"
  mg_last_plan :: "residency_plan option"
  mg_application :: "'r application_report option"
  mg_native_instance :: "u64 option"
  mg_native_contract :: "nat option"
  mg_quiescent :: bool
  mg_last_generation :: "u64 option"
  mg_lifetimes :: "(resource_key, resource_lifetime) omap"

datatype manager_error =
    PolicyError policy_error
  | InventoryError inventory_error
  | Lifecycle lifecycle_error
  | StalePlan
  | NoPlan
  | ObserveOnly
  | ReleaseUnsafe
  | NativeContract string
  | ReleaseError string

text \<open>\<open>ManagerError::SynchronizationMissing\<close> is \<open>ReleaseUnsafe\<close>; formatted parts of texts are left out.\<close>

definition fresh_lifetimes :: "resource_inventory \<Rightarrow> (resource_key, resource_lifetime) omap" where
  "fresh_lifetimes iv = fold (\<lambda>r. om_put (tr_key r) lifetime_default) (ri_resources iv) []"

definition map_lifetimes :: "(resource_lifetime \<Rightarrow> resource_lifetime) \<Rightarrow> (resource_key, resource_lifetime) omap \<Rightarrow>
  (resource_key, resource_lifetime) omap"
where
  "map_lifetimes f ls = map (\<lambda>(k, t). (k, f t)) ls"

definition apply_event :: "lifetime_event \<Rightarrow> string \<Rightarrow> resource_lifetime \<Rightarrow> resource_lifetime" where
  "apply_event e evidence t = fst (lifetime_apply e evidence t)"

text \<open>\<open>if let Some(lifetime) = lifetimes.get_mut(key)\<close> for every key of a list.\<close>

definition update_lifetimes :: "(resource_lifetime \<Rightarrow> resource_lifetime) \<Rightarrow> resource_key list \<Rightarrow>
  (resource_key, resource_lifetime) omap \<Rightarrow> (resource_key, resource_lifetime) omap"
where
  "update_lifetimes f keys ls =
     fold (\<lambda>key ls. case om_get ls key of None \<Rightarrow> ls | Some t \<Rightarrow> om_put key (f t) ls) keys ls"

definition manager_new :: "string \<Rightarrow> resource_inventory \<Rightarrow> residency_policy \<Rightarrow> u64 option \<Rightarrow>
  ('r residency_manager, manager_error) result"
where
  "manager_new model iv policy hard =
     rbind (map_err PolicyError (validate_policy policy)) (\<lambda>policy.
       Ok \<lparr>mg_model_id = model, mg_inventory = iv, mg_policy = policy, mg_hard_limit = hard,
           mg_state = ModelReady, mg_attempted = {}, mg_last_plan = None, mg_application = None,
           mg_native_instance = None, mg_native_contract = None, mg_quiescent = False,
           mg_last_generation = None, mg_lifetimes = fresh_lifetimes iv\<rparr>)"

definition bind_native_model :: "u64 \<Rightarrow> nat \<Rightarrow> 'r residency_manager \<Rightarrow>
  'r residency_manager \<times> (unit, manager_error) result"
where
  "bind_native_model instance_id contract m =
     (if instance_id = 0 then (m, Err (NativeContract ''native model instance id is zero''))
      else if contract \<noteq> 1 then (m, Err (NativeContract ''unsupported contract version''))
      else if mg_native_instance m \<noteq> None \<and> mg_native_instance m \<noteq> Some instance_id then (m, Err StalePlan)
      else (m\<lparr>mg_native_instance := Some instance_id, mg_native_contract := Some contract,
              mg_inventory := (mg_inventory m)\<lparr>ri_native_model_instance := Some instance_id,
                ri_native_contract_version := Some contract\<rparr>,
              mg_lifetimes := map_lifetimes (apply_event ModelBound ''native model bound'') (mg_lifetimes m)\<rparr>,
            Ok ()))"

definition observe_native_lifetime :: "bool \<Rightarrow> u64 \<Rightarrow> u64 \<Rightarrow> u64 option \<Rightarrow> 'r residency_manager \<Rightarrow> 'r residency_manager" where
  "observe_native_lifetime quiescent active_contexts inflight_contexts generation m =
     (let q = (quiescent \<and> inflight_contexts = 0 \<and> active_contexts = 0);
          m = m\<lparr>mg_quiescent := q\<rparr> in
      if q \<and> active_contexts = 0
      then m\<lparr>mg_last_generation := (if generation \<noteq> None then generation else mg_last_generation m)\<rparr>
      else m)"

definition manager_transition :: "residency_state \<Rightarrow> 'r residency_manager \<Rightarrow>
  'r residency_manager \<times> (unit, manager_error) result"
where
  "manager_transition to_state m =
     (case lifecycle_transition (mg_state m) to_state of
        Ok s \<Rightarrow> (m\<lparr>mg_state := s\<rparr>, Ok ())
      | Err e \<Rightarrow> (m, Err (Lifecycle e))
      | Panic msg \<Rightarrow> (m, Panic msg))"

definition begin_operation :: "'r residency_manager \<Rightarrow> 'r residency_manager \<times> (unit, manager_error) result" where
  "begin_operation m = manager_transition PreparingOperation m"

definition begin_decode :: "'r residency_manager \<Rightarrow> 'r residency_manager \<times> (unit, manager_error) result" where
  "begin_decode m = manager_transition Executing m"

definition finish_decode :: "'r residency_manager \<Rightarrow> 'r residency_manager \<times> (unit, manager_error) result" where
  "finish_decode m = sbind (manager_transition Synchronizing m) (\<lambda>m _. manager_transition SafeBoundary m)"

definition releasing_mode :: "policy_mode \<Rightarrow> bool" where
  "releasing_mode mode \<longleftrightarrow> mode \<in> {Conservative, MemoryBound, ReuseAware, Active}"

definition planned_lifetime :: "policy_mode \<Rightarrow> resource_lifetime \<Rightarrow> resource_lifetime" where
  "planned_lifetime mode t =
     (let t = apply_event OperationBoundarySynchronized ''operation boundary observed quiescent'' t in
      if releasing_mode mode then apply_event ReleaseSelected ''selected by plan'' t else t)"

definition manager_planner :: "'r residency_manager \<Rightarrow> planner" where
  "manager_planner m =
     (let p = planner_new (mg_inventory m) (mg_attempted m) in
      if mg_native_instance m \<noteq> None then with_native_guard (mg_native_contract m) (mg_quiescent m) p else p)"

definition valid_profile :: "'r residency_manager \<Rightarrow> execution_profile option \<Rightarrow> execution_profile option" where
  "valid_profile m profile =
     (case profile of
        None \<Rightarrow> None
      | Some p \<Rightarrow> if is_valid_for (mg_model_id m) (ri_generation (mg_inventory m)) p then Some p else None)"

definition manager_plan_with_profile :: "u64 option \<Rightarrow> operation_context \<Rightarrow> execution_profile option \<Rightarrow>
  'r residency_manager \<Rightarrow> 'r residency_manager \<times> (residency_plan, manager_error) result"
where
  "manager_plan_with_profile observed ctx profile m =
     sbind (manager_transition Planning m) (\<lambda>m _.
       let pl = plan_with_profile (manager_planner m) (mg_policy m) observed ctx (valid_profile m profile);
           m = (if mg_native_instance m \<noteq> None \<and> mg_quiescent m
                then m\<lparr>mg_lifetimes := update_lifetimes (planned_lifetime (rp_mode (mg_policy m)))
                        (rl_selected pl) (mg_lifetimes m)\<rparr>
                else m) in
       sbind (manager_transition SafeBoundary m) (\<lambda>m _. (m\<lparr>mg_last_plan := Some pl\<rparr>, Ok pl)))"

definition manager_plan :: "u64 option \<Rightarrow> operation_context \<Rightarrow> 'r residency_manager \<Rightarrow>
  'r residency_manager \<times> (residency_plan, manager_error) result"
where
  "manager_plan observed ctx m = manager_plan_with_profile observed ctx None m"

text \<open>The indices of the selected keys; None when a key is stale, not file-backed or without pages.\<close>

fun plan_indices :: "resource_inventory \<Rightarrow> resource_key list \<Rightarrow> int list option" where
  "plan_indices iv [] = Some []"
| "plan_indices iv (key # keys) =
     (case inventory_get iv key of
        None \<Rightarrow> None
      | Some r \<Rightarrow>
          if \<not> tr_file_backed r \<or> tr_page_bytes r = 0 then None
          else map_option ((#) (key_tensor_index (tr_key r))) (plan_indices iv keys))"

definition released_lifetime :: "resource_lifetime \<Rightarrow> resource_lifetime" where
  "released_lifetime t =
     apply_event ReconciliationComplete ''report captured''
       (apply_event NativeAccepted ''native result'' (apply_event ReleaseSubmitted ''native call'' t))"

definition submit_release :: "(int list \<Rightarrow> ('r, string) result) \<Rightarrow> resource_key list \<Rightarrow> int list \<Rightarrow>
  'r residency_manager \<Rightarrow> 'r residency_manager \<times> ('r application_report, manager_error) result"
where
  "submit_release native_release selected indices m =
     (case native_release indices of
        Ok native \<Rightarrow>
          let m = m\<lparr>mg_attempted := mg_attempted m \<union> set selected,
                    mg_lifetimes := update_lifetimes released_lifetime selected (mg_lifetimes m)\<rparr>;
              report = \<lparr>ar_attempted = selected, ar_indices = indices, ar_native = Some native, ar_error = None\<rparr> in
          sbind (manager_transition SafeBoundary m) (\<lambda>m _. (m\<lparr>mg_application := Some report\<rparr>, Ok report))
      | Err e \<Rightarrow>
          (m\<lparr>mg_lifetimes := update_lifetimes (apply_event NativeFailure ''native release error'') selected
               (mg_lifetimes m),
             mg_state := lifecycle_fail (mg_state m),
             mg_application := Some \<lparr>ar_attempted = selected, ar_indices = indices, ar_native = None, ar_error = Some e\<rparr>\<rparr>,
           Err (ReleaseError e))
      | Panic msg \<Rightarrow> (m, Panic msg))"

definition apply_last_plan :: "(int list \<Rightarrow> ('r, string) result) \<Rightarrow> 'r residency_manager \<Rightarrow>
  'r residency_manager \<times> ('r application_report, manager_error) result"
where
  "apply_last_plan native_release m =
     (if rp_mode (mg_policy m) = Observe then (m, Err ObserveOnly)
      else if rp_mode (mg_policy m) = ModeOff then (m, Err NoPlan)
      else if mg_native_instance m \<noteq> None \<and> (mg_native_contract m \<noteq> Some 1 \<or> \<not> mg_quiescent m)
      then (m, Err ReleaseUnsafe)
      else (case mg_last_plan m of
          None \<Rightarrow> (m, Err NoPlan)
        | Some pl \<Rightarrow>
            if rl_selected pl = []
            then (m, Ok \<lparr>ar_attempted = [], ar_indices = [], ar_native = None, ar_error = None\<rparr>)
            else if mg_state m \<noteq> SafeBoundary then (m, Err (Lifecycle (LifecycleError (mg_state m) Applying)))
            else (case plan_indices (mg_inventory m) (rl_selected pl) of
                None \<Rightarrow> (m\<lparr>mg_state := lifecycle_fail (mg_state m)\<rparr>, Err StalePlan)
              | Some indices \<Rightarrow>
                  sbind (manager_transition Planning m) (\<lambda>m _.
                    sbind (manager_transition Applying m) (\<lambda>m _.
                      submit_release native_release (rl_selected pl) indices m)))))"

definition manager_fail :: "'r residency_manager \<Rightarrow> 'r residency_manager" where
  "manager_fail m = m\<lparr>mg_state := lifecycle_fail (mg_state m)\<rparr>"

definition recover :: "'r residency_manager \<Rightarrow> 'r residency_manager \<times> (unit, manager_error) result" where
  "recover m = manager_transition SafeBoundary m"

definition refresh :: "resource_inventory \<Rightarrow> 'r residency_manager \<Rightarrow>
  'r residency_manager \<times> (unit, manager_error) result"
where
  "refresh iv m =
     (if ri_model_id iv \<noteq> mg_model_id m then (m, Err StalePlan)
      else if mg_state m \<noteq> SafeBoundary \<and> mg_state m \<noteq> ModelReady
      then (m, Err (Lifecycle (LifecycleError (mg_state m) Planning)))
      else (m\<lparr>mg_lifetimes :=
                (if mg_native_instance m \<noteq> None
                 then map_lifetimes (apply_event ModelBound ''native model rebound'') (fresh_lifetimes iv)
                 else fresh_lifetimes iv),
              mg_inventory := iv, mg_attempted := {}, mg_last_plan := None, mg_application := None\<rparr>, Ok ()))"

subsection \<open>Reports of the manager\<close>

definition admission :: "u64 option \<Rightarrow> 'r residency_manager \<Rightarrow> admission_decision" where
  "admission current m =
     (let s = ri_summary (mg_inventory m);
          d = admit (rp_target (mg_policy m)) (mg_hard_limit m) (rp_reserve (mg_policy m)) current
                (saturating_add (is_logical_file_backed_bytes s) (is_logical_anonymous_bytes s)) in
      d\<lparr>ad_native_model := mg_native_instance m, ad_native_contract := mg_native_contract m,
        ad_native_quiescent := mg_quiescent m,
        ad_reclaimable :=
          (if mg_native_instance m \<noteq> None \<and> mg_native_contract m = Some 1 \<and> mg_quiescent m
           then foldl saturating_add 0 (map unique_reclaimable_bytes
             (filter (\<lambda>r. tr_lifetime r = PageReleaseSafeAfterOperation \<and> tr_key r \<notin> mg_attempted m)
               (ri_resources (mg_inventory m))))
           else 0)\<rparr>)"

definition lifetime_counts :: "(lifetime_state \<Rightarrow> string) \<Rightarrow> 'r residency_manager \<Rightarrow> (string, usize) omap" where
  "lifetime_counts show_state m =
     fold (\<lambda>(k, t) counts.
        om_put (show_state (rt_state t))
          ((case om_get counts (show_state (rt_state t)) of None \<Rightarrow> 0 | Some n \<Rightarrow> n) + 1) counts)
       (mg_lifetimes m) []"

definition manager_staging_plan :: "u64 \<Rightarrow> execution_profile option \<Rightarrow> 'r residency_manager \<Rightarrow> staging_plan" where
  "manager_staging_plan max_bytes profile m = staging_plan_with_profile (mg_inventory m) max_bytes profile"

subsection \<open>Runs of a manager\<close>

text \<open>
  What holds between two calls: the lifetimes cover exactly the resources, releases were attempted
  and planned only for resources with pages in a file, the lifecycle rests in a state from which the
  caller can go on, and a native contract is bound together with its model instance.
\<close>

definition releasable :: "resource_inventory \<Rightarrow> resource_key \<Rightarrow> bool" where
  "releasable iv key \<longleftrightarrow>
     (\<exists>r \<in> set (ri_resources iv). tr_key r = key \<and> tr_file_backed r \<and> tr_page_bytes r \<noteq> 0)"

definition resting :: "residency_state set" where
  "resting = {ModelReady, PreparingOperation, Executing, SafeBoundary, Failed}"

definition manager_ok :: "'r residency_manager \<Rightarrow> bool" where
  "manager_ok m \<longleftrightarrow> inventory_sound (mg_inventory m) \<and> om_ok (mg_lifetimes m)
     \<and> set (om_keys (mg_lifetimes m)) = tr_key ` set (ri_resources (mg_inventory m))
     \<and> (\<forall>key \<in> mg_attempted m. releasable (mg_inventory m) key)
     \<and> (\<forall>pl. mg_last_plan m = Some pl \<longrightarrow> (\<forall>key \<in> set (rl_selected pl). releasable (mg_inventory m) key))
     \<and> mg_state m \<in> resting
     \<and> mg_native_contract m = (if mg_native_instance m = None then None else Some 1)"

inductive manager_step :: "'r residency_manager \<Rightarrow> 'r residency_manager \<Rightarrow> bool" where
  bind: "manager_step m (fst (bind_native_model instance_id contract m))"
| observe: "manager_step m (observe_native_lifetime quiescent active inflight generation m)"
| begin_op: "manager_step m (fst (begin_operation m))"
| begin_dec: "manager_step m (fst (begin_decode m))"
| finish_dec: "manager_step m (fst (finish_decode m))"
| plans: "manager_step m (fst (manager_plan_with_profile observed ctx profile m))"
| applies: "(\<And>indices. \<not> is_panic (native_release indices)) \<Longrightarrow>
    manager_step m (fst (apply_last_plan native_release m))"
| fails: "manager_step m (manager_fail m)"
| recovers: "manager_step m (fst (recover m))"
| refreshes: "from_tensor_mappings model g ms = Ok iv \<Longrightarrow> manager_step m (fst (refresh iv m))"

inductive manager_reaches :: "residency_policy \<Rightarrow> 'r residency_manager \<Rightarrow> bool" where
  created: "from_tensor_mappings model g ms = Ok iv \<Longrightarrow> manager_new name iv policy hard = Ok m \<Longrightarrow>
    manager_reaches policy m"
| next_call: "manager_reaches policy m \<Longrightarrow> manager_step m m' \<Longrightarrow> manager_reaches policy m'"

lemma om_keys_map_lifetimes [simp]: "om_keys (map_lifetimes f ls) = om_keys ls"
  by (simp add: om_keys_def map_lifetimes_def comp_def case_prod_unfold)

lemma om_ok_map_lifetimes [simp]: "om_ok (map_lifetimes f ls) = om_ok ls"
  by (simp add: om_ok_def map_lifetimes_def comp_def case_prod_unfold sorted_wrt_map)

lemma fresh_lifetimes_fold:
  "om_ok ls \<Longrightarrow> om_ok (fold (\<lambda>r. om_put (tr_key r) lifetime_default) rs ls)
     \<and> set (om_keys (fold (\<lambda>r. om_put (tr_key r) lifetime_default) rs ls)) = tr_key ` set rs \<union> set (om_keys ls)"
  by (induction rs arbitrary: ls) (auto simp: om_keys_put)

lemma fresh_lifetimes_ok [simp]:
  "om_ok (fresh_lifetimes iv)" "set (om_keys (fresh_lifetimes iv)) = tr_key ` set (ri_resources iv)"
  using fresh_lifetimes_fold [of "[]" "ri_resources iv"] by (simp_all add: fresh_lifetimes_def om_keys_def)

lemma update_lifetimes_ok:
  "om_ok ls \<Longrightarrow> om_ok (update_lifetimes f keys ls)
     \<and> set (om_keys (update_lifetimes f keys ls)) = set (om_keys ls)"
  unfolding update_lifetimes_def
proof (induction keys arbitrary: ls)
  case (Cons key keys)
  show ?case
  proof (cases "om_get ls key")
    case None
    then show ?thesis using Cons by simp
  next
    case (Some t)
    then have "key \<in> set (om_keys ls)" using om_mem_iff om_mem_keys by fastforce
    then show ?thesis using Some Cons.prems Cons.IH [of "om_put key (f t) ls"] by (auto simp: om_keys_put)
  qed
qed simp

lemma update_lifetimes_keys [simp]:
  "om_ok ls \<Longrightarrow> om_ok (update_lifetimes f keys ls)"
  "om_ok ls \<Longrightarrow> set (om_keys (update_lifetimes f keys ls)) = set (om_keys ls)"
  using update_lifetimes_ok by blast+

lemma releasable_get:
  "inventory_sound iv \<Longrightarrow> releasable iv key \<Longrightarrow>
     \<exists>r. inventory_get iv key = Some r \<and> tr_key r = key \<and> tr_file_backed r \<and> tr_page_bytes r \<noteq> 0"
  unfolding releasable_def inventory_sound_def by blast

lemma plan_indices_releasable:
  "inventory_sound iv \<Longrightarrow> \<forall>key \<in> set keys. releasable iv key \<Longrightarrow>
     plan_indices iv keys = Some (map key_tensor_index keys)"
proof (induction keys)
  case (Cons key keys)
  then show ?case using releasable_get [of iv key] by auto
qed simp

subsection \<open>What each call leaves\<close>

lemma transition_ok:
  "manager_ok m \<Longrightarrow> to_state \<in> resting \<Longrightarrow> manager_ok (fst (manager_transition to_state m))"
  by (simp add: manager_transition_def lifecycle_transition_def manager_ok_def)

lemma finish_decode_eq:
  "mg_state m \<in> resting \<Longrightarrow> finish_decode m =
     (if mg_state m = Executing then (m\<lparr>mg_state := SafeBoundary\<rparr>, Ok ())
      else (m, Err (Lifecycle (LifecycleError (mg_state m) Synchronizing))))"
  by (auto simp: finish_decode_def manager_transition_def lifecycle_transition_def legal_transitions_def resting_def)

definition plan_of :: "u64 option \<Rightarrow> operation_context \<Rightarrow> execution_profile option \<Rightarrow> 'r residency_manager \<Rightarrow> residency_plan" where
  "plan_of observed ctx profile m =
     plan_with_profile (manager_planner m) (mg_policy m) observed ctx (valid_profile m profile)"

definition planned_lifetimes :: "residency_plan \<Rightarrow> 'r residency_manager \<Rightarrow> (resource_key, resource_lifetime) omap" where
  "planned_lifetimes pl m =
     (if mg_native_instance m \<noteq> None \<and> mg_quiescent m
      then update_lifetimes (planned_lifetime (rp_mode (mg_policy m))) (rl_selected pl) (mg_lifetimes m)
      else mg_lifetimes m)"

lemma planner_state [simp]: "manager_planner (m\<lparr>mg_state := s\<rparr>) = manager_planner m"
    "valid_profile (m\<lparr>mg_state := s\<rparr>) = valid_profile m"
  by (simp_all add: manager_planner_def valid_profile_def fun_eq_iff Let_def split: option.split)

lemma manager_plan_eq:
  "mg_state m \<in> resting \<Longrightarrow> manager_plan_with_profile observed ctx profile m =
     (if mg_state m \<in> {ModelReady, PreparingOperation, SafeBoundary}
      then (m\<lparr>mg_lifetimes := planned_lifetimes (plan_of observed ctx profile m) m, mg_state := SafeBoundary,
              mg_last_plan := Some (plan_of observed ctx profile m)\<rparr>, Ok (plan_of observed ctx profile m))
      else (m, Err (Lifecycle (LifecycleError (mg_state m) Planning))))"
  by (auto simp: manager_plan_with_profile_def manager_transition_def lifecycle_transition_def
      legal_transitions_def resting_def Let_def plan_of_def planned_lifetimes_def)

lemma plan_of_releasable: "key \<in> set (rl_selected (plan_of observed ctx profile m)) \<Longrightarrow> releasable (mg_inventory m) key"
proof -
  assume key: "key \<in> set (rl_selected (plan_of observed ctx profile m))"
  have "pn_inventory (manager_planner m) = mg_inventory m"
    by (simp add: manager_planner_def planner_new_def with_native_guard_def Let_def)
  then show ?thesis using selected_eligible [OF key [unfolded plan_of_def]]
    by (auto simp: releasable_def eligible_def)
qed

text \<open>The application of a plan, on a manager at rest.\<close>

definition after_release :: "resource_key list \<Rightarrow> int list \<Rightarrow> ('r, string) result \<Rightarrow> 'r residency_manager \<Rightarrow>
  'r residency_manager \<times> ('r application_report, manager_error) result"
where
  "after_release selected indices outcome m =
     (case outcome of
        Ok native \<Rightarrow>
          (let report = \<lparr>ar_attempted = selected, ar_indices = indices, ar_native = Some native, ar_error = None\<rparr> in
           (m\<lparr>mg_attempted := mg_attempted m \<union> set selected, mg_state := SafeBoundary,
              mg_lifetimes := update_lifetimes released_lifetime selected (mg_lifetimes m),
              mg_application := Some report\<rparr>, Ok report))
      | Err e \<Rightarrow>
          (m\<lparr>mg_lifetimes := update_lifetimes (apply_event NativeFailure ''native release error'') selected
               (mg_lifetimes m), mg_state := Failed,
             mg_application := Some \<lparr>ar_attempted = selected, ar_indices = indices, ar_native = None, ar_error = Some e\<rparr>\<rparr>,
           Err (ReleaseError e))
      | Panic msg \<Rightarrow> (m\<lparr>mg_state := Applying\<rparr>, Panic msg))"

definition may_release :: "'r residency_manager \<Rightarrow> bool" where
  "may_release m \<longleftrightarrow> releasing_mode (rp_mode (mg_policy m))
     \<and> (mg_native_instance m \<noteq> None \<longrightarrow> mg_native_contract m = Some 1 \<and> mg_quiescent m)"

lemma submit_release_eq:
  "mg_state m = SafeBoundary \<Longrightarrow>
     sbind (manager_transition Planning m) (\<lambda>m _. sbind (manager_transition Applying m) (\<lambda>m _.
       submit_release native_release selected indices m)) =
     after_release selected indices (native_release indices) m"
  by (simp add: manager_transition_def lifecycle_transition_def legal_transitions_def submit_release_def
      after_release_def lifecycle_fail_def Let_def split: result.split)

lemma apply_last_plan_eq:
  "apply_last_plan native_release m =
     (if rp_mode (mg_policy m) = Observe then (m, Err ObserveOnly)
      else if rp_mode (mg_policy m) = ModeOff then (m, Err NoPlan)
      else if \<not> may_release m then (m, Err ReleaseUnsafe)
      else case mg_last_plan m of
          None \<Rightarrow> (m, Err NoPlan)
        | Some pl \<Rightarrow>
            if rl_selected pl = []
            then (m, Ok \<lparr>ar_attempted = [], ar_indices = [], ar_native = None, ar_error = None\<rparr>)
            else if mg_state m \<noteq> SafeBoundary then (m, Err (Lifecycle (LifecycleError (mg_state m) Applying)))
            else case plan_indices (mg_inventory m) (rl_selected pl) of
                None \<Rightarrow> (m\<lparr>mg_state := Failed\<rparr>, Err StalePlan)
              | Some indices \<Rightarrow> after_release (rl_selected pl) indices (native_release indices) m)"
proof (cases "rp_mode (mg_policy m) = Observe \<or> rp_mode (mg_policy m) = ModeOff")
  case True
  then show ?thesis by (auto simp: apply_last_plan_def)
next
  case False
  then have "releasing_mode (rp_mode (mg_policy m))" by (cases "rp_mode (mg_policy m)") (auto simp: releasing_mode_def)
  then have may: "(mg_native_instance m \<noteq> None \<and> (mg_native_contract m \<noteq> Some 1 \<or> \<not> mg_quiescent m)) \<longleftrightarrow> \<not> may_release m"
    by (auto simp: may_release_def)
  show ?thesis
    unfolding apply_last_plan_def may using False
    by (auto simp: submit_release_eq lifecycle_fail_def split: option.split)
qed

lemma after_release_ok:
  assumes "manager_ok m" and "\<forall>key \<in> set selected. releasable (mg_inventory m) key" and "\<not> is_panic outcome"
  shows "manager_ok (fst (after_release selected indices outcome m))"
  using assms by (cases outcome) (auto simp: after_release_def manager_ok_def resting_def Let_def)

lemma manager_ok_plan:
  assumes "manager_ok m"
  shows "manager_ok (fst (manager_plan_with_profile observed ctx profile m))"
proof -
  have "om_ok (planned_lifetimes pl m) \<and> set (om_keys (planned_lifetimes pl m)) = set (om_keys (mg_lifetimes m))" for pl
    using assms by (simp add: planned_lifetimes_def manager_ok_def)
  moreover have "mg_state m \<in> resting" using assms by (simp add: manager_ok_def)
  ultimately show ?thesis
    using assms plan_of_releasable [of _ observed ctx profile m]
    by (auto simp: manager_plan_eq manager_ok_def resting_def)
qed

lemma manager_ok_apply:
  assumes "manager_ok m" and "\<And>indices. \<not> is_panic (native_release indices)"
  shows "manager_ok (fst (apply_last_plan native_release m))"
proof -
  have "manager_ok (m\<lparr>mg_state := Failed\<rparr>)" using assms(1) by (simp add: manager_ok_def resting_def)
  moreover have "manager_ok (fst (after_release (rl_selected pl) indices (native_release indices) m))"
    if "mg_last_plan m = Some pl" for pl indices
    using after_release_ok [OF assms(1) _ assms(2)] assms(1) that by (auto simp: manager_ok_def)
  ultimately show ?thesis using assms(1) unfolding apply_last_plan_eq by (simp split: option.split)
qed

lemma manager_ok_refresh:
  assumes "manager_ok m" and "inventory_sound iv"
  shows "manager_ok (fst (refresh iv m))"
  using assms by (auto simp: refresh_def manager_ok_def)

lemma manager_ok_bind: "manager_ok m \<Longrightarrow> manager_ok (fst (bind_native_model instance_id contract m))"
  by (auto simp: bind_native_model_def manager_ok_def releasable_def)

lemma manager_ok_step: "manager_step m m' \<Longrightarrow> manager_ok m \<Longrightarrow> manager_ok m'"
proof (induction rule: manager_step.induct)
  case (observe m quiescent active inflight generation)
  then show ?case by (auto simp: observe_native_lifetime_def manager_ok_def Let_def)
next
  case (finish_dec m)
  then have "mg_state m \<in> resting" by (simp add: manager_ok_def)
  moreover have "manager_ok (m\<lparr>mg_state := SafeBoundary\<rparr>)"
    using finish_dec by (simp add: manager_ok_def resting_def)
  ultimately show ?case using finish_dec by (simp add: finish_decode_eq)
next
  case (fails m)
  then show ?case by (auto simp: manager_fail_def lifecycle_fail_def manager_ok_def resting_def)
next
  case (refreshes model g ms iv m)
  then show ?case using manager_ok_refresh from_tensor_mappings_sound by blast
qed (auto intro: manager_ok_bind manager_ok_plan manager_ok_apply transition_ok
    simp: begin_operation_def begin_decode_def recover_def resting_def)

lemma manager_new_ok:
  "inventory_sound iv \<Longrightarrow> manager_new name iv policy hard = Ok m \<Longrightarrow>
     manager_ok m \<and> mg_policy m = policy \<and> validate_policy policy = Ok policy"
  by (auto simp: manager_new_def rbind_eq_Ok validate_policy_def manager_ok_def resting_def
      split: option.splits if_splits)

lemma manager_policy_step: "manager_step m m' \<Longrightarrow> mg_state m \<in> resting \<Longrightarrow> mg_policy m' = mg_policy m"
proof (induction rule: manager_step.induct)
  case (applies native_release m)
  have "mg_policy (fst (after_release sel ixs outcome m)) = mg_policy m" for sel ixs outcome
    by (cases outcome) (simp_all add: after_release_def Let_def)
  then show ?case by (simp add: apply_last_plan_eq split: option.split)
qed (simp_all add: bind_native_model_def observe_native_lifetime_def begin_operation_def begin_decode_def
    manager_transition_def lifecycle_transition_def finish_decode_eq manager_plan_eq manager_fail_def
    recover_def refresh_def Let_def)

lemma reachable_manager:
  "manager_reaches policy m \<Longrightarrow> manager_ok m \<and> mg_policy m = policy \<and> validate_policy policy = Ok policy"
proof (induction rule: manager_reaches.induct)
  case (created model g ms iv name policy hard m)
  then show ?case using manager_new_ok from_tensor_mappings_sound by blast
next
  case (next_call policy m m')
  then have "mg_state m \<in> resting" by (simp add: manager_ok_def)
  then show ?case using next_call manager_ok_step manager_policy_step by metis
qed

text \<open>From every state at rest the caller reaches a safe boundary.\<close>

lemma resting_to_safe_boundary:
  assumes "mg_state m \<in> resting"
  shows "\<exists>m'. manager_step\<^sup>*\<^sup>* m m' \<and> mg_state m' = SafeBoundary \<and> mg_inventory m' = mg_inventory m
    \<and> mg_last_plan m' = mg_last_plan m"
proof -
  have one: "manager_step\<^sup>*\<^sup>* m (m\<lparr>mg_state := SafeBoundary\<rparr>)"
    if "mg_state m \<in> {PreparingOperation, Failed}" for m :: "'a residency_manager"
  proof -
    have "m\<lparr>mg_state := SafeBoundary\<rparr> = fst (recover m)"
      using that by (auto simp: recover_def manager_transition_def lifecycle_transition_def legal_transitions_def)
    then show ?thesis using manager_step.recovers [of m] by simp
  qed
  consider "mg_state m = SafeBoundary" | "mg_state m \<in> {PreparingOperation, Failed}"
    | "mg_state m = Executing" | "mg_state m = ModelReady"
    using assms by (auto simp: resting_def)
  then show ?thesis
  proof cases
    case 1
    then show ?thesis by blast
  next
    case 2
    then show ?thesis using one [of m] by (intro exI [of _ "m\<lparr>mg_state := SafeBoundary\<rparr>"]) simp
  next
    case 3
    then have "fst (finish_decode m) = m\<lparr>mg_state := SafeBoundary\<rparr>" using assms by (simp add: finish_decode_eq)
    then have "manager_step m (m\<lparr>mg_state := SafeBoundary\<rparr>)" using manager_step.finish_dec [of m] by simp
    then show ?thesis by (intro exI [of _ "m\<lparr>mg_state := SafeBoundary\<rparr>"]) simp
  next
    case 4
    let ?m = "m\<lparr>mg_state := PreparingOperation\<rparr>"
    have "fst (begin_operation m) = ?m"
      using 4 by (simp add: begin_operation_def manager_transition_def lifecycle_transition_def legal_transitions_def)
    then have "manager_step m ?m" using manager_step.begin_op [of m] by simp
    also have "manager_step\<^sup>*\<^sup>* ?m (?m\<lparr>mg_state := SafeBoundary\<rparr>)" by (rule one) simp
    finally show ?thesis by (intro exI [of _ "?m\<lparr>mg_state := SafeBoundary\<rparr>"]) simp
  qed
qed

text \<open>A manager for one tensor, as witness input.\<close>

definition releasing_policy :: residency_policy where
  "releasing_policy = \<lparr>rp_mode = Active, rp_target = Some 0, rp_reserve = 0\<rparr>"

lemma example_manager:
  obtains m :: "unit residency_manager" where
    "manager_reaches releasing_policy m" "mg_state m = ModelReady" "mg_native_instance m = None"
proof -
  obtain iv where "from_tensor_mappings ''m'' 7 [example_mapping 0 30, example_mapping 20 50] = Ok iv"
    by (rule example_inventory)
  moreover obtain m :: "unit residency_manager" where
    m: "manager_new ''m'' iv releasing_policy None = Ok m" "mg_state m = ModelReady" "mg_native_instance m = None"
    by (simp add: manager_new_def validate_policy_def releasing_policy_def)
  ultimately show ?thesis using that manager_reaches.created by blast
qed

subsection \<open>Properties\<close>

text \<open>
  C14: the invariant of a manager. Whatever calls it receives after its creation, as long as the release
  closure does not panic, the manager keeps its policy; its lifetimes are those of exactly the
  resources of its inventory; every attempted and every planned key is that of a file-backed resource
  with pages; the lifecycle never rests in Synchronizing, Planning, Applying or ShuttingDown; and a
  bound model has contract version 1.
\<close>

theorem manager_run_invariant:
  assumes "manager_reaches policy m"
  shows "mg_policy m = policy
    \<and> set (om_keys (mg_lifetimes m)) = tr_key ` set (ri_resources (mg_inventory m))
    \<and> (\<forall>key \<in> mg_attempted m \<union> (case mg_last_plan m of None \<Rightarrow> {} | Some pl \<Rightarrow> set (rl_selected pl)).
        \<exists>r. inventory_get (mg_inventory m) key = Some r \<and> tr_file_backed r \<and> tr_page_bytes r \<noteq> 0)
    \<and> mg_state m \<notin> {Synchronizing, Planning, Applying, ShuttingDown}
    \<and> (mg_native_instance m \<noteq> None \<longrightarrow> mg_native_contract m = Some 1)"
proof -
  note r = reachable_manager [OF assms, unfolded manager_ok_def]
  have "\<exists>r. inventory_get (mg_inventory m) key = Some r \<and> tr_file_backed r \<and> tr_page_bytes r \<noteq> 0"
    if "releasable (mg_inventory m) key" for key
    using releasable_get [OF _ that] r by blast
  then show ?thesis using r by (auto simp: resting_def split: option.splits)
qed

theorem manager_run_invariant_witness:
  "\<exists>m :: unit residency_manager. mg_state m = PreparingOperation \<and> mg_policy m = releasing_policy"
proof -
  obtain m :: "unit residency_manager" where m: "manager_reaches releasing_policy m" "mg_state m = ModelReady"
    by (rule example_manager)
  have "manager_reaches releasing_policy (fst (begin_operation m))"
    using manager_reaches.next_call [OF m(1) manager_step.begin_op] .
  from manager_run_invariant [OF this] m(2) show ?thesis
    by (intro exI [of _ "fst (begin_operation m)"])
      (simp add: begin_operation_def manager_transition_def lifecycle_transition_def legal_transitions_def)
qed

text \<open>Whether a manager hands the plan to its release closure.\<close>

definition submits :: "'r residency_manager \<Rightarrow> residency_plan \<Rightarrow> bool" where
  "submits m pl \<longleftrightarrow> may_release m \<and> mg_last_plan m = Some pl \<and> rl_selected pl \<noteq> [] \<and> mg_state m = SafeBoundary"

lemma apply_submits:
  assumes "manager_ok m" and "submits m pl"
  shows "apply_last_plan native_release m = after_release (rl_selected pl)
    (map key_tensor_index (rl_selected pl)) (native_release (map key_tensor_index (rl_selected pl))) m"
proof -
  have "plan_indices (mg_inventory m) (rl_selected pl) = Some (map key_tensor_index (rl_selected pl))"
    using assms by (intro plan_indices_releasable) (simp_all add: manager_ok_def submits_def)
  then show ?thesis
    using assms(2) by (auto simp: apply_last_plan_eq submits_def may_release_def releasing_mode_def)
qed

lemma apply_refused:
  assumes "\<forall>pl. \<not> submits m pl"
  shows "apply_last_plan native_release m = (m, snd (apply_last_plan other m))
    \<and> snd (apply_last_plan native_release m) \<noteq> Err StalePlan"
  using assms unfolding apply_last_plan_eq submits_def by (auto split: option.splits)

text \<open>
  C15: The outcomes of applying a plan, on every manager that a run reaches. The closure is called only
  at a safe boundary, under a releasing policy, on a nonempty plan and, when a native model is bound,
  while it is quiescent; in every other situation the call changes nothing and its result does not
  depend on the closure. When it is called, it receives the indices of exactly the planned keys; its
  success returns to the safe boundary and marks the keys as attempted, its error leaves the manager
  Failed and the attempted keys as they were. A plan is never stale.
\<close>

theorem apply_last_plan_outcomes:
  assumes "manager_reaches policy m" and "apply_last_plan native_release m = (m', outcome)"
  shows "outcome \<noteq> Err StalePlan
    \<and> ((\<forall>pl. \<not> submits m pl) \<longrightarrow> m' = m \<and> apply_last_plan other m = (m', outcome))
    \<and> (\<forall>pl ixs. submits m pl \<and> ixs = map key_tensor_index (rl_selected pl) \<longrightarrow>
        rp_mode policy \<notin> {Observe, ModeOff}
      \<and> (\<forall>n. native_release ixs = Ok n \<longrightarrow> is_ok outcome \<and> mg_state m' = SafeBoundary
          \<and> mg_attempted m' = mg_attempted m \<union> set (rl_selected pl))
      \<and> (\<forall>e. native_release ixs = Err e \<longrightarrow> outcome = Err (ReleaseError e) \<and> mg_state m' = Failed
          \<and> mg_attempted m' = mg_attempted m))"
proof -
  have ok: "manager_ok m" and policy: "mg_policy m = policy" using reachable_manager [OF assms(1)] by simp_all
  show ?thesis
  proof (cases "\<forall>pl. \<not> submits m pl")
    case True
    then show ?thesis using apply_refused [OF True, of native_release other] apply_refused [OF True, of other native_release]
        assms(2) by (metis prod.collapse snd_conv fst_conv)
  next
    case False
    then obtain pl where pl: "submits m pl" by blast
    then have only: "submits m pl' \<longleftrightarrow> pl' = pl" for pl' by (auto simp: submits_def)
    have mode: "rp_mode policy \<notin> {Observe, ModeOff}"
      using pl policy by (auto simp: submits_def may_release_def releasing_mode_def)
    have "(m', outcome) = after_release (rl_selected pl) (map key_tensor_index (rl_selected pl))
        (native_release (map key_tensor_index (rl_selected pl))) m"
      using apply_submits [OF ok pl] assms(2) by simp
    then show ?thesis using mode
      by (cases "native_release (map key_tensor_index (rl_selected pl))")
        (simp_all add: after_release_def Let_def only)
  qed
qed

theorem apply_last_plan_outcomes_witness:
  "\<exists>m :: unit residency_manager. snd (apply_last_plan (\<lambda>_. Ok ()) m) \<noteq> Err StalePlan"
proof -
  obtain m :: "unit residency_manager" where m: "manager_reaches releasing_policy m" by (rule example_manager)
  obtain m' outcome where "apply_last_plan (\<lambda>_. Ok ()) m = (m', outcome)" by fastforce
  with apply_last_plan_outcomes [OF m this] show ?thesis by (intro exI [of _ m]) simp
qed

text \<open>
  C16: no manager is stuck. From every manager that a run reaches, Failed and in the middle of a decode
  included, a sequence of its own calls leads to a safe boundary, with the inventory and the last plan
  untouched.
\<close>

theorem safe_boundary_reachable:
  assumes "manager_reaches policy m"
  shows "\<exists>m'. manager_step\<^sup>*\<^sup>* m m' \<and> mg_state m' = SafeBoundary \<and> mg_inventory m' = mg_inventory m
    \<and> mg_last_plan m' = mg_last_plan m"
  using reachable_manager [OF assms] by (intro resting_to_safe_boundary) (simp add: manager_ok_def)

theorem safe_boundary_reachable_witness:
  "\<exists>m m' :: unit residency_manager. mg_state m = ModelReady \<and> manager_step\<^sup>*\<^sup>* m m' \<and> mg_state m' = SafeBoundary"
proof -
  obtain m :: "unit residency_manager" where m: "manager_reaches releasing_policy m" "mg_state m = ModelReady"
    by (rule example_manager)
  then show ?thesis using safe_boundary_reachable [OF m(1)] by blast
qed

end
