(* ===== verification/Layer_Reads.thy ===== *)
theory Layer_Reads
  imports Gguf_Model Memory_Budget "HOL-Library.Multiset"
begin

section \<open>Layers and their read plans\<close>

text \<open>
  \<open>crates/ramforge-runtime/src/layer.rs\<close>: the tensors of a model grouped by transformer layer, and the
  persistent ones; \<open>crates/ramforge-runtime/src/layer_read.rs\<close>: the reads of one layer, neighbouring
  tensors coalesced into one range within a bound on the gap and on the span. An error text of the
  source is a constructor of \<open>read_plan_error\<close>. The ranges under construction are kept last first.
\<close>

subsection \<open>Layers\<close>

record layer_descriptor =
  ld_layer_idx :: usize
  ld_tensors :: "tensor_descriptor list"
  ld_total_bytes :: "u64 option"

definition layer_descriptor_new :: "usize \<Rightarrow> tensor_descriptor list \<Rightarrow> layer_descriptor" where
  "layer_descriptor_new layer_idx ts =
     \<lparr>ld_layer_idx = layer_idx, ld_tensors = ts, ld_total_bytes = sum_lengths 0 ts\<rparr>"

definition tensor_names :: "layer_descriptor \<Rightarrow> string list" where
  "tensor_names l = map td_name (ld_tensors l)"

definition layer_prefix :: "usize \<Rightarrow> string" where
  "layer_prefix i = ''blk.'' @ show_nat i @ ''.''"

definition group_layers :: "gguf_model \<Rightarrow> usize \<Rightarrow> layer_descriptor list" where
  "group_layers m blocks =
     map (\<lambda>i. layer_descriptor_new i (filter (\<lambda>t. starts_with (td_name t) (layer_prefix i)) (tensors m)))
       [0..<blocks]"

record persistent_descriptors =
  pd_token_embd :: "tensor_descriptor option"
  pd_output_norm :: "tensor_descriptor option"
  pd_output :: "tensor_descriptor option"

definition persistent_from_model :: "gguf_model \<Rightarrow> persistent_descriptors" where
  "persistent_from_model m =
     \<lparr>pd_token_embd = find (\<lambda>t. td_name t = ''token_embd.weight'') (tensors m),
      pd_output_norm = find (\<lambda>t. td_name t = ''output_norm.weight'') (tensors m),
      pd_output = find (\<lambda>t. td_name t = ''output.weight'') (tensors m)\<rparr>"

definition persistent_list :: "persistent_descriptors \<Rightarrow> tensor_descriptor list" where
  "persistent_list p = List.map_filter id [pd_token_embd p, pd_output_norm p, pd_output p]"

fun saturating_lengths :: "u64 \<Rightarrow> tensor_descriptor list \<Rightarrow> u64 option" where
  "saturating_lengths acc [] = Some acc"
| "saturating_lengths acc (t # ts) =
     (case byte_length t of
        None \<Rightarrow> None
      | Some b \<Rightarrow>
          if saturating_add acc b = U64_MAX then None else saturating_lengths (saturating_add acc b) ts)"

definition persistent_total_bytes :: "persistent_descriptors \<Rightarrow> u64 option" where
  "persistent_total_bytes p = saturating_lengths 0 (persistent_list p)"

subsection \<open>Read plans\<close>

definition MAX_COALESCED_GAP_BYTES :: u64 where "MAX_COALESCED_GAP_BYTES = 4 * 1024"
definition MAX_COALESCED_SPAN_BYTES :: u64 where "MAX_COALESCED_SPAN_BYTES = 64 * 1024 * 1024"

record planned_tensor =
  pt_descriptor_index :: usize
  pt_offset_in_range :: u64

record planned_read_range =
  pr_file_offset :: u64
  pr_byte_length :: u64
  pr_logical_bytes :: u64
  pr_gap_bytes :: u64
  pr_tensors :: "planned_tensor list"

record layer_read_plan =
  lp_logical_tensor_count :: usize
  lp_logical_bytes :: u64
  lp_physical_bytes :: u64
  lp_gap_bytes :: u64
  lp_ranges :: "planned_read_range list"

definition reusable_group_buffer_bytes :: "layer_read_plan \<Rightarrow> u64 option" where
  "reusable_group_buffer_bytes p =
     (if 1 < length (lp_ranges p) \<and> (\<forall>r \<in> set (lp_ranges p). 1 < length (pr_tensors r))
      then let bytes = Max (set (map pr_byte_length (lp_ranges p))) in
        if 0 < bytes then Some bytes else None
      else None)"

datatype read_plan_error =
    LengthUnknown string
  | FileRangeOverflow string
  | LogicalCountOverflow
  | RangeEndOverflow
  | RangesOverlap usize
  | SpanUnderflow
  | RangeLogicalOverflow
  | RangeGapOverflow
  | PhysicalCountOverflow
  | GapCountOverflow

text \<open>One tensor of the layer: its start, its end, its length and its index.\<close>

type_synonym read_item = "u64 \<times> u64 \<times> u64 \<times> usize"

fun collect_items :: "usize \<Rightarrow> u64 \<Rightarrow> tensor_descriptor list \<Rightarrow> (read_item list \<times> u64, read_plan_error) result" where
  "collect_items index logical [] = Ok ([], logical)"
| "collect_items index logical (d # ds) =
     rbind (ok_or (LengthUnknown (td_name d)) (byte_length d)) (\<lambda>len.
       rbind (ok_or (FileRangeOverflow (td_name d)) (checked_add (file_offset d) len)) (\<lambda>stop.
         rbind (ok_or LogicalCountOverflow (checked_add logical len)) (\<lambda>logical'.
           rbind (collect_items (index + 1) logical' ds) (\<lambda>(items, tot).
             Ok ((file_offset d, stop, len, index) # items, tot)))))"

definition new_range :: "read_item \<Rightarrow> planned_read_range" where
  "new_range = (\<lambda>(start, stop, len, index).
     \<lparr>pr_file_offset = start, pr_byte_length = len, pr_logical_bytes = len, pr_gap_bytes = 0,
      pr_tensors = [\<lparr>pt_descriptor_index = index, pt_offset_in_range = 0\<rparr>]\<rparr>)"

definition place_tensor :: "planned_read_range list \<Rightarrow> read_item \<Rightarrow> (planned_read_range list, read_plan_error) result" where
  "place_tensor ranges item =
     (case ranges of
        [] \<Rightarrow> Ok [new_range item]
      | current # prev \<Rightarrow>
          (case item of (start, stop, len, index) \<Rightarrow>
            rbind (ok_or RangeEndOverflow (checked_add (pr_file_offset current) (pr_byte_length current))) (\<lambda>current_end.
              if start < current_end then Err (RangesOverlap index)
              else rbind (ok_or SpanUnderflow (checked_sub stop (pr_file_offset current))) (\<lambda>span.
                if start - current_end \<le> MAX_COALESCED_GAP_BYTES \<and> span \<le> MAX_COALESCED_SPAN_BYTES
                then rbind (ok_or RangeLogicalOverflow (checked_add (pr_logical_bytes current) len)) (\<lambda>logical.
                  rbind (ok_or RangeGapOverflow (checked_add (pr_gap_bytes current) (start - current_end))) (\<lambda>gap.
                    Ok (current\<lparr>pr_tensors := pr_tensors current @
                          [\<lparr>pt_descriptor_index = index, pt_offset_in_range = start - pr_file_offset current\<rparr>],
                        pr_byte_length := span, pr_logical_bytes := logical, pr_gap_bytes := gap\<rparr> # prev)))
                else Ok (new_range item # ranges)))))"

fun coalesce :: "planned_read_range list \<Rightarrow> read_item list \<Rightarrow> (planned_read_range list, read_plan_error) result" where
  "coalesce ranges [] = Ok (rev ranges)"
| "coalesce ranges (item # items) = rbind (place_tensor ranges item) (\<lambda>ranges'. coalesce ranges' items)"

definition build_layer_read_plan :: "tensor_descriptor list \<Rightarrow> (layer_read_plan, read_plan_error) result" where
  "build_layer_read_plan ds =
     rbind (collect_items 0 0 ds) (\<lambda>(items, logical).
       rbind (coalesce [] (sort_key (\<lambda>(start, stop, len, index). (start, index)) items)) (\<lambda>ranges.
         rbind (ok_or PhysicalCountOverflow (try_sum 0 (map pr_byte_length ranges))) (\<lambda>physical.
           rbind (ok_or GapCountOverflow (try_sum 0 (map pr_gap_bytes ranges))) (\<lambda>gap.
             Ok \<lparr>lp_logical_tensor_count = length ds, lp_logical_bytes = logical,
                 lp_physical_bytes = physical, lp_gap_bytes = gap, lp_ranges = ranges\<rparr>))))"

subsection \<open>What a range holds\<close>

abbreviation it_start :: "read_item \<Rightarrow> u64" where "it_start it \<equiv> fst it"
abbreviation it_stop :: "read_item \<Rightarrow> u64" where "it_stop it \<equiv> fst (snd it)"
abbreviation it_len :: "read_item \<Rightarrow> u64" where "it_len it \<equiv> fst (snd (snd it))"
abbreviation it_index :: "read_item \<Rightarrow> usize" where "it_index it \<equiv> snd (snd (snd it))"

definition item_ok :: "read_item \<Rightarrow> bool" where
  "item_ok it \<longleftrightarrow> it_stop it = it_start it + it_len it \<and> it_stop it \<le> U64_MAX"

abbreviation before :: "read_item \<Rightarrow> read_item \<Rightarrow> bool" where
  "before a b \<equiv> it_stop a \<le> it_start b"

text \<open>A range and the tensors it was built from, in file order.\<close>

definition holds :: "planned_read_range \<Rightarrow> read_item list \<Rightarrow> bool" where
  "holds r its \<longleftrightarrow> its \<noteq> [] \<and> (\<forall>it \<in> set its. item_ok it) \<and> sorted_wrt before its
     \<and> map pt_descriptor_index (pr_tensors r) = map it_index its
     \<and> map (\<lambda>t. pr_file_offset r + pt_offset_in_range t) (pr_tensors r) = map it_start its
     \<and> pr_file_offset r = it_start (hd its) \<and> pr_file_offset r + pr_byte_length r = it_stop (last its)
     \<and> pr_logical_bytes r = sum_list (map it_len its)
     \<and> pr_byte_length r = pr_logical_bytes r + pr_gap_bytes r
     \<and> (1 < length its \<longrightarrow> pr_byte_length r \<le> MAX_COALESCED_SPAN_BYTES)
     \<and> successively (\<lambda>a b. it_start b \<le> it_stop a + MAX_COALESCED_GAP_BYTES) its"

text \<open>Two neighbouring groups that the bounds keep apart.\<close>

definition apart :: "read_item list \<Rightarrow> read_item list \<Rightarrow> bool" where
  "apart g g' \<longleftrightarrow> it_stop (last g) + MAX_COALESCED_GAP_BYTES < it_start (hd g')
     \<or> it_start (hd g) + MAX_COALESCED_SPAN_BYTES < it_stop (hd g')"

lemma before_trans: "item_ok b \<Longrightarrow> before a b \<Longrightarrow> before b c \<Longrightarrow> before a c"
  by (simp add: item_ok_def)

lemma sorted_wrt_snoc_before:
  assumes "its \<noteq> []" and "sorted_wrt before its" and "\<forall>it \<in> set its. item_ok it"
  shows "sorted_wrt before (its @ [x]) \<longleftrightarrow> before (last its) x"
proof
  assume "sorted_wrt before (its @ [x])"
  then show "before (last its) x" using assms(1) by (simp add: sorted_wrt_append)
next
  assume x: "before (last its) x"
  have "before a x" if "a \<in> set its" for a
  proof (cases "a = last its")
    case False
    obtain ys where ys: "its = ys @ [last its]" using assms(1) by (metis append_butlast_last_id)
    have "sorted_wrt before (ys @ [last its])" using assms(2) ys by simp
    then have "before y (last its)" if "y \<in> set ys" for y using that by (simp add: sorted_wrt_append)
    moreover have "a \<in> set ys" using that False ys by (metis UnE empty_iff insert_iff list.set set_append)
    ultimately have "before a (last its)" by blast
    moreover have "item_ok (last its)" using assms(1,3) by simp
    ultimately show ?thesis using x before_trans by blast
  qed (use x in simp)
  then show "sorted_wrt before (its @ [x])" using assms(2) by (simp add: sorted_wrt_append)
qed

lemma holds_new_range: "item_ok it \<Longrightarrow> holds (new_range it) [it]"
  by (cases it) (simp add: holds_def new_range_def item_ok_def)

lemma place_tensor_first: "place_tensor [] it = Ok [new_range it]"
  by (simp add: place_tensor_def)

lemma holds_extend:
  assumes cur: "holds cur g" and it: "item_ok it" and b: "before (last g) it"
    and span: "it_stop it - pr_file_offset cur \<le> MAX_COALESCED_SPAN_BYTES"
    and gap: "it_start it \<le> it_stop (last g) + MAX_COALESCED_GAP_BYTES"
  shows "holds (cur\<lparr>pr_tensors := pr_tensors cur @
      [\<lparr>pt_descriptor_index = it_index it, pt_offset_in_range = it_start it - pr_file_offset cur\<rparr>],
    pr_byte_length := it_stop it - pr_file_offset cur, pr_logical_bytes := pr_logical_bytes cur + it_len it,
    pr_gap_bytes := pr_gap_bytes cur + (it_start it - it_stop (last g))\<rparr>) (g @ [it])"
proof -
  have g: "g \<noteq> []" "sorted_wrt before g" "\<forall>it \<in> set g. item_ok it" using cur by (simp_all add: holds_def)
  have off: "pr_file_offset cur + pr_byte_length cur = it_stop (last g)" using cur by (simp add: holds_def)
  have len: "it_stop it - pr_file_offset cur =
      pr_logical_bytes cur + it_len it + (pr_gap_bytes cur + (it_start it - it_stop (last g)))"
    using cur b it off by (simp add: holds_def item_ok_def)
  have start: "pr_file_offset cur \<le> it_start it" using off b by simp
  moreover have "it_start it \<le> it_stop it" using it by (simp add: item_ok_def)
  ultimately have stop: "pr_file_offset cur + (it_stop it - pr_file_offset cur) = it_stop it" by simp
  note h = cur [unfolded holds_def]
  have "sorted_wrt before (g @ [it])" using sorted_wrt_snoc_before [OF g] b by simp
  moreover have "successively (\<lambda>a b. it_start b \<le> it_stop a + MAX_COALESCED_GAP_BYTES) (g @ [it])"
    using h gap by (simp add: successively_append_iff)
  ultimately show ?thesis
    unfolding holds_def using h it start stop span len
    by (elim conjE, intro conjI impI) (simp_all del: add_diff_assoc)
qed

lemma place_tensor_spec:
  assumes cur: "holds cur g" and it: "item_ok it"
  shows "place_tensor (cur # prev) it =
    (if \<not> before (last g) it then Err (RangesOverlap (it_index it))
     else if it_start it - it_stop (last g) \<le> MAX_COALESCED_GAP_BYTES
        \<and> it_stop it - pr_file_offset cur \<le> MAX_COALESCED_SPAN_BYTES
     then Ok (cur\<lparr>pr_tensors := pr_tensors cur @
          [\<lparr>pt_descriptor_index = it_index it, pt_offset_in_range = it_start it - pr_file_offset cur\<rparr>],
        pr_byte_length := it_stop it - pr_file_offset cur, pr_logical_bytes := pr_logical_bytes cur + it_len it,
        pr_gap_bytes := pr_gap_bytes cur + (it_start it - it_stop (last g))\<rparr> # prev)
     else Ok (new_range it # cur # prev))"
proof -
  have off: "pr_file_offset cur + pr_byte_length cur = it_stop (last g)" using cur by (simp add: holds_def)
  have "item_ok (last g)" using cur by (simp add: holds_def)
  then have "it_stop (last g) \<le> U64_MAX" by (simp add: item_ok_def)
  then have cend: "checked_add (pr_file_offset cur) (pr_byte_length cur) = Some (it_stop (last g))"
    by (simp add: off)
  show ?thesis
  proof (cases "before (last g) it")
    case False
    then show ?thesis by (cases it) (simp add: place_tensor_def cend)
  next
    case True
    have "pr_byte_length cur = pr_logical_bytes cur + pr_gap_bytes cur" using cur by (simp add: holds_def)
    then have le: "pr_file_offset cur \<le> it_stop it"
      "pr_logical_bytes cur + it_len it \<le> U64_MAX"
      "pr_gap_bytes cur + (it_start it - it_stop (last g)) \<le> U64_MAX"
      using True it off unfolding item_ok_def by linarith+
    show ?thesis
      using True le by (cases it) (simp add: place_tensor_def cend checked_exact(1,2) del: add_diff_assoc)
  qed
qed

lemma holds_items_ok: "list_all2 holds ranges gs \<Longrightarrow> \<forall>it \<in> set (concat gs). item_ok it"
  by (induction rule: list_all2_induct) (auto simp: holds_def)

lemma coalesce_ok_iff:
  assumes "list_all2 holds ranges gs" and "\<forall>it \<in> set items. item_ok it" and "sorted_wrt before (concat (rev gs))"
    and "successively apart (rev gs)"
  shows "(is_ok (coalesce ranges items) \<longleftrightarrow> sorted_wrt before (concat (rev gs) @ items))
    \<and> (\<forall>rs. coalesce ranges items = Ok rs \<longrightarrow> (\<exists>gs'. list_all2 holds rs gs' \<and> concat gs' = concat (rev gs) @ items
        \<and> successively apart gs'))"
  using assms
proof (induction items arbitrary: ranges gs)
  case Nil
  have "list_all2 holds (rev ranges) (rev gs)" using Nil(1) by (simp add: list_all2_rev)
  then show ?case using Nil(3,4) by auto
next
  case (Cons it items)
  have it: "item_ok it" and items: "\<forall>it \<in> set items. item_ok it" using Cons.prems(2) by simp_all
  show ?case
  proof (cases ranges)
    case Nil
    then have gs: "gs = []" using Cons.prems(1) by simp
    have "list_all2 holds [new_range it] [[it]]" using holds_new_range [OF it] by simp
    from Cons.IH [OF this items] show ?thesis by (simp add: Nil gs place_tensor_first)
  next
    case (Cons cur prev)
    then obtain g gs0 where gs: "gs = g # gs0" "holds cur g" "list_all2 holds prev gs0"
      using Cons.prems(1) by (cases gs) auto
    have g: "g \<noteq> []" using gs(2) by (simp add: holds_def)
    have ok: "\<forall>it \<in> set (concat (rev gs)). item_ok it"
      using holds_items_ok [OF Cons.prems(1)] by simp
    have snoc: "sorted_wrt before (concat (rev gs) @ [it]) \<longleftrightarrow> before (last g) it"
      using sorted_wrt_snoc_before [OF _ Cons.prems(3) ok, of it] g by (simp add: gs(1))
    show ?thesis
    proof (cases "before (last g) it")
      case False
      have "\<not> sorted_wrt before (concat (rev gs) @ it # items)"
      proof
        assume "sorted_wrt before (concat (rev gs) @ it # items)"
        then have "sorted_wrt before ((concat (rev gs) @ [it]) @ items)" by (simp only: append.assoc append_Cons append_Nil)
        then have "sorted_wrt before (concat (rev gs) @ [it])" unfolding sorted_wrt_append by blast
        then show False using snoc False by simp
      qed
      then show ?thesis using False by (simp add: Cons place_tensor_spec [OF gs(2) it])
    next
      case True
      then have sorted: "sorted_wrt before (concat (rev gs) @ [it])" using snoc by simp
      define cur' where "cur' = cur\<lparr>pr_tensors := pr_tensors cur @
          [\<lparr>pt_descriptor_index = it_index it, pt_offset_in_range = it_start it - pr_file_offset cur\<rparr>],
        pr_byte_length := it_stop it - pr_file_offset cur, pr_logical_bytes := pr_logical_bytes cur + it_len it,
        pr_gap_bytes := pr_gap_bytes cur + (it_start it - it_stop (last g))\<rparr>"
      consider "place_tensor ranges it = Ok (cur' # prev)" "it_stop it - pr_file_offset cur \<le> MAX_COALESCED_SPAN_BYTES"
          "it_start it \<le> it_stop (last g) + MAX_COALESCED_GAP_BYTES"
        | "place_tensor ranges it = Ok (new_range it # ranges)" "apart g [it]"
      proof (cases "it_start it - it_stop (last g) \<le> MAX_COALESCED_GAP_BYTES
          \<and> it_stop it - pr_file_offset cur \<le> MAX_COALESCED_SPAN_BYTES")
        case True
        then show thesis
          using that(1) place_tensor_spec [OF gs(2) it, of prev] \<open>before (last g) it\<close> Cons
          unfolding cur'_def by simp linarith
      next
        case False
        have "pr_file_offset cur = it_start (hd g)" using gs(2) by (simp add: holds_def)
        with False have "apart g [it]" unfolding apart_def list.sel last.simps if_True by linarith
        moreover have "place_tensor ranges it = Ok (new_range it # ranges)"
          using place_tensor_spec [OF gs(2) it, of prev] \<open>before (last g) it\<close> False Cons
          by (simp only: if_False not_not simp_thms)
        ultimately show thesis using that(2) by blast
      qed
      then show ?thesis
      proof cases
        case 1
        have "list_all2 holds (cur' # prev) ((g @ [it]) # gs0)"
          using holds_extend [OF gs(2) it True 1(2,3)] gs(3) by (simp add: cur'_def)
        moreover have "apart x (g @ [it]) = apart x g" for x using g by (simp add: apart_def)
        then have "successively apart (rev ((g @ [it]) # gs0))"
          using Cons.prems(4) by (simp add: gs(1) successively_append_iff)
        ultimately show ?thesis using Cons.IH [OF _ items, of "cur' # prev" "(g @ [it]) # gs0"] sorted
          by (simp add: 1(1) gs(1))
      next
        case 2
        have "list_all2 holds (new_range it # ranges) ([it] # gs)"
          using holds_new_range [OF it] Cons.prems(1) by simp
        moreover have "successively apart (rev ([it] # gs))"
          using Cons.prems(4) 2(2) by (simp add: gs(1) successively_append_iff)
        ultimately show ?thesis using Cons.IH [OF _ items, of "new_range it # ranges" "[it] # gs"] sorted
          by (simp add: 2(1))
      qed
    qed
  qed
qed

subsection \<open>The plan of a layer\<close>

abbreviation range_end :: "planned_read_range \<Rightarrow> nat" where
  "range_end r \<equiv> pr_file_offset r + pr_byte_length r"

abbreviation known_range :: "tensor_descriptor \<Rightarrow> bool" where
  "known_range d \<equiv> \<exists>len. byte_length d = Some len \<and> file_offset d + len \<le> U64_MAX"

definition items_from :: "usize \<Rightarrow> tensor_descriptor list \<Rightarrow> read_item list" where
  "items_from i ds = map (\<lambda>(k, d). (file_offset d, file_offset d + the (byte_length d), the (byte_length d), k))
     (List.enumerate i ds)"

definition file_order :: "tensor_descriptor list \<Rightarrow> read_item list" where
  "file_order ds = sort_key (\<lambda>(start, stop, len, index). (start, index)) (items_from 0 ds)"

lemma items_from_simps [simp]:
  "items_from i [] = []"
  "items_from i (d # ds) = (file_offset d, file_offset d + the (byte_length d), the (byte_length d), i) # items_from (i + 1) ds"
  by (simp_all add: items_from_def)

lemma collect_items_eq:
  assumes "\<forall>d \<in> set ds. known_range d" and "logical + sum_list (map (the \<circ> byte_length) ds) \<le> U64_MAX"
  shows "collect_items i logical ds = Ok (items_from i ds, logical + sum_list (map (the \<circ> byte_length) ds))"
  using assms
proof (induction ds arbitrary: i logical)
  case (Cons d ds)
  from Cons.prems(1) obtain len where len: "byte_length d = Some len" "file_offset d + len \<le> U64_MAX" by auto
  have "logical + len + sum_list (map (the \<circ> byte_length) ds) \<le> U64_MAX"
    using Cons.prems(2) len by (simp add: add.assoc comp_def)
  with Cons.IH [of "logical + len" "i + 1"] Cons.prems len show ?case
    by (simp add: checked_exact(1) add.assoc)
qed simp

lemma collect_items_ok:
  "collect_items i logical ds = Ok r \<Longrightarrow> (\<forall>d \<in> set ds. known_range d)
     \<and> (ds = [] \<or> logical + sum_list (map (the \<circ> byte_length) ds) \<le> U64_MAX)"
proof (induction ds arbitrary: i logical r)
  case (Cons d ds)
  then obtain len r' where *: "byte_length d = Some len" "file_offset d + len \<le> U64_MAX" "logical + len \<le> U64_MAX"
    "collect_items (i + 1) (logical + len) ds = Ok r'"
    by (auto simp: rbind_eq_Ok)
  with Cons.IH [OF *(4)] show ?case by (auto simp: add.assoc)
qed simp

lemma collect_items_not_panic: "\<not> is_panic (collect_items i logical ds)"
  by (induction ds arbitrary: i logical) (auto simp: is_panic_rbind)

lemma coalesce_not_panic: "\<not> is_panic (coalesce ranges items)"
proof (induction items arbitrary: ranges)
  case (Cons it items)
  have "\<not> is_panic (place_tensor ranges it)"
    by (auto simp: place_tensor_def is_panic_rbind split: list.split prod.split if_splits)
  then show ?case using Cons by (simp add: is_panic_rbind)
qed simp

lemma items_from_ok: "\<forall>d \<in> set ds. known_range d \<Longrightarrow> \<forall>it \<in> set (items_from i ds). item_ok it"
proof (induction ds arbitrary: i)
  case (Cons d ds)
  then have "\<forall>it \<in> set (items_from (i + 1) ds). item_ok it" by simp
  then show ?case using Cons.prems by (auto simp: item_ok_def [of "(_, _)"])
qed simp

lemma items_from_nth:
  "it \<in> set (items_from i ds) \<Longrightarrow> i \<le> it_index it \<and> it_index it < i + length ds
     \<and> it_start it = file_offset (ds ! (it_index it - i)) \<and> it_len it = the (byte_length (ds ! (it_index it - i)))"
proof (induction ds arbitrary: i)
  case (Cons d ds)
  show ?case
  proof (cases "it \<in> set (items_from (i + 1) ds)")
    case True
    from Cons.IH [OF True] show ?thesis by (simp add: nth_Cons' less_eq_Suc_le)
  next
    case False
    then show ?thesis using Cons.prems by simp
  qed
qed simp

lemma index_items_from: "map it_index (items_from i ds) = [i..<i + length ds]"
  by (induction ds arbitrary: i) (simp_all add: upt_rec)

lemma len_items_from: "map it_len (items_from i ds) = map (the \<circ> byte_length) ds"
  by (induction ds arbitrary: i) simp_all

lemma mset_file_order: "mset (file_order ds) = mset (items_from 0 ds)"
  by (simp add: file_order_def)

lemma set_file_order [simp]: "set (file_order ds) = set (items_from 0 ds)"
  by (metis mset_file_order set_mset_mset)

lemma list_all2_member:
  assumes "list_all2 P xs ys" and "x \<in> set xs"
  obtains y where "y \<in> set ys" "P x y"
proof -
  obtain i where "i < length xs" "x = xs ! i" using assms(2) by (auto simp: in_set_conv_nth)
  then have "ys ! i \<in> set ys" "P x (ys ! i)" using assms(1) by (simp_all add: list_all2_conv_all_nth)
  then show thesis by (rule that)
qed

lemma ranges_ordered:
  "list_all2 holds rs gs \<Longrightarrow> sorted_wrt before (concat gs) \<Longrightarrow>
     sorted_wrt (\<lambda>r r'. range_end r \<le> pr_file_offset r') rs"
proof (induction rule: list_all2_induct)
  case (Cons r rs g gs)
  have g: "last g \<in> set g" "range_end r = it_stop (last g)" using Cons.hyps(1) by (simp_all add: holds_def)
  have "range_end r \<le> pr_file_offset r'" if r': "r' \<in> set rs" for r'
  proof -
    obtain g' where g': "g' \<in> set gs" "holds r' g'"
      using list_all2_member [OF Cons.hyps(2) r'] by blast
    have "g' \<noteq> []" using g'(2) by (simp add: holds_def)
    then have "hd g' \<in> set (concat gs)" using g'(1) by (auto intro: hd_in_set)
    then have "before (last g) (hd g')" using Cons.prems g(1) unfolding concat.simps sorted_wrt_append by blast
    then show ?thesis using g(2) g'(2) by (simp add: holds_def)
  qed
  then show ?case using Cons by (simp add: sorted_wrt_append)
qed simp

lemma ordered_sum_le:
  "sorted_wrt (\<lambda>r r'. range_end r \<le> pr_file_offset r') rs \<Longrightarrow> \<forall>r \<in> set rs. a \<le> pr_file_offset r \<and> range_end r \<le> b \<Longrightarrow>
     a \<le> b \<Longrightarrow> a + sum_list (map pr_byte_length rs) \<le> b"
proof (induction rs arbitrary: a)
  case (Cons r rs)
  have "range_end r + sum_list (map pr_byte_length rs) \<le> b" using Cons.prems by (intro Cons.IH) auto
  then show ?case using Cons.prems(2) by simp
qed simp

lemma holds_sums:
  "list_all2 holds rs gs \<Longrightarrow> sum_list (map pr_byte_length rs) =
     sum_list (map it_len (concat gs)) + sum_list (map pr_gap_bytes rs)"
  by (induction rule: list_all2_induct) (auto simp: holds_def)

lemma holds_range_le: "list_all2 holds rs gs \<Longrightarrow> r \<in> set rs \<Longrightarrow> range_end r \<le> U64_MAX"
proof (induction rule: list_all2_induct)
  case (Cons r' rs g gs)
  have "item_ok (last g)" "range_end r' = it_stop (last g)" using Cons.hyps(1) by (simp_all add: holds_def)
  then show ?case using Cons by (auto simp: item_ok_def)
qed simp

lemma before_sum_le:
  assumes "\<forall>it \<in> set its. item_ok it" and "sorted_wrt before its"
  shows "its \<noteq> [] \<Longrightarrow> it_start (hd its) + sum_list (map it_len its) \<le> it_stop (last its)"
  using assms
proof (induction its rule: rev_induct)
  case (snoc x xs)
  then have x: "it_stop x = it_start x + it_len x" by (simp add: item_ok_def)
  show ?case
  proof (cases "xs = []")
    case False
    then have "it_start (hd xs) + sum_list (map it_len xs) \<le> it_stop (last xs)"
      using snoc by (simp add: sorted_wrt_append)
    moreover have "before (last xs) x" using snoc.prems(3) False by (simp add: sorted_wrt_append)
    ultimately show ?thesis using False x by simp
  qed (use x in simp)
qed simp

lemma file_order_lengths: "sum_list (map it_len (file_order ds)) = sum_list (map (the \<circ> byte_length) ds)"
proof -
  have "mset (map it_len (file_order ds)) = mset (map it_len (items_from 0 ds))"
    unfolding mset_map mset_file_order ..
  then show ?thesis unfolding len_items_from by (metis sum_mset_sum_list)
qed

lemma file_order_sum:
  assumes "\<forall>d \<in> set ds. known_range d" and "sorted_wrt before (file_order ds)"
  shows "sum_list (map (the \<circ> byte_length) ds) \<le> U64_MAX"
proof -
  have ok: "\<forall>it \<in> set (file_order ds). item_ok it" using items_from_ok [OF assms(1)] by simp
  note sum = file_order_lengths [of ds]
  show ?thesis
  proof (cases "file_order ds = []")
    case True
    then show ?thesis using sum by (metis list.map(1) sum_list.Nil zero_le)
  next
    case False
    then have "item_ok (last (file_order ds))" using ok last_in_set by blast
    then show ?thesis using before_sum_le [OF ok assms(2) False] sum by (simp add: item_ok_def)
  qed
qed

text \<open>The plan exists exactly for known, addressable, pairwise separate tensors; what it then is.\<close>

lemma build_layer_read_plan_ok:
  assumes known: "\<forall>d \<in> set ds. known_range d" and sorted: "sorted_wrt before (file_order ds)"
  obtains rs gs where "list_all2 holds rs gs" "concat gs = file_order ds" "successively apart gs"
    "build_layer_read_plan ds = Ok \<lparr>lp_logical_tensor_count = length ds,
      lp_logical_bytes = sum_list (map (the \<circ> byte_length) ds),
      lp_physical_bytes = sum_list (map pr_byte_length rs), lp_gap_bytes = sum_list (map pr_gap_bytes rs), lp_ranges = rs\<rparr>"
proof -
  have col: "collect_items 0 0 ds = Ok (items_from 0 ds, sum_list (map (the \<circ> byte_length) ds))"
    using collect_items_eq [OF known, of 0 0] file_order_sum [OF known sorted] by simp
  have ok: "\<forall>it \<in> set (file_order ds). item_ok it" using items_from_ok [OF known] by simp
  have "is_ok (coalesce [] (file_order ds))"
    using coalesce_ok_iff [of "[]" "[]" "file_order ds"] ok sorted by simp
  then obtain rs where rs: "coalesce [] (file_order ds) = Ok rs" by (cases "coalesce [] (file_order ds)") simp_all
  then obtain gs where gs: "list_all2 holds rs gs" "concat gs = file_order ds" "successively apart gs"
    using coalesce_ok_iff [of "[]" "[]" "file_order ds"] ok by auto
  have "sum_list (map pr_byte_length rs) \<le> U64_MAX"
    using ordered_sum_le [OF ranges_ordered [OF gs(1)], of 0 U64_MAX] holds_range_le [OF gs(1)] sorted gs(2) by simp
  then have "try_sum 0 (map pr_byte_length rs) = Some (sum_list (map pr_byte_length rs))"
    "try_sum 0 (map pr_gap_bytes rs) = Some (sum_list (map pr_gap_bytes rs))"
    using holds_sums [OF gs(1)] by (simp_all add: try_sum_exact)
  then have "build_layer_read_plan ds = Ok \<lparr>lp_logical_tensor_count = length ds,
      lp_logical_bytes = sum_list (map (the \<circ> byte_length) ds),
      lp_physical_bytes = sum_list (map pr_byte_length rs), lp_gap_bytes = sum_list (map pr_gap_bytes rs), lp_ranges = rs\<rparr>"
    using rs by (simp add: build_layer_read_plan_def col file_order_def)
  with gs show thesis by (rule that)
qed

lemma build_layer_read_plan_only:
  assumes "build_layer_read_plan ds = Ok p"
  shows "(\<forall>d \<in> set ds. known_range d) \<and> sorted_wrt before (file_order ds)"
proof -
  obtain items logical rs where i: "collect_items 0 0 ds = Ok (items, logical)"
    "coalesce [] (sort_key (\<lambda>(start, stop, len, index). (start, index)) items) = Ok rs"
    using assms by (auto simp: build_layer_read_plan_def rbind_eq_Ok)
  have known: "\<forall>d \<in> set ds. known_range d" and sum: "0 + sum_list (map (the \<circ> byte_length) ds) \<le> U64_MAX"
    using collect_items_ok [OF i(1)] by auto
  have "items = items_from 0 ds" using collect_items_eq [OF known sum, of 0] i(1) by simp
  then have "is_ok (coalesce [] (file_order ds))" using i(2) by (simp add: file_order_def)
  then show ?thesis
    using coalesce_ok_iff [of "[]" "[]" "file_order ds"] items_from_ok [OF known] known by simp
qed

lemma build_layer_read_plan_not_panic [simp]: "\<not> is_panic (build_layer_read_plan ds)"
  by (auto simp: build_layer_read_plan_def is_panic_rbind collect_items_not_panic coalesce_not_panic)

subsection \<open>Properties\<close>

text \<open>
  When a layer can be read. A read plan exists exactly when every tensor has a known length, no
  file range leaves the 64-bit offsets, and, in the order of their offsets, each tensor starts at or
  after the end of the one before it; every other layer is an error, and nothing panics.
\<close>

theorem read_plan_outcome:
  "(is_ok (build_layer_read_plan ds) \<longleftrightarrow>
      (\<forall>d \<in> set ds. \<exists>len. byte_length d = Some len \<and> file_offset d + len \<le> U64_MAX)
      \<and> sorted_wrt (\<lambda>a b. fst (snd a) \<le> fst b) (file_order ds))
    \<and> \<not> is_panic (build_layer_read_plan ds)"
proof -
  have "is_ok (build_layer_read_plan ds) \<longleftrightarrow> (\<forall>d \<in> set ds. known_range d) \<and> sorted_wrt before (file_order ds)"
  proof
    assume "is_ok (build_layer_read_plan ds)"
    then obtain p where "build_layer_read_plan ds = Ok p" by (cases "build_layer_read_plan ds") simp_all
    then show "(\<forall>d \<in> set ds. known_range d) \<and> sorted_wrt before (file_order ds)" by (rule build_layer_read_plan_only)
  next
    assume "(\<forall>d \<in> set ds. known_range d) \<and> sorted_wrt before (file_order ds)"
    then obtain p where "build_layer_read_plan ds = Ok p" using build_layer_read_plan_ok by metis
    then show "is_ok (build_layer_read_plan ds)" by simp
  qed
  then show ?thesis using build_layer_read_plan_not_panic by blast
qed

definition example_tensor :: "string \<Rightarrow> u64 \<Rightarrow> u64 \<Rightarrow> tensor_descriptor" where
  "example_tensor name offset len =
     \<lparr>td_name = name, dimensions = [len], td_type = Q8_0, td_offset = offset, file_offset = offset,
      byte_length = Some len, num_elements = len\<rparr>"

lemma file_order_example:
  "file_order [example_tensor ''b'' 40 10, example_tensor ''a'' 0 30] = [(0, 30, 30, 1), (40, 50, 10, 0)]"
  by (simp add: file_order_def example_tensor_def)

theorem read_plan_outcome_witness:
  "is_ok (build_layer_read_plan [example_tensor ''b'' 40 10, example_tensor ''a'' 0 30])"
  using read_plan_outcome [of "[example_tensor ''b'' 40 10, example_tensor ''a'' 0 30]"]
  unfolding file_order_example by (simp add: example_tensor_def U64_MAX_def)

lemma holds_tensor_within:
  assumes "holds r g" and "t \<in> set (pr_tensors r)"
  shows "\<exists>it \<in> set g. pt_descriptor_index t = it_index it \<and> pr_file_offset r + pt_offset_in_range t = it_start it
    \<and> it_stop it \<le> range_end r"
proof -
  obtain i where i: "i < length (pr_tensors r)" "t = pr_tensors r ! i" using assms(2) by (auto simp: in_set_conv_nth)
  have len: "length (pr_tensors r) = length g" using assms(1) unfolding holds_def by (metis length_map)
  have "pt_descriptor_index t = it_index (g ! i)" "pr_file_offset r + pt_offset_in_range t = it_start (g ! i)"
    using assms(1) i len unfolding holds_def by (metis (no_types, lifting) nth_map)+
  moreover have "it_stop (g ! i) \<le> range_end r"
  proof (cases "i = length g - 1")
    case True
    then show ?thesis using assms(1) i len by (auto simp: holds_def last_conv_nth)
  next
    case False
    have "sorted_wrt before g" "g \<noteq> []" using assms(1) by (simp_all add: holds_def)
    moreover have "i < length g - 1" "length g - 1 < length g" using False i len by linarith+
    ultimately have "before (g ! i) (last g)"
      using sorted_wrt_nth_less [of before g i "length g - 1"] by (simp only: last_conv_nth simp_thms)
    moreover have "item_ok (last g)" "range_end r = it_stop (last g)" using assms(1) by (simp_all add: holds_def)
    ultimately show ?thesis by (simp add: item_ok_def)
  qed
  moreover have "g ! i \<in> set g" using i len by simp
  ultimately show ?thesis by blast
qed

lemma holds_indices:
  "list_all2 holds rs gs \<Longrightarrow>
     concat (map (map pt_descriptor_index \<circ> pr_tensors) rs) = map it_index (concat gs)"
  by (induction rule: list_all2_induct) (auto simp: holds_def)

lemma holds_length: "holds r g \<Longrightarrow> length (pr_tensors r) = length g"
  unfolding holds_def by (metis length_map)

text \<open>The item of a tensor, and the bounds on gap and span read off the planned tensors.\<close>

definition tensor_item :: "tensor_descriptor list \<Rightarrow> read_item \<Rightarrow> bool" where
  "tensor_item ds it \<longleftrightarrow> it_stop it = it_start it + the (byte_length (ds ! it_index it))"

lemma item_of_tensor:
  assumes "\<forall>d \<in> set ds. known_range d" and "it \<in> set (items_from 0 ds)"
  shows "tensor_item ds it"
  using items_from_nth [OF assms(2)] items_from_ok [OF assms(1)] assms(2) by (simp add: tensor_item_def item_ok_def)

lemma holds_nth:
  assumes "holds r g" and "i < length (pr_tensors r)"
  shows "pt_descriptor_index (pr_tensors r ! i) = it_index (g ! i)
    \<and> pr_file_offset r + pt_offset_in_range (pr_tensors r ! i) = it_start (g ! i)"
  using assms holds_length [OF assms(1)] unfolding holds_def by (metis (no_types, lifting) nth_map)

lemma holds_gaps:
  assumes r: "holds r g" and items: "\<forall>it \<in> set g. tensor_item ds it"
  shows "successively (\<lambda>t t'.
      pt_offset_in_range t + the (byte_length (ds ! pt_descriptor_index t)) \<le> pt_offset_in_range t'
      \<and> pt_offset_in_range t' \<le> pt_offset_in_range t + the (byte_length (ds ! pt_descriptor_index t)) + 4 * 1024)
    (pr_tensors r)"
proof (unfold successively_conv_nth, intro allI impI)
  fix i assume i: "Suc i < length (pr_tensors r)"
  note len = holds_length [OF r]
  have "successively (\<lambda>a b. it_start b \<le> it_stop a + MAX_COALESCED_GAP_BYTES) g" "sorted_wrt before g"
    using r by (simp_all add: holds_def)
  then have "it_start (g ! Suc i) \<le> it_stop (g ! i) + MAX_COALESCED_GAP_BYTES" "before (g ! i) (g ! Suc i)"
    using i len sorted_wrt_nth_less [of before g i "Suc i"] by (simp_all add: successively_conv_nth)
  moreover have "tensor_item ds (g ! i)" using items i len by simp
  ultimately show "pt_offset_in_range (pr_tensors r ! i) + the (byte_length (ds ! pt_descriptor_index (pr_tensors r ! i)))
        \<le> pt_offset_in_range (pr_tensors r ! Suc i)
      \<and> pt_offset_in_range (pr_tensors r ! Suc i) \<le> pt_offset_in_range (pr_tensors r ! i)
          + the (byte_length (ds ! pt_descriptor_index (pr_tensors r ! i))) + 4 * 1024"
    using conjunct2 [OF holds_nth [OF r i]] conjunct2 [OF holds_nth [OF r Suc_lessD [OF i]]]
    unfolding tensor_item_def MAX_COALESCED_GAP_BYTES_def conjunct1 [OF holds_nth [OF r Suc_lessD [OF i]]] by linarith
qed

lemma ranges_apart:
  assumes "list_all2 holds rs gs" and "successively apart gs" and items: "\<forall>it \<in> set (concat gs). tensor_item ds it"
  shows "successively (\<lambda>r r'. pr_file_offset r + pr_byte_length r + 4 * 1024 < pr_file_offset r'
      \<or> pr_file_offset r + 64 * 1024 * 1024
          < pr_file_offset r' + the (byte_length (ds ! pt_descriptor_index (hd (pr_tensors r'))))) rs"
proof (unfold successively_conv_nth, intro allI impI)
  fix i assume i: "Suc i < length rs"
  have r: "holds (rs ! i) (gs ! i)" "holds (rs ! Suc i) (gs ! Suc i)" "apart (gs ! i) (gs ! Suc i)"
    using assms(1,2) i by (simp_all add: list_all2_conv_all_nth successively_conv_nth)
  have g: "gs ! Suc i \<noteq> []" "gs ! Suc i \<in> set gs"
    using r(2) assms(1) i by (simp_all add: holds_def list_all2_conv_all_nth)
  then have "hd (gs ! Suc i) \<in> set (concat gs)" using hd_in_set by fastforce
  then have "tensor_item ds (hd (gs ! Suc i))" using items by blast
  moreover have "pt_descriptor_index (hd (pr_tensors (rs ! Suc i))) = it_index (hd (gs ! Suc i))"
    using holds_nth [OF r(2), of 0] holds_length [OF r(2)] g by (simp add: hd_conv_nth flip: length_greater_0_conv)
  moreover have "pr_file_offset (rs ! i) = it_start (hd (gs ! i))" "range_end (rs ! i) = it_stop (last (gs ! i))"
    "pr_file_offset (rs ! Suc i) = it_start (hd (gs ! Suc i))" using r(1,2) by (simp_all add: holds_def)
  ultimately show "pr_file_offset (rs ! i) + pr_byte_length (rs ! i) + 4 * 1024 < pr_file_offset (rs ! Suc i)
      \<or> pr_file_offset (rs ! i) + 64 * 1024 * 1024 < pr_file_offset (rs ! Suc i)
          + the (byte_length (ds ! pt_descriptor_index (hd (pr_tensors (rs ! Suc i)))))"
    using r(3) by (simp add: apart_def tensor_item_def MAX_COALESCED_GAP_BYTES_def MAX_COALESCED_SPAN_BYTES_def)
qed

lemma read_plan_facts:
  assumes "build_layer_read_plan ds = Ok p"
  shows "mset (concat (map (map pt_descriptor_index \<circ> pr_tensors) (lp_ranges p))) = mset [0..<length ds]
    \<and> (\<forall>r \<in> set (lp_ranges p). \<forall>t \<in> set (pr_tensors r). \<exists>len.
        byte_length (ds ! pt_descriptor_index t) = Some len
        \<and> pr_file_offset r + pt_offset_in_range t = file_offset (ds ! pt_descriptor_index t)
        \<and> pt_offset_in_range t + len \<le> pr_byte_length r)
    \<and> sorted_wrt (\<lambda>r r'. pr_file_offset r + pr_byte_length r \<le> pr_file_offset r') (lp_ranges p)
    \<and> (\<forall>r \<in> set (lp_ranges p). 1 < length (pr_tensors r) \<longrightarrow> pr_byte_length r \<le> 64 * 1024 * 1024)
    \<and> (\<forall>r \<in> set (lp_ranges p). successively (\<lambda>t t'.
          pt_offset_in_range t + the (byte_length (ds ! pt_descriptor_index t)) \<le> pt_offset_in_range t'
          \<and> pt_offset_in_range t' \<le> pt_offset_in_range t + the (byte_length (ds ! pt_descriptor_index t)) + 4 * 1024)
        (pr_tensors r))
    \<and> successively (\<lambda>r r'. pr_file_offset r + pr_byte_length r + 4 * 1024 < pr_file_offset r'
          \<or> pr_file_offset r + 64 * 1024 * 1024
              < pr_file_offset r' + the (byte_length (ds ! pt_descriptor_index (hd (pr_tensors r')))))
        (lp_ranges p)
    \<and> lp_logical_bytes p = sum_list (map (the \<circ> byte_length) ds)
    \<and> lp_physical_bytes p = sum_list (map pr_byte_length (lp_ranges p))
    \<and> lp_physical_bytes p = lp_logical_bytes p + lp_gap_bytes p"
proof -
  have known: "\<forall>d \<in> set ds. known_range d" and sorted: "sorted_wrt before (file_order ds)"
    using build_layer_read_plan_only [OF assms] by simp_all
  obtain rs gs where gs: "list_all2 holds rs gs" "concat gs = file_order ds" "successively apart gs"
    and p: "p = \<lparr>lp_logical_tensor_count = length ds, lp_logical_bytes = sum_list (map (the \<circ> byte_length) ds),
      lp_physical_bytes = sum_list (map pr_byte_length rs), lp_gap_bytes = sum_list (map pr_gap_bytes rs), lp_ranges = rs\<rparr>"
    using build_layer_read_plan_ok [OF known sorted] assms by (metis result.inject(1))
  have "mset (map it_index (file_order ds)) = mset [0..<length ds]"
  proof -
    have "mset (map it_index (file_order ds)) = mset (map it_index (items_from 0 ds))"
      unfolding mset_map mset_file_order ..
    then show ?thesis unfolding index_items_from add_0 .
  qed
  then have a: "mset (concat (map (map pt_descriptor_index \<circ> pr_tensors) rs)) = mset [0..<length ds]"
    by (simp add: holds_indices [OF gs(1)] gs(2))
  have b: "\<exists>len. byte_length (ds ! pt_descriptor_index t) = Some len
        \<and> pr_file_offset r + pt_offset_in_range t = file_offset (ds ! pt_descriptor_index t)
        \<and> pt_offset_in_range t + len \<le> pr_byte_length r" if r: "r \<in> set rs" and t: "t \<in> set (pr_tensors r)" for r t
  proof -
    obtain g where g: "g \<in> set gs" "holds r g" using list_all2_member [OF gs(1) r] by blast
    obtain it where it: "it \<in> set g" "pt_descriptor_index t = it_index it"
      "pr_file_offset r + pt_offset_in_range t = it_start it" "it_stop it \<le> range_end r"
      using holds_tensor_within [OF g(2) t] by blast
    have "it \<in> set (items_from 0 ds)" using it(1) g(1) gs(2) set_file_order [of ds] by (metis UN_I set_concat)
    note nth = items_from_nth [OF this]
    have "item_ok it" using g(2) it(1) by (simp add: holds_def)
    moreover have "ds ! it_index it \<in> set ds" using nth by simp
    then obtain len where "byte_length (ds ! it_index it) = Some len" using known by blast
    ultimately show ?thesis using nth it by (simp add: item_ok_def)
  qed
  have c: "\<forall>r \<in> set rs. 1 < length (pr_tensors r) \<longrightarrow> pr_byte_length r \<le> 64 * 1024 * 1024"
  proof (intro ballI impI)
    fix r assume r: "r \<in> set rs" "1 < length (pr_tensors r)"
    obtain g where g: "holds r g" using list_all2_member [OF gs(1) r(1)] by blast
    then have "1 < length g \<longrightarrow> pr_byte_length r \<le> MAX_COALESCED_SPAN_BYTES" unfolding holds_def by blast
    then show "pr_byte_length r \<le> 64 * 1024 * 1024"
      using holds_length [OF g] r(2) by (simp add: MAX_COALESCED_SPAN_BYTES_def)
  qed
  have "sum_list (map pr_byte_length rs) =
      sum_list (map (the \<circ> byte_length) ds) + sum_list (map pr_gap_bytes rs)"
    using holds_sums [OF gs(1)] unfolding gs(2) file_order_lengths .
  moreover have "successively (\<lambda>t t'.
          pt_offset_in_range t + the (byte_length (ds ! pt_descriptor_index t)) \<le> pt_offset_in_range t'
          \<and> pt_offset_in_range t' \<le> pt_offset_in_range t + the (byte_length (ds ! pt_descriptor_index t)) + 4 * 1024)
        (pr_tensors r)" if r: "r \<in> set rs" for r
  proof -
    obtain g where g: "g \<in> set gs" "holds r g" using list_all2_member [OF gs(1) r] by blast
    have "set g \<subseteq> set (items_from 0 ds)" using g(1) by (auto simp flip: set_file_order gs(2))
    then have "\<forall>it \<in> set g. tensor_item ds it" using known item_of_tensor by blast
    then show ?thesis using holds_gaps [OF g(2)] by blast
  qed
  moreover have "successively (\<lambda>r r'. pr_file_offset r + pr_byte_length r + 4 * 1024 < pr_file_offset r'
          \<or> pr_file_offset r + 64 * 1024 * 1024
              < pr_file_offset r' + the (byte_length (ds ! pt_descriptor_index (hd (pr_tensors r'))))) rs"
  proof -
    have "\<forall>it \<in> set (concat gs). tensor_item ds it" unfolding gs(2) using known item_of_tensor by simp
    then show ?thesis using ranges_apart [OF gs(1,3)] by blast
  qed
  ultimately show ?thesis using a b c ranges_ordered [OF gs(1)] sorted gs(2) p by simp
qed

text \<open>
  C30: what a read plan reads. Every tensor of the layer lies in exactly one range, at the offset that
  the plan says and inside the range; the ranges follow each other without overlap; a range with more
  than one tensor spans at most 64 MiB; in a range each tensor starts at or after the end of the one
  before it and at most 4 KiB after it; two neighbouring ranges are separate for a reason: the second
  starts more than 4 KiB after the end of the first, or the span up to the end of its first tensor
  would exceed 64 MiB; and the bytes read are the bytes of the tensors plus the gaps.
\<close>

theorem read_plan_complete:
  assumes "build_layer_read_plan ds = Ok p"
  shows "mset (concat (map (map pt_descriptor_index \<circ> pr_tensors) (lp_ranges p))) = mset [0..<length ds]
    \<and> (\<forall>r \<in> set (lp_ranges p). \<forall>t \<in> set (pr_tensors r). \<exists>len.
        byte_length (ds ! pt_descriptor_index t) = Some len
        \<and> pr_file_offset r + pt_offset_in_range t = file_offset (ds ! pt_descriptor_index t)
        \<and> pt_offset_in_range t + len \<le> pr_byte_length r)
    \<and> sorted_wrt (\<lambda>r r'. pr_file_offset r + pr_byte_length r \<le> pr_file_offset r') (lp_ranges p)
    \<and> (\<forall>r \<in> set (lp_ranges p). 1 < length (pr_tensors r) \<longrightarrow> pr_byte_length r \<le> 64 * 1024 * 1024)
    \<and> (\<forall>r \<in> set (lp_ranges p). successively (\<lambda>t t'.
          pt_offset_in_range t + the (byte_length (ds ! pt_descriptor_index t)) \<le> pt_offset_in_range t'
          \<and> pt_offset_in_range t' \<le> pt_offset_in_range t + the (byte_length (ds ! pt_descriptor_index t)) + 4 * 1024)
        (pr_tensors r))
    \<and> successively (\<lambda>r r'. pr_file_offset r + pr_byte_length r + 4 * 1024 < pr_file_offset r'
          \<or> pr_file_offset r + 64 * 1024 * 1024
              < pr_file_offset r' + the (byte_length (ds ! pt_descriptor_index (hd (pr_tensors r')))))
        (lp_ranges p)
    \<and> lp_logical_bytes p = sum_list (map (the \<circ> byte_length) ds)
    \<and> lp_physical_bytes p = sum_list (map pr_byte_length (lp_ranges p))
    \<and> lp_physical_bytes p = lp_logical_bytes p + lp_gap_bytes p"
  using assms by (rule read_plan_facts)

theorem read_plan_complete_witness:
  "\<exists>p. build_layer_read_plan [example_tensor ''b'' 40 10, example_tensor ''a'' 0 30] = Ok p
    \<and> lp_physical_bytes p = 40 + lp_gap_bytes p"
proof -
  let ?ds = "[example_tensor ''b'' 40 10, example_tensor ''a'' 0 30]"
  have "\<forall>d \<in> set ?ds. known_range d" "sorted_wrt before (file_order ?ds)"
    unfolding file_order_example by (simp_all add: example_tensor_def U64_MAX_def)
  then obtain p where p: "build_layer_read_plan ?ds = Ok p" using build_layer_read_plan_ok by metis
  from read_plan_complete [OF p] p show ?thesis by (auto simp: example_tensor_def)
qed

end
