(* ===== verification/Model_Support.thy ===== *)
theory Model_Support
  imports Gguf_Model
begin

section \<open>Which models the runtime executes\<close>

text \<open>
  \<open>crates/ramforge-runtime/src/support.rs\<close>: the registry of architectures and tensor formats, and the
  preflight of the legacy executor; \<open>TensorData::resident_bytes_for\<close> of
  \<open>crates/ramforge-core/src/tensor.rs\<close>. An error text is a constructor that carries what the text names.
\<close>

datatype run_support = Supported | NotYet

fun run_support_label :: "run_support \<Rightarrow> string" where
  "run_support_label Supported = ''yes''"
| "run_support_label NotYet = ''not-yet''"

record architecture_capability =
  ac_name :: string
  ac_aliases :: "string list"
  ac_inspect :: bool
  ac_plan :: bool
  ac_tokenizer :: string
  ac_legacy_run :: run_support
  ac_forgecore_run :: run_support
  ac_notes :: string

definition ARCHITECTURES :: "architecture_capability list" where
  "ARCHITECTURES =
    [\<lparr>ac_name = ''llama'', ac_aliases = [], ac_inspect = True, ac_plan = True, ac_tokenizer = ''sentencepiece/bpe'',
      ac_legacy_run = Supported, ac_forgecore_run = Supported,
      ac_notes = ''dense llama-compatible transformer; validated on both backends''\<rparr>,
     \<lparr>ac_name = ''qwen2'', ac_aliases = [''qwen2.5''], ac_inspect = True, ac_plan = True, ac_tokenizer = ''bpe'',
      ac_legacy_run = Supported, ac_forgecore_run = Supported,
      ac_notes = ''dense qwen2 transformer (including qwen2.5), including validated Q/K/V biases''\<rparr>,
     \<lparr>ac_name = ''gptneox'', ac_aliases = [''gpt_neox''], ac_inspect = True, ac_plan = True, ac_tokenizer = ''bpe'',
      ac_legacy_run = NotYet, ac_forgecore_run = Supported,
      ac_notes = ''GPT-NeoX/Pythia parallel-residual transformer; executed through forgeCORE/libllama (use --backend forgecore)''\<rparr>,
     \<lparr>ac_name = ''mistral'', ac_aliases = [], ac_inspect = True, ac_plan = True, ac_tokenizer = ''sentencepiece'',
      ac_legacy_run = NotYet, ac_forgecore_run = NotYet,
      ac_notes = ''Mistral GGUFs normally declare general.architecture=llama; a literal 'mistral' tag has no validated execution path''\<rparr>,
     \<lparr>ac_name = ''qwen3'', ac_aliases = [], ac_inspect = True, ac_plan = True, ac_tokenizer = ''inspect-only'',
      ac_legacy_run = NotYet, ac_forgecore_run = NotYet,
      ac_notes = ''inspect/plan only; forgeCORE/libllama execution has not been validated''\<rparr>,
     \<lparr>ac_name = ''qwen35'', ac_aliases = [''qwen3.5'', ''qwen3_5''], ac_inspect = True, ac_plan = True,
      ac_tokenizer = ''inspect-only'', ac_legacy_run = NotYet, ac_forgecore_run = NotYet,
      ac_notes = ''hybrid attention/SSM architecture; intentionally not aliased to qwen2''\<rparr>,
     \<lparr>ac_name = ''gemma'', ac_aliases = [''gemma2'', ''gemma3''], ac_inspect = True, ac_plan = True,
      ac_tokenizer = ''inspect-only'', ac_legacy_run = NotYet, ac_forgecore_run = NotYet,
      ac_notes = ''inspect/plan only; forgeCORE/libllama execution has not been validated''\<rparr>,
     \<lparr>ac_name = ''phi'', ac_aliases = [''phi2'', ''phi3'', ''phi4''], ac_inspect = True, ac_plan = True,
      ac_tokenizer = ''inspect-only'', ac_legacy_run = NotYet, ac_forgecore_run = NotYet,
      ac_notes = ''inspect/plan only; forgeCORE/libllama execution has not been validated''\<rparr>]"

record quantization_capability =
  qc_name :: string
  qc_inference :: bool

definition QUANTIZATIONS :: "quantization_capability list" where
  "QUANTIZATIONS =
     map (\<lambda>name. \<lparr>qc_name = name, qc_inference = True\<rparr>)
       [''F32'', ''F16'', ''BF16'', ''Q4_0'', ''Q5_0'', ''Q8_0'', ''Q2_K'', ''Q3_K'', ''Q4_K'', ''Q5_K'', ''Q6_K'', ''Q8_K'']
     @ [\<lparr>qc_name = ''other GGUF types'', qc_inference = False\<rparr>]"

definition to_ascii_lowercase :: "string \<Rightarrow> string" where
  "to_ascii_lowercase s =
     map (\<lambda>c. if 65 \<le> (of_char c :: nat) \<and> (of_char c :: nat) \<le> 90 then char_of ((of_char c :: nat) + 32) else c) s"

definition architecture_capability :: "string \<Rightarrow> architecture_capability option" where
  "architecture_capability name =
     (let normalized = to_ascii_lowercase name in
      find (\<lambda>c. ac_name c = normalized \<or> normalized \<in> set (ac_aliases c)) ARCHITECTURES)"

definition execution_architectures :: "string list" where
  "execution_architectures = map ac_name (filter (\<lambda>c. ac_legacy_run c = Supported) ARCHITECTURES)"

definition forgecore_execution_architectures :: "string list" where
  "forgecore_execution_architectures = map ac_name (filter (\<lambda>c. ac_forgecore_run c = Supported) ARCHITECTURES)"

datatype support_error =
    UnknownArchitecture string
  | ForgecoreOnly string architecture_capability
  | UnsupportedArchitecture string architecture_capability
  | UnsupportedTensorTypes "string list"

definition ensure_execution_supported :: "string \<Rightarrow> (unit, support_error) result" where
  "ensure_execution_supported arch =
     (case architecture_capability arch of
        None \<Rightarrow> Err (UnknownArchitecture arch)
      | Some c \<Rightarrow>
          if ac_legacy_run c = Supported then Ok ()
          else if ac_forgecore_run c = Supported then Err (ForgecoreOnly arch c)
          else Err (UnsupportedArchitecture arch c))"

definition ggml_type_supported_for_inference :: "ggml_type \<Rightarrow> bool" where
  "ggml_type_supported_for_inference t \<longleftrightarrow>
     t \<in> set [F32, F16, BF16, Q4_0, Q5_0, Q8_0, Q2_K, Q3_K, Q4_K, Q5_K, Q6_K, Q8_K]"

definition supported_inference_format_names :: "string list" where
  "supported_inference_format_names = map qc_name (filter qc_inference QUANTIZATIONS)"

definition unsupported_inference_tensor_formats :: "gguf_model \<Rightarrow> string list" where
  "unsupported_inference_tensor_formats m =
     foldl (\<lambda>unsupported t.
         if \<not> ggml_type_supported_for_inference (td_type t) \<and> ggml_name (td_type t) \<notin> set unsupported
         then unsupported @ [ggml_name (td_type t)] else unsupported)
       [] (tensors m)"

record model_execution_support =
  ms_architecture :: "string option"
  ms_legacy_run :: run_support
  ms_forgecore_run :: run_support
  ms_unsupported_tensor_formats :: "string list"

definition is_legacy_supported :: "model_execution_support \<Rightarrow> bool" where
  "is_legacy_supported s \<longleftrightarrow> ms_legacy_run s = Supported \<and> ms_unsupported_tensor_formats s = []"

definition is_forgecore_supported :: "model_execution_support \<Rightarrow> bool" where
  "is_forgecore_supported s \<longleftrightarrow> ms_forgecore_run s = Supported"

definition support_label :: "model_execution_support \<Rightarrow> string" where
  "support_label s = (if is_legacy_supported s then ''yes'' else ''no'')"

definition model_execution_support :: "(metadata_value \<Rightarrow> string) \<Rightarrow> gguf_model \<Rightarrow> model_execution_support" where
  "model_execution_support show_value m =
     (let arch = architecture (info show_value m); capability = Option.bind arch architecture_capability in
      \<lparr>ms_architecture = arch,
       ms_legacy_run = (case capability of Some c \<Rightarrow> ac_legacy_run c | None \<Rightarrow> NotYet),
       ms_forgecore_run = (case capability of Some c \<Rightarrow> ac_forgecore_run c | None \<Rightarrow> NotYet),
       ms_unsupported_tensor_formats = unsupported_inference_tensor_formats m\<rparr>)"

definition ensure_model_execution_supported :: "(metadata_value \<Rightarrow> string) \<Rightarrow> gguf_model \<Rightarrow> (unit, support_error) result" where
  "ensure_model_execution_supported show_value m =
     rbind (ensure_execution_supported
         (case architecture (info show_value m) of Some a \<Rightarrow> a | None \<Rightarrow> ''unknown'')) (\<lambda>_.
       if unsupported_inference_tensor_formats m \<noteq> []
       then Err (UnsupportedTensorTypes (unsupported_inference_tensor_formats m)) else Ok ())"

subsection \<open>Resident size of a tensor\<close>

datatype resident_error = ResidentOverflow string u64 | UnsupportedForInference string

definition resident_bytes_for :: "ggml_type \<Rightarrow> u64 \<Rightarrow> u64 \<Rightarrow> (u64, resident_error) result" where
  "resident_bytes_for t elements file_bytes =
     (if t \<in> set [F32, F16, BF16] then ok_or (ResidentOverflow (ggml_name t) elements) (checked_mul elements 4)
      else if t \<in> set [Q4_0, Q5_0, Q8_0, Q4_K, Q5_K, Q6_K, Q2_K, Q3_K, Q8_K] then Ok file_bytes
      else Err (UnsupportedForInference (ggml_name t)))"

subsection \<open>Properties\<close>

lemma unsupported_formats_fold:
  "set (foldl (\<lambda>unsupported t.
         if \<not> ggml_type_supported_for_inference (td_type t) \<and> ggml_name (td_type t) \<notin> set unsupported
         then unsupported @ [ggml_name (td_type t)] else unsupported) acc ts) =
     set acc \<union> {ggml_name (td_type t) |t. t \<in> set ts \<and> \<not> ggml_type_supported_for_inference (td_type t)}"
  by (induction ts arbitrary: acc) auto

lemma unsupported_formats_Nil:
  "unsupported_inference_tensor_formats m = [] \<longleftrightarrow> (\<forall>t \<in> set (tensors m). ggml_type_supported_for_inference (td_type t))"
proof -
  have "set (unsupported_inference_tensor_formats m) =
      {ggml_name (td_type t) |t. t \<in> set (tensors m) \<and> \<not> ggml_type_supported_for_inference (td_type t)}"
    unfolding unsupported_inference_tensor_formats_def unsupported_formats_fold by simp
  then show ?thesis unfolding set_empty [symmetric] by auto
qed

lemma supported_iff_name:
  "ggml_type_supported_for_inference ty \<longleftrightarrow> ggml_name ty \<in> set supported_inference_format_names"
  by (cases ty) (simp_all add: ggml_type_supported_for_inference_def supported_inference_format_names_def QUANTIZATIONS_def)

lemma unknown_architecture: "architecture_capability ''unknown'' = None"
  by (simp add: architecture_capability_def to_ascii_lowercase_def ARCHITECTURES_def)

text \<open>
  The preflight and the report agree, and the table of formats is the table of types: a model passes
  the preflight of the legacy executor exactly when its report says so, which is when its architecture
  runs on that executor and every tensor has a format whose name the table of formats lists; and for
  exactly these formats a tensor has a resident size.
\<close>

theorem support_agreement:
  "(ensure_model_execution_supported show_value m = Ok () \<longleftrightarrow>
      is_legacy_supported (model_execution_support show_value m))
   \<and> (is_legacy_supported (model_execution_support show_value m) \<longleftrightarrow>
      (\<exists>a c. architecture (info show_value m) = Some a \<and> architecture_capability a = Some c \<and> ac_legacy_run c = Supported)
      \<and> (\<forall>t \<in> set (tensors m). ggml_type_supported_for_inference (td_type t)))
   \<and> (ggml_type_supported_for_inference ty \<longleftrightarrow> ggml_name ty \<in> set supported_inference_format_names)
   \<and> (ggml_type_supported_for_inference ty \<longleftrightarrow> resident_bytes_for ty 0 0 \<noteq> Err (UnsupportedForInference (ggml_name ty)))"
proof -
  have cap: "architecture_capability (case architecture (info show_value m) of Some a \<Rightarrow> a | None \<Rightarrow> ''unknown'') =
      Option.bind (architecture (info show_value m)) architecture_capability"
    by (cases "architecture (info show_value m)") (simp_all add: unknown_architecture)
  have "is_legacy_supported (model_execution_support show_value m) \<longleftrightarrow>
      (\<exists>c. Option.bind (architecture (info show_value m)) architecture_capability = Some c \<and> ac_legacy_run c = Supported)
      \<and> unsupported_inference_tensor_formats m = []"
    by (auto simp: is_legacy_supported_def model_execution_support_def Let_def split: option.splits)
  moreover have "ensure_model_execution_supported show_value m = Ok () \<longleftrightarrow>
      (\<exists>c. Option.bind (architecture (info show_value m)) architecture_capability = Some c \<and> ac_legacy_run c = Supported)
      \<and> unsupported_inference_tensor_formats m = []"
    by (auto simp: ensure_model_execution_supported_def ensure_execution_supported_def cap rbind_eq_Ok split: option.splits)
  moreover have "ggml_type_supported_for_inference ty \<longleftrightarrow> ggml_name ty \<in> set supported_inference_format_names"
    by (rule supported_iff_name)
  moreover have "ggml_type_supported_for_inference ty \<longleftrightarrow> resident_bytes_for ty 0 0 \<noteq> Err (UnsupportedForInference (ggml_name ty))"
    by (cases ty) (simp_all add: ggml_type_supported_for_inference_def resident_bytes_for_def checked_exact(3))
  ultimately show ?thesis by (auto simp: unsupported_formats_Nil bind_eq_Some_conv)
qed

theorem support_agreement_witness: "ggml_name Q4_K \<in> set supported_inference_format_names"
  using support_agreement [of undefined undefined Q4_K] by (simp add: ggml_type_supported_for_inference_def)

end
