(* ===== verification/Layer_Memory.thy ===== *)
theory Layer_Memory
  imports Layer_Reads Model_Support Gguf_Parse
begin

section \<open>Memory charges of a layer\<close>

text \<open>
  \<open>crates/ramforge-runtime/src/accounting.rs\<close>: the peak and the settled bytes of loading a layer
  tensor by tensor, and of loading it by the ranges of its read plan. Planning and execution share
  these formulas. An error text is a constructor; the index of a planned tensor out of range is the
  panic of the indexing.
\<close>

record layer_memory_estimate =
  lm_resident_bytes :: u64
  lm_load_peak_bytes :: u64

datatype memory_estimate_error =
    ChargeOverflow u64 nat string
  | EstimateLengthUnknown string
  | LoadPeakOverflow string
  | ResidentFailure string resident_error
  | ResidentSumOverflow string
  | GroupResidentOverflow
  | GroupPeakOverflow
  | GroupSettledOverflow

definition tensor_load_charge_bytes :: "ggml_type \<Rightarrow> u64 \<Rightarrow> (u64, memory_estimate_error) result" where
  "tensor_load_charge_bytes t file_bytes =
     (let factor = (if t = F16 \<or> t = BF16 then 3 else 1) in
      ok_or (ChargeOverflow file_bytes factor (ggml_name t)) (checked_mul file_bytes factor))"

definition resident_of :: "tensor_descriptor \<Rightarrow> u64 \<Rightarrow> (u64, memory_estimate_error) result" where
  "resident_of d file_bytes =
     map_err (ResidentFailure (td_name d)) (resident_bytes_for (td_type d) (num_elements d) file_bytes)"

text \<open>One tensor loaded on its own, after \<open>settled\<close> bytes: the new settled bytes and the new peak.\<close>

definition load_tensor :: "tensor_descriptor \<Rightarrow> u64 \<times> u64 \<Rightarrow> (u64 \<times> u64, memory_estimate_error) result" where
  "load_tensor d = (\<lambda>(settled, load_peak).
     rbind (ok_or (EstimateLengthUnknown (td_name d)) (byte_length d)) (\<lambda>file_bytes.
       rbind (tensor_load_charge_bytes (td_type d) file_bytes) (\<lambda>charge.
         rbind (ok_or (LoadPeakOverflow (td_name d)) (checked_add settled (max charge 1))) (\<lambda>peak.
           rbind (resident_of d file_bytes) (\<lambda>resident.
             rbind (ok_or (ResidentSumOverflow (td_name d)) (checked_add settled (max resident 1))) (\<lambda>settled'.
               Ok (settled', max load_peak peak)))))))"

fun load_tensors :: "tensor_descriptor list \<Rightarrow> u64 \<times> u64 \<Rightarrow> (u64 \<times> u64, memory_estimate_error) result" where
  "load_tensors [] st = Ok st"
| "load_tensors (d # ds) st = rbind (load_tensor d st) (load_tensors ds)"

definition estimate_layer_memory :: "tensor_descriptor list \<Rightarrow> (layer_memory_estimate, memory_estimate_error) result" where
  "estimate_layer_memory ds =
     rbind (load_tensors ds (0, 0)) (\<lambda>(settled, peak).
       Ok \<lparr>lm_resident_bytes = settled, lm_load_peak_bytes = peak\<rparr>)"

definition descriptor_at :: "tensor_descriptor list \<Rightarrow> usize \<Rightarrow> (tensor_descriptor, memory_estimate_error) result" where
  "descriptor_at ds i = (if i < length ds then Ok (ds ! i) else Panic ''index out of bounds'')"

fun group_resident :: "tensor_descriptor list \<Rightarrow> planned_tensor list \<Rightarrow> u64 \<Rightarrow> (u64, memory_estimate_error) result" where
  "group_resident ds [] tot = Ok tot"
| "group_resident ds (t # ts) tot =
     rbind (descriptor_at ds (pt_descriptor_index t)) (\<lambda>d.
       rbind (ok_or (EstimateLengthUnknown (td_name d)) (byte_length d)) (\<lambda>file_bytes.
         rbind (resident_of d file_bytes) (\<lambda>resident.
           rbind (ok_or GroupResidentOverflow (checked_add tot (max resident 1))) (\<lambda>tot'.
             group_resident ds ts tot'))))"

definition load_range :: "tensor_descriptor list \<Rightarrow> planned_read_range \<Rightarrow> u64 \<times> u64 \<Rightarrow>
  (u64 \<times> u64, memory_estimate_error) result"
where
  "load_range ds r = (\<lambda>(settled, load_peak).
     case pr_tensors r of
       [t] \<Rightarrow> rbind (descriptor_at ds (pt_descriptor_index t)) (\<lambda>d. load_tensor d (settled, load_peak))
     | ts \<Rightarrow>
         rbind (group_resident ds ts 0) (\<lambda>range_resident.
           rbind (ok_or GroupPeakOverflow
               (Option.bind (checked_add settled (pr_byte_length r)) (\<lambda>v. checked_add v range_resident))) (\<lambda>peak.
             rbind (ok_or GroupSettledOverflow (checked_add settled range_resident)) (\<lambda>settled'.
               Ok (settled', max load_peak peak)))))"

fun load_ranges :: "tensor_descriptor list \<Rightarrow> planned_read_range list \<Rightarrow> u64 \<times> u64 \<Rightarrow>
  (u64 \<times> u64, memory_estimate_error) result"
where
  "load_ranges ds [] st = Ok st"
| "load_ranges ds (r # rs) st = rbind (load_range ds r st) (load_ranges ds rs)"

definition estimate_grouped_layer_memory :: "tensor_descriptor list \<Rightarrow> layer_read_plan \<Rightarrow>
  (layer_memory_estimate, memory_estimate_error) result"
where
  "estimate_grouped_layer_memory ds p =
     rbind (load_ranges ds (lp_ranges p) (0, 0)) (\<lambda>(settled, peak).
       Ok \<lparr>lm_resident_bytes = settled, lm_load_peak_bytes = peak\<rparr>)"

subsection \<open>Settled bytes\<close>

definition settled_bytes :: "tensor_descriptor \<Rightarrow> nat" where
  "settled_bytes d = (case resident_of d (the (byte_length d)) of Ok b \<Rightarrow> max b 1 | _ \<Rightarrow> 0)"

lemma resident_of_not_panic [simp]: "\<not> is_panic (resident_of d b)"
  by (simp add: resident_of_def resident_bytes_for_def)

lemma load_tensor_ok:
  "load_tensor d (settled, peak) = Ok st \<Longrightarrow> fst st = settled + settled_bytes d \<and> peak \<le> snd st
     \<and> (\<exists>len. byte_length d = Some len)"
  by (auto simp: load_tensor_def rbind_eq_Ok settled_bytes_def)

lemma load_tensors_ok:
  "load_tensors ds st = Ok st' \<Longrightarrow> fst st' = fst st + sum_list (map settled_bytes ds) \<and> snd st \<le> snd st'"
proof (induction ds arbitrary: st)
  case (Cons d ds)
  then obtain st1 where st1: "load_tensor d st = Ok st1" "load_tensors ds st1 = Ok st'" by (auto simp: rbind_eq_Ok)
  have "fst st1 = fst st + settled_bytes d" "snd st \<le> snd st1"
    using load_tensor_ok [of d "fst st" "snd st" st1] st1(1) by simp_all
  with Cons.IH [OF st1(2)] show ?case by simp
qed simp

lemma group_resident_ok:
  "group_resident ds ts tot = Ok r \<Longrightarrow> r = tot + sum_list (map (\<lambda>t. settled_bytes (ds ! pt_descriptor_index t)) ts)"
proof (induction ts arbitrary: tot)
  case (Cons t ts)
  then obtain d len resident where *: "descriptor_at ds (pt_descriptor_index t) = Ok d" "byte_length d = Some len"
    "resident_of d len = Ok resident" "group_resident ds ts (tot + max resident 1) = Ok r"
    by (auto simp: rbind_eq_Ok)
  have "d = ds ! pt_descriptor_index t" using *(1) by (simp add: descriptor_at_def split: if_splits)
  with Cons.IH [OF *(4)] * show ?case by (simp add: settled_bytes_def)
qed simp

lemma load_range_ok:
  assumes "load_range ds r st = Ok st'"
  shows "fst st' = fst st + sum_list (map (\<lambda>t. settled_bytes (ds ! pt_descriptor_index t)) (pr_tensors r))"
proof -
  obtain settled peak where st: "st = (settled, peak)" by (cases st)
  show ?thesis
  proof (cases "\<exists>t. pr_tensors r = [t]")
    case True
    then obtain t where t: "pr_tensors r = [t]" by blast
    then obtain d where "descriptor_at ds (pt_descriptor_index t) = Ok d" "load_tensor d st = Ok st'"
      using assms by (auto simp: load_range_def st rbind_eq_Ok)
    then show ?thesis using load_tensor_ok [of d settled peak st'] t st
      by (simp add: descriptor_at_def split: if_splits)
  next
    case False
    have "rbind (group_resident ds (pr_tensors r) 0) (\<lambda>range_resident.
           rbind (ok_or GroupPeakOverflow
               (Option.bind (checked_add settled (pr_byte_length r)) (\<lambda>v. checked_add v range_resident))) (\<lambda>new_peak.
             rbind (ok_or GroupSettledOverflow (checked_add settled range_resident)) (\<lambda>settled'.
               Ok (settled', max peak new_peak)))) = Ok st'"
      using False assms by (simp add: load_range_def st split: list.splits)
    then obtain rr where "group_resident ds (pr_tensors r) 0 = Ok rr" "fst st' = settled + rr"
      by (auto simp: rbind_eq_Ok)
    then show ?thesis using group_resident_ok [of ds "pr_tensors r" 0 rr] st by simp
  qed
qed

lemma load_ranges_ok:
  "load_ranges ds rs st = Ok st' \<Longrightarrow>
     fst st' = fst st + sum_list (map (\<lambda>t. settled_bytes (ds ! pt_descriptor_index t)) (concat (map pr_tensors rs)))"
proof (induction rs arbitrary: st)
  case (Cons r rs)
  then obtain st1 where "load_range ds r st = Ok st1" "load_ranges ds rs st1 = Ok st'" by (auto simp: rbind_eq_Ok)
  then show ?case using load_range_ok [of ds r st st1] Cons.IH [of st1] by simp
qed simp

text \<open>The charge of loading one tensor on its own.\<close>

definition load_charge :: "tensor_descriptor \<Rightarrow> nat" where
  "load_charge d = max (the (byte_length d) * (if td_type d = F16 \<or> td_type d = BF16 then 3 else 1)) 1"

lemma load_tensor_peak:
  "load_tensor d (settled, peak) = Ok st \<Longrightarrow> snd st = max peak (settled + load_charge d)"
  by (auto simp: load_tensor_def rbind_eq_Ok tensor_load_charge_bytes_def load_charge_def Let_def)

lemma load_tensors_peak:
  "load_tensors ds st = Ok st' \<Longrightarrow> snd st' = Max (insert (snd st)
     ((\<lambda>i. fst st + sum_list (map settled_bytes (take i ds)) + load_charge (ds ! i)) ` {..<length ds}))"
proof (induction ds arbitrary: st)
  case (Cons d ds)
  then obtain st1 where st1: "load_tensor d st = Ok st1" "load_tensors ds st1 = Ok st'" by (auto simp: rbind_eq_Ok)
  have s1: "fst st1 = fst st + settled_bytes d" "snd st1 = max (snd st) (fst st + load_charge d)"
    using load_tensor_ok [of d "fst st" "snd st" st1] load_tensor_peak [of d "fst st" "snd st" st1] st1(1) by simp_all
  let ?f = "\<lambda>i. fst st + sum_list (map settled_bytes (take i (d # ds))) + load_charge ((d # ds) ! i)"
  let ?g = "\<lambda>i. fst st1 + sum_list (map settled_bytes (take i ds)) + load_charge (ds ! i)"
  have "{..<length (d # ds)} = insert 0 (Suc ` {..<length ds})" by (auto simp: image_iff less_Suc_eq_0_disj)
  moreover have "?f 0 = fst st + load_charge d" by simp
  moreover have "?f (Suc i) = ?g i" for i by (simp add: s1(1))
  ultimately have img: "?f ` {..<length (d # ds)} = insert (fst st + load_charge d) (?g ` {..<length ds})"
    by (simp only: image_insert image_image)
  have "snd st' = Max (insert (snd st1) (?g ` {..<length ds}))" by (rule Cons.IH [OF st1(2)])
  also have "\<dots> = Max (insert (snd st) (insert (fst st + load_charge d) (?g ` {..<length ds})))"
    by (cases "?g ` {..<length ds} = {}") (simp_all add: s1(2) max.assoc)
  finally show ?case by (simp only: img)
qed simp

lemma mset_sum_nth:
  fixes f :: "'a \<Rightarrow> nat"
  assumes "mset is = mset [0..<length xs]"
  shows "sum_list (map (\<lambda>i. f (xs ! i)) is) = sum_list (map f xs)"
proof -
  have "mset (map (\<lambda>i. f (xs ! i)) is) = mset (map (\<lambda>i. f (xs ! i)) [0..<length xs])"
    unfolding mset_map assms ..
  moreover have "map (\<lambda>i. f (xs ! i)) [0..<length xs] = map f xs" by (intro nth_equalityI) simp_all
  ultimately have "sum_mset (mset (map (\<lambda>i. f (xs ! i)) is)) = sum_mset (mset (map f xs))" by simp
  then show ?thesis unfolding sum_mset_sum_list .
qed

lemma grouped_settled:
  assumes "build_layer_read_plan ds = Ok p"
  shows "sum_list (map (\<lambda>t. settled_bytes (ds ! pt_descriptor_index t)) (concat (map pr_tensors (lp_ranges p)))) =
    sum_list (map settled_bytes ds)"
proof -
  have "mset (concat (map (map pt_descriptor_index \<circ> pr_tensors) (lp_ranges p))) = mset [0..<length ds]"
    using read_plan_facts [OF assms] by blast
  then have "mset (map pt_descriptor_index (concat (map pr_tensors (lp_ranges p)))) = mset [0..<length ds]"
    by (simp only: map_concat map_map)
  from mset_sum_nth [OF this, of settled_bytes] show ?thesis by (simp add: comp_def)
qed

lemma settled_le_charge:
  assumes "byte_length d = tensor_byte_length (td_type d) (num_elements d)"
    and "byte_length d = Some len"
  shows "settled_bytes d \<le> load_charge d"
proof (cases "td_type d \<in> set [F32, F16, BF16]")
  case True
  then have "len = num_elements d * (if td_type d = F32 then 4 else 2)"
    using assms by (auto simp: tensor_byte_length_def div_ceil_def checked_mul_def split: if_splits)
  then show ?thesis
    using True assms(2) by (auto simp: settled_bytes_def load_charge_def resident_of_def resident_bytes_for_def
        checked_mul_def split: if_splits)
next
  case False
  then show ?thesis
    using assms(2) by (auto simp: settled_bytes_def load_charge_def resident_of_def resident_bytes_for_def)
qed

lemma load_tensors_room:
  "load_tensors ds st = Ok st' \<Longrightarrow> \<forall>d \<in> set ds. byte_length d = tensor_byte_length (td_type d) (num_elements d) \<Longrightarrow>
     fst st \<le> snd st \<Longrightarrow> fst st' \<le> snd st'"
proof (induction ds arbitrary: st)
  case (Cons d ds)
  then obtain st1 where st1: "load_tensor d st = Ok st1" "load_tensors ds st1 = Ok st'" by (auto simp: rbind_eq_Ok)
  note one = load_tensor_ok [of d "fst st" "snd st" st1, simplified, OF st1(1)]
  obtain len where "byte_length d = Some len" using one by blast
  then have "settled_bytes d \<le> load_charge d" using Cons.prems(2) by (intro settled_le_charge) auto
  then have "fst st1 \<le> snd st1"
    using one load_tensor_peak [of d "fst st" "snd st" st1, simplified, OF st1(1)] by simp
  then show ?case using Cons.IH [OF st1(2)] Cons.prems(2) by simp
qed simp

subsection \<open>Properties\<close>

text \<open>
  The memory charges of a layer. Loaded tensor by tensor, a layer settles at the sum of the
  resident sizes of its tensors, and the peak is the largest, over its tensors, of the bytes settled
  before it plus its own load charge; loaded by the ranges of its read plan it settles at the same
  bytes. When the byte lengths are those that the parser computes, the peak is at least the settled
  size, so that room for the peak is room for the layer.
\<close>

theorem layer_memory_charges:
  assumes "estimate_layer_memory ds = Ok e"
  shows "lm_resident_bytes e = sum_list (map settled_bytes ds)
    \<and> lm_load_peak_bytes e = Max (insert 0
        ((\<lambda>i. sum_list (map settled_bytes (take i ds)) + load_charge (ds ! i)) ` {..<length ds}))
    \<and> (\<forall>p e'. build_layer_read_plan ds = Ok p \<and> estimate_grouped_layer_memory ds p = Ok e' \<longrightarrow>
        lm_resident_bytes e' = lm_resident_bytes e)
    \<and> ((\<forall>d \<in> set ds. byte_length d = tensor_byte_length (td_type d) (num_elements d)) \<longrightarrow>
        lm_resident_bytes e \<le> lm_load_peak_bytes e)"
proof -
  obtain st where st: "load_tensors ds (0, 0) = Ok st" "e = \<lparr>lm_resident_bytes = fst st, lm_load_peak_bytes = snd st\<rparr>"
    using assms by (auto simp: estimate_layer_memory_def rbind_eq_Ok)
  have resident: "lm_resident_bytes e = sum_list (map settled_bytes ds)"
    using load_tensors_ok [OF st(1)] st(2) by simp
  moreover have "lm_load_peak_bytes e = Max (insert 0
        ((\<lambda>i. sum_list (map settled_bytes (take i ds)) + load_charge (ds ! i)) ` {..<length ds}))"
    using load_tensors_peak [OF st(1)] st(2) by simp
  moreover have "lm_resident_bytes e' = lm_resident_bytes e"
    if p: "build_layer_read_plan ds = Ok p" and e': "estimate_grouped_layer_memory ds p = Ok e'" for p e'
  proof -
    obtain st' where "load_ranges ds (lp_ranges p) (0, 0) = Ok st'" "lm_resident_bytes e' = fst st'"
      using e' by (auto simp: estimate_grouped_layer_memory_def rbind_eq_Ok)
    then show ?thesis using load_ranges_ok [of ds "lp_ranges p" "(0, 0)" st'] grouped_settled [OF p] resident by simp
  qed
  moreover have "lm_resident_bytes e \<le> lm_load_peak_bytes e"
    if "\<forall>d \<in> set ds. byte_length d = tensor_byte_length (td_type d) (num_elements d)"
    using load_tensors_room [OF st(1) that] st(2) by simp
  ultimately show ?thesis by blast
qed

theorem layer_memory_charges_witness:
  "\<exists>e. estimate_layer_memory [example_tensor ''a'' 0 30] = Ok e \<and> lm_resident_bytes e = 30"
proof -
  have e: "estimate_layer_memory [example_tensor ''a'' 0 30] = Ok \<lparr>lm_resident_bytes = 30, lm_load_peak_bytes = 30\<rparr>"
    by (simp add: estimate_layer_memory_def load_tensor_def example_tensor_def tensor_load_charge_bytes_def
        resident_of_def resident_bytes_for_def checked_add_def checked_mul_def U64_MAX_def)
  have "settled_bytes (example_tensor ''a'' 0 30) = 30"
    by (simp add: settled_bytes_def example_tensor_def resident_of_def resident_bytes_for_def)
  then show ?thesis using layer_memory_charges [OF e] e by simp
qed

end
