(* ===== verification/Static_Plan.thy ===== *)
theory Static_Plan
  imports Layer_Memory Resource_Accounting
begin

section \<open>Configuration and the static plan of a model\<close>

text \<open>
  \<open>LlamaConfig\<close> and \<open>validate_required_tensors\<close> of \<open>crates/ramforge-runtime/src/model.rs\<close>,
  \<open>should_keep_resident\<close> of \<open>persistent.rs\<close>, and \<open>plan_model\<close> of \<open>plan.rs\<close> with everything it computes.
  The two float fields of the configuration are the metadata values that they are converted from,
  None for the default. An error text is a constructor that carries what the text names. An allocation
  that fails is not modelled.
\<close>

subsection \<open>Configuration\<close>

record llama_config =
  cf_vocab_size :: usize
  cf_context_length :: usize
  cf_embedding_length :: usize
  cf_block_count :: usize
  cf_feed_forward_length :: usize
  cf_head_count :: usize
  cf_head_count_kv :: usize
  cf_head_dim :: usize
  cf_rms_eps :: "metadata_value option"
  cf_rope_freq_base :: "metadata_value option"

datatype config_error =
    ConfigUnsupported support_error
  | MissingKey string string
  | MissingTensors "string list"

definition arch_keys :: "string \<Rightarrow> string \<Rightarrow> string list" where
  "arch_keys arch suffix = [arch @ ''.'' @ suffix, ''llama.'' @ suffix, ''qwen2.'' @ suffix, ''general.'' @ suffix]"

fun first_some :: "('a \<Rightarrow> 'b option) \<Rightarrow> 'a list \<Rightarrow> 'b option" where
  "first_some f [] = None"
| "first_some f (x # xs) = (case f x of Some y \<Rightarrow> Some y | None \<Rightarrow> first_some f xs)"

definition get_u64_arch :: "gguf_model \<Rightarrow> string \<Rightarrow> string \<Rightarrow> u64 option" where
  "get_u64_arch m arch suffix = first_some (get_u64 m) (arch_keys arch suffix)"

fun float_source :: "metadata_value \<Rightarrow> metadata_value option" where
  "float_source (Float32 f) = Some (Float32 f)"
| "float_source (Float64 f) = Some (Float64 f)"
| "float_source (UInt32 u) = Some (UInt32 u)"
| "float_source (Int32 i) = Some (Int32 i)"
| "float_source (UInt64 u) = Some (UInt64 u)"
| "float_source (Int64 i) = Some (Int64 i)"
| "float_source _ = None"

definition get_f32_arch :: "gguf_model \<Rightarrow> string \<Rightarrow> string \<Rightarrow> metadata_value option" where
  "get_f32_arch m arch suffix =
     first_some (\<lambda>key. Option.bind (get_metadata m key) float_source) (arch_keys arch suffix)"

definition llama_config_from_gguf :: "(metadata_value \<Rightarrow> string) \<Rightarrow> gguf_model \<Rightarrow> (llama_config, config_error) result" where
  "llama_config_from_gguf show_value m =
     (let arch = (case architecture (info show_value m) of Some a \<Rightarrow> a | None \<Rightarrow> ''unknown'');
          required = (\<lambda>name v. ok_or (MissingKey arch name) v) in
      rbind (map_err ConfigUnsupported (ensure_model_execution_supported show_value m)) (\<lambda>_.
        rbind (required ''vocab_size'' (or_else (get_u64_arch m arch ''vocab_size'')
            (map_option (\<lambda>a. length (snd a)) (Option.bind (get_metadata m ''tokenizer.ggml.tokens'') as_array)))) (\<lambda>vocab.
        rbind (required ''context_length'' (get_u64_arch m arch ''context_length'')) (\<lambda>context.
        rbind (required ''embedding_length'' (get_u64_arch m arch ''embedding_length'')) (\<lambda>embedding.
        rbind (required ''block_count'' (get_u64_arch m arch ''block_count'')) (\<lambda>blocks.
        rbind (required ''feed_forward_length'' (or_else (get_u64_arch m arch ''feed_forward_length'')
            (or_else (get_u64_arch m arch ''intermediate_size'') (get_u64 m ''llama.feed_forward_length'')))) (\<lambda>ffn.
        rbind (required ''attention.head_count'' (get_u64_arch m arch ''attention.head_count'')) (\<lambda>heads.
          if heads = 0 then Panic ''attempt to divide by zero''
          else Ok \<lparr>cf_vocab_size = vocab, cf_context_length = context, cf_embedding_length = embedding,
            cf_block_count = blocks, cf_feed_forward_length = ffn, cf_head_count = heads,
            cf_head_count_kv = (case get_u64_arch m arch ''attention.head_count_kv'' of Some k \<Rightarrow> k | None \<Rightarrow> heads),
            cf_head_dim = embedding div heads,
            cf_rms_eps = or_else (get_f32_arch m arch ''attention.layer_norm_rms_epsilon'')
              (get_f32_arch m arch ''attention.layer_norm_epsilon''),
            cf_rope_freq_base = get_f32_arch m arch ''rope.freq_base''\<rparr>))))))))"

definition required_layer_tensors :: "usize \<Rightarrow> string list" where
  "required_layer_tensors i = map (\<lambda>s. layer_prefix i @ s)
     [''attn_norm.weight'', ''attn_q.weight'', ''attn_k.weight'', ''attn_v.weight'', ''attn_output.weight'',
      ''ffn_norm.weight'', ''ffn_gate.weight'', ''ffn_up.weight'', ''ffn_down.weight'']"

definition validate_required_tensors :: "gguf_model \<Rightarrow> llama_config \<Rightarrow> (unit, config_error) result" where
  "validate_required_tensors m config =
     (let missing = filter (\<lambda>name. name \<notin> td_name ` set (tensors m))
            ([''token_embd.weight'', ''output_norm.weight'']
             @ concat (map required_layer_tensors [0..<cf_block_count config])) in
      if missing \<noteq> [] then Err (MissingTensors missing) else Ok ())"

subsection \<open>Memory of the execution\<close>

definition should_keep_resident :: "u64 \<Rightarrow> u64 \<Rightarrow> bool" where
  "should_keep_resident resident_bytes budget_total \<longleftrightarrow> resident_bytes \<le> budget_total div 4"

record execution_memory_plan =
  em_block_count :: usize
  em_resident_persistent_count :: usize
  em_streamed_persistent_count :: usize
  em_persistent_resident_bytes :: u64
  em_persistent_startup_peak_bytes :: u64
  em_largest_layer_index :: usize
  em_largest_layer_tensor_count :: usize
  em_largest_layer_resident_bytes :: u64
  em_largest_layer_load_peak_bytes :: u64
  em_managed_lower_bound_bytes :: u64
  em_layer_cache_capacity_bytes :: u64
  em_max_complete_cached_layers :: usize
  em_min_layer_resident_bytes :: u64
  em_logical_tensor_reads_per_forward :: usize
  em_physical_reads_per_forward :: usize
  em_logical_tensor_bytes_per_forward :: u64
  em_physical_bytes_per_forward :: u64
  em_gap_bytes_per_forward :: u64
  em_layer_streaming_lower_bound_fits :: bool

datatype plan_error =
    PlanConfig config_error
  | PersistentLengthUnknown string
  | PersistentUnsupported string resident_error
  | PersistentCharge memory_estimate_error
  | SumOverflow string
  | LayerReads usize read_plan_error
  | LayerEstimate usize memory_estimate_error
  | PlanBudget memory_error

record persistent_totals =
  ps_resident_bytes :: u64
  ps_startup_peak :: u64
  ps_resident_count :: usize
  ps_streamed_count :: usize

definition add_labelled :: "u64 \<Rightarrow> u64 \<Rightarrow> string \<Rightarrow> (u64, plan_error) result" where
  "add_labelled left right label = ok_or (SumOverflow label) (checked_add left right)"

definition plan_persistent :: "u64 \<Rightarrow> tensor_descriptor \<Rightarrow> persistent_totals \<Rightarrow> (persistent_totals, plan_error) result" where
  "plan_persistent budget d s =
     rbind (ok_or (PersistentLengthUnknown (td_name d)) (byte_length d)) (\<lambda>file_bytes.
       rbind (map_err (PersistentUnsupported (td_name d))
           (resident_bytes_for (td_type d) (num_elements d) file_bytes)) (\<lambda>resident.
         if should_keep_resident resident budget
         then rbind (map_err PersistentCharge (tensor_load_charge_bytes (td_type d) file_bytes)) (\<lambda>charge.
           rbind (add_labelled (ps_resident_bytes s) (max charge 1) ''persistent startup peak'') (\<lambda>peak.
             rbind (add_labelled (ps_resident_bytes s) (max resident 1) ''persistent resident bytes'') (\<lambda>settled.
               Ok (s\<lparr>ps_resident_count := ps_resident_count s + 1,
                     ps_startup_peak := max (ps_startup_peak s) peak, ps_resident_bytes := settled\<rparr>))))
         else Ok (s\<lparr>ps_streamed_count := ps_streamed_count s + 1\<rparr>)))"

fun plan_persistents :: "u64 \<Rightarrow> tensor_descriptor list \<Rightarrow> persistent_totals \<Rightarrow> (persistent_totals, plan_error) result" where
  "plan_persistents budget [] s = Ok s"
| "plan_persistents budget (d # ds) s = rbind (plan_persistent budget d s) (plan_persistents budget ds)"

record layer_totals =
  ly_largest_index :: usize
  ly_largest_tensor_count :: usize
  ly_largest_resident :: u64
  ly_largest_peak :: u64
  ly_resident_sizes :: "u64 list"
  ly_logical_reads :: usize
  ly_physical_reads :: usize
  ly_logical_bytes :: u64
  ly_physical_bytes :: u64
  ly_gap_bytes :: u64

definition plan_layer :: "layer_descriptor \<Rightarrow> layer_totals \<Rightarrow> (layer_totals, plan_error) result" where
  "plan_layer l s =
     rbind (map_err (LayerReads (ld_layer_idx l)) (build_layer_read_plan (ld_tensors l))) (\<lambda>reads.
       rbind (map_err (LayerEstimate (ld_layer_idx l)) (estimate_layer_memory (ld_tensors l))) (\<lambda>estimate.
         rbind (add_labelled (ly_logical_reads s) (lp_logical_tensor_count reads) ''logical tensor read count'') (\<lambda>logical_reads.
           rbind (add_labelled (ly_physical_reads s) (length (lp_ranges reads)) ''physical read count'') (\<lambda>physical_reads.
             rbind (add_labelled (ly_logical_bytes s) (lp_logical_bytes reads) ''logical tensor bytes per forward'') (\<lambda>logical_bytes.
               rbind (add_labelled (ly_physical_bytes s) (lp_physical_bytes reads) ''physical bytes per forward'') (\<lambda>physical_bytes.
                 rbind (add_labelled (ly_gap_bytes s) (lp_gap_bytes reads) ''coalesced gap bytes per forward'') (\<lambda>gap_bytes.
                   let s = s\<lparr>ly_logical_reads := logical_reads, ly_physical_reads := physical_reads,
                             ly_logical_bytes := logical_bytes, ly_physical_bytes := physical_bytes,
                             ly_gap_bytes := gap_bytes,
                             ly_resident_sizes := ly_resident_sizes s @ [lm_resident_bytes estimate]\<rparr> in
                   if ly_largest_peak s < lm_load_peak_bytes estimate
                   then Ok (s\<lparr>ly_largest_index := ld_layer_idx l, ly_largest_tensor_count := length (ld_tensors l),
                            ly_largest_resident := lm_resident_bytes estimate,
                            ly_largest_peak := lm_load_peak_bytes estimate\<rparr>)
                   else Ok s)))))))"

fun plan_layers :: "layer_descriptor list \<Rightarrow> layer_totals \<Rightarrow> (layer_totals, plan_error) result" where
  "plan_layers [] s = Ok s"
| "plan_layers (l # ls) s = rbind (plan_layer l s) (plan_layers ls)"

fun complete_layers_loop :: "u64 \<Rightarrow> u64 \<Rightarrow> usize \<Rightarrow> u64 list \<Rightarrow> usize" where
  "complete_layers_loop capacity used_bytes n [] = n"
| "complete_layers_loop capacity used_bytes n (b # bs) =
     (case checked_add used_bytes b of
        None \<Rightarrow> n
      | Some total_bytes \<Rightarrow>
          if capacity < total_bytes then n else complete_layers_loop capacity total_bytes (n + 1) bs)"

definition max_complete_layers_for_capacity :: "u64 list \<Rightarrow> u64 \<Rightarrow> usize" where
  "max_complete_layers_for_capacity sorted_bytes capacity = complete_layers_loop capacity 0 0 sorted_bytes"

definition no_persistents :: persistent_totals where
  "no_persistents = \<lparr>ps_resident_bytes = 0, ps_startup_peak = 0, ps_resident_count = 0, ps_streamed_count = 0\<rparr>"

definition no_layers :: layer_totals where
  "no_layers =
     \<lparr>ly_largest_index = 0, ly_largest_tensor_count = 0, ly_largest_resident = 0, ly_largest_peak = 0,
      ly_resident_sizes = [], ly_logical_reads = 0, ly_physical_reads = 0, ly_logical_bytes = 0,
      ly_physical_bytes = 0, ly_gap_bytes = 0\<rparr>"

definition plan_execution_memory :: "(metadata_value \<Rightarrow> string) \<Rightarrow> gguf_model \<Rightarrow> u64 \<Rightarrow>
  (execution_memory_plan, plan_error) result"
where
  "plan_execution_memory show_value m budget =
     rbind (map_err PlanConfig (llama_config_from_gguf show_value m)) (\<lambda>config.
       rbind (map_err PlanConfig (validate_required_tensors m config)) (\<lambda>_.
         rbind (plan_persistents budget (persistent_list (persistent_from_model m)) no_persistents) (\<lambda>ps.
           rbind (plan_layers (group_layers m (cf_block_count config)) no_layers) (\<lambda>ly.
             rbind (add_labelled (ps_resident_bytes ps) (ly_largest_peak ly) ''persistent plus largest layer lower bound'') (\<lambda>layer_bound.
               let lower = max (ps_startup_peak ps) layer_bound;
                   capacity = saturating_sub budget lower;
                   sizes = sort (ly_resident_sizes ly) in
               Ok \<lparr>em_block_count = cf_block_count config,
                   em_resident_persistent_count = ps_resident_count ps,
                   em_streamed_persistent_count = ps_streamed_count ps,
                   em_persistent_resident_bytes = ps_resident_bytes ps,
                   em_persistent_startup_peak_bytes = ps_startup_peak ps,
                   em_largest_layer_index = ly_largest_index ly,
                   em_largest_layer_tensor_count = ly_largest_tensor_count ly,
                   em_largest_layer_resident_bytes = ly_largest_resident ly,
                   em_largest_layer_load_peak_bytes = ly_largest_peak ly,
                   em_managed_lower_bound_bytes = lower,
                   em_layer_cache_capacity_bytes = capacity,
                   em_max_complete_cached_layers = max_complete_layers_for_capacity sizes capacity,
                   em_min_layer_resident_bytes = (case sizes of [] \<Rightarrow> 0 | b # bs \<Rightarrow> b),
                   em_logical_tensor_reads_per_forward = ly_logical_reads ly,
                   em_physical_reads_per_forward = ly_physical_reads ly,
                   em_logical_tensor_bytes_per_forward = ly_logical_bytes ly,
                   em_physical_bytes_per_forward = ly_physical_bytes ly,
                   em_gap_bytes_per_forward = ly_gap_bytes ly,
                   em_layer_streaming_lower_bound_fits = (lower \<le> budget)\<rparr>)))))"

subsection \<open>The plan of a model\<close>

record plan_result =
  sp_file_size :: u64
  sp_architecture :: "string option"
  sp_tensor_count :: usize
  sp_ram_requested :: u64
  sp_cache_capacity :: u64
  sp_overhead_reserved :: u64
  sp_available :: u64
  sp_fits_in_ram :: bool
  sp_file_backed_needed :: u64
  sp_total_tensor_bytes :: "u64 option"
  sp_execution_memory :: "execution_memory_plan option"
  sp_execution_preflight_error :: "plan_error option"
  sp_budget :: memory_budget

definition plan_cache_capacity :: "u64 \<Rightarrow> (u64, plan_error) result" where
  "plan_cache_capacity ram =
     rbind (ok_or (SumOverflow ''cache capacity arithmetic'')
         (Option.bind (checked_mul (ram div 5) 4) (\<lambda>base. checked_add base (ram mod 5 * 4 div 5)))) (\<lambda>capacity_80.
       Ok (if ram < 2 * 1024 * 1024 then ram div 2
           else min (max capacity_80 (1024 * 1024)) (saturating_sub ram (1024 * 1024))))"

definition plan_model :: "(metadata_value \<Rightarrow> string) \<Rightarrow> gguf_model \<Rightarrow> u64 \<Rightarrow> (plan_result, plan_error) result" where
  "plan_model show_value m ram =
     rbind (map_err PlanBudget (budget_new ram)) (\<lambda>budget.
       rbind (plan_cache_capacity ram) (\<lambda>cache_capacity.
         rbind (expect invariant_message (available_bytes budget)) (\<lambda>available.
           let finish = (\<lambda>memory preflight_error.
             Ok \<lparr>sp_file_size = file_size m, sp_architecture = architecture (info show_value m),
                 sp_tensor_count = length (tensors m), sp_ram_requested = ram,
                 sp_cache_capacity = cache_capacity, sp_overhead_reserved = 0, sp_available = available,
                 sp_fits_in_ram = (file_size m \<le> ram),
                 sp_file_backed_needed = (if file_size m \<le> ram then 0 else file_size m - ram),
                 sp_total_tensor_bytes = total_tensor_bytes m, sp_execution_memory = memory,
                 sp_execution_preflight_error = preflight_error, sp_budget = budget\<rparr>) in
           (case plan_execution_memory show_value m ram of
              Ok memory \<Rightarrow> finish (Some memory) None
            | Err e \<Rightarrow> finish None (Some e)
            | Panic msg \<Rightarrow> Panic msg))))"

definition plan_resource_snapshot :: "string \<Rightarrow> model_id \<Rightarrow> gguf_model \<Rightarrow> plan_result \<Rightarrow>
  (accounting_snapshot, resource_accounting_error) result"
where
  "plan_resource_snapshot path model m p =
     rbind (accounting_from_model m path model (budgets_host_ram (sp_ram_requested p))) snapshot"

subsection \<open>Complete layers in the cache\<close>

lemma complete_layers_fit:
  "used_bytes \<le> capacity \<Longrightarrow> capacity \<le> U64_MAX \<Longrightarrow>
     complete_layers_loop capacity used_bytes n bs = n + length (fit_prefix id (capacity - used_bytes) bs)"
proof (induction bs arbitrary: used_bytes n)
  case (Cons b bs)
  show ?case
  proof (cases "used_bytes + b \<le> capacity")
    case True
    have "b \<le> capacity - used_bytes" using True by simp
    moreover have "capacity - used_bytes - b = capacity - (used_bytes + b)" by simp
    ultimately show ?thesis
      using Cons.IH [of "used_bytes + b" "n + 1"] Cons.prems True by (simp add: checked_exact(1))
  next
    case False
    then have "\<not> b \<le> capacity - used_bytes" using Cons.prems by simp
    then show ?thesis using False by (simp add: checked_add_def)
  qed
qed simp

text \<open>The smallest elements have the smallest sum.\<close>

lemma smallest_sum:
  "sorted xs \<Longrightarrow> Y \<subseteq># mset xs \<Longrightarrow> sum_list (take (size Y) xs) \<le> sum_mset Y"
  for xs :: "nat list"
proof (induction xs arbitrary: Y)
  case (Cons x xs)
  show ?case
  proof (cases "Y = {#}")
    case False
    define y where "y = (if x \<in># Y then x else (SOME y. y \<in># Y))"
    have y: "y \<in># Y" using False by (auto simp: y_def intro: someI_ex [OF multiset_nonemptyE [OF False]])
    define Z where "Z = Y - {#y#}"
    have Y: "Y = add_mset y Z" using y by (simp add: Z_def)
    have Z: "Z \<subseteq># mset xs"
    proof (cases "x \<in># Y")
      case True
      then have "y = x" by (simp add: y_def)
      then show ?thesis using Cons.prems(2) Y by simp
    next
      case False
      have "count Y a \<le> count (mset xs) a" for a
        using mset_subset_eq_count [OF Cons.prems(2), of a] False by (cases "a = x") (simp_all add: not_in_iff)
      then have "Y \<subseteq># mset xs" by (rule mset_subset_eqI)
      then show ?thesis unfolding Z_def by (meson diff_subset_eq_self subset_mset.order_trans)
    qed
    have "y \<in># mset (x # xs)" using y Cons.prems(2) by (meson mset_subset_eqD)
    then have "x \<le> y" using Cons.prems(1) by auto
    moreover have "sum_list (take (size Z) xs) \<le> sum_mset Z" using Cons.IH Z Cons.prems(1) by simp
    ultimately show ?thesis by (simp add: Y)
  qed simp
qed simp

lemma complete_layers_optimal:
  assumes "capacity \<le> U64_MAX" and n_def: "n = max_complete_layers_for_capacity (sort sizes) capacity"
  shows "(\<exists>Y. Y \<subseteq># mset sizes \<and> size Y = n \<and> sum_mset Y \<le> capacity)
    \<and> (\<forall>Y. Y \<subseteq># mset sizes \<and> sum_mset Y \<le> capacity \<longrightarrow> size Y \<le> n)"
proof -
  let ?p = "fit_prefix id capacity (sort sizes)"
  have n: "n = length ?p"
    using complete_layers_fit [of 0 capacity 0 "sort sizes"] assms(1) by (simp add: n_def max_complete_layers_for_capacity_def)
  obtain k where k: "?p = take k (sort sizes)" using fit_prefix_take by blast
  have "mset (take k (sort sizes)) \<subseteq># mset (sort sizes)"
    by (metis append_take_drop_id mset_append mset_subset_eq_add_left)
  then have "mset ?p \<subseteq># mset sizes" by (simp add: k)
  moreover have "sum_mset (mset ?p) \<le> capacity" using fit_prefix_fits [of id capacity "sort sizes"] by (simp add: sum_mset_sum_list)
  ultimately have "\<exists>Y. Y \<subseteq># mset sizes \<and> size Y = n \<and> sum_mset Y \<le> capacity" using n by (metis size_mset)
  moreover have "size Y \<le> n" if Y: "Y \<subseteq># mset sizes" "sum_mset Y \<le> capacity" for Y
  proof -
    have "sum_list (take (size Y) (sort sizes)) \<le> capacity"
      using smallest_sum [of "sort sizes" Y] Y by simp
    moreover have "size Y \<le> length (sort sizes)" using size_mset_mono [OF Y(1)] by simp
    ultimately show ?thesis using fit_prefix_maximal [of "size Y" "sort sizes" id capacity] n by simp
  qed
  ultimately show ?thesis by blast
qed

subsection \<open>Bounds of the execution memory\<close>

text \<open>What the loop over the layers has established after the layers \<open>ls\<close>.\<close>

definition layer_resident :: "layer_descriptor \<Rightarrow> u64" where
  "layer_resident l = (case estimate_layer_memory (ld_tensors l) of Ok e \<Rightarrow> lm_resident_bytes e | _ \<Rightarrow> 0)"

definition layers_planned :: "layer_descriptor list \<Rightarrow> layer_totals \<Rightarrow> bool" where
  "layers_planned ls s \<longleftrightarrow>
     (\<forall>l \<in> set ls. \<exists>e p. estimate_layer_memory (ld_tensors l) = Ok e \<and> build_layer_read_plan (ld_tensors l) = Ok p
        \<and> lm_load_peak_bytes e \<le> ly_largest_peak s)
     \<and> ly_resident_sizes s = map layer_resident ls
     \<and> (ly_largest_peak s \<noteq> 0 \<longrightarrow> (\<exists>l \<in> set ls. \<exists>e. estimate_layer_memory (ld_tensors l) = Ok e
          \<and> ld_layer_idx l = ly_largest_index s \<and> lm_load_peak_bytes e = ly_largest_peak s))
     \<and> ly_logical_reads s = sum_list (map (length \<circ> ld_tensors) ls)
     \<and> ly_physical_bytes s = ly_logical_bytes s + ly_gap_bytes s"

lemma plan_layer_ok:
  assumes "layers_planned ls s" and "plan_layer l s = Ok s'"
  shows "layers_planned (ls @ [l]) s'"
proof -
  have if_Ok: "(if c then Ok a else Ok b) = (Ok (if c then a else b) :: (layer_totals, plan_error) result)" for c a b
    by simp
  obtain p e s1 where p: "build_layer_read_plan (ld_tensors l) = Ok p" and e: "estimate_layer_memory (ld_tensors l) = Ok e"
    and s1: "s1 = s\<lparr>ly_logical_reads := ly_logical_reads s + lp_logical_tensor_count p,
        ly_physical_reads := ly_physical_reads s + length (lp_ranges p),
        ly_logical_bytes := ly_logical_bytes s + lp_logical_bytes p,
        ly_physical_bytes := ly_physical_bytes s + lp_physical_bytes p, ly_gap_bytes := ly_gap_bytes s + lp_gap_bytes p,
        ly_resident_sizes := ly_resident_sizes s @ [lm_resident_bytes e]\<rparr>"
    and s': "s' = (if ly_largest_peak s < lm_load_peak_bytes e
        then s1\<lparr>ly_largest_index := ld_layer_idx l, ly_largest_tensor_count := length (ld_tensors l),
               ly_largest_resident := lm_resident_bytes e, ly_largest_peak := lm_load_peak_bytes e\<rparr>
        else s1)"
    using assms(2) unfolding plan_layer_def Let_def if_Ok by (auto simp: rbind_eq_Ok add_labelled_def)
  have sums: "ly_logical_reads s' = ly_logical_reads s + lp_logical_tensor_count p"
      "ly_logical_bytes s' = ly_logical_bytes s + lp_logical_bytes p"
      "ly_physical_bytes s' = ly_physical_bytes s + lp_physical_bytes p"
      "ly_gap_bytes s' = ly_gap_bytes s + lp_gap_bytes p"
      "ly_resident_sizes s' = ly_resident_sizes s @ [lm_resident_bytes e]"
    and peak: "ly_largest_peak s' = max (ly_largest_peak s) (lm_load_peak_bytes e)"
      "ly_largest_peak s < lm_load_peak_bytes e \<Longrightarrow> ly_largest_index s' = ld_layer_idx l"
      "\<not> ly_largest_peak s < lm_load_peak_bytes e \<Longrightarrow> ly_largest_index s' = ly_largest_index s"
    by (simp_all add: s' s1)
  have "lp_logical_tensor_count p = length (ld_tensors l)"
    using p by (auto simp: build_layer_read_plan_def rbind_eq_Ok)
  moreover have "lp_physical_bytes p = lp_logical_bytes p + lp_gap_bytes p" using read_plan_facts [OF p] by blast
  moreover note h = assms(1) [unfolded layers_planned_def]
  have "\<exists>e p. estimate_layer_memory (ld_tensors l') = Ok e \<and> build_layer_read_plan (ld_tensors l') = Ok p
      \<and> lm_load_peak_bytes e \<le> ly_largest_peak s'"
    if "l' \<in> set (ls @ [l])" for l'
  proof (cases "l' = l")
    case True
    then show ?thesis using p e peak(1) by simp
  next
    case False
    then have "l' \<in> set ls" using that by simp
    then obtain e' p' where "estimate_layer_memory (ld_tensors l') = Ok e'" "build_layer_read_plan (ld_tensors l') = Ok p'"
      "lm_load_peak_bytes e' \<le> ly_largest_peak s"
      using h by blast
    then show ?thesis using peak(1) by simp
  qed
  moreover have "ly_resident_sizes s' = map layer_resident (ls @ [l])"
    using h e sums(5) by (simp add: layer_resident_def)
  moreover have "\<exists>l' \<in> set (ls @ [l]). \<exists>e. estimate_layer_memory (ld_tensors l') = Ok e
      \<and> ld_layer_idx l' = ly_largest_index s' \<and> lm_load_peak_bytes e = ly_largest_peak s'" if "ly_largest_peak s' \<noteq> 0"
  proof (cases "ly_largest_peak s < lm_load_peak_bytes e")
    case True
    then show ?thesis using e peak by simp
  next
    case False
    then have "ly_largest_peak s' = ly_largest_peak s" "ly_largest_index s' = ly_largest_index s"
      using peak by simp_all
    then show ?thesis using h that by auto
  qed
  ultimately show ?thesis
    using h sums unfolding layers_planned_def by simp
qed

lemma plan_layers_ok: "plan_layers ls s = Ok s' \<Longrightarrow> layers_planned done s \<Longrightarrow> layers_planned (done @ ls) s'"
proof (induction ls arbitrary: s "done")
  case (Cons l ls)
  then obtain s1 where "plan_layer l s = Ok s1" "plan_layers ls s1 = Ok s'" by (auto simp: rbind_eq_Ok)
  then show ?case using Cons.IH [of s1 "done @ [l]"] plan_layer_ok [OF Cons.prems(2)] by simp
qed simp

lemma no_layers_planned: "layers_planned [] no_layers"
  by (simp add: layers_planned_def no_layers_def)

lemma plan_execution_memory_ok:
  assumes "plan_execution_memory show_value m budget = Ok em"
  obtains config ps ly where "llama_config_from_gguf show_value m = Ok config" "validate_required_tensors m config = Ok ()"
    "plan_persistents budget (persistent_list (persistent_from_model m)) no_persistents = Ok ps"
    "layers_planned (group_layers m (cf_block_count config)) ly"
    "em_block_count em = cf_block_count config"
    "em_persistent_resident_bytes em = ps_resident_bytes ps" "em_persistent_startup_peak_bytes em = ps_startup_peak ps"
    "em_largest_layer_load_peak_bytes em = ly_largest_peak ly"
    "em_managed_lower_bound_bytes em = max (ps_startup_peak ps) (ps_resident_bytes ps + ly_largest_peak ly)"
    "em_layer_cache_capacity_bytes em = budget - em_managed_lower_bound_bytes em"
    "em_max_complete_cached_layers em = max_complete_layers_for_capacity (sort (ly_resident_sizes ly)) (em_layer_cache_capacity_bytes em)"
    "em_min_layer_resident_bytes em = (case sort (ly_resident_sizes ly) of [] \<Rightarrow> 0 | b # bs \<Rightarrow> b)"
    "em_logical_tensor_reads_per_forward em = ly_logical_reads ly"
    "em_physical_bytes_per_forward em = ly_physical_bytes ly" "em_gap_bytes_per_forward em = ly_gap_bytes ly"
    "em_logical_tensor_bytes_per_forward em = ly_logical_bytes ly"
    "em_layer_streaming_lower_bound_fits em \<longleftrightarrow> em_managed_lower_bound_bytes em \<le> budget"
proof -
  obtain config ps ly where *: "llama_config_from_gguf show_value m = Ok config" "validate_required_tensors m config = Ok ()"
    "plan_persistents budget (persistent_list (persistent_from_model m)) no_persistents = Ok ps"
    "plan_layers (group_layers m (cf_block_count config)) no_layers = Ok ly"
    and rest: "em_block_count em = cf_block_count config"
    "em_persistent_resident_bytes em = ps_resident_bytes ps" "em_persistent_startup_peak_bytes em = ps_startup_peak ps"
    "em_largest_layer_load_peak_bytes em = ly_largest_peak ly"
    "em_managed_lower_bound_bytes em = max (ps_startup_peak ps) (ps_resident_bytes ps + ly_largest_peak ly)"
    "em_layer_cache_capacity_bytes em = budget - em_managed_lower_bound_bytes em"
    "em_max_complete_cached_layers em = max_complete_layers_for_capacity (sort (ly_resident_sizes ly)) (em_layer_cache_capacity_bytes em)"
    "em_min_layer_resident_bytes em = (case sort (ly_resident_sizes ly) of [] \<Rightarrow> 0 | b # bs \<Rightarrow> b)"
    "em_logical_tensor_reads_per_forward em = ly_logical_reads ly"
    "em_physical_bytes_per_forward em = ly_physical_bytes ly" "em_gap_bytes_per_forward em = ly_gap_bytes ly"
    "em_logical_tensor_bytes_per_forward em = ly_logical_bytes ly"
    "em_layer_streaming_lower_bound_fits em \<longleftrightarrow> em_managed_lower_bound_bytes em \<le> budget"
    using assms by (auto simp: plan_execution_memory_def rbind_eq_Ok add_labelled_def Let_def saturating_sub_def)
  have "layers_planned (group_layers m (cf_block_count config)) ly"
    using plan_layers_ok [OF *(4) no_layers_planned] by simp
  with * rest show thesis by (intro that)
qed

text \<open>The persistent tensors that stay resident: at most a quarter of the budget each.\<close>

definition kept_resident :: "u64 \<Rightarrow> tensor_descriptor \<Rightarrow> bool" where
  "kept_resident budget d \<longleftrightarrow> (\<exists>b. resident_of d (the (byte_length d)) = Ok b \<and> b \<le> budget div 4)"

lemma plan_persistent_ok:
  assumes "plan_persistent budget d s = Ok s'"
  shows "ps_resident_bytes s' = ps_resident_bytes s + (if kept_resident budget d then settled_bytes d else 0)
    \<and> ps_startup_peak s \<le> ps_startup_peak s'
    \<and> (kept_resident budget d \<longrightarrow> ps_resident_bytes s + load_charge d \<le> ps_startup_peak s')"
proof -
  obtain len where len: "byte_length d = Some len" using assms by (auto simp: plan_persistent_def rbind_eq_Ok)
  obtain b where b: "resident_bytes_for (td_type d) (num_elements d) len = Ok b"
    using assms len by (auto simp: plan_persistent_def rbind_eq_Ok)
  have keep: "kept_resident budget d \<longleftrightarrow> should_keep_resident b budget"
    by (simp add: kept_resident_def should_keep_resident_def resident_of_def len b)
  have settled: "settled_bytes d = max b 1" by (simp add: settled_bytes_def resident_of_def len b)
  show ?thesis
  proof (cases "should_keep_resident b budget")
    case True
    then obtain charge where "tensor_load_charge_bytes (td_type d) len = Ok charge"
      "s' = s\<lparr>ps_resident_count := ps_resident_count s + 1,
         ps_startup_peak := max (ps_startup_peak s) (ps_resident_bytes s + max charge 1),
         ps_resident_bytes := ps_resident_bytes s + max b 1\<rparr>"
      using assms by (auto simp: plan_persistent_def rbind_eq_Ok len b add_labelled_def)
    moreover have "load_charge d = max charge 1"
      using calculation(1) by (auto simp: tensor_load_charge_bytes_def load_charge_def len Let_def)
    ultimately show ?thesis using keep True settled by simp
  next
    case False
    then have "s' = s\<lparr>ps_streamed_count := ps_streamed_count s + 1\<rparr>"
      using assms by (simp add: plan_persistent_def len b)
    then show ?thesis using keep False by simp
  qed
qed

lemma plan_persistents_ok:
  "plan_persistents budget ds s = Ok s' \<Longrightarrow>
     ps_resident_bytes s' = ps_resident_bytes s + sum_list (map settled_bytes (filter (kept_resident budget) ds))"
proof (induction ds arbitrary: s)
  case (Cons d ds)
  then obtain s1 where s1: "plan_persistent budget d s = Ok s1" "plan_persistents budget ds s1 = Ok s'"
    by (auto simp: rbind_eq_Ok)
  show ?case using Cons.IH [OF s1(2)] plan_persistent_ok [OF s1(1)] by simp
qed simp

lemma sort_hd_le: "x \<in> set xs \<Longrightarrow> (case sort xs of [] \<Rightarrow> 0 | b # bs \<Rightarrow> b) \<le> x" for x :: nat
proof -
  assume x: "x \<in> set xs"
  then have "x \<in> set (sort xs)" "sorted (sort xs)" by simp_all
  then show ?thesis by (cases "sort xs") auto
qed

subsection \<open>Properties\<close>

text \<open>
  The memory plan of the execution. Every layer of the model has a memory estimate, and the managed
  lower bound holds the resident persistent tensors together with the load peak of any one layer; it
  also holds their start-up peak. The resident persistent bytes are those of the persistent tensors of
  at most a quarter of the budget. The plan fits exactly when the bound is within the budget, and the
  cache capacity is exactly the rest. The bytes read per forward pass are the tensor bytes plus the gaps.
\<close>

theorem execution_memory_bounds:
  assumes "plan_execution_memory show_value m budget = Ok em"
  shows "(\<forall>l \<in> set (group_layers m (em_block_count em)). \<exists>e. estimate_layer_memory (ld_tensors l) = Ok e
        \<and> em_persistent_resident_bytes em + lm_load_peak_bytes e \<le> em_managed_lower_bound_bytes em
        \<and> em_min_layer_resident_bytes em \<le> lm_resident_bytes e)
    \<and> em_persistent_startup_peak_bytes em \<le> em_managed_lower_bound_bytes em
    \<and> em_persistent_resident_bytes em =
        sum_list (map settled_bytes (filter (kept_resident budget) (persistent_list (persistent_from_model m))))
    \<and> (em_layer_streaming_lower_bound_fits em \<longleftrightarrow> em_managed_lower_bound_bytes em \<le> budget)
    \<and> (em_layer_streaming_lower_bound_fits em \<longrightarrow>
        em_managed_lower_bound_bytes em + em_layer_cache_capacity_bytes em = budget)
    \<and> (\<not> em_layer_streaming_lower_bound_fits em \<longrightarrow> em_layer_cache_capacity_bytes em = 0)
    \<and> em_physical_bytes_per_forward em = em_logical_tensor_bytes_per_forward em + em_gap_bytes_per_forward em"
proof -
  obtain config :: llama_config and ps :: persistent_totals and ly :: layer_totals where config: "em_block_count em = cf_block_count config"
    and ps: "plan_persistents budget (persistent_list (persistent_from_model m)) no_persistents = Ok ps"
      "em_persistent_resident_bytes em = ps_resident_bytes ps" "em_persistent_startup_peak_bytes em = ps_startup_peak ps"
    and planned: "layers_planned (group_layers m (cf_block_count config)) ly"
    and lower: "em_managed_lower_bound_bytes em = max (ps_startup_peak ps) (ps_resident_bytes ps + ly_largest_peak ly)"
      "em_layer_cache_capacity_bytes em = budget - em_managed_lower_bound_bytes em"
      "em_min_layer_resident_bytes em = (case sort (ly_resident_sizes ly) of [] \<Rightarrow> 0 | b # bs \<Rightarrow> b)"
      "em_layer_streaming_lower_bound_fits em \<longleftrightarrow> em_managed_lower_bound_bytes em \<le> budget"
    and bytes: "em_physical_bytes_per_forward em = ly_physical_bytes ly" "em_gap_bytes_per_forward em = ly_gap_bytes ly"
      "em_logical_tensor_bytes_per_forward em = ly_logical_bytes ly"
    using plan_execution_memory_ok [OF assms] by metis
  note h = planned [unfolded layers_planned_def]
  have "\<exists>e. estimate_layer_memory (ld_tensors l) = Ok e
        \<and> em_persistent_resident_bytes em + lm_load_peak_bytes e \<le> em_managed_lower_bound_bytes em
        \<and> em_min_layer_resident_bytes em \<le> lm_resident_bytes e"
    if l: "l \<in> set (group_layers m (em_block_count em))" for l
  proof -
    obtain e where e: "estimate_layer_memory (ld_tensors l) = Ok e" "lm_load_peak_bytes e \<le> ly_largest_peak ly"
      using h l config by metis
    have "layer_resident l \<in> set (ly_resident_sizes ly)" using h l config by simp
    then have "lm_resident_bytes e \<in> set (ly_resident_sizes ly)" using e(1) by (simp add: layer_resident_def)
    then have "em_min_layer_resident_bytes em \<le> lm_resident_bytes e" unfolding lower(3) by (rule sort_hd_le)
    then show ?thesis using e lower(1) ps(2) by simp
  qed
  moreover have "em_persistent_resident_bytes em =
      sum_list (map settled_bytes (filter (kept_resident budget) (persistent_list (persistent_from_model m))))"
    using plan_persistents_ok [OF ps(1)] ps(2) by (simp add: no_persistents_def)
  moreover have "em_persistent_startup_peak_bytes em \<le> em_managed_lower_bound_bytes em" using lower(1) ps(3) by simp
  moreover have "em_layer_streaming_lower_bound_fits em \<longrightarrow>
      em_managed_lower_bound_bytes em + em_layer_cache_capacity_bytes em = budget"
    "\<not> em_layer_streaming_lower_bound_fits em \<longrightarrow> em_layer_cache_capacity_bytes em = 0"
    unfolding lower(2,4) by simp_all
  moreover have "em_physical_bytes_per_forward em = em_logical_tensor_bytes_per_forward em + em_gap_bytes_per_forward em"
    using h bytes by simp
  ultimately show ?thesis using lower(4) by blast
qed

text \<open>
  The number of complete layers that the plan promises for the cache is the largest possible: some
  choice of that many layers fits into the cache capacity, and no larger choice does.
\<close>

theorem cached_layers_optimal:
  assumes "plan_execution_memory show_value m budget = Ok em" and "budget \<le> U64_MAX"
    and "sizes = mset (map layer_resident (group_layers m (em_block_count em)))"
  shows "(\<exists>chosen. chosen \<subseteq># sizes \<and> size chosen = em_max_complete_cached_layers em
        \<and> sum_mset chosen \<le> em_layer_cache_capacity_bytes em)
    \<and> (\<forall>chosen. chosen \<subseteq># sizes \<and> sum_mset chosen \<le> em_layer_cache_capacity_bytes em \<longrightarrow>
        size chosen \<le> em_max_complete_cached_layers em)"
proof -
  obtain config :: llama_config and ly :: layer_totals where "em_block_count em = cf_block_count config"
    "layers_planned (group_layers m (cf_block_count config)) ly"
    and n: "em_max_complete_cached_layers em =
      max_complete_layers_for_capacity (sort (ly_resident_sizes ly)) (em_layer_cache_capacity_bytes em)"
    and cap: "em_layer_cache_capacity_bytes em = budget - em_managed_lower_bound_bytes em"
    using plan_execution_memory_ok [OF assms(1)] by metis
  then have "sizes = mset (ly_resident_sizes ly)" by (simp add: assms(3) layers_planned_def)
  moreover have "em_layer_cache_capacity_bytes em \<le> U64_MAX" using assms(2) cap by simp
  ultimately show ?thesis using complete_layers_optimal [OF _ n] by simp
qed

subsection \<open>A model with one layer\<close>

definition example_model :: gguf_model where
  "example_model =
     \<lparr>file_size = 1000, gm_version = 3,
      metadata = [(''general.architecture'', String ''llama''), (''llama.attention.head_count'', UInt32 2),
        (''llama.block_count'', UInt32 1), (''llama.context_length'', UInt32 16),
        (''llama.embedding_length'', UInt32 8), (''llama.feed_forward_length'', UInt32 16),
        (''llama.vocab_size'', UInt32 10)],
      tensors = [example_tensor ''token_embd.weight'' 0 40, example_tensor ''output_norm.weight'' 40 10]
        @ map (\<lambda>(i, s). example_tensor (layer_prefix 0 @ s) (50 + 10 * i) 10)
            (List.enumerate 0 [''attn_norm.weight'', ''attn_q.weight'', ''attn_k.weight'', ''attn_v.weight'',
              ''attn_output.weight'', ''ffn_norm.weight'', ''ffn_gate.weight'', ''ffn_up.weight'', ''ffn_down.weight'']),
      alignment = 32, data_start_offset = 0\<rparr>"

lemma layer_prefix_0: "layer_prefix 0 = ''blk.0.''"
  by (simp add: layer_prefix_def show_nat.simps [of 0] digit_char_def char_of_def bit_iff_odd)

lemma example_keys:
  "get_u64_arch example_model ''llama'' ''vocab_size'' = Some 10"
  "get_u64_arch example_model ''llama'' ''context_length'' = Some 16"
  "get_u64_arch example_model ''llama'' ''embedding_length'' = Some 8"
  "get_u64_arch example_model ''llama'' ''block_count'' = Some 1"
  "get_u64_arch example_model ''llama'' ''feed_forward_length'' = Some 16"
  "get_u64_arch example_model ''llama'' ''attention.head_count'' = Some 2"
  by (simp_all add: get_u64_arch_def arch_keys_def get_u64_def get_metadata_def example_model_def)

lemma example_architecture: "architecture (info (\<lambda>_. []) example_model) = Some ''llama''"
  by (simp add: info_def model_architecture_def get_string_def get_metadata_def example_model_def Let_def)

lemma llama_supported: "ensure_execution_supported ''llama'' = Ok ()"
  by (simp add: ensure_execution_supported_def architecture_capability_def to_ascii_lowercase_def ARCHITECTURES_def)

lemma example_supported: "ensure_model_execution_supported (\<lambda>_. []) example_model = Ok ()"
proof -
  have "unsupported_inference_tensor_formats example_model = []"
    unfolding unsupported_formats_Nil
    by (simp add: example_model_def example_tensor_def ggml_type_supported_for_inference_def)
  then show ?thesis
    by (simp add: ensure_model_execution_supported_def example_architecture llama_supported)
qed

lemma example_config: "\<exists>config. llama_config_from_gguf (\<lambda>_. []) example_model = Ok config \<and> cf_block_count config = 1"
  by (simp add: llama_config_from_gguf_def Let_def example_architecture example_supported example_keys)

lemma example_validated: "cf_block_count config = 1 \<Longrightarrow> validate_required_tensors example_model config = Ok ()"
  by (simp add: validate_required_tensors_def example_model_def required_layer_tensors_def layer_prefix_0 example_tensor_def)

lemma example_layers:
  "group_layers example_model 1 = [layer_descriptor_new 0
     (map (\<lambda>(i, s). example_tensor (''blk.0.'' @ s) (50 + 10 * i) 10)
            (List.enumerate 0 [''attn_norm.weight'', ''attn_q.weight'', ''attn_k.weight'', ''attn_v.weight'',
              ''attn_output.weight'', ''ffn_norm.weight'', ''ffn_gate.weight'', ''ffn_up.weight'', ''ffn_down.weight'']))]"
  by (simp add: group_layers_def example_model_def layer_prefix_0 starts_with_def example_tensor_def)

lemma example_persistent: "persistent_list (persistent_from_model example_model) =
   [example_tensor ''token_embd.weight'' 0 40, example_tensor ''output_norm.weight'' 40 10]"
  by (simp add: persistent_list_def persistent_from_model_def example_model_def layer_prefix_0 example_tensor_def List.map_filter_def)

lemma example_persistents_planned: "\<exists>ps. plan_persistents 1000 (persistent_list (persistent_from_model example_model)) no_persistents = Ok ps
   \<and> ps_resident_bytes ps = 50 \<and> ps_startup_peak ps = 50"
  unfolding example_persistent
  by (simp add: plan_persistent_def no_persistents_def example_tensor_def resident_bytes_for_def should_keep_resident_def tensor_load_charge_bytes_def add_labelled_def checked_add_def checked_mul_def U64_MAX_def)

lemma example_layer_planned: "\<exists>ly. plan_layers (group_layers example_model 1) no_layers = Ok ly \<and> ly_largest_peak ly = 90"
  unfolding example_layers
  by (simp add: plan_layer_def no_layers_def layer_descriptor_new_def example_tensor_def
   build_layer_read_plan_def place_tensor_def new_range_def MAX_COALESCED_GAP_BYTES_def MAX_COALESCED_SPAN_BYTES_def
   estimate_layer_memory_def load_tensor_def tensor_load_charge_bytes_def resident_of_def resident_bytes_for_def
   add_labelled_def checked_add_def checked_mul_def checked_sub_def U64_MAX_def Let_def)


lemma example_plan:
  obtains em where "plan_execution_memory (\<lambda>_. []) example_model 1000 = Ok em" "em_block_count em = 1"
    "em_managed_lower_bound_bytes em = 140"
proof -
  obtain config where c: "llama_config_from_gguf (\<lambda>_. []) example_model = Ok config" "cf_block_count config = 1"
    using example_config by blast
  obtain ps where ps: "plan_persistents 1000 (persistent_list (persistent_from_model example_model)) no_persistents = Ok ps"
    "ps_resident_bytes ps = 50" "ps_startup_peak ps = 50" using example_persistents_planned by blast
  obtain ly where ly: "plan_layers (group_layers example_model 1) no_layers = Ok ly" "ly_largest_peak ly = 90"
    using example_layer_planned by blast
  obtain em where em: "plan_execution_memory (\<lambda>_. []) example_model 1000 = Ok em"
    using c ps ly example_validated [OF c(2)]
    by (simp add: plan_execution_memory_def add_labelled_def checked_add_def U64_MAX_def Let_def)
  have "em_block_count em = 1" "em_managed_lower_bound_bytes em = 140"
    using em c ps ly example_validated [OF c(2)]
    by (auto simp: plan_execution_memory_def add_labelled_def checked_add_def U64_MAX_def Let_def)
  with em show thesis by (rule that)
qed

theorem execution_memory_bounds_witness:
  "\<exists>em. plan_execution_memory (\<lambda>_. []) example_model 1000 = Ok em \<and> em_layer_cache_capacity_bytes em = 860"
proof -
  obtain em where em: "plan_execution_memory (\<lambda>_. []) example_model 1000 = Ok em" "em_managed_lower_bound_bytes em = 140"
    by (rule example_plan)
  show ?thesis using execution_memory_bounds [OF em(1)] em by auto
qed

theorem cached_layers_optimal_witness:
  "\<exists>em chosen. plan_execution_memory (\<lambda>_. []) example_model 1000 = Ok em
    \<and> chosen \<subseteq># mset (map layer_resident (group_layers example_model 1)) \<and> size chosen = em_max_complete_cached_layers em"
proof -
  obtain em where em: "plan_execution_memory (\<lambda>_. []) example_model 1000 = Ok em" "em_block_count em = 1"
    by (rule example_plan)
  have "(1000::nat) \<le> U64_MAX" by (simp add: U64_MAX_def)
  from cached_layers_optimal [OF em(1) this refl] em show ?thesis by auto
qed

subsection \<open>Outcome of the static plan\<close>

text \<open>The one input on which the configuration panics: a head count of 0, after every other key was found.\<close>

definition zero_heads :: "(metadata_value \<Rightarrow> string) \<Rightarrow> gguf_model \<Rightarrow> bool" where
  "zero_heads show_value m \<longleftrightarrow> ensure_model_execution_supported show_value m = Ok ()
     \<and> (\<exists>arch. architecture (info show_value m) = Some arch
       \<and> (get_u64_arch m arch ''vocab_size'' \<noteq> None
          \<or> (\<exists>a. Option.bind (get_metadata m ''tokenizer.ggml.tokens'') as_array = Some a))
       \<and> get_u64_arch m arch ''context_length'' \<noteq> None \<and> get_u64_arch m arch ''embedding_length'' \<noteq> None
       \<and> get_u64_arch m arch ''block_count'' \<noteq> None
       \<and> (get_u64_arch m arch ''feed_forward_length'' \<noteq> None \<or> get_u64_arch m arch ''intermediate_size'' \<noteq> None
          \<or> get_u64 m ''llama.feed_forward_length'' \<noteq> None)
       \<and> get_u64_arch m arch ''attention.head_count'' = Some 0)"

lemma or_else_eq_None [simp]: "or_else a b = None \<longleftrightarrow> a = None \<and> b = None"
  by (cases a) simp_all

lemma ensure_supported_architecture:
  "ensure_model_execution_supported show_value m = Ok () \<Longrightarrow> \<exists>a. architecture (info show_value m) = Some a"
  by (cases "architecture (info show_value m)")
    (simp_all add: ensure_model_execution_supported_def ensure_execution_supported_def unknown_architecture)

lemma ensure_not_panic [simp]: "\<not> is_panic (ensure_model_execution_supported show_value m)"
  by (simp add: ensure_model_execution_supported_def ensure_execution_supported_def is_panic_rbind split: option.split)

lemma config_panic: "is_panic (llama_config_from_gguf show_value m) \<longleftrightarrow> zero_heads show_value m"
proof (cases "ensure_model_execution_supported show_value m")
  case (Ok u)
  obtain arch where "architecture (info show_value m) = Some arch"
    using ensure_supported_architecture [of show_value m] Ok by auto
  then show ?thesis
    using Ok by (auto simp: llama_config_from_gguf_def zero_heads_def Let_def is_panic_rbind ok_or_eq_Ok
        not_None_eq [symmetric] simp del: not_None_eq split: if_splits)
next
  case (Err e)
  then show ?thesis by (simp add: llama_config_from_gguf_def zero_heads_def Let_def)
next
  case (Panic msg)
  then show ?thesis using ensure_not_panic [of show_value m] by simp
qed

lemma estimate_not_panic [simp]: "\<not> is_panic (estimate_layer_memory ds)"
proof -
  have "\<not> is_panic (load_tensor d st)" for d st
    by (cases st) (auto simp: load_tensor_def is_panic_rbind tensor_load_charge_bytes_def Let_def)
  then have "\<not> is_panic (load_tensors ds st)" for st
    by (induction ds arbitrary: st) (simp_all add: is_panic_rbind)
  then show ?thesis by (auto simp: estimate_layer_memory_def is_panic_rbind)
qed

lemma plan_layers_not_panic [simp]: "\<not> is_panic (plan_layers ls s)"
proof -
  have "\<not> is_panic (plan_layer l s)" for l s
    by (auto simp: plan_layer_def is_panic_rbind add_labelled_def Let_def)
  then show ?thesis by (induction ls arbitrary: s) (simp_all add: is_panic_rbind)
qed

lemma plan_persistents_not_panic [simp]: "\<not> is_panic (plan_persistents budget ds s)"
proof -
  have "\<not> is_panic (resident_bytes_for t n b)" for t n b by (simp add: resident_bytes_for_def)
  then have "\<not> is_panic (plan_persistent budget d s)" for d s
    by (auto simp: plan_persistent_def is_panic_rbind add_labelled_def tensor_load_charge_bytes_def Let_def)
  then show ?thesis by (induction ds arbitrary: s) (simp_all add: is_panic_rbind)
qed

lemma execution_memory_panic: "is_panic (plan_execution_memory show_value m budget) \<longleftrightarrow> zero_heads show_value m"
  by (auto simp: plan_execution_memory_def is_panic_rbind config_panic validate_required_tensors_def add_labelled_def Let_def)

lemma plan_cache_capacity_eq:
  assumes "ram \<le> U64_MAX"
  shows "plan_cache_capacity ram =
    Ok (if ram < 2 * 1024 * 1024 then ram div 2 else min (max (4 * ram div 5) (1024 * 1024)) (ram - 1024 * 1024))"
proof -
  have split: "ram = 5 * (ram div 5) + ram mod 5" by simp
  have "4 * ram div 5 = ram div 5 * 4 + ram mod 5 * 4 div 5"
    by (subst (1) split, simp only: distrib_left)
  moreover have "ram div 5 * 4 \<le> ram" "4 * ram div 5 \<le> ram" by simp_all
  ultimately show ?thesis
    using assms by (simp add: plan_cache_capacity_def checked_exact(1,3) saturating_sub_def)
qed

text \<open>
  C31: The outcome of planning a model. A zero budget is the only error; the call panics exactly when
  the metadata of a supported model give a head count of 0; every other model gets a plan, whose cache
  bound is four fifths of the budget kept between 1 MiB and the budget less 1 MiB, half of a budget
  under 2 MiB, whose file-backed rest is what exceeds the budget, and which has either the memory plan
  of the execution or the error that prevents it.
\<close>

theorem plan_model_outcome:
  assumes "ram \<le> U64_MAX"
  shows "(plan_model show_value m ram = Err (PlanBudget (InvalidSize 0)) \<longleftrightarrow> ram = 0)
    \<and> (is_panic (plan_model show_value m ram) \<longleftrightarrow> 0 < ram \<and> zero_heads show_value m)
    \<and> (0 < ram \<and> \<not> zero_heads show_value m \<longrightarrow> (\<exists>p. plan_model show_value m ram = Ok p
        \<and> sp_cache_capacity p = (if ram < 2 * 1024 * 1024 then ram div 2
            else min (max (4 * ram div 5) (1024 * 1024)) (ram - 1024 * 1024))
        \<and> sp_cache_capacity p < ram \<and> sp_file_backed_needed p = file_size m - ram
        \<and> (sp_execution_memory p = None \<longleftrightarrow> sp_execution_preflight_error p \<noteq> None)))"
proof -
  have avail: "available_bytes \<lparr>total = ram, allocations = [], used = 0, peak_used = 0\<rparr> = Some ram"
    by (simp add: available_bytes_def)
  show ?thesis
  proof (cases "plan_execution_memory show_value m ram")
    case (Ok em)
    then have "\<not> zero_heads show_value m" using execution_memory_panic [of show_value m ram] by simp
    then show ?thesis using Ok by (simp add: plan_model_def budget_new_def plan_cache_capacity_eq [OF assms] avail min_less_iff_disj Let_def)
  next
    case (Err e)
    then have "\<not> zero_heads show_value m" using execution_memory_panic [of show_value m ram] by simp
    then show ?thesis using Err by (simp add: plan_model_def budget_new_def plan_cache_capacity_eq [OF assms] avail min_less_iff_disj Let_def)
  next
    case (Panic msg)
    then have "zero_heads show_value m" using execution_memory_panic [of show_value m ram] by simp
    then show ?thesis using Panic by (simp add: plan_model_def budget_new_def plan_cache_capacity_eq [OF assms] avail min_less_iff_disj Let_def)
  qed
qed

text \<open>A model whose metadata say 0 heads.\<close>

definition headless_model :: gguf_model where
  "headless_model = example_model\<lparr>metadata := om_put ''llama.attention.head_count'' (UInt32 0) (metadata example_model)\<rparr>"

lemma headless_zero_heads: "zero_heads (\<lambda>_. []) headless_model"
proof -
  have "architecture (info (\<lambda>_. []) headless_model) = Some ''llama''"
    by (simp add: info_def model_architecture_def get_string_def get_metadata_def headless_model_def example_model_def Let_def)
  moreover have "unsupported_inference_tensor_formats headless_model = []"
    unfolding unsupported_formats_Nil
    by (simp add: headless_model_def example_model_def example_tensor_def ggml_type_supported_for_inference_def)
  moreover have "get_u64_arch headless_model ''llama'' ''vocab_size'' = Some 10"
    "get_u64_arch headless_model ''llama'' ''context_length'' = Some 16"
    "get_u64_arch headless_model ''llama'' ''embedding_length'' = Some 8"
    "get_u64_arch headless_model ''llama'' ''block_count'' = Some 1"
    "get_u64_arch headless_model ''llama'' ''feed_forward_length'' = Some 16"
    "get_u64_arch headless_model ''llama'' ''attention.head_count'' = Some 0"
    by (simp_all add: get_u64_arch_def arch_keys_def get_u64_def get_metadata_def headless_model_def example_model_def)
  ultimately show ?thesis
    by (simp add: zero_heads_def ensure_model_execution_supported_def llama_supported)
qed

theorem plan_model_outcome_witness:
  "is_panic (plan_model (\<lambda>_. []) headless_model 1000) \<and> is_ok (plan_model (\<lambda>_. []) example_model 1000)"
proof -
  have bound: "(1000::nat) \<le> U64_MAX" by (simp add: U64_MAX_def)
  have "\<not> zero_heads (\<lambda>_. []) example_model"
    by (simp add: zero_heads_def example_architecture example_keys)
  then show ?thesis
    using plan_model_outcome [OF bound, of "\<lambda>_. []" headless_model] headless_zero_heads
      plan_model_outcome [OF bound, of "\<lambda>_. []" example_model] by auto
qed

end
