(* ===== verification/Planner_Profiles.thy ===== *)
theory Planner_Profiles
  imports Static_Plan
begin

section \<open>Profiles and capabilities\<close>

text \<open>
  The first half of \<open>crates/ramforge-runtime/src/planner.rs\<close>: what the planner knows of the user, the
  machine, the model and the storage, the validation of each, their fingerprints, and the capabilities
  derived from them. A fingerprint is a \<open>64 word\<close>: FNV-1a over the bytes of the facts, its
  \<open>wrapping_mul\<close> the multiplication of words. A path is its bytes; a \<open>BTreeSet\<close> is the list of its
  elements in order.
\<close>

unbundle bit_operations_syntax

subsection \<open>Fingerprints\<close>

type_synonym fingerprint = "64 word"

definition fingerprint_start :: fingerprint where
  "fingerprint_start = 0xcbf29ce484222325"

definition fingerprint_byte :: "fingerprint \<Rightarrow> byte \<Rightarrow> fingerprint" where
  "fingerprint_byte hash b = (hash XOR ucast b) * 0x100000001b3"

definition fingerprint_u64 :: "fingerprint \<Rightarrow> u64 \<Rightarrow> fingerprint" where
  "fingerprint_u64 hash v = foldl fingerprint_byte hash (le_bytes 8 v)"

definition fingerprint_str :: "fingerprint \<Rightarrow> string \<Rightarrow> fingerprint" where
  "fingerprint_str hash s =
     foldl fingerprint_byte (fingerprint_u64 hash (length s)) (map (\<lambda>c. of_nat (of_char c)) s)"

subsection \<open>Errors\<close>

datatype feasibility_rejection =
    AdvancedOverrideRequiresAdvancedMode
  | RamBudgetExceedsTotalRam
  | RamBudgetExceedsAvailableRam
  | StorageNotUsable
  | StorageModelSizeMismatch
  | MachineMemoryUnavailable
  | CpuBackendUnavailable
  | ModelNotExecutable
  | ExecutionPreflightUnavailable
  | StaticPlanDoesNotMatchProfiles
  | ManagedMemoryLowerBoundExceedsBudget
  | GpuRequiredButUnavailable
  | RequestedThreadCountUnavailable
  | LayerCacheRequiredButUnavailable
  | LayerCacheCapacityExceedsStaticCapacity
  | LayerCacheCapacityCannotFitCompleteLayer
  | ReadCoalescingRequiredButUnavailable
  | GroupedReadBufferReuseRequiredButUnavailable

datatype planner_error = InvalidProfile string string | Infeasible feasibility_rejection

subsection \<open>The user\<close>

definition PROFILE_SCHEMA_VERSION :: nat where "PROFILE_SCHEMA_VERSION = 2"

datatype operating_mode = BackgroundConstrained | BalancedNormal | MaximumPerformance | Advanced

datatype gpu_preference = GpuDisabled | GpuPrefer | GpuRequire

datatype calibration_level = NoCalibration | Quick | Standard | Thorough

fun calibration_rank :: "calibration_level \<Rightarrow> nat" where
  "calibration_rank NoCalibration = 0"
| "calibration_rank Quick = 1"
| "calibration_rank Standard = 2"
| "calibration_rank Thorough = 3"

record advanced_overrides =
  ao_thread_count :: "usize option"
  ao_layer_cache_enabled :: "bool option"
  ao_layer_cache_capacity_bytes :: "u64 option"
  ao_read_coalescing_enabled :: "bool option"
  ao_grouped_read_buffer_reuse_enabled :: "bool option"
  ao_gpu_device_id :: "string option"

definition advanced_default :: advanced_overrides where
  "advanced_default =
     \<lparr>ao_thread_count = None, ao_layer_cache_enabled = None, ao_layer_cache_capacity_bytes = None,
      ao_read_coalescing_enabled = None, ao_grouped_read_buffer_reuse_enabled = None, ao_gpu_device_id = None\<rparr>"

definition advanced_is_empty :: "advanced_overrides \<Rightarrow> bool" where
  "advanced_is_empty a \<longleftrightarrow> ao_thread_count a = None \<and> ao_layer_cache_enabled a = None
     \<and> ao_layer_cache_capacity_bytes a = None \<and> ao_read_coalescing_enabled a = None
     \<and> ao_grouped_read_buffer_reuse_enabled a = None \<and> ao_gpu_device_id a = None"

record user_profile =
  up_schema_version :: nat
  up_ram_budget_bytes :: u64
  up_mode :: operating_mode
  up_cpu_thread_limit :: "usize option"
  up_gpu_preference :: gpu_preference
  up_calibration_level :: calibration_level
  up_advanced :: advanced_overrides

definition user_new :: "u64 \<Rightarrow> operating_mode \<Rightarrow> user_profile" where
  "user_new ram m =
     \<lparr>up_schema_version = PROFILE_SCHEMA_VERSION, up_ram_budget_bytes = ram, up_mode = m,
      up_cpu_thread_limit = None, up_gpu_preference = GpuDisabled, up_calibration_level = NoCalibration,
      up_advanced = advanced_default\<rparr>"

definition user_validate :: "user_profile \<Rightarrow> (unit, planner_error) result" where
  "user_validate u =
     (let invalid = (\<lambda>field. Err (InvalidProfile ''UserProfile'' field)); a = up_advanced u in
      if up_schema_version u \<noteq> PROFILE_SCHEMA_VERSION then invalid ''schema_version''
      else if up_ram_budget_bytes u = 0 then invalid ''ram_budget_bytes''
      else if up_cpu_thread_limit u = Some 0 then invalid ''cpu_thread_limit''
      else if up_mode u \<noteq> Advanced \<and> \<not> advanced_is_empty a
        then Err (Infeasible AdvancedOverrideRequiresAdvancedMode)
      else if ao_thread_count a = Some 0 then invalid ''advanced.thread_count''
      else if ao_layer_cache_capacity_bytes a = Some 0 then invalid ''advanced.layer_cache_capacity_bytes''
      else if (case ao_layer_cache_capacity_bytes a of Some bytes \<Rightarrow> up_ram_budget_bytes u < bytes | None \<Rightarrow> False)
        then invalid ''advanced.layer_cache_capacity_bytes''
      else if ao_layer_cache_enabled a = Some False \<and> ao_layer_cache_capacity_bytes a \<noteq> None
        then invalid ''disabled layer cache has a capacity override''
      else if ao_gpu_device_id a \<noteq> None \<and> up_gpu_preference u = GpuDisabled
        then invalid ''GPU device selected while GPU use is disabled''
      else Ok ())"

subsection \<open>The machine\<close>

datatype cpu_feature = Avx2

datatype discovery_state = Complete | Partial | DiscoveryUnavailable

fun discovery_number :: "discovery_state \<Rightarrow> nat" where
  "discovery_number Complete = 0"
| "discovery_number Partial = 1"
| "discovery_number DiscoveryUnavailable = 2"

record availability =
  av_detected :: bool
  av_supported :: bool
  av_usable :: bool

definition availability_unavailable :: availability where
  "availability_unavailable = \<lparr>av_detected = False, av_supported = False, av_usable = False\<rparr>"

definition availability_validate :: "string \<Rightarrow> availability \<Rightarrow> (unit, planner_error) result" where
  "availability_validate profile a =
     (if av_supported a \<and> \<not> av_detected a then Err (InvalidProfile profile ''supported but not detected'')
      else if av_usable a \<and> \<not> av_supported a then Err (InvalidProfile profile ''usable but not supported'')
      else Ok ())"

definition fingerprint_availability :: "fingerprint \<Rightarrow> availability \<Rightarrow> fingerprint" where
  "fingerprint_availability hash a =
     fingerprint_u64 (fingerprint_u64 (fingerprint_u64 hash (of_bool (av_detected a)))
       (of_bool (av_supported a))) (of_bool (av_usable a))"

record gpu_device_profile =
  gd_identifier :: string
  gd_vendor :: "string option"
  gd_device_id :: "string option"
  gd_name :: "string option"
  gd_dedicated_memory_bytes :: "u64 option"
  gd_backend :: availability

record machine_profile =
  mp_schema_version :: nat
  mp_os :: string
  mp_architecture :: string
  mp_kernel_version :: "string option"
  mp_cpu_vendor :: "string option"
  mp_cpu_model :: "string option"
  mp_physical_cpu_cores :: "usize option"
  mp_logical_cpu_cores :: usize
  mp_cpu_features :: "cpu_feature list"
  mp_total_ram_bytes :: "u64 option"
  mp_available_ram_bytes :: "u64 option"
  mp_cpu_backend :: availability
  mp_gpu_inventory_state :: discovery_state
  mp_gpus :: "gpu_device_profile list"

fun validate_gpus :: "string list \<Rightarrow> gpu_device_profile list \<Rightarrow> (unit, planner_error) result" where
  "validate_gpus seen [] = Ok ()"
| "validate_gpus seen (gpu # gpus) =
     (if gd_identifier gpu = [] \<or> \<not> av_detected (gd_backend gpu) \<or> gd_identifier gpu \<in> set seen
      then Err (InvalidProfile ''MachineProfile'' ''GPU identifier/detection state'')
      else rbind (availability_validate ''MachineProfile.gpu.backend'' (gd_backend gpu))
        (\<lambda>_. validate_gpus (gd_identifier gpu # seen) gpus))"

definition machine_validate :: "machine_profile \<Rightarrow> (unit, planner_error) result" where
  "machine_validate m =
     (let invalid = (\<lambda>field. Err (InvalidProfile ''MachineProfile'' field)) in
      if mp_schema_version m \<noteq> PROFILE_SCHEMA_VERSION then invalid ''schema_version''
      else if mp_os m = [] \<or> mp_architecture m = [] then invalid ''platform''
      else if mp_logical_cpu_cores m = 0 \<or> mp_physical_cpu_cores m = Some 0 then invalid ''cpu core count''
      else if mp_total_ram_bytes m = Some 0 \<or> mp_available_ram_bytes m = Some 0
          \<or> (mp_total_ram_bytes m = None \<and> mp_available_ram_bytes m \<noteq> None)
          \<or> (case (mp_total_ram_bytes m, mp_available_ram_bytes m) of
               (Some t, Some available) \<Rightarrow> t < available | _ \<Rightarrow> False)
        then invalid ''RAM values''
      else rbind (availability_validate ''MachineProfile.cpu_backend'' (mp_cpu_backend m)) (\<lambda>_.
        if mp_gpu_inventory_state m = DiscoveryUnavailable \<and> mp_gpus m \<noteq> []
        then invalid ''GPU inventory state''
        else validate_gpus [] (mp_gpus m)))"

definition unwrap_str :: "string option \<Rightarrow> string" where
  "unwrap_str x = (case x of Some s \<Rightarrow> s | None \<Rightarrow> [])"

definition unwrap_u64 :: "u64 \<Rightarrow> u64 option \<Rightarrow> u64" where
  "unwrap_u64 d x = (case x of Some v \<Rightarrow> v | None \<Rightarrow> d)"

definition fingerprint_gpu :: "fingerprint \<Rightarrow> gpu_device_profile \<Rightarrow> fingerprint" where
  "fingerprint_gpu hash gpu =
     fingerprint_availability
       (fingerprint_u64
         (foldl fingerprint_str hash
           [gd_identifier gpu, unwrap_str (gd_vendor gpu), unwrap_str (gd_device_id gpu), unwrap_str (gd_name gpu)])
         (unwrap_u64 0 (gd_dedicated_memory_bytes gpu)))
       (gd_backend gpu)"

fun cpu_feature_number :: "cpu_feature \<Rightarrow> nat" where
  "cpu_feature_number Avx2 = 0"

definition machine_fingerprint :: "machine_profile \<Rightarrow> fingerprint" where
  "machine_fingerprint m =
     (let platform = foldl fingerprint_str fingerprint_start
            [mp_os m, mp_architecture m, unwrap_str (mp_cpu_vendor m), unwrap_str (mp_cpu_model m)];
          numbers = foldl fingerprint_u64 platform
            [unwrap_u64 0 (mp_physical_cpu_cores m), mp_logical_cpu_cores m, unwrap_u64 0 (mp_total_ram_bytes m)];
          features = foldl (\<lambda>hash f. fingerprint_u64 hash (cpu_feature_number f + 1)) numbers (mp_cpu_features m);
          backends = fingerprint_u64 (fingerprint_availability features (mp_cpu_backend m))
            (discovery_number (mp_gpu_inventory_state m)) in
      foldl fingerprint_gpu backends (sort_key gd_identifier (mp_gpus m)))"

subsection \<open>The model\<close>

datatype model_execution_compatibility = Executable | InspectPlanOnly | UnknownModelArchitecture

record model_identity =
  mid_display_name :: "string option"
  mid_descriptor_fingerprint :: fingerprint

record tensor_format_profile =
  tf_format :: string
  tf_tensor_count :: usize
  tf_element_count :: "u64 option"
  tf_byte_count :: "u64 option"
  tf_runtime_supported :: bool

record format_accumulator =
  fa_tensor_count :: usize
  fa_element_count :: "u64 option"
  fa_byte_count :: "u64 option"
  fa_runtime_supported :: bool

record model_profile =
  mo_schema_version :: nat
  mo_identity :: model_identity
  mo_architecture :: "string option"
  mo_context_size :: "u64 option"
  mo_layer_count :: "u64 option"
  mo_tensor_count :: usize
  mo_total_tensor_elements :: "u64 option"
  mo_file_size_bytes :: u64
  mo_tensor_data_bytes :: "u64 option"
  mo_tensor_formats :: "tensor_format_profile list"
  mo_execution_compatibility :: model_execution_compatibility
  mo_has_coalescible_layer_reads :: bool
  mo_has_reusable_grouped_read_candidate :: bool

definition fingerprint_tensor :: "fingerprint \<Rightarrow> tensor_descriptor \<Rightarrow> fingerprint" where
  "fingerprint_tensor hash t =
     foldl fingerprint_u64 (fingerprint_str hash (td_name t))
       ([ggml_as_u32 (td_type t), td_offset t, unwrap_u64 U64_MAX (byte_length t), num_elements t] @ dimensions t)"

definition model_descriptor_fingerprint :: "(metadata_value \<Rightarrow> string) \<Rightarrow> gguf_model \<Rightarrow> fingerprint" where
  "model_descriptor_fingerprint show_value m =
     (let i = info show_value m;
          header = foldl fingerprint_u64 fingerprint_start [gm_version m, file_size m, alignment m];
          names = foldl fingerprint_str header
            [unwrap_str (architecture i), unwrap_str (mi_name i), unwrap_str (tokenizer_model i)];
          numbers = foldl (\<lambda>hash v. fingerprint_u64 hash (unwrap_u64 U64_MAX v)) names
            [context_length i, embedding_length i, block_count i, head_count i, head_count_kv i,
             expert_count i, expert_used_count i, file_type i, vocab_size i] in
      foldl fingerprint_tensor numbers (tensors m))"

definition add_elements :: "u64 option \<Rightarrow> tensor_descriptor \<Rightarrow> u64 option" where
  "add_elements acc t = Option.bind acc (\<lambda>n. checked_add n (num_elements t))"

definition accumulate_format ::
  "(string, format_accumulator) omap \<Rightarrow> tensor_descriptor \<Rightarrow> (string, format_accumulator) omap"
where
  "accumulate_format formats t =
     (let key = ggml_name (td_type t);
          entry = (case om_get formats key of
            Some e \<Rightarrow> e
          | None \<Rightarrow> \<lparr>fa_tensor_count = 0, fa_element_count = Some 0, fa_byte_count = Some 0,
              fa_runtime_supported = ggml_type_supported_for_inference (td_type t)\<rparr>) in
      om_put key
        (entry\<lparr>fa_tensor_count := wrapping_add (fa_tensor_count entry) 1,
           fa_element_count := add_elements (fa_element_count entry) t,
           fa_byte_count := (case (fa_byte_count entry, byte_length t) of
             (Some bytes, Some b) \<Rightarrow> checked_add bytes b | _ \<Rightarrow> None)\<rparr>) formats)"

definition tensor_formats :: "gguf_model \<Rightarrow> tensor_format_profile list" where
  "tensor_formats m =
     map (\<lambda>(format, e). \<lparr>tf_format = format, tf_tensor_count = fa_tensor_count e,
         tf_element_count = fa_element_count e, tf_byte_count = fa_byte_count e,
         tf_runtime_supported = fa_runtime_supported e\<rparr>)
       (foldl accumulate_format [] (tensors m))"

definition execution_compatibility :: "(metadata_value \<Rightarrow> string) \<Rightarrow> gguf_model \<Rightarrow> model_execution_compatibility" where
  "execution_compatibility show_value m =
     (case Option.bind (architecture (info show_value m)) architecture_capability of
        Some c \<Rightarrow> if ac_legacy_run c = Supported \<and> unsupported_inference_tensor_formats m = []
          then Executable else InspectPlanOnly
      | None \<Rightarrow> UnknownModelArchitecture)"

definition layer_plans :: "(metadata_value \<Rightarrow> string) \<Rightarrow> gguf_model \<Rightarrow> layer_read_plan list" where
  "layer_plans show_value m =
     (case block_count (info show_value m) of
        None \<Rightarrow> []
      | Some blocks \<Rightarrow> List.map_filter (\<lambda>layer.
          (case build_layer_read_plan (ld_tensors layer) of Ok plan \<Rightarrow> Some plan | _ \<Rightarrow> None))
          (group_layers m blocks))"

definition model_from_gguf :: "(metadata_value \<Rightarrow> string) \<Rightarrow> gguf_model \<Rightarrow> model_profile" where
  "model_from_gguf show_value m =
     (let i = info show_value m; plans = layer_plans show_value m in
      \<lparr>mo_schema_version = PROFILE_SCHEMA_VERSION,
       mo_identity = \<lparr>mid_display_name = mi_name i,
         mid_descriptor_fingerprint = model_descriptor_fingerprint show_value m\<rparr>,
       mo_architecture = architecture i, mo_context_size = context_length i, mo_layer_count = block_count i,
       mo_tensor_count = length (tensors m),
       mo_total_tensor_elements = foldl add_elements (Some 0) (tensors m),
       mo_file_size_bytes = file_size m, mo_tensor_data_bytes = total_tensor_bytes m,
       mo_tensor_formats = tensor_formats m,
       mo_execution_compatibility = execution_compatibility show_value m,
       mo_has_coalescible_layer_reads = list_ex (\<lambda>p. list_ex (\<lambda>r. length (pr_tensors r) > 1) (lp_ranges p)) plans,
       mo_has_reusable_grouped_read_candidate = list_ex (\<lambda>p. reusable_group_buffer_bytes p \<noteq> None) plans\<rparr>)"

fun represented_tensors :: "string list \<Rightarrow> usize \<Rightarrow> tensor_format_profile list \<Rightarrow> usize option" where
  "represented_tensors seen acc [] = Some acc"
| "represented_tensors seen acc (f # fs) =
     (if tf_format f = [] \<or> tf_tensor_count f = 0 \<or> tf_format f \<in> set seen then None
      else Option.bind (checked_add acc (tf_tensor_count f)) (\<lambda>acc. represented_tensors (tf_format f # seen) acc fs))"

definition model_validate :: "model_profile \<Rightarrow> (unit, planner_error) result" where
  "model_validate m =
     (let invalid = (\<lambda>field. Err (InvalidProfile ''ModelProfile'' field)) in
      if mo_schema_version m \<noteq> PROFILE_SCHEMA_VERSION then invalid ''schema_version''
      else if mid_descriptor_fingerprint (mo_identity m) = 0 then invalid ''descriptor_fingerprint''
      else if represented_tensors [] 0 (mo_tensor_formats m) \<noteq> Some (mo_tensor_count m)
        then invalid ''tensor distribution''
      else Ok ())"

subsection \<open>The storage\<close>

datatype storage_kind =
    StorageUnknown | Local | Nvme | SolidState | Rotational | Network | Removable | MemoryBacked

fun storage_kind_number :: "storage_kind \<Rightarrow> nat" where
  "storage_kind_number StorageUnknown = 0"
| "storage_kind_number Local = 1"
| "storage_kind_number Nvme = 2"
| "storage_kind_number SolidState = 3"
| "storage_kind_number Rotational = 4"
| "storage_kind_number Network = 5"
| "storage_kind_number Removable = 6"
| "storage_kind_number MemoryBacked = 7"

datatype storage_path_state = Unverified | Ready

record storage_profile =
  st_schema_version :: nat
  st_model_path :: string
  st_path_state :: storage_path_state
  st_readable :: bool
  st_regular_file :: bool
  st_file_size_bytes :: "u64 option"
  st_filesystem_type :: "string option"
  st_filesystem_id :: "string option"
  st_device_id :: "string option"
  st_kind :: storage_kind
  st_seekable :: bool

definition for_model_path :: "string \<Rightarrow> storage_profile" where
  "for_model_path path =
     \<lparr>st_schema_version = PROFILE_SCHEMA_VERSION, st_model_path = path, st_path_state = Unverified,
      st_readable = False, st_regular_file = False, st_file_size_bytes = None, st_filesystem_type = None,
      st_filesystem_id = None, st_device_id = None, st_kind = StorageUnknown, st_seekable = False\<rparr>"

definition storage_validate :: "storage_profile \<Rightarrow> (unit, planner_error) result" where
  "storage_validate s =
     (let invalid = (\<lambda>field. Err (InvalidProfile ''StorageProfile'' field)) in
      if st_schema_version s \<noteq> PROFILE_SCHEMA_VERSION then invalid ''schema_version''
      else if st_model_path s = [] then invalid ''model_path''
      else if st_path_state s = Ready \<and> (\<not> st_readable s \<or> \<not> st_regular_file s \<or> st_file_size_bytes s = None)
        then invalid ''ready path facts''
      else if st_path_state s = Unverified \<and> (st_readable s \<or> st_regular_file s \<or> st_file_size_bytes s \<noteq> None)
        then invalid ''unverified path has verified facts''
      else Ok ())"

definition storage_fingerprint :: "storage_profile \<Rightarrow> fingerprint" where
  "storage_fingerprint s =
     foldl fingerprint_u64
       (foldl fingerprint_str fingerprint_start
         [unwrap_str (st_filesystem_type s), unwrap_str (st_filesystem_id s), unwrap_str (st_device_id s)])
       [storage_kind_number (st_kind s), of_bool (st_seekable s)]"

subsection \<open>Capabilities\<close>

datatype strategy_id = CpuLayerStreaming | GpuLayerOffload

record strategy_definition =
  sd_id :: strategy_id
  sd_runtime_available :: bool
  sd_requires_gpu :: bool

definition GPU_EXECUTION_IMPLEMENTED :: bool where "GPU_EXECUTION_IMPLEMENTED \<longleftrightarrow> False"

definition STRATEGY_REGISTRY :: "strategy_definition list" where
  "STRATEGY_REGISTRY =
     [\<lparr>sd_id = CpuLayerStreaming, sd_runtime_available = True, sd_requires_gpu = False\<rparr>,
      \<lparr>sd_id = GpuLayerOffload, sd_runtime_available = GPU_EXECUTION_IMPLEMENTED, sd_requires_gpu = True\<rparr>]"

record capability_set =
  ca_schema_version :: nat
  ca_machine_fingerprint :: fingerprint
  ca_model_fingerprint :: fingerprint
  ca_storage_fingerprint :: fingerprint
  ca_storage_usable :: bool
  ca_cpu_backend_usable :: bool
  ca_cpu_simd_avx2 :: bool
  ca_gpu_backend_usable :: bool
  ca_model_execution_compatible :: bool
  ca_layer_cache_possible :: bool
  ca_read_coalescing_possible :: bool
  ca_grouped_read_buffer_reuse_possible :: bool
  ca_supported_tensor_formats :: "string list"
  ca_unsupported_tensor_formats :: "string list"

definition storage_is_usable :: "storage_profile \<Rightarrow> bool" where
  "storage_is_usable s \<longleftrightarrow> st_path_state s = Ready \<and> st_readable s \<and> st_regular_file s \<and> st_seekable s"

definition cpu_strategy_available :: bool where
  "cpu_strategy_available \<longleftrightarrow>
     list_ex (\<lambda>s. sd_id s = CpuLayerStreaming \<and> \<not> sd_requires_gpu s \<and> sd_runtime_available s) STRATEGY_REGISTRY"

definition gpu_strategy_available :: bool where
  "gpu_strategy_available \<longleftrightarrow>
     list_ex (\<lambda>s. sd_id s = GpuLayerOffload \<and> sd_requires_gpu s \<and> sd_runtime_available s) STRATEGY_REGISTRY"

definition capability_derive ::
  "machine_profile \<Rightarrow> model_profile \<Rightarrow> storage_profile \<Rightarrow> plan_result \<Rightarrow> capability_set"
where
  "capability_derive machine model storage static_plan =
     (let execution = sp_execution_memory static_plan;
          usable = storage_is_usable storage;
          supported = map tf_format (filter tf_runtime_supported (mo_tensor_formats model));
          unsupported = map tf_format (filter (\<lambda>f. \<not> tf_runtime_supported f) (mo_tensor_formats model)) in
      \<lparr>ca_schema_version = PROFILE_SCHEMA_VERSION,
       ca_machine_fingerprint = machine_fingerprint machine,
       ca_model_fingerprint = mid_descriptor_fingerprint (mo_identity model),
       ca_storage_fingerprint = storage_fingerprint storage,
       ca_storage_usable = usable,
       ca_cpu_backend_usable = (av_usable (mp_cpu_backend machine) \<and> cpu_strategy_available),
       ca_cpu_simd_avx2 = (av_usable (mp_cpu_backend machine) \<and> cpu_strategy_available
         \<and> Avx2 \<in> set (mp_cpu_features machine)),
       ca_gpu_backend_usable = (list_ex (\<lambda>gpu. av_usable (gd_backend gpu)) (mp_gpus machine) \<and> gpu_strategy_available),
       ca_model_execution_compatible = (mo_execution_compatibility model = Executable
         \<and> execution \<noteq> None \<and> unsupported = []),
       ca_layer_cache_possible = (case execution of
           Some memory \<Rightarrow> 0 < em_min_layer_resident_bytes memory
             \<and> em_min_layer_resident_bytes memory \<le> em_layer_cache_capacity_bytes memory
         | None \<Rightarrow> False),
       ca_read_coalescing_possible = (execution \<noteq> None \<and> usable \<and> mo_has_coalescible_layer_reads model),
       ca_grouped_read_buffer_reuse_possible = (execution \<noteq> None \<and> usable
         \<and> mo_has_reusable_grouped_read_candidate model),
       ca_supported_tensor_formats = supported,
       ca_unsupported_tensor_formats = unsupported\<rparr>)"

subsection \<open>What a fingerprint tells apart\<close>

lemma fingerprint_byte_hash [simp]: "fingerprint_byte h b = fingerprint_byte h' b \<longleftrightarrow> h = h'"
proof
  assume "fingerprint_byte h b = fingerprint_byte h' b"
  then have "(h XOR ucast b) * 0x100000001b3 * 0xce965057aff6957b = (h' XOR ucast b) * 0x100000001b3 * 0xce965057aff6957b"
    by (simp add: fingerprint_byte_def)
  moreover have "x * 0x100000001b3 * 0xce965057aff6957b = x" for x :: "64 word"
  proof -
    have "(0x100000001b3 :: 64 word) * 0xce965057aff6957b = 1" by simp
    then show ?thesis by (simp only: mult.assoc mult_1_right)
  qed
  ultimately have "h XOR ucast b = h' XOR ucast b" by simp
  then have "(h XOR ucast b) XOR ucast b = (h' XOR ucast b) XOR ucast b" by simp
  then show "h = h'" by (simp only: xor.assoc xor_self_eq xor.right_neutral)
qed simp

lemma fingerprint_byte_byte [simp]: "fingerprint_byte h b = fingerprint_byte h b' \<longleftrightarrow> b = b'"
proof
  assume eq: "fingerprint_byte h b = fingerprint_byte h b'"
  have swap: "fingerprint_byte h c = fingerprint_byte (h XOR ucast c) 0" for c :: byte
    by (simp add: fingerprint_byte_def)
  have "h XOR ucast b = h XOR ucast b'" using eq by (simp only: swap fingerprint_byte_hash)
  then have "h XOR (h XOR ucast b) = h XOR (h XOR ucast b')" by simp
  then have "(ucast b :: fingerprint) = ucast b'" by (simp only: xor.assoc [symmetric] xor_self_eq xor.left_neutral)
  then have "(ucast (ucast b :: fingerprint) :: byte) = ucast (ucast b' :: fingerprint)" by simp
  then show "b = b'" by (simp add: unsigned_ucast_eq take_bit_word_eq_self)
qed simp

lemma fingerprint_bytes_hash [simp]: "foldl fingerprint_byte h bs = foldl fingerprint_byte h' bs \<longleftrightarrow> h = h'"
  by (induction bs arbitrary: h h') simp_all

lemma fingerprint_u64_hash [simp]: "fingerprint_u64 h v = fingerprint_u64 h' v \<longleftrightarrow> h = h'"
  by (simp add: fingerprint_u64_def)

lemma fingerprint_str_hash [simp]: "fingerprint_str h s = fingerprint_str h' s \<longleftrightarrow> h = h'"
  by (simp add: fingerprint_str_def)

lemma fingerprint_fold_hash: "(\<And>h h' x. f h x = f h' x \<longleftrightarrow> h = h') \<Longrightarrow> foldl f h xs = foldl f h' xs \<longleftrightarrow> h = h'"
  by (induction xs arbitrary: h h') simp_all

lemma fingerprint_u64_small [simp]:
  assumes "v < 256" "v' < 256"
  shows "fingerprint_u64 h v = fingerprint_u64 h v' \<longleftrightarrow> v = v'"
proof -
  have "of_nat v = (of_nat v' :: byte) \<longleftrightarrow> v = v'"
    using assms by (auto simp: unat_of_nat take_bit_eq_mod dest: arg_cong [where f = unat])
  moreover have "le_bytes 8 w = of_nat w # le_bytes 7 0" if "w < 256" for w
  proof -
    have "le_bytes (Suc 7) w = of_nat w # le_bytes 7 0" unfolding le_bytes.simps using that by simp
    then show ?thesis by (simp del: le_bytes.simps)
  qed
  ultimately show ?thesis using assms by (simp add: fingerprint_u64_def)
qed


lemma fingerprint_availability_hash [simp]:
  "fingerprint_availability h a = fingerprint_availability h' a \<longleftrightarrow> h = h'"
  by (simp add: fingerprint_availability_def)

lemma fingerprint_gpu_hash [simp]: "fingerprint_gpu h g = fingerprint_gpu h' g \<longleftrightarrow> h = h'"
  by (simp add: fingerprint_gpu_def)

lemma storage_kind_number_small [simp]: "storage_kind_number k < 256"
  by (cases k) simp_all

lemma storage_kind_number_inj [simp]: "storage_kind_number k = storage_kind_number k' \<longleftrightarrow> k = k'"
  by (cases k; cases k') simp_all

lemma discovery_number_small [simp]: "discovery_number d < 256"
  by (cases d) simp_all

lemma discovery_number_inj [simp]: "discovery_number d = discovery_number d' \<longleftrightarrow> d = d'"
  by (cases d; cases d') simp_all

lemma of_bool_small [simp]: "of_bool b < (256 :: nat)"
  by simp

text \<open>
  A fingerprint notices every change of one of its small facts, whatever the rest: of two storages
  that differ only in their kind, or only in whether they seek, and of two machines that differ only in
  the state of the GPU inventory, in the number of logical cores (below 256) or in whether the CPU
  backend is usable, the fingerprints differ; and they do not depend on the path and size of the
  model, nor on the kernel version and the memory available at the moment.
\<close>

theorem fingerprint_separates:
  assumes "cores < 256" "mp_logical_cpu_cores m < 256"
  shows "(storage_fingerprint (s\<lparr>st_kind := k\<rparr>) = storage_fingerprint s \<longleftrightarrow> k = st_kind s)
    \<and> (storage_fingerprint (s\<lparr>st_seekable := b\<rparr>) = storage_fingerprint s \<longleftrightarrow> b = st_seekable s)
    \<and> storage_fingerprint (s\<lparr>st_model_path := path, st_file_size_bytes := bytes, st_path_state := st\<rparr>) = storage_fingerprint s
    \<and> (machine_fingerprint (m\<lparr>mp_gpu_inventory_state := d\<rparr>) = machine_fingerprint m \<longleftrightarrow> d = mp_gpu_inventory_state m)
    \<and> (machine_fingerprint (m\<lparr>mp_logical_cpu_cores := cores\<rparr>) = machine_fingerprint m \<longleftrightarrow> cores = mp_logical_cpu_cores m)
    \<and> (machine_fingerprint (m\<lparr>mp_cpu_backend := (mp_cpu_backend m)\<lparr>av_usable := b\<rparr>\<rparr>) = machine_fingerprint m
        \<longleftrightarrow> b = av_usable (mp_cpu_backend m))
    \<and> machine_fingerprint (m\<lparr>mp_kernel_version := v, mp_available_ram_bytes := bytes\<rparr>) = machine_fingerprint m"
proof -
  have feature: "foldl (\<lambda>hash f. fingerprint_u64 hash (Suc (cpu_feature_number f))) h fs =
      foldl (\<lambda>hash f. fingerprint_u64 hash (Suc (cpu_feature_number f))) h' fs \<longleftrightarrow> h = h'" for h h' fs
    by (rule fingerprint_fold_hash) simp
  have gpu: "foldl fingerprint_gpu h gs = foldl fingerprint_gpu h' gs \<longleftrightarrow> h = h'" for h h' gs
    by (rule fingerprint_fold_hash) simp
  have bools: "(of_bool x = (of_bool y :: nat)) = (x = y)" for x y by auto
  show ?thesis
    using assms by (auto simp: storage_fingerprint_def machine_fingerprint_def Let_def feature gpu
        fingerprint_availability_def bools)
qed

text \<open>A machine with 4 cores and no GPU, and a local storage.\<close>

definition example_machine :: machine_profile where
  "example_machine =
     \<lparr>mp_schema_version = 2, mp_os = ''linux'', mp_architecture = ''x86_64'', mp_kernel_version = None,
      mp_cpu_vendor = None, mp_cpu_model = None, mp_physical_cpu_cores = None, mp_logical_cpu_cores = 4,
      mp_cpu_features = [], mp_total_ram_bytes = Some 4000, mp_available_ram_bytes = Some 2000,
      mp_cpu_backend = \<lparr>av_detected = True, av_supported = True, av_usable = True\<rparr>,
      mp_gpu_inventory_state = DiscoveryUnavailable, mp_gpus = []\<rparr>"

definition example_storage :: storage_profile where
  "example_storage =
     \<lparr>st_schema_version = 2, st_model_path = ''m.gguf'', st_path_state = Ready, st_readable = True,
      st_regular_file = True, st_file_size_bytes = Some 1000, st_filesystem_type = None,
      st_filesystem_id = None, st_device_id = None, st_kind = Local, st_seekable = True\<rparr>"

theorem fingerprint_separates_witness:
  "machine_fingerprint (example_machine\<lparr>mp_logical_cpu_cores := 8\<rparr>) \<noteq> machine_fingerprint example_machine
   \<and> storage_fingerprint (example_storage\<lparr>st_kind := Network\<rparr>) \<noteq> storage_fingerprint example_storage"
  using fingerprint_separates [of 8 example_machine, where s = example_storage and k = Network]
  by (simp add: example_machine_def example_storage_def)

subsection \<open>The profile of a model\<close>

definition tensors_of_format :: "string \<Rightarrow> tensor_descriptor list \<Rightarrow> tensor_descriptor list" where
  "tensors_of_format format ts = filter (\<lambda>t. ggml_name (td_type t) = format) ts"

definition format_summary :: "string \<Rightarrow> tensor_descriptor list \<Rightarrow> format_accumulator option" where
  "format_summary format ts =
     (let same = tensors_of_format format ts in
      if same = [] then None
      else Some \<lparr>fa_tensor_count = length same, fa_element_count = foldl add_elements (Some 0) same,
        fa_byte_count = sum_lengths 0 same,
        fa_runtime_supported = (format \<in> set supported_inference_format_names)\<rparr>)"

lemma ggml_name_not_Nil [simp]: "ggml_name t \<noteq> []"
  by (cases t) simp_all

lemma sum_lengths_snoc:
  "sum_lengths acc (ts @ [t]) =
     (case (sum_lengths acc ts, byte_length t) of (Some bytes, Some b) \<Rightarrow> checked_add bytes b | _ \<Rightarrow> None)"
  by (induction acc ts rule: sum_lengths.induct) (auto simp: checked_add_def split: option.split)

lemma accumulate_format_total:
  assumes "om_ok formats" "om_total fa_tensor_count formats < U64_MAX"
  shows "om_total fa_tensor_count (accumulate_format formats t) = Suc (om_total fa_tensor_count formats)"
proof (cases "om_get formats (ggml_name (td_type t))")
  case None
  then show ?thesis using assms by (simp add: accumulate_format_def om_total_put_new u64_simps)
next
  case (Some e)
  then have "fa_tensor_count e < U64_MAX"
    using om_total_get_le [of formats _ e fa_tensor_count] assms(2) by (meson le_less_trans)
  then have "fa_tensor_count e + 1 \<le> U64_MAX" by simp
  then have "wrapping_add (fa_tensor_count e) 1 = Suc (fa_tensor_count e)"
    by (simp only: wrapping_add_exact Suc_eq_plus1)
  moreover have "om_total fa_tensor_count (om_put (ggml_name (td_type t)) v formats) = Suc (om_total fa_tensor_count formats)"
    if "fa_tensor_count v = Suc (fa_tensor_count e)" for v
    using om_total_put_old [OF assms(1) Some, where f = fa_tensor_count and v = v] that by simp
  ultimately show ?thesis using Some by (simp add: accumulate_format_def Let_def)
qed

lemma formats_of_tensors:
  assumes "length ts \<le> U64_MAX"
  shows "om_ok (foldl accumulate_format [] ts)
    \<and> (\<forall>format. om_get (foldl accumulate_format [] ts) format = format_summary format ts)
    \<and> om_total fa_tensor_count (foldl accumulate_format [] ts) = length ts"
  using assms
proof (induction ts rule: rev_induct)
  case Nil
  show ?case by (simp add: format_summary_def tensors_of_format_def)
next
  case (snoc t ts)
  let ?f = "foldl accumulate_format [] ts" and ?k = "ggml_name (td_type t)"
  have IH: "om_ok ?f" "\<And>format. om_get ?f format = format_summary format ts" "om_total fa_tensor_count ?f = length ts"
    using snoc by auto
  have ok: "om_ok (accumulate_format ?f t)" using IH(1) by (simp add: accumulate_format_def Let_def)
  moreover have "om_get (accumulate_format ?f t) format = format_summary format (ts @ [t])" for format
  proof -
    have "length (tensors_of_format ?k ts) \<le> length ts" by (simp add: tensors_of_format_def)
    then have "length (tensors_of_format ?k ts) + 1 \<le> U64_MAX" using snoc(2) by simp
    then have "wrapping_add (length (tensors_of_format ?k ts)) 1 = Suc (length (tensors_of_format ?k ts))"
      by (simp only: wrapping_add_exact Suc_eq_plus1)
    moreover have "om_get (accumulate_format ?f t) format =
        (if format = ?k then om_get (accumulate_format ?f t) ?k else format_summary format ts)"
      using IH(1,2) by (simp add: accumulate_format_def Let_def)
    ultimately show ?thesis
      using IH(1,2) by (auto simp: accumulate_format_def format_summary_def tensors_of_format_def Let_def
          supported_iff_name sum_lengths_snoc wrapping_add_def U64_MAX_def split: option.split)
  qed
  ultimately show ?case
    using accumulate_format_total [OF IH(1), of t] IH(3) snoc(2) by simp
qed

lemma represented_tensors_ok:
  assumes "distinct (map tf_format fs)" "\<forall>f \<in> set fs. tf_format f \<notin> set seen \<and> tf_format f \<noteq> [] \<and> 0 < tf_tensor_count f"
    "acc + sum_list (map tf_tensor_count fs) \<le> U64_MAX"
  shows "represented_tensors seen acc fs = Some (acc + sum_list (map tf_tensor_count fs))"
  using assms
proof (induction fs arbitrary: seen acc)
  case (Cons f fs)
  have "represented_tensors (tf_format f # seen) (acc + tf_tensor_count f) fs =
      Some (acc + tf_tensor_count f + sum_list (map tf_tensor_count fs))"
    using Cons.prems by (intro Cons.IH) (auto simp: image_iff)
  then show ?case using Cons.prems by (simp add: checked_exact add.assoc)
qed simp


lemma tensor_formats_entry:
  assumes "length (tensors m) \<le> U64_MAX"
  shows "f \<in> set (tensor_formats m) \<longleftrightarrow> tensors_of_format (tf_format f) (tensors m) \<noteq> []
    \<and> tf_tensor_count f = length (tensors_of_format (tf_format f) (tensors m))
    \<and> tf_element_count f = foldl add_elements (Some 0) (tensors_of_format (tf_format f) (tensors m))
    \<and> tf_byte_count f = sum_lengths 0 (tensors_of_format (tf_format f) (tensors m))
    \<and> (tf_runtime_supported f \<longleftrightarrow> tf_format f \<in> set supported_inference_format_names)"
proof -
  have "(format, e) \<in> set (foldl accumulate_format [] (tensors m)) \<longleftrightarrow> format_summary format (tensors m) = Some e" for format e
    using formats_of_tensors [OF assms] om_get_in_set by metis
  then show ?thesis
    by (cases f) (auto simp: tensor_formats_def format_summary_def Let_def image_iff Bex_def split: if_splits prod.splits)
qed

lemma tensor_formats_names: 
  assumes "length (tensors m) \<le> U64_MAX"
  shows "sorted (map tf_format (tensor_formats m))" "distinct (map tf_format (tensor_formats m))"
    "sum_list (map tf_tensor_count (tensor_formats m)) = length (tensors m)"
proof -
  let ?f = "foldl accumulate_format [] (tensors m)"
  have "map tf_format (tensor_formats m) = om_keys ?f" "map tf_tensor_count (tensor_formats m) = map (fa_tensor_count \<circ> snd) ?f"
    by (simp_all add: tensor_formats_def om_keys_def case_prod_beta)
  then show "sorted (map tf_format (tensor_formats m))" "distinct (map tf_format (tensor_formats m))"
    "sum_list (map tf_tensor_count (tensor_formats m)) = length (tensors m)"
    using formats_of_tensors [OF assms] om_keys_sorted [of ?f] by (simp_all add: om_total_def)
qed

lemma executable_iff: "execution_compatibility show_value m = Executable \<longleftrightarrow> ensure_model_execution_supported show_value m = Ok ()"
proof -
  have "architecture_capability (case architecture (info show_value m) of Some a \<Rightarrow> a | None \<Rightarrow> ''unknown'') =
      Option.bind (architecture (info show_value m)) architecture_capability"
    by (cases "architecture (info show_value m)") (simp_all add: unknown_architecture)
  then show ?thesis
    by (auto simp: execution_compatibility_def ensure_model_execution_supported_def ensure_execution_supported_def
        rbind_eq_Ok split: option.split)
qed

lemma executable_formats:
  assumes "length (tensors m) \<le> U64_MAX" "unsupported_inference_tensor_formats m = []"
  shows "filter (\<lambda>f. \<not> tf_runtime_supported f) (tensor_formats m) = []"
proof -
  have "tf_runtime_supported f" if f: "f \<in> set (tensor_formats m)" for f
  proof -
    have some: "tensors_of_format (tf_format f) (tensors m) \<noteq> []"
      and supported: "tf_runtime_supported f \<longleftrightarrow> tf_format f \<in> set supported_inference_format_names"
      using f tensor_formats_entry [OF assms(1), of f] by auto
    then obtain t where "t \<in> set (tensors m)" "ggml_name (td_type t) = tf_format f"
      by (auto simp: tensors_of_format_def filter_empty_conv)
    then show ?thesis using supported assms(2) supported_iff_name [of "td_type t"] by (simp add: unsupported_formats_Nil)
  qed
  then show ?thesis by (simp add: filter_empty_conv)
qed

text \<open>
  The profile of a parsed model is valid, unless its fingerprint happens to be 0; its formats are
  the formats of the tensors, each once and in order, with the number of tensors that have it, their
  bytes and whether the runtime decodes it; and the profile calls the model executable exactly when the
  preflight of the runtime lets it run.
\<close>

theorem model_profile_faithful:
  assumes "length (tensors m) \<le> U64_MAX"
  shows "model_validate (model_from_gguf show_value m) =
      (if model_descriptor_fingerprint show_value m = 0
       then Err (InvalidProfile ''ModelProfile'' ''descriptor_fingerprint'') else Ok ())
    \<and> sorted_wrt (<) (map tf_format (mo_tensor_formats (model_from_gguf show_value m)))
    \<and> tf_format ` set (mo_tensor_formats (model_from_gguf show_value m)) = (\<lambda>t. ggml_name (td_type t)) ` set (tensors m)
    \<and> (\<forall>f \<in> set (mo_tensor_formats (model_from_gguf show_value m)).
        tf_tensor_count f = length (tensors_of_format (tf_format f) (tensors m))
        \<and> tf_byte_count f = sum_lengths 0 (tensors_of_format (tf_format f) (tensors m))
        \<and> (tf_runtime_supported f \<longleftrightarrow> tf_format f \<in> set supported_inference_format_names))
    \<and> (mo_execution_compatibility (model_from_gguf show_value m) = Executable
        \<longleftrightarrow> ensure_model_execution_supported show_value m = Ok ())"
proof -
  note entry = tensor_formats_entry [OF assms]
  have facts: "tf_format f \<noteq> [] \<and> 0 < tf_tensor_count f" if f: "f \<in> set (tensor_formats m)" for f
  proof -
    have "tensors_of_format (tf_format f) (tensors m) \<noteq> []" using f entry [of f] by simp
    then obtain t where "t \<in> set (tensors_of_format (tf_format f) (tensors m))" by (meson last_in_set)
    then show ?thesis using f entry [of f] by (auto simp: tensors_of_format_def)
  qed
  have "represented_tensors [] 0 (tensor_formats m) = Some (length (tensors m))"
    using represented_tensors_ok [of "tensor_formats m" "[]" 0] tensor_formats_names [OF assms] facts assms by simp
  moreover have "tf_format ` set (tensor_formats m) = (\<lambda>t. ggml_name (td_type t)) ` set (tensors m)"
  proof (rule set_eqI)
    fix format
    have "format \<in> tf_format ` set (tensor_formats m) \<longleftrightarrow> tensors_of_format format (tensors m) \<noteq> []"
    proof
      assume "tensors_of_format format (tensors m) \<noteq> []"
      then have "\<lparr>tf_format = format, tf_tensor_count = length (tensors_of_format format (tensors m)),
          tf_element_count = foldl add_elements (Some 0) (tensors_of_format format (tensors m)),
          tf_byte_count = sum_lengths 0 (tensors_of_format format (tensors m)),
          tf_runtime_supported = (format \<in> set supported_inference_format_names)\<rparr> \<in> set (tensor_formats m)"
        by (simp add: entry)
      then show "format \<in> tf_format ` set (tensor_formats m)" by (metis imageI tensor_format_profile.select_convs(1))
    qed (auto simp: entry)
    then show "format \<in> tf_format ` set (tensor_formats m) \<longleftrightarrow> format \<in> (\<lambda>t. ggml_name (td_type t)) ` set (tensors m)"
      unfolding tensors_of_format_def filter_empty_conv image_iff by metis
  qed
  ultimately show ?thesis
    using tensor_formats_names [OF assms] entry
    by (simp add: model_from_gguf_def model_validate_def Let_def executable_iff strict_sorted_iff)
qed

theorem model_profile_faithful_witness:
  "mo_execution_compatibility (model_from_gguf (\<lambda>_. []) example_model) = Executable
   \<and> tf_format ` set (mo_tensor_formats (model_from_gguf (\<lambda>_. []) example_model)) =
      (\<lambda>t. ggml_name (td_type t)) ` set (tensors example_model)"
proof -
  have "length (tensors example_model) \<le> U64_MAX" by (simp add: example_model_def U64_MAX_def)
  from model_profile_faithful [OF this, of "\<lambda>_. []"] show ?thesis by (simp add: example_supported)
qed

end
