(* ===== verification/Execution_Planner.thy ===== *)
theory Execution_Planner
  imports Planner_Profiles "HOL-Library.Multiset"
begin

section \<open>The execution planner\<close>

text \<open>
  The second half of \<open>crates/ramforge-runtime/src/planner.rs\<close>: performance observations and
  calibration results with their validation, the policy of each operating mode, and \<open>Planner::plan\<close>.
  The 128-bit intermediate values are natural numbers; the one operation on them that the code checks
  (\<open>checked_mul\<close> in the aggregate) has its bound written out, the others stay below \<open>2 ^ 128\<close> for
  64-bit inputs. \<open>Option::expect\<close> and the division of \<open>div_ceil\<close> are panics of the model.
\<close>

subsection \<open>Observations\<close>

datatype observation_metric =
    CpuFloatThroughput | SequentialReadThroughput | RandomReadLatency | MemoryBandwidth
  | QuantizedDecodeThroughput | StrategyLatency

datatype observation_unit = BytesPerSecond | ElementsPerSecond | Nanoseconds

datatype observation_status = Measured | StatusUnavailable | Skipped | StatusFailed

datatype observation_status_reason =
    CapabilityUnavailable | DependencyUnavailable | ResourceLimitExceeded | TimeLimitReached
  | TestNotImplemented | IoFailure | InvalidWorkload

record measurement_sample =
  sa_elapsed_ns :: u64
  sa_units_processed :: u64

definition U128_MAX :: nat where "U128_MAX = 2 ^ 128 - 1"

definition unusable_samples :: "measurement_sample list \<Rightarrow> bool" where
  "unusable_samples samples \<longleftrightarrow> list_ex (\<lambda>s. sa_elapsed_ns s = 0 \<or> sa_units_processed s = 0) samples"

definition sample_rate :: "measurement_sample \<Rightarrow> nat" where
  "sample_rate s = sa_units_processed s * 1000000000 div sa_elapsed_ns s"

definition observation_quality_basis_points :: "measurement_sample list \<Rightarrow> nat" where
  "observation_quality_basis_points samples =
     (if samples = [] \<or> unusable_samples samples then 0
      else
        let minimum_rate = foldl min U128_MAX (map sample_rate samples);
            maximum_rate = foldl max 0 (map sample_rate samples) in
        if maximum_rate = 0 then 0
        else 10000 - min ((maximum_rate - minimum_rate) * 10000 div maximum_rate) 10000)"

definition aggregate_observation_value :: "observation_unit \<Rightarrow> measurement_sample list \<Rightarrow> u64 option" where
  "aggregate_observation_value unit samples =
     (if samples = [] \<or> unusable_samples samples then None
      else
        let elapsed_ns = sum_list (map sa_elapsed_ns samples);
            units = sum_list (map sa_units_processed samples);
            aggregate = (if unit = Nanoseconds then Some (elapsed_ns div units)
              else if U128_MAX < units * 1000000000 then None
              else Some (units * 1000000000 div elapsed_ns)) in
        (case aggregate of
           None \<Rightarrow> None
         | Some v \<Rightarrow> if 0 < min v U64_MAX then Some (min v U64_MAX) else None))"

record performance_observation =
  po_identifier :: string
  po_metric :: observation_metric
  po_unit :: observation_unit
  po_value :: "u64 option"
  po_status :: observation_status
  po_status_reason :: "observation_status_reason option"
  po_strategy :: "strategy_id option"
  po_quantization_format :: "string option"
  po_calibration_level :: calibration_level
  po_workload_bytes :: u64
  po_workload_elements :: u64
  po_measurement_duration_ns :: u64
  po_sample_count :: nat
  po_raw_samples :: "measurement_sample list"
  po_timestamp_unix_seconds :: "u64 option"
  po_quality_basis_points :: nat

fun expected_unit :: "observation_metric \<Rightarrow> observation_unit" where
  "expected_unit SequentialReadThroughput = BytesPerSecond"
| "expected_unit MemoryBandwidth = BytesPerSecond"
| "expected_unit CpuFloatThroughput = ElementsPerSecond"
| "expected_unit QuantizedDecodeThroughput = ElementsPerSecond"
| "expected_unit RandomReadLatency = Nanoseconds"
| "expected_unit StrategyLatency = Nanoseconds"

definition observation_validate :: "performance_observation \<Rightarrow> (unit, planner_error) result" where
  "observation_validate ob =
     (let invalid = (\<lambda>field. Err (InvalidProfile ''PerformanceObservation'' field)) in
      if po_identifier ob = [] \<or> po_calibration_level ob = NoCalibration \<or> 10000 < po_quality_basis_points ob
      then invalid ''identity/level/quality''
      else if po_unit ob \<noteq> expected_unit (po_metric ob) then invalid ''metric/unit mismatch''
      else if po_metric ob = StrategyLatency \<and> po_strategy ob = None
      then invalid ''strategy latency without strategy''
      else if po_metric ob = QuantizedDecodeThroughput \<and> po_quantization_format ob = None
      then invalid ''decode throughput without quantization format''
      else if po_status ob = Measured then
        (if \<not> (case po_value ob of Some v \<Rightarrow> 0 < v | None \<Rightarrow> False)
            \<or> po_measurement_duration_ns ob = 0
            \<or> po_sample_count ob = 0
            \<or> length (po_raw_samples ob) \<noteq> po_sample_count ob
            \<or> po_status_reason ob \<noteq> None
            \<or> unusable_samples (po_raw_samples ob)
            \<or> try_sum 0 (map sa_elapsed_ns (po_raw_samples ob)) \<noteq> Some (po_measurement_duration_ns ob)
            \<or> po_quality_basis_points ob \<noteq> observation_quality_basis_points (po_raw_samples ob)
            \<or> po_value ob \<noteq> aggregate_observation_value (po_unit ob) (po_raw_samples ob)
         then invalid ''measured state'' else Ok ())
      else
        (if po_value ob \<noteq> None \<or> po_measurement_duration_ns ob \<noteq> 0 \<or> po_sample_count ob \<noteq> 0
            \<or> po_raw_samples ob \<noteq> [] \<or> po_status_reason ob = None \<or> po_quality_basis_points ob \<noteq> 0
         then invalid ''non-measured state'' else Ok ()))"

subsection \<open>Calibration results\<close>

definition CALIBRATION_PLAN_VERSION :: nat where "CALIBRATION_PLAN_VERSION = 1"

definition CALIBRATION_RULESET_VERSION :: nat where "CALIBRATION_RULESET_VERSION = 1"

record calibration_result =
  cr_schema_version :: nat
  cr_identifier :: string
  cr_level :: calibration_level
  cr_machine_fingerprint :: fingerprint
  cr_model_fingerprint :: "fingerprint option"
  cr_storage_fingerprint :: "fingerprint option"
  cr_calibration_plan_identifier :: string
  cr_calibration_plan_version :: nat
  cr_calibration_ruleset_version :: nat
  cr_observations :: "performance_observation list"

fun validate_observations ::
  "calibration_level \<Rightarrow> string list \<Rightarrow> performance_observation list \<Rightarrow> (unit, planner_error) result"
where
  "validate_observations level seen [] = Ok ()"
| "validate_observations level seen (ob # obs) =
     rbind (observation_validate ob) (\<lambda>_.
       if po_calibration_level ob \<noteq> level
       then Err (InvalidProfile ''CalibrationResult'' ''observation calibration level mismatch'')
       else if po_identifier ob \<in> set seen
       then Err (InvalidProfile ''CalibrationResult'' ''duplicate observation identifier'')
       else validate_observations level (po_identifier ob # seen) obs)"

definition calibration_validate :: "calibration_result \<Rightarrow> (unit, planner_error) result" where
  "calibration_validate c =
     (if cr_schema_version c \<noteq> PROFILE_SCHEMA_VERSION \<or> cr_identifier c = [] \<or> cr_level c = NoCalibration
         \<or> cr_machine_fingerprint c = 0 \<or> cr_model_fingerprint c = Some 0 \<or> cr_storage_fingerprint c = Some 0
         \<or> cr_calibration_plan_identifier c = []
         \<or> cr_calibration_plan_version c \<noteq> CALIBRATION_PLAN_VERSION
         \<or> cr_calibration_ruleset_version c \<noteq> CALIBRATION_RULESET_VERSION
      then Err (InvalidProfile ''CalibrationResult'' ''identity/schema/level'')
      else validate_observations (cr_level c) [] (cr_observations c))"

subsection \<open>Policies and plans\<close>

record preset_policy =
  pp_mode :: operating_mode
  pp_thread_fraction_numerator :: usize
  pp_thread_fraction_denominator :: usize
  pp_layer_cache_capacity_basis_points :: nat
  pp_read_coalescing :: bool
  pp_grouped_read_buffer_reuse :: bool
  pp_allow_gpu :: bool

fun mode_policy :: "operating_mode \<Rightarrow> preset_policy" where
  "mode_policy BackgroundConstrained =
     \<lparr>pp_mode = BackgroundConstrained, pp_thread_fraction_numerator = 1, pp_thread_fraction_denominator = 2,
      pp_layer_cache_capacity_basis_points = 0, pp_read_coalescing = True,
      pp_grouped_read_buffer_reuse = False, pp_allow_gpu = False\<rparr>"
| "mode_policy BalancedNormal =
     \<lparr>pp_mode = BalancedNormal, pp_thread_fraction_numerator = 3, pp_thread_fraction_denominator = 4,
      pp_layer_cache_capacity_basis_points = 5000, pp_read_coalescing = True,
      pp_grouped_read_buffer_reuse = True, pp_allow_gpu = True\<rparr>"
| "mode_policy MaximumPerformance =
     \<lparr>pp_mode = MaximumPerformance, pp_thread_fraction_numerator = 1, pp_thread_fraction_denominator = 1,
      pp_layer_cache_capacity_basis_points = 10000, pp_read_coalescing = True,
      pp_grouped_read_buffer_reuse = True, pp_allow_gpu = True\<rparr>"
| "mode_policy Advanced =
     \<lparr>pp_mode = Advanced, pp_thread_fraction_numerator = 3, pp_thread_fraction_denominator = 4,
      pp_layer_cache_capacity_basis_points = 5000, pp_read_coalescing = True,
      pp_grouped_read_buffer_reuse = True, pp_allow_gpu = True\<rparr>"

datatype plan_reason_code =
    UserRamBudgetPreserved | ThreadCountSelectedByPreset | ThreadCountSelectedByAdvancedOverride
  | CpuStrategySelected | GpuStrategySelected | GpuDisabledByUser | GpuUnavailable
  | LayerCacheEnabledWithinStaticCapacity | LayerCacheDisabledByPreset
  | LayerCacheDisabledBecauseNoCompleteLayerFits | ReadCoalescingEnabled | ReadCoalescingDisabled
  | GroupedReadBufferReuseEnabled | GroupedReadBufferReuseDisabled | CalibrationObservationsApplied
  | CalibrationNotRequested | CalibrationNotApplicable

record plan_reason =
  re_code :: plan_reason_code
  re_value :: "u64 option"

record layer_cache_decision =
  lc_enabled :: bool
  lc_capacity_bytes :: u64

record io_decision =
  io_read_coalescing_enabled :: bool
  io_grouped_read_buffer_reuse_enabled :: bool

record gpu_decision =
  gp_preference :: gpu_preference
  gp_enabled :: bool
  gp_selected_device_id :: "string option"

record resource_reservations =
  rr_available_ram_bytes_at_planning :: u64
  rr_persistent_resident_bytes :: u64
  rr_persistent_startup_peak_bytes :: u64
  rr_largest_layer_load_peak_bytes :: u64
  rr_managed_lower_bound_bytes :: u64
  rr_remaining_budget_after_lower_bound_bytes :: u64

record cost_estimate =
  ce_physical_read_bytes_per_forward :: u64
  ce_calibrated_read_time_ns_per_forward :: "u64 option"
  ce_observed_strategy_latency_ns :: "u64 option"

record calibration_provenance =
  cp_calibration_identifier :: "string option"
  cp_calibration_plan_identifier :: "string option"
  cp_calibration_plan_version :: "nat option"
  cp_calibration_ruleset_version :: "nat option"
  cp_observation_identifiers :: "string list"

record plan_binding =
  pb_model_descriptor_fingerprint :: fingerprint
  pb_machine_fingerprint :: fingerprint
  pb_storage_fingerprint :: fingerprint
  pb_model_path :: string

record execution_plan =
  ep_schema_version :: nat
  ep_ruleset_version :: nat
  ep_binding :: plan_binding
  ep_mode :: operating_mode
  ep_strategy :: strategy_id
  ep_ram_budget_bytes :: u64
  ep_cpu_thread_count :: usize
  ep_layer_cache :: layer_cache_decision
  ep_io :: io_decision
  ep_gpu :: gpu_decision
  ep_reservations :: resource_reservations
  ep_cost :: cost_estimate
  ep_calibration :: calibration_provenance
  ep_reasons :: "plan_reason list"

definition EXECUTION_PLAN_SCHEMA_VERSION :: nat where "EXECUTION_PLAN_SCHEMA_VERSION = 1"

definition PLANNER_RULESET_VERSION :: nat where "PLANNER_RULESET_VERSION = 2"

subsection \<open>Cost of a plan\<close>

text \<open>\<open>max_by\<close> keeps the later of two elements unless the earlier one is greater.\<close>

definition observation_greater :: "performance_observation \<Rightarrow> performance_observation \<Rightarrow> bool" where
  "observation_greater l r \<longleftrightarrow>
     (let key = (\<lambda>ob. (po_quality_basis_points ob, po_sample_count ob, po_measurement_duration_ns ob)) in
      key r < key l \<or> key l = key r \<and> po_identifier l < po_identifier r)"

fun max_observation :: "performance_observation list \<Rightarrow> performance_observation option" where
  "max_observation [] = None"
| "max_observation (ob # obs) = Some (foldl (\<lambda>best ob. if observation_greater best ob then best else ob) ob obs)"

definition best_observation ::
  "calibration_result \<Rightarrow> observation_metric \<Rightarrow> strategy_id option \<Rightarrow> performance_observation option"
where
  "best_observation c metric strategy =
     max_observation (filter (\<lambda>ob. po_status ob = Measured \<and> po_metric ob = metric \<and> po_strategy ob = strategy)
       (cr_observations c))"

definition ceil_rate_duration_ns :: "u64 \<Rightarrow> u64 \<Rightarrow> (u64, planner_error) result" where
  "ceil_rate_duration_ns units units_per_second =
     (if units_per_second = 0 then Panic ''attempt to divide by zero''
      else Ok (min ((units * 1000000000 + units_per_second - 1) div units_per_second) U64_MAX))"

definition no_provenance :: calibration_provenance where
  "no_provenance =
     \<lparr>cp_calibration_identifier = None, cp_calibration_plan_identifier = None, cp_calibration_plan_version = None,
      cp_calibration_ruleset_version = None, cp_observation_identifiers = []\<rparr>"

definition calibration_applies ::
  "user_profile \<Rightarrow> fingerprint \<Rightarrow> fingerprint \<Rightarrow> fingerprint \<Rightarrow> calibration_result \<Rightarrow> bool"
where
  "calibration_applies user machine model storage c \<longleftrightarrow>
     \<not> (calibration_rank (cr_level c) < calibration_rank (up_calibration_level user)
        \<or> cr_machine_fingerprint c \<noteq> machine
        \<or> (case cr_model_fingerprint c of Some f \<Rightarrow> f \<noteq> model | None \<Rightarrow> False)
        \<or> (case cr_storage_fingerprint c of Some f \<Rightarrow> f \<noteq> storage | None \<Rightarrow> False))"

definition observed ::
  "performance_observation option \<Rightarrow> (u64 \<Rightarrow> (u64, planner_error) result) \<Rightarrow> (u64 option \<times> string list, planner_error) result"
where
  "observed ob f =
     (case ob of
        None \<Rightarrow> Ok (None, [])
      | Some ob \<Rightarrow> rbind (expect ''measured observation validated above'' (po_value ob)) (\<lambda>v.
          rbind (f v) (\<lambda>estimate. Ok (Some estimate, [po_identifier ob]))))"

definition estimate_cost ::
  "user_profile \<Rightarrow> fingerprint \<Rightarrow> fingerprint \<Rightarrow> fingerprint \<Rightarrow> strategy_id \<Rightarrow> execution_memory_plan \<Rightarrow>
   calibration_result option \<Rightarrow> (cost_estimate \<times> calibration_provenance \<times> plan_reason_code, planner_error) result"
where
  "estimate_cost user machine model storage strategy execution calibration =
     (let estimate = \<lparr>ce_physical_read_bytes_per_forward = em_physical_bytes_per_forward execution,
            ce_calibrated_read_time_ns_per_forward = None, ce_observed_strategy_latency_ns = None\<rparr> in
      if up_calibration_level user = NoCalibration then Ok (estimate, no_provenance, CalibrationNotRequested)
      else (case calibration of
          None \<Rightarrow> Ok (estimate, no_provenance, CalibrationNotApplicable)
        | Some c \<Rightarrow>
            if \<not> calibration_applies user machine model storage c
            then Ok (estimate, no_provenance, CalibrationNotApplicable)
            else
              rbind (observed (best_observation c SequentialReadThroughput None)
                  (ceil_rate_duration_ns (em_physical_bytes_per_forward execution))) (\<lambda>(read_time, read_ids).
                rbind (observed (best_observation c StrategyLatency (Some strategy)) Ok) (\<lambda>(latency, latency_ids).
                  let identifiers = sort (read_ids @ latency_ids) in
                  Ok (estimate\<lparr>ce_calibrated_read_time_ns_per_forward := read_time,
                        ce_observed_strategy_latency_ns := latency\<rparr>,
                      \<lparr>cp_calibration_identifier = Some (cr_identifier c),
                       cp_calibration_plan_identifier = Some (cr_calibration_plan_identifier c),
                       cp_calibration_plan_version = Some (cr_calibration_plan_version c),
                       cp_calibration_ruleset_version = Some (cr_calibration_ruleset_version c),
                       cp_observation_identifiers = identifiers\<rparr>,
                      if identifiers = [] then CalibrationNotApplicable else CalibrationObservationsApplied)))))"

subsection \<open>Planning\<close>

definition resolve_capability_choice ::
  "bool option \<Rightarrow> bool \<Rightarrow> bool \<Rightarrow> feasibility_rejection \<Rightarrow> (bool, planner_error) result"
where
  "resolve_capability_choice explicit policy_default available rejection =
     (if explicit = Some True \<and> \<not> available then Err (Infeasible rejection)
      else Ok ((case explicit of Some b \<Rightarrow> b | None \<Rightarrow> policy_default) \<and> available))"

definition select_gpu :: "machine_profile \<Rightarrow> string option \<Rightarrow> (string option, planner_error) result" where
  "select_gpu machine requested =
     (let usable = sort_key gd_identifier (filter (\<lambda>gpu. av_usable (gd_backend gpu)) (mp_gpus machine)) in
      case requested of
        Some identifier \<Rightarrow>
          (case find (\<lambda>gpu. gd_identifier gpu = identifier) usable of
             Some gpu \<Rightarrow> Ok (Some (gd_identifier gpu))
           | None \<Rightarrow> Err (Infeasible GpuRequiredButUnavailable))
      | None \<Rightarrow> Ok (case usable of [] \<Rightarrow> None | gpu # _ \<Rightarrow> Some (gd_identifier gpu)))"

definition validate_inputs ::
  "user_profile \<Rightarrow> machine_profile \<Rightarrow> model_profile \<Rightarrow> storage_profile \<Rightarrow> calibration_result option \<Rightarrow> (unit, planner_error) result"
where
  "validate_inputs user machine model storage calibration =
     rbind (user_validate user) (\<lambda>_. rbind (machine_validate machine) (\<lambda>_.
       rbind (model_validate model) (\<lambda>_. rbind (storage_validate storage) (\<lambda>_.
         (case calibration of Some c \<Rightarrow> calibration_validate c | None \<Rightarrow> Ok ())))))"

definition check_feasibility ::
  "user_profile \<Rightarrow> machine_profile \<Rightarrow> model_profile \<Rightarrow> storage_profile \<Rightarrow> capability_set \<Rightarrow> plan_result \<Rightarrow>
   (u64 \<times> execution_memory_plan, planner_error) result"
where
  "check_feasibility user machine model storage capabilities static_plan =
     (let reject = (\<lambda>r. Err (Infeasible r)); ram = up_ram_budget_bytes user in
      if capabilities \<noteq> capability_derive machine model storage static_plan
      then reject StaticPlanDoesNotMatchProfiles
      else if sp_ram_requested static_plan \<noteq> ram \<or> sp_file_size static_plan \<noteq> mo_file_size_bytes model
          \<or> sp_tensor_count static_plan \<noteq> mo_tensor_count model \<or> sp_architecture static_plan \<noteq> mo_architecture model
      then reject StaticPlanDoesNotMatchProfiles
      else if (case st_file_size_bytes storage of Some bytes \<Rightarrow> bytes \<noteq> mo_file_size_bytes model | None \<Rightarrow> False)
      then reject StorageModelSizeMismatch
      else rbind (ok_or (Infeasible MachineMemoryUnavailable) (mp_total_ram_bytes machine)) (\<lambda>total_ram_bytes.
        rbind (ok_or (Infeasible MachineMemoryUnavailable) (mp_available_ram_bytes machine)) (\<lambda>available_ram_bytes.
          if total_ram_bytes < ram then reject RamBudgetExceedsTotalRam
          else if available_ram_bytes < ram then reject RamBudgetExceedsAvailableRam
          else if \<not> ca_storage_usable capabilities then reject StorageNotUsable
          else if \<not> ca_cpu_backend_usable capabilities then reject CpuBackendUnavailable
          else if \<not> ca_model_execution_compatible capabilities then reject ModelNotExecutable
          else rbind (ok_or (Infeasible ExecutionPreflightUnavailable) (sp_execution_memory static_plan)) (\<lambda>execution.
            if \<not> em_layer_streaming_lower_bound_fits execution \<or> ram < em_managed_lower_bound_bytes execution
            then reject ManagedMemoryLowerBoundExceedsBudget
            else Ok (available_ram_bytes, execution)))))"

definition select_threads :: "user_profile \<Rightarrow> machine_profile \<Rightarrow> (usize \<times> plan_reason_code, planner_error) result" where
  "select_threads user machine =
     (let policy = mode_policy (up_mode user);
          cores = mp_logical_cpu_cores machine;
          limit = min cores (case up_cpu_thread_limit user of Some l \<Rightarrow> l | None \<Rightarrow> cores) in
      case ao_thread_count (up_advanced user) of
        Some requested \<Rightarrow>
          if limit < requested then Err (Infeasible RequestedThreadCountUnavailable)
          else Ok (requested, ThreadCountSelectedByAdvancedOverride)
      | None \<Rightarrow>
          Ok (max (saturating_mul limit (pp_thread_fraction_numerator policy) div pp_thread_fraction_denominator policy) 1,
              ThreadCountSelectedByPreset))"

definition select_device ::
  "user_profile \<Rightarrow> machine_profile \<Rightarrow> capability_set \<Rightarrow> (bool \<times> string option \<times> strategy_id, planner_error) result"
where
  "select_device user machine capabilities =
     (let allow = pp_allow_gpu (mode_policy (up_mode user)); usable = ca_gpu_backend_usable capabilities;
          device = ao_gpu_device_id (up_advanced user) in
      if up_gpu_preference user = GpuRequire \<and> (\<not> allow \<or> \<not> usable) then Err (Infeasible GpuRequiredButUnavailable)
      else if device \<noteq> None \<and> \<not> usable then Err (Infeasible GpuRequiredButUnavailable)
      else
        let gpu_enabled = (allow \<and> up_gpu_preference user \<noteq> GpuDisabled \<and> usable) in
        rbind (if gpu_enabled then select_gpu machine device else Ok None) (\<lambda>selected.
          Ok (gpu_enabled, selected, if gpu_enabled then GpuLayerOffload else CpuLayerStreaming)))"

definition wants_cache :: "user_profile \<Rightarrow> bool" where
  "wants_cache user =
     (case ao_layer_cache_enabled (up_advanced user) of
        Some b \<Rightarrow> b
      | None \<Rightarrow> 0 < pp_layer_cache_capacity_basis_points (mode_policy (up_mode user)))"

definition select_cache ::
  "user_profile \<Rightarrow> capability_set \<Rightarrow> execution_memory_plan \<Rightarrow> (layer_cache_decision, planner_error) result"
where
  "select_cache user capabilities execution =
     (let explicit_capacity = ao_layer_cache_capacity_bytes (up_advanced user);
          required = (ao_layer_cache_enabled (up_advanced user) = Some True \<or> explicit_capacity \<noteq> None);
          maximum = em_layer_cache_capacity_bytes execution;
          min_layer = em_min_layer_resident_bytes execution in
      if required \<and> \<not> ca_layer_cache_possible capabilities then Err (Infeasible LayerCacheRequiredButUnavailable)
      else
        rbind (if \<not> wants_cache user \<or> \<not> ca_layer_cache_possible capabilities then Ok 0
            else (case explicit_capacity of
                Some capacity \<Rightarrow>
                  if maximum < capacity then Err (Infeasible LayerCacheCapacityExceedsStaticCapacity) else Ok capacity
              | None \<Rightarrow> Ok (maximum * pp_layer_cache_capacity_basis_points (mode_policy (up_mode user)) div 10000)))
          (\<lambda>requested.
            if required \<and> requested < min_layer then Err (Infeasible LayerCacheCapacityCannotFitCompleteLayer)
            else
              let enabled = (min_layer \<le> requested \<and> 0 < min_layer) in
              Ok \<lparr>lc_enabled = enabled, lc_capacity_bytes = (if enabled then requested else 0)\<rparr>))"

definition plan_reasons ::
  "user_profile \<Rightarrow> usize \<Rightarrow> plan_reason_code \<Rightarrow> bool \<Rightarrow> layer_cache_decision \<Rightarrow> bool \<Rightarrow> bool \<Rightarrow>
   plan_reason_code \<Rightarrow> calibration_provenance \<Rightarrow> plan_reason list"
where
  "plan_reasons user threads thread_reason gpu_enabled cache coalescing reuse calibration_reason provenance =
     [\<lparr>re_code = UserRamBudgetPreserved, re_value = Some (up_ram_budget_bytes user)\<rparr>,
      \<lparr>re_code = thread_reason, re_value = Some threads\<rparr>,
      \<lparr>re_code = (if gpu_enabled then GpuStrategySelected else CpuStrategySelected), re_value = None\<rparr>]
     @ (if gpu_enabled then []
        else [\<lparr>re_code = (if up_gpu_preference user = GpuDisabled then GpuDisabledByUser else GpuUnavailable),
               re_value = None\<rparr>])
     @ [\<lparr>re_code = (if lc_enabled cache then LayerCacheEnabledWithinStaticCapacity
           else if \<not> wants_cache user then LayerCacheDisabledByPreset
           else LayerCacheDisabledBecauseNoCompleteLayerFits), re_value = Some (lc_capacity_bytes cache)\<rparr>,
        \<lparr>re_code = (if coalescing then ReadCoalescingEnabled else ReadCoalescingDisabled), re_value = None\<rparr>,
        \<lparr>re_code = (if reuse then GroupedReadBufferReuseEnabled else GroupedReadBufferReuseDisabled), re_value = None\<rparr>,
        \<lparr>re_code = calibration_reason, re_value = Some (length (cp_observation_identifiers provenance))\<rparr>]"

definition planner_plan ::
  "user_profile \<Rightarrow> machine_profile \<Rightarrow> model_profile \<Rightarrow> storage_profile \<Rightarrow> capability_set \<Rightarrow> plan_result \<Rightarrow>
   calibration_result option \<Rightarrow> (execution_plan, planner_error) result"
where
  "planner_plan user machine model storage capabilities static_plan calibration =
     rbind (validate_inputs user machine model storage calibration) (\<lambda>_.
     rbind (check_feasibility user machine model storage capabilities static_plan) (\<lambda>(available_ram_bytes, execution).
     rbind (select_threads user machine) (\<lambda>(threads, thread_reason).
     rbind (select_device user machine capabilities) (\<lambda>(gpu_enabled, device, strategy).
     rbind (select_cache user capabilities execution) (\<lambda>cache.
     rbind (resolve_capability_choice (ao_read_coalescing_enabled (up_advanced user))
         (pp_read_coalescing (mode_policy (up_mode user))) (ca_read_coalescing_possible capabilities)
         ReadCoalescingRequiredButUnavailable) (\<lambda>coalescing.
     rbind (resolve_capability_choice (ao_grouped_read_buffer_reuse_enabled (up_advanced user))
         (pp_grouped_read_buffer_reuse (mode_policy (up_mode user))) (ca_grouped_read_buffer_reuse_possible capabilities)
         GroupedReadBufferReuseRequiredButUnavailable) (\<lambda>reuse.
     rbind (estimate_cost user (machine_fingerprint machine) (mid_descriptor_fingerprint (mo_identity model))
         (storage_fingerprint storage) strategy execution calibration) (\<lambda>(cost, provenance, calibration_reason).
     Ok \<lparr>ep_schema_version = EXECUTION_PLAN_SCHEMA_VERSION, ep_ruleset_version = PLANNER_RULESET_VERSION,
         ep_binding = \<lparr>pb_model_descriptor_fingerprint = mid_descriptor_fingerprint (mo_identity model),
           pb_machine_fingerprint = machine_fingerprint machine, pb_storage_fingerprint = storage_fingerprint storage,
           pb_model_path = st_model_path storage\<rparr>,
         ep_mode = up_mode user, ep_strategy = strategy, ep_ram_budget_bytes = up_ram_budget_bytes user,
         ep_cpu_thread_count = threads, ep_layer_cache = cache,
         ep_io = \<lparr>io_read_coalescing_enabled = coalescing, io_grouped_read_buffer_reuse_enabled = reuse\<rparr>,
         ep_gpu = \<lparr>gp_preference = up_gpu_preference user, gp_enabled = gpu_enabled, gp_selected_device_id = device\<rparr>,
         ep_reservations =
           \<lparr>rr_available_ram_bytes_at_planning = available_ram_bytes,
            rr_persistent_resident_bytes = em_persistent_resident_bytes execution,
            rr_persistent_startup_peak_bytes = em_persistent_startup_peak_bytes execution,
            rr_largest_layer_load_peak_bytes = em_largest_layer_load_peak_bytes execution,
            rr_managed_lower_bound_bytes = em_managed_lower_bound_bytes execution,
            rr_remaining_budget_after_lower_bound_bytes =
              saturating_sub (up_ram_budget_bytes user) (em_managed_lower_bound_bytes execution)\<rparr>,
         ep_cost = cost, ep_calibration = provenance,
         ep_reasons = plan_reasons user threads thread_reason gpu_enabled cache coalescing reuse
           calibration_reason provenance\<rparr>))))))))"

subsection \<open>What each step of the planner returns\<close>

lemma gpu_never_usable [simp]: "\<not> gpu_strategy_available"
  by (simp add: gpu_strategy_available_def STRATEGY_REGISTRY_def GPU_EXECUTION_IMPLEMENTED_def)

lemma cpu_always_available [simp]: "cpu_strategy_available"
  by (simp add: cpu_strategy_available_def STRATEGY_REGISTRY_def)

lemma derived_gpu [simp]: "\<not> ca_gpu_backend_usable (capability_derive machine model storage static_plan)"
  by (simp add: capability_derive_def Let_def)

lemma check_feasibility_Ok:
  "check_feasibility user machine model storage capabilities static_plan = Ok (available, execution) \<longleftrightarrow>
     capabilities = capability_derive machine model storage static_plan
     \<and> sp_ram_requested static_plan = up_ram_budget_bytes user
     \<and> sp_file_size static_plan = mo_file_size_bytes model
     \<and> sp_tensor_count static_plan = mo_tensor_count model
     \<and> sp_architecture static_plan = mo_architecture model
     \<and> (\<forall>bytes. st_file_size_bytes storage = Some bytes \<longrightarrow> bytes = mo_file_size_bytes model)
     \<and> (\<exists>t. mp_total_ram_bytes machine = Some t \<and> up_ram_budget_bytes user \<le> t)
     \<and> mp_available_ram_bytes machine = Some available \<and> up_ram_budget_bytes user \<le> available
     \<and> ca_storage_usable capabilities \<and> ca_cpu_backend_usable capabilities \<and> ca_model_execution_compatible capabilities
     \<and> sp_execution_memory static_plan = Some execution \<and> em_layer_streaming_lower_bound_fits execution
     \<and> em_managed_lower_bound_bytes execution \<le> up_ram_budget_bytes user"
  by (auto simp: check_feasibility_def Let_def rbind_eq_Ok not_less split: if_splits option.splits)

lemma mode_fraction: "0 < pp_thread_fraction_denominator (mode_policy m)"
  "pp_thread_fraction_numerator (mode_policy m) \<le> pp_thread_fraction_denominator (mode_policy m)"
  "pp_layer_cache_capacity_basis_points (mode_policy m) \<le> 10000"
  by (cases m; simp)+

lemma fraction_le: "n \<le> d \<Longrightarrow> (a::nat) * n div d \<le> a"
  by (cases "d = 0") (auto intro: order_trans [OF div_le_mono [OF mult_le_mono2]])

lemma select_threads_bounds:
  assumes "select_threads user machine = Ok (threads, reason)" "user_validate user = Ok ()" "machine_validate machine = Ok ()"
  shows "1 \<le> threads" "threads \<le> mp_logical_cpu_cores machine"
    "\<forall>l. up_cpu_thread_limit user = Some l \<longrightarrow> threads \<le> l"
proof -
  let ?limit = "min (mp_logical_cpu_cores machine)
    (case up_cpu_thread_limit user of Some l \<Rightarrow> l | None \<Rightarrow> mp_logical_cpu_cores machine)"
  have cores: "0 < mp_logical_cpu_cores machine"
    using assms(3) by (auto simp: machine_validate_def Let_def split: if_splits)
  have user: "up_cpu_thread_limit user \<noteq> Some 0" "ao_thread_count (up_advanced user) \<noteq> Some 0"
    using assms(2) by (auto simp: user_validate_def Let_def split: if_splits)
  have limit: "1 \<le> ?limit" using cores user(1) by (auto split: option.split intro: Suc_leI)
  have "saturating_mul ?limit (pp_thread_fraction_numerator (mode_policy (up_mode user)))
      div pp_thread_fraction_denominator (mode_policy (up_mode user)) \<le> ?limit"
    using fraction_le [OF mode_fraction(2), of ?limit "up_mode user"]
    unfolding saturating_mul_def by (meson div_le_mono min.cobounded1 order_trans)
  then have "1 \<le> threads \<and> threads \<le> ?limit"
    using assms(1) limit user(2) by (auto simp: select_threads_def Let_def split: option.splits if_splits intro: Suc_leI)
  then show "1 \<le> threads" "threads \<le> mp_logical_cpu_cores machine"
    "\<forall>l. up_cpu_thread_limit user = Some l \<longrightarrow> threads \<le> l" by auto
qed

lemma select_device_Ok:
  assumes "select_device user machine (capability_derive machine' model storage static_plan) = Ok (gpu, device, strategy)"
  shows "\<not> gpu" "device = None" "strategy = CpuLayerStreaming" "up_gpu_preference user \<noteq> GpuRequire"
    "ao_gpu_device_id (up_advanced user) = None"
  using assms by (auto simp: select_device_def Let_def rbind_eq_Ok split: if_splits)

lemma select_cache_bounds:
  assumes "select_cache user capabilities execution = Ok cache"
  shows "lc_capacity_bytes cache \<le> em_layer_cache_capacity_bytes execution"
    "lc_enabled cache \<longleftrightarrow> 0 < lc_capacity_bytes cache"
    "lc_enabled cache \<Longrightarrow> ca_layer_cache_possible capabilities \<and> wants_cache user
       \<and> 0 < em_min_layer_resident_bytes execution \<and> em_min_layer_resident_bytes execution \<le> lc_capacity_bytes cache"
    "ao_layer_cache_enabled (up_advanced user) = Some True \<Longrightarrow> 0 < em_min_layer_resident_bytes execution \<Longrightarrow> lc_enabled cache"
  using assms fraction_le [OF mode_fraction(3), of "em_layer_cache_capacity_bytes execution" "up_mode user"]
  by (auto simp: select_cache_def Let_def rbind_eq_Ok split: if_splits option.splits)

lemma resolve_choice_Ok:
  "resolve_capability_choice explicit d available rejection = Ok b \<Longrightarrow>
     (b \<longrightarrow> available) \<and> (\<forall>c. explicit = Some c \<longrightarrow> b = c)"
  by (auto simp: resolve_capability_choice_def split: if_splits option.splits)


subsection \<open>The best observation\<close>

lemma validate_observations_facts:
  assumes "validate_observations level seen obs = Ok ()"
  shows "distinct (map po_identifier obs)" "\<forall>ob \<in> set obs. po_identifier ob \<notin> set seen \<and> observation_validate ob = Ok ()"
proof -
  have "distinct (map po_identifier obs) \<and> (\<forall>ob \<in> set obs. po_identifier ob \<notin> set seen \<and> observation_validate ob = Ok ())"
    using assms
  proof (induction obs arbitrary: seen)
    case (Cons ob obs)
    then have "observation_validate ob = Ok ()" "po_identifier ob \<notin> set seen"
      "validate_observations level (po_identifier ob # seen) obs = Ok ()"
      by (auto simp: rbind_eq_Ok split: if_splits)
    with Cons.IH [of "po_identifier ob # seen"] show ?case by auto
  qed simp
  then show "distinct (map po_identifier obs)" "\<forall>ob \<in> set obs. po_identifier ob \<notin> set seen \<and> observation_validate ob = Ok ()"
    by auto
qed

lemma measured_value:
  assumes "observation_validate ob = Ok ()" "po_status ob = Measured"
  shows "\<exists>v > 0. po_value ob = Some v"
  using assms by (auto simp: observation_validate_def Let_def split: if_splits option.splits)

lemma observation_greater_antisym: "observation_greater l r \<Longrightarrow> \<not> observation_greater r l"
  by (auto simp: observation_greater_def Let_def)

lemma lexicographic_trans:
  fixes a b c :: "'a :: order" and x y z :: "'b :: order"
  shows "b < a \<or> a = b \<and> x < y \<Longrightarrow> c < b \<or> b = c \<and> y < z \<Longrightarrow> c < a \<or> a = c \<and> x < z"
  by auto

lemma observation_greater_trans: "observation_greater l m \<Longrightarrow> observation_greater m r \<Longrightarrow> observation_greater l r"
  unfolding observation_greater_def Let_def by (rule lexicographic_trans)

lemma observation_greater_total: "po_identifier l \<noteq> po_identifier r \<Longrightarrow> observation_greater l r \<or> observation_greater r l"
  unfolding observation_greater_def Let_def by (metis neqE)

lemma max_fold_in:
  "foldl (\<lambda>best ob. if observation_greater best ob then best else ob) a xs \<in> set (a # xs)"
proof (induction xs arbitrary: a)
  case (Cons x xs)
  have "set ((if observation_greater a x then a else x) # xs) \<subseteq> set (a # x # xs)" by auto
  then show ?case unfolding foldl_Cons using Cons by (rule subsetD)
qed simp

lemma max_fold_greatest:
  assumes "distinct (map po_identifier (ob # obs))" "x \<in> set (ob # obs)"
    "x \<noteq> foldl (\<lambda>best ob. if observation_greater best ob then best else ob) ob obs"
  shows "observation_greater (foldl (\<lambda>best ob. if observation_greater best ob then best else ob) ob obs) x"
  using assms
proof (induction obs arbitrary: ob x)
  case (Cons y obs)
  define next_best where "next_best = (if observation_greater ob y then ob else y)"
  define m where "m = foldl (\<lambda>best ob. if observation_greater best ob then best else ob) next_best obs"
  have m: "foldl (\<lambda>best ob. if observation_greater best ob then best else ob) ob (y # obs) = m"
    by (simp add: m_def next_best_def)
  have "distinct (map po_identifier (next_best # obs))" using Cons.prems(1) by (simp add: next_best_def)
  then have IH: "z \<in> set (next_best # obs) \<Longrightarrow> z \<noteq> m \<Longrightarrow> observation_greater m z" for z
    unfolding m_def by (rule Cons.IH)
  have loser: "z = next_best \<or> observation_greater next_best z" if "z \<in> {ob, y}" for z
    using that Cons.prems(1) observation_greater_total [of ob y] by (auto simp: next_best_def)
  show ?case unfolding m
  proof (cases "x \<in> set obs")
    case True
    then show "observation_greater m x" using IH [of x] Cons.prems(3) m by simp
  next
    case False
    then have "x = next_best \<or> observation_greater next_best x" using Cons.prems(2) loser by simp
    moreover have "next_best = m \<or> observation_greater m next_best" using IH [of next_best] by auto
    ultimately show "observation_greater m x" using Cons.prems(3) m observation_greater_trans by metis
  qed
qed simp

lemma max_observation_Some:
  assumes "distinct (map po_identifier obs)" "obs \<noteq> []"
  obtains best where "max_observation obs = Some best" "best \<in> set obs"
    "\<forall>x \<in> set obs. x \<noteq> best \<longrightarrow> observation_greater best x"
proof (cases obs)
  case (Cons ob rest)
  show thesis
    by (rule that [of "foldl (\<lambda>best ob. if observation_greater best ob then best else ob) ob rest"])
      (use Cons assms(1) max_fold_in [of ob rest] max_fold_greatest [of ob rest] in simp_all)
qed (use assms(2) in simp)

lemma max_observation_in: "max_observation obs = Some ob \<Longrightarrow> ob \<in> set obs"
  using max_fold_in by (cases obs) auto

lemma best_observation_measured:
  assumes "calibration_validate c = Ok ()" "best_observation c metric strategy = Some ob"
  shows "ob \<in> set (cr_observations c)" "\<exists>v > 0. po_value ob = Some v" "po_metric ob = metric" "po_strategy ob = strategy"
proof -
  have ob: "ob \<in> set (cr_observations c)" "po_status ob = Measured" "po_metric ob = metric" "po_strategy ob = strategy"
    using max_observation_in [OF assms(2) [unfolded best_observation_def]] by auto
  have "validate_observations (cr_level c) [] (cr_observations c) = Ok ()"
    using assms(1) by (auto simp: calibration_validate_def split: if_splits)
  from validate_observations_facts(2) [OF this] have "observation_validate ob = Ok ()" using ob(1) by blast
  then show "ob \<in> set (cr_observations c)" "\<exists>v > 0. po_value ob = Some v" "po_metric ob = metric" "po_strategy ob = strategy"
    using ob measured_value by auto
qed

definition matching_observations ::
  "calibration_result \<Rightarrow> observation_metric \<Rightarrow> strategy_id option \<Rightarrow> performance_observation set"
where
  "matching_observations c metric strategy =
     {ob \<in> set (cr_observations c). po_status ob = Measured \<and> po_metric ob = metric \<and> po_strategy ob = strategy}"

text \<open>
  The observation a plan rests on is the best one and does not depend on the order in which a
  calibration lists them: in a valid calibration, of all the measured observations of the metric
  and strategy it is the one of the highest quality, then of the most samples, then of the longest
  measurement, then of the least identifier; a reordered calibration gives the same one; and there is
  none only when no measured observation matches.
\<close>

theorem best_observation_canonical:
  assumes "calibration_validate c = Ok ()" "mset (cr_observations c') = mset (cr_observations c)"
  shows "best_observation c' metric strategy = best_observation c metric strategy
    \<and> (best_observation c metric strategy = None \<longleftrightarrow> matching_observations c metric strategy = {})
    \<and> (\<forall>best. best_observation c metric strategy = Some best \<longrightarrow> best \<in> matching_observations c metric strategy
        \<and> (\<forall>ob \<in> matching_observations c metric strategy. ob \<noteq> best \<longrightarrow> observation_greater best ob))"
proof -
  define P where "P ob \<longleftrightarrow> po_status ob = Measured \<and> po_metric ob = metric \<and> po_strategy ob = strategy" for ob :: performance_observation
  have valid: "validate_observations (cr_level c) [] (cr_observations c) = Ok ()"
    using assms(1) by (auto simp: calibration_validate_def split: if_splits)
  have "distinct (map po_identifier (cr_observations c))" by (rule validate_observations_facts(1) [OF valid])
  moreover have "mset (map po_identifier (cr_observations c')) = mset (map po_identifier (cr_observations c))"
    using assms(2) by simp
  ultimately have "distinct (map po_identifier (cr_observations c'))" by (metis mset_eq_imp_distinct_iff)
  with \<open>distinct (map po_identifier (cr_observations c))\<close>
  have d: "distinct (map po_identifier (filter P (cr_observations c)))" "distinct (map po_identifier (filter P (cr_observations c')))"
    by (simp_all add: distinct_map_filter)
  have same: "set (filter P (cr_observations c')) = set (filter P (cr_observations c))"
    using assms(2) by (metis mset_eq_setD set_filter)
  have best: "best_observation x metric strategy = max_observation (filter P (cr_observations x))" for x
    by (simp add: best_observation_def P_def [abs_def])
  have matching: "matching_observations c metric strategy = set (filter P (cr_observations c))" by (auto simp: matching_observations_def P_def)
  show ?thesis
  proof (cases "filter P (cr_observations c) = []")
    case True
    then have "filter P (cr_observations c') = []" using same by (metis set_empty)
    with True show ?thesis by (simp add: best matching del: filter_False)
  next
    case False
    then have False': "filter P (cr_observations c') \<noteq> []" using same by (metis set_empty)
    obtain b where b: "max_observation (filter P (cr_observations c)) = Some b" "b \<in> set (filter P (cr_observations c))"
      "\<forall>x \<in> set (filter P (cr_observations c)). x \<noteq> b \<longrightarrow> observation_greater b x"
      using max_observation_Some [OF d(1) False] .
    obtain b' where b': "max_observation (filter P (cr_observations c')) = Some b'" "b' \<in> set (filter P (cr_observations c'))"
      "\<forall>x \<in> set (filter P (cr_observations c')). x \<noteq> b' \<longrightarrow> observation_greater b' x"
      using max_observation_Some [OF d(2) False'] .
    have "b' = b" using b b' same observation_greater_antisym by metis
    then show ?thesis using b b' by (auto simp: best matching)
  qed
qed


definition example_observation :: performance_observation where
  "example_observation =
     \<lparr>po_identifier = ''seq'', po_metric = SequentialReadThroughput, po_unit = BytesPerSecond,
      po_value = Some 500, po_status = Measured, po_status_reason = None, po_strategy = None,
      po_quantization_format = None, po_calibration_level = Quick, po_workload_bytes = 1000,
      po_workload_elements = 0, po_measurement_duration_ns = 2000000000, po_sample_count = 1,
      po_raw_samples = [\<lparr>sa_elapsed_ns = 2000000000, sa_units_processed = 1000\<rparr>],
      po_timestamp_unix_seconds = None, po_quality_basis_points = 10000\<rparr>"

definition example_calibration :: calibration_result where
  "example_calibration =
     \<lparr>cr_schema_version = 2, cr_identifier = ''c'', cr_level = Quick, cr_machine_fingerprint = 1,
      cr_model_fingerprint = None, cr_storage_fingerprint = None, cr_calibration_plan_identifier = ''p'',
      cr_calibration_plan_version = 1, cr_calibration_ruleset_version = 1, cr_observations = [example_observation]\<rparr>"

lemma example_calibration_valid: "calibration_validate example_calibration = Ok ()"
  by (simp add: calibration_validate_def example_calibration_def example_observation_def observation_validate_def
      unusable_samples_def observation_quality_basis_points_def aggregate_observation_value_def sample_rate_def
      PROFILE_SCHEMA_VERSION_def CALIBRATION_PLAN_VERSION_def CALIBRATION_RULESET_VERSION_def U64_MAX_def U128_MAX_def
      checked_add_def Let_def)

theorem best_observation_canonical_witness:
  "best_observation example_calibration SequentialReadThroughput None = Some example_observation"
proof -
  have "example_observation \<in> matching_observations example_calibration SequentialReadThroughput None"
    "matching_observations example_calibration SequentialReadThroughput None \<subseteq> {example_observation}"
    by (auto simp: matching_observations_def example_calibration_def example_observation_def)
  then show ?thesis
    using best_observation_canonical [OF example_calibration_valid refl, of SequentialReadThroughput None]
    by (cases "best_observation example_calibration SequentialReadThroughput None") auto
qed

subsection \<open>What the planner promises\<close>

lemma observed_Ok:
  assumes "\<And>x. ob = Some x \<Longrightarrow> \<exists>v > 0. po_value x = Some v" "\<And>v. 0 < v \<Longrightarrow> is_ok (f v)"
  shows "is_ok (observed ob f)"
proof (cases ob)
  case (Some x)
  then obtain v where "po_value x = Some v" "0 < v" using assms(1) by blast
  then show ?thesis using Some assms(2) [of v] by (cases "f v") (simp_all add: observed_def)
qed (simp add: observed_def)

lemma estimate_cost_Ok:
  assumes "\<And>c. calibration = Some c \<Longrightarrow> calibration_validate c = Ok ()"
  shows "is_ok (estimate_cost user machine model storage strategy execution calibration)"
proof -
  have best: "\<exists>v > 0. po_value ob = Some v" if "calibration = Some c" "best_observation c metric st = Some ob" for c metric st ob
    using best_observation_measured(2) [OF assms that(2)] that(1) by blast
  have reads: "is_ok (observed (best_observation c SequentialReadThroughput None)
      (ceil_rate_duration_ns (em_physical_bytes_per_forward execution)))" if "calibration = Some c" for c
    by (rule observed_Ok) (use best [OF that] in \<open>auto simp: ceil_rate_duration_ns_def\<close>)
  have latency: "is_ok (observed (best_observation c StrategyLatency (Some strategy)) Ok)" if "calibration = Some c" for c
    by (rule observed_Ok) (use best [OF that] in auto)
  show ?thesis
  proof (cases calibration)
    case (Some c)
    obtain a b where ab: "observed (best_observation c SequentialReadThroughput None)
        (ceil_rate_duration_ns (em_physical_bytes_per_forward execution)) = Ok (a, b)"
      using reads [OF Some] by (cases "observed (best_observation c SequentialReadThroughput None)
        (ceil_rate_duration_ns (em_physical_bytes_per_forward execution))") auto
    obtain a' b' where ab': "observed (best_observation c StrategyLatency (Some strategy)) Ok = Ok (a', b')"
      using latency [OF Some] by (cases "observed (best_observation c StrategyLatency (Some strategy)) Ok") auto
    show ?thesis using Some by (simp add: estimate_cost_def ab ab' Let_def)
  qed (simp add: estimate_cost_def Let_def)
qed

lemma planner_plan_Ok:
  assumes "planner_plan user machine model storage capabilities static_plan calibration = Ok p"
  obtains available execution threads reason device cache coalescing reuse where
    "validate_inputs user machine model storage calibration = Ok ()"
    "check_feasibility user machine model storage capabilities static_plan = Ok (available, execution)"
    "select_threads user machine = Ok (threads, reason)"
    "select_cache user capabilities execution = Ok cache"
    "coalescing \<longrightarrow> ca_read_coalescing_possible capabilities"
    "reuse \<longrightarrow> ca_grouped_read_buffer_reuse_possible capabilities"
    "up_gpu_preference user \<noteq> GpuRequire"
    "ep_schema_version p = EXECUTION_PLAN_SCHEMA_VERSION" "ep_ruleset_version p = PLANNER_RULESET_VERSION"
    "ep_binding p = \<lparr>pb_model_descriptor_fingerprint = mid_descriptor_fingerprint (mo_identity model),
        pb_machine_fingerprint = machine_fingerprint machine, pb_storage_fingerprint = storage_fingerprint storage,
        pb_model_path = st_model_path storage\<rparr>"
    "ep_strategy p = CpuLayerStreaming" "ep_ram_budget_bytes p = up_ram_budget_bytes user"
    "ep_cpu_thread_count p = threads" "ep_layer_cache p = cache"
    "ep_io p = \<lparr>io_read_coalescing_enabled = coalescing, io_grouped_read_buffer_reuse_enabled = reuse\<rparr>"
    "ep_gpu p = \<lparr>gp_preference = up_gpu_preference user, gp_enabled = False, gp_selected_device_id = None\<rparr>"
    "ep_reservations p =
       \<lparr>rr_available_ram_bytes_at_planning = available,
        rr_persistent_resident_bytes = em_persistent_resident_bytes execution,
        rr_persistent_startup_peak_bytes = em_persistent_startup_peak_bytes execution,
        rr_largest_layer_load_peak_bytes = em_largest_layer_load_peak_bytes execution,
        rr_managed_lower_bound_bytes = em_managed_lower_bound_bytes execution,
        rr_remaining_budget_after_lower_bound_bytes =
          up_ram_budget_bytes user - em_managed_lower_bound_bytes execution\<rparr>"
proof -
  obtain u available execution threads reason gpu device strategy cache coalescing reuse cost provenance calibration_reason
    where "validate_inputs user machine model storage calibration = Ok u"
      and feasible: "check_feasibility user machine model storage capabilities static_plan = Ok (available, execution)"
      and threads: "select_threads user machine = Ok (threads, reason)"
      and device: "select_device user machine capabilities = Ok (gpu, device, strategy)"
      and cache: "select_cache user capabilities execution = Ok cache"
      and coalescing: "resolve_capability_choice (ao_read_coalescing_enabled (up_advanced user))
         (pp_read_coalescing (mode_policy (up_mode user))) (ca_read_coalescing_possible capabilities)
         ReadCoalescingRequiredButUnavailable = Ok coalescing"
      and reuse: "resolve_capability_choice (ao_grouped_read_buffer_reuse_enabled (up_advanced user))
         (pp_grouped_read_buffer_reuse (mode_policy (up_mode user))) (ca_grouped_read_buffer_reuse_possible capabilities)
         GroupedReadBufferReuseRequiredButUnavailable = Ok reuse"
      and cost: "estimate_cost user (machine_fingerprint machine) (mid_descriptor_fingerprint (mo_identity model))
         (storage_fingerprint storage) strategy execution calibration = Ok (cost, provenance, calibration_reason)"
    using assms unfolding planner_plan_def rbind_eq_Ok split_paired_Ex prod.case by (elim exE conjE) (rule that)
  then have inputs: "validate_inputs user machine model storage calibration = Ok ()" by simp
  have caps: "capabilities = capability_derive machine model storage static_plan"
    and low: "em_managed_lower_bound_bytes execution \<le> up_ram_budget_bytes user"
    using feasible by (simp_all add: check_feasibility_Ok)
  note gpu = select_device_Ok [OF device [unfolded caps]]
  show thesis
    by (rule that [OF inputs feasible threads cache, of coalescing reuse])
      (use assms resolve_choice_Ok [OF coalescing] resolve_choice_Ok [OF reuse] gpu low in
        \<open>auto simp: planner_plan_def inputs feasible threads device cache coalescing reuse
          cost [unfolded gpu(3)] saturating_sub_def\<close>)
qed


text \<open>The planner succeeds on every feasible input that overrides nothing, and never panics.\<close>

lemma validated_calibration:
  "validate_inputs user machine model storage calibration = Ok u \<Longrightarrow> calibration = Some c \<Longrightarrow> calibration_validate c = Ok ()"
  by (auto simp: validate_inputs_def rbind_eq_Ok)

lemma validate_not_panic [simp]: "\<not> is_panic (validate_inputs user machine model storage calibration)"
proof -
  have "\<not> is_panic (availability_validate profile a)" for profile a by (simp add: availability_validate_def)
  moreover have gpus: "\<not> is_panic (validate_gpus seen gpus)" for seen gpus
    by (induction seen gpus rule: validate_gpus.induct) (auto simp: is_panic_rbind availability_validate_def)
  moreover have "\<not> is_panic (observation_validate ob)" for ob by (simp add: observation_validate_def Let_def)
  moreover from this have "\<not> is_panic (validate_observations level seen obs)" for level seen obs
    by (induction level seen obs rule: validate_observations.induct) (auto simp: is_panic_rbind)
  ultimately show ?thesis
    by (auto simp: validate_inputs_def is_panic_rbind user_validate_def machine_validate_def model_validate_def
        storage_validate_def calibration_validate_def Let_def split: option.split)
qed

lemma select_device_preset:
  "up_gpu_preference user \<noteq> GpuRequire \<Longrightarrow> ao_gpu_device_id (up_advanced user) = None \<Longrightarrow>
   select_device user machine (capability_derive machine' model storage static_plan) = Ok (False, None, CpuLayerStreaming)"
  by (simp add: select_device_def Let_def)

lemma preset_advanced:
  "user_validate user = Ok () \<Longrightarrow> up_mode user \<noteq> Advanced \<Longrightarrow> up_advanced user = advanced_default"
  by (cases "up_advanced user")
    (auto simp: user_validate_def advanced_is_empty_def advanced_default_def Let_def split: if_splits)

lemma planner_preset_Ok:
  assumes inputs: "validate_inputs user machine model storage calibration = Ok ()"
    and feasible: "check_feasibility user machine model storage capabilities static_plan = Ok (available, execution)"
    and preset: "up_mode user \<noteq> Advanced" "up_gpu_preference user \<noteq> GpuRequire"
  shows "is_ok (planner_plan user machine model storage capabilities static_plan calibration)"
proof -
  have caps: "capabilities = capability_derive machine model storage static_plan"
    using feasible by (simp add: check_feasibility_Ok)
  have "user_validate user = Ok ()" using inputs by (auto simp: validate_inputs_def rbind_eq_Ok)
  from preset_advanced [OF this preset(1)] have none: "up_advanced user = advanced_default" .
  have device: "select_device user machine capabilities = Ok (False, None, CpuLayerStreaming)"
    unfolding caps by (rule select_device_preset) (simp_all add: preset(2) none advanced_default_def)
  have "is_ok (estimate_cost user (machine_fingerprint machine) (mid_descriptor_fingerprint (mo_identity model))
      (storage_fingerprint storage) CpuLayerStreaming execution calibration)"
    by (rule estimate_cost_Ok) (use validated_calibration [OF inputs] in blast)
  then obtain cost provenance reason where cost:
    "estimate_cost user (machine_fingerprint machine) (mid_descriptor_fingerprint (mo_identity model))
      (storage_fingerprint storage) CpuLayerStreaming execution calibration = Ok (cost, provenance, reason)"
    by (cases "estimate_cost user (machine_fingerprint machine) (mid_descriptor_fingerprint (mo_identity model))
      (storage_fingerprint storage) CpuLayerStreaming execution calibration") auto
  show ?thesis
    by (simp add: planner_plan_def inputs feasible device cost select_threads_def select_cache_def
        resolve_capability_choice_def none advanced_default_def Let_def)
qed

lemma planner_not_panic: "\<not> is_panic (planner_plan user machine model storage capabilities static_plan calibration)"
proof -
  have "\<not> is_panic (check_feasibility user machine model storage capabilities static_plan)"
    by (auto simp: check_feasibility_def is_panic_rbind Let_def)
  moreover have "\<not> is_panic (select_threads user machine)" by (simp add: select_threads_def Let_def split: option.split)
  moreover have "\<not> is_panic (select_device user machine capabilities)"
    by (auto simp: select_device_def select_gpu_def is_panic_rbind Let_def split: option.split)
  moreover have "\<not> is_panic (select_cache user capabilities execution)" for execution
    by (auto simp: select_cache_def is_panic_rbind Let_def split: option.split)
  moreover have "\<not> is_panic (resolve_capability_choice e d a r)" for e d a r
    by (simp add: resolve_capability_choice_def)
  moreover have "\<not> is_panic (estimate_cost user mf df sf strategy execution calibration)"
    if "validate_inputs user machine model storage calibration = Ok u" for u mf df sf strategy execution
    using estimate_cost_Ok [of calibration user mf df sf strategy execution] validated_calibration [OF that]
    by (cases "estimate_cost user mf df sf strategy execution calibration") auto
  ultimately show ?thesis
    by (auto simp: planner_plan_def is_panic_rbind)
qed


lemma machine_ram:
  "machine_validate m = Ok () \<Longrightarrow> mp_total_ram_bytes m = Some t \<Longrightarrow> mp_available_ram_bytes m = Some a \<Longrightarrow> a \<le> t"
  by (auto simp: machine_validate_def Let_def split: if_splits)

lemma storage_usable_facts:
  "storage_validate s = Ok () \<Longrightarrow> storage_is_usable s \<Longrightarrow> st_readable s \<and> st_regular_file s \<and> st_seekable s \<and> st_file_size_bytes s \<noteq> None"
  by (auto simp: storage_validate_def storage_is_usable_def Let_def split: if_splits)

text \<open>
  C32: a plan never promises what the machine cannot give. Whatever the user asks for and overrides, a
  plan has at least one thread and no more than the cores and the user's limit; its budget is the
  user's and fits in the available and the total memory; the lower bound of the execution fits in that
  budget; its layer cache has a capacity exactly when it is enabled, then holds a complete layer and
  stays within the statically available capacity; it never uses a GPU; it coalesces reads and reuses
  buffers only where that is possible; and its model file is readable, regular, seekable and as long
  as the model says.
\<close>

theorem plan_safe:
  assumes "planner_plan user machine model storage capabilities static_plan calibration = Ok p"
  shows "1 \<le> ep_cpu_thread_count p \<and> ep_cpu_thread_count p \<le> mp_logical_cpu_cores machine
    \<and> (\<forall>l. up_cpu_thread_limit user = Some l \<longrightarrow> ep_cpu_thread_count p \<le> l)
    \<and> ep_ram_budget_bytes p = up_ram_budget_bytes user
    \<and> (\<exists>t a. mp_total_ram_bytes machine = Some t \<and> mp_available_ram_bytes machine = Some a
        \<and> ep_ram_budget_bytes p \<le> a \<and> a \<le> t)
    \<and> (\<exists>em. sp_execution_memory static_plan = Some em \<and> em_managed_lower_bound_bytes em \<le> ep_ram_budget_bytes p
        \<and> lc_capacity_bytes (ep_layer_cache p) \<le> em_layer_cache_capacity_bytes em
        \<and> (lc_enabled (ep_layer_cache p) \<longleftrightarrow> 0 < lc_capacity_bytes (ep_layer_cache p))
        \<and> (lc_enabled (ep_layer_cache p) \<longrightarrow> 0 < em_min_layer_resident_bytes em
            \<and> em_min_layer_resident_bytes em \<le> lc_capacity_bytes (ep_layer_cache p)))
    \<and> ep_strategy p = CpuLayerStreaming \<and> \<not> gp_enabled (ep_gpu p) \<and> gp_selected_device_id (ep_gpu p) = None
    \<and> (io_read_coalescing_enabled (ep_io p) \<longrightarrow> mo_has_coalescible_layer_reads model)
    \<and> (io_grouped_read_buffer_reuse_enabled (ep_io p) \<longrightarrow> mo_has_reusable_grouped_read_candidate model)
    \<and> st_readable storage \<and> st_regular_file storage \<and> st_seekable storage
    \<and> st_file_size_bytes storage = Some (mo_file_size_bytes model)"
  using assms
proof (rule planner_plan_Ok)
  fix available execution threads reason device cache coalescing reuse
  assume inputs: "validate_inputs user machine model storage calibration = Ok ()"
    and feasible: "check_feasibility user machine model storage capabilities static_plan = Ok (available, execution)"
    and threads: "select_threads user machine = Ok (threads, reason)"
    and cache: "select_cache user capabilities execution = Ok cache"
    and io: "coalescing \<longrightarrow> ca_read_coalescing_possible capabilities"
      "reuse \<longrightarrow> ca_grouped_read_buffer_reuse_possible capabilities"
    and p: "ep_strategy p = CpuLayerStreaming" "ep_ram_budget_bytes p = up_ram_budget_bytes user"
      "ep_cpu_thread_count p = threads" "ep_layer_cache p = cache"
      "ep_io p = \<lparr>io_read_coalescing_enabled = coalescing, io_grouped_read_buffer_reuse_enabled = reuse\<rparr>"
      "ep_gpu p = \<lparr>gp_preference = up_gpu_preference user, gp_enabled = False, gp_selected_device_id = None\<rparr>"
  have valid: "user_validate user = Ok ()" "machine_validate machine = Ok ()" "storage_validate storage = Ok ()"
    using inputs by (auto simp: validate_inputs_def rbind_eq_Ok)
  note feas = feasible [unfolded check_feasibility_Ok]
  have caps: "storage_is_usable storage" "coalescing \<longrightarrow> mo_has_coalescible_layer_reads model"
    "reuse \<longrightarrow> mo_has_reusable_grouped_read_candidate model"
    using feas io by (auto simp: capability_derive_def Let_def)
  have "st_file_size_bytes storage = Some (mo_file_size_bytes model)"
    using storage_usable_facts [OF valid(3) caps(1)] feas by auto
  then show ?thesis
    using select_threads_bounds [OF threads valid(1,2)] select_cache_bounds [OF cache] machine_ram [OF valid(2)] feas caps
      storage_usable_facts [OF valid(3) caps(1)]
    unfolding p by (auto simp: p)
qed

definition example_profile :: model_profile where
  "example_profile =
     \<lparr>mo_schema_version = 2, mo_identity = \<lparr>mid_display_name = None, mid_descriptor_fingerprint = 7\<rparr>,
      mo_architecture = Some ''llama'', mo_context_size = None, mo_layer_count = Some 1, mo_tensor_count = 11,
      mo_total_tensor_elements = None, mo_file_size_bytes = 1000, mo_tensor_data_bytes = None,
      mo_tensor_formats = [\<lparr>tf_format = ''F32'', tf_tensor_count = 11, tf_element_count = None,
        tf_byte_count = None, tf_runtime_supported = True\<rparr>],
      mo_execution_compatibility = Executable, mo_has_coalescible_layer_reads = True,
      mo_has_reusable_grouped_read_candidate = True\<rparr>"

definition example_memory :: execution_memory_plan where
  "example_memory =
     \<lparr>em_block_count = 1, em_resident_persistent_count = 2, em_streamed_persistent_count = 0,
      em_persistent_resident_bytes = 50, em_persistent_startup_peak_bytes = 50, em_largest_layer_index = 0,
      em_largest_layer_tensor_count = 9, em_largest_layer_resident_bytes = 90, em_largest_layer_load_peak_bytes = 90,
      em_managed_lower_bound_bytes = 140, em_layer_cache_capacity_bytes = 860, em_max_complete_cached_layers = 1,
      em_min_layer_resident_bytes = 90, em_logical_tensor_reads_per_forward = 9, em_physical_reads_per_forward = 1,
      em_logical_tensor_bytes_per_forward = 90, em_physical_bytes_per_forward = 90, em_gap_bytes_per_forward = 0,
      em_layer_streaming_lower_bound_fits = True\<rparr>"

definition example_static_plan :: plan_result where
  "example_static_plan =
     \<lparr>sp_file_size = 1000, sp_architecture = Some ''llama'', sp_tensor_count = 11, sp_ram_requested = 1000,
      sp_cache_capacity = 500, sp_overhead_reserved = 0, sp_available = 1000, sp_fits_in_ram = True,
      sp_file_backed_needed = 0, sp_total_tensor_bytes = None, sp_execution_memory = Some example_memory,
      sp_execution_preflight_error = None, sp_budget = \<lparr>total = 1000, allocations = [], used = 0, peak_used = 0\<rparr>\<rparr>"

lemma example_inputs:
  "validate_inputs (user_new 1000 MaximumPerformance) example_machine example_profile example_storage None = Ok ()"
  by (simp add: validate_inputs_def user_validate_def user_new_def machine_validate_def example_machine_def
      example_profile_def model_validate_def storage_validate_def example_storage_def availability_validate_def
      advanced_is_empty_def advanced_default_def PROFILE_SCHEMA_VERSION_def U64_MAX_def checked_add_def)

lemma example_feasible:
  "check_feasibility (user_new 1000 MaximumPerformance) example_machine example_profile example_storage
     (capability_derive example_machine example_profile example_storage example_static_plan) example_static_plan
   = Ok (2000, example_memory)"
  by (simp add: check_feasibility_Ok) (simp add: user_new_def example_machine_def example_profile_def example_storage_def
      example_static_plan_def example_memory_def capability_derive_def storage_is_usable_def Let_def)

theorem plan_safe_witness:
  "\<exists>p. planner_plan (user_new 1000 MaximumPerformance) example_machine example_profile example_storage
     (capability_derive example_machine example_profile example_storage example_static_plan) example_static_plan None = Ok p
   \<and> 1 \<le> ep_cpu_thread_count p \<and> ep_cpu_thread_count p \<le> 4"
proof -
  let ?r = "planner_plan (user_new 1000 MaximumPerformance) example_machine example_profile example_storage
     (capability_derive example_machine example_profile example_storage example_static_plan) example_static_plan None"
  have "is_ok ?r" by (rule planner_preset_Ok [OF example_inputs example_feasible]) (simp_all add: user_new_def)
  then obtain p where p: "?r = Ok p" by (cases ?r) auto
  from plan_safe [OF this] have "1 \<le> ep_cpu_thread_count p \<and> ep_cpu_thread_count p \<le> mp_logical_cpu_cores example_machine"
    by simp
  then show ?thesis using p by (auto simp: example_machine_def)
qed

text \<open>
  The outcome of planning. The planner never panics, whatever the profiles and the calibration say;
  a user of a preset mode who does not require a GPU gets a plan for every valid, feasible input, and
  then the number of threads is the fraction of the mode, at least one, and the layer cache the share
  of the mode of the static capacity, dropped when no complete layer fits in it.
\<close>

theorem planner_outcome:
  "\<not> is_panic (planner_plan user machine model storage capabilities static_plan calibration)
   \<and> (validate_inputs user machine model storage calibration = Ok ()
      \<and> check_feasibility user machine model storage capabilities static_plan = Ok (available, em)
      \<and> up_mode user \<noteq> Advanced \<and> up_gpu_preference user \<noteq> GpuRequire \<longrightarrow>
      (\<exists>p. planner_plan user machine model storage capabilities static_plan calibration = Ok p
        \<and> (up_cpu_thread_limit user = None \<and> mp_logical_cpu_cores machine \<le> 2 ^ 32 \<longrightarrow>
            ep_cpu_thread_count p = (case up_mode user of BackgroundConstrained \<Rightarrow> max 1 (mp_logical_cpu_cores machine div 2)
              | MaximumPerformance \<Rightarrow> mp_logical_cpu_cores machine
              | _ \<Rightarrow> max 1 (mp_logical_cpu_cores machine * 3 div 4)))
        \<and> lc_capacity_bytes (ep_layer_cache p) =
            (let share = (case up_mode user of BackgroundConstrained \<Rightarrow> 0
                | MaximumPerformance \<Rightarrow> em_layer_cache_capacity_bytes em
                | _ \<Rightarrow> em_layer_cache_capacity_bytes em div 2) in
             if 0 < em_min_layer_resident_bytes em \<and> em_min_layer_resident_bytes em \<le> share then share else 0)))"
proof -
  have main: "\<exists>p. planner_plan user machine model storage capabilities static_plan calibration = Ok p
        \<and> (up_cpu_thread_limit user = None \<and> mp_logical_cpu_cores machine \<le> 2 ^ 32 \<longrightarrow>
            ep_cpu_thread_count p = (case up_mode user of BackgroundConstrained \<Rightarrow> max 1 (mp_logical_cpu_cores machine div 2)
              | MaximumPerformance \<Rightarrow> mp_logical_cpu_cores machine
              | _ \<Rightarrow> max 1 (mp_logical_cpu_cores machine * 3 div 4)))
        \<and> lc_capacity_bytes (ep_layer_cache p) =
            (let share = (case up_mode user of BackgroundConstrained \<Rightarrow> 0
                | MaximumPerformance \<Rightarrow> em_layer_cache_capacity_bytes em
                | _ \<Rightarrow> em_layer_cache_capacity_bytes em div 2) in
             if 0 < em_min_layer_resident_bytes em \<and> em_min_layer_resident_bytes em \<le> share then share else 0)"
    if inputs: "validate_inputs user machine model storage calibration = Ok ()"
      and feasible: "check_feasibility user machine model storage capabilities static_plan = Ok (available, em)"
      and preset: "up_mode user \<noteq> Advanced" "up_gpu_preference user \<noteq> GpuRequire"
  proof -
    obtain p where p: "planner_plan user machine model storage capabilities static_plan calibration = Ok p"
      using planner_preset_Ok [OF inputs feasible preset] by (cases "planner_plan user machine model storage capabilities static_plan calibration") auto
    have valid: "user_validate user = Ok ()" "machine_validate machine = Ok ()"
      using inputs by (auto simp: validate_inputs_def rbind_eq_Ok)
    have none: "up_advanced user = advanced_default" by (rule preset_advanced [OF valid(1) preset(1)])
    have cores: "0 < mp_logical_cpu_cores machine"
      using valid(2) by (auto simp: machine_validate_def Let_def split: if_splits)
    have possible: "ca_layer_cache_possible capabilities \<longleftrightarrow>
        0 < em_min_layer_resident_bytes em \<and> em_min_layer_resident_bytes em \<le> em_layer_cache_capacity_bytes em"
      using feasible by (auto simp: check_feasibility_Ok capability_derive_def Let_def)
    from p obtain threads reason cache where steps: "select_threads user machine = Ok (threads, reason)"
      "select_cache user capabilities em = Ok cache" "ep_cpu_thread_count p = threads" "ep_layer_cache p = cache"
      using feasible by (auto elim!: planner_plan_Ok)
    have "saturating_mul c 3 = c * 3" "saturating_mul c 1 = c" if "c \<le> 2 ^ 32" for c
      using that by (simp_all add: saturating_mul_def U64_MAX_def)
    then have "up_cpu_thread_limit user = None \<and> mp_logical_cpu_cores machine \<le> 2 ^ 32 \<longrightarrow>
        threads = (case up_mode user of BackgroundConstrained \<Rightarrow> max 1 (mp_logical_cpu_cores machine div 2)
          | MaximumPerformance \<Rightarrow> mp_logical_cpu_cores machine
          | _ \<Rightarrow> max 1 (mp_logical_cpu_cores machine * 3 div 4))"
      using steps(1) preset(1) cores
      by (cases "up_mode user") (auto simp: select_threads_def none advanced_default_def Let_def max.commute)
    moreover have "lc_capacity_bytes cache =
        (let share = (case up_mode user of BackgroundConstrained \<Rightarrow> 0
            | MaximumPerformance \<Rightarrow> em_layer_cache_capacity_bytes em
            | _ \<Rightarrow> em_layer_cache_capacity_bytes em div 2) in
         if 0 < em_min_layer_resident_bytes em \<and> em_min_layer_resident_bytes em \<le> share then share else 0)"
      using steps(2) preset(1) possible
      by (cases "up_mode user") (auto simp: select_cache_def wants_cache_def none advanced_default_def Let_def split: if_splits)
    ultimately show ?thesis using p steps by auto
  qed
  then show ?thesis using planner_not_panic by blast
qed

theorem planner_outcome_witness:
  "\<exists>p. planner_plan (user_new 1000 MaximumPerformance) example_machine example_profile example_storage
     (capability_derive example_machine example_profile example_storage example_static_plan) example_static_plan None = Ok p
   \<and> ep_cpu_thread_count p = 4 \<and> lc_capacity_bytes (ep_layer_cache p) = 860"
  using planner_outcome [of "user_new 1000 MaximumPerformance" example_machine example_profile example_storage
      "capability_derive example_machine example_profile example_storage example_static_plan" example_static_plan None
      2000 example_memory] example_inputs example_feasible
  by (simp add: user_new_def example_machine_def example_memory_def)

end
