(* ===== verification/Plan_Compiler.thy ===== *)
theory Plan_Compiler
  imports Execution_Planner
begin

section \<open>The plan compiler and the runtime configuration\<close>

text \<open>
  \<open>crates/ramforge-runtime/src/runtime_config.rs\<close>: the configuration the inference runtime consumes;
  \<open>crates/ramforge-runtime/src/plan_compiler.rs\<close>: the boundary that checks a plan, which may come from
  disk or from another machine, against the present machine, model, storage, capabilities and static
  plan, and turns it into a configuration. The planner and the compiler meet here: every plan of the
  planner compiles, and whatever compiles is safe to run. The path of the model is a string; Rust compares
  the components of two paths, so it also accepts a plan whose path differs in repeated separators only.
\<close>

subsection \<open>Runtime configuration\<close>

datatype runtime_execution_device = Cpu

record runtime_config =
  rc_cpu_thread_count :: usize
  rc_ram_budget_bytes :: u64
  rc_layer_cache_enabled :: bool
  rc_layer_cache_capacity_bytes :: u64
  rc_read_coalescing_enabled :: bool
  rc_grouped_read_buffer_reuse_enabled :: bool
  rc_execution_device :: runtime_execution_device

datatype runtime_config_error =
    ConfigZeroThreadCount
  | ConfigZeroRamBudget
  | LayerCacheEnabledWithoutCapacity
  | LayerCacheDisabledWithCapacity
  | LayerCacheCapacityExceedsRamBudget u64 u64

definition config_validate :: "runtime_config \<Rightarrow> (unit, runtime_config_error) result" where
  "config_validate c =
     (if rc_cpu_thread_count c = 0 then Err ConfigZeroThreadCount
      else if rc_ram_budget_bytes c = 0 then Err ConfigZeroRamBudget
      else if rc_layer_cache_enabled c \<and> rc_layer_cache_capacity_bytes c = 0
      then Err LayerCacheEnabledWithoutCapacity
      else if \<not> rc_layer_cache_enabled c \<and> rc_layer_cache_capacity_bytes c \<noteq> 0
      then Err LayerCacheDisabledWithCapacity
      else if rc_ram_budget_bytes c < rc_layer_cache_capacity_bytes c
      then Err (LayerCacheCapacityExceedsRamBudget (rc_layer_cache_capacity_bytes c) (rc_ram_budget_bytes c))
      else Ok ())"

definition config_new ::
  "usize \<Rightarrow> u64 \<Rightarrow> bool \<Rightarrow> u64 \<Rightarrow> bool \<Rightarrow> bool \<Rightarrow> (runtime_config, runtime_config_error) result"
where
  "config_new threads ram enabled capacity coalescing reuse =
     (let config = \<lparr>rc_cpu_thread_count = threads, rc_ram_budget_bytes = ram, rc_layer_cache_enabled = enabled,
            rc_layer_cache_capacity_bytes = capacity, rc_read_coalescing_enabled = coalescing,
            rc_grouped_read_buffer_reuse_enabled = reuse, rc_execution_device = Cpu\<rparr> in
      rbind (config_validate config) (\<lambda>_. Ok config))"

text \<open>\<open>parallelism\<close> is the answer of \<open>available_parallelism\<close>, absent when it fails.\<close>

definition current_defaults_with_thread_count ::
  "usize \<Rightarrow> u64 \<Rightarrow> u64 \<Rightarrow> (runtime_config, runtime_config_error) result"
where
  "current_defaults_with_thread_count threads ram capacity =
     config_new threads ram (0 < capacity) capacity True True"

definition current_defaults :: "usize option \<Rightarrow> u64 \<Rightarrow> u64 \<Rightarrow> (runtime_config, runtime_config_error) result" where
  "current_defaults parallelism ram capacity =
     current_defaults_with_thread_count (case parallelism of Some n \<Rightarrow> n | None \<Rightarrow> 1) ram capacity"

subsection \<open>Compilation\<close>

record plan_compilation_context =
  cc_machine :: machine_profile
  cc_model :: model_profile
  cc_storage :: storage_profile
  cc_capabilities :: capability_set
  cc_static_plan :: plan_result

datatype plan_compilation_error =
    UnsupportedSchemaVersion nat nat
  | UnsupportedRulesetVersion nat nat
  | InvalidContext string
  | BindingMismatch string
  | StaticPlanMismatch string
  | ZeroThreadCount
  | ThreadCountExceedsLimit usize usize
  | ZeroRamBudget
  | CompileRamBudgetExceedsTotalRam u64 u64
  | CompileRamBudgetExceedsAvailableRam u64 u64
  | StorageUnavailable
  | CpuExecutionUnavailable
  | ModelExecutionUnavailable
  | CompilePreflightUnavailable
  | CompileLowerBoundExceedsBudget u64 u64
  | ReservationMismatch string
  | LayerCacheStateInconsistent
  | LayerCacheUnavailable
  | LayerCacheCapacityExceedsLimit u64 u64
  | LayerCacheCapacityCannotFitLayer u64 u64
  | ReadCoalescingUnavailable
  | GroupedReadBufferReuseUnavailable
  | InconsistentGpuDecision
  | UnsupportedGpuExecution
  | InvalidRuntimeConfig runtime_config_error

definition validate_plan_header :: "execution_plan \<Rightarrow> (unit, plan_compilation_error) result" where
  "validate_plan_header p =
     (if ep_schema_version p \<noteq> EXECUTION_PLAN_SCHEMA_VERSION
      then Err (UnsupportedSchemaVersion (ep_schema_version p) EXECUTION_PLAN_SCHEMA_VERSION)
      else if ep_ruleset_version p \<noteq> PLANNER_RULESET_VERSION
      then Err (UnsupportedRulesetVersion (ep_ruleset_version p) PLANNER_RULESET_VERSION)
      else Ok ())"

definition validate_concrete_decisions :: "execution_plan \<Rightarrow> (unit, plan_compilation_error) result" where
  "validate_concrete_decisions p =
     (let gpu = ep_gpu p in
      if ep_cpu_thread_count p = 0 then Err ZeroThreadCount
      else if ep_ram_budget_bytes p = 0 then Err ZeroRamBudget
      else if lc_enabled (ep_layer_cache p) \<noteq> (0 < lc_capacity_bytes (ep_layer_cache p))
      then Err LayerCacheStateInconsistent
      else (case ep_strategy p of
          CpuLayerStreaming \<Rightarrow>
            if gp_enabled gpu \<or> gp_selected_device_id gpu \<noteq> None \<or> gp_preference gpu = GpuRequire
            then Err InconsistentGpuDecision else Ok ()
        | GpuLayerOffload \<Rightarrow>
            if \<not> gp_enabled gpu \<or> gp_selected_device_id gpu = None \<or> gp_preference gpu = GpuDisabled
            then Err InconsistentGpuDecision else Err UnsupportedGpuExecution))"

definition validate_context :: "plan_compilation_context \<Rightarrow> (unit, plan_compilation_error) result" where
  "validate_context c =
     rbind (map_err (\<lambda>_. InvalidContext ''machine profile'') (machine_validate (cc_machine c))) (\<lambda>_.
     rbind (map_err (\<lambda>_. InvalidContext ''model profile'') (model_validate (cc_model c))) (\<lambda>_.
     rbind (map_err (\<lambda>_. InvalidContext ''storage profile'') (storage_validate (cc_storage c))) (\<lambda>_.
     if cc_capabilities c \<noteq> capability_derive (cc_machine c) (cc_model c) (cc_storage c) (cc_static_plan c)
     then Err (InvalidContext ''capability set does not match current profiles and static plan'')
     else Ok ())))"

definition validate_bindings :: "execution_plan \<Rightarrow> plan_compilation_context \<Rightarrow> (unit, plan_compilation_error) result" where
  "validate_bindings p c =
     (let b = ep_binding p in
      if pb_machine_fingerprint b \<noteq> machine_fingerprint (cc_machine c)
      then Err (BindingMismatch ''machine fingerprint'')
      else if pb_model_descriptor_fingerprint b \<noteq> mid_descriptor_fingerprint (mo_identity (cc_model c))
      then Err (BindingMismatch ''model descriptor fingerprint'')
      else if pb_storage_fingerprint b \<noteq> storage_fingerprint (cc_storage c)
      then Err (BindingMismatch ''storage fingerprint'')
      else if pb_model_path b \<noteq> st_model_path (cc_storage c) then Err (BindingMismatch ''model path'')
      else Ok ())"

definition validate_static_plan ::
  "execution_plan \<Rightarrow> plan_compilation_context \<Rightarrow> (execution_memory_plan, plan_compilation_error) result"
where
  "validate_static_plan p c =
     (let sp = cc_static_plan c; model = cc_model c in
      if sp_ram_requested sp \<noteq> ep_ram_budget_bytes p then Err (StaticPlanMismatch ''RAM budget'')
      else if sp_file_size sp \<noteq> mo_file_size_bytes model then Err (StaticPlanMismatch ''model file size'')
      else if sp_tensor_count sp \<noteq> mo_tensor_count model then Err (StaticPlanMismatch ''tensor count'')
      else if sp_architecture sp \<noteq> mo_architecture model then Err (StaticPlanMismatch ''architecture'')
      else if st_file_size_bytes (cc_storage c) \<noteq> Some (mo_file_size_bytes model)
      then Err (StaticPlanMismatch ''storage/model file size'')
      else if sp_execution_memory sp \<noteq> None \<and> sp_execution_preflight_error sp \<noteq> None
      then Err (StaticPlanMismatch ''execution preflight state'')
      else ok_or CompilePreflightUnavailable (sp_execution_memory sp))"

definition validate_resource_limits ::
  "execution_plan \<Rightarrow> plan_compilation_context \<Rightarrow> (unit, plan_compilation_error) result"
where
  "validate_resource_limits p c =
     (let machine = cc_machine c; ram = ep_ram_budget_bytes p; caps = cc_capabilities c in
      if mp_logical_cpu_cores machine < ep_cpu_thread_count p
      then Err (ThreadCountExceedsLimit (ep_cpu_thread_count p) (mp_logical_cpu_cores machine))
      else rbind (ok_or (InvalidContext ''machine total RAM is unavailable'') (mp_total_ram_bytes machine)) (\<lambda>total_ram.
        rbind (ok_or (InvalidContext ''machine available RAM is unavailable'') (mp_available_ram_bytes machine)) (\<lambda>available_ram.
          if total_ram < ram then Err (CompileRamBudgetExceedsTotalRam ram total_ram)
          else if total_ram < rr_available_ram_bytes_at_planning (ep_reservations p)
          then Err (ReservationMismatch ''available RAM at planning exceeds total RAM'')
          else if available_ram < ram then Err (CompileRamBudgetExceedsAvailableRam ram available_ram)
          else if \<not> ca_storage_usable caps then Err StorageUnavailable
          else if \<not> ca_cpu_backend_usable caps then Err CpuExecutionUnavailable
          else if \<not> ca_model_execution_compatible caps then Err ModelExecutionUnavailable
          else Ok ())))"

fun first_mismatch :: "(bool \<times> string) list \<Rightarrow> (unit, plan_compilation_error) result" where
  "first_mismatch [] = Ok ()"
| "first_mismatch ((matches, field) # rest) =
     (if matches then first_mismatch rest else Err (ReservationMismatch field))"

definition validate_reservations ::
  "execution_plan \<Rightarrow> execution_memory_plan \<Rightarrow> (unit, plan_compilation_error) result"
where
  "validate_reservations p execution =
     (let r = ep_reservations p; ram = ep_ram_budget_bytes p in
      if \<not> em_layer_streaming_lower_bound_fits execution \<or> ram < em_managed_lower_bound_bytes execution
      then Err (CompileLowerBoundExceedsBudget (em_managed_lower_bound_bytes execution) ram)
      else if rr_available_ram_bytes_at_planning r < ram then Err (ReservationMismatch ''available RAM at planning'')
      else rbind (first_mismatch
          [(rr_persistent_resident_bytes r = em_persistent_resident_bytes execution, ''persistent resident bytes''),
           (rr_persistent_startup_peak_bytes r = em_persistent_startup_peak_bytes execution, ''persistent startup peak bytes''),
           (rr_largest_layer_load_peak_bytes r = em_largest_layer_load_peak_bytes execution, ''largest layer load peak bytes''),
           (rr_managed_lower_bound_bytes r = em_managed_lower_bound_bytes execution, ''managed-memory lower bound'')]) (\<lambda>_.
        rbind (ok_or (CompileLowerBoundExceedsBudget (rr_managed_lower_bound_bytes r) ram)
            (checked_sub ram (rr_managed_lower_bound_bytes r))) (\<lambda>remaining.
          if rr_remaining_budget_after_lower_bound_bytes r \<noteq> remaining
          then Err (ReservationMismatch ''remaining budget after lower bound'')
          else if em_layer_cache_capacity_bytes execution \<noteq> remaining
          then Err (StaticPlanMismatch ''layer-cache capacity/lower-bound relationship'')
          else Ok ())))"

definition validate_cache ::
  "execution_plan \<Rightarrow> capability_set \<Rightarrow> execution_memory_plan \<Rightarrow> (unit, plan_compilation_error) result"
where
  "validate_cache p capabilities execution =
     (let cache = ep_layer_cache p in
      if \<not> lc_enabled cache then Ok ()
      else if \<not> ca_layer_cache_possible capabilities then Err LayerCacheUnavailable
      else if em_layer_cache_capacity_bytes execution < lc_capacity_bytes cache
      then Err (LayerCacheCapacityExceedsLimit (lc_capacity_bytes cache) (em_layer_cache_capacity_bytes execution))
      else if lc_capacity_bytes cache < em_min_layer_resident_bytes execution
      then Err (LayerCacheCapacityCannotFitLayer (lc_capacity_bytes cache) (em_min_layer_resident_bytes execution))
      else Ok ())"

definition validate_io :: "execution_plan \<Rightarrow> capability_set \<Rightarrow> (unit, plan_compilation_error) result" where
  "validate_io p capabilities =
     (if io_read_coalescing_enabled (ep_io p) \<and> \<not> ca_read_coalescing_possible capabilities
      then Err ReadCoalescingUnavailable
      else if io_grouped_read_buffer_reuse_enabled (ep_io p) \<and> \<not> ca_grouped_read_buffer_reuse_possible capabilities
      then Err GroupedReadBufferReuseUnavailable
      else Ok ())"

definition compile_plan :: "execution_plan \<Rightarrow> plan_compilation_context \<Rightarrow> (runtime_config, plan_compilation_error) result" where
  "compile_plan p c =
     rbind (validate_plan_header p) (\<lambda>_. rbind (validate_concrete_decisions p) (\<lambda>_.
     rbind (validate_context c) (\<lambda>_. rbind (validate_bindings p c) (\<lambda>_.
     rbind (validate_static_plan p c) (\<lambda>execution.
     rbind (validate_resource_limits p c) (\<lambda>_. rbind (validate_reservations p execution) (\<lambda>_.
     rbind (validate_cache p (cc_capabilities c) execution) (\<lambda>_. rbind (validate_io p (cc_capabilities c)) (\<lambda>_.
     map_err InvalidRuntimeConfig
       (config_new (ep_cpu_thread_count p) (ep_ram_budget_bytes p) (lc_enabled (ep_layer_cache p))
         (lc_capacity_bytes (ep_layer_cache p)) (io_read_coalescing_enabled (ep_io p))
         (io_grouped_read_buffer_reuse_enabled (ep_io p))))))))))))"

subsection \<open>Properties\<close>

definition compiled_config :: "execution_plan \<Rightarrow> runtime_config" where
  "compiled_config p =
     \<lparr>rc_cpu_thread_count = ep_cpu_thread_count p, rc_ram_budget_bytes = ep_ram_budget_bytes p,
      rc_layer_cache_enabled = lc_enabled (ep_layer_cache p),
      rc_layer_cache_capacity_bytes = lc_capacity_bytes (ep_layer_cache p),
      rc_read_coalescing_enabled = io_read_coalescing_enabled (ep_io p),
      rc_grouped_read_buffer_reuse_enabled = io_grouped_read_buffer_reuse_enabled (ep_io p), rc_execution_device = Cpu\<rparr>"

lemma config_new_Ok:
  "config_new threads ram enabled capacity coalescing reuse = Ok config \<longleftrightarrow>
     0 < threads \<and> 0 < ram \<and> (enabled \<longleftrightarrow> 0 < capacity) \<and> capacity \<le> ram
     \<and> config = \<lparr>rc_cpu_thread_count = threads, rc_ram_budget_bytes = ram, rc_layer_cache_enabled = enabled,
          rc_layer_cache_capacity_bytes = capacity, rc_read_coalescing_enabled = coalescing,
          rc_grouped_read_buffer_reuse_enabled = reuse, rc_execution_device = Cpu\<rparr>"
  by (auto simp: config_new_def config_validate_def rbind_eq_Ok Let_def split: if_splits)

lemma first_mismatch_Ok: "first_mismatch xs = Ok u \<longleftrightarrow> (\<forall>x \<in> set xs. fst x)"
  by (induction xs rule: first_mismatch.induct) auto


text \<open>What compiling establishes, read off the checks.\<close>

lemma compile_plan_Ok:
  "compile_plan p c = Ok config \<longleftrightarrow>
     validate_plan_header p = Ok () \<and> validate_concrete_decisions p = Ok () \<and> validate_context c = Ok ()
     \<and> validate_bindings p c = Ok ()
     \<and> (\<exists>em. validate_static_plan p c = Ok em \<and> validate_resource_limits p c = Ok () \<and> validate_reservations p em = Ok ()
         \<and> validate_cache p (cc_capabilities c) em = Ok () \<and> validate_io p (cc_capabilities c) = Ok ())
     \<and> lc_capacity_bytes (ep_layer_cache p) \<le> ep_ram_budget_bytes p \<and> config = compiled_config p"
  by (auto simp: compile_plan_def rbind_eq_Ok config_new_Ok compiled_config_def validate_concrete_decisions_def Let_def
      split: if_splits strategy_id.splits)

text \<open>
  C33: whatever the compiler accepts is safe to run, also a plan it was handed from elsewhere: the
  configuration carries exactly the decisions of the plan and is valid; its threads do not exceed the
  cores; its budget fits in the memory available now; the lower bound of the execution and the layer
  cache together stay within the budget; an enabled cache holds a complete layer; and the plan was made
  for this machine, this model, this storage and this path.
\<close>

theorem compile_sound:
  assumes "compile_plan p c = Ok config"
  shows "config = compiled_config p \<and> config_validate config = Ok ()
    \<and> rc_cpu_thread_count config \<le> mp_logical_cpu_cores (cc_machine c)
    \<and> (\<exists>a. mp_available_ram_bytes (cc_machine c) = Some a \<and> rc_ram_budget_bytes config \<le> a)
    \<and> (\<exists>em. sp_execution_memory (cc_static_plan c) = Some em
        \<and> em_managed_lower_bound_bytes em + rc_layer_cache_capacity_bytes config \<le> rc_ram_budget_bytes config
        \<and> (rc_layer_cache_enabled config \<longrightarrow> 0 < em_min_layer_resident_bytes em
            \<and> em_min_layer_resident_bytes em \<le> rc_layer_cache_capacity_bytes config))
    \<and> ca_model_execution_compatible (cc_capabilities c)
    \<and> pb_machine_fingerprint (ep_binding p) = machine_fingerprint (cc_machine c)
    \<and> pb_model_descriptor_fingerprint (ep_binding p) = mid_descriptor_fingerprint (mo_identity (cc_model c))
    \<and> pb_storage_fingerprint (ep_binding p) = storage_fingerprint (cc_storage c)
    \<and> pb_model_path (ep_binding p) = st_model_path (cc_storage c)"
proof -
  obtain em where checks: "validate_concrete_decisions p = Ok ()" "validate_context c = Ok ()" "validate_bindings p c = Ok ()"
      "validate_resource_limits p c = Ok ()" "validate_reservations p em = Ok ()" "validate_cache p (cc_capabilities c) em = Ok ()"
    and em: "validate_static_plan p c = Ok em"
    and capacity: "lc_capacity_bytes (ep_layer_cache p) \<le> ep_ram_budget_bytes p" and config: "config = compiled_config p"
    using assms unfolding compile_plan_Ok by blast
  have decisions: "0 < ep_cpu_thread_count p" "0 < ep_ram_budget_bytes p"
      "lc_enabled (ep_layer_cache p) \<longleftrightarrow> 0 < lc_capacity_bytes (ep_layer_cache p)"
    using checks(1) by (auto simp: validate_concrete_decisions_def Let_def split: if_splits)
  have memory: "sp_execution_memory (cc_static_plan c) = Some em"
    using em by (auto simp: validate_static_plan_def Let_def split: if_splits)
  have caps: "cc_capabilities c = capability_derive (cc_machine c) (cc_model c) (cc_storage c) (cc_static_plan c)"
    using checks(2) by (auto simp: validate_context_def rbind_eq_Ok split: if_splits)
  have bound: "em_managed_lower_bound_bytes em + em_layer_cache_capacity_bytes em = ep_ram_budget_bytes p"
    using checks(5) by (auto simp: validate_reservations_def Let_def rbind_eq_Ok first_mismatch_Ok split: if_splits)
  have cache: "lc_enabled (ep_layer_cache p) \<longrightarrow> 0 < em_min_layer_resident_bytes em
      \<and> em_min_layer_resident_bytes em \<le> lc_capacity_bytes (ep_layer_cache p)
      \<and> lc_capacity_bytes (ep_layer_cache p) \<le> em_layer_cache_capacity_bytes em"
    using checks(6) memory by (auto simp: validate_cache_def caps capability_derive_def Let_def split: if_splits)
  have limits: "ep_cpu_thread_count p \<le> mp_logical_cpu_cores (cc_machine c)"
      "\<exists>a. mp_available_ram_bytes (cc_machine c) = Some a \<and> ep_ram_budget_bytes p \<le> a"
      "ca_model_execution_compatible (cc_capabilities c)"
    using checks(4) by (auto simp: validate_resource_limits_def Let_def rbind_eq_Ok not_less split: if_splits)
  have bindings: "pb_machine_fingerprint (ep_binding p) = machine_fingerprint (cc_machine c)"
      "pb_model_descriptor_fingerprint (ep_binding p) = mid_descriptor_fingerprint (mo_identity (cc_model c))"
      "pb_storage_fingerprint (ep_binding p) = storage_fingerprint (cc_storage c)"
      "pb_model_path (ep_binding p) = st_model_path (cc_storage c)"
    using checks(3) by (auto simp: validate_bindings_def Let_def split: if_splits)
  have within: "em_managed_lower_bound_bytes em + lc_capacity_bytes (ep_layer_cache p) \<le> ep_ram_budget_bytes p"
    using bound cache decisions(3) by (cases "lc_enabled (ep_layer_cache p)") auto
  have valid: "config_validate (compiled_config p) = Ok ()"
    using decisions capacity by (auto simp: config_validate_def compiled_config_def)
  show ?thesis
    using memory within cache limits bindings valid by (auto simp: config compiled_config_def)
qed

lemma plan_model_memory:
  assumes "plan_model show_value m ram = Ok sp"
  shows "sp_ram_requested sp = ram"
    "sp_execution_memory sp = Some em \<Longrightarrow> sp_execution_preflight_error sp = None"
    "sp_execution_memory sp = Some em \<Longrightarrow> em_layer_cache_capacity_bytes em = ram - em_managed_lower_bound_bytes em"
proof -
  have "sp_ram_requested sp = ram \<and> (\<forall>em. sp_execution_memory sp = Some em \<longrightarrow>
      sp_execution_preflight_error sp = None \<and> plan_execution_memory show_value m ram = Ok em)"
    using assms by (cases "plan_execution_memory show_value m ram") (auto simp: plan_model_def rbind_eq_Ok Let_def)
  moreover have "em_layer_cache_capacity_bytes em = ram - em_managed_lower_bound_bytes em"
    if "plan_execution_memory show_value m ram = Ok em" for em
    using that by (auto simp: plan_execution_memory_def rbind_eq_Ok Let_def saturating_sub_def)
  ultimately show "sp_ram_requested sp = ram"
    "sp_execution_memory sp = Some em \<Longrightarrow> sp_execution_preflight_error sp = None"
    "sp_execution_memory sp = Some em \<Longrightarrow> em_layer_cache_capacity_bytes em = ram - em_managed_lower_bound_bytes em" by auto
qed

text \<open>
  C34: the planner and the compiler agree. Every plan that the planner makes from the static plan of a
  model compiles in the same context, to the configuration that carries its decisions.
\<close>

theorem planned_compiles:
  assumes static: "plan_model show_value m ram = Ok static_plan"
    and plan: "planner_plan user machine model storage capabilities static_plan calibration = Ok p"
  shows "compile_plan p \<lparr>cc_machine = machine, cc_model = model, cc_storage = storage, cc_capabilities = capabilities,
      cc_static_plan = static_plan\<rparr> = Ok (compiled_config p)"
  using plan
proof (rule planner_plan_Ok)
  fix available execution threads reason device cache coalescing reuse
  assume inputs: "validate_inputs user machine model storage calibration = Ok ()"
    and feasible: "check_feasibility user machine model storage capabilities static_plan = Ok (available, execution)"
    and threads: "select_threads user machine = Ok (threads, reason)"
    and cache: "select_cache user capabilities execution = Ok cache"
    and io: "coalescing \<longrightarrow> ca_read_coalescing_possible capabilities"
      "reuse \<longrightarrow> ca_grouped_read_buffer_reuse_possible capabilities"
    and gpu: "up_gpu_preference user \<noteq> GpuRequire"
    and p: "ep_schema_version p = EXECUTION_PLAN_SCHEMA_VERSION" "ep_ruleset_version p = PLANNER_RULESET_VERSION"
      "ep_binding p = \<lparr>pb_model_descriptor_fingerprint = mid_descriptor_fingerprint (mo_identity model),
        pb_machine_fingerprint = machine_fingerprint machine, pb_storage_fingerprint = storage_fingerprint storage,
        pb_model_path = st_model_path storage\<rparr>"
      "ep_strategy p = CpuLayerStreaming" "ep_ram_budget_bytes p = up_ram_budget_bytes user"
      "ep_cpu_thread_count p = threads" "ep_layer_cache p = cache"
      "ep_io p = \<lparr>io_read_coalescing_enabled = coalescing, io_grouped_read_buffer_reuse_enabled = reuse\<rparr>"
      "ep_gpu p = \<lparr>gp_preference = up_gpu_preference user, gp_enabled = False, gp_selected_device_id = None\<rparr>"
      "ep_reservations p =
       \<lparr>rr_available_ram_bytes_at_planning = available,
        rr_persistent_resident_bytes = em_persistent_resident_bytes execution,
        rr_persistent_startup_peak_bytes = em_persistent_startup_peak_bytes execution,
        rr_largest_layer_load_peak_bytes = em_largest_layer_load_peak_bytes execution,
        rr_managed_lower_bound_bytes = em_managed_lower_bound_bytes execution,
        rr_remaining_budget_after_lower_bound_bytes =
          up_ram_budget_bytes user - em_managed_lower_bound_bytes execution\<rparr>"
  have valid: "user_validate user = Ok ()" "machine_validate machine = Ok ()" "model_validate model = Ok ()"
      "storage_validate storage = Ok ()"
    using inputs by (auto simp: validate_inputs_def rbind_eq_Ok)
  note feas = feasible [unfolded check_feasibility_Ok]
  have usable: "storage_is_usable storage" using feas by (auto simp: capability_derive_def Let_def)
  have size: "st_file_size_bytes storage = Some (mo_file_size_bytes model)"
    using storage_usable_facts [OF valid(4) usable] feas by auto
  have ram: "0 < up_ram_budget_bytes user" using valid(1) by (auto simp: user_validate_def Let_def split: if_splits)
  have memory: "sp_execution_memory static_plan = Some execution" using feas by simp
  note em = plan_model_memory(2,3) [OF static memory] plan_model_memory(1) [OF static]
  have within: "\<forall>t. mp_total_ram_bytes machine = Some t \<longrightarrow> available \<le> t"
    using machine_ram [OF valid(2)] feas by blast
  note bounds = select_threads_bounds [OF threads valid(1,2)] and cached = select_cache_bounds [OF cache]
  show ?thesis
    unfolding compile_plan_Ok
  proof (intro conjI exI [where x = execution])
    show "validate_plan_header p = Ok ()" by (simp add: validate_plan_header_def p)
    show "validate_concrete_decisions p = Ok ()"
      using bounds cached ram gpu by (auto simp: validate_concrete_decisions_def p Let_def)
  qed (use bounds cached feas em size memory valid io within in
      \<open>auto simp: validate_context_def validate_bindings_def validate_static_plan_def validate_resource_limits_def
        validate_reservations_def validate_cache_def validate_io_def p Let_def checked_exact\<close>)
qed


lemma example_planned:
  obtains sp p where "plan_model (\<lambda>_. []) example_model 1000 = Ok sp"
    "planner_plan (user_new 1000 MaximumPerformance) example_machine example_profile example_storage
       (capability_derive example_machine example_profile example_storage sp) sp None = Ok p"
proof -
  obtain em where em: "plan_execution_memory (\<lambda>_. []) example_model 1000 = Ok em" "em_managed_lower_bound_bytes em = 140"
    by (rule example_plan)
  have fits: "em_layer_streaming_lower_bound_fits em"
    using em by (auto simp: plan_execution_memory_def rbind_eq_Ok Let_def)
  have ram: "(1000::nat) \<le> U64_MAX" by (simp add: U64_MAX_def)
  have shape: "file_size example_model = 1000" "length (tensors example_model) = 11" by (simp_all add: example_model_def)
  have available: "available_bytes \<lparr>total = 1000, allocations = [], used = 0, peak_used = 0\<rparr> = Some 1000"
    by (simp add: available_bytes_def checked_exact)
  obtain sp where sp: "plan_model (\<lambda>_. []) example_model 1000 = Ok sp" "sp_execution_memory sp = Some em"
      "sp_ram_requested sp = 1000" "sp_file_size sp = 1000" "sp_tensor_count sp = 11" "sp_architecture sp = Some ''llama''"
    by (simp add: plan_model_def em budget_new_def plan_cache_capacity_eq [OF ram] available shape Let_def
        example_architecture)
  let ?caps = "capability_derive example_machine example_profile example_storage sp"
  have "check_feasibility (user_new 1000 MaximumPerformance) example_machine example_profile example_storage ?caps sp = Ok (2000, em)"
    by (simp add: check_feasibility_Ok sp fits em)
      (simp add: user_new_def example_machine_def example_profile_def example_storage_def sp
        capability_derive_def storage_is_usable_def Let_def)
  from planner_preset_Ok [OF example_inputs this]
  have "is_ok (planner_plan (user_new 1000 MaximumPerformance) example_machine example_profile example_storage ?caps sp None)"
    by (simp add: user_new_def)
  then obtain p where "planner_plan (user_new 1000 MaximumPerformance) example_machine example_profile example_storage ?caps sp None = Ok p"
    by (cases "planner_plan (user_new 1000 MaximumPerformance) example_machine example_profile example_storage ?caps sp None") auto
  with sp(1) show thesis by (rule that)
qed

theorem planned_compiles_witness:
  "\<exists>sp p. plan_model (\<lambda>_. []) example_model 1000 = Ok sp
     \<and> compile_plan p \<lparr>cc_machine = example_machine, cc_model = example_profile, cc_storage = example_storage,
         cc_capabilities = capability_derive example_machine example_profile example_storage sp,
         cc_static_plan = sp\<rparr> = Ok (compiled_config p)"
proof -
  obtain sp p where sp: "plan_model (\<lambda>_. []) example_model 1000 = Ok sp"
    and p: "planner_plan (user_new 1000 MaximumPerformance) example_machine example_profile example_storage
       (capability_derive example_machine example_profile example_storage sp) sp None = Ok p"
    by (rule example_planned)
  show ?thesis using planned_compiles [OF sp p] sp by blast
qed

definition example_execution_plan :: execution_plan where
  "example_execution_plan =
     \<lparr>ep_schema_version = 1, ep_ruleset_version = 2,
      ep_binding = \<lparr>pb_model_descriptor_fingerprint = 7, pb_machine_fingerprint = machine_fingerprint example_machine,
        pb_storage_fingerprint = storage_fingerprint example_storage, pb_model_path = ''m.gguf''\<rparr>,
      ep_mode = MaximumPerformance, ep_strategy = CpuLayerStreaming, ep_ram_budget_bytes = 1000, ep_cpu_thread_count = 4,
      ep_layer_cache = \<lparr>lc_enabled = True, lc_capacity_bytes = 860\<rparr>,
      ep_io = \<lparr>io_read_coalescing_enabled = True, io_grouped_read_buffer_reuse_enabled = True\<rparr>,
      ep_gpu = \<lparr>gp_preference = GpuDisabled, gp_enabled = False, gp_selected_device_id = None\<rparr>,
      ep_reservations = \<lparr>rr_available_ram_bytes_at_planning = 2000, rr_persistent_resident_bytes = 50,
        rr_persistent_startup_peak_bytes = 50, rr_largest_layer_load_peak_bytes = 90,
        rr_managed_lower_bound_bytes = 140, rr_remaining_budget_after_lower_bound_bytes = 860\<rparr>,
      ep_cost = \<lparr>ce_physical_read_bytes_per_forward = 90, ce_calibrated_read_time_ns_per_forward = None,
        ce_observed_strategy_latency_ns = None\<rparr>,
      ep_calibration = no_provenance, ep_reasons = []\<rparr>"

definition example_context :: plan_compilation_context where
  "example_context =
     \<lparr>cc_machine = example_machine, cc_model = example_profile, cc_storage = example_storage,
      cc_capabilities = capability_derive example_machine example_profile example_storage example_static_plan,
      cc_static_plan = example_static_plan\<rparr>"

lemma example_compiles: "compile_plan example_execution_plan example_context = Ok (compiled_config example_execution_plan)"
proof -
  have inputs: "machine_validate example_machine = Ok ()" "model_validate example_profile = Ok ()"
      "storage_validate example_storage = Ok ()"
    using example_inputs by (auto simp: validate_inputs_def rbind_eq_Ok)
  have caps: "ca_storage_usable (cc_capabilities example_context)" "ca_cpu_backend_usable (cc_capabilities example_context)"
      "ca_model_execution_compatible (cc_capabilities example_context)" "ca_layer_cache_possible (cc_capabilities example_context)"
      "ca_read_coalescing_possible (cc_capabilities example_context)"
      "ca_grouped_read_buffer_reuse_possible (cc_capabilities example_context)"
    by (simp_all add: example_context_def capability_derive_def storage_is_usable_def example_machine_def example_profile_def
        example_storage_def example_static_plan_def example_memory_def Let_def)
  show ?thesis
    unfolding compile_plan_Ok
  proof (intro conjI exI [where x = example_memory])
    show "validate_context example_context = Ok ()" by (simp add: validate_context_def example_context_def inputs)
    show "validate_bindings example_execution_plan example_context = Ok ()"
      by (simp add: validate_bindings_def example_context_def example_execution_plan_def)
        (simp add: example_profile_def example_storage_def)
  qed (simp_all add: validate_plan_header_def EXECUTION_PLAN_SCHEMA_VERSION_def PLANNER_RULESET_VERSION_def
      validate_concrete_decisions_def validate_static_plan_def validate_resource_limits_def validate_reservations_def
      validate_cache_def validate_io_def caps Let_def checked_exact,
      simp_all add: example_context_def example_execution_plan_def example_machine_def example_profile_def
      example_storage_def example_static_plan_def example_memory_def checked_exact)
qed

theorem compile_sound_witness:
  "\<exists>config. compile_plan example_execution_plan example_context = Ok config
     \<and> rc_cpu_thread_count config \<le> mp_logical_cpu_cores example_machine \<and> config_validate config = Ok ()"
  using compile_sound [OF example_compiles] example_compiles by (auto simp: example_context_def)

end
