(* ===== verification/Plan_Persistence.thy ===== *)
theory Plan_Persistence
  imports Plan_Compiler Gguf_Parse
begin

section \<open>Persisted execution plans\<close>

text \<open>
  \<open>crates/ramforge-runtime/src/plan_persistence.rs\<close>: the binary form of an execution plan, its
  structural validation, the compatibility report, and the compilation of a loaded plan. A reader is
  its position and the bytes from there on. \<open>plan_typed\<close> says which records of the model are values of
  the Rust types (64-bit and 32-bit integers, UTF-8 strings). The file system is the content of a file.
\<close>

subsection \<open>Errors and records\<close>

definition PERSISTED_EXECUTION_PLAN_SCHEMA_VERSION :: nat where "PERSISTED_EXECUTION_PLAN_SCHEMA_VERSION = 1"

definition PERSISTED_PLAN_MAGIC :: "byte list" where
  "PERSISTED_PLAN_MAGIC = map (\<lambda>c. of_nat (of_char c)) ''RAMFPLN'' @ [0]"

definition MAX_PERSISTED_PLAN_BYTES :: usize where "MAX_PERSISTED_PLAN_BYTES = 1024 * 1024"

definition MAX_STRING_BYTES :: usize where "MAX_STRING_BYTES = 64 * 1024"

definition MAX_LIST_ITEMS :: usize where "MAX_LIST_ITEMS = 1024"

datatype plan_persistence_error =
    PersistIo string
  | TooLarge usize usize
  | InvalidMagic
  | UnsupportedPersistenceSchema nat nat
  | PlanTruncated string
  | TrailingBytes usize
  | InvalidBoolean string byte
  | InvalidEnum string byte
  | InvalidUtf8 string
  | LimitExceeded string usize usize
  | PersistNumericOverflow string
  | InvalidPlan string

record persisted_execution_plan =
  pe_persistence_schema_version :: nat
  pe_execution_schema_version :: nat
  pe_planner_ruleset_version :: nat
  pe_model_descriptor_fingerprint :: fingerprint
  pe_source_machine_fingerprint :: fingerprint
  pe_source_storage_fingerprint :: fingerprint
  pe_mode :: operating_mode
  pe_strategy :: strategy_id
  pe_ram_budget_bytes :: u64
  pe_cpu_thread_count :: usize
  pe_layer_cache :: layer_cache_decision
  pe_io :: io_decision
  pe_gpu :: gpu_decision
  pe_reservations :: resource_reservations
  pe_cost :: cost_estimate
  pe_calibration :: calibration_provenance
  pe_reasons :: "plan_reason list"

subsection \<open>Encoding\<close>

fun encode_mode :: "operating_mode \<Rightarrow> byte" where
  "encode_mode BackgroundConstrained = 0"
| "encode_mode BalancedNormal = 1"
| "encode_mode MaximumPerformance = 2"
| "encode_mode Advanced = 3"

fun encode_strategy :: "strategy_id \<Rightarrow> byte" where
  "encode_strategy CpuLayerStreaming = 0"
| "encode_strategy GpuLayerOffload = 1"

fun encode_gpu_preference :: "gpu_preference \<Rightarrow> byte" where
  "encode_gpu_preference GpuDisabled = 0"
| "encode_gpu_preference GpuPrefer = 1"
| "encode_gpu_preference GpuRequire = 2"

fun encode_reason :: "plan_reason_code \<Rightarrow> byte" where
  "encode_reason UserRamBudgetPreserved = 0"
| "encode_reason ThreadCountSelectedByPreset = 1"
| "encode_reason ThreadCountSelectedByAdvancedOverride = 2"
| "encode_reason CpuStrategySelected = 3"
| "encode_reason GpuStrategySelected = 4"
| "encode_reason GpuDisabledByUser = 5"
| "encode_reason GpuUnavailable = 6"
| "encode_reason LayerCacheEnabledWithinStaticCapacity = 7"
| "encode_reason LayerCacheDisabledByPreset = 8"
| "encode_reason LayerCacheDisabledBecauseNoCompleteLayerFits = 9"
| "encode_reason ReadCoalescingEnabled = 10"
| "encode_reason ReadCoalescingDisabled = 11"
| "encode_reason GroupedReadBufferReuseEnabled = 12"
| "encode_reason GroupedReadBufferReuseDisabled = 13"
| "encode_reason CalibrationObservationsApplied = 14"
| "encode_reason CalibrationNotRequested = 15"
| "encode_reason CalibrationNotApplicable = 16"

definition put_u32 :: "nat \<Rightarrow> byte list" where "put_u32 v = le_bytes 4 v"

definition put_u64 :: "u64 \<Rightarrow> byte list" where "put_u64 v = le_bytes 8 v"

definition put_bool :: "bool \<Rightarrow> byte list" where "put_bool b = [of_bool b]"

definition put_optional_u32 :: "nat option \<Rightarrow> byte list" where
  "put_optional_u32 x = put_bool (x \<noteq> None) @ (case x of Some v \<Rightarrow> put_u32 v | None \<Rightarrow> [])"

definition put_optional_u64 :: "u64 option \<Rightarrow> byte list" where
  "put_optional_u64 x = put_bool (x \<noteq> None) @ (case x of Some v \<Rightarrow> put_u64 v | None \<Rightarrow> [])"

text \<open>What a call appends to the buffer, or its error; \<open>rappend\<close> is two calls in a row.\<close>

definition rappend ::
  "(byte list, 'e) result \<Rightarrow> (byte list, 'e) result \<Rightarrow> (byte list, 'e) result"
where
  "rappend a b = rbind a (\<lambda>xs. rbind b (\<lambda>ys. Ok (xs @ ys)))"

definition put_string :: "string \<Rightarrow> string \<Rightarrow> (byte list, plan_persistence_error) result" where
  "put_string s field =
     (if MAX_STRING_BYTES < length s then Err (LimitExceeded field (length s) MAX_STRING_BYTES)
      else if 2 ^ 32 \<le> length s then Err (PersistNumericOverflow field)
      else Ok (put_u32 (length s) @ bytes_of_string s))"

definition put_optional_string :: "string option \<Rightarrow> string \<Rightarrow> (byte list, plan_persistence_error) result" where
  "put_optional_string x field =
     rappend (Ok (put_bool (x \<noteq> None))) (case x of Some s \<Rightarrow> put_string s field | None \<Rightarrow> Ok [])"

definition put_list_count :: "usize \<Rightarrow> string \<Rightarrow> (byte list, plan_persistence_error) result" where
  "put_list_count n field =
     (if MAX_LIST_ITEMS < n then Err (LimitExceeded field n MAX_LIST_ITEMS)
      else if 2 ^ 32 \<le> n then Err (PersistNumericOverflow field)
      else Ok (put_u32 n))"

fun put_strings :: "string list \<Rightarrow> string \<Rightarrow> (byte list, plan_persistence_error) result" where
  "put_strings [] field = Ok []"
| "put_strings (s # ss) field = rappend (put_string s field) (put_strings ss field)"

definition put_string_list :: "string list \<Rightarrow> string \<Rightarrow> (byte list, plan_persistence_error) result" where
  "put_string_list ss field = rappend (put_list_count (length ss) field) (put_strings ss field)"

definition put_reason :: "plan_reason \<Rightarrow> byte list" where
  "put_reason r = encode_reason (re_code r) # put_optional_u64 (re_value r)"

definition encode_header :: "persisted_execution_plan \<Rightarrow> byte list" where
  "encode_header p =
     put_u32 (pe_persistence_schema_version p) @ put_u32 (pe_execution_schema_version p)
     @ put_u32 (pe_planner_ruleset_version p) @ put_u64 (unat (pe_model_descriptor_fingerprint p))
     @ put_u64 (unat (pe_source_machine_fingerprint p)) @ put_u64 (unat (pe_source_storage_fingerprint p))
     @ [encode_mode (pe_mode p)] @ [encode_strategy (pe_strategy p)]
     @ put_u64 (pe_ram_budget_bytes p) @ put_u64 (pe_cpu_thread_count p)"

definition encode_cache :: "layer_cache_decision \<Rightarrow> byte list" where
  "encode_cache c = put_bool (lc_enabled c) @ put_u64 (lc_capacity_bytes c)"

definition encode_io :: "io_decision \<Rightarrow> byte list" where
  "encode_io i = put_bool (io_read_coalescing_enabled i) @ put_bool (io_grouped_read_buffer_reuse_enabled i)"

definition encode_gpu :: "gpu_decision \<Rightarrow> (byte list, plan_persistence_error) result" where
  "encode_gpu g =
     rappend (Ok ([encode_gpu_preference (gp_preference g)] @ put_bool (gp_enabled g)))
       (put_optional_string (gp_selected_device_id g) ''GPU device identifier'')"

definition encode_reservations :: "resource_reservations \<Rightarrow> byte list" where
  "encode_reservations r =
     put_u64 (rr_available_ram_bytes_at_planning r) @ put_u64 (rr_persistent_resident_bytes r)
     @ put_u64 (rr_persistent_startup_peak_bytes r) @ put_u64 (rr_largest_layer_load_peak_bytes r)
     @ put_u64 (rr_managed_lower_bound_bytes r) @ put_u64 (rr_remaining_budget_after_lower_bound_bytes r)"

definition encode_cost :: "cost_estimate \<Rightarrow> byte list" where
  "encode_cost c =
     put_u64 (ce_physical_read_bytes_per_forward c) @ put_optional_u64 (ce_calibrated_read_time_ns_per_forward c)
     @ put_optional_u64 (ce_observed_strategy_latency_ns c)"

definition encode_calibration :: "calibration_provenance \<Rightarrow> (byte list, plan_persistence_error) result" where
  "encode_calibration c =
     rappend (put_optional_string (cp_calibration_identifier c) ''calibration identifier'')
       (rappend (put_optional_string (cp_calibration_plan_identifier c) ''calibration plan identifier'')
         (rappend (Ok (put_optional_u32 (cp_calibration_plan_version c) @ put_optional_u32 (cp_calibration_ruleset_version c)))
           (put_string_list (cp_observation_identifiers c) ''calibration observation identifiers'')))"

definition encode_reasons :: "plan_reason list \<Rightarrow> (byte list, plan_persistence_error) result" where
  "encode_reasons rs =
     rappend (put_list_count (length rs) ''plan reasons'') (Ok (concat (map put_reason rs)))"

definition encode_unchecked :: "persisted_execution_plan \<Rightarrow> (byte list, plan_persistence_error) result" where
  "encode_unchecked p =
     rbind (rappend (Ok (PERSISTED_PLAN_MAGIC @ encode_header p @ encode_cache (pe_layer_cache p) @ encode_io (pe_io p)))
         (rappend (encode_gpu (pe_gpu p))
           (rappend (Ok (encode_reservations (pe_reservations p) @ encode_cost (pe_cost p)))
             (rappend (encode_calibration (pe_calibration p)) (encode_reasons (pe_reasons p)))))) (\<lambda>bytes.
       if MAX_PERSISTED_PLAN_BYTES < length bytes then Err (TooLarge (length bytes) MAX_PERSISTED_PLAN_BYTES)
       else Ok bytes)"

subsection \<open>Structural validation\<close>

definition materialize ::
  "persisted_execution_plan \<Rightarrow> fingerprint \<Rightarrow> fingerprint \<Rightarrow> string \<Rightarrow> u64 option \<Rightarrow> execution_plan"
where
  "materialize p machine storage model_path available =
     \<lparr>ep_schema_version = pe_execution_schema_version p, ep_ruleset_version = pe_planner_ruleset_version p,
      ep_binding = \<lparr>pb_model_descriptor_fingerprint = pe_model_descriptor_fingerprint p,
        pb_machine_fingerprint = machine, pb_storage_fingerprint = storage, pb_model_path = model_path\<rparr>,
      ep_mode = pe_mode p, ep_strategy = pe_strategy p, ep_ram_budget_bytes = pe_ram_budget_bytes p,
      ep_cpu_thread_count = pe_cpu_thread_count p, ep_layer_cache = pe_layer_cache p, ep_io = pe_io p,
      ep_gpu = pe_gpu p,
      ep_reservations = (case available of
          Some a \<Rightarrow> (pe_reservations p)\<lparr>rr_available_ram_bytes_at_planning := a\<rparr>
        | None \<Rightarrow> pe_reservations p),
      ep_cost = pe_cost p, ep_calibration = pe_calibration p, ep_reasons = pe_reasons p\<rparr>"

definition materialize_for_context :: "persisted_execution_plan \<Rightarrow> plan_compilation_context \<Rightarrow> execution_plan" where
  "materialize_for_context p c =
     materialize p (machine_fingerprint (cc_machine c)) (storage_fingerprint (cc_storage c))
       (st_model_path (cc_storage c)) (mp_available_ram_bytes (cc_machine c))"

definition bad_identifier :: "string option \<Rightarrow> bool" where
  "bad_identifier x = (case x of Some s \<Rightarrow> s = [] \<or> MAX_STRING_BYTES < length s | None \<Rightarrow> False)"

fun check_identifiers :: "string list \<Rightarrow> string list \<Rightarrow> (unit, plan_persistence_error) result" where
  "check_identifiers seen [] = Ok ()"
| "check_identifiers seen (s # ss) =
     (if s = [] \<or> MAX_STRING_BYTES < length s then Err (InvalidPlan ''invalid calibration observation identifier'')
      else if s \<in> set seen then Err (InvalidPlan ''duplicate calibration observation identifier'')
      else check_identifiers (seen @ [s]) ss)"

definition validate_calibration_provenance :: "persisted_execution_plan \<Rightarrow> (unit, plan_persistence_error) result" where
  "validate_calibration_provenance p =
     (let c = pe_calibration p;
          header_fields = [cp_calibration_identifier c \<noteq> None, cp_calibration_plan_identifier c \<noteq> None,
            cp_calibration_plan_version c \<noteq> None, cp_calibration_ruleset_version c \<noteq> None];
          header_present = list_ex id header_fields in
      if header_present \<and> \<not> list_all id header_fields then Err (InvalidPlan ''partial calibration provenance'')
      else if bad_identifier (cp_calibration_identifier c) \<or> bad_identifier (cp_calibration_plan_identifier c)
          \<or> cp_calibration_plan_version c = Some 0 \<or> cp_calibration_ruleset_version c = Some 0
      then Err (InvalidPlan ''invalid calibration provenance'')
      else if \<not> header_present \<and> cp_observation_identifiers c \<noteq> []
      then Err (InvalidPlan ''calibration observations without provenance'')
      else if MAX_LIST_ITEMS < length (cp_observation_identifiers c)
      then Err (LimitExceeded ''calibration observation count'' (length (cp_observation_identifiers c)) MAX_LIST_ITEMS)
      else check_identifiers [] (cp_observation_identifiers c))"

definition is_calibration_reason :: "plan_reason_code \<Rightarrow> bool" where
  "is_calibration_reason c \<longleftrightarrow>
     c \<in> set [CalibrationObservationsApplied, CalibrationNotRequested, CalibrationNotApplicable]"

fun scan_reasons ::
  "plan_reason_code list \<Rightarrow> plan_reason_code option \<Rightarrow> plan_reason list \<Rightarrow> (plan_reason_code option, plan_persistence_error) result"
where
  "scan_reasons codes found [] = Ok found"
| "scan_reasons codes found (r # rs) =
     (if re_code r \<in> set codes then Err (InvalidPlan ''duplicate plan reason code'')
      else if is_calibration_reason (re_code r) then
        (if found \<noteq> None then Err (InvalidPlan ''multiple calibration reason codes'')
         else scan_reasons (codes @ [re_code r]) (Some (re_code r)) rs)
      else scan_reasons (codes @ [re_code r]) found rs)"

definition validate_reasons :: "persisted_execution_plan \<Rightarrow> (unit, plan_persistence_error) result" where
  "validate_reasons p =
     (if pe_reasons p = [] \<or> MAX_LIST_ITEMS < length (pe_reasons p)
      then Err (InvalidPlan ''missing or excessive plan reasons'')
      else rbind (scan_reasons [] None (pe_reasons p)) (\<lambda>found.
        rbind (ok_or (InvalidPlan ''missing calibration reason code'') found) (\<lambda>reason.
          let header_present = (cp_calibration_identifier (pe_calibration p) \<noteq> None);
              observations_present = (cp_observation_identifiers (pe_calibration p) \<noteq> []);
              valid = (case reason of
                  CalibrationNotRequested \<Rightarrow> \<not> header_present \<and> \<not> observations_present
                | CalibrationNotApplicable \<Rightarrow> \<not> observations_present
                | CalibrationObservationsApplied \<Rightarrow> header_present \<and> observations_present
                | _ \<Rightarrow> False) in
          if valid then Ok () else Err (InvalidPlan ''calibration reason/provenance mismatch''))))"

definition validate_structure :: "persisted_execution_plan \<Rightarrow> (unit, plan_persistence_error) result" where
  "validate_structure p =
     (let r = pe_reservations p in
      if pe_persistence_schema_version p \<noteq> PERSISTED_EXECUTION_PLAN_SCHEMA_VERSION
      then Err (UnsupportedPersistenceSchema (pe_persistence_schema_version p) PERSISTED_EXECUTION_PLAN_SCHEMA_VERSION)
      else if pe_execution_schema_version p = 0 then Err (InvalidPlan ''missing execution schema version'')
      else if pe_planner_ruleset_version p = 0 then Err (InvalidPlan ''missing planner ruleset version'')
      else if pe_model_descriptor_fingerprint p = 0 \<or> pe_source_machine_fingerprint p = 0 \<or> pe_source_storage_fingerprint p = 0
      then Err (InvalidPlan ''missing or invalid fingerprint'')
      else if rr_available_ram_bytes_at_planning r < pe_ram_budget_bytes p
      then Err (InvalidPlan ''available RAM at planning'')
      else rbind (ok_or (InvalidPlan ''managed-memory lower bound exceeds RAM budget'')
          (checked_sub (pe_ram_budget_bytes p) (rr_managed_lower_bound_bytes r))) (\<lambda>remaining.
        if rr_remaining_budget_after_lower_bound_bytes r \<noteq> remaining
        then Err (InvalidPlan ''remaining budget after lower bound'')
        else if remaining < lc_capacity_bytes (pe_layer_cache p)
        then Err (InvalidPlan ''layer-cache capacity exceeds remaining budget'')
        else if gp_selected_device_id (pe_gpu p) = Some [] then Err (InvalidPlan ''empty GPU device identifier'')
        else rbind (validate_calibration_provenance p) (\<lambda>_. rbind (validate_reasons p) (\<lambda>_.
          (case validate_concrete_decisions (materialize p (pe_source_machine_fingerprint p)
                (pe_source_storage_fingerprint p) [] None) of
             Ok _ \<Rightarrow> Ok ()
           | Err e \<Rightarrow> (if e = UnsupportedGpuExecution then Ok ()
               else Err (InvalidPlan ''inconsistent concrete execution decisions''))
           | Panic msg \<Rightarrow> Panic msg)))))"

definition from_execution_plan :: "execution_plan \<Rightarrow> (persisted_execution_plan, plan_persistence_error) result" where
  "from_execution_plan p =
     (let persisted =
        \<lparr>pe_persistence_schema_version = PERSISTED_EXECUTION_PLAN_SCHEMA_VERSION,
         pe_execution_schema_version = ep_schema_version p, pe_planner_ruleset_version = ep_ruleset_version p,
         pe_model_descriptor_fingerprint = pb_model_descriptor_fingerprint (ep_binding p),
         pe_source_machine_fingerprint = pb_machine_fingerprint (ep_binding p),
         pe_source_storage_fingerprint = pb_storage_fingerprint (ep_binding p),
         pe_mode = ep_mode p, pe_strategy = ep_strategy p, pe_ram_budget_bytes = ep_ram_budget_bytes p,
         pe_cpu_thread_count = ep_cpu_thread_count p, pe_layer_cache = ep_layer_cache p, pe_io = ep_io p,
         pe_gpu = ep_gpu p, pe_reservations = ep_reservations p, pe_cost = ep_cost p,
         pe_calibration = ep_calibration p, pe_reasons = ep_reasons p\<rparr> in
      rbind (validate_structure persisted) (\<lambda>_. Ok persisted))"

definition to_bytes :: "persisted_execution_plan \<Rightarrow> (byte list, plan_persistence_error) result" where
  "to_bytes p = rbind (validate_structure p) (\<lambda>_. encode_unchecked p)"

subsection \<open>Decoding\<close>

datatype plan_reader = PlanReader (pr_position: usize) (pr_unread: "byte list")

type_synonym 'a plan_decoder = "plan_reader \<Rightarrow> ('a \<times> plan_reader, plan_persistence_error) result"

definition dbind :: "'a plan_decoder \<Rightarrow> ('a \<Rightarrow> 'b plan_decoder) \<Rightarrow> 'b plan_decoder" where
  "dbind d f r = rbind (d r) (\<lambda>(a, r'). f a r')"

definition dreturn :: "'a \<Rightarrow> 'a plan_decoder" where "dreturn a r = Ok (a, r)"

definition dlift :: "('a, plan_persistence_error) result \<Rightarrow> 'a plan_decoder" where
  "dlift x r = rbind x (\<lambda>a. Ok (a, r))"

definition take_bytes :: "usize \<Rightarrow> string \<Rightarrow> byte list plan_decoder" where
  "take_bytes n field r =
     rbind (ok_or (PersistNumericOverflow ''persisted plan cursor'') (checked_add (pr_position r) n)) (\<lambda>stop.
       if n \<le> length (pr_unread r) then Ok (take n (pr_unread r), PlanReader stop (drop n (pr_unread r)))
       else Err (PlanTruncated field))"

definition get_u8 :: "string \<Rightarrow> byte plan_decoder" where
  "get_u8 field = dbind (take_bytes 1 field) (\<lambda>bs. dreturn (hd bs))"

definition get_u32 :: "string \<Rightarrow> nat plan_decoder" where
  "get_u32 field = dbind (take_bytes 4 field) (\<lambda>bs. dreturn (le_nat bs))"

definition get_u64_le :: "string \<Rightarrow> u64 plan_decoder" where
  "get_u64_le field = dbind (take_bytes 8 field) (\<lambda>bs. dreturn (le_nat bs))"

definition get_boolean :: "string \<Rightarrow> bool plan_decoder" where
  "get_boolean field = dbind (get_u8 field) (\<lambda>v.
     if v = 0 then dreturn False else if v = 1 then dreturn True else dlift (Err (InvalidBoolean field v)))"

definition get_optional :: "string \<Rightarrow> (string \<Rightarrow> 'a plan_decoder) \<Rightarrow> 'a option plan_decoder" where
  "get_optional field d = dbind (get_boolean field) (\<lambda>present.
     if present then dbind (d field) (\<lambda>v. dreturn (Some v)) else dreturn None)"

definition get_text :: "string \<Rightarrow> string plan_decoder" where
  "get_text field = dbind (get_u32 field) (\<lambda>len.
     if MAX_STRING_BYTES < len then dlift (Err (LimitExceeded field len MAX_STRING_BYTES))
     else dbind (take_bytes len field) (\<lambda>bs.
       if utf8_ok (map unat bs) then dreturn (string_of_bytes bs) else dlift (Err (InvalidUtf8 field))))"

definition get_list_count :: "string \<Rightarrow> usize plan_decoder" where
  "get_list_count field = dbind (get_u32 field) (\<lambda>n.
     if MAX_LIST_ITEMS < n then dlift (Err (LimitExceeded field n MAX_LIST_ITEMS)) else dreturn n)"

fun get_times :: "nat \<Rightarrow> 'a plan_decoder \<Rightarrow> 'a list plan_decoder" where
  "get_times 0 d = dreturn []"
| "get_times (Suc n) d = dbind d (\<lambda>x. dbind (get_times n d) (\<lambda>xs. dreturn (x # xs)))"

definition get_string_list :: "string \<Rightarrow> string list plan_decoder" where
  "get_string_list field = dbind (get_list_count field) (\<lambda>n. get_times n (get_text field))"

definition decode_mode :: "byte \<Rightarrow> (operating_mode, plan_persistence_error) result" where
  "decode_mode v =
     (if v = 0 then Ok BackgroundConstrained else if v = 1 then Ok BalancedNormal
      else if v = 2 then Ok MaximumPerformance else if v = 3 then Ok Advanced
      else Err (InvalidEnum ''operating mode'' v))"

definition decode_strategy :: "byte \<Rightarrow> (strategy_id, plan_persistence_error) result" where
  "decode_strategy v =
     (if v = 0 then Ok CpuLayerStreaming else if v = 1 then Ok GpuLayerOffload
      else Err (InvalidEnum ''execution strategy'' v))"

definition decode_gpu_preference :: "byte \<Rightarrow> (gpu_preference, plan_persistence_error) result" where
  "decode_gpu_preference v =
     (if v = 0 then Ok GpuDisabled else if v = 1 then Ok GpuPrefer else if v = 2 then Ok GpuRequire
      else Err (InvalidEnum ''GPU preference'' v))"

definition decode_reason :: "byte \<Rightarrow> (plan_reason_code, plan_persistence_error) result" where
  "decode_reason v =
     (case map_of (zip [0, 1, 2, 3, 4, 5, 6, 7, 8, 9, 10, 11, 12, 13, 14, 15, 16]
          [UserRamBudgetPreserved, ThreadCountSelectedByPreset, ThreadCountSelectedByAdvancedOverride,
           CpuStrategySelected, GpuStrategySelected, GpuDisabledByUser, GpuUnavailable,
           LayerCacheEnabledWithinStaticCapacity, LayerCacheDisabledByPreset,
           LayerCacheDisabledBecauseNoCompleteLayerFits, ReadCoalescingEnabled, ReadCoalescingDisabled,
           GroupedReadBufferReuseEnabled, GroupedReadBufferReuseDisabled, CalibrationObservationsApplied,
           CalibrationNotRequested, CalibrationNotApplicable]) v of
        Some code \<Rightarrow> Ok code
      | None \<Rightarrow> Err (InvalidEnum ''plan reason code'' v))"

definition get_cache :: "layer_cache_decision plan_decoder" where
  "get_cache = dbind (get_boolean ''layer cache enabled'') (\<lambda>enabled.
     dbind (get_u64_le ''layer cache capacity'') (\<lambda>capacity.
       dreturn \<lparr>lc_enabled = enabled, lc_capacity_bytes = capacity\<rparr>))"

definition get_io :: "io_decision plan_decoder" where
  "get_io = dbind (get_boolean ''read coalescing enabled'') (\<lambda>coalescing.
     dbind (get_boolean ''grouped read buffer reuse enabled'') (\<lambda>reuse.
       dreturn \<lparr>io_read_coalescing_enabled = coalescing, io_grouped_read_buffer_reuse_enabled = reuse\<rparr>))"

definition get_gpu :: "gpu_decision plan_decoder" where
  "get_gpu = dbind (dbind (get_u8 ''GPU preference'') (\<lambda>v. dlift (decode_gpu_preference v))) (\<lambda>preference.
     dbind (get_boolean ''GPU enabled'') (\<lambda>enabled.
       dbind (get_optional ''GPU device identifier'' get_text) (\<lambda>device.
         dreturn \<lparr>gp_preference = preference, gp_enabled = enabled, gp_selected_device_id = device\<rparr>)))"

definition get_reservations :: "resource_reservations plan_decoder" where
  "get_reservations = dbind (get_u64_le ''available RAM at planning'') (\<lambda>a.
     dbind (get_u64_le ''persistent resident bytes'') (\<lambda>b.
       dbind (get_u64_le ''persistent startup peak bytes'') (\<lambda>c.
         dbind (get_u64_le ''largest layer load peak bytes'') (\<lambda>d.
           dbind (get_u64_le ''managed-memory lower bound'') (\<lambda>e.
             dbind (get_u64_le ''remaining budget after lower bound'') (\<lambda>f.
               dreturn \<lparr>rr_available_ram_bytes_at_planning = a, rr_persistent_resident_bytes = b,
                 rr_persistent_startup_peak_bytes = c, rr_largest_layer_load_peak_bytes = d,
                 rr_managed_lower_bound_bytes = e, rr_remaining_budget_after_lower_bound_bytes = f\<rparr>))))))"

definition get_cost :: "cost_estimate plan_decoder" where
  "get_cost = dbind (get_u64_le ''physical read bytes per forward'') (\<lambda>a.
     dbind (get_optional ''calibrated read time'' get_u64_le) (\<lambda>b.
       dbind (get_optional ''observed strategy latency'' get_u64_le) (\<lambda>c.
         dreturn \<lparr>ce_physical_read_bytes_per_forward = a, ce_calibrated_read_time_ns_per_forward = b,
           ce_observed_strategy_latency_ns = c\<rparr>)))"

definition get_calibration :: "calibration_provenance plan_decoder" where
  "get_calibration = dbind (get_optional ''calibration identifier'' get_text) (\<lambda>a.
     dbind (get_optional ''calibration plan identifier'' get_text) (\<lambda>b.
       dbind (get_optional ''calibration plan version'' get_u32) (\<lambda>c.
         dbind (get_optional ''calibration ruleset version'' get_u32) (\<lambda>d.
           dbind (get_string_list ''calibration observation identifiers'') (\<lambda>e.
             dreturn \<lparr>cp_calibration_identifier = a, cp_calibration_plan_identifier = b,
               cp_calibration_plan_version = c, cp_calibration_ruleset_version = d,
               cp_observation_identifiers = e\<rparr>)))))"

definition get_reason :: "plan_reason plan_decoder" where
  "get_reason = dbind (dbind (get_u8 ''plan reason code'') (\<lambda>v. dlift (decode_reason v))) (\<lambda>code.
     dbind (get_optional ''plan reason value'' get_u64_le) (\<lambda>v.
       dreturn \<lparr>re_code = code, re_value = v\<rparr>))"

definition get_reasons :: "plan_reason list plan_decoder" where
  "get_reasons = dbind (get_list_count ''plan reasons'') (\<lambda>n. get_times n get_reason)"

definition get_plan :: "persisted_execution_plan plan_decoder" where
  "get_plan =
     dbind (take_bytes (length PERSISTED_PLAN_MAGIC) ''magic'') (\<lambda>magic.
     if magic \<noteq> PERSISTED_PLAN_MAGIC then dlift (Err InvalidMagic)
     else dbind (get_u32 ''persistence schema version'') (\<lambda>schema.
     if schema \<noteq> PERSISTED_EXECUTION_PLAN_SCHEMA_VERSION
     then dlift (Err (UnsupportedPersistenceSchema schema PERSISTED_EXECUTION_PLAN_SCHEMA_VERSION))
     else dbind (get_u32 ''execution schema version'') (\<lambda>execution.
     dbind (get_u32 ''planner ruleset version'') (\<lambda>ruleset.
     dbind (get_u64_le ''model fingerprint'') (\<lambda>model.
     dbind (get_u64_le ''source machine fingerprint'') (\<lambda>machine.
     dbind (get_u64_le ''source storage fingerprint'') (\<lambda>storage.
     dbind (dbind (get_u8 ''operating mode'') (\<lambda>v. dlift (decode_mode v))) (\<lambda>mode.
     dbind (dbind (get_u8 ''execution strategy'') (\<lambda>v. dlift (decode_strategy v))) (\<lambda>strategy.
     dbind (get_u64_le ''RAM budget'') (\<lambda>ram.
     dbind (get_u64_le ''CPU thread count'') (\<lambda>threads.
     dbind get_cache (\<lambda>cache. dbind get_io (\<lambda>io. dbind get_gpu (\<lambda>gpu.
     dbind get_reservations (\<lambda>reservations. dbind get_cost (\<lambda>cost.
     dbind get_calibration (\<lambda>calibration. dbind get_reasons (\<lambda>reasons.
     dreturn \<lparr>pe_persistence_schema_version = schema, pe_execution_schema_version = execution,
       pe_planner_ruleset_version = ruleset, pe_model_descriptor_fingerprint = of_nat model,
       pe_source_machine_fingerprint = of_nat machine, pe_source_storage_fingerprint = of_nat storage,
       pe_mode = mode, pe_strategy = strategy, pe_ram_budget_bytes = ram, pe_cpu_thread_count = threads,
       pe_layer_cache = cache, pe_io = io, pe_gpu = gpu, pe_reservations = reservations, pe_cost = cost,
       pe_calibration = calibration, pe_reasons = reasons\<rparr>))))))))))))))))))"

definition from_bytes :: "byte list \<Rightarrow> (persisted_execution_plan, plan_persistence_error) result" where
  "from_bytes bytes =
     (if MAX_PERSISTED_PLAN_BYTES < length bytes then Err (TooLarge (length bytes) MAX_PERSISTED_PLAN_BYTES)
      else rbind (get_plan (PlanReader 0 bytes)) (\<lambda>(p, r).
        if pr_unread r \<noteq> [] then Err (TrailingBytes (length (pr_unread r)))
        else rbind (validate_structure p) (\<lambda>_. Ok p)))"

text \<open>\<open>load\<close> reads at most one byte more than the limit of a file whose content is \<open>content\<close>.\<close>

definition load_plan :: "(byte list, string) result \<Rightarrow> (persisted_execution_plan, plan_persistence_error) result" where
  "load_plan content =
     rbind (map_err PersistIo content) (\<lambda>bytes.
       let limited = take (MAX_PERSISTED_PLAN_BYTES + 1) bytes in
       if MAX_PERSISTED_PLAN_BYTES < length limited then Err (TooLarge (length limited) MAX_PERSISTED_PLAN_BYTES)
       else from_bytes limited)"

subsection \<open>The reader: decoders that are exact\<close>

text \<open>
  The contract between an encoding and its decoder: from a reader whose cursor cannot overflow, the
  decoder returns a value exactly when the value is valid and the unread bytes begin with its encoding,
  and it stops right behind it. So the decoder accepts every encoding and nothing else.
\<close>

locale plan_codec =
  fixes enc :: "'a \<Rightarrow> byte list"
    and valid :: "'a \<Rightarrow> bool"
    and dec :: "'a plan_decoder"
  assumes exact: "pos + length bs \<le> U64_MAX \<Longrightarrow> dec (PlanReader pos bs) = Ok (x, r) \<longleftrightarrow>
      valid x \<and> (\<exists>bs'. bs = enc x @ bs' \<and> r = PlanReader (pos + length (enc x)) bs')"
    and total_dec: "\<not> is_panic (dec r0)"
begin

lemma accepts: "valid x \<Longrightarrow> pos + length (enc x @ bs') \<le> U64_MAX \<Longrightarrow>
    dec (PlanReader pos (enc x @ bs')) = Ok (x, PlanReader (pos + length (enc x)) bs')"
  using exact [of pos "enc x @ bs'" x] by auto

lemma prefix_free:
  assumes "valid x" "valid y" "enc x @ bs = enc y @ bs'" "length (enc x @ bs) \<le> U64_MAX"
  shows "x = y \<and> bs = bs'"
proof -
  have "dec (PlanReader 0 (enc x @ bs)) = Ok (x, PlanReader (length (enc x)) bs)"
    using accepts [of x 0 bs] assms(1,4) by simp
  moreover have "dec (PlanReader 0 (enc y @ bs')) = Ok (y, PlanReader (length (enc y)) bs')"
    using accepts [of y 0 bs'] assms(2-4) by simp
  ultimately show ?thesis unfolding assms(3) by simp
qed

end

text \<open>
  Records are decoded field by field. \<open>fields Q enc valid dec\<close>: of the values whose earlier fields are
  the ones read (\<open>Q\<close>), \<open>dec\<close> decodes the rest.
\<close>

definition fields :: "('c \<Rightarrow> bool) \<Rightarrow> ('c \<Rightarrow> byte list) \<Rightarrow> ('c \<Rightarrow> bool) \<Rightarrow> 'c plan_decoder \<Rightarrow> bool" where
  "fields Q enc valid dec \<longleftrightarrow> plan_codec enc (\<lambda>c. Q c \<and> valid c) dec"

lemma dbind_Ok: "dbind d f r = Ok y \<longleftrightarrow> (\<exists>a r'. d r = Ok (a, r') \<and> f a r' = Ok y)"
  by (auto simp: dbind_def rbind_eq_Ok)

lemma dbind_panic: "is_panic (dbind d f r) \<longleftrightarrow> is_panic (d r) \<or> (\<exists>a r'. d r = Ok (a, r') \<and> is_panic (f a r'))"
  by (auto simp: dbind_def is_panic_rbind)

lemma field_bind:
  assumes d: "plan_codec e v d" and k: "\<And>a. fields (\<lambda>c. Q c \<and> proj c = a) e' v' (k a)"
  shows "fields Q (\<lambda>c. e (proj c) @ e' c) (\<lambda>c. v (proj c) \<and> v' c) (dbind d k)"
  unfolding fields_def
proof
  fix pos and bs :: "byte list" and c and r :: plan_reader
  assume fits: "pos + length bs \<le> U64_MAX"
  note exact_d = plan_codec.exact [OF d fits]
  have exact_k: "k a (PlanReader (pos + length (e a)) bs') = Ok (c, r) \<longleftrightarrow>
      ((Q c \<and> proj c = a) \<and> v' c) \<and> (\<exists>bs''. bs' = e' c @ bs'' \<and> r = PlanReader (pos + length (e a) + length (e' c)) bs'')"
    if "bs = e a @ bs'" for a bs'
    by (rule plan_codec.exact [OF k [unfolded fields_def]]) (use that fits in simp)
  show "dbind d k (PlanReader pos bs) = Ok (c, r) \<longleftrightarrow> (Q c \<and> v (proj c) \<and> v' c)
      \<and> (\<exists>bs''. bs = (e (proj c) @ e' c) @ bs'' \<and> r = PlanReader (pos + length (e (proj c) @ e' c)) bs'')"
    (is "?lhs \<longleftrightarrow> ?rhs")
  proof
    assume ?lhs
    then show ?rhs unfolding dbind_Ok exact_d by (auto simp: exact_k add.assoc)
  next
    assume ?rhs
    then obtain bs'' where "Q c" "v (proj c)" "v' c" and bs: "bs = e (proj c) @ e' c @ bs''"
      and r: "r = PlanReader (pos + length (e (proj c)) + length (e' c)) bs''" by (auto simp: add.assoc)
    then have "k (proj c) (PlanReader (pos + length (e (proj c))) (e' c @ bs'')) = Ok (c, r)"
      using exact_k [OF bs] by simp
    then show ?lhs unfolding dbind_Ok exact_d using \<open>v (proj c)\<close> bs by blast
  qed
next
  fix r0
  show "\<not> is_panic (dbind d k r0)"
    using plan_codec.total_dec [OF d] plan_codec.total_dec [OF k [unfolded fields_def]] by (simp add: dbind_panic)
qed

lemma field_return: "(\<And>c. Q c \<longleftrightarrow> c = x) \<Longrightarrow> fields Q (\<lambda>_. []) (\<lambda>_. True) (dreturn x)"
  unfolding fields_def by unfold_locales (auto simp: dreturn_def)

lemma field_fail: "(\<And>c. \<not> Q c) \<Longrightarrow> fields Q e v (dlift (Err x))"
  unfolding fields_def by unfold_locales (auto simp: dlift_def)

lemma codec_of_fields:
  "fields (\<lambda>_. True) e' v' d \<Longrightarrow> (\<And>c. v c \<longleftrightarrow> v' c) \<Longrightarrow> (\<And>c. v c \<Longrightarrow> e c = e' c) \<Longrightarrow> plan_codec e v d"
  unfolding fields_def plan_codec_def by auto

lemma codec_cong:
  "plan_codec e' v' d \<Longrightarrow> (\<And>c. v c \<longleftrightarrow> v' c) \<Longrightarrow> (\<And>c. v c \<Longrightarrow> e c = e' c) \<Longrightarrow> plan_codec e v d"
  unfolding plan_codec_def by auto

lemma codec_times:
  assumes "plan_codec e v d"
  shows "plan_codec (\<lambda>xs. concat (map e xs)) (\<lambda>xs. length xs = n \<and> list_all v xs) (get_times n d)"
proof (induction n)
  case 0
  have "fields (\<lambda>xs. xs = []) (\<lambda>_. []) (\<lambda>_. True) (dreturn [])" by (rule field_return) simp
  then show ?case unfolding fields_def get_times.simps by (rule codec_cong) auto
next
  case (Suc n)
  have "fields (\<lambda>xs. xs \<noteq> []) (\<lambda>xs. e (hd xs) @ concat (map e (tl xs)) @ [])
      (\<lambda>xs. v (hd xs) \<and> (length (tl xs) = n \<and> list_all v (tl xs)) \<and> True) (get_times (Suc n) d)"
    unfolding get_times.simps
    by (rule field_bind [OF assms], rule field_bind [OF Suc], rule field_return) (auto simp: neq_Nil_conv)
  then show ?case unfolding fields_def
  proof (rule codec_cong)
    fix xs :: "'a list"
    show "length xs = Suc n \<and> list_all v xs \<longleftrightarrow> xs \<noteq> [] \<and> v (hd xs) \<and> (length (tl xs) = n \<and> list_all v (tl xs)) \<and> True"
      by (cases xs) auto
    show "concat (map e xs) = e (hd xs) @ concat (map e (tl xs)) @ []" if "length xs = Suc n \<and> list_all v xs"
      using that by (cases xs) auto
  qed
qed

lemma codec_map:
  assumes d: "plan_codec e v d"
    and f: "\<And>a x. v a \<Longrightarrow> f a = Ok x \<longleftrightarrow> w x \<and> a = g x" "\<And>x. w x \<Longrightarrow> v (g x)" "\<And>a. \<not> is_panic (f a)"
  shows "plan_codec (\<lambda>x. e (g x)) w (dbind d (\<lambda>a. dlift (f a)))"
proof
  fix pos and bs :: "byte list" and x r
  assume fits: "pos + length bs \<le> U64_MAX"
  show "dbind d (\<lambda>a. dlift (f a)) (PlanReader pos bs) = Ok (x, r) \<longleftrightarrow>
      w x \<and> (\<exists>bs'. bs = e (g x) @ bs' \<and> r = PlanReader (pos + length (e (g x))) bs')"
    unfolding dbind_Ok plan_codec.exact [OF d fits] dlift_def rbind_eq_Ok using f(1,2) by auto
next
  show "\<not> is_panic (dbind d (\<lambda>a. dlift (f a)) r0)" for r0
    using plan_codec.total_dec [OF d] f(3) by (simp add: dbind_panic dlift_def is_panic_rbind)
qed

lemma dreturn_dlift: "dreturn x = dlift (Ok x)"
  by (simp add: dreturn_def dlift_def fun_eq_iff)

lemma dlift_if: "(if c then dlift a else dlift b) = dlift (if c then a else b)"
  by simp

lemma field_if:
  assumes "fields Q e v d" "\<And>c. Q c \<Longrightarrow> v' c \<longleftrightarrow> P \<and> v c"
  shows "fields Q e v' (if \<not> P then dlift (Err x) else d)"
proof (cases P)
  case True
  then show ?thesis using assms unfolding fields_def by (auto intro: codec_cong)
next
  case False
  then show ?thesis using assms(2) unfolding fields_def by unfold_locales (auto simp: dlift_def)
qed

lemma field_limit:
  fixes n m :: nat
  assumes "fields Q e v d" "\<And>c. Q c \<Longrightarrow> v' c \<longleftrightarrow> n \<le> m \<and> v c"
  shows "fields Q e v' (if m < n then dlift (Err x) else d)"
proof -
  have "fields Q e v' (if \<not> n \<le> m then dlift (Err x) else d)" by (rule field_if) (use assms in auto)
  then show ?thesis by (simp only: not_le)
qed

lemma field_guard:
  assumes d: "plan_codec e v d" and m: "v m" and k: "fields Q e' v' k"
  shows "fields Q (\<lambda>c. e m @ e' c) v' (dbind d (\<lambda>a. if a \<noteq> m then dlift (Err x) else k))"
proof -
  have "fields Q (\<lambda>c. e m @ e' c) (\<lambda>c. v m \<and> v' c) (dbind d (\<lambda>a. if a \<noteq> m then dlift (Err x) else k))"
  proof (rule field_bind [OF d, where proj = "\<lambda>_. m"])
    fix a
    have "fields (\<lambda>c. Q c \<and> m = a) e' v' k" if "a = m"
      using k that by (simp add: fields_def)
    moreover have "fields (\<lambda>c. Q c \<and> m = a) e' v' (dlift (Err x))" if "a \<noteq> m"
      by (rule field_fail) (use that in blast)
    ultimately show "fields (\<lambda>c. Q c \<and> m = a) e' v' (if a \<noteq> m then dlift (Err x) else k)" by simp
  qed
  then show ?thesis using m by simp
qed

subsection \<open>The primitive codecs\<close>

lemma le_bytes_le_nat: "le_bytes (length bs) (le_nat bs) = bs"
proof (induction bs)
  case (Cons b bs)
  have less: "unat b < 256" using unsigned_less [of b] by simp
  have "(unat b + 256 * le_nat bs) mod 256 = unat b" "(unat b + 256 * le_nat bs) div 256 = le_nat bs"
    using less by simp_all
  then show ?case using Cons by (simp only: le_nat.simps le_bytes.simps list.size add_0_right add_Suc_right) simp
qed simp

lemma le_nat_less: "le_nat bs < 256 ^ length bs"
proof (induction bs)
  case (Cons b bs)
  have "unat b < 256" using unsigned_less [of b] by simp
  then show ?case using Cons by (simp add: algebra_simps)
qed simp

lemma le_nat_bytes: "length bs = n \<Longrightarrow> le_nat bs = v \<longleftrightarrow> v < 256 ^ n \<and> bs = le_bytes n v"
  by (metis le_bytes_le_nat le_nat_less le_nat_le_bytes mod_less)

lemma codec_take: "plan_codec (\<lambda>bs. bs) (\<lambda>bs. length bs = n) (take_bytes n field)"
proof
  fix pos and bs x :: "byte list" and r
  assume fits: "pos + length bs \<le> U64_MAX"
  show "take_bytes n field (PlanReader pos bs) = Ok (x, r) \<longleftrightarrow>
      length x = n \<and> (\<exists>bs'. bs = x @ bs' \<and> r = PlanReader (pos + length x) bs')" (is "?lhs \<longleftrightarrow> ?rhs")
  proof
    assume ?lhs
    then have "n \<le> length bs" "x = take n bs" "r = PlanReader (pos + n) (drop n bs)"
      by (auto simp: take_bytes_def rbind_eq_Ok split: if_splits)
    then show ?rhs by (auto intro!: exI [where x = "drop n bs"])
  next
    assume ?rhs
    then show ?lhs using fits by (auto simp: take_bytes_def checked_exact)
  qed
next
  show "\<not> is_panic (take_bytes n field r0)" for r0 by (simp add: take_bytes_def is_panic_rbind)
qed

lemma codec_le:
  "plan_codec (le_bytes n) (\<lambda>v. v < 256 ^ n) (dbind (take_bytes n field) (\<lambda>bs. dreturn (le_nat bs)))"
  unfolding dreturn_dlift by (rule codec_map [OF codec_take]) (auto simp: le_nat_bytes)

lemma codec_u32: "plan_codec put_u32 (\<lambda>v. v < 2 ^ 32) (get_u32 field)"
  using codec_le [of 4 field] by (simp add: get_u32_def put_u32_def [abs_def])

lemma codec_u64: "plan_codec put_u64 (\<lambda>v. v < 2 ^ 64) (get_u64_le field)"
  using codec_le [of 8 field] by (simp add: get_u64_le_def put_u64_def [abs_def])

lemma codec_u8: "plan_codec (\<lambda>v. [v]) (\<lambda>_. True) (get_u8 field)"
  unfolding get_u8_def dreturn_dlift by (rule codec_map [OF codec_take]) (auto simp: length_Suc_conv)

lemma codec_boolean: "plan_codec put_bool (\<lambda>_. True) (get_boolean field)"
  unfolding get_boolean_def dreturn_dlift dlift_if put_bool_def [abs_def]
  by (rule codec_map [OF codec_u8]) auto

lemma codec_list_count: "plan_codec put_u32 (\<lambda>n. n \<le> MAX_LIST_ITEMS) (get_list_count field)"
  unfolding get_list_count_def dreturn_dlift dlift_if
  by (rule codec_map [OF codec_u32, where g = "\<lambda>n. n"]) (auto simp: MAX_LIST_ITEMS_def)

lemma decode_mode_exact: "decode_mode v = Ok x \<longleftrightarrow> v = encode_mode x"
  by (cases x) (auto simp: decode_mode_def)

lemma decode_strategy_exact: "decode_strategy v = Ok x \<longleftrightarrow> v = encode_strategy x"
  by (cases x) (auto simp: decode_strategy_def)

lemma decode_gpu_preference_exact: "decode_gpu_preference v = Ok x \<longleftrightarrow> v = encode_gpu_preference x"
  by (cases x) (auto simp: decode_gpu_preference_def)

lemma decode_reason_exact: "decode_reason v = Ok x \<longleftrightarrow> v = encode_reason x"
  by (cases x) (auto simp: decode_reason_def split: option.splits if_splits)

lemma decode_tags_total:
  "\<not> is_panic (decode_mode v)" "\<not> is_panic (decode_strategy v)" "\<not> is_panic (decode_gpu_preference v)"
  "\<not> is_panic (decode_reason v)"
  by (simp_all add: decode_mode_def decode_strategy_def decode_gpu_preference_def decode_reason_def split: option.split)

lemma codec_tag:
  assumes "\<And>v x. decode v = Ok x \<longleftrightarrow> v = encode x" "\<And>v. \<not> is_panic (decode v)"
  shows "plan_codec (\<lambda>x. [encode x]) (\<lambda>_. True) (dbind (get_u8 field) (\<lambda>v. dlift (decode v)))"
  by (rule codec_map [OF codec_u8]) (use assms in auto)

lemmas codec_mode = codec_tag [OF decode_mode_exact decode_tags_total(1)]
  and codec_strategy = codec_tag [OF decode_strategy_exact decode_tags_total(2)]
  and codec_gpu_preference = codec_tag [OF decode_gpu_preference_exact decode_tags_total(3)]
  and codec_reason_code = codec_tag [OF decode_reason_exact decode_tags_total(4)]

definition opt_bytes :: "('a \<Rightarrow> byte list) \<Rightarrow> 'a option \<Rightarrow> byte list" where
  "opt_bytes e x = put_bool (x \<noteq> None) @ (case x of Some v \<Rightarrow> e v | None \<Rightarrow> [])"

lemma codec_optional:
  assumes "plan_codec e v (d field)"
  shows "plan_codec (opt_bytes e) (pred_option v) (get_optional field d)"
proof -
  have some: "fields (\<lambda>x. True \<and> (x \<noteq> None) = True) (\<lambda>x. e (the x) @ []) (\<lambda>x. v (the x) \<and> True)
      (dbind (d field) (\<lambda>v. dreturn (Some v)))"
    by (rule field_bind [OF assms], rule field_return) auto
  have none: "fields (\<lambda>x. True \<and> (x \<noteq> None) = False) (\<lambda>_. []) (\<lambda>_. True) (dreturn None)"
    by (rule field_return) auto
  have "fields (\<lambda>_. True) (\<lambda>x. put_bool (x \<noteq> None) @ (case x of Some v \<Rightarrow> e v | None \<Rightarrow> []))
      (\<lambda>x. True \<and> pred_option v x) (get_optional field d)"
    unfolding get_optional_def
  proof (rule field_bind [OF codec_boolean])
    fix present
    show "fields (\<lambda>x. True \<and> (x \<noteq> None) = present) (case_option [] e) (pred_option v)
        (if present then dbind (d field) (\<lambda>v. dreturn (Some v)) else dreturn None)"
      using some none unfolding fields_def by (cases present) (auto elim!: codec_cong)
  qed
  then show ?thesis by (rule codec_of_fields) (simp_all add: opt_bytes_def)
qed

definition text_bytes :: "string \<Rightarrow> byte list" where
  "text_bytes s = put_u32 (length s) @ bytes_of_string s"

definition valid_text :: "string \<Rightarrow> bool" where
  "valid_text s \<longleftrightarrow> length s \<le> MAX_STRING_BYTES \<and> utf8_ok (map of_char s)"

lemma bytes_of_string_of_bytes: "bytes_of_string (string_of_bytes bs) = bs"
proof -
  have "of_nat (of_char (char_of (unat b) :: char)) = b" for b :: byte
  proof -
    have "unat b < 256" using unsigned_less [of b] by simp
    then show ?thesis by simp
  qed
  then show ?thesis by (simp add: bytes_of_string_def string_of_bytes_def comp_def map_idI)
qed

lemma codec_utf8:
  "plan_codec bytes_of_string (\<lambda>s. length s = n \<and> utf8_ok (map of_char s))
     (dbind (take_bytes n field) (\<lambda>bs.
       if utf8_ok (map unat bs) then dreturn (string_of_bytes bs) else dlift (Err (InvalidUtf8 field))))"
proof -
  have unat_bytes: "map unat (bytes_of_string s) = map of_char s" for s
    by (simp add: bytes_of_string_def comp_def unat_of_char)
  have same: "string_of_bytes bs = s \<longleftrightarrow> bs = bytes_of_string s" for bs s
    using bytes_of_string_of_bytes string_of_bytes_of_string by metis
  have exact: "(if utf8_ok (map unat bs) then Ok (string_of_bytes bs) else Err (InvalidUtf8 field)) = Ok s \<longleftrightarrow>
      (length s = n \<and> utf8_ok (map of_char s)) \<and> bs = bytes_of_string s" if "length bs = n" for bs s
  proof (cases "bs = bytes_of_string s")
    case True
    then show ?thesis using that by (simp add: unat_bytes string_of_bytes_of_string)
  next
    case False
    then show ?thesis using same [of bs s] by simp
  qed
  show ?thesis unfolding dreturn_dlift dlift_if
    by (rule codec_map [OF codec_take exact]) simp_all
qed

lemma codec_text: "plan_codec text_bytes valid_text (get_text field)"
proof -
  have inner: "fields (\<lambda>s. length s = n) bytes_of_string (\<lambda>s. utf8_ok (map of_char s))
      (dbind (take_bytes n field) (\<lambda>bs.
        if utf8_ok (map unat bs) then dreturn (string_of_bytes bs) else dlift (Err (InvalidUtf8 field))))" for n
    unfolding fields_def by (rule codec_utf8)
  have "fields (\<lambda>_. True) (\<lambda>s. put_u32 (length s) @ bytes_of_string s)
      (\<lambda>s. length s < 2 ^ 32 \<and> (length s \<le> MAX_STRING_BYTES \<and> utf8_ok (map of_char s))) (get_text field)"
    unfolding get_text_def by (rule field_bind [OF codec_u32], rule field_limit) (use inner in simp_all)
  then show ?thesis by (rule codec_of_fields) (auto simp: text_bytes_def valid_text_def MAX_STRING_BYTES_def)
qed

definition texts_bytes :: "string list \<Rightarrow> byte list" where
  "texts_bytes ss = put_u32 (length ss) @ concat (map text_bytes ss)"

lemma codec_list:
  assumes "plan_codec e v d"
  shows "plan_codec (\<lambda>xs. put_u32 (length xs) @ concat (map e xs))
    (\<lambda>xs. length xs \<le> MAX_LIST_ITEMS \<and> list_all v xs) (dbind (get_list_count field) (\<lambda>n. get_times n d))"
proof -
  have "fields (\<lambda>_. True) (\<lambda>xs. put_u32 (length xs) @ concat (map e xs))
      (\<lambda>xs. length xs \<le> MAX_LIST_ITEMS \<and> list_all v xs) (dbind (get_list_count field) (\<lambda>n. get_times n d))"
    by (rule field_bind [OF codec_list_count])
      (use codec_times [OF assms] in \<open>simp add: fields_def\<close>)
  then show ?thesis by (rule codec_of_fields) simp_all
qed

lemma codec_string_list:
  "plan_codec texts_bytes (\<lambda>ss. length ss \<le> MAX_LIST_ITEMS \<and> list_all valid_text ss) (get_string_list field)"
  unfolding texts_bytes_def [abs_def] get_string_list_def by (rule codec_list [OF codec_text])

subsection \<open>The codecs of the groups of fields\<close>

definition u64_value :: "nat \<Rightarrow> bool" where "u64_value v \<longleftrightarrow> v < 2 ^ 64"

definition u32_value :: "nat \<Rightarrow> bool" where "u32_value v \<longleftrightarrow> v < 2 ^ 32"

lemmas codec_value64 = codec_u64 [folded u64_value_def]
  and codec_value32 = codec_u32 [folded u32_value_def]

definition cache_typed :: "layer_cache_decision \<Rightarrow> bool" where
  "cache_typed c \<longleftrightarrow> u64_value (lc_capacity_bytes c)"

lemma codec_cache: "plan_codec encode_cache cache_typed get_cache"
proof (rule codec_of_fields)
  show "fields (\<lambda>_. True) (\<lambda>c. put_bool (lc_enabled c) @ put_u64 (lc_capacity_bytes c) @ [])
      (\<lambda>c. True \<and> u64_value (lc_capacity_bytes c) \<and> True) get_cache"
    unfolding get_cache_def
    by (rule field_bind [OF codec_boolean], rule field_bind [OF codec_value64], rule field_return) auto
qed (simp_all add: cache_typed_def encode_cache_def)

lemma codec_io: "plan_codec encode_io (\<lambda>_. True) get_io"
proof (rule codec_of_fields)
  show "fields (\<lambda>_. True) (\<lambda>i. put_bool (io_read_coalescing_enabled i) @ put_bool (io_grouped_read_buffer_reuse_enabled i) @ [])
      (\<lambda>i. True \<and> True \<and> True) get_io"
    unfolding get_io_def
    by (rule field_bind [OF codec_boolean], rule field_bind [OF codec_boolean], rule field_return) auto
qed (simp_all add: encode_io_def)

definition gpu_bytes :: "gpu_decision \<Rightarrow> byte list" where
  "gpu_bytes g = [encode_gpu_preference (gp_preference g)] @ put_bool (gp_enabled g)
     @ opt_bytes text_bytes (gp_selected_device_id g)"

definition gpu_valid :: "gpu_decision \<Rightarrow> bool" where
  "gpu_valid g \<longleftrightarrow> pred_option valid_text (gp_selected_device_id g)"

lemma codec_gpu: "plan_codec gpu_bytes gpu_valid get_gpu"
proof (rule codec_of_fields)
  show "fields (\<lambda>_. True) (\<lambda>g. [encode_gpu_preference (gp_preference g)] @ put_bool (gp_enabled g)
        @ opt_bytes text_bytes (gp_selected_device_id g) @ [])
      (\<lambda>g. True \<and> True \<and> pred_option valid_text (gp_selected_device_id g) \<and> True) get_gpu"
    unfolding get_gpu_def
    by (rule field_bind [OF codec_gpu_preference], rule field_bind [OF codec_boolean],
        rule field_bind [OF codec_optional [where d = get_text, OF codec_text]], rule field_return) auto
qed (simp_all add: gpu_bytes_def gpu_valid_def)

definition reservations_typed :: "resource_reservations \<Rightarrow> bool" where
  "reservations_typed r \<longleftrightarrow> list_all u64_value [rr_available_ram_bytes_at_planning r, rr_persistent_resident_bytes r,
     rr_persistent_startup_peak_bytes r, rr_largest_layer_load_peak_bytes r, rr_managed_lower_bound_bytes r,
     rr_remaining_budget_after_lower_bound_bytes r]"

lemma codec_reservations: "plan_codec encode_reservations reservations_typed get_reservations"
proof (rule codec_of_fields)
  show "fields (\<lambda>_. True)
      (\<lambda>r. put_u64 (rr_available_ram_bytes_at_planning r) @ put_u64 (rr_persistent_resident_bytes r)
        @ put_u64 (rr_persistent_startup_peak_bytes r) @ put_u64 (rr_largest_layer_load_peak_bytes r)
        @ put_u64 (rr_managed_lower_bound_bytes r) @ put_u64 (rr_remaining_budget_after_lower_bound_bytes r) @ [])
      (\<lambda>r. u64_value (rr_available_ram_bytes_at_planning r) \<and> u64_value (rr_persistent_resident_bytes r)
        \<and> u64_value (rr_persistent_startup_peak_bytes r) \<and> u64_value (rr_largest_layer_load_peak_bytes r)
        \<and> u64_value (rr_managed_lower_bound_bytes r) \<and> u64_value (rr_remaining_budget_after_lower_bound_bytes r) \<and> True)
      get_reservations"
    unfolding get_reservations_def
    by (rule field_bind [OF codec_value64])+ (rule field_return, auto)
qed (simp_all add: reservations_typed_def encode_reservations_def)

definition cost_typed :: "cost_estimate \<Rightarrow> bool" where
  "cost_typed c \<longleftrightarrow> u64_value (ce_physical_read_bytes_per_forward c)
     \<and> pred_option u64_value (ce_calibrated_read_time_ns_per_forward c)
     \<and> pred_option u64_value (ce_observed_strategy_latency_ns c)"

lemma codec_optional_u64: "plan_codec put_optional_u64 (pred_option u64_value) (get_optional field get_u64_le)"
  using codec_optional [where d = get_u64_le, OF codec_value64]
  by (simp add: put_optional_u64_def [abs_def] opt_bytes_def [abs_def])

lemma codec_optional_u32: "plan_codec put_optional_u32 (pred_option u32_value) (get_optional field get_u32)"
  using codec_optional [where d = get_u32, OF codec_value32]
  by (simp add: put_optional_u32_def [abs_def] opt_bytes_def [abs_def])

lemma codec_cost: "plan_codec encode_cost cost_typed get_cost"
proof (rule codec_of_fields)
  show "fields (\<lambda>_. True)
      (\<lambda>c. put_u64 (ce_physical_read_bytes_per_forward c) @ put_optional_u64 (ce_calibrated_read_time_ns_per_forward c)
        @ put_optional_u64 (ce_observed_strategy_latency_ns c) @ [])
      (\<lambda>c. u64_value (ce_physical_read_bytes_per_forward c) \<and> pred_option u64_value (ce_calibrated_read_time_ns_per_forward c)
        \<and> pred_option u64_value (ce_observed_strategy_latency_ns c) \<and> True) get_cost"
    unfolding get_cost_def
    by (rule field_bind [OF codec_value64], rule field_bind [OF codec_optional_u64],
        rule field_bind [OF codec_optional_u64], rule field_return) auto
qed (simp_all add: cost_typed_def encode_cost_def)

definition calibration_bytes :: "calibration_provenance \<Rightarrow> byte list" where
  "calibration_bytes c = opt_bytes text_bytes (cp_calibration_identifier c)
     @ opt_bytes text_bytes (cp_calibration_plan_identifier c)
     @ put_optional_u32 (cp_calibration_plan_version c) @ put_optional_u32 (cp_calibration_ruleset_version c)
     @ texts_bytes (cp_observation_identifiers c)"

definition calibration_valid :: "calibration_provenance \<Rightarrow> bool" where
  "calibration_valid c \<longleftrightarrow> pred_option valid_text (cp_calibration_identifier c)
     \<and> pred_option valid_text (cp_calibration_plan_identifier c)
     \<and> pred_option u32_value (cp_calibration_plan_version c) \<and> pred_option u32_value (cp_calibration_ruleset_version c)
     \<and> length (cp_observation_identifiers c) \<le> MAX_LIST_ITEMS \<and> list_all valid_text (cp_observation_identifiers c)"

lemma codec_calibration: "plan_codec calibration_bytes calibration_valid get_calibration"
proof (rule codec_of_fields)
  show "fields (\<lambda>_. True)
      (\<lambda>c. opt_bytes text_bytes (cp_calibration_identifier c) @ opt_bytes text_bytes (cp_calibration_plan_identifier c)
        @ put_optional_u32 (cp_calibration_plan_version c) @ put_optional_u32 (cp_calibration_ruleset_version c)
        @ texts_bytes (cp_observation_identifiers c) @ [])
      (\<lambda>c. pred_option valid_text (cp_calibration_identifier c) \<and> pred_option valid_text (cp_calibration_plan_identifier c)
        \<and> pred_option u32_value (cp_calibration_plan_version c) \<and> pred_option u32_value (cp_calibration_ruleset_version c)
        \<and> (length (cp_observation_identifiers c) \<le> MAX_LIST_ITEMS \<and> list_all valid_text (cp_observation_identifiers c)) \<and> True)
      get_calibration"
    unfolding get_calibration_def
    by (rule field_bind [OF codec_optional [where d = get_text, OF codec_text]],
        rule field_bind [OF codec_optional [where d = get_text, OF codec_text]],
        rule field_bind [OF codec_optional_u32], rule field_bind [OF codec_optional_u32],
        rule field_bind [OF codec_string_list], rule field_return) auto
qed (simp_all add: calibration_valid_def calibration_bytes_def)

definition reason_typed :: "plan_reason \<Rightarrow> bool" where
  "reason_typed r \<longleftrightarrow> pred_option u64_value (re_value r)"

lemma codec_reason: "plan_codec put_reason reason_typed get_reason"
proof (rule codec_of_fields)
  show "fields (\<lambda>_. True) (\<lambda>r. [encode_reason (re_code r)] @ put_optional_u64 (re_value r) @ [])
      (\<lambda>r. True \<and> pred_option u64_value (re_value r) \<and> True) get_reason"
    unfolding get_reason_def
    by (rule field_bind [OF codec_reason_code], rule field_bind [OF codec_optional_u64], rule field_return) auto
qed (simp_all add: reason_typed_def put_reason_def)

definition reasons_bytes :: "plan_reason list \<Rightarrow> byte list" where
  "reasons_bytes rs = put_u32 (length rs) @ concat (map put_reason rs)"

lemma codec_reasons:
  "plan_codec reasons_bytes (\<lambda>rs. length rs \<le> MAX_LIST_ITEMS \<and> list_all reason_typed rs) get_reasons"
  unfolding reasons_bytes_def [abs_def] get_reasons_def by (rule codec_list [OF codec_reason])

subsection \<open>The codec of a plan\<close>

definition header_valid :: "persisted_execution_plan \<Rightarrow> bool" where
  "header_valid p \<longleftrightarrow> u32_value (pe_execution_schema_version p) \<and> u32_value (pe_planner_ruleset_version p)
     \<and> u64_value (pe_ram_budget_bytes p) \<and> u64_value (pe_cpu_thread_count p)"

definition plan_valid :: "persisted_execution_plan \<Rightarrow> bool" where
  "plan_valid p \<longleftrightarrow> pe_persistence_schema_version p = PERSISTED_EXECUTION_PLAN_SCHEMA_VERSION \<and> header_valid p
     \<and> cache_typed (pe_layer_cache p) \<and> gpu_valid (pe_gpu p) \<and> reservations_typed (pe_reservations p)
     \<and> cost_typed (pe_cost p) \<and> calibration_valid (pe_calibration p)
     \<and> length (pe_reasons p) \<le> MAX_LIST_ITEMS \<and> list_all reason_typed (pe_reasons p)"

definition plan_bytes :: "persisted_execution_plan \<Rightarrow> byte list" where
  "plan_bytes p = PERSISTED_PLAN_MAGIC @ encode_header p @ encode_cache (pe_layer_cache p) @ encode_io (pe_io p)
     @ gpu_bytes (pe_gpu p) @ encode_reservations (pe_reservations p) @ encode_cost (pe_cost p)
     @ calibration_bytes (pe_calibration p) @ reasons_bytes (pe_reasons p)"

definition get_fingerprint :: "string \<Rightarrow> fingerprint plan_decoder" where
  "get_fingerprint field = dbind (get_u64_le field) (\<lambda>n. dreturn (of_nat n))"

lemma codec_fingerprint: "plan_codec (\<lambda>n. put_u64 (unat n)) (\<lambda>_. True) (get_fingerprint field)"
proof -
  have exact: "(Ok (of_nat n) = Ok x) \<longleftrightarrow> True \<and> n = unat x" if "n < 2 ^ 64" for n and x :: fingerprint
    using that by (auto simp: unat_of_nat take_bit_nat_eq_self)
  have less: "unat x < 2 ^ 64" for x :: fingerprint using unsigned_less [of x] by simp
  show ?thesis unfolding get_fingerprint_def dreturn_dlift
    by (rule codec_map [OF codec_u64 exact]) (use less in simp_all)
qed

lemma get_fingerprint: "dbind (get_u64_le field) (\<lambda>n. k (of_nat n)) = dbind (get_fingerprint field) k"
proof
  fix r
  show "dbind (get_u64_le field) (\<lambda>n. k (of_nat n)) r = dbind (get_fingerprint field) k r"
    by (cases "get_u64_le field r") (auto simp: get_fingerprint_def dbind_def dreturn_def)
qed

lemma codec_plan: "plan_codec plan_bytes plan_valid get_plan"
proof (rule codec_of_fields)
  show "fields (\<lambda>_. True)
      (\<lambda>p. PERSISTED_PLAN_MAGIC @ put_u32 (pe_persistence_schema_version p) @ put_u32 (pe_execution_schema_version p)
        @ put_u32 (pe_planner_ruleset_version p) @ put_u64 (unat (pe_model_descriptor_fingerprint p))
        @ put_u64 (unat (pe_source_machine_fingerprint p)) @ put_u64 (unat (pe_source_storage_fingerprint p))
        @ [encode_mode (pe_mode p)] @ [encode_strategy (pe_strategy p)]
        @ put_u64 (pe_ram_budget_bytes p) @ put_u64 (pe_cpu_thread_count p)
        @ encode_cache (pe_layer_cache p) @ encode_io (pe_io p)
        @ gpu_bytes (pe_gpu p) @ encode_reservations (pe_reservations p) @ encode_cost (pe_cost p)
        @ calibration_bytes (pe_calibration p) @ reasons_bytes (pe_reasons p) @ [])
      (\<lambda>p. u32_value (pe_persistence_schema_version p)
        \<and> pe_persistence_schema_version p = PERSISTED_EXECUTION_PLAN_SCHEMA_VERSION
        \<and> u32_value (pe_execution_schema_version p) \<and> u32_value (pe_planner_ruleset_version p)
        \<and> True \<and> True \<and> True \<and> True \<and> True \<and> u64_value (pe_ram_budget_bytes p) \<and> u64_value (pe_cpu_thread_count p)
        \<and> cache_typed (pe_layer_cache p) \<and> True \<and> gpu_valid (pe_gpu p) \<and> reservations_typed (pe_reservations p)
        \<and> cost_typed (pe_cost p) \<and> calibration_valid (pe_calibration p)
        \<and> (length (pe_reasons p) \<le> MAX_LIST_ITEMS \<and> list_all reason_typed (pe_reasons p)) \<and> True)
      get_plan"
    unfolding get_plan_def
    apply (rule field_guard [OF codec_take refl])
    apply (rule field_bind [OF codec_value32], rule field_if)
     apply (rule field_bind [OF codec_value32], rule field_bind [OF codec_value32])
     apply (subst get_fingerprint, rule field_bind [OF codec_fingerprint])
     apply (subst get_fingerprint, rule field_bind [OF codec_fingerprint])
     apply (subst get_fingerprint, rule field_bind [OF codec_fingerprint])
     apply (rule field_bind [OF codec_mode], rule field_bind [OF codec_strategy])
     apply (rule field_bind [OF codec_value64], rule field_bind [OF codec_value64])
     apply (rule field_bind [OF codec_cache], rule field_bind [OF codec_io], rule field_bind [OF codec_gpu],
        rule field_bind [OF codec_reservations], rule field_bind [OF codec_cost],
        rule field_bind [OF codec_calibration], rule field_bind [OF codec_reasons], rule field_return)
     apply auto
    done
qed (auto simp: plan_valid_def header_valid_def plan_bytes_def encode_header_def PERSISTED_EXECUTION_PLAN_SCHEMA_VERSION_def u32_value_def)

interpretation plan_value: plan_codec plan_bytes plan_valid get_plan
  by (rule codec_plan)

interpretation text_value: plan_codec text_bytes valid_text "get_text field" for field
  by (rule codec_text)

text \<open>The encoder writes \<open>plan_bytes\<close>, unless a string, a list or the whole exceeds its limit.\<close>

lemma rappend_eq_Ok: "rappend a b = Ok zs \<longleftrightarrow> (\<exists>xs ys. a = Ok xs \<and> b = Ok ys \<and> zs = xs @ ys)"
  by (auto simp: rappend_def rbind_eq_Ok)

definition short :: "string \<Rightarrow> bool" where "short s \<longleftrightarrow> length s \<le> MAX_STRING_BYTES"

lemma put_string_eq_Ok: "put_string s field = Ok bs \<longleftrightarrow> short s \<and> bs = text_bytes s"
  by (auto simp: put_string_def short_def text_bytes_def MAX_STRING_BYTES_def)

lemma put_optional_string_eq_Ok:
  "put_optional_string x field = Ok bs \<longleftrightarrow> pred_option short x \<and> bs = opt_bytes text_bytes x"
  by (cases x) (auto simp: put_optional_string_def rappend_eq_Ok put_string_eq_Ok opt_bytes_def)

lemma put_list_count_eq_Ok: "put_list_count n field = Ok bs \<longleftrightarrow> n \<le> MAX_LIST_ITEMS \<and> bs = put_u32 n"
  by (auto simp: put_list_count_def MAX_LIST_ITEMS_def)

lemma put_strings_eq_Ok: "put_strings ss field = Ok bs \<longleftrightarrow> list_all short ss \<and> bs = concat (map text_bytes ss)"
  by (induction ss arbitrary: bs) (auto simp: rappend_eq_Ok put_string_eq_Ok)

lemma put_string_list_eq_Ok:
  "put_string_list ss field = Ok bs \<longleftrightarrow> length ss \<le> MAX_LIST_ITEMS \<and> list_all short ss \<and> bs = texts_bytes ss"
  by (auto simp: put_string_list_def rappend_eq_Ok put_list_count_eq_Ok put_strings_eq_Ok texts_bytes_def)

lemma encode_gpu_eq_Ok:
  "encode_gpu g = Ok bs \<longleftrightarrow> pred_option short (gp_selected_device_id g) \<and> bs = gpu_bytes g"
  by (auto simp: encode_gpu_def rappend_eq_Ok put_optional_string_eq_Ok gpu_bytes_def)

lemma encode_calibration_eq_Ok:
  "encode_calibration c = Ok bs \<longleftrightarrow> pred_option short (cp_calibration_identifier c)
     \<and> pred_option short (cp_calibration_plan_identifier c) \<and> length (cp_observation_identifiers c) \<le> MAX_LIST_ITEMS
     \<and> list_all short (cp_observation_identifiers c) \<and> bs = calibration_bytes c"
  by (auto simp: encode_calibration_def rappend_eq_Ok put_optional_string_eq_Ok put_string_list_eq_Ok calibration_bytes_def)

lemma encode_reasons_eq_Ok: "encode_reasons rs = Ok bs \<longleftrightarrow> length rs \<le> MAX_LIST_ITEMS \<and> bs = reasons_bytes rs"
  by (auto simp: encode_reasons_def rappend_eq_Ok put_list_count_eq_Ok reasons_bytes_def)

definition within_limits :: "persisted_execution_plan \<Rightarrow> bool" where
  "within_limits p \<longleftrightarrow> pred_option short (gp_selected_device_id (pe_gpu p))
     \<and> pred_option short (cp_calibration_identifier (pe_calibration p))
     \<and> pred_option short (cp_calibration_plan_identifier (pe_calibration p))
     \<and> length (cp_observation_identifiers (pe_calibration p)) \<le> MAX_LIST_ITEMS
     \<and> list_all short (cp_observation_identifiers (pe_calibration p)) \<and> length (pe_reasons p) \<le> MAX_LIST_ITEMS
     \<and> length (plan_bytes p) \<le> MAX_PERSISTED_PLAN_BYTES"

lemma encode_unchecked_eq_Ok: "encode_unchecked p = Ok bs \<longleftrightarrow> within_limits p \<and> bs = plan_bytes p"
  unfolding encode_unchecked_def rbind_eq_Ok rappend_eq_Ok encode_gpu_eq_Ok encode_calibration_eq_Ok encode_reasons_eq_Ok
  by (auto simp: within_limits_def plan_bytes_def split: if_splits)

text \<open>The values of the Rust types: integers of 32 and of 64 bits, and strings of UTF-8 bytes.\<close>

definition utf8 :: "string \<Rightarrow> bool" where "utf8 s \<longleftrightarrow> utf8_ok (map of_char s)"

definition plan_typed :: "persisted_execution_plan \<Rightarrow> bool" where
  "plan_typed p \<longleftrightarrow> u32_value (pe_persistence_schema_version p) \<and> header_valid p \<and> cache_typed (pe_layer_cache p)
     \<and> pred_option utf8 (gp_selected_device_id (pe_gpu p)) \<and> reservations_typed (pe_reservations p)
     \<and> cost_typed (pe_cost p)
     \<and> pred_option utf8 (cp_calibration_identifier (pe_calibration p))
     \<and> pred_option utf8 (cp_calibration_plan_identifier (pe_calibration p))
     \<and> pred_option u32_value (cp_calibration_plan_version (pe_calibration p))
     \<and> pred_option u32_value (cp_calibration_ruleset_version (pe_calibration p))
     \<and> list_all utf8 (cp_observation_identifiers (pe_calibration p)) \<and> list_all reason_typed (pe_reasons p)"

lemma valid_text_eq: "valid_text s \<longleftrightarrow> short s \<and> utf8 s"
  by (auto simp: valid_text_def short_def utf8_def)

lemma plan_valid_typed:
  "plan_valid p \<and> length (plan_bytes p) \<le> MAX_PERSISTED_PLAN_BYTES \<longleftrightarrow>
     plan_typed p \<and> within_limits p \<and> pe_persistence_schema_version p = PERSISTED_EXECUTION_PLAN_SCHEMA_VERSION"
  by (auto simp: plan_valid_def plan_typed_def within_limits_def gpu_valid_def calibration_valid_def valid_text_eq
      list_all_iff option.pred_set PERSISTED_EXECUTION_PLAN_SCHEMA_VERSION_def u32_value_def)

lemma validate_structure_schema:
  "validate_structure p = Ok () \<Longrightarrow> pe_persistence_schema_version p = PERSISTED_EXECUTION_PLAN_SCHEMA_VERSION"
  by (auto simp: validate_structure_def Let_def split: if_splits)

lemma to_bytes_eq_Ok: "to_bytes p = Ok bs \<longleftrightarrow> validate_structure p = Ok () \<and> within_limits p \<and> bs = plan_bytes p"
  by (simp add: to_bytes_def rbind_eq_Ok encode_unchecked_eq_Ok)

lemma from_bytes_eq_Ok:
  "from_bytes bs = Ok p \<longleftrightarrow>
     length bs \<le> MAX_PERSISTED_PLAN_BYTES \<and> plan_valid p \<and> bs = plan_bytes p \<and> validate_structure p = Ok ()"
proof (cases "length bs \<le> MAX_PERSISTED_PLAN_BYTES")
  case True
  have exact: "get_plan (PlanReader 0 bs) = Ok (p, r) \<longleftrightarrow>
      plan_valid p \<and> (\<exists>bs'. bs = plan_bytes p @ bs' \<and> r = PlanReader (length (plan_bytes p)) bs')" for r
    using plan_value.exact [of 0 bs p r] True by (simp add: MAX_PERSISTED_PLAN_BYTES_def U64_MAX_def)
  have "from_bytes bs = Ok p \<longleftrightarrow>
      (\<exists>r. get_plan (PlanReader 0 bs) = Ok (p, r) \<and> pr_unread r = [] \<and> validate_structure p = Ok ())"
    using True by (auto simp: from_bytes_def rbind_eq_Ok split: if_splits)
  then show ?thesis unfolding exact using True by auto
qed (simp add: from_bytes_def)

text \<open>
  C35: the binary form is canonical: \<open>from_bytes\<close> returns a plan exactly for the bytes that \<open>to_bytes\<close>
  writes for it. So every written plan is read back unchanged, every other input is rejected (truncated or
  extended bytes, a second spelling of a boolean, tag or length, invalid UTF-8, an invalid plan), and two
  plans never share their bytes.
\<close>

theorem from_bytes_canonical: "from_bytes bs = Ok p \<longleftrightarrow> plan_typed p \<and> to_bytes p = Ok bs"
  unfolding from_bytes_eq_Ok to_bytes_eq_Ok
  using plan_valid_typed [of p] validate_structure_schema [of p] by auto

subsection \<open>Compatibility with the current environment\<close>

datatype persisted_plan_validation_error = ValidationPersistence plan_persistence_error | ValidationCompilation plan_compilation_error

record persisted_plan_compatibility_context =
  px_compilation :: plan_compilation_context
  px_calibration :: "calibration_result option"

datatype plan_compatibility = CompatValid | CompatibleRecalibrationRecommended | Incompatible

datatype plan_compatibility_reason =
    PersistedPlanInvalid
  | ModelFingerprintMismatch
  | PlanCompilationFailed plan_compilation_error
  | CalibrationNotApplied
  | CalibrationMissing
  | CalibrationInvalid
  | CalibrationSourceMachineChanged
  | CalibrationSourceStorageChanged
  | CalibrationProvenanceMismatch
  | CalibrationBindingMismatch
  | CalibrationObservationUnavailable

record plan_compatibility_report =
  compat_state :: plan_compatibility
  compat_reasons :: "plan_compatibility_reason list"

definition compile_runtime_config ::
  "persisted_execution_plan \<Rightarrow> plan_compilation_context \<Rightarrow> (runtime_config, persisted_plan_validation_error) result"
where
  "compile_runtime_config p c =
     rbind (map_err ValidationPersistence (validate_structure p)) (\<lambda>_.
       if pe_model_descriptor_fingerprint p \<noteq> mid_descriptor_fingerprint (mo_identity (cc_model c))
       then Err (ValidationPersistence (InvalidPlan ''model fingerprint mismatch''))
       else map_err ValidationCompilation (compile_plan (materialize_for_context p c) c))"

definition materialize_for_validation ::
  "persisted_execution_plan \<Rightarrow> plan_compilation_context \<Rightarrow> (execution_plan, plan_persistence_error) result"
where
  "materialize_for_validation p c = rbind (validate_structure p) (\<lambda>_. Ok (materialize_for_context p c))"

definition calibration_reason :: "persisted_execution_plan \<Rightarrow> plan_reason_code option" where
  "calibration_reason p = map_option re_code (List.find (\<lambda>r. is_calibration_reason (re_code r)) (pe_reasons p))"

definition calibration_mismatch_reason ::
  "persisted_execution_plan \<Rightarrow> persisted_plan_compatibility_context \<Rightarrow> plan_compatibility_reason option"
where
  "calibration_mismatch_reason p x =
     (let c = px_compilation x; own = pe_calibration p;
          machine = machine_fingerprint (cc_machine c); storage = storage_fingerprint (cc_storage c) in
      case px_calibration x of
        None \<Rightarrow> Some CalibrationMissing
      | Some calibration \<Rightarrow>
          if \<not> is_ok (calibration_validate calibration) then Some CalibrationInvalid
          else if pe_source_machine_fingerprint p \<noteq> machine then Some CalibrationSourceMachineChanged
          else if pe_source_storage_fingerprint p \<noteq> storage then Some CalibrationSourceStorageChanged
          else if cr_identifier calibration \<noteq> (case cp_calibration_identifier own of Some s \<Rightarrow> s | None \<Rightarrow> [])
            \<or> Some (cr_calibration_plan_identifier calibration) \<noteq> cp_calibration_plan_identifier own
            \<or> Some (cr_calibration_plan_version calibration) \<noteq> cp_calibration_plan_version own
            \<or> Some (cr_calibration_ruleset_version calibration) \<noteq> cp_calibration_ruleset_version own
          then Some CalibrationProvenanceMismatch
          else if cr_machine_fingerprint calibration \<noteq> machine
            \<or> (case cr_model_fingerprint calibration of
                 Some f \<Rightarrow> f \<noteq> mid_descriptor_fingerprint (mo_identity (cc_model c)) | None \<Rightarrow> False)
            \<or> (case cr_storage_fingerprint calibration of Some f \<Rightarrow> f \<noteq> storage | None \<Rightarrow> False)
          then Some CalibrationBindingMismatch
          else if list_ex (\<lambda>identifier. \<not> list_ex (\<lambda>ob. po_identifier ob = identifier \<and> po_status ob = Measured)
                (cr_observations calibration)) (cp_observation_identifiers own)
          then Some CalibrationObservationUnavailable
          else None)"

definition recalibration_reasons ::
  "persisted_execution_plan \<Rightarrow> persisted_plan_compatibility_context \<Rightarrow> plan_compatibility_reason list"
where
  "recalibration_reasons p x =
     (case calibration_reason p of
        Some CalibrationNotRequested \<Rightarrow> []
      | Some CalibrationNotApplicable \<Rightarrow> [CalibrationNotApplied]
      | Some CalibrationObservationsApplied \<Rightarrow> (case calibration_mismatch_reason p x of Some r \<Rightarrow> [r] | None \<Rightarrow> [])
      | _ \<Rightarrow> [CalibrationNotApplied])"

definition compatibility_report ::
  "persisted_execution_plan \<Rightarrow> persisted_plan_compatibility_context \<Rightarrow> plan_compatibility_report"
where
  "compatibility_report p x =
     (let c = px_compilation x in
      if \<not> is_ok (validate_structure p) then \<lparr>compat_state = Incompatible, compat_reasons = [PersistedPlanInvalid]\<rparr>
      else if pe_model_descriptor_fingerprint p \<noteq> mid_descriptor_fingerprint (mo_identity (cc_model c))
      then \<lparr>compat_state = Incompatible, compat_reasons = [ModelFingerprintMismatch]\<rparr>
      else (case compile_plan (materialize_for_context p c) c of
          Err e \<Rightarrow> \<lparr>compat_state = Incompatible, compat_reasons = [PlanCompilationFailed e]\<rparr>
        | _ \<Rightarrow>
            let reasons = recalibration_reasons p x in
            \<lparr>compat_state = (if reasons = [] then CompatValid else CompatibleRecalibrationRecommended), compat_reasons = reasons\<rparr>))"

definition validate_compatibility ::
  "persisted_execution_plan \<Rightarrow> persisted_plan_compatibility_context \<Rightarrow> plan_compatibility"
where
  "validate_compatibility p x = compat_state (compatibility_report p x)"

subsection \<open>What a report and a compilation establish\<close>

lemma scan_reasons_find:
  "scan_reasons codes found rs = Ok r \<Longrightarrow>
     r = (case found of Some c \<Rightarrow> Some c | None \<Rightarrow> map_option re_code (List.find (\<lambda>r. is_calibration_reason (re_code r)) rs))"
  by (induction codes found rs rule: scan_reasons.induct) (auto split: if_splits option.splits)

lemma validate_reasons_Ok:
  assumes "validate_reasons p = Ok ()"
  shows "cp_observation_identifiers (pe_calibration p) = [] \<Longrightarrow>
      calibration_reason p \<in> {Some CalibrationNotRequested, Some CalibrationNotApplicable}"
    and "cp_observation_identifiers (pe_calibration p) \<noteq> [] \<Longrightarrow> calibration_reason p = Some CalibrationObservationsApplied"
proof -
  obtain reason where scan: "scan_reasons [] None (pe_reasons p) = Ok (Some reason)"
    using assms by (auto simp: validate_reasons_def rbind_eq_Ok Let_def split: if_splits)
  have "calibration_reason p = Some reason"
    using scan_reasons_find [OF scan] by (simp add: calibration_reason_def)
  then show "cp_observation_identifiers (pe_calibration p) = [] \<Longrightarrow>
      calibration_reason p \<in> {Some CalibrationNotRequested, Some CalibrationNotApplicable}"
    and "cp_observation_identifiers (pe_calibration p) \<noteq> [] \<Longrightarrow> calibration_reason p = Some CalibrationObservationsApplied"
    using assms scan by (cases reason; auto simp: validate_reasons_def split: if_splits)+
qed

lemma validate_structure_Ok:
  assumes "validate_structure p = Ok ()"
  shows "validate_calibration_provenance p = Ok ()" "validate_reasons p = Ok ()"
    "rr_managed_lower_bound_bytes (pe_reservations p) + lc_capacity_bytes (pe_layer_cache p) \<le> pe_ram_budget_bytes p"
  using assms by (auto simp: validate_structure_def Let_def rbind_eq_Ok split: if_splits)

text \<open>The calibration result at hand is the one the plan was made with, and still measures what it used.\<close>

definition calibration_current :: "persisted_execution_plan \<Rightarrow> persisted_plan_compatibility_context \<Rightarrow> bool" where
  "calibration_current p x =
     (case px_calibration x of
        None \<Rightarrow> False
      | Some calibration \<Rightarrow>
          calibration_validate calibration = Ok ()
          \<and> pe_source_machine_fingerprint p = machine_fingerprint (cc_machine (px_compilation x))
          \<and> pe_source_storage_fingerprint p = storage_fingerprint (cc_storage (px_compilation x))
          \<and> cp_calibration_identifier (pe_calibration p) = Some (cr_identifier calibration)
          \<and> cp_calibration_plan_identifier (pe_calibration p) = Some (cr_calibration_plan_identifier calibration)
          \<and> cp_calibration_plan_version (pe_calibration p) = Some (cr_calibration_plan_version calibration)
          \<and> cp_calibration_ruleset_version (pe_calibration p) = Some (cr_calibration_ruleset_version calibration)
          \<and> cr_machine_fingerprint calibration = pe_source_machine_fingerprint p
          \<and> cr_model_fingerprint calibration \<in> {None, Some (pe_model_descriptor_fingerprint p)}
          \<and> cr_storage_fingerprint calibration \<in> {None, Some (pe_source_storage_fingerprint p)}
          \<and> (\<forall>i \<in> set (cp_observation_identifiers (pe_calibration p)).
               \<exists>ob \<in> set (cr_observations calibration). po_identifier ob = i \<and> po_status ob = Measured))"

lemma calibration_mismatch_None:
  assumes "cp_calibration_identifier (pe_calibration p) \<noteq> Some []"
    and model: "pe_model_descriptor_fingerprint p = mid_descriptor_fingerprint (mo_identity (cc_model (px_compilation x)))"
  shows "calibration_mismatch_reason p x = None \<longleftrightarrow> calibration_current p x"
proof (cases "px_calibration x")
  case None
  then show ?thesis by (simp add: calibration_mismatch_reason_def calibration_current_def)
next
  case (Some c)
  have valid: "is_ok (calibration_validate c) \<longleftrightarrow> calibration_validate c = Ok ()"
    by (cases "calibration_validate c") auto
  have ident: "calibration_validate c = Ok () \<Longrightarrow> cr_identifier c \<noteq> []"
    by (auto simp: calibration_validate_def split: if_splits)
  have model_option: "(case cr_model_fingerprint c of Some f \<Rightarrow> f \<noteq> m | None \<Rightarrow> False) \<longleftrightarrow>
      cr_model_fingerprint c \<notin> {None, Some m}" for m by (cases "cr_model_fingerprint c") auto
  have storage_option: "(case cr_storage_fingerprint c of Some f \<Rightarrow> f \<noteq> m | None \<Rightarrow> False) \<longleftrightarrow>
      cr_storage_fingerprint c \<notin> {None, Some m}" for m by (cases "cr_storage_fingerprint c") auto
  have ident_option: "cr_identifier c \<noteq> (case cp_calibration_identifier (pe_calibration p) of Some s \<Rightarrow> s | None \<Rightarrow> [])
      \<longleftrightarrow> cp_calibration_identifier (pe_calibration p) \<noteq> Some (cr_identifier c)"
    if "calibration_validate c = Ok ()"
    using ident [OF that] by (cases "cp_calibration_identifier (pe_calibration p)") auto
  have observed: "list_ex (\<lambda>i. \<not> list_ex (\<lambda>ob. po_identifier ob = i \<and> po_status ob = Measured) (cr_observations c)) ids
      \<longleftrightarrow> \<not> (\<forall>i \<in> set ids. \<exists>ob \<in> set (cr_observations c). po_identifier ob = i \<and> po_status ob = Measured)" for ids
    by (simp add: list_ex_iff)
  show ?thesis
  proof (cases "calibration_validate c = Ok ()")
    case True
    then show ?thesis
      unfolding calibration_mismatch_reason_def calibration_current_def Let_def Some option.case valid
        model_option storage_option ident_option [OF True] observed model by auto
  next
    case False
    then show ?thesis by (simp add: calibration_mismatch_reason_def calibration_current_def Some valid Let_def)
  qed
qed

text \<open>No check panics, so a compilation that is no error is a configuration.\<close>

lemma is_panic_guard: "is_panic (if c then Err e else r) \<longleftrightarrow> \<not> c \<and> is_panic r"
  by simp

lemma availability_validate_total: "\<not> is_panic (availability_validate field a)"
  by (simp add: availability_validate_def)

lemma validate_gpus_total: "\<not> is_panic (validate_gpus seen gpus)"
  by (induction seen gpus rule: validate_gpus.induct) (simp_all add: is_panic_rbind availability_validate_total)

lemma profiles_total:
  "\<not> is_panic (machine_validate m)" "\<not> is_panic (model_validate mo)" "\<not> is_panic (storage_validate s)"
  by (simp_all only: machine_validate_def model_validate_def storage_validate_def Let_def is_panic_guard is_panic_rbind)
    (simp_all add: availability_validate_total validate_gpus_total)

lemma first_mismatch_total: "\<not> is_panic (first_mismatch xs)"
  by (induction xs rule: first_mismatch.induct) simp_all

lemma validate_concrete_total: "\<not> is_panic (validate_concrete_decisions p)"
  by (simp add: validate_concrete_decisions_def Let_def split: strategy_id.split)

lemma plan_checks_total:
  "\<not> is_panic (validate_plan_header p)" "\<not> is_panic (validate_context c)" "\<not> is_panic (validate_bindings p c)"
  "\<not> is_panic (validate_static_plan p c)" "\<not> is_panic (validate_resource_limits p c)"
  "\<not> is_panic (validate_reservations p em)" "\<not> is_panic (validate_cache p caps em)" "\<not> is_panic (validate_io p caps)"
  "\<not> is_panic (config_new threads ram enabled capacity coalescing reuse)"
  unfolding validate_plan_header_def validate_context_def validate_bindings_def validate_static_plan_def
    validate_resource_limits_def validate_reservations_def validate_cache_def validate_io_def config_new_def
    config_validate_def Let_def is_panic_rbind
  by (simp_all add: profiles_total first_mismatch_total is_panic_rbind)

lemma compile_plan_total: "\<not> is_panic (compile_plan p c)"
  by (simp add: compile_plan_def is_panic_rbind plan_checks_total validate_concrete_total)

text \<open>
  The report is right. A loaded plan is reported incompatible exactly when compiling it fails; it is
  reported valid exactly when it compiles and its calibration needs no refresh: it asked for none, or
  the observations it was planned with are all still measured in a valid calibration result of this
  machine, this model and this storage, under the identity the plan recorded.
\<close>

theorem compatibility_report_correct:
  "(validate_compatibility p x = Incompatible \<longleftrightarrow> \<not> is_ok (compile_runtime_config p (px_compilation x)))
   \<and> (validate_compatibility p x = CompatValid \<longleftrightarrow> is_ok (compile_runtime_config p (px_compilation x))
        \<and> (if cp_observation_identifiers (pe_calibration p) = [] then calibration_reason p = Some CalibrationNotRequested
           else calibration_current p x))"
proof (cases "validate_structure p = Ok () \<and> pe_model_descriptor_fingerprint p =
    mid_descriptor_fingerprint (mo_identity (cc_model (px_compilation x)))")
  case False
  have ok: "is_ok (validate_structure p) \<longleftrightarrow> validate_structure p = Ok ()"
    by (cases "validate_structure p") auto
  have "validate_compatibility p x = Incompatible"
    using False by (auto simp: validate_compatibility_def compatibility_report_def ok Let_def)
  moreover have "\<not> is_ok (compile_runtime_config p (px_compilation x))"
    using False by (cases "validate_structure p") (auto simp: compile_runtime_config_def)
  ultimately show ?thesis by simp
next
  case True
  then have s: "validate_structure p = Ok ()" and m: "pe_model_descriptor_fingerprint p =
    mid_descriptor_fingerprint (mo_identity (cc_model (px_compilation x)))" by auto
  have "cp_calibration_identifier (pe_calibration p) \<noteq> Some []"
    using validate_structure_Ok(1) [OF s]
    by (auto simp: validate_calibration_provenance_def bad_identifier_def Let_def split: if_splits)
  note current = calibration_mismatch_None [OF this m]
  note reasons = validate_reasons_Ok [OF validate_structure_Ok(2) [OF s]]
  let ?compiled = "compile_plan (materialize_for_context p (px_compilation x)) (px_compilation x)"
  have none: "recalibration_reasons p x = [] \<longleftrightarrow>
      (if cp_observation_identifiers (pe_calibration p) = [] then calibration_reason p = Some CalibrationNotRequested
       else calibration_current p x)"
  proof (cases "cp_observation_identifiers (pe_calibration p) = []")
    case True
    then show ?thesis using reasons(1) by (auto simp: recalibration_reasons_def)
  next
    case False
    then show ?thesis using reasons(2) current by (auto simp: recalibration_reasons_def split: option.split)
  qed
  show ?thesis
  proof (cases ?compiled)
    case (Ok config)
    then show ?thesis unfolding none [symmetric]
      by (auto simp: validate_compatibility_def compatibility_report_def compile_runtime_config_def s m Let_def)
  next
    case (Err e)
    then show ?thesis
      by (simp add: validate_compatibility_def compatibility_report_def compile_runtime_config_def s m Let_def)
  next
    case (Panic msg)
    then show ?thesis using compile_plan_total [of "materialize_for_context p (px_compilation x)" "px_compilation x"] by simp
  qed
qed

subsection \<open>A saved plan runs as the plan it was made from\<close>

definition persisted_of :: "execution_plan \<Rightarrow> persisted_execution_plan" where
  "persisted_of p =
     \<lparr>pe_persistence_schema_version = PERSISTED_EXECUTION_PLAN_SCHEMA_VERSION,
      pe_execution_schema_version = ep_schema_version p, pe_planner_ruleset_version = ep_ruleset_version p,
      pe_model_descriptor_fingerprint = pb_model_descriptor_fingerprint (ep_binding p),
      pe_source_machine_fingerprint = pb_machine_fingerprint (ep_binding p),
      pe_source_storage_fingerprint = pb_storage_fingerprint (ep_binding p),
      pe_mode = ep_mode p, pe_strategy = ep_strategy p, pe_ram_budget_bytes = ep_ram_budget_bytes p,
      pe_cpu_thread_count = ep_cpu_thread_count p, pe_layer_cache = ep_layer_cache p, pe_io = ep_io p,
      pe_gpu = ep_gpu p, pe_reservations = ep_reservations p, pe_cost = ep_cost p,
      pe_calibration = ep_calibration p, pe_reasons = ep_reasons p\<rparr>"

lemma from_execution_plan_Ok:
  "from_execution_plan p = Ok q \<longleftrightarrow> validate_structure (persisted_of p) = Ok () \<and> q = persisted_of p"
  unfolding from_execution_plan_def persisted_of_def Let_def rbind_eq_Ok by auto

lemma reservations_irrelevant:
  "validate_plan_header (p\<lparr>ep_reservations := r\<rparr>) = validate_plan_header p"
  "validate_concrete_decisions (p\<lparr>ep_reservations := r\<rparr>) = validate_concrete_decisions p"
  "validate_static_plan (p\<lparr>ep_reservations := r\<rparr>) c = validate_static_plan p c"
  "validate_cache (p\<lparr>ep_reservations := r\<rparr>) caps em = validate_cache p caps em"
  "validate_io (p\<lparr>ep_reservations := r\<rparr>) caps = validate_io p caps"
  "compiled_config (p\<lparr>ep_reservations := r\<rparr>) = compiled_config p"
  for p :: execution_plan
  by (simp_all add: validate_plan_header_def validate_concrete_decisions_def
      validate_static_plan_def validate_cache_def validate_io_def compiled_config_def Let_def cong: if_cong)

lemma rebound_plan_compiles:
  assumes "compile_plan p c = Ok config" and q: "q = persisted_of p"
  shows "compile_plan (materialize_for_context q c) c = Ok config"
proof -
  obtain em where checks: "validate_plan_header p = Ok ()" "validate_concrete_decisions p = Ok ()"
      "validate_context c = Ok ()" "validate_bindings p c = Ok ()" "validate_static_plan p c = Ok em"
      "validate_resource_limits p c = Ok ()" "validate_reservations p em = Ok ()"
      "validate_cache p (cc_capabilities c) em = Ok ()" "validate_io p (cc_capabilities c) = Ok ()"
    and capacity: "lc_capacity_bytes (ep_layer_cache p) \<le> ep_ram_budget_bytes p" and config: "config = compiled_config p"
    using assms(1) unfolding compile_plan_Ok by blast
  obtain t a where ram: "mp_total_ram_bytes (cc_machine c) = Some t" "mp_available_ram_bytes (cc_machine c) = Some a"
      "ep_ram_budget_bytes p \<le> a"
    using checks(6) by (auto simp: validate_resource_limits_def Let_def rbind_eq_Ok not_less split: if_splits)
  have "machine_validate (cc_machine c) = Ok ()"
    using checks(3) by (auto simp: validate_context_def rbind_eq_Ok)
  then have within: "a \<le> t" using machine_ram ram by blast
  have binding: "ep_binding p = \<lparr>pb_model_descriptor_fingerprint = pb_model_descriptor_fingerprint (ep_binding p),
      pb_machine_fingerprint = machine_fingerprint (cc_machine c), pb_storage_fingerprint = storage_fingerprint (cc_storage c),
      pb_model_path = st_model_path (cc_storage c)\<rparr>"
    using checks(4) by (simp add: validate_bindings_def Let_def split: if_splits)
  have m: "materialize_for_context q c = p\<lparr>ep_reservations := (ep_reservations p)\<lparr>rr_available_ram_bytes_at_planning := a\<rparr>\<rparr>"
    using binding by (simp add: q persisted_of_def materialize_for_context_def materialize_def ram)
  show ?thesis unfolding compile_plan_Ok m
  proof (intro conjI exI [where x = em])
    show "validate_resource_limits (p\<lparr>ep_reservations := (ep_reservations p)\<lparr>rr_available_ram_bytes_at_planning := a\<rparr>\<rparr>) c = Ok ()"
      using checks(6) within by (auto simp: validate_resource_limits_def Let_def ram split: if_splits)
    show "validate_reservations (p\<lparr>ep_reservations := (ep_reservations p)\<lparr>rr_available_ram_bytes_at_planning := a\<rparr>\<rparr>) em = Ok ()"
      using checks(7) ram(3) by (auto simp: validate_reservations_def Let_def split: if_splits)
    show "validate_bindings (p\<lparr>ep_reservations := (ep_reservations p)\<lparr>rr_available_ram_bytes_at_planning := a\<rparr>\<rparr>) c = Ok ()"
      using checks(4) by (simp add: validate_bindings_def)
  qed (use checks capacity config in \<open>simp_all add: reservations_irrelevant\<close>)
qed

text \<open>
  Saving and loading keeps what runs: when a plan compiles in an environment, is persisted, and is
  loaded from its file, the loaded plan is the persisted one, and it compiles in that environment to the
  very same configuration, although it is bound to the machine and the free memory of the moment.
\<close>

theorem saved_plan_runs:
  assumes "compile_plan p c = Ok config" and "from_execution_plan p = Ok q" and "plan_typed q" and "to_bytes q = Ok bs"
  shows "load_plan (Ok bs) = Ok q \<and> compile_runtime_config q c = Ok config"
proof
  have q: "q = persisted_of p" and s: "validate_structure q = Ok ()"
    using assms(2) by (auto simp: from_execution_plan_Ok)
  have limits: "within_limits q" "bs = plan_bytes q" using assms(4) by (auto simp: to_bytes_eq_Ok)
  then have "from_bytes bs = Ok q" "length bs \<le> MAX_PERSISTED_PLAN_BYTES"
    using plan_valid_typed [of q] assms(3) s validate_structure_schema [OF s] by (auto simp: from_bytes_eq_Ok)
  then show "load_plan (Ok bs) = Ok q" by (simp add: load_plan_def)
  have "validate_bindings p c = Ok ()" using assms(1) by (auto simp: compile_plan_Ok)
  then have "pe_model_descriptor_fingerprint q = mid_descriptor_fingerprint (mo_identity (cc_model c))"
    by (auto simp: validate_bindings_def Let_def q persisted_of_def split: if_splits)
  then show "compile_runtime_config q c = Ok config"
    using rebound_plan_compiles [OF assms(1) q] s by (simp add: compile_runtime_config_def)
qed

definition example_saved_plan :: execution_plan where
  "example_saved_plan = example_execution_plan\<lparr>ep_reasons := [\<lparr>re_code = CalibrationNotRequested, re_value = None\<rparr>]\<rparr>"

lemma example_saved_compiles: "compile_plan example_saved_plan example_context = Ok (compiled_config example_saved_plan)"
proof -
  have "compile_plan (p\<lparr>ep_reasons := rs\<rparr>) c = compile_plan p c" for p :: execution_plan and rs c
    by (simp add: compile_plan_def validate_plan_header_def validate_concrete_decisions_def validate_bindings_def
        validate_static_plan_def validate_resource_limits_def validate_reservations_def validate_cache_def validate_io_def Let_def
        cong: if_cong)
  then show ?thesis using example_compiles by (simp add: example_saved_plan_def compiled_config_def)
qed

lemma example_fingerprints: "machine_fingerprint example_machine \<noteq> 0" "storage_fingerprint example_storage \<noteq> 0"
  by code_simp+

lemma example_saved_valid: "validate_structure (persisted_of example_saved_plan) = Ok ()"
  using example_fingerprints
  by (simp add: persisted_of_def example_saved_plan_def example_execution_plan_def no_provenance_def
      validate_structure_def validate_calibration_provenance_def validate_reasons_def materialize_def
      validate_concrete_decisions_def is_calibration_reason_def bad_identifier_def checked_exact MAX_LIST_ITEMS_def
      PERSISTED_EXECUTION_PLAN_SCHEMA_VERSION_def Let_def)

lemma example_saved_typed: "plan_typed (persisted_of example_saved_plan)"
  by (simp add: persisted_of_def example_saved_plan_def example_execution_plan_def no_provenance_def plan_typed_def
      u32_value_def u64_value_def header_valid_def cache_typed_def reservations_typed_def cost_typed_def reason_typed_def
      PERSISTED_EXECUTION_PLAN_SCHEMA_VERSION_def)

lemma example_saved_within: "within_limits (persisted_of example_saved_plan)"
  by (simp add: persisted_of_def example_saved_plan_def example_execution_plan_def no_provenance_def within_limits_def
      MAX_LIST_ITEMS_def MAX_PERSISTED_PLAN_BYTES_def plan_bytes_def PERSISTED_PLAN_MAGIC_def encode_header_def
      encode_cache_def encode_io_def gpu_bytes_def encode_reservations_def encode_cost_def calibration_bytes_def
      reasons_bytes_def texts_bytes_def put_reason_def opt_bytes_def put_u32_def put_u64_def put_bool_def
      put_optional_u32_def put_optional_u64_def)

theorem saved_plan_runs_witness:
  "\<exists>bs. to_bytes (persisted_of example_saved_plan) = Ok bs
     \<and> load_plan (Ok bs) = Ok (persisted_of example_saved_plan)
     \<and> compile_runtime_config (persisted_of example_saved_plan) example_context = Ok (compiled_config example_saved_plan)"
proof -
  have saved: "to_bytes (persisted_of example_saved_plan) = Ok (plan_bytes (persisted_of example_saved_plan))"
    by (simp add: to_bytes_eq_Ok example_saved_valid example_saved_within)
  have "from_execution_plan example_saved_plan = Ok (persisted_of example_saved_plan)"
    by (simp add: from_execution_plan_Ok example_saved_valid)
  from saved_plan_runs [OF example_saved_compiles this example_saved_typed saved] show ?thesis using saved by blast
qed

end
