(* ===== verification/Unicode_Text.thy ===== *)
theory Unicode_Text
  imports Gguf_Parse
begin

section \<open>Unicode text\<close>

text \<open>
  What the program uses of Rust's strings: a \<open>str\<close> is the list of its scalar values, \<open>as_bytes\<close> its
  UTF-8 encoding, \<open>utf8_next\<close> one step of \<open>str::from_utf8\<close> (a scalar with its width, a malformed
  sequence with its \<open>error_len\<close>, or an end of input inside a sequence), \<open>utf8_lossy\<close> is
  \<open>String::from_utf8_lossy\<close>.
\<close>

type_synonym ustring = "nat list"

definition ustr :: "string \<Rightarrow> ustring" where "ustr s = map of_char s"

fun utf8_char :: "nat \<Rightarrow> nat list" where
  "utf8_char c =
     (if c < 128 then [c]
      else if c < 2048 then [192 + c div 64, 128 + c mod 64]
      else if c < 65536 then [224 + c div 4096, 128 + (c div 64) mod 64, 128 + c mod 64]
      else [240 + c div 262144, 128 + (c div 4096) mod 64, 128 + (c div 64) mod 64, 128 + c mod 64])"

declare utf8_char.simps [simp del]

definition utf8_bytes :: "ustring \<Rightarrow> nat list" where "utf8_bytes s = concat (map utf8_char s)"

definition byte_len :: "ustring \<Rightarrow> usize" where "byte_len s = length (utf8_bytes s)"

definition scalar :: "nat \<Rightarrow> bool" where "scalar c \<longleftrightarrow> c < 55296 \<or> (57344 \<le> c \<and> c < 1114112)"

datatype utf8_item = Scalar nat nat | Malformed nat | Incomplete

definition utf8_next :: "nat list \<Rightarrow> utf8_item" where
  "utf8_next bs =
     (case bs of
        [] \<Rightarrow> Incomplete
      | a # r \<Rightarrow>
          if a < 128 then Scalar a 1
          else if 194 \<le> a \<and> a \<le> 223 then
            (case r of [] \<Rightarrow> Incomplete | b # _ \<Rightarrow>
              if \<not> continuation b then Malformed 1 else Scalar ((a - 192) * 64 + (b - 128)) 2)
          else if 224 \<le> a \<and> a \<le> 239 then
            (case r of [] \<Rightarrow> Incomplete | b # r' \<Rightarrow>
              if \<not> second_of_three a b then Malformed 1
              else (case r' of [] \<Rightarrow> Incomplete | c # _ \<Rightarrow>
                if \<not> continuation c then Malformed 2
                else Scalar ((a - 224) * 4096 + (b - 128) * 64 + (c - 128)) 3))
          else if 240 \<le> a \<and> a \<le> 244 then
            (case r of [] \<Rightarrow> Incomplete | b # r' \<Rightarrow>
              if \<not> second_of_four a b then Malformed 1
              else (case r' of [] \<Rightarrow> Incomplete | c # r'' \<Rightarrow>
                if \<not> continuation c then Malformed 2
                else (case r'' of [] \<Rightarrow> Incomplete | d # _ \<Rightarrow>
                  if \<not> continuation d then Malformed 3
                  else Scalar ((a - 240) * 262144 + (b - 128) * 4096 + (c - 128) * 64 + (d - 128)) 4)))
          else Malformed 1)"

lemma four_cases:
  obtains "xs = []" | a where "xs = [a]" | a b where "xs = [a, b]" | a b c where "xs = [a, b, c]"
    | a b c d r where "xs = a # b # c # d # r"
  by (metis list.exhaust)

lemma utf8_next_width:
  "utf8_next bs = Scalar c n \<Longrightarrow> 0 < n \<and> n \<le> length bs"
  "utf8_next bs = Malformed n \<Longrightarrow> 0 < n \<and> n \<le> length bs"
  by (cases bs rule: four_cases; auto simp: utf8_next_def split: if_splits)+

lemma utf8_next_append:
  "utf8_next bs \<noteq> Incomplete \<Longrightarrow> utf8_next (bs @ cs) = utf8_next bs"
  by (cases bs rule: four_cases) (auto simp: utf8_next_def split: if_splits)

text \<open>\<open>from_utf8\<close>: the scalars up to \<open>valid_up_to\<close>, and the bytes from there on.\<close>

function utf8_scan :: "nat list \<Rightarrow> ustring \<times> nat list" where
  "utf8_scan bs = (case utf8_next bs of Scalar c n \<Rightarrow> apfst ((#) c) (utf8_scan (drop n bs)) | _ \<Rightarrow> ([], bs))"
  by auto
termination by (relation "measure length") (auto dest: utf8_next_width)

declare utf8_scan.simps [simp del]

definition chars_of :: "string \<Rightarrow> ustring" where "chars_of s = fst (utf8_scan (ustr s))"

definition REPLACEMENT :: nat where "REPLACEMENT = 65533"

function utf8_lossy :: "nat list \<Rightarrow> ustring" where
  "utf8_lossy bs =
     (if bs = [] then []
      else (case utf8_next bs of
          Scalar c n \<Rightarrow> c # utf8_lossy (drop n bs)
        | Malformed n \<Rightarrow> REPLACEMENT # utf8_lossy (drop n bs)
        | Incomplete \<Rightarrow> [REPLACEMENT]))"
  by auto
termination by (relation "measure length") (auto dest: utf8_next_width)

declare utf8_lossy.simps [simp del]

definition whitespace :: "nat \<Rightarrow> bool" where
  "whitespace c \<longleftrightarrow> (9 \<le> c \<and> c \<le> 13) \<or> (8192 \<le> c \<and> c \<le> 8202)
     \<or> c \<in> set [32, 133, 160, 5760, 8232, 8233, 8239, 8287, 12288]"

definition trim_start :: "ustring \<Rightarrow> ustring" where "trim_start s = dropWhile whitespace s"

text \<open>\<open>split_whitespace\<close>; \<open>word\<close> holds the word that is being read.\<close>

fun split_words :: "ustring \<Rightarrow> ustring \<Rightarrow> ustring list" where
  "split_words word [] = (if word = [] then [] else [word])"
| "split_words word (c # cs) =
     (if whitespace c then (if word = [] then [] else [word]) @ split_words [] cs
      else split_words (word @ [c]) cs)"

definition split_whitespace :: "ustring \<Rightarrow> ustring list" where "split_whitespace s = split_words [] s"

text \<open>\<open>starts_with\<close> for a string.\<close>

definition starts_with :: "ustring \<Rightarrow> ustring \<Rightarrow> bool" where
  "starts_with s p \<longleftrightarrow> take (length p) s = p"

subsection \<open>Facts\<close>

lemma utf8_lossy_Nil [simp]: "utf8_lossy [] = []"
  by (simp add: utf8_lossy.simps)

lemma base64_digits: "c div 4096 = c div 64 div 64" "c div 262144 = c div 64 div 64 div 64" for c :: nat
  using div_mult2_eq [of c 64 64] div_mult2_eq [of c 4096 64] by simp_all

lemma base64_values:
  fixes c :: nat
  shows "c div 64 * 64 + c mod 64 = c"
    "c div 4096 * 4096 + (c div 64 mod 64 * 64 + c mod 64) = c"
    "c div 262144 * 262144 + (c div 4096 mod 64 * 4096 + (c div 64 mod 64 * 64 + c mod 64)) = c"
proof -
  have d: "q div 64 * 64 + q mod 64 = q" for q :: nat by simp
  show "c div 64 * 64 + c mod 64 = c" by (rule d)
  show "c div 4096 * 4096 + (c div 64 mod 64 * 64 + c mod 64) = c"
    using d [of c] d [of "c div 64"] unfolding base64_digits by linarith
  show "c div 262144 * 262144 + (c div 4096 mod 64 * 4096 + (c div 64 mod 64 * 64 + c mod 64)) = c"
    using d [of c] d [of "c div 64"] d [of "c div 64 div 64"] unfolding base64_digits by linarith
qed

lemma utf8_next_two:
  "2 \<le> q \<Longrightarrow> q \<le> 31 \<Longrightarrow> r \<le> 63 \<Longrightarrow> utf8_next ([192 + q, 128 + r] @ bs) = Scalar (q * 64 + r) 2"
  by (simp add: utf8_next_def continuation_def)

lemma utf8_next_three:
  assumes "t \<le> 15" "q \<le> 63" "r \<le> 63" "t = 0 \<Longrightarrow> 32 \<le> q" "t = 13 \<Longrightarrow> q < 32"
  shows "utf8_next ([224 + t, 128 + q, 128 + r] @ bs) = Scalar (t * 4096 + q * 64 + r) 3"
proof -
  have "second_of_three (224 + t) (128 + q)" using assms by (auto simp: second_of_three_def continuation_def)
  then show ?thesis using assms by (simp add: utf8_next_def continuation_def)
qed

lemma utf8_next_four:
  assumes "u \<le> 4" "t \<le> 63" "q \<le> 63" "r \<le> 63" "u = 0 \<Longrightarrow> 16 \<le> t" "u = 4 \<Longrightarrow> t < 16"
  shows "utf8_next ([240 + u, 128 + t, 128 + q, 128 + r] @ bs) = Scalar (u * 262144 + t * 4096 + q * 64 + r) 4"
proof -
  have "second_of_four (240 + u) (128 + t)" using assms by (auto simp: second_of_four_def continuation_def)
  then show ?thesis using assms by (simp add: utf8_next_def continuation_def)
qed

lemma utf8_next_char: "scalar c \<Longrightarrow> utf8_next (utf8_char c @ bs) = Scalar c (length (utf8_char c))"
proof -
  assume c: "scalar c"
  note digits = base64_values [of c, unfolded add.assoc [symmetric]]
  have digit: "n mod 64 \<le> 63" for n :: nat using mod_less_divisor [of 64 n] by linarith
  have top: "c < 1114112" and surrogate: "c < 55296 \<or> 57344 \<le> c" using c by (auto simp: scalar_def)
  consider "c < 128" | "128 \<le> c" "c < 2048" | "2048 \<le> c" "c < 65536" | "65536 \<le> c" by linarith
  then show ?thesis
  proof cases
    case 1
    then show ?thesis by (simp add: utf8_char.simps utf8_next_def)
  next
    case 2
    then have "2 \<le> c div 64" "c div 64 \<le> 31" by linarith+
    from utf8_next_two [OF this digit, of c bs] show ?thesis using 2 digits by (simp add: utf8_char.simps)
  next
    case 3
    have "c div 4096 = 0 \<Longrightarrow> 32 \<le> c div 64 mod 64" "c div 4096 = 13 \<Longrightarrow> c div 64 mod 64 < 32" "c div 4096 \<le> 15"
      using 3 surrogate digits(2) digit [of c] by linarith+
    from utf8_next_three [OF this(3) digit digit this(1,2), of c bs] show ?thesis
      using 3 digits by (simp add: utf8_char.simps)
  next
    case 4
    have "c div 262144 = 0 \<Longrightarrow> 16 \<le> c div 4096 mod 64" "c div 262144 = 4 \<Longrightarrow> c div 4096 mod 64 < 16" "c div 262144 \<le> 4"
      using 4 top digits(3) digit [of c] digit [of "c div 64"] by linarith+
    from utf8_next_four [OF this(3) digit digit digit this(1,2), of "c div 64" c bs] show ?thesis
      using 4 digits by (simp add: utf8_char.simps)
  qed
qed

lemma utf8_bytes_Cons: "utf8_bytes (c # s) = utf8_char c @ utf8_bytes s"
  by (simp add: utf8_bytes_def)

lemma utf8_char_not_Nil: "utf8_char c \<noteq> []"
  by (simp add: utf8_char.simps)

text \<open>Text survives its encoding.\<close>

lemma utf8_lossy_bytes: "list_all scalar s \<Longrightarrow> utf8_lossy (utf8_bytes s) = s"
proof (induction s)
  case (Cons c s)
  then show ?case
    by (simp add: utf8_bytes_Cons utf8_next_char utf8_char_not_Nil utf8_lossy.simps [of "utf8_char c @ utf8_bytes s"])
qed (simp add: utf8_bytes_def)

lemma split_words_append:
  "whitespace c \<Longrightarrow> split_words word (xs @ c # ys) = split_words word xs @ split_words [] ys"
  by (induction word xs rule: split_words.induct) auto

lemma split_words_word:
  "\<forall>c \<in> set xs. \<not> whitespace c \<Longrightarrow> split_words word xs = (if word @ xs = [] then [] else [word @ xs])"
  by (induction word xs rule: split_words.induct) auto

end
