(* ===== verification/Float32.thy ===== *)
theory Float32
  imports Gguf_Parse Complex_Main
begin

section \<open>Single precision arithmetic\<close>

text \<open>
  Rust's \<open>f32\<close>: an IEEE 754 binary32 number as its bits, and the operations the numeric code uses. A finite number is
  a sign, a significand and a power of two; an operation computes the exact result and \<open>f32_round\<close> rounds it to the
  nearest number, ties to even. Rust leaves the payload and the sign of a NaN result open; here it is the one quiet NaN.
\<close>

type_synonym f32 = "32 word"

subsection \<open>Reading the bits\<close>

definition f32_neg :: "f32 \<Rightarrow> bool" where "f32_neg w \<longleftrightarrow> 2 ^ 31 \<le> unat w"
definition f32_exp :: "f32 \<Rightarrow> nat" where "f32_exp w = unat w div 2 ^ 23 mod 2 ^ 8"
definition f32_frac :: "f32 \<Rightarrow> nat" where "f32_frac w = unat w mod 2 ^ 23"

datatype f32_class = Nan | Infinite bool | Finite bool nat int

definition f32_class :: "f32 \<Rightarrow> f32_class" where
  "f32_class w =
     (let s = f32_neg w; e = f32_exp w; m = f32_frac w in
      if e = 255 then (if m = 0 then Infinite s else Nan)
      else if e = 0 then Finite s m (- 149)
      else Finite s (2 ^ 23 + m) (int e - 150))"

text \<open>\<open>is_finite\<close>, and the number a finite float stands for.\<close>

definition f32_finite :: "f32 \<Rightarrow> bool" where "f32_finite w \<longleftrightarrow> f32_exp w \<noteq> 255"

definition with_sign :: "bool \<Rightarrow> real \<Rightarrow> real" where "with_sign neg x = (if neg then - x else x)"

definition f32_value :: "f32 \<Rightarrow> real" where
  "f32_value w = (case f32_class w of Finite s m e \<Rightarrow> with_sign s (real m * 2 powi e) | _ \<Rightarrow> 0)"

subsection \<open>Rounding\<close>

fun bit_length :: "nat \<Rightarrow> nat" where
  "bit_length n = (if n = 0 then 0 else Suc (bit_length (n div 2)))"

declare bit_length.simps [simp del]

text \<open>\<open>a / 2\<^sup>s\<close> to the nearest integer, ties to even.\<close>

definition half_even :: "nat \<Rightarrow> nat \<Rightarrow> nat" where
  "half_even a s =
     (let q = a div 2 ^ s; r = a mod 2 ^ s in if 2 * r < 2 ^ s \<or> (2 * r = 2 ^ s \<and> even q) then q else q + 1)"

definition f32_pack :: "bool \<Rightarrow> nat \<Rightarrow> f32" where "f32_pack neg bits = of_nat ((if neg then 2 ^ 31 else 0) + bits)"

text \<open>The power of two of the last place of the result: 24 significant bits, and not below that of the subnormals.\<close>

definition last_place :: "nat \<Rightarrow> int \<Rightarrow> int" where "last_place a e = max (e + int (bit_length a) - 24) (- 149)"

definition f32_round :: "bool \<Rightarrow> nat \<Rightarrow> int \<Rightarrow> f32" where
  "f32_round neg a e =
     (if a = 0 then f32_pack neg 0
      else
        let p = last_place a e;
            m = (if p \<le> e then a * 2 ^ nat (e - p) else half_even a (nat (p - e)))
        in f32_pack neg (min (nat (p + 149) * 2 ^ 23 + m) (255 * 2 ^ 23)))"

subsection \<open>Operations\<close>

definition f32_nan :: f32 where "f32_nan = 0x7FC00000"
definition f32_infinity :: "bool \<Rightarrow> f32" where "f32_infinity neg = f32_pack neg (255 * 2 ^ 23)"

definition f32_of_int :: "int \<Rightarrow> f32" where "f32_of_int n = f32_round (n < 0) (nat \<bar>n\<bar>) 0"

definition fmul :: "f32 \<Rightarrow> f32 \<Rightarrow> f32" where
  "fmul x y =
     (case (f32_class x, f32_class y) of
        (Nan, _) \<Rightarrow> f32_nan
      | (_, Nan) \<Rightarrow> f32_nan
      | (Infinite s, Infinite t) \<Rightarrow> f32_infinity (s \<noteq> t)
      | (Infinite s, Finite t m e) \<Rightarrow> if m = 0 then f32_nan else f32_infinity (s \<noteq> t)
      | (Finite s m e, Infinite t) \<Rightarrow> if m = 0 then f32_nan else f32_infinity (s \<noteq> t)
      | (Finite s m e, Finite t n f) \<Rightarrow> f32_round (s \<noteq> t) (m * n) (e + f))"

text \<open>The exact sum of two finite numbers, over the smaller of their powers.\<close>

definition exact_sum :: "bool \<Rightarrow> nat \<Rightarrow> int \<Rightarrow> bool \<Rightarrow> nat \<Rightarrow> int \<Rightarrow> int \<times> int" where
  "exact_sum s m e t n f =
     (let p = min e f; a = int m * 2 ^ nat (e - p); b = int n * 2 ^ nat (f - p) in
      ((if s then - a else a) + (if t then - b else b), p))"

definition fadd :: "f32 \<Rightarrow> f32 \<Rightarrow> f32" where
  "fadd x y =
     (case (f32_class x, f32_class y) of
        (Nan, _) \<Rightarrow> f32_nan
      | (_, Nan) \<Rightarrow> f32_nan
      | (Infinite s, Infinite t) \<Rightarrow> if s = t then f32_infinity s else f32_nan
      | (Infinite s, Finite _ _ _) \<Rightarrow> f32_infinity s
      | (Finite _ _ _, Infinite t) \<Rightarrow> f32_infinity t
      | (Finite s m e, Finite t n f) \<Rightarrow>
          (case exact_sum s m e t n f of (v, p) \<Rightarrow>
             if v = 0 then f32_pack (s \<and> t) 0 else f32_round (v < 0) (nat \<bar>v\<bar>) p))"

definition fneg :: "f32 \<Rightarrow> f32" where "fneg x = xor x 0x80000000"
definition fsub :: "f32 \<Rightarrow> f32 \<Rightarrow> f32" where "fsub x y = fadd x (fneg y)"

subsection \<open>Rounding is to a nearest number\<close>

lemma bit_length_bounds: "n \<noteq> 0 \<Longrightarrow> 2 ^ (bit_length n - 1) \<le> n \<and> n < 2 ^ bit_length n"
proof (induction n rule: bit_length.induct)
  case (1 n)
  show ?case
  proof (cases "n div 2 = 0")
    case True
    then have "n = 1" using 1 by auto
    then show ?thesis by (simp add: bit_length.simps)
  next
    case False
    then have ih: "2 ^ (bit_length (n div 2) - 1) \<le> n div 2" "n div 2 < 2 ^ bit_length (n div 2)" using 1 by auto
    have b: "bit_length n = Suc (bit_length (n div 2))" using 1 by (subst bit_length.simps) simp
    have "bit_length (n div 2) \<noteq> 0" using ih False by (cases "bit_length (n div 2)") auto
    then obtain k where k: "bit_length (n div 2) = Suc k" by (cases "bit_length (n div 2)") auto
    define p :: nat where "p = 2 ^ k"
    have "p \<le> n div 2" "n div 2 < 2 * p" using ih k by (simp_all add: p_def)
    then have "2 * p \<le> n" "n < 2 * (2 * p)" by presburger+
    then show ?thesis using k b by (simp add: p_def)
  qed
qed

lemma bit_length_0 [simp]: "bit_length 0 = 0"
  by (simp add: bit_length.simps)

lemma bit_length_pos: "n \<noteq> 0 \<Longrightarrow> 0 < bit_length n"
  by (simp add: bit_length.simps)

lemma bit_length_le: "n < 2 ^ k \<Longrightarrow> bit_length n \<le> k"
proof (cases "n = 0")
  case False
  assume "n < 2 ^ k"
  then have "(2 :: nat) ^ (bit_length n - 1) < 2 ^ k" using bit_length_bounds [OF False] by linarith
  then show ?thesis by simp
qed simp

lemma half_even_error: "2 * \<bar>int (half_even a s) * 2 ^ s - int a\<bar> \<le> 2 ^ s"
proof -
  have a: "int a = int (a div 2 ^ s) * 2 ^ s + int (a mod 2 ^ s)"
    using arg_cong [OF div_mult_mod_eq [of a "2 ^ s"], of int] by (simp only: of_nat_add of_nat_mult of_nat_power of_nat_numeral)
  have "a mod 2 ^ s < 2 ^ s" by simp
  then have "int (a mod 2 ^ s) < 2 ^ s" using of_nat_less_iff [of "a mod 2 ^ s" "2 ^ s", where 'a = int] by simp
  moreover have "2 * (a mod 2 ^ s) < 2 ^ s \<longleftrightarrow> 2 * int (a mod 2 ^ s) < 2 ^ s"
    using of_nat_less_iff [of "2 * (a mod 2 ^ s)" "2 ^ s", where 'a = int] by simp
  moreover have "2 * (a mod 2 ^ s) = 2 ^ s \<longleftrightarrow> 2 * int (a mod 2 ^ s) = 2 ^ s"
    using of_nat_eq_iff [of "2 * (a mod 2 ^ s)" "2 ^ s", where 'a = int] by simp
  ultimately show ?thesis
    by (subst a, unfold half_even_def Let_def) (auto simp: algebra_simps)
qed

lemma half_even_0 [simp]: "half_even a 0 = a"
  by (simp add: half_even_def)

lemma half_even_le: assumes "a < 2 ^ (k + s)" shows "half_even a s \<le> 2 ^ k"
proof -
  have "a div 2 ^ s < 2 ^ k" using assms by (simp add: less_mult_imp_div_less power_add)
  then show ?thesis by (auto simp: half_even_def Let_def)
qed

text \<open>A number packed from an exponent and a significand of at most 24 bits reads back as itself.\<close>

lemma packed_class:
  assumes "x < 255 * 2 ^ 23"
  shows "f32_class (f32_pack neg x) =
    (if x < 2 ^ 23 then Finite neg x (- 149) else Finite neg (2 ^ 23 + x mod 2 ^ 23) (int (x div 2 ^ 23) - 150))"
proof -
  have u: "unat (f32_pack neg x) = (if neg then 2 ^ 31 else 0) + x"
  proof -
    have "(if neg then 2 ^ 31 else 0) + x < 2 ^ LENGTH(32)" using assms by auto
    then show ?thesis unfolding f32_pack_def by (simp only: unsigned_of_nat take_bit_nat_eq_self of_nat_id)
  qed
  have n: "f32_neg (f32_pack neg x) = neg" using u assms by (auto simp: f32_neg_def)
  have f: "f32_frac (f32_pack neg x) = x mod 2 ^ 23"
  proof -
    have "(2147483648 + x) mod 8388608 = x mod 8388608"
      using mod_mult_self3 [of 256 8388608 x] by simp
    then show ?thesis using u by (simp add: f32_frac_def)
  qed
  have e: "f32_exp (f32_pack neg x) = x div 2 ^ 23"
  proof -
    have "(2147483648 + x) div 8388608 = 256 + x div 8388608" using div_mult_self3 [of 8388608 256 x] by simp
    moreover have "x div 8388608 < 255" using assms by (simp add: less_mult_imp_div_less)
    ultimately show ?thesis using u by (auto simp: f32_exp_def)
  qed
  have "x div 2 ^ 23 < 255" using assms by (simp add: less_mult_imp_div_less)
  moreover have "x div 2 ^ 23 = 0 \<longleftrightarrow> x < 2 ^ 23" by (simp add: div_eq_0_iff)
  ultimately show ?thesis unfolding f32_class_def Let_def n f e by auto
qed

lemma packed_value:
  assumes "m \<le> 2 ^ 24" "k \<noteq> 0 \<Longrightarrow> 2 ^ 23 \<le> m" "k * 2 ^ 23 + m < 255 * 2 ^ 23"
  shows "f32_value (f32_pack neg (k * 2 ^ 23 + m)) = with_sign neg (real m * 2 powi (int k - 149))
    \<and> f32_finite (f32_pack neg (k * 2 ^ 23 + m))"
proof -
  let ?x = "k * 2 ^ 23 + m"
  have fin: "f32_finite (f32_pack neg ?x)"
    using packed_class [OF assms(3), of neg] by (auto simp: f32_finite_def f32_class_def Let_def split: if_splits)
  consider "?x < 2 ^ 23" | "m < 2 ^ 24" "2 ^ 23 \<le> m" | "m = 2 ^ 24" "2 ^ 23 \<le> ?x"
    using assms by (cases "k = 0") force+
  then show ?thesis
  proof cases
    case 1
    then have "k = 0" by (cases k) auto
    then show ?thesis using packed_class [OF assms(3), of neg] fin 1 by (simp add: f32_value_def)
  next
    case 2
    then obtain d where d: "m = 2 ^ 23 + d" "d < 2 ^ 23" using le_Suc_ex [of "2 ^ 23" m] by auto
    then have "?x mod 2 ^ 23 = m - 2 ^ 23" "?x div 2 ^ 23 = k + 1" by auto
    then show ?thesis using packed_class [OF assms(3), of neg] fin 2 by (simp add: f32_value_def of_nat_diff)
  next
    case 3
    then have "?x = (k + 2) * 2 ^ 23" by simp
    then have "?x mod 2 ^ 23 = 0" "?x div 2 ^ 23 = k + 2" by (metis mod_mult_self2_is_0, metis nonzero_mult_div_cancel_right power_not_zero zero_neq_numeral)
    moreover have "(2 :: real) powi (int k - 148) = 2 * 2 powi (int k - 149)"
      using power_int_add [of "2 :: real" "int k - 149" 1] by (simp add: algebra_simps)
    ultimately show ?thesis using packed_class [OF assms(3), of neg] fin 3 by (simp add: f32_value_def)
  qed
qed

lemma powi_split: "e \<le> p \<Longrightarrow> (2 :: real) powi p = 2 ^ nat (p - e) * 2 powi e"
  using power_int_add [of "2 :: real" "p - e" e] by (simp add: power_int_def)

lemma with_sign_eq [simp]:
  "\<bar>with_sign neg x - with_sign neg y\<bar> = \<bar>x - y\<bar>" "with_sign neg 0 = 0" "with_sign neg x = 0 \<longleftrightarrow> x = 0" "\<bar>with_sign neg x\<bar> = \<bar>x\<bar>"
  by (auto simp: with_sign_def)

lemma with_sign_mult: "with_sign s x * with_sign t y = with_sign (s \<noteq> t) (x * y)"
  by (auto simp: with_sign_def)

lemma f32_zero_value [simp]: "f32_value (f32_pack neg 0) = 0" "f32_finite (f32_pack neg 0)"
  using packed_value [of 0 0 neg] by simp_all

text \<open>
  The significand that is packed: at most 24 bits, all of them used unless the number is subnormal, and at most half a
  unit in the last place from the exact number.
\<close>

lemma rounded_significand:
  fixes a :: nat and e :: int
  assumes a: "a \<noteq> 0"
  defines "p \<equiv> last_place a e"
  defines "m \<equiv> (if p \<le> e then a * 2 ^ nat (e - p) else half_even a (nat (p - e)))"
  shows "m \<le> 2 ^ 24" "- 149 < p \<Longrightarrow> 2 ^ 23 \<le> m" "2 * \<bar>real m * 2 powi p - real a * 2 powi e\<bar> \<le> 2 powi p"
    "p \<le> e \<Longrightarrow> real m * 2 powi p = real a * 2 powi e"
proof -
  let ?b = "bit_length a"
  have b: "2 ^ (?b - 1) \<le> a" "a < 2 ^ ?b" "0 < ?b" using bit_length_bounds [OF a] bit_length_pos [OF a] by auto
  have p: "e + int ?b - 24 \<le> p" "- 149 \<le> p" "- 149 < p \<Longrightarrow> p = e + int ?b - 24" by (auto simp: p_def last_place_def)
  show "m \<le> 2 ^ 24"
  proof (cases "p \<le> e")
    case True
    then have "?b + nat (e - p) \<le> 24" using p by linarith
    moreover have "a * 2 ^ nat (e - p) < 2 ^ ?b * 2 ^ nat (e - p)" using b by simp
    ultimately have "a * 2 ^ nat (e - p) < 2 ^ 24"
      by (metis less_le_trans power_add power_increasing one_le_numeral)
    then show ?thesis using True by (simp add: m_def)
  next
    case False
    then have "?b \<le> 24 + nat (p - e)" using p by linarith
    then have "(2 :: nat) ^ ?b \<le> 2 ^ (24 + nat (p - e))" by (rule power_increasing) simp
    then have "a < 2 ^ (24 + nat (p - e))" using b by linarith
    then show ?thesis using False half_even_le [of a 24] by (simp add: m_def)
  qed
  show "2 ^ 23 \<le> m" if "- 149 < p"
  proof (cases "p \<le> e")
    case True
    then have "23 = (?b - 1) + nat (e - p)" using p(3) [OF that] b by linarith
    then have "(2 :: nat) ^ 23 = 2 ^ (?b - 1 + nat (e - p))" by (rule arg_cong)
    also have "\<dots> = 2 ^ (?b - 1) * 2 ^ nat (e - p)" by (rule power_add)
    also have "\<dots> \<le> a * 2 ^ nat (e - p)" using b by (intro mult_le_mono1)
    finally show ?thesis using True by (simp add: m_def)
  next
    case False
    then have "?b - 1 = 23 + nat (p - e)" using p(3) [OF that] b by linarith
    then have "2 ^ 23 * 2 ^ nat (p - e) \<le> a" using b power_add [of "2 :: nat" 23 "nat (p - e)"] by simp
    then have "2 ^ 23 \<le> a div 2 ^ nat (p - e)" by (simp add: less_eq_div_iff_mult_less_eq)
    then show ?thesis using False by (auto simp: m_def half_even_def Let_def)
  qed
  show ex: "real m * 2 powi p = real a * 2 powi e" if "p \<le> e"
    using that powi_split [OF that] by (simp add: m_def)
  show "2 * \<bar>real m * 2 powi p - real a * 2 powi e\<bar> \<le> 2 powi p"
  proof (cases "p \<le> e")
    case True
    then show ?thesis by (simp add: ex)
  next
    case False
    let ?s = "nat (p - e)"
    have "real_of_int (2 * \<bar>int (half_even a ?s) * 2 ^ ?s - int a\<bar>) \<le> real_of_int (2 ^ ?s)"
      using half_even_error by (simp only: of_int_le_iff)
    then have "2 * \<bar>real (half_even a ?s) * 2 ^ ?s - real a\<bar> \<le> 2 ^ ?s" by simp
    then have "2 * \<bar>real (half_even a ?s) * 2 ^ ?s - real a\<bar> * 2 powi e \<le> 2 ^ ?s * 2 powi e"
      by (rule mult_right_mono) simp
    moreover have "\<bar>real m * 2 powi p - real a * 2 powi e\<bar> = \<bar>real m * 2 ^ ?s - real a\<bar> * 2 powi e"
    proof -
      have "real m * 2 powi p - real a * 2 powi e = (real m * 2 ^ ?s - real a) * 2 powi e"
        using False powi_split [of e p] by (simp add: algebra_simps)
      then show ?thesis by (simp add: abs_mult)
    qed
    ultimately show ?thesis using False powi_split [of e p] by (simp add: m_def)
  qed
qed

lemma f32_round_error:
  assumes "a \<noteq> 0" "e + int (bit_length a) \<le> 127"
  shows "f32_finite (f32_round neg a e)"
    "2 * \<bar>f32_value (f32_round neg a e) - with_sign neg (real a * 2 powi e)\<bar> \<le> 2 powi last_place a e"
    "last_place a e \<le> e \<Longrightarrow> f32_value (f32_round neg a e) = with_sign neg (real a * 2 powi e)"
proof -
  let ?p = "last_place a e"
  let ?m = "if ?p \<le> e then a * 2 ^ nat (e - ?p) else half_even a (nat (?p - e))"
  note r = rounded_significand [OF assms(1), of e]
  have p: "- 149 \<le> ?p" "?p \<le> 103" using assms(2) by (auto simp: last_place_def)
  have lt: "nat (?p + 149) * 2 ^ 23 + ?m < 255 * 2 ^ 23" using r(1) p by (simp add: nat_less_iff nat_mult_distrib)
  have eq: "f32_round neg a e = f32_pack neg (nat (?p + 149) * 2 ^ 23 + ?m)"
    using assms(1) lt by (simp add: f32_round_def Let_def)
  have v: "f32_value (f32_round neg a e) = with_sign neg (real ?m * 2 powi ?p) \<and> f32_finite (f32_round neg a e)"
    unfolding eq using packed_value [of ?m "nat (?p + 149)" neg, OF _ _ lt] r p by simp
  show "f32_finite (f32_round neg a e)" using v by simp
  show "2 * \<bar>f32_value (f32_round neg a e) - with_sign neg (real a * 2 powi e)\<bar> \<le> 2 powi ?p"
    using v r(3) by simp
  show "f32_value (f32_round neg a e) = with_sign neg (real a * 2 powi e)" if "?p \<le> e" using v r(4) [OF that] by simp
qed

text \<open>At most 24 significant bits in the range of the normal and subnormal numbers: nothing is lost.\<close>

lemma f32_round_exact:
  assumes "a < 2 ^ 24" "- 149 \<le> e" "e \<le> 103"
  shows "f32_value (f32_round neg a e) = with_sign neg (real a * 2 powi e) \<and> f32_finite (f32_round neg a e)"
proof (cases "a = 0")
  case True
  then show ?thesis by (simp add: f32_round_def)
next
  case False
  have b: "bit_length a \<le> 24" using bit_length_le assms(1) by blast
  then show ?thesis using f32_round_error [OF False, of e neg] assms by (auto simp: last_place_def)
qed

subsection \<open>Exact results\<close>

text \<open>A real number that is an integer of \<open>k\<close> bits times \<open>2\<^sup>f\<close>.\<close>

definition fits :: "nat \<Rightarrow> int \<Rightarrow> real \<Rightarrow> bool" where
  "fits k f v \<longleftrightarrow> (\<exists>n. \<bar>n\<bar> < 2 ^ k \<and> v = real_of_int n * 2 powi f)"

lemma fits_mult:
  assumes "fits k f v" "fits l g w"
  shows "fits (k + l) (f + g) (v * w)"
proof -
  obtain m n where *: "\<bar>m\<bar> < 2 ^ k" "v = real_of_int m * 2 powi f" "\<bar>n\<bar> < 2 ^ l" "w = real_of_int n * 2 powi g"
    using assms by (auto simp: fits_def)
  then have "\<bar>m * n\<bar> < 2 ^ (k + l)" by (simp add: abs_mult power_add abs_mult_less)
  moreover have "v * w = real_of_int (m * n) * 2 powi (f + g)" using * by (simp add: power_int_add)
  ultimately show ?thesis unfolding fits_def by blast
qed

lemma fits_mono: "fits k f v \<Longrightarrow> k \<le> l \<Longrightarrow> fits l f v"
  unfolding fits_def by (metis less_le_trans one_le_numeral power_increasing)

lemma fits_minus: "fits k f v \<Longrightarrow> fits k f (- v)"
  unfolding fits_def by (metis abs_minus_cancel mult_minus_left of_int_minus)

lemma fits_with_sign [simp]: "fits k f (with_sign s v) \<longleftrightarrow> fits k f v"
  using fits_minus [of k f v] fits_minus [of k f "- v"] by (auto simp: with_sign_def)

lemma fits_of_int: "\<bar>n\<bar> < 2 ^ k \<Longrightarrow> fits k 0 (real_of_int n)"
  by (auto simp: fits_def)

lemma f32_round_fits:
  assumes v: "fits 24 f (real a * 2 powi e)" and f: "- 149 \<le> f" "f \<le> 103"
  shows "f32_value (f32_round neg a e) = with_sign neg (real a * 2 powi e) \<and> f32_finite (f32_round neg a e)"
proof (cases "a = 0")
  case True
  then show ?thesis by (simp add: f32_round_def)
next
  case False
  obtain n where n: "\<bar>n\<bar> < 2 ^ 24" "real a * 2 powi e = real_of_int n * 2 powi f" using v by (auto simp: fits_def)
  have "0 < real a * 2 powi e" using False by simp
  then have "0 < real_of_int n * 2 powi f" using n(2) by simp
  then have "0 < n" using zero_less_mult_pos2 [of "real_of_int n" "2 powi f"] by simp
  then obtain b where b: "n = int b" "b < 2 ^ 24" using n(1) zero_less_imp_eq_int [of n] by auto
  have eq: "real a * 2 powi e = real b * 2 powi f" using n b by simp
  let ?p = "last_place a e"
  show ?thesis
  proof (cases "f \<le> e")
    case True
    then have "real b = real (a * 2 ^ nat (e - f))" using eq powi_split [OF True] by simp
    then have ab: "b = a * 2 ^ nat (e - f)" by (simp only: of_nat_eq_iff)
    have "2 ^ (bit_length a - 1) * 2 ^ nat (e - f) < (2 :: nat) ^ 24"
      using bit_length_bounds [OF False] b(2) unfolding ab by (meson le_less_trans mult_le_mono1)
    then have "(2 :: nat) ^ (bit_length a - 1 + nat (e - f)) < 2 ^ 24" by (simp only: power_add)
    then have "bit_length a - 1 + nat (e - f) < 24" by (rule power_less_imp_less_exp [rotated]) simp
    then show ?thesis
      using f32_round_error [OF False, of e neg] f True bit_length_pos [OF False] by (simp add: last_place_def)
  next
    case fe: False
    then have "real a = real (b * 2 ^ nat (f - e))" using eq powi_split [of e f] by simp
    then have ab: "a = b * 2 ^ nat (f - e)" by (simp only: of_nat_eq_iff)
    have "a < 2 ^ (24 + nat (f - e))" using b(2) by (simp add: ab power_add)
    then have bl: "bit_length a \<le> 24 + nat (f - e)" by (rule bit_length_le)
    then have pf: "?p \<le> f" using f fe by (simp add: last_place_def)
    show ?thesis
    proof (cases "?p \<le> e")
      case True
      then show ?thesis using f32_round_error [OF False, of e neg] bl f fe by simp
    next
      case pe: False
      let ?s = "nat (?p - e)"
      have "nat (f - e) = nat (f - ?p) + ?s" using pf pe by linarith
      then have a2: "a = b * 2 ^ nat (f - ?p) * 2 ^ ?s" by (metis ab mult.assoc power_add)
      have h: "half_even a ?s = b * 2 ^ nat (f - ?p)" by (subst a2) (simp add: half_even_def)
      let ?m = "b * 2 ^ nat (f - ?p)"
      note r = rounded_significand [OF False, of e]
      have m: "?m \<le> 2 ^ 24" "- 149 < ?p \<Longrightarrow> 2 ^ 23 \<le> ?m" using r(1,2) pe h by simp_all
      have p: "- 149 \<le> ?p" "?p \<le> 103" using pf f by (auto simp: last_place_def)
      have lt: "nat (?p + 149) * 2 ^ 23 + ?m < 255 * 2 ^ 23" using m(1) p by (simp add: nat_less_iff nat_mult_distrib)
      have "f32_round neg a e = f32_pack neg (nat (?p + 149) * 2 ^ 23 + ?m)"
        using False pe h lt by (simp add: f32_round_def Let_def)
      moreover have "real ?m * 2 powi ?p = real a * 2 powi e" using eq powi_split [OF pf] by simp
      ultimately show ?thesis using packed_value [of ?m "nat (?p + 149)" neg, OF _ _ lt] m p by simp
    qed
  qed
qed

text \<open>The classes of finite floats.\<close>

lemma f32_finite_class:
  assumes "f32_finite w"
  obtains m e where "f32_class w = Finite (f32_neg w) m e" "f32_value w = with_sign (f32_neg w) (real m * 2 powi e)" "m < 2 ^ 24"
    "- 149 \<le> e" "e \<le> 104"
proof -
  have f: "f32_frac w < 2 ^ 23" by (simp add: f32_frac_def)
  have e: "f32_exp w < 255" using assms using mod_less_divisor [of "2 ^ 8" "unat w div 2 ^ 23"] by (simp add: f32_exp_def f32_finite_def)
  show thesis
  proof (cases "f32_exp w = 0")
    case True
    then show thesis using that [of "f32_frac w" "- 149"] f assms by (simp add: f32_class_def f32_value_def)
  next
    case False
    then show thesis using that [of "2 ^ 23 + f32_frac w" "int (f32_exp w) - 150"] f e assms
      by (simp add: f32_class_def f32_value_def f32_finite_def)
  qed
qed

lemma fmul_exact:
  assumes "f32_finite x" "f32_finite y" "fits 24 f (f32_value x * f32_value y)" "- 149 \<le> f" "f \<le> 103"
  shows "f32_value (fmul x y) = f32_value x * f32_value y \<and> f32_finite (fmul x y)"
proof -
  obtain m e where x: "f32_class x = Finite (f32_neg x) m e" "f32_value x = with_sign (f32_neg x) (real m * 2 powi e)"
    using f32_finite_class [OF assms(1)] by metis
  obtain n g where y: "f32_class y = Finite (f32_neg y) n g" "f32_value y = with_sign (f32_neg y) (real n * 2 powi g)"
    using f32_finite_class [OF assms(2)] by metis
  have v: "f32_value x * f32_value y = with_sign (f32_neg x \<noteq> f32_neg y) (real (m * n) * 2 powi (e + g))"
    using x y by (simp add: with_sign_mult power_int_add algebra_simps)
  have "fits 24 f (real (m * n) * 2 powi (e + g))"
    using assms(3) unfolding v by (simp add: fits_with_sign)
  then have "f32_value (f32_round (f32_neg x \<noteq> f32_neg y) (m * n) (e + g)) = with_sign (f32_neg x \<noteq> f32_neg y) (real (m * n) * 2 powi (e + g))
     \<and> f32_finite (f32_round (f32_neg x \<noteq> f32_neg y) (m * n) (e + g))"
    using assms(4,5) by (rule f32_round_fits)
  then show ?thesis using x y v by (simp add: fmul_def)
qed

lemma f32_of_int_exact:
  assumes "\<bar>n\<bar> < 2 ^ 24"
  shows "f32_value (f32_of_int n) = real_of_int n" "f32_finite (f32_of_int n)"
proof -
  have "nat \<bar>n\<bar> < 2 ^ 24" using assms by (simp add: nat_less_iff)
  then have "f32_value (f32_of_int n) = with_sign (n < 0) (real (nat \<bar>n\<bar>)) \<and> f32_finite (f32_of_int n)"
    using f32_round_exact [of "nat \<bar>n\<bar>" 0 "n < 0"] by (simp add: f32_of_int_def)
  then show "f32_value (f32_of_int n) = real_of_int n" "f32_finite (f32_of_int n)" by (simp_all add: with_sign_def)
qed

subsection \<open>The operations round the exact result\<close>

lemma exact_sum_value:
  "exact_sum s m e t n f = (v, p) \<Longrightarrow> with_sign s (real m * 2 powi e) + with_sign t (real n * 2 powi f) = real_of_int v * 2 powi p"
  using powi_split [of "min e f" e] powi_split [of "min e f" f]
  by (auto simp: exact_sum_def Let_def with_sign_def algebra_simps)

lemma fadd_finite:
  assumes "f32_finite x" "f32_finite y"
  obtains v p where "f32_value x + f32_value y = real_of_int v * 2 powi p"
    "v \<noteq> 0 \<Longrightarrow> fadd x y = f32_round (v < 0) (nat \<bar>v\<bar>) p" "v = 0 \<Longrightarrow> fadd x y = f32_pack (f32_neg x \<and> f32_neg y) 0"
    "- 149 \<le> p" "p \<le> 104"
proof -
  obtain m e where x: "f32_class x = Finite (f32_neg x) m e" "f32_value x = with_sign (f32_neg x) (real m * 2 powi e)" "- 149 \<le> e" "e \<le> 104"
    using f32_finite_class [OF assms(1)] by metis
  obtain n g where y: "f32_class y = Finite (f32_neg y) n g" "f32_value y = with_sign (f32_neg y) (real n * 2 powi g)" "- 149 \<le> g" "g \<le> 104"
    using f32_finite_class [OF assms(2)] by metis
  obtain v p where s: "exact_sum (f32_neg x) m e (f32_neg y) n g = (v, p)" by fastforce
  have "p = min e g" using s by (simp add: exact_sum_def Let_def)
  then show thesis using that [of v p] exact_sum_value [OF s] x y s by (simp add: fadd_def)
qed

lemma fadd_exact:
  assumes "f32_finite x" "f32_finite y" "fits 24 f (f32_value x + f32_value y)" "- 149 \<le> f" "f \<le> 103"
  shows "f32_value (fadd x y) = f32_value x + f32_value y \<and> f32_finite (fadd x y)"
proof -
  obtain v p where v: "f32_value x + f32_value y = real_of_int v * 2 powi p"
    "v \<noteq> 0 \<Longrightarrow> fadd x y = f32_round (v < 0) (nat \<bar>v\<bar>) p" "v = 0 \<Longrightarrow> fadd x y = f32_pack (f32_neg x \<and> f32_neg y) 0"
    using fadd_finite [OF assms(1,2)] by metis
  have s: "real_of_int v * 2 powi p = with_sign (v < 0) (real (nat \<bar>v\<bar>) * 2 powi p)" by (simp add: with_sign_def)
  show ?thesis
  proof (cases "v = 0")
    case False
    have "fits 24 f (real (nat \<bar>v\<bar>) * 2 powi p)" using assms(3) unfolding v(1) s by (simp only: fits_with_sign)
    from f32_round_fits [OF this assms(4,5), of "v < 0"] show ?thesis using v(1,2) s False by simp
  qed (use v in simp)
qed

text \<open>The fields as parts of the word.\<close>

lemma f32_neg_bit: "f32_neg w \<longleftrightarrow> bit w 31"
proof -
  have "unat w < 2 ^ 32" by (rule order_less_le_trans [OF unsigned_less]) simp
  then have "unat w div 2 ^ 31 < 2" by (simp add: less_mult_imp_div_less)
  moreover have "2 ^ 31 \<le> unat w \<longleftrightarrow> unat w div 2 ^ 31 \<noteq> 0" by (simp add: div_eq_0_iff not_less)
  ultimately have "2 ^ 31 \<le> unat w \<longleftrightarrow> odd (unat w div 2 ^ 31)" by (cases "unat w div 2 ^ 31") auto
  also have "\<dots> \<longleftrightarrow> bit (unat w) 31" by (rule bit_iff_odd [symmetric])
  also have "\<dots> \<longleftrightarrow> bit w 31" by (simp add: bit_unsigned_iff)
  finally show ?thesis by (simp add: f32_neg_def)
qed

lemma unat_drop_bit: "unat (drop_bit n w) = unat w div 2 ^ n"
  unfolding unat_drop_bit_eq by (rule drop_bit_eq_div)

lemma f32_exp_bits: "f32_exp w = unat (take_bit 8 (drop_bit 23 w))"
  by (simp only: f32_exp_def unsigned_take_bit_eq unat_drop_bit) (simp add: take_bit_eq_mod)

lemma f32_frac_bits: "f32_frac w = unat (take_bit 23 w)"
  by (simp only: f32_frac_def unsigned_take_bit_eq) (simp add: take_bit_eq_mod)

lemma fneg_fields: "f32_neg (fneg x) \<longleftrightarrow> \<not> f32_neg x" "f32_exp (fneg x) = f32_exp x" "f32_frac (fneg x) = f32_frac x"
proof -
  have s: "(0x80000000 :: 32 word) = push_bit 31 1" by simp
  have b: "bit (fneg x) n \<longleftrightarrow> (bit x n \<noteq> (n = 31))" for n
    unfolding fneg_def s bit_xor_iff bit_push_bit_iff bit_1_iff by (auto dest: bit_imp_le_length)
  show "f32_neg (fneg x) \<longleftrightarrow> \<not> f32_neg x" by (simp add: f32_neg_bit b)
  have "take_bit 8 (drop_bit 23 (fneg x)) = take_bit 8 (drop_bit 23 x)"
    by (rule bit_word_eqI) (auto simp: bit_simps b)
  then show "f32_exp (fneg x) = f32_exp x" by (simp add: f32_exp_bits)
  have "take_bit 23 (fneg x) = take_bit 23 x"
    by (rule bit_word_eqI) (auto simp: bit_simps b)
  then show "f32_frac (fneg x) = f32_frac x" by (simp add: f32_frac_bits)
qed

lemma fneg_value: "f32_value (fneg x) = - f32_value x" "f32_finite (fneg x) \<longleftrightarrow> f32_finite x"
  by (simp_all add: f32_value_def f32_class_def f32_finite_def fneg_fields Let_def with_sign_def)

text \<open>Product and sum of finite numbers are at most half a unit in the last place from the exact result.\<close>

lemma f32_value_round:
  assumes "a \<noteq> 0" "e + int (bit_length a) \<le> 127" "v = with_sign neg (real a * 2 powi e)"
  shows "f32_finite (f32_round neg a e)" "2 * \<bar>f32_value (f32_round neg a e) - v\<bar> \<le> 2 powi last_place a e"
  using f32_round_error [OF assms(1,2), of neg] assms(3) by simp_all

lemma last_place_bound:
  assumes "a \<noteq> 0"
  shows "last_place a e = - 149 \<or> 2 ^ 23 * 2 powi last_place a e \<le> real a * 2 powi e"
proof (cases "last_place a e = - 149")
  case False
  then have p: "last_place a e = e + int (bit_length a) - 24" by (simp add: last_place_def max_def split: if_splits)
  have "real (2 ^ (bit_length a - 1)) \<le> real a" using bit_length_bounds [OF assms] by (simp only: of_nat_le_iff)
  moreover have "2 ^ 23 * 2 powi last_place a e = (2 :: real) ^ (bit_length a - 1) * 2 powi e"
  proof -
    have "23 + last_place a e = int (bit_length a - 1) + e" using p bit_length_pos [OF assms] by simp
    then show ?thesis
      using power_int_add [of "2 :: real" 23 "last_place a e"] power_int_add [of "2 :: real" "int (bit_length a - 1)" e] by simp
  qed
  ultimately show ?thesis by simp
qed simp

text \<open>Relative error of a rounded result: one part in \<open>2\<^sup>2\<^sup>4\<close>, or half the smallest subnormal.\<close>

definition close :: "real \<Rightarrow> real \<Rightarrow> bool" where
  "close r v \<longleftrightarrow> \<bar>r - v\<bar> \<le> max (\<bar>v\<bar> / 2 ^ 24) (2 powi (- 150))"

lemma f32_round_close:
  assumes "a \<noteq> 0" "e + int (bit_length a) \<le> 127" "v = with_sign neg (real a * 2 powi e)"
  shows "close (f32_value (f32_round neg a e)) v"
proof -
  have "2 * \<bar>f32_value (f32_round neg a e) - v\<bar> \<le> 2 powi last_place a e" by (rule f32_value_round(2) [OF assms])
  moreover have "\<bar>v\<bar> = real a * 2 powi e" using assms(3) by simp
  moreover have "2 * 2 powi (- 150) = (2 :: real) powi (- 149)" using power_int_add [of "2 :: real" 1 "- 150"] by simp
  ultimately show ?thesis using last_place_bound [OF assms(1), of e] unfolding close_def by (auto simp: le_max_iff_disj field_simps)
qed

lemma bit_length_small: "real a * 2 powi e < 2 powi k \<Longrightarrow> a \<noteq> 0 \<Longrightarrow> e + int (bit_length a) \<le> k"
proof -
  assume lt: "real a * 2 powi e < 2 powi k" and a: "a \<noteq> 0"
  have "real (2 ^ (bit_length a - 1)) \<le> real a" using bit_length_bounds [OF a] by (simp only: of_nat_le_iff)
  then have "real (2 ^ (bit_length a - 1)) * 2 powi e \<le> real a * 2 powi e" by (rule mult_right_mono) simp
  then have "real (2 ^ (bit_length a - 1)) * 2 powi e < 2 powi k" using lt by (rule le_less_trans)
  then have "(2 :: real) powi (int (bit_length a - 1) + e) < 2 powi k" by (simp add: power_int_add)
  then have "int (bit_length a - 1) + e < k" using power_int_increasing [of k "int (bit_length a - 1) + e" "2 :: real"] by fastforce
  then show ?thesis using bit_length_pos [OF a] by linarith
qed

lemma fadd_close:
  assumes "f32_finite x" "f32_finite y" "\<bar>f32_value x + f32_value y\<bar> < 2 ^ 127"
  shows "f32_finite (fadd x y)" "close (f32_value (fadd x y)) (f32_value x + f32_value y)"
proof -
  obtain v p where v: "f32_value x + f32_value y = real_of_int v * 2 powi p"
    "v \<noteq> 0 \<Longrightarrow> fadd x y = f32_round (v < 0) (nat \<bar>v\<bar>) p" "v = 0 \<Longrightarrow> fadd x y = f32_pack (f32_neg x \<and> f32_neg y) 0"
    using fadd_finite [OF assms(1,2)] by metis
  have s: "real_of_int v * 2 powi p = with_sign (v < 0) (real (nat \<bar>v\<bar>) * 2 powi p)" by (simp add: with_sign_def)
  have "f32_finite (fadd x y) \<and> close (f32_value (fadd x y)) (f32_value x + f32_value y)"
  proof (cases "v = 0")
    case True
    then show ?thesis using v by (simp add: close_def)
  next
    case False
    have "real (nat \<bar>v\<bar>) * 2 powi p < 2 powi 127" using assms(3) unfolding v(1) by (simp add: abs_mult)
    then have "p + int (bit_length (nat \<bar>v\<bar>)) \<le> 127" using bit_length_small False by simp
    then show ?thesis using v(1,2) False s f32_round_close [of "nat \<bar>v\<bar>" p] f32_value_round [of "nat \<bar>v\<bar>" p] by simp
  qed
  then show "f32_finite (fadd x y)" "close (f32_value (fadd x y)) (f32_value x + f32_value y)" by simp_all
qed

lemma fsub_close:
  assumes "f32_finite x" "f32_finite y" "\<bar>f32_value x - f32_value y\<bar> < 2 ^ 127"
  shows "f32_finite (fsub x y)" "close (f32_value (fsub x y)) (f32_value x - f32_value y)"
  using fadd_close [of x "fneg y"] assms by (simp_all add: fsub_def fneg_value)

subsection \<open>Evaluation\<close>

lemma bit_length_numeral:
  "bit_length (numeral k) = Suc (bit_length (numeral k div 2))" "bit_length 0 = 0" "bit_length 1 = 1" "bit_length (Suc 0) = 1"
  by (simp_all add: bit_length.simps)

lemmas f32_field_defs = f32_class_def f32_neg_def f32_exp_def f32_frac_def
lemmas f32_op_defs = fmul_def fadd_def f32_round_def f32_pack_def last_place_def half_even_def exact_sum_def

end
