(* ===== verification/Float_Order.thy ===== *)
theory Float_Order
  imports Float32
begin

section \<open>The order of floats\<close>

text \<open>
  Rust's \<open><\<close> and \<open>>\<close> on \<open>f32\<close> and the conversion \<open>as f32\<close> from \<open>f64\<close>, which the scores of the tokenizer use. Read as
  sign and magnitude, the bits of two floats are ordered as their values are, infinities included; adding a finite
  float is monotone in this order.
\<close>

definition f32_nan_p :: "f32 \<Rightarrow> bool" where "f32_nan_p w \<longleftrightarrow> f32_class w = Nan"

definition f32_order :: "f32 \<Rightarrow> int" where
  "f32_order w = (if f32_neg w then - (int (unat w) - 2 ^ 31) else int (unat w))"

definition f32_less :: "f32 \<Rightarrow> f32 \<Rightarrow> bool" where
  "f32_less x y \<longleftrightarrow> \<not> f32_nan_p x \<and> \<not> f32_nan_p y \<and> f32_order x < f32_order y"

definition f32_of_f64 :: "64 word \<Rightarrow> f32" where
  "f32_of_f64 w =
     (let neg = 2 ^ 63 \<le> unat w; e = unat w div 2 ^ 52 mod 2 ^ 11; m = unat w mod 2 ^ 52 in
      if e = 2047 then (if m = 0 then f32_infinity neg else f32_nan)
      else if e = 0 then f32_round neg m (- 1074)
      else f32_round neg (2 ^ 52 + m) (int e - 1075))"

subsection \<open>The magnitude of a rounded number\<close>

text \<open>The exponent and significand bits that \<open>f32_round\<close> packs; the greatest are those of infinity.\<close>

abbreviation top_bits :: nat where "top_bits \<equiv> 255 * 2 ^ 23"

definition round_bits :: "nat \<Rightarrow> int \<Rightarrow> nat" where
  "round_bits a e =
     (if a = 0 then 0
      else
        let p = last_place a e;
            m = (if p \<le> e then a * 2 ^ nat (e - p) else half_even a (nat (p - e)))
        in min (nat (p + 149) * 2 ^ 23 + m) top_bits)"

lemma f32_round_bits: "f32_round neg a e = f32_pack neg (round_bits a e)"
  by (simp add: f32_round_def round_bits_def Let_def)

lemma round_bits_le: "round_bits a e \<le> top_bits"
  by (simp add: round_bits_def Let_def)

lemma half_even_mono:
  assumes "a \<le> b"
  shows "half_even a s \<le> half_even b s"
proof (cases "a div 2 ^ s = b div 2 ^ s")
  case True
  then have "a mod 2 ^ s \<le> b mod 2 ^ s"
    using assms div_mult_mod_eq [of a "2 ^ s"] div_mult_mod_eq [of b "2 ^ s"] by (metis add_le_cancel_left)
  then show ?thesis using True by (auto simp: half_even_def Let_def)
next
  case False
  then have "a div 2 ^ s < b div 2 ^ s" using div_le_mono [OF assms, of "2 ^ s"] by simp
  then show ?thesis by (auto simp: half_even_def Let_def)
qed

lemma half_even_scale: "half_even (a * 2 ^ k) (s + k) = half_even a s"
proof -
  have d: "a * 2 ^ k div 2 ^ (s + k) = a div 2 ^ s" by (simp add: power_add)
  have m: "a * 2 ^ k mod 2 ^ (s + k) = (a mod 2 ^ s) * 2 ^ k" by (simp add: power_add mult_mod_left)
  have less: "2 * ((a mod 2 ^ s) * 2 ^ k) < 2 ^ (s + k) \<longleftrightarrow> 2 * (a mod 2 ^ s) < 2 ^ s"
    by (simp add: power_add flip: mult.assoc)
  have eq: "2 * ((a mod 2 ^ s) * 2 ^ k) = 2 ^ (s + k) \<longleftrightarrow> 2 * (a mod 2 ^ s) = 2 ^ s"
    by (simp add: power_add flip: mult.assoc)
  show ?thesis unfolding half_even_def Let_def d m less eq ..
qed

lemma bit_length_scale:
  assumes "a \<noteq> 0"
  shows "bit_length (a * 2 ^ k) = bit_length a + k"
proof (induction k)
  case (Suc k)
  have "a * 2 ^ Suc k div 2 = a * 2 ^ k" by simp
  moreover have "a * 2 ^ Suc k \<noteq> 0" using assms by simp
  ultimately show ?case using Suc bit_length.simps [of "a * 2 ^ Suc k"] by simp
qed simp

lemma bit_length_mono: "a \<le> b \<Longrightarrow> bit_length a \<le> bit_length b"
proof (cases "a = 0")
  case False
  assume ab: "a \<le> b"
  then have "b \<noteq> 0" using False by simp
  then have "a < 2 ^ bit_length b" using ab bit_length_bounds [of b] by simp
  then show ?thesis by (rule bit_length_le)
qed simp

text \<open>The same number over a smaller power of two.\<close>

lemma round_bits_scale: "round_bits (a * 2 ^ k) (e - int k) = round_bits a e"
proof (cases "a = 0")
  case False
  have p: "last_place (a * 2 ^ k) (e - int k) = last_place a e"
    unfolding last_place_def bit_length_scale [OF False] by simp
  let ?p = "last_place a e"
  consider "?p \<le> e - int k" | "e - int k < ?p" "?p \<le> e" | "e < ?p" by linarith
  then show ?thesis
  proof cases
    case 1
    then have "nat (e - ?p) = k + nat (e - int k - ?p)" by linarith
    then have "a * 2 ^ k * 2 ^ nat (e - int k - ?p) = a * 2 ^ nat (e - ?p)" by (simp only: power_add mult.assoc)
    then show ?thesis using 1 False by (simp only: round_bits_def p Let_def mult_eq_0_iff power_not_zero) simp
  next
    case 2
    define s where "s = nat (?p - (e - int k))"
    have k: "k = nat (e - ?p) + s" using 2 by (simp add: s_def)
    have "half_even (a * 2 ^ k) s = half_even (a * 2 ^ nat (e - ?p)) 0"
      using half_even_scale [of "a * 2 ^ nat (e - ?p)" s 0] by (simp add: k power_add mult.assoc)
    then show ?thesis using 2 False by (simp add: round_bits_def p Let_def s_def)
  next
    case 3
    then have "nat (?p - (e - int k)) = nat (?p - e) + k" by linarith
    then have "half_even (a * 2 ^ k) (nat (?p - (e - int k))) = half_even a (nat (?p - e))" by (simp only: half_even_scale)
    then show ?thesis using 3 False by (simp add: round_bits_def p Let_def)
  qed
qed (simp add: round_bits_def)

text \<open>Over a power of two that is at most the last place, the significand is the half-even quotient.\<close>

lemma round_bits_small:
  assumes "e \<le> - 149" and "a \<noteq> 0"
  shows "round_bits a e = min (nat (last_place a e + 149) * 2 ^ 23 + half_even a (nat (last_place a e - e))) top_bits"
proof -
  have "e \<le> last_place a e" using assms(1) by (simp add: last_place_def)
  then show ?thesis using assms(2) by (auto simp: round_bits_def Let_def)
qed

lemma small_significand:
  assumes "e \<le> - 149" and "a \<noteq> 0"
  shows "half_even a (nat (last_place a e - e)) \<le> 2 ^ 24"
    "- 149 < last_place a e \<Longrightarrow> 2 ^ 23 \<le> half_even a (nat (last_place a e - e))"
proof -
  have "e \<le> last_place a e" using assms(1) by (simp add: last_place_def)
  then have "half_even a (nat (last_place a e - e)) =
      (if last_place a e \<le> e then a * 2 ^ nat (e - last_place a e) else half_even a (nat (last_place a e - e)))" by auto
  then show "half_even a (nat (last_place a e - e)) \<le> 2 ^ 24"
    "- 149 < last_place a e \<Longrightarrow> 2 ^ 23 \<le> half_even a (nat (last_place a e - e))"
    using rounded_significand(1,2) [OF assms(2), of e] by simp_all
qed

lemma round_bits_mono_same:
  assumes e: "e \<le> - 149" and ab: "a \<le> b"
  shows "round_bits a e \<le> round_bits b e"
proof (cases "a = 0")
  case False
  then have b: "b \<noteq> 0" using ab by simp
  let ?p = "last_place a e" and ?q = "last_place b e"
  let ?m = "half_even a (nat (?p - e))" and ?n = "half_even b (nat (?q - e))"
  have pq: "?p \<le> ?q" "- 149 \<le> ?p" using bit_length_mono [OF ab] by (auto simp: last_place_def)
  have "nat (?p + 149) * 2 ^ 23 + ?m \<le> nat (?q + 149) * 2 ^ 23 + ?n"
  proof (cases "?p = ?q")
    case True
    then show ?thesis using half_even_mono [OF ab] by simp
  next
    case less: False
    then have "nat (?q + 149) = nat (?p + 149) + nat (?q - ?p)" "1 \<le> nat (?q - ?p)" using pq by linarith+
    then have "nat (?p + 149) * 2 ^ 23 + 2 ^ 23 \<le> nat (?q + 149) * 2 ^ 23" by simp
    moreover have "?m \<le> 2 ^ 24" "2 ^ 23 \<le> ?n"
      using small_significand [OF e False] small_significand(2) [OF e b] less pq by simp_all
    ultimately show ?thesis by simp
  qed
  then show ?thesis using round_bits_small [OF e] False b by (simp add: min_le_iff_disj le_max_iff_disj min.coboundedI1)
qed (simp add: round_bits_def)

lemma round_bits_mono:
  assumes "real a * 2 powi e \<le> real b * 2 powi f"
  shows "round_bits a e \<le> round_bits b f"
proof -
  define g where "g = min (min e f) (- 149)"
  have g: "g \<le> e" "g \<le> f" "g \<le> - 149" by (auto simp: g_def)
  have "real (a * 2 ^ nat (e - g)) * 2 powi g \<le> real (b * 2 ^ nat (f - g)) * 2 powi g"
    using assms powi_split [OF g(1)] powi_split [OF g(2)] by simp
  then have "a * 2 ^ nat (e - g) \<le> b * 2 ^ nat (f - g)"
    by (simp only: mult_le_cancel_right zero_less_power_int of_nat_le_iff)
  then have "round_bits (a * 2 ^ nat (e - g)) g \<le> round_bits (b * 2 ^ nat (f - g)) g" by (rule round_bits_mono_same [OF g(3)])
  then show ?thesis using round_bits_scale [of a "nat (e - g)" e] round_bits_scale [of b "nat (f - g)" f] g by simp
qed

subsection \<open>The order and the values\<close>

lemma order_pack: "x \<le> top_bits \<Longrightarrow> f32_order (f32_pack neg x) = (if neg then - int x else int x)"
proof -
  assume x: "x \<le> top_bits"
  have u: "unat (f32_pack neg x) = (if neg then 2 ^ 31 else 0) + x"
  proof -
    have "(if neg then 2 ^ 31 else 0) + x < 2 ^ LENGTH(32)" using x by auto
    then show ?thesis unfolding f32_pack_def by (simp only: unsigned_of_nat take_bit_nat_eq_self of_nat_id)
  qed
  then have "f32_neg (f32_pack neg x) = neg" using x by (auto simp: f32_neg_def)
  then show ?thesis unfolding f32_order_def u by simp
qed

lemma order_fields: "f32_order w = (if f32_neg w then - 1 else 1) * int (f32_exp w * 2 ^ 23 + f32_frac w)"
proof -
  have w: "unat w < 2 ^ 32" by (rule order_less_le_trans [OF unsigned_less]) simp
  have "unat w mod 2 ^ 31 = f32_exp w * 2 ^ 23 + f32_frac w"
    using mod_mult2_eq [of "unat w" "2 ^ 23" "2 ^ 8"] by (simp add: f32_exp_def f32_frac_def)
  moreover have "unat w mod 2 ^ 31 = (if f32_neg w then unat w - 2 ^ 31 else unat w)"
    using w by (simp add: f32_neg_def le_mod_geq)
  ultimately show ?thesis by (auto simp: f32_order_def f32_neg_def of_nat_diff)
qed

lemma abs_order: "nat \<bar>f32_order w\<bar> = f32_exp w * 2 ^ 23 + f32_frac w"
  by (cases "f32_neg w")
    (simp_all only: order_fields if_True if_False mult_minus1 mult_1 abs_minus_cancel abs_of_nat nat_int)

lemma field_bounds: "f32_exp w \<le> 255" "f32_frac w < 2 ^ 23"
  using mod_less_divisor [of "2 ^ 8" "unat w div 2 ^ 23"] by (simp_all add: f32_exp_def f32_frac_def)

lemma nan_order: "f32_nan_p w \<longleftrightarrow> top_bits < nat \<bar>f32_order w\<bar>"
proof -
  have "f32_nan_p w \<longleftrightarrow> f32_exp w = 255 \<and> f32_frac w \<noteq> 0" by (auto simp: f32_nan_p_def f32_class_def Let_def)
  also have "\<dots> \<longleftrightarrow> 255 * 2 ^ 23 < f32_exp w * 2 ^ 23 + f32_frac w" using field_bounds [of w] by auto
  finally show ?thesis by (simp only: abs_order)
qed

lemma finite_not_nan: "f32_finite w \<Longrightarrow> \<not> f32_nan_p w"
  by (auto simp: f32_finite_def f32_nan_p_def f32_class_def Let_def)

lemma not_nan_cases:
  assumes "\<not> f32_nan_p w"
  obtains (finite) "f32_finite w" | (infinite) neg where "f32_class w = Infinite neg"
    "f32_order w = (if neg then - int top_bits else int top_bits)"
  using assms that order_fields [of w] by (auto simp: f32_finite_def f32_nan_p_def f32_class_def Let_def split: if_splits)

lemma packed_not_nan: "x \<le> top_bits \<Longrightarrow> \<not> f32_nan_p (f32_pack neg x)"
  by (simp add: nan_order order_pack)

definition signed_bits :: "int \<Rightarrow> int \<Rightarrow> int" where
  "signed_bits v p = (if v < 0 then - int (round_bits (nat \<bar>v\<bar>) p) else int (round_bits (nat \<bar>v\<bar>) p))"

lemma signed_bits_mono:
  assumes "real_of_int u * 2 powi p \<le> real_of_int v * 2 powi q"
  shows "signed_bits u p \<le> signed_bits v q"
proof -
  have abs: "real (nat \<bar>x\<bar>) = \<bar>real_of_int x\<bar>" for x by simp
  consider "u < 0" "v < 0" | "u < 0" "0 \<le> v" | "0 \<le> u" "0 \<le> v" | "0 \<le> u" "v < 0" by linarith
  then show ?thesis
  proof cases
    case 1
    then have "real (nat \<bar>v\<bar>) * 2 powi q \<le> real (nat \<bar>u\<bar>) * 2 powi p" using assms unfolding abs by simp
    from round_bits_mono [OF this] show ?thesis using 1 by (simp add: signed_bits_def)
  next
    case 3
    then have "real (nat \<bar>u\<bar>) * 2 powi p \<le> real (nat \<bar>v\<bar>) * 2 powi q" using assms unfolding abs by simp
    from round_bits_mono [OF this] show ?thesis using 3 by (simp add: signed_bits_def)
  next
    case 4
    then have "real_of_int v * 2 powi q < 0" "0 \<le> real_of_int u * 2 powi p" by (simp_all add: mult_neg_pos)
    then show ?thesis using assms by linarith
  qed (simp add: signed_bits_def)
qed

lemma signed_bits_order:
  "f32_order (if v = 0 then f32_pack s 0 else f32_round (v < 0) (nat \<bar>v\<bar>) p) = signed_bits v p"
  using order_pack [OF round_bits_le] by (simp add: order_pack signed_bits_def f32_round_bits round_bits_def [of 0])

text \<open>A finite float is the rounding of its own value, and its order gives its value back.\<close>

lemma finite_order:
  assumes "f32_finite w"
  obtains v p where "f32_value w = real_of_int v * 2 powi p" "f32_order w = signed_bits v p"
proof -
  have e: "f32_exp w < 255" using assms field_bounds(1) [of w] by (simp add: f32_finite_def)
  have own: "round_bits m p = f32_exp w * 2 ^ 23 + f32_frac w"
    if "f32_class w = Finite s m p" for s m p
  proof (cases "f32_exp w = 0")
    case True
    then have m: "m = f32_frac w" "p = - 149" using that by (simp_all add: f32_class_def Let_def)
    then have "bit_length m \<le> 23" using field_bounds(2) [of w] bit_length_le by simp
    then have "last_place m p = - 149" using m by (simp add: last_place_def)
    then show ?thesis using True m field_bounds(2) [of w] by (simp add: round_bits_def)
  next
    case False
    then have m: "m = 2 ^ 23 + f32_frac w" "p = int (f32_exp w) - 150" using that e by (auto simp: f32_class_def Let_def)
    have "bit_length m \<le> 24" using field_bounds(2) [of w] m(1) by (intro bit_length_le) simp
    moreover have "\<not> bit_length m \<le> 23"
    proof
      assume "bit_length m \<le> 23"
      then have "(2 :: nat) ^ bit_length m \<le> 2 ^ 23" by (intro power_increasing) simp_all
      then show False using bit_length_bounds [of m] m(1) by simp
    qed
    ultimately have "bit_length m = 24" by linarith
    then have "last_place m p = p" using m False by (simp add: last_place_def)
    moreover have "nat (p + 149) = f32_exp w - 1" using m False by simp
    ultimately have "round_bits m p = min ((f32_exp w - 1) * 2 ^ 23 + m) top_bits" using m by (simp add: round_bits_def)
    moreover obtain k where "f32_exp w = Suc k" using False by (cases "f32_exp w") auto
    ultimately show ?thesis using m e field_bounds(2) [of w] by (simp add: min_def)
  qed
  obtain m p where w: "f32_class w = Finite (f32_neg w) m p" "f32_value w = with_sign (f32_neg w) (real m * 2 powi p)"
    using f32_finite_class [OF assms] by metis
  let ?v = "if f32_neg w then - int m else int m"
  show thesis
  proof (rule that [of ?v p])
    show "f32_value w = real_of_int ?v * 2 powi p" using w by (simp add: with_sign_def)
    show "f32_order w = signed_bits ?v p"
      using order_fields [of w] own [OF w(1)] by (cases "m = 0") (simp_all add: signed_bits_def round_bits_def [of 0])
  qed
qed

lemma value_of_order:
  assumes "f32_finite w"
  shows "f32_value w = with_sign (f32_order w < 0)
    (let x = nat \<bar>f32_order w\<bar> in
     if x < 2 ^ 23 then real x * 2 powi (- 149) else real (2 ^ 23 + x mod 2 ^ 23) * 2 powi (int (x div 2 ^ 23) - 150))"
proof -
  let ?x = "f32_exp w * 2 ^ 23 + f32_frac w"
  have fields: "?x mod 2 ^ 23 = f32_frac w" "?x div 2 ^ 23 = f32_exp w" "?x < 2 ^ 23 \<longleftrightarrow> f32_exp w = 0"
    using field_bounds(2) [of w] by auto
  have sign: "f32_order w < 0 \<longleftrightarrow> f32_neg w \<and> ?x \<noteq> 0" using order_fields [of w] by auto
  show ?thesis unfolding Let_def abs_order fields sign
    using assms by (auto simp: f32_value_def f32_class_def f32_finite_def Let_def with_sign_def)
qed

lemma order_value:
  assumes "f32_finite x" "f32_finite y"
  shows "f32_order x \<le> f32_order y \<longleftrightarrow> f32_value x \<le> f32_value y"
proof -
  have mono: "f32_order a \<le> f32_order b" if "f32_finite a" "f32_finite b" "f32_value a \<le> f32_value b" for a b
    using finite_order [OF that(1)] finite_order [OF that(2)] signed_bits_mono that(3) by metis
  show ?thesis
  proof
    assume le: "f32_order x \<le> f32_order y"
    show "f32_value x \<le> f32_value y"
    proof (rule ccontr)
      assume "\<not> f32_value x \<le> f32_value y"
      then have "f32_order y \<le> f32_order x" using mono [OF assms(2,1)] by simp
      then have "f32_order x = f32_order y" using le by simp
      then have "f32_value x = f32_value y" using value_of_order [OF assms(1)] value_of_order [OF assms(2)] by simp
      then show False using \<open>\<not> f32_value x \<le> f32_value y\<close> by simp
    qed
  qed (rule mono [OF assms])
qed

text \<open>On numbers the comparison is that of their values; infinity is beyond every number, and nothing compares with NaN.\<close>

lemma f32_less_value: "f32_finite x \<Longrightarrow> f32_finite y \<Longrightarrow> f32_less x y \<longleftrightarrow> f32_value x < f32_value y"
  using order_value [of y x] by (auto simp: f32_less_def finite_not_nan not_le [symmetric])

subsection \<open>Adding a finite float\<close>

lemma fadd_order:
  assumes "f32_finite x" "f32_finite s"
  obtains v p where "f32_value x + f32_value s = real_of_int v * 2 powi p" "f32_order (fadd x s) = signed_bits v p"
    "\<not> f32_nan_p (fadd x s)"
proof -
  obtain v p where v: "f32_value x + f32_value s = real_of_int v * 2 powi p"
    "v \<noteq> 0 \<Longrightarrow> fadd x s = f32_round (v < 0) (nat \<bar>v\<bar>) p" "v = 0 \<Longrightarrow> fadd x s = f32_pack (f32_neg x \<and> f32_neg s) 0"
    using fadd_finite [OF assms] by metis
  have eq: "fadd x s = (if v = 0 then f32_pack (f32_neg x \<and> f32_neg s) 0 else f32_round (v < 0) (nat \<bar>v\<bar>) p)" using v by simp
  show thesis
  proof (rule that [OF v(1)])
    show "f32_order (fadd x s) = signed_bits v p" unfolding eq by (rule signed_bits_order)
    show "\<not> f32_nan_p (fadd x s)" unfolding eq f32_round_bits
      using packed_not_nan [OF round_bits_le] packed_not_nan [of 0] by simp
  qed
qed

lemma fadd_infinite: "f32_class x = Infinite neg \<Longrightarrow> f32_finite s \<Longrightarrow> fadd x s = f32_infinity neg"
  by (rule f32_finite_class [of s]) (simp_all add: fadd_def)

lemma infinity_order: "f32_order (f32_infinity neg) = (if neg then - int top_bits else int top_bits)" "\<not> f32_nan_p (f32_infinity neg)"
  by (simp_all add: f32_infinity_def order_pack packed_not_nan)

lemma fadd_not_nan: "\<not> f32_nan_p x \<Longrightarrow> f32_finite s \<Longrightarrow> \<not> f32_nan_p (fadd x s)"
  by (erule not_nan_cases) (metis fadd_order, simp add: fadd_infinite infinity_order)

lemma order_bounds: "\<not> f32_nan_p w \<Longrightarrow> - int top_bits \<le> f32_order w \<and> f32_order w \<le> int top_bits"
  unfolding nan_order by linarith

lemma fadd_mono:
  assumes x: "\<not> f32_nan_p x" and y: "\<not> f32_nan_p y" and s: "f32_finite s" and le: "f32_order x \<le> f32_order y"
  shows "f32_order (fadd x s) \<le> f32_order (fadd y s)"
  using x
proof (cases rule: not_nan_cases)
  case xf: finite
  show ?thesis
    using y
  proof (cases rule: not_nan_cases)
    case yf: finite
    obtain u p where u: "f32_value x + f32_value s = real_of_int u * 2 powi p" "f32_order (fadd x s) = signed_bits u p"
      using fadd_order [OF xf s] by metis
    obtain v q where v: "f32_value y + f32_value s = real_of_int v * 2 powi q" "f32_order (fadd y s) = signed_bits v q"
      using fadd_order [OF yf s] by metis
    have "f32_value x \<le> f32_value y" using order_value [OF xf yf] le by simp
    then have "real_of_int u * 2 powi p \<le> real_of_int v * 2 powi q" using u(1) v(1) by linarith
    then show ?thesis unfolding u(2) v(2) by (rule signed_bits_mono)
  next
    case (infinite neg)
    have "neg = False"
    proof (rule ccontr)
      assume "neg \<noteq> False"
      then have "f32_order x = - int top_bits" using infinite(2) le order_bounds [OF x] by simp
      then have "f32_exp x * 2 ^ 23 + f32_frac x = top_bits" using abs_order [of x] by simp
      then show False using xf field_bounds [of x] by (auto simp: f32_finite_def)
    qed
    then show ?thesis using order_bounds [OF fadd_not_nan [OF x s]] fadd_infinite [OF infinite(1) s] by (simp add: infinity_order)
  qed
next
  case (infinite neg)
  show ?thesis
  proof (cases neg)
    case True
    then show ?thesis using order_bounds [OF fadd_not_nan [OF y s]] fadd_infinite [OF infinite(1) s] by (simp add: infinity_order)
  next
    case False
    then have top: "f32_order y = int top_bits" using infinite(2) le order_bounds [OF y] by simp
    show ?thesis
      using y
    proof (cases rule: not_nan_cases)
      case finite
      have "f32_exp y * 2 ^ 23 + f32_frac y = top_bits" using top abs_order [of y] by simp
      then show ?thesis using finite field_bounds [of y] by (auto simp: f32_finite_def)
    next
      case (infinite neg')
      then have "neg' = False" using top by (cases neg') simp_all
      then show ?thesis using False fadd_infinite [OF infinite(1) s] fadd_infinite [OF \<open>f32_class x = Infinite neg\<close> s] by simp
    qed
  qed
qed

subsection \<open>Comparing scores\<close>

text \<open>\<open>f32::NEG_INFINITY\<close>, and \<open><=\<close>: false when either side is NaN.\<close>

definition NEG_INFINITY :: f32 where "NEG_INFINITY = 0xFF800000"

definition f32_le :: "f32 \<Rightarrow> f32 \<Rightarrow> bool" where
  "f32_le x y \<longleftrightarrow> \<not> f32_nan_p x \<and> \<not> f32_nan_p y \<and> f32_order x \<le> f32_order y"

lemma f32_less_irrefl [simp]: "\<not> f32_less x x" by (simp add: f32_less_def)

lemma f32_le_refl: "\<not> f32_nan_p x \<Longrightarrow> f32_le x x" by (simp add: f32_le_def)

lemma f32_le_trans: "f32_le x y \<Longrightarrow> f32_le y z \<Longrightarrow> f32_le x z" by (simp add: f32_le_def)

lemma f32_le_not_less: "f32_le x y \<longleftrightarrow> \<not> f32_nan_p x \<and> \<not> f32_nan_p y \<and> \<not> f32_less y x"
  by (auto simp: f32_le_def f32_less_def)

lemma f32_le_value: "f32_finite x \<Longrightarrow> f32_finite y \<Longrightarrow> f32_le x y \<longleftrightarrow> f32_value x \<le> f32_value y"
  by (simp add: f32_le_def finite_not_nan order_value)

lemma f32_le_fadd: "f32_le x y \<Longrightarrow> f32_finite s \<Longrightarrow> f32_le (fadd x s) (fadd y s)"
  by (simp add: f32_le_def fadd_not_nan fadd_mono)

lemma zero_number: "f32_finite 0" "\<not> f32_nan_p 0"
  by (simp_all add: f32_finite_def f32_exp_def f32_nan_p_def f32_field_defs)

lemma neg_infinity_class: "f32_class NEG_INFINITY = Infinite True"
  by (simp add: NEG_INFINITY_def f32_field_defs)

lemma neg_infinity_bits: "f32_infinity True = NEG_INFINITY"
  by (simp add: NEG_INFINITY_def f32_infinity_def f32_pack_def)

lemma neg_infinity_order: "f32_order NEG_INFINITY = - int top_bits" "\<not> f32_nan_p NEG_INFINITY"
  using infinity_order [of True] by (simp_all add: neg_infinity_bits)

lemma neg_infinity_fadd: "f32_finite s \<Longrightarrow> fadd NEG_INFINITY s = NEG_INFINITY"
  using fadd_infinite [OF neg_infinity_class] by (simp add: neg_infinity_bits)

lemma neg_infinity_least: "\<not> f32_nan_p x \<Longrightarrow> f32_le NEG_INFINITY x"
  using order_bounds [of x] by (simp add: f32_le_def neg_infinity_order)

lemma below_neg_infinity:
  assumes "f32_le x NEG_INFINITY"
  shows "x = NEG_INFINITY"
proof -
  have "f32_order x = - int top_bits"
    using assms order_bounds [of x] by (simp add: f32_le_def neg_infinity_order)
  moreover have "f32_neg x"
  proof (rule ccontr)
    assume "\<not> f32_neg x"
    then have "0 \<le> f32_order x" by (simp add: f32_order_def)
    then show False using calculation by simp
  qed
  ultimately have "int (unat x) - 2 ^ 31 = int top_bits" unfolding f32_order_def by (simp only: if_True)
  then have "int (unat x) = int (2 ^ 31 + top_bits)" by simp
  then have "unat x = 2 ^ 31 + top_bits" by (simp only: of_nat_eq_iff)
  then have "unat x = unat NEG_INFINITY" by (simp add: NEG_INFINITY_def)
  then show ?thesis by (simp only: unsigned_word_eqI)
qed

end
