(* ===== verification/Tokenizer.thy ===== *)
theory Tokenizer
  imports Unicode_Text Float_Order "HOL-Library.AList"
begin

section \<open>The tokenizer\<close>

text \<open>
  \<open>crates/ramforge-core/src/tokenizer.rs\<close>: the vocabulary read from the metadata of a model, encoding
  (special tokens, SentencePiece by dynamic programming, byte pair merges, greedy matching) and the
  stateful decoder. The scores are \<open>f32\<close> values with the sum of \<open>Float32\<close> and the order of
  \<open>Float_Order\<close>. A hash map of the struct is a map, or an association list where the code asks whether it is empty.
\<close>

subsection \<open>The vocabulary\<close>

datatype token_type = TokenNormal | TokenUnknown | TokenControl | TokenUserDefined | TokenUnused | TokenByte

definition token_type_from_i32 :: "32 word \<Rightarrow> token_type" where
  "token_type_from_i32 v =
     (if v = 2 then TokenUnknown else if v = 3 then TokenControl else if v = 4 then TokenUserDefined
      else if v = 5 then TokenUnused else if v = 6 then TokenByte else TokenNormal)"

definition gpt2_char_to_byte :: "nat \<Rightarrow> nat option" where
  "gpt2_char_to_byte cp =
     (if (33 \<le> cp \<and> cp \<le> 126) \<or> (161 \<le> cp \<and> cp \<le> 172) \<or> (174 \<le> cp \<and> cp \<le> 255) then Some cp
      else if 256 \<le> cp \<and> cp \<le> 288 then Some (cp - 256)
      else if 289 \<le> cp \<and> cp \<le> 322 then Some (127 + (cp - 289))
      else if cp = 323 then Some 173
      else None)"

fun gpt2_token_bytes :: "ustring \<Rightarrow> nat list option" where
  "gpt2_token_bytes [] = Some []"
| "gpt2_token_bytes (c # cs) =
     (case gpt2_char_to_byte c of
        None \<Rightarrow> None
      | Some b \<Rightarrow> (case gpt2_token_bytes cs of None \<Rightarrow> None | Some bs \<Rightarrow> Some (b # bs)))"

record tokenizer =
  tk_model :: string
  tk_pre :: "string option"
  tk_tokens :: "ustring list"
  tk_scores :: "f32 list"
  tk_token_types :: "token_type list"
  tk_merges :: "ustring list option"
  tk_bos_id :: "nat option"
  tk_eos_id :: "nat option"
  tk_unk_id :: "nat option"
  tk_pad_id :: "nat option"
  tk_add_bos :: bool
  tk_add_eos :: bool
  tk_token_to_id :: "ustring \<rightharpoonup> nat"
  tk_merges_rank :: "((ustring \<times> ustring) \<times> usize) list"
  tk_byte_tokens :: "nat \<rightharpoonup> nat"
  tk_special_tokens :: "(ustring \<times> nat) list"

definition nth_opt :: "'a list \<Rightarrow> nat \<Rightarrow> 'a option" where
  "nth_opt xs i = (if i < length xs then Some (xs ! i) else None)"

text \<open>The vocabulary of a model\<close>

fun token_strings :: "metadata_value list \<Rightarrow> (ustring list, string) result" where
  "token_strings [] = Ok []"
| "token_strings (v # vs) =
     (case as_string v of
        Some s \<Rightarrow> rbind (token_strings vs) (\<lambda>ts. Ok (chars_of s # ts))
      | None \<Rightarrow> Err ''token value not a string'')"

fun score_of_value :: "metadata_value \<Rightarrow> f32" where
  "score_of_value (Float32 w) = w"
| "score_of_value (Float64 w) = f32_of_f64 w"
| "score_of_value (Int32 w) = f32_of_int (sint w)"
| "score_of_value (UInt32 w) = f32_of_int (uint w)"
| "score_of_value _ = 0"

fun type_of_value :: "metadata_value \<Rightarrow> token_type" where
  "type_of_value (Int32 w) = token_type_from_i32 w"
| "type_of_value (UInt32 w) = token_type_from_i32 w"
| "type_of_value (Int64 w) = token_type_from_i32 (ucast w)"
| "type_of_value _ = token_type_from_i32 1"

definition metadata_array :: "gguf_model \<Rightarrow> string \<Rightarrow> metadata_value list option" where
  "metadata_array g key = Option.bind (get_metadata g key) (\<lambda>v. map_option snd (as_array v))"

definition metadata_id :: "metadata_value option \<Rightarrow> nat option" where
  "metadata_id v = map_option (\<lambda>n. n mod 2 ^ 32) (Option.bind v as_u64)"

definition enumerate_u32 :: "'a list \<Rightarrow> ('a \<times> nat) list" where
  "enumerate_u32 xs = zip xs (map (\<lambda>i. i mod 2 ^ 32) [0..<length xs])"

definition insert_new :: "('k \<times> 'v) \<Rightarrow> ('k \<rightharpoonup> 'v) \<Rightarrow> ('k \<rightharpoonup> 'v)" where
  "insert_new e m = (if m (fst e) = None then m(fst e \<mapsto> snd e) else m)"

definition build_token_to_id :: "ustring list \<Rightarrow> ustring \<rightharpoonup> nat" where
  "build_token_to_id tokens = fold insert_new (enumerate_u32 tokens) Map.empty"

fun join_words :: "ustring list \<Rightarrow> ustring" where
  "join_words [] = []"
| "join_words [w] = w"
| "join_words (w # ws) = w @ 32 # join_words ws"

definition add_merge ::
  "(ustring \<times> usize) \<Rightarrow> ((ustring \<times> ustring) \<times> usize) list \<Rightarrow> ((ustring \<times> ustring) \<times> usize) list"
where
  "add_merge e m =
     (case split_whitespace (fst e) of
        left # r # rs \<Rightarrow> AList.update (left, if rs = [] then r else join_words (r # rs)) (snd e) m
      | _ \<Rightarrow> m)"

definition build_merges_rank :: "ustring list option \<Rightarrow> ((ustring \<times> ustring) \<times> usize) list" where
  "build_merges_rank merges =
     (case merges of
        None \<Rightarrow> []
      | Some ms \<Rightarrow> fold add_merge (zip ms [0..<length ms]) [])"

text \<open>\<open>u8::from_str_radix(_, 16)\<close> of two bytes; a leading plus sign is accepted.\<close>

definition hex_digit :: "nat \<Rightarrow> nat option" where
  "hex_digit b =
     (if 48 \<le> b \<and> b \<le> 57 then Some (b - 48)
      else if 97 \<le> b \<and> b \<le> 102 then Some (b - 87)
      else if 65 \<le> b \<and> b \<le> 70 then Some (b - 55) else None)"

definition hex_byte :: "nat \<Rightarrow> nat \<Rightarrow> nat option" where
  "hex_byte a b =
     (case hex_digit b of
        None \<Rightarrow> None
      | Some lo \<Rightarrow> if a = 43 then Some lo else map_option (\<lambda>hi. hi * 16 + lo) (hex_digit a))"

definition hex_shape :: "nat list \<Rightarrow> bool" where
  "hex_shape bs \<longleftrightarrow> length bs = 6 \<and> take 3 bs = [60, 48, 120] \<and> last bs = 62"

definition hex_token :: "ustring \<Rightarrow> nat option" where
  "hex_token token = (let bs = utf8_bytes token in if hex_shape bs then hex_byte (bs ! 3) (bs ! 4) else None)"

definition add_byte_token ::
  "token_type list \<Rightarrow> (ustring \<rightharpoonup> nat) \<Rightarrow> (ustring \<times> nat) \<Rightarrow> (nat \<rightharpoonup> nat) \<Rightarrow> (nat \<rightharpoonup> nat)"
where
  "add_byte_token types ids e m =
     (if hex_shape (utf8_bytes (fst e))
      then (case hex_token (fst e) of Some b \<Rightarrow> m(b \<mapsto> snd e) | None \<Rightarrow> m)
      else if byte_len (fst e) = 1 then
        (case ids (fst e) of
           Some tid \<Rightarrow> if nth_opt types tid = Some TokenByte then insert_new (hd (utf8_bytes (fst e)), tid) m else m
         | None \<Rightarrow> m)
      else m)"

definition build_byte_tokens :: "ustring list \<Rightarrow> token_type list \<Rightarrow> (ustring \<rightharpoonup> nat) \<Rightarrow> nat \<rightharpoonup> nat" where
  "build_byte_tokens tokens types ids = fold (add_byte_token types ids) (enumerate_u32 tokens) Map.empty"

text \<open>Sorting by descending length and then by id: two stable sorts.\<close>

definition build_special_tokens :: "ustring list \<Rightarrow> token_type list \<Rightarrow> (ustring \<times> nat) list" where
  "build_special_tokens tokens types =
     sort_key (\<lambda>e. - int (byte_len (fst e))) (sort_key snd
       (map fst (filter (\<lambda>(e, i). starts_with (fst e) [60] \<and> 1 < byte_len (fst e)
           \<and> nth_opt types i \<in> {Some TokenControl, Some TokenUserDefined})
         (zip (enumerate_u32 tokens) [0..<length tokens]))))"

definition tokenizer_from_gguf :: "gguf_model \<Rightarrow> (tokenizer, string) result" where
  "tokenizer_from_gguf g =
     (let model = (case Option.bind (get_metadata g ''tokenizer.ggml.model'') as_string of
            Some s \<Rightarrow> s | None \<Rightarrow> ''llama'');
          pre = Option.bind (get_metadata g ''tokenizer.ggml.pre'') as_string in
      rbind (ok_or ''missing tokenizer.ggml.tokens'' (get_metadata g ''tokenizer.ggml.tokens'')) (\<lambda>tokens_val.
      rbind (ok_or ''tokenizer.ggml.tokens is not an array'' (as_array tokens_val)) (\<lambda>tokens_arr.
      rbind (token_strings (snd tokens_arr)) (\<lambda>tokens.
        let scores = (case metadata_array g ''tokenizer.ggml.scores'' of
              Some vs \<Rightarrow> map score_of_value vs | None \<Rightarrow> replicate (length tokens) 0);
            types = (case metadata_array g ''tokenizer.ggml.token_type'' of
              Some vs \<Rightarrow> map type_of_value vs | None \<Rightarrow> replicate (length tokens) TokenNormal);
            merges = map_option (\<lambda>vs. map chars_of (List.map_filter as_string vs)) (metadata_array g ''tokenizer.ggml.merges'');
            is_bpe = (model = ''gpt2'' \<or> pre = Some ''qwen2'' \<or> merges \<noteq> None);
            flag = (\<lambda>key d. case Option.bind (get_metadata g key) as_bool of Some b \<Rightarrow> b | None \<Rightarrow> d);
            ids = build_token_to_id tokens in
        Ok \<lparr>tk_model = model, tk_pre = pre, tk_tokens = tokens, tk_scores = scores, tk_token_types = types,
            tk_merges = merges,
            tk_bos_id = metadata_id (get_metadata g ''tokenizer.ggml.bos_token_id''),
            tk_eos_id = metadata_id (get_metadata g ''tokenizer.ggml.eos_token_id''),
            tk_unk_id = metadata_id (or_else (get_metadata g ''tokenizer.ggml.unknown_token_id'')
              (get_metadata g ''tokenizer.ggml.unk_token_id'')),
            tk_pad_id = metadata_id (or_else (get_metadata g ''tokenizer.ggml.padding_token_id'')
              (get_metadata g ''tokenizer.ggml.pad_token_id'')),
            tk_add_bos = flag ''tokenizer.ggml.add_bos_token'' (\<not> is_bpe),
            tk_add_eos = flag ''tokenizer.ggml.add_eos_token'' False,
            tk_token_to_id = ids, tk_merges_rank = build_merges_rank merges,
            tk_byte_tokens = build_byte_tokens tokens types ids,
            tk_special_tokens = build_special_tokens tokens types\<rparr>))))"

definition vocabulary_size :: "tokenizer \<Rightarrow> usize" where "vocabulary_size t = length (tk_tokens t)"

definition uses_gpt2_byte_encoding :: "tokenizer \<Rightarrow> bool" where
  "uses_gpt2_byte_encoding t \<longleftrightarrow> tk_model t = ''gpt2'' \<or> tk_model t = ''qwen2''"

subsection \<open>Byte pair encoding\<close>

text \<open>The best pair of adjacent pieces from index \<open>i\<close> on: the least rank, the leftmost of equals.\<close>

fun best_pair ::
  "(ustring \<times> ustring \<rightharpoonup> usize) \<Rightarrow> usize \<Rightarrow> ustring list \<Rightarrow> (usize \<times> usize) option \<Rightarrow> (usize \<times> usize) option"
where
  "best_pair ranks i (l # r # ps) best =
     best_pair ranks (Suc i) (r # ps)
       (case ranks (l, r) of
          None \<Rightarrow> best
        | Some rank \<Rightarrow> (case best of
            None \<Rightarrow> Some (rank, i)
          | Some (best_rank, _) \<Rightarrow> if rank < best_rank then Some (rank, i) else best))"
| "best_pair ranks i _ best = best"

definition merge_at :: "usize \<Rightarrow> ustring list \<Rightarrow> ustring list" where
  "merge_at i ps = take i ps @ (ps ! i @ ps ! Suc i) # drop (i + 2) ps"

lemma best_pair_least:
  assumes "best_pair ranks i ps best = Some (rank, j)"
  shows "(best = Some (rank, j) \<or> (i \<le> j \<and> Suc j < i + length ps \<and> ranks (ps ! (j - i), ps ! Suc (j - i)) = Some rank))
    \<and> (\<forall>r k. best = Some (r, k) \<longrightarrow> rank \<le> r)
    \<and> (\<forall>k r. Suc k < length ps \<longrightarrow> ranks (ps ! k, ps ! Suc k) = Some r \<longrightarrow> rank \<le> r)"
  using assms
proof (induction ranks i ps best rule: best_pair.induct)
  case (1 ranks i l r ps best)
  let ?best = "case ranks (l, r) of None \<Rightarrow> best
      | Some rank \<Rightarrow> (case best of None \<Rightarrow> Some (rank, i)
          | Some (best_rank, _) \<Rightarrow> if rank < best_rank then Some (rank, i) else best)"
  have eq: "best_pair ranks (Suc i) (r # ps) ?best = Some (rank, j)" using 1(2) by simp
  note IH = 1(1) [OF eq]
  have least: "rank \<le> q" if "ranks (l, r) = Some q \<or> (\<exists>k. best = Some (q, k))" for q
  proof -
    have "\<exists>q' k. ?best = Some (q', k) \<and> q' \<le> q" using that by (auto split: option.splits)
    then show ?thesis using IH by fastforce
  qed
  have found: "best = Some (rank, j) \<or> (i \<le> j \<and> Suc j < i + length (l # r # ps)
      \<and> ranks ((l # r # ps) ! (j - i), (l # r # ps) ! Suc (j - i)) = Some rank)"
  proof (cases "?best = Some (rank, j)")
    case True
    then show ?thesis by (auto split: option.splits if_splits)
  next
    case False
    then have "Suc i \<le> j" "Suc j < Suc i + length (r # ps)" "ranks ((r # ps) ! (j - Suc i), (r # ps) ! Suc (j - Suc i)) = Some rank"
      using IH by auto
    then show ?thesis by (auto simp: Suc_diff_Suc nth_Cons')
  qed
  have all: "rank \<le> q" if "Suc k < length (l # r # ps)" "ranks ((l # r # ps) ! k, (l # r # ps) ! Suc k) = Some q" for k q
  proof (cases k)
    case 0
    then show ?thesis using that least by simp
  next
    case (Suc k')
    then show ?thesis using that IH by simp
  qed
  show ?case using found least all by blast
qed auto

lemma best_pair_None:
  assumes "best_pair ranks i ps best = None" "Suc k < length ps"
  shows "ranks (ps ! k, ps ! Suc k) = None"
proof -
  have "best = None \<and> (\<forall>k. Suc k < length ps \<longrightarrow> ranks (ps ! k, ps ! Suc k) = None)"
    using assms(1)
  proof (induction ranks i ps best rule: best_pair.induct)
    case (1 ranks i l r ps best)
    then have "best = None" "ranks (l, r) = None" "\<forall>k. Suc k < length (r # ps) \<longrightarrow> ranks ((r # ps) ! k, (r # ps) ! Suc k) = None"
      by (auto split: option.splits if_splits)
    then show ?case by (auto simp: nth_Cons split: nat.split)
  qed auto
  then show ?thesis using assms(2) by blast
qed

function bpe_loop :: "(ustring \<times> ustring \<rightharpoonup> usize) \<Rightarrow> ustring list \<Rightarrow> ustring list" where
  "bpe_loop ranks ps =
     (case best_pair ranks 0 ps None of Some (_, i) \<Rightarrow> bpe_loop ranks (merge_at i ps) | None \<Rightarrow> ps)"
  by auto
termination
  by (relation "measure (\<lambda>(ranks, ps). length ps)") (auto simp: merge_at_def dest!: best_pair_least)

declare bpe_loop.simps [simp del]

definition bpe_word :: "((ustring \<times> ustring) \<times> usize) list \<Rightarrow> ustring \<Rightarrow> ustring list" where
  "bpe_word ranks word =
     (if word = [] then []
      else let pieces = map (\<lambda>c. [c]) word in if ranks = [] then pieces else bpe_loop (map_of ranks) pieces)"

definition LOWER_BLOCK :: nat where "LOWER_BLOCK = 9601"

definition G_DOT :: nat where "G_DOT = 288"

fun mark_words :: "ustring list \<Rightarrow> ustring list" where
  "mark_words [] = []"
| "mark_words (w # ws) = w # map ((#) G_DOT) ws"

definition pre_tokenize_bpe :: "tokenizer \<Rightarrow> ustring \<Rightarrow> ustring list" where
  "pre_tokenize_bpe t text =
     (if list_ex (\<lambda>s. starts_with s [G_DOT]) (tk_tokens t) then
        (case mark_words (split_whitespace text) of
           [] \<Rightarrow> []
         | w # ws \<Rightarrow> (if text \<noteq> [] \<and> whitespace (hd text) then G_DOT # w else w) # ws)
      else [text])"

fun option_list :: "'a option \<Rightarrow> 'a list" where
  "option_list None = []"
| "option_list (Some x) = [x]"

definition byte_fallback :: "tokenizer \<Rightarrow> nat \<Rightarrow> nat list" where
  "byte_fallback t b = (case tk_byte_tokens t b of Some bid \<Rightarrow> [bid] | None \<Rightarrow> option_list (tk_unk_id t))"

definition piece_ids :: "tokenizer \<Rightarrow> ustring \<Rightarrow> nat list" where
  "piece_ids t piece =
     (case tk_token_to_id t piece of
        Some tid \<Rightarrow> [tid]
      | None \<Rightarrow> concat (map (byte_fallback t) (utf8_bytes piece)))"

text \<open>Greedy longest match, of at most 32 characters.\<close>

definition longest_match :: "tokenizer \<Rightarrow> ustring \<Rightarrow> usize option" where
  "longest_match t cs = List.find (\<lambda>l. tk_token_to_id t (take l cs) \<noteq> None) (rev [1..<Suc (min 32 (length cs))])"

lemma longest_match_Some:
  assumes "longest_match t cs = Some l"
  shows "0 < l \<and> l \<le> 32 \<and> l \<le> length cs \<and> tk_token_to_id t (take l cs) \<noteq> None"
proof -
  have find: "List.find P xs = Some x \<Longrightarrow> x \<in> set xs \<and> P x" for P and xs :: "nat list" and x
    by (induction xs) (auto split: if_splits)
  have "l \<in> set (rev [1..<Suc (min 32 (length cs))])" "tk_token_to_id t (take l cs) \<noteq> None"
    using find [OF assms [unfolded longest_match_def]] by blast+
  then show ?thesis by (auto simp del: upt_Suc)
qed

function encode_greedy :: "tokenizer \<Rightarrow> ustring \<Rightarrow> nat list" where
  "encode_greedy t [] = []"
| "encode_greedy t (c # cs) =
     (case longest_match t (c # cs) of
        Some l \<Rightarrow> the (tk_token_to_id t (take l (c # cs))) # encode_greedy t (drop l (c # cs))
      | None \<Rightarrow>
          (case tk_token_to_id t [c] of
             Some tid \<Rightarrow> [tid]
           | None \<Rightarrow> byte_fallback t (hd (utf8_char c))) @ encode_greedy t cs)"
  by pat_completeness auto
termination by (relation "measure (\<lambda>(t, cs). length cs)") (auto dest: longest_match_Some)

definition encode_bpe :: "tokenizer \<Rightarrow> ustring \<Rightarrow> nat list" where
  "encode_bpe t text =
     (if text = [] then []
      else let ids = concat (map (\<lambda>word. concat (map (piece_ids t) (bpe_word (tk_merges_rank t) word)))
             (pre_tokenize_bpe t text)) in
        if ids = [] then encode_greedy t text else ids)"

subsection \<open>SentencePiece: the best path\<close>

record viterbi_cell =
  vc_score :: f32
  vc_id :: "nat option"
  vc_prev :: usize

definition token_score :: "tokenizer \<Rightarrow> nat \<Rightarrow> f32" where
  "token_score t tid = (case nth_opt (tk_scores t) tid of Some s \<Rightarrow> s | None \<Rightarrow> 0)"

definition relax ::
  "tokenizer \<Rightarrow> ustring \<Rightarrow> usize \<Rightarrow> usize \<Rightarrow> viterbi_cell list \<Rightarrow> viterbi_cell list"
where
  "relax t chars i len cells =
     (let j = i + len in
      case tk_token_to_id t (take len (drop i chars)) of
        None \<Rightarrow> cells
      | Some tid \<Rightarrow>
          let new_score = fadd (vc_score (cells ! i)) (token_score t tid) in
          if f32_less (vc_score (cells ! j)) new_score
          then cells[j := \<lparr>vc_score = new_score, vc_id = Some tid, vc_prev = i\<rparr>] else cells)"

definition relax_from ::
  "tokenizer \<Rightarrow> ustring \<Rightarrow> usize \<Rightarrow> viterbi_cell list \<Rightarrow> viterbi_cell list"
where
  "relax_from t chars i cells =
     (if vc_score (cells ! i) = NEG_INFINITY then cells
      else fold (relax t chars i) [1..<Suc (min (length chars - i) 32)] cells)"

definition initial_cells :: "usize \<Rightarrow> viterbi_cell list" where
  "initial_cells n =
     (replicate (Suc n) \<lparr>vc_score = NEG_INFINITY, vc_id = None, vc_prev = 0\<rparr>)
       [0 := \<lparr>vc_score = 0, vc_id = None, vc_prev = 0\<rparr>]"

definition viterbi :: "tokenizer \<Rightarrow> ustring \<Rightarrow> viterbi_cell list" where
  "viterbi t chars = fold (relax_from t chars) [0..<length chars] (initial_cells (length chars))"

text \<open>
  The walk back from \<open>pos\<close>; \<open>ids\<close> are the ids found so far, in the order of the text. One unit of
  fuel per character is enough, since every step goes back.
\<close>

fun backtrack :: "tokenizer \<Rightarrow> ustring \<Rightarrow> viterbi_cell list \<Rightarrow> nat \<Rightarrow> usize \<Rightarrow> nat list \<Rightarrow> nat list" where
  "backtrack t chars cells 0 pos ids = ids"
| "backtrack t chars cells (Suc fuel) pos ids =
     (if pos = 0 then ids
      else (case vc_id (cells ! pos) of
          Some tid \<Rightarrow> backtrack t chars cells fuel (vc_prev (cells ! pos)) (tid # ids)
        | None \<Rightarrow> backtrack t chars cells fuel (pos - 1) (byte_fallback t (chars ! (pos - 1) mod 256) @ ids)))"

definition sentencepiece_text :: "tokenizer \<Rightarrow> ustring \<Rightarrow> ustring" where
  "sentencepiece_text t text =
     (if list_ex (\<lambda>s. LOWER_BLOCK \<in> set s) (tk_tokens t) then
        let s = map (\<lambda>c. if c = 32 then LOWER_BLOCK else c) text in
        if \<not> starts_with s [LOWER_BLOCK] \<and> text \<noteq> [] then LOWER_BLOCK # s else s
      else text)"

definition encode_sentencepiece :: "tokenizer \<Rightarrow> ustring \<Rightarrow> nat list" where
  "encode_sentencepiece t text =
     (if text = [] then []
      else let chars = sentencepiece_text t text; n = length chars; cells = viterbi t chars in
        if vc_score (cells ! n) = NEG_INFINITY then encode_greedy t chars
        else backtrack t chars cells n n [])"

definition encode_plain :: "tokenizer \<Rightarrow> ustring \<Rightarrow> nat list" where
  "encode_plain t text =
     (if tk_model t = ''gpt2'' \<or> tk_pre t = Some ''qwen2'' \<or> tk_merges t \<noteq> None then encode_bpe t text
      else encode_sentencepiece t text)"

subsection \<open>Special tokens\<close>

definition find_special :: "tokenizer \<Rightarrow> ustring \<Rightarrow> (ustring \<times> nat) option" where
  "find_special t remaining = List.find (\<lambda>e. starts_with remaining (fst e)) (tk_special_tokens t)"

text \<open>
  The text from the cursor on is \<open>remaining\<close>, \<open>normal\<close> is the text from \<open>normal_start\<close> to the cursor. The
  loop goes on forever at an empty special token, which \<open>from_gguf\<close> never makes; the fuel is one unit
  per character.
\<close>

fun encode_special_loop ::
  "tokenizer \<Rightarrow> nat \<Rightarrow> nat list \<Rightarrow> ustring \<Rightarrow> ustring \<Rightarrow> nat list option"
where
  "encode_special_loop t fuel ids normal [] =
     Some (if normal = [] then ids else ids @ encode_plain t normal)"
| "encode_special_loop t 0 ids normal (c # cs) = None"
| "encode_special_loop t (Suc fuel) ids normal (c # cs) =
     (case find_special t (c # cs) of
        Some (token, tid) \<Rightarrow>
          encode_special_loop t fuel ((if normal = [] then ids else ids @ encode_plain t normal) @ [tid]) []
            (drop (length token) (c # cs))
      | None \<Rightarrow> encode_special_loop t fuel ids (normal @ [c]) cs)"

definition encode_with_special_tokens :: "tokenizer \<Rightarrow> ustring \<Rightarrow> nat list option" where
  "encode_with_special_tokens t text =
     (if tk_special_tokens t = [] then Some (encode_plain t text)
      else encode_special_loop t (length text) [] [] text)"

definition encode :: "tokenizer \<Rightarrow> ustring \<Rightarrow> bool \<Rightarrow> nat list option" where
  "encode t text add_bos =
     map_option (\<lambda>ids. (if add_bos \<and> tk_add_bos t then option_list (tk_bos_id t) else []) @ ids
       @ (if tk_add_eos t then option_list (tk_eos_id t) else []))
     (encode_with_special_tokens t text)"

subsection \<open>Decoding\<close>

record token_decoder =
  td_pending :: "nat list"
  td_at_start :: bool

definition decoder_new :: token_decoder where "decoder_new = \<lparr>td_pending = [], td_at_start = True\<rparr>"

definition emit_text :: "tokenizer \<Rightarrow> token_decoder \<Rightarrow> ustring \<Rightarrow> token_decoder \<times> ustring" where
  "emit_text t d text =
     (let emitted = (if td_at_start d \<and> tk_model t = ''llama'' then trim_start text else text) in
      (if emitted = [] then d else d\<lparr>td_at_start := False\<rparr>, emitted))"

lemma utf8_scan_length: "length (fst (utf8_scan bs)) + length (snd (utf8_scan bs)) \<le> length bs"
proof (induction bs rule: utf8_scan.induct)
  case (1 bs)
  then show ?case
    by (cases "utf8_next bs") (use utf8_next_width(1) [of bs] in \<open>fastforce simp: utf8_scan.simps [of bs]\<close>)+
qed

lemma utf8_scan_shorter: "(valid, rest) = utf8_scan bs \<Longrightarrow> valid \<noteq> [] \<Longrightarrow> length rest < length bs"
  using utf8_scan_length [of bs] by (cases "utf8_scan bs"; cases valid) auto

function drain_bytes :: "tokenizer \<Rightarrow> bool \<Rightarrow> token_decoder \<Rightarrow> token_decoder \<times> ustring" where
  "drain_bytes t finish d =
     (if td_pending d = [] then (d, [])
      else
        let (valid, rest) = utf8_scan (td_pending d) in
        if rest = [] then emit_text t (d\<lparr>td_pending := []\<rparr>) valid
        else if valid \<noteq> [] then
          let (d1, out) = emit_text t (d\<lparr>td_pending := rest\<rparr>) valid in apsnd ((@) out) (drain_bytes t finish d1)
        else
          (case utf8_next (td_pending d) of
             Malformed error_len \<Rightarrow>
               let (d1, out) = emit_text t (d\<lparr>td_pending := drop error_len (td_pending d)\<rparr>) [REPLACEMENT] in
               apsnd ((@) out) (drain_bytes t finish d1)
           | _ \<Rightarrow>
               if finish then emit_text t (d\<lparr>td_pending := []\<rparr>) (utf8_lossy (td_pending d)) else (d, [])))"
  by auto
termination
  by (relation "measure (\<lambda>(t, finish, d). length (td_pending d))")
    (auto simp: emit_text_def Let_def dest: utf8_next_width utf8_scan_shorter split: if_splits)

declare drain_bytes.simps [simp del]

definition push :: "tokenizer \<Rightarrow> nat \<Rightarrow> token_decoder \<Rightarrow> token_decoder \<times> ustring" where
  "push t tid d =
     (if (Some tid = tk_bos_id t \<or> Some tid = tk_eos_id t) \<and> nth_opt (tk_token_types t) tid = Some TokenControl
      then (d, [])
      else (case nth_opt (tk_tokens t) tid of
          None \<Rightarrow> (d, [])
        | Some token \<Rightarrow>
            (case hex_token token of
               Some b \<Rightarrow> drain_bytes t False (d\<lparr>td_pending := td_pending d @ [b]\<rparr>)
             | None \<Rightarrow>
                 if nth_opt (tk_token_types t) tid = Some TokenByte \<and> byte_len token = 1
                 then drain_bytes t False (d\<lparr>td_pending := td_pending d @ [hd (utf8_bytes token)]\<rparr>)
                 else (case (if uses_gpt2_byte_encoding t then gpt2_token_bytes token else None) of
                     Some bs \<Rightarrow> drain_bytes t False (d\<lparr>td_pending := td_pending d @ bs\<rparr>)
                   | None \<Rightarrow>
                       let (d1, out) = drain_bytes t True d;
                           normalized = map (\<lambda>c. if c = LOWER_BLOCK \<or> c = G_DOT then 32 else c) token in
                       apsnd ((@) out) (emit_text t d1 normalized)))))"

definition finish :: "tokenizer \<Rightarrow> token_decoder \<Rightarrow> token_decoder \<times> ustring" where
  "finish t d = drain_bytes t True d"

fun push_all :: "tokenizer \<Rightarrow> nat list \<Rightarrow> token_decoder \<Rightarrow> token_decoder \<times> ustring" where
  "push_all t [] d = (d, [])"
| "push_all t (tid # ids) d = (let (d1, out) = push t tid d in apsnd ((@) out) (push_all t ids d1))"

definition decode :: "tokenizer \<Rightarrow> nat list \<Rightarrow> ustring" where
  "decode t ids = (let (d, text) = push_all t ids decoder_new in text @ snd (finish t d))"

definition decode_single :: "tokenizer \<Rightarrow> nat \<Rightarrow> ustring" where "decode_single t tid = decode t [tid]"

subsection \<open>Decoding is independent of the token boundaries\<close>

text \<open>
  What a token contributes: nothing, bytes of a UTF-8 stream, or text. The text of a sequence of tokens
  is the lossy decoding of each maximal run of bytes, joined with the texts.
\<close>

datatype token_piece = NoPiece | BytePiece "nat list" | TextPiece ustring

definition token_piece :: "tokenizer \<Rightarrow> nat \<Rightarrow> token_piece" where
  "token_piece t tid =
     (if (Some tid = tk_bos_id t \<or> Some tid = tk_eos_id t) \<and> nth_opt (tk_token_types t) tid = Some TokenControl
      then NoPiece
      else (case nth_opt (tk_tokens t) tid of
          None \<Rightarrow> NoPiece
        | Some token \<Rightarrow>
            (case hex_token token of
               Some b \<Rightarrow> BytePiece [b]
             | None \<Rightarrow>
                 if nth_opt (tk_token_types t) tid = Some TokenByte \<and> byte_len token = 1
                 then BytePiece [hd (utf8_bytes token)]
                 else (case (if uses_gpt2_byte_encoding t then gpt2_token_bytes token else None) of
                     Some bs \<Rightarrow> BytePiece bs
                   | None \<Rightarrow> TextPiece (map (\<lambda>c. if c = LOWER_BLOCK \<or> c = G_DOT then 32 else c) token)))))"

fun render :: "nat list \<Rightarrow> token_piece list \<Rightarrow> ustring" where
  "render run [] = utf8_lossy run"
| "render run (NoPiece # ps) = render run ps"
| "render run (BytePiece bs # ps) = render (run @ bs) ps"
| "render run (TextPiece s # ps) = utf8_lossy run @ s @ render [] ps"

definition emission :: "tokenizer \<Rightarrow> bool \<Rightarrow> ustring \<Rightarrow> ustring" where
  "emission t start s = (if start \<and> tk_model t = ''llama'' then trim_start s else s)"

lemma emission_append:
  "emission t start (a @ b) = emission t start a @ emission t (start \<and> emission t start a = []) b"
  by (auto simp: emission_def trim_start_def dropWhile_append)

lemma emission_Nil [simp]: "emission t start [] = []"
  by (simp add: emission_def trim_start_def)

lemma emit_text_eq:
  "emit_text t d s = (d\<lparr>td_at_start := td_at_start d \<and> emission t (td_at_start d) s = []\<rparr>, emission t (td_at_start d) s)"
  by (cases d) (auto simp: emit_text_def emission_def Let_def)

lemma utf8_lossy_scan: "utf8_lossy (bs @ cs) = fst (utf8_scan bs) @ utf8_lossy (snd (utf8_scan bs) @ cs)"
proof (induction bs rule: utf8_scan.induct)
  case (1 bs)
  show ?case
  proof (cases "utf8_next bs")
    case (Scalar c n)
    have "utf8_next (bs @ cs) = Scalar c n" using utf8_next_append [of bs cs] Scalar by simp
    moreover have "bs \<noteq> []" "drop n (bs @ cs) = drop n bs @ cs" using utf8_next_width(1) [OF Scalar] by auto
    ultimately have "utf8_lossy (bs @ cs) = c # utf8_lossy (drop n bs @ cs)"
      by (simp add: utf8_lossy.simps [of "bs @ cs"])
    then show ?thesis using 1 [OF Scalar] Scalar by (simp add: utf8_scan.simps [of bs])
  qed (simp_all add: utf8_scan.simps [of bs])
qed

lemma utf8_scan_rest: "fst (utf8_scan bs) = [] \<Longrightarrow> snd (utf8_scan bs) = bs \<and> (\<forall>c n. utf8_next bs \<noteq> Scalar c n)"
  by (cases "utf8_next bs") (auto simp: utf8_scan.simps [of bs])

lemma drain_bytes_spec:
  obtains s d' where "drain_bytes t fin d = (d', emission t (td_at_start d) s)"
    "td_at_start d' \<longleftrightarrow> td_at_start d \<and> emission t (td_at_start d) s = []"
    "\<not> fin \<Longrightarrow> utf8_lossy (td_pending d @ cs) = s @ utf8_lossy (td_pending d' @ cs)"
    "fin \<Longrightarrow> td_pending d' = [] \<and> s = utf8_lossy (td_pending d)"
proof -
  have "\<exists>s d'. drain_bytes t fin d = (d', emission t (td_at_start d) s)
    \<and> (td_at_start d' \<longleftrightarrow> td_at_start d \<and> emission t (td_at_start d) s = [])
    \<and> (\<not> fin \<longrightarrow> utf8_lossy (td_pending d @ cs) = s @ utf8_lossy (td_pending d' @ cs))
    \<and> (fin \<longrightarrow> td_pending d' = [] \<and> s = utf8_lossy (td_pending d))"
  proof (induction t fin d rule: drain_bytes.induct)
    case (1 t fin d)
    obtain valid rest where scan: "utf8_scan (td_pending d) = (valid, rest)" by fastforce
    have lossy: "utf8_lossy (td_pending d @ xs) = valid @ utf8_lossy (rest @ xs)" for xs
      using utf8_lossy_scan [of "td_pending d" xs] scan by simp
    consider "td_pending d = []" | "td_pending d \<noteq> []" "rest = []" | "td_pending d \<noteq> []" "rest \<noteq> []" "valid \<noteq> []"
      | "td_pending d \<noteq> []" "rest \<noteq> []" "valid = []" by blast
    then show ?case
    proof cases
      case 1
      then show ?thesis by (intro exI [where x = "[]"]) (simp add: drain_bytes.simps)
    next
      case 2
      then show ?thesis using scan lossy lossy [of "[]"]
        by (intro exI [where x = valid]) (simp add: drain_bytes.simps emit_text_eq)
    next
      case 3
      let ?d1 = "fst (emit_text t (d\<lparr>td_pending := rest\<rparr>) valid)"
      obtain s d' where IH: "drain_bytes t fin ?d1 = (d', emission t (td_at_start ?d1) s)"
        "td_at_start d' \<longleftrightarrow> td_at_start ?d1 \<and> emission t (td_at_start ?d1) s = []"
        "\<not> fin \<longrightarrow> utf8_lossy (td_pending ?d1 @ cs) = s @ utf8_lossy (td_pending d' @ cs)"
        "fin \<longrightarrow> td_pending d' = [] \<and> s = utf8_lossy (td_pending ?d1)"
        using 1(1) [OF 3(1) scan [symmetric] refl 3(2,3)] by (metis prod.collapse)
      show ?thesis
        by (rule exI [where x = "valid @ s"], rule exI [where x = d'])
          (use IH 3 scan lossy lossy [of "[]"] in \<open>simp add: drain_bytes.simps [of t fin d] emit_text_eq emission_append split_beta\<close>)
    next
      case 4
      have none: "rest = td_pending d" "\<And>c n. utf8_next (td_pending d) \<noteq> Scalar c n"
        using utf8_scan_rest [of "td_pending d"] scan 4 by auto
      show ?thesis
      proof (cases "utf8_next (td_pending d)")
        case (Malformed n)
        let ?d1 = "fst (emit_text t (d\<lparr>td_pending := drop n (td_pending d)\<rparr>) [REPLACEMENT])"
        obtain s d' where IH: "drain_bytes t fin ?d1 = (d', emission t (td_at_start ?d1) s)"
          "td_at_start d' \<longleftrightarrow> td_at_start ?d1 \<and> emission t (td_at_start ?d1) s = []"
          "\<not> fin \<longrightarrow> utf8_lossy (td_pending ?d1 @ cs) = s @ utf8_lossy (td_pending d' @ cs)"
          "fin \<longrightarrow> td_pending d' = [] \<and> s = utf8_lossy (td_pending ?d1)"
          using 1(2) [OF 4(1) scan [symmetric] refl 4(2)] 4(3) Malformed by (metis prod.collapse)
        have bad: "utf8_lossy (td_pending d @ xs) = REPLACEMENT # utf8_lossy (drop n (td_pending d) @ xs)" for xs
          using utf8_next_append [of "td_pending d" xs] utf8_next_width(2) [OF Malformed] Malformed 4(1)
          by (simp add: utf8_lossy.simps [of "td_pending d @ xs"])
        have app: "emission t b (REPLACEMENT # s) = emission t b [REPLACEMENT] @ emission t (b \<and> emission t b [REPLACEMENT] = []) s" for b
          using emission_append [of t b "[REPLACEMENT]" s] by simp
        show ?thesis
          by (rule exI [where x = "REPLACEMENT # s"], rule exI [where x = d'])
            (use IH 4 scan bad bad [of "[]"] Malformed in
              \<open>simp add: drain_bytes.simps [of t fin d] emit_text_eq app split_beta\<close>)
      next
        case Incomplete
        show ?thesis
        proof (cases fin)
          case True
          then show ?thesis using 4 scan Incomplete
            by (intro exI [where x = "utf8_lossy (td_pending d)"]) (simp add: drain_bytes.simps emit_text_eq)
        next
          case False
          then show ?thesis using 4 scan Incomplete by (intro exI [where x = "[]"]) (simp add: drain_bytes.simps)
        qed
      qed (use none in blast)
    qed
  qed
  then show thesis using that by blast
qed

lemma push_spec:
  obtains s d' where "push t tid d = (d', emission t (td_at_start d) s)"
    "td_at_start d' \<longleftrightarrow> td_at_start d \<and> emission t (td_at_start d) s = []"
    "render (td_pending d) (token_piece t tid # ps) = s @ render (td_pending d') ps"
proof -
  have bytes: "\<exists>s d'. drain_bytes t False (d\<lparr>td_pending := td_pending d @ bs\<rparr>) = (d', emission t (td_at_start d) s)
      \<and> (td_at_start d' \<longleftrightarrow> td_at_start d \<and> emission t (td_at_start d) s = [])
      \<and> render (td_pending d @ bs) ps = s @ render (td_pending d') ps" for bs
  proof -
    have "\<exists>s d'. drain_bytes t False (d\<lparr>td_pending := td_pending d @ bs\<rparr>) = (d', emission t (td_at_start d) s)
      \<and> (td_at_start d' \<longleftrightarrow> td_at_start d \<and> emission t (td_at_start d) s = [])
      \<and> utf8_lossy ((td_pending d @ bs) @ cs) = s @ utf8_lossy (td_pending d' @ cs)" for cs
      by (rule drain_bytes_spec [of t False "d\<lparr>td_pending := td_pending d @ bs\<rparr>" cs]) auto
    note drained = this
    have lead: "\<exists>cs f. \<forall>run. render run ps = utf8_lossy (run @ cs) @ f" for ps
    proof (induction ps)
      case Nil
      then show ?case by (intro exI [where x = "[]"]) simp
    next
      case (Cons p ps)
      then obtain cs f where "\<forall>run. render run ps = utf8_lossy (run @ cs) @ f" by blast
      then show ?case
      proof (cases p)
        case (BytePiece b)
        then show ?thesis using \<open>\<forall>run. _ run\<close> by (intro exI [where x = "b @ cs"] exI [where x = f]) simp
      next
        case (TextPiece x)
        then show ?thesis by (intro exI [where x = "[]"] exI [where x = "x @ render [] ps"]) simp
      qed auto
    qed
    obtain cs f where "\<forall>run. render run ps = utf8_lossy (run @ cs) @ f" using lead by blast
    then show ?thesis using drained [of cs] by auto
  qed
  show thesis
  proof (cases "token_piece t tid")
    case NoPiece
    then have "push t tid d = (d, [])"
      by (auto simp: push_def token_piece_def Let_def split: if_splits option.splits)
    then show thesis using NoPiece by (intro that [of d "[]"]) auto
  next
    case (BytePiece bs)
    then have "push t tid d = drain_bytes t False (d\<lparr>td_pending := td_pending d @ bs\<rparr>)"
      by (auto simp: push_def token_piece_def Let_def split: if_splits option.splits)
    then show thesis using bytes [of bs] BytePiece that by auto
  next
    case (TextPiece x)
    then have p: "push t tid d = (let (d1, out) = drain_bytes t True d in apsnd ((@) out) (emit_text t d1 x))"
      by (auto simp: push_def token_piece_def Let_def split: if_splits option.splits)
    obtain d1 where d1: "drain_bytes t True d = (d1, emission t (td_at_start d) (utf8_lossy (td_pending d)))"
      "td_at_start d1 \<longleftrightarrow> td_at_start d \<and> emission t (td_at_start d) (utf8_lossy (td_pending d)) = []" "td_pending d1 = []"
      by (rule drain_bytes_spec [of t True d "[]"]) auto
    show thesis
      by (rule that [where s = "utf8_lossy (td_pending d) @ x"])
        (use p d1 TextPiece in \<open>auto simp: emit_text_eq emission_append\<close>)
  qed
qed

lemma push_all_spec:
  "\<exists>d' out. push_all t ids d = (d', out)
     \<and> out @ snd (finish t d') = emission t (td_at_start d) (render (td_pending d) (map (token_piece t) ids))"
proof (induction ids arbitrary: d)
  case Nil
  obtain d1 where "drain_bytes t True d = (d1, emission t (td_at_start d) (utf8_lossy (td_pending d)))"
    by (rule drain_bytes_spec [of t True d "[]"]) auto
  then show ?case by (simp add: finish_def)
next
  case (Cons tid ids)
  obtain s d1 where p: "push t tid d = (d1, emission t (td_at_start d) s)"
    "td_at_start d1 \<longleftrightarrow> td_at_start d \<and> emission t (td_at_start d) s = []"
    "render (td_pending d) (token_piece t tid # map (token_piece t) ids) = s @ render (td_pending d1) (map (token_piece t) ids)"
    by (rule push_spec)
  obtain d' out where "push_all t ids d1 = (d', out)"
    "out @ snd (finish t d') = emission t (td_at_start d1) (render (td_pending d1) (map (token_piece t) ids))"
    using Cons by blast
  then show ?case using p by (simp add: emission_append)
qed

text \<open>
  C36: the incremental decoder shows exactly the text of the tokens: however a scalar is split over
  byte tokens, the chunks it emits, with what \<open>finish\<close> emits, are the lossy decoding of every run of bytes
  joined with the texts, without the leading white space of the whole for a SentencePiece model.
\<close>

theorem decode_refines_render:
  "decode t ids = emission t True (render [] (map (token_piece t) ids))"
proof -
  obtain d' out where "push_all t ids decoder_new = (d', out)"
    "out @ snd (finish t d') = emission t True (render [] (map (token_piece t) ids))"
    using push_all_spec [of t ids decoder_new] by (auto simp: decoder_new_def)
  then show ?thesis by (simp add: decode_def)
qed

subsection \<open>The byte alphabet\<close>

text \<open>GPT-2's \<open>bytes_to_unicode\<close>, the alphabet of the vocabularies that \<open>gpt2_char_to_byte\<close> reads.\<close>

definition byte_to_char :: "nat \<Rightarrow> nat" where
  "byte_to_char b =
     (if (33 \<le> b \<and> b \<le> 126) \<or> (161 \<le> b \<and> b \<le> 172) \<or> (174 \<le> b \<and> b \<le> 255) then b
      else if b \<le> 32 then 256 + b else if b = 173 then 323 else 289 + (b - 127))"

lemma char_to_byte_inverse: "b < 256 \<Longrightarrow> gpt2_char_to_byte (byte_to_char b) = Some b"
  by (auto simp: gpt2_char_to_byte_def byte_to_char_def)

lemma char_to_byte_Some: "gpt2_char_to_byte c = Some b \<Longrightarrow> b < 256 \<and> byte_to_char b = c"
  by (auto simp: gpt2_char_to_byte_def byte_to_char_def split: if_splits)

lemma gpt2_token_bytes_Some: "gpt2_token_bytes token = Some bs \<longleftrightarrow> token = map byte_to_char bs \<and> (\<forall>b \<in> set bs. b < 256)"
proof (induction token arbitrary: bs)
  case (Cons c cs)
  have step: "gpt2_token_bytes (c # cs) = Some (b # bs') \<longleftrightarrow> gpt2_char_to_byte c = Some b \<and> gpt2_token_bytes cs = Some bs'"
    for b bs' by (auto split: option.splits)
  have char: "gpt2_char_to_byte c = Some b \<longleftrightarrow> c = byte_to_char b \<and> b < 256" for b
    using char_to_byte_inverse char_to_byte_Some by blast
  show ?case
  proof (cases bs)
    case Nil
    then show ?thesis by (auto split: option.splits)
  next
    case bs: (Cons b bs')
    show ?thesis unfolding bs step char Cons.IH by auto
  qed
qed auto

subsection \<open>Byte pair merges\<close>

lemma concat_merge_at:
  assumes "Suc i < length ps"
  shows "concat (merge_at i ps) = concat ps"
proof -
  have "concat (merge_at i ps) = concat (take i ps @ ps ! i # ps ! Suc i # drop (i + 2) ps)"
    by (simp add: merge_at_def)
  also have "take i ps @ ps ! i # ps ! Suc i # drop (i + 2) ps = ps"
    using assms Cons_nth_drop_Suc [of i ps] Cons_nth_drop_Suc [of "Suc i" ps] by simp
  finally show ?thesis .
qed

text \<open>A piece that merging can build: a character, or the two sides of a ranked pair.\<close>

definition mergeable :: "(ustring \<times> ustring \<rightharpoonup> usize) \<Rightarrow> ustring \<Rightarrow> bool" where
  "mergeable ranks p \<longleftrightarrow> length p = 1 \<or> (\<exists>l r. p = l @ r \<and> (l, r) \<in> dom ranks)"

lemma bpe_loop_spec:
  "concat (bpe_loop ranks ps) = concat ps
   \<and> (\<forall>k. Suc k < length (bpe_loop ranks ps) \<longrightarrow> ranks (bpe_loop ranks ps ! k, bpe_loop ranks ps ! Suc k) = None)
   \<and> ((\<forall>p \<in> set ps. mergeable ranks p) \<longrightarrow> (\<forall>p \<in> set (bpe_loop ranks ps). mergeable ranks p))"
proof (induction ranks ps rule: bpe_loop.induct)
  case (1 ranks ps)
  show ?case
  proof (cases "best_pair ranks 0 ps None")
    case None
    then show ?thesis using best_pair_None [OF None] by (simp add: bpe_loop.simps [of ranks ps])
  next
    case (Some best)
    obtain rank i where best: "best = (rank, i)" by (cases best)
    have i: "Suc i < length ps" "ranks (ps ! i, ps ! Suc i) = Some rank"
      using best_pair_least [OF Some [unfolded best]] by auto
    have "mergeable ranks (ps ! i @ ps ! Suc i)" using i(2) by (auto simp: mergeable_def)
    moreover have "set (merge_at i ps) \<subseteq> set ps \<union> {ps ! i @ ps ! Suc i}"
      by (auto simp: merge_at_def dest: in_set_takeD in_set_dropD)
    ultimately have "(\<forall>p \<in> set ps. mergeable ranks p) \<longrightarrow> (\<forall>p \<in> set (merge_at i ps). mergeable ranks p)" by blast
    then show ?thesis
      using 1 [OF Some best [symmetric]] concat_merge_at [OF i(1)] Some best by (simp add: bpe_loop.simps [of ranks ps])
  qed
qed

text \<open>
  C38: splitting a word by merges loses nothing and ends in a normal form: the pieces joined are the
  word, no two neighbouring pieces have a merge left, and each piece is a character or the two sides of
  a merge of the table.
\<close>

theorem bpe_word_normal_form:
  "concat (bpe_word ranks word) = word
   \<and> (\<forall>k. Suc k < length (bpe_word ranks word) \<longrightarrow>
        map_of ranks (bpe_word ranks word ! k, bpe_word ranks word ! Suc k) = None)
   \<and> (\<forall>p \<in> set (bpe_word ranks word). mergeable (map_of ranks) p)"
proof (cases "word = [] \<or> ranks = []")
  case True
  have "concat (map (\<lambda>c. [c]) word) = word" by (induction word) auto
  then show ?thesis using True by (auto simp: bpe_word_def mergeable_def)
next
  case False
  have "concat (map (\<lambda>c. [c]) word) = word" by (induction word) auto
  moreover have "\<forall>p \<in> set (map (\<lambda>c. [c]) word). mergeable (map_of ranks) p" by (auto simp: mergeable_def)
  ultimately show ?thesis
    using bpe_loop_spec [of "map_of ranks" "map (\<lambda>c. [c]) word"] False by (simp add: bpe_word_def Let_def)
qed

theorem bpe_word_normal_form_witness:
  "let ranks = [(([97], [98]), 0)]; pieces = bpe_word ranks [98, 97] in
   Suc 0 < length pieces \<and> map_of ranks (pieces ! 0, pieces ! Suc 0) = None"
proof -
  have "Suc 0 < length (bpe_word [(([97], [98]), 0)] [98, 97])"
    by (simp add: bpe_word_def bpe_loop.simps)
  then show ?thesis using bpe_word_normal_form [of "[(([97], [98]), 0)]" "[98, 97]"] by (simp add: Let_def)
qed

subsection \<open>The best path\<close>

definition edge :: "tokenizer \<Rightarrow> ustring \<Rightarrow> usize \<Rightarrow> usize \<Rightarrow> nat \<Rightarrow> bool" where
  "edge t chars i j tid \<longleftrightarrow> i < j \<and> j \<le> length chars \<and> j - i \<le> 32
     \<and> tk_token_to_id t (take (j - i) (drop i chars)) = Some tid"

text \<open>\<open>path t chars j ids\<close>: the tokens \<open>ids\<close> spell the first \<open>j\<close> characters.\<close>

inductive path :: "tokenizer \<Rightarrow> ustring \<Rightarrow> usize \<Rightarrow> nat list \<Rightarrow> bool" for t chars where
  path_start: "path t chars 0 []"
| path_step: "path t chars i ids \<Longrightarrow> edge t chars i j tid \<Longrightarrow> path t chars j (ids @ [tid])"

definition ids_score :: "tokenizer \<Rightarrow> nat list \<Rightarrow> f32" where
  "ids_score t ids = foldl (\<lambda>s tid. fadd s (token_score t tid)) (0) ids"

lemma ids_score_append: "ids_score t (ids @ [tid]) = fadd (ids_score t ids) (token_score t tid)"
  by (simp add: ids_score_def)

text \<open>A cell stands for a path: it is untouched, or its last token starts at a cell that stands for one.\<close>

definition cell_ok :: "tokenizer \<Rightarrow> ustring \<Rightarrow> usize \<Rightarrow> viterbi_cell list \<Rightarrow> usize \<Rightarrow> bool" where
  "cell_ok t chars i cells j \<longleftrightarrow>
     (case vc_id (cells ! j) of
        None \<Rightarrow> vc_score (cells ! j) = (if j = 0 then 0 else NEG_INFINITY)
      | Some tid \<Rightarrow> vc_prev (cells ! j) \<le> i \<and> edge t chars (vc_prev (cells ! j)) j tid
          \<and> (vc_prev (cells ! j) = 0 \<or> vc_id (cells ! vc_prev (cells ! j)) \<noteq> None)
          \<and> vc_score (cells ! j) = fadd (vc_score (cells ! vc_prev (cells ! j))) (token_score t tid))"

definition cells_ok :: "tokenizer \<Rightarrow> ustring \<Rightarrow> usize \<Rightarrow> viterbi_cell list \<Rightarrow> bool" where
  "cells_ok t chars i cells \<longleftrightarrow>
     length cells = Suc (length chars) \<and> vc_id (cells ! 0) = None \<and> (\<forall>j \<le> length chars. cell_ok t chars i cells j)"

lemma relax_ok:
  assumes ok: "cells_ok t chars i cells" and len: "0 < len" "len \<le> 32" "i + len \<le> length chars"
    and reached: "i = 0 \<or> vc_id (cells ! i) \<noteq> None"
  shows "cells_ok t chars i (relax t chars i len cells)"
    and "\<And>k. k \<le> i \<Longrightarrow> relax t chars i len cells ! k = cells ! k"
proof -
  show same: "relax t chars i len cells ! k = cells ! k" if "k \<le> i" for k
    using that len by (auto simp: relax_def Let_def split: option.split)
  show "cells_ok t chars i (relax t chars i len cells)"
  proof (cases "tk_token_to_id t (take len (drop i chars))")
    case None
    then show ?thesis using ok by (simp add: relax_def Let_def)
  next
    case (Some tid)
    let ?new = "fadd (vc_score (cells ! i)) (token_score t tid)"
    show ?thesis
    proof (cases "f32_less (vc_score (cells ! (i + len))) ?new")
      case False
      then show ?thesis using ok Some by (simp add: relax_def Let_def)
    next
      case True
      let ?c = "\<lparr>vc_score = ?new, vc_id = Some tid, vc_prev = i\<rparr>"
      have r: "relax t chars i len cells = cells[i + len := ?c]" using True Some by (simp add: relax_def Let_def)
      have l: "i + len < length cells" using ok len by (simp add: cells_ok_def)
      have "cell_ok t chars i (cells[i + len := ?c]) j" if j: "j \<le> length chars" for j
      proof (cases "j = i + len")
        case True
        then show ?thesis using l len reached Some by (auto simp: cell_ok_def edge_def)
      next
        case False
        have "cell_ok t chars i cells j" using ok j by (simp add: cells_ok_def)
        then show ?thesis using False len
          by (auto simp: cell_ok_def split: option.splits)
      qed
      then show ?thesis unfolding r using ok len by (simp add: cells_ok_def)
    qed
  qed
qed

lemma relax_fold_ok:
  assumes "cells_ok t chars i cells" "\<forall>len \<in> set lens. 0 < len \<and> len \<le> 32 \<and> i + len \<le> length chars"
    and "i = 0 \<or> vc_id (cells ! i) \<noteq> None"
  shows "cells_ok t chars i (fold (relax t chars i) lens cells)
    \<and> (\<forall>k \<le> i. fold (relax t chars i) lens cells ! k = cells ! k)"
  using assms
proof (induction lens arbitrary: cells)
  case (Cons len lens)
  have len: "0 < len" "len \<le> 32" "i + len \<le> length chars" using Cons.prems(2) by auto
  note step = relax_ok [OF Cons.prems(1) len Cons.prems(3)]
  have "cells_ok t chars i (fold (relax t chars i) lens (relax t chars i len cells))
    \<and> (\<forall>k \<le> i. fold (relax t chars i) lens (relax t chars i len cells) ! k = relax t chars i len cells ! k)"
    by (rule Cons.IH [OF step(1)]) (use Cons.prems step(2) in auto)
  then show ?case using step(2) by simp
qed simp

lemma relax_from_ok:
  assumes ok: "cells_ok t chars i cells" and i: "i < length chars"
  shows "cells_ok t chars (Suc i) (relax_from t chars i cells)"
proof -
  have weaken: "cells_ok t chars (Suc i) cells'" if "cells_ok t chars i cells'" for cells'
    using that by (auto simp: cells_ok_def cell_ok_def split: option.splits)
  show ?thesis
  proof (cases "vc_score (cells ! i) = NEG_INFINITY")
    case True
    then show ?thesis using weaken [OF ok] by (simp add: relax_from_def)
  next
    case False
    have "cell_ok t chars i cells i" using ok i by (simp add: cells_ok_def)
    then have "i = 0 \<or> vc_id (cells ! i) \<noteq> None" using False by (auto simp: cell_ok_def split: option.splits if_splits)
    then have "cells_ok t chars i (fold (relax t chars i) [1..<Suc (min (length chars - i) 32)] cells)"
      by (intro relax_fold_ok [THEN conjunct1, OF ok]) (auto simp del: upt_Suc)
    then show ?thesis using False weaken by (simp add: relax_from_def del: upt_Suc)
  qed
qed

lemma initial_ok: "cells_ok t chars 0 (initial_cells (length chars))"
  by (auto simp: cells_ok_def cell_ok_def initial_cells_def nth_list_update simp del: replicate_Suc)

lemma viterbi_prefix_ok:
  "k \<le> length chars \<Longrightarrow> cells_ok t chars k (fold (relax_from t chars) [0..<k] (initial_cells (length chars)))"
  by (induction k) (simp_all add: initial_ok relax_from_ok)

lemma viterbi_ok: "cells_ok t chars (length chars) (viterbi t chars)"
  unfolding viterbi_def by (rule viterbi_prefix_ok) simp

text \<open>The walk back reads the path off the cells.\<close>

lemma backtrack_path:
  assumes ok: "cells_ok t chars i cells"
  shows "pos \<le> length chars \<Longrightarrow> pos = 0 \<or> vc_id (cells ! pos) \<noteq> None \<Longrightarrow>
    \<exists>ids. path t chars pos ids \<and> ids_score t ids = vc_score (cells ! pos)
      \<and> (\<forall>fuel acc. pos \<le> fuel \<longrightarrow> backtrack t chars cells fuel pos acc = ids @ acc)"
proof (induction pos rule: less_induct)
  case (less pos)
  have cell: "cell_ok t chars i cells pos" using ok less.prems(1) by (simp add: cells_ok_def)
  show ?case
  proof (cases "pos = 0")
    case True
    have stop: "backtrack t chars cells fuel 0 acc = acc" for fuel acc by (cases fuel) simp_all
    have "vc_score (cells ! 0) = 0" using cell True ok by (simp add: cell_ok_def cells_ok_def)
    then show ?thesis using True path_start stop by (intro exI [where x = "[]"]) (simp add: ids_score_def)
  next
    case False
    then obtain tid where tid: "vc_id (cells ! pos) = Some tid" using less.prems(2) by auto
    let ?p = "vc_prev (cells ! pos)"
    have e: "edge t chars ?p pos tid" "?p = 0 \<or> vc_id (cells ! ?p) \<noteq> None"
      "vc_score (cells ! pos) = fadd (vc_score (cells ! ?p)) (token_score t tid)"
      using cell tid by (auto simp: cell_ok_def)
    have p: "?p < pos" using e(1) by (simp add: edge_def)
    obtain ids where ids: "path t chars ?p ids" "ids_score t ids = vc_score (cells ! ?p)"
      "\<And>fuel acc. ?p \<le> fuel \<Longrightarrow> backtrack t chars cells fuel ?p acc = ids @ acc"
      using less.IH [OF p _ e(2)] less.prems(1) p by auto
    have "backtrack t chars cells fuel pos acc = (ids @ [tid]) @ acc" if "pos \<le> fuel" for fuel acc
      using that p False tid ids(3) by (cases fuel) auto
    moreover have "path t chars pos (ids @ [tid])" by (rule path_step [OF ids(1) e(1)])
    ultimately show ?thesis using ids(2) e(3) by (intro exI [where x = "ids @ [tid]"]) (simp add: ids_score_append)
  qed
qed

text \<open>The scores of a vocabulary are numbers: none is infinite or NaN. Then no sum of them is NaN.\<close>

definition scores_finite :: "tokenizer \<Rightarrow> bool" where "scores_finite t \<longleftrightarrow> list_all f32_finite (tk_scores t)"

lemma token_score_finite: "scores_finite t \<Longrightarrow> f32_finite (token_score t tid)"
  by (auto simp: scores_finite_def token_score_def nth_opt_def list_all_iff zero_number)

lemma ids_score_not_nan: "scores_finite t \<Longrightarrow> \<not> f32_nan_p (ids_score t ids)"
proof (induction ids rule: rev_induct)
  case (snoc tid ids)
  then show ?case by (simp add: ids_score_append fadd_not_nan token_score_finite)
qed (simp add: ids_score_def zero_number)

text \<open>\<open>covers i L\<close>: no path whose last token starts before \<open>i\<close>, or at \<open>i\<close> with at most \<open>L\<close> characters, beats its cell.\<close>

definition covers :: "tokenizer \<Rightarrow> ustring \<Rightarrow> usize \<Rightarrow> usize \<Rightarrow> viterbi_cell list \<Rightarrow> bool" where
  "covers t chars i L cells \<longleftrightarrow>
     length cells = Suc (length chars) \<and> (\<forall>c \<in> set cells. \<not> f32_nan_p (vc_score c)) \<and> f32_le 0 (vc_score (cells ! 0))
     \<and> (\<forall>p j tid ids. path t chars p ids \<longrightarrow> edge t chars p j tid \<longrightarrow> p < i \<or> (p = i \<and> j - i \<le> L) \<longrightarrow>
          f32_le (ids_score t (ids @ [tid])) (vc_score (cells ! j)))"

lemma covers_cell:
  assumes "covers t chars i L cells" "path t chars i ids"
  shows "f32_le (ids_score t ids) (vc_score (cells ! i))"
  using assms(2)
proof (cases rule: path.cases)
  case path_start
  then show ?thesis using assms(1) by (simp add: covers_def ids_score_def)
next
  case (path_step p ids' tid)
  then have "p < i" by (simp add: edge_def)
  then show ?thesis using assms(1) path_step unfolding covers_def by blast
qed

lemma length_relax [simp]: "length (relax t chars i len cells) = length cells"
  by (simp add: relax_def Let_def split: option.split)

text \<open>A relaxation only raises scores, and makes none NaN.\<close>

lemma relax_not_nan:
  assumes "scores_finite t" "\<forall>c \<in> set cells. \<not> f32_nan_p (vc_score c)" "i < length cells"
  shows "\<forall>c \<in> set (relax t chars i len cells). \<not> f32_nan_p (vc_score c)"
proof -
  have "\<not> f32_nan_p (fadd (vc_score (cells ! i)) (token_score t tid))" for tid
    using assms by (intro fadd_not_nan token_score_finite) simp_all
  then show ?thesis using assms(2) by (auto simp: relax_def Let_def dest!: set_update_subset_insert [THEN subsetD] split: option.split)
qed

lemma relax_grows:
  assumes "scores_finite t" "\<forall>c \<in> set cells. \<not> f32_nan_p (vc_score c)" "j < length cells" "i + len < length cells"
  shows "f32_le (vc_score (cells ! j)) (vc_score (relax t chars i len cells ! j))"
proof -
  have old: "\<not> f32_nan_p (vc_score (cells ! j))" using assms(2,3) by simp
  then show ?thesis
    using assms(4) by (cases "i + len = j") (auto simp: relax_def Let_def f32_le_refl f32_less_def f32_le_def split: option.split)
qed

lemma relax_covers:
  assumes fin: "scores_finite t" and cov: "covers t chars i len cells" and len: "i + Suc len \<le> length chars"
  shows "covers t chars i (Suc len) (relax t chars i (Suc len) cells)"
proof -
  have cells: "length cells = Suc (length chars)" "\<forall>c \<in> set cells. \<not> f32_nan_p (vc_score c)" using cov by (simp_all add: covers_def)
  note grow = relax_grows [OF fin cells(2), of _ i "Suc len" chars]
  have new: "f32_le (ids_score t (ids @ [tid])) (vc_score (relax t chars i (Suc len) cells ! j))"
    if p: "path t chars i ids" and e: "edge t chars i j tid" "j - i = Suc len" for j ids tid
  proof -
    have j: "j = i + Suc len" and tid: "tk_token_to_id t (take (Suc len) (drop i chars)) = Some tid"
      using e by (auto simp: edge_def)
    let ?new = "fadd (vc_score (cells ! i)) (token_score t tid)"
    have le: "f32_le (ids_score t (ids @ [tid])) ?new"
      unfolding ids_score_append by (rule f32_le_fadd [OF covers_cell [OF cov p] token_score_finite [OF fin]])
    have "\<not> f32_nan_p (vc_score (cells ! j))" using cells len j by simp
    then have "f32_le ?new (vc_score (relax t chars i (Suc len) cells ! j))"
      using len cells(1) le by (auto simp: relax_def Let_def tid j f32_le_not_less)
    then show ?thesis by (rule f32_le_trans [OF le])
  qed
  show ?thesis unfolding covers_def
  proof (intro conjI allI impI)
    show "length (relax t chars i (Suc len) cells) = Suc (length chars)" using cells by simp
    show "\<forall>c \<in> set (relax t chars i (Suc len) cells). \<not> f32_nan_p (vc_score c)"
      by (rule relax_not_nan [OF fin cells(2)]) (use cells len in simp)
    show "f32_le 0 (vc_score (relax t chars i (Suc len) cells ! 0))"
      using cov len cells by (intro f32_le_trans [OF _ grow]) (simp_all add: covers_def)
    fix p j tid ids
    assume a: "path t chars p ids" "edge t chars p j tid" "p < i \<or> (p = i \<and> j - i \<le> Suc len)"
    show "f32_le (ids_score t (ids @ [tid])) (vc_score (relax t chars i (Suc len) cells ! j))"
    proof (cases "p = i \<and> j - i = Suc len")
      case True
      then show ?thesis using new a by blast
    next
      case False
      then have "p < i \<or> (p = i \<and> j - i \<le> len)" using a(3) by linarith
      then have "f32_le (ids_score t (ids @ [tid])) (vc_score (cells ! j))"
        using cov a(1,2) unfolding covers_def by blast
      then show ?thesis using a(2) len cells(1) by (intro f32_le_trans [OF _ grow]) (simp_all add: edge_def)
    qed
  qed
qed

lemma relax_fold_covers:
  "scores_finite t \<Longrightarrow> covers t chars i 0 cells \<Longrightarrow> i + l \<le> length chars \<Longrightarrow>
     covers t chars i l (fold (relax t chars i) [1..<Suc l] cells)"
proof (induction l)
  case (Suc l)
  then have "covers t chars i l (fold (relax t chars i) [1..<Suc l] cells)" by simp
  then show ?case using relax_covers [OF Suc.prems(1), of chars i l] Suc.prems(3) by simp
qed simp

lemma relax_from_covers:
  assumes fin: "scores_finite t" and cov: "covers t chars i 0 cells" and i: "i < length chars"
  shows "covers t chars (Suc i) 0 (relax_from t chars i cells)"
proof (cases "vc_score (cells ! i) = NEG_INFINITY")
  case True
  have "f32_le (ids_score t (ids @ [tid])) (vc_score (cells ! j))" if "path t chars i ids" "j \<le> length chars" for j ids tid
  proof -
    have "f32_le (ids_score t (ids @ [tid])) NEG_INFINITY"
      using f32_le_fadd [OF covers_cell [OF cov that(1)] token_score_finite [OF fin], of tid] neg_infinity_fadd [OF token_score_finite [OF fin]]
      by (simp add: True ids_score_append)
    moreover have "\<not> f32_nan_p (vc_score (cells ! j))" using cov that(2) by (simp add: covers_def)
    ultimately show ?thesis using f32_le_trans neg_infinity_least by blast
  qed
  then show ?thesis using cov True unfolding covers_def relax_from_def
    by (auto simp: less_Suc_eq edge_def)
next
  case False
  let ?l = "min (length chars - i) 32"
  have "covers t chars i ?l (fold (relax t chars i) [1..<Suc ?l] cells)"
    by (rule relax_fold_covers [OF fin cov]) (use i in simp)
  then show ?thesis using False unfolding covers_def relax_from_def
    by (auto simp: less_Suc_eq edge_def simp del: upt_Suc)
qed

lemma initial_covers: "covers t chars 0 0 (initial_cells (length chars))"
  by (auto simp: covers_def initial_cells_def edge_def f32_le_refl zero_number neg_infinity_order simp del: replicate_Suc
      dest!: set_update_subset_insert [THEN subsetD])

lemma viterbi_covers:
  assumes fin: "scores_finite t"
  shows "covers t chars (length chars) 0 (viterbi t chars)"
proof -
  have "k \<le> length chars \<Longrightarrow> covers t chars k 0 (fold (relax_from t chars) [0..<k] (initial_cells (length chars)))" for k
    by (induction k) (simp_all add: initial_covers relax_from_covers [OF fin])
  then show ?thesis by (simp add: viterbi_def)
qed

text \<open>
  C37: SentencePiece encoding is optimal. When every score of the vocabulary is a number (not infinite or NaN) and
  the text has a tokenization, into tokens of at most 32 characters, whose score does not overflow to minus infinity,
  the result is a tokenization of the text and its score is at least that of every such tokenization, in the rounded \<open>f32\<close>
  sums and the order of \<open>f32\<close>; neither score is NaN. With infinite scores the claim fails: the sum of both infinities
  is NaN, which compares with nothing.
\<close>

theorem sentencepiece_optimal:
  assumes fin: "\<forall>s \<in> set (tk_scores t). f32_finite s"
    and p: "path t (sentencepiece_text t text) (length (sentencepiece_text t text)) ids"
    and reaches: "ids_score t ids \<noteq> NEG_INFINITY"
  shows "path t (sentencepiece_text t text) (length (sentencepiece_text t text)) (encode_sentencepiece t text)
    \<and> f32_le (ids_score t ids) (ids_score t (encode_sentencepiece t text))"
proof (cases "text = []")
  case True
  have none: "sentencepiece_text t [] = []" by (simp add: sentencepiece_text_def)
  have "ids = []" using p unfolding True none by (cases rule: path.cases) (auto simp: edge_def)
  then show ?thesis
    using path_start by (simp add: True none encode_sentencepiece_def ids_score_def f32_le_refl zero_number)
next
  case False
  let ?chars = "sentencepiece_text t text"
  let ?cells = "viterbi t ?chars" and ?n = "length ?chars"
  have "scores_finite t" using fin by (simp add: scores_finite_def list_all_iff)
  then have best: "f32_le (ids_score t ids) (vc_score (?cells ! ?n))" using covers_cell [OF viterbi_covers p] by blast
  then have reached: "vc_score (?cells ! ?n) \<noteq> NEG_INFINITY" using below_neg_infinity reaches by auto
  have "cell_ok t ?chars ?n ?cells ?n" using viterbi_ok [of t ?chars] by (simp add: cells_ok_def)
  then have "?n = 0 \<or> vc_id (?cells ! ?n) \<noteq> None" using reached by (auto simp: cell_ok_def split: option.splits if_splits)
  from backtrack_path [OF viterbi_ok [of t ?chars] _ this]
  obtain r where "path t ?chars ?n r" "ids_score t r = vc_score (?cells ! ?n)" "backtrack t ?chars ?cells ?n ?n [] = r"
    by fastforce
  moreover have "encode_sentencepiece t text = backtrack t ?chars ?cells ?n ?n []"
    using False reached by (simp add: encode_sentencepiece_def Let_def)
  ultimately show ?thesis using best by simp
qed

subsection \<open>The vocabulary of a model is well formed\<close>

definition tokenizer_wf :: "tokenizer \<Rightarrow> bool" where
  "tokenizer_wf t \<longleftrightarrow>
     (\<forall>s tid. tk_token_to_id t s = Some tid \<longrightarrow> tid < vocabulary_size t \<and> tk_tokens t ! tid = s)
     \<and> (\<forall>i < vocabulary_size t. \<exists>j \<le> i. tk_token_to_id t (tk_tokens t ! i) = Some j)
     \<and> (\<forall>b tid. tk_byte_tokens t b = Some tid \<longrightarrow> tid < vocabulary_size t)
     \<and> (\<forall>(s, tid) \<in> set (tk_special_tokens t). s \<noteq> [] \<and> tid < vocabulary_size t \<and> tk_tokens t ! tid = s)
     \<and> sorted (map (\<lambda>e. - int (byte_len (fst e))) (tk_special_tokens t))"

lemma enumerate_u32_eq: "length xs \<le> 2 ^ 32 \<Longrightarrow> enumerate_u32 xs = zip xs [0..<length xs]"
proof -
  assume "length xs \<le> 2 ^ 32"
  then have "map (\<lambda>i. i mod 2 ^ 32) [0..<length xs] = [0..<length xs]" by (intro map_idI) simp
  then show ?thesis by (simp add: enumerate_u32_def)
qed

lemma set_enumerate: "e \<in> set (zip xs [0..<length xs]) \<longleftrightarrow> snd e < length xs \<and> fst e = xs ! snd e"
  by (cases e) (auto simp: set_zip)

lemma fold_insert_new: "fold insert_new es m k = (case m k of Some v \<Rightarrow> Some v | None \<Rightarrow> map_of es k)"
  by (induction es arbitrary: m) (auto simp: insert_new_def split: option.splits)

lemma map_of_enumerate:
  "map_of (zip xs [0..<length xs]) s = Some i \<Longrightarrow> i < length xs \<and> xs ! i = s"
  by (drule map_of_SomeD) (auto simp: set_zip)

lemma map_of_enumerate_first:
  assumes "i < length xs"
  shows "\<exists>j \<le> i. map_of (zip xs [0..<length xs]) (xs ! i) = Some j"
  using assms
proof (induction xs arbitrary: i rule: rev_induct)
  case (snoc x xs)
  have z: "zip (xs @ [x]) [0..<length (xs @ [x])] = zip xs [0..<length xs] @ [(x, length xs)]" by simp
  show ?case
  proof (cases "i < length xs")
    case True
    then obtain j where "j \<le> i" "map_of (zip xs [0..<length xs]) (xs ! i) = Some j" using snoc.IH by blast
    then show ?thesis unfolding z using True by (auto simp: nth_append map_add_def)
  next
    case False
    then have i: "i = length xs" using snoc.prems by simp
    show ?thesis
    proof (cases "map_of (zip xs [0..<length xs]) x")
      case None
      have "map_of (zip xs [0..<length xs] @ [(x, length xs)]) x = Some (length xs)"
        by (simp only: map_of_append map_add_def None) simp
      then show ?thesis unfolding z i by auto
    next
      case (Some j)
      then have "j < length xs" using map_of_enumerate by metis
      then show ?thesis unfolding z i using Some by (auto simp: map_add_def)
    qed
  qed
qed simp

lemma byte_tokens_range:
  assumes "\<forall>e \<in> set es. snd e < n" "\<forall>s tid. ids s = Some tid \<longrightarrow> tid < n" "\<forall>b tid. m b = Some tid \<longrightarrow> tid < n"
  shows "fold (add_byte_token types ids) es m b = Some tid \<Longrightarrow> tid < n"
  using assms
proof (induction es arbitrary: m)
  case (Cons e es)
  have "\<forall>b tid. add_byte_token types ids e m b = Some tid \<longrightarrow> tid < n"
    using Cons.prems(2-4) by (auto simp: add_byte_token_def insert_new_def split: if_splits option.splits)
  then show ?case using Cons by simp
qed auto

lemma special_tokens_range:
  assumes "length tokens \<le> 2 ^ 32" "e \<in> set (build_special_tokens tokens types)"
  shows "fst e \<noteq> [] \<and> snd e < length tokens \<and> tokens ! snd e = fst e"
proof -
  let ?z = "zip (zip tokens [0..<length tokens]) [0..<length tokens]"
  let ?P = "\<lambda>(e, i). starts_with (fst e) [60] \<and> 1 < byte_len (fst e)
      \<and> nth_opt types i \<in> {Some TokenControl, Some TokenUserDefined}"
  have "e \<in> fst ` {x \<in> set ?z. ?P x}"
    using assms(2) by (simp only: build_special_tokens_def enumerate_u32_eq [OF assms(1)] set_sort set_map set_filter)
  then obtain x where x: "x \<in> set ?z" "?P x" "e = fst x" by blast
  obtain i where "x = (e, i)" using x(3) by (cases x) simp
  then have i: "(e, i) \<in> set ?z" "1 < byte_len (fst e)" using x(1,2) by simp_all
  have "e \<in> set (zip tokens [0..<length tokens])" using i(1) by (rule set_zip_leftD)
  with i(2) show ?thesis unfolding set_enumerate by (auto simp: byte_len_def utf8_bytes_def)
qed

lemma from_gguf_wf:
  assumes t: "tokenizer_from_gguf g = Ok t" and small: "vocabulary_size t \<le> 2 ^ 32"
  shows "tokenizer_wf t"
proof -
  have fields: "tk_token_to_id t = build_token_to_id (tk_tokens t)"
    "tk_byte_tokens t = build_byte_tokens (tk_tokens t) (tk_token_types t) (tk_token_to_id t)"
    "tk_special_tokens t = build_special_tokens (tk_tokens t) (tk_token_types t)"
    using t unfolding tokenizer_from_gguf_def Let_def rbind_eq_Ok by auto
  have len: "length (tk_tokens t) \<le> 2 ^ 32" using small by (simp add: vocabulary_size_def)
  have ids: "tk_token_to_id t s = map_of (zip (tk_tokens t) [0..<length (tk_tokens t)]) s" for s
    by (simp add: fields(1) build_token_to_id_def fold_insert_new enumerate_u32_eq [OF len])
  show ?thesis unfolding tokenizer_wf_def vocabulary_size_def
  proof (intro conjI)
    show "\<forall>s tid. tk_token_to_id t s = Some tid \<longrightarrow> tid < length (tk_tokens t) \<and> tk_tokens t ! tid = s"
      unfolding ids by (intro allI impI) (rule map_of_enumerate)
    then have range: "\<forall>s tid. tk_token_to_id t s = Some tid \<longrightarrow> tid < length (tk_tokens t)" by blast
    show "\<forall>i < length (tk_tokens t). \<exists>j \<le> i. tk_token_to_id t (tk_tokens t ! i) = Some j"
      unfolding ids by (intro allI impI) (rule map_of_enumerate_first)
    show "\<forall>b tid. tk_byte_tokens t b = Some tid \<longrightarrow> tid < length (tk_tokens t)"
      unfolding fields(2) build_byte_tokens_def enumerate_u32_eq [OF len]
      by (intro allI impI, erule byte_tokens_range [rotated 3]) (use range in \<open>auto dest: set_zip_rightD\<close>)
    show "\<forall>(s, tid) \<in> set (tk_special_tokens t). s \<noteq> [] \<and> tid < length (tk_tokens t) \<and> tk_tokens t ! tid = s"
      using special_tokens_range [OF len] unfolding fields(3) by fastforce
    show "sorted (map (\<lambda>e. - int (byte_len (fst e))) (tk_special_tokens t))"
      by (simp add: fields(3) build_special_tokens_def)
  qed
qed

subsection \<open>Encoding always ends, with known tokens\<close>

text \<open>The ids encoding can emit for text.\<close>

definition known_id :: "tokenizer \<Rightarrow> nat \<Rightarrow> bool" where
  "known_id t tid \<longleftrightarrow> (\<exists>s. tk_token_to_id t s = Some tid) \<or> (\<exists>b. tk_byte_tokens t b = Some tid) \<or> tk_unk_id t = Some tid"

lemma known_lookup: "tk_token_to_id t s = Some tid \<Longrightarrow> known_id t tid"
  by (auto simp: known_id_def)

lemma known_fallback: "tid \<in> set (byte_fallback t b) \<Longrightarrow> known_id t tid"
  by (cases "tk_unk_id t") (auto simp: byte_fallback_def known_id_def split: option.splits)

lemma known_greedy: "tid \<in> set (encode_greedy t s) \<Longrightarrow> known_id t tid"
proof (induction t s rule: encode_greedy.induct)
  case (2 t c cs)
  show ?case
  proof (cases "longest_match t (c # cs)")
    case None
    then show ?thesis using 2 known_fallback known_lookup by (auto split: option.splits)
  next
    case (Some l)
    obtain i where "tk_token_to_id t (take l (c # cs)) = Some i" using longest_match_Some [OF Some] by auto
    then show ?thesis using 2 Some known_lookup by auto
  qed
qed simp

lemma known_bpe: "tid \<in> set (encode_bpe t s) \<Longrightarrow> known_id t tid"
  using known_greedy known_fallback known_lookup
  by (auto simp: encode_bpe_def piece_ids_def Let_def split: if_splits option.splits)

lemma known_path: "path t chars j ids \<Longrightarrow> tid \<in> set ids \<Longrightarrow> known_id t tid"
  by (induction rule: path.induct) (auto simp: edge_def known_lookup)

lemma sentencepiece_cases:
  "encode_sentencepiece t text = encode_greedy t (sentencepiece_text t text)
   \<or> path t (sentencepiece_text t text) (length (sentencepiece_text t text)) (encode_sentencepiece t text)"
proof (cases "text = []")
  case True
  then show ?thesis by (simp add: encode_sentencepiece_def sentencepiece_text_def)
next
  case False
  let ?chars = "sentencepiece_text t text"
  let ?cells = "viterbi t ?chars" and ?n = "length ?chars"
  show ?thesis
  proof (cases "vc_score (?cells ! ?n) = NEG_INFINITY")
    case True
    then show ?thesis using False by (simp add: encode_sentencepiece_def Let_def)
  next
    case reached: False
    have "cell_ok t ?chars ?n ?cells ?n" using viterbi_ok [of t ?chars] by (simp add: cells_ok_def)
    then have "?n = 0 \<or> vc_id (?cells ! ?n) \<noteq> None" using reached by (auto simp: cell_ok_def split: option.splits if_splits)
    from backtrack_path [OF viterbi_ok [of t ?chars] _ this]
    have "path t ?chars ?n (backtrack t ?chars ?cells ?n ?n [])" by fastforce
    then show ?thesis using False reached by (simp add: encode_sentencepiece_def Let_def)
  qed
qed

lemma known_plain: "tid \<in> set (encode_plain t s) \<Longrightarrow> known_id t tid"
  using sentencepiece_cases [of t s] known_path known_greedy known_bpe
  by (metis encode_plain_def)

lemma special_loop_total:
  "\<forall>e \<in> set (tk_special_tokens t). fst e \<noteq> [] \<Longrightarrow> length rest \<le> fuel \<Longrightarrow>
     \<exists>r. encode_special_loop t fuel ids normal rest = Some r
       \<and> (\<forall>tid \<in> set r. tid \<in> set ids \<or> known_id t tid \<or> tid \<in> snd ` set (tk_special_tokens t))"
proof (induction t fuel ids normal rest rule: encode_special_loop.induct)
  case (1 t fuel ids normal)
  then show ?case using known_plain by auto
next
  case (3 t fuel ids normal c cs)
  show ?case
  proof (cases "find_special t (c # cs)")
    case None
    then show ?thesis using 3 by simp
  next
    case (Some e)
    obtain token tid where e: "e = (token, tid)" by (cases e)
    have member: "e \<in> set (tk_special_tokens t)"
      using Some unfolding find_special_def by (auto simp: find_Some_iff)
    then have "token \<noteq> []" using 3(3) e by auto
    then have "length (drop (length token) (c # cs)) \<le> fuel" using 3(4) by (cases token) auto
    from 3(2) [OF Some e [symmetric] 3(3) this] obtain r where
      r: "encode_special_loop t fuel ((if normal = [] then ids else ids @ encode_plain t normal) @ [tid]) []
          (drop (length token) (c # cs)) = Some r"
      "\<forall>x \<in> set r. x \<in> set ((if normal = [] then ids else ids @ encode_plain t normal) @ [tid])
         \<or> known_id t x \<or> x \<in> snd ` set (tk_special_tokens t)" by blast
    have "tid \<in> snd ` set (tk_special_tokens t)" using member e by force
    moreover have "x \<in> set (encode_plain t normal) \<Longrightarrow> known_id t x" for x by (rule known_plain)
    ultimately have "\<forall>x \<in> set r. x \<in> set ids \<or> known_id t x \<or> x \<in> snd ` set (tk_special_tokens t)"
      using r(2) by (auto split: if_splits)
    moreover have "encode_special_loop t (Suc fuel) ids normal (c # cs) = Some r" using Some e r(1) by simp
    ultimately show ?thesis by blast
  qed
qed simp

lemma encode_known:
  assumes wf: "tokenizer_wf t"
  shows "\<exists>ids. encode t text b = Some ids
    \<and> (\<forall>tid \<in> set ids. tid < vocabulary_size t \<or> Some tid \<in> {tk_bos_id t, tk_eos_id t, tk_unk_id t})"
proof -
  have known: "tid < vocabulary_size t \<or> tk_unk_id t = Some tid" if "known_id t tid" for tid
    using wf that by (auto simp: tokenizer_wf_def known_id_def)
  have special: "tid < vocabulary_size t" if "tid \<in> snd ` set (tk_special_tokens t)" for tid
    using wf that by (auto simp: tokenizer_wf_def)
  have nonempty: "\<forall>e \<in> set (tk_special_tokens t). fst e \<noteq> []" using wf by (auto simp: tokenizer_wf_def)
  obtain r where r: "encode_with_special_tokens t text = Some r"
    "\<forall>tid \<in> set r. known_id t tid \<or> tid \<in> snd ` set (tk_special_tokens t)"
  proof (cases "tk_special_tokens t = []")
    case True
    then show thesis using that [of "encode_plain t text"] known_plain by (auto simp: encode_with_special_tokens_def)
  next
    case False
    obtain r where "encode_special_loop t (length text) [] [] text = Some r"
      "\<forall>tid \<in> set r. tid \<in> set [] \<or> known_id t tid \<or> tid \<in> snd ` set (tk_special_tokens t)"
      using special_loop_total [OF nonempty order_refl] by blast
    then show thesis using that [of r] False by (auto simp: encode_with_special_tokens_def)
  qed
  have set_option_list: "x \<in> set (option_list y) \<longleftrightarrow> y = Some x" for x and y :: "nat option" by (cases y) auto
  show ?thesis using r known special by (force simp: encode_def set_option_list)
qed

text \<open>
  C39: a tokenizer read from a model, with at most 2^32 tokens, is well formed: the lookup finds exactly
  the strings of the vocabulary, at their first index; byte fallbacks and special tokens point into the
  vocabulary; special tokens are non-empty and come longest first. With it, encoding ends for every
  text, and every id it returns is in the vocabulary or one of the ids the model names for begin, end
  and unknown.
\<close>

theorem tokenizer_from_gguf_sound:
  assumes "tokenizer_from_gguf g = Ok t" and "vocabulary_size t \<le> 2 ^ 32"
  shows "tokenizer_wf t
    \<and> (\<exists>ids. encode t text b = Some ids
        \<and> (\<forall>tid \<in> set ids. tid < vocabulary_size t \<or> Some tid \<in> {tk_bos_id t, tk_eos_id t, tk_unk_id t}))"
  using from_gguf_wf [OF assms] encode_known by blast

text \<open>
  The byte pair encoder sees only the words of a text and whether it starts with white space: runs of
  white space, and line breaks, are lost when the vocabulary marks words.
\<close>

lemma pre_tokenize_ignores_spacing:
  assumes "list_ex (\<lambda>s. starts_with s [G_DOT]) (tk_tokens t)" and "split_whitespace a = split_whitespace b"
    and "(a \<noteq> [] \<and> whitespace (hd a)) = (b \<noteq> [] \<and> whitespace (hd b))"
  shows "pre_tokenize_bpe t a = pre_tokenize_bpe t b"
  unfolding pre_tokenize_bpe_def assms(2,3) using assms(1) by simp

subsection \<open>Examples\<close>

text \<open>Three tokens with the scores 1, 2 and 5.\<close>

definition example_tokenizer :: tokenizer where
  "example_tokenizer =
     \<lparr>tk_model = ''llama'', tk_pre = None, tk_tokens = [[97], [98], [97, 98]], tk_scores = [0x3F800000, 0x40000000, 0x40A00000],
      tk_token_types = [], tk_merges = None, tk_bos_id = None, tk_eos_id = None, tk_unk_id = None, tk_pad_id = None,
      tk_add_bos = False, tk_add_eos = False, tk_token_to_id = build_token_to_id [[97], [98], [97, 98]],
      tk_merges_rank = [], tk_byte_tokens = Map.empty, tk_special_tokens = []\<rparr>"

lemma example_lookup: "tk_token_to_id example_tokenizer [97] = Some 0" "tk_token_to_id example_tokenizer [98] = Some 1"
  by (simp_all add: example_tokenizer_def build_token_to_id_def enumerate_u32_def insert_new_def)

lemma example_score: "ids_score example_tokenizer [0, 1] = 0x40400000"
proof -
  have "f32_class 0x3F800000 = Finite False (2 ^ 23) (- 23)" "f32_class 0 = Finite False 0 (- 149)"
    "f32_class 0x40000000 = Finite False (2 ^ 23) (- 22)" by (simp_all add: f32_field_defs)
  then have "fadd 0 0x3F800000 = 0x3F800000" "fadd 0x3F800000 0x40000000 = 0x40400000"
    by (simp_all add: f32_op_defs bit_length_numeral)
  then show ?thesis by (simp add: ids_score_def token_score_def nth_opt_def example_tokenizer_def)
qed

theorem sentencepiece_optimal_witness:
  "path example_tokenizer [97, 98] 2 (encode_sentencepiece example_tokenizer [97, 98])
   \<and> f32_le 0x40400000 (ids_score example_tokenizer (encode_sentencepiece example_tokenizer [97, 98]))"
proof -
  have input: "sentencepiece_text example_tokenizer [97, 98] = [97, 98]"
    by (simp add: sentencepiece_text_def example_tokenizer_def LOWER_BLOCK_def)
  have "path example_tokenizer [97, 98] 1 ([] @ [0])"
    by (rule path_step [OF path_start]) (simp add: edge_def example_lookup)
  then have "path example_tokenizer [97, 98] 2 (([] @ [0]) @ [1])"
    by (rule path_step) (simp add: edge_def example_lookup)
  then have p: "path example_tokenizer (sentencepiece_text example_tokenizer [97, 98])
      (length (sentencepiece_text example_tokenizer [97, 98])) [0, 1]" by (simp add: input numeral_2_eq_2)
  have "\<forall>s \<in> set (tk_scores example_tokenizer). f32_finite s"
    by (simp add: example_tokenizer_def f32_finite_def f32_exp_def)
  moreover have "ids_score example_tokenizer [0, 1] \<noteq> NEG_INFINITY" unfolding example_score by (simp add: NEG_INFINITY_def)
  ultimately show ?thesis using sentencepiece_optimal [OF _ p] unfolding input example_score by (simp add: numeral_2_eq_2)
qed

definition example_vocabulary :: gguf_model where
  "example_vocabulary =
     \<lparr>file_size = 100, gm_version = 3,
      metadata = [(''tokenizer.ggml.tokens'', Array TString [String ''<0xE2>'', String ''<0x82>'', String ''<0xAC>''])],
      tensors = [], alignment = 32, data_start_offset = 64\<rparr>"

theorem tokenizer_from_gguf_sound_witness:
  "\<exists>t. tokenizer_from_gguf example_vocabulary = Ok t \<and> tokenizer_wf t
     \<and> (\<exists>ids. encode t [97] True = Some ids)"
proof -
  obtain t where t: "tokenizer_from_gguf example_vocabulary = Ok t" "length (tk_tokens t) = 3"
    by (simp add: tokenizer_from_gguf_def example_vocabulary_def get_metadata_def metadata_array_def Let_def)
  then have "vocabulary_size t \<le> 2 ^ 32" by (simp add: vocabulary_size_def)
  from tokenizer_from_gguf_sound [OF t(1) this] t(1) show ?thesis by blast
qed

text \<open>
  Greedy matching falls back to the first byte of an unknown character only: with byte tokens for all
  three bytes of the euro sign, its encoding decodes to a replacement character.
\<close>

definition example_bytes :: "tokenizer" where
  "example_bytes = example_tokenizer\<lparr>tk_tokens := map ustr [''<0xE2>'', ''<0x82>'', ''<0xAC>''],
     tk_token_to_id := build_token_to_id (map ustr [''<0xE2>'', ''<0x82>'', ''<0xAC>'']),
     tk_byte_tokens := [226 \<mapsto> 0, 130 \<mapsto> 1, 172 \<mapsto> 2]\<rparr>"

lemma example_hex:
  "hex_token (ustr ''<0xE2>'') = Some 226" "hex_token (ustr ''<0x82>'') = Some 130" "hex_token (ustr ''<0xAC>'') = Some 172"
  by code_simp+

lemma example_push:
  "i < 3 \<Longrightarrow> push example_bytes i d =
     drain_bytes example_bytes False (d\<lparr>td_pending := td_pending d @ [[226, 130, 172] ! i]\<rparr>)"
  using example_hex by (auto simp: push_def nth_opt_def example_bytes_def example_tokenizer_def less_Suc_eq numeral_3_eq_3)

lemma greedy_drops_bytes:
  "encode_greedy example_bytes [8364] = [0]" "decode example_bytes [0] = [REPLACEMENT]"
  "decode example_bytes [0, 1, 2] = [8364]"
proof -
  have "tk_token_to_id example_bytes [8364] = None"
    by (simp add: example_bytes_def build_token_to_id_def enumerate_u32_def insert_new_def ustr_def)
  then show "encode_greedy example_bytes [8364] = [0]"
    by (simp add: longest_match_def byte_fallback_def utf8_char.simps example_bytes_def)
  show "decode example_bytes [0] = [REPLACEMENT]"
    by (simp add: decode_def finish_def decoder_new_def example_push drain_bytes.simps utf8_scan.simps utf8_next_def
        utf8_lossy.simps emit_text_def trim_start_def whitespace_def REPLACEMENT_def)
  show "decode example_bytes [0, 1, 2] = [8364]"
    by (simp add: decode_def finish_def decoder_new_def example_push drain_bytes.simps utf8_scan.simps utf8_next_def
        utf8_lossy.simps emit_text_def trim_start_def whitespace_def continuation_def second_of_three_def)
qed

end
