(* ===== verification/Chat_Template.thy ===== *)
theory Chat_Template
  imports Unicode_Text Gguf_Model
begin

section \<open>Chat templates: reading\<close>

text \<open>
  \<open>crates/ramforge-core/src/chat_template.rs\<close>, from the source to the nodes of a template. Characters
  are scalar values; a position in a text or in a token list is the rest from there on. What the code takes
  from \<open>f64\<close> and from the Unicode tables (\<open>is_alphabetic\<close>, \<open>is_alphanumeric\<close>) is the parameter
  \<open>template_ops\<close>. The parsers are recursive descent without a bound on the nesting; here they take fuel,
  \<open>Panic\<close> stands for its end, and \<open>parse_total\<close> shows that the fuel given is always enough.
\<close>

subsection \<open>Values, expressions and nodes\<close>

record chat_message =
  cm_role :: ustring
  cm_content :: ustring

definition message_system :: "ustring \<Rightarrow> chat_message" where
  "message_system content = \<lparr>cm_role = ustr ''system'', cm_content = content\<rparr>"

definition message_user :: "ustring \<Rightarrow> chat_message" where
  "message_user content = \<lparr>cm_role = ustr ''user'', cm_content = content\<rparr>"

definition message_assistant :: "ustring \<Rightarrow> chat_message" where
  "message_assistant content = \<lparr>cm_role = ustr ''assistant'', cm_content = content\<rparr>"

datatype chat_template_error = TemplateMissing | TemplateParse string | TemplateUnsupported string | TemplateRender string

record 'n template_ops =
  to_parse :: "ustring \<Rightarrow> 'n option"
  to_display :: "'n \<Rightarrow> ustring"
  to_integral :: "'n \<Rightarrow> bool"
  to_as_i64 :: "'n \<Rightarrow> int"
  to_as_index :: "'n \<Rightarrow> usize"
  to_is_zero :: "'n \<Rightarrow> bool"
  to_of_nat :: "nat \<Rightarrow> 'n"
  to_add :: "'n \<Rightarrow> 'n \<Rightarrow> 'n"
  to_sub :: "'n \<Rightarrow> 'n \<Rightarrow> 'n"
  to_eq :: "'n \<Rightarrow> 'n \<Rightarrow> bool"
  to_less :: "'n \<Rightarrow> 'n \<Rightarrow> bool"
  to_less_eq :: "'n \<Rightarrow> 'n \<Rightarrow> bool"
  to_alphabetic :: "nat \<Rightarrow> bool"
  to_alphanumeric :: "nat \<Rightarrow> bool"

datatype 'n template_value =
    VUndefined
  | VNull
  | VBool bool
  | VNumber 'n
  | VString ustring
  | VList "'n template_value list"
  | VObject "(ustring \<times> 'n template_value) list"

datatype binary_operator = OpAdd | OpSubtract | OpEqual | OpNotEqual | OpLess | OpLessOrEqual | OpGreater
  | OpGreaterOrEqual | OpAnd | OpOr

datatype 'n expression =
    Literal "'n template_value"
  | Variable ustring
  | Member "'n expression" ustring
  | Index "'n expression" "'n expression"
  | UnaryNot "'n expression"
  | Binary binary_operator "'n expression" "'n expression"
  | IsDefined "'n expression"
  | Filter "'n expression" ustring

datatype 'n template_node =
    TextNode ustring
  | OutputNode "'n expression"
  | IfNode "('n expression \<times> 'n template_node list) list" "'n template_node list option"
  | ForNode ustring "'n expression" "'n template_node list"
  | SetNode ustring "'n expression"

subsection \<open>Splitting the source into texts and tags\<close>

datatype template_token = TextToken ustring | ExpressionTag ustring | StatementTag ustring

definition trim_end :: "ustring \<Rightarrow> ustring" where "trim_end s = rev (dropWhile whitespace (rev s))"

definition trim_text :: "ustring \<Rightarrow> ustring" where "trim_text s = trim_end (trim_start s)"

text \<open>The number of characters before the terminator, which is not looked for inside quotes.\<close>

fun find_tag_end :: "ustring \<Rightarrow> nat option \<Rightarrow> bool \<Rightarrow> ustring \<Rightarrow> nat option" where
  "find_tag_end marker quote escaped [] = None"
| "find_tag_end marker quote escaped (c # cs) =
     (if escaped then map_option Suc (find_tag_end marker quote False cs)
      else (case quote of
          Some active \<Rightarrow>
            if c = 92 then map_option Suc (find_tag_end marker quote True cs)
            else if c = active then map_option Suc (find_tag_end marker None False cs)
            else map_option Suc (find_tag_end marker quote False cs)
        | None \<Rightarrow>
            if c = 39 \<or> c = 34 then map_option Suc (find_tag_end marker (Some c) False cs)
            else if starts_with (c # cs) marker then Some 0
            else map_option Suc (find_tag_end marker None False cs)))"

definition closing_marker :: "nat \<Rightarrow> nat option" where
  "closing_marker c = (if c = 123 then Some 125 else if c = 37 then Some 37 else if c = 35 then Some 35 else None)"

text \<open>The token of a tag; a comment has none.\<close>

definition tag_tokens :: "nat \<Rightarrow> ustring \<Rightarrow> (template_token list, chat_template_error) result" where
  "tag_tokens close content =
     (if close = 35 then Ok []
      else if content = [] then Err (TemplateParse ''empty template tag'')
      else Ok [if close = 125 then ExpressionTag content else StatementTag content])"

definition text_tokens :: "ustring \<Rightarrow> template_token list" where
  "text_tokens s = (if s = [] then [] else [TextToken s])"

lemma find_tag_end_bound: "find_tag_end marker quote escaped s = Some n \<Longrightarrow> n \<le> length s"
  by (induction marker quote escaped s arbitrary: n rule: find_tag_end.induct) (auto split: if_splits option.splits)

text \<open>\<open>text\<close> is the text since the last tag, \<open>trim_next\<close> whether that tag asked to trim it.\<close>

function tokenize_from :: "ustring \<Rightarrow> bool \<Rightarrow> ustring \<Rightarrow> (template_token list, chat_template_error) result" where
  "tokenize_from txt trim_next (a # b # rest) =
     (case (if a = 123 then closing_marker b else None) of
        None \<Rightarrow> tokenize_from (txt @ [a]) trim_next (b # rest)
      | Some close \<Rightarrow>
          let trim_before = (rest \<noteq> [] \<and> hd rest = 45);
              content_rest = (if trim_before then tl rest else rest) in
          (case find_tag_end [close, 125] None False content_rest of
             None \<Rightarrow> Err (TemplateParse ''unterminated template tag'')
           | Some n \<Rightarrow>
               let raw = take n content_rest;
                   trim_after = (raw \<noteq> [] \<and> last raw = 45);
                   content = trim_text (if trim_after then butlast raw else raw);
                   kept = (if trim_next then trim_start txt else txt) in
               rbind (tag_tokens close content) (\<lambda>tag.
               rbind (tokenize_from [] trim_after (drop (n + 2) content_rest)) (\<lambda>tokens.
                 Ok (text_tokens (if trim_before then trim_end kept else kept) @ tag @ tokens)))))"
| "tokenize_from txt trim_next [c] = Ok (text_tokens (if trim_next then trim_start (txt @ [c]) else txt @ [c]))"
| "tokenize_from txt trim_next [] = Ok (text_tokens (if trim_next then trim_start txt else txt))"
  by pat_completeness auto
termination by (relation "measure (\<lambda>(txt, trim_next, rest). length rest)") auto

definition tokenize_template :: "ustring \<Rightarrow> (template_token list, chat_template_error) result" where
  "tokenize_template source = tokenize_from [] False source"

subsection \<open>Expressions: tokens\<close>

datatype 'n expression_token =
    TIdentifier ustring
  | TNumber 'n
  | TStr ustring
  | TOperator ustring
  | TLeftParen
  | TRightParen
  | TLeftBracket
  | TRightBracket
  | TDot
  | TPipe

definition ascii_digit :: "nat \<Rightarrow> bool" where "ascii_digit c \<longleftrightarrow> 48 \<le> c \<and> c \<le> 57"

definition unescape :: "nat \<Rightarrow> nat" where
  "unescape c = (if c = 110 then 10 else if c = 114 then 13 else if c = 116 then 9 else c)"

text \<open>A string literal behind its opening quote: its value and the rest.\<close>

fun string_literal :: "nat \<Rightarrow> ustring \<Rightarrow> (ustring \<times> ustring, chat_template_error) result" where
  "string_literal quote [] = Err (TemplateParse ''unterminated string literal'')"
| "string_literal quote (c # cs) =
     (if c = quote then Ok ([], cs)
      else if c = 92 then
        (case cs of
           [] \<Rightarrow> Err (TemplateParse ''trailing escape in string literal'')
         | e # cs' \<Rightarrow> rbind (string_literal quote cs') (\<lambda>(v, rest). Ok (unescape e # v, rest)))
      else rbind (string_literal quote cs) (\<lambda>(v, rest). Ok (c # v, rest)))"

definition single_token :: "nat \<Rightarrow> ('n expression_token, chat_template_error) result" where
  "single_token c =
     (if c \<in> {43, 45, 62, 60} then Ok (TOperator [c])
      else if c = 40 then Ok TLeftParen
      else if c = 41 then Ok TRightParen
      else if c = 91 then Ok TLeftBracket
      else if c = 93 then Ok TRightBracket
      else if c = 46 then Ok TDot
      else if c = 124 then Ok TPipe
      else if c = 44 then Err (TemplateUnsupported ''comma-separated expression'')
      else Err (TemplateUnsupported ''operator''))"

definition two_character_operators :: "ustring list" where
  "two_character_operators = [[61, 61], [33, 61], [62, 61], [60, 61]]"

text \<open>
  The first token of a text that starts with \<open>c\<close>, no white space, and the rest. An alphabetic character is
  alphanumeric, so an identifier has its first character.
\<close>

definition next_token ::
  "'n template_ops \<Rightarrow> nat \<Rightarrow> ustring \<Rightarrow> ('n expression_token \<times> ustring, chat_template_error) result"
where
  "next_token ops c cs =
     (if c = 39 \<or> c = 34 then rbind (string_literal c cs) (\<lambda>(v, rest). Ok (TStr v, rest))
      else if ascii_digit c then
        (let run = (\<lambda>x. ascii_digit x \<or> x = 46) in
         rbind (ok_or (TemplateParse ''invalid number literal'') (to_parse ops (takeWhile run (c # cs)))) (\<lambda>n.
           Ok (TNumber n, dropWhile run (c # cs))))
      else if to_alphabetic ops c \<or> c = 95 then
        (let run = (\<lambda>x. to_alphanumeric ops x \<or> x = 95) in Ok (TIdentifier (c # takeWhile run cs), dropWhile run cs))
      else (case cs of
          d # cs' \<Rightarrow>
            if [c, d] \<in> set two_character_operators then Ok (TOperator [c, d], cs')
            else rbind (single_token c) (\<lambda>t. Ok (t, cs))
        | [] \<Rightarrow> rbind (single_token c) (\<lambda>t. Ok (t, []))))"

lemma string_literal_shorter: "string_literal quote s = Ok (v, rest) \<Longrightarrow> length rest < length s"
proof (induction quote s arbitrary: v rest rule: string_literal.induct)
  case (2 quote c cs)
  then show ?case by (fastforce simp: rbind_eq_Ok less_Suc_eq split: if_splits list.splits)
qed simp

lemma next_token_shorter: "next_token ops c cs = Ok (t, rest) \<Longrightarrow> length rest \<le> length cs"
  by (auto simp: next_token_def rbind_eq_Ok length_dropWhile_le Let_def ascii_digit_def
      dest!: string_literal_shorter split: if_splits list.splits)

function tokenize_expression :: "'n template_ops \<Rightarrow> ustring \<Rightarrow> ('n expression_token list, chat_template_error) result" where
  "tokenize_expression ops [] = Ok []"
| "tokenize_expression ops (c # cs) =
     (if whitespace c then tokenize_expression ops cs
      else rbind (next_token ops c cs) (\<lambda>(t, rest). rbind (tokenize_expression ops rest) (\<lambda>ts. Ok (t # ts))))"
  by pat_completeness auto
termination
  by (relation "measure (\<lambda>(ops, s). length s)") (auto dest!: next_token_shorter)

subsection \<open>Expressions: the parser\<close>

type_synonym 'n parsed = "('n expression \<times> 'n expression_token list, chat_template_error) result"

definition out_of_fuel :: "('a, 'e) result" where "out_of_fuel = Panic ''out of fuel''"

definition comparison_operator :: "'n expression_token list \<Rightarrow> binary_operator option" where
  "comparison_operator ts =
     (case ts of
        TOperator s # _ \<Rightarrow> map_of
          [([61, 61], OpEqual), ([33, 61], OpNotEqual), ([60], OpLess), ([60, 61], OpLessOrEqual), ([62], OpGreater),
           ([62, 61], OpGreaterOrEqual)] s
      | _ \<Rightarrow> None)"

definition concat_operator :: "'n expression_token list \<Rightarrow> binary_operator option" where
  "concat_operator ts =
     (case ts of TOperator s # _ \<Rightarrow> map_of [([43], OpAdd), ([45], OpSubtract)] s | _ \<Rightarrow> None)"

definition keyword :: "string \<Rightarrow> 'n expression_token list \<Rightarrow> bool" where
  "keyword k ts = (case ts of TIdentifier s # _ \<Rightarrow> s = ustr k | _ \<Rightarrow> False)"

definition identifier_expression :: "ustring \<Rightarrow> 'n expression" where
  "identifier_expression s =
     (if s \<in> {ustr ''true'', ustr ''True''} then Literal (VBool True)
      else if s \<in> {ustr ''false'', ustr ''False''} then Literal (VBool False)
      else if s \<in> {ustr ''none'', ustr ''None'', ustr ''null''} then Literal VNull
      else Variable s)"

text \<open>
  The methods call each other. Each is a definition over \<open>self\<close>, the methods as their calls see them;
  \<open>expression_parser\<close> ties the knot, one unit of fuel per call.
\<close>

datatype 'n parser_call =
    ParseOr
  | OrLoop "'n expression"
  | ParseAnd
  | AndLoop "'n expression"
  | ParseNot
  | ParseComparison
  | ParseConcat
  | ConcatLoop "'n expression"
  | ParsePostfix
  | PostfixLoop "'n expression"
  | ParsePrimary

type_synonym 'n methods = "'n parser_call \<Rightarrow> 'n expression_token list \<Rightarrow> 'n parsed"

definition parse_or :: "'n methods \<Rightarrow> 'n expression_token list \<Rightarrow> 'n parsed" where
  "parse_or self ts = rbind (self ParseAnd ts) (\<lambda>(e, ts'). self (OrLoop e) ts')"

definition or_loop :: "'n methods \<Rightarrow> 'n expression \<Rightarrow> 'n expression_token list \<Rightarrow> 'n parsed" where
  "or_loop self e ts =
     (if keyword ''or'' ts
      then rbind (self ParseAnd (tl ts)) (\<lambda>(r, ts'). self (OrLoop (Binary OpOr e r)) ts')
      else Ok (e, ts))"

definition parse_and :: "'n methods \<Rightarrow> 'n expression_token list \<Rightarrow> 'n parsed" where
  "parse_and self ts = rbind (self ParseNot ts) (\<lambda>(e, ts'). self (AndLoop e) ts')"

definition and_loop :: "'n methods \<Rightarrow> 'n expression \<Rightarrow> 'n expression_token list \<Rightarrow> 'n parsed" where
  "and_loop self e ts =
     (if keyword ''and'' ts
      then rbind (self ParseNot (tl ts)) (\<lambda>(r, ts'). self (AndLoop (Binary OpAnd e r)) ts')
      else Ok (e, ts))"

definition parse_not :: "'n methods \<Rightarrow> 'n expression_token list \<Rightarrow> 'n parsed" where
  "parse_not self ts =
     (if keyword ''not'' ts then rbind (self ParseNot (tl ts)) (\<lambda>(e, ts'). Ok (UnaryNot e, ts'))
      else self ParseComparison ts)"

definition parse_comparison :: "'n methods \<Rightarrow> 'n expression_token list \<Rightarrow> 'n parsed" where
  "parse_comparison self ts =
     rbind (self ParseConcat ts) (\<lambda>(e, ts').
       if keyword ''is'' ts' then
         (if keyword ''defined'' (tl ts') then Ok (IsDefined e, tl (tl ts'))
          else Err (TemplateUnsupported ''only the is defined test is supported''))
       else (case comparison_operator ts' of
           Some op \<Rightarrow> rbind (self ParseConcat (tl ts')) (\<lambda>(r, ts''). Ok (Binary op e r, ts''))
         | None \<Rightarrow> Ok (e, ts')))"

definition parse_concat :: "'n methods \<Rightarrow> 'n expression_token list \<Rightarrow> 'n parsed" where
  "parse_concat self ts = rbind (self ParsePostfix ts) (\<lambda>(e, ts'). self (ConcatLoop e) ts')"

definition concat_loop :: "'n methods \<Rightarrow> 'n expression \<Rightarrow> 'n expression_token list \<Rightarrow> 'n parsed" where
  "concat_loop self e ts =
     (case concat_operator ts of
        Some op \<Rightarrow> rbind (self ParsePostfix (tl ts)) (\<lambda>(r, ts'). self (ConcatLoop (Binary op e r)) ts')
      | None \<Rightarrow> Ok (e, ts))"

definition parse_postfix :: "'n methods \<Rightarrow> 'n expression_token list \<Rightarrow> 'n parsed" where
  "parse_postfix self ts = rbind (self ParsePrimary ts) (\<lambda>(e, ts'). self (PostfixLoop e) ts')"

definition member_name :: "'n template_ops \<Rightarrow> 'n expression_token list \<Rightarrow> ustring option" where
  "member_name ops ts =
     (case ts of TIdentifier m # _ \<Rightarrow> Some m | TNumber x # _ \<Rightarrow> Some (to_display ops x) | _ \<Rightarrow> None)"

definition filter_name :: "'n expression_token list \<Rightarrow> ustring option" where
  "filter_name ts = (case ts of TIdentifier f # _ \<Rightarrow> Some f | _ \<Rightarrow> None)"

definition postfix_loop ::
  "'n template_ops \<Rightarrow> 'n methods \<Rightarrow> 'n expression \<Rightarrow> 'n expression_token list \<Rightarrow> 'n parsed"
where
  "postfix_loop ops self e ts =
     (case ts of
        TDot # ts' \<Rightarrow>
          rbind (ok_or (TemplateParse ''member access requires a name'') (member_name ops ts')) (\<lambda>m.
            self (PostfixLoop (Member e m)) (tl ts'))
      | TLeftBracket # ts' \<Rightarrow>
          rbind (self ParseOr ts') (\<lambda>(i, ts'').
            (case ts'' of
               TRightBracket # ts3 \<Rightarrow> self (PostfixLoop (Index e i)) ts3
             | _ \<Rightarrow> Err (TemplateParse ''missing closing bracket'')))
      | TPipe # ts' \<Rightarrow>
          rbind (ok_or (TemplateParse ''filter name must be an identifier'') (filter_name ts')) (\<lambda>f.
            self (PostfixLoop (Filter e f)) (tl ts'))
      | _ \<Rightarrow> Ok (e, ts))"

definition parse_primary :: "'n methods \<Rightarrow> 'n expression_token list \<Rightarrow> 'n parsed" where
  "parse_primary self ts =
     (case ts of
        TStr s # ts' \<Rightarrow> Ok (Literal (VString s), ts')
      | TNumber x # ts' \<Rightarrow> Ok (Literal (VNumber x), ts')
      | TIdentifier s # ts' \<Rightarrow> Ok (identifier_expression s, ts')
      | TLeftParen # ts' \<Rightarrow>
          rbind (self ParseOr ts') (\<lambda>(e, ts'').
            (case ts'' of TRightParen # ts3 \<Rightarrow> Ok (e, ts3) | _ \<Rightarrow> Err (TemplateParse ''missing closing parenthesis'')))
      | TLeftBracket # ts' \<Rightarrow>
          (case ts' of
             TRightBracket # ts'' \<Rightarrow> Ok (Literal (VList []), ts'')
           | _ \<Rightarrow> Err (TemplateUnsupported ''non-empty list literal''))
      | _ \<Rightarrow> Err (TemplateParse ''expected expression''))"

fun call_method :: "'n template_ops \<Rightarrow> 'n methods \<Rightarrow> 'n methods" where
  "call_method ops self ParseOr ts = parse_or self ts"
| "call_method ops self (OrLoop e) ts = or_loop self e ts"
| "call_method ops self ParseAnd ts = parse_and self ts"
| "call_method ops self (AndLoop e) ts = and_loop self e ts"
| "call_method ops self ParseNot ts = parse_not self ts"
| "call_method ops self ParseComparison ts = parse_comparison self ts"
| "call_method ops self ParseConcat ts = parse_concat self ts"
| "call_method ops self (ConcatLoop e) ts = concat_loop self e ts"
| "call_method ops self ParsePostfix ts = parse_postfix self ts"
| "call_method ops self (PostfixLoop e) ts = postfix_loop ops self e ts"
| "call_method ops self ParsePrimary ts = parse_primary self ts"

primrec expression_parser :: "'n template_ops \<Rightarrow> nat \<Rightarrow> 'n methods" where
  "expression_parser ops 0 = (\<lambda>m ts. out_of_fuel)"
| "expression_parser ops (Suc n) = call_method ops (expression_parser ops n)"

definition expression_fuel :: "'n expression_token list \<Rightarrow> nat" where "expression_fuel ts = 8 * Suc (length ts)"

definition parse_expression :: "'n template_ops \<Rightarrow> ustring \<Rightarrow> ('n expression, chat_template_error) result" where
  "parse_expression ops source =
     rbind (map_err (\<lambda>_. TemplateParse ''in expression'') (tokenize_expression ops source)) (\<lambda>tokens.
     rbind (expression_parser ops (expression_fuel tokens) ParseOr tokens) (\<lambda>(e, rest).
       if rest \<noteq> [] then Err (TemplateParse ''unexpected expression token'') else Ok e))"

subsection \<open>The expression parser ends\<close>

lemmas method_defs = parse_or_def or_loop_def parse_and_def and_loop_def parse_not_def parse_comparison_def
  parse_concat_def concat_loop_def parse_postfix_def postfix_loop_def parse_primary_def

fun method_rank :: "'n parser_call \<Rightarrow> nat" where
  "method_rank ParseOr = 7"
| "method_rank ParseAnd = 6"
| "method_rank ParseNot = 5"
| "method_rank ParseComparison = 4"
| "method_rank ParseConcat = 3"
| "method_rank ParsePostfix = 2"
| "method_rank _ = 1"

fun is_loop :: "'n parser_call \<Rightarrow> bool" where
  "is_loop (OrLoop e) = True"
| "is_loop (AndLoop e) = True"
| "is_loop (ConcatLoop e) = True"
| "is_loop (PostfixLoop e) = True"
| "is_loop _ = False"

text \<open>A call is good when it does not run out of fuel and leaves fewer tokens, a loop no more.\<close>

definition good :: "'n parser_call \<Rightarrow> 'n expression_token list \<Rightarrow> 'n parsed \<Rightarrow> bool" where
  "good m ts r \<longleftrightarrow>
     (case r of
        Ok (e, ts') \<Rightarrow> if is_loop m then length ts' \<le> length ts else length ts' < length ts
      | Err x \<Rightarrow> True
      | Panic msg \<Rightarrow> False)"

lemma good_Ok: "good m ts (Ok (e, ts')) \<longleftrightarrow> (if is_loop m then length ts' \<le> length ts else length ts' < length ts)"
  by (simp add: good_def)

lemma good_Err [simp]: "good m ts (Err x)"
  by (simp add: good_def)

lemma good_bind:
  assumes "good m ts r" and "\<And>e ts'. length ts' < length ts \<or> (is_loop m \<and> length ts' \<le> length ts) \<Longrightarrow> good m' us (f (e, ts'))"
  shows "good m' us (rbind r f)"
proof (cases r)
  case (Ok x)
  obtain e ts' where x: "x = (e, ts')" by (cases x)
  then have "length ts' < length ts \<or> (is_loop m \<and> length ts' \<le> length ts)"
    using assms(1) Ok by (auto simp: good_def split: if_splits)
  then show ?thesis using assms(2) Ok x by simp
qed (use assms(1) in \<open>auto simp: good_def\<close>)

lemma good_weaken:
  "good m ts r \<Longrightarrow> length ts < length us \<or> (length ts \<le> length us \<and> (is_loop m' \<or> \<not> is_loop m)) \<Longrightarrow> good m' us r"
  by (auto simp: good_def split: result.splits if_splits)

lemma keyword_Cons: "keyword k ts \<Longrightarrow> \<exists>t us. ts = t # us"
  by (cases ts) (auto simp: keyword_def)

lemma operator_Cons: "comparison_operator ts = Some op \<Longrightarrow> \<exists>t us. ts = t # us" "concat_operator ts = Some op \<Longrightarrow> \<exists>t us. ts = t # us"
  by (cases ts; auto simp: comparison_operator_def concat_operator_def)+

lemma call_good:
  assumes self: "\<And>m' ts'. 8 * length ts' + method_rank m' < 8 * length ts + method_rank m \<Longrightarrow> good m' ts' (self m' ts')"
  shows "good m ts (call_method ops self m ts)"
proof (cases m)
  case ParseOr
  show ?thesis unfolding ParseOr call_method.simps parse_or_def split_beta
    by (intro good_bind [OF self [unfolded ParseOr]]) (auto intro!: good_weaken [OF self [unfolded ParseOr]])
next
  case (OrLoop e)
  show ?thesis
  proof (cases "keyword ''or'' ts")
    case True
    then obtain t us where "ts = t # us" using keyword_Cons by blast
    with True OrLoop show ?thesis unfolding OrLoop call_method.simps or_loop_def split_beta
      by (auto intro!: good_bind [OF self] good_weaken [OF self])
  qed (simp add: OrLoop or_loop_def good_def)
next
  case ParseAnd
  show ?thesis unfolding ParseAnd call_method.simps parse_and_def split_beta
    by (intro good_bind [OF self [unfolded ParseAnd]]) (auto intro!: good_weaken [OF self [unfolded ParseAnd]])
next
  case (AndLoop e)
  show ?thesis
  proof (cases "keyword ''and'' ts")
    case True
    then obtain t us where "ts = t # us" using keyword_Cons by blast
    with True AndLoop show ?thesis unfolding AndLoop call_method.simps and_loop_def split_beta
      by (auto intro!: good_bind [OF self] good_weaken [OF self])
  qed (simp add: AndLoop and_loop_def good_def)
next
  case ParseNot
  show ?thesis
  proof (cases "keyword ''not'' ts")
    case True
    then obtain t us where "ts = t # us" using keyword_Cons by blast
    with True ParseNot show ?thesis unfolding ParseNot call_method.simps parse_not_def split_beta
      by (auto intro!: good_bind [OF self] simp: good_Ok)
  next
    case False
    then show ?thesis using ParseNot by (auto simp: parse_not_def intro!: good_weaken [OF self])
  qed
next
  case ParseComparison
  have tail: "good ParseComparison ts
      (if keyword ''is'' ts' then
         (if keyword ''defined'' (tl ts') then Ok (IsDefined e, tl (tl ts'))
          else Err (TemplateUnsupported ''only the is defined test is supported''))
       else (case comparison_operator ts' of
           Some op \<Rightarrow> rbind (self ParseConcat (tl ts')) (\<lambda>(r, ts''). Ok (Binary op e r, ts''))
         | None \<Rightarrow> Ok (e, ts')))" if "length ts' < length ts" for e ts'
  proof (cases "comparison_operator ts'")
    case (Some op)
    then obtain t us where "ts' = t # us" using operator_Cons by blast
    with Some that ParseComparison show ?thesis
      by (auto intro!: good_bind [OF self] simp: good_Ok split_beta)
  qed (use that in \<open>auto simp: good_def\<close>)
  show ?thesis unfolding ParseComparison call_method.simps parse_comparison_def
    by (rule good_bind [OF self [unfolded ParseComparison]], simp, simp only: prod.case, rule tail) simp
next
  case ParseConcat
  show ?thesis unfolding ParseConcat call_method.simps parse_concat_def split_beta
    by (intro good_bind [OF self [unfolded ParseConcat]]) (auto intro!: good_weaken [OF self [unfolded ParseConcat]])
next
  case (ConcatLoop e)
  show ?thesis
  proof (cases "concat_operator ts")
    case (Some op)
    then obtain t us where "ts = t # us" using operator_Cons by blast
    with Some ConcatLoop show ?thesis unfolding ConcatLoop call_method.simps concat_loop_def split_beta
      by (auto intro!: good_bind [OF self] good_weaken [OF self])
  qed (simp add: ConcatLoop concat_loop_def good_def)
next
  case ParsePostfix
  show ?thesis unfolding ParsePostfix call_method.simps parse_postfix_def split_beta
    by (intro good_bind [OF self [unfolded ParsePostfix]]) (auto intro!: good_weaken [OF self [unfolded ParsePostfix]])
next
  case (PostfixLoop e)
  note self' = self [unfolded PostfixLoop]
  have loop: "good (PostfixLoop e) ts (self (PostfixLoop e') us)" if "length us < length ts" for e' us
    by (rule good_weaken [OF self']) (use that in simp_all)
  show ?thesis
  proof (cases ts)
    case (Cons t us)
    have index: "good (PostfixLoop e) ts
        (rbind (self ParseOr us) (\<lambda>(i, ts''). (case ts'' of
             TRightBracket # ts3 \<Rightarrow> self (PostfixLoop (Index e i)) ts3
           | _ \<Rightarrow> Err (TemplateParse ''missing closing bracket''))))"
      by (rule good_bind [OF self']) (use Cons loop in \<open>auto split: list.split expression_token.split\<close>)
    have "length (tl us) < length ts" using Cons by simp
    from loop [OF this] index show ?thesis unfolding PostfixLoop call_method.simps postfix_loop_def
      by (cases t) (auto simp: Cons good_Ok member_name_def filter_name_def split: list.split expression_token.split)
  qed (simp add: PostfixLoop postfix_loop_def good_Ok)
next
  case ParsePrimary
  show ?thesis
  proof (cases ts)
    case (Cons t us)
    have "good ParsePrimary ts
        (rbind (self ParseOr us) (\<lambda>(e, ts''). (case ts'' of
             TRightParen # ts3 \<Rightarrow> Ok (e, ts3) | _ \<Rightarrow> Err (TemplateParse ''missing closing parenthesis''))))"
      by (rule good_bind [OF self [unfolded ParsePrimary]])
        (use Cons in \<open>auto simp: good_Ok split: list.split expression_token.split\<close>)
    then show ?thesis unfolding ParsePrimary call_method.simps parse_primary_def
      by (cases t) (auto simp: Cons good_Ok split: list.split expression_token.split)
  qed (simp add: ParsePrimary parse_primary_def)
qed

lemma parser_good: "8 * length ts + method_rank m \<le> n \<Longrightarrow> good m ts (expression_parser ops n m ts)"
proof (induction n arbitrary: m ts)
  case 0
  then have False by (cases m) auto
  then show ?case ..
next
  case (Suc n)
  show ?case by (simp, rule call_good, rule Suc.IH) (use Suc.prems in simp)
qed

text \<open>More fuel changes nothing, so the parser satisfies its equations without fuel.\<close>

definition extends :: "'n methods \<Rightarrow> 'n methods \<Rightarrow> bool" where
  "extends self self' \<longleftrightarrow> (\<forall>m ts. is_panic (self m ts) \<or> self' m ts = self m ts)"

lemma extends_bind:
  "extends self self' \<Longrightarrow> (\<And>x. is_panic (f x) \<or> g x = f x) \<Longrightarrow>
     is_panic (rbind (self m ts) f) \<or> rbind (self' m ts) g = rbind (self m ts) f"
proof -
  assume "extends self self'" and f: "\<And>x. is_panic (f x) \<or> g x = f x"
  then have "is_panic (self m ts) \<or> self' m ts = self m ts" by (simp add: extends_def)
  then show ?thesis using f by (cases "self m ts") auto
qed

lemma extends_self: "extends self self' \<Longrightarrow> is_panic (self m ts) \<or> self' m ts = self m ts"
  by (simp add: extends_def)

lemma extends_call: "extends self self' \<Longrightarrow> extends (call_method ops self) (call_method ops self')"
proof -
  assume ext: "extends self self'"
  have "is_panic (call_method ops self m ts) \<or> call_method ops self' m ts = call_method ops self m ts" for m ts
  proof (cases m)
    case ParseComparison
    have "is_panic (rbind (self ParseConcat us) f) \<or> rbind (self' ParseConcat us) f = rbind (self ParseConcat us) f" for us f
      by (rule extends_bind [OF ext]) simp
    then have opt: "is_panic (case x of Some op \<Rightarrow> rbind (self ParseConcat us) (f op) | None \<Rightarrow> Ok y)
        \<or> (case x of Some op \<Rightarrow> rbind (self' ParseConcat us) (f op) | None \<Rightarrow> Ok y)
          = (case x of Some op \<Rightarrow> rbind (self ParseConcat us) (f op) | None \<Rightarrow> Ok y)" for x us f and y :: "'a expression \<times> 'a expression_token list"
      by (cases x) simp_all
    show ?thesis unfolding ParseComparison call_method.simps parse_comparison_def
      by (rule extends_bind [OF ext], rename_tac x, case_tac x) (simp add: opt)
  next
    case (PostfixLoop e)
    show ?thesis
    proof (cases ts)
      case (Cons t us)
      have index: "is_panic (case x of (i, TRightBracket # ts3) \<Rightarrow> self (PostfixLoop (Index e i)) ts3 | _ \<Rightarrow> r)
          \<or> (case x of (i, TRightBracket # ts3) \<Rightarrow> self' (PostfixLoop (Index e i)) ts3 | _ \<Rightarrow> r)
            = (case x of (i, TRightBracket # ts3) \<Rightarrow> self (PostfixLoop (Index e i)) ts3 | _ \<Rightarrow> r)" for x r
        using extends_self [OF ext] by (auto split: prod.split list.split expression_token.split)
      have filt: "is_panic (rbind (ok_or x y) (\<lambda>m. self (PostfixLoop (f m)) vs))
          \<or> rbind (ok_or x y) (\<lambda>m. self' (PostfixLoop (f m)) vs) = rbind (ok_or x y) (\<lambda>m. self (PostfixLoop (f m)) vs)" for x y f vs
        using extends_self [OF ext] by (cases y) auto
      show ?thesis unfolding PostfixLoop call_method.simps postfix_loop_def Cons
        by (cases t) (simp_all add: filt extends_bind [OF ext index])
    qed (simp add: PostfixLoop postfix_loop_def)
  next
    case ParsePrimary
    show ?thesis
    proof (cases ts)
      case (Cons t us)
      have "is_panic (rbind (self ParseOr us) f) \<or> rbind (self' ParseOr us) f = rbind (self ParseOr us) f" for f
        by (rule extends_bind [OF ext]) simp
      then show ?thesis unfolding ParsePrimary call_method.simps parse_primary_def Cons
        by (cases t) simp_all
    qed (simp add: ParsePrimary parse_primary_def)
  qed (auto simp: method_defs split_beta intro!: extends_bind [OF ext] extends_self [OF ext] split: option.split)
  then show ?thesis by (simp add: extends_def)
qed

lemma parser_extends: "extends (expression_parser ops n) (expression_parser ops (n + k))"
proof (induction n)
  case 0
  show ?case by (simp add: extends_def out_of_fuel_def)
next
  case (Suc n)
  then show ?case using extends_call by simp
qed

definition parser :: "'n template_ops \<Rightarrow> 'n methods" where
  "parser ops m ts = expression_parser ops (8 * Suc (length ts)) m ts"

lemma rank_le: "method_rank m \<le> 7" by (cases m) simp_all

lemma good_not_panic: "good m ts r \<Longrightarrow> \<not> is_panic r"
  by (auto simp: good_def split: result.splits)

lemma parser_total: "good m ts (parser ops m ts)"
  unfolding parser_def using rank_le [of m] by (intro parser_good) simp

lemma parser_eq: "\<not> is_panic (expression_parser ops n m ts) \<Longrightarrow> expression_parser ops n m ts = parser ops m ts"
proof -
  assume n: "\<not> is_panic (expression_parser ops n m ts)"
  let ?k = "8 * Suc (length ts)"
  have "expression_parser ops (?k + n) m ts = expression_parser ops ?k m ts"
    using parser_extends [of ops ?k n] good_not_panic [OF parser_total [of m ts ops]]
    unfolding extends_def parser_def by blast
  moreover have "expression_parser ops (n + ?k) m ts = expression_parser ops n m ts"
    using parser_extends [of ops n ?k] n unfolding extends_def by blast
  ultimately show ?thesis by (simp add: parser_def add.commute)
qed

text \<open>The parser without fuel: every method is its definition over the parser itself.\<close>

lemma parser_unfold: "parser ops m ts = call_method ops (parser ops) m ts"
proof -
  let ?n = "8 * Suc (length ts)"
  have "extends (expression_parser ops ?n) (parser ops)"
    unfolding extends_def using parser_eq by metis
  then have ext: "extends (call_method ops (expression_parser ops ?n)) (call_method ops (parser ops))" by (rule extends_call)
  have "8 * length ts + method_rank m \<le> Suc ?n" using rank_le [of m] by simp
  then have total: "\<not> is_panic (expression_parser ops (Suc ?n) m ts)" by (rule good_not_panic [OF parser_good])
  then have "parser ops m ts = expression_parser ops (Suc ?n) m ts" by (rule parser_eq [symmetric])
  also have "\<dots> = call_method ops (parser ops) m ts"
    using ext total unfolding extends_def by (metis expression_parser.simps(2))
  finally show ?thesis .
qed

subsection \<open>The expression grammar: printing and parsing\<close>

text \<open>
  The levels of the grammar, from \<open>or\<close> (0) to the postfix operators (5), and a printer that sets
  parentheses only where the level of an operand demands them.
\<close>

fun operator_level :: "binary_operator \<Rightarrow> nat" where
  "operator_level OpOr = 0"
| "operator_level OpAnd = 1"
| "operator_level OpAdd = 4"
| "operator_level OpSubtract = 4"
| "operator_level _ = 3"

fun left_level :: "binary_operator \<Rightarrow> nat" where
  "left_level op = (if operator_level op = 3 then 4 else operator_level op)"

fun right_level :: "binary_operator \<Rightarrow> nat" where "right_level op = Suc (operator_level op)"

fun expression_level :: "'n expression \<Rightarrow> nat" where
  "expression_level (Binary op l r) = operator_level op"
| "expression_level (UnaryNot e) = 2"
| "expression_level (IsDefined e) = 3"
| "expression_level _ = 5"

fun operator_token :: "binary_operator \<Rightarrow> 'n expression_token" where
  "operator_token OpOr = TIdentifier (ustr ''or'')"
| "operator_token OpAnd = TIdentifier (ustr ''and'')"
| "operator_token OpAdd = TOperator [43]"
| "operator_token OpSubtract = TOperator [45]"
| "operator_token OpEqual = TOperator [61, 61]"
| "operator_token OpNotEqual = TOperator [33, 61]"
| "operator_token OpLess = TOperator [60]"
| "operator_token OpLessOrEqual = TOperator [60, 61]"
| "operator_token OpGreater = TOperator [62]"
| "operator_token OpGreaterOrEqual = TOperator [62, 61]"

definition wrap :: "nat \<Rightarrow> 'n expression \<Rightarrow> 'n expression_token list \<Rightarrow> 'n expression_token list" where
  "wrap k e ts = (if expression_level e < k then TLeftParen # ts @ [TRightParen] else ts)"

fun print_literal :: "'n template_value \<Rightarrow> 'n expression_token list" where
  "print_literal (VString s) = [TStr s]"
| "print_literal (VNumber x) = [TNumber x]"
| "print_literal (VBool b) = [TIdentifier (ustr (if b then ''true'' else ''false''))]"
| "print_literal VNull = [TIdentifier (ustr ''none'')]"
| "print_literal _ = [TLeftBracket, TRightBracket]"

fun print_expression :: "'n expression \<Rightarrow> 'n expression_token list" where
  "print_expression (Literal v) = print_literal v"
| "print_expression (Variable s) = [TIdentifier s]"
| "print_expression (Member e m) = wrap 5 e (print_expression e) @ [TDot, TIdentifier m]"
| "print_expression (Index e i) = wrap 5 e (print_expression e) @ TLeftBracket # print_expression i @ [TRightBracket]"
| "print_expression (UnaryNot e) = TIdentifier (ustr ''not'') # wrap 2 e (print_expression e)"
| "print_expression (Binary op l r) =
     wrap (left_level op) l (print_expression l) @ operator_token op # wrap (right_level op) r (print_expression r)"
| "print_expression (IsDefined e) =
     wrap 4 e (print_expression e) @ [TIdentifier (ustr ''is''), TIdentifier (ustr ''defined'')]"
| "print_expression (Filter e f) = wrap 5 e (print_expression e) @ [TPipe, TIdentifier f]"

text \<open>The expressions the parser can build: literals of the syntax, and variables that are no keywords.\<close>

fun literal_ok :: "'n template_value \<Rightarrow> bool" where
  "literal_ok (VString s) = True"
| "literal_ok (VNumber x) = True"
| "literal_ok (VBool b) = True"
| "literal_ok VNull = True"
| "literal_ok (VList xs) = (xs = [])"
| "literal_ok _ = False"

fun expression_ok :: "'n expression \<Rightarrow> bool" where
  "expression_ok (Literal v) = literal_ok v"
| "expression_ok (Variable s) = (identifier_expression s = (Variable s :: 'n expression) \<and> s \<noteq> ustr ''not'')"
| "expression_ok (Member e m) = expression_ok e"
| "expression_ok (Index e i) = (expression_ok e \<and> expression_ok i)"
| "expression_ok (UnaryNot e) = expression_ok e"
| "expression_ok (Binary op l r) = (expression_ok l \<and> expression_ok r)"
| "expression_ok (IsDefined e) = expression_ok e"
| "expression_ok (Filter e f) = expression_ok e"

fun level_method :: "nat \<Rightarrow> 'n parser_call" where
  "level_method k =
     (if k = 0 then ParseOr else if k = 1 then ParseAnd else if k = 2 then ParseNot else if k = 3 then ParseComparison
      else if k = 4 then ParseConcat else ParsePostfix)"

fun level_loop :: "nat \<Rightarrow> 'n expression \<Rightarrow> 'n parser_call option" where
  "level_loop k e =
     (if k = 0 then Some (OrLoop e) else if k = 1 then Some (AndLoop e) else if k = 4 then Some (ConcatLoop e)
      else if k = 5 then Some (PostfixLoop e) else None)"

text \<open>The next token does not continue an expression of level \<open>k\<close> or above.\<close>

definition postfix_stop :: "'n expression_token list \<Rightarrow> bool" where
  "postfix_stop ts \<longleftrightarrow> (case ts of t # _ \<Rightarrow> t \<notin> {TDot, TLeftBracket, TPipe} | [] \<Rightarrow> True)"

definition stops :: "nat \<Rightarrow> 'n expression_token list \<Rightarrow> bool" where
  "stops k ts \<longleftrightarrow>
     (k \<le> 5 \<longrightarrow> postfix_stop ts)
     \<and> (k \<le> 4 \<longrightarrow> concat_operator ts = None)
     \<and> (k \<le> 3 \<longrightarrow> \<not> keyword ''is'' ts \<and> comparison_operator ts = None)
     \<and> (k \<le> 1 \<longrightarrow> \<not> keyword ''and'' ts)
     \<and> (k = 0 \<longrightarrow> \<not> keyword ''or'' ts)"

definition parses :: "'n template_ops \<Rightarrow> nat \<Rightarrow> 'n expression \<Rightarrow> 'n expression_token list \<Rightarrow> bool" where
  "parses ops k e ts \<longleftrightarrow>
     (\<forall>rest. stops (if level_loop k e = None then k else Suc k) rest \<longrightarrow>
        parser ops (level_method k) (ts @ rest) =
          (case level_loop k e of Some m \<Rightarrow> parser ops m rest | None \<Rightarrow> Ok (e, rest)))"

lemma stops_mono: "stops k ts \<Longrightarrow> k \<le> k' \<Longrightarrow> stops k' ts"
  by (auto simp: stops_def)

lemma loop_stops:
  "stops 0 ts \<Longrightarrow> parser ops (OrLoop e) ts = Ok (e, ts)"
  "stops 1 ts \<Longrightarrow> parser ops (AndLoop e) ts = Ok (e, ts)"
  "stops 4 ts \<Longrightarrow> parser ops (ConcatLoop e) ts = Ok (e, ts)"
  "stops 5 ts \<Longrightarrow> parser ops (PostfixLoop e) ts = Ok (e, ts)"
  by (subst parser_unfold, auto simp: stops_def or_loop_def and_loop_def concat_loop_def postfix_loop_def
      postfix_stop_def split: list.splits expression_token.splits)+

lemma parses_complete:
  assumes "parses ops k e ts" "stops k rest" "k \<le> 5"
  shows "parser ops (level_method k) (ts @ rest) = Ok (e, rest)"
proof -
  have "stops (if level_loop k e = None then k else Suc k) rest" using assms(2) stops_mono by auto
  then have "parser ops (level_method k) (ts @ rest) =
      (case level_loop k e of Some m \<Rightarrow> parser ops m rest | None \<Rightarrow> Ok (e, rest))"
    using assms(1) unfolding parses_def by blast
  also have "\<dots> = Ok (e, rest)"
    using assms(2,3) loop_stops [of rest ops e] by (auto split: if_splits)
  finally show ?thesis .
qed

lemma parses_lift:
  assumes p: "parses ops (Suc k) e ts" and k: "k < 5" and start: "k = 2 \<Longrightarrow> \<forall>rest. \<not> keyword ''not'' (ts @ rest)"
  shows "parses ops k e ts"
  unfolding parses_def
proof (intro allI impI)
  fix rest :: "'a expression_token list"
  assume stop: "stops (if level_loop k e = None then k else Suc k) rest"
  consider "k = 0" | "k = 1" | "k = 2" | "k = 3" | "k = 4" using k by linarith
  then show "parser ops (level_method k) (ts @ rest) =
      (case level_loop k e of Some m \<Rightarrow> parser ops m rest | None \<Rightarrow> Ok (e, rest))"
  proof cases
    case 1
    then show ?thesis using parses_complete [OF p, of rest] stop
      by (subst parser_unfold) (simp add: parse_or_def)
  next
    case 2
    then show ?thesis using parses_complete [OF p, of rest] stop
      by (subst parser_unfold) (simp add: parse_and_def numeral_2_eq_2)
  next
    case 3
    then show ?thesis using parses_complete [OF p, of rest] stop stops_mono [of 2 rest 3] start
      by (subst parser_unfold) (simp add: parse_not_def numeral_2_eq_2 numeral_3_eq_3)
  next
    case 4
    then show ?thesis using parses_complete [OF p, of rest] stop stops_mono [of 3 rest 4]
      by (subst parser_unfold) (simp add: parse_comparison_def stops_def)
  next
    case 5
    then show ?thesis using parses_complete [OF p, of rest] stop
      by (subst parser_unfold) (simp add: parse_concat_def)
  qed
qed

lemma parses_down:
  assumes "parses ops j e ts" "k \<le> j" "j \<le> 5"
    and "k \<le> 2 \<Longrightarrow> 2 < j \<Longrightarrow> \<forall>rest. \<not> keyword ''not'' (ts @ rest)"
  shows "parses ops k e ts"
  using assms(2,1,3,4)
proof (induction rule: inc_induct)
  case (step n)
  have "parses ops (Suc n) e ts" using step by simp
  then show ?case by (rule parses_lift) (use step in simp_all)
qed simp

text \<open>A parenthesised expression is a complete operand of the highest level.\<close>

lemma parses_parens:
  assumes "parses ops 0 e ts"
  shows "parses ops 5 e (TLeftParen # ts @ [TRightParen])"
  unfolding parses_def
proof (intro allI impI)
  fix rest :: "'a expression_token list"
  have "stops 0 (TRightParen # rest)"
    by (simp add: stops_def postfix_stop_def concat_operator_def comparison_operator_def keyword_def)
  from parses_complete [OF assms this] have "parser ops ParseOr (ts @ TRightParen # rest) = Ok (e, TRightParen # rest)" by simp
  then have "parser ops ParsePrimary ((TLeftParen # ts @ [TRightParen]) @ rest) = Ok (e, rest)"
    by (subst parser_unfold) (simp add: parse_primary_def)
  then show "parser ops (level_method 5) ((TLeftParen # ts @ [TRightParen]) @ rest) =
      (case level_loop 5 e of Some m \<Rightarrow> parser ops m rest | None \<Rightarrow> Ok (e, rest))"
    by (subst parser_unfold) (simp add: parse_postfix_def)
qed

lemma print_start:
  "expression_ok e \<Longrightarrow> 3 \<le> expression_level e \<Longrightarrow> \<not> keyword ''not'' (print_expression e @ rest)"
proof (induction e arbitrary: rest)
  case (Literal v)
  then show ?case by (cases v) (auto simp: keyword_def ustr_def)
next
  case (Binary op l r)
  then have "3 \<le> left_level op" by (cases op) auto
  then show ?case using Binary by (auto simp: wrap_def keyword_def [of _ "TLeftParen # _"])
qed (auto simp: wrap_def keyword_def [of _ "TLeftParen # _"] keyword_def [of _ "TIdentifier _ # _"])

lemma level_le: "expression_level e \<le> 5"
proof (cases e)
  case (Binary op l r)
  then show ?thesis by (cases op) simp_all
qed simp_all

lemma parses_parenthesised:
  assumes "expression_ok e" "parses ops (expression_level e) e (print_expression e)" "k \<le> 5"
  shows "parses ops k e (TLeftParen # print_expression e @ [TRightParen])"
proof -
  have "parses ops 0 e (print_expression e)"
    by (rule parses_down [OF assms(2)]) (use level_le print_start [OF assms(1)] in auto)
  then have "parses ops 5 e (TLeftParen # print_expression e @ [TRightParen])" by (rule parses_parens)
  then show ?thesis by (rule parses_down) (use assms(3) in \<open>auto simp: keyword_def\<close>)
qed

lemma parses_wrap:
  assumes ok: "expression_ok e" and p: "parses ops (expression_level e) e (print_expression e)" and k: "k \<le> 5"
  shows "parses ops k e (wrap k e (print_expression e))"
proof (cases "expression_level e < k")
  case True
  then show ?thesis using parses_parenthesised [OF assms] by (simp add: wrap_def)
next
  case False
  have "parses ops k e (print_expression e)"
    by (rule parses_down [OF p]) (use False level_le print_start [OF ok] in auto)
  then show ?thesis using False by (simp add: wrap_def)
qed

lemma stops_tokens:
  "stops 0 (TRightBracket # ts)" "stops 1 (TIdentifier (ustr ''or'') # ts)" "stops 2 (TIdentifier (ustr ''and'') # ts)"
  "stops 4 (TIdentifier (ustr ''is'') # ts)" "operator_level op = 3 \<Longrightarrow> stops 4 (operator_token op # ts)"
  "operator_level op = 4 \<Longrightarrow> stops 5 (operator_token op # ts)" "stops 6 ts"
  by (cases op; simp add: stops_def postfix_stop_def concat_operator_def comparison_operator_def keyword_def ustr_def)+

lemma operator_tokens:
  "operator_level op = 3 \<Longrightarrow> comparison_operator (operator_token op # ts) = Some op"
  "operator_level op = 3 \<Longrightarrow> \<not> keyword ''is'' (operator_token op # ts)"
  "operator_level op = 4 \<Longrightarrow> concat_operator (operator_token op # ts) = Some op"
  by (cases op; simp add: concat_operator_def comparison_operator_def keyword_def)+

lemma keyword_token [simp]: "keyword k (TIdentifier (ustr k) # ts)"
  by (simp add: keyword_def)

lemma parses_print: "expression_ok e \<Longrightarrow> parses ops (expression_level e) e (print_expression e)"
proof (induction e)
  case (Literal v)
  then show ?case
    by (cases v) (auto simp: parses_def parser_unfold [of ops ParsePostfix] parser_unfold [of ops ParsePrimary]
        parse_postfix_def parse_primary_def identifier_expression_def ustr_def)
next
  case (Variable s)
  then show ?case
    by (auto simp: parses_def parser_unfold [of ops ParsePostfix] parser_unfold [of ops ParsePrimary]
        parse_postfix_def parse_primary_def)
next
  case (Member e m)
  have "parses ops 5 e (wrap 5 e (print_expression e))" using Member by (intro parses_wrap) simp_all
  then have "parser ops ParsePostfix (wrap 5 e (print_expression e) @ TDot # TIdentifier m # rest) =
      parser ops (PostfixLoop e) (TDot # TIdentifier m # rest)" for rest by (simp add: parses_def stops_tokens)
  then show ?case
    by (simp add: parses_def parser_unfold [of ops "PostfixLoop e"] postfix_loop_def member_name_def)
next
  case (Index e i)
  have "parses ops 5 e (wrap 5 e (print_expression e))" using Index by (intro parses_wrap) simp_all
  then have e: "parser ops ParsePostfix (wrap 5 e (print_expression e) @ TLeftBracket # ts) =
      parser ops (PostfixLoop e) (TLeftBracket # ts)" for ts by (simp add: parses_def stops_tokens)
  have "parses ops 0 i (wrap 0 i (print_expression i))" using Index by (intro parses_wrap) simp_all
  from parses_complete [OF this stops_tokens(1)]
  have "parser ops ParseOr (print_expression i @ TRightBracket # rest) = Ok (i, TRightBracket # rest)" for rest
    by (simp add: wrap_def)
  then show ?case using e
    by (simp add: parses_def parser_unfold [of ops "PostfixLoop e"] postfix_loop_def)
next
  case (UnaryNot e)
  have "parses ops 2 e (wrap 2 e (print_expression e))" using UnaryNot by (intro parses_wrap) simp_all
  from parses_complete [OF this]
  have "stops 2 rest \<Longrightarrow> parser ops ParseNot (wrap 2 e (print_expression e) @ rest) = Ok (e, rest)" for rest by simp
  then show ?case
    by (simp add: parses_def parser_unfold [of ops ParseNot "TIdentifier (ustr ''not'') # _"] parse_not_def)
next
  case (Binary op l r)
  have lr: "parses ops (left_level op) l (wrap (left_level op) l (print_expression l))"
    "parses ops (right_level op) r (wrap (right_level op) r (print_expression r))"
    using Binary by (intro parses_wrap; cases op; simp)+
  let ?l = "wrap (left_level op) l (print_expression l)" and ?r = "wrap (right_level op) r (print_expression r)"
  have "right_level op \<le> 5" by (cases op) simp_all
  then have right: "parser ops (level_method (right_level op)) (?r @ rest) = Ok (r, rest)"
    if "stops (right_level op) rest" for rest
    by (rule parses_complete [OF lr(2) that])
  have left: "parser ops (level_method (left_level op)) (?l @ rest) =
      (case level_loop (left_level op) l of Some m \<Rightarrow> parser ops m rest | None \<Rightarrow> Ok (l, rest))"
    if "stops (if level_loop (left_level op) l = None then left_level op else Suc (left_level op)) rest" for rest
    using lr(1) that unfolding parses_def by blast
  consider "op = OpOr" | "op = OpAnd" | "operator_level op = 3" | "operator_level op = 4" by (cases op) simp_all
  then show ?case
  proof cases
    case 1
    have "parser ops ParseOr (?l @ operator_token op # ts) = parser ops (OrLoop l) (operator_token op # ts)" for ts
      using left [of "operator_token op # ts"] 1 by (simp add: stops_tokens(2) [unfolded One_nat_def])
    then show ?thesis using 1 right
      by (simp add: parses_def parser_unfold [of ops "OrLoop l"] or_loop_def)
  next
    case 2
    have "parser ops ParseAnd (?l @ operator_token op # ts) = parser ops (AndLoop l) (operator_token op # ts)" for ts
      using left [of "operator_token op # ts"] 2 by (simp add: stops_tokens(3) [unfolded numeral_2_eq_2])
    then show ?thesis using 2 right
      by (simp add: parses_def parser_unfold [of ops "AndLoop l"] and_loop_def numeral_2_eq_2)
  next
    case 3
    have "parser ops ParseConcat (?l @ operator_token op # ts) = Ok (l, operator_token op # ts)" for ts
      using parses_complete [OF lr(1), of "operator_token op # ts"] 3 by (simp add: stops_tokens(5))
    then show ?thesis using 3 right
      by (auto simp: parses_def parser_unfold [of ops ParseComparison] parse_comparison_def operator_tokens
          dest: stops_mono [of 3 _ 4])
  next
    case 4
    have "parser ops ParseConcat (?l @ operator_token op # ts) = parser ops (ConcatLoop l) (operator_token op # ts)" for ts
      using left [of "operator_token op # ts"] 4 by (simp add: stops_tokens)
    then show ?thesis using 4 right
      by (simp add: parses_def parser_unfold [of ops "ConcatLoop l"] concat_loop_def operator_tokens)
  qed
next
  case (IsDefined e)
  have "parses ops 4 e (wrap 4 e (print_expression e))" using IsDefined by (intro parses_wrap) simp_all
  from parses_complete [OF this stops_tokens(4)]
  have "parser ops ParseConcat (wrap 4 e (print_expression e) @ TIdentifier (ustr ''is'') # ts) =
      Ok (e, TIdentifier (ustr ''is'') # ts)" for ts by simp
  then show ?case
    by (simp add: parses_def parser_unfold [of ops ParseComparison] parse_comparison_def)
next
  case (Filter e f)
  have "parses ops 5 e (wrap 5 e (print_expression e))" using Filter by (intro parses_wrap) simp_all
  then have "parser ops ParsePostfix (wrap 5 e (print_expression e) @ TPipe # TIdentifier f # rest) =
      parser ops (PostfixLoop e) (TPipe # TIdentifier f # rest)" for rest by (simp add: parses_def stops_tokens)
  then show ?case
    by (simp add: parses_def parser_unfold [of ops "PostfixLoop e"] postfix_loop_def filter_name_def)
qed

lemma parse_printed:
  "expression_ok e \<Longrightarrow>
     expression_parser ops (expression_fuel (print_expression e)) ParseOr (print_expression e) = Ok (e, [])"
proof -
  assume ok: "expression_ok e"
  have "parses ops 0 e (print_expression e)"
    by (rule parses_down [OF parses_print [OF ok]]) (use level_le print_start [OF ok] in auto)
  from parses_complete [OF this, of "[]"] show ?thesis
    by (simp add: parser_def expression_fuel_def stops_def postfix_stop_def concat_operator_def comparison_operator_def
        keyword_def)
qed

text \<open>
  C40: The expression parser inverts printing: every expression, printed with parentheses only where the precedence
  of its operands demands them, is read back as itself with no token left over. Precedence and associativity
  are those of the printer, and the fuel is enough.
\<close>

theorem parse_printed_expression:
  "expression_ok e \<Longrightarrow>
     expression_parser ops (expression_fuel (print_expression e)) ParseOr (print_expression e) = Ok (e, [])"
  by (rule parse_printed)

theorem parse_printed_expression_witness:
  "\<forall>ops :: nat template_ops.
     let tokens = [TIdentifier [120], TOperator [43], TIdentifier [121]] in
     expression_parser ops (expression_fuel tokens) ParseOr tokens = Ok (Binary OpAdd (Variable [120]) (Variable [121]), [])"
  using parse_printed_expression [of "Binary OpAdd (Variable [120]) (Variable [121]) :: nat expression"]
  by (simp add: identifier_expression_def ustr_def wrap_def)

subsection \<open>Statements\<close>

definition strip_prefix :: "string \<Rightarrow> ustring \<Rightarrow> ustring option" where
  "strip_prefix p s = (if starts_with s (ustr p) then Some (drop (length p) s) else None)"

fun split_once :: "ustring \<Rightarrow> ustring \<Rightarrow> (ustring \<times> ustring) option" where
  "split_once sep [] = None"
| "split_once sep (c # cs) =
     (if starts_with (c # cs) sep then Some ([], drop (length sep) (c # cs))
      else map_option (\<lambda>(a, b). (c # a, b)) (split_once sep cs))"

definition statement_keyword :: "ustring \<Rightarrow> ustring" where
  "statement_keyword s = (case split_whitespace s of [] \<Rightarrow> [] | w # _ \<Rightarrow> w)"

definition single_identifier :: "ustring \<Rightarrow> bool" where
  "single_identifier s \<longleftrightarrow> s \<noteq> [] \<and> \<not> list_ex whitespace s"

definition parse_set :: "'n template_ops \<Rightarrow> ustring \<Rightarrow> ('n template_node, chat_template_error) result" where
  "parse_set ops statement =
     rbind (ok_or (TemplateParse ''missing set statement'') (strip_prefix ''set'' statement)) (\<lambda>rest.
     rbind (ok_or (TemplateParse ''set statement must use set name = expression'')
       (split_once (ustr ''='') (trim_text rest))) (\<lambda>(variable, expression).
       if \<not> single_identifier (trim_text variable) then
         Err (TemplateParse ''set variable must be a single identifier'')
       else rbind (parse_expression ops (trim_text expression)) (\<lambda>e. Ok (SetNode (trim_text variable) e))))"

text \<open>
  \<open>parse_nodes\<close> gives the nodes, the statement that ended them (which is left in the tokens) and the tokens
  from there on. \<open>parse_if\<close> and \<open>parse_for\<close> take \<open>self\<close>, the \<open>parse_nodes\<close> of their bodies.
\<close>

type_synonym 'n parsed_nodes =
  "('n template_node list \<times> ustring option \<times> template_token list, chat_template_error) result"

type_synonym 'n parse_body = "string list \<Rightarrow> template_token list \<Rightarrow> 'n parsed_nodes"

definition condition_of :: "string \<Rightarrow> ustring \<Rightarrow> (ustring, chat_template_error) result" where
  "condition_of k statement =
     rbind (ok_or (TemplateParse ''missing condition'') (strip_prefix k statement)) (\<lambda>rest.
       if trim_text rest = [] then Err (TemplateParse ''empty condition'') else Ok (trim_text rest))"

primrec if_loop ::
  "'n template_ops \<Rightarrow> 'n parse_body \<Rightarrow> nat \<Rightarrow> ('n expression \<times> 'n template_node list) list \<Rightarrow>
     'n template_node list option \<Rightarrow> ustring option \<Rightarrow> template_token list \<Rightarrow>
     ('n template_node \<times> template_token list, chat_template_error) result"
where
  "if_loop ops self 0 branches otherwise terminator ts = out_of_fuel"
| "if_loop ops self (Suc n) branches otherwise terminator ts =
     rbind (ok_or (TemplateParse ''unterminated if statement'') terminator) (\<lambda>current.
       (let k = statement_keyword current in
        if k = ustr ''elif'' then
          rbind (condition_of ''elif'' current) (\<lambda>condition.
          rbind (self [''elif'', ''else'', ''endif''] (tl ts)) (\<lambda>(body, next_terminator, ts').
          rbind (parse_expression ops condition) (\<lambda>e.
            if_loop ops self n (branches @ [(e, body)]) otherwise next_terminator ts')))
        else if k = ustr ''else'' then
          rbind (self [''endif''] (tl ts)) (\<lambda>(body, next_terminator, ts').
            if_loop ops self n branches (Some body) next_terminator ts')
        else if k = ustr ''endif'' then Ok (IfNode branches otherwise, tl ts)
        else Err (TemplateParse ''unexpected terminator'')))"

definition parse_if ::
  "'n template_ops \<Rightarrow> 'n parse_body \<Rightarrow> ustring \<Rightarrow> template_token list \<Rightarrow>
     ('n template_node \<times> template_token list, chat_template_error) result"
where
  "parse_if ops self condition ts =
     rbind (parse_expression ops condition) (\<lambda>e.
     rbind (self [''elif'', ''else'', ''endif''] ts) (\<lambda>(body, terminator, ts').
       if_loop ops self (Suc (length ts)) [(e, body)] None terminator ts'))"

definition parse_for ::
  "'n template_ops \<Rightarrow> 'n parse_body \<Rightarrow> ustring \<Rightarrow> template_token list \<Rightarrow>
     ('n template_node \<times> template_token list, chat_template_error) result"
where
  "parse_for ops self statement ts =
     rbind (ok_or (TemplateParse ''missing for loop'') (strip_prefix ''for'' statement)) (\<lambda>rest.
     rbind (ok_or (TemplateParse ''for loop must use for name in expression'')
       (split_once (ustr '' in '') (trim_text rest))) (\<lambda>(variable, iterable).
       if \<not> single_identifier (trim_text variable) then
         Err (TemplateParse ''for loop variable must be a single identifier'')
       else
         rbind (self [''endfor''] ts) (\<lambda>(body, terminator, ts').
         rbind (ok_or (TemplateParse ''unterminated for statement'') terminator) (\<lambda>current.
           if statement_keyword current \<noteq> ustr ''endfor'' then Err (TemplateParse ''unexpected for terminator'')
           else rbind (parse_expression ops (trim_text iterable)) (\<lambda>e.
             Ok (ForNode (trim_text variable) e body, tl ts'))))))"

definition add_node :: "'n parse_body \<Rightarrow> string list \<Rightarrow> 'n template_node \<times> template_token list \<Rightarrow> 'n parsed_nodes" where
  "add_node self terminators p =
     rbind (self terminators (snd p)) (\<lambda>(nodes, terminator, rest). Ok (fst p # nodes, terminator, rest))"

primrec parse_nodes :: "'n template_ops \<Rightarrow> nat \<Rightarrow> 'n parse_body" where
  "parse_nodes ops 0 = (\<lambda>terminators ts. out_of_fuel)"
| "parse_nodes ops (Suc n) = (\<lambda>terminators ts.
     (let self = parse_nodes ops n in
      (case ts of
         [] \<Rightarrow> Ok ([], None, [])
       | TextToken t # ts' \<Rightarrow> add_node self terminators (TextNode t, ts')
       | ExpressionTag source # ts' \<Rightarrow>
           rbind (parse_expression ops source) (\<lambda>e. add_node self terminators (OutputNode e, ts'))
       | StatementTag statement # ts' \<Rightarrow>
           (let k = statement_keyword statement in
            if k \<in> set (map ustr terminators) then Ok ([], Some statement, ts)
            else if k = ustr ''if'' then
              rbind (condition_of ''if'' statement) (\<lambda>condition.
              rbind (parse_if ops self condition ts') (add_node self terminators))
            else if k = ustr ''for'' then rbind (parse_for ops self statement ts') (add_node self terminators)
            else if k = ustr ''set'' then
              rbind (parse_set ops statement) (\<lambda>node. add_node self terminators (node, ts'))
            else if k \<in> {ustr ''elif'', ustr ''else'', ustr ''endif'', ustr ''endfor''} then Ok ([], Some statement, ts)
            else if k = [] then Err (TemplateParse ''empty template statement'')
            else Err (TemplateUnsupported ''statement'')))))"

record 'n chat_template =
  ct_source :: ustring
  ct_nodes :: "'n template_node list"

definition parse_template :: "'n template_ops \<Rightarrow> ustring \<Rightarrow> ('n chat_template, chat_template_error) result" where
  "parse_template ops source =
     rbind (tokenize_template source) (\<lambda>tokens.
     rbind (parse_nodes ops (Suc (length tokens)) [] tokens) (\<lambda>(nodes, terminator, _).
       if terminator \<noteq> None then Err (TemplateParse ''unexpected template terminator'')
       else Ok \<lparr>ct_source = source, ct_nodes = nodes\<rparr>))"

definition chat_template_from_gguf ::
  "'n template_ops \<Rightarrow> gguf_model \<Rightarrow> ('n chat_template, chat_template_error) result"
where
  "chat_template_from_gguf ops m =
     rbind (ok_or TemplateMissing (Option.bind (get_metadata m ''tokenizer.chat_template'') as_string)) (\<lambda>source.
       parse_template ops (chars_of source))"

subsection \<open>The template parser ends\<close>

lemma tokenize_expression_not_panic: "\<not> is_panic (tokenize_expression ops s)"
proof (induction ops s rule: tokenize_expression.induct)
  case (2 ops c cs)
  have literal: "\<not> is_panic (string_literal q s)" for q s
    by (induction q s rule: string_literal.induct) (auto simp: is_panic_rbind split: list.split)
  have "\<not> is_panic (next_token ops c cs)"
    by (auto simp: next_token_def is_panic_rbind literal single_token_def Let_def split: list.split)
  then show ?case using 2 by (auto simp: is_panic_rbind split_beta)
qed simp

lemma parse_expression_not_panic [simp]: "\<not> is_panic (parse_expression ops s)"
  using good_not_panic [OF parser_total [of ParseOr _ ops]] tokenize_expression_not_panic
  by (auto simp: parse_expression_def is_panic_rbind parser_def expression_fuel_def)

lemma condition_of_not_panic [simp]: "\<not> is_panic (condition_of k s)"
  by (auto simp: condition_of_def is_panic_rbind)

lemma parse_set_not_panic [simp]: "\<not> is_panic (parse_set ops s)"
  by (auto simp: parse_set_def is_panic_rbind)

definition nodes_good :: "template_token list \<Rightarrow> 'n parsed_nodes \<Rightarrow> bool" where
  "nodes_good ts r \<longleftrightarrow>
     \<not> is_panic r
     \<and> (\<forall>nodes terminator rest. r = Ok (nodes, terminator, rest) \<longrightarrow>
          length rest \<le> length ts \<and> (terminator \<noteq> None \<longrightarrow> rest \<noteq> []))"

lemma if_loop_good:
  assumes self: "\<And>terminators us. length us < m \<Longrightarrow> nodes_good us (self terminators us)"
    and "length ts \<le> m" "length ts < n" "terminator \<noteq> None \<Longrightarrow> ts \<noteq> []"
  shows "\<not> is_panic (if_loop ops self n branches otherwise terminator ts)
    \<and> (\<forall>node rest. if_loop ops self n branches otherwise terminator ts = Ok (node, rest) \<longrightarrow> length rest \<le> length ts)"
  using assms(2-)
proof (induction n arbitrary: branches otherwise terminator ts)
  case (Suc n)
  show ?case
  proof (cases terminator)
    case (Some current)
    then have ts: "length (tl ts) < length ts" using Suc.prems by (cases ts) auto
    then have body: "nodes_good (tl ts) (self terminators (tl ts))" for terminators
      using self [of "tl ts"] Suc.prems by simp
    have loop: "\<not> is_panic (if_loop ops self n bs ow nt ts')
        \<and> (\<forall>node rest. if_loop ops self n bs ow nt ts' = Ok (node, rest) \<longrightarrow> length rest \<le> length ts)"
      if "self terminators (tl ts) = Ok (b, nt, ts')" for terminators b nt ts' bs ow
    proof -
      have "length ts' \<le> length (tl ts)" "nt \<noteq> None \<Longrightarrow> ts' \<noteq> []"
        using body [of terminators] that by (auto simp: nodes_good_def)
      moreover have "\<not> is_panic (if_loop ops self n bs ow nt ts')
          \<and> (\<forall>node rest. if_loop ops self n bs ow nt ts' = Ok (node, rest) \<longrightarrow> length rest \<le> length ts')"
        by (rule Suc.IH, use calculation Suc.prems ts in auto)
      ultimately show ?thesis using ts by (auto intro: le_trans)
    qed
    have [simp]: "\<not> is_panic (self terminators (tl ts))" for terminators
      using body by (simp add: nodes_good_def)
    show ?thesis using ts loop
      by (auto simp: Some Let_def is_panic_rbind rbind_eq_Ok split_beta)
  qed simp
qed simp

lemma add_node_good:
  "nodes_good (snd p) (self terminators (snd p)) \<Longrightarrow> length (snd p) \<le> length ts \<Longrightarrow> nodes_good ts (add_node self terminators p)"
  by (cases "self terminators (snd p)") (auto simp: nodes_good_def add_node_def split: prod.splits)

lemma nodes_good_bind:
  "\<not> is_panic r \<Longrightarrow> (\<And>x. r = Ok x \<Longrightarrow> nodes_good ts (f x)) \<Longrightarrow> nodes_good ts (rbind r f)"
  by (cases r) (simp_all add: nodes_good_def)

lemma nodes_good_if: "nodes_good ts a \<Longrightarrow> nodes_good ts b \<Longrightarrow> nodes_good ts (if c then a else b)"
  by simp

lemma parse_if_good:
  assumes self: "\<And>terminators us. length us \<le> length ts \<Longrightarrow> nodes_good us (self terminators us)"
  shows "\<not> is_panic (parse_if ops self condition ts)"
    and "parse_if ops self condition ts = Ok (node, rest) \<Longrightarrow> length rest \<le> length ts"
proof -
  note body = self [of ts "[''elif'', ''else'', ''endif'']", simplified]
  have loop: "\<not> is_panic (if_loop ops self (Suc (length ts)) bs ow nt ts')
      \<and> (\<forall>node rest. if_loop ops self (Suc (length ts)) bs ow nt ts' = Ok (node, rest) \<longrightarrow> length rest \<le> length ts')"
    if "self [''elif'', ''else'', ''endif''] ts = Ok (b, nt, ts')" for b nt ts' bs ow
  proof -
    have small: "length ts' \<le> length ts" "nt \<noteq> None \<Longrightarrow> ts' \<noteq> []" using that body by (auto simp: nodes_good_def)
    then have len: "length ts' < Suc (length ts)" by simp
    have "\<not> is_panic (if_loop ops self (Suc (length ts)) bs ow nt ts')
        \<and> (\<forall>node rest. if_loop ops self (Suc (length ts)) bs ow nt ts' = Ok (node, rest) \<longrightarrow> length rest \<le> length ts')"
      by (rule if_loop_good [OF self [OF less_imp_le] small(1) len small(2)])
    then show ?thesis using small(1) by (blast intro: le_trans)
  qed
  show "\<not> is_panic (parse_if ops self condition ts)"
    using body loop by (auto simp: parse_if_def is_panic_rbind nodes_good_def)
  show "length rest \<le> length ts" if "parse_if ops self condition ts = Ok (node, rest)"
    using that body loop unfolding nodes_good_def parse_if_def by (fastforce simp: rbind_eq_Ok)
qed

lemma parse_for_good:
  assumes "nodes_good ts (self [''endfor''] ts)"
  shows "\<not> is_panic (parse_for ops self statement ts)"
    and "parse_for ops self statement ts = Ok (node, rest) \<Longrightarrow> length rest \<le> length ts"
  using assms by (auto simp: parse_for_def is_panic_rbind rbind_eq_Ok nodes_good_def split: if_splits prod.splits)

lemma parse_nodes_good: "length ts < n \<Longrightarrow> nodes_good ts (parse_nodes ops n terminators ts)"
proof (induction n arbitrary: terminators ts)
  case (Suc n)
  show ?case
  proof (cases ts)
    case (Cons t us)
    then have self: "nodes_good vs (parse_nodes ops n terminators vs)" if "length vs \<le> length us" for terminators vs
      using Suc that by simp
    have add: "nodes_good ts (add_node (parse_nodes ops n) terminators p)" if "length (snd p) \<le> length us" for p
      by (rule add_node_good) (use self that Cons in auto)
    note blocks = parse_if_good [of us "parse_nodes ops n" ops] parse_for_good [of us "parse_nodes ops n" ops]
    have add_if: "nodes_good ts (rbind (parse_if ops (parse_nodes ops n) c us) (add_node (parse_nodes ops n) terminators))" for c
      by (rule nodes_good_bind) (use self blocks in \<open>auto intro!: add\<close>)
    have add_for: "nodes_good ts (rbind (parse_for ops (parse_nodes ops n) s us) (add_node (parse_nodes ops n) terminators))" for s
      by (rule nodes_good_bind) (use self blocks in \<open>auto intro!: add\<close>)
    have ended: "nodes_good ts (Ok ([], x, ts) :: 'a parsed_nodes)" for x using Cons by (simp add: nodes_good_def)
    have err: "nodes_good ts (Err x :: 'a parsed_nodes)" for x by (simp add: nodes_good_def)
    show ?thesis
    proof (cases t)
      case (StatementTag s)
      have "nodes_good ts (rbind (condition_of k s) (\<lambda>c.
          rbind (parse_if ops (parse_nodes ops n) c us) (add_node (parse_nodes ops n) terminators)))" for k
        by (rule nodes_good_bind) (simp_all add: add_if)
      moreover have "nodes_good ts (rbind (parse_set ops s) (\<lambda>node. add_node (parse_nodes ops n) terminators (node, us)))"
        by (rule nodes_good_bind) (simp_all add: add)
      ultimately show ?thesis
        unfolding parse_nodes.simps Let_def Cons StatementTag list.case template_token.case
        by (intro nodes_good_if add_for [unfolded Cons StatementTag] ended [unfolded Cons StatementTag] err [unfolded Cons StatementTag])
    next
      case (TextToken x)
      then show ?thesis using add [of "(TextNode x, us)"] by (simp add: Cons)
    next
      case (ExpressionTag x)
      have "nodes_good ts (rbind (parse_expression ops x) (\<lambda>e. add_node (parse_nodes ops n) terminators (OutputNode e, us)))"
        by (rule nodes_good_bind) (simp_all add: add)
      then show ?thesis by (simp add: Cons ExpressionTag)
    qed
  qed (simp add: nodes_good_def)
qed simp

lemma tokenize_from_not_panic: "\<not> is_panic (tokenize_from before trim s)"
proof (induction s arbitrary: before trim rule: length_induct)
  case (1 s)
  then have IH: "\<not> is_panic (tokenize_from before trim us)" if "length us < length s" for before trim us
    using that by blast
  have tag: "\<not> is_panic (tag_tokens close content)" for close content by (simp add: tag_tokens_def)
  show ?case
  proof (cases "(before, trim, s)" rule: tokenize_from.cases)
    case (1 before' trim' a b rest)
    then have "length (b # rest) < length s"
      "length (drop n (if rest \<noteq> [] \<and> hd rest = 45 then tl rest else rest)) < length s" for n by auto
    then show ?thesis using IH tag 1 by (auto simp: Let_def is_panic_rbind split: option.split)
  qed simp_all
qed

lemma parse_template_total: "\<not> is_panic (parse_template ops source)"
proof -
  have "\<not> is_panic (parse_nodes ops (Suc (length ts)) [] ts)" for ts
    using parse_nodes_good [of ts "Suc (length ts)" ops "[]"] by (simp add: nodes_good_def del: parse_nodes.simps)
  then show ?thesis
    using tokenize_from_not_panic by (auto simp: parse_template_def tokenize_template_def is_panic_rbind split_beta simp del: parse_nodes.simps)
qed


text \<open>Quotes count in comments too: an apostrophe in a comment makes the whole template an error.\<close>

lemma comment_apostrophe:
  "parse_template ops (ustr ''{# don't #}'') = Err (TemplateParse ''unterminated template tag'')"
  by (simp add: parse_template_def tokenize_template_def ustr_def closing_marker_def starts_with_def)

text \<open>A second \<open>else\<close> is accepted: it replaces the first, whose nodes are lost.\<close>

lemma second_else_accepted:
  "if_loop ops self (Suc (Suc (Suc 0))) branches None (Some (ustr ''else''))
     [StatementTag (ustr ''else''), StatementTag (ustr ''else''), StatementTag (ustr ''endif'')] =
   Ok (IfNode branches (Some second), [])"
  if "self [''endif''] [StatementTag (ustr ''else''), StatementTag (ustr ''endif'')] =
        Ok (first, Some (ustr ''else''), [StatementTag (ustr ''else''), StatementTag (ustr ''endif'')])"
    "self [''endif''] [StatementTag (ustr ''endif'')] = Ok (second, Some (ustr ''endif''), [StatementTag (ustr ''endif'')])"
  using that by (simp add: statement_keyword_def split_whitespace_def whitespace_def ustr_def)

end
