(* ===== verification/Chat_Rendering.thy ===== *)
theory Chat_Rendering
  imports Chat_Template Ordered_Map
begin

section \<open>Chat templates: rendering\<close>

text \<open>
  \<open>crates/ramforge-core/src/chat_template.rs\<close>, from the nodes of a template to the rendered prompt: values,
  the JSON filter, scopes, the evaluation of expressions and the rendering of nodes. A failed rendering
  gives no text, so the output and the scope it leaves are not in its result. The frames of a scope are a
  list with the innermost first. An object is an ordered map; scalar values are ordered as their UTF-8
  bytes are.
\<close>

subsection \<open>Values\<close>

fun truthy :: "'n template_ops \<Rightarrow> 'n template_value \<Rightarrow> bool" where
  "truthy ops VUndefined = False"
| "truthy ops VNull = False"
| "truthy ops (VBool b) = b"
| "truthy ops (VNumber x) = (\<not> to_is_zero ops x)"
| "truthy ops (VString s) = (s \<noteq> [])"
| "truthy ops (VList xs) = (xs \<noteq> [])"
| "truthy ops (VObject kvs) = (kvs \<noteq> [])"

definition show_i64 :: "int \<Rightarrow> ustring" where
  "show_i64 i = ustr (if i < 0 then CHR ''-'' # show_nat (nat (- i)) else show_nat (nat i))"

text \<open>\<open>to_integral\<close> is \<open>fract() == 0.0 && is_finite()\<close>; \<open>to_display\<close> is \<open>to_string\<close>.\<close>

definition number_text :: "'n template_ops \<Rightarrow> 'n \<Rightarrow> ustring" where
  "number_text ops x = (if to_integral ops x then show_i64 (to_as_i64 ops x) else to_display ops x)"

definition bool_text :: "bool \<Rightarrow> ustring" where "bool_text b = ustr (if b then ''true'' else ''false'')"

fun join_text :: "ustring \<Rightarrow> ustring list \<Rightarrow> ustring" where
  "join_text sep [] = []"
| "join_text sep [x] = x"
| "join_text sep (x # y # xs) = x @ sep @ join_text sep (y # xs)"

fun render_value :: "'n template_ops \<Rightarrow> 'n template_value \<Rightarrow> ustring" where
  "render_value ops VUndefined = []"
| "render_value ops VNull = ustr ''none''"
| "render_value ops (VBool b) = bool_text b"
| "render_value ops (VNumber x) = number_text ops x"
| "render_value ops (VString s) = s"
| "render_value ops (VList xs) = [91] @ join_text (ustr '', '') (map (render_value ops) xs) @ [93]"
| "render_value ops (VObject kvs) =
     [123] @ join_text (ustr '', '') (map (\<lambda>(k, v). k @ ustr '': '' @ render_value ops v) kvs) @ [125]"

definition control :: "nat \<Rightarrow> bool" where "control c \<longleftrightarrow> c < 32 \<or> (127 \<le> c \<and> c < 160)"

definition json_hex_digit :: "nat \<Rightarrow> nat" where "json_hex_digit d = (if d < 10 then 48 + d else 87 + d)"

text \<open>\<open>{:04x}\<close>: a control character has at most two hexadecimal digits.\<close>

definition json_character :: "nat \<Rightarrow> ustring" where
  "json_character c =
     (if c = 34 then [92, 34]
      else if c = 92 then [92, 92]
      else if c = 10 then [92, 110]
      else if c = 13 then [92, 114]
      else if c = 9 then [92, 116]
      else if control c then [92, 117, 48, 48, json_hex_digit (c div 16), json_hex_digit (c mod 16)]
      else [c])"

definition json_string :: "ustring \<Rightarrow> ustring" where
  "json_string s = 34 # concat (map json_character s) @ [34]"

fun to_json :: "'n template_ops \<Rightarrow> 'n template_value \<Rightarrow> ustring" where
  "to_json ops VUndefined = ustr ''null''"
| "to_json ops VNull = ustr ''null''"
| "to_json ops (VBool b) = bool_text b"
| "to_json ops (VNumber x) = number_text ops x"
| "to_json ops (VString s) = json_string s"
| "to_json ops (VList xs) = [91] @ join_text [44] (map (to_json ops) xs) @ [93]"
| "to_json ops (VObject kvs) = [123] @ join_text [44] (map (\<lambda>(k, v). json_string k @ [58] @ to_json ops v) kvs) @ [125]"

fun value_eq :: "'n template_ops \<Rightarrow> 'n template_value \<Rightarrow> 'n template_value \<Rightarrow> bool"
  and list_eq :: "'n template_ops \<Rightarrow> 'n template_value list \<Rightarrow> 'n template_value list \<Rightarrow> bool"
  and object_eq :: "'n template_ops \<Rightarrow> (ustring \<times> 'n template_value) list \<Rightarrow> (ustring \<times> 'n template_value) list \<Rightarrow> bool"
where
  "value_eq ops VUndefined w = (case w of VUndefined \<Rightarrow> True | _ \<Rightarrow> False)"
| "value_eq ops VNull w = (case w of VNull \<Rightarrow> True | _ \<Rightarrow> False)"
| "value_eq ops (VBool a) w = (case w of VBool b \<Rightarrow> a = b | _ \<Rightarrow> False)"
| "value_eq ops (VNumber x) w = (case w of VNumber y \<Rightarrow> to_eq ops x y | _ \<Rightarrow> False)"
| "value_eq ops (VString s) w = (case w of VString t \<Rightarrow> s = t | _ \<Rightarrow> False)"
| "value_eq ops (VList xs) w = (case w of VList ys \<Rightarrow> list_eq ops xs ys | _ \<Rightarrow> False)"
| "value_eq ops (VObject kvs) w = (case w of VObject kws \<Rightarrow> object_eq ops kvs kws | _ \<Rightarrow> False)"
| "list_eq ops [] ys = (ys = [])"
| "list_eq ops (x # xs) ys = (case ys of y # ys' \<Rightarrow> value_eq ops x y \<and> list_eq ops xs ys' | [] \<Rightarrow> False)"
| "object_eq ops [] ys = (ys = [])"
| "object_eq ops ((k, v) # xs) ys =
     (case ys of (k', w) # ys' \<Rightarrow> k = k' \<and> value_eq ops v w \<and> object_eq ops xs ys' | [] \<Rightarrow> False)"

subsection \<open>Scopes and expressions\<close>

type_synonym 'n scope = "(ustring, 'n template_value) omap list"

fun scope_get :: "'n scope \<Rightarrow> ustring \<Rightarrow> 'n template_value" where
  "scope_get [] name = VUndefined"
| "scope_get (frame # frames) name = (case om_get frame name of Some v \<Rightarrow> v | None \<Rightarrow> scope_get frames name)"

fun scope_set :: "'n scope \<Rightarrow> ustring \<Rightarrow> 'n template_value \<Rightarrow> 'n scope" where
  "scope_set [] name v = []"
| "scope_set (frame # frames) name v = om_put name v frame # frames"

definition scope_push :: "'n scope \<Rightarrow> 'n scope" where "scope_push frames = [] # frames"

definition scope_pop :: "'n scope \<Rightarrow> 'n scope" where "scope_pop frames = tl frames"

definition value_member :: "'n template_value \<Rightarrow> ustring \<Rightarrow> 'n template_value" where
  "value_member v m = (case v of VObject kvs \<Rightarrow> (case om_get kvs m of Some w \<Rightarrow> w | None \<Rightarrow> VUndefined) | _ \<Rightarrow> VUndefined)"

text \<open>\<open>to_as_index\<close> is \<open>as isize as usize\<close>.\<close>

definition value_index :: "'n template_ops \<Rightarrow> 'n template_value \<Rightarrow> 'n template_value \<Rightarrow> 'n template_value" where
  "value_index ops v i =
     (case (v, i) of
        (VList xs, VNumber x) \<Rightarrow> if to_as_index ops x < length xs then xs ! to_as_index ops x else VUndefined
      | (VObject kvs, VString s) \<Rightarrow> value_member v s
      | _ \<Rightarrow> VUndefined)"

definition compare_numbers :: "'n template_ops \<Rightarrow> binary_operator \<Rightarrow> 'n \<Rightarrow> 'n \<Rightarrow> bool" where
  "compare_numbers ops op x y =
     (case op of
        OpLess \<Rightarrow> to_less ops x y
      | OpLessOrEqual \<Rightarrow> to_less_eq ops x y
      | OpGreater \<Rightarrow> to_less ops y x
      | _ \<Rightarrow> to_less_eq ops y x)"

text \<open>The operators that evaluate both operands; \<open>and\<close> and \<open>or\<close> do not come here.\<close>

definition apply_operator ::
  "'n template_ops \<Rightarrow> binary_operator \<Rightarrow> 'n template_value \<Rightarrow> 'n template_value \<Rightarrow> ('n template_value, chat_template_error) result"
where
  "apply_operator ops op l r =
     (case op of
        OpAdd \<Rightarrow>
          (case (l, r) of
             (VString s, VString t) \<Rightarrow> Ok (VString (s @ t))
           | (VNumber x, VNumber y) \<Rightarrow> Ok (VNumber (to_add ops x y))
           | _ \<Rightarrow> Err (TemplateRender ''cannot add''))
      | OpSubtract \<Rightarrow>
          (case (l, r) of
             (VNumber x, VNumber y) \<Rightarrow> Ok (VNumber (to_sub ops x y))
           | _ \<Rightarrow> Err (TemplateRender ''cannot subtract''))
      | OpEqual \<Rightarrow> Ok (VBool (value_eq ops l r))
      | OpNotEqual \<Rightarrow> Ok (VBool (\<not> value_eq ops l r))
      | _ \<Rightarrow>
          (case (l, r) of
             (VNumber x, VNumber y) \<Rightarrow> Ok (VBool (compare_numbers ops op x y))
           | _ \<Rightarrow> Ok (VBool False)))"

fun evaluate :: "'n template_ops \<Rightarrow> 'n expression \<Rightarrow> 'n scope \<Rightarrow> ('n template_value, chat_template_error) result" where
  "evaluate ops (Literal v) scope = Ok v"
| "evaluate ops (Variable name) scope = Ok (scope_get scope name)"
| "evaluate ops (Member e m) scope = rbind (evaluate ops e scope) (\<lambda>v. Ok (value_member v m))"
| "evaluate ops (Index e i) scope =
     rbind (evaluate ops e scope) (\<lambda>v. rbind (evaluate ops i scope) (\<lambda>j. Ok (value_index ops v j)))"
| "evaluate ops (UnaryNot e) scope = rbind (evaluate ops e scope) (\<lambda>v. Ok (VBool (\<not> truthy ops v)))"
| "evaluate ops (Binary op l r) scope =
     rbind (evaluate ops l scope) (\<lambda>v.
       if op = OpAnd then (if truthy ops v then evaluate ops r scope else Ok v)
       else if op = OpOr then (if truthy ops v then Ok v else evaluate ops r scope)
       else rbind (evaluate ops r scope) (apply_operator ops op v))"
| "evaluate ops (IsDefined e) scope =
     rbind (evaluate ops e scope) (\<lambda>v. Ok (VBool (case v of VUndefined \<Rightarrow> False | _ \<Rightarrow> True)))"
| "evaluate ops (Filter e f) scope =
     rbind (evaluate ops e scope) (\<lambda>v.
       if f = ustr ''tojson'' then Ok (VString (to_json ops v)) else Err (TemplateUnsupported ''filter''))"

subsection \<open>Nodes\<close>

type_synonym 'n rendering = "('n scope \<times> ustring, chat_template_error) result"

definition loop_object :: "'n template_ops \<Rightarrow> nat \<Rightarrow> nat \<Rightarrow> 'n template_value" where
  "loop_object ops len index = VObject
     (om_put (ustr ''length'') (VNumber (to_of_nat ops len))
     (om_put (ustr ''index'') (VNumber (to_of_nat ops (index + 1)))
     (om_put (ustr ''index0'') (VNumber (to_of_nat ops index))
     (om_put (ustr ''last'') (VBool (index + 1 = len))
     (om_put (ustr ''first'') (VBool (index = 0)) [])))))"

definition loop_frame :: "'n template_ops \<Rightarrow> ustring \<Rightarrow> nat \<Rightarrow> nat \<Rightarrow> 'n template_value \<Rightarrow> 'n scope \<Rightarrow> 'n scope" where
  "loop_frame ops variable len index v scope =
     scope_set (scope_set (scope_push scope) variable v) (ustr ''loop'') (loop_object ops len index)"

definition loop_items :: "'n template_value \<Rightarrow> ('n template_value list, chat_template_error) result" where
  "loop_items v =
     (case v of
        VList xs \<Rightarrow> Ok xs
      | VUndefined \<Rightarrow> Ok []
      | VNull \<Rightarrow> Ok []
      | _ \<Rightarrow> Err (TemplateRender ''cannot iterate''))"

fun render_items ::
  "'n template_ops \<Rightarrow> ustring \<Rightarrow> ('n scope \<Rightarrow> ustring \<Rightarrow> 'n rendering) \<Rightarrow> nat \<Rightarrow> nat \<Rightarrow> 'n template_value list \<Rightarrow>
     'n scope \<Rightarrow> ustring \<Rightarrow> 'n rendering"
where
  "render_items ops variable body len index [] scope out = Ok (scope, out)"
| "render_items ops variable body len index (v # vs) scope out =
     rbind (body (loop_frame ops variable len index v scope) out) (\<lambda>(scope', out').
       render_items ops variable body len (index + 1) vs (scope_pop scope') out')"

text \<open>
  A node is a step on scope and output. \<open>run_steps\<close> and \<open>run_branches\<close> are the loops over nodes and over
  the branches of an \<open>if\<close>.
\<close>

type_synonym 'n render_step = "'n scope \<Rightarrow> ustring \<Rightarrow> 'n rendering"

fun run_steps :: "'n render_step list \<Rightarrow> 'n render_step" where
  "run_steps [] scope out = Ok (scope, out)"
| "run_steps (f # fs) scope out = rbind (f scope out) (\<lambda>(scope', out'). run_steps fs scope' out')"

fun run_branches ::
  "'n template_ops \<Rightarrow> ('n expression \<times> 'n render_step list) list \<Rightarrow> 'n render_step list option \<Rightarrow> 'n render_step"
where
  "run_branches ops [] otherwise scope out =
     (case otherwise of Some fs \<Rightarrow> run_steps fs scope out | None \<Rightarrow> Ok (scope, out))"
| "run_branches ops ((condition, fs) # branches) otherwise scope out =
     rbind (evaluate ops condition scope) (\<lambda>v.
       if truthy ops v then run_steps fs scope out else run_branches ops branches otherwise scope out)"

primrec render_node :: "'n template_ops \<Rightarrow> 'n template_node \<Rightarrow> 'n render_step" where
  "render_node ops (TextNode t) = (\<lambda>scope out. Ok (scope, out @ t))"
| "render_node ops (OutputNode e) =
     (\<lambda>scope out. rbind (evaluate ops e scope) (\<lambda>v. Ok (scope, out @ render_value ops v)))"
| "render_node ops (IfNode branches otherwise) =
     run_branches ops (map (\<lambda>b. map_prod id (map (render_node ops)) b) branches) (map_option (map (render_node ops)) otherwise)"
| "render_node ops (ForNode variable iterable body) =
     (\<lambda>scope out. rbind (evaluate ops iterable scope) (\<lambda>v.
        rbind (loop_items v) (\<lambda>vs.
          render_items ops variable (run_steps (map (render_node ops) body)) (length vs) 0 vs scope out)))"
| "render_node ops (SetNode variable e) =
     (\<lambda>scope out. rbind (evaluate ops e scope) (\<lambda>v. Ok (scope_set scope variable v, out)))"

definition render_nodes :: "'n template_ops \<Rightarrow> 'n template_node list \<Rightarrow> 'n render_step" where
  "render_nodes ops nodes = run_steps (map (render_node ops) nodes)"

definition message_value :: "chat_message \<Rightarrow> 'n template_value" where
  "message_value m = VObject (om_put (ustr ''content'') (VString (cm_content m)) (om_put (ustr ''role'') (VString (cm_role m)) []))"

definition render_scope :: "chat_message list \<Rightarrow> bool \<Rightarrow> 'n scope" where
  "render_scope messages add_generation_prompt =
     scope_set (scope_set (scope_set [[]] (ustr ''messages'') (VList (map message_value messages)))
       (ustr ''tools'') (VList [])) (ustr ''add_generation_prompt'') (VBool add_generation_prompt)"

definition render_template ::
  "'n template_ops \<Rightarrow> 'n chat_template \<Rightarrow> chat_message list \<Rightarrow> bool \<Rightarrow> (ustring, chat_template_error) result"
where
  "render_template ops t messages add_generation_prompt =
     rbind (render_nodes ops (ct_nodes t) (render_scope messages add_generation_prompt) []) (\<lambda>(scope, out). Ok out)"

subsection \<open>The JSON filter\<close>

text \<open>A reader of JSON strings behind the opening quote: the text and the rest.\<close>

definition hex_digit_value :: "nat \<Rightarrow> nat option" where
  "hex_digit_value c =
     (if 48 \<le> c \<and> c \<le> 57 then Some (c - 48) else if 97 \<le> c \<and> c \<le> 102 then Some (c - 87) else None)"

fun hex_number :: "nat \<Rightarrow> nat list \<Rightarrow> nat option" where
  "hex_number n [] = Some n"
| "hex_number n (c # cs) = Option.bind (hex_digit_value c) (\<lambda>d. hex_number (16 * n + d) cs)"

definition simple_escape :: "nat \<Rightarrow> nat option" where
  "simple_escape e = map_of [(34, 34), (92, 92), (47, 47), (98, 8), (102, 12), (110, 10), (114, 13), (116, 9)] e"

fun json_read :: "ustring \<Rightarrow> (ustring \<times> ustring) option" where
  "json_read [] = None"
| "json_read (c # cs) =
     (if c = 34 then Some ([], cs)
      else if c < 32 then None
      else if c \<noteq> 92 then map_option (\<lambda>(s, rest). (c # s, rest)) (json_read cs)
      else (case cs of
          e # cs' \<Rightarrow>
            if e = 117 then
              (case hex_number 0 (take 4 cs') of
                 Some d \<Rightarrow> if length cs' < 4 then None else map_option (\<lambda>(s, rest). (d # s, rest)) (json_read (drop 4 cs'))
               | None \<Rightarrow> None)
            else (case simple_escape e of
                Some d \<Rightarrow> map_option (\<lambda>(s, rest). (d # s, rest)) (json_read cs')
              | None \<Rightarrow> None)
        | [] \<Rightarrow> None))"

lemma hex_digit_value: "d < 16 \<Longrightarrow> hex_digit_value (json_hex_digit d) = Some d"
  by (simp add: hex_digit_value_def json_hex_digit_def)

lemma json_read_character: "json_read (json_character c @ s) = map_option (\<lambda>(t, rest). (c # t, rest)) (json_read s)"
proof (cases "control c \<and> c \<notin> {10, 13, 9}")
  case True
  have d: "c div 16 < 16" using True by (simp add: control_def) linarith
  have "hex_number 0 [48, 48, json_hex_digit (c div 16), json_hex_digit (c mod 16)] = Some c"
    using hex_digit_value [OF d] hex_digit_value [of "c mod 16"] by (simp add: hex_digit_value_def)
  moreover have "c \<noteq> 34" "c \<noteq> 92" using True by (auto simp: control_def)
  ultimately show ?thesis using True by (simp add: json_character_def)
next
  case False
  then have "\<not> c < 32 \<or> c \<in> {10, 13, 9}" by (auto simp: control_def)
  with False show ?thesis by (auto simp: json_character_def simple_escape_def)
qed

lemma json_read_escaped: "json_read (concat (map json_character s) @ 34 # rest) = Some (s, rest)"
  by (induction s) (simp_all add: json_read_character)

text \<open>
  The text that \<open>tojson\<close> gives for a string is a JSON string: a JSON reader reads it back to the same
  characters, whatever quotes, backslashes and control characters it holds, and stops behind it.
\<close>

theorem json_string_roundtrip: "\<exists>body. json_string s = 34 # body \<and> json_read (body @ rest) = Some (s, rest)"
  by (simp add: json_string_def json_read_escaped)

subsection \<open>Rendering nodes\<close>

text \<open>A step that appends to the output, whatever it holds, and changes no frame but the innermost.\<close>

definition local_step :: "'n render_step \<Rightarrow> bool" where
  "local_step f \<longleftrightarrow>
     (\<forall>frame frames. (\<exists>x. (\<forall>out. f (frame # frames) out = Err x)) \<or> (\<exists>frame' t. \<forall>out. f (frame # frames) out = Ok (frame' # frames, out @ t)))"

lemma local_step_cases:
  assumes "local_step f"
  obtains (failed) x where "\<And>out. f (frame # frames) out = Err x"
    | (stepped) frame' t where "\<And>out. f (frame # frames) out = Ok (frame' # frames, out @ t)"
  using assms unfolding local_step_def by metis

lemma evaluate_not_panic: "\<not> is_panic (evaluate ops e scope)"
proof (induction e)
  case (Binary op l r)
  have "\<not> is_panic (apply_operator ops op v w)" for v w
    by (auto simp: apply_operator_def split: binary_operator.split template_value.split)
  then show ?case using Binary by (auto simp: is_panic_rbind)
qed (auto simp: is_panic_rbind)

lemma evaluate_no_panic [simp]: "evaluate ops e scope \<noteq> Panic m"
  using evaluate_not_panic [of ops e scope] by auto

lemma local_step_run: "(\<And>f. f \<in> set fs \<Longrightarrow> local_step f) \<Longrightarrow> local_step (run_steps fs)"
proof (induction fs)
  case Nil
  then show ?case by (auto simp: local_step_def)
next
  case (Cons f fs)
  have f: "local_step f" and fs: "local_step (run_steps fs)" using Cons by simp_all
  show ?case unfolding local_step_def
  proof (intro allI)
    fix frame and frames :: "'a scope"
    show "(\<exists>x. \<forall>out. run_steps (f # fs) (frame # frames) out = Err x)
        \<or> (\<exists>frame' t. \<forall>out. run_steps (f # fs) (frame # frames) out = Ok (frame' # frames, out @ t))"
    proof (rule local_step_cases [OF f, of frame frames])
      fix frame' t
      assume first: "\<And>out. f (frame # frames) out = Ok (frame' # frames, out @ t)"
      show ?thesis by (rule local_step_cases [OF fs, of frame' frames]) (auto simp: first)
    qed auto
  qed
qed

lemma local_step_branches:
  "(\<And>c fs f. (c, fs) \<in> set branches \<Longrightarrow> f \<in> set fs \<Longrightarrow> local_step f) \<Longrightarrow>
     (\<And>fs f. otherwise = Some fs \<Longrightarrow> f \<in> set fs \<Longrightarrow> local_step f) \<Longrightarrow> local_step (run_branches ops branches otherwise)"
proof (induction branches)
  case Nil
  show ?case
  proof (cases otherwise)
    case None
    then show ?thesis by (auto simp: local_step_def)
  next
    case (Some fs)
    then have "local_step (run_steps fs)" using Nil by (auto intro: local_step_run)
    with Some show ?thesis by (simp add: local_step_def)
  qed
next
  case (Cons b branches)
  obtain c fs where b: "b = (c, fs)" by (cases b)
  have one: "local_step (run_steps fs)" using Cons b by (auto intro!: local_step_run)
  have rest: "local_step (run_branches ops branches otherwise)" using Cons by (auto intro!: Cons.IH)
  show ?case unfolding local_step_def
  proof (intro allI)
    fix frame and frames :: "'a scope"
    show "(\<exists>x. \<forall>out. run_branches ops (b # branches) otherwise (frame # frames) out = Err x)
        \<or> (\<exists>frame' t. \<forall>out. run_branches ops (b # branches) otherwise (frame # frames) out = Ok (frame' # frames, out @ t))"
    proof (cases "evaluate ops c (frame # frames)")
      case (Ok v)
      then show ?thesis using one rest unfolding local_step_def b by (cases "truthy ops v") simp_all
    qed (simp_all add: b)
  qed
qed

text \<open>A loop leaves the whole scope as it was: each item gets a frame of its own.\<close>

lemma render_items_scope:
  assumes "local_step body"
  shows "(\<exists>x. \<forall>out. render_items ops variable body len i vs scope out = Err x)
    \<or> (\<exists>t. \<forall>out. render_items ops variable body len i vs scope out = Ok (scope, out @ t))"
proof (induction vs arbitrary: i)
  case (Cons v vs)
  obtain frame where frame: "loop_frame ops variable len i v scope = frame # scope"
    by (simp add: loop_frame_def scope_push_def)
  show ?case
  proof (rule local_step_cases [OF assms, of frame scope])
    fix frame' t
    assume "\<And>out. body (frame # scope) out = Ok (frame' # scope, out @ t)"
    then show ?thesis using Cons [of "i + 1"] by (auto simp: frame scope_pop_def)
  qed (simp add: frame)
qed simp

lemma loop_items_not_panic: "\<not> is_panic (loop_items v)"
  by (simp add: loop_items_def split: template_value.split)

lemma local_step_node: "local_step (render_node ops node)"
proof (induction node)
  case (OutputNode e)
  show ?case unfolding local_step_def
    by (intro allI, case_tac "evaluate ops e (frame # frames)") auto
next
  case (IfNode branches otherwise)
  then show ?case by (auto intro!: local_step_branches)
next
  case (ForNode variable iterable body)
  then have body: "local_step (run_steps (map (render_node ops) body))" by (auto intro!: local_step_run)
  show ?case unfolding local_step_def
  proof (intro allI)
    fix frame and frames :: "'a scope"
    show "(\<exists>x. \<forall>out. render_node ops (ForNode variable iterable body) (frame # frames) out = Err x)
        \<or> (\<exists>frame' t. \<forall>out. render_node ops (ForNode variable iterable body) (frame # frames) out = Ok (frame' # frames, out @ t))"
    proof (cases "evaluate ops iterable (frame # frames)")
      case (Ok v)
      show ?thesis
      proof (cases "loop_items v")
        case items: (Ok vs)
        from render_items_scope [OF body, of ops variable "length vs" 0 vs "frame # frames"]
        show ?thesis by (auto simp: Ok items)
      qed (use loop_items_not_panic [of v] in \<open>auto simp: Ok\<close>)
    qed simp_all
  qed
next
  case (SetNode variable e)
  show ?case unfolding local_step_def
    by (intro allI, case_tac "evaluate ops e (frame # frames)") auto
qed (auto simp: local_step_def)

subsection \<open>A template of the repository's tests, for every conversation\<close>

text \<open>
  The template of the test \<open>qwen_style_template_selects_default_system_prompt\<close>: the prompt of the model's
  ChatML format, with a default system prompt. \<open>bs\<close> stands for the backslash of an escape in it.
\<close>

definition bs :: char where "bs = CHR 0x5C"

definition chatml_source :: ustring where
  "chatml_source = ustr
     (''{%- if messages[0]['role'] == 'system' %}''
      @ ''{{- '<|im_start|>system'' @ [bs] @ ''n' + messages[0]['content'] + '<|im_end|>'' @ [bs] @ ''n' }}''
      @ ''{%- else %}''
      @ ''{{- '<|im_start|>system'' @ [bs] @ ''nYou are helpful.<|im_end|>'' @ [bs] @ ''n' }}''
      @ ''{%- endif %}''
      @ ''{%- for message in messages %}''
      @ ''{%- if (message.role == 'user') or (message.role == 'system' and not loop.first) %}''
      @ ''{{- '<|im_start|>' + message.role + '' @ [CHR 0x27, bs] @ ''n' + message.content + '<|im_end|>'' @ [bs] @ ''n' }}''
      @ ''{%- endif %}''
      @ ''{%- endfor %}''
      @ ''{%- if add_generation_prompt %}''
      @ ''{{- '<|im_start|>assistant'' @ [bs] @ ''n' }}''
      @ ''{%- endif %}'')"

definition newline :: ustring where "newline = [10]"

definition chatml_turn :: "ustring \<Rightarrow> ustring \<Rightarrow> ustring" where
  "chatml_turn role content = ustr ''<|im_start|>'' @ role @ newline @ content @ ustr ''<|im_end|>'' @ newline"

definition chatml_shown :: "nat \<Rightarrow> chat_message \<Rightarrow> bool" where
  "chatml_shown i m \<longleftrightarrow> cm_role m = ustr ''user'' \<or> (cm_role m = ustr ''system'' \<and> i \<noteq> 0)"

definition chatml_system :: "chat_message list \<Rightarrow> ustring" where
  "chatml_system messages =
     (if messages \<noteq> [] \<and> cm_role (hd messages) = ustr ''system'' then cm_content (hd messages) else ustr ''You are helpful.'')"

definition chatml_prompt :: "chat_message list \<Rightarrow> bool \<Rightarrow> ustring" where
  "chatml_prompt messages cue =
     chatml_turn (ustr ''system'') (chatml_system messages)
     @ concat (map (\<lambda>(i, m). if chatml_shown i m then chatml_turn (cm_role m) (cm_content m) else [])
         (List.enumerate 0 messages))
     @ (if cue then ustr ''<|im_start|>assistant'' @ newline else [])"

text \<open>What the template needs of the numbers and of the Unicode tables.\<close>

definition ascii_letter :: "nat \<Rightarrow> bool" where "ascii_letter c \<longleftrightarrow> (65 \<le> c \<and> c \<le> 90) \<or> (97 \<le> c \<and> c \<le> 122)"

definition standard_ops :: "'n template_ops \<Rightarrow> bool" where
  "standard_ops ops \<longleftrightarrow>
     (\<forall>c<128. to_alphabetic ops c = ascii_letter c \<and> to_alphanumeric ops c = (ascii_letter c \<or> ascii_digit c))
     \<and> (\<exists>z. to_parse ops [48] = Some z \<and> to_as_index ops z = 0)"

text \<open>An instance: the numbers are integers, no other letters than ASCII's.\<close>

definition integer_ops :: "int template_ops" where
  "integer_ops = \<lparr>to_parse = (\<lambda>s. if list_all ascii_digit s then Some (foldl (\<lambda>n c. 10 * n + int (c - 48)) 0 s) else None),
     to_display = show_i64, to_integral = (\<lambda>_. True), to_as_i64 = id, to_as_index = nat, to_is_zero = (\<lambda>x. x = 0),
     to_of_nat = int, to_add = (+), to_sub = (-), to_eq = (=), to_less = (<), to_less_eq = (\<le>),
     to_alphabetic = ascii_letter, to_alphanumeric = (\<lambda>c. ascii_letter c \<or> ascii_digit c)\<rparr>"

definition chatml_condition :: "'n expression" where
  "chatml_condition = Binary OpOr
     (Binary OpEqual (Member (Variable (ustr ''message'')) (ustr ''role'')) (Literal (VString (ustr ''user''))))
     (Binary OpAnd
       (Binary OpEqual (Member (Variable (ustr ''message'')) (ustr ''role'')) (Literal (VString (ustr ''system''))))
       (UnaryNot (Member (Variable (ustr ''loop'')) (ustr ''first''))))"

definition chatml_message :: "'n expression" where
  "chatml_message = Binary OpAdd (Binary OpAdd (Binary OpAdd (Binary OpAdd
     (Literal (VString (ustr ''<|im_start|>'')))
     (Member (Variable (ustr ''message'')) (ustr ''role'')))
     (Literal (VString newline)))
     (Member (Variable (ustr ''message'')) (ustr ''content'')))
     (Literal (VString (ustr ''<|im_end|>'' @ newline)))"

definition first_message :: "'n \<Rightarrow> 'n expression" where
  "first_message z = Index (Variable (ustr ''messages'')) (Literal (VNumber z))"

definition chatml_first :: "'n \<Rightarrow> 'n expression" where
  "chatml_first z = Binary OpEqual (Index (first_message z) (Literal (VString (ustr ''role'')))) (Literal (VString (ustr ''system'')))"

definition chatml_custom :: "'n \<Rightarrow> 'n expression" where
  "chatml_custom z = Binary OpAdd (Binary OpAdd
     (Literal (VString (ustr ''<|im_start|>system'' @ newline)))
     (Index (first_message z) (Literal (VString (ustr ''content'')))))
     (Literal (VString (ustr ''<|im_end|>'' @ newline)))"

definition chatml_default :: ustring where
  "chatml_default = ustr ''<|im_start|>system'' @ newline @ ustr ''You are helpful.<|im_end|>'' @ newline"

definition chatml_cue :: ustring where "chatml_cue = ustr ''<|im_start|>assistant'' @ newline"

definition chatml_nodes :: "'n \<Rightarrow> 'n template_node list" where
  "chatml_nodes z =
     [IfNode [(chatml_first z, [OutputNode (chatml_custom z)])] (Some [OutputNode (Literal (VString chatml_default))]),
      ForNode (ustr ''message'') (Variable (ustr ''messages'')) [IfNode [(chatml_condition, [OutputNode chatml_message])] None],
      IfNode [(Variable (ustr ''add_generation_prompt''), [OutputNode (Literal (VString chatml_cue))])] None]"

lemmas source_simps = closing_marker_def tag_tokens_def text_tokens_def starts_with_def trim_text_def trim_end_def
  trim_start_def whitespace_def

lemmas scan_simps = ustr_def next_token_def single_token_def two_character_operators_def whitespace_def ascii_letter_def
  ascii_digit_def unescape_def

definition chatml_texts :: "ustring list" where
  "chatml_texts = map ustr
     [''messages[0]['role'] == 'system'' @ [CHR 0x27],
      [CHR 0x27] @ ''<|im_start|>system'' @ [bs] @ ''n' + messages[0]['content'] + '<|im_end|>'' @ [bs] @ [CHR 0x6E, CHR 0x27],
      [CHR 0x27] @ ''<|im_start|>system'' @ [bs] @ ''nYou are helpful.<|im_end|>'' @ [bs] @ [CHR 0x6E, CHR 0x27],
      ''(message.role == 'user') or (message.role == 'system' and not loop.first)'',
      [CHR 0x27] @ ''<|im_start|>' + message.role + '' @ [CHR 0x27, bs] @ ''n' + message.content + '<|im_end|>'' @ [bs]
        @ [CHR 0x6E, CHR 0x27],
      [CHR 0x27] @ ''<|im_start|>assistant'' @ [bs] @ [CHR 0x6E, CHR 0x27]]"

lemma chatml_tokens:
  "tokenize_template chatml_source = Ok
     [StatementTag (ustr ''if '' @ chatml_texts ! 0), ExpressionTag (chatml_texts ! 1), StatementTag (ustr ''else''),
      ExpressionTag (chatml_texts ! 2), StatementTag (ustr ''endif''), StatementTag (ustr ''for message in messages''),
      StatementTag (ustr ''if '' @ chatml_texts ! 3), ExpressionTag (chatml_texts ! 4), StatementTag (ustr ''endif''),
      StatementTag (ustr ''endfor''), StatementTag (ustr ''if add_generation_prompt''), ExpressionTag (chatml_texts ! 5),
      StatementTag (ustr ''endif'')]"
  by (simp only: chatml_source_def append.simps ustr_def bs_def list.map tokenize_template_def)
    (simp add: source_simps chatml_texts_def ustr_def bs_def)

lemma parse_alternatives:
  assumes "expression_ok l" "expression_ok r"
  defines "tokens \<equiv> (TLeftParen # print_expression l @ [TRightParen]) @ TIdentifier (ustr ''or'') #
      (TLeftParen # print_expression r @ [TRightParen]) @ []"
  shows "expression_parser ops (expression_fuel tokens) ParseOr tokens = Ok (Binary OpOr l r, [])"
proof -
  have "parses ops 0 l (TLeftParen # print_expression l @ [TRightParen])"
    "parses ops 1 r (TLeftParen # print_expression r @ [TRightParen])"
    by (rule parses_parenthesised [OF _ parses_print]; use assms(1,2) in simp)+
  note left = this(1) [unfolded parses_def, rule_format]
    and right = parses_complete [OF this(2), of "[]"]
  have stop: "stops k ([] :: 'a expression_token list)" for k
    by (simp add: stops_def postfix_stop_def concat_operator_def comparison_operator_def keyword_def)
  have "parser ops ParseOr tokens = parser ops (OrLoop l) (TIdentifier (ustr ''or'') #
      (TLeftParen # print_expression r @ [TRightParen]) @ [])"
    unfolding tokens_def using left [of "TIdentifier (ustr ''or'') # _"] by (simp add: stops_tokens(2) [unfolded One_nat_def])
  also have "\<dots> = parser ops (OrLoop (Binary OpOr l r)) []"
    using right [OF stop] by (subst parser_unfold) (simp add: or_loop_def)
  also have "\<dots> = Ok (Binary OpOr l r, [])" by (rule loop_stops) (rule stop)
  finally show ?thesis by (simp add: parser_def expression_fuel_def)
qed

lemma chatml_expressions:
  assumes ops: "\<And>c. c < 128 \<Longrightarrow> to_alphabetic ops c = ascii_letter c"
      "\<And>c. c < 128 \<Longrightarrow> to_alphanumeric ops c = (ascii_letter c \<or> ascii_digit c)"
    and z: "to_parse ops [48] = Some z"
  shows "parse_expression ops (chatml_texts ! 0) = Ok (chatml_first z)"
    and "parse_expression ops (chatml_texts ! 1) = Ok (chatml_custom z)"
    and "parse_expression ops (chatml_texts ! 2) = Ok (Literal (VString chatml_default))"
    and "parse_expression ops (chatml_texts ! 3) = Ok chatml_condition"
    and "parse_expression ops (chatml_texts ! 4) = Ok chatml_message"
    and "parse_expression ops (chatml_texts ! 5) = Ok (Literal (VString chatml_cue))"
    and "parse_expression ops (ustr ''messages'') = Ok (Variable (ustr ''messages''))"
    and "parse_expression ops (ustr ''add_generation_prompt'') = Ok (Variable (ustr ''add_generation_prompt''))"
proof -
  have printed: "parse_expression ops s = Ok e"
    if "tokenize_expression ops s = Ok (print_expression e)" "expression_ok e" for s e
    using that parse_printed [of e ops] by (simp add: parse_expression_def)
  note printed_simps = wrap_def first_message_def newline_def identifier_expression_def
  show "parse_expression ops (chatml_texts ! 0) = Ok (chatml_first z)"
    by (rule printed; simp add: chatml_texts_def scan_simps bs_def ops z chatml_first_def printed_simps)
  show "parse_expression ops (chatml_texts ! 1) = Ok (chatml_custom z)"
    by (rule printed; simp add: chatml_texts_def scan_simps bs_def ops z chatml_custom_def printed_simps)
  show "parse_expression ops (chatml_texts ! 2) = Ok (Literal (VString chatml_default))"
    by (rule printed; simp add: chatml_texts_def scan_simps bs_def ops z chatml_default_def printed_simps)
  show "parse_expression ops (chatml_texts ! 4) = Ok chatml_message"
    by (rule printed; simp add: chatml_texts_def scan_simps bs_def ops z chatml_message_def printed_simps)
  show "parse_expression ops (chatml_texts ! 5) = Ok (Literal (VString chatml_cue))"
    by (rule printed; simp add: chatml_texts_def scan_simps bs_def ops z chatml_cue_def printed_simps)
  show "parse_expression ops (ustr ''messages'') = Ok (Variable (ustr ''messages''))"
    by (rule printed; simp add: scan_simps ops printed_simps)
  show "parse_expression ops (ustr ''add_generation_prompt'') = Ok (Variable (ustr ''add_generation_prompt''))"
    by (rule printed; simp add: scan_simps ops printed_simps)
  let ?user = "Binary OpEqual (Member (Variable (ustr ''message'')) (ustr ''role'')) (Literal (VString (ustr ''user''))) :: 'a expression"
  let ?system = "Binary OpAnd
      (Binary OpEqual (Member (Variable (ustr ''message'')) (ustr ''role'')) (Literal (VString (ustr ''system''))))
      (UnaryNot (Member (Variable (ustr ''loop'')) (ustr ''first''))) :: 'a expression"
  have tokens: "tokenize_expression ops (chatml_texts ! 3) = Ok
      ((TLeftParen # print_expression ?user @ [TRightParen]) @ TIdentifier (ustr ''or'') #
        (TLeftParen # print_expression ?system @ [TRightParen]) @ [])"
    by (simp add: chatml_texts_def scan_simps ops printed_simps)
  show "parse_expression ops (chatml_texts ! 3) = Ok chatml_condition"
    unfolding parse_expression_def tokens chatml_condition_def
    using parse_alternatives [of ?user ?system ops] by (simp add: identifier_expression_def ustr_def)
qed

lemma parse_nodes_steps:
  "parse_nodes ops (Suc n) terminators [] = Ok ([], None, [])"
  "parse_nodes ops (Suc n) terminators (ExpressionTag s # ts) =
     rbind (parse_expression ops s) (\<lambda>e. add_node (parse_nodes ops n) terminators (OutputNode e, ts))"
  "statement_keyword s \<in> {ustr ''elif'', ustr ''else'', ustr ''endif'', ustr ''endfor''} \<Longrightarrow>
     parse_nodes ops (Suc n) terminators (StatementTag s # ts) = Ok ([], Some s, StatementTag s # ts)"
  "statement_keyword s = ustr ''if'' \<Longrightarrow> ''if'' \<notin> set terminators \<Longrightarrow>
     parse_nodes ops (Suc n) terminators (StatementTag s # ts) =
       rbind (condition_of ''if'' s) (\<lambda>condition.
       rbind (parse_if ops (parse_nodes ops n) condition ts) (add_node (parse_nodes ops n) terminators))"
  "statement_keyword s = ustr ''for'' \<Longrightarrow> ''for'' \<notin> set terminators \<Longrightarrow>
     parse_nodes ops (Suc n) terminators (StatementTag s # ts) =
       rbind (parse_for ops (parse_nodes ops n) s ts) (add_node (parse_nodes ops n) terminators)"
proof -
  have ustr_eq: "ustr s = ustr t \<longleftrightarrow> s = t" for s t
    unfolding ustr_def by (rule inj_map_eq_map) (auto intro!: injI)
  show "parse_nodes ops (Suc n) terminators [] = Ok ([], None, [])"
    "parse_nodes ops (Suc n) terminators (ExpressionTag s # ts) =
     rbind (parse_expression ops s) (\<lambda>e. add_node (parse_nodes ops n) terminators (OutputNode e, ts))"
    by simp_all
  show "parse_nodes ops (Suc n) terminators (StatementTag s # ts) = Ok ([], Some s, StatementTag s # ts)"
    if "statement_keyword s \<in> {ustr ''elif'', ustr ''else'', ustr ''endif'', ustr ''endfor''}"
    using that by (auto simp: ustr_eq Let_def)
  show "parse_nodes ops (Suc n) terminators (StatementTag s # ts) =
       rbind (condition_of ''if'' s) (\<lambda>condition.
       rbind (parse_if ops (parse_nodes ops n) condition ts) (add_node (parse_nodes ops n) terminators))"
    if "statement_keyword s = ustr ''if''" "''if'' \<notin> set terminators"
    using that by (auto simp: ustr_eq Let_def)
  show "parse_nodes ops (Suc n) terminators (StatementTag s # ts) =
       rbind (parse_for ops (parse_nodes ops n) s ts) (add_node (parse_nodes ops n) terminators)"
    if "statement_keyword s = ustr ''for''" "''for'' \<notin> set terminators"
    using that by (auto simp: ustr_eq Let_def)
qed

lemma keyword_words:
  "statement_keyword (ustr ''else'') = ustr ''else''" "statement_keyword (ustr ''endif'') = ustr ''endif''"
  "statement_keyword (ustr ''endfor'') = ustr ''endfor''"
  "statement_keyword (ustr ''for message in messages'') = ustr ''for''"
  "statement_keyword (ustr ''if add_generation_prompt'') = ustr ''if''"
  "statement_keyword (ustr ''if '' @ chatml_texts ! 0) = ustr ''if''" "statement_keyword (ustr ''if '' @ chatml_texts ! 3) = ustr ''if''"
  by (simp_all add: statement_keyword_def split_whitespace_def whitespace_def ustr_def chatml_texts_def bs_def)

lemma keyword_conditions:
  "condition_of ''if'' (ustr ''if add_generation_prompt'') = Ok (ustr ''add_generation_prompt'')"
  "condition_of ''if'' (ustr ''if '' @ chatml_texts ! 0) = Ok (chatml_texts ! 0)"
  "condition_of ''if'' (ustr ''if '' @ chatml_texts ! 3) = Ok (chatml_texts ! 3)"
  by (simp_all add: condition_of_def strip_prefix_def source_simps ustr_def chatml_texts_def bs_def)

lemma keyword_loop:
  "strip_prefix ''for'' (ustr ''for message in messages'') = Some (ustr '' message in messages'')"
  "split_once (ustr '' in '') (trim_text (ustr '' message in messages'')) = Some (ustr ''message'', ustr ''messages'')"
  "trim_text (ustr ''message'') = ustr ''message''" "trim_text (ustr ''messages'') = ustr ''messages''"
  "single_identifier (ustr ''message'')"
  by (simp_all add: strip_prefix_def source_simps ustr_def single_identifier_def)

lemma keywords_differ:
  "ustr ''else'' \<noteq> ustr ''elif''" "ustr ''endif'' \<noteq> ustr ''elif''" "ustr ''endif'' \<noteq> ustr ''else''"
  by (simp_all add: ustr_def)

text \<open>A conditional with one expression in each part.\<close>

lemma parse_if_then:
  assumes "parse_expression ops c = Ok ec" "parse_expression ops s = Ok e" "statement_keyword k = ustr ''endif''"
  shows "parse_if ops (parse_nodes ops (Suc (Suc n))) c (ExpressionTag s # StatementTag k # ts) =
    Ok (IfNode [(ec, [OutputNode e])] None, ts)"
  using assms by (simp add: parse_if_def parse_nodes_steps add_node_def Let_def keywords_differ del: parse_nodes.simps)

lemma parse_if_else:
  assumes "parse_expression ops c = Ok ec" "parse_expression ops s = Ok e" "parse_expression ops s' = Ok e'"
    "statement_keyword k = ustr ''endif''"
  shows "parse_if ops (parse_nodes ops (Suc (Suc n))) c
      (ExpressionTag s # StatementTag (ustr ''else'') # ExpressionTag s' # StatementTag k # ts) =
    Ok (IfNode [(ec, [OutputNode e])] (Some [OutputNode e']), ts)"
  using assms
  by (simp add: parse_if_def parse_nodes_steps add_node_def Let_def keywords_differ keyword_words del: parse_nodes.simps)

lemma parse_chatml:
  assumes ops: "\<And>c. c < 128 \<Longrightarrow> to_alphabetic ops c = ascii_letter c"
      "\<And>c. c < 128 \<Longrightarrow> to_alphanumeric ops c = (ascii_letter c \<or> ascii_digit c)"
    and z: "to_parse ops [48] = Some z"
  shows "parse_template ops chatml_source = Ok \<lparr>ct_source = chatml_source, ct_nodes = chatml_nodes z\<rparr>"
  unfolding parse_template_def chatml_tokens rbind.simps list.size(3,4) add_Suc_right add_0_right
  by (simp add: parse_nodes_steps keyword_words keyword_conditions keyword_loop add_node_def parse_for_def
      parse_if_else parse_if_then chatml_expressions [OF ops z, simplified] chatml_nodes_def del: parse_nodes.simps)

subsubsection \<open>Rendering it\<close>

lemma message_members:
  "value_member (message_value m) (ustr ''role'') = VString (cm_role m)"
  "value_member (message_value m) (ustr ''content'') = VString (cm_content m)"
  by (simp_all add: message_value_def value_member_def ustr_def)

lemma loop_scope:
  "scope_get (loop_frame ops (ustr ''message'') len i v scope) (ustr ''message'') = v"
  "value_member (scope_get (loop_frame ops (ustr ''message'') len i v scope) (ustr ''loop'')) (ustr ''first'') = VBool (i = 0)"
  by (simp_all add: loop_frame_def scope_push_def loop_object_def value_member_def ustr_def)

lemma chatml_condition_value:
  "evaluate ops chatml_condition (loop_frame ops (ustr ''message'') len i (message_value m) scope) = Ok (VBool (chatml_shown i m))"
  by (simp add: chatml_condition_def loop_scope message_members apply_operator_def chatml_shown_def)

lemma chatml_message_value:
  "evaluate ops chatml_message (loop_frame ops (ustr ''message'') len i (message_value m) scope) =
     Ok (VString (chatml_turn (cm_role m) (cm_content m)))"
  by (simp add: chatml_message_def loop_scope message_members apply_operator_def chatml_turn_def)

lemma chatml_loop:
  "render_items ops (ustr ''message'') (run_steps [render_node ops (IfNode [(chatml_condition, [OutputNode chatml_message])] None)])
     len i (map message_value ms) scope out =
   Ok (scope, out @ concat (map (\<lambda>(i, m). if chatml_shown i m then chatml_turn (cm_role m) (cm_content m) else [])
     (List.enumerate i ms)))"
proof (induction ms arbitrary: i out)
  case (Cons m ms)
  have pop: "scope_pop (loop_frame ops (ustr ''message'') len i v scope) = scope" for v
    by (simp add: loop_frame_def scope_push_def scope_pop_def)
  show ?case using Cons.IH by (simp add: chatml_condition_value chatml_message_value pop)
qed simp

lemma render_scope_get:
  "scope_get (render_scope ms cue) (ustr ''messages'') = VList (map message_value ms)"
  "scope_get (render_scope ms cue) (ustr ''add_generation_prompt'') = VBool cue"
  by (simp_all add: render_scope_def ustr_def)

lemma chatml_system_part:
  assumes "to_as_index ops z = 0"
  shows "render_node ops (IfNode [(chatml_first z, [OutputNode (chatml_custom z)])] (Some [OutputNode (Literal (VString chatml_default))]))
      (render_scope ms cue) out = Ok (render_scope ms cue, out @ chatml_turn (ustr ''system'') (chatml_system ms))"
proof (cases ms)
  case Nil
  then show ?thesis using assms
    by (simp add: chatml_first_def first_message_def render_scope_get value_index_def apply_operator_def chatml_default_def
        chatml_system_def chatml_turn_def) (simp add: ustr_def)
next
  case (Cons m ms')
  have index: "value_index ops (message_value m) (VString k) = value_member (message_value m) k" for k
    by (simp add: value_index_def message_value_def)
  show ?thesis using assms Cons
    by (simp add: chatml_first_def chatml_custom_def first_message_def render_scope_get value_index_def [of ops "VList _"]
        index message_members apply_operator_def chatml_default_def chatml_system_def chatml_turn_def) (simp add: ustr_def)
qed

text \<open>
  The ChatML template of the test suite, read and rendered, gives for every conversation the system turn
  (the conversation's own or the default one), the turn of every user message and of every later system message in order, and the cue
  for the assistant's answer when asked for.
\<close>

theorem chatml_prompts:
  assumes "standard_ops ops"
  shows "rbind (parse_template ops chatml_source) (\<lambda>t. render_template ops t messages cue) = Ok (chatml_prompt messages cue)"
proof -
  obtain z where z: "to_parse ops [48] = Some z" "to_as_index ops z = 0"
    and ops: "\<And>c. c < 128 \<Longrightarrow> to_alphabetic ops c = ascii_letter c"
      "\<And>c. c < 128 \<Longrightarrow> to_alphanumeric ops c = (ascii_letter c \<or> ascii_digit c)"
    using assms by (auto simp: standard_ops_def)
  have loop: "render_node ops (ForNode (ustr ''message'') (Variable (ustr ''messages''))
        [IfNode [(chatml_condition, [OutputNode chatml_message])] None]) (render_scope messages cue) out =
      Ok (render_scope messages cue, out @ concat (map (\<lambda>(i, m). if chatml_shown i m then chatml_turn (cm_role m) (cm_content m) else [])
        (List.enumerate 0 messages)))" for out
    using chatml_loop [of ops "length messages" 0 messages "render_scope messages cue" out]
    by (simp add: loop_items_def render_scope_get)
  have cue: "render_node ops (IfNode [(Variable (ustr ''add_generation_prompt''), [OutputNode (Literal (VString chatml_cue))])] None)
      (render_scope messages cue) out = Ok (render_scope messages cue, out @ (if cue then chatml_cue else []))" for out
    by (simp add: render_scope_get)
  have "render_nodes ops (chatml_nodes z) (render_scope messages cue) [] =
      Ok (render_scope messages cue, chatml_prompt messages cue)"
    unfolding render_nodes_def chatml_nodes_def list.map run_steps.simps chatml_system_part [OF z(2)] rbind.simps prod.case loop cue
    by (simp add: chatml_prompt_def chatml_cue_def)
  then show ?thesis by (simp add: parse_chatml [OF ops z(1)] render_template_def)
qed

theorem chatml_prompts_witness:
  "rbind (parse_template integer_ops chatml_source) (\<lambda>t. render_template integer_ops t [message_user (ustr ''Hello'')] True) =
     Ok (chatml_prompt [message_user (ustr ''Hello'')] True)"
  by (rule chatml_prompts) (simp add: standard_ops_def integer_ops_def ascii_digit_def)

text \<open>
  Rendering always ends with a text or an error. A template only appends to the output, whatever the output
  holds, and assigns in the innermost frame only: a \<open>set\<close> inside a loop is gone after it.
\<close>

theorem rendering_local:
  "(\<exists>x. \<forall>out. render_nodes ops nodes (frame # frames) out = Err x)
    \<or> (\<exists>frame' t. \<forall>out. render_nodes ops nodes (frame # frames) out = Ok (frame' # frames, out @ t))"
proof -
  have "local_step (render_nodes ops nodes)"
    unfolding render_nodes_def by (rule local_step_run) (auto intro: local_step_node)
  then show ?thesis unfolding local_step_def by blast
qed

end
