(* ===== verification/Model_Set.thy ===== *)
theory Model_Set
  imports Gguf_Parse Residency_Inventory
begin

section \<open>Model sets: files, shards and directories\<close>

text \<open>
  \<open>crates/ramforge-core/src/model_set.rs\<close>: resolving a path to the shards of one model, their layout in one
  virtual address space, and the merged model. A path is the list of its components; the file system is a
  function from paths to nodes, without symbolic links, and a file that exists can be read. A shard is a path
  with its parsed model. The errors are constructors; the texts of their messages are left out.
\<close>

subsection \<open>Paths and files\<close>

type_synonym path = "string list"

datatype fs_node = FileNode "byte list" | DirNode "string list" | OtherNode

type_synonym filesystem = "path \<Rightarrow> fs_node option"

datatype model_set_error =
    SetIo
  | SetParse gguf_error
  | NeitherFileNorDirectory
  | NoShardName
  | ShardNameCount nat nat
  | MissingShardFile nat nat
  | NoModelFile
  | IndependentFiles nat
  | SplitAndIndependentFiles
  | SeveralModelSets
  | ShardCount nat nat
  | InconsistentTensorCount u64 u64
  | ShardSplitCount nat nat
  | MissingShardNumber
  | ShardNumberOutside u64 nat
  | DuplicateShard u64
  | InconsistentName
  | InconsistentArchitecture
  | DuplicateTensor string
  | TensorRangeOverflow string
  | TensorBeyondShard string
  | TensorCountOverflow
  | MissingShardIndex nat nat
  | TensorCountMismatch u64 u64
  | MissingArchitecture
  | SplitCountTooLarge u64
  | NotAnUnsignedInteger string

definition split_last :: "char \<Rightarrow> string \<Rightarrow> (string \<times> string) option" where
  "split_last c s =
     (if c \<in> set s then
        let tail = takeWhile (\<lambda>x. x \<noteq> c) (rev s) in Some (take (length s - length tail - 1) s, rev tail)
      else None)"

text \<open>\<open>rsplitn\<close> with a character: at most \<open>n\<close> parts, from the right.\<close>

fun rsplitn :: "nat \<Rightarrow> char \<Rightarrow> string \<Rightarrow> string list" where
  "rsplitn 0 c s = []"
| "rsplitn (Suc n) c s =
     (if n = 0 then [s]
      else case split_last c s of None \<Rightarrow> [s] | Some (a, b) \<Rightarrow> b # rsplitn n c a)"

definition strip_suffix :: "string \<Rightarrow> string \<Rightarrow> string option" where
  "strip_suffix suffix s =
     (if length suffix \<le> length s \<and> drop (length s - length suffix) s = suffix
      then Some (take (length s - length suffix) s) else None)"

definition file_name :: "path \<Rightarrow> string option" where
  "file_name p = (if p = [] then None else Some (last p))"

definition join_path :: "path \<Rightarrow> string \<Rightarrow> path" where
  "join_path p name = (if name = [] then p else p @ [name])"

definition path_extension :: "string \<Rightarrow> string option" where
  "path_extension name = (case split_last (CHR ''.'') name of Some (stem, e) \<Rightarrow> if stem = [] then None else Some e | None \<Rightarrow> None)"

definition ascii_lower :: "char \<Rightarrow> char" where
  "ascii_lower c = (if CHR ''A'' \<le> c \<and> c \<le> CHR ''Z'' then char_of (of_char c + (32 :: nat)) else c)"

definition gguf_extension :: "string \<Rightarrow> bool" where
  "gguf_extension name = (case path_extension name of Some e \<Rightarrow> map ascii_lower e = ''gguf'' | None \<Rightarrow> False)"

definition split_prefix :: "path \<Rightarrow> (path \<times> nat) option" where
  "split_prefix p =
     Option.bind (file_name p) (\<lambda>name.
     Option.bind (strip_suffix ''.gguf'' name) (\<lambda>stem.
       (case rsplitn 4 (CHR ''-'') stem of
          [last_part, middle, first_part, prefix] \<Rightarrow>
            if middle \<noteq> ''of'' \<or> length last_part \<noteq> 5 \<or> length first_part \<noteq> 5 then None
            else Option.bind (parse_u32 last_part) (\<lambda>count. Option.bind (parse_u32 first_part) (\<lambda>index.
              if count = 0 \<or> index = 0 \<or> count < index then None else Some (join_path (butlast p) prefix, count)))
        | _ \<Rightarrow> None)))"

text \<open>\<open>{:05}\<close>.\<close>

definition pad_five :: "nat \<Rightarrow> string" where
  "pad_five n = replicate (5 - length (show_nat n)) (CHR ''0'') @ show_nat n"

definition shard_file_name :: "string \<Rightarrow> nat \<Rightarrow> nat \<Rightarrow> string" where
  "shard_file_name name index count = name @ ''-'' @ pad_five index @ ''-of-'' @ pad_five count @ ''.gguf''"

definition shard_path :: "path \<Rightarrow> nat \<Rightarrow> nat \<Rightarrow> path" where
  "shard_path prefix index count =
     (let name = shard_file_name (case file_name prefix of Some n \<Rightarrow> n | None \<Rightarrow> ''model'') index count in
      if prefix = [] then [name] else join_path (butlast prefix) name)"

subsection \<open>Shards and sets\<close>

record shard =
  sh_path :: path
  sh_model :: gguf_model

record model_set =
  ms_path :: path
  ms_shards :: "shard list"

record shard_layout =
  sl_path :: path
  sl_file_size :: u64
  sl_data_start_offset :: u64
  sl_data_length :: u64
  sl_virtual_start :: u64
  sl_virtual_end :: u64
  sl_physical_data_start :: u64

definition is_sharded :: "model_set \<Rightarrow> bool" where "is_sharded s \<longleftrightarrow> 1 < length (ms_shards s)"

definition primary_path :: "model_set \<Rightarrow> path" where "primary_path s = sh_path (ms_shards s ! 0)"

definition total_file_bytes :: "model_set \<Rightarrow> u64" where
  "total_file_bytes s = foldl (\<lambda>tot sh. saturating_add tot (file_size (sh_model sh))) 0 (ms_shards s)"

fun sum_shard_tensors :: "u64 \<Rightarrow> shard list \<Rightarrow> u64 option" where
  "sum_shard_tensors tot [] = Some tot"
| "sum_shard_tensors tot (sh # shs) =
     Option.bind (total_tensor_bytes (sh_model sh)) (\<lambda>n. Option.bind (checked_add tot n) (\<lambda>t. sum_shard_tensors t shs))"

definition set_tensor_bytes :: "model_set \<Rightarrow> u64 option" where
  "set_tensor_bytes s = sum_shard_tensors 0 (ms_shards s)"

definition shard_data_length :: "shard \<Rightarrow> u64" where
  "shard_data_length sh = saturating_sub (file_size (sh_model sh)) (data_start_offset (sh_model sh))"

definition virtual_size :: "model_set \<Rightarrow> u64" where
  "virtual_size s =
     (if is_sharded s then foldl (\<lambda>tot sh. saturating_add tot (shard_data_length sh)) 0 (ms_shards s)
      else file_size (sh_model (ms_shards s ! 0)))"

fun layouts_from :: "u64 \<Rightarrow> shard list \<Rightarrow> shard_layout list" where
  "layouts_from start [] = []"
| "layouts_from start (sh # shs) =
     (let stop = saturating_add start (shard_data_length sh) in
      \<lparr>sl_path = sh_path sh, sl_file_size = file_size (sh_model sh),
       sl_data_start_offset = data_start_offset (sh_model sh), sl_data_length = shard_data_length sh,
       sl_virtual_start = start, sl_virtual_end = stop,
       sl_physical_data_start = data_start_offset (sh_model sh)\<rparr> # layouts_from stop shs)"

definition whole_file_layout :: "shard \<Rightarrow> shard_layout" where
  "whole_file_layout sh =
     \<lparr>sl_path = sh_path sh, sl_file_size = file_size (sh_model sh),
      sl_data_start_offset = data_start_offset (sh_model sh), sl_data_length = file_size (sh_model sh),
      sl_virtual_start = 0, sl_virtual_end = file_size (sh_model sh), sl_physical_data_start = 0\<rparr>"

definition shard_layouts :: "model_set \<Rightarrow> shard_layout list" where
  "shard_layouts s =
     (if is_sharded s then layouts_from 0 (ms_shards s) else [whole_file_layout (ms_shards s ! 0)])"

definition remap_descriptor :: "u64 \<Rightarrow> u64 \<Rightarrow> tensor_descriptor \<Rightarrow> tensor_descriptor" where
  "remap_descriptor virtual_start data_start t =
     (let off = saturating_add virtual_start (saturating_sub (file_offset t) data_start) in
      t\<lparr>file_offset := off, td_offset := off\<rparr>)"

fun remap_from :: "u64 \<Rightarrow> shard list \<Rightarrow> tensor_descriptor list" where
  "remap_from start [] = []"
| "remap_from start (sh # shs) =
     map (remap_descriptor start (data_start_offset (sh_model sh))) (tensors (sh_model sh))
     @ remap_from (saturating_add start (shard_data_length sh)) shs"

definition merged_model :: "model_set \<Rightarrow> gguf_model" where
  "merged_model s =
     (let merged = (sh_model (ms_shards s ! 0))\<lparr>file_size := total_file_bytes s\<rparr> in
      if is_sharded s then merged\<lparr>tensors := remap_from 0 (ms_shards s), data_start_offset := 0\<rparr> else merged)"

subsection \<open>Assembling shards\<close>

type_synonym 'a set_result = "('a, model_set_error) result"

definition SPLIT_COUNT_KEY :: string where "SPLIT_COUNT_KEY = ''split.count''"
definition SPLIT_NO_KEY :: string where "SPLIT_NO_KEY = ''split.no''"
definition SPLIT_TENSOR_COUNT_KEY :: string where "SPLIT_TENSOR_COUNT_KEY = ''split.tensors.count''"

definition metadata_u64 :: "gguf_model \<Rightarrow> string \<Rightarrow> u64 option set_result" where
  "metadata_u64 m key =
     (case get_metadata m key of
        None \<Rightarrow> Ok None
      | Some v \<Rightarrow> (case as_u64 v of Some n \<Rightarrow> Ok (Some n) | None \<Rightarrow> Err (NotAnUnsignedInteger key)))"

definition split_count :: "gguf_model \<Rightarrow> nat set_result" where
  "split_count m =
     rbind (metadata_u64 m SPLIT_COUNT_KEY) (\<lambda>v.
       (case v of None \<Rightarrow> Ok 1 | Some n \<Rightarrow> if n \<le> U32_MAX then Ok n else Err (SplitCountTooLarge n)))"

fun declared_tensor_count :: "u64 option \<Rightarrow> shard list \<Rightarrow> u64 option set_result" where
  "declared_tensor_count known [] = Ok known"
| "declared_tensor_count known (sh # shs) =
     rbind (metadata_u64 (sh_model sh) SPLIT_TENSOR_COUNT_KEY) (\<lambda>v.
       (case v of
          None \<Rightarrow> declared_tensor_count known shs
        | Some n \<Rightarrow>
            (case known of
               Some k \<Rightarrow> if k \<noteq> n then Err (InconsistentTensorCount k n) else declared_tensor_count known shs
             | None \<Rightarrow> declared_tensor_count (Some n) shs)))"

text \<open>A value that must agree with the one seen first.\<close>

definition agree :: "model_set_error \<Rightarrow> string option \<Rightarrow> string option \<Rightarrow> string option set_result" where
  "agree e known v =
     (case (v, known) of
        (None, _) \<Rightarrow> Ok known
      | (Some n, Some k) \<Rightarrow> if k \<noteq> n then Err e else Ok known
      | (Some n, None) \<Rightarrow> Ok (Some n))"

fun check_tensors :: "u64 \<Rightarrow> string set \<Rightarrow> tensor_descriptor list \<Rightarrow> string set set_result" where
  "check_tensors limit seen [] = Ok seen"
| "check_tensors limit seen (t # ts) =
     (if td_name t \<in> seen then Err (DuplicateTensor (td_name t))
      else rbind (case byte_length t of
            None \<Rightarrow> Ok ()
          | Some n \<Rightarrow>
              (case checked_add (file_offset t) n of
                 None \<Rightarrow> Err (TensorRangeOverflow (td_name t))
               | Some stop \<Rightarrow> if limit < stop then Err (TensorBeyondShard (td_name t)) else Ok ()))
        (\<lambda>_. check_tensors limit (insert (td_name t) seen) ts))"

record assembly =
  as_slots :: "shard option list"
  as_seen :: "string set"
  as_tensors :: u64
  as_name :: "string option"
  as_architecture :: "string option"

definition place_shard :: "nat \<Rightarrow> shard \<Rightarrow> assembly \<Rightarrow> assembly set_result" where
  "place_shard expected sh a =
     rbind (split_count (sh_model sh)) (\<lambda>count.
       if count \<noteq> expected then Err (ShardSplitCount count expected)
       else
         rbind (metadata_u64 (sh_model sh) SPLIT_NO_KEY) (\<lambda>number.
         rbind (ok_or MissingShardNumber number) (\<lambda>index.
           if expected \<le> index then Err (ShardNumberOutside index expected)
           else if as_slots a ! index \<noteq> None then Err (DuplicateShard index)
           else
             rbind (agree InconsistentName (as_name a) (get_string (sh_model sh) ''general.name'')) (\<lambda>name.
             rbind (agree InconsistentArchitecture (as_architecture a) (get_string (sh_model sh) ''general.architecture''))
               (\<lambda>architecture.
             rbind (check_tensors (file_size (sh_model sh)) (as_seen a) (tensors (sh_model sh))) (\<lambda>seen.
             rbind (ok_or TensorCountOverflow (checked_add (as_tensors a) (length (tensors (sh_model sh))))) (\<lambda>n.
               Ok \<lparr>as_slots = (as_slots a)[index := Some sh], as_seen = seen, as_tensors = n, as_name = name,
                   as_architecture = architecture\<rparr>)))))))"

fun place_shards :: "nat \<Rightarrow> shard list \<Rightarrow> assembly \<Rightarrow> assembly set_result" where
  "place_shards expected [] a = Ok a"
| "place_shards expected (sh # shs) a = rbind (place_shard expected sh a) (place_shards expected shs)"

fun ordered_shards :: "nat \<Rightarrow> nat \<Rightarrow> shard option list \<Rightarrow> shard list set_result" where
  "ordered_shards expected index [] = Ok []"
| "ordered_shards expected index (slot # slots) =
     rbind (ok_or (MissingShardIndex index expected) slot) (\<lambda>sh.
     rbind (ordered_shards expected (index + 1) slots) (\<lambda>shs. Ok (sh # shs)))"

text \<open>\<open>ordered[0]\<close> panics for an empty list; the callers ask for more than one shard.\<close>

definition assemble_shards :: "path \<Rightarrow> nat \<Rightarrow> shard list \<Rightarrow> model_set set_result" where
  "assemble_shards source expected candidates =
     (if length candidates \<noteq> expected then Err (ShardCount expected (length candidates))
      else
        rbind (declared_tensor_count None candidates) (\<lambda>declared.
        rbind (place_shards expected candidates
            \<lparr>as_slots = replicate expected None, as_seen = {}, as_tensors = 0, as_name = None, as_architecture = None\<rparr>)
          (\<lambda>a.
        rbind (ordered_shards expected 0 (as_slots a)) (\<lambda>ordered.
        rbind (case declared of
             Some n \<Rightarrow> if as_tensors a \<noteq> n then Err (TensorCountMismatch (as_tensors a) n) else Ok ()
           | None \<Rightarrow> Ok ()) (\<lambda>_.
          (case ordered of
             [] \<Rightarrow> Panic ''index out of bounds''
           | first # _ \<Rightarrow>
               if get_string (sh_model first) ''general.architecture'' = None then Err MissingArchitecture
               else Ok \<lparr>ms_path = source, ms_shards = ordered\<rparr>))))))"

subsection \<open>Discovery\<close>

definition parse_shard :: "filesystem \<Rightarrow> path \<Rightarrow> shard set_result" where
  "parse_shard fs p =
     (case fs p of
        Some (FileNode bytes) \<Rightarrow> rbind (map_err SetParse (parse_gguf_file bytes)) (\<lambda>m. Ok \<lparr>sh_path = p, sh_model = m\<rparr>)
      | _ \<Rightarrow> Err SetIo)"

definition is_file :: "filesystem \<Rightarrow> path \<Rightarrow> bool" where
  "is_file fs p \<longleftrightarrow> (case fs p of Some (FileNode _) \<Rightarrow> True | _ \<Rightarrow> False)"

fun parse_shard_files :: "filesystem \<Rightarrow> path \<Rightarrow> nat \<Rightarrow> nat list \<Rightarrow> shard list set_result" where
  "parse_shard_files fs prefix count [] = Ok []"
| "parse_shard_files fs prefix count (i # is) =
     (if \<not> is_file fs (shard_path prefix i count) then Err (MissingShardFile i count)
      else rbind (parse_shard fs (shard_path prefix i count)) (\<lambda>sh.
           rbind (parse_shard_files fs prefix count is) (\<lambda>shs. Ok (sh # shs))))"

definition discover_from_file :: "filesystem \<Rightarrow> path \<Rightarrow> model_set set_result" where
  "discover_from_file fs p =
     rbind (parse_shard fs p) (\<lambda>sh.
     rbind (split_count (sh_model sh)) (\<lambda>count.
       if count \<le> 1 then Ok \<lparr>ms_path = p, ms_shards = [sh]\<rparr>
       else
         rbind (ok_or NoShardName (split_prefix p)) (\<lambda>(prefix, filename_count).
           if filename_count \<noteq> count then Err (ShardNameCount filename_count count)
           else rbind (parse_shard_files fs prefix count [1..<count + 1]) (assemble_shards p count))))"

fun parse_directory_files :: "filesystem \<Rightarrow> path list \<Rightarrow> (shard \<times> nat) list set_result" where
  "parse_directory_files fs [] = Ok []"
| "parse_directory_files fs (p # ps) =
     rbind (parse_shard fs p) (\<lambda>sh.
     rbind (split_count (sh_model sh)) (\<lambda>count.
     rbind (parse_directory_files fs ps) (\<lambda>rest. Ok ((sh, count) # rest))))"

fun group_shards :: "(path \<times> nat, shard list) omap \<Rightarrow> (shard \<times> nat) list \<Rightarrow> (path \<times> nat, shard list) omap set_result" where
  "group_shards groups [] = Ok groups"
| "group_shards groups ((sh, count) # rest) =
     rbind (ok_or NoShardName (split_prefix (sh_path sh))) (\<lambda>(prefix, filename_count).
       if filename_count \<noteq> count then Err (ShardNameCount filename_count count)
       else group_shards (om_put (prefix, count)
           ((case om_get groups (prefix, count) of Some shs \<Rightarrow> shs | None \<Rightarrow> []) @ [sh]) groups) rest)"

definition directory_files :: "filesystem \<Rightarrow> path \<Rightarrow> string list \<Rightarrow> path list" where
  "directory_files fs p names =
     sort (map (join_path p) (filter (\<lambda>n. is_file fs (join_path p n) \<and> gguf_extension n) names))"

definition discover_from_dir :: "filesystem \<Rightarrow> path \<Rightarrow> string list \<Rightarrow> model_set set_result" where
  "discover_from_dir fs p names =
     (let files = directory_files fs p names in
      if files = [] then Err NoModelFile
      else rbind (parse_directory_files fs files) (\<lambda>parsed.
        let split_files = filter (\<lambda>(sh, count). 1 < count) parsed in
        if split_files = [] then
          (if length parsed \<noteq> 1 then Err (IndependentFiles (length parsed))
           else Ok \<lparr>ms_path = p, ms_shards = [fst (last parsed)]\<rparr>)
        else if length parsed \<noteq> length split_files then Err SplitAndIndependentFiles
        else rbind (group_shards [] parsed) (\<lambda>groups.
          (case groups of
             [((prefix, count), candidates)] \<Rightarrow> assemble_shards p count candidates
           | _ \<Rightarrow> Err SeveralModelSets))))"

definition discover_model_set :: "filesystem \<Rightarrow> path \<Rightarrow> model_set set_result" where
  "discover_model_set fs p =
     (case fs p of
        None \<Rightarrow> Err SetIo
      | Some (FileNode _) \<Rightarrow> discover_from_file fs p
      | Some (DirNode names) \<Rightarrow> discover_from_dir fs p names
      | Some OtherNode \<Rightarrow> Err NeitherFileNorDirectory)"

subsection \<open>What a discovered set satisfies\<close>

definition tensor_inside :: "u64 \<Rightarrow> tensor_descriptor \<Rightarrow> bool" where
  "tensor_inside limit t \<longleftrightarrow> (\<forall>n. byte_length t = Some n \<longrightarrow> file_offset t + n \<le> limit)"

definition shard_placed :: "nat \<Rightarrow> nat \<Rightarrow> shard \<Rightarrow> bool" where
  "shard_placed expected i sh \<longleftrightarrow>
     split_count (sh_model sh) = Ok expected \<and> get_u64 (sh_model sh) SPLIT_NO_KEY = Some i
     \<and> list_all (tensor_inside (file_size (sh_model sh))) (tensors (sh_model sh))"

definition shard_tensor_names :: "shard \<Rightarrow> string list" where
  "shard_tensor_names sh = map td_name (tensors (sh_model sh))"

definition set_sound :: "filesystem \<Rightarrow> model_set \<Rightarrow> bool" where
  "set_sound fs s \<longleftrightarrow>
     ms_shards s \<noteq> [] \<and> (\<forall>sh \<in> set (ms_shards s). parse_shard fs (sh_path sh) = Ok sh)
     \<and> (if is_sharded s
        then (\<forall>i < length (ms_shards s). shard_placed (length (ms_shards s)) i (ms_shards s ! i))
          \<and> distinct (concat (map shard_tensor_names (ms_shards s)))
        else \<exists>sh n. ms_shards s = [sh] \<and> split_count (sh_model sh) = Ok n \<and> n \<le> 1)"

lemma check_tensors_Ok:
  "check_tensors limit seen ts = Ok seen' \<Longrightarrow>
     list_all (tensor_inside limit) ts \<and> distinct (map td_name ts) \<and> set (map td_name ts) \<inter> seen = {}
     \<and> seen' = seen \<union> set (map td_name ts)"
proof (induction ts arbitrary: seen)
  case (Cons t ts)
  then have rest: "check_tensors limit (insert (td_name t) seen) ts = Ok seen'" and t: "td_name t \<notin> seen"
    by (auto simp: rbind_eq_Ok split: if_splits)
  have "tensor_inside limit t"
    using Cons.prems by (auto simp: tensor_inside_def rbind_eq_Ok checked_add_def split: if_splits option.splits)
  with Cons.IH [OF rest] t show ?case by auto
qed simp

text \<open>The shards placed so far are in the slots of their numbers; \<open>as_seen\<close> holds their tensors' names.\<close>

definition assembly_ok :: "nat \<Rightarrow> shard set \<Rightarrow> assembly \<Rightarrow> bool" where
  "assembly_ok expected placed a \<longleftrightarrow>
     length (as_slots a) = expected
     \<and> (\<forall>i sh. i < expected \<longrightarrow> as_slots a ! i = Some sh \<longrightarrow>
          shard_placed expected i sh \<and> sh \<in> placed \<and> distinct (shard_tensor_names sh)
          \<and> set (shard_tensor_names sh) \<subseteq> as_seen a)
     \<and> (\<forall>i j sh sh'. i < expected \<longrightarrow> j < expected \<longrightarrow> i \<noteq> j \<longrightarrow> as_slots a ! i = Some sh \<longrightarrow> as_slots a ! j = Some sh' \<longrightarrow>
          set (shard_tensor_names sh) \<inter> set (shard_tensor_names sh') = {})"

lemma place_shard_ok:
  assumes "assembly_ok expected placed a" "place_shard expected sh a = Ok a'"
  shows "assembly_ok expected (insert sh placed) a'"
proof -
  from assms(2) obtain index where count: "split_count (sh_model sh) = Ok expected"
    and number: "metadata_u64 (sh_model sh) SPLIT_NO_KEY = Ok (Some index)" and index: "index < expected"
    and free: "as_slots a ! index = None"
    and tensors: "check_tensors (file_size (sh_model sh)) (as_seen a) (tensors (sh_model sh)) = Ok (as_seen a')"
    and slots: "as_slots a' = (as_slots a)[index := Some sh]"
    by (auto simp: place_shard_def rbind_eq_Ok split: if_splits)
  note names = check_tensors_Ok [OF tensors]
  have "get_u64 (sh_model sh) SPLIT_NO_KEY = Some index"
    using number by (auto simp: metadata_u64_def get_u64_def split: option.splits)
  then have placed: "shard_placed expected index sh" using count names by (simp add: shard_placed_def)
  have len: "length (as_slots a) = expected" using assms(1) by (simp add: assembly_ok_def)
  have old: "shard_placed expected i sh' \<and> sh' \<in> placed \<and> distinct (shard_tensor_names sh') \<and> set (shard_tensor_names sh') \<subseteq> as_seen a"
    if "i < expected" "as_slots a ! i = Some sh'" for i sh'
    using assms(1) that unfolding assembly_ok_def by blast
  have disj: "set (shard_tensor_names sh') \<inter> set (shard_tensor_names sh'') = {}"
    if "i < expected" "j < expected" "i \<noteq> j" "as_slots a ! i = Some sh'" "as_slots a ! j = Some sh''" for i j sh' sh''
    using assms(1) that unfolding assembly_ok_def by blast
  have new: "set (shard_tensor_names sh) \<inter> as_seen a = {}" "distinct (shard_tensor_names sh)"
    "as_seen a' = as_seen a \<union> set (shard_tensor_names sh)"
    using names by (auto simp: shard_tensor_names_def)
  show ?thesis unfolding assembly_ok_def
  proof (intro conjI allI impI)
    show "length (as_slots a') = expected" using len slots by simp
  next
    fix i sh' assume i: "i < expected" and slot: "as_slots a' ! i = Some sh'"
    then have "shard_placed expected i sh' \<and> sh' \<in> insert sh placed \<and> distinct (shard_tensor_names sh')
        \<and> set (shard_tensor_names sh') \<subseteq> as_seen a'"
      using old [of i sh'] placed new len by (cases "i = index") (auto simp: slots)
    then show "shard_placed expected i sh'" "sh' \<in> insert sh placed" "distinct (shard_tensor_names sh')"
      "set (shard_tensor_names sh') \<subseteq> as_seen a'" by simp_all
  next
    fix i j sh' sh'' assume ij: "i < expected" "j < expected" "i \<noteq> j" "as_slots a' ! i = Some sh'" "as_slots a' ! j = Some sh''"
    show "set (shard_tensor_names sh') \<inter> set (shard_tensor_names sh'') = {}"
    proof (cases "i = index \<or> j = index")
      case True
      then show ?thesis using ij new(1) len old [of i sh'] old [of j sh''] by (auto simp: slots) blast+
    next
      case False
      then show ?thesis using ij disj [of i j sh' sh''] by (simp add: slots)
    qed
  qed
qed

lemma place_shards_ok:
  "assembly_ok expected placed a \<Longrightarrow> place_shards expected shs a = Ok a' \<Longrightarrow> assembly_ok expected (set shs \<union> placed) a'"
proof (induction shs arbitrary: placed a)
  case (Cons sh shs)
  then obtain b where b: "place_shard expected sh a = Ok b" "place_shards expected shs b = Ok a'" by (auto simp: rbind_eq_Ok)
  have "assembly_ok expected (set shs \<union> insert sh placed) a'"
    by (rule Cons.IH [OF place_shard_ok [OF Cons.prems(1) b(1)] b(2)])
  then show ?case by simp
qed simp

lemma ordered_shards_Ok: "ordered_shards expected i slots = Ok shs \<Longrightarrow> slots = map Some shs"
  by (induction expected i slots arbitrary: shs rule: ordered_shards.induct) (auto simp: rbind_eq_Ok)

lemma distinct_concat_map:
  "(\<And>i. i < length xs \<Longrightarrow> distinct (f (xs ! i))) \<Longrightarrow>
     (\<And>i j. i < length xs \<Longrightarrow> j < length xs \<Longrightarrow> i \<noteq> j \<Longrightarrow> set (f (xs ! i)) \<inter> set (f (xs ! j)) = {}) \<Longrightarrow>
     distinct (concat (map f xs))"
proof (induction xs)
  case (Cons x xs)
  have "distinct (concat (map f xs))"
  proof (rule Cons.IH)
    show "distinct (f (xs ! i))" if "i < length xs" for i using Cons.prems(1) [of "Suc i"] that by simp
    show "set (f (xs ! i)) \<inter> set (f (xs ! j)) = {}" if "i < length xs" "j < length xs" "i \<noteq> j" for i j
      using Cons.prems(2) [of "Suc i" "Suc j"] that by simp
  qed
  moreover have "set (f x) \<inter> set (f y) = {}" if "y \<in> set xs" for y
  proof -
    from that obtain j where "j < length xs" "y = xs ! j" unfolding in_set_conv_nth by blast
    then show ?thesis using Cons.prems(2) [of 0 "Suc j"] by simp
  qed
  ultimately show ?case using Cons.prems(1) [of 0] by auto
qed simp

lemma assemble_shards_sound:
  assumes "assemble_shards source expected candidates = Ok s" "1 < expected"
    "\<And>sh. sh \<in> set candidates \<Longrightarrow> parse_shard fs (sh_path sh) = Ok sh"
  shows "set_sound fs s"
proof -
  let ?start = "\<lparr>as_slots = replicate expected None, as_seen = {}, as_tensors = 0, as_name = None, as_architecture = None\<rparr>"
  from assms(1) obtain a shs where a: "place_shards expected candidates ?start = Ok a"
    and shs: "ordered_shards expected 0 (as_slots a) = Ok shs"
    and s: "(case shs of [] \<Rightarrow> Panic ''index out of bounds''
           | first # _ \<Rightarrow> if get_string (sh_model first) ''general.architecture'' = None then Err MissingArchitecture
               else Ok \<lparr>ms_path = source, ms_shards = shs\<rparr>) = Ok s"
    unfolding assemble_shards_def by (auto simp only: rbind_eq_Ok split: if_split_asm)
  from s have "shs = ms_shards s" and nonempty: "ms_shards s \<noteq> []" by (cases shs; auto split: if_split_asm)+
  with shs have ordered: "ordered_shards expected 0 (as_slots a) = Ok (ms_shards s)" by simp
  have "assembly_ok expected {} ?start" by (simp add: assembly_ok_def)
  from place_shards_ok [OF this a] have ok: "assembly_ok expected (set candidates) a" by simp
  have slots: "as_slots a = map Some (ms_shards s)" by (rule ordered_shards_Ok [OF ordered])
  then have len: "length (ms_shards s) = expected" using ok by (auto simp: assembly_ok_def)
  have each: "shard_placed expected i (ms_shards s ! i) \<and> ms_shards s ! i \<in> set candidates \<and> distinct (shard_tensor_names (ms_shards s ! i))"
    if "i < expected" for i
    using ok that len slots unfolding assembly_ok_def by (metis nth_map)
  have disj: "set (shard_tensor_names (ms_shards s ! i)) \<inter> set (shard_tensor_names (ms_shards s ! j)) = {}"
    if "i < expected" "j < expected" "i \<noteq> j" for i j
    using ok that len slots unfolding assembly_ok_def by (metis nth_map)
  have "distinct (concat (map shard_tensor_names (ms_shards s)))"
    by (rule distinct_concat_map) (use each disj len in auto)
  moreover have "is_sharded s" using len assms(2) by (simp add: is_sharded_def)
  ultimately show ?thesis using each len nonempty assms(3) by (auto simp: set_sound_def in_set_conv_nth)
qed

lemma assemble_shards_total: "1 < expected \<Longrightarrow> \<not> is_panic (assemble_shards source expected candidates)"
proof -
  assume expected: "1 < expected"
  have u64: "\<not> is_panic (metadata_u64 m k)" for m k by (auto simp: metadata_u64_def split: option.split)
  have count: "\<not> is_panic (split_count m)" for m by (auto simp: split_count_def is_panic_rbind u64 split: option.split)
  have declared: "\<not> is_panic (declared_tensor_count k shs)" for k shs
    by (induction k shs rule: declared_tensor_count.induct) (auto simp: is_panic_rbind u64 split: option.split)
  have agree: "\<not> is_panic (agree e k v)" for e k v by (auto simp: agree_def split: option.split)
  have tensors: "\<not> is_panic (check_tensors l seen ts)" for l seen ts
    by (induction l seen ts rule: check_tensors.induct) (auto simp: is_panic_rbind split: option.split)
  have place: "\<not> is_panic (place_shard expected sh a)" for sh a
    by (auto simp: place_shard_def is_panic_rbind u64 count agree tensors)
  have places: "\<not> is_panic (place_shards expected shs a)" for shs a
    by (induction shs arbitrary: a) (auto simp: is_panic_rbind place)
  have ordered: "\<not> is_panic (ordered_shards expected i slots)" for i slots
    by (induction expected i slots rule: ordered_shards.induct) (auto simp: is_panic_rbind)
  have len: "length (as_slots a) = length (as_slots b)" if "place_shards expected shs b = Ok a" for shs a b
    using that by (induction shs arbitrary: b) (auto simp: rbind_eq_Ok place_shard_def split: if_splits)
  have "shs \<noteq> []" if "place_shards expected candidates \<lparr>as_slots = replicate expected None, as_seen = {}, as_tensors = 0,
      as_name = None, as_architecture = None\<rparr> = Ok a" "ordered_shards expected 0 (as_slots a) = Ok shs" for a shs
    using len [OF that(1)] ordered_shards_Ok [OF that(2)] expected by auto
  then show ?thesis
    by (auto simp: assemble_shards_def is_panic_rbind declared places ordered split: option.split list.split)
qed

lemma split_count_total: "\<not> is_panic (split_count m)"
  by (auto simp: split_count_def metadata_u64_def is_panic_rbind split: option.split)

lemma parse_gguf_total: "\<not> is_panic (parse_gguf_file bytes)"
  using parser_local_no_panic [OF local_gguf] by (auto simp: parse_gguf_file_def is_panic_rbind) (metis is_panic.elims(2))

lemma parse_shard_path: "parse_shard fs p = Ok sh \<Longrightarrow> sh_path sh = p"
  by (auto simp: parse_shard_def rbind_eq_Ok split: option.splits fs_node.splits)

lemma parse_shard_files_Ok:
  "parse_shard_files fs prefix count is = Ok shs \<Longrightarrow> sh \<in> set shs \<Longrightarrow> parse_shard fs (sh_path sh) = Ok sh"
  by (induction fs prefix count "is" arbitrary: shs rule: parse_shard_files.induct)
    (auto simp: rbind_eq_Ok parse_shard_path split: if_splits)

lemma parse_directory_files_Ok:
  "parse_directory_files fs ps = Ok parsed \<Longrightarrow> (sh, count) \<in> set parsed \<Longrightarrow>
     parse_shard fs (sh_path sh) = Ok sh \<and> split_count (sh_model sh) = Ok count"
  by (induction fs ps arbitrary: parsed rule: parse_directory_files.induct) (auto simp: rbind_eq_Ok parse_shard_path)

lemma parse_directory_files_length: "parse_directory_files fs ps = Ok parsed \<Longrightarrow> length parsed = length ps"
  by (induction fs ps arbitrary: parsed rule: parse_directory_files.induct) (auto simp: rbind_eq_Ok)

text \<open>Every shard of a group was parsed; the groups are those of the parsed counts.\<close>

lemma group_shards_Ok:
  "group_shards groups parsed = Ok groups' \<Longrightarrow> om_ok groups \<Longrightarrow>
     (\<forall>k shs sh. om_get groups k = Some shs \<longrightarrow> sh \<in> set shs \<longrightarrow> (sh, snd k) \<in> all) \<Longrightarrow> set parsed \<subseteq> all \<Longrightarrow>
     (\<forall>k. om_get groups k \<noteq> None \<longrightarrow> (\<exists>sh. (sh, snd k) \<in> all)) \<Longrightarrow>
     om_ok groups' \<and> (\<forall>k shs sh. om_get groups' k = Some shs \<longrightarrow> sh \<in> set shs \<longrightarrow> (sh, snd k) \<in> all)
     \<and> (\<forall>k. om_get groups' k \<noteq> None \<longrightarrow> (\<exists>sh. (sh, snd k) \<in> all))"
proof (induction groups parsed rule: group_shards.induct)
  case (2 groups sh count rest)
  from "2.prems"(1) obtain prefix where p: "split_prefix (sh_path sh) = Some (prefix, count)"
    and rest: "group_shards (om_put (prefix, count)
        ((case om_get groups (prefix, count) of Some shs \<Rightarrow> shs | None \<Rightarrow> []) @ [sh]) groups) rest = Ok groups'"
    by (auto simp: rbind_eq_Ok split: if_splits)
  have IH: "ok_or NoShardName (split_prefix (sh_path sh)) = Ok (prefix, count)" using p by simp
  show ?case
  proof (rule "2.IH" [OF IH refl _ rest])
    show "om_ok (om_put (prefix, count) ((case om_get groups (prefix, count) of Some shs \<Rightarrow> shs | None \<Rightarrow> []) @ [sh]) groups)"
      using "2.prems"(2) by simp
    have old: "(sh', count) \<in> all" if "om_get groups (prefix, count) = Some shs" "sh' \<in> set shs" for shs sh'
      using "2.prems"(3) that by (metis snd_conv)
    show "\<forall>k shs sh'. om_get (om_put (prefix, count) ((case om_get groups (prefix, count) of Some shs \<Rightarrow> shs | None \<Rightarrow> []) @ [sh]) groups) k
        = Some shs \<longrightarrow> sh' \<in> set shs \<longrightarrow> (sh', snd k) \<in> all"
      using "2.prems"(2-4) old by (cases "om_get groups (prefix, count)") auto
  qed (use "2.prems" in auto)
qed simp

lemma discover_cases:
  "case discover_model_set fs p of Ok s \<Rightarrow> set_sound fs s | Err e \<Rightarrow> True | Panic m \<Rightarrow> False"
proof -
  have shard: "\<not> is_panic (parse_shard fs p)" for p
    by (auto simp: parse_shard_def is_panic_rbind parse_gguf_total split: option.split fs_node.split)
  have one: "set_sound fs \<lparr>ms_path = p, ms_shards = [sh]\<rparr>"
    if "parse_shard fs (sh_path sh) = Ok sh" "split_count (sh_model sh) = Ok n" "n \<le> 1" for p sh n
    using that by (simp add: set_sound_def is_sharded_def)
  have from_file: "\<not> is_panic (discover_from_file fs p) \<and> (\<forall>s. discover_from_file fs p = Ok s \<longrightarrow> set_sound fs s)"
  proof -
    have files: "\<not> is_panic (parse_shard_files fs prefix count is)" for prefix count "is"
      by (induction "is") (auto simp: is_panic_rbind shard)
    have "\<not> is_panic (discover_from_file fs p)"
      by (auto simp: discover_from_file_def is_panic_rbind shard split_count_total files assemble_shards_total)
    moreover have "set_sound fs s" if found: "discover_from_file fs p = Ok s" for s
    proof -
      from that obtain sh count where sh: "parse_shard fs p = Ok sh" and count: "split_count (sh_model sh) = Ok count"
        by (auto simp: discover_from_file_def rbind_eq_Ok)
      show ?thesis
      proof (cases "count \<le> 1")
        case True
        then show ?thesis using that sh count one [of sh count p] parse_shard_path [OF sh] by (auto simp: discover_from_file_def)
      next
        case False
        then obtain prefix shs where "parse_shard_files fs prefix count [1..<count + 1] = Ok shs" "assemble_shards p count shs = Ok s"
          using found sh count by (auto simp: discover_from_file_def rbind_eq_Ok simp del: upt_Suc split: if_splits)
        then show ?thesis using assemble_shards_sound [of p count shs s fs] parse_shard_files_Ok False by simp
      qed
    qed
    ultimately show ?thesis by blast
  qed
  have from_dir: "\<not> is_panic (discover_from_dir fs p names) \<and> (\<forall>s. discover_from_dir fs p names = Ok s \<longrightarrow> set_sound fs s)" for names
  proof -
    have parse_total: "\<not> is_panic (parse_directory_files fs ps)" for ps
      by (induction ps) (auto simp: is_panic_rbind shard split_count_total)
    have group_total: "\<not> is_panic (group_shards groups parsed)" for groups parsed
      by (induction groups parsed rule: group_shards.induct) (auto simp: is_panic_rbind)
    have several: "\<not> is_panic (assemble_shards p count candidates)
        \<and> (\<forall>s. assemble_shards p count candidates = Ok s \<longrightarrow> set_sound fs s)"
      if parsed: "parse_directory_files fs files = Ok parsed" and same: "length parsed = length (filter (\<lambda>(sh, count). 1 < count) parsed)"
        and groups: "group_shards [] parsed = Ok [((prefix, count), candidates)]" for files parsed prefix count candidates
    proof -
      have split: "1 < count'" if "(sh, count') \<in> set parsed" for sh count'
        using same that by (metis (mono_tags, lifting) case_prodD filter_id_conv length_filter_less less_irrefl)
      have "om_ok [((prefix, count), candidates)] \<and>
          (\<forall>k shs sh. om_get [((prefix, count), candidates)] k = Some shs \<longrightarrow> sh \<in> set shs \<longrightarrow> (sh, snd k) \<in> set parsed)
          \<and> (\<forall>k. om_get [((prefix, count), candidates)] k \<noteq> None \<longrightarrow> (\<exists>sh. (sh, snd k) \<in> set parsed))"
        by (rule group_shards_Ok [OF groups]) simp_all
      then have "\<forall>sh \<in> set candidates. (sh, count) \<in> set parsed" "\<exists>sh. (sh, count) \<in> set parsed"
        by (auto split: if_splits)
      then have "1 < count" "\<And>sh. sh \<in> set candidates \<Longrightarrow> parse_shard fs (sh_path sh) = Ok sh"
        using split parse_directory_files_Ok [OF parsed] by blast+
      then show ?thesis using assemble_shards_total assemble_shards_sound by blast
    qed
    have "\<not> is_panic (discover_from_dir fs p names)"
      using several by (auto simp: discover_from_dir_def Let_def is_panic_rbind parse_total group_total split: list.split)
    moreover have "set_sound fs s" if found: "discover_from_dir fs p names = Ok s" for s
    proof -
      from found obtain parsed where parsed: "parse_directory_files fs (directory_files fs p names) = Ok parsed"
        by (auto simp: discover_from_dir_def Let_def rbind_eq_Ok split: if_splits)
      show ?thesis
      proof (cases "filter (\<lambda>(sh, count). 1 < count) parsed = []")
        case True
        then have s: "length parsed = 1" "s = \<lparr>ms_path = p, ms_shards = [fst (last parsed)]\<rparr>"
          using found parsed by (auto simp: discover_from_dir_def Let_def split: if_splits)
        then obtain sh count where "parsed = [(sh, count)]" by (cases parsed) auto
        then show ?thesis using True s(2) parse_directory_files_Ok [OF parsed, of sh count] one [of sh count p] by (auto split: if_splits)
      next
        case False
        then obtain groups where same: "length parsed = length (filter (\<lambda>(sh, count). 1 < count) parsed)"
          and groups: "group_shards [] parsed = Ok groups"
          and result: "(case groups of [((prefix, count), candidates)] \<Rightarrow> assemble_shards p count candidates
              | _ \<Rightarrow> Err SeveralModelSets) = Ok s"
          using found parsed by (auto simp: discover_from_dir_def Let_def rbind_eq_Ok split: if_splits)
        from result obtain prefix count candidates where "groups = [((prefix, count), candidates)]" "assemble_shards p count candidates = Ok s"
          by (auto split: list.splits prod.splits)
        then show ?thesis using several [OF parsed same] groups by blast
      qed
    qed
    ultimately show ?thesis by blast
  qed
  have decide: "case r of Ok s \<Rightarrow> set_sound fs s | Err e \<Rightarrow> True | Panic m \<Rightarrow> False"
    if "\<not> is_panic r \<and> (\<forall>s. r = Ok s \<longrightarrow> set_sound fs s)" for r
    using that by (cases r) auto
  show ?thesis using decide [OF from_file] decide [OF from_dir]
    by (simp add: discover_model_set_def split: option.split fs_node.split)
qed

lemma discovered_sound: "discover_model_set fs p = Ok s \<Longrightarrow> set_sound fs s"
  using discover_cases [of fs p] by simp

text \<open>
  C8: Resolving a path gives a model set or an error, never a panic. In the set every shard is the parse of its
  file. A set of several shards is complete and in order: shard \<open>i\<close> declares number \<open>i\<close> of the set's count, every
  tensor of known size lies inside its own file, and no tensor name occurs twice. A set of one shard is a file that
  declares no split or a split into at most one file; its tensors' names and ranges are not checked when it is
  resolved, so a repeated name or a tensor beyond the file is left to the reads.
\<close>

theorem discover_model_set_sound:
  "case discover_model_set fs p of Ok s \<Rightarrow> set_sound fs s | Err e \<Rightarrow> True | Panic m \<Rightarrow> False"
  by (rule discover_cases)

end
