(* ===== verification/Data_Source.thy ===== *)
theory Data_Source
  imports Model_Set
begin

section \<open>The file-backed data source\<close>

text \<open>
  \<open>crates/ramforge-core/src/datasource.rs\<close>. Each shard's file keeps the operating system's cursor and the
  position the code believes it has, so that a seek can be left out. What the system does is the parameter
  \<open>os\<close>: the files (unchanged while the source is open), which of its calls fail, and where a failed call leaves the
  cursor. Reserving a buffer is one of these calls, also for a buffer of the caller that already has the room, and it
  fails above \<open>isize::MAX\<close> bytes. The locks are not modelled (a call runs alone); nor are the clock and the capacity
  of a caller's buffer, so the profile has no elapsed time and no buffer counters. An \<open>f32\<close> is its bit pattern.
\<close>

subsection \<open>State\<close>

datatype data_source_error =
    DsIo
  | DsTensorNotFound string
  | DsInvalidOffset string
  | DsInvalidRange string
  | DsOutOfBounds string u64 u64 u64
  | DsUnknownByteLength string
  | DsGeneral string

record operating_system =
  os_files :: filesystem
  os_fails :: "nat \<Rightarrow> bool"
  os_stray :: "nat \<Rightarrow> nat"

record file_state =
  fst_cursor :: nat
  fst_position :: "u64 option"

record shard_source =
  ss_layout :: shard_layout
  ss_state :: file_state

record io_profile =
  io_bytes_read :: u64
  io_read_operations :: u64
  io_read_failures :: u64
  io_seek_operations :: u64
  io_seeks_avoided :: u64
  io_logical_tensor_reads :: u64
  io_logical_tensor_bytes :: u64
  io_coalesced_ranges :: u64
  io_coalesced_gap_bytes :: u64

record tensor_io_profile =
  ti_bytes_read :: u64
  ti_read_operations :: u64
  ti_read_failures :: u64

record data_source =
  ds_model :: gguf_model
  ds_shards :: "shard_source list"
  ds_file_size :: u64
  ds_profiling :: bool
  ds_profile :: io_profile
  ds_tensors :: "(string, tensor_io_profile) omap"
  ds_calls :: nat

type_synonym 'a ds_result = "data_source \<times> ('a, data_source_error) result"

definition zero_profile :: io_profile where
  "zero_profile = \<lparr>io_bytes_read = 0, io_read_operations = 0, io_read_failures = 0, io_seek_operations = 0, io_seeks_avoided = 0,
     io_logical_tensor_reads = 0, io_logical_tensor_bytes = 0, io_coalesced_ranges = 0, io_coalesced_gap_bytes = 0\<rparr>"

definition file_bytes :: "filesystem \<Rightarrow> path \<Rightarrow> byte list" where
  "file_bytes fs p = (case fs p of Some (FileNode bs) \<Rightarrow> bs | _ \<Rightarrow> [])"

fun open_shards :: "operating_system \<Rightarrow> nat \<Rightarrow> shard_layout list \<Rightarrow> (shard_source list, data_source_error) result" where
  "open_shards os n [] = Ok []"
| "open_shards os n (l # ls) =
     (if os_fails os n \<or> \<not> is_file (os_files os) (sl_path l) then Err DsIo
      else rbind (open_shards os (n + 1) ls) (\<lambda>sources.
        Ok (\<lparr>ss_layout = l, ss_state = \<lparr>fst_cursor = 0, fst_position = Some 0\<rparr>\<rparr> # sources)))"

definition open_source :: "operating_system \<Rightarrow> path \<Rightarrow> (data_source, data_source_error) result" where
  "open_source os p =
     rbind (map_err (\<lambda>_. DsGeneral ''model set'') (discover_model_set (os_files os) p)) (\<lambda>s.
     rbind (open_shards os 0 (shard_layouts s)) (\<lambda>sources.
       Ok \<lparr>ds_model = merged_model s, ds_shards = sources, ds_file_size = virtual_size s, ds_profiling = False,
           ds_profile = zero_profile, ds_tensors = [], ds_calls = length (shard_layouts s)\<rparr>))"

subsection \<open>Profiling\<close>

definition set_profiling :: "bool \<Rightarrow> data_source \<Rightarrow> data_source" where
  "set_profiling enabled ds = ds\<lparr>ds_profiling := enabled\<rparr>"

definition reset_io_profile :: "data_source \<Rightarrow> data_source" where
  "reset_io_profile ds = ds\<lparr>ds_profile := zero_profile, ds_tensors := []\<rparr>"

definition record_tensor_read :: "string \<Rightarrow> u64 \<Rightarrow> bool \<Rightarrow> data_source \<Rightarrow> data_source" where
  "record_tensor_read name bytes failed ds =
     (if \<not> ds_profiling ds then ds
      else
        let pr = ds_profile ds;
            t = (case om_get (ds_tensors ds) name of
                Some t \<Rightarrow> t | None \<Rightarrow> \<lparr>ti_bytes_read = 0, ti_read_operations = 0, ti_read_failures = 0\<rparr>) in
        ds\<lparr>ds_profile := pr\<lparr>io_logical_tensor_reads := wrapping_add (io_logical_tensor_reads pr) 1,
              io_logical_tensor_bytes := wrapping_add (io_logical_tensor_bytes pr) bytes\<rparr>,
           ds_tensors := om_put name
             \<lparr>ti_bytes_read = saturating_add (ti_bytes_read t) bytes,
              ti_read_operations = saturating_add (ti_read_operations t) 1,
              ti_read_failures = (if failed then saturating_add (ti_read_failures t) 1 else ti_read_failures t)\<rparr> (ds_tensors ds)\<rparr>)"

definition record_coalesced_range :: "u64 \<Rightarrow> data_source \<Rightarrow> data_source" where
  "record_coalesced_range gap ds =
     (if \<not> ds_profiling ds then ds
      else let pr = ds_profile ds in
        ds\<lparr>ds_profile := pr\<lparr>io_coalesced_ranges := wrapping_add (io_coalesced_ranges pr) 1,
             io_coalesced_gap_bytes := wrapping_add (io_coalesced_gap_bytes pr) gap\<rparr>\<rparr>)"

definition record_read :: "bool \<Rightarrow> u64 \<Rightarrow> bool \<Rightarrow> u64 \<Rightarrow> data_source \<Rightarrow> data_source" where
  "record_read started bytes failed operations ds =
     (if \<not> started then ds
      else let pr = ds_profile ds in
        ds\<lparr>ds_profile := pr\<lparr>io_bytes_read := wrapping_add (io_bytes_read pr) bytes,
             io_read_operations := wrapping_add (io_read_operations pr) operations,
             io_read_failures := (if failed then wrapping_add (io_read_failures pr) 1 else io_read_failures pr)\<rparr>\<rparr>)"

definition record_seek :: "bool \<Rightarrow> data_source \<Rightarrow> data_source" where
  "record_seek avoided ds =
     (if \<not> ds_profiling ds then ds
      else let pr = ds_profile ds in
        ds\<lparr>ds_profile :=
             (if avoided then pr\<lparr>io_seeks_avoided := wrapping_add (io_seeks_avoided pr) 1\<rparr>
              else pr\<lparr>io_seek_operations := wrapping_add (io_seek_operations pr) 1\<rparr>)\<rparr>)"

subsection \<open>Calls of the operating system\<close>

definition set_state :: "nat \<Rightarrow> file_state \<Rightarrow> data_source \<Rightarrow> data_source" where
  "set_state i st ds = ds\<lparr>ds_shards := (ds_shards ds)[i := (ds_shards ds ! i)\<lparr>ss_state := st\<rparr>]\<rparr>"

definition counted :: "data_source \<Rightarrow> data_source" where "counted ds = ds\<lparr>ds_calls := Suc (ds_calls ds)\<rparr>"

definition ensure_file_position :: "operating_system \<Rightarrow> nat \<Rightarrow> u64 \<Rightarrow> data_source \<Rightarrow> unit ds_result" where
  "ensure_file_position os i off ds =
     (if fst_position (ss_state (ds_shards ds ! i)) = Some off then (record_seek True ds, Ok ())
      else
        let ds' = counted (record_seek False ds) in
        if os_fails os (ds_calls ds)
        then (set_state i \<lparr>fst_cursor = os_stray os (ds_calls ds), fst_position = None\<rparr> ds', Err DsIo)
        else (set_state i \<lparr>fst_cursor = off, fst_position = Some off\<rparr> ds', Ok ()))"

text \<open>\<open>read_exact\<close> from the cursor: it fails when the file is too short.\<close>

definition file_read_exact :: "operating_system \<Rightarrow> nat \<Rightarrow> nat \<Rightarrow> data_source \<Rightarrow> byte list ds_result" where
  "file_read_exact os i n ds =
     (let src = ds_shards ds ! i; bytes = file_bytes (os_files os) (sl_path (ss_layout src));
          cursor = fst_cursor (ss_state src) in
      if os_fails os (ds_calls ds) \<or> length bytes < cursor + n
      then (set_state i \<lparr>fst_cursor = os_stray os (ds_calls ds), fst_position = None\<rparr> (counted ds), Err DsIo)
      else (set_state i ((ss_state src)\<lparr>fst_cursor := cursor + n\<rparr>) (counted ds), Ok (take n (drop cursor bytes))))"

subsection \<open>Reading the virtual range\<close>

definition find_shard :: "data_source \<Rightarrow> u64 \<Rightarrow> nat option" where
  "find_shard ds v = map_option fst
     (find (\<lambda>(i, src). sl_virtual_start (ss_layout src) \<le> v \<and> v < sl_virtual_end (ss_layout src))
       (List.enumerate 0 (ds_shards ds)))"

lemma find_shard_Some:
  "find_shard ds v = Some i \<Longrightarrow> i < length (ds_shards ds)
     \<and> sl_virtual_start (ss_layout (ds_shards ds ! i)) \<le> v \<and> v < sl_virtual_end (ss_layout (ds_shards ds ! i))"
  by (auto simp: find_shard_def find_Some_iff nth_enumerate_eq)

text \<open>
  The part of a read inside shard \<open>i\<close>: at most \<open>remaining\<close> bytes from virtual offset \<open>v\<close>. The position is set to
  \<open>None\<close> by a failed read (\<open>file_read_exact\<close>) and to the end of the read by a successful one.
\<close>

definition read_chunk :: "operating_system \<Rightarrow> nat \<Rightarrow> u64 \<Rightarrow> nat \<Rightarrow> data_source \<Rightarrow> byte list ds_result" where
  "read_chunk os i v remaining ds =
     (let l = ss_layout (ds_shards ds ! i);
          chunk = min (saturating_sub (sl_virtual_end l) v) remaining in
      case Option.bind (checked_sub v (sl_virtual_start l)) (\<lambda>r. checked_add r (sl_physical_data_start l)) of
        None \<Rightarrow> (ds, Err (DsInvalidOffset ''physical shard offset overflow''))
      | Some physical \<Rightarrow>
          sbind (ensure_file_position os i physical ds) (\<lambda>ds1 _.
          sbind (file_read_exact os i chunk ds1) (\<lambda>ds2 bytes.
            case checked_add physical chunk of
              None \<Rightarrow> (ds2, Err (DsInvalidRange ''file position overflow''))
            | Some next_position \<Rightarrow>
                (set_state i ((ss_state (ds_shards ds2 ! i))\<lparr>fst_position := Some next_position\<rparr>) ds2, Ok bytes))))"

text \<open>
  The loop of \<open>read_exact_into\<close>, with the bytes written so far and the number of physical reads. One unit of
  fuel per byte: every round reads at least one.
\<close>

primrec read_rounds :: "operating_system \<Rightarrow> nat \<Rightarrow> u64 \<Rightarrow> nat \<Rightarrow> byte list \<Rightarrow> u64 \<Rightarrow> data_source \<Rightarrow> (byte list \<times> u64) ds_result" where
  "read_rounds os 0 off len written operations ds = (ds, Panic ''out of fuel'')"
| "read_rounds os (Suc fuel) off len written operations ds =
     (if len \<le> length written then (ds, Ok (written, operations))
      else case checked_add off (length written) of
          None \<Rightarrow> (ds, Err (DsInvalidRange ''virtual read position overflow''))
        | Some v \<Rightarrow>
            (case find_shard ds v of
               None \<Rightarrow> (ds, Err (DsOutOfBounds ''<range>'' v (len - length written) (ds_file_size ds)))
             | Some i \<Rightarrow>
                 sbind (read_chunk os i v (len - length written) ds) (\<lambda>ds' bytes.
                   read_rounds os fuel off len (written @ bytes) (operations + 1) ds')))"

definition read_exact_into :: "operating_system \<Rightarrow> u64 \<Rightarrow> nat \<Rightarrow> data_source \<Rightarrow> (byte list \<times> u64) ds_result" where
  "read_exact_into os off len ds =
     (if len = 0 then (ds, Ok ([], 0)) else read_rounds os (len + 1) off len [] 0 ds)"

definition ISIZE_MAX :: nat where "ISIZE_MAX = 2 ^ 63 - 1"

text \<open>\<open>try_reserve_exact\<close>: no allocation for zero bytes.\<close>

definition reserve_buffer :: "operating_system \<Rightarrow> nat \<Rightarrow> data_source \<Rightarrow> unit ds_result" where
  "reserve_buffer os len ds =
     (if len = 0 then (ds, Ok ())
      else (counted ds, if ISIZE_MAX < len \<or> os_fails os (ds_calls ds)
        then Err (DsGeneral ''failed to reserve a read buffer'') else Ok ()))"

definition read_reserved :: "operating_system \<Rightarrow> u64 \<Rightarrow> nat \<Rightarrow> data_source \<Rightarrow> (byte list \<times> u64) ds_result" where
  "read_reserved os off len ds = sbind (reserve_buffer os len ds) (\<lambda>ds' _. read_exact_into os off len ds')"

text \<open>\<open>read_range\<close> and \<open>read_range_into\<close>: the caller's buffer is cleared first, so its content is the result.\<close>

definition read_range :: "operating_system \<Rightarrow> u64 \<Rightarrow> u64 \<Rightarrow> data_source \<Rightarrow> byte list ds_result" where
  "read_range os off len ds =
     (let started = ds_profiling ds in
      case read_reserved os off len ds of
        (ds', Ok (bytes, operations)) \<Rightarrow> (record_read started len False operations ds', Ok bytes)
      | (ds', Err e) \<Rightarrow> (record_read started 0 True 0 ds', Err e)
      | (ds', Panic m) \<Rightarrow> (ds', Panic m))"

definition validate_bounds_at :: "u64 \<Rightarrow> u64 \<Rightarrow> tensor_descriptor \<Rightarrow> data_source \<Rightarrow> (unit, data_source_error) result" where
  "validate_bounds_at off len t ds =
     (if off < data_start_offset (ds_model ds) then Err (DsInvalidOffset (td_name t))
      else case checked_add off len of
          None \<Rightarrow> Err (DsInvalidRange (td_name t))
        | Some stop \<Rightarrow> if ds_file_size ds < stop then Err (DsOutOfBounds (td_name t) off len (ds_file_size ds)) else Ok ())"

definition validate_bounds :: "tensor_descriptor \<Rightarrow> u64 \<Rightarrow> data_source \<Rightarrow> (unit, data_source_error) result" where
  "validate_bounds t len ds = validate_bounds_at (file_offset t) len t ds"

text \<open>A read with its entry in the tensor profile.\<close>

definition profiled_read :: "string \<Rightarrow> u64 \<Rightarrow> 'a ds_result \<Rightarrow> 'a ds_result" where
  "profiled_read name len p =
     (case p of
        (ds, Ok a) \<Rightarrow> (record_tensor_read name len False ds, Ok a)
      | (ds, Err e) \<Rightarrow> (record_tensor_read name 0 True ds, Err e)
      | (ds, Panic m) \<Rightarrow> (ds, Panic m))"

text \<open>A pure check in front of a read.\<close>

definition checked_then :: "('a, data_source_error) result \<Rightarrow> ('a \<Rightarrow> data_source \<Rightarrow> 'b ds_result) \<Rightarrow> data_source \<Rightarrow> 'b ds_result" where
  "checked_then r f ds = (case r of Ok a \<Rightarrow> f a ds | Err e \<Rightarrow> (ds, Err e) | Panic m \<Rightarrow> (ds, Panic m))"

subsection \<open>Tensors\<close>

definition get_descriptor :: "data_source \<Rightarrow> string \<Rightarrow> (tensor_descriptor, data_source_error) result" where
  "get_descriptor ds name = ok_or (DsTensorNotFound name) (find (\<lambda>t. td_name t = name) (tensors (ds_model ds)))"

definition read_tensor_by_descriptor :: "operating_system \<Rightarrow> tensor_descriptor \<Rightarrow> data_source \<Rightarrow> byte list ds_result" where
  "read_tensor_by_descriptor os t ds =
     checked_then (ok_or (DsUnknownByteLength (td_name t)) (byte_length t)) (\<lambda>len.
     checked_then (validate_bounds t len ds) (\<lambda>_ ds.
       profiled_read (td_name t) len (read_range os (file_offset t) len ds))) ds"

definition read_tensor :: "operating_system \<Rightarrow> string \<Rightarrow> data_source \<Rightarrow> byte list ds_result" where
  "read_tensor os name ds = checked_then (get_descriptor ds name) (read_tensor_by_descriptor os) ds"

definition read_tensor_range_by_descriptor ::
  "operating_system \<Rightarrow> tensor_descriptor \<Rightarrow> u64 \<Rightarrow> u64 \<Rightarrow> data_source \<Rightarrow> byte list ds_result"
where
  "read_tensor_range_by_descriptor os t offset len ds =
     checked_then (ok_or (DsUnknownByteLength (td_name t)) (byte_length t)) (\<lambda>byte_len ds.
       if byte_len < offset then (ds, Err (DsInvalidRange (td_name t)))
       else
         checked_then (ok_or (DsInvalidRange (td_name t)) (checked_add offset len)) (\<lambda>range_end ds.
           if byte_len < range_end then (ds, Err (DsInvalidRange (td_name t)))
           else
             checked_then (ok_or (DsInvalidRange (td_name t)) (checked_add (file_offset t) offset)) (\<lambda>off.
             checked_then (validate_bounds_at off len t ds) (\<lambda>_ ds.
               profiled_read (td_name t) len (read_range os off len ds))) ds) ds) ds"

definition read_tensor_range :: "operating_system \<Rightarrow> string \<Rightarrow> u64 \<Rightarrow> u64 \<Rightarrow> data_source \<Rightarrow> byte list ds_result" where
  "read_tensor_range os name offset len ds =
     checked_then (get_descriptor ds name) (\<lambda>t. read_tensor_range_by_descriptor os t offset len) ds"

text \<open>The checks of a coalesced read: every tensor inside the range; the sum of their bytes.\<close>

fun coalesced_bytes ::
  "u64 \<Rightarrow> u64 \<Rightarrow> u64 \<Rightarrow> tensor_descriptor list \<Rightarrow> data_source \<Rightarrow> (u64, data_source_error) result"
where
  "coalesced_bytes off range_end logical [] ds = Ok logical"
| "coalesced_bytes off range_end logical (t # ts) ds =
     rbind (ok_or (DsUnknownByteLength (td_name t)) (byte_length t)) (\<lambda>n.
     rbind (validate_bounds t n ds) (\<lambda>_.
     rbind (ok_or (DsInvalidRange (td_name t)) (checked_add (file_offset t) n)) (\<lambda>tensor_end.
       if file_offset t < off \<or> range_end < tensor_end then Err (DsInvalidRange (td_name t))
       else rbind (ok_or (DsInvalidRange ''coalesced byte count'') (checked_add logical n)) (\<lambda>logical'.
         coalesced_bytes off range_end logical' ts ds))))"

fun record_tensor_reads :: "bool \<Rightarrow> tensor_descriptor list \<Rightarrow> data_source \<Rightarrow> data_source" where
  "record_tensor_reads failed [] ds = ds"
| "record_tensor_reads failed (t # ts) ds =
     record_tensor_reads failed ts
       (record_tensor_read (td_name t) (if failed then 0 else (case byte_length t of Some n \<Rightarrow> n | None \<Rightarrow> 0)) failed ds)"

definition read_coalesced_tensor_range ::
  "operating_system \<Rightarrow> tensor_descriptor list \<Rightarrow> u64 \<Rightarrow> u64 \<Rightarrow> data_source \<Rightarrow> byte list ds_result"
where
  "read_coalesced_tensor_range os ts off len ds =
     (case ts of
        [] \<Rightarrow> (ds, Err (DsInvalidRange ''coalesced tensor read is empty''))
      | first # _ \<Rightarrow>
          checked_then (ok_or (DsInvalidRange ''coalesced tensor range overflows'') (checked_add off len)) (\<lambda>range_end.
          checked_then (validate_bounds_at off len first ds) (\<lambda>_.
          checked_then (coalesced_bytes off range_end 0 ts ds) (\<lambda>logical ds.
            if len < logical then (ds, Err (DsInvalidRange ''coalesced tensors overlap''))
            else
              (case read_range os off len ds of
                 (ds', Ok bytes) \<Rightarrow>
                   (let ds2 = record_tensor_reads False ts ds' in
                    (if 1 < length ts then record_coalesced_range (len - logical) ds2 else ds2, Ok bytes))
               | (ds', Err e) \<Rightarrow> (record_tensor_reads True ts ds', Err e)
               | (ds', Panic m) \<Rightarrow> (ds', Panic m))))) ds)"

text \<open>Little-endian words of four bytes.\<close>

fun f32_words :: "byte list \<Rightarrow> nat list" where
  "f32_words (a # b # c # d # rest) = le_nat [a, b, c, d] # f32_words rest"
| "f32_words _ = []"

definition read_f32_range :: "operating_system \<Rightarrow> u64 \<Rightarrow> u64 \<Rightarrow> data_source \<Rightarrow> nat list ds_result" where
  "read_f32_range os off n ds =
     (let started = ds_profiling ds in
      case checked_mul n 4 of
        None \<Rightarrow> (record_read started 0 True 0 ds, Err (DsInvalidRange ''F32 read size overflows''))
      | Some len \<Rightarrow>
          (case read_reserved os off len ds of
             (ds', Ok (bytes, operations)) \<Rightarrow> (record_read started len False operations ds', Ok (f32_words bytes))
           | (ds', Err e) \<Rightarrow> (record_read started 0 True 0 ds', Err e)
           | (ds', Panic m) \<Rightarrow> (ds', Panic m)))"

definition f32_range_bounds :: "tensor_descriptor \<Rightarrow> u64 \<Rightarrow> u64 \<Rightarrow> (u64 \<times> u64, data_source_error) result" where
  "f32_range_bounds t offset count_elements =
     (if td_type t \<noteq> F32 then Err (DsGeneral (td_name t))
      else
        rbind (ok_or (DsUnknownByteLength (td_name t)) (byte_length t)) (\<lambda>byte_len.
        rbind (ok_or (DsInvalidRange (td_name t)) (checked_mul (num_elements t) 4)) (\<lambda>expected.
          if byte_len \<noteq> expected then Err (DsInvalidRange (td_name t))
          else
            rbind (ok_or (DsInvalidRange (td_name t)) (checked_add offset count_elements)) (\<lambda>stop.
              if num_elements t < stop then Err (DsInvalidRange (td_name t))
              else
                rbind (ok_or (DsInvalidRange (td_name t)) (checked_mul offset 4)) (\<lambda>relative.
                rbind (ok_or (DsInvalidRange (td_name t)) (checked_mul count_elements 4)) (\<lambda>len.
                rbind (ok_or (DsInvalidRange (td_name t)) (checked_add (file_offset t) relative)) (\<lambda>off.
                  Ok (off, len))))))))"

definition read_f32_tensor_range_by_descriptor ::
  "operating_system \<Rightarrow> tensor_descriptor \<Rightarrow> u64 \<Rightarrow> u64 \<Rightarrow> data_source \<Rightarrow> nat list ds_result"
where
  "read_f32_tensor_range_by_descriptor os t offset count_elements ds =
     checked_then (f32_range_bounds t offset count_elements) (\<lambda>(off, len).
     checked_then (validate_bounds_at off len t ds) (\<lambda>_ ds.
       profiled_read (td_name t) len (read_f32_range os off count_elements ds))) ds"

definition read_f32_tensor_by_descriptor :: "operating_system \<Rightarrow> tensor_descriptor \<Rightarrow> data_source \<Rightarrow> nat list ds_result" where
  "read_f32_tensor_by_descriptor os t ds = read_f32_tensor_range_by_descriptor os t 0 (num_elements t) ds"

definition tensor_names :: "data_source \<Rightarrow> string list" where
  "tensor_names ds = map td_name (tensors (ds_model ds))"

subsection \<open>The virtual range as one array of bytes\<close>

definition byte_range :: "'a list \<Rightarrow> nat \<Rightarrow> nat \<Rightarrow> 'a list" where "byte_range bs off n = take n (drop off bs)"

lemma length_range: "off + n \<le> length bs \<Longrightarrow> length (byte_range bs off n) = n"
  by (simp add: byte_range_def)

lemma range_range: "i + n \<le> m \<Longrightarrow> byte_range (byte_range bs off m) i n = byte_range bs (off + i) n"
  by (simp add: byte_range_def drop_take min_def add.commute)

lemma range_append: "byte_range bs off m @ byte_range bs (off + m) n = byte_range bs off (m + n)"
  by (simp add: byte_range_def take_add add.commute)

lemma range_left: "i + n \<le> length xs \<Longrightarrow> byte_range (xs @ ys) i n = byte_range xs i n"
  by (simp add: byte_range_def)

lemma range_right: "length xs \<le> i \<Longrightarrow> byte_range (xs @ ys) i n = byte_range ys (i - length xs) n"
  by (simp add: byte_range_def)

definition layout_bytes :: "filesystem \<Rightarrow> shard_layout \<Rightarrow> byte list" where
  "layout_bytes fs l = byte_range (file_bytes fs (sl_path l)) (sl_physical_data_start l) (sl_virtual_end l - sl_virtual_start l)"

definition virtual_image :: "filesystem \<Rightarrow> shard_layout list \<Rightarrow> byte list" where
  "virtual_image fs ls = concat (map (layout_bytes fs) ls)"

text \<open>The layouts follow each other without a gap, and each lies inside its file.\<close>

fun layouts_ok :: "filesystem \<Rightarrow> u64 \<Rightarrow> shard_layout list \<Rightarrow> bool" where
  "layouts_ok fs start [] = (start \<le> U64_MAX)"
| "layouts_ok fs start (l # ls) =
     (sl_virtual_start l = start \<and> start \<le> sl_virtual_end l
      \<and> (start < sl_virtual_end l \<longrightarrow>
           sl_physical_data_start l + (sl_virtual_end l - start) \<le> length (file_bytes fs (sl_path l)))
      \<and> length (file_bytes fs (sl_path l)) \<le> U64_MAX \<and> layouts_ok fs (sl_virtual_end l) ls)"

lemma length_layout_bytes:
  "layouts_ok fs start (l # ls) \<Longrightarrow> length (layout_bytes fs l) = sl_virtual_end l - start"
  by (cases "start < sl_virtual_end l") (auto simp: layout_bytes_def length_range byte_range_def)

lemma layouts_ok_start: "layouts_ok fs start ls \<Longrightarrow> l \<in> set ls \<Longrightarrow> start \<le> sl_virtual_start l"
  by (induction fs start ls rule: layouts_ok.induct) fastforce+

lemma layouts_ok_end: "layouts_ok fs start ls \<Longrightarrow> start + length (virtual_image fs ls) \<le> U64_MAX"
proof (induction fs start ls rule: layouts_ok.induct)
  case (2 fs start l ls)
  then show ?case using length_layout_bytes [OF "2.prems"] by (auto simp: virtual_image_def)
qed (simp add: virtual_image_def)

lemma image_range:
  "layouts_ok fs start ls \<Longrightarrow> l \<in> set ls \<Longrightarrow> sl_virtual_start l \<le> v \<Longrightarrow> v + n \<le> sl_virtual_end l \<Longrightarrow> 0 < n \<Longrightarrow>
     byte_range (virtual_image fs ls) (v - start) n = byte_range (file_bytes fs (sl_path l)) (v - sl_virtual_start l + sl_physical_data_start l) n
     \<and> v - sl_virtual_start l + sl_physical_data_start l + n \<le> length (file_bytes fs (sl_path l))
     \<and> v - start + n \<le> length (virtual_image fs ls)
     \<and> length (file_bytes fs (sl_path l)) \<le> U64_MAX"
proof (induction fs start ls rule: layouts_ok.induct)
  case (2 fs start l' ls)
  note len = length_layout_bytes [OF "2.prems"(1)]
  show ?case
  proof (cases "l = l'")
    case True
    then have "byte_range (virtual_image fs (l' # ls)) (v - start) n = byte_range (layout_bytes fs l) (v - start) n"
      unfolding virtual_image_def using "2.prems" len by (simp add: range_left)
    also have "\<dots> = byte_range (file_bytes fs (sl_path l)) (sl_physical_data_start l + (v - start)) n"
      unfolding layout_bytes_def using "2.prems" True by (intro range_range) simp
    finally show ?thesis using "2.prems" True len by (auto simp: virtual_image_def add.commute)
  next
    case False
    then have l: "l \<in> set ls" using "2.prems"(2) by simp
    have IH: "byte_range (virtual_image fs ls) (v - sl_virtual_end l') n = byte_range (file_bytes fs (sl_path l)) (v - sl_virtual_start l + sl_physical_data_start l) n
     \<and> v - sl_virtual_start l + sl_physical_data_start l + n \<le> length (file_bytes fs (sl_path l))
     \<and> v - sl_virtual_end l' + n \<le> length (virtual_image fs ls) \<and> length (file_bytes fs (sl_path l)) \<le> U64_MAX"
      by (rule "2.IH") (use "2.prems" l in auto)
    have after: "sl_virtual_end l' \<le> v" "start \<le> sl_virtual_end l'"
      using layouts_ok_start [of fs "sl_virtual_end l'" ls l] l "2.prems" by auto
    then have "byte_range (virtual_image fs (l' # ls)) (v - start) n = byte_range (virtual_image fs ls) (v - sl_virtual_end l') n"
      unfolding virtual_image_def using len by (simp add: range_right)
    then show ?thesis using IH len after by (auto simp: virtual_image_def)
  qed
qed simp

lemma layout_at:
  "layouts_ok fs start ls \<Longrightarrow> start \<le> v \<Longrightarrow> v < start + length (virtual_image fs ls) \<Longrightarrow>
     \<exists>l \<in> set ls. sl_virtual_start l \<le> v \<and> v < sl_virtual_end l"
proof (induction fs start ls rule: layouts_ok.induct)
  case (2 fs start l ls)
  then show ?case using length_layout_bytes [OF "2.prems"(1)] by (cases "v < sl_virtual_end l") (auto simp: virtual_image_def)
qed (simp add: virtual_image_def)

subsection \<open>Cursors\<close>

text \<open>What the code believes of a cursor is true.\<close>

definition cursors_ok :: "data_source \<Rightarrow> bool" where
  "cursors_ok ds \<longleftrightarrow>
     (\<forall>i < length (ds_shards ds). \<forall>p. fst_position (ss_state (ds_shards ds ! i)) = Some p \<longrightarrow>
        fst_cursor (ss_state (ds_shards ds ! i)) = p)"

definition source_layouts :: "data_source \<Rightarrow> shard_layout list" where "source_layouts ds = map ss_layout (ds_shards ds)"

definition source_image :: "operating_system \<Rightarrow> data_source \<Rightarrow> byte list" where
  "source_image os ds = virtual_image (os_files os) (source_layouts ds)"

definition source_ok :: "operating_system \<Rightarrow> data_source \<Rightarrow> bool" where
  "source_ok os ds \<longleftrightarrow> cursors_ok ds \<and> layouts_ok (os_files os) 0 (source_layouts ds)"

text \<open>The parts of a source that no read changes.\<close>

definition same_source :: "data_source \<Rightarrow> data_source \<Rightarrow> bool" where
  "same_source ds ds' \<longleftrightarrow>
     source_layouts ds' = source_layouts ds \<and> ds_model ds' = ds_model ds \<and> ds_file_size ds' = ds_file_size ds"

lemma same_source_refl [simp]: "same_source ds ds" by (simp add: same_source_def)

lemma same_source_trans: "same_source a b \<Longrightarrow> same_source b c \<Longrightarrow> same_source a c" by (simp add: same_source_def)

lemma record_same [simp]:
  "ds_shards (record_tensor_read n b f ds) = ds_shards ds" "ds_model (record_tensor_read n b f ds) = ds_model ds"
  "ds_file_size (record_tensor_read n b f ds) = ds_file_size ds" "ds_profiling (record_tensor_read n b f ds) = ds_profiling ds"
  "ds_shards (record_read s b f k ds) = ds_shards ds" "ds_model (record_read s b f k ds) = ds_model ds"
  "ds_file_size (record_read s b f k ds) = ds_file_size ds" "ds_profiling (record_read s b f k ds) = ds_profiling ds"
  "ds_shards (record_seek a ds) = ds_shards ds" "ds_model (record_seek a ds) = ds_model ds"
  "ds_file_size (record_seek a ds) = ds_file_size ds" "ds_profiling (record_seek a ds) = ds_profiling ds"
  "ds_calls (record_seek a ds) = ds_calls ds"
  "ds_shards (record_coalesced_range g ds) = ds_shards ds" "ds_model (record_coalesced_range g ds) = ds_model ds"
  "ds_file_size (record_coalesced_range g ds) = ds_file_size ds" "ds_profiling (record_coalesced_range g ds) = ds_profiling ds"
  "ds_shards (counted ds) = ds_shards ds" "ds_model (counted ds) = ds_model ds" "ds_file_size (counted ds) = ds_file_size ds"
  "ds_profiling (counted ds) = ds_profiling ds"
  by (simp_all add: record_tensor_read_def record_read_def record_seek_def record_coalesced_range_def counted_def Let_def)

lemma source_eqI:
  "ds_shards ds' = ds_shards ds \<Longrightarrow> ds_model ds' = ds_model ds \<Longrightarrow> ds_file_size ds' = ds_file_size ds \<Longrightarrow>
     (source_ok os ds' \<longleftrightarrow> source_ok os ds) \<and> same_source ds ds'
     \<and> source_image os ds' = source_image os ds"
  by (simp add: source_ok_def cursors_ok_def same_source_def source_layouts_def source_image_def)

lemma set_state_shards [simp]:
  "ds_shards (set_state i st ds) = (ds_shards ds)[i := (ds_shards ds ! i)\<lparr>ss_state := st\<rparr>]"
  "ds_model (set_state i st ds) = ds_model ds" "ds_file_size (set_state i st ds) = ds_file_size ds"
  "ds_profiling (set_state i st ds) = ds_profiling ds"
  by (simp_all add: set_state_def)

lemma set_state_layouts [simp]: "source_layouts (set_state i st ds) = source_layouts ds"
proof (cases "i < length (ds_shards ds)")
  case True
  have "map ss_layout ((ds_shards ds)[i := (ds_shards ds ! i)\<lparr>ss_state := st\<rparr>]) =
      (map ss_layout (ds_shards ds))[i := map ss_layout (ds_shards ds) ! i]" using True by (simp add: map_update)
  then show ?thesis by (simp add: source_layouts_def)
qed (simp add: source_layouts_def list_update_beyond)

lemma set_state_ok:
  "source_ok os ds \<Longrightarrow> (\<And>p. fst_position st = Some p \<Longrightarrow> fst_cursor st = p) \<Longrightarrow>
     source_ok os (set_state i st ds) \<and> same_source ds (set_state i st ds)"
proof -
  assume ok: "source_ok os ds" and st: "\<And>p. fst_position st = Some p \<Longrightarrow> fst_cursor st = p"
  have "cursors_ok (set_state i st ds)" unfolding cursors_ok_def
  proof (intro allI impI)
    fix j p assume "j < length (ds_shards (set_state i st ds))" "fst_position (ss_state (ds_shards (set_state i st ds) ! j)) = Some p"
    then show "fst_cursor (ss_state (ds_shards (set_state i st ds) ! j)) = p"
      using ok st by (cases "j = i") (auto simp: source_ok_def cursors_ok_def)
  qed
  then show ?thesis using ok by (simp add: source_ok_def same_source_def)
qed

lemma file_state_eq: "st\<lparr>fst_cursor := a, fst_position := b\<rparr> = \<lparr>fst_cursor = a, fst_position = b\<rparr>" for st :: file_state
  by simp

text \<open>One chunk is the piece of the image, whether or not the seek was left out.\<close>

lemma read_chunk_spec:
  assumes ok: "source_ok os ds" and i: "find_shard ds v = Some i" and remaining: "0 < remaining"
    and read: "read_chunk os i v remaining ds = (ds', r)"
  shows "source_ok os ds' \<and> same_source ds ds'
    \<and> (case r of
         Ok bytes \<Rightarrow> 0 < length bytes \<and> length bytes \<le> remaining \<and> bytes = byte_range (source_image os ds) v (length bytes)
       | Err e \<Rightarrow> \<exists>n. os_fails os n
       | Panic m \<Rightarrow> False)"
proof -
  let ?l = "ss_layout (ds_shards ds ! i)"
  let ?n = "min (sl_virtual_end ?l - v) remaining" and ?physical = "v - sl_virtual_start ?l + sl_physical_data_start ?l"
  have shard: "i < length (ds_shards ds)" "sl_virtual_start ?l \<le> v" "v < sl_virtual_end ?l" using find_shard_Some [OF i] by simp_all
  then have l: "?l \<in> set (source_layouts ds)" by (simp add: source_layouts_def)
  have piece: "byte_range (source_image os ds) v ?n = byte_range (file_bytes (os_files os) (sl_path ?l)) ?physical ?n"
    "?physical + ?n \<le> length (file_bytes (os_files os) (sl_path ?l))" "length (file_bytes (os_files os) (sl_path ?l)) \<le> U64_MAX"
    using image_range [of "os_files os" 0 "source_layouts ds" ?l v ?n] ok l shard remaining
    by (auto simp: source_ok_def source_image_def)
  have physical: "Option.bind (checked_sub v (sl_virtual_start ?l)) (\<lambda>r. checked_add r (sl_physical_data_start ?l)) = Some ?physical"
    "checked_add ?physical ?n = Some (?physical + ?n)"
    using shard piece by (simp_all add: checked_sub_def checked_add_def)
  obtain ds1 r1 where seek: "ensure_file_position os i ?physical ds = (ds1, r1)" by (cases "ensure_file_position os i ?physical ds")
  have after_seek: "source_ok os ds1 \<and> same_source ds ds1 \<and> length (ds_shards ds1) = length (ds_shards ds)
      \<and> ss_layout (ds_shards ds1 ! i) = ?l
      \<and> (case r1 of Ok u \<Rightarrow> fst_cursor (ss_state (ds_shards ds1 ! i)) = ?physical | Err e \<Rightarrow> \<exists>n. os_fails os n | Panic m \<Rightarrow> False)"
  proof (cases "fst_position (ss_state (ds_shards ds ! i)) = Some ?physical")
    case True
    moreover have "fst_cursor (ss_state (ds_shards ds ! i)) = ?physical"
      using True ok shard(1) unfolding source_ok_def cursors_ok_def by blast
    ultimately show ?thesis using seek ok source_eqI [of "record_seek True ds" ds os]
      by (auto simp: ensure_file_position_def)
  next
    case False
    have c: "source_ok os (counted (record_seek False ds)) \<and> same_source ds (counted (record_seek False ds))"
      using source_eqI [of "counted (record_seek False ds)" ds os] ok by simp
    show ?thesis
    proof (cases "os_fails os (ds_calls ds)")
      case True
      then show ?thesis using False seek c shard(1)
          set_state_ok [of os "counted (record_seek False ds)" "\<lparr>fst_cursor = os_stray os (ds_calls ds), fst_position = None\<rparr>" i]
        by (auto simp: ensure_file_position_def Let_def intro: same_source_trans)
    next
      case False': False
      then show ?thesis using False seek c shard(1)
          set_state_ok [of os "counted (record_seek False ds)" "\<lparr>fst_cursor = ?physical, fst_position = Some ?physical\<rparr>" i]
        by (auto simp: ensure_file_position_def Let_def intro: same_source_trans)
    qed
  qed
  show ?thesis
  proof (cases r1)
    case (Ok u)
    note cursor = after_seek [unfolded Ok, simplified]
    show ?thesis
    proof (cases "os_fails os (ds_calls ds1)")
      case True
      then have "ds' = set_state i \<lparr>fst_cursor = os_stray os (ds_calls ds1), fst_position = None\<rparr> (counted ds1) \<and> r = Err DsIo"
        using read seek Ok physical by (simp add: read_chunk_def file_read_exact_def Let_def saturating_sub_def)
      then show ?thesis using True cursor source_eqI [of "counted ds1" ds1 os]
          set_state_ok [of os "counted ds1" "\<lparr>fst_cursor = os_stray os (ds_calls ds1), fst_position = None\<rparr>" i]
        by (auto intro: same_source_trans)
    next
      case False
      have "\<not> length (file_bytes (os_files os) (sl_path ?l)) < ?physical + ?n" using piece by simp
      then have result: "ds' = set_state i \<lparr>fst_cursor = ?physical + ?n, fst_position = Some (?physical + ?n)\<rparr>
            (set_state i ((ss_state (ds_shards ds1 ! i))\<lparr>fst_cursor := ?physical + ?n\<rparr>) (counted ds1))
          \<and> r = Ok (byte_range (file_bytes (os_files os) (sl_path ?l)) ?physical ?n)"
        using read seek Ok physical False cursor shard(1)
        by (auto simp: read_chunk_def file_read_exact_def Let_def saturating_sub_def byte_range_def file_state_eq)
      have collapse: "set_state i st' (set_state i st ds2) = set_state i st' ds2" if "i < length (ds_shards ds2)" for st st' ds2
        using that by (simp add: set_state_def)
      have n: "0 < ?n" using shard remaining by simp
      show ?thesis using result n cursor shard(1) piece source_eqI [of "counted ds1" ds1 os]
          set_state_ok [of os "counted ds1" "\<lparr>fst_cursor = ?physical + ?n, fst_position = Some (?physical + ?n)\<rparr>" i]
        by (auto simp: collapse length_range intro: same_source_trans)
    qed
  next
    case (Err e)
    then show ?thesis using read seek physical after_seek by (auto simp: read_chunk_def Let_def)
  next
    case (Panic m)
    then show ?thesis using after_seek by simp
  qed
qed

lemma find_shard_at:
  assumes "source_ok os ds" "v < length (source_image os ds)"
  shows "find_shard ds v \<noteq> None"
proof -
  obtain l where "l \<in> set (source_layouts ds)" "sl_virtual_start l \<le> v" "v < sl_virtual_end l"
    using layout_at [of "os_files os" 0 "source_layouts ds" v] assms by (auto simp: source_ok_def source_image_def)
  then obtain i where "i < length (ds_shards ds)" "l = ss_layout (ds_shards ds ! i)"
    by (auto simp: source_layouts_def in_set_conv_nth)
  then have "\<exists>x \<in> set (List.enumerate 0 (ds_shards ds)). case x of (i, src) \<Rightarrow>
      sl_virtual_start (ss_layout src) \<le> v \<and> v < sl_virtual_end (ss_layout src)"
    using \<open>sl_virtual_start l \<le> v\<close> \<open>v < sl_virtual_end l\<close>
    by (intro bexI [of _ "(i, ds_shards ds ! i)"]) (auto simp: in_set_enumerate_eq)
  then show ?thesis by (auto simp: find_shard_def find_None_iff)
qed

lemma image_end: "source_ok os ds \<Longrightarrow> length (source_image os ds) \<le> U64_MAX"
  using layouts_ok_end [of "os_files os" 0 "source_layouts ds"] by (simp add: source_ok_def source_image_def)

lemma same_source_image: "same_source ds ds' \<Longrightarrow> source_image os ds' = source_image os ds"
  by (simp add: same_source_def source_image_def)

lemma found_inside: "source_ok os ds \<Longrightarrow> find_shard ds v = Some i \<Longrightarrow> v < length (source_image os ds)"
  using find_shard_Some [of ds v i] image_range [of "os_files os" 0 "source_layouts ds" "ss_layout (ds_shards ds ! i)" v 1]
  by (auto simp: source_ok_def source_image_def source_layouts_def)

text \<open>What a call that reads \<open>len\<close> bytes at \<open>off\<close> leaves and gives.\<close>

definition reads :: "operating_system \<Rightarrow> nat \<Rightarrow> nat \<Rightarrow> ('a \<Rightarrow> byte list \<Rightarrow> bool) \<Rightarrow> data_source \<Rightarrow> 'a ds_result \<Rightarrow> bool" where
  "reads os off len rel ds p \<longleftrightarrow>
     source_ok os (fst p) \<and> same_source ds (fst p)
     \<and> (case snd p of
          Ok a \<Rightarrow> off + len \<le> length (source_image os ds) \<and> rel a (byte_range (source_image os ds) off len)
        | Err e \<Rightarrow> (\<exists>n. os_fails os n) \<or> length (source_image os ds) < off + len \<or> ISIZE_MAX < len
        | Panic m \<Rightarrow> False)"

lemma reads_after: "reads os off len rel ds' p \<Longrightarrow> same_source ds ds' \<Longrightarrow> reads os off len rel ds p"
  using same_source_image [of ds ds' os] same_source_trans [of ds ds' "fst p"]
  by (cases "snd p") (simp_all add: reads_def)

lemma progress:
  "0 < length bytes \<Longrightarrow> w < len \<Longrightarrow> len - w < Suc fuel \<Longrightarrow> len - (w + length bytes) < fuel"
  by linarith

lemma read_rounds_spec:
  "source_ok os ds \<Longrightarrow> len - length written < fuel \<Longrightarrow> length written \<le> len \<Longrightarrow> off + length written \<le> length (source_image os ds) \<Longrightarrow>
     written = byte_range (source_image os ds) off (length written) \<Longrightarrow>
     reads os off len (\<lambda>(bytes, n) part. bytes = part) ds (read_rounds os fuel off len written operations ds)"
proof (induction fuel arbitrary: written operations ds)
  case (Suc fuel)
  show ?case
  proof (cases "len \<le> length written")
    case True
    then have "length written = len" using Suc.prems by simp
    then show ?thesis using Suc.prems by (simp add: reads_def)
  next
    case False
    let ?v = "off + length written"
    have v: "checked_add off (length written) = Some ?v" using Suc.prems(4) image_end [OF Suc.prems(1)] by simp
    have step: "read_rounds os (Suc fuel) off len written operations ds =
        (case find_shard ds ?v of
           None \<Rightarrow> (ds, Err (DsOutOfBounds ''<range>'' ?v (len - length written) (ds_file_size ds)))
         | Some i \<Rightarrow> sbind (read_chunk os i ?v (len - length written) ds) (\<lambda>ds' bytes.
             read_rounds os fuel off len (written @ bytes) (operations + 1) ds'))"
      by (simp only: read_rounds.simps v False if_False option.case)
    show ?thesis
    proof (cases "find_shard ds ?v")
      case None
      then have "length (source_image os ds) \<le> ?v" using find_shard_at [OF Suc.prems(1)] by (meson not_le)
      then show ?thesis unfolding step using False None Suc.prems by (simp add: reads_def)
    next
      case (Some i)
      obtain ds1 r where chunk: "read_chunk os i ?v (len - length written) ds = (ds1, r)" by fastforce
      have positive: "0 < len - length written" using False by simp
      note spec = read_chunk_spec [OF Suc.prems(1) Some positive chunk]
      have inside: "?v < length (source_image os ds)" by (rule found_inside [OF Suc.prems(1) Some])
      show ?thesis
      proof (cases r)
        case (Ok bytes)
        note part = spec [unfolded Ok, simplified]
        have img: "source_image os ds1 = source_image os ds" using part same_source_image by blast
        have "len - (length written + length bytes) < fuel"
          by (rule progress) (use part Suc.prems(2) False in auto)
        then have size: "length (written @ bytes) \<le> len" "len - length (written @ bytes) < fuel" using part False by auto
        have "length bytes = length (byte_range (source_image os ds) ?v (length bytes))" using part by metis
        then have within: "off + length (written @ bytes) \<le> length (source_image os ds1)"
          unfolding img using inside by (auto simp: byte_range_def)
        have so_far: "written @ bytes = byte_range (source_image os ds1) off (length (written @ bytes))"
          unfolding img
          using part Suc.prems(5) range_append [of "source_image os ds" off "length written" "length bytes"]
          by (metis length_append)
        have "source_ok os ds1" using part by simp
        from Suc.IH [OF this size(2) size(1) within so_far, of "operations + 1"]
        have "reads os off len (\<lambda>(bytes, n) part. bytes = part) ds1
            (read_rounds os fuel off len (written @ bytes) (operations + 1) ds1)" .
        then have "reads os off len (\<lambda>(bytes, n) part. bytes = part) ds
            (read_rounds os fuel off len (written @ bytes) (operations + 1) ds1)"
          by (rule reads_after) (use part in simp)
        then show ?thesis unfolding step using Some chunk Ok by simp
      qed (use spec Some chunk in \<open>auto simp: reads_def step simp del: read_rounds.simps\<close>)
    qed
  qed
qed simp

lemma read_exact_into_spec:
  assumes "source_ok os ds" "off \<le> length (source_image os ds)"
  shows "reads os off len (\<lambda>(bytes, n) part. bytes = part) ds (read_exact_into os off len ds)"
proof (cases "len = 0")
  case True
  then show ?thesis using assms by (simp add: read_exact_into_def reads_def byte_range_def)
next
  case False
  have "reads os off len (\<lambda>(bytes, n) part. bytes = part) ds (read_rounds os (len + 1) off len [] 0 ds)"
    by (rule read_rounds_spec) (use assms in \<open>simp_all add: byte_range_def\<close>)
  then show ?thesis using False by (simp add: read_exact_into_def)
qed

lemma read_reserved_spec:
  assumes "source_ok os ds" "off \<le> length (source_image os ds)"
  shows "reads os off len (\<lambda>(bytes, n) part. bytes = part) ds (read_reserved os off len ds)"
proof (cases "len = 0 \<or> \<not> (ISIZE_MAX < len \<or> os_fails os (ds_calls ds))")
  case True
  note same = source_eqI [of "counted ds" ds os]
  have "reads os off len (\<lambda>(bytes, n) part. bytes = part) ds (read_exact_into os off len (counted ds))"
    by (rule reads_after [OF read_exact_into_spec]) (use assms same in simp_all)
  then show ?thesis using True read_exact_into_spec [OF assms, of len] by (auto simp: read_reserved_def reserve_buffer_def)
next
  case False
  then show ?thesis using assms source_eqI [of "counted ds" ds os] by (auto simp: read_reserved_def reserve_buffer_def reads_def)
qed

lemma read_range_spec:
  assumes "source_ok os ds" "off \<le> length (source_image os ds)"
  shows "reads os off len (=) ds (read_range os off len ds)"
proof -
  obtain ds' r where exact: "read_reserved os off len ds = (ds', r)" by fastforce
  show ?thesis
    using read_reserved_spec [OF assms, of len] exact
      source_eqI [of "record_read (ds_profiling ds) len False (case r of Ok x \<Rightarrow> snd x | _ \<Rightarrow> 0) ds'" ds' os]
      source_eqI [of "record_read (ds_profiling ds) 0 True 0 ds'" ds' os]
    by (cases r) (auto simp: reads_def read_range_def split_beta intro: same_source_trans)
qed

text \<open>A source that serves its whole image; every call of the public interface keeps it.\<close>

definition serves :: "operating_system \<Rightarrow> data_source \<Rightarrow> bool" where
  "serves os ds \<longleftrightarrow> source_ok os ds \<and> ds_file_size ds = length (source_image os ds)"

lemma serves_same: "serves os ds \<Longrightarrow> source_ok os ds' \<Longrightarrow> same_source ds ds' \<Longrightarrow> serves os ds'"
  using same_source_image [of ds ds' os] by (simp add: serves_def same_source_def)

lemma bounds_Ok: "validate_bounds_at off len t ds = Ok u \<Longrightarrow> off + len \<le> ds_file_size ds"
  by (auto simp: validate_bounds_at_def split: if_splits option.splits)

lemma profiled_reads: "reads os off len rel ds p \<Longrightarrow> reads os off len rel ds (profiled_read name k p)"
proof -
  assume p: "reads os off len rel ds p"
  have same: "source_ok os (record_tensor_read name b f ds') = source_ok os ds'"
    "same_source ds (record_tensor_read name b f ds') = same_source ds ds'" for b f ds'
    using source_eqI [of "record_tensor_read name b f ds'" ds' os] by (auto simp: same_source_def)
  obtain ds' r where "p = (ds', r)" by (cases p)
  with p show ?thesis by (cases r) (simp_all add: profiled_read_def reads_def same)
qed

lemma read_f32_range_spec:
  assumes "source_ok os ds" "off \<le> length (source_image os ds)" "4 * n \<le> U64_MAX"
  shows "reads os off (4 * n) (\<lambda>xs part. xs = f32_words part) ds (read_f32_range os off n ds)"
proof -
  obtain ds' r where exact: "read_reserved os off (4 * n) ds = (ds', r)" by fastforce
  have mul: "checked_mul n 4 = Some (4 * n)" using assms(3) by simp
  have same: "source_ok os (record_read s b f k ds') = source_ok os ds'" "same_source ds (record_read s b f k ds') = same_source ds ds'"
    for s b f k
    using source_eqI [of "record_read s b f k ds'" ds' os] by (auto simp: same_source_def)
  show ?thesis
    using read_reserved_spec [OF assms(1,2), of "4 * n"] exact
    by (cases r) (auto simp: reads_def read_f32_range_def mul same split_beta simp del: checked_mul_eq_Some)
qed

definition keeps :: "operating_system \<Rightarrow> data_source \<Rightarrow> 'a ds_result \<Rightarrow> bool" where
  "keeps os ds p \<longleftrightarrow> source_ok os (fst p) \<and> same_source ds (fst p) \<and> \<not> is_panic (snd p)"

lemma reads_keeps: "reads os off len rel ds p \<Longrightarrow> keeps os ds p"
  by (auto simp: reads_def keeps_def split: result.splits)

lemma keeps_checked:
  "source_ok os ds \<Longrightarrow> \<not> is_panic r \<Longrightarrow> (\<And>a. r = Ok a \<Longrightarrow> keeps os ds (f a ds)) \<Longrightarrow> keeps os ds (checked_then r f ds)"
  by (cases r) (auto simp: checked_then_def keeps_def)

lemma keeps_Err: "source_ok os ds \<Longrightarrow> keeps os ds (ds, Err e)"
  by (simp add: keeps_def)

lemma bounds_total: "\<not> is_panic (validate_bounds_at off len t ds)"
  by (simp add: validate_bounds_at_def split: option.split)

datatype source_call =
    CallTensor string
  | CallDescriptor tensor_descriptor
  | CallRange string u64 u64
  | CallRangeDescriptor tensor_descriptor u64 u64
  | CallCoalesced "tensor_descriptor list" u64 u64
  | CallF32 tensor_descriptor u64 u64
  | CallProfiling bool
  | CallResetProfile

fun after_call :: "operating_system \<Rightarrow> source_call \<Rightarrow> data_source \<Rightarrow> data_source" where
  "after_call os (CallTensor name) ds = fst (read_tensor os name ds)"
| "after_call os (CallDescriptor t) ds = fst (read_tensor_by_descriptor os t ds)"
| "after_call os (CallRange name off len) ds = fst (read_tensor_range os name off len ds)"
| "after_call os (CallRangeDescriptor t off len) ds = fst (read_tensor_range_by_descriptor os t off len ds)"
| "after_call os (CallCoalesced ts off len) ds = fst (read_coalesced_tensor_range os ts off len ds)"
| "after_call os (CallF32 t off n) ds = fst (read_f32_tensor_range_by_descriptor os t off n ds)"
| "after_call os (CallProfiling b) ds = set_profiling b ds"
| "after_call os CallResetProfile ds = reset_io_profile ds"

lemma keeps_read_range:
  "serves os ds \<Longrightarrow> validate_bounds_at off len t ds = Ok u \<Longrightarrow> keeps os ds (profiled_read name k (read_range os off len ds))"
  by (intro reads_keeps [OF profiled_reads [OF read_range_spec]]) (use bounds_Ok in \<open>fastforce simp: serves_def\<close>)+

lemma read_descriptor_keeps: "serves os ds \<Longrightarrow> keeps os ds (read_tensor_by_descriptor os t ds)"
  by (auto simp: read_tensor_by_descriptor_def validate_bounds_def serves_def bounds_total
      intro!: keeps_checked keeps_read_range)

lemma read_range_keeps: "serves os ds \<Longrightarrow> keeps os ds (read_tensor_range_by_descriptor os t off len ds)"
  by (auto simp: read_tensor_range_by_descriptor_def serves_def bounds_total
      intro!: keeps_checked keeps_read_range keeps_Err)

lemma get_descriptor_total: "\<not> is_panic (get_descriptor ds name)"
  by (simp add: get_descriptor_def)

lemma f32_bounds_Ok: "f32_range_bounds t off n = Ok (start, len) \<Longrightarrow> len = 4 * n \<and> 4 * n \<le> U64_MAX"
  by (auto simp: f32_range_bounds_def rbind_eq_Ok split: if_splits)

lemma f32_bounds_total: "\<not> is_panic (f32_range_bounds t off n)"
  by (auto simp: f32_range_bounds_def is_panic_rbind)

lemma read_f32_keeps: "serves os ds \<Longrightarrow> keeps os ds (read_f32_tensor_range_by_descriptor os t off n ds)"
proof -
  assume ds: "serves os ds"
  have "keeps os ds (profiled_read (td_name t) len (read_f32_range os start n ds))"
    if "f32_range_bounds t off n = Ok (start, len)" "validate_bounds_at start len t ds = Ok u" for start len u
    by (intro reads_keeps [OF profiled_reads [OF read_f32_range_spec]])
      (use ds that bounds_Ok f32_bounds_Ok in \<open>fastforce simp: serves_def\<close>)+
  then show ?thesis using ds
    by (auto simp: read_f32_tensor_range_by_descriptor_def serves_def bounds_total f32_bounds_total intro!: keeps_checked)
qed

lemma coalesced_bytes_total: "\<not> is_panic (coalesced_bytes off stop n ts ds)"
  by (induction off stop n ts ds rule: coalesced_bytes.induct) (auto simp: is_panic_rbind validate_bounds_def bounds_total)

lemma record_reads_same:
  "ds_shards (record_tensor_reads f ts ds) = ds_shards ds \<and> ds_model (record_tensor_reads f ts ds) = ds_model ds
     \<and> ds_file_size (record_tensor_reads f ts ds) = ds_file_size ds"
  by (induction f ts ds rule: record_tensor_reads.induct) simp_all

lemma keeps_relabel:
  "keeps os ds p \<Longrightarrow> ds_shards ds' = ds_shards (fst p) \<Longrightarrow> ds_model ds' = ds_model (fst p) \<Longrightarrow>
     ds_file_size ds' = ds_file_size (fst p) \<Longrightarrow> \<not> is_panic r \<Longrightarrow> keeps os ds (ds', r)"
  using source_eqI [of ds' "fst p" os] by (auto simp: keeps_def intro: same_source_trans)

lemma read_coalesced_keeps: "serves os ds \<Longrightarrow> keeps os ds (read_coalesced_tensor_range os ts off len ds)"
proof (cases ts)
  case (Cons first rest)
  assume ds: "serves os ds"
  have "keeps os ds (case read_range os off len ds of
                 (ds', Ok bytes) \<Rightarrow>
                   (let ds2 = record_tensor_reads False ts ds' in
                    (if 1 < length ts then record_coalesced_range (len - logical) ds2 else ds2, Ok bytes))
               | (ds', Err e) \<Rightarrow> (record_tensor_reads True ts ds', Err e)
               | (ds', Panic m) \<Rightarrow> (ds', Panic m))"
    if "validate_bounds_at off len first ds = Ok u" for logical u
  proof -
    have k: "keeps os ds (read_range os off len ds)"
      by (intro reads_keeps [OF read_range_spec]) (use ds that bounds_Ok in \<open>fastforce simp: serves_def\<close>)+
    obtain ds' r where p: "read_range os off len ds = (ds', r)" by fastforce
    show ?thesis using k unfolding p
      by (cases r) (auto simp: Let_def record_reads_same keeps_def [of os ds "(ds', Panic m)" for m] intro: keeps_relabel)
  qed
  then show ?thesis using ds Cons
    by (auto simp: read_coalesced_tensor_range_def serves_def bounds_total coalesced_bytes_total intro!: keeps_checked keeps_Err
        simp del: length_Cons coalesced_bytes.simps record_tensor_reads.simps)
qed (simp add: read_coalesced_tensor_range_def serves_def keeps_Err)

lemma keeps_serves: "keeps os ds p \<Longrightarrow> serves os ds \<Longrightarrow> serves os (fst p) \<and> same_source ds (fst p)"
  using serves_same [of os ds "fst p"] by (simp add: keeps_def)

lemma after_call_serves: "serves os ds \<Longrightarrow> serves os (after_call os c ds) \<and> same_source ds (after_call os c ds)"
proof -
  assume ds: "serves os ds"
  note reading = keeps_serves [OF _ ds]
  have named: "keeps os ds (checked_then (get_descriptor ds name) f ds)" if "\<And>t. keeps os ds (f t ds)"
    for name and f :: "tensor_descriptor \<Rightarrow> data_source \<Rightarrow> byte list ds_result"
    using ds that by (intro keeps_checked) (simp_all add: serves_def get_descriptor_total)
  have settings: "serves os ds' \<and> same_source ds ds'"
    if "ds_shards ds' = ds_shards ds" "ds_model ds' = ds_model ds" "ds_file_size ds' = ds_file_size ds" for ds'
    using source_eqI [of ds' ds os] that ds serves_same [of os ds ds'] by (simp add: serves_def)
  show ?thesis
  proof (cases c)
    case (CallTensor name)
    have "keeps os ds (read_tensor os name ds)" unfolding read_tensor_def by (rule named) (rule read_descriptor_keeps [OF ds])
    then show ?thesis using CallTensor reading by simp
  next
    case (CallRange name off len)
    have "keeps os ds (read_tensor_range os name off len ds)"
      unfolding read_tensor_range_def by (rule named) (rule read_range_keeps [OF ds])
    then show ?thesis using CallRange reading by simp
  qed (simp_all add: reading read_descriptor_keeps [OF ds] read_range_keeps [OF ds] read_coalesced_keeps [OF ds] read_f32_keeps [OF ds]
      settings set_profiling_def reset_io_profile_def)
qed

text \<open>The sources that calls reach.\<close>

definition after_calls :: "operating_system \<Rightarrow> source_call list \<Rightarrow> data_source \<Rightarrow> data_source" where
  "after_calls os cs ds = fold (after_call os) cs ds"

lemma after_calls_serves: "serves os ds \<Longrightarrow> serves os (after_calls os cs ds) \<and> same_source ds (after_calls os cs ds)"
proof (induction cs arbitrary: ds)
  case (Cons c cs)
  then show ?case using after_call_serves [OF Cons.prems, of c] by (auto simp: after_calls_def intro: same_source_trans)
qed (simp add: after_calls_def)

end
