(* ===== verification/Tensor_Reads.thy ===== *)
theory Tensor_Reads
  imports Data_Source
begin

section \<open>Reading the tensors of an opened model\<close>

text \<open>
  \<open>FileDataSource::open\<close> of \<open>crates/ramforge-core/src/datasource.rs\<close> with the layouts of \<open>model_set.rs\<close>: the virtual
  range of a source is one array of bytes, the data sections of the shards one after the other, and a tensor read
  through it is the tensor's range of its own shard's file.
\<close>

lemma parse_file_size: "parse_gguf_file bytes = Ok m \<Longrightarrow> file_size m = length bytes"
  by (auto simp: parse_result rbind_eq_Ok model_of_def Let_def split: prod.splits)

lemma shard_file:
  "parse_shard fs (sh_path sh) = Ok sh \<Longrightarrow> file_size (sh_model sh) = length (file_bytes fs (sh_path sh)) \<and> is_file fs (sh_path sh)"
  by (cases sh) (auto simp: parse_shard_def rbind_eq_Ok file_bytes_def is_file_def parse_file_size split: option.splits fs_node.splits)

text \<open>All files together have at most as many bytes as a 64-bit offset can address.\<close>

definition addressable :: "filesystem \<Rightarrow> model_set \<Rightarrow> bool" where
  "addressable fs s \<longleftrightarrow> sum_list (map (\<lambda>sh. length (file_bytes fs (sh_path sh))) (ms_shards s)) \<le> U64_MAX"

lemma data_lengths: "sum_list (map shard_data_length shs) \<le> sum_list (map (\<lambda>sh. file_size (sh_model sh)) shs)"
  by (induction shs) (auto simp: shard_data_length_def saturating_sub_def)

lemma fold_data_lengths:
  "start + sum_list (map shard_data_length shs) \<le> U64_MAX \<Longrightarrow>
     foldl (\<lambda>tot sh. saturating_add tot (shard_data_length sh)) start shs = start + sum_list (map shard_data_length shs)"
  by (induction shs arbitrary: start) (simp_all add: saturating_add_def)

lemma layouts_from_ok:
  "(\<And>sh. sh \<in> set shs \<Longrightarrow> parse_shard fs (sh_path sh) = Ok sh \<and> length (file_bytes fs (sh_path sh)) \<le> U64_MAX) \<Longrightarrow>
     start + sum_list (map shard_data_length shs) \<le> U64_MAX \<Longrightarrow>
     layouts_ok fs start (layouts_from start shs)
     \<and> length (virtual_image fs (layouts_from start shs)) = sum_list (map shard_data_length shs)"
proof (induction shs arbitrary: start)
  case (Cons sh shs)
  let ?stop = "start + shard_data_length sh"
  have stop: "saturating_add start (shard_data_length sh) = ?stop" using Cons.prems(2) by (simp add: saturating_add_def)
  have IH: "layouts_ok fs ?stop (layouts_from ?stop shs)
      \<and> length (virtual_image fs (layouts_from ?stop shs)) = sum_list (map shard_data_length shs)"
    by (rule Cons.IH) (use Cons.prems in auto)
  have sh: "file_size (sh_model sh) = length (file_bytes fs (sh_path sh))" "length (file_bytes fs (sh_path sh)) \<le> U64_MAX"
    using Cons.prems(1) [of sh] shard_file [of fs sh] by simp_all
  have ok: "layouts_ok fs start (layouts_from start (sh # shs))"
    using sh IH unfolding layouts_from.simps Let_def stop by (auto simp: shard_data_length_def saturating_sub_def)
  have "length (layout_bytes fs (hd (layouts_from start (sh # shs)))) = shard_data_length sh"
    using length_layout_bytes [of fs start "hd (layouts_from start (sh # shs))" "tl (layouts_from start (sh # shs))"] ok
    by (simp add: Let_def stop)
  then show ?case using ok IH by (simp add: virtual_image_def Let_def stop)
qed (simp add: virtual_image_def)

lemma set_files:
  assumes "set_sound fs s" "addressable fs s" "sh \<in> set (ms_shards s)"
  shows "parse_shard fs (sh_path sh) = Ok sh \<and> file_size (sh_model sh) = length (file_bytes fs (sh_path sh))
    \<and> length (file_bytes fs (sh_path sh)) \<le> U64_MAX"
  using assms shard_file [of fs sh]
    member_le_sum_list [of "length (file_bytes fs (sh_path sh))" "map (\<lambda>sh. length (file_bytes fs (sh_path sh))) (ms_shards s)"]
  by (simp add: addressable_def set_sound_def)

lemma set_data_lengths:
  assumes "set_sound fs s" "addressable fs s"
  shows "0 + sum_list (map shard_data_length (ms_shards s)) \<le> U64_MAX"
proof -
  have "map (\<lambda>sh. file_size (sh_model sh)) (ms_shards s) = map (\<lambda>sh. length (file_bytes fs (sh_path sh))) (ms_shards s)"
    using set_files [OF assms] by auto
  with data_lengths [of "ms_shards s"] assms(2) show ?thesis unfolding addressable_def by (metis add_0 order_trans)
qed

lemma set_layouts:
  assumes sound: "set_sound fs s" and addr: "addressable fs s"
  shows "layouts_ok fs 0 (shard_layouts s) \<and> virtual_size s = length (virtual_image fs (shard_layouts s))"
proof -
  note parsed = set_files [OF sound addr] and small = set_data_lengths [OF sound addr]
  show ?thesis
  proof (cases "is_sharded s")
    case True
    show ?thesis using layouts_from_ok [OF _ small] fold_data_lengths [OF small] parsed True
      by (simp add: shard_layouts_def virtual_size_def)
  next
    case False
    have first: "ms_shards s ! 0 \<in> set (ms_shards s)" using sound by (auto simp: set_sound_def)
    show ?thesis using parsed [OF first] False
      by (simp add: shard_layouts_def virtual_size_def whole_file_layout_def virtual_image_def layout_bytes_def byte_range_def)
  qed
qed

lemma open_shards_Ok:
  "open_shards os n ls = Ok sources \<Longrightarrow>
     map ss_layout sources = ls \<and> (\<forall>src \<in> set sources. fst_cursor (ss_state src) = 0 \<and> fst_position (ss_state src) = Some 0)"
  by (induction os n ls arbitrary: sources rule: open_shards.induct) (auto simp: rbind_eq_Ok split: if_splits)

lemma opened_serves:
  assumes "discover_model_set (os_files os) p = Ok s" "set_sound (os_files os) s" "addressable (os_files os) s" "open_source os p = Ok ds"
  shows "serves os ds \<and> source_layouts ds = shard_layouts s \<and> ds_model ds = merged_model s"
proof -
  from assms(1,4) obtain sources where sources: "open_shards os 0 (shard_layouts s) = Ok sources" "ds_shards ds = sources"
    "ds_model ds = merged_model s" "ds_file_size ds = virtual_size s"
    by (auto simp: open_source_def rbind_eq_Ok)
  note opened = open_shards_Ok [OF sources(1)]
  have "cursors_ok ds" using opened sources(2) by (auto simp: cursors_ok_def)
  then show ?thesis using opened sources set_layouts [OF assms(2,3)]
    by (simp add: serves_def source_ok_def source_image_def source_layouts_def)
qed

text \<open>The tensors of the merged model are those of the shards, moved.\<close>

lemma remap_tensor:
  "t' \<in> set (remap_from start shs) \<Longrightarrow> start + sum_list (map shard_data_length shs) \<le> U64_MAX \<Longrightarrow>
     \<exists>i < length shs. \<exists>t \<in> set (tensors (sh_model (shs ! i))). \<exists>l \<in> set (layouts_from start shs).
       t' = remap_descriptor (sl_virtual_start l) (data_start_offset (sh_model (shs ! i))) t \<and> sl_path l = sh_path (shs ! i)
       \<and> sl_physical_data_start l = data_start_offset (sh_model (shs ! i))
       \<and> sl_virtual_end l = sl_virtual_start l + shard_data_length (shs ! i)
       \<and> sl_virtual_start l = start + sum_list (map shard_data_length (take i shs))"
proof (induction start shs rule: remap_from.induct)
  case (2 start sh shs)
  let ?stop = "start + shard_data_length sh"
  have stop: "saturating_add start (shard_data_length sh) = ?stop" using "2.prems"(2) by (simp add: saturating_add_def)
  from "2.prems"(1) consider (first) t where "t \<in> set (tensors (sh_model sh))"
        "t' = remap_descriptor start (data_start_offset (sh_model sh)) t"
    | (later) "t' \<in> set (remap_from ?stop shs)" by (auto simp: stop)
  then show ?case
  proof cases
    case first
    then show ?thesis by (intro exI [of _ 0] conjI bexI [of _ t] bexI [of _ "hd (layouts_from start (sh # shs))"]) (simp_all add: Let_def stop)
  next
    case later
    have "?stop + sum_list (map shard_data_length shs) \<le> U64_MAX" using "2.prems"(2) by simp
    from "2.IH" [unfolded stop, OF later this] obtain i t l where
      "i < length shs" "t \<in> set (tensors (sh_model (shs ! i)))" "l \<in> set (layouts_from ?stop shs)"
      "t' = remap_descriptor (sl_virtual_start l) (data_start_offset (sh_model (shs ! i))) t" "sl_path l = sh_path (shs ! i)"
      "sl_physical_data_start l = data_start_offset (sh_model (shs ! i))"
      "sl_virtual_end l = sl_virtual_start l + shard_data_length (shs ! i)"
      "sl_virtual_start l = ?stop + sum_list (map shard_data_length (take i shs))" by blast
    then show ?thesis
      by (intro exI [of _ "Suc i"] conjI bexI [of _ t] bexI [of _ l]) (simp_all add: Let_def stop)
  qed
qed simp

lemma remap_names: "map td_name (remap_from start shs) = concat (map shard_tensor_names shs)"
  by (induction start shs rule: remap_from.induct) (auto simp: shard_tensor_names_def remap_descriptor_def Let_def)

lemma layouts_ok_stop: "layouts_ok fs start ls \<Longrightarrow> l \<in> set ls \<Longrightarrow>
     sl_virtual_start l \<le> sl_virtual_end l \<and> sl_virtual_end l \<le> start + length (virtual_image fs ls)"
proof (induction fs start ls rule: layouts_ok.induct)
  case (2 fs start l' ls)
  then show ?case using length_layout_bytes [OF "2.prems"(1)] by (auto simp: virtual_image_def)
qed simp

text \<open>The bytes of a shard's data section; the virtual range is one after the other.\<close>

definition shard_data :: "filesystem \<Rightarrow> shard \<Rightarrow> byte list" where
  "shard_data fs sh = drop (data_start_offset (sh_model sh)) (file_bytes fs (sh_path sh))"

lemma length_shard_data:
  "file_size (sh_model sh) = length (file_bytes fs (sh_path sh)) \<Longrightarrow> length (shard_data fs sh) = shard_data_length sh"
  by (simp add: shard_data_def shard_data_length_def saturating_sub_def)

lemma image_of_data:
  "start + sum_list (map shard_data_length shs) \<le> U64_MAX \<Longrightarrow>
     (\<And>sh. sh \<in> set shs \<Longrightarrow> file_size (sh_model sh) = length (file_bytes fs (sh_path sh))) \<Longrightarrow>
     virtual_image fs (layouts_from start shs) = concat (map (shard_data fs) shs)"
proof (induction shs arbitrary: start)
  case (Cons sh shs)
  let ?stop = "start + shard_data_length sh"
  have stop: "saturating_add start (shard_data_length sh) = ?stop" using Cons.prems(1) by (simp add: saturating_add_def)
  have "virtual_image fs (layouts_from ?stop shs) = concat (map (shard_data fs) shs)" by (rule Cons.IH) (use Cons.prems in auto)
  moreover have "layout_bytes fs (hd (layouts_from start (sh # shs))) = shard_data fs sh"
    using length_shard_data [of sh fs] Cons.prems(2) [of sh]
    by (simp add: Let_def stop layout_bytes_def byte_range_def shard_data_def)
  ultimately show ?case by (simp add: virtual_image_def Let_def stop)
qed (simp add: virtual_image_def)

lemma concat_range: "byte_range (concat xs) (sum_list (map length (take i xs))) n = take n (concat (drop i xs))"
proof -
  have "concat xs = concat (take i xs) @ concat (drop i xs)" by (metis append_take_drop_id concat_append)
  then show ?thesis by (simp add: byte_range_def length_concat)
qed

text \<open>A tensor of known size that lies in the data section of its file.\<close>

definition readable :: "shard \<Rightarrow> tensor_descriptor \<Rightarrow> bool" where
  "readable sh t \<longleftrightarrow>
     (case byte_length t of
        None \<Rightarrow> False
      | Some n \<Rightarrow> data_start_offset (sh_model sh) \<le> file_offset t \<and> file_offset t + n \<le> file_size (sh_model sh))"

text \<open>
  The bytes that a split model gives for a tensor whose offset lies before the data of its shard, as an offset that
  wrapped when its file was parsed does (see \<open>Gguf_Parse\<close>): those from the start of
  the shard's data section, and from the data sections of the following shards when it is too short.
\<close>

definition read_from_data_start :: "filesystem \<Rightarrow> model_set \<Rightarrow> shard \<Rightarrow> tensor_descriptor \<Rightarrow> byte list \<Rightarrow> bool" where
  "read_from_data_start fs s sh t bytes \<longleftrightarrow>
     is_sharded s \<and> file_offset t < data_start_offset (sh_model sh)
     \<and> (\<exists>i < length (ms_shards s). ms_shards s ! i = sh
          \<and> bytes = take (length bytes) (concat (map (shard_data fs) (drop i (ms_shards s)))))"

definition shard_tensor :: "model_set \<Rightarrow> shard \<Rightarrow> tensor_descriptor \<Rightarrow> bool" where
  "shard_tensor s sh t \<longleftrightarrow> sh \<in> set (ms_shards s) \<and> t \<in> set (tensors (sh_model sh))"

lemma get_descriptor_cases:
  obtains (found) t where "get_descriptor ds name = Ok t" "t \<in> set (tensors (ds_model ds))" "td_name t = name"
    | (unknown) e where "get_descriptor ds name = Err e" "name \<notin> td_name ` set (tensors (ds_model ds))"
proof (cases "find (\<lambda>t. td_name t = name) (tensors (ds_model ds))")
  case None
  then have "get_descriptor ds name = Err (DsTensorNotFound name)" by (simp add: get_descriptor_def)
  with None show ?thesis by (intro unknown) (auto simp: find_None_iff)
next
  case (Some t)
  then have "get_descriptor ds name = Ok t" by (simp add: get_descriptor_def)
  with Some show ?thesis by (intro found) (auto simp: find_Some_iff)
qed

text \<open>
  A tensor whose offset wrapped is refused in a single file, which checks the offset against the start of the data
  (\<open>bounds_iff\<close>). In a split model the subtraction saturates, and the tensor is read from the start of its shard's data.
\<close>

lemma wrapped_offset_moved:
  "file_offset t < data_start \<Longrightarrow> start \<le> U64_MAX \<Longrightarrow> file_offset (remap_descriptor start data_start t) = start"
  by (simp add: remap_descriptor_def Let_def saturating_add_def saturating_sub_def)

text \<open>A tensor of the merged model, its bytes in the virtual range and in its shard's file.\<close>

lemma merged_tensor:
  assumes sound: "set_sound fs s" and addr: "addressable fs s"
    and t': "t' \<in> set (tensors (merged_model s))"
  obtains sh t where "shard_tensor s sh t" "td_name t' = td_name t" "byte_length t' = byte_length t"
    "\<And>n. byte_length t = Some n \<Longrightarrow> readable sh t \<Longrightarrow>
       data_start_offset (merged_model s) \<le> file_offset t' \<and> file_offset t' + n \<le> virtual_size s
       \<and> byte_range (virtual_image fs (shard_layouts s)) (file_offset t') n = byte_range (file_bytes fs (sh_path sh)) (file_offset t) n"
    "\<And>n. byte_length t = Some n \<Longrightarrow> data_start_offset (merged_model s) \<le> file_offset t' \<Longrightarrow> file_offset t' + n \<le> virtual_size s \<Longrightarrow>
       readable sh t \<or> read_from_data_start fs s sh t (byte_range (virtual_image fs (shard_layouts s)) (file_offset t') n)"
proof -
  have ok: "layouts_ok fs 0 (shard_layouts s)" "virtual_size s = length (virtual_image fs (shard_layouts s))"
    using set_layouts [OF sound addr] by simp_all
  have parsed: "file_size (sh_model sh) = length (file_bytes fs (sh_path sh))" if "sh \<in> set (ms_shards s)" for sh
    using sound that shard_file [of fs sh] by (simp add: set_sound_def)
  show ?thesis
  proof (cases "is_sharded s")
    case True
    obtain i t l where i: "i < length (ms_shards s)" and t: "t \<in> set (tensors (sh_model (ms_shards s ! i)))"
      and l_in: "l \<in> set (layouts_from 0 (ms_shards s))"
      and remapped: "t' = remap_descriptor (sl_virtual_start l) (data_start_offset (sh_model (ms_shards s ! i))) t
        \<and> sl_path l = sh_path (ms_shards s ! i) \<and> sl_physical_data_start l = data_start_offset (sh_model (ms_shards s ! i))
        \<and> sl_virtual_end l = sl_virtual_start l + shard_data_length (ms_shards s ! i)
        \<and> sl_virtual_start l = 0 + sum_list (map shard_data_length (take i (ms_shards s)))"
      using remap_tensor [of t' 0 "ms_shards s"] t' True set_data_lengths [OF sound addr] by (auto simp: merged_model_def)
    define sh where sh_def: "sh = ms_shards s ! i"
    have sh: "sh \<in> set (ms_shards s)" "t \<in> set (tensors (sh_model sh))" "l \<in> set (shard_layouts s)"
      using i t l_in True by (simp_all add: sh_def shard_layouts_def)
    have t'_def: "t' = remap_descriptor (sl_virtual_start l) (data_start_offset (sh_model sh)) t"
      and l: "sl_path l = sh_path sh" "sl_physical_data_start l = data_start_offset (sh_model sh)"
        "sl_virtual_end l = sl_virtual_start l + shard_data_length sh"
        "sl_virtual_start l = sum_list (map shard_data_length (take i (ms_shards s)))"
      using remapped by (simp_all add: sh_def)
    have inside: "tensor_inside (file_size (sh_model sh)) t"
      using sound True i sh(2) by (auto simp: set_sound_def shard_placed_def list_all_iff sh_def)
    have stop: "sl_virtual_start l \<le> sl_virtual_end l" "sl_virtual_end l \<le> virtual_size s"
      using layouts_ok_stop [OF ok(1) sh(3)] ok(2) by simp_all
    have small: "virtual_size s \<le> U64_MAX" using layouts_ok_end [OF ok(1)] ok(2) by simp
    let ?off = "sl_virtual_start l + (file_offset t - data_start_offset (sh_model sh))"
    have at: "file_offset t' = ?off \<and> ?off + n \<le> sl_virtual_end l"
      if n: "byte_length t = Some n" and start: "data_start_offset (sh_model sh) \<le> file_offset t" for n
    proof -
      have "file_offset t + n \<le> file_size (sh_model sh)" using inside n by (simp add: tensor_inside_def)
      then show ?thesis using l(3) start stop small
        by (auto simp: t'_def remap_descriptor_def saturating_sub_def saturating_add_def shard_data_length_def Let_def min_def split: if_splits)
    qed
    show ?thesis
    proof (rule that [of sh t])
      show "shard_tensor s sh t" using sh by (simp add: shard_tensor_def)
      show "td_name t' = td_name t" "byte_length t' = byte_length t" by (simp_all add: t'_def remap_descriptor_def Let_def)
    next
      fix n assume n: "byte_length t = Some n" and "readable sh t"
      then have start: "data_start_offset (sh_model sh) \<le> file_offset t" by (simp add: readable_def)
      have "byte_range (virtual_image fs (shard_layouts s)) ?off n = byte_range (file_bytes fs (sh_path sh)) (file_offset t) n"
        using image_range [OF ok(1) sh(3), of ?off n] at [OF n start] start l
        by (cases "n = 0") (auto simp: byte_range_def [of _ _ 0] add.commute)
      then show "data_start_offset (merged_model s) \<le> file_offset t' \<and> file_offset t' + n \<le> virtual_size s
          \<and> byte_range (virtual_image fs (shard_layouts s)) (file_offset t') n = byte_range (file_bytes fs (sh_path sh)) (file_offset t) n"
        using at [OF n start] stop True by (simp add: merged_model_def Let_def)
    next
      fix n assume n: "byte_length t = Some n" and fits: "file_offset t' + n \<le> virtual_size s"
      let ?bytes = "byte_range (virtual_image fs (shard_layouts s)) (file_offset t') n"
      show "readable sh t \<or> read_from_data_start fs s sh t ?bytes"
      proof (cases "data_start_offset (sh_model sh) \<le> file_offset t")
        case True
        then show ?thesis using n inside by (simp add: readable_def tensor_inside_def)
      next
        case False
        have img: "virtual_image fs (shard_layouts s) = concat (map (shard_data fs) (ms_shards s))"
          using image_of_data [of 0 "ms_shards s" fs] set_data_lengths [OF sound addr] parsed True by (simp add: shard_layouts_def)
        have "map length (take i (map (shard_data fs) (ms_shards s))) = map shard_data_length (take i (ms_shards s))"
          using length_shard_data parsed by (auto simp: take_map dest: in_set_takeD)
        moreover have "file_offset t' = sl_virtual_start l"
          using False small stop by (simp add: t'_def wrapped_offset_moved)
        ultimately have "?bytes = take n (concat (map (shard_data fs) (drop i (ms_shards s))))"
          using l(4) concat_range [of "map (shard_data fs) (ms_shards s)" i n] by (simp add: img drop_map)
        moreover have "length ?bytes = n" using fits ok(2) by (intro length_range) simp
        ultimately show ?thesis using False i True by (auto simp: read_from_data_start_def sh_def)
      qed
    qed
  next
    case False
    let ?sh = "ms_shards s ! 0"
    have first: "?sh \<in> set (ms_shards s)" using sound by (auto simp: set_sound_def)
    show ?thesis
    proof (rule that [of ?sh t'])
      show "shard_tensor s ?sh t'" using first t' False by (simp add: shard_tensor_def merged_model_def Let_def)
    next
      fix n assume n: "byte_length t' = Some n"
      have img: "virtual_image fs (shard_layouts s) = file_bytes fs (sh_path ?sh)"
        using parsed [OF first] False by (simp add: shard_layouts_def whole_file_layout_def virtual_image_def layout_bytes_def byte_range_def)
      show "data_start_offset (merged_model s) \<le> file_offset t' \<and> file_offset t' + n \<le> virtual_size s
          \<and> byte_range (virtual_image fs (shard_layouts s)) (file_offset t') n = byte_range (file_bytes fs (sh_path ?sh)) (file_offset t') n"
        if "readable ?sh t'"
        using that n ok(2) img parsed [OF first] False by (simp add: readable_def merged_model_def Let_def)
      show "readable ?sh t' \<or> read_from_data_start fs s ?sh t' (byte_range (virtual_image fs (shard_layouts s)) (file_offset t') n)"
        if "data_start_offset (merged_model s) \<le> file_offset t'" "file_offset t' + n \<le> virtual_size s"
        using that n ok(2) img parsed [OF first] False by (simp add: readable_def merged_model_def Let_def)
    qed simp_all
  qed
qed

lemma bounds_iff:
  "validate_bounds_at off len t ds = Ok () \<longleftrightarrow>
     data_start_offset (ds_model ds) \<le> off \<and> off + len \<le> U64_MAX \<and> off + len \<le> ds_file_size ds"
  by (auto simp: validate_bounds_at_def checked_add_def split: option.split)

lemma bounds_cases:
  obtains "validate_bounds_at off len t ds = Ok ()" | e where "validate_bounds_at off len t ds = Err e"
  using bounds_total [of off len t ds] by (cases "validate_bounds_at off len t ds") auto

lemma profiled_value: "snd (profiled_read name n p) = snd p"
  by (cases p; cases "snd p") (auto simp: profiled_read_def)

text \<open>What \<open>read_tensor_by_descriptor\<close> gives for a tensor of the merged model.\<close>

definition tensor_read_ok :: "operating_system \<Rightarrow> model_set \<Rightarrow> string \<Rightarrow> (byte list, data_source_error) result \<Rightarrow> bool" where
  "tensor_read_ok os s name r \<longleftrightarrow>
     (case r of
        Ok bytes \<Rightarrow> \<exists>sh t. shard_tensor s sh t \<and> td_name t = name \<and> byte_length t = Some (length bytes)
          \<and> (readable sh t \<and> bytes = byte_range (file_bytes (os_files os) (sh_path sh)) (file_offset t) (length bytes)
             \<or> read_from_data_start (os_files os) s sh t bytes)
      | Err e \<Rightarrow> (\<exists>n. os_fails os n) \<or> (\<forall>sh t. shard_tensor s sh t \<longrightarrow> td_name t \<noteq> name)
          \<or> (\<exists>sh t. shard_tensor s sh t \<and> td_name t = name \<and> \<not> (readable sh t \<and> (\<exists>n \<le> ISIZE_MAX. byte_length t = Some n)))
      | Panic m \<Rightarrow> False)"

lemma read_merged_tensor:
  assumes sound: "set_sound (os_files os) s" and addr: "addressable (os_files os) s"
    and ds: "serves os ds" "source_layouts ds = shard_layouts s" "ds_model ds = merged_model s"
    and t': "t' \<in> set (tensors (merged_model s))"
  shows "tensor_read_ok os s (td_name t') (snd (read_tensor_by_descriptor os t' ds))"
proof -
  let ?img = "virtual_image (os_files os) (shard_layouts s)"
  obtain sh t where t: "shard_tensor s sh t" "td_name t' = td_name t" "byte_length t' = byte_length t"
    and there: "\<And>n. byte_length t = Some n \<Longrightarrow> readable sh t \<Longrightarrow>
       data_start_offset (merged_model s) \<le> file_offset t' \<and> file_offset t' + n \<le> virtual_size s
       \<and> byte_range ?img (file_offset t') n = byte_range (file_bytes (os_files os) (sh_path sh)) (file_offset t) n"
    and back_there: "\<And>n. byte_length t = Some n \<Longrightarrow> data_start_offset (merged_model s) \<le> file_offset t' \<Longrightarrow>
       file_offset t' + n \<le> virtual_size s \<Longrightarrow>
       readable sh t \<or> read_from_data_start (os_files os) s sh t (byte_range ?img (file_offset t') n)"
    using merged_tensor [OF sound addr t'] by blast
  have img: "source_image os ds = ?img" "length ?img = virtual_size s" "ds_file_size ds = virtual_size s"
    using ds set_layouts [OF sound addr] by (simp_all add: source_image_def serves_def)
  show ?thesis
  proof (cases "byte_length t")
    case None
    then have "\<not> readable sh t" by (simp add: readable_def)
    then show ?thesis using None t by (auto simp: tensor_read_ok_def read_tensor_by_descriptor_def checked_then_def)
  next
    case (Some n)
    show ?thesis
    proof (cases rule: bounds_cases [of "file_offset t'" n t' ds])
      case 1
      then have inside: "file_offset t' + n \<le> virtual_size s" "data_start_offset (merged_model s) \<le> file_offset t'"
        using ds(3) img by (simp_all add: bounds_iff)
      then have read: "readable sh t \<or> read_from_data_start (os_files os) s sh t (byte_range ?img (file_offset t') n)"
        using back_there [OF Some] by simp
      obtain ds' r where p: "read_range os (file_offset t') n ds = (ds', r)" by fastforce
      have result: "snd (read_tensor_by_descriptor os t' ds) = r"
        using 1 Some t(3) p by (simp add: read_tensor_by_descriptor_def checked_then_def validate_bounds_def profiled_value)
      have reads: "reads os (file_offset t') n (=) ds (ds', r)"
        using read_range_spec [of os ds "file_offset t'" n] ds(1) inside img p by (simp add: serves_def)
      show ?thesis
      proof (cases r)
        case (Ok bytes)
        then have bytes: "bytes = byte_range ?img (file_offset t') n" "length bytes = n"
          using reads img inside by (simp_all add: reads_def length_range)
        have "readable sh t \<and> bytes = byte_range (file_bytes (os_files os) (sh_path sh)) (file_offset t) (length bytes)
            \<or> read_from_data_start (os_files os) s sh t bytes"
          using read there [OF Some] bytes by metis
        then show ?thesis using result Ok t(1,2) Some bytes(2) unfolding tensor_read_ok_def by auto
      next
        case (Err e)
        then have "(\<exists>k. os_fails os k) \<or> ISIZE_MAX < n" using reads img inside by (auto simp: reads_def)
        then show ?thesis using result Err t(1,2) Some unfolding tensor_read_ok_def by fastforce
      qed (use reads in \<open>simp add: reads_def\<close>)
    next
      case (2 e)
      then have "\<not> readable sh t"
        using there [OF Some] ds(3) img bounds_iff [of "file_offset t'" n t' ds] image_end [of os ds] ds(1)
        by (auto simp: serves_def)
      then show ?thesis using 2 Some t
        by (auto simp: tensor_read_ok_def read_tensor_by_descriptor_def checked_then_def validate_bounds_def)
    qed
  qed
qed

lemma merged_names:
  assumes nonempty: "ms_shards s \<noteq> []"
  shows "td_name ` set (tensors (merged_model s)) = {td_name t |sh t. shard_tensor s sh t}"
proof (cases "is_sharded s")
  case True
  have "td_name ` set (remap_from 0 (ms_shards s)) = set (concat (map shard_tensor_names (ms_shards s)))"
    by (simp only: remap_names [symmetric, where start = 0] set_map)
  then show ?thesis using True by (auto simp: merged_model_def shard_tensor_def shard_tensor_names_def)
next
  case False
  then obtain sh where "ms_shards s = [sh]" using nonempty by (cases "ms_shards s") (auto simp: is_sharded_def)
  then show ?thesis using False by (auto simp: merged_model_def shard_tensor_def Let_def)
qed

subsection \<open>Properties\<close>

text \<open>
  C7: A read gives the tensor's bytes of its file. Let a source be opened from a path whose files together have at
  most 2^64 - 1 bytes. Whatever calls were made on it before, with seeks left out and calls of the system
  failing at any moment, \<open>read_tensor\<close> does not panic. When it succeeds, the result is the range of the tensor in
  its own shard's file, whole; the one exception is a tensor of a split model whose offset lies before the data of
  its shard (one that wrapped when the file was parsed), for which it is the bytes from the start of that data. It
  fails only when some call of the system can fail (a seek, a read, or the reservation of the buffer), no tensor has
  that name, or a tensor of that name has no known size, does not lie in its file's data, or is longer than
  \<open>isize::MAX\<close>.
\<close>

theorem opened_source_reads_tensors:
  assumes "discover_model_set (os_files os) p = Ok s" and "open_source os p = Ok ds"
    and "addressable (os_files os) s"
  shows "case snd (read_tensor os name (after_calls os cs ds)) of
      Ok bytes \<Rightarrow> \<exists>sh t. shard_tensor s sh t \<and> td_name t = name \<and> byte_length t = Some (length bytes)
        \<and> (readable sh t \<and> bytes = byte_range (file_bytes (os_files os) (sh_path sh)) (file_offset t) (length bytes)
           \<or> read_from_data_start (os_files os) s sh t bytes)
    | Err e \<Rightarrow> (\<exists>n. os_fails os n) \<or> (\<forall>sh t. shard_tensor s sh t \<longrightarrow> td_name t \<noteq> name)
        \<or> (\<exists>sh t. shard_tensor s sh t \<and> td_name t = name \<and> \<not> (readable sh t \<and> (\<exists>n \<le> ISIZE_MAX. byte_length t = Some n)))
    | Panic m \<Rightarrow> False"
proof -
  have sound: "set_sound (os_files os) s" using discovered_sound [OF assms(1)] .
  let ?ds = "after_calls os cs ds"
  from opened_serves [OF assms(1) sound assms(3,2)] after_calls_serves [of os ds cs]
  have ds: "serves os ?ds" "source_layouts ?ds = shard_layouts s" "ds_model ?ds = merged_model s"
    by (simp_all add: same_source_def)
  have "tensor_read_ok os s name (snd (read_tensor os name ?ds))"
  proof (cases rule: get_descriptor_cases [of ?ds name])
    case (found t)
    then show ?thesis using read_merged_tensor [OF sound assms(3) ds, of t] ds(3) by (simp add: read_tensor_def checked_then_def)
  next
    case (unknown e)
    then have "name \<notin> {td_name t |sh t. shard_tensor s sh t}"
      using merged_names [of s] sound ds(3) by (simp add: set_sound_def)
    then show ?thesis using unknown by (auto simp: read_tensor_def checked_then_def tensor_read_ok_def)
  qed
  then show ?thesis by (simp add: tensor_read_ok_def)
qed

text \<open>A file with one tensor of eight floats, and a system that never fails.\<close>

definition sample_contents :: gguf_contents where "sample_contents = (3, [], [(''w'', [2, 4], 0, 0)])"

definition sample_bytes :: "byte list" where
  "sample_bytes = enc_contents sample_contents @ replicate 31 0 @ replicate 32 7"

definition sample_system :: operating_system where
  "sample_system = \<lparr>os_files = (\<lambda>p. if p = [''m.gguf''] then Some (FileNode sample_bytes) else None),
     os_fails = (\<lambda>_. False), os_stray = (\<lambda>_. 0)\<rparr>"

lemma sample_length: "length (enc_contents sample_contents) = 65"
  by (simp add: sample_contents_def enc_contents_def enc_header_def enc_tensor_def enc_string_def GGUF_MAGIC_def)

lemma sample_parse:
  "parse_gguf_file sample_bytes = Ok (model_of 128 sample_contents 65)
   \<and> tensors (model_of 128 sample_contents 65) = [\<lparr>td_name = ''w'', dimensions = [2, 4], td_type = F32, td_offset = 0,
       file_offset = 96, byte_length = Some 32, num_elements = 8\<rparr>]
   \<and> metadata (model_of 128 sample_contents 65) = [] \<and> file_size (model_of 128 sample_contents 65) = 128
   \<and> data_start_offset (model_of 128 sample_contents 65) = 96"
proof -
  have "valid_contents sample_contents"
    by (simp add: sample_contents_def valid_contents_def valid_header_def valid_string_def valid_tensor_def)
  from contents.dec_enc_rest [OF this, of "replicate 31 0 @ replicate 32 7" 0]
  have "parse_gguf_file sample_bytes = Ok (model_of 128 sample_contents 65)"
    by (simp add: parse_result sample_bytes_def sample_length)
  moreover have "align_offset 65 32 = 96" by (simp add: align_offset_def Let_def wrapping_add_def U64_MAX_def)
  moreover have "ggml_from_u32 0 = F32" by (simp add: ggml_from_u32_def ggml_table_def)
  moreover have "element_count [2, 4] = 8" by (simp add: element_count_def checked_mul_def U64_MAX_def)
  moreover have "tensor_byte_length F32 8 = Some 32" by (simp add: tensor_byte_length_def div_ceil_def checked_mul_def U64_MAX_def)
  ultimately show ?thesis
    by (simp add: model_of_def sample_contents_def Let_def insert_all_def metadata_alignment_def describe_tensor_def wrapping_add_def)
qed

text \<open>After a partial read and a reset of the profile, the tensor is read whole.\<close>

theorem opened_source_reads_tensors_witness:
  "\<exists>ds. open_source sample_system [''m.gguf''] = Ok ds
     \<and> snd (read_tensor sample_system ''w'' (after_calls sample_system [CallRange ''w'' 4 8, CallResetProfile] ds)) = Ok (replicate 32 7)"
proof -
  let ?m = "model_of 128 sample_contents 65"
  let ?s = "\<lparr>ms_path = [''m.gguf''], ms_shards = [\<lparr>sh_path = [''m.gguf''], sh_model = ?m\<rparr>]\<rparr>"
  have length: "length sample_bytes = 128" by (simp add: sample_bytes_def sample_length)
  have node: "os_files sample_system [''m.gguf''] = Some (FileNode sample_bytes)" by (simp add: sample_system_def)
  have found: "discover_model_set (os_files sample_system) [''m.gguf''] = Ok ?s"
    by (simp add: discover_model_set_def discover_from_file_def parse_shard_def node sample_parse split_count_def metadata_u64_def
        get_metadata_def SPLIT_COUNT_KEY_def)
  obtain ds where opened: "open_source sample_system [''m.gguf''] = Ok ds"
    by (simp add: open_source_def found shard_layouts_def is_sharded_def whole_file_layout_def is_file_def node) (simp add: sample_system_def)
  have addr: "addressable (os_files sample_system) ?s"
    by (simp add: addressable_def file_bytes_def node length U64_MAX_def)
  have w: "shard_tensor ?s sh t \<longleftrightarrow> sh = \<lparr>sh_path = [''m.gguf''], sh_model = ?m\<rparr> \<and> t = \<lparr>td_name = ''w'', dimensions = [2, 4],
      td_type = F32, td_offset = 0, file_offset = 96, byte_length = Some 32, num_elements = 8\<rparr>" for sh t
    by (auto simp: shard_tensor_def sample_parse)
  have bytes: "byte_range (file_bytes (os_files sample_system) [''m.gguf'']) 96 32 = replicate 32 7"
    by (simp add: file_bytes_def node byte_range_def sample_bytes_def sample_length)
  have never: "os_fails sample_system = (\<lambda>_. False)" by (simp add: sample_system_def)
  have fits: "(\<forall>n \<le> ISIZE_MAX. n \<noteq> (32 :: nat)) = False" by (auto simp: ISIZE_MAX_def intro!: exI [of _ 32])
  let ?r = "snd (read_tensor sample_system ''w'' (after_calls sample_system [CallRange ''w'' 4 8, CallResetProfile] ds))"
  have "?r = Ok (replicate 32 7)"
    using opened_source_reads_tensors [OF found opened addr, of "''w''" "[CallRange ''w'' 4 8, CallResetProfile]"]
    by (cases ?r) (simp_all add: w readable_def read_from_data_start_def is_sharded_def fits sample_parse never, metis bytes)
  with opened show ?thesis by blast
qed

end
