(* ===== verification/Prediction.thy ===== *)
theory Prediction
  imports Execution_Profile Residency_Inventory
begin

section \<open>Predicted accesses and their history\<close>

text \<open>
  \<open>crates/ramforge-runtime/src/prediction.rs\<close>: the tensors expected in the next execution, ranked from a complete
  execution profile and corrected by the history of earlier predictions, and that history's counters and file.
  The texts of reasons and of errors are left out. Encoding and decoding the history (\<open>serde_json\<close>) and the outcome
  of each file operation are parameters.
\<close>

definition PREDICTION_HISTORY_SCHEMA_VERSION :: nat where "PREDICTION_HISTORY_SCHEMA_VERSION = 2"
definition PREDICTION_HISTORY_KIND :: string where "PREDICTION_HISTORY_KIND = ''ramforge.prediction_history''"
definition MAX_PREDICTION_HISTORY_BYTES :: u64 where "MAX_PREDICTION_HISTORY_BYTES = 16 * 1024 * 1024"
definition MAX_PREDICTION_HISTORY_RECORDS :: usize where "MAX_PREDICTION_HISTORY_RECORDS = 100000"

subsection \<open>Data\<close>

datatype prediction_confidence = HighConfidence | MediumConfidence | LowConfidence

datatype prediction_source = FromProfile | NoSource

record prediction_config =
  pc_enabled :: bool
  pc_min_confidence_bps :: nat
  pc_staging_window :: u64
  pc_speculative_budget :: u64
  pc_max_in_flight :: nat
  pc_lookahead :: usize

definition prediction_config_default :: prediction_config where
  "prediction_config_default =
     \<lparr>pc_enabled = False, pc_min_confidence_bps = 6000, pc_staging_window = 64 * 1024 * 1024,
      pc_speculative_budget = 16 * 1024 * 1024, pc_max_in_flight = 1, pc_lookahead = 64\<rparr>"

datatype prediction_error =
    ConfidenceAbove
  | NoStagingWindow
  | SpeculativeAboveWindow
  | InFlightOutside
  | LookaheadOutside
  | PredictionIo
  | PredictionJson
  | PredictionTooLarge u64 u64
  | PredictionSchema nat
  | PredictionKind string
  | PredictionIdentity
  | TooManyRecords usize

definition validate_prediction_config :: "prediction_config \<Rightarrow> (unit, prediction_error) result" where
  "validate_prediction_config c =
     (if \<not> pc_enabled c then Ok ()
      else if 10000 < pc_min_confidence_bps c then Err ConfidenceAbove
      else if pc_staging_window c = 0 then Err NoStagingWindow
      else if pc_staging_window c < pc_speculative_budget c then Err SpeculativeAboveWindow
      else if pc_max_in_flight c = 0 \<or> 16 < pc_max_in_flight c then Err InFlightOutside
      else if pc_lookahead c = 0 \<or> 4096 < pc_lookahead c then Err LookaheadOutside
      else Ok ())"

record predicted_access =
  pa_key :: resource_key
  pa_name :: string
  pa_order :: usize
  pa_distance :: usize
  pa_confidence_bps :: nat
  pa_confidence :: prediction_confidence
  pa_size :: u64
  pa_known_size :: bool

record prediction_set =
  ps_model_id :: string
  ps_generation :: u64
  ps_source :: prediction_source
  ps_profile_version :: "nat option"
  ps_complete :: u64
  ps_predictions :: "predicted_access list"
  ps_rejected :: "(string, usize) omap"
  ps_high :: usize
  ps_medium :: usize
  ps_low :: usize
  ps_history_valid :: bool
  ps_history_warning :: bool

definition prediction_set_empty :: "string \<Rightarrow> u64 \<Rightarrow> string \<Rightarrow> prediction_set" where
  "prediction_set_empty model generation reason =
     \<lparr>ps_model_id = model, ps_generation = generation, ps_source = NoSource, ps_profile_version = None, ps_complete = 0,
      ps_predictions = [], ps_rejected = om_put reason 1 [], ps_high = 0, ps_medium = 0, ps_low = 0,
      ps_history_valid = False, ps_history_warning = False\<rparr>"

text \<open>\<open>x as u16\<close>.\<close>

definition as_u16 :: "nat \<Rightarrow> nat" where "as_u16 n = n mod 2 ^ 16"

text \<open>Hits of samples in basis points.\<close>

definition rate_bps :: "u64 \<Rightarrow> u64 \<Rightarrow> nat" where
  "rate_bps hits samples = as_u16 (saturating_mul hits 10000 div samples)"

record calibration_counters =
  cc_predictions :: u64
  cc_hits :: u64
  cc_within :: u64

definition zero_counters :: calibration_counters where
  "zero_counters = \<lparr>cc_predictions = 0, cc_hits = 0, cc_within = 0\<rparr>"

definition precision_bps :: "calibration_counters \<Rightarrow> nat option" where
  "precision_bps c = (if 0 < cc_predictions c then Some (rate_bps (cc_hits c) (cc_predictions c)) else None)"

record feedback_record =
  fr_predictions :: u64
  fr_hits :: u64
  fr_misses :: u64
  fr_within :: u64
  fr_staged_requests :: u64
  fr_staged_bytes :: u64
  fr_wasted_bytes :: u64

definition zero_record :: feedback_record where
  "zero_record = \<lparr>fr_predictions = 0, fr_hits = 0, fr_misses = 0, fr_within = 0, fr_staged_requests = 0,
     fr_staged_bytes = 0, fr_wasted_bytes = 0\<rparr>"

record prediction_metrics =
  pm_horizon :: usize
  pm_generated :: usize
  pm_matched :: usize
  pm_matched_within :: usize
  pm_missed :: usize
  pm_observed :: usize
  pm_precision_bps :: "nat option"
  pm_recall_bps :: "nat option"
  pm_false_positive_bps :: "nat option"
  pm_requested_resources :: usize
  pm_requested_bytes :: u64
  pm_accepted_bytes :: u64
  pm_accepted_resources :: "usize option"
  pm_followed :: "usize option"
  pm_not_followed :: "usize option"
  pm_observed_residency :: "usize option"
  pm_benefit_unknown :: "usize option"
  pm_duplicate_avoided :: usize
  pm_rejected :: usize
  pm_deferred :: usize
  pm_mapping_delta :: "int option"
  pm_high :: calibration_counters
  pm_medium :: calibration_counters
  pm_low :: calibration_counters

record prediction_history =
  ph_schema :: nat
  ph_kind :: string
  ph_identity :: profile_identity
  ph_records :: "(string, feedback_record) omap"
  ph_predictions :: u64
  ph_hits :: u64
  ph_misses :: u64
  ph_staged_requests :: u64
  ph_staged_bytes :: u64
  ph_wasted_bytes :: u64
  ph_within :: u64
  ph_requested :: u64
  ph_accepted_bytes :: u64
  ph_accepted_resources :: u64
  ph_followed :: u64
  ph_not_followed :: u64
  ph_benefit_unknown :: u64
  ph_duplicate_avoided :: u64
  ph_rejected :: u64
  ph_deferred :: u64
  ph_high :: calibration_counters
  ph_medium :: calibration_counters
  ph_low :: calibration_counters

definition history_new :: "profile_identity \<Rightarrow> prediction_history" where
  "history_new identity =
     \<lparr>ph_schema = PREDICTION_HISTORY_SCHEMA_VERSION, ph_kind = PREDICTION_HISTORY_KIND, ph_identity = identity,
      ph_records = [], ph_predictions = 0, ph_hits = 0, ph_misses = 0, ph_staged_requests = 0, ph_staged_bytes = 0,
      ph_wasted_bytes = 0, ph_within = 0, ph_requested = 0, ph_accepted_bytes = 0, ph_accepted_resources = 0,
      ph_followed = 0, ph_not_followed = 0, ph_benefit_unknown = 0, ph_duplicate_avoided = 0, ph_rejected = 0,
      ph_deferred = 0, ph_high = zero_counters, ph_medium = zero_counters, ph_low = zero_counters\<rparr>"

definition history_reset :: "prediction_history \<Rightarrow> prediction_history" where
  "history_reset h =
     h\<lparr>ph_records := [], ph_predictions := 0, ph_hits := 0, ph_misses := 0, ph_staged_requests := 0, ph_staged_bytes := 0,
       ph_wasted_bytes := 0, ph_within := 0, ph_requested := 0, ph_accepted_bytes := 0, ph_accepted_resources := 0,
       ph_followed := 0, ph_not_followed := 0, ph_benefit_unknown := 0, ph_duplicate_avoided := 0, ph_rejected := 0,
       ph_deferred := 0, ph_high := zero_counters, ph_medium := zero_counters, ph_low := zero_counters\<rparr>"

text \<open>The sum of hits and misses is unchecked and wraps.\<close>

definition tensor_accuracy_bps :: "prediction_history \<Rightarrow> string \<Rightarrow> u64 \<Rightarrow> nat option" where
  "tensor_accuracy_bps h tensor min_samples =
     Option.bind (om_get (ph_records h) tensor) (\<lambda>r.
       let samples = wrapping_add (fr_hits r) (fr_misses r) in
       if samples < max min_samples 1 then None else Some (rate_bps (fr_hits r) samples))"

definition accuracy_bps :: "prediction_history \<Rightarrow> string \<Rightarrow> nat option" where
  "accuracy_bps h tensor = tensor_accuracy_bps h tensor 1"

definition global_accuracy_bps :: "prediction_history \<Rightarrow> nat option" where
  "global_accuracy_bps h =
     (let samples = wrapping_add (ph_hits h) (ph_misses h) in
      if samples < 10 then None else Some (rate_bps (ph_hits h) samples))"

record history_summary =
  hs_records :: usize
  hs_predictions :: u64
  hs_hits :: u64
  hs_misses :: u64
  hs_staged_requests :: u64
  hs_staged_bytes :: u64
  hs_wasted_bytes :: u64
  hs_accuracy_bps :: "nat option"
  hs_within :: u64
  hs_requested :: u64
  hs_accepted_bytes :: u64
  hs_accepted_resources :: u64
  hs_followed :: u64
  hs_not_followed :: u64
  hs_benefit_unknown :: u64
  hs_duplicate_avoided :: u64
  hs_rejected :: u64
  hs_deferred :: u64
  hs_high_bps :: "nat option"
  hs_medium_bps :: "nat option"
  hs_low_bps :: "nat option"

definition summary_of_history :: "prediction_history \<Rightarrow> history_summary" where
  "summary_of_history h =
     (let samples = saturating_add (ph_hits h) (ph_misses h) in
      \<lparr>hs_records = length (ph_records h), hs_predictions = ph_predictions h, hs_hits = ph_hits h, hs_misses = ph_misses h,
       hs_staged_requests = ph_staged_requests h, hs_staged_bytes = ph_staged_bytes h, hs_wasted_bytes = ph_wasted_bytes h,
       hs_accuracy_bps = (if 0 < samples then Some (rate_bps (ph_hits h) samples) else None),
       hs_within = ph_within h, hs_requested = ph_requested h, hs_accepted_bytes = ph_accepted_bytes h,
       hs_accepted_resources = ph_accepted_resources h, hs_followed = ph_followed h, hs_not_followed = ph_not_followed h,
       hs_benefit_unknown = ph_benefit_unknown h, hs_duplicate_avoided = ph_duplicate_avoided h, hs_rejected = ph_rejected h,
       hs_deferred = ph_deferred h, hs_high_bps = precision_bps (ph_high h), hs_medium_bps = precision_bps (ph_medium h),
       hs_low_bps = precision_bps (ph_low h)\<rparr>)"

subsection \<open>Recording\<close>

definition record_of :: "prediction_history \<Rightarrow> string \<Rightarrow> feedback_record" where
  "record_of h name = (case om_get (ph_records h) name of Some r \<Rightarrow> r | None \<Rightarrow> zero_record)"

fun record_predictions :: "predicted_access list \<Rightarrow> prediction_history \<Rightarrow> prediction_history" where
  "record_predictions [] h = h"
| "record_predictions (p # ps) h =
     (let r = record_of h (pa_name p) in
      record_predictions ps
        (h\<lparr>ph_predictions := saturating_add (ph_predictions h) 1,
           ph_records := om_put (pa_name p) (r\<lparr>fr_predictions := saturating_add (fr_predictions r) 1\<rparr>) (ph_records h)\<rparr>))"

definition add_counters :: "calibration_counters \<Rightarrow> calibration_counters \<Rightarrow> calibration_counters" where
  "add_counters a b =
     \<lparr>cc_predictions = saturating_add (cc_predictions a) (cc_predictions b), cc_hits = saturating_add (cc_hits a) (cc_hits b),
      cc_within = saturating_add (cc_within a) (cc_within b)\<rparr>"

definition or_zero :: "nat option \<Rightarrow> nat" where "or_zero v = (case v of Some n \<Rightarrow> n | None \<Rightarrow> 0)"

definition record_evaluation :: "prediction_metrics \<Rightarrow> prediction_history \<Rightarrow> prediction_history" where
  "record_evaluation m h =
     h\<lparr>ph_within := saturating_add (ph_within h) (pm_matched_within m),
       ph_requested := saturating_add (ph_requested h) (pm_requested_resources m),
       ph_accepted_bytes := saturating_add (ph_accepted_bytes h) (pm_accepted_bytes m),
       ph_accepted_resources := saturating_add (ph_accepted_resources h) (or_zero (pm_accepted_resources m)),
       ph_followed := saturating_add (ph_followed h) (or_zero (pm_followed m)),
       ph_not_followed := saturating_add (ph_not_followed h) (or_zero (pm_not_followed m)),
       ph_benefit_unknown := saturating_add (ph_benefit_unknown h) (or_zero (pm_benefit_unknown m)),
       ph_duplicate_avoided := saturating_add (ph_duplicate_avoided h) (pm_duplicate_avoided m),
       ph_rejected := saturating_add (ph_rejected h) (pm_rejected m),
       ph_deferred := saturating_add (ph_deferred h) (pm_deferred m),
       ph_high := add_counters (ph_high h) (pm_high m), ph_medium := add_counters (ph_medium h) (pm_medium m),
       ph_low := add_counters (ph_low h) (pm_low m)\<rparr>"

text \<open>The hit or miss of one prediction, then its staged bytes.\<close>

definition count_outcome :: "bool \<Rightarrow> string \<Rightarrow> prediction_history \<Rightarrow> prediction_history" where
  "count_outcome hit name h =
     (let r = record_of h name in
      if hit then h\<lparr>ph_records := om_put name (r\<lparr>fr_hits := saturating_add (fr_hits r) 1\<rparr>) (ph_records h),
                    ph_hits := saturating_add (ph_hits h) 1\<rparr>
      else h\<lparr>ph_records := om_put name (r\<lparr>fr_misses := saturating_add (fr_misses r) 1\<rparr>) (ph_records h),
             ph_misses := saturating_add (ph_misses h) 1\<rparr>)"

definition count_staged :: "bool \<Rightarrow> string \<Rightarrow> u64 \<Rightarrow> prediction_history \<Rightarrow> prediction_history" where
  "count_staged hit name bytes h =
     (let r = record_of h name;
          r = r\<lparr>fr_staged_requests := saturating_add (fr_staged_requests r) 1,
                fr_staged_bytes := saturating_add (fr_staged_bytes r) bytes,
                fr_wasted_bytes := (if hit then fr_wasted_bytes r else saturating_add (fr_wasted_bytes r) bytes)\<rparr> in
      h\<lparr>ph_records := om_put name r (ph_records h),
        ph_staged_requests := saturating_add (ph_staged_requests h) 1,
        ph_staged_bytes := saturating_add (ph_staged_bytes h) bytes,
        ph_wasted_bytes := (if hit then ph_wasted_bytes h else saturating_add (ph_wasted_bytes h) bytes)\<rparr>)"

fun record_feedback ::
  "predicted_access list \<Rightarrow> execution_profile \<Rightarrow> (string, u64) omap \<Rightarrow> prediction_history \<Rightarrow> prediction_history"
where
  "record_feedback [] observed staged h = h"
| "record_feedback (p # ps) observed staged h =
     (let hit = om_mem (ep_access observed) (pa_name p);
          h = count_outcome hit (pa_name p) h in
      record_feedback ps observed staged
        (case om_get staged (pa_name p) of None \<Rightarrow> h | Some bytes \<Rightarrow> count_staged hit (pa_name p) bytes h))"

subsection \<open>The history's file\<close>

text \<open>
  The temporary file and the history file, each with its content. \<open>write_error\<close> is what a failed write leaves in the
  temporary file, None when the write works; \<open>removable\<close> says whether a removal works.
\<close>

record 'b history_files =
  hf_temp :: "'b list option"
  hf_target :: "'b list option"

definition discard_temp :: "bool \<Rightarrow> 'b history_files \<Rightarrow> 'b history_files" where
  "discard_temp removable fs = (if removable then fs\<lparr>hf_temp := None\<rparr> else fs)"

definition save_history ::
  "(prediction_history \<Rightarrow> 'b list option) \<Rightarrow> bool \<Rightarrow> 'b list option option \<Rightarrow> bool \<Rightarrow> bool \<Rightarrow> prediction_history \<Rightarrow>
     'b history_files \<Rightarrow> 'b history_files \<times> (unit, prediction_error) result"
where
  "save_history encode parent_exists write_error renamed removable h fs =
     (if MAX_PREDICTION_HISTORY_RECORDS < length (ph_records h) then (fs, Err (TooManyRecords (length (ph_records h))))
      else case encode h of
          None \<Rightarrow> (fs, Err PredictionJson)
        | Some bytes \<Rightarrow>
            if MAX_PREDICTION_HISTORY_BYTES < length bytes
            then (fs, Err (PredictionTooLarge (length bytes) MAX_PREDICTION_HISTORY_BYTES))
            else if \<not> parent_exists then (fs, Err PredictionIo)
            else (case write_error of
                Some partial \<Rightarrow> (discard_temp removable (fs\<lparr>hf_temp := partial\<rparr>), Err PredictionIo)
              | None \<Rightarrow>
                  if renamed then (fs\<lparr>hf_target := Some bytes, hf_temp := None\<rparr>, Ok ())
                  else (discard_temp removable (fs\<lparr>hf_temp := Some bytes\<rparr>), Err PredictionIo)))"

definition history_validate :: "profile_identity \<Rightarrow> prediction_history \<Rightarrow> (unit, prediction_error) result" where
  "history_validate expected h =
     (if ph_schema h \<noteq> 1 \<and> ph_schema h \<noteq> PREDICTION_HISTORY_SCHEMA_VERSION then Err (PredictionSchema (ph_schema h))
      else if ph_kind h \<noteq> PREDICTION_HISTORY_KIND then Err (PredictionKind (ph_kind h))
      else if ph_identity h \<noteq> expected then Err PredictionIdentity
      else if MAX_PREDICTION_HISTORY_RECORDS < length (ph_records h) then Err (TooManyRecords (length (ph_records h)))
      else Ok ())"

text \<open>The size of the file, its bytes, and what they decode to.\<close>

definition load_prediction_history ::
  "u64 option \<Rightarrow> 'b list option \<Rightarrow> ('b list \<Rightarrow> prediction_history option) \<Rightarrow> profile_identity \<Rightarrow> (prediction_history, prediction_error) result"
where
  "load_prediction_history file_length bytes decode expected =
     rbind (ok_or PredictionIo file_length) (\<lambda>n.
       if MAX_PREDICTION_HISTORY_BYTES < n then Err (PredictionTooLarge n MAX_PREDICTION_HISTORY_BYTES)
       else
         rbind (ok_or PredictionIo bytes) (\<lambda>bs.
         rbind (ok_or PredictionJson (decode bs)) (\<lambda>h.
           let h = (if ph_schema h = 1 then h\<lparr>ph_schema := PREDICTION_HISTORY_SCHEMA_VERSION\<rparr> else h) in
           rbind (history_validate expected h) (\<lambda>_. Ok h))))"

subsection \<open>Predicting from a profile\<close>

definition classify :: "nat \<Rightarrow> prediction_confidence" where
  "classify bps = (if 7500 \<le> bps then HighConfidence else if 5000 \<le> bps then MediumConfidence else LowConfidence)"

definition observation_confidence :: "u64 \<Rightarrow> nat" where
  "observation_confidence observations = min (5500 + min observations 4 * 1000) 10000"

definition access_confidence :: "prediction_history option \<Rightarrow> u64 \<Rightarrow> string \<Rightarrow> nat" where
  "access_confidence history observations name =
     (case Option.bind history (\<lambda>h. case tensor_accuracy_bps h name 3 of Some a \<Rightarrow> Some a | None \<Rightarrow> global_accuracy_bps h) of
        Some accuracy \<Rightarrow> as_u16 ((observation_confidence observations * 2 + accuracy) div 3)
      | None \<Rightarrow> observation_confidence observations)"

definition count_rejected :: "string \<Rightarrow> (string, usize) omap \<Rightarrow> (string, usize) omap" where
  "count_rejected reason m = om_put reason ((case om_get m reason of Some n \<Rightarrow> n | None \<Rightarrow> 0) + 1) m"

definition UNKNOWN_NAME :: string where "UNKNOWN_NAME = ''unknown resource name''"
definition AMBIGUOUS_NAME :: string where "AMBIGUOUS_NAME = ''ambiguous resource name''"

definition named_resources :: "resource_inventory \<Rightarrow> string \<Rightarrow> tensor_resource list" where
  "named_resources iv name = filter (\<lambda>r. tr_name r = name) (ri_resources iv)"

definition predicted_of :: "prediction_history option \<Rightarrow> u64 \<Rightarrow> string \<Rightarrow> access_pattern \<Rightarrow> tensor_resource \<Rightarrow> predicted_access" where
  "predicted_of history observations name access r =
     (let confidence = access_confidence history observations name in
      \<lparr>pa_key = tr_key r, pa_name = name, pa_order = last_order access,
       pa_distance = saturating_sub (last_order access) (first_order access), pa_confidence_bps = confidence,
       pa_confidence = classify confidence, pa_size = tr_logical_bytes r, pa_known_size = 0 < tr_logical_bytes r\<rparr>)"

fun collect_predictions ::
  "prediction_history option \<Rightarrow> u64 \<Rightarrow> resource_inventory \<Rightarrow> (string \<times> access_pattern) list \<Rightarrow>
     predicted_access list \<times> (string, usize) omap \<Rightarrow> predicted_access list \<times> (string, usize) omap"
where
  "collect_predictions history observations iv [] st = st"
| "collect_predictions history observations iv ((name, access) # rest) (ps, rejected) =
     collect_predictions history observations iv rest
       (case named_resources iv name of
          [] \<Rightarrow> (ps, count_rejected UNKNOWN_NAME rejected)
        | [r] \<Rightarrow> (ps @ [predicted_of history observations name access r], rejected)
        | _ \<Rightarrow> (ps, count_rejected AMBIGUOUS_NAME rejected))"

text \<open>Higher confidence first, then the earlier last use, the larger tensor, the lower index; the sort is stable.\<close>

definition prediction_rank :: "predicted_access \<Rightarrow> int \<times> nat \<times> int \<times> int" where
  "prediction_rank p = (- int (pa_confidence_bps p), pa_order p, - int (pa_size p), key_tensor_index (pa_key p))"

definition count_confidence :: "prediction_confidence \<Rightarrow> predicted_access list \<Rightarrow> usize" where
  "count_confidence c ps = length (filter (\<lambda>p. pa_confidence p = c) ps)"

text \<open>A history of another generation of the inventory is not used.\<close>

definition usable_history :: "resource_inventory \<Rightarrow> prediction_history option \<Rightarrow> prediction_history option" where
  "usable_history iv history =
     Option.bind history (\<lambda>h. if pi_generation (ph_identity h) = ri_generation iv then Some h else None)"

definition predict_from_profile ::
  "prediction_config \<Rightarrow> execution_profile option \<Rightarrow> resource_inventory \<Rightarrow> prediction_history option \<Rightarrow> prediction_set"
where
  "predict_from_profile c profile iv history =
     (if \<not> pc_enabled c then prediction_set_empty (ri_model_id iv) (ri_generation iv) ''prediction disabled''
      else case profile of
          None \<Rightarrow> prediction_set_empty (ri_model_id iv) (ri_generation iv) ''no compatible profile''
        | Some p \<Rightarrow>
            if \<not> is_valid_for (ri_model_id iv) (ri_generation iv) p
            then prediction_set_empty (ri_model_id iv) (ri_generation iv) ''stale or incomplete profile''
            else
              let used = usable_history iv history;
                  (ps, rejected) = collect_predictions used (ep_complete p) iv (ep_access p) ([], []);
                  chosen = take (pc_lookahead c) (sort_key prediction_rank ps) in
              \<lparr>ps_model_id = ri_model_id iv, ps_generation = ri_generation iv, ps_source = FromProfile,
               ps_profile_version = Some (ep_version p), ps_complete = ep_complete p, ps_predictions = chosen,
               ps_rejected = rejected, ps_high = count_confidence HighConfidence chosen,
               ps_medium = count_confidence MediumConfidence chosen, ps_low = count_confidence LowConfidence chosen,
               ps_history_valid = (used \<noteq> None), ps_history_warning = (history \<noteq> None \<and> used = None)\<rparr>)"

subsection \<open>The counters of a history\<close>

text \<open>The global counters are the saturated sums of the records'.\<close>

definition tallies :: "prediction_history \<Rightarrow> (feedback_record \<Rightarrow> nat) \<Rightarrow> nat \<Rightarrow> bool" where
  "tallies h f n \<longleftrightarrow> n = min U64_MAX (om_total f (ph_records h))"

definition record_ok :: "feedback_record \<Rightarrow> bool" where
  "record_ok r \<longleftrightarrow> fr_predictions r \<le> U64_MAX \<and> fr_hits r \<le> U64_MAX \<and> fr_misses r \<le> U64_MAX \<and> fr_staged_requests r \<le> U64_MAX
     \<and> fr_wasted_bytes r \<le> fr_staged_bytes r \<and> fr_staged_bytes r \<le> U64_MAX \<and> fr_within r = 0"

definition history_ok :: "prediction_history \<Rightarrow> bool" where
  "history_ok h \<longleftrightarrow> om_ok (ph_records h)
     \<and> tallies h fr_predictions (ph_predictions h) \<and> tallies h fr_hits (ph_hits h) \<and> tallies h fr_misses (ph_misses h)
     \<and> tallies h fr_staged_requests (ph_staged_requests h) \<and> tallies h fr_staged_bytes (ph_staged_bytes h)
     \<and> tallies h fr_wasted_bytes (ph_wasted_bytes h)
     \<and> (\<forall>name r. om_get (ph_records h) name = Some r \<longrightarrow> record_ok r)"

lemma tallies_put:
  assumes ok: "om_ok (ph_records h)" and n: "tallies h f n" and zero: "f zero_record = 0"
    and v: "f v = min U64_MAX (f (record_of h name) + b)"
  shows "min U64_MAX (n + b) = min U64_MAX (om_total f (om_put name v (ph_records h)))"
proof -
  let ?o = "f (record_of h name)" and ?t = "om_total f (ph_records h)" and ?t' = "om_total f (om_put name v (ph_records h))"
  have sum: "?t' + ?o = ?t + f v \<and> ?o \<le> ?t"
  proof (cases "om_get (ph_records h) name")
    case None
    then show ?thesis using om_total_put_new [OF None, of f v] zero by (simp add: record_of_def)
  next
    case (Some w)
    then show ?thesis using om_total_put_old [OF ok Some, of f v] om_total_get_le [OF Some, of f] by (simp add: record_of_def)
  qed
  have n': "n = min U64_MAX ?t" using n by (simp add: tallies_def)
  show ?thesis
  proof (cases "?o + b \<le> U64_MAX")
    case True
    then have "?t' = ?t + b" using sum v by simp
    then show ?thesis unfolding n' by (simp add: min_def)
  next
    case False
    then have "U64_MAX \<le> ?t + b" "U64_MAX \<le> ?t'" using sum v by auto
    then show ?thesis unfolding n' by (simp add: min_def)
  qed
qed

lemma saturating_add_min: "saturating_add a b = min U64_MAX (a + b)"
  by (simp add: saturating_add_def min.commute)

lemma record_of_ok: "history_ok h \<Longrightarrow> record_ok (record_of h name)"
  by (auto simp: history_ok_def record_of_def record_ok_def zero_record_def split: option.split)

text \<open>One record replaced, every counter with the global one by the same amount.\<close>

lemma history_ok_put:
  assumes ok: "history_ok h" and v: "record_ok v" and records: "ph_records h' = om_put name v (ph_records h)"
    and predictions: "fr_predictions v = saturating_add (fr_predictions (record_of h name)) a1" "ph_predictions h' = saturating_add (ph_predictions h) a1"
    and hits: "fr_hits v = saturating_add (fr_hits (record_of h name)) a2" "ph_hits h' = saturating_add (ph_hits h) a2"
    and misses: "fr_misses v = saturating_add (fr_misses (record_of h name)) a3" "ph_misses h' = saturating_add (ph_misses h) a3"
    and requests: "fr_staged_requests v = saturating_add (fr_staged_requests (record_of h name)) a4"
      "ph_staged_requests h' = saturating_add (ph_staged_requests h) a4"
    and staged: "fr_staged_bytes v = saturating_add (fr_staged_bytes (record_of h name)) a5" "ph_staged_bytes h' = saturating_add (ph_staged_bytes h) a5"
    and wasted: "fr_wasted_bytes v = saturating_add (fr_wasted_bytes (record_of h name)) a6" "ph_wasted_bytes h' = saturating_add (ph_wasted_bytes h) a6"
  shows "history_ok h'"
proof -
  have map_ok: "om_ok (ph_records h)" using ok by (simp add: history_ok_def)
  have "tallies h' f n'" if "tallies h f n" "f zero_record = 0" "f v = saturating_add (f (record_of h name)) b" "n' = saturating_add n b"
    for f n n' b
    using tallies_put [OF map_ok that(1,2) that(3) [unfolded saturating_add_min]] that(4) records
    by (simp add: tallies_def saturating_add_min)
  then have "tallies h' fr_predictions (ph_predictions h') \<and> tallies h' fr_hits (ph_hits h') \<and> tallies h' fr_misses (ph_misses h')
     \<and> tallies h' fr_staged_requests (ph_staged_requests h') \<and> tallies h' fr_staged_bytes (ph_staged_bytes h')
     \<and> tallies h' fr_wasted_bytes (ph_wasted_bytes h')"
    using ok predictions hits misses requests staged wasted by (simp add: history_ok_def zero_record_def)
  then show ?thesis using ok v records map_ok by (auto simp: history_ok_def split: if_splits)
qed

lemma record_predictions_ok: "history_ok h \<Longrightarrow> history_ok (record_predictions ps h)"
proof (induction ps h rule: record_predictions.induct)
  case (2 p ps h)
  let ?r = "record_of h (pa_name p)"
  have r: "record_ok ?r" by (rule record_of_ok [OF "2.prems"])
  have "history_ok (h\<lparr>ph_predictions := saturating_add (ph_predictions h) 1,
           ph_records := om_put (pa_name p) (?r\<lparr>fr_predictions := saturating_add (fr_predictions ?r) 1\<rparr>) (ph_records h)\<rparr>)"
    by (rule history_ok_put [OF "2.prems", where v = "?r\<lparr>fr_predictions := saturating_add (fr_predictions ?r) 1\<rparr>" and name = "pa_name p"
        and ?a1.0 = 1 and ?a2.0 = 0 and ?a3.0 = 0 and ?a4.0 = 0 and ?a5.0 = 0 and ?a6.0 = 0])
      (use r "2.prems" in \<open>simp_all add: record_ok_def saturating_add_min history_ok_def tallies_def\<close>)
  then show ?case using "2.IH" by (simp add: Let_def)
qed simp

lemma count_outcome_ok: "history_ok h \<Longrightarrow> history_ok (count_outcome hit name h)"
proof -
  assume h: "history_ok h"
  let ?r = "record_of h name"
  have r: "record_ok ?r" by (rule record_of_ok [OF h])
  show ?thesis
  proof (cases hit)
    case True
    show ?thesis
      by (rule history_ok_put [OF h, where v = "?r\<lparr>fr_hits := saturating_add (fr_hits ?r) 1\<rparr>" and name = name
          and ?a1.0 = 0 and ?a2.0 = 1 and ?a3.0 = 0 and ?a4.0 = 0 and ?a5.0 = 0 and ?a6.0 = 0])
        (use r h True in \<open>simp_all add: count_outcome_def Let_def record_ok_def saturating_add_min history_ok_def tallies_def\<close>)
  next
    case False
    show ?thesis
      by (rule history_ok_put [OF h, where v = "?r\<lparr>fr_misses := saturating_add (fr_misses ?r) 1\<rparr>" and name = name
          and ?a1.0 = 0 and ?a2.0 = 0 and ?a3.0 = 1 and ?a4.0 = 0 and ?a5.0 = 0 and ?a6.0 = 0])
        (use r h False in \<open>simp_all add: count_outcome_def Let_def record_ok_def saturating_add_min history_ok_def tallies_def\<close>)
  qed
qed

lemma count_staged_ok: "history_ok h \<Longrightarrow> history_ok (count_staged hit name bytes h)"
proof -
  assume h: "history_ok h"
  let ?r = "record_of h name"
  let ?v = "?r\<lparr>fr_staged_requests := saturating_add (fr_staged_requests ?r) 1, fr_staged_bytes := saturating_add (fr_staged_bytes ?r) bytes,
      fr_wasted_bytes := (if hit then fr_wasted_bytes ?r else saturating_add (fr_wasted_bytes ?r) bytes)\<rparr>"
  have r: "record_ok ?r" by (rule record_of_ok [OF h])
  show ?thesis
    by (rule history_ok_put [OF h, where v = ?v and name = name and ?a1.0 = 0 and ?a2.0 = 0 and ?a3.0 = 0 and ?a4.0 = 1 and ?a5.0 = bytes
        and ?a6.0 = "if hit then 0 else bytes"])
      (use r h in \<open>auto simp: count_staged_def Let_def record_ok_def saturating_add_min history_ok_def tallies_def\<close>)
qed

lemma record_feedback_ok: "history_ok h \<Longrightarrow> history_ok (record_feedback ps observed staged h)"
  by (induction ps observed staged h rule: record_feedback.induct)
    (auto simp: Let_def count_outcome_ok count_staged_ok split: option.split)

text \<open>The calls on a history.\<close>

datatype history_call =
    RecordPredictions "predicted_access list"
  | RecordFeedback "predicted_access list" execution_profile "(string, u64) omap"
  | RecordEvaluation prediction_metrics
  | ResetHistory

fun history_step :: "history_call \<Rightarrow> prediction_history \<Rightarrow> prediction_history" where
  "history_step (RecordPredictions ps) h = record_predictions ps h"
| "history_step (RecordFeedback ps observed staged) h = record_feedback ps observed staged h"
| "history_step (RecordEvaluation m) h = record_evaluation m h"
| "history_step ResetHistory h = history_reset h"

lemma history_new_ok: "history_ok (history_new identity)"
  by (simp add: history_ok_def history_new_def tallies_def)

lemma history_step_ok: "history_ok h \<Longrightarrow> history_ok (history_step c h)"
  by (cases c) (auto simp: record_predictions_ok record_feedback_ok,
    auto simp: history_ok_def tallies_def record_evaluation_def history_reset_def)

lemma history_run_ok: "history_ok h \<Longrightarrow> history_ok (fold history_step calls h)"
  by (induction calls arbitrary: h) (simp_all add: history_step_ok)

text \<open>
  What the calls since the last reset count: the predictions recorded, the fed back predictions that were observed or
  not, the stagings among them with their bytes, and a figure of the evaluations.
\<close>

definition since_reset :: "history_call list \<Rightarrow> history_call list" where
  "since_reset calls = rev (takeWhile (\<lambda>c. c \<noteq> ResetHistory) (rev calls))"

definition tally :: "(history_call \<Rightarrow> nat) \<Rightarrow> history_call list \<Rightarrow> nat" where
  "tally f calls = min U64_MAX (sum_list (map f (since_reset calls)))"

fun recorded :: "history_call \<Rightarrow> nat" where
  "recorded (RecordPredictions ps) = length ps"
| "recorded _ = 0"

fun outcomes :: "bool \<Rightarrow> history_call \<Rightarrow> nat" where
  "outcomes hit (RecordFeedback ps observed staged) =
     length (filter (\<lambda>p. om_mem (ep_access observed) (pa_name p) = hit) ps)"
| "outcomes _ _ = 0"

fun stagings :: "(bool \<Rightarrow> u64 \<Rightarrow> nat) \<Rightarrow> history_call \<Rightarrow> nat" where
  "stagings f (RecordFeedback ps observed staged) =
     sum_list (map (\<lambda>p. case om_get staged (pa_name p) of None \<Rightarrow> 0
       | Some bytes \<Rightarrow> f (om_mem (ep_access observed) (pa_name p)) bytes) ps)"
| "stagings _ _ = 0"

fun evaluated :: "(prediction_metrics \<Rightarrow> nat) \<Rightarrow> history_call \<Rightarrow> nat" where
  "evaluated f (RecordEvaluation m) = f m"
| "evaluated _ _ = 0"

lemma since_reset_snoc:
  "since_reset (calls @ [c]) = (if c = ResetHistory then [] else since_reset calls @ [c])"
  by (simp add: since_reset_def)

lemma min_min_add [simp]: "min m (min m a + b) = min m (a + b)" for m a b :: nat
  by (simp add: min_def)

lemma min_add_min: "min m (c + min m a) = min m (c + a)" "min m (c + (d + min m a)) = min m (c + (d + a))" for m a c d :: nat
  by (simp_all add: min_def)

lemma counter_tally:
  assumes step: "\<And>c h. get h \<le> U64_MAX \<Longrightarrow> get (history_step c h) = (if c = ResetHistory then 0 else min U64_MAX (get h + f c))"
    and new: "get (history_new identity) = 0"
  shows "get (fold history_step calls (history_new identity)) = tally f calls"
proof (induction calls rule: rev_induct)
  case Nil
  then show ?case by (simp add: new tally_def since_reset_def)
next
  case (snoc c calls)
  moreover have "tally f calls \<le> U64_MAX" by (simp add: tally_def)
  ultimately show ?case by (simp add: step tally_def since_reset_snoc)
qed

lemma recorded_predictions:
  "ph_predictions h \<le> U64_MAX \<Longrightarrow> ph_predictions (record_predictions ps h) = min U64_MAX (ph_predictions h + length ps)"
  by (induction ps h rule: record_predictions.induct) (simp_all add: Let_def saturating_add_min)

lemma recorded_feedback:
  assumes outcome: "\<And>hit name h. get h \<le> U64_MAX \<Longrightarrow> get (count_outcome hit name h) = min U64_MAX (get h + a hit)"
    and staged: "\<And>hit name bytes h. get h \<le> U64_MAX \<Longrightarrow> get (count_staged hit name bytes h) = min U64_MAX (get h + b hit bytes)"
  shows "get h \<le> U64_MAX \<Longrightarrow> get (record_feedback ps observed staged_bytes h) = min U64_MAX (get h
    + (sum_list (map (\<lambda>p. a (om_mem (ep_access observed) (pa_name p))) ps) + stagings b (RecordFeedback ps observed staged_bytes)))"
proof (induction ps arbitrary: h)
  case (Cons p ps)
  let ?hit = "om_mem (ep_access observed) (pa_name p)"
  let ?h = "count_outcome ?hit (pa_name p) h"
  have h: "get ?h = min U64_MAX (get h + a ?hit)" using outcome Cons.prems by blast
  show ?case
  proof (cases "om_get staged_bytes (pa_name p)")
    case None
    then show ?thesis using Cons.IH [of ?h] h by (simp add: Let_def ac_simps min_add_min)
  next
    case (Some bytes)
    have "get (count_staged ?hit (pa_name p) bytes ?h) = min U64_MAX (get h + a ?hit + b ?hit bytes)"
      using staged [of ?h ?hit "pa_name p" bytes] h by simp
    then show ?thesis using Some Cons.IH [of "count_staged ?hit (pa_name p) bytes ?h"]
      by (simp add: Let_def ac_simps min_add_min)
  qed
qed simp

lemma sum_outcomes: "sum_list (map (\<lambda>p. if om_mem m (pa_name p) = hit then 1 else 0) ps) =
    length (filter (\<lambda>p. om_mem m (pa_name p) = hit) ps)"
  by (induction ps) simp_all

lemma stagings_zero: "stagings (\<lambda>hit bytes. 0) (RecordFeedback ps observed staged) = 0"
  by (induction ps) (simp_all split: option.split)

text \<open>The counters that predictions and feedback move, and those of the evaluations.\<close>

lemma predictions_keep:
  "ph_hits (record_predictions ps h) = ph_hits h \<and> ph_misses (record_predictions ps h) = ph_misses h
     \<and> ph_staged_requests (record_predictions ps h) = ph_staged_requests h
     \<and> ph_staged_bytes (record_predictions ps h) = ph_staged_bytes h \<and> ph_wasted_bytes (record_predictions ps h) = ph_wasted_bytes h"
  by (induction ps h rule: record_predictions.induct) (simp_all add: Let_def)

lemma feedback_keeps_predictions: "ph_predictions (record_feedback ps observed staged h) = ph_predictions h"
  by (induction ps observed staged h rule: record_feedback.induct)
    (simp_all add: Let_def count_outcome_def count_staged_def split: option.split)

definition evaluation_counters :: "prediction_history \<Rightarrow> nat list" where
  "evaluation_counters h =
     [ph_within h, ph_requested h, ph_accepted_bytes h, ph_accepted_resources h, ph_followed h, ph_not_followed h,
      ph_benefit_unknown h, ph_duplicate_avoided h, ph_rejected h, ph_deferred h,
      cc_predictions (ph_high h), cc_hits (ph_high h), cc_within (ph_high h),
      cc_predictions (ph_medium h), cc_hits (ph_medium h), cc_within (ph_medium h),
      cc_predictions (ph_low h), cc_hits (ph_low h), cc_within (ph_low h)]"

definition evaluation_figures :: "(prediction_metrics \<Rightarrow> nat) list" where
  "evaluation_figures =
     [pm_matched_within, pm_requested_resources, pm_accepted_bytes, or_zero \<circ> pm_accepted_resources, or_zero \<circ> pm_followed,
      or_zero \<circ> pm_not_followed, or_zero \<circ> pm_benefit_unknown, pm_duplicate_avoided, pm_rejected, pm_deferred,
      cc_predictions \<circ> pm_high, cc_hits \<circ> pm_high, cc_within \<circ> pm_high,
      cc_predictions \<circ> pm_medium, cc_hits \<circ> pm_medium, cc_within \<circ> pm_medium,
      cc_predictions \<circ> pm_low, cc_hits \<circ> pm_low, cc_within \<circ> pm_low]"

lemma predictions_keep_evaluation: "evaluation_counters (record_predictions ps h) = evaluation_counters h"
  by (induction ps h rule: record_predictions.induct) (simp_all add: Let_def evaluation_counters_def)

lemma feedback_keeps_evaluation: "evaluation_counters (record_feedback ps observed staged h) = evaluation_counters h"
  by (induction ps observed staged h rule: record_feedback.induct)
    (simp_all add: Let_def count_outcome_def count_staged_def evaluation_counters_def split: option.split)

lemma evaluation_step:
  assumes "i < length evaluation_figures" and "evaluation_counters h ! i \<le> U64_MAX"
  shows "evaluation_counters (history_step c h) ! i =
    (if c = ResetHistory then 0 else min U64_MAX (evaluation_counters h ! i + evaluated (evaluation_figures ! i) c))"
proof (cases c)
  case (RecordEvaluation m)
  have "evaluation_counters (record_evaluation m h) =
      map2 (\<lambda>n f. min U64_MAX (n + f m)) (evaluation_counters h) evaluation_figures"
    by (simp add: evaluation_counters_def evaluation_figures_def record_evaluation_def add_counters_def saturating_add_min)
  moreover have "length (evaluation_counters h) = length evaluation_figures"
    by (simp add: evaluation_counters_def evaluation_figures_def)
  ultimately show ?thesis using assms RecordEvaluation by simp
next
  case ResetHistory
  have "evaluation_counters (history_reset h) = replicate (length evaluation_figures) 0"
    by (simp add: evaluation_counters_def evaluation_figures_def history_reset_def zero_counters_def)
  then show ?thesis using assms ResetHistory by simp
qed (use assms in \<open>simp_all add: predictions_keep_evaluation feedback_keeps_evaluation\<close>)

lemma evaluation_run:
  "evaluation_counters (fold history_step calls (history_new identity)) = map (\<lambda>f. tally (evaluated f) calls) evaluation_figures"
proof (rule nth_equalityI)
  fix i assume "i < length (evaluation_counters (fold history_step calls (history_new identity)))"
  then have i: "i < length evaluation_figures" by (simp add: evaluation_counters_def evaluation_figures_def)
  have "evaluation_counters (history_new identity) = replicate (length evaluation_figures) 0"
    by (simp add: evaluation_counters_def evaluation_figures_def history_new_def zero_counters_def)
  then have "evaluation_counters (history_new identity) ! i = 0" using i by simp
  from counter_tally [where get = "\<lambda>h. evaluation_counters h ! i", OF evaluation_step [OF i] this] i
  show "evaluation_counters (fold history_step calls (history_new identity)) ! i =
      map (\<lambda>f. tally (evaluated f) calls) evaluation_figures ! i" by simp
qed (simp add: evaluation_counters_def evaluation_figures_def)

lemma feedback_run:
  fixes calls :: "history_call list" and identity :: profile_identity
  defines "h \<equiv> fold history_step calls (history_new identity)"
  shows "ph_predictions h = tally recorded calls" "ph_hits h = tally (outcomes True) calls" "ph_misses h = tally (outcomes False) calls"
    "ph_staged_requests h = tally (stagings (\<lambda>hit bytes. 1)) calls" "ph_staged_bytes h = tally (stagings (\<lambda>hit bytes. bytes)) calls"
    "ph_wasted_bytes h = tally (stagings (\<lambda>hit bytes. if hit then 0 else bytes)) calls"
proof -
  note defs = count_outcome_def count_staged_def Let_def saturating_add_min
  have new: "ph_predictions (history_new identity) = 0" "ph_hits (history_new identity) = 0" "ph_misses (history_new identity) = 0"
    "ph_staged_requests (history_new identity) = 0" "ph_staged_bytes (history_new identity) = 0"
    "ph_wasted_bytes (history_new identity) = 0" by (simp_all add: history_new_def)
  show "ph_predictions h = tally recorded calls" unfolding h_def
  proof (rule counter_tally [where get = ph_predictions and f = recorded, OF _ new(1)])
    fix c and h :: prediction_history assume "ph_predictions h \<le> U64_MAX"
    then show "ph_predictions (history_step c h) = (if c = ResetHistory then 0 else min U64_MAX (ph_predictions h + recorded c))"
      by (cases c) (simp_all add: recorded_predictions feedback_keeps_predictions record_evaluation_def history_reset_def)
  qed
  have hits: "ph_hits h' \<le> U64_MAX \<Longrightarrow> ph_hits (record_feedback ps observed staged h') =
      min U64_MAX (ph_hits h' + outcomes True (RecordFeedback ps observed staged))" for ps observed staged h'
    using recorded_feedback [of ph_hits "\<lambda>hit. if hit = True then 1 else 0" "\<lambda>hit bytes. 0" h' ps observed staged] 
    unfolding sum_outcomes stagings_zero by (simp add: defs)
  show "ph_hits h = tally (outcomes True) calls" unfolding h_def
  proof (rule counter_tally [where get = ph_hits and f = "outcomes True", OF _ new(2)])
    fix c and h :: prediction_history assume "ph_hits h \<le> U64_MAX"
    then show "ph_hits (history_step c h) = (if c = ResetHistory then 0 else min U64_MAX (ph_hits h + outcomes True c))"
      using hits by (cases c) (simp_all add: predictions_keep record_evaluation_def history_reset_def)
  qed
  have misses: "ph_misses h' \<le> U64_MAX \<Longrightarrow> ph_misses (record_feedback ps observed staged h') =
      min U64_MAX (ph_misses h' + outcomes False (RecordFeedback ps observed staged))" for ps observed staged h'
    using recorded_feedback [of ph_misses "\<lambda>hit. if hit = False then 1 else 0" "\<lambda>hit bytes. 0" h' ps observed staged] 
    unfolding sum_outcomes stagings_zero by (simp add: defs)
  show "ph_misses h = tally (outcomes False) calls" unfolding h_def
  proof (rule counter_tally [where get = ph_misses and f = "outcomes False", OF _ new(3)])
    fix c and h :: prediction_history assume "ph_misses h \<le> U64_MAX"
    then show "ph_misses (history_step c h) = (if c = ResetHistory then 0 else min U64_MAX (ph_misses h + outcomes False c))"
      using misses by (cases c) (simp_all add: predictions_keep record_evaluation_def history_reset_def)
  qed
  have staged: "get h' \<le> U64_MAX \<Longrightarrow> get (record_feedback ps observed staged h') =
      min U64_MAX (get h' + stagings b (RecordFeedback ps observed staged))"
    if "\<And>hit name h. get (count_outcome hit name h) = get h"
      "\<And>hit name bytes h. get h \<le> U64_MAX \<Longrightarrow> get (count_staged hit name bytes h) = min U64_MAX (get h + b hit bytes)"
    for get b ps observed staged h'
    using recorded_feedback [of get "\<lambda>hit. 0" b h' ps observed staged] that by simp
  have step: "get (fold history_step calls (history_new identity)) = tally (stagings b) calls"
    if outcome: "\<And>hit name h. get (count_outcome hit name h) = get h"
      and one: "\<And>hit name bytes h. get h \<le> U64_MAX \<Longrightarrow> get (count_staged hit name bytes h) = min U64_MAX (get h + b hit bytes)"
      and others: "\<And>ps h. get (record_predictions ps h) = get h" "\<And>m h. get (record_evaluation m h) = get h" 
        "\<And>h. get (history_reset h) = 0" "get (history_new identity) = 0" for get b
  proof (rule counter_tally [where get = get and f = "stagings b", OF _ others(4)])
    fix c and h :: prediction_history assume "get h \<le> U64_MAX"
    then show "get (history_step c h) = (if c = ResetHistory then 0 else min U64_MAX (get h + stagings b c))"
      using staged [of get b, OF outcome one] others by (cases c) simp_all
  qed
  show "ph_staged_requests h = tally (stagings (\<lambda>hit bytes. 1)) calls" unfolding h_def
    by (rule step) (simp_all add: defs predictions_keep record_evaluation_def history_reset_def new)
  show "ph_staged_bytes h = tally (stagings (\<lambda>hit bytes. bytes)) calls" unfolding h_def
    by (rule step) (simp_all add: defs predictions_keep record_evaluation_def history_reset_def new)
  show "ph_wasted_bytes h = tally (stagings (\<lambda>hit bytes. if hit then 0 else bytes)) calls" unfolding h_def
    by (rule step) (simp_all add: defs predictions_keep record_evaluation_def history_reset_def new)
qed

lemma rate_bps_bound: "hits \<le> samples \<Longrightarrow> 0 < samples \<Longrightarrow> rate_bps hits samples \<le> 10000"
proof -
  assume a: "hits \<le> samples" "0 < samples"
  have "saturating_mul hits 10000 \<le> samples * 10000" using a by (simp add: saturating_mul_def min_def)
  then have "saturating_mul hits 10000 div samples \<le> 10000" using a by (metis div_le_mono nonzero_mult_div_cancel_left not_less_zero)
  then show ?thesis unfolding rate_bps_def as_u16_def by (meson le_trans mod_less_eq_dividend)
qed

lemma tensor_accuracy_bound:
  assumes "tensor_accuracy_bps h name k = Some a" and "om_get (ph_records h) name = Some r" and "fr_hits r + fr_misses r \<le> U64_MAX"
  shows "a \<le> 10000"
proof -
  have "\<not> fr_hits r + fr_misses r < max k 1" "a = rate_bps (fr_hits r) (fr_hits r + fr_misses r)"
    using assms by (auto simp: tensor_accuracy_bps_def Let_def wrapping_add_exact split: if_splits)
  then show ?thesis using rate_bps_bound [of "fr_hits r" "fr_hits r + fr_misses r"] by linarith
qed

text \<open>The unchecked sum of a loaded record can wrap; its accuracy is then no rate.\<close>

lemma accuracy_wraps:
  "tensor_accuracy_bps ((history_new identity)\<lparr>ph_records :=
     [(''w'', zero_record\<lparr>fr_hits := U64_MAX, fr_misses := 4\<rparr>)]\<rparr>) ''w'' 3 = Some 21845"
  by (simp add: tensor_accuracy_bps_def history_new_def wrapping_add_def rate_bps_def as_u16_def saturating_mul_def U64_MAX_def)

subsection \<open>What a prediction set holds\<close>

definition candidate :: "prediction_history option \<Rightarrow> u64 \<Rightarrow> resource_inventory \<Rightarrow> string \<times> access_pattern \<Rightarrow> predicted_access list" where
  "candidate history observations iv x =
     (case named_resources iv (fst x) of [r] \<Rightarrow> [predicted_of history observations (fst x) (snd x) r] | _ \<Rightarrow> [])"

lemma collect_predictions_eq:
  "fst (collect_predictions history n iv xs st) = fst st @ concat (map (candidate history n iv) xs)"
proof (induction xs arbitrary: st)
  case (Cons x xs)
  obtain name access ps rejected where x: "x = (name, access)" "st = (ps, rejected)" by (cases x; cases st)
  show ?case using Cons.IH by (simp add: x candidate_def split: list.split)
qed simp

lemma candidate_iff:
  "x \<in> set (candidate h n iv y) \<longleftrightarrow> (\<exists>r. named_resources iv (fst y) = [r] \<and> x = predicted_of h n (fst y) (snd y) r)"
  by (cases "named_resources iv (fst y)") (auto simp: candidate_def split: list.split)

lemma candidate_name: "p \<in> set (candidate history n iv x) \<Longrightarrow> pa_name p = fst x"
  by (auto simp: candidate_def predicted_of_def Let_def split: list.splits)

lemma candidates_distinct: "om_ok xs \<Longrightarrow> distinct (map pa_name (concat (map (candidate history n iv) xs)))"
proof (induction xs)
  case (Cons x xs)
  have "fst x \<notin> pa_name ` set (concat (map (candidate history n iv) xs))"
    using Cons.prems candidate_name [of _ history n iv] by (force simp: om_ok_Cons)
  moreover have "length (candidate history n iv x) \<le> 1" by (simp add: candidate_def split: list.split)
  then have "distinct (map pa_name (candidate history n iv x))"
    by (cases "candidate history n iv x") auto
  ultimately show ?case using Cons candidate_name [of _ history n iv x] by (auto simp: om_ok_Cons)
qed simp

lemma count_confidence_total:
  "count_confidence HighConfidence ps + count_confidence MediumConfidence ps + count_confidence LowConfidence ps = length ps"
proof (induction ps)
  case (Cons p ps)
  then show ?case by (cases "pa_confidence p") (simp_all add: count_confidence_def)
qed (simp add: count_confidence_def)

lemma take_rest_ranked:
  "sorted (map f xs) \<Longrightarrow> x \<in> set xs \<Longrightarrow> x \<notin> set (take n xs) \<Longrightarrow>
     length (take n xs) = n \<and> (\<forall>y \<in> set (take n xs). f y \<le> f x)"
  for f :: "'a \<Rightarrow> 'b :: linorder"
proof -
  assume sorted: "sorted (map f xs)" and x: "x \<in> set xs" "x \<notin> set (take n xs)"
  have "x \<in> set (drop n xs)" using x by (metis Un_iff append_take_drop_id set_append)
  moreover have "sorted (map f (take n xs) @ map f (drop n xs))" using sorted by (simp add: map_append [symmetric] del: map_append)
  moreover have "n < length xs" using \<open>x \<in> set (drop n xs)\<close> by (metis drop_all empty_iff list.set(1) not_le)
  ultimately show ?thesis using x by (auto simp: sorted_append)
qed

text \<open>The rejected names, counted by reason.\<close>

definition rejected_names :: "resource_inventory \<Rightarrow> (string \<times> access_pattern) list \<Rightarrow> (tensor_resource list \<Rightarrow> bool) \<Rightarrow> nat" where
  "rejected_names iv xs P = length (filter (\<lambda>x. P (named_resources iv (fst x))) xs)"

definition counted :: "(string, usize) omap \<Rightarrow> string \<Rightarrow> nat" where
  "counted m k = (case om_get m k of Some n \<Rightarrow> n | None \<Rightarrow> 0)"

lemma counted_rejected: "om_ok m \<Longrightarrow> om_ok (count_rejected k m) \<and> counted (count_rejected k m) j = counted m j + (if j = k then 1 else 0)"
  by (simp add: count_rejected_def counted_def)

lemma names_differ: "UNKNOWN_NAME \<noteq> AMBIGUOUS_NAME"
  by (simp add: UNKNOWN_NAME_def AMBIGUOUS_NAME_def)

lemma collect_rejected:
  "om_ok (snd st) \<Longrightarrow>
     counted (snd (collect_predictions history n iv xs st)) UNKNOWN_NAME = counted (snd st) UNKNOWN_NAME + rejected_names iv xs (\<lambda>rs. rs = [])
   \<and> counted (snd (collect_predictions history n iv xs st)) AMBIGUOUS_NAME =
       counted (snd st) AMBIGUOUS_NAME + rejected_names iv xs (\<lambda>rs. 1 < length rs)"
proof (induction xs arbitrary: st)
  case (Cons x xs)
  obtain name access ps rejected where x: "x = (name, access)" "st = (ps, rejected)" by (cases x; cases st)
  have ok: "om_ok rejected" using Cons.prems by (simp add: x)
  consider (unknown) "named_resources iv name = []" | (one) r where "named_resources iv name = [r]"
    | (several) a b rs where "named_resources iv name = a # b # rs"
    by (cases "named_resources iv name") (auto, metis list.exhaust)
  then show ?case
  proof cases
    case unknown
    then show ?thesis using Cons.IH [of "(ps, count_rejected UNKNOWN_NAME rejected)"] counted_rejected [OF ok] names_differ
      by (simp add: x rejected_names_def)
  next
    case (one r)
    then show ?thesis using Cons.IH [of "(ps @ [predicted_of history n name access r], rejected)"] ok by (simp add: x rejected_names_def)
  next
    case several
    then show ?thesis using Cons.IH [of "(ps, count_rejected AMBIGUOUS_NAME rejected)"] counted_rejected [OF ok] names_differ
      by (simp add: x rejected_names_def)
  qed
qed (simp add: rejected_names_def)

subsection \<open>Properties\<close>

text \<open>
  C18: What a history counts after any sequence of recorded predictions, feedbacks, evaluations and resets on a new
  one. The counters of predictions, hits, misses, staged requests, staged bytes and wasted bytes are the number of
  recorded predictions, of predictions whose tensor was or was not observed, of stagings, and the bytes of all
  stagings and of those that missed, since the last reset, saturated; each is also the saturated sum of the same
  counter of the records. The other counters (within the horizon, requested, accepted, followed, not followed,
  benefit unknown, duplicates, rejected, deferred, and predictions, hits and within the horizon per confidence) are
  the saturated sums of those figures over the evaluations since the last reset; the records take no part in them,
  and the within-horizon counter of a record stays 0. No tensor wasted more bytes than were staged for it; and an
  accuracy is at most 10000 basis points unless the sum of hits and misses wraps.
\<close>

theorem prediction_history_run:
  "let h = fold history_step calls (history_new identity) in
     ph_predictions h = tally recorded calls
     \<and> ph_hits h = tally (outcomes True) calls \<and> ph_misses h = tally (outcomes False) calls
     \<and> ph_staged_requests h = tally (stagings (\<lambda>hit bytes. 1)) calls
     \<and> ph_staged_bytes h = tally (stagings (\<lambda>hit bytes. bytes)) calls
     \<and> ph_wasted_bytes h = tally (stagings (\<lambda>hit bytes. if hit then 0 else bytes)) calls
     \<and> evaluation_counters h = map (\<lambda>f. tally (evaluated f) calls) evaluation_figures
     \<and> ph_predictions h = min U64_MAX (om_total fr_predictions (ph_records h))
     \<and> ph_hits h = min U64_MAX (om_total fr_hits (ph_records h)) \<and> ph_misses h = min U64_MAX (om_total fr_misses (ph_records h))
     \<and> ph_staged_requests h = min U64_MAX (om_total fr_staged_requests (ph_records h))
     \<and> ph_staged_bytes h = min U64_MAX (om_total fr_staged_bytes (ph_records h))
     \<and> ph_wasted_bytes h = min U64_MAX (om_total fr_wasted_bytes (ph_records h))
     \<and> ph_wasted_bytes h \<le> ph_staged_bytes h
     \<and> (case om_get (ph_records h) name of
          None \<Rightarrow> tensor_accuracy_bps h name k = None
        | Some r \<Rightarrow> fr_wasted_bytes r \<le> fr_staged_bytes r \<and> fr_within r = 0
            \<and> (case tensor_accuracy_bps h name k of None \<Rightarrow> True | Some a \<Rightarrow> a \<le> 10000 \<or> U64_MAX < fr_hits r + fr_misses r))"
proof -
  let ?h = "fold history_step calls (history_new identity)"
  have ok: "history_ok ?h" by (rule history_run_ok [OF history_new_ok])
  have "om_total fr_wasted_bytes m \<le> om_total fr_staged_bytes m"
    if "\<forall>x \<in> set m. fr_wasted_bytes (snd x) \<le> fr_staged_bytes (snd x)" for m :: "(string, feedback_record) omap"
    using that by (induction m) (auto simp: add_mono)
  moreover have "\<forall>x \<in> set (ph_records ?h). fr_wasted_bytes (snd x) \<le> fr_staged_bytes (snd x)"
    using ok om_get_in_set [of "ph_records ?h"] by (auto simp: history_ok_def record_ok_def)
  ultimately have "om_total fr_wasted_bytes (ph_records ?h) \<le> om_total fr_staged_bytes (ph_records ?h)" by blast
  then have "ph_wasted_bytes ?h \<le> ph_staged_bytes ?h" using ok by (auto simp: history_ok_def tallies_def min_def)
  moreover have "case om_get (ph_records ?h) name of
          None \<Rightarrow> tensor_accuracy_bps ?h name k = None
        | Some r \<Rightarrow> fr_wasted_bytes r \<le> fr_staged_bytes r \<and> fr_within r = 0
            \<and> (case tensor_accuracy_bps ?h name k of None \<Rightarrow> True | Some a \<Rightarrow> a \<le> 10000 \<or> U64_MAX < fr_hits r + fr_misses r)"
  proof (cases "om_get (ph_records ?h) name")
    case None
    then show ?thesis by (simp add: tensor_accuracy_bps_def)
  next
    case (Some r)
    have "record_ok r" using ok Some by (auto simp: history_ok_def)
    then show ?thesis using Some tensor_accuracy_bound [of ?h name k _ r]
      by (auto simp: record_ok_def not_less split: option.split)
  qed
  ultimately show ?thesis
    using ok feedback_run [of calls identity] evaluation_run [of calls identity]
    unfolding Let_def history_ok_def tallies_def by blast
qed

text \<open>
  The prediction set of a valid profile. It is ranked and at most \<open>lookahead\<close> long; each entry is a name observed
  in the profile that exactly one resource of the inventory has, with that resource's key and size, and no name
  occurs twice. Every such name is in the set, or the set is full and all of it ranks at least as high; the
  others are counted as unknown or ambiguous.
\<close>

theorem predict_from_profile_ranked:
  assumes "pc_enabled c" and "is_valid_for (ri_model_id iv) (ri_generation iv) p" and "om_ok (ep_access p)"
    and "s = predict_from_profile c (Some p) iv history"
  shows "sorted (map prediction_rank (ps_predictions s)) \<and> length (ps_predictions s) \<le> pc_lookahead c
    \<and> distinct (map pa_name (ps_predictions s))
    \<and> (\<forall>x \<in> set (ps_predictions s). \<exists>r a. named_resources iv (pa_name x) = [r] \<and> om_get (ep_access p) (pa_name x) = Some a
         \<and> pa_key x = tr_key r \<and> pa_size x = tr_logical_bytes r \<and> pa_order x = last_order a)
    \<and> (\<forall>name r a. named_resources iv name = [r] \<longrightarrow> om_get (ep_access p) name = Some a \<longrightarrow>
         (let x = predicted_of (usable_history iv history) (ep_complete p) name a r in
            x \<in> set (ps_predictions s)
            \<or> length (ps_predictions s) = pc_lookahead c \<and> (\<forall>y \<in> set (ps_predictions s). prediction_rank y \<le> prediction_rank x)))
    \<and> ps_high s + ps_medium s + ps_low s = length (ps_predictions s)
    \<and> counted (ps_rejected s) UNKNOWN_NAME = rejected_names iv (ep_access p) (\<lambda>rs. rs = [])
    \<and> counted (ps_rejected s) AMBIGUOUS_NAME = rejected_names iv (ep_access p) (\<lambda>rs. 1 < length rs)"
proof -
  let ?h = "usable_history iv history"
  let ?all = "concat (map (candidate ?h (ep_complete p) iv) (ep_access p))"
  have s: "ps_predictions s = take (pc_lookahead c) (sort_key prediction_rank ?all)"
    "ps_rejected s = snd (collect_predictions ?h (ep_complete p) iv (ep_access p) ([], []))"
    "ps_high s = count_confidence HighConfidence (ps_predictions s)" "ps_medium s = count_confidence MediumConfidence (ps_predictions s)"
    "ps_low s = count_confidence LowConfidence (ps_predictions s)"
    using assms(1,2,4) collect_predictions_eq [of ?h "ep_complete p" iv "ep_access p" "([], [])"]
    by (simp_all add: predict_from_profile_def Let_def case_prod_beta)
  have sorted: "sorted (map prediction_rank (sort_key prediction_rank ?all))" by simp
  have "distinct (map pa_name (sort_key prediction_rank ?all))"
    using candidates_distinct [OF assms(3), of ?h "ep_complete p" iv] by (simp add: distinct_map)
  then have distinct: "distinct (map pa_name (ps_predictions s))" unfolding s(1) take_map [symmetric] by (rule distinct_take)
  have sound: "\<exists>r a. named_resources iv (pa_name x) = [r] \<and> om_get (ep_access p) (pa_name x) = Some a
         \<and> pa_key x = tr_key r \<and> pa_size x = tr_logical_bytes r \<and> pa_order x = last_order a"
    if "x \<in> set (ps_predictions s)" for x
  proof -
    from that have "x \<in> set ?all" using set_take_subset [of "pc_lookahead c" "sort_key prediction_rank ?all"] by (auto simp: s(1))
    then obtain name a where "(name, a) \<in> set (ep_access p)" "x \<in> set (candidate ?h (ep_complete p) iv (name, a))" by auto
    then show ?thesis using om_get_in_set [OF assms(3)]
      by (auto simp: candidate_iff predicted_of_def Let_def)
  qed
  have complete: "let x = predicted_of ?h (ep_complete p) name a r in x \<in> set (ps_predictions s)
            \<or> length (ps_predictions s) = pc_lookahead c \<and> (\<forall>y \<in> set (ps_predictions s). prediction_rank y \<le> prediction_rank x)"
    if "named_resources iv name = [r]" "om_get (ep_access p) name = Some a" for name r a
  proof -
    let ?x = "predicted_of ?h (ep_complete p) name a r"
    have "?x \<in> set (candidate ?h (ep_complete p) iv (name, a))" using that by (simp add: candidate_def)
    then have "?x \<in> set (sort_key prediction_rank ?all)" using that(2) om_get_in_set [OF assms(3), of name a] by force
    from take_rest_ranked [OF sorted this, of "pc_lookahead c"] show ?thesis unfolding Let_def s(1) by blast
  qed
  have "sorted (map prediction_rank (ps_predictions s))" "length (ps_predictions s) \<le> pc_lookahead c"
    unfolding s(1) take_map [symmetric] using sorted by (simp_all add: sorted_wrt_take)
  moreover have "counted (ps_rejected s) UNKNOWN_NAME = rejected_names iv (ep_access p) (\<lambda>rs. rs = [])
      \<and> counted (ps_rejected s) AMBIGUOUS_NAME = rejected_names iv (ep_access p) (\<lambda>rs. 1 < length rs)"
    using collect_rejected [of "([], [])" ?h "ep_complete p" iv "ep_access p"] unfolding s(2) by (simp add: counted_def)
  moreover have "ps_high s + ps_medium s + ps_low s = length (ps_predictions s)" unfolding s(3-5) by (rule count_confidence_total)
  ultimately show ?thesis using distinct sound complete by blast
qed

definition example_resource :: "string \<Rightarrow> int \<Rightarrow> tensor_resource" where
  "example_resource name i = describe_mapping 7 i ((example_mapping 0 4096)\<lparr>tm_name := name\<rparr>)"

definition example_inventory :: resource_inventory where
  "example_inventory = \<lparr>ri_model_id = ''m'', ri_generation = 7, ri_native_model_instance = None, ri_native_contract_version = None,
     ri_resources = [example_resource ''a'' 0, example_resource ''b'' 1], ri_by_index = [(0, 0), (1, 1)], ri_summary = summary_default\<rparr>"

theorem predict_from_profile_ranked_witness:
  "let p = (profile_new ''m'' 7)\<lparr>ep_complete := 1, ep_access := [(''a'', access_of_consumers [3]), (''z'', access_of_consumers [1])]\<rparr>;
       s = predict_from_profile (prediction_config_default\<lparr>pc_enabled := True\<rparr>) (Some p) example_inventory None in
     ps_high s + ps_medium s + ps_low s = length (ps_predictions s)
     \<and> counted (ps_rejected s) UNKNOWN_NAME = rejected_names example_inventory (ep_access p) (\<lambda>rs. rs = [])"
  unfolding Let_def
  using predict_from_profile_ranked [of "prediction_config_default\<lparr>pc_enabled := True\<rparr>" example_inventory
      "(profile_new ''m'' 7)\<lparr>ep_complete := 1, ep_access := [(''a'', access_of_consumers [3]), (''z'', access_of_consumers [1])]\<rparr>" _ None, OF _ _ _ refl]
  by (simp add: is_valid_for_def profile_new_def example_inventory_def om_ok_def less_char_def)

text \<open>
  Saving a history is atomic: its file holds the whole encoding when \<open>save\<close> succeeds and is untouched when it fails, and
  no temporary file stays unless a removal fails. What was saved is loaded again unchanged, when decoding undoes the encoding.
\<close>

theorem saved_history_loads:
  assumes "save_history encode parent_exists write_error renamed True (fold history_step calls (history_new identity)) fs = (fs', r)"
    and "hf_temp fs = None"
    and "\<And>bs. encode (fold history_step calls (history_new identity)) = Some bs \<Longrightarrow>
           decode bs = Some (fold history_step calls (history_new identity))"
  shows "hf_temp fs' = None
    \<and> (case r of
         Ok u \<Rightarrow> \<exists>bs. hf_target fs' = Some bs
           \<and> load_prediction_history (Some (length bs)) (hf_target fs') decode identity = Ok (fold history_step calls (history_new identity))
       | Err e \<Rightarrow> hf_target fs' = hf_target fs
       | Panic m \<Rightarrow> False)"
proof -
  let ?h = "fold history_step calls (history_new identity)"
  have feedback: "ph_schema (record_feedback ps observed staged h) = ph_schema h \<and> ph_kind (record_feedback ps observed staged h) = ph_kind h
      \<and> ph_identity (record_feedback ps observed staged h) = ph_identity h" for ps observed staged h
    by (induction ps observed staged h rule: record_feedback.induct)
      (simp_all add: Let_def count_outcome_def count_staged_def split: option.split)
  have predictions: "ph_schema (record_predictions ps h) = ph_schema h \<and> ph_kind (record_predictions ps h) = ph_kind h
      \<and> ph_identity (record_predictions ps h) = ph_identity h" for ps h
    by (induction ps h rule: record_predictions.induct) (simp_all add: Let_def)
  have step: "ph_schema (history_step c h) = ph_schema h \<and> ph_kind (history_step c h) = ph_kind h
      \<and> ph_identity (history_step c h) = ph_identity h" for c h
    by (cases c) (simp_all add: feedback predictions record_evaluation_def history_reset_def)
  have "ph_schema (fold history_step calls h) = ph_schema h \<and> ph_kind (fold history_step calls h) = ph_kind h
      \<and> ph_identity (fold history_step calls h) = ph_identity h" for h
    by (induction calls arbitrary: h) (simp_all add: step)
  then have "ph_schema ?h = 2 \<and> ph_kind ?h = PREDICTION_HISTORY_KIND \<and> ph_identity ?h = identity"
    by (simp add: history_new_def PREDICTION_HISTORY_SCHEMA_VERSION_def)
  then show ?thesis using assms
    by (auto simp: save_history_def discard_temp_def load_prediction_history_def history_validate_def PREDICTION_HISTORY_SCHEMA_VERSION_def
        split: if_splits option.splits)
qed

theorem saved_history_loads_witness:
  "\<exists>fs'. save_history (\<lambda>h. Some [()]) True None True True (fold history_step [] (history_new example_identity)) \<lparr>hf_temp = None, hf_target = None\<rparr> = (fs', Ok ())
     \<and> load_prediction_history (Some 1) (hf_target fs') (\<lambda>bs. Some (history_new example_identity)) example_identity = Ok (history_new example_identity)"
proof -
  obtain fs' where "save_history (\<lambda>h. Some [()]) True None True True (fold history_step [] (history_new example_identity))
      \<lparr>hf_temp = None, hf_target = None\<rparr> = (fs', Ok ())" "hf_target fs' = Some [()]"
    by (simp add: save_history_def history_new_def MAX_PREDICTION_HISTORY_RECORDS_def MAX_PREDICTION_HISTORY_BYTES_def)
  with saved_history_loads [of "\<lambda>h. Some [()]" True None True "[]" example_identity "\<lparr>hf_temp = None, hf_target = None\<rparr>" fs' "Ok ()"
      "\<lambda>bs. Some (history_new example_identity)"] show ?thesis by auto
qed

end
