(* ===== verification/Prediction_Planner.thy ===== *)
theory Prediction_Planner
  imports Prediction Residency_Staging
begin

section \<open>Planning and evaluating predictions\<close>

text \<open>
  \<open>crates/ramforge-runtime/src/prediction_planner.rs\<close>: which predicted tensors are staged or prefetched, within the byte
  budgets and with shared pages counted once; one call of the native prefetch; and the comparison of predictions
  with a later execution. The texts of notes and details and the elapsed time are left out. Interval lists are those
  of \<open>Page_Intervals\<close>: the code repeats the two functions of \<open>residency_engine.rs\<close>.
\<close>

subsection \<open>Plans\<close>

datatype predictive_action =
    KeepResident | StageNow | Prefetch | Defer | AvoidSpeculative | RejectPrediction | ReleaseAtBoundary

datatype predictive_reason =
    HighConfidenceImminent | MediumConfidenceSpeculative | InsufficientConfidence | InsufficientBudget | UnknownSize
  | NotFileBacked | PredictionDisabled | AdmissionRejected | DuplicateRequest | SharedPageDeduplicated | StagingDisabled
  | NativeLifetimeUnsafe | ReleaseNotAuthorized

record predictive_decision =
  pd_key :: "resource_key option"
  pd_name :: string
  pd_action :: predictive_action
  pd_reason :: predictive_reason
  pd_confidence_bps :: nat
  pd_order :: usize
  pd_requested :: u64

record prediction_plan =
  pp_decisions :: "predictive_decision list"
  pp_stage_keys :: "resource_key list"
  pp_prefetch_keys :: "resource_key list"
  pp_deferred :: usize
  pp_rejected :: usize
  pp_stage_bytes :: u64
  pp_prefetch_bytes :: u64
  pp_bytes_by_name :: "(string, u64) omap"
  pp_release_authorized :: bool

definition plan_default :: prediction_plan where
  "plan_default = \<lparr>pp_decisions = [], pp_stage_keys = [], pp_prefetch_keys = [], pp_deferred = 0, pp_rejected = 0,
     pp_stage_bytes = 0, pp_prefetch_bytes = 0, pp_bytes_by_name = [], pp_release_authorized = False\<rparr>"

definition selected_keys :: "prediction_plan \<Rightarrow> resource_key list" where
  "selected_keys q = pp_stage_keys q @ pp_prefetch_keys q"

definition stage_indices :: "prediction_plan \<Rightarrow> int list" where
  "stage_indices q = map key_tensor_index (selected_keys q)"

definition plan_requested_bytes :: "prediction_plan \<Rightarrow> u64" where
  "plan_requested_bytes q = saturating_add (pp_stage_bytes q) (pp_prefetch_bytes q)"

definition decision_of :: "predictive_action \<Rightarrow> predictive_reason \<Rightarrow> predicted_access \<Rightarrow> predictive_decision" where
  "decision_of action reason p =
     \<lparr>pd_key = Some (pa_key p), pd_name = pa_name p, pd_action = action, pd_reason = reason,
      pd_confidence_bps = pa_confidence_bps p, pd_order = pa_order p, pd_requested = pa_size p\<rparr>"

definition ranges_in :: "(nat, interval list) omap \<Rightarrow> nat \<Rightarrow> interval list" where
  "ranges_in ranges i = (case om_get ranges i of None \<Rightarrow> [] | Some rs \<Rightarrow> rs)"

definition unique_page_bytes :: "(nat, interval list) omap \<Rightarrow> tensor_resource \<Rightarrow> u64" where
  "unique_page_bytes ranges r =
     (case tr_mapping_index r of
        None \<Rightarrow> 0
      | Some i \<Rightarrow> saturating_sub (tr_page_bytes r) (covered_bytes (ranges_in ranges i) (tr_page_start r) (tr_page_end r)))"

definition insert_resource_range :: "tensor_resource \<Rightarrow> (nat, interval list) omap \<Rightarrow> (nat, interval list) omap" where
  "insert_resource_range r ranges =
     (case tr_mapping_index r of
        None \<Rightarrow> ranges
      | Some i \<Rightarrow> om_put i (insert_interval (ranges_in ranges i) (tr_page_start r) (tr_page_end r)) ranges)"

text \<open>The state of the loop: the plan with the bytes so far, the keys seen, the page ranges requested.\<close>

record planning =
  pl_plan :: prediction_plan
  pl_seen :: "resource_key list"
  pl_ranges :: "(nat, interval list) omap"

definition decide :: "predictive_action \<Rightarrow> predictive_reason \<Rightarrow> predicted_access \<Rightarrow> planning \<Rightarrow> planning" where
  "decide action reason p st =
     st\<lparr>pl_plan := (pl_plan st)\<lparr>pp_decisions := pp_decisions (pl_plan st) @ [decision_of action reason p]\<rparr>\<rparr>"

definition reject :: "planning \<Rightarrow> planning" where
  "reject st = st\<lparr>pl_plan := (pl_plan st)\<lparr>pp_rejected := pp_rejected (pl_plan st) + 1\<rparr>\<rparr>"

definition defer_one :: "planning \<Rightarrow> planning" where
  "defer_one st = st\<lparr>pl_plan := (pl_plan st)\<lparr>pp_deferred := pp_deferred (pl_plan st) + 1\<rparr>\<rparr>"

definition select_stage :: "predicted_access \<Rightarrow> tensor_resource \<Rightarrow> u64 \<Rightarrow> planning \<Rightarrow> planning" where
  "select_stage p r unique st =
     (let plan = pl_plan st in
      st\<lparr>pl_ranges := insert_resource_range r (pl_ranges st),
         pl_plan := plan\<lparr>pp_stage_bytes := saturating_add (pp_stage_bytes plan) unique,
           pp_stage_keys := pp_stage_keys plan @ [pa_key p],
           pp_bytes_by_name := om_put (pa_name p) unique (pp_bytes_by_name plan)\<rparr>\<rparr>)"

definition select_prefetch :: "predicted_access \<Rightarrow> tensor_resource \<Rightarrow> u64 \<Rightarrow> planning \<Rightarrow> planning" where
  "select_prefetch p r unique st =
     (let plan = pl_plan st in
      st\<lparr>pl_ranges := insert_resource_range r (pl_ranges st),
         pl_plan := plan\<lparr>pp_prefetch_bytes := saturating_add (pp_prefetch_bytes plan) unique,
           pp_prefetch_keys := pp_prefetch_keys plan @ [pa_key p],
           pp_bytes_by_name := om_put (pa_name p) unique (pp_bytes_by_name plan)\<rparr>\<rparr>)"

text \<open>The choice for a confident prediction of a file-backed resource with \<open>unique\<close> new bytes.\<close>

definition plan_unique :: "u64 \<Rightarrow> u64 \<Rightarrow> predicted_access \<Rightarrow> tensor_resource \<Rightarrow> u64 \<Rightarrow> planning \<Rightarrow> planning" where
  "plan_unique stage_budget speculative_budget p r unique st =
     (if unique = 0 then defer_one (decide Defer SharedPageDeduplicated p st)
      else if pa_confidence p = HighConfidence \<and> saturating_add (pp_stage_bytes (pl_plan st)) unique \<le> stage_budget
      then decide StageNow HighConfidenceImminent p (select_stage p r unique st)
      else if pa_confidence p = MediumConfidence \<and> saturating_add (pp_prefetch_bytes (pl_plan st)) unique \<le> speculative_budget
      then decide Prefetch MediumConfidenceSpeculative p (select_prefetch p r unique st)
      else if pa_confidence p = HighConfidence then defer_one (decide Defer InsufficientBudget p st)
      else if pa_confidence p = LowConfidence then reject (decide AvoidSpeculative InsufficientConfidence p st)
      else defer_one (decide Defer InsufficientBudget p st))"

definition plan_one ::
  "prediction_config \<Rightarrow> resource_inventory \<Rightarrow> u64 \<Rightarrow> u64 \<Rightarrow> predicted_access \<Rightarrow> planning \<Rightarrow> planning"
where
  "plan_one c iv stage_budget speculative_budget p st =
     (case inventory_get iv (pa_key p) of
        None \<Rightarrow> reject (decide RejectPrediction NotFileBacked p st)
      | Some r \<Rightarrow>
          if \<not> tr_file_backed r then reject (decide RejectPrediction NotFileBacked p st)
          else if \<not> pa_known_size p \<or> tr_page_bytes r = 0 then reject (decide RejectPrediction UnknownSize p st)
          else if pa_key p \<in> set (pl_seen st) then defer_one (decide Defer DuplicateRequest p st)
          else
            let st = st\<lparr>pl_seen := pa_key p # pl_seen st\<rparr> in
            if pa_confidence_bps p < pc_min_confidence_bps c then reject (decide AvoidSpeculative InsufficientConfidence p st)
            else plan_unique stage_budget speculative_budget p r (unique_page_bytes (pl_ranges st) r) st)"

text \<open>The budgets: an observed use counts against the hard limit.\<close>

definition stage_budget :: "prediction_config \<Rightarrow> u64 option \<Rightarrow> u64 option \<Rightarrow> u64 \<Rightarrow> u64" where
  "stage_budget c current hard safety =
     min (pc_staging_window c)
       (case (hard, current) of
          (Some h, Some used_bytes) \<Rightarrow> saturating_sub (saturating_sub h used_bytes) safety
        | _ \<Rightarrow> pc_staging_window c)"

definition speculative_budget :: "prediction_config \<Rightarrow> u64 option \<Rightarrow> u64 option \<Rightarrow> u64 \<Rightarrow> u64" where
  "speculative_budget c current hard safety = min (pc_speculative_budget c) (stage_budget c current hard safety)"

definition planning_start :: planning where
  "planning_start = \<lparr>pl_plan = plan_default, pl_seen = [], pl_ranges = []\<rparr>"

definition plan_predictions ::
  "prediction_config \<Rightarrow> prediction_set \<Rightarrow> resource_inventory \<Rightarrow> u64 option \<Rightarrow> u64 option \<Rightarrow> u64 \<Rightarrow> bool \<Rightarrow> prediction_plan"
where
  "plan_predictions c s iv current hard safety admission_rejected =
     (if \<not> pc_enabled c
      then plan_default\<lparr>pp_decisions := map (decision_of AvoidSpeculative PredictionDisabled) (ps_predictions s)\<rparr>
      else if admission_rejected
      then plan_default\<lparr>pp_decisions := map (decision_of RejectPrediction AdmissionRejected) (ps_predictions s),
          pp_rejected := length (ps_predictions s)\<rparr>
      else pl_plan (fold (plan_one c iv (stage_budget c current hard safety) (speculative_budget c current hard safety))
          (ps_predictions s) planning_start))"

subsection \<open>Execution\<close>

record staging_execution =
  se_attempted :: "resource_key list"
  se_requested :: u64
  se_accepted :: u64
  se_operations :: usize
  se_max_in_flight :: nat
  se_error :: "string option"
  se_cancelled :: bool
  se_mapping_before :: "u64 option"
  se_mapping_after :: "u64 option"

definition observed_mapping_delta :: "staging_execution \<Rightarrow> int option" where
  "observed_mapping_delta e =
     (case (se_mapping_before e, se_mapping_after e) of (Some b, Some a) \<Rightarrow> Some (int a - int b) | _ \<Rightarrow> None)"

text \<open>The native prefetch is called at most once; the indices it got, if any, are part of the result here.\<close>

definition execute_staging ::
  "prediction_config \<Rightarrow> prediction_plan \<Rightarrow> (int list \<Rightarrow> string + u64) \<Rightarrow> int list option \<times> staging_execution"
where
  "execute_staging c q native =
     (let start = \<lparr>se_attempted = selected_keys q, se_requested = plan_requested_bytes q, se_accepted = 0, se_operations = 0,
            se_max_in_flight = pc_max_in_flight c, se_error = None, se_cancelled = False, se_mapping_before = None, se_mapping_after = None\<rparr>;
          indices = stage_indices q in
      if indices = [] then (None, start)
      else (Some indices,
        (case native indices of
           Inr bytes \<Rightarrow> start\<lparr>se_operations := 1, se_accepted := bytes\<rparr>
         | Inl e \<Rightarrow> start\<lparr>se_operations := 1, se_error := Some e\<rparr>)))"

subsection \<open>Evaluation\<close>

text \<open>The observed names of the inventory in the order of their first use.\<close>

definition observed_order :: "execution_profile \<Rightarrow> resource_inventory \<Rightarrow> string list" where
  "observed_order observed iv =
     map fst (sort_key (\<lambda>(name, access). (first_order access, name))
       (filter (\<lambda>(name, access). name \<in> tr_name ` set (ri_resources iv)) (ep_access observed)))"

definition is_within :: "usize \<Rightarrow> string list \<Rightarrow> string \<Rightarrow> bool" where
  "is_within horizon names name \<longleftrightarrow> name \<in> set (take horizon names)"

definition bucket_of :: "prediction_confidence \<Rightarrow> usize \<Rightarrow> string list \<Rightarrow> predicted_access list \<Rightarrow> calibration_counters" where
  "bucket_of confidence horizon names ps =
     (let qs = filter (\<lambda>p. pa_confidence p = confidence) ps in
      \<lparr>cc_predictions = length qs, cc_hits = length (filter (\<lambda>p. pa_name p \<in> set names) qs),
       cc_within = length (filter (\<lambda>p. is_within horizon names (pa_name p)) qs)\<rparr>)"

definition rate_option :: "usize \<Rightarrow> usize \<Rightarrow> nat option" where
  "rate_option n samples = (if 0 < samples then Some (rate_bps n samples) else None)"

definition selected_names :: "prediction_plan \<Rightarrow> string set" where
  "selected_names q = pd_name ` {d \<in> set (pp_decisions q). pd_action d = StageNow \<or> pd_action d = Prefetch}"

text \<open>The part of the metrics that needs the outcome of the prefetch.\<close>

definition evaluate_staging :: "prediction_plan \<Rightarrow> string list \<Rightarrow> staging_execution \<Rightarrow> prediction_metrics \<Rightarrow> prediction_metrics" where
  "evaluate_staging q names e m =
     (let requested = pm_requested_resources m;
          m = m\<lparr>pm_accepted_bytes := se_accepted e, pm_mapping_delta := observed_mapping_delta e\<rparr> in
      if se_error e \<noteq> None \<or> requested = 0
      then m\<lparr>pm_accepted_resources := Some 0, pm_followed := Some 0, pm_not_followed := Some 0, pm_benefit_unknown := Some 0\<rparr>
      else if pm_requested_bytes m \<le> se_accepted e then
        let followed = card (selected_names q \<inter> set names) in
        m\<lparr>pm_accepted_resources := Some requested, pm_followed := Some followed,
          pm_not_followed := Some (saturating_sub requested followed), pm_benefit_unknown := Some requested\<rparr>
      else m\<lparr>pm_accepted_resources := None, pm_followed := None, pm_not_followed := None, pm_benefit_unknown := Some requested\<rparr>)"

definition evaluate_predictions ::
  "prediction_set \<Rightarrow> execution_profile \<Rightarrow> resource_inventory \<Rightarrow> prediction_plan \<Rightarrow> staging_execution option \<Rightarrow> usize \<Rightarrow> prediction_metrics"
where
  "evaluate_predictions s observed iv q staging horizon =
     (let names = observed_order observed iv; ps = ps_predictions s;
          generated = length ps; matched = length (filter (\<lambda>p. pa_name p \<in> set names) ps);
          missed = saturating_sub generated matched;
          m = \<lparr>pm_horizon = horizon, pm_generated = generated, pm_matched = matched,
               pm_matched_within = length (filter (\<lambda>p. is_within horizon names (pa_name p)) ps), pm_missed = missed,
               pm_observed = length names, pm_precision_bps = rate_option matched generated,
               pm_recall_bps = rate_option matched (length names), pm_false_positive_bps = rate_option missed generated,
               pm_requested_resources = length (selected_keys q), pm_requested_bytes = plan_requested_bytes q, pm_accepted_bytes = 0,
               pm_accepted_resources = None, pm_followed = None, pm_not_followed = None, pm_observed_residency = None,
               pm_benefit_unknown = None,
               pm_duplicate_avoided = length (filter (\<lambda>d. pd_reason d = DuplicateRequest \<or> pd_reason d = SharedPageDeduplicated) (pp_decisions q)),
               pm_rejected = pp_rejected q, pm_deferred = pp_deferred q, pm_mapping_delta = None,
               pm_high = bucket_of HighConfidence horizon names ps, pm_medium = bucket_of MediumConfidence horizon names ps,
               pm_low = bucket_of LowConfidence horizon names ps\<rparr> in
      case staging of None \<Rightarrow> m | Some e \<Rightarrow> evaluate_staging q names e m)"

subsection \<open>The pages requested\<close>

definition pages_of :: "(nat, interval list) omap \<Rightarrow> (nat \<times> nat) set" where
  "pages_of ranges = {(i, x). x \<in> covered_set (ranges_in ranges i)}"

definition ranges_ok :: "(nat, interval list) omap \<Rightarrow> bool" where
  "ranges_ok ranges \<longleftrightarrow> om_ok ranges \<and> (\<forall>i. separated (ranges_in ranges i))"

lemma insert_range:
  assumes ok: "ranges_ok ranges" and coll: "collected r"
  shows "ranges_ok (insert_resource_range r ranges) \<and> pages_of (insert_resource_range r ranges) = pages_of ranges \<union> file_bytes r"
proof (cases "tr_mapping_index r")
  case None
  then show ?thesis using ok by (simp add: insert_resource_range_def file_bytes_def)
next
  case (Some i)
  let ?rs = "insert_interval (ranges_in ranges i) (tr_page_start r) (tr_page_end r)"
  have at: "ranges_in (insert_resource_range r ranges) j = (if j = i then ?rs else ranges_in ranges j)" for j
    using ok by (simp add: insert_resource_range_def Some ranges_in_def ranges_ok_def)
  have sep: "separated (ranges_in ranges i)" using ok by (simp add: ranges_ok_def)
  have "covered_set ?rs = covered_set (ranges_in ranges i) \<union> {tr_page_start r..<tr_page_end r}" by (rule insert_interval_covered [OF sep])
  then have "pages_of (insert_resource_range r ranges) = pages_of ranges \<union> file_bytes r"
    by (auto simp: pages_of_def at file_bytes_def Some split: if_splits)
  moreover have "separated ?rs" using insert_interval_separated [OF sep] coll by (simp add: collected_def)
  ultimately show ?thesis using ok at by (simp add: ranges_ok_def insert_resource_range_def Some)
qed

lemma unique_bytes:
  assumes ok: "ranges_ok ranges" and coll: "collected r"
  shows "unique_page_bytes ranges r = card (file_bytes r - pages_of ranges) \<and> finite (file_bytes r)"
proof (cases "tr_mapping_index r")
  case None
  then show ?thesis by (simp add: unique_page_bytes_def file_bytes_def)
next
  case (Some i)
  let ?A = "{tr_page_start r..<tr_page_end r}" and ?rs = "ranges_in ranges i"
  have "covered_bytes ?rs (tr_page_start r) (tr_page_end r) = card (covered_set ?rs \<inter> ?A)"
    using covered_bytes_card ok coll by (simp add: collected_def ranges_ok_def)
  then have "unique_page_bytes ranges r = card (?A - covered_set ?rs)"
    using coll by (simp add: unique_page_bytes_def Some saturating_sub_def card_Diff_subset_Int Int_commute collected_def)
  moreover have "file_bytes r - pages_of ranges = Pair i ` (?A - covered_set ?rs)" by (auto simp: file_bytes_def Some pages_of_def)
  ultimately show ?thesis by (simp add: card_image inj_on_def file_bytes_def Some)
qed

subsection \<open>The loop's invariant\<close>

definition selected_resources :: "resource_inventory \<Rightarrow> prediction_plan \<Rightarrow> tensor_resource set" where
  "selected_resources iv q = {r. \<exists>k \<in> set (selected_keys q). inventory_get iv k = Some r}"

definition chosen_for :: "prediction_config \<Rightarrow> prediction_confidence \<Rightarrow> predicted_access list \<Rightarrow> resource_key \<Rightarrow> bool" where
  "chosen_for c confidence ps k \<longleftrightarrow>
     (\<exists>p \<in> set ps. pa_key p = k \<and> pa_confidence p = confidence \<and> pc_min_confidence_bps c \<le> pa_confidence_bps p)"

definition planning_ok ::
  "prediction_config \<Rightarrow> resource_inventory \<Rightarrow> u64 \<Rightarrow> u64 \<Rightarrow> predicted_access list \<Rightarrow> planning \<Rightarrow> bool"
where
  "planning_ok c iv sb spb ps st \<longleftrightarrow>
     (let q = pl_plan st; pages = pages_of (pl_ranges st) in
      ranges_ok (pl_ranges st) \<and> finite pages \<and> pages = (\<Union>r \<in> selected_resources iv q. file_bytes r)
      \<and> pp_stage_bytes q + pp_prefetch_bytes q = card pages \<and> pp_stage_bytes q \<le> sb \<and> pp_prefetch_bytes q \<le> spb
      \<and> distinct (selected_keys q) \<and> set (selected_keys q) \<subseteq> set (pl_seen st)
      \<and> (\<forall>k \<in> set (selected_keys q). \<exists>r. inventory_get iv k = Some r \<and> tr_file_backed r)
      \<and> list_all (chosen_for c HighConfidence ps) (pp_stage_keys q) \<and> list_all (chosen_for c MediumConfidence ps) (pp_prefetch_keys q)
      \<and> map pd_name (pp_decisions q) = map pa_name ps
      \<and> pp_deferred q + pp_rejected q + length (selected_keys q) = length ps \<and> \<not> pp_release_authorized q)"

lemma chosen_for_more: "list_all (chosen_for c b ps) ks \<Longrightarrow> list_all (chosen_for c b (ps @ [p])) ks"
  by (auto simp: list_all_iff chosen_for_def)

lemma planning_start_ok: "planning_ok c iv sb spb [] planning_start"
  by (simp add: planning_ok_def planning_start_def plan_default_def selected_keys_def selected_resources_def pages_of_def ranges_ok_def
      ranges_in_def)

lemma not_selected_ok:
  "planning_ok c iv sb spb ps st \<Longrightarrow> planning_ok c iv sb spb (ps @ [p]) (reject (decide a r p st))"
  "planning_ok c iv sb spb ps st \<Longrightarrow> planning_ok c iv sb spb (ps @ [p]) (defer_one (decide a r p st))"
  by (auto simp: planning_ok_def Let_def reject_def defer_one_def decide_def decision_of_def selected_keys_def selected_resources_def
      chosen_for_more)

lemma seen_ok:
  "planning_ok c iv sb spb ps st \<Longrightarrow> planning_ok c iv sb spb ps (st\<lparr>pl_seen := k # pl_seen st\<rparr>)"
  by (auto simp: planning_ok_def Let_def)

text \<open>A selected key adds its resource's pages that were not yet requested.\<close>

lemma select_pages:
  assumes ok: "planning_ok c iv sb spb ps st" and coll: "collected r"
  shows "ranges_ok (insert_resource_range r (pl_ranges st))
    \<and> pages_of (insert_resource_range r (pl_ranges st)) = pages_of (pl_ranges st) \<union> file_bytes r
    \<and> finite (pages_of (pl_ranges st) \<union> file_bytes r)
    \<and> card (pages_of (pl_ranges st) \<union> file_bytes r) = card (pages_of (pl_ranges st)) + unique_page_bytes (pl_ranges st) r"
proof -
  have ranges: "ranges_ok (pl_ranges st)" and finite: "finite (pages_of (pl_ranges st))"
    using ok unfolding planning_ok_def Let_def by blast+
  have "card (pages_of (pl_ranges st) \<union> (file_bytes r - pages_of (pl_ranges st))) =
      card (pages_of (pl_ranges st)) + card (file_bytes r - pages_of (pl_ranges st))"
    using unique_bytes [OF ranges coll] finite by (intro card_Un_disjoint) auto
  then show ?thesis using insert_range [OF ranges coll] unique_bytes [OF ranges coll] finite by simp
qed

lemma select_stage_ok:
  assumes ok: "planning_ok c iv sb spb ps st" and coll: "collected r" and r: "inventory_get iv (pa_key p) = Some r" "tr_file_backed r"
    and p: "pa_confidence p = HighConfidence" "pc_min_confidence_bps c \<le> pa_confidence_bps p"
    and fresh: "pa_key p \<in> set (pl_seen st)" "pa_key p \<notin> set (selected_keys (pl_plan st))"
    and fits: "saturating_add (pp_stage_bytes (pl_plan st)) (unique_page_bytes (pl_ranges st) r) \<le> sb" "sb < U64_MAX"
  shows "planning_ok c iv sb spb (ps @ [p]) (decide StageNow reason p (select_stage p r (unique_page_bytes (pl_ranges st) r) st))"
proof -
  let ?st = "select_stage p r (unique_page_bytes (pl_ranges st) r) st"
  note pages = select_pages [OF ok coll]
  have sum: "saturating_add (pp_stage_bytes (pl_plan st)) (unique_page_bytes (pl_ranges st) r) =
      pp_stage_bytes (pl_plan st) + unique_page_bytes (pl_ranges st) r"
    using fits by (simp add: saturating_add_def min_def split: if_splits)
  have resources: "selected_resources iv (pl_plan (decide StageNow reason p ?st)) = insert r (selected_resources iv (pl_plan st))"
    using r by (auto simp: selected_resources_def selected_keys_def decide_def select_stage_def Let_def)
  have "chosen_for c HighConfidence (ps @ [p]) (pa_key p)" using p by (auto simp: chosen_for_def)
  then show ?thesis unfolding planning_ok_def Let_def resources
    using ok pages sum fits fresh r chosen_for_more [of c _ ps]
    by (auto simp: planning_ok_def Let_def decide_def decision_of_def select_stage_def selected_keys_def)
qed

lemma select_prefetch_ok:
  assumes ok: "planning_ok c iv sb spb ps st" and coll: "collected r" and r: "inventory_get iv (pa_key p) = Some r" "tr_file_backed r"
    and p: "pa_confidence p = MediumConfidence" "pc_min_confidence_bps c \<le> pa_confidence_bps p"
    and fresh: "pa_key p \<in> set (pl_seen st)" "pa_key p \<notin> set (selected_keys (pl_plan st))"
    and fits: "saturating_add (pp_prefetch_bytes (pl_plan st)) (unique_page_bytes (pl_ranges st) r) \<le> spb" "spb < U64_MAX"
  shows "planning_ok c iv sb spb (ps @ [p]) (decide Prefetch reason p (select_prefetch p r (unique_page_bytes (pl_ranges st) r) st))"
proof -
  let ?st = "select_prefetch p r (unique_page_bytes (pl_ranges st) r) st"
  note pages = select_pages [OF ok coll]
  have sum: "saturating_add (pp_prefetch_bytes (pl_plan st)) (unique_page_bytes (pl_ranges st) r) =
      pp_prefetch_bytes (pl_plan st) + unique_page_bytes (pl_ranges st) r"
    using fits by (simp add: saturating_add_def min_def split: if_splits)
  have resources: "selected_resources iv (pl_plan (decide Prefetch reason p ?st)) = insert r (selected_resources iv (pl_plan st))"
    using r by (auto simp: selected_resources_def selected_keys_def decide_def select_prefetch_def Let_def)
  have "chosen_for c MediumConfidence (ps @ [p]) (pa_key p)" using p by (auto simp: chosen_for_def)
  then show ?thesis unfolding planning_ok_def Let_def resources
    using ok pages sum fits fresh r chosen_for_more [of c _ ps]
    by (auto simp: planning_ok_def Let_def decide_def decision_of_def select_prefetch_def selected_keys_def)
qed

lemma plan_one_ok:
  assumes ok: "planning_ok c iv sb spb ps st" and coll: "\<And>r. r \<in> set (ri_resources iv) \<Longrightarrow> collected r"
    and small: "sb < U64_MAX" "spb < U64_MAX"
  shows "planning_ok c iv sb spb (ps @ [p]) (plan_one c iv sb spb p st)"
proof (cases "inventory_get iv (pa_key p)")
  case None
  then show ?thesis using not_selected_ok [OF ok] by (simp add: plan_one_def)
next
  case (Some r)
  then have r: "r \<in> set (ri_resources iv)" by (auto simp: inventory_get_def split: if_splits option.splits)
  let ?st = "st\<lparr>pl_seen := pa_key p # pl_seen st\<rparr>"
  show ?thesis
  proof (cases "tr_file_backed r \<and> pa_known_size p \<and> tr_page_bytes r \<noteq> 0 \<and> pa_key p \<notin> set (pl_seen st) \<and> pc_min_confidence_bps c \<le> pa_confidence_bps p")
    case False
    then show ?thesis using not_selected_ok [OF ok] not_selected_ok [OF seen_ok [OF ok]] Some by (auto simp: plan_one_def Let_def)
  next
    case True
    note ok' = seen_ok [OF ok, of "pa_key p"]
    have "pa_key p \<notin> set (selected_keys (pl_plan ?st))" using ok True by (auto simp: planning_ok_def Let_def)
    then have "planning_ok c iv sb spb (ps @ [p]) (plan_unique sb spb p r (unique_page_bytes (pl_ranges ?st) r) ?st)"
      using not_selected_ok [OF ok'] select_stage_ok [OF ok' coll [OF r] Some] select_prefetch_ok [OF ok' coll [OF r] Some] True small
      by (simp add: plan_unique_def)
    then show ?thesis using True Some by (simp add: plan_one_def Let_def)
  qed
qed

lemma plan_fold_ok:
  assumes "\<And>r. r \<in> set (ri_resources iv) \<Longrightarrow> collected r" and "sb < U64_MAX" "spb < U64_MAX"
  shows "planning_ok c iv sb spb ps st \<Longrightarrow> planning_ok c iv sb spb (ps @ qs) (fold (plan_one c iv sb spb) qs st)"
proof (induction qs arbitrary: ps st)
  case (Cons q qs)
  from Cons.IH [OF plan_one_ok [OF Cons.prems assms, of q]] show ?case by simp
qed simp

text \<open>
  Each budget is kept, but not their sum: with a hard limit of 4096 bytes, none in use, 4096 bytes are staged and
  another 4096 prefetched.
\<close>

definition two_pages :: resource_inventory where
  "two_pages = \<lparr>ri_model_id = ''m'', ri_generation = 7, ri_native_model_instance = None, ri_native_contract_version = None,
     ri_resources = [describe_mapping 7 0 ((example_mapping 0 4096)\<lparr>tm_name := ''a'', tm_mapping_size := 8192\<rparr>),
                     describe_mapping 7 1 ((example_mapping 4096 8192)\<lparr>tm_name := ''b'', tm_mapping_size := 8192\<rparr>)],
     ri_by_index = [(0, 0), (1, 1)], ri_summary = summary_default\<rparr>"

definition two_predictions :: prediction_set where
  "two_predictions = (prediction_set_empty ''m'' 7 ''none'')\<lparr>ps_predictions :=
     [\<lparr>pa_key = ResourceKey 7 0, pa_name = ''a'', pa_order = 0, pa_distance = 0, pa_confidence_bps = 9000,
       pa_confidence = HighConfidence, pa_size = 4096, pa_known_size = True\<rparr>,
      \<lparr>pa_key = ResourceKey 7 1, pa_name = ''b'', pa_order = 1, pa_distance = 0, pa_confidence_bps = 7000,
       pa_confidence = MediumConfidence, pa_size = 4096, pa_known_size = True\<rparr>]\<rparr>"

definition two_config :: prediction_config where
  "two_config = prediction_config_default\<lparr>pc_enabled := True\<rparr>"

lemma budgets_add_up:
  "let q = plan_predictions two_config two_predictions two_pages (Some 0) (Some 4096) 0 False in
     validate_prediction_config two_config = Ok () \<and> pp_stage_bytes q = 4096 \<and> pp_prefetch_bytes q = 4096"
  by (simp add: plan_predictions_def two_config_def prediction_config_default_def two_predictions_def prediction_set_empty_def
      stage_budget_def speculative_budget_def saturating_sub_def planning_start_def plan_default_def plan_one_def inventory_get_def
      two_pages_def describe_mapping_def example_mapping_def mapped_start_def mapped_end_def plan_unique_def unique_page_bytes_def
      ranges_in_def covered_bytes_def saturating_add_def decide_def select_stage_def select_prefetch_def insert_resource_range_def
      insert_interval_def validate_prediction_config_def U64_MAX_def Let_def)

subsection \<open>Properties\<close>

text \<open>
  C17: A plan decides every prediction once, in order. It stages only confident predictions of file-backed tensors of the
  inventory, no tensor twice; the staged and the prefetched bytes are together exactly the distinct file bytes of the
  selected page ranges, and each stays within its own budget. It never authorizes a release.
\<close>

theorem prediction_plan_exact:
  assumes "\<And>r. r \<in> set (ri_resources iv) \<Longrightarrow> tr_page_bytes r = tr_page_end r - tr_page_start r \<and> tr_page_end r \<le> U64_MAX"
    and "pc_staging_window c < U64_MAX" and "q = plan_predictions c s iv current hard safety admission_rejected"
  shows "map pd_name (pp_decisions q) = map pa_name (ps_predictions s) \<and> \<not> pp_release_authorized q
    \<and> distinct (selected_keys q) \<and> (\<forall>k \<in> set (selected_keys q). \<exists>r. inventory_get iv k = Some r \<and> tr_file_backed r)
    \<and> list_all (chosen_for c HighConfidence (ps_predictions s)) (pp_stage_keys q)
    \<and> list_all (chosen_for c MediumConfidence (ps_predictions s)) (pp_prefetch_keys q)
    \<and> pp_stage_bytes q + pp_prefetch_bytes q = card (\<Union>r \<in> selected_resources iv q. file_bytes r)
    \<and> pp_stage_bytes q \<le> stage_budget c current hard safety \<and> pp_prefetch_bytes q \<le> speculative_budget c current hard safety
    \<and> (if pc_enabled c then pp_deferred q + pp_rejected q + length (selected_keys q) = length (ps_predictions s)
       else selected_keys q = [])"
proof -
  let ?sb = "stage_budget c current hard safety" and ?spb = "speculative_budget c current hard safety"
  have small: "?sb < U64_MAX" "?spb < U64_MAX" using assms(2) by (simp_all add: stage_budget_def speculative_budget_def min_def)
  show ?thesis
  proof (cases "pc_enabled c \<and> \<not> admission_rejected")
    case True
    have "planning_ok c iv ?sb ?spb ([] @ ps_predictions s) (fold (plan_one c iv ?sb ?spb) (ps_predictions s) planning_start)"
      by (rule plan_fold_ok [OF _ small planning_start_ok]) (use assms(1) in \<open>simp add: collected_def\<close>)
    then show ?thesis using True assms(3) unfolding planning_ok_def Let_def by (simp add: plan_predictions_def)
  next
    case False
    then show ?thesis using assms(3)
      by (auto simp: plan_predictions_def plan_default_def selected_keys_def selected_resources_def decision_of_def)
  qed
qed

theorem prediction_plan_exact_witness:
  "let q = plan_predictions two_config two_predictions two_pages (Some 0) (Some 4096) 0 False in
     pp_stage_bytes q + pp_prefetch_bytes q = card (\<Union>r \<in> selected_resources two_pages q. file_bytes r)"
proof -
  have "tr_page_bytes r = tr_page_end r - tr_page_start r \<and> tr_page_end r \<le> U64_MAX" if "r \<in> set (ri_resources two_pages)" for r
    using that by (auto simp: two_pages_def describe_mapping_def example_mapping_def mapped_start_def mapped_end_def U64_MAX_def
        saturating_sub_def)
  from prediction_plan_exact [OF this _ refl, where c = two_config and s = two_predictions and current = "Some 0" and hard = "Some 4096"
      and safety = 0 and admission_rejected = False] show ?thesis
    by (simp add: Let_def two_config_def prediction_config_default_def U64_MAX_def)
qed

lemma buckets_total:
  "cc_predictions (bucket_of HighConfidence h names ps) + cc_predictions (bucket_of MediumConfidence h names ps)
      + cc_predictions (bucket_of LowConfidence h names ps) = length ps
   \<and> cc_hits (bucket_of HighConfidence h names ps) + cc_hits (bucket_of MediumConfidence h names ps)
      + cc_hits (bucket_of LowConfidence h names ps) = length (filter (\<lambda>p. pa_name p \<in> set names) ps)"
proof (induction ps)
  case (Cons p ps)
  then show ?case by (cases "pa_confidence p") (simp_all add: bucket_of_def Let_def)
qed (simp add: bucket_of_def)

lemma evaluate_staging_keeps:
  "pm_generated (evaluate_staging q names e m) = pm_generated m" "pm_matched (evaluate_staging q names e m) = pm_matched m"
  "pm_missed (evaluate_staging q names e m) = pm_missed m" "pm_matched_within (evaluate_staging q names e m) = pm_matched_within m"
  "pm_precision_bps (evaluate_staging q names e m) = pm_precision_bps m"
  "pm_false_positive_bps (evaluate_staging q names e m) = pm_false_positive_bps m"
  "pm_high (evaluate_staging q names e m) = pm_high m" "pm_medium (evaluate_staging q names e m) = pm_medium m"
  "pm_low (evaluate_staging q names e m) = pm_low m"
  by (simp_all add: evaluate_staging_def Let_def)

text \<open>
  What an evaluation reports. The matched and the missed predictions are all predictions, and precision and false
  positives are rates; the three confidence buckets count every prediction and every match once; a match within
  the horizon is a match.
\<close>

theorem evaluation_consistent:
  "let m = evaluate_predictions s observed iv q staging horizon in
     pm_matched m + pm_missed m = pm_generated m \<and> pm_generated m = length (ps_predictions s)
     \<and> pm_matched_within m \<le> pm_matched m
     \<and> cc_predictions (pm_high m) + cc_predictions (pm_medium m) + cc_predictions (pm_low m) = pm_generated m
     \<and> cc_hits (pm_high m) + cc_hits (pm_medium m) + cc_hits (pm_low m) = pm_matched m
     \<and> (case pm_precision_bps m of None \<Rightarrow> pm_generated m = 0 | Some r \<Rightarrow> r \<le> 10000)
     \<and> (case pm_false_positive_bps m of None \<Rightarrow> pm_generated m = 0 | Some r \<Rightarrow> r \<le> 10000)"
proof -
  let ?names = "observed_order observed iv" and ?ps = "ps_predictions s"
  have matched: "length (filter (\<lambda>p. pa_name p \<in> set ?names) ?ps) \<le> length ?ps" by simp
  have within: "length (filter (\<lambda>p. is_within horizon ?names (pa_name p)) ps) \<le> length (filter (\<lambda>p. pa_name p \<in> set ?names) ps)" for ps
    by (induction ps) (auto simp: is_within_def dest: in_set_takeD)
  have rates: "case rate_option n k of None \<Rightarrow> k = 0 | Some r \<Rightarrow> r \<le> 10000" if "n \<le> k" for n k
    using rate_bps_bound [OF that] by (simp add: rate_option_def)
  let ?m = "evaluate_predictions s observed iv q staging horizon"
  have fields: "pm_generated ?m = length ?ps" "pm_matched ?m = length (filter (\<lambda>p. pa_name p \<in> set ?names) ?ps)"
    "pm_missed ?m = length ?ps - length (filter (\<lambda>p. pa_name p \<in> set ?names) ?ps)"
    "pm_matched_within ?m = length (filter (\<lambda>p. is_within horizon ?names (pa_name p)) ?ps)"
    "pm_precision_bps ?m = rate_option (pm_matched ?m) (length ?ps)" "pm_false_positive_bps ?m = rate_option (pm_missed ?m) (length ?ps)"
    "pm_high ?m = bucket_of HighConfidence horizon ?names ?ps" "pm_medium ?m = bucket_of MediumConfidence horizon ?names ?ps"
    "pm_low ?m = bucket_of LowConfidence horizon ?names ?ps"
    by (cases staging; simp add: evaluate_predictions_def Let_def evaluate_staging_keeps saturating_sub_def)+
  show ?thesis
    unfolding Let_def fields using matched within [of ?ps] buckets_total [of horizon ?names ?ps] rates [OF matched]
      rates [of "length ?ps - length (filter (\<lambda>p. pa_name p \<in> set ?names) ?ps)" "length ?ps"]
    by (intro conjI) simp_all
qed

end
