(* ===== verification/Half_Float.thy ===== *)
theory Half_Float
  imports Float32
begin

section \<open>Half precision numbers\<close>

text \<open>
  \<open>f16_to_f32\<close> of \<open>crates/ramforge-core/src/quant.rs\<close> and of \<open>tensor.rs\<close> (the same text twice), and \<open>bf16_to_f32\<close>. A half
  is decoded exactly, except that a subnormal comes out as half of what it stands for: the code's exponent is
  one too small.
\<close>

unbundle bit_operations_syntax

subsection \<open>Conversions\<close>

text \<open>The loop that moves the leading bit of a subnormal to bit 10, with its number of rounds; 10 rounds are enough.\<close>

primrec normalize_frac :: "nat \<Rightarrow> 32 word \<Rightarrow> nat \<Rightarrow> 32 word \<times> nat" where
  "normalize_frac 0 f e = (f, e)"
| "normalize_frac (Suc fuel) f e = (if f AND 0x400 = 0 then normalize_frac fuel (push_bit 1 f) (e + 1) else (f, e))"

definition f16_to_f32 :: "16 word \<Rightarrow> f32" where
  "f16_to_f32 bits =
     (let sign = ucast (drop_bit 15 bits AND 1); exp = ucast (drop_bit 10 bits AND 0x1F); frac = ucast (bits AND 0x3FF) in
      if exp = 0 then
        (if frac = 0 then push_bit 31 sign
         else
           let (f, e) = normalize_frac 10 frac 0; f = f AND 0x3FF; exp = of_nat (127 - 15 - e) in
           push_bit 31 sign OR push_bit 23 exp OR push_bit 13 f)
      else if exp = 0x1F then push_bit 31 sign OR push_bit 23 0xFF OR push_bit 13 frac
      else let exp = exp + (127 - 15) in push_bit 31 sign OR push_bit 23 exp OR push_bit 13 frac)"

definition bf16_to_f32 :: "16 word \<Rightarrow> f32" where "bf16_to_f32 bits = push_bit 16 (ucast bits)"

subsection \<open>What a half stands for\<close>

definition f16_neg :: "16 word \<Rightarrow> bool" where "f16_neg w \<longleftrightarrow> 2 ^ 15 \<le> unat w"
definition f16_exp :: "16 word \<Rightarrow> nat" where "f16_exp w = unat w div 2 ^ 10 mod 2 ^ 5"
definition f16_frac :: "16 word \<Rightarrow> nat" where "f16_frac w = unat w mod 2 ^ 10"

definition f16_value :: "16 word \<Rightarrow> real" where
  "f16_value w = with_sign (f16_neg w)
     (if f16_exp w = 0 then real (f16_frac w) * 2 powi (- 24)
      else real (2 ^ 10 + f16_frac w) * 2 powi (int (f16_exp w) - 25))"

definition f16_subnormal :: "16 word \<Rightarrow> bool" where "f16_subnormal w \<longleftrightarrow> f16_exp w = 0 \<and> f16_frac w \<noteq> 0"

lemma bit_of_nat_small: "n < 2 ^ k \<Longrightarrow> bit (of_nat n :: 'a :: len word) i \<Longrightarrow> i < k"
  by (metis bit_of_nat_iff bit_take_bit_iff take_bit_nat_eq_self)

lemma packed_word:
  assumes "e < 2 ^ 8" "f < 2 ^ 10"
  shows "push_bit 31 (of_bool s) OR push_bit 23 (of_nat e) OR push_bit 13 (of_nat f) = f32_pack s (e * 2 ^ 23 + f * 2 ^ 13)"
proof -
  define a b c :: "32 word" where "a = push_bit 31 (of_bool s)" and "b = push_bit 23 (of_nat e)" and "c = push_bit 13 (of_nat f)"
  note abc = a_def b_def c_def
  have e: "bit (of_nat e :: 32 word) i \<Longrightarrow> i < 8" and f: "bit (of_nat f :: 32 word) i \<Longrightarrow> i < 10" for i
    using bit_of_nat_small assms by blast+
  have s: "bit (of_bool s :: 32 word) i \<Longrightarrow> i = 0" for i by (cases s) (auto simp: bit_1_iff)
  have "a OR b OR c = (a OR b) OR c" by (simp only: or.assoc)
  also have "\<dots> = (a OR b) + c" unfolding abc
    by (rule disjunctive_add [symmetric]) (auto simp: bit_push_bit_iff bit_or_iff dest!: e s f)
  also have "a OR b = a + b" unfolding abc
    by (rule disjunctive_add [symmetric]) (auto simp: bit_push_bit_iff dest!: e s)
  also have "a + b + c = f32_pack s (e * 2 ^ 23 + f * 2 ^ 13)"
    by (simp add: abc push_bit_eq_mult f32_pack_def)
  finally show ?thesis by (simp only: abc)
qed

text \<open>The fields the code extracts.\<close>

lemma f16_fields:
  "(ucast (drop_bit 15 w AND 1) :: 32 word) = of_bool (f16_neg w)"
  "(ucast (drop_bit 10 w AND 0x1F) :: 32 word) = of_nat (f16_exp w)"
  "(ucast (w AND 0x3FF) :: 32 word) = of_nat (f16_frac w)"
proof -
  have lt: "unat w < 2 ^ 16" by (rule order_less_le_trans [OF unsigned_less]) simp
  have m: "x AND 1 = take_bit 1 x" "x AND 0x1F = take_bit 5 x" "x AND 0x3FF = take_bit 10 x" for x :: "16 word"
    by (simp_all add: take_bit_eq_mask mask_numeral flip: mask_eq_exp_minus_1)
  have u: "(ucast x :: 32 word) = of_nat (unat x)" for x :: "16 word" by simp
  have "unat w div 2 ^ 15 < 2" using lt by (simp add: less_mult_imp_div_less)
  then have "unat w div 2 ^ 15 mod 2 = of_bool (2 ^ 15 \<le> unat w)"
    using div_eq_0_iff [of "unat w" "2 ^ 15"] by (cases "unat w div 2 ^ 15") auto
  then show "(ucast (drop_bit 15 w AND 1) :: 32 word) = of_bool (f16_neg w)"
    unfolding u m unsigned_take_bit_eq unat_drop_bit f16_neg_def by (simp only: take_bit_eq_mod power_one_right of_nat_of_bool)
  show "(ucast (drop_bit 10 w AND 0x1F) :: 32 word) = of_nat (f16_exp w)"
    unfolding u m unsigned_take_bit_eq unat_drop_bit f16_exp_def by (simp only: take_bit_eq_mod)
  show "(ucast (w AND 0x3FF) :: 32 word) = of_nat (f16_frac w)"
    unfolding u m unsigned_take_bit_eq f16_frac_def by (simp only: take_bit_eq_mod)
qed

text \<open>The loop shifts until the leading bit is bit 10.\<close>

lemma normalize_run:
  assumes "0 < n" "n < 2 ^ 11" "2 ^ 10 \<le> n * 2 ^ fuel"
  shows "\<exists>k \<le> fuel. normalize_frac fuel (of_nat n) e = (of_nat (n * 2 ^ k), e + k) \<and> 2 ^ 10 \<le> n * 2 ^ k \<and> n * 2 ^ k < 2 ^ 11"
  using assms
proof (induction fuel arbitrary: n e)
  case 0
  then show ?case by simp
next
  case (Suc fuel)
  have b: "(of_nat n AND 0x400 = (0 :: 32 word)) \<longleftrightarrow> n < 2 ^ 10"
  proof -
    have "(0x400 :: 32 word) = push_bit 10 1" by simp
    then have "(of_nat n AND 0x400 = (0 :: 32 word)) \<longleftrightarrow> \<not> bit (of_nat n :: 32 word) 10"
      by (metis and_exp_eq_0_iff_not_bit push_bit_of_1)
    also have "\<dots> \<longleftrightarrow> \<not> bit n 10" by (simp add: bit_of_nat_iff)
    also have "\<dots> \<longleftrightarrow> \<not> odd (n div 2 ^ 10)" by (simp only: bit_iff_odd)
    also have "n div 2 ^ 10 < 2" using Suc.prems by (simp add: less_mult_imp_div_less)
    then have "\<not> odd (n div 2 ^ 10) \<longleftrightarrow> n < 2 ^ 10"
      using div_eq_0_iff [of n "2 ^ 10"] by (cases "n div 2 ^ 10") auto
    finally show ?thesis .
  qed
  show ?case
  proof (cases "n < 2 ^ 10")
    case True
    then obtain k where k: "k \<le> fuel" "normalize_frac fuel (of_nat (n * 2)) (e + 1) = (of_nat (n * 2 * 2 ^ k), e + 1 + k)"
      "2 ^ 10 \<le> n * 2 * 2 ^ k" "n * 2 * 2 ^ k < 2 ^ 11"
      using Suc.IH [of "n * 2" "e + 1"] Suc.prems by auto
    moreover have "push_bit 1 (of_nat n :: 32 word) = of_nat (n * 2)" by (simp add: push_bit_eq_mult)
    ultimately show ?thesis using True b by (intro exI [of _ "Suc k"]) (simp add: mult.assoc)
  next
    case False
    then show ?thesis using b Suc.prems by (intro exI [of _ 0]) simp
  qed
qed

subsection \<open>What is decoded\<close>

lemma f16_bounds: "f16_exp w < 2 ^ 5" "f16_frac w < 2 ^ 10"
  by (simp_all add: f16_exp_def f16_frac_def)

lemma frac_mask: "n < 2 ^ 11 \<Longrightarrow> 2 ^ 10 \<le> n \<Longrightarrow> (of_nat n AND 0x3FF :: 32 word) = of_nat (n - 2 ^ 10)"
proof -
  assume n: "n < 2 ^ 11" "2 ^ 10 \<le> n"
  have "n - 2 ^ 10 < 2 ^ 10" "n = n - 2 ^ 10 + 1 * 2 ^ 10" using n by simp_all
  then have "n mod 2 ^ 10 = n - 2 ^ 10" by (metis mod_less mod_mult_self1)
  moreover have "of_nat n AND 0x3FF = (take_bit 10 (of_nat n) :: 32 word)" by (simp add: take_bit_eq_mask mask_numeral)
  moreover have "take_bit 10 (of_nat n) = (of_nat (take_bit 10 n) :: 32 word)" by (simp add: take_bit_of_nat)
  ultimately show ?thesis by (simp add: take_bit_eq_mod)
qed

lemma value_of_pack:
  assumes "f < 2 ^ 10" "0 < e" "e < 255"
  shows "f32_value (f32_pack s (e * 2 ^ 23 + f * 2 ^ 13)) = with_sign s (real (2 ^ 10 + f) * 2 powi (int e - 137))
    \<and> f32_finite (f32_pack s (e * 2 ^ 23 + f * 2 ^ 13))"
proof -
  have q: "(2 :: real) powi (int e - 137) = 2 ^ 13 * 2 powi (int (e - 1) - 149)"
    using assms(2) power_int_add [of "2 :: real" 13 "int e - 150"] by (simp add: of_nat_diff)
  have x: "e * 2 ^ 23 + f * 2 ^ 13 = (e - 1) * 2 ^ 23 + (2 ^ 10 + f) * 2 ^ 13" using assms(2) by (cases e) auto
  have m: "real ((2 ^ 10 + f) * 2 ^ 13) * 2 powi (int (e - 1) - 149) = real (2 ^ 10 + f) * 2 powi (int e - 137)"
    unfolding q by (simp only: of_nat_mult of_nat_power of_nat_numeral mult.assoc)
  have "(e - 1) * 2 ^ 23 + (2 ^ 10 + f) * 2 ^ 13 < 255 * 2 ^ 23" "(2 ^ 10 + f) * 2 ^ 13 \<le> 2 ^ 24" "2 ^ 23 \<le> (2 ^ 10 + f) * 2 ^ 13"
    using assms by simp_all
  then show ?thesis using packed_value [of "(2 ^ 10 + f) * 2 ^ 13" "e - 1" s] unfolding x m by blast
qed

lemma f16_decoded_normal:
  assumes "f16_exp w \<noteq> 0" "f16_exp w \<noteq> 31"
  shows "f32_value (f16_to_f32 w) = f16_value w \<and> f32_finite (f16_to_f32 w)"
proof -
  have e: "f16_exp w < 31" using f16_bounds(1) [of w] assms by auto
  have n: "(of_nat (f16_exp w) :: 32 word) \<noteq> 0" "(of_nat (f16_exp w) :: 32 word) \<noteq> 31"
    using e assms by (auto simp: word_unat_eq_iff unsigned_of_nat take_bit_nat_eq_self)
  have "f16_to_f32 w = push_bit 31 (of_bool (f16_neg w)) OR push_bit 23 (of_nat (f16_exp w + 112)) OR push_bit 13 (of_nat (f16_frac w))"
    using n unfolding f16_to_f32_def f16_fields Let_def by simp
  also have "\<dots> = f32_pack (f16_neg w) ((f16_exp w + 112) * 2 ^ 23 + f16_frac w * 2 ^ 13)"
    using e f16_bounds(2) by (intro packed_word) auto
  finally show ?thesis using value_of_pack [of "f16_frac w" "f16_exp w + 112" "f16_neg w"] f16_bounds(2) e assms
    by (simp add: f16_value_def)
qed

lemma f16_decoded_zero: "f16_exp w = 0 \<Longrightarrow> f16_frac w = 0 \<Longrightarrow> f16_to_f32 w = f32_pack (f16_neg w) 0"
  unfolding f16_to_f32_def f16_fields Let_def by (simp add: f32_pack_def)

lemma f16_decoded_subnormal:
  assumes "f16_subnormal w"
  shows "f32_value (f16_to_f32 w) = f16_value w / 2 \<and> f32_finite (f16_to_f32 w)"
proof -
  have f: "0 < f16_frac w" "f16_frac w < 2 ^ 10" "f16_exp w = 0" using assms f16_bounds by (auto simp: f16_subnormal_def)
  obtain k where k: "k \<le> 10" "normalize_frac 10 (of_nat (f16_frac w)) 0 = (of_nat (f16_frac w * 2 ^ k), k)"
    "2 ^ 10 \<le> f16_frac w * 2 ^ k" "f16_frac w * 2 ^ k < 2 ^ 11"
    using normalize_run [of "f16_frac w" 10 0] f by auto
  let ?f = "f16_frac w * 2 ^ k - 2 ^ 10"
  have "(of_nat (f16_frac w) :: 32 word) \<noteq> 0"
    using f by (auto simp: word_unat_eq_iff unsigned_of_nat take_bit_nat_eq_self)
  then have "f16_to_f32 w = push_bit 31 (of_bool (f16_neg w)) OR push_bit 23 (of_nat (127 - 15 - k)) OR push_bit 13 (of_nat ?f)"
    unfolding f16_to_f32_def f16_fields Let_def k(2) prod.case frac_mask [OF k(4,3)] f(3) by simp
  also have "\<dots> = f32_pack (f16_neg w) ((127 - 15 - k) * 2 ^ 23 + ?f * 2 ^ 13)"
    using k by (intro packed_word) auto
  finally have eq: "f16_to_f32 w = f32_pack (f16_neg w) ((112 - k) * 2 ^ 23 + ?f * 2 ^ 13)" by simp
  have "2 powi int k * 2 powi (int (112 - k) - 137) = (2 :: real) powi (- 25)"
    using k(1) power_int_add [of "2 :: real" "int k" "int (112 - k) - 137"] by (simp add: of_nat_diff)
  moreover have "(2 :: real) powi (- 24) / 2 = 2 powi (- 25)" using power_int_add [of "2 :: real" 1 "- 25"] by simp
  moreover have "real (2 ^ 10 + ?f) = real (f16_frac w) * 2 powi int k" using k(3) by (simp add: of_nat_diff)
  ultimately show ?thesis
    using value_of_pack [of ?f "112 - k" "f16_neg w"] k f(3) unfolding eq f16_value_def by (simp add: with_sign_def)
qed

text \<open>
  C19: A half precision number that is not an infinity or a NaN is decoded to the number it stands for, except that a
  subnormal is decoded to exactly half of it.
\<close>

theorem f16_decoding:
  assumes "f16_exp w \<noteq> 31"
  shows "f32_finite (f16_to_f32 w) \<and> f32_value (f16_to_f32 w) = (if f16_subnormal w then f16_value w / 2 else f16_value w)"
proof (cases "f16_exp w = 0")
  case True
  then show ?thesis
    using f16_decoded_subnormal [of w] f16_decoded_zero [of w]
    by (cases "f16_frac w = 0") (auto simp: f16_subnormal_def f16_value_def)
next
  case False
  then show ?thesis using f16_decoded_normal [of w] assms by (simp add: f16_subnormal_def)
qed

theorem f16_decoding_witness:
  "f32_finite (f16_to_f32 1) \<and> f32_value (f16_to_f32 1) = 2 powi (- 25) \<and> f16_value 1 = 2 powi (- 24)"
proof -
  have e: "f16_exp 1 = 0" "f16_frac 1 = 1" "\<not> f16_neg 1" by (simp_all add: f16_exp_def f16_frac_def f16_neg_def)
  then have v: "f16_value 1 = 2 powi (- 24)" "f16_subnormal 1" by (simp_all add: f16_value_def f16_subnormal_def with_sign_def)
  have "(2 :: real) powi (- 24) / 2 = 2 powi (- 25)" using power_int_add [of "2 :: real" 1 "- 25"] by simp
  then show ?thesis using f16_decoding [of 1] e v by simp
qed

end
