(* ===== verification/Quant_Blocks.thy ===== *)
theory Quant_Blocks
  imports Half_Float Data_Source
begin

section \<open>Quantized blocks\<close>

text \<open>
  The block formats of \<open>crates/ramforge-core/src/quant.rs\<close>: how a block is read from its bytes and how its values are
  decoded into a buffer of the caller. A byte is an \<open>8 word\<close>, read as a signed number where the code casts to \<open>i8\<close>; an \<open>i8\<close>
  subtraction is the subtraction of words. The loops are folds over the buffer, which keep the order of the writes.
\<close>

unbundle bit_operations_syntax

subsection \<open>Reading numbers\<close>

text \<open>\<open>&bytes[a..b]\<close>, for a range that is in the slice; every use is after the check of the block's length.\<close>

definition byte_range :: "byte list \<Rightarrow> nat \<Rightarrow> nat \<Rightarrow> byte list" where "byte_range bytes a b = take (b - a) (drop a bytes)"

definition u16_of_le :: "byte list \<Rightarrow> 16 word" where "u16_of_le bs = of_nat (le_nat bs)"
definition u32_of_le :: "byte list \<Rightarrow> 32 word" where "u32_of_le bs = of_nat (le_nat bs)"

definition read_f16_le :: "byte list \<Rightarrow> (f32, data_source_error) result" where
  "read_f16_le bytes =
     (if length bytes < 2 then Err (DsGeneral ''truncated f16'') else Ok (f16_to_f32 (u16_of_le (take 2 bytes))))"

definition read_f32_le :: "byte list \<Rightarrow> (f32, data_source_error) result" where
  "read_f32_le bytes =
     (if length bytes < 4 then Err (DsGeneral ''truncated f32'') else Ok (u32_of_le (take 4 bytes)))"

text \<open>\<open>as f32\<close> of an unsigned and of a signed byte.\<close>

definition f32_of_u8 :: "byte \<Rightarrow> f32" where "f32_of_u8 b = f32_of_int (uint b)"
definition f32_of_i8 :: "byte \<Rightarrow> f32" where "f32_of_i8 b = f32_of_int (sint b)"

subsection \<open>Writing a buffer\<close>

text \<open>\<open>for l in 0..n { out[base + l] = g(l) }\<close>\<close>

definition write_run :: "nat \<Rightarrow> nat \<Rightarrow> (nat \<Rightarrow> 'a) \<Rightarrow> 'a list \<Rightarrow> 'a list" where
  "write_run base n g out = fold (\<lambda>l out. out[base + l := g l]) [0..<n] out"

text \<open>A buffer whose first \<open>n\<close> values are decoded and whose rest is as it was.\<close>

definition filled :: "(nat \<Rightarrow> 'a) \<Rightarrow> nat \<Rightarrow> 'a list \<Rightarrow> 'a list" where
  "filled v n out = map v [0..<n] @ drop n out"

lemma write_run_0 [simp]: "write_run base 0 g out = out"
  by (simp add: write_run_def)

lemma write_run_Suc: "write_run base (Suc n) g out = (write_run base n g out)[base + n := g n]"
  by (simp add: write_run_def)

lemma length_write_run [simp]: "length (write_run base n g out) = length out"
  by (induction n) (simp_all add: write_run_Suc)

lemma nth_write_run:
  "i < length out \<Longrightarrow> write_run base n g out ! i = (if base \<le> i \<and> i < base + n then g (i - base) else out ! i)"
  by (induction n) (auto simp: write_run_Suc nth_list_update less_Suc_eq)

lemma length_filled [simp]: "n \<le> length out \<Longrightarrow> length (filled v n out) = length out"
  by (simp add: filled_def)

lemma nth_filled: "i < length out \<Longrightarrow> n \<le> length out \<Longrightarrow> filled v n out ! i = (if i < n then v i else out ! i)"
  by (auto simp: filled_def nth_append)

lemma filled_0 [simp]: "filled v 0 out = out"
  by (simp add: filled_def)

lemma filled_all: "length out = n \<Longrightarrow> filled v n out = map v [0..<n]"
  by (simp add: filled_def)

lemma write_run_filled:
  assumes "base + n \<le> length out" "\<And>l. l < n \<Longrightarrow> g l = v (base + l)"
  shows "write_run base n g (filled v base out) = filled v (base + n) out"
  using assms by (intro nth_equalityI) (auto simp: nth_write_run nth_filled)

text \<open>Loops that write two or four runs at once.\<close>

lemma nth_update: "j < length xs \<Longrightarrow> xs[i := x] ! j = (if i = j then x else xs ! j)"
  by simp

lemma write_two_runs:
  assumes "a + n \<le> b"
  shows "fold (\<lambda>l out. out[a + l := g l, b + l := h l]) [0..<n] out = write_run b n h (write_run a n g out)"
  using assms
proof (induction n)
  case (Suc n)
  then show ?case
    by (intro nth_equalityI) (auto simp: nth_write_run nth_list_update less_Suc_eq)
qed simp

lemma write_four_runs:
  assumes "n \<le> 32"
  shows "fold (\<lambda>l out. out[y + l := g1 l, y + l + 32 := g2 l, y + l + 64 := g3 l, y + l + 96 := g4 l]) [0..<n] out
    = write_run (y + 96) n g4 (write_run (y + 64) n g3 (write_run (y + 32) n g2 (write_run y n g1 out)))"
  using assms
proof (induction n)
  case (Suc n)
  then show ?case
    by (intro nth_equalityI) (auto simp: nth_write_run nth_update less_Suc_eq)
qed simp

subsection \<open>Q4_0, Q5_0 and Q8_0\<close>

definition QK4_0 :: nat where "QK4_0 = 32"
definition QK5_0 :: nat where "QK5_0 = 32"
definition QK8_0 :: nat where "QK8_0 = 32"
definition QK_K :: nat where "QK_K = 256"
definition BLOCK_SIZE_Q4_0 :: nat where "BLOCK_SIZE_Q4_0 = 18"
definition BLOCK_SIZE_Q5_0 :: nat where "BLOCK_SIZE_Q5_0 = 22"
definition BLOCK_SIZE_Q8_0 :: nat where "BLOCK_SIZE_Q8_0 = 34"
definition BLOCK_SIZE_Q4_K :: nat where "BLOCK_SIZE_Q4_K = 144"
definition BLOCK_SIZE_Q2_K :: nat where "BLOCK_SIZE_Q2_K = 84"
definition BLOCK_SIZE_Q3_K :: nat where "BLOCK_SIZE_Q3_K = 110"
definition BLOCK_SIZE_Q5_K :: nat where "BLOCK_SIZE_Q5_K = 176"
definition BLOCK_SIZE_Q6_K :: nat where "BLOCK_SIZE_Q6_K = 210"
definition BLOCK_SIZE_Q8_K :: nat where "BLOCK_SIZE_Q8_K = 292"

lemmas block_sizes = QK4_0_def QK5_0_def QK8_0_def QK_K_def BLOCK_SIZE_Q4_0_def BLOCK_SIZE_Q5_0_def BLOCK_SIZE_Q8_0_def
  BLOCK_SIZE_Q4_K_def BLOCK_SIZE_Q2_K_def BLOCK_SIZE_Q3_K_def BLOCK_SIZE_Q5_K_def BLOCK_SIZE_Q6_K_def BLOCK_SIZE_Q8_K_def

record block_q4_0 =
  q4_0_d :: f32
  q4_0_qs :: "byte list"

definition q4_0_from_bytes :: "byte list \<Rightarrow> (block_q4_0, data_source_error) result" where
  "q4_0_from_bytes bytes =
     (if length bytes < BLOCK_SIZE_Q4_0 then Err (DsGeneral ''Q4_0 block truncated'')
      else rbind (read_f16_le (byte_range bytes 0 2)) (\<lambda>d. Ok \<lparr>q4_0_d = d, q4_0_qs = byte_range bytes 2 18\<rparr>))"

definition q4_0_dequantize :: "block_q4_0 \<Rightarrow> f32 list \<Rightarrow> f32 list" where
  "q4_0_dequantize b out =
     fold (\<lambda>j out.
       let byte = q4_0_qs b ! j; q0 = (byte AND 0x0F) - 8; q1 = drop_bit 4 byte - 8 in
       out[j := fmul (f32_of_i8 q0) (q4_0_d b), 16 + j := fmul (f32_of_i8 q1) (q4_0_d b)]) [0..<16] out"

record block_q5_0 =
  q5_0_d :: f32
  q5_0_qh :: "byte list"
  q5_0_qs :: "byte list"

definition q5_0_from_bytes :: "byte list \<Rightarrow> (block_q5_0, data_source_error) result" where
  "q5_0_from_bytes bytes =
     (if length bytes < BLOCK_SIZE_Q5_0 then Err (DsGeneral ''Q5_0 block truncated'')
      else rbind (read_f16_le (byte_range bytes 0 2)) (\<lambda>d.
        Ok \<lparr>q5_0_d = d, q5_0_qh = byte_range bytes 2 6, q5_0_qs = byte_range bytes 6 22\<rparr>))"

definition q5_0_dequantize :: "block_q5_0 \<Rightarrow> f32 list \<Rightarrow> f32 list" where
  "q5_0_dequantize b out =
     (let qh = u32_of_le (q5_0_qh b) in
      fold (\<lambda>j out.
        let xh0 = ucast (push_bit 4 (drop_bit j qh) AND 0x10); xh1 = ucast (drop_bit (j + 12) qh AND 0x10);
            q0 = uint ((q5_0_qs b ! j AND 0x0F) OR xh0) - 16; q1 = uint (drop_bit 4 (q5_0_qs b ! j) OR xh1) - 16 in
        out[j := fmul (f32_of_int q0) (q5_0_d b), 16 + j := fmul (f32_of_int q1) (q5_0_d b)]) [0..<16] out)"

record block_q8_0 =
  q8_0_d :: f32
  q8_0_qs :: "byte list"

definition q8_0_from_bytes :: "byte list \<Rightarrow> (block_q8_0, data_source_error) result" where
  "q8_0_from_bytes bytes =
     (if length bytes < BLOCK_SIZE_Q8_0 then Err (DsGeneral ''Q8_0 block truncated'')
      else rbind (read_f16_le (byte_range bytes 0 2)) (\<lambda>d.
        Ok \<lparr>q8_0_d = d, q8_0_qs = map (\<lambda>i. bytes ! (2 + i)) [0..<32]\<rparr>))"

definition q8_0_dequantize :: "block_q8_0 \<Rightarrow> f32 list \<Rightarrow> f32 list" where
  "q8_0_dequantize b out = fold (\<lambda>i out. out[i := fmul (f32_of_i8 (q8_0_qs b ! i)) (q8_0_d b)]) [0..<32] out"

text \<open>The value at each place of a block.\<close>

definition q4_0_value :: "block_q4_0 \<Rightarrow> nat \<Rightarrow> f32" where
  "q4_0_value b i =
     fmul (f32_of_i8 ((if i < 16 then q4_0_qs b ! i AND 0x0F else drop_bit 4 (q4_0_qs b ! (i - 16))) - 8)) (q4_0_d b)"

definition q5_0_value :: "block_q5_0 \<Rightarrow> nat \<Rightarrow> f32" where
  "q5_0_value b i =
     (let qh = u32_of_le (q5_0_qh b) in
      fmul (f32_of_int ((if i < 16 then uint ((q5_0_qs b ! i AND 0x0F) OR ucast (push_bit 4 (drop_bit i qh) AND 0x10))
         else uint (drop_bit 4 (q5_0_qs b ! (i - 16)) OR ucast (drop_bit (i - 16 + 12) qh AND 0x10))) - 16)) (q5_0_d b))"

definition q8_0_value :: "block_q8_0 \<Rightarrow> nat \<Rightarrow> f32" where
  "q8_0_value b i = fmul (f32_of_i8 (q8_0_qs b ! i)) (q8_0_d b)"

lemmas write_halves = write_two_runs [of 0 16 16, unfolded add_0, OF order_refl]

lemma q4_0_dequantize_all:
  assumes "length out = 32"
  shows "q4_0_dequantize b out = map (q4_0_value b) [0..<32]"
  unfolding q4_0_dequantize_def Let_def write_halves
  using assms by (intro nth_equalityI) (auto simp: nth_write_run q4_0_value_def)

lemma q5_0_dequantize_all:
  assumes "length out = 32"
  shows "q5_0_dequantize b out = map (q5_0_value b) [0..<32]"
  unfolding q5_0_dequantize_def Let_def write_halves
  using assms by (intro nth_equalityI) (auto simp: nth_write_run q5_0_value_def Let_def)

lemma write_from_0: "fold (\<lambda>l out. out[l := g l]) [0..<n] out = write_run 0 n g out"
  by (simp add: write_run_def)

lemma q8_0_dequantize_all:
  assumes "length out = 32"
  shows "q8_0_dequantize b out = map (q8_0_value b) [0..<32]"
  unfolding q8_0_dequantize_def write_from_0
  using assms by (intro nth_equalityI) (auto simp: nth_write_run q8_0_value_def)

text \<open>Loops with running offsets: the state after each round.\<close>

lemma iterate: "(\<And>k. k < n \<Longrightarrow> step (S k) = S (Suc k)) \<Longrightarrow> (step ^^ n) (S 0) = S n"
  by (induction n) auto

subsection \<open>Q4_K and Q5_K\<close>

record block_q4_k =
  q4_k_d :: f32
  q4_k_dmin :: f32
  q4_k_scales :: "byte list"
  q4_k_qs :: "byte list"

definition q4_k_from_bytes :: "byte list \<Rightarrow> (block_q4_k, data_source_error) result" where
  "q4_k_from_bytes bytes =
     (if length bytes < BLOCK_SIZE_Q4_K then Err (DsGeneral ''Q4_K block truncated'')
      else rbind (read_f16_le (byte_range bytes 0 2)) (\<lambda>d. rbind (read_f16_le (byte_range bytes 2 4)) (\<lambda>dmin.
        Ok \<lparr>q4_k_d = d, q4_k_dmin = dmin, q4_k_scales = byte_range bytes 4 16, q4_k_qs = byte_range bytes 16 144\<rparr>)))"

text \<open>The 6-bit scale and minimum of a group of 32 values, packed in 12 bytes.\<close>

definition get_scale_min :: "byte list \<Rightarrow> nat \<Rightarrow> byte \<times> byte" where
  "get_scale_min scales j =
     (if j < 4 then (scales ! j AND 63, scales ! (j + 4) AND 63)
      else ((scales ! (j + 4) AND 0xF) OR push_bit 4 (drop_bit 6 (scales ! (j - 4))),
            drop_bit 4 (scales ! (j + 4)) OR push_bit 4 (drop_bit 6 (scales ! j))))"

type_synonym k_state = "f32 list \<times> nat \<times> nat \<times> nat"

definition q4_k_round :: "block_q4_k \<Rightarrow> k_state \<Rightarrow> k_state" where
  "q4_k_round b s =
     (case s of (out, y_idx, is, q_offset) \<Rightarrow>
        let (sc0, m0) = get_scale_min (q4_k_scales b) is; (sc1, m1) = get_scale_min (q4_k_scales b) (is + 1);
            d1 = fmul (q4_k_d b) (f32_of_u8 sc0); min1 = fmul (q4_k_dmin b) (f32_of_u8 m0);
            d2 = fmul (q4_k_d b) (f32_of_u8 sc1); min2 = fmul (q4_k_dmin b) (f32_of_u8 m1);
            out = write_run y_idx 32 (\<lambda>l. fsub (fmul d1 (f32_of_u8 (q4_k_qs b ! (q_offset + l) AND 0x0F))) min1) out;
            y_idx = y_idx + 32;
            out = write_run y_idx 32 (\<lambda>l. fsub (fmul d2 (f32_of_u8 (drop_bit 4 (q4_k_qs b ! (q_offset + l))))) min2) out
        in (out, y_idx + 32, is + 2, q_offset + 32))"

definition q4_k_dequantize :: "block_q4_k \<Rightarrow> f32 list \<Rightarrow> f32 list" where
  "q4_k_dequantize b out = fst ((q4_k_round b ^^ (QK_K div 64)) (out, 0, 0, 0))"

record block_q5_k =
  q5_k_d :: f32
  q5_k_dmin :: f32
  q5_k_scales :: "byte list"
  q5_k_qh :: "byte list"
  q5_k_qs :: "byte list"

definition q5_k_from_bytes :: "byte list \<Rightarrow> (block_q5_k, data_source_error) result" where
  "q5_k_from_bytes bytes =
     (if length bytes < BLOCK_SIZE_Q5_K then Err (DsGeneral ''Q5_K block truncated'')
      else rbind (read_f16_le (byte_range bytes 0 2)) (\<lambda>d. rbind (read_f16_le (byte_range bytes 2 4)) (\<lambda>dmin.
        Ok \<lparr>q5_k_d = d, q5_k_dmin = dmin, q5_k_scales = byte_range bytes 4 16, q5_k_qh = byte_range bytes 16 48,
            q5_k_qs = byte_range bytes 48 176\<rparr>)))"

definition q5_k_round :: "block_q5_k \<Rightarrow> k_state \<times> byte \<times> byte \<Rightarrow> k_state \<times> byte \<times> byte" where
  "q5_k_round b s =
     (case s of ((out, y_idx, is, q_offset), u1, u2) \<Rightarrow>
        let (sc0, m0) = get_scale_min (q5_k_scales b) is; (sc1, m1) = get_scale_min (q5_k_scales b) (is + 1);
            d1 = fmul (q5_k_d b) (f32_of_u8 sc0); min1 = fmul (q5_k_dmin b) (f32_of_u8 m0);
            d2 = fmul (q5_k_d b) (f32_of_u8 sc1); min2 = fmul (q5_k_dmin b) (f32_of_u8 m1);
            out = write_run y_idx 32 (\<lambda>l.
              let q = q5_k_qs b ! (q_offset + l) AND 0xF;
                  high = (if q5_k_qh b ! (q_offset div 4 + l div 8) AND u1 \<noteq> 0 then 16 else 0) in
              fsub (fmul d1 (f32_of_u8 (q + high))) min1) out;
            y_idx = y_idx + 32;
            out = write_run y_idx 32 (\<lambda>l.
              let q = drop_bit 4 (q5_k_qs b ! (q_offset + l));
                  high = (if q5_k_qh b ! (q_offset div 4 + l div 8) AND u2 \<noteq> 0 then 16 else 0) in
              fsub (fmul d2 (f32_of_u8 (q + high))) min2) out
        in ((out, y_idx + 32, is + 2, q_offset + 32), push_bit 2 u1, push_bit 2 u2))"

definition q5_k_dequantize :: "block_q5_k \<Rightarrow> f32 list \<Rightarrow> f32 list" where
  "q5_k_dequantize b out = fst (fst ((q5_k_round b ^^ (QK_K div 64)) ((out, 0, 0, 0), 1, 2)))"

definition k_nibble :: "byte list \<Rightarrow> nat \<Rightarrow> byte" where
  "k_nibble qs i =
     (let byte = qs ! (32 * (i div 64) + i mod 32) in if even (i div 32) then byte AND 0xF else drop_bit 4 byte)"

definition q4_k_value :: "block_q4_k \<Rightarrow> nat \<Rightarrow> f32" where
  "q4_k_value b i =
     (let (sc, m) = get_scale_min (q4_k_scales b) (i div 32) in
      fsub (fmul (fmul (q4_k_d b) (f32_of_u8 sc)) (f32_of_u8 (k_nibble (q4_k_qs b) i))) (fmul (q4_k_dmin b) (f32_of_u8 m)))"

text \<open>The byte of \<open>qh\<close> and its bit that the code reads for a value: eight values in a row share them.\<close>

definition q5_k_high :: "block_q5_k \<Rightarrow> nat \<Rightarrow> byte" where
  "q5_k_high b i = (if bit (q5_k_qh b ! (8 * (i div 64) + i mod 32 div 8)) (i div 32) then 16 else 0)"

definition q5_k_value :: "block_q5_k \<Rightarrow> nat \<Rightarrow> f32" where
  "q5_k_value b i =
     (let (sc, m) = get_scale_min (q5_k_scales b) (i div 32) in
      fsub (fmul (fmul (q5_k_d b) (f32_of_u8 sc)) (f32_of_u8 (k_nibble (q5_k_qs b) i + q5_k_high b i)))
        (fmul (q5_k_dmin b) (f32_of_u8 m)))"

lemma split_index: "l < m \<Longrightarrow> (m * a + l) div m = a" "l < m \<Longrightarrow> (m * a + l) mod m = l" for m a l :: nat
  by simp_all

lemma group_index:
  fixes k l :: nat
  assumes "l < 32"
  shows "(64 * k + l) div 32 = 2 * k" "(64 * k + 32 + l) div 32 = 2 * k + 1"
    "(64 * k + l) div 64 = k" "(64 * k + 32 + l) div 64 = k" "(64 * k + l) mod 32 = l" "(64 * k + 32 + l) mod 32 = l"
proof -
  have e: "64 * k + l = 32 * (2 * k) + l" "64 * k + 32 + l = 32 * (2 * k + 1) + l" "64 * k + 32 + l = 64 * k + (32 + l)"
    by simp_all
  show "(64 * k + l) div 32 = 2 * k" "(64 * k + l) mod 32 = l" unfolding e(1) using assms by (rule split_index)+
  show "(64 * k + 32 + l) div 32 = 2 * k + 1" "(64 * k + 32 + l) mod 32 = l" unfolding e(2) using assms by (rule split_index)+
  have l: "l < 64" "32 + l < 64" using assms by simp_all
  show "(64 * k + l) div 64 = k" using l(1) by (rule split_index)
  show "(64 * k + 32 + l) div 64 = k" unfolding e(3) using l(2) by (rule split_index)
qed

lemma even_group: "even (2 * k)" "odd (2 * k + 1)" for k :: nat
  by simp_all

lemma two_runs_filled:
  assumes "\<And>l. l < 32 \<Longrightarrow> g l = v (64 * k + l)" "\<And>l. l < 32 \<Longrightarrow> h l = v (64 * k + 32 + l)" "k < 4" "length out = 256"
  shows "write_run (64 * k + 32) 32 h (write_run (64 * k) 32 g (filled v (64 * k) out)) = filled v (64 * Suc k) out"
  using write_run_filled [of "64 * k" 32 out g v] write_run_filled [of "64 * k + 32" 32 out h v] assms by (simp add: add.assoc add.commute [of 64])

lemma q4_k_round_filled:
  assumes "k < 4" "length out = 256"
  shows "q4_k_round b (filled (q4_k_value b) (64 * k) out, 64 * k, 2 * k, 32 * k)
    = (filled (q4_k_value b) (64 * Suc k) out, 64 * Suc k, 2 * Suc k, 32 * Suc k)"
proof -
  obtain sc0 m0 where 0: "get_scale_min (q4_k_scales b) (2 * k) = (sc0, m0)" by fastforce
  obtain sc1 m1 where 1: "get_scale_min (q4_k_scales b) (2 * k + 1) = (sc1, m1)" by fastforce
  let ?g = "\<lambda>l. fsub (fmul (fmul (q4_k_d b) (f32_of_u8 sc0)) (f32_of_u8 (q4_k_qs b ! (32 * k + l) AND 0x0F)))
    (fmul (q4_k_dmin b) (f32_of_u8 m0))"
  let ?h = "\<lambda>l. fsub (fmul (fmul (q4_k_d b) (f32_of_u8 sc1)) (f32_of_u8 (drop_bit 4 (q4_k_qs b ! (32 * k + l)))))
    (fmul (q4_k_dmin b) (f32_of_u8 m1))"
  have "?g l = q4_k_value b (64 * k + l)" "?h l = q4_k_value b (64 * k + 32 + l)" if "l < 32" for l
    unfolding q4_k_value_def k_nibble_def group_index [OF that] 0 1 Let_def prod.case by simp_all
  then have w: "write_run (64 * k + 32) 32 ?h (write_run (64 * k) 32 ?g (filled (q4_k_value b) (64 * k) out))
    = filled (q4_k_value b) (64 * Suc k) out"
    using two_runs_filled [of ?g "q4_k_value b" k ?h out] assms by blast
  show ?thesis unfolding q4_k_round_def Let_def prod.case 0 1 w by simp
qed

lemma q4_k_dequantize_all:
  assumes "length out = 256"
  shows "q4_k_dequantize b out = map (q4_k_value b) [0..<256]"
proof -
  have "(q4_k_round b ^^ 4) (filled (q4_k_value b) (64 * 0) out, 64 * 0, 2 * 0, 32 * 0)
    = (filled (q4_k_value b) (64 * 4) out, 64 * 4, 2 * 4, 32 * 4)"
    using q4_k_round_filled assms
    by (intro iterate [of 4 "q4_k_round b" "\<lambda>k. (filled (q4_k_value b) (64 * k) out, 64 * k, 2 * k, 32 * k)"]) blast
  then show ?thesis using assms by (simp add: q4_k_dequantize_def QK_K_def filled_all)
qed

text \<open>The masks of a round are single bits.\<close>

lemma and_single_bit: "x AND push_bit n 1 \<noteq> 0 \<longleftrightarrow> bit x n" for x :: "'a :: len word"
  by (metis and_exp_eq_0_iff_not_bit push_bit_of_1)

lemma q5_k_round_filled:
  assumes "k < 4" "length out = 256"
  shows "q5_k_round b ((filled (q5_k_value b) (64 * k) out, 64 * k, 2 * k, 32 * k), push_bit (2 * k) 1, push_bit (2 * k + 1) 1)
    = ((filled (q5_k_value b) (64 * Suc k) out, 64 * Suc k, 2 * Suc k, 32 * Suc k), push_bit (2 * Suc k) 1, push_bit (2 * Suc k + 1) 1)"
proof -
  obtain sc0 m0 where 0: "get_scale_min (q5_k_scales b) (2 * k) = (sc0, m0)" by fastforce
  obtain sc1 m1 where 1: "get_scale_min (q5_k_scales b) (2 * k + 1) = (sc1, m1)" by fastforce
  let ?g = "\<lambda>l. fsub (fmul (fmul (q5_k_d b) (f32_of_u8 sc0)) (f32_of_u8 ((q5_k_qs b ! (32 * k + l) AND 0xF)
      + (if q5_k_qh b ! (32 * k div 4 + l div 8) AND push_bit (2 * k) 1 \<noteq> 0 then 16 else 0)))) (fmul (q5_k_dmin b) (f32_of_u8 m0))"
  let ?h = "\<lambda>l. fsub (fmul (fmul (q5_k_d b) (f32_of_u8 sc1)) (f32_of_u8 (drop_bit 4 (q5_k_qs b ! (32 * k + l))
      + (if q5_k_qh b ! (32 * k div 4 + l div 8) AND push_bit (2 * k + 1) 1 \<noteq> 0 then 16 else 0)))) (fmul (q5_k_dmin b) (f32_of_u8 m1))"
  have d: "32 * k div 4 = 8 * k" by simp
  have "?g l = q5_k_value b (64 * k + l)" "?h l = q5_k_value b (64 * k + 32 + l)" if "l < 32" for l
    unfolding q5_k_value_def q5_k_high_def k_nibble_def group_index [OF that] 0 1 Let_def prod.case and_single_bit d by simp_all
  then have w: "write_run (64 * k + 32) 32 ?h (write_run (64 * k) 32 ?g (filled (q5_k_value b) (64 * k) out))
    = filled (q5_k_value b) (64 * Suc k) out"
    using two_runs_filled [of ?g "q5_k_value b" k ?h out] assms by blast
  have "push_bit 2 (push_bit (2 * k) 1) = push_bit (2 * Suc k) (1 :: byte)" "push_bit 2 (push_bit (2 * k + 1) 1) = push_bit (2 * Suc k + 1) (1 :: byte)"
    by (simp_all only: push_bit_push_bit) simp_all
  then show ?thesis unfolding q5_k_round_def Let_def prod.case 0 1 w by simp
qed

lemma q5_k_dequantize_all:
  assumes "length out = 256"
  shows "q5_k_dequantize b out = map (q5_k_value b) [0..<256]"
proof -
  let ?S = "\<lambda>k. ((filled (q5_k_value b) (64 * k) out, 64 * k, 2 * k, 32 * k), push_bit (2 * k) 1, push_bit (2 * k + 1) 1)"
  have "(q5_k_round b ^^ 4) (?S 0) = ?S 4"
    using q5_k_round_filled assms by (intro iterate) blast
  then show ?thesis using assms by (simp add: q5_k_dequantize_def QK_K_def filled_all)
qed

subsection \<open>Q6_K\<close>

record block_q6_k =
  q6_k_ql :: "byte list"
  q6_k_qh :: "byte list"
  q6_k_scales :: "byte list"
  q6_k_d :: f32

definition q6_k_from_bytes :: "byte list \<Rightarrow> (block_q6_k, data_source_error) result" where
  "q6_k_from_bytes bytes =
     (if length bytes < BLOCK_SIZE_Q6_K then Err (DsGeneral ''Q6_K block truncated'')
      else rbind (read_f16_le (byte_range bytes (192 + 16) (192 + 18))) (\<lambda>d.
        Ok \<lparr>q6_k_ql = byte_range bytes 0 128, q6_k_qh = byte_range bytes 128 192,
            q6_k_scales = map (\<lambda>i. bytes ! (192 + i)) [0..<16], q6_k_d = d\<rparr>))"

definition q6_k_round :: "block_q6_k \<Rightarrow> k_state \<times> nat \<Rightarrow> k_state \<times> nat" where
  "q6_k_round b s =
     (case s of ((out, y_pos, ql_off, qh_off), sc_off) \<Rightarrow>
        let ql = q6_k_ql b; qh = q6_k_qh b; sc = q6_k_scales b;
            out = fold (\<lambda>l out.
              let is = l div 16;
                  q1 = ((ql ! (ql_off + l) AND 0xF) OR push_bit 4 (qh ! (qh_off + l) AND 3)) - 32;
                  q2 = ((ql ! (ql_off + 32 + l) AND 0xF) OR push_bit 4 (drop_bit 2 (qh ! (qh_off + l)) AND 3)) - 32;
                  q3 = (drop_bit 4 (ql ! (ql_off + l)) OR push_bit 4 (drop_bit 4 (qh ! (qh_off + l)) AND 3)) - 32;
                  q4 = (drop_bit 4 (ql ! (ql_off + 32 + l)) OR push_bit 4 (drop_bit 6 (qh ! (qh_off + l)) AND 3)) - 32 in
              out[y_pos + l := fmul (fmul (q6_k_d b) (f32_of_i8 (sc ! (sc_off + is)))) (f32_of_i8 q1),
                  y_pos + l + 32 := fmul (fmul (q6_k_d b) (f32_of_i8 (sc ! (sc_off + is + 2)))) (f32_of_i8 q2),
                  y_pos + l + 64 := fmul (fmul (q6_k_d b) (f32_of_i8 (sc ! (sc_off + is + 4)))) (f32_of_i8 q3),
                  y_pos + l + 96 := fmul (fmul (q6_k_d b) (f32_of_i8 (sc ! (sc_off + is + 6)))) (f32_of_i8 q4)]) [0..<32] out
        in ((out, y_pos + 128, ql_off + 64, qh_off + 32), sc_off + 8))"

definition q6_k_dequantize :: "block_q6_k \<Rightarrow> f32 list \<Rightarrow> f32 list" where
  "q6_k_dequantize b out = fst (fst ((q6_k_round b ^^ (QK_K div 128)) ((out, 0, 0, 0), 0)))"

text \<open>The 6-bit number at a place: four bits of \<open>ql\<close> and two of \<open>qh\<close>, for the half \<open>h\<close>, quarter \<open>g\<close> and place \<open>l\<close>.\<close>

definition q6_k_quant :: "block_q6_k \<Rightarrow> nat \<Rightarrow> nat \<Rightarrow> nat \<Rightarrow> byte" where
  "q6_k_quant b h g l =
     (let low = q6_k_ql b ! (64 * h + 32 * (g mod 2) + l) in
      (if g < 2 then low AND 0xF else drop_bit 4 low) OR push_bit 4 (drop_bit (2 * g) (q6_k_qh b ! (32 * h + l)) AND 3))"

definition q6_k_value :: "block_q6_k \<Rightarrow> nat \<Rightarrow> f32" where
  "q6_k_value b i =
     (let h = i div 128; g = i mod 128 div 32; l = i mod 32 in
      fmul (fmul (q6_k_d b) (f32_of_i8 (q6_k_scales b ! (8 * h + l div 16 + 2 * g)))) (f32_of_i8 (q6_k_quant b h g l - 32)))"

lemma half_index:
  fixes k l :: nat
  assumes "l < 32" "g < 4"
  shows "(128 * k + 32 * g + l) div 128 = k" "(128 * k + 32 * g + l) mod 128 div 32 = g" "(128 * k + 32 * g + l) mod 32 = l"
proof -
  have lt: "32 * g + l < 128" using assms by linarith
  have e: "128 * k + 32 * g + l = 128 * k + (32 * g + l)" "128 * k + 32 * g + l = 32 * (4 * k + g) + l" by simp_all
  show "(128 * k + 32 * g + l) div 128 = k" unfolding e(1) using lt by (rule split_index)
  show "(128 * k + 32 * g + l) mod 128 div 32 = g"
    unfolding e(1) split_index(2) [OF lt] using assms(1) by (rule split_index)
  show "(128 * k + 32 * g + l) mod 32 = l" unfolding e(2) using assms(1) by (rule split_index)
qed

lemma four_runs_filled:
  assumes "\<And>l. l < 32 \<Longrightarrow> g1 l = v (128 * k + 32 * 0 + l)" "\<And>l. l < 32 \<Longrightarrow> g2 l = v (128 * k + 32 * 1 + l)"
    "\<And>l. l < 32 \<Longrightarrow> g3 l = v (128 * k + 32 * 2 + l)" "\<And>l. l < 32 \<Longrightarrow> g4 l = v (128 * k + 32 * 3 + l)"
    "k < 2" "length out = 256"
  shows "write_run (128 * k + 96) 32 g4 (write_run (128 * k + 64) 32 g3 (write_run (128 * k + 32) 32 g2
    (write_run (128 * k) 32 g1 (filled v (128 * k) out)))) = filled v (128 * Suc k) out"
proof -
  have "write_run (128 * k) 32 g1 (filled v (128 * k) out) = filled v (128 * k + 32) out"
    using assms by (intro write_run_filled) auto
  moreover have "write_run (128 * k + 32) 32 g2 (filled v (128 * k + 32) out) = filled v (128 * k + 32 + 32) out"
    using assms by (intro write_run_filled) auto
  moreover have "write_run (128 * k + 64) 32 g3 (filled v (128 * k + 64) out) = filled v (128 * k + 64 + 32) out"
    using assms by (intro write_run_filled) auto
  moreover have "write_run (128 * k + 96) 32 g4 (filled v (128 * k + 96) out) = filled v (128 * k + 96 + 32) out"
    using assms by (intro write_run_filled) auto
  moreover have "128 * k + 32 + 32 = 128 * k + 64" "128 * k + 64 + 32 = 128 * k + 96" "128 * k + 96 + 32 = 128 * Suc k" by simp_all
  ultimately show ?thesis by metis
qed

lemma q6_k_round_filled:
  assumes "k < 2" "length out = 256"
  shows "q6_k_round b ((filled (q6_k_value b) (128 * k) out, 128 * k, 64 * k, 32 * k), 8 * k)
    = ((filled (q6_k_value b) (128 * Suc k) out, 128 * Suc k, 64 * Suc k, 32 * Suc k), 8 * Suc k)"
proof -
  let ?ql = "q6_k_ql b" and ?qh = "q6_k_qh b" and ?sc = "q6_k_scales b"
  let ?v = "\<lambda>s q. fmul (fmul (q6_k_d b) (f32_of_i8 s)) (f32_of_i8 q)"
  let ?g1 = "\<lambda>l. ?v (?sc ! (8 * k + l div 16)) (((?ql ! (64 * k + l) AND 0xF) OR push_bit 4 (?qh ! (32 * k + l) AND 3)) - 32)"
  let ?g2 = "\<lambda>l. ?v (?sc ! (8 * k + l div 16 + 2)) (((?ql ! (64 * k + 32 + l) AND 0xF) OR push_bit 4 (drop_bit 2 (?qh ! (32 * k + l)) AND 3)) - 32)"
  let ?g3 = "\<lambda>l. ?v (?sc ! (8 * k + l div 16 + 4)) ((drop_bit 4 (?ql ! (64 * k + l)) OR push_bit 4 (drop_bit 4 (?qh ! (32 * k + l)) AND 3)) - 32)"
  let ?g4 = "\<lambda>l. ?v (?sc ! (8 * k + l div 16 + 6)) ((drop_bit 4 (?ql ! (64 * k + 32 + l)) OR push_bit 4 (drop_bit 6 (?qh ! (32 * k + l)) AND 3)) - 32)"
  have v: "q6_k_value b (128 * k + 32 * g + l) = ?v (?sc ! (8 * k + l div 16 + 2 * g)) (q6_k_quant b k g l - 32)"
    if "l < 32" "g < 4" for g l
    unfolding q6_k_value_def half_index [OF that] Let_def ..
  have "?g1 l = q6_k_value b (128 * k + 32 * 0 + l)" "?g2 l = q6_k_value b (128 * k + 32 * 1 + l)"
    "?g3 l = q6_k_value b (128 * k + 32 * 2 + l)" "?g4 l = q6_k_value b (128 * k + 32 * 3 + l)" if "l < 32" for l
    by (subst v; simp add: that q6_k_quant_def)+
  then have w: "write_run (128 * k + 96) 32 ?g4 (write_run (128 * k + 64) 32 ?g3 (write_run (128 * k + 32) 32 ?g2
    (write_run (128 * k) 32 ?g1 (filled (q6_k_value b) (128 * k) out)))) = filled (q6_k_value b) (128 * Suc k) out"
    using four_runs_filled [of ?g1 "q6_k_value b" k ?g2 ?g3 ?g4 out] assms by blast
  show ?thesis unfolding q6_k_round_def Let_def prod.case write_four_runs [OF order_refl] w by simp
qed

lemma q6_k_dequantize_all:
  assumes "length out = 256"
  shows "q6_k_dequantize b out = map (q6_k_value b) [0..<256]"
proof -
  let ?S = "\<lambda>k. ((filled (q6_k_value b) (128 * k) out, 128 * k, 64 * k, 32 * k), 8 * k)"
  have "(q6_k_round b ^^ 2) (?S 0) = ?S 2"
    using q6_k_round_filled assms by (intro iterate) blast
  then show ?thesis using assms by (simp add: q6_k_dequantize_def QK_K_def filled_all)
qed

subsection \<open>Q2_K\<close>

record block_q2_k =
  q2_k_scales :: "byte list"
  q2_k_qs :: "byte list"
  q2_k_d :: f32
  q2_k_dmin :: f32

definition q2_k_from_bytes :: "byte list \<Rightarrow> (block_q2_k, data_source_error) result" where
  "q2_k_from_bytes bytes =
     (if length bytes < BLOCK_SIZE_Q2_K then Err (DsGeneral ''Q2_K block truncated'')
      else rbind (read_f16_le (byte_range bytes 80 82)) (\<lambda>d. rbind (read_f16_le (byte_range bytes 82 84)) (\<lambda>dmin.
        Ok \<lparr>q2_k_scales = byte_range bytes 0 16, q2_k_qs = byte_range bytes 16 80, q2_k_d = d, q2_k_dmin = dmin\<rparr>)))"

text \<open>The inner loop's state: the buffer, \<open>y_idx\<close>, \<open>is\<close> and \<open>shift\<close>; the outer loop adds \<open>q_offset\<close>.\<close>

definition q2_k_pair :: "block_q2_k \<Rightarrow> nat \<Rightarrow> k_state \<Rightarrow> k_state" where
  "q2_k_pair b q_offset s =
     (case s of (out, y_idx, is, shift) \<Rightarrow>
        let sc = q2_k_scales b ! is;
            dl = fmul (q2_k_d b) (f32_of_u8 (sc AND 0xF)); ml = fmul (q2_k_dmin b) (f32_of_u8 (drop_bit 4 sc));
            is = is + 1;
            out = write_run y_idx 16 (\<lambda>l. fsub (fmul dl (f32_of_i8 (drop_bit shift (q2_k_qs b ! (q_offset + l)) AND 3))) ml) out;
            y_idx = y_idx + 16;
            sc = q2_k_scales b ! is;
            dl = fmul (q2_k_d b) (f32_of_u8 (sc AND 0xF)); ml = fmul (q2_k_dmin b) (f32_of_u8 (drop_bit 4 sc));
            is = is + 1;
            out = write_run y_idx 16 (\<lambda>l. fsub (fmul dl (f32_of_i8 (drop_bit shift (q2_k_qs b ! (q_offset + 16 + l)) AND 3))) ml) out
        in (out, y_idx + 16, is, shift + 2))"

definition q2_k_round :: "block_q2_k \<Rightarrow> k_state \<Rightarrow> k_state" where
  "q2_k_round b s =
     (case s of (out, y_idx, is, q_offset) \<Rightarrow>
        case (q2_k_pair b q_offset ^^ 4) (out, y_idx, is, 0) of (out, y_idx, is, _) \<Rightarrow> (out, y_idx, is, q_offset + 32))"

definition q2_k_dequantize :: "block_q2_k \<Rightarrow> f32 list \<Rightarrow> f32 list" where
  "q2_k_dequantize b out = fst ((q2_k_round b ^^ (QK_K div 128)) (out, 0, 0, 0))"

text \<open>A 2-bit number: half \<open>h\<close> of the block, its quarter \<open>g\<close>, place \<open>p\<close> of the quarter.\<close>

definition quarter_bits :: "byte list \<Rightarrow> nat \<Rightarrow> nat \<Rightarrow> nat \<Rightarrow> byte" where
  "quarter_bits qs h g p = drop_bit (2 * g) (qs ! (32 * h + p)) AND 3"

definition q2_k_value :: "block_q2_k \<Rightarrow> nat \<Rightarrow> f32" where
  "q2_k_value b i =
     (let sc = q2_k_scales b ! (i div 16); q = quarter_bits (q2_k_qs b) (i div 128) (i mod 128 div 32) (i mod 32) in
      fsub (fmul (fmul (q2_k_d b) (f32_of_u8 (sc AND 0xF))) (f32_of_i8 q)) (fmul (q2_k_dmin b) (f32_of_u8 (drop_bit 4 sc))))"

lemma pair_index:
  fixes h g l :: nat
  assumes "l < 16" "g < 4" "s < 2"
  shows "(128 * h + 32 * g + 16 * s + l) div 16 = 8 * h + 2 * g + s" "(128 * h + 32 * g + 16 * s + l) div 128 = h"
    "(128 * h + 32 * g + 16 * s + l) mod 128 div 32 = g" "(128 * h + 32 * g + 16 * s + l) mod 32 = 16 * s + l"
proof -
  have p: "16 * s + l < 32" using assms by linarith
  have e: "128 * h + 32 * g + 16 * s + l = 16 * (8 * h + 2 * g + s) + l"
    "128 * h + 32 * g + 16 * s + l = 128 * h + 32 * g + (16 * s + l)" by simp_all
  show "(128 * h + 32 * g + 16 * s + l) div 16 = 8 * h + 2 * g + s" unfolding e(1) using assms(1) by (rule split_index)
  show "(128 * h + 32 * g + 16 * s + l) div 128 = h" "(128 * h + 32 * g + 16 * s + l) mod 128 div 32 = g"
    "(128 * h + 32 * g + 16 * s + l) mod 32 = 16 * s + l"
    unfolding e(2) using half_index [OF p assms(2)] by simp_all
qed

text \<open>A round of the inner loop fills 32 values, 16 with each of two scales.\<close>

lemma pair_runs_filled:
  assumes "\<And>l. l < 16 \<Longrightarrow> a l = v (128 * h + 32 * g + 16 * 0 + l)" "\<And>l. l < 16 \<Longrightarrow> c l = v (128 * h + 32 * g + 16 * 1 + l)"
    "h < 2" "g < 4" "length out = 256"
  shows "write_run (128 * h + 32 * g + 16) 16 c (write_run (128 * h + 32 * g) 16 a (filled v (128 * h + 32 * g) out))
    = filled v (128 * h + 32 * Suc g) out"
proof -
  have le: "128 * h + 32 * g + 32 \<le> length out" using assms by linarith
  have "write_run (128 * h + 32 * g) 16 a (filled v (128 * h + 32 * g) out) = filled v (128 * h + 32 * g + 16) out"
    using assms(1) le by (intro write_run_filled) simp_all
  moreover have "write_run (128 * h + 32 * g + 16) 16 c (filled v (128 * h + 32 * g + 16) out) = filled v (128 * h + 32 * g + 16 + 16) out"
    by (rule write_run_filled) (use assms(2) le in simp_all)
  moreover have "128 * h + 32 * g + 16 + 16 = 128 * h + 32 * Suc g" by simp
  ultimately show ?thesis by metis
qed

lemma q2_k_pair_filled:
  assumes "h < 2" "g < 4" "length out = 256"
  shows "q2_k_pair b (32 * h) (filled (q2_k_value b) (128 * h + 32 * g) out, 128 * h + 32 * g, 8 * h + 2 * g, 2 * g)
    = (filled (q2_k_value b) (128 * h + 32 * Suc g) out, 128 * h + 32 * Suc g, 8 * h + 2 * Suc g, 2 * Suc g)"
proof -
  let ?f = "\<lambda>s l. fsub (fmul (fmul (q2_k_d b) (f32_of_u8 (q2_k_scales b ! s AND 0xF)))
    (f32_of_i8 (drop_bit (2 * g) (q2_k_qs b ! l) AND 3))) (fmul (q2_k_dmin b) (f32_of_u8 (drop_bit 4 (q2_k_scales b ! s))))"
  have v: "q2_k_value b (128 * h + 32 * g + 16 * s + l) = ?f (8 * h + 2 * g + s) (32 * h + (16 * s + l))" if "l < 16" "s < 2" for s l
    unfolding q2_k_value_def quarter_bits_def pair_index [OF that(1) assms(2) that(2)] Let_def ..
  have "?f (8 * h + 2 * g) (32 * h + l) = q2_k_value b (128 * h + 32 * g + 16 * 0 + l)"
    "?f (8 * h + 2 * g + 1) (32 * h + 16 + l) = q2_k_value b (128 * h + 32 * g + 16 * 1 + l)" if "l < 16" for l
    by (subst v; simp add: that add.assoc)+
  then have w: "write_run (128 * h + 32 * g + 16) 16 (\<lambda>l. ?f (8 * h + 2 * g + 1) (32 * h + 16 + l))
      (write_run (128 * h + 32 * g) 16 (\<lambda>l. ?f (8 * h + 2 * g) (32 * h + l)) (filled (q2_k_value b) (128 * h + 32 * g) out))
    = filled (q2_k_value b) (128 * h + 32 * Suc g) out"
    using assms by (intro pair_runs_filled) auto
  show ?thesis unfolding q2_k_pair_def Let_def prod.case w by simp
qed

lemma q2_k_round_filled:
  assumes "h < 2" "length out = 256"
  shows "q2_k_round b (filled (q2_k_value b) (128 * h) out, 128 * h, 8 * h, 32 * h)
    = (filled (q2_k_value b) (128 * Suc h) out, 128 * Suc h, 8 * Suc h, 32 * Suc h)"
proof -
  let ?S = "\<lambda>g. (filled (q2_k_value b) (128 * h + 32 * g) out, 128 * h + 32 * g, 8 * h + 2 * g, 2 * g)"
  have "(q2_k_pair b (32 * h) ^^ 4) (?S 0) = ?S 4"
    using q2_k_pair_filled [OF assms(1) _ assms(2)] by (intro iterate) blast
  then show ?thesis by (simp add: q2_k_round_def add.commute)
qed

lemma q2_k_dequantize_all:
  assumes "length out = 256"
  shows "q2_k_dequantize b out = map (q2_k_value b) [0..<256]"
proof -
  let ?S = "\<lambda>h. (filled (q2_k_value b) (128 * h) out, 128 * h, 8 * h, 32 * h)"
  have "(q2_k_round b ^^ 2) (?S 0) = ?S 2"
    using q2_k_round_filled [OF _ assms] by (intro iterate) blast
  then show ?thesis using assms by (simp add: q2_k_dequantize_def QK_K_def filled_all)
qed

subsection \<open>Q3_K\<close>

record block_q3_k =
  q3_k_hmask :: "byte list"
  q3_k_qs :: "byte list"
  q3_k_scales :: "byte list"
  q3_k_d :: f32

definition q3_k_from_bytes :: "byte list \<Rightarrow> (block_q3_k, data_source_error) result" where
  "q3_k_from_bytes bytes =
     (if length bytes < BLOCK_SIZE_Q3_K then Err (DsGeneral ''Q3_K block truncated'')
      else rbind (read_f16_le (byte_range bytes 108 110)) (\<lambda>d.
        Ok \<lparr>q3_k_hmask = byte_range bytes 0 32, q3_k_qs = byte_range bytes 32 96, q3_k_scales = byte_range bytes 96 108,
            q3_k_d = d\<rparr>))"

text \<open>\<open>u32::to_le_bytes\<close>, and the sixteen scales unpacked from twelve bytes.\<close>

definition to_le_bytes32 :: "32 word \<Rightarrow> byte list" where
  "to_le_bytes32 w = map (\<lambda>k. ucast (drop_bit (8 * k) w)) [0..<4]"

definition q3_k_unpack :: "byte list \<Rightarrow> byte list" where
  "q3_k_unpack scales =
     (let word_at = (\<lambda>i. u32_of_le [scales ! (i * 4), scales ! (i * 4 + 1), scales ! (i * 4 + 2), scales ! (i * 4 + 3)]);
          kmask1 = 0x03030303; kmask2 = 0x0F0F0F0F;
          tmp = word_at 2; aux0_orig = word_at 0; aux1_orig = word_at 1;
          aux2 = (drop_bit 4 aux0_orig AND kmask2) OR push_bit 4 (drop_bit 4 tmp AND kmask1);
          aux3 = (drop_bit 4 aux1_orig AND kmask2) OR push_bit 4 (drop_bit 6 tmp AND kmask1);
          aux0 = (aux0_orig AND kmask2) OR push_bit 4 (drop_bit 0 tmp AND kmask1);
          aux1 = (aux1_orig AND kmask2) OR push_bit 4 (drop_bit 2 tmp AND kmask1)
      in concat (map to_le_bytes32 [aux0, aux1, aux2, aux3]))"

text \<open>The inner loop's state: the buffer, \<open>y_idx\<close>, \<open>shift\<close> and the mask \<open>m\<close>; \<open>j\<close> is its counter.\<close>

definition q3_k_pair :: "block_q3_k \<Rightarrow> byte list \<Rightarrow> nat \<Rightarrow> nat \<Rightarrow> f32 list \<times> nat \<times> nat \<times> byte \<Rightarrow> f32 list \<times> nat \<times> nat \<times> byte" where
  "q3_k_pair b scales_i8 q_offset j s =
     (case s of (out, y_idx, shift, m) \<Rightarrow>
        let sc = sint (scales_i8 ! j) - 32; dl = fmul (q3_k_d b) (f32_of_int sc);
            out = write_run y_idx 16 (\<lambda>l.
              let q = drop_bit shift (q3_k_qs b ! (q_offset + l)) AND 3;
                  q = q - (if q3_k_hmask b ! l AND m \<noteq> 0 then 0 else 4) in fmul dl (f32_of_i8 q)) out;
            y_idx = y_idx + 16;
            sc = sint (scales_i8 ! (j + 4)) - 32; dl = fmul (q3_k_d b) (f32_of_int sc);
            out = write_run y_idx 16 (\<lambda>l.
              let q = drop_bit shift (q3_k_qs b ! (q_offset + 16 + l)) AND 3;
                  q = q - (if q3_k_hmask b ! (16 + l) AND m \<noteq> 0 then 0 else 4) in fmul dl (f32_of_i8 q)) out
        in (out, y_idx + 16, shift + 2, push_bit 1 m))"

definition q3_k_round :: "block_q3_k \<Rightarrow> byte list \<Rightarrow> f32 list \<times> nat \<times> nat \<times> byte \<Rightarrow> f32 list \<times> nat \<times> nat \<times> byte" where
  "q3_k_round b scales_i8 s =
     (case s of (out, y_idx, q_offset, m) \<Rightarrow>
        case fold (q3_k_pair b scales_i8 q_offset) [0..<4] (out, y_idx, 0, m) of
          (out, y_idx, _, m) \<Rightarrow> (out, y_idx, q_offset + 32, m))"

definition q3_k_dequantize :: "block_q3_k \<Rightarrow> f32 list \<Rightarrow> f32 list" where
  "q3_k_dequantize b out = fst ((q3_k_round b (q3_k_unpack (q3_k_scales b)) ^^ (QK_K div 128)) (out, 0, 0, 1))"

text \<open>The scale the code takes for a value: one of the first eight, in both halves.\<close>

definition q3_k_scale_index :: "nat \<Rightarrow> nat" where
  "q3_k_scale_index i = i mod 128 div 32 + (if i mod 32 < 16 then 0 else 4)"

definition q3_k_value :: "block_q3_k \<Rightarrow> nat \<Rightarrow> f32" where
  "q3_k_value b i =
     (let h = i div 128; g = i mod 128 div 32; p = i mod 32;
          sc = sint (q3_k_unpack (q3_k_scales b) ! q3_k_scale_index i) - 32;
          q = quarter_bits (q3_k_qs b) h g p - (if bit (q3_k_hmask b ! p) (4 * h + g) then 0 else 4)
      in fmul (fmul (q3_k_d b) (f32_of_int sc)) (f32_of_i8 q))"

lemma fold_iterate: "(\<And>k. k < n \<Longrightarrow> f k (S k) = S (Suc k)) \<Longrightarrow> fold f [0..<n] (S 0) = S n"
  by (induction n) auto

lemma q3_k_pair_filled:
  assumes "h < 2" "g < 4" "length out = 256"
  shows "q3_k_pair b (q3_k_unpack (q3_k_scales b)) (32 * h) g
      (filled (q3_k_value b) (128 * h + 32 * g) out, 128 * h + 32 * g, 2 * g, push_bit (4 * h + g) 1)
    = (filled (q3_k_value b) (128 * h + 32 * Suc g) out, 128 * h + 32 * Suc g, 2 * Suc g, push_bit (4 * h + Suc g) 1)"
proof -
  let ?sc = "q3_k_unpack (q3_k_scales b)"
  let ?f = "\<lambda>s p l. fmul (fmul (q3_k_d b) (f32_of_int (sint (?sc ! s) - 32)))
    (f32_of_i8 ((drop_bit (2 * g) (q3_k_qs b ! l) AND 3) - (if q3_k_hmask b ! p AND push_bit (4 * h + g) 1 \<noteq> 0 then 0 else 4)))"
  have v: "q3_k_value b (128 * h + 32 * g + 16 * s + l) = ?f (g + 4 * s) (16 * s + l) (32 * h + (16 * s + l))" if "l < 16" "s < 2" for s l
    unfolding q3_k_value_def quarter_bits_def q3_k_scale_index_def pair_index [OF that(1) assms(2) that(2)] Let_def and_single_bit
    using that by (cases s) auto
  have "?f g l (32 * h + l) = q3_k_value b (128 * h + 32 * g + 16 * 0 + l)"
    "?f (g + 4) (16 + l) (32 * h + 16 + l) = q3_k_value b (128 * h + 32 * g + 16 * 1 + l)" if "l < 16" for l
    by (subst v; simp add: that add.assoc)+
  then have w: "write_run (128 * h + 32 * g + 16) 16 (\<lambda>l. ?f (g + 4) (16 + l) (32 * h + 16 + l))
      (write_run (128 * h + 32 * g) 16 (\<lambda>l. ?f g l (32 * h + l)) (filled (q3_k_value b) (128 * h + 32 * g) out))
    = filled (q3_k_value b) (128 * h + 32 * Suc g) out"
    using assms by (intro pair_runs_filled) auto
  show ?thesis unfolding q3_k_pair_def Let_def prod.case w by simp
qed

lemma q3_k_round_filled:
  assumes "h < 2" "length out = 256"
  shows "q3_k_round b (q3_k_unpack (q3_k_scales b)) (filled (q3_k_value b) (128 * h) out, 128 * h, 32 * h, push_bit (4 * h) 1)
    = (filled (q3_k_value b) (128 * Suc h) out, 128 * Suc h, 32 * Suc h, push_bit (4 * Suc h) 1)"
proof -
  let ?S = "\<lambda>g. (filled (q3_k_value b) (128 * h + 32 * g) out, 128 * h + 32 * g, 2 * g, push_bit (4 * h + g) 1)"
  have "fold (q3_k_pair b (q3_k_unpack (q3_k_scales b)) (32 * h)) [0..<4] (?S 0) = ?S 4"
    using q3_k_pair_filled [OF assms(1) _ assms(2)] by (intro fold_iterate) blast
  then show ?thesis by (simp add: q3_k_round_def add.commute del: push_bit_of_1)
qed

lemma q3_k_dequantize_all:
  assumes "length out = 256"
  shows "q3_k_dequantize b out = map (q3_k_value b) [0..<256]"
proof -
  let ?S = "\<lambda>h. (filled (q3_k_value b) (128 * h) out, 128 * h, 32 * h, push_bit (4 * h) 1)"
  have "(q3_k_round b (q3_k_unpack (q3_k_scales b)) ^^ 2) (?S 0) = ?S 2"
    using q3_k_round_filled [OF _ assms] by (intro iterate) blast
  then show ?thesis using assms by (simp add: q3_k_dequantize_def QK_K_def filled_all)
qed

subsection \<open>Q8_K\<close>

record block_q8_k =
  q8_k_d :: f32
  q8_k_qs :: "byte list"
  q8_k_bsums :: "16 word list"

definition q8_k_from_bytes :: "byte list \<Rightarrow> (block_q8_k, data_source_error) result" where
  "q8_k_from_bytes bytes =
     (if length bytes < BLOCK_SIZE_Q8_K then Err (DsGeneral ''Q8_K block truncated'')
      else rbind (read_f32_le (byte_range bytes 0 4)) (\<lambda>d.
        Ok \<lparr>q8_k_d = d, q8_k_qs = map (\<lambda>i. bytes ! (4 + i)) [0..<256],
            q8_k_bsums = map (\<lambda>i. let off = 4 + 256 + i * 2 in u16_of_le [bytes ! off, bytes ! (off + 1)]) [0..<16]\<rparr>))"

definition q8_k_dequantize :: "block_q8_k \<Rightarrow> f32 list \<Rightarrow> f32 list" where
  "q8_k_dequantize b out = fold (\<lambda>i out. out[i := fmul (q8_k_d b) (f32_of_i8 (q8_k_qs b ! i))]) [0..<256] out"

definition q8_k_value :: "block_q8_k \<Rightarrow> nat \<Rightarrow> f32" where
  "q8_k_value b i = fmul (q8_k_d b) (f32_of_i8 (q8_k_qs b ! i))"

lemma q8_k_dequantize_all:
  assumes "length out = 256"
  shows "q8_k_dequantize b out = map (q8_k_value b) [0..<256]"
  unfolding q8_k_dequantize_def write_from_0
  using assms by (intro nth_equalityI) (auto simp: nth_write_run q8_k_value_def)

end
