(* ===== verification/Quant_Values.thy ===== *)
theory Quant_Values
  imports Quant_Blocks
begin

section \<open>What the quantized blocks decode to\<close>

text \<open>
  Properties of the block decoders: they overwrite the caller's buffer with closed forms, the products are exact, and which
  bits of a block the code reads.
\<close>

unbundle bit_operations_syntax

subsection \<open>The caller's buffer\<close>

text \<open>
  C20: Every decoder fills the whole buffer: whatever the buffer held, the value at each place is the one the block's fields
  give for that place, for all nine formats.
\<close>

theorem dequantize_fills_buffer:
  assumes "length out32 = 32" "length out256 = 256"
  shows "q4_0_dequantize b4_0 out32 = map (q4_0_value b4_0) [0..<32] \<and>
    q5_0_dequantize b5_0 out32 = map (q5_0_value b5_0) [0..<32] \<and>
    q8_0_dequantize b8_0 out32 = map (q8_0_value b8_0) [0..<32] \<and>
    q4_k_dequantize b4 out256 = map (q4_k_value b4) [0..<256] \<and>
    q5_k_dequantize b5 out256 = map (q5_k_value b5) [0..<256] \<and>
    q6_k_dequantize b6 out256 = map (q6_k_value b6) [0..<256] \<and>
    q2_k_dequantize b2 out256 = map (q2_k_value b2) [0..<256] \<and>
    q3_k_dequantize b3 out256 = map (q3_k_value b3) [0..<256] \<and>
    q8_k_dequantize b8 out256 = map (q8_k_value b8) [0..<256]"
  using q4_0_dequantize_all q5_0_dequantize_all q8_0_dequantize_all q4_k_dequantize_all q5_k_dequantize_all
    q6_k_dequantize_all q2_k_dequantize_all q3_k_dequantize_all q8_k_dequantize_all assms
  by blast

subsection \<open>The high bits of Q5_K\<close>

text \<open>
  C28: A Q5_K block has one high bit for each of its 256 values in the 32 bytes of \<open>qh\<close>, but the decoder reads only the bytes
  whose number is below 4 modulo 8, and gives eight neighbouring values the same high bit: changing the other sixteen bytes
  changes nothing.
\<close>

theorem q5_k_high_bits_shared:
  assumes "length out = 256" "\<forall>k < 32. k mod 8 < 4 \<longrightarrow> qh ! k = q5_k_qh b ! k"
  shows "q5_k_dequantize (b\<lparr>q5_k_qh := qh\<rparr>) out = q5_k_dequantize b out
    \<and> (\<forall>i j. i div 8 = j div 8 \<longrightarrow> q5_k_high b i = q5_k_high b j)"
proof -
  have "q5_k_high (b\<lparr>q5_k_qh := qh\<rparr>) i = q5_k_high b i" if "i < 256" for i
  proof -
    define a c where "a = i div 64" and "c = i mod 32 div 8"
    have "a < 4" "c < 4" unfolding a_def c_def using that by (auto intro: less_mult_imp_div_less)
    then have "8 * a + c < 32" "(8 * a + c) mod 8 < 4" using split_index(2) [of c 8 a] by linarith+
    then have "qh ! (8 * a + c) = q5_k_qh b ! (8 * a + c)" using assms(2) by blast
    then show ?thesis by (simp add: q5_k_high_def a_def c_def)
  qed
  then have v: "q5_k_value (b\<lparr>q5_k_qh := qh\<rparr>) i = q5_k_value b i" if "i < 256" for i
    using that by (simp add: q5_k_value_def)
  have "q5_k_high b i = q5_k_high b j" if "i div 8 = j div 8" for i j
  proof -
    have e: "k div 64 = k div 8 div 8" "k div 32 = k div 8 div 4" "k mod 32 div 8 = k div 8 mod 4" for k :: nat
      using div_mult2_eq [of k 8 8] div_mult2_eq [of k 8 4] mod_mult2_eq [of k 8 4] by simp_all
    show ?thesis unfolding q5_k_high_def e that ..
  qed
  moreover have "q5_k_dequantize (b\<lparr>q5_k_qh := qh\<rparr>) out = q5_k_dequantize b out"
    unfolding q5_k_dequantize_all [OF assms(1)] by (rule map_cong [OF refl]) (use v in \<open>simp only: set_upt atLeastLessThan_iff\<close>)
  ultimately show ?thesis by blast
qed

subsection \<open>The scales of Q3_K\<close>

lemma bit_add_256:
  fixes a b n :: nat
  assumes "a < 256"
  shows "bit (a + 256 * b) n \<longleftrightarrow> (if n < 8 then bit a n else bit b (n - 8))"
proof (cases "n < 8")
  case True
  then have "(2 :: nat) ^ n * 2 ^ (8 - n) = 256" by (simp flip: power_add)
  then have "a + 256 * b = a + 2 ^ n * (2 ^ (8 - n) * b)" by (metis mult.assoc)
  then have "(a + 256 * b) div 2 ^ n = 2 ^ (8 - n) * b + a div 2 ^ n" by (simp only: div_mult_self2 [OF power_not_zero [OF zero_neq_numeral [symmetric]]])
  then show ?thesis using True by (simp add: bit_iff_odd)
next
  case False
  then have "(2 :: nat) ^ n = 256 * 2 ^ (n - 8)" using power_add [of "2 :: nat" 8 "n - 8"] by simp
  then have "(a + 256 * b) div 2 ^ n = b div 2 ^ (n - 8)" using assms by (simp add: div_mult2_eq)
  then show ?thesis using False by (simp add: bit_iff_odd)
qed

lemma bit_u32_of_le:
  "bit (u32_of_le [b0, b1, b2, b3]) n \<longleftrightarrow> n < 32 \<and> bit ([b0, b1, b2, b3] ! (n div 8)) (n mod 8)"
proof -
  have u: "unat b < 256" for b :: byte using unsigned_less [of b] by simp
  have "bit (u32_of_le [b0, b1, b2, b3]) n \<longleftrightarrow> n < 32 \<and> bit (le_nat [b0, b1, b2, b3]) n"
    unfolding u32_of_le_def by (simp only: bit_of_nat_iff) auto
  also have "\<dots> \<longleftrightarrow> n < 32 \<and> (if n < 8 then bit b0 n else if n < 16 then bit b1 (n - 8)
      else if n < 24 then bit b2 (n - 16) else bit b3 (n - 24))"
    by (simp only: le_nat.simps bit_add_256 [OF u] bit_unsigned_iff) auto
  also have "\<dots> \<longleftrightarrow> n < 32 \<and> bit ([b0, b1, b2, b3] ! (n div 8)) (n mod 8)"
  proof (cases "n < 32")
    case True
    then consider "n < 8" | "8 \<le> n" "n < 16" | "16 \<le> n" "n < 24" | "24 \<le> n" "n < 32" by linarith
    then show ?thesis
    proof cases
      case 2
      then have "n div 8 = 1" "n mod 8 = n - 8" using split_index [of "n - 8" 8 1] by simp_all
      then show ?thesis using 2 by simp
    next
      case 3
      then have "n div 8 = 2" "n mod 8 = n - 16" using split_index [of "n - 16" 8 2] by simp_all
      then show ?thesis using 3 by simp
    next
      case 4
      then have "n div 8 = 3" "n mod 8 = n - 24" using split_index [of "n - 24" 8 3] by simp_all
      then show ?thesis using 4 by simp
    qed simp
  qed simp
  finally show ?thesis .
qed


lemma mask_bits:
  assumes "n < 32"
  shows "bit (0x0F0F0F0F :: 32 word) n \<longleftrightarrow> n mod 8 < 4" "bit (0x03030303 :: 32 word) n \<longleftrightarrow> n mod 8 < 2"
proof -
  have "n \<in> {0, 1, 2, 3, 4, 5, 6, 7, 8, 9, 10, 11, 12, 13, 14, 15, 16, 17, 18, 19, 20, 21, 22, 23, 24, 25, 26, 27, 28, 29, 30, 31}"
    using assms by simp presburger
  then show "bit (0x0F0F0F0F :: 32 word) n \<longleftrightarrow> n mod 8 < 4" "bit (0x03030303 :: 32 word) n \<longleftrightarrow> n mod 8 < 2"
    by (elim insertE emptyE; simp)+
qed

lemma byte_mask_bits:
  "i < 8 \<Longrightarrow> bit (0xF :: byte) i \<longleftrightarrow> i < 4" "i < 8 \<Longrightarrow> bit (3 :: byte) i \<longleftrightarrow> i < 2"
  using bit_mask_iff [of 4 i, where 'a = "8 word"] bit_mask_iff [of 2 i, where 'a = "8 word"]
  by (simp_all add: mask_numeral mask_Suc_rec numeral_2_eq_2)

text \<open>The bytes of a word built by the masks and shifts of the unpacking.\<close>

lemma unpacked_byte:
  assumes "k < 4" "s = 0 \<or> s = 4" "t = 0 \<or> t = 2 \<or> t = 4 \<or> t = 6"
  shows "ucast (drop_bit (8 * k) ((drop_bit s (u32_of_le [a0, a1, a2, a3]) AND 0x0F0F0F0F)
      OR push_bit 4 (drop_bit t (u32_of_le [c0, c1, c2, c3]) AND 0x03030303)))
    = (drop_bit s ([a0, a1, a2, a3] ! k) AND 0xF) OR push_bit 4 (drop_bit t ([c0, c1, c2, c3] ! k) AND 3)"
    (is "?l = ?r")
proof (rule bit_word_eqI)
  fix n :: nat
  assume "n < LENGTH(8)"
  then have n: "n < 8" by simp
  have k: "8 * k + n < 32" using assms(1) n by linarith
  have i: "(8 * k + j) div 8 = k" "(8 * k + j) mod 8 = j" if "j < 8" for j using split_index [OF that] by simp_all
  have B: "bit (u32_of_le [b0, b1, b2, b3]) (8 * k + j) \<longleftrightarrow> bit ([b0, b1, b2, b3] ! k) j" if "j < 8" for j b0 b1 b2 b3
    using assms(1) that unfolding bit_u32_of_le i [OF that] by auto
  show "bit ?l n \<longleftrightarrow> bit ?r n"
  proof (cases "n < 4")
    case True
    then have a: "s + (8 * k + n) = 8 * k + (s + n)" "s + n < 8" using assms(2) by auto
    have "\<not> bit (0x03030303 :: 32 word) (8 * k + n - 4) \<or> 8 * k + n < 4"
    proof (cases k)
      case (Suc k')
      then have e: "8 * k + n - 4 = 8 * k' + (4 + n)" by simp
      have "(8 * k' + (4 + n)) mod 8 = 4 + n" using True by (intro split_index(2)) simp
      moreover have "8 * k' + (4 + n) < 32" using Suc assms(1) True by linarith
      ultimately show ?thesis unfolding e using mask_bits(2) by simp
    qed (use True in simp)
    then show ?thesis using True n k i(2) [OF n] B [OF a(2)] byte_mask_bits(1) [OF n] mask_bits(1) [OF k]
      unfolding bit_or_iff bit_and_iff bit_push_bit_iff bit_drop_bit_eq bit_unsigned_iff o_def a(1) by auto
  next
    case False
    then have a: "t + (8 * k + (n - 4)) = 8 * k + (t + (n - 4))" "8 * k + n - 4 = 8 * k + (n - 4)" "n - 4 < 8" "8 * k + (n - 4) < 32"
      using k n by auto
    have b: "n - 4 < 2 \<Longrightarrow> t + (n - 4) < 8" using assms(3) by auto
    show ?thesis
      using False n k i(2) [OF n] i(2) [OF a(3)] b B [of "t + (n - 4)"] byte_mask_bits(1) [OF n] byte_mask_bits(2) [OF a(3)]
        mask_bits(1) [OF k] mask_bits(2) [OF a(4)]
      unfolding bit_or_iff bit_and_iff bit_push_bit_iff bit_drop_bit_eq bit_unsigned_iff o_def a(1,2) by auto
  qed
qed

text \<open>The sixteen scales: four bits of the first eight bytes, low then high, and two bits of the last four.\<close>

definition q3_k_scale :: "byte list \<Rightarrow> nat \<Rightarrow> byte" where
  "q3_k_scale scales i =
     (drop_bit (if i < 8 then 0 else 4) (scales ! (i mod 8)) AND 0xF)
       OR push_bit 4 (drop_bit (2 * (i div 4)) (scales ! (8 + i mod 4)) AND 3)"

lemma concat_four:
  assumes "q < 4" "k < 4"
  shows "concat (map to_le_bytes32 [w0, w1, w2, w3]) ! (4 * q + k) = ucast (drop_bit (8 * k) ([w0, w1, w2, w3] ! q))"
proof -
  have l: "length (to_le_bytes32 w) = 4" "to_le_bytes32 w ! k = ucast (drop_bit (8 * k) w)" for w
    using assms(2) by (simp_all add: to_le_bytes32_def)
  have "q \<in> {0, 1, 2, 3}" using assms(1) by auto
  then show ?thesis by (elim insertE emptyE) (simp_all add: nth_append l assms)
qed

lemma four_bytes:
  fixes k a :: nat
  assumes "k < 4"
  shows "[xs ! (a * 4), xs ! (a * 4 + 1), xs ! (a * 4 + 2), xs ! (a * 4 + 3)] ! k = xs ! (4 * a + k)"
proof -
  have "k \<in> {0, 1, 2, 3}" using assms by auto
  then show ?thesis by (elim insertE emptyE) (simp_all add: mult.commute)
qed

text \<open>The twelve bytes as the three words the code reads.\<close>

definition scale_word :: "byte list \<Rightarrow> nat \<Rightarrow> 32 word" where
  "scale_word scales i = u32_of_le [scales ! (i * 4), scales ! (i * 4 + 1), scales ! (i * 4 + 2), scales ! (i * 4 + 3)]"

lemma unpacked_scale:
  assumes "k < 4" "s = 0 \<or> s = 4" "t = 0 \<or> t = 2 \<or> t = 4 \<or> t = 6"
  shows "ucast (drop_bit (8 * k) ((drop_bit s (scale_word scales a) AND 0x0F0F0F0F)
      OR push_bit 4 (drop_bit t (scale_word scales 2) AND 0x03030303)))
    = (drop_bit s (scales ! (4 * a + k)) AND 0xF) OR push_bit 4 (drop_bit t (scales ! (8 + k)) AND 3)"
  unfolding scale_word_def unpacked_byte [OF assms] four_bytes [OF assms(1)] by simp

lemma unpack_words:
  "q3_k_unpack scales = concat (map to_le_bytes32
     [(drop_bit 0 (scale_word scales 0) AND 0x0F0F0F0F) OR push_bit 4 (drop_bit 0 (scale_word scales 2) AND 0x03030303),
      (drop_bit 0 (scale_word scales 1) AND 0x0F0F0F0F) OR push_bit 4 (drop_bit 2 (scale_word scales 2) AND 0x03030303),
      (drop_bit 4 (scale_word scales 0) AND 0x0F0F0F0F) OR push_bit 4 (drop_bit 4 (scale_word scales 2) AND 0x03030303),
      (drop_bit 4 (scale_word scales 1) AND 0x0F0F0F0F) OR push_bit 4 (drop_bit 6 (scale_word scales 2) AND 0x03030303)])"
  unfolding q3_k_unpack_def scale_word_def Let_def drop_bit_0 id_apply ..

lemma q3_k_unpack_nth:
  assumes "q < 4" "k < 4"
  shows "q3_k_unpack scales ! (4 * q + k) = q3_k_scale scales (4 * q + k)"
proof -
  have m: "(4 * q + k) mod 4 = k" "(4 * q + k) div 4 = q" using assms by simp_all
  have "q \<in> {0, 1, 2, 3}" using assms(1) by auto
  then have "ucast (drop_bit (8 * k) (
     [(drop_bit 0 (scale_word scales 0) AND 0x0F0F0F0F) OR push_bit 4 (drop_bit 0 (scale_word scales 2) AND 0x03030303),
      (drop_bit 0 (scale_word scales 1) AND 0x0F0F0F0F) OR push_bit 4 (drop_bit 2 (scale_word scales 2) AND 0x03030303),
      (drop_bit 4 (scale_word scales 0) AND 0x0F0F0F0F) OR push_bit 4 (drop_bit 4 (scale_word scales 2) AND 0x03030303),
      (drop_bit 4 (scale_word scales 1) AND 0x0F0F0F0F) OR push_bit 4 (drop_bit 6 (scale_word scales 2) AND 0x03030303)] ! q))
    = (drop_bit (if q < 2 then 0 else 4) (scales ! (4 * (q mod 2) + k)) AND 0xF) OR push_bit 4 (drop_bit (2 * q) (scales ! (8 + k)) AND 3)"
    using unpacked_scale [OF assms(2), of 0 0 scales 0] unpacked_scale [OF assms(2), of 0 2 scales 1]
      unpacked_scale [OF assms(2), of 4 4 scales 0] unpacked_scale [OF assms(2), of 4 6 scales 1]
    by (elim insertE emptyE) (simp_all del: One_nat_def)
  moreover have "4 * q + k < 8 \<longleftrightarrow> q < 2" using assms by linarith
  moreover have "(4 * q + k) mod 8 = 4 * (q mod 2) + k"   proof -
    have "q mod 2 < 2" by simp
    then have "4 * (q mod 2) + k < 8" using assms(2) by linarith
    moreover have "4 * q + k = 8 * (q div 2) + (4 * (q mod 2) + k)"
      using mult_div_mod_eq [of 2 q] by linarith
    ultimately show ?thesis using split_index(2) by metis
  qed
  ultimately show ?thesis unfolding unpack_words concat_four [OF assms] q3_k_scale_def m by simp
qed

lemma q3_k_unpack_scales:
  assumes "i < 16"
  shows "q3_k_unpack scales ! i = q3_k_scale scales i"
proof -
  have "i div 4 < 4" using assms by (intro less_mult_imp_div_less) simp
  then have "q3_k_unpack scales ! (4 * (i div 4) + i mod 4) = q3_k_scale scales (4 * (i div 4) + i mod 4)"
    by (rule q3_k_unpack_nth) simp
  then show ?thesis by simp
qed

lemma q3_k_scale_index_less: "q3_k_scale_index i < 8"
proof -
  have "i mod 128 div 32 < 4" by (intro less_mult_imp_div_less) simp
  then show ?thesis by (simp add: q3_k_scale_index_def)
qed

text \<open>
  C29: A Q3_K block packs sixteen 6-bit scales in twelve bytes and the decoder unpacks them all, but it scales both halves of the
  block with the first eight: the low four bits of the twelve bytes are all it reads, and two blocks that agree there decode
  to the same values.
\<close>

theorem q3_k_upper_scales_unused:
  assumes "length out = 256" "\<forall>k < 12. scales ! k AND 0xF = q3_k_scales b ! k AND 0xF"
  shows "(\<forall>i < 16. q3_k_unpack (q3_k_scales b) ! i = q3_k_scale (q3_k_scales b) i) \<and>
    q3_k_dequantize (b\<lparr>q3_k_scales := scales\<rparr>) out = q3_k_dequantize b out"
proof -
  have low: "drop_bit t x AND 3 = drop_bit t (x AND 0xF) AND 3" if "t = 0 \<or> t = 2" for t and x :: byte
  proof (rule bit_word_eqI)
    fix n :: nat assume "n < LENGTH(8)"
    then have n: "n < 8" by simp
    show "bit (drop_bit t x AND 3) n = bit (drop_bit t (x AND 0xF) AND 3) n"
      using that byte_mask_bits(2) [OF n] byte_mask_bits(1) [of "t + n"]
      unfolding bit_and_iff bit_drop_bit_eq o_def by auto
  qed
  have "q3_k_scale scales i = q3_k_scale (q3_k_scales b) i" if "i < 8" for i
  proof -
    have t: "2 * (i div 4) = 0 \<or> 2 * (i div 4) = 2" using that by auto
    have "i mod 8 < 12" "8 + i mod 4 < 12" using mod_less_divisor [of 8 i] mod_less_divisor [of 4 i] by linarith+
    then have a: "scales ! (i mod 8) AND 0xF = q3_k_scales b ! (i mod 8) AND 0xF"
      and c: "scales ! (8 + i mod 4) AND 0xF = q3_k_scales b ! (8 + i mod 4) AND 0xF" using assms(2) by blast+
    have "drop_bit (2 * (i div 4)) (scales ! (8 + i mod 4)) AND 3 = drop_bit (2 * (i div 4)) (q3_k_scales b ! (8 + i mod 4)) AND 3"
      using low [OF t, of "scales ! (8 + i mod 4)"] low [OF t, of "q3_k_scales b ! (8 + i mod 4)"] c by argo
    then show ?thesis using that a by (simp only: q3_k_scale_def if_P drop_bit_0 id_apply)
  qed
  then have "q3_k_value (b\<lparr>q3_k_scales := scales\<rparr>) i = q3_k_value b i" for i
    using q3_k_unpack_scales q3_k_scale_index_less [of i] by (simp add: q3_k_value_def)
  then have "q3_k_dequantize (b\<lparr>q3_k_scales := scales\<rparr>) out = q3_k_dequantize b out"
    unfolding q3_k_dequantize_all [OF assms(1)] by (intro map_cong refl) blast
  then show ?thesis using q3_k_unpack_scales by blast
qed

subsection \<open>The products are exact\<close>

lemma f16_fits:
  assumes "f16_exp w \<noteq> 31"
  obtains f where "- 25 \<le> f" "f \<le> 5" "fits 11 f (f32_value (f16_to_f32 w))" "f32_finite (f16_to_f32 w)"
proof -
  have fin: "f32_finite (f16_to_f32 w)"
    using f16_decoded_subnormal [of w] f16_decoded_zero [of w] f16_decoded_normal [of w] assms
    by (cases "f16_exp w = 0"; cases "f16_frac w = 0") (auto simp: f16_subnormal_def)
  have fr: "f16_frac w < 2 ^ 10" "f16_exp w < 2 ^ 5" using f16_bounds by blast+
  show thesis
  proof (cases "f16_exp w = 0")
    case True
    have "f32_value (f16_to_f32 w) = with_sign (f16_neg w) (real (f16_frac w) * 2 powi (- 25))"
    proof (cases "f16_frac w = 0")
      case False
      have "(2 :: real) powi (- 24) = 2 * 2 powi (- 25)" using power_int_add [of "2 :: real" 1 "- 25"] by simp
      then show ?thesis
        using f16_decoded_subnormal [of w] False True
        by (cases "f16_neg w") (auto simp: f16_subnormal_def f16_value_def with_sign_def)
    qed (use f16_decoded_zero [of w] True in simp)
    moreover have "fits 11 (- 25) (real (f16_frac w) * 2 powi (- 25))"
      using fr(1) unfolding fits_def by (intro exI [of _ "int (f16_frac w)"]) auto
    ultimately have "fits 11 (- 25) (f32_value (f16_to_f32 w))" by (simp only: fits_with_sign)
    then show thesis using that [of "- 25"] fin by simp
  next
    case False
    then have v: "f32_value (f16_to_f32 w) = with_sign (f16_neg w) (real (2 ^ 10 + f16_frac w) * 2 powi (int (f16_exp w) - 25))"
      using f16_decoded_normal [of w] assms by (simp add: f16_value_def)
    have "fits 11 (int (f16_exp w) - 25) (real (2 ^ 10 + f16_frac w) * 2 powi (int (f16_exp w) - 25))"
      using fr(1) unfolding fits_def by (intro exI [of _ "int (2 ^ 10 + f16_frac w)"]) simp
    then have "fits 11 (int (f16_exp w) - 25) (f32_value (f16_to_f32 w))" unfolding v by simp
    then show thesis using that [of "int (f16_exp w) - 25"] fin fr(2) assms by simp
  qed
qed

lemma fits_times_int:
  assumes "fits 11 f v" "\<bar>n\<bar> \<le> 2 ^ 12"
  shows "fits 24 f (v * real_of_int n)"
proof -
  obtain m where m: "\<bar>m\<bar> < 2 ^ 11" "v = real_of_int m * 2 powi f" using assms(1) by (auto simp: fits_def)
  have "\<bar>m * n\<bar> \<le> 2 ^ 11 * 2 ^ 12" using m(1) assms(2) unfolding abs_mult by (intro mult_mono) auto
  then show ?thesis using m(2) unfolding fits_def by (intro exI [of _ "m * n"]) auto
qed

lemma times_int_exact:
  assumes "fits 11 f (f32_value d)" "f32_finite d" "- 25 \<le> f" "f \<le> 5" "\<bar>n\<bar> \<le> 2 ^ 12"
  shows "f32_value (fmul d (f32_of_int n)) = f32_value d * real_of_int n \<and> f32_finite (fmul d (f32_of_int n))"
    "f32_value (fmul (f32_of_int n) d) = f32_value d * real_of_int n"
proof -
  have n: "\<bar>n\<bar> < 2 ^ 24" using assms(5) by simp
  note ex = f32_of_int_exact [OF n]
  have ft: "fits 24 f (f32_value d * real_of_int n)" using fits_times_int assms by blast
  show "f32_value (fmul d (f32_of_int n)) = f32_value d * real_of_int n \<and> f32_finite (fmul d (f32_of_int n))"
    using fmul_exact [of d "f32_of_int n" f] ex ft assms by simp
  show "f32_value (fmul (f32_of_int n) d) = f32_value d * real_of_int n"
    using fmul_exact [of "f32_of_int n" d f] ex ft assms by (simp add: mult.commute)
qed

text \<open>A small unsigned number in a byte, less an offset, read as a signed byte.\<close>

lemma sint_offset:
  assumes "uint x < 64" "0 \<le> k" "k \<le> 64"
  shows "sint (x - word_of_int k :: byte) = uint x - k"
proof -
  have "x - word_of_int k = word_of_int (uint x - k)" by simp
  then have "sint (x - word_of_int k) = sint (word_of_int (uint x - k) :: byte)" by (rule arg_cong)
  also have "\<dots> = signed_take_bit 7 (uint x - k)" by (simp only: signed_of_int) simp
  also have "\<dots> = uint x - k" 
  proof (rule signed_take_bit_int_eq_self)
    have "0 \<le> uint x" by simp
    then have "- 128 \<le> uint x - k" "uint x - k < 128" using assms by linarith+
    then show "- (2 ^ 7) \<le> uint x - k" "uint x - k < 2 ^ 7" by simp_all
  qed
  finally show ?thesis .
qed

lemma small_nibbles: "uint (x AND 0xF) < 16" "uint (drop_bit 4 x) < 16" for x :: byte
proof -
  have "x AND 0xF = take_bit 4 x" by (simp add: take_bit_eq_mask mask_numeral mask_Suc_rec)
  then show "uint (x AND 0xF) < 16" using take_bit_int_less_exp [of 4 "uint x"] by (simp add: unsigned_take_bit_eq)
  have "unat (drop_bit 4 x) = unat x div 16" unfolding unat_drop_bit by simp
  moreover have "unat x < 256" using unsigned_less [of x] by simp
  ultimately have "unat (drop_bit 4 x) < 16" by (simp add: less_mult_imp_div_less)
  then show "uint (drop_bit 4 x) < 16" unfolding uint_nat by linarith
qed

lemma six_bits: "uint (q6_k_quant b h g l) < 64"
proof -
  have "q6_k_quant b h g l = take_bit 6 (q6_k_quant b h g l)"
  proof (rule bit_word_eqI)
    fix n :: nat assume "n < LENGTH(8)"
    then have n: "n < 8" by simp
    show "bit (q6_k_quant b h g l) n = bit (take_bit 6 (q6_k_quant b h g l)) n"
      using byte_mask_bits(1) [OF n] byte_mask_bits(2) [of "n - 4"] n
      unfolding q6_k_quant_def Let_def bit_or_iff bit_push_bit_iff bit_take_bit_iff
      by (auto simp: bit_and_iff bit_drop_bit_eq dest: bit_imp_le_length)
  qed
  then have "uint (q6_k_quant b h g l) = take_bit 6 (uint (q6_k_quant b h g l))" by (metis unsigned_take_bit_eq)
  then show ?thesis using take_bit_int_less_exp [of 6 "uint (q6_k_quant b h g l)"] by simp
qed

lemma sint_byte_bound: "\<bar>sint x\<bar> \<le> 2 ^ 7" for x :: byte
  using sint_greater_eq [of x] sint_less [of x] by simp

lemma values_exact:
  fixes bits :: "16 word"
  assumes "f16_exp bits \<noteq> 31"
  defines "d \<equiv> f16_to_f32 bits"
  shows
    "(let n = (if i < 16 then qs ! i AND 0x0F else drop_bit 4 (qs ! (i - 16))) in
       f32_value (q4_0_value \<lparr>q4_0_d = d, q4_0_qs = qs\<rparr> i) = f32_value d * real_of_int (uint n - 8) \<and> uint n - 8 \<in> {- 8..7}) \<and>
     f32_value (q8_0_value \<lparr>q8_0_d = d, q8_0_qs = qs\<rparr> i) = f32_value d * real_of_int (sint (qs ! i)) \<and>
     (let b = \<lparr>q6_k_ql = ql, q6_k_qh = qh, q6_k_scales = scales, q6_k_d = d\<rparr>; h = i div 128; g = i mod 128 div 32; l = i mod 32 in
       f32_value (q6_k_value b i) = f32_value d * real_of_int (sint (scales ! (8 * h + l div 16 + 2 * g)))
         * real_of_int (uint (q6_k_quant b h g l) - 32) \<and> uint (q6_k_quant b h g l) - 32 \<in> {- 32..31})"
proof -
  obtain f where f: "- 25 \<le> f" "f \<le> 5" "fits 11 f (f32_value d)" "f32_finite d" using f16_fits [OF assms(1)] unfolding d_def by metis
  have ex: "f32_value (fmul (f32_of_i8 x) d) = f32_value d * real_of_int (sint x)"
    "f32_value (fmul d (f32_of_i8 x)) = f32_value d * real_of_int (sint x)" "f32_finite (fmul d (f32_of_i8 x))" for x
    using times_int_exact [OF f(3,4,1,2), of "sint x"] sint_byte_bound [of x] by (simp_all add: f32_of_i8_def)
  have 1: "let n = (if i < 16 then qs ! i AND 0x0F else drop_bit 4 (qs ! (i - 16))) in
       f32_value (q4_0_value \<lparr>q4_0_d = d, q4_0_qs = qs\<rparr> i) = f32_value d * real_of_int (uint n - 8) \<and> uint n - 8 \<in> {- 8..7}"
  proof -
    define n where "n = (if i < 16 then qs ! i AND 0x0F else drop_bit 4 (qs ! (i - 16)))"
    have n: "uint n < 16" "0 \<le> uint n" using small_nibbles by (simp_all add: n_def)
    then have "sint (n - 8) = uint n - 8" using sint_offset [of n 8] by simp
    then have "f32_value (fmul (f32_of_i8 (n - 8)) d) = f32_value d * real_of_int (uint n - 8)" using ex(1) [of "n - 8"] by simp
    moreover have "q4_0_value \<lparr>q4_0_d = d, q4_0_qs = qs\<rparr> i = fmul (f32_of_i8 (n - 8)) d" by (simp add: q4_0_value_def n_def)
    moreover have "uint n - 8 \<in> {- 8..7}" using n by simp
    ultimately show ?thesis unfolding Let_def n_def [symmetric] by simp
  qed
  have 2: "f32_value (q8_0_value \<lparr>q8_0_d = d, q8_0_qs = qs\<rparr> i) = f32_value d * real_of_int (sint (qs ! i))"
    using ex(1) by (simp add: q8_0_value_def)
  have 3: "let b = \<lparr>q6_k_ql = ql, q6_k_qh = qh, q6_k_scales = scales, q6_k_d = d\<rparr>; h = i div 128; g = i mod 128 div 32; l = i mod 32 in
       f32_value (q6_k_value b i) = f32_value d * real_of_int (sint (scales ! (8 * h + l div 16 + 2 * g)))
         * real_of_int (uint (q6_k_quant b h g l) - 32) \<and> uint (q6_k_quant b h g l) - 32 \<in> {- 32..31}"
  proof -
    define b where "b = \<lparr>q6_k_ql = ql, q6_k_qh = qh, q6_k_scales = scales, q6_k_d = d\<rparr>"
    define q where "q = q6_k_quant b (i div 128) (i mod 128 div 32) (i mod 32)"
    define sc where "sc = sint (scales ! (8 * (i div 128) + i mod 32 div 16 + 2 * (i mod 128 div 32)))"
    have q: "uint q < 64" "0 \<le> uint q" unfolding q_def by (rule six_bits) simp
    have "sint (q - 32) = uint q - 32" using sint_offset [OF q(1), of 32] by simp
    moreover have "fits 24 f (f32_value d * real_of_int sc * real_of_int (uint q - 32))"
    proof -
      have "\<bar>sc\<bar> \<le> 2 ^ 7" unfolding sc_def by (rule sint_byte_bound)
      moreover have "\<bar>uint q - 32\<bar> \<le> 32" using q by linarith
      ultimately have "\<bar>sc\<bar> \<le> 2 ^ 7" "\<bar>uint q - 32\<bar> \<le> 2 ^ 5" by simp_all
      then have "\<bar>sc * (uint q - 32)\<bar> \<le> 2 ^ 7 * 2 ^ 5" unfolding abs_mult by (intro mult_mono) auto
      then show ?thesis using fits_times_int [OF f(3), of "sc * (uint q - 32)"] by (simp add: mult.assoc)
    qed
    moreover have "\<bar>uint q - 32\<bar> < 2 ^ 24"
    proof -
      have "\<bar>uint q - 32\<bar> < 16777216" using q by linarith
      then show ?thesis by simp
    qed
    ultimately have "f32_value (fmul (fmul d (f32_of_int sc)) (f32_of_i8 (q - 32))) = f32_value d * real_of_int sc * real_of_int (uint q - 32)"
      using fmul_exact [of "fmul d (f32_of_int sc)" "f32_of_int (uint q - 32)" f] f32_of_int_exact [of "uint q - 32"] f
        ex(2,3) [unfolded f32_of_i8_def, of "scales ! (8 * (i div 128) + i mod 32 div 16 + 2 * (i mod 128 div 32))"]
      by (simp add: f32_of_i8_def flip: sc_def)
    moreover have "q6_k_value b i = fmul (fmul d (f32_of_int sc)) (f32_of_i8 (q - 32))"
      by (simp add: q6_k_value_def Let_def b_def q_def sc_def f32_of_i8_def)
    ultimately show ?thesis using q unfolding Let_def b_def [symmetric] q_def [symmetric] sc_def [symmetric] by simp
  qed
  show ?thesis using 1 2 3 by blast
qed

text \<open>
  C21: With a finite scale the values of Q4_0, Q8_0 and Q6_K blocks are decoded without rounding: what the decoder leaves at a place of
  the buffer is the scale as it was decoded times the integers the bits stand for, and the quantized integer is in the
  range of its format.
\<close>

theorem decoded_products_exact:
  assumes "f16_exp bits \<noteq> 31" "length out32 = 32" "length out256 = 256" "i < 32" "j < 256"
  shows
    "(let n = (if i < 16 then qs ! i AND 0x0F else drop_bit 4 (qs ! (i - 16))) in
       f32_value (q4_0_dequantize \<lparr>q4_0_d = f16_to_f32 bits, q4_0_qs = qs\<rparr> out32 ! i)
         = f32_value (f16_to_f32 bits) * real_of_int (uint n - 8) \<and> uint n - 8 \<in> {- 8..7}) \<and>
     f32_value (q8_0_dequantize \<lparr>q8_0_d = f16_to_f32 bits, q8_0_qs = qs\<rparr> out32 ! i)
       = f32_value (f16_to_f32 bits) * real_of_int (sint (qs ! i)) \<and>
     (let b = \<lparr>q6_k_ql = ql, q6_k_qh = qh, q6_k_scales = scales, q6_k_d = f16_to_f32 bits\<rparr>;
          h = j div 128; g = j mod 128 div 32; l = j mod 32 in
       f32_value (q6_k_dequantize b out256 ! j)
         = f32_value (f16_to_f32 bits) * real_of_int (sint (scales ! (8 * h + l div 16 + 2 * g)))
           * real_of_int (uint (q6_k_quant b h g l) - 32) \<and> uint (q6_k_quant b h g l) - 32 \<in> {- 32..31})"
proof -
  have nth: "map v [0..<32] ! i = v i" "map v [0..<256] ! j = v j" for v :: "nat \<Rightarrow> f32"
    using assms(4,5) by (simp_all only: nth_map length_upt nth_upt add_0 diff_zero)
  show ?thesis
    unfolding q4_0_dequantize_all [OF assms(2)] q8_0_dequantize_all [OF assms(2)] q6_k_dequantize_all [OF assms(3)] nth Let_def
    using values_exact [OF assms(1), of i qs] values_exact [OF assms(1), of j "[]" ql qh scales] unfolding Let_def by blast
qed

theorem decoded_products_exact_witness:
  "f32_value (q8_0_dequantize \<lparr>q8_0_d = f16_to_f32 0x3C00, q8_0_qs = [255]\<rparr> (replicate 32 0) ! 0) = - f32_value (f16_to_f32 0x3C00)"
proof -
  have "f16_exp 0x3C00 \<noteq> 31" "length (replicate 32 (0 :: f32)) = 32" "length (replicate 256 (0 :: f32)) = 256" "(0 :: nat) < 32" "(0 :: nat) < 256"
    by (simp add: f16_exp_def, simp_all only: length_replicate zero_less_numeral)
  from decoded_products_exact [OF this, of "[255]" "[]" "[]" "[]"]
  have "f32_value (q8_0_dequantize \<lparr>q8_0_d = f16_to_f32 0x3C00, q8_0_qs = [255]\<rparr> (replicate 32 0) ! 0)
    = f32_value (f16_to_f32 0x3C00) * real_of_int (sint ([255 :: byte] ! 0))" by blast
  then show ?thesis by simp
qed

theorem dequantize_fills_buffer_witness:
  "q8_0_dequantize \<lparr>q8_0_d = 0, q8_0_qs = replicate 32 1\<rparr> (replicate 32 7)
    = map (q8_0_value \<lparr>q8_0_d = 0, q8_0_qs = replicate 32 1\<rparr>) [0..<32]"
proof -
  have "length (replicate 32 (7 :: f32)) = 32" "length (replicate 256 (7 :: f32)) = 256" by (simp_all only: length_replicate)
  from dequantize_fills_buffer [OF this, of undefined undefined "\<lparr>q8_0_d = 0, q8_0_qs = replicate 32 1\<rparr>" undefined undefined
      undefined undefined undefined undefined]
  show ?thesis by blast
qed

theorem q5_k_high_bits_shared_witness:
  "q5_k_dequantize \<lparr>q5_k_d = 1, q5_k_dmin = 0, q5_k_scales = replicate 12 1, q5_k_qh = (replicate 32 0)[4 := 255], q5_k_qs = replicate 128 0\<rparr>
      (replicate 256 0)
    = q5_k_dequantize \<lparr>q5_k_d = 1, q5_k_dmin = 0, q5_k_scales = replicate 12 1, q5_k_qh = replicate 32 0, q5_k_qs = replicate 128 0\<rparr>
      (replicate 256 0)"
proof -
  let ?b = "\<lparr>q5_k_d = 1, q5_k_dmin = 0, q5_k_scales = replicate 12 1, q5_k_qh = replicate 32 0, q5_k_qs = replicate 128 0\<rparr>"
  have l: "length (replicate 256 (0 :: f32)) = 256" by (simp only: length_replicate)
  have h: "\<forall>k < 32. k mod 8 < 4 \<longrightarrow> (replicate 32 0)[4 := 255] ! k = q5_k_qh ?b ! k"
  proof (intro allI impI)
    fix k :: nat
    assume "k < 32" "k mod 8 < 4"
    then have "k \<noteq> 4" by auto
    then show "(replicate 32 0)[4 := 255] ! k = q5_k_qh ?b ! k" by (simp only: block_q5_k.simps nth_list_update_neq not_sym)
  qed
  have "?b\<lparr>q5_k_qh := (replicate 32 0)[4 := 255]\<rparr>
    = \<lparr>q5_k_d = 1, q5_k_dmin = 0, q5_k_scales = replicate 12 1, q5_k_qh = (replicate 32 0)[4 := 255], q5_k_qs = replicate 128 0\<rparr>"
    by (simp only: block_q5_k.update_convs)
  with q5_k_high_bits_shared [OF l h] show ?thesis by simp
qed

theorem q3_k_upper_scales_unused_witness:
  "q3_k_dequantize \<lparr>q3_k_hmask = replicate 32 0, q3_k_qs = replicate 64 0, q3_k_scales = replicate 12 0xF0, q3_k_d = 1\<rparr> (replicate 256 0)
    = q3_k_dequantize \<lparr>q3_k_hmask = replicate 32 0, q3_k_qs = replicate 64 0, q3_k_scales = replicate 12 0, q3_k_d = 1\<rparr> (replicate 256 0)"
proof -
  let ?b = "\<lparr>q3_k_hmask = replicate 32 0, q3_k_qs = replicate 64 0, q3_k_scales = replicate 12 0, q3_k_d = 1\<rparr>"
  have l: "length (replicate 256 (0 :: f32)) = 256" by (simp only: length_replicate)
  have h: "\<forall>k < 12. replicate 12 0xF0 ! k AND 0xF = q3_k_scales ?b ! k AND 0xF" by simp
  have "?b\<lparr>q3_k_scales := replicate 12 0xF0\<rparr>
    = \<lparr>q3_k_hmask = replicate 32 0, q3_k_qs = replicate 64 0, q3_k_scales = replicate 12 0xF0, q3_k_d = 1\<rparr>"
    by (simp only: block_q3_k.update_convs)
  with q3_k_upper_scales_unused [OF l h] show ?thesis by metis
qed

end
