(* ===== verification/Quant_Rows.thy ===== *)
theory Quant_Rows
  imports Quant_Blocks
begin

section \<open>Rows of blocks and matrix products\<close>

text \<open>
  The row decoders and the matrix-vector kernels of \<open>crates/ramforge-core/src/quant.rs\<close>. The nine row decoders differ only in the block
  width, the block size and the block's functions, which are the arguments here; so do seven of the kernels. A call with a
  mutable slice returns the slice as it leaves it with its outcome. Slicing out of range is a panic; a product that the code
  does not check wraps.
\<close>

unbundle bit_operations_syntax

subsection \<open>Slices and chunks\<close>

definition wrapping_mul :: "u64 \<Rightarrow> u64 \<Rightarrow> u64" where "wrapping_mul a b = a * b mod 2 ^ 64"

definition rust_slice :: "nat \<Rightarrow> nat \<Rightarrow> 'a list \<Rightarrow> ('a list, 'e) result" where
  "rust_slice a b xs = (if a \<le> b \<and> b \<le> length xs then Ok (take (b - a) (drop a xs)) else Panic ''slice index out of range'')"

text \<open>\<open>slice::chunks\<close>: the last chunk may be shorter.\<close>

function chunks :: "nat \<Rightarrow> 'a list \<Rightarrow> 'a list list" where
  "chunks n xs = (if n = 0 \<or> xs = [] then [] else take n xs # chunks n (drop n xs))"
  by pat_completeness auto
termination by (relation "measure (\<lambda>(n, xs). length xs)") (auto simp: Suc_le_eq)

declare chunks.simps [simp del]

lemma wrapping_mul_exact [simp, u64_simps]: "a * b \<le> U64_MAX \<Longrightarrow> wrapping_mul a b = a * b"
  by (simp add: wrapping_mul_def U64_MAX_def)

lemma take_chunks:
  "0 < n \<Longrightarrow> k * n \<le> length xs \<Longrightarrow> take k (chunks n xs) = map (\<lambda>i. take n (drop (i * n) xs)) [0..<k]"
proof (induction k arbitrary: xs)
  case (Suc k)
  have ne: "xs \<noteq> []" using Suc.prems by auto
  have "take (Suc k) (chunks n xs) = take n xs # take k (chunks n (drop n xs))"
    using Suc.prems ne by (subst chunks.simps) simp
  also have "take k (chunks n (drop n xs)) = map (\<lambda>i. take n (drop (i * n) (drop n xs))) [0..<k]"
    using Suc.prems by (intro Suc.IH) auto
  also have "\<dots> = map (\<lambda>i. take n (drop (i * n) xs)) (map Suc [0..<k])" by (simp add: add.commute)
  finally show ?case by (simp only: map_Suc_upt upt_conv_Cons [OF zero_less_Suc] list.map drop_0 mult_0)
qed simp

lemma chunks_whole:
  assumes "0 < n" "length xs = k * n"
  shows "chunks n xs = map (\<lambda>i. take n (drop (i * n) xs)) [0..<k]"
proof -
  have "length (chunks n xs) = k"
    using assms(2)
  proof (induction k arbitrary: xs)
    case (Suc k)
    then have "length (chunks n (drop n xs)) = k" by simp
    moreover have "xs \<noteq> []" using Suc.prems assms(1) by auto
    ultimately show ?case using assms(1) by (subst chunks.simps) simp
  qed (simp add: chunks.simps)
  then show ?thesis using take_chunks [OF assms(1), of k xs] assms(2) by simp
qed

subsection \<open>Decoding a row\<close>

text \<open>The loop over the blocks: decode into \<open>tmp\<close>, then \<open>copy_from_slice\<close>.\<close>

fun decode_chunks :: "nat \<Rightarrow> (byte list \<Rightarrow> ('b, data_source_error) result) \<Rightarrow> ('b \<Rightarrow> f32 list \<Rightarrow> f32 list)
    \<Rightarrow> nat \<Rightarrow> byte list list \<Rightarrow> f32 list \<Rightarrow> f32 list \<times> (unit, data_source_error) result" where
  "decode_chunks qk from_bytes dequantize i [] out = (out, Ok ())"
| "decode_chunks qk from_bytes dequantize i (c # cs) out =
     (case from_bytes c of
        Err e \<Rightarrow> (out, Err e)
      | Panic m \<Rightarrow> (out, Panic m)
      | Ok block \<Rightarrow>
          let tmp = dequantize block (replicate qk 0) in
          if (i + 1) * qk \<le> length out
          then decode_chunks qk from_bytes dequantize (i + 1) cs (take (i * qk) out @ tmp @ drop ((i + 1) * qk) out)
          else (out, Panic ''slice index out of range''))"

text \<open>The Q8_0 loop decodes into the row's own slice.\<close>

fun decode_chunks_direct :: "nat \<Rightarrow> (byte list \<Rightarrow> ('b, data_source_error) result) \<Rightarrow> ('b \<Rightarrow> f32 list \<Rightarrow> f32 list)
    \<Rightarrow> nat \<Rightarrow> byte list list \<Rightarrow> f32 list \<Rightarrow> f32 list \<times> (unit, data_source_error) result" where
  "decode_chunks_direct qk from_bytes dequantize i [] out = (out, Ok ())"
| "decode_chunks_direct qk from_bytes dequantize i (c # cs) out =
     (case from_bytes c of
        Err e \<Rightarrow> (out, Err e)
      | Panic m \<Rightarrow> (out, Panic m)
      | Ok block \<Rightarrow>
          if (i + 1) * qk \<le> length out
          then decode_chunks_direct qk from_bytes dequantize (i + 1) cs
            (take (i * qk) out @ dequantize block (take qk (drop (i * qk) out)) @ drop ((i + 1) * qk) out)
          else (out, Panic ''slice index out of range''))"

definition dequantize_row ::
  "nat \<Rightarrow> nat \<Rightarrow> (byte list list \<Rightarrow> f32 list \<Rightarrow> f32 list \<times> (unit, data_source_error) result)
    \<Rightarrow> byte list \<Rightarrow> nat \<Rightarrow> f32 list \<Rightarrow> f32 list \<times> (unit, data_source_error) result"
where
  "dequantize_row qk block_size loop bytes n_elements out =
     (if n_elements mod qk \<noteq> 0 then (out, Err (DsGeneral ''row size not divisible by block size''))
      else
        let n_blocks = n_elements div qk in
        if length bytes < wrapping_mul n_blocks block_size then (out, Err (DsGeneral ''row truncated''))
        else loop (take n_blocks (chunks block_size bytes)) out)"

definition dequantize_row_q4_0 where
  "dequantize_row_q4_0 = dequantize_row QK4_0 BLOCK_SIZE_Q4_0 (decode_chunks QK4_0 q4_0_from_bytes q4_0_dequantize 0)"
definition dequantize_row_q5_0 where
  "dequantize_row_q5_0 = dequantize_row QK5_0 BLOCK_SIZE_Q5_0 (decode_chunks QK5_0 q5_0_from_bytes q5_0_dequantize 0)"
definition dequantize_row_q8_0 where
  "dequantize_row_q8_0 = dequantize_row QK8_0 BLOCK_SIZE_Q8_0 (decode_chunks_direct QK8_0 q8_0_from_bytes q8_0_dequantize 0)"
definition dequantize_row_q4_k where
  "dequantize_row_q4_k = dequantize_row QK_K BLOCK_SIZE_Q4_K (decode_chunks QK_K q4_k_from_bytes q4_k_dequantize 0)"
definition dequantize_row_q5_k where
  "dequantize_row_q5_k = dequantize_row QK_K BLOCK_SIZE_Q5_K (decode_chunks QK_K q5_k_from_bytes q5_k_dequantize 0)"
definition dequantize_row_q6_k where
  "dequantize_row_q6_k = dequantize_row QK_K BLOCK_SIZE_Q6_K (decode_chunks QK_K q6_k_from_bytes q6_k_dequantize 0)"
definition dequantize_row_q2_k where
  "dequantize_row_q2_k = dequantize_row QK_K BLOCK_SIZE_Q2_K (decode_chunks QK_K q2_k_from_bytes q2_k_dequantize 0)"
definition dequantize_row_q3_k where
  "dequantize_row_q3_k = dequantize_row QK_K BLOCK_SIZE_Q3_K (decode_chunks QK_K q3_k_from_bytes q3_k_dequantize 0)"
definition dequantize_row_q8_k where
  "dequantize_row_q8_k = dequantize_row QK_K BLOCK_SIZE_Q8_K (decode_chunks QK_K q8_k_from_bytes q8_k_dequantize 0)"

subsection \<open>Matrix-vector products\<close>

text \<open>\<open>sum += deq[j] * x[x_offset + j]\<close> over a block, then over a row; the guards of the kernel keep the indices in range.\<close>

definition block_dot :: "nat \<Rightarrow> f32 list \<Rightarrow> f32 list \<Rightarrow> nat \<Rightarrow> f32 \<Rightarrow> f32" where
  "block_dot qk deq x x_offset acc = fold (\<lambda>j acc. fadd acc (fmul (deq ! j) (x ! (x_offset + j)))) [0..<qk] acc"

fun row_dot :: "nat \<Rightarrow> (byte list \<Rightarrow> ('b, data_source_error) result) \<Rightarrow> ('b \<Rightarrow> f32 list \<Rightarrow> f32 list)
    \<Rightarrow> f32 list \<Rightarrow> nat \<Rightarrow> byte list list \<Rightarrow> f32 \<Rightarrow> (f32, data_source_error) result" where
  "row_dot qk from_bytes dequantize x block_idx [] acc = Ok acc"
| "row_dot qk from_bytes dequantize x block_idx (c # cs) acc =
     rbind (from_bytes c) (\<lambda>block.
       let deq = dequantize block (replicate qk 0) in
       row_dot qk from_bytes dequantize x (block_idx + 1) cs (block_dot qk deq x (block_idx * qk) acc))"

text \<open>\<open>for i in a..b { y[i - a] = dot(row i)? }\<close>, with the rows already written when a row fails.\<close>

fun write_rows :: "(nat \<Rightarrow> (f32, 'e) result) \<Rightarrow> nat \<Rightarrow> nat list \<Rightarrow> f32 list \<Rightarrow> f32 list \<times> (unit, 'e) result" where
  "write_rows dot a [] y = (y, Ok ())"
| "write_rows dot a (i # is) y =
     (case dot i of
        Ok acc \<Rightarrow> write_rows dot a is (y[i - a := acc])
      | Err e \<Rightarrow> (y, Err e)
      | Panic m \<Rightarrow> (y, Panic m))"

definition matvec_blocks ::
  "nat \<Rightarrow> nat \<Rightarrow> (byte list \<Rightarrow> ('b, data_source_error) result) \<Rightarrow> ('b \<Rightarrow> f32 list \<Rightarrow> f32 list)
    \<Rightarrow> byte list \<Rightarrow> nat list \<Rightarrow> f32 list \<Rightarrow> f32 list \<Rightarrow> f32 list \<times> (unit, data_source_error) result"
where
  "matvec_blocks qk block_size from_bytes dequantize w_bytes w_shape x y =
     (if length w_shape \<noteq> 2 then (y, Err (DsGeneral ''matvec expects 2D weight''))
      else
        let out_dim = w_shape ! 0; in_dim = w_shape ! 1 in
        if length x \<noteq> in_dim \<or> length y \<noteq> out_dim then (y, Err (DsGeneral ''matvec shape mismatch''))
        else if in_dim mod qk \<noteq> 0 then (y, Err (DsGeneral ''in_dim not divisible''))
        else
          let row_bytes = wrapping_mul (in_dim div qk) block_size in
          if length w_bytes < wrapping_mul out_dim row_bytes then (y, Err (DsGeneral ''weight truncated''))
          else write_rows (\<lambda>i.
            let row_start = wrapping_mul i row_bytes in
            rbind (rust_slice row_start (wrapping_add row_start row_bytes) w_bytes) (\<lambda>row_slice.
              row_dot qk from_bytes dequantize x 0 (chunks block_size row_slice) 0)) 0 [0..<out_dim] y)"

definition matvec_q8_0 where "matvec_q8_0 = matvec_blocks QK8_0 BLOCK_SIZE_Q8_0 q8_0_from_bytes q8_0_dequantize"
definition matvec_q5_0 where "matvec_q5_0 = matvec_blocks QK5_0 BLOCK_SIZE_Q5_0 q5_0_from_bytes q5_0_dequantize"
definition matvec_q4_k where "matvec_q4_k = matvec_blocks QK_K BLOCK_SIZE_Q4_K q4_k_from_bytes q4_k_dequantize"
definition matvec_q5_k where "matvec_q5_k = matvec_blocks QK_K BLOCK_SIZE_Q5_K q5_k_from_bytes q5_k_dequantize"
definition matvec_q2_k where "matvec_q2_k = matvec_blocks QK_K BLOCK_SIZE_Q2_K q2_k_from_bytes q2_k_dequantize"
definition matvec_q3_k where "matvec_q3_k = matvec_blocks QK_K BLOCK_SIZE_Q3_K q3_k_from_bytes q3_k_dequantize"
definition matvec_q8_k where "matvec_q8_k = matvec_blocks QK_K BLOCK_SIZE_Q8_K q8_k_from_bytes q8_k_dequantize"

subsection \<open>Fused products of Q4_0 and Q6_K\<close>

definition q4_0_byte_step :: "f32 \<Rightarrow> byte list \<Rightarrow> f32 list \<Rightarrow> nat \<Rightarrow> nat \<Rightarrow> nat \<Rightarrow> f32 \<Rightarrow> f32" where
  "q4_0_byte_step d row_bytes x x_offset off j acc =
     (let byte = row_bytes ! (off + j); q0 = (byte AND 0x0F) - 8; q1 = drop_bit 4 byte - 8;
          acc = fadd acc (fmul (fmul (f32_of_i8 q0) d) (x ! (x_offset + j)))
      in fadd acc (fmul (fmul (f32_of_i8 q1) d) (x ! (x_offset + 16 + j))))"

definition q4_0_block_step :: "byte list \<Rightarrow> f32 list \<Rightarrow> f32 \<times> nat \<times> nat \<Rightarrow> f32 \<times> nat \<times> nat" where
  "q4_0_block_step row_bytes x s =
     (case s of (acc, x_offset, off) \<Rightarrow>
        let d = f16_to_f32 (u16_of_le [row_bytes ! off, row_bytes ! (off + 1)]); off = off + 2;
            acc = fold (q4_0_byte_step d row_bytes x x_offset off) [0..<16] acc
        in (acc, x_offset + QK4_0, off + 16))"

definition q4_0_row_dot :: "byte list \<Rightarrow> nat \<Rightarrow> f32 list \<Rightarrow> f32" where
  "q4_0_row_dot row_bytes blocks_per_row x = fst ((q4_0_block_step row_bytes x ^^ blocks_per_row) (0, 0, 0))"

definition q6_k_place_step :: "byte list \<Rightarrow> byte list \<Rightarrow> byte list \<Rightarrow> f32 \<Rightarrow> f32 list \<Rightarrow> nat \<Rightarrow> nat \<Rightarrow> nat \<Rightarrow> nat \<Rightarrow> nat \<Rightarrow> f32 \<Rightarrow> f32" where
  "q6_k_place_step ql qh scales d x x_offset ql_off qh_off sc_off l acc =
     (let is = l div 16; qh_byte = qh ! (qh_off + l); ql_lo = ql ! (ql_off + l); ql_hi = ql ! (ql_off + 32 + l);
          sc1 = fmul (f32_of_i8 (scales ! (sc_off + is))) d; sc2 = fmul (f32_of_i8 (scales ! (sc_off + is + 2))) d;
          sc3 = fmul (f32_of_i8 (scales ! (sc_off + is + 4))) d; sc4 = fmul (f32_of_i8 (scales ! (sc_off + is + 6))) d;
          q1 = ((ql_lo AND 0x0F) OR push_bit 4 (qh_byte AND 3)) - 32;
          q2 = ((ql_hi AND 0x0F) OR push_bit 4 (drop_bit 2 qh_byte AND 3)) - 32;
          q3 = (drop_bit 4 ql_lo OR push_bit 4 (drop_bit 4 qh_byte AND 3)) - 32;
          q4 = (drop_bit 4 ql_hi OR push_bit 4 (drop_bit 6 qh_byte AND 3)) - 32;
          acc = fadd acc (fmul (fmul sc1 (f32_of_i8 q1)) (x ! (x_offset + l)));
          acc = fadd acc (fmul (fmul sc2 (f32_of_i8 q2)) (x ! (x_offset + l + 32)));
          acc = fadd acc (fmul (fmul sc3 (f32_of_i8 q3)) (x ! (x_offset + l + 64)))
      in fadd acc (fmul (fmul sc4 (f32_of_i8 q4)) (x ! (x_offset + l + 96))))"

definition q6_k_half_step ::
  "byte list \<Rightarrow> byte list \<Rightarrow> byte list \<Rightarrow> f32 \<Rightarrow> f32 list \<Rightarrow> f32 \<times> nat \<times> nat \<times> nat \<times> nat \<Rightarrow> f32 \<times> nat \<times> nat \<times> nat \<times> nat"
where
  "q6_k_half_step ql qh scales d x s =
     (case s of (acc, x_offset, ql_off, qh_off, sc_off) \<Rightarrow>
        (fold (q6_k_place_step ql qh scales d x x_offset ql_off qh_off sc_off) [0..<32] acc,
         x_offset + 128, ql_off + 64, qh_off + 32, sc_off + 8))"

text \<open>The rounds of the block loop, with the state it carries.\<close>

fun q6_k_blocks :: "nat \<Rightarrow> byte list \<Rightarrow> f32 list \<Rightarrow> f32 \<Rightarrow> nat \<Rightarrow> nat \<Rightarrow> (f32, data_source_error) result" where
  "q6_k_blocks 0 row_bytes x acc x_offset off = Ok acc"
| "q6_k_blocks (Suc n) row_bytes x acc x_offset off =
     (if length row_bytes < off + BLOCK_SIZE_Q6_K then Err (DsGeneral ''Q6_K row truncated'')
      else
        let ql = byte_range row_bytes off (off + 128); qh = byte_range row_bytes (off + 128) (off + 192);
            scales = byte_range row_bytes (off + 192) (off + 208);
            d = f16_to_f32 (u16_of_le [row_bytes ! (off + 208), row_bytes ! (off + 209)])
        in case (q6_k_half_step ql qh scales d x ^^ (QK_K div 128)) (acc, x_offset, 0, 0, 0) of
             (acc, x_offset, _) \<Rightarrow> q6_k_blocks n row_bytes x acc x_offset (off + BLOCK_SIZE_Q6_K))"

definition q6_k_row_dot :: "byte list \<Rightarrow> nat \<Rightarrow> f32 list \<Rightarrow> (f32, data_source_error) result" where
  "q6_k_row_dot row_bytes blocks_per_row x = q6_k_blocks blocks_per_row row_bytes x 0 0 0"

text \<open>The two row-range kernels have the same guards; they differ in the block and the product of a row.\<close>

definition matvec_row_range ::
  "nat \<Rightarrow> nat \<Rightarrow> (byte list \<Rightarrow> nat \<Rightarrow> f32 list \<Rightarrow> (f32, data_source_error) result)
    \<Rightarrow> byte list \<Rightarrow> nat list \<Rightarrow> f32 list \<Rightarrow> f32 list \<Rightarrow> nat \<Rightarrow> nat option \<Rightarrow> f32 list \<times> (unit, data_source_error) result"
where
  "matvec_row_range qk block_size dot w_bytes w_shape x y row_start row_count =
     (if length w_shape \<noteq> 2 then (y, Err (DsGeneral ''matvec expects 2D weight''))
      else
        let out_dim = w_shape ! 0; in_dim = w_shape ! 1 in
        if length x \<noteq> in_dim then (y, Err (DsGeneral ''matvec input shape mismatch''))
        else if row_start > out_dim then (y, Err (DsGeneral ''row start exceeds out_dim''))
        else
          let row_count = (case row_count of None \<Rightarrow> out_dim - row_start | Some n \<Rightarrow> n) in
          case checked_add row_start row_count of
            None \<Rightarrow> (y, Err (DsGeneral ''row range overflow''))
          | Some row_end \<Rightarrow>
              if row_end > out_dim \<or> length y \<noteq> row_count then (y, Err (DsGeneral ''row range''))
              else if in_dim mod qk \<noteq> 0 then (y, Err (DsGeneral ''in_dim not divisible''))
              else
                let blocks_per_row = in_dim div qk; row_bytes = wrapping_mul blocks_per_row block_size in
                if length w_bytes < wrapping_mul out_dim row_bytes then (y, Err (DsGeneral ''weight truncated''))
                else write_rows (\<lambda>i.
                  let rb = wrapping_mul i row_bytes in
                  rbind (rust_slice rb (wrapping_add rb row_bytes) w_bytes) (\<lambda>row. dot row blocks_per_row x))
                  row_start [row_start..<row_end] y)"

definition matvec_q4_0_row_range where
  "matvec_q4_0_row_range = matvec_row_range QK4_0 BLOCK_SIZE_Q4_0 (\<lambda>row n x. Ok (q4_0_row_dot row n x))"
definition matvec_q6_k_row_range where
  "matvec_q6_k_row_range = matvec_row_range QK_K BLOCK_SIZE_Q6_K q6_k_row_dot"
definition matvec_q4_0 where "matvec_q4_0 w_bytes w_shape x y = matvec_q4_0_row_range w_bytes w_shape x y 0 None"
definition matvec_q6_k where "matvec_q6_k w_bytes w_shape x y = matvec_q6_k_row_range w_bytes w_shape x y 0 None"

subsection \<open>What rows decode to\<close>

text \<open>The values of a block read from a chunk, and of the rows of blocks in a buffer.\<close>

definition chunk_values :: "nat \<Rightarrow> (byte list \<Rightarrow> ('b, data_source_error) result) \<Rightarrow> ('b \<Rightarrow> nat \<Rightarrow> f32) \<Rightarrow> byte list \<Rightarrow> f32 list" where
  "chunk_values qk from_bytes value_at c =
     (case from_bytes c of Ok b \<Rightarrow> map (value_at b) [0..<qk] | _ \<Rightarrow> replicate qk 0)"

definition row_values :: "nat \<Rightarrow> (byte list \<Rightarrow> f32 list) \<Rightarrow> byte list \<Rightarrow> nat \<Rightarrow> f32 list" where
  "row_values block_size chunk bytes n_blocks = concat (map (\<lambda>i. chunk (take block_size (drop (i * block_size) bytes))) [0..<n_blocks])"

definition dot :: "f32 list \<Rightarrow> f32 list \<Rightarrow> f32 \<Rightarrow> f32" where
  "dot a x acc = fold (\<lambda>(u, v) acc. fadd acc (fmul u v)) (zip a x) acc"

lemma dot_append: "length a = length x \<Longrightarrow> dot (a @ b) (x @ z) acc = dot b z (dot a x acc)"
  by (simp add: dot_def)

lemma fold_indices:
  assumes "length a = n" "off + n \<le> length x"
  shows "fold (\<lambda>j acc. fadd acc (fmul (a ! j) (x ! (off + j)))) [0..<n] acc = dot a (take n (drop off x)) acc"
proof -
  have "zip a (take n (drop off x)) = map (\<lambda>j. (a ! j, x ! (off + j))) [0..<n]"
    using assms by (intro nth_equalityI) auto
  then show ?thesis by (simp add: dot_def fold_map comp_def)
qed

lemma length_chunk_values [simp]: "length (chunk_values qk from_bytes value_at c) = qk"
  by (simp add: chunk_values_def split: result.split)

lemma length_row_values [simp]: "length (row_values bs (chunk_values qk f v) bytes n) = n * qk"
  by (induction n) (simp_all add: row_values_def)

text \<open>Rows that do not fail are all written.\<close>

lemma write_rows_append:
  "write_rows f a (is @ js) y = (case write_rows f a is y of (y', Ok u) \<Rightarrow> write_rows f a js y' | (y', r) \<Rightarrow> (y', r))"
  by (induction f a "is" y rule: write_rows.induct) (auto split: result.splits)

lemma write_rows_all:
  assumes "\<And>i. a \<le> i \<Longrightarrow> i < b \<Longrightarrow> f i = Ok (g i)" "length y = b - a"
  shows "write_rows f a [a..<b] y = (map g [a..<b], Ok ())"
proof -
  have "write_rows f a [a..<a + k] y = (map g [a..<a + k] @ drop k y, Ok ())" if "a + k \<le> b" for k
    using that
  proof (induction k)
    case (Suc k)
    have "drop k y = y ! k # drop (Suc k) y" using Suc.prems assms(2) by (intro Cons_nth_drop_Suc [symmetric]) simp
    moreover have "f (a + k) = Ok (g (a + k))" using assms(1) Suc.prems by simp
    ultimately show ?case using Suc by (simp add: write_rows_append list_update_append)
  qed simp
  from this [of "b - a"] show ?thesis using assms(2) by (cases "a \<le> b") auto
qed

text \<open>What the row operations use of a block format.\<close>

locale block_format =
  fixes qk block_size :: nat
    and from_bytes :: "byte list \<Rightarrow> ('b, data_source_error) result"
    and dequantize :: "'b \<Rightarrow> f32 list \<Rightarrow> f32 list"
    and value_at :: "'b \<Rightarrow> nat \<Rightarrow> f32"
  assumes width: "0 < qk" "0 < block_size"
    and whole_block: "block_size \<le> length c \<Longrightarrow> \<exists>b. from_bytes c = Ok b"
    and fills: "length out = qk \<Longrightarrow> dequantize b out = map (value_at b) [0..<qk]"
begin

abbreviation cv :: "byte list \<Rightarrow> f32 list" where "cv \<equiv> chunk_values qk from_bytes value_at"

lemma whole_chunk:
  assumes "block_size \<le> length c" "length out = qk"
  obtains b where "from_bytes c = Ok b" "dequantize b out = cv c"
  using whole_block [OF assms(1)] fills [OF assms(2)] by (auto simp: chunk_values_def)

lemma decode_chunks_values:
  assumes "\<forall>c \<in> set cs. block_size \<le> length c" "(i + length cs) * qk \<le> length out"
  shows "decode_chunks qk from_bytes dequantize i cs out
    = (take (i * qk) out @ concat (map cv cs) @ drop ((i + length cs) * qk) out, Ok ())"
  using assms
proof (induction cs arbitrary: i out)
  case (Cons c cs)
  obtain b where b: "from_bytes c = Ok b" "dequantize b (replicate qk 0) = cv c"
    using whole_chunk [of c "replicate qk 0"] Cons.prems by auto
  have le: "(i + 1) * qk \<le> length out" using Cons.prems(2) by (rule order_trans [rotated]) (simp add: algebra_simps)
  define p q where "p = take (i * qk) out @ cv c" and "q = drop ((i + 1) * qk) out"
  have p: "length p = (i + 1) * qk" using le by (simp add: p_def)
  have q: "length q = length out - (i + 1) * qk" by (simp add: q_def)
  have pq: "length (p @ q) = length out" using le p q by simp
  have "(i + 1 + length cs) * qk \<le> length (p @ q)" using Cons.prems(2) unfolding pq by simp
  then have "decode_chunks qk from_bytes dequantize (i + 1) cs (p @ q)
    = (take ((i + 1) * qk) (p @ q) @ concat (map cv cs) @ drop ((i + 1 + length cs) * qk) (p @ q), Ok ())"
    using Cons.prems(1) by (intro Cons.IH) simp_all
  moreover have "take ((i + 1) * qk) (p @ q) = p" using p by simp
  moreover have "drop ((i + 1 + length cs) * qk) (p @ q) = drop ((i + length (c # cs)) * qk) out"
  proof -
    have "(i + 1 + length cs) * qk - length p + (i + 1) * qk = (i + length (c # cs)) * qk" unfolding p by (simp add: algebra_simps)
    moreover have "length p \<le> (i + 1 + length cs) * qk" unfolding p by simp
    ultimately show ?thesis unfolding q_def by (simp only: drop_append drop_all append_Nil drop_drop)
  qed
  ultimately have "decode_chunks qk from_bytes dequantize (i + 1) cs (p @ q)
    = (p @ concat (map cv cs) @ drop ((i + length (c # cs)) * qk) out, Ok ())" by simp
  moreover have "decode_chunks qk from_bytes dequantize i (c # cs) out = decode_chunks qk from_bytes dequantize (i + 1) cs (p @ q)"
    using b le by (simp add: p_def q_def)
  ultimately show ?case by (simp only: p_def list.map concat.simps append_assoc)
qed simp

lemma decode_chunks_direct_values:
  assumes "\<forall>c \<in> set cs. block_size \<le> length c" "(i + length cs) * qk \<le> length out"
  shows "decode_chunks_direct qk from_bytes dequantize i cs out = decode_chunks qk from_bytes dequantize i cs out"
  using assms
proof (induction cs arbitrary: i out)
  case (Cons c cs)
  have le: "(i + 1) * qk \<le> length out" using Cons.prems(2) by (rule order_trans [rotated]) (simp add: algebra_simps)
  then have l: "length (take qk (drop (i * qk) out)) = qk" by simp
  obtain b where b: "from_bytes c = Ok b" using whole_block [of c] Cons.prems by auto
  have d: "dequantize b (take qk (drop (i * qk) out)) = dequantize b (replicate qk 0)"
    using fills [of _ b] l by simp
  let ?out = "take (i * qk) out @ dequantize b (replicate qk 0) @ drop ((i + 1) * qk) out"
  have "length ?out = length out" using le fills [of "replicate qk 0" b] by simp
  then have "decode_chunks_direct qk from_bytes dequantize (i + 1) cs ?out = decode_chunks qk from_bytes dequantize (i + 1) cs ?out"
    using Cons.prems by (intro Cons.IH) auto
  then show ?case using b le d by simp
qed simp

lemma row_chunks_whole:
  assumes "n * block_size \<le> length bytes" "c \<in> set (take n (chunks block_size bytes))"
  shows "block_size \<le> length c"
proof -
  obtain i where i: "i < n" "c = take block_size (drop (i * block_size) bytes)"
    using assms take_chunks [OF width(2) assms(1)] by auto
  have "(i + 1) * block_size \<le> n * block_size" using i(1) by (intro mult_le_mono1) simp
  then have "block_size \<le> length bytes - i * block_size" using assms(1) by simp
  then show ?thesis using i(2) by simp
qed

lemma dequantize_row_values:
  assumes "n mod qk = 0" "n div qk * block_size \<le> length bytes" "length bytes \<le> U64_MAX" "n \<le> length out"
  shows "dequantize_row qk block_size (decode_chunks qk from_bytes dequantize 0) bytes n out
      = (row_values block_size cv bytes (n div qk) @ drop n out, Ok ())"
    "dequantize_row qk block_size (decode_chunks_direct qk from_bytes dequantize 0) bytes n out
      = (row_values block_size cv bytes (n div qk) @ drop n out, Ok ())"
proof -
  let ?cs = "take (n div qk) (chunks block_size bytes)"
  have n: "n div qk * qk = n" using assms(1) by (simp add: mod_0_imp_dvd)
  have w: "\<forall>c \<in> set ?cs. block_size \<le> length c" using row_chunks_whole [OF assms(2)] by blast
  have cs: "?cs = map (\<lambda>i. take block_size (drop (i * block_size) bytes)) [0..<n div qk]"
    by (rule take_chunks [OF width(2) assms(2)])
  then have len: "length ?cs = n div qk" by simp
  have v: "concat (map cv ?cs) = row_values block_size cv bytes (n div qk)" unfolding cs row_values_def by (simp add: comp_def)
  have "decode_chunks qk from_bytes dequantize 0 ?cs out = (row_values block_size cv bytes (n div qk) @ drop n out, Ok ())"
    using decode_chunks_values [OF w, of 0 out] assms(4) len n v by simp
  moreover have "decode_chunks_direct qk from_bytes dequantize 0 ?cs out = decode_chunks qk from_bytes dequantize 0 ?cs out"
    using w assms(4) len n by (intro decode_chunks_direct_values) simp_all
  moreover have "wrapping_mul (n div qk) block_size = n div qk * block_size" using assms(2,3) by simp
  ultimately show "dequantize_row qk block_size (decode_chunks qk from_bytes dequantize 0) bytes n out
      = (row_values block_size cv bytes (n div qk) @ drop n out, Ok ())"
    "dequantize_row qk block_size (decode_chunks_direct qk from_bytes dequantize 0) bytes n out
      = (row_values block_size cv bytes (n div qk) @ drop n out, Ok ())"
    using assms(1,2) by (simp_all add: dequantize_row_def)
qed

text \<open>The product of a row is the product of its decoded values, in order.\<close>

lemma row_dot_values:
  assumes "\<forall>c \<in> set cs. block_size \<le> length c" "(i + length cs) * qk \<le> length x"
  shows "row_dot qk from_bytes dequantize x i cs acc = Ok (dot (concat (map cv cs)) (take (length cs * qk) (drop (i * qk) x)) acc)"
  using assms
proof (induction cs arbitrary: i acc)
  case (Cons c cs)
  obtain b where b: "from_bytes c = Ok b" "dequantize b (replicate qk 0) = cv c"
    using whole_chunk [of c "replicate qk 0"] Cons.prems by auto
  have le: "i * qk + qk \<le> length x" using Cons.prems(2) by (rule order_trans [rotated]) (simp add: algebra_simps)
  have bd: "block_dot qk (cv c) x (i * qk) acc = dot (cv c) (take qk (drop (i * qk) x)) acc"
    unfolding block_dot_def using le by (intro fold_indices) simp_all
  have ih: "row_dot qk from_bytes dequantize x (i + 1) cs acc'
    = Ok (dot (concat (map cv cs)) (take (length cs * qk) (drop ((i + 1) * qk) x)) acc')" for acc'
    using Cons.prems by (intro Cons.IH) auto
  have "take (length (c # cs) * qk) (drop (i * qk) x) = take qk (drop (i * qk) x) @ take (length cs * qk) (drop ((i + 1) * qk) x)"
    by (simp add: take_add add.commute)
  moreover have "dot (concat (map cv (c # cs))) (take qk (drop (i * qk) x) @ take (length cs * qk) (drop ((i + 1) * qk) x)) acc
    = dot (concat (map cv cs)) (take (length cs * qk) (drop ((i + 1) * qk) x)) (dot (cv c) (take qk (drop (i * qk) x)) acc)"
    using le by (simp add: dot_append)
  ultimately show ?case using b bd ih by simp
qed (simp add: dot_def)

lemma row_slice:
  assumes "i < out_dim" "out_dim * row_bytes \<le> length w_bytes" "length w_bytes \<le> U64_MAX"
  shows "rust_slice (wrapping_mul i row_bytes) (wrapping_add (wrapping_mul i row_bytes) row_bytes) w_bytes
    = Ok (take row_bytes (drop (i * row_bytes) w_bytes))" "length (take row_bytes (drop (i * row_bytes) w_bytes)) = row_bytes"
proof -
  have "(i + 1) * row_bytes \<le> out_dim * row_bytes" using assms(1) by (intro mult_le_mono1) simp
  then have le: "i * row_bytes + row_bytes \<le> length w_bytes" using assms(2) by simp
  then have w: "wrapping_mul i row_bytes = i * row_bytes" "wrapping_add (i * row_bytes) row_bytes = i * row_bytes + row_bytes"
    using assms(3) by (simp_all add: wrapping_add_exact)
  show "rust_slice (wrapping_mul i row_bytes) (wrapping_add (wrapping_mul i row_bytes) row_bytes) w_bytes
    = Ok (take row_bytes (drop (i * row_bytes) w_bytes))" unfolding w rust_slice_def using le by simp
  show "length (take row_bytes (drop (i * row_bytes) w_bytes)) = row_bytes" using le by simp
qed

lemma row_product:
  assumes "length x = n * qk" "length bytes = n * block_size"
  shows "row_dot qk from_bytes dequantize x 0 (chunks block_size bytes) acc = Ok (dot (row_values block_size cv bytes n) x acc)"
proof -
  have cs: "chunks block_size bytes = map (\<lambda>i. take block_size (drop (i * block_size) bytes)) [0..<n]"
    by (rule chunks_whole [OF width(2) assms(2)])
  have "chunks block_size bytes = take n (chunks block_size bytes)" unfolding cs by simp
  then have w: "\<forall>c \<in> set (chunks block_size bytes). block_size \<le> length c"
    using row_chunks_whole [of n bytes] assms(2) by auto
  have "length (chunks block_size bytes) = n" unfolding cs by simp
  then show ?thesis using row_dot_values [OF w, of 0 x acc] assms(1) unfolding row_values_def by (simp add: cs comp_def)
qed

lemma matvec_blocks_values:
  assumes "length x = in_dim" "length y = out_dim" "in_dim mod qk = 0"
    "out_dim * (in_dim div qk * block_size) \<le> length w_bytes" "length w_bytes \<le> U64_MAX" "in_dim div qk * block_size \<le> U64_MAX"
  shows "matvec_blocks qk block_size from_bytes dequantize w_bytes [out_dim, in_dim] x y
    = (map (\<lambda>i. dot (row_values block_size cv (take (in_dim div qk * block_size) (drop (i * (in_dim div qk * block_size)) w_bytes))
        (in_dim div qk)) x 0) [0..<out_dim], Ok ())"
proof -
  let ?n = "in_dim div qk"
  have n: "?n * qk = in_dim" using assms(3) by (simp add: mod_0_imp_dvd)
  have rb: "wrapping_mul ?n block_size = ?n * block_size" "wrapping_mul out_dim (?n * block_size) = out_dim * (?n * block_size)"
    using assms(4-6) by simp_all
  have "rbind (rust_slice (wrapping_mul i (?n * block_size)) (wrapping_add (wrapping_mul i (?n * block_size)) (?n * block_size)) w_bytes)
      (\<lambda>row_slice. row_dot qk from_bytes dequantize x 0 (chunks block_size row_slice) 0)
    = Ok (dot (row_values block_size cv (take (?n * block_size) (drop (i * (?n * block_size)) w_bytes)) ?n) x 0)" if "i < out_dim" for i
    unfolding row_slice(1) [OF that assms(4,5)] rbind.simps
    using row_product [OF _ row_slice(2) [OF that assms(4,5)]] assms(1) n by simp
  then have "write_rows (\<lambda>i. rbind (rust_slice (wrapping_mul i (?n * block_size))
        (wrapping_add (wrapping_mul i (?n * block_size)) (?n * block_size)) w_bytes)
      (\<lambda>row_slice. row_dot qk from_bytes dequantize x 0 (chunks block_size row_slice) 0)) 0 [0..<out_dim] y
    = (map (\<lambda>i. dot (row_values block_size cv (take (?n * block_size) (drop (i * (?n * block_size)) w_bytes)) ?n) x 0) [0..<out_dim], Ok ())"
    using assms(2) by (intro write_rows_all) simp_all
  then show ?thesis using assms(1-4) rb unfolding matvec_blocks_def by (simp add: Let_def)
qed

end

subsection \<open>The nine formats\<close>

lemma read_f16_le_range: "b + 2 \<le> length c \<Longrightarrow> read_f16_le (byte_range c b (b + 2)) = Ok (f16_to_f32 (u16_of_le (take 2 (drop b c))))"
  by (simp add: read_f16_le_def byte_range_def)

lemmas from_bytes_defs = q4_0_from_bytes_def q5_0_from_bytes_def q8_0_from_bytes_def q4_k_from_bytes_def q5_k_from_bytes_def
  q6_k_from_bytes_def q2_k_from_bytes_def q3_k_from_bytes_def q8_k_from_bytes_def read_f16_le_def read_f32_le_def byte_range_def

interpretation q4_0: block_format QK4_0 BLOCK_SIZE_Q4_0 q4_0_from_bytes q4_0_dequantize q4_0_value
  by unfold_locales (simp_all add: block_sizes from_bytes_defs q4_0_dequantize_all del: upt_rec_numeral)
interpretation q5_0: block_format QK5_0 BLOCK_SIZE_Q5_0 q5_0_from_bytes q5_0_dequantize q5_0_value
  by unfold_locales (simp_all add: block_sizes from_bytes_defs q5_0_dequantize_all del: upt_rec_numeral)
interpretation q8_0: block_format QK8_0 BLOCK_SIZE_Q8_0 q8_0_from_bytes q8_0_dequantize q8_0_value
  by unfold_locales (simp_all add: block_sizes from_bytes_defs q8_0_dequantize_all del: upt_rec_numeral)
interpretation q4_k: block_format QK_K BLOCK_SIZE_Q4_K q4_k_from_bytes q4_k_dequantize q4_k_value
  by unfold_locales (simp_all add: block_sizes from_bytes_defs q4_k_dequantize_all del: upt_rec_numeral)
interpretation q5_k: block_format QK_K BLOCK_SIZE_Q5_K q5_k_from_bytes q5_k_dequantize q5_k_value
  by unfold_locales (simp_all add: block_sizes from_bytes_defs q5_k_dequantize_all del: upt_rec_numeral)
interpretation q6_k: block_format QK_K BLOCK_SIZE_Q6_K q6_k_from_bytes q6_k_dequantize q6_k_value
  by unfold_locales (simp_all add: block_sizes from_bytes_defs q6_k_dequantize_all del: upt_rec_numeral)
interpretation q2_k: block_format QK_K BLOCK_SIZE_Q2_K q2_k_from_bytes q2_k_dequantize q2_k_value
  by unfold_locales (simp_all add: block_sizes from_bytes_defs q2_k_dequantize_all del: upt_rec_numeral)
interpretation q3_k: block_format QK_K BLOCK_SIZE_Q3_K q3_k_from_bytes q3_k_dequantize q3_k_value
  by unfold_locales (simp_all add: block_sizes from_bytes_defs q3_k_dequantize_all del: upt_rec_numeral)
interpretation q8_k: block_format QK_K BLOCK_SIZE_Q8_K q8_k_from_bytes q8_k_dequantize q8_k_value
  by unfold_locales (simp_all add: block_sizes from_bytes_defs q8_k_dequantize_all del: upt_rec_numeral)

end
