(* ===== verification/Compute_Core.thy ===== *)
theory Compute_Core
  imports Quant_Rows
begin

section \<open>The reference products\<close>

text \<open>
  The matrix products of \<open>crates/ramforge-core/src/compute.rs\<close> and its elementwise operations. The module calls its quantized product the
  authority that the kernels of \<open>quant.rs\<close> are compared with; here they are. It reserves a buffer for the decoded row, which the
  kernels do not need: \<open>reserves n\<close> says whether \<open>try_reserve_exact\<close> gets \<open>n\<close> floats. Normalization, softmax, rotary embedding and
  attention need functions whose results Rust does not specify and are left out.
\<close>

record matrix_shape =
  ms_input :: usize
  ms_output :: usize

datatype compute_error = ComputeError string

type_synonym 'e written = "f32 list \<times> (unit, 'e) result"

definition validate_shape :: "matrix_shape \<Rightarrow> nat \<Rightarrow> nat \<Rightarrow> nat \<Rightarrow> (unit, compute_error) result" where
  "validate_shape shape weights_len x_len y_len =
     rbind (ok_or (ComputeError ''matrix weight size overflow'') (checked_mul (ms_input shape) (ms_output shape))) (\<lambda>expected_weights.
       if weights_len \<noteq> expected_weights \<or> x_len \<noteq> ms_input shape \<or> y_len \<noteq> ms_output shape
       then Err (ComputeError ''matvec arity mismatch'') else Ok ())"

subsection \<open>F32 products\<close>

text \<open>The sum over a row, by index as the first function does and by \<open>zip\<close> as the second.\<close>

definition indexed_dot :: "f32 list \<Rightarrow> f32 list \<Rightarrow> nat \<Rightarrow> f32" where
  "indexed_dot row x n = fold (\<lambda>i acc. fadd acc (fmul (row ! i) (x ! i))) [0..<n] 0"

definition matvec_f32_reference :: "f32 list \<Rightarrow> matrix_shape \<Rightarrow> f32 list \<Rightarrow> f32 list \<Rightarrow> compute_error written" where
  "matvec_f32_reference ws shape x y =
     (case validate_shape shape (length ws) (length x) (length y) of
        Ok _ \<Rightarrow>
          write_rows (\<lambda>o'.
            rbind (rust_slice (o' * ms_input shape) ((o' + 1) * ms_input shape) ws) (\<lambda>row.
              Ok (indexed_dot row x (ms_input shape)))) 0 [0..<ms_output shape] y
      | Err e \<Rightarrow> (y, Err e)
      | Panic m \<Rightarrow> (y, Panic m))"

definition matvec_f32_reference_row_range ::
  "f32 list \<Rightarrow> matrix_shape \<Rightarrow> f32 list \<Rightarrow> f32 list \<Rightarrow> nat \<Rightarrow> nat \<Rightarrow> compute_error written"
where
  "matvec_f32_reference_row_range ws shape x y row_start row_count =
     (if (case checked_add row_start row_count of None \<Rightarrow> True | Some e \<Rightarrow> e > ms_output shape)
      then (y, Err (ComputeError ''row range exceeds output dimension''))
      else if length y \<noteq> row_count then (y, Err (ComputeError ''row-range output length mismatch''))
      else if length x \<noteq> ms_input shape then (y, Err (ComputeError ''row-range input length mismatch''))
      else
        case checked_mul (ms_input shape) (ms_output shape) of
          None \<Rightarrow> (y, Err (ComputeError ''matrix weight size overflow''))
        | Some expected_weights \<Rightarrow>
            if length ws \<noteq> expected_weights then (y, Err (ComputeError ''matrix weight buffer length mismatch''))
            else write_rows (\<lambda>local_row.
              let output_index = row_start + local_row in
              rbind (rust_slice (output_index * ms_input shape) ((output_index + 1) * ms_input shape) ws) (\<lambda>row.
                Ok (dot row x 0))) 0 [0..<length y] y)"

subsection \<open>Quantized products\<close>

definition quantized_row_bytes :: "ggml_type \<Rightarrow> usize \<Rightarrow> (usize, compute_error) result" where
  "quantized_row_bytes t input =
     rbind (case t of
        Q4_0 \<Rightarrow> Ok (QK4_0, BLOCK_SIZE_Q4_0) | Q5_0 \<Rightarrow> Ok (QK5_0, BLOCK_SIZE_Q5_0) | Q8_0 \<Rightarrow> Ok (QK8_0, BLOCK_SIZE_Q8_0)
      | Q2_K \<Rightarrow> Ok (QK_K, BLOCK_SIZE_Q2_K) | Q3_K \<Rightarrow> Ok (QK_K, BLOCK_SIZE_Q3_K) | Q4_K \<Rightarrow> Ok (QK_K, BLOCK_SIZE_Q4_K)
      | Q5_K \<Rightarrow> Ok (QK_K, BLOCK_SIZE_Q5_K) | Q6_K \<Rightarrow> Ok (QK_K, BLOCK_SIZE_Q6_K) | Q8_K \<Rightarrow> Ok (QK_K, BLOCK_SIZE_Q8_K)
      | _ \<Rightarrow> Err (ComputeError ''no reference row layout registered'')) (\<lambda>(qk, block_bytes).
        if input mod qk \<noteq> 0 then Err (ComputeError ''input dimension is not divisible by block width'')
        else ok_or (ComputeError ''quantized row size overflow'') (checked_mul (input div qk) block_bytes))"

definition compute_of :: "data_source_error written \<Rightarrow> compute_error written" where
  "compute_of p = (fst p, map_err (\<lambda>_. ComputeError ''row decoder'') (snd p))"

definition decode_quantized_row :: "ggml_type \<Rightarrow> byte list \<Rightarrow> usize \<Rightarrow> f32 list \<Rightarrow> compute_error written" where
  "decode_quantized_row t bytes input out =
     (case t of
        Q4_0 \<Rightarrow> compute_of (dequantize_row_q4_0 bytes input out)
      | Q5_0 \<Rightarrow> compute_of (dequantize_row_q5_0 bytes input out)
      | Q8_0 \<Rightarrow> compute_of (dequantize_row_q8_0 bytes input out)
      | Q2_K \<Rightarrow> compute_of (dequantize_row_q2_k bytes input out)
      | Q3_K \<Rightarrow> compute_of (dequantize_row_q3_k bytes input out)
      | Q4_K \<Rightarrow> compute_of (dequantize_row_q4_k bytes input out)
      | Q5_K \<Rightarrow> compute_of (dequantize_row_q5_k bytes input out)
      | Q6_K \<Rightarrow> compute_of (dequantize_row_q6_k bytes input out)
      | Q8_K \<Rightarrow> compute_of (dequantize_row_q8_k bytes input out)
      | _ \<Rightarrow> (out, Err (ComputeError ''no reference decoder registered'')))"

text \<open>The rows are decoded into one buffer, which the next row overwrites. Reserving nothing never fails.\<close>

fun reference_rows ::
  "ggml_type \<Rightarrow> byte list \<Rightarrow> nat \<Rightarrow> nat \<Rightarrow> f32 list \<Rightarrow> nat list \<Rightarrow> f32 list \<Rightarrow> f32 list \<Rightarrow> compute_error written"
where
  "reference_rows t raw row_bytes input x [] decoded y = (y, Ok ())"
| "reference_rows t raw row_bytes input x (i # is) decoded y =
     (case rust_slice (i * row_bytes) ((i + 1) * row_bytes) raw of
        Ok row \<Rightarrow>
          (case decode_quantized_row t row input decoded of
             (decoded, Ok _) \<Rightarrow> reference_rows t raw row_bytes input x is decoded (y[i := indexed_dot decoded x input])
           | (_, Err e) \<Rightarrow> (y, Err e)
           | (_, Panic m) \<Rightarrow> (y, Panic m))
      | Err e \<Rightarrow> (y, Err e)
      | Panic m \<Rightarrow> (y, Panic m))"

definition quantized_matvec_reference ::
  "(usize \<Rightarrow> bool) \<Rightarrow> ggml_type \<Rightarrow> byte list \<Rightarrow> matrix_shape \<Rightarrow> f32 list \<Rightarrow> f32 list \<Rightarrow> compute_error written"
where
  "quantized_matvec_reference reserves t raw shape x y =
     (if length x \<noteq> ms_input shape \<or> length y \<noteq> ms_output shape then (y, Err (ComputeError ''quantized matvec shape mismatch''))
      else
        case quantized_row_bytes t (ms_input shape) of
          Err e \<Rightarrow> (y, Err e)
        | Panic m \<Rightarrow> (y, Panic m)
        | Ok row_bytes \<Rightarrow>
            (case checked_mul row_bytes (ms_output shape) of
               None \<Rightarrow> (y, Err (ComputeError ''quantized weight size overflow''))
             | Some expected_bytes \<Rightarrow>
                 if length raw < expected_bytes then (y, Err (ComputeError ''quantized weight buffer truncated''))
                 else if ms_input shape \<noteq> 0 \<and> \<not> reserves (ms_input shape)
                 then (y, Err (ComputeError ''failed to reserve decoded quantized row''))
                 else reference_rows t raw row_bytes (ms_input shape) x [0..<ms_output shape] (replicate (ms_input shape) 0) y))"

subsection \<open>Elementwise operations\<close>

definition validate_elementwise :: "f32 list \<Rightarrow> f32 list \<Rightarrow> f32 list \<Rightarrow> (unit, compute_error) result" where
  "validate_elementwise a b out =
     (if length a \<noteq> length b \<or> length a \<noteq> length out then Err (ComputeError ''elementwise shape mismatch'') else Ok ())"

definition add_reference :: "f32 list \<Rightarrow> f32 list \<Rightarrow> f32 list \<Rightarrow> compute_error written" where
  "add_reference a b out =
     (case validate_elementwise a b out of
        Ok _ \<Rightarrow> (fold (\<lambda>i out. out[i := fadd (a ! i) (b ! i)]) [0..<length a] out, Ok ())
      | Err e \<Rightarrow> (out, Err e) | Panic m \<Rightarrow> (out, Panic m))"

definition mul_reference :: "f32 list \<Rightarrow> f32 list \<Rightarrow> f32 list \<Rightarrow> compute_error written" where
  "mul_reference a b out =
     (case validate_elementwise a b out of
        Ok _ \<Rightarrow> (fold (\<lambda>i out. out[i := fmul (a ! i) (b ! i)]) [0..<length a] out, Ok ())
      | Err e \<Rightarrow> (out, Err e) | Panic m \<Rightarrow> (out, Panic m))"

subsection \<open>What the products compute\<close>

lemma indexed_dot_eq: "length row = n \<Longrightarrow> length x = n \<Longrightarrow> indexed_dot row x n = dot row x 0"
  using fold_indices [of row n 0 x 0] by (simp add: indexed_dot_def)

text \<open>A block format that the reference registers for a type.\<close>

locale reference_format = block_format +
  fixes t :: ggml_type
  assumes block_ratio: "block_size \<le> 2 * qk"
    and row_layout: "quantized_row_bytes t n =
      (if n mod qk \<noteq> 0 then Err (ComputeError ''input dimension is not divisible by block width'')
       else ok_or (ComputeError ''quantized row size overflow'') (checked_mul (n div qk) block_size))"
    and row_decoder: "n mod qk = 0 \<Longrightarrow> n div qk * block_size \<le> length bytes \<Longrightarrow> length bytes \<le> U64_MAX \<Longrightarrow> length out = n
      \<Longrightarrow> decode_quantized_row t bytes n out
        = (row_values block_size (chunk_values qk from_bytes value_at) bytes (n div qk), Ok ())"
begin

lemma reference_rows_values:
  fixes n :: nat
  assumes "length x = n" "n mod qk = 0" "length decoded = n" "\<forall>i \<in> set is. i < out_dim"
    "out_dim * (n div qk * block_size) \<le> length raw" "length raw \<le> U64_MAX"
  shows "reference_rows t raw (n div qk * block_size) n x is decoded y
    = write_rows (\<lambda>i. Ok (dot (row_values block_size cv (take (n div qk * block_size) (drop (i * (n div qk * block_size)) raw)) (n div qk)) x 0)) 0 is y"
  using assms(3,4)
proof (induction "is" arbitrary: decoded y)
  case (Cons i "is")
  let ?rb = "n div qk * block_size"
  have i: "i < out_dim" using Cons.prems by simp
  have "(i + 1) * ?rb \<le> out_dim * ?rb" using i by (intro mult_le_mono1) simp
  then have le: "(i + 1) * ?rb \<le> length raw" using assms(5) by linarith
  then have sl: "rust_slice (i * ?rb) ((i + 1) * ?rb) raw = (Ok (take ?rb (drop (i * ?rb) raw)) :: (byte list, compute_error) result)"
    unfolding rust_slice_def by simp
  have l: "length (take ?rb (drop (i * ?rb) raw)) = ?rb" by (rule row_slice(2) [OF i assms(5,6)])
  let ?row = "row_values block_size cv (take ?rb (drop (i * ?rb) raw)) (n div qk)"
  have "?rb \<le> U64_MAX" using le assms(6) by (simp add: algebra_simps)
  then have d: "decode_quantized_row t (take ?rb (drop (i * ?rb) raw)) n decoded = (?row, Ok ())"
    using l Cons.prems(1) assms(2) by (intro row_decoder) simp_all
  have n: "n div qk * qk = n" using assms(2) by (simp add: mod_0_imp_dvd)
  then have r: "length ?row = n" by simp
  have "reference_rows t raw ?rb n x (i # is) decoded y = reference_rows t raw ?rb n x is ?row (y[i := dot ?row x 0])"
    using sl d indexed_dot_eq [OF r assms(1)] by simp
  then show ?case using Cons.IH [OF r] Cons.prems by simp
qed simp

lemma block_kernel_agrees:
  fixes in_dim out_dim :: nat and reserves :: "nat \<Rightarrow> bool"
  assumes "2 * length x \<le> U64_MAX" "length raw \<le> U64_MAX"
    "\<And>rb. quantized_row_bytes t (length x) = Ok rb \<Longrightarrow> rb * length y \<le> U64_MAX"
  defines "k \<equiv> matvec_blocks qk block_size from_bytes dequantize raw [out_dim, in_dim] x y"
    and "r \<equiv> quantized_matvec_reference reserves t raw \<lparr>ms_input = in_dim, ms_output = out_dim\<rparr> x y"
  shows "fst r = (if in_dim = 0 \<or> reserves in_dim then fst k else y)
    \<and> (is_ok (snd r) \<longleftrightarrow> is_ok (snd k) \<and> (in_dim = 0 \<or> reserves in_dim)) \<and> \<not> is_panic (snd k) \<and> \<not> is_panic (snd r)"
proof (cases "length x = in_dim \<and> length y = out_dim \<and> in_dim mod qk = 0")
  case False
  then show ?thesis by (auto simp: k_def r_def matvec_blocks_def quantized_matvec_reference_def row_layout Let_def)
next
  case True
  let ?n = "in_dim div qk"
  let ?rb = "?n * block_size"
  have "?rb \<le> ?n * (2 * qk)" using block_ratio by simp
  also have "\<dots> = 2 * (?n * qk)" by simp
  also have "\<dots> = 2 * length x" using True by (simp add: mod_0_imp_dvd)
  finally have rb: "?rb \<le> U64_MAX" using assms(1) by linarith
  then have lay: "quantized_row_bytes t in_dim = Ok ?rb" using True by (simp add: row_layout)
  then have ob: "?rb * out_dim \<le> U64_MAX" using assms(3) [of ?rb] True by simp
  have n: "?n * qk = in_dim" using True by (simp add: mod_0_imp_dvd)
  show ?thesis
  proof (cases "length raw < out_dim * ?rb")
    case short: True
    have "k = (y, Err (DsGeneral ''weight truncated''))"
      using True short rb ob by (simp add: k_def matvec_blocks_def Let_def mult.commute [of out_dim])
    moreover have "r = (y, Err (ComputeError ''quantized weight buffer truncated''))"
      using True short lay by (simp add: checked_exact(3) [OF ob] r_def quantized_matvec_reference_def mult.commute [of out_dim])
    ultimately show ?thesis by simp
  next
    case False
    let ?g = "\<lambda>i. dot (row_values block_size cv (take ?rb (drop (i * ?rb) raw)) ?n) x 0"
    have k: "k = (map ?g [0..<out_dim], Ok ())"
      unfolding k_def using True False rb assms(2) by (intro matvec_blocks_values) auto
    have "reference_rows t raw ?rb in_dim x [0..<out_dim] (replicate in_dim 0) y = write_rows (\<lambda>i. Ok (?g i)) 0 [0..<out_dim] y"
      using True False assms(2) by (intro reference_rows_values) auto
    also have "\<dots> = (map ?g [0..<out_dim], Ok ())" using True by (intro write_rows_all) auto
    finally have rows: "reference_rows t raw ?rb in_dim x [0..<out_dim] (replicate in_dim 0) y = (map ?g [0..<out_dim], Ok ())" .
    have "r = (if in_dim \<noteq> 0 \<and> \<not> reserves in_dim then (y, Err (ComputeError ''failed to reserve decoded quantized row''))
        else reference_rows t raw ?rb in_dim x [0..<out_dim] (replicate in_dim 0) y)"
      using True False lay by (simp add: checked_exact(3) [OF ob] r_def quantized_matvec_reference_def mult.commute [of out_dim])
    then show ?thesis unfolding rows k by auto
  qed
qed

end

lemma block_ratios:
  "BLOCK_SIZE_Q4_0 \<le> 2 * QK4_0" "BLOCK_SIZE_Q5_0 \<le> 2 * QK5_0" "BLOCK_SIZE_Q8_0 \<le> 2 * QK8_0" "BLOCK_SIZE_Q4_K \<le> 2 * QK_K" "BLOCK_SIZE_Q5_K \<le> 2 * QK_K"
  "BLOCK_SIZE_Q6_K \<le> 2 * QK_K" "BLOCK_SIZE_Q2_K \<le> 2 * QK_K" "BLOCK_SIZE_Q3_K \<le> 2 * QK_K" "BLOCK_SIZE_Q8_K \<le> 2 * QK_K"
  by (simp_all add: block_sizes)

lemma compute_of_Ok [simp]: "compute_of (y, Ok ()) = (y, Ok ())"
  by (simp add: compute_of_def)

interpretation ref_q4_0: reference_format QK4_0 BLOCK_SIZE_Q4_0 q4_0_from_bytes q4_0_dequantize q4_0_value Q4_0
  by unfold_locales (simp_all add: quantized_row_bytes_def decode_quantized_row_def dequantize_row_q4_0_def q4_0.dequantize_row_values(1)
    block_ratios del: upt_rec_numeral)
interpretation ref_q5_0: reference_format QK5_0 BLOCK_SIZE_Q5_0 q5_0_from_bytes q5_0_dequantize q5_0_value Q5_0
  by unfold_locales (simp_all add: quantized_row_bytes_def decode_quantized_row_def dequantize_row_q5_0_def q5_0.dequantize_row_values(1)
    block_ratios del: upt_rec_numeral)
interpretation ref_q8_0: reference_format QK8_0 BLOCK_SIZE_Q8_0 q8_0_from_bytes q8_0_dequantize q8_0_value Q8_0
  by unfold_locales (simp_all add: quantized_row_bytes_def decode_quantized_row_def dequantize_row_q8_0_def q8_0.dequantize_row_values(2)
    block_ratios del: upt_rec_numeral)
interpretation ref_q4_k: reference_format QK_K BLOCK_SIZE_Q4_K q4_k_from_bytes q4_k_dequantize q4_k_value Q4_K
  by unfold_locales (simp_all add: quantized_row_bytes_def decode_quantized_row_def dequantize_row_q4_k_def q4_k.dequantize_row_values(1)
    block_ratios del: upt_rec_numeral)
interpretation ref_q5_k: reference_format QK_K BLOCK_SIZE_Q5_K q5_k_from_bytes q5_k_dequantize q5_k_value Q5_K
  by unfold_locales (simp_all add: quantized_row_bytes_def decode_quantized_row_def dequantize_row_q5_k_def q5_k.dequantize_row_values(1)
    block_ratios del: upt_rec_numeral)
interpretation ref_q6_k: reference_format QK_K BLOCK_SIZE_Q6_K q6_k_from_bytes q6_k_dequantize q6_k_value Q6_K
  by unfold_locales (simp_all add: quantized_row_bytes_def decode_quantized_row_def dequantize_row_q6_k_def q6_k.dequantize_row_values(1)
    block_ratios del: upt_rec_numeral)
interpretation ref_q2_k: reference_format QK_K BLOCK_SIZE_Q2_K q2_k_from_bytes q2_k_dequantize q2_k_value Q2_K
  by unfold_locales (simp_all add: quantized_row_bytes_def decode_quantized_row_def dequantize_row_q2_k_def q2_k.dequantize_row_values(1)
    block_ratios del: upt_rec_numeral)
interpretation ref_q3_k: reference_format QK_K BLOCK_SIZE_Q3_K q3_k_from_bytes q3_k_dequantize q3_k_value Q3_K
  by unfold_locales (simp_all add: quantized_row_bytes_def decode_quantized_row_def dequantize_row_q3_k_def q3_k.dequantize_row_values(1)
    block_ratios del: upt_rec_numeral)
interpretation ref_q8_k: reference_format QK_K BLOCK_SIZE_Q8_K q8_k_from_bytes q8_k_dequantize q8_k_value Q8_K
  by unfold_locales (simp_all add: quantized_row_bytes_def decode_quantized_row_def dequantize_row_q8_k_def q8_k.dequantize_row_values(1)
    block_ratios del: upt_rec_numeral)

subsection \<open>The kernels and their reference\<close>

definition block_kernel :: "ggml_type \<Rightarrow> (byte list \<Rightarrow> nat list \<Rightarrow> f32 list \<Rightarrow> f32 list \<Rightarrow> data_source_error written) option" where
  "block_kernel t =
     (case t of
        Q5_0 \<Rightarrow> Some matvec_q5_0 | Q8_0 \<Rightarrow> Some matvec_q8_0 | Q2_K \<Rightarrow> Some matvec_q2_k | Q3_K \<Rightarrow> Some matvec_q3_k
      | Q4_K \<Rightarrow> Some matvec_q4_k | Q5_K \<Rightarrow> Some matvec_q5_k | Q8_K \<Rightarrow> Some matvec_q8_k | _ \<Rightarrow> None)"

text \<open>
  C22: The seven block kernels compute what the reference product computes, bit for bit. The reference succeeds exactly when
  the kernel does and the buffer for its decoded row can be reserved, an allocation that the kernels do not make; when it can,
  both leave the same output, also after an error, and when it cannot, the reference leaves the output untouched. Neither
  panics. The bounds say that the sizes fit a \<open>usize\<close>, without which the kernels wrap.
\<close>

theorem block_kernels_match_reference:
  assumes "block_kernel t = Some mv"
    "2 * length x \<le> U64_MAX" "length raw \<le> U64_MAX"
    "\<And>row_bytes. quantized_row_bytes t (length x) = Ok row_bytes \<Longrightarrow> row_bytes * length y \<le> U64_MAX"
  shows "fst (quantized_matvec_reference reserves t raw \<lparr>ms_input = in_dim, ms_output = out_dim\<rparr> x y)
      = (if in_dim = 0 \<or> reserves in_dim then fst (mv raw [out_dim, in_dim] x y) else y)
    \<and> (is_ok (snd (quantized_matvec_reference reserves t raw \<lparr>ms_input = in_dim, ms_output = out_dim\<rparr> x y))
        \<longleftrightarrow> is_ok (snd (mv raw [out_dim, in_dim] x y)) \<and> (in_dim = 0 \<or> reserves in_dim))
    \<and> \<not> is_panic (snd (mv raw [out_dim, in_dim] x y))
    \<and> \<not> is_panic (snd (quantized_matvec_reference reserves t raw \<lparr>ms_input = in_dim, ms_output = out_dim\<rparr> x y))"
  using assms(1)
  by (cases t)
    (simp_all add: block_kernel_def matvec_q5_0_def matvec_q8_0_def matvec_q2_k_def matvec_q3_k_def matvec_q4_k_def matvec_q5_k_def matvec_q8_k_def,
     auto simp: ref_q5_0.block_kernel_agrees [OF assms(2-4), of reserves] ref_q8_0.block_kernel_agrees [OF assms(2-4), of reserves] ref_q2_k.block_kernel_agrees [OF assms(2-4), of reserves]
      ref_q3_k.block_kernel_agrees [OF assms(2-4), of reserves] ref_q4_k.block_kernel_agrees [OF assms(2-4), of reserves] ref_q5_k.block_kernel_agrees [OF assms(2-4), of reserves]
      ref_q8_k.block_kernel_agrees [OF assms(2-4), of reserves])

lemma length_row_blocks: "(\<And>c. length (f c) = qk) \<Longrightarrow> length (row_values bs f raw n) = n * qk"
  by (induction n) (simp_all add: row_values_def)

text \<open>A run of blocks in the middle of a buffer.\<close>

lemma row_values_slice:
  assumes len: "\<And>c. length (f c) = qk" and i: "(i + 1) * k \<le> n" and raw: "n * bs \<le> length raw"
  shows "take (k * qk) (drop (i * (k * qk)) (row_values bs f raw n)) = row_values bs f (take (k * bs) (drop (i * (k * bs)) raw)) k"
proof -
  let ?g = "\<lambda>j. f (take bs (drop (j * bs) raw))"
  have split: "[0..<n] = [0..<i * k] @ [i * k..<i * k + k] @ [i * k + k..<n]"
    using i upt_add_eq_append [of 0 "i * k" "n - i * k"] upt_add_eq_append [of "i * k" "i * k + k" "n - (i * k + k)"] by simp
  have l: "length (concat (map ?g xs)) = length xs * qk" for xs by (induction xs) (simp_all add: len)
  have "row_values bs f raw n = concat (map ?g [0..<i * k]) @ concat (map ?g [i * k..<i * k + k]) @ concat (map ?g [i * k + k..<n])"
    unfolding row_values_def split by simp
  then have "take (k * qk) (drop (i * (k * qk)) (row_values bs f raw n)) = concat (map ?g [i * k..<i * k + k])"
    using l [of "[0..<i * k]"] l [of "[i * k..<i * k + k]"] by (simp add: mult.assoc)
  also have "[i * k..<i * k + k] = map (\<lambda>j. i * k + j) [0..<k]" by (simp add: map_add_upt add.commute)
  also have "concat (map ?g (map (\<lambda>j. i * k + j) [0..<k])) = row_values bs f (take (k * bs) (drop (i * (k * bs)) raw)) k"
  proof -
    have "take bs (drop (j * bs) (take (k * bs) (drop (i * (k * bs)) raw))) = take bs (drop ((i * k + j) * bs) raw)" if "j < k" for j
    proof -
      have "(j + 1) * bs \<le> k * bs" using that by (intro mult_le_mono1) simp
      then have "min bs (k * bs - j * bs) = bs" by simp
      then show ?thesis by (simp add: drop_take min_def algebra_simps)
    qed
    then show ?thesis unfolding row_values_def by (auto intro!: arg_cong [of _ _ concat])
  qed
  finally show ?thesis .
qed

subsection \<open>The order of the fused Q4_0 product\<close>

text \<open>Element \<open>j\<close> of the first half of every block, then element \<open>j\<close> of its second half.\<close>

definition interleave :: "nat \<Rightarrow> 'a list \<Rightarrow> 'a list" where
  "interleave h ws = concat (map (\<lambda>j. [ws ! j, ws ! (h + j)]) [0..<h])"

definition interleaved :: "nat \<Rightarrow> nat \<Rightarrow> 'a list \<Rightarrow> 'a list" where
  "interleaved h n ws = concat (map (\<lambda>k. interleave h (take (2 * h) (drop (k * (2 * h)) ws))) [0..<n])"

lemma length_interleave [simp]: "length (interleave h ws) = 2 * h"
proof -
  have "length (concat (map (\<lambda>j. [ws ! j, ws ! (h + j)]) js)) = 2 * length js" for js by (induction js) simp_all
  then show ?thesis by (simp add: interleave_def)
qed

lemma dot_pairs:
  "dot (concat (map (\<lambda>j. [a j, b j]) js)) (concat (map (\<lambda>j. [c j, d j]) js)) acc
    = fold (\<lambda>j acc. fadd (fadd acc (fmul (a j) (c j))) (fmul (b j) (d j))) js acc"
  by (induction js arbitrary: acc) (simp_all add: dot_def)

lemma q4_0_block_step_dot:
  assumes "off + 18 \<le> length row" "x_off + 32 \<le> length x"
  shows "q4_0_block_step row x (acc, x_off, off)
    = (dot (interleave 16 (chunk_values QK4_0 q4_0_from_bytes q4_0_value (take 18 (drop off row)))) (interleave 16 (take 32 (drop x_off x))) acc,
       x_off + 32, off + 18)"
proof -
  let ?c = "take 18 (drop off row)"
  have l: "length ?c = 18" using assms(1) by simp
  define d where "d = f16_to_f32 (u16_of_le (take 2 ?c))"
  have b: "q4_0_from_bytes ?c = Ok \<lparr>q4_0_d = d, q4_0_qs = drop 2 ?c\<rparr>"
    using l by (simp add: q4_0_from_bytes_def block_sizes read_f16_le_def byte_range_def d_def)
  have c: "chunk_values QK4_0 q4_0_from_bytes q4_0_value ?c = map (q4_0_value \<lparr>q4_0_d = d, q4_0_qs = drop 2 ?c\<rparr>) [0..<32]"
    unfolding chunk_values_def b by (simp add: block_sizes del: upt_rec_numeral)
  have d': "f16_to_f32 (u16_of_le [row ! off, row ! (off + 1)]) = d"
  proof -
    have "take 2 ?c = [row ! off, row ! (off + 1)]"
      using assms(1) by (intro nth_equalityI) (auto simp: less_Suc_eq numeral_2_eq_2)
    then show ?thesis by (simp add: d_def)
  qed
  have q: "drop 2 ?c ! j = row ! (off + 2 + j)" if "j < 16" for j
    using that assms(1) by simp
  have "fold (q4_0_byte_step d row x x_off (off + 2)) [0..<16] acc
    = fold (\<lambda>j acc. fadd (fadd acc (fmul (map (q4_0_value \<lparr>q4_0_d = d, q4_0_qs = drop 2 ?c\<rparr>) [0..<32] ! j) (take 32 (drop x_off x) ! j)))
        (fmul (map (q4_0_value \<lparr>q4_0_d = d, q4_0_qs = drop 2 ?c\<rparr>) [0..<32] ! (16 + j)) (take 32 (drop x_off x) ! (16 + j)))) [0..<16] acc"
  proof (intro fold_cong refl)
    fix j assume "j \<in> set [0..<16 :: nat]"
    then have j: "j < 16" by (simp only: set_upt atLeastLessThan_iff)
    have n: "([0..<32] :: nat list) ! j = j" "([0..<32] :: nat list) ! (16 + j) = 16 + j" "length ([0..<32] :: nat list) = 32"
      using j by (simp_all del: upt_rec_numeral)
    have x: "take 32 (drop x_off x) ! j = x ! (x_off + j)" "take 32 (drop x_off x) ! (16 + j) = x ! (x_off + 16 + j)"
      using j assms(2) by (simp_all add: add.assoc)
    show "q4_0_byte_step d row x x_off (off + 2) j
      = (\<lambda>acc. fadd (fadd acc (fmul (map (q4_0_value \<lparr>q4_0_d = d, q4_0_qs = drop 2 ?c\<rparr>) [0..<32] ! j) (take 32 (drop x_off x) ! j)))
        (fmul (map (q4_0_value \<lparr>q4_0_d = d, q4_0_qs = drop 2 ?c\<rparr>) [0..<32] ! (16 + j)) (take 32 (drop x_off x) ! (16 + j))))"
      using j n q [OF j] x
      by (simp add: q4_0_byte_step_def q4_0_value_def Let_def fun_eq_iff add.assoc del: upt_rec_numeral nth_drop nth_take drop_take)
  qed
  also have "\<dots> = dot (interleave 16 (map (q4_0_value \<lparr>q4_0_d = d, q4_0_qs = drop 2 ?c\<rparr>) [0..<32])) (interleave 16 (take 32 (drop x_off x))) acc"
    unfolding interleave_def dot_pairs ..
  finally show ?thesis unfolding q4_0_block_step_def Let_def prod.case d' c by (simp add: block_sizes del: upt_rec_numeral)
qed

lemma q4_0_row_dot_steps:
  assumes "length row = n * 18" "length x = n * 32" "k \<le> n"
  defines "ws \<equiv> row_values 18 (chunk_values QK4_0 q4_0_from_bytes q4_0_value) row n"
  shows "(q4_0_block_step row x ^^ k) (0, 0, 0) = (dot (interleaved 16 k ws) (interleaved 16 k x) 0, k * 32, k * 18)"
  using assms(3)
proof (induction k)
  case 0
  show ?case by (simp add: interleaved_def dot_def)
next
  case (Suc k)
  have len: "length (interleaved 16 k ws) = length (interleaved 16 k x)" for x :: "f32 list"
    unfolding interleaved_def length_concat by (simp add: comp_def)
  have w: "take 32 (drop (k * 32) ws) = chunk_values QK4_0 q4_0_from_bytes q4_0_value (take 18 (drop (k * 18) row))"
    using row_values_slice [of "chunk_values QK4_0 q4_0_from_bytes q4_0_value" 32 k 1 n 18 row] Suc.prems assms(1)
    by (simp add: ws_def row_values_def block_sizes)
  have "(k + 1) * 18 \<le> n * 18" "(k + 1) * 32 \<le> n * 32" using Suc.prems by (intro mult_le_mono1; simp)+
  then have "q4_0_block_step row x (dot (interleaved 16 k ws) (interleaved 16 k x) 0, k * 32, k * 18)
    = (dot (interleave 16 (take 32 (drop (k * 32) ws))) (interleave 16 (take 32 (drop (k * 32) x)))
        (dot (interleaved 16 k ws) (interleaved 16 k x) 0), k * 32 + 32, k * 18 + 18)"
    using assms(1,2) unfolding w by (intro q4_0_block_step_dot) simp_all
  then show ?case
    using Suc len [of x] by (simp add: interleaved_def dot_append [symmetric])
qed

text \<open>
  C23: The fused row product of Q4_0 multiplies the decoded row with the vector, but not in the order of the reference: of every
  block it takes the elements 0, 16, 1, 17 and so on. Rounded addition is not associative, so the two products differ.
\<close>

theorem q4_0_product_interleaved:
  assumes "length row = n * BLOCK_SIZE_Q4_0" "length x = n * QK4_0" "length row \<le> U64_MAX"
    "dequantize_row_q4_0 row (length x) (replicate (length x) 0) = (ws, Ok ())"
  shows "q4_0_row_dot row n x = indexed_dot (interleaved 16 n ws) (interleaved 16 n x) (length x)"
proof -
  let ?cv = "chunk_values QK4_0 q4_0_from_bytes q4_0_value"
  have "dequantize_row_q4_0 row (n * QK4_0) (replicate (n * QK4_0) 0)
    = (row_values BLOCK_SIZE_Q4_0 ?cv row n @ drop (n * QK4_0) (replicate (n * QK4_0) 0), Ok ())"
    using q4_0.dequantize_row_values(1) [of "n * QK4_0" row "replicate (n * QK4_0) 0"] assms(1,3)
    by (simp add: dequantize_row_q4_0_def block_sizes)
  then have "ws = row_values 18 ?cv row n" using assms(2,4) by (simp add: block_sizes)
  moreover have "length (interleaved 16 n ws) = n * 32" "length (interleaved 16 n x) = n * 32"
    unfolding interleaved_def length_concat by (simp_all add: comp_def sum_list_triv)
  ultimately show ?thesis
    using q4_0_row_dot_steps [of row n x n] assms(1,2) by (simp add: q4_0_row_dot_def block_sizes indexed_dot_eq)
qed

subsection \<open>Examples\<close>

text \<open>A block with the weights 1 at the places 0, 1 and 16, and a vector with \<open>2 ^ 24\<close>, 1 and \<open>- 2 ^ 24\<close> there.\<close>

definition sample_row :: "byte list" where "sample_row = [0x00, 0x3C, 0x99, 0x89] @ replicate 14 0x88"

definition sample_vector :: "f32 list" where
  "sample_vector = [0x4B800000, 0x3F800000] @ replicate 14 0 @ [0xCB800000] @ replicate 15 0"

definition sample_weights :: "f32 list" where
  "sample_weights = [0x3F800000, 0x3F800000] @ replicate 14 0 @ [0x3F800000] @ replicate 15 0"

lemma sample_classes: "f32_class 0x4B800000 = Finite False (2^23) 1" "f32_class 0x3F800000 = Finite False (2^23) (-23)" "f32_class 0 = Finite False 0 (-149)"
   "f32_class 0xCB800000 = Finite True (2^23) 1"
  by (simp_all add: f32_field_defs)
lemma sample_integers: "f32_of_i8 1 = 0x3F800000" "f32_of_i8 0 = 0"
  by (simp_all add: f32_of_i8_def f32_of_int_def f32_op_defs bit_length_numeral)
lemma half_one: "f16_to_f32 0x3C00 = 0x3F800000" by (simp add: f16_to_f32_def Let_def)
lemma sample_multiplications: "fmul 0x4B800000 0x3F800000 = 0x4B800000" "fmul 0x3F800000 0x3F800000 = 0x3F800000" "fmul 0 0x3F800000 = 0" "fmul 0 0 = 0"
  "fmul 0x3F800000 0x4B800000 = 0x4B800000" "fmul 0x3F800000 0xCB800000 = 0xCB800000"
  by (simp_all add: f32_op_defs sample_classes bit_length_numeral)
lemma sample_additions: "fadd 0 0x4B800000 = 0x4B800000" "fadd 0x4B800000 0x3F800000 = 0x4B800000" "fadd 0x4B800000 0 = 0x4B800000" "fadd 0x4B800000 0xCB800000 = 0"
  "fadd 0 0 = 0" "fadd 0 0x3F800000 = 0x3F800000" "fadd 0x3F800000 0 = 0x3F800000"
  by (simp_all add: f32_op_defs sample_classes bit_length_numeral)

lemma unroll: "[0..<numeral n] = 0 # [Suc 0..<numeral n]" "[Suc 0..<numeral n] = (if numeral n = (1 :: nat) then [] else 1 # [2..<numeral n])"
    "replicate (numeral n) v = v # replicate (pred_numeral n) v"
  by (simp_all add: upt_rec numeral_eq_Suc)

lemma sample_decoded: "dequantize_row_q4_0 sample_row (length sample_vector) (replicate (length sample_vector) 0) = (sample_weights, Ok ())"
proof -
  have l: "length sample_vector = 32" by (simp add: sample_vector_def)
  let ?b = "\<lparr>q4_0_d = 0x3F800000, q4_0_qs = [0x99, 0x89] @ replicate 14 0x88\<rparr>"
  have b: "q4_0_from_bytes (take BLOCK_SIZE_Q4_0 sample_row) = Ok ?b"
    by (simp add: q4_0_from_bytes_def read_f16_le_def byte_range_def block_sizes sample_row_def u16_of_le_def half_one)
  have w: "map (q4_0_value ?b) [0..<32] = sample_weights"
    by (simp add: q4_0_value_def sample_weights_def unroll sample_integers sample_multiplications)
  have "dequantize_row_q4_0 sample_row 32 (replicate 32 0)
    = (row_values BLOCK_SIZE_Q4_0 (chunk_values QK4_0 q4_0_from_bytes q4_0_value) sample_row (32 div QK4_0) @ drop 32 (replicate 32 0), Ok ())"
    unfolding dequantize_row_q4_0_def
    by (intro q4_0.dequantize_row_values(1)) (simp_all add: block_sizes sample_row_def U64_MAX_def)
  also have "row_values BLOCK_SIZE_Q4_0 (chunk_values QK4_0 q4_0_from_bytes q4_0_value) sample_row (32 div QK4_0) = map (q4_0_value ?b) [0..<32]"
    using b by (simp add: row_values_def chunk_values_def block_sizes del: upt_rec_numeral)
  finally show ?thesis unfolding l w by simp
qed

lemma sample_products: "indexed_dot (interleaved 16 1 sample_weights) (interleaved 16 1 sample_vector) (length sample_vector) = 0x3F800000"
    "indexed_dot sample_weights sample_vector (length sample_vector) = 0"
  by (simp_all add: indexed_dot_def interleaved_def interleave_def sample_weights_def sample_vector_def unroll sample_multiplications sample_additions)

theorem q4_0_product_interleaved_witness:
  "q4_0_row_dot sample_row 1 sample_vector = 0x3F800000 \<and> indexed_dot sample_weights sample_vector (length sample_vector) = 0"
proof -
  have "length sample_row = 1 * BLOCK_SIZE_Q4_0" "length sample_vector = 1 * QK4_0" "length sample_row \<le> U64_MAX"
    by (simp_all add: sample_row_def sample_vector_def block_sizes U64_MAX_def)
  from q4_0_product_interleaved [OF this sample_decoded] show ?thesis by (simp only: sample_products simp_thms)
qed

theorem block_kernels_match_reference_witness:
  "fst (matvec_q8_0 (replicate 34 1) [1, 32] (replicate 32 1) [7])
    = fst (quantized_matvec_reference (\<lambda>n. n < 100) Q8_0 (replicate 34 1) \<lparr>ms_input = 32, ms_output = 1\<rparr> (replicate 32 1) [7])"
proof -
  have "block_kernel Q8_0 = Some matvec_q8_0" by (simp add: block_kernel_def)
  moreover have "quantized_row_bytes Q8_0 32 = Ok 34"
    by (simp add: quantized_row_bytes_def block_sizes checked_mul_def U64_MAX_def)
  ultimately show ?thesis
    using block_kernels_match_reference [of Q8_0 matvec_q8_0 "replicate 32 1" "replicate 34 1" "[7]" "\<lambda>n. n < 100" 32 1]
    by (simp add: U64_MAX_def)
qed

end
