(* ===== verification/Tensor_Data.thy ===== *)
theory Tensor_Data
  imports Compute_Core Model_Support
begin

section \<open>Tensor data\<close>

text \<open>
  \<open>crates/ramforge-core/src/tensor.rs\<close>: tensors in memory, built from the bytes of a file, decoded as a whole or by rows, and multiplied
  with a vector. A reservation of memory that fails is modelled
  only where the reference product makes it (\<open>reserves\<close>); \<open>usize\<close> has 64 bits, so its conversions succeed.
\<close>

subsection \<open>Quantized tensors\<close>

record quantized_tensor =
  qt_type :: ggml_type
  qt_shape :: "usize list"
  qt_elements :: usize
  qt_raw :: "byte list"

text \<open>The block width and size of a quantized type, as each \<open>match\<close> of the file lists them.\<close>

definition block_layout :: "ggml_type \<Rightarrow> (nat \<times> nat) option" where
  "block_layout t =
     (case t of
        Q4_0 \<Rightarrow> Some (QK4_0, BLOCK_SIZE_Q4_0) | Q5_0 \<Rightarrow> Some (QK5_0, BLOCK_SIZE_Q5_0) | Q8_0 \<Rightarrow> Some (QK8_0, BLOCK_SIZE_Q8_0)
      | Q4_K \<Rightarrow> Some (QK_K, BLOCK_SIZE_Q4_K) | Q5_K \<Rightarrow> Some (QK_K, BLOCK_SIZE_Q5_K) | Q6_K \<Rightarrow> Some (QK_K, BLOCK_SIZE_Q6_K)
      | Q2_K \<Rightarrow> Some (QK_K, BLOCK_SIZE_Q2_K) | Q3_K \<Rightarrow> Some (QK_K, BLOCK_SIZE_Q3_K) | Q8_K \<Rightarrow> Some (QK_K, BLOCK_SIZE_Q8_K)
      | _ \<Rightarrow> None)"

text \<open>The row decoder that each \<open>match\<close> calls.\<close>

definition row_decoder :: "ggml_type \<Rightarrow> (byte list \<Rightarrow> usize \<Rightarrow> f32 list \<Rightarrow> data_source_error written) option" where
  "row_decoder t =
     (case t of
        Q4_0 \<Rightarrow> Some dequantize_row_q4_0 | Q5_0 \<Rightarrow> Some dequantize_row_q5_0 | Q8_0 \<Rightarrow> Some dequantize_row_q8_0
      | Q4_K \<Rightarrow> Some dequantize_row_q4_k | Q5_K \<Rightarrow> Some dequantize_row_q5_k | Q6_K \<Rightarrow> Some dequantize_row_q6_k
      | Q2_K \<Rightarrow> Some dequantize_row_q2_k | Q3_K \<Rightarrow> Some dequantize_row_q3_k | Q8_K \<Rightarrow> Some dequantize_row_q8_k
      | _ \<Rightarrow> None)"

text \<open>\<open>shape.iter().try_fold(1, checked_mul)\<close>.\<close>

fun try_product :: "usize \<Rightarrow> usize list \<Rightarrow> usize option" where
  "try_product c [] = Some c"
| "try_product c (d # ds) = (case checked_mul c d of None \<Rightarrow> None | Some c' \<Rightarrow> try_product c' ds)"

definition quantized_tensor_new :: "ggml_type \<Rightarrow> usize list \<Rightarrow> usize \<Rightarrow> byte list \<Rightarrow> (quantized_tensor, data_source_error) result" where
  "quantized_tensor_new t dims elements raw =
     (case block_layout t of
        None \<Rightarrow> Err (DsGeneral ''not a quantized type'')
      | Some (block_elements, block_bytes) \<Rightarrow>
          if elements mod block_elements \<noteq> 0 then Err (DsGeneral ''elements not divisible'')
          else rbind (ok_or (DsGeneral ''shape element count overflow'') (try_product 1 dims)) (\<lambda>shape_elements.
            if shape_elements \<noteq> elements then Err (DsGeneral ''shape describes other elements'')
            else rbind (ok_or (DsGeneral ''quantized byte size overflow'') (checked_mul (elements div block_elements) block_bytes))
              (\<lambda>expected_bytes.
                if length raw < expected_bytes then Err (DsGeneral ''quantized tensor truncated'')
                else Ok \<lparr>qt_type = t, qt_shape = dims, qt_elements = elements, qt_raw = raw\<rparr>)))"

definition quantized_resident_bytes :: "quantized_tensor \<Rightarrow> usize" where "quantized_resident_bytes qt = length (qt_raw qt)"

text \<open>Decoding into a fresh zeroed buffer.\<close>

definition buffer_of :: "'e written \<Rightarrow> (f32 list, 'e) result" where
  "buffer_of p = (case p of (out, Ok _) \<Rightarrow> Ok out | (_, Err e) \<Rightarrow> Err e | (_, Panic m) \<Rightarrow> Panic m)"

definition dequantize_to_f32 :: "quantized_tensor \<Rightarrow> (f32 list, data_source_error) result" where
  "dequantize_to_f32 qt =
     (case row_decoder (qt_type qt) of
        Some decode \<Rightarrow> buffer_of (decode (qt_raw qt) (qt_elements qt) (replicate (qt_elements qt) 0))
      | None \<Rightarrow> Err (DsGeneral ''unsupported quantized type for dequant''))"

definition tensor_row :: "quantized_tensor \<Rightarrow> usize \<Rightarrow> (f32 list, data_source_error) result" where
  "tensor_row qt row_idx =
     (case qt_shape qt of
        [] \<Rightarrow> Err (DsGeneral ''cannot get row from scalar'')
      | [_] \<Rightarrow> if row_idx \<noteq> 0 then Err (DsGeneral ''row_idx out of bounds for 1D tensor'') else dequantize_to_f32 qt
      | [row_elements, num_rows] \<Rightarrow>
          if row_idx \<ge> num_rows then Err (DsGeneral ''row_idx out of bounds'')
          else
            (case block_layout (qt_type qt) of
               None \<Rightarrow> Err (DsGeneral ''dequantize_row not supported'')
             | Some (qk, block_size) \<Rightarrow>
                 if row_elements mod qk \<noteq> 0 then Err (DsGeneral ''row_elements not divisible by block size'')
                 else rbind (ok_or (DsGeneral ''quantized row byte size overflow'') (checked_mul (row_elements div qk) block_size)) (\<lambda>row_bytes.
                   rbind (ok_or (DsGeneral ''quantized row offset overflow'') (checked_mul row_idx row_bytes)) (\<lambda>row_start.
                   rbind (ok_or (DsGeneral ''quantized row end overflow'') (checked_add row_start row_bytes)) (\<lambda>row_end.
                     if row_end > length (qt_raw qt) then Err (DsGeneral ''row out of bounds for quantized tensor'')
                     else rbind (rust_slice row_start row_end (qt_raw qt)) (\<lambda>row_slice.
                       case row_decoder (qt_type qt) of
                         Some decode \<Rightarrow> buffer_of (decode row_slice row_elements (replicate row_elements 0))
                       | None \<Rightarrow> Panic ''unreachable'')))))
      | _ \<Rightarrow> Err (DsGeneral ''dequantize_row supports 1D/2D tensors only''))"

definition source_of :: "compute_error written \<Rightarrow> data_source_error written" where
  "source_of p = (fst p, map_err (\<lambda>_. DsGeneral ''compute'') (snd p))"

definition quantized_tensor_matvec :: "(usize \<Rightarrow> bool) \<Rightarrow> quantized_tensor \<Rightarrow> f32 list \<Rightarrow> f32 list \<Rightarrow> data_source_error written" where
  "quantized_tensor_matvec reserves qt x y =
     (if length (qt_shape qt) \<noteq> 2 then (y, Err (DsGeneral ''quantized matvec expects 2D weight''))
      else
        let in_dim = qt_shape qt ! 0; out_dim = qt_shape qt ! 1 in
        if length x \<noteq> in_dim \<or> length y \<noteq> out_dim then (y, Err (DsGeneral ''quantized matvec arity mismatch''))
        else source_of (quantized_matvec_reference reserves (qt_type qt) (qt_raw qt) \<lparr>ms_input = in_dim, ms_output = out_dim\<rparr> x y))"

subsection \<open>Tensors\<close>

datatype tensor_data =
    TD_F32 "f32 list" "usize list"
  | TD_F16 "f32 list" "usize list"
  | TD_BF16 "f32 list" "usize list"
  | TD_Q4_0 quantized_tensor
  | TD_Q5_0 quantized_tensor
  | TD_Q8_0 quantized_tensor
  | TD_Q4_K quantized_tensor
  | TD_Q5_K quantized_tensor
  | TD_Q6_K quantized_tensor
  | TD_Q2_K quantized_tensor
  | TD_Q3_K quantized_tensor
  | TD_Q8_K quantized_tensor

text \<open>The or-patterns over the variants: the float data with its shape, and the quantized tensor.\<close>

fun as_f32_slice :: "tensor_data \<Rightarrow> (f32 list \<times> usize list) option" where
  "as_f32_slice (TD_F32 data dims) = Some (data, dims)"
| "as_f32_slice (TD_F16 data dims) = Some (data, dims)"
| "as_f32_slice (TD_BF16 data dims) = Some (data, dims)"
| "as_f32_slice (TD_Q4_0 qt) = None"
| "as_f32_slice (TD_Q5_0 qt) = None"
| "as_f32_slice (TD_Q8_0 qt) = None"
| "as_f32_slice (TD_Q4_K qt) = None"
| "as_f32_slice (TD_Q5_K qt) = None"
| "as_f32_slice (TD_Q6_K qt) = None"
| "as_f32_slice (TD_Q2_K qt) = None"
| "as_f32_slice (TD_Q3_K qt) = None"
| "as_f32_slice (TD_Q8_K qt) = None"

fun quantized_of :: "tensor_data \<Rightarrow> quantized_tensor option" where
  "quantized_of (TD_F32 data dims) = None"
| "quantized_of (TD_F16 data dims) = None"
| "quantized_of (TD_BF16 data dims) = None"
| "quantized_of (TD_Q4_0 qt) = Some qt"
| "quantized_of (TD_Q5_0 qt) = Some qt"
| "quantized_of (TD_Q8_0 qt) = Some qt"
| "quantized_of (TD_Q4_K qt) = Some qt"
| "quantized_of (TD_Q5_K qt) = Some qt"
| "quantized_of (TD_Q6_K qt) = Some qt"
| "quantized_of (TD_Q2_K qt) = Some qt"
| "quantized_of (TD_Q3_K qt) = Some qt"
| "quantized_of (TD_Q8_K qt) = Some qt"

definition tensor_resident_bytes :: "tensor_data \<Rightarrow> usize" where
  "tensor_resident_bytes td =
     (case as_f32_slice td of Some (data, _) \<Rightarrow> 4 * length data
      | None \<Rightarrow> (case quantized_of td of Some qt \<Rightarrow> quantized_resident_bytes qt | None \<Rightarrow> 0))"

definition tensor_elements :: "tensor_data \<Rightarrow> usize" where
  "tensor_elements td =
     (case as_f32_slice td of Some (data, _) \<Rightarrow> length data
      | None \<Rightarrow> (case quantized_of td of Some qt \<Rightarrow> qt_elements qt | None \<Rightarrow> 0))"

definition tensor_shape :: "tensor_data \<Rightarrow> usize list" where
  "tensor_shape td =
     (case as_f32_slice td of Some (_, dims) \<Rightarrow> dims
      | None \<Rightarrow> (case quantized_of td of Some qt \<Rightarrow> qt_shape qt | None \<Rightarrow> []))"

fun tensor_type :: "tensor_data \<Rightarrow> ggml_type" where
  "tensor_type (TD_F32 data dims) = F32"
| "tensor_type (TD_F16 data dims) = F16"
| "tensor_type (TD_BF16 data dims) = BF16"
| "tensor_type (TD_Q4_0 qt) = qt_type qt"
| "tensor_type (TD_Q5_0 qt) = qt_type qt"
| "tensor_type (TD_Q8_0 qt) = qt_type qt"
| "tensor_type (TD_Q4_K qt) = qt_type qt"
| "tensor_type (TD_Q5_K qt) = qt_type qt"
| "tensor_type (TD_Q6_K qt) = qt_type qt"
| "tensor_type (TD_Q2_K qt) = qt_type qt"
| "tensor_type (TD_Q3_K qt) = qt_type qt"
| "tensor_type (TD_Q8_K qt) = qt_type qt"

definition is_quantized :: "tensor_data \<Rightarrow> bool" where "is_quantized td \<longleftrightarrow> quantized_of td \<noteq> None"

subsection \<open>Construction\<close>

definition from_decoded_float_vec :: "ggml_type \<Rightarrow> u64 list \<Rightarrow> u64 \<Rightarrow> f32 list \<Rightarrow> (tensor_data, data_source_error) result" where
  "from_decoded_float_vec t dims elements data =
     (if t \<notin> {F32, F16, BF16} then Err (DsGeneral ''decoded float construction does not support'')
      else if length data \<noteq> elements then Err (DsGeneral ''data length mismatch'')
      else rbind (ok_or (DsGeneral ''shape element count overflow'') (try_product 1 dims)) (\<lambda>shape_elements.
        if shape_elements \<noteq> elements then Err (DsGeneral ''shape describes other elements'')
        else if t = F32 then Ok (TD_F32 data dims) else if t = F16 then Ok (TD_F16 data dims) else Ok (TD_BF16 data dims)))"

definition from_f32_vec :: "u64 list \<Rightarrow> u64 \<Rightarrow> f32 list \<Rightarrow> (tensor_data, data_source_error) result" where
  "from_f32_vec dims elements data = from_decoded_float_vec F32 dims elements data"

definition decode_words :: "nat \<Rightarrow> (byte list \<Rightarrow> f32) \<Rightarrow> byte list \<Rightarrow> u64 \<Rightarrow> (f32 list, data_source_error) result" where
  "decode_words width decode bytes elements =
     rbind (ok_or (DsGeneral ''tensor byte size overflow'') (checked_mul elements width)) (\<lambda>expected.
       if length bytes < expected then Err (DsGeneral ''tensor truncated'')
       else Ok (map decode (chunks width (take expected bytes))))"

definition decode_f32 where "decode_f32 = decode_words 4 u32_of_le"
definition decode_f16 where "decode_f16 = decode_words 2 (\<lambda>c. f16_to_f32 (u16_of_le c))"
definition decode_bf16 where "decode_bf16 = decode_words 2 (\<lambda>c. bf16_to_f32 (u16_of_le c))"

definition tensor_from_bytes :: "ggml_type \<Rightarrow> u64 list \<Rightarrow> u64 \<Rightarrow> byte list \<Rightarrow> (tensor_data, data_source_error) result" where
  "tensor_from_bytes t dims elements raw =
     rbind (ok_or (DsGeneral ''shape element count overflow'') (try_product 1 dims)) (\<lambda>shape_elements.
       if shape_elements \<noteq> elements then Err (DsGeneral ''shape describes other elements'')
       else
         let quantized = (\<lambda>variant. rbind (quantized_tensor_new t dims elements raw) (\<lambda>qt. Ok (variant qt))) in
         case t of
           F32 \<Rightarrow> rbind (decode_f32 raw elements) (\<lambda>data. Ok (TD_F32 data dims))
         | F16 \<Rightarrow> rbind (decode_f16 raw elements) (\<lambda>data. Ok (TD_F16 data dims))
         | BF16 \<Rightarrow> rbind (decode_bf16 raw elements) (\<lambda>data. Ok (TD_BF16 data dims))
         | Q4_0 \<Rightarrow> quantized TD_Q4_0
         | Q5_0 \<Rightarrow> quantized TD_Q5_0
         | Q8_0 \<Rightarrow> quantized TD_Q8_0
         | Q4_K \<Rightarrow> quantized TD_Q4_K
         | Q5_K \<Rightarrow> quantized TD_Q5_K
         | Q6_K \<Rightarrow> quantized TD_Q6_K
         | Q2_K \<Rightarrow> quantized TD_Q2_K
         | Q3_K \<Rightarrow> quantized TD_Q3_K
         | Q8_K \<Rightarrow> quantized TD_Q8_K
         | _ \<Rightarrow> Err (DsGeneral ''unsupported tensor type for inference''))"

subsection \<open>Use\<close>

definition tensor_matvec :: "(usize \<Rightarrow> bool) \<Rightarrow> tensor_data \<Rightarrow> f32 list \<Rightarrow> f32 list \<Rightarrow> data_source_error written" where
  "tensor_matvec reserves td x y =
     (if length (tensor_shape td) \<noteq> 2 then (y, Err (DsGeneral ''matvec expects a 2D tensor''))
      else
        case as_f32_slice td of
          Some (data, dims) \<Rightarrow> source_of (matvec_f32_reference data \<lparr>ms_input = dims ! 0, ms_output = dims ! 1\<rparr> x y)
        | None \<Rightarrow> (case quantized_of td of Some qt \<Rightarrow> quantized_tensor_matvec reserves qt x y | None \<Rightarrow> (y, Panic ''unreachable'')))"

definition get_embedding :: "tensor_data \<Rightarrow> usize \<Rightarrow> usize \<Rightarrow> (f32 list, data_source_error) result" where
  "get_embedding td token_id n_embd =
     (let dims = tensor_shape td in
      if length dims = 2 \<and> dims ! 0 \<noteq> n_embd then Err (DsGeneral ''get_embedding expects n_embd == shape[0]'')
      else
        case as_f32_slice td of
          Some (data, _) \<Rightarrow>
            rbind (ok_or (DsGeneral ''embedding row offset overflow'') (checked_mul token_id n_embd)) (\<lambda>offset.
            rbind (ok_or (DsGeneral ''embedding row end overflow'') (checked_add offset n_embd)) (\<lambda>row_end.
              if row_end \<le> length data then rust_slice offset row_end data
              else Err (DsGeneral ''token_id out of bounds'')))
        | None \<Rightarrow> (case quantized_of td of Some qt \<Rightarrow> tensor_row qt token_id | None \<Rightarrow> Panic ''unreachable''))"

definition to_f32_vec :: "tensor_data \<Rightarrow> (f32 list, data_source_error) result" where
  "to_f32_vec td =
     (case as_f32_slice td of Some (data, _) \<Rightarrow> Ok data
      | None \<Rightarrow> (case quantized_of td of Some qt \<Rightarrow> dequantize_to_f32 qt | None \<Rightarrow> Panic ''unreachable''))"

definition into_f32_vec :: "tensor_data \<Rightarrow> (f32 list, data_source_error) result" where
  "into_f32_vec td =
     (case as_f32_slice td of Some (data, _) \<Rightarrow> Ok data
      | None \<Rightarrow> (case quantized_of td of Some qt \<Rightarrow> dequantize_to_f32 qt | None \<Rightarrow> Panic ''unreachable''))"

definition decode_row_words :: "nat \<Rightarrow> (byte list \<Rightarrow> f32) \<Rightarrow> byte list \<Rightarrow> usize \<Rightarrow> f32 list \<Rightarrow> data_source_error written" where
  "decode_row_words width decode bytes elements out =
     (case checked_mul elements width of
        None \<Rightarrow> (out, Err (DsGeneral ''row byte size overflow''))
      | Some need \<Rightarrow>
          if length bytes < need then (out, Err (DsGeneral ''row truncated''))
          else (fold (\<lambda>(i, chunk) out. out[i := decode chunk]) (enumerate 0 (chunks width (take need bytes))) out, Ok ()))"

definition decode_row_to_f32 :: "ggml_type \<Rightarrow> byte list \<Rightarrow> usize \<Rightarrow> f32 list \<Rightarrow> data_source_error written" where
  "decode_row_to_f32 t bytes elements out =
     (if length out \<noteq> elements then (out, Err (DsGeneral ''decode_row_to_f32: out buffer''))
      else if t = F32 then decode_row_words 4 u32_of_le bytes elements out
      else if t = F16 \<or> t = BF16 then
        decode_row_words 2 (\<lambda>c. if t = F16 then f16_to_f32 (u16_of_le c) else bf16_to_f32 (u16_of_le c)) bytes elements out
      else
        case row_decoder t of
          Some decode \<Rightarrow> decode bytes elements out
        | None \<Rightarrow> (out, Err (DsGeneral ''decode_row_to_f32: unsupported tensor type'')))"

definition decode_tensor_to_f32 :: "byte list \<Rightarrow> ggml_type \<Rightarrow> u64 \<Rightarrow> (f32 list, data_source_error) result" where
  "decode_tensor_to_f32 bytes t elements =
     (case t of
        F32 \<Rightarrow> decode_f32 bytes elements
      | F16 \<Rightarrow> decode_f16 bytes elements
      | BF16 \<Rightarrow> decode_bf16 bytes elements
      | _ \<Rightarrow>
          (case row_decoder t of
             Some decode \<Rightarrow> buffer_of (decode bytes elements (replicate elements 0))
           | None \<Rightarrow> Err (DsGeneral ''unsupported tensor type for inference'')))"

subsection \<open>The values of a tensor\<close>

text \<open>The block width and size of every supported type, and the values of one block.\<close>

definition value_layout :: "ggml_type \<Rightarrow> (nat \<times> nat) option" where
  "value_layout t = (if t = F32 then Some (1, 4) else if t = F16 \<or> t = BF16 then Some (1, 2) else block_layout t)"

definition block_values :: "ggml_type \<Rightarrow> byte list \<Rightarrow> f32 list" where
  "block_values t c =
     (case t of
        F32 \<Rightarrow> [u32_of_le c] | F16 \<Rightarrow> [f16_to_f32 (u16_of_le c)] | BF16 \<Rightarrow> [bf16_to_f32 (u16_of_le c)]
      | Q4_0 \<Rightarrow> chunk_values QK4_0 q4_0_from_bytes q4_0_value c | Q5_0 \<Rightarrow> chunk_values QK5_0 q5_0_from_bytes q5_0_value c
      | Q8_0 \<Rightarrow> chunk_values QK8_0 q8_0_from_bytes q8_0_value c | Q4_K \<Rightarrow> chunk_values QK_K q4_k_from_bytes q4_k_value c
      | Q5_K \<Rightarrow> chunk_values QK_K q5_k_from_bytes q5_k_value c | Q6_K \<Rightarrow> chunk_values QK_K q6_k_from_bytes q6_k_value c
      | Q2_K \<Rightarrow> chunk_values QK_K q2_k_from_bytes q2_k_value c | Q3_K \<Rightarrow> chunk_values QK_K q3_k_from_bytes q3_k_value c
      | Q8_K \<Rightarrow> chunk_values QK_K q8_k_from_bytes q8_k_value c
      | _ \<Rightarrow> [])"

lemma layout_pos: "value_layout t = Some (qk, bs) \<Longrightarrow> 0 < qk \<and> 0 < bs"
  by (auto simp: value_layout_def block_layout_def block_sizes split: if_splits ggml_type.splits)

lemma block_layout_value: "block_layout t = Some l \<Longrightarrow> value_layout t = Some l"
  by (auto simp: value_layout_def block_layout_def split: ggml_type.splits)

lemma length_block_values: "value_layout t = Some (qk, bs) \<Longrightarrow> length (block_values t c) = qk"
  by (auto simp: value_layout_def block_layout_def block_values_def split: if_splits ggml_type.splits)

lemma block_values_fun: "block_values F32 = (\<lambda>c. [u32_of_le c])" "block_values F16 = (\<lambda>c. [f16_to_f32 (u16_of_le c)])"
  "block_values BF16 = (\<lambda>c. [bf16_to_f32 (u16_of_le c)])"
  "block_values Q4_0 = chunk_values QK4_0 q4_0_from_bytes q4_0_value" "block_values Q5_0 = chunk_values QK5_0 q5_0_from_bytes q5_0_value"
  "block_values Q8_0 = chunk_values QK8_0 q8_0_from_bytes q8_0_value" "block_values Q4_K = chunk_values QK_K q4_k_from_bytes q4_k_value"
  "block_values Q5_K = chunk_values QK_K q5_k_from_bytes q5_k_value" "block_values Q6_K = chunk_values QK_K q6_k_from_bytes q6_k_value"
  "block_values Q2_K = chunk_values QK_K q2_k_from_bytes q2_k_value" "block_values Q3_K = chunk_values QK_K q3_k_from_bytes q3_k_value"
  "block_values Q8_K = chunk_values QK_K q8_k_from_bytes q8_k_value"
  by (simp_all add: block_values_def fun_eq_iff)

text \<open>Every row decoder writes the values of the row's blocks.\<close>

lemma row_decoder_values:
  assumes "block_layout t = Some (qk, bs)" "n mod qk = 0" "n div qk * bs \<le> length bytes" "length bytes \<le> U64_MAX" "length out = n"
  obtains decode where "row_decoder t = Some decode" "decode bytes n out = (row_values bs (block_values t) bytes (n div qk), Ok ())"
proof -
  have "t \<in> {Q4_0, Q5_0, Q8_0, Q4_K, Q5_K, Q6_K, Q2_K, Q3_K, Q8_K}"
    using assms(1) by (auto simp: block_layout_def split: ggml_type.splits)
  then have "\<exists>decode. row_decoder t = Some decode \<and> decode bytes n out = (row_values bs (block_values t) bytes (n div qk), Ok ())"
    using assms
    by (elim insertE emptyE) (simp_all add: row_decoder_def block_layout_def block_values_fun dequantize_row_q4_0_def dequantize_row_q5_0_def
      dequantize_row_q8_0_def dequantize_row_q4_k_def dequantize_row_q5_k_def dequantize_row_q6_k_def dequantize_row_q2_k_def
      dequantize_row_q3_k_def dequantize_row_q8_k_def q4_0.dequantize_row_values(1) q5_0.dequantize_row_values(1)
      q8_0.dequantize_row_values(2) q4_k.dequantize_row_values(1) q5_k.dequantize_row_values(1) q6_k.dequantize_row_values(1)
      q2_k.dequantize_row_values(1) q3_k.dequantize_row_values(1) q8_k.dequantize_row_values(1))
  then show thesis using that by blast
qed

lemma try_product_eq: "try_product c ds = Some p \<Longrightarrow> p = c * prod_list ds"
  by (induction c ds rule: try_product.induct) (auto split: option.splits simp: checked_mul_def mult.assoc split: if_splits)

text \<open>A whole tensor decodes to the values of its blocks.\<close>

lemma words_values:
  assumes "0 < w" "n * w \<le> length bytes"
  shows "map f (chunks w (take (n * w) bytes)) = row_values w (\<lambda>c. [f c]) bytes n"
proof -
  have "length (take (n * w) bytes) = n * w" using assms(2) by simp
  from chunks_whole [OF assms(1) this]
  have "chunks w (take (n * w) bytes) = map (\<lambda>i. take w (drop (i * w) (take (n * w) bytes))) [0..<n]" .
  also have "\<dots> = map (\<lambda>i. take w (drop (i * w) bytes)) [0..<n]"
  proof (intro map_cong refl)
    fix i assume "i \<in> set [0..<n]"
    then have "(i + 1) * w \<le> n * w" by (intro mult_le_mono1) simp
    then show "take w (drop (i * w) (take (n * w) bytes)) = take w (drop (i * w) bytes)"
      by (simp add: drop_take min_def)
  qed
  finally have c: "chunks w (take (n * w) bytes) = map (\<lambda>i. take w (drop (i * w) bytes)) [0..<n]" .
  show ?thesis unfolding c row_values_def by (simp add: comp_def)
qed

lemma decode_words_Ok:
  assumes "decode_words w f raw n = Ok data" "0 < w"
  shows "data = row_values w (\<lambda>c. [f c]) raw n \<and> n * w \<le> length raw"
  using assms words_values [of w n raw f]
  by (auto simp: decode_words_def rbind_eq_Ok ok_or_eq_Ok checked_mul_eq_Some split: if_splits)

lemma quantized_tensor_new_Ok:
  assumes "quantized_tensor_new t dims n raw = Ok qt"
  shows "\<exists>qk bs. block_layout t = Some (qk, bs) \<and> n mod qk = 0 \<and> n div qk * bs \<le> length raw
    \<and> qt = \<lparr>qt_type = t, qt_shape = dims, qt_elements = n, qt_raw = raw\<rparr>"
  using assms by (auto simp: quantized_tensor_new_def rbind_eq_Ok ok_or_eq_Ok checked_mul_eq_Some split: option.splits if_splits)

text \<open>The two representations of a tensor that was read: decoded floats, or the bytes of its blocks.\<close>

definition represents :: "tensor_data \<Rightarrow> ggml_type \<Rightarrow> usize list \<Rightarrow> usize \<Rightarrow> byte list \<Rightarrow> bool" where
  "represents td t dims n raw \<longleftrightarrow> tensor_type td = t \<and>
     (case value_layout t of
        None \<Rightarrow> False
      | Some (qk, bs) \<Rightarrow> n mod qk = 0 \<and> n div qk * bs \<le> length raw \<and>
          (if t \<in> {F32, F16, BF16} then as_f32_slice td = Some (row_values bs (block_values t) raw n, dims)
           else as_f32_slice td = None \<and> quantized_of td = Some \<lparr>qt_type = t, qt_shape = dims, qt_elements = n, qt_raw = raw\<rparr>))"

lemma from_bytes_represents:
  assumes "tensor_from_bytes t dims n raw = Ok td"
  shows "n = prod_list dims" "represents td t dims n raw"
proof -
  show n: "n = prod_list dims"
    using assms try_product_eq [of 1 dims] by (auto simp: tensor_from_bytes_def rbind_eq_Ok ok_or_eq_Ok split: if_splits)
  show "represents td t dims n raw"
  proof (cases "t \<in> {F32, F16, BF16}")
    case True
    then show ?thesis using assms
      by (auto simp: tensor_from_bytes_def rbind_eq_Ok ok_or_eq_Ok represents_def value_layout_def block_values_fun
        decode_f32_def decode_f16_def decode_bf16_def dest!: decode_words_Ok split: if_splits)
  next
    case False
    obtain variant qt where v: "quantized_tensor_new t dims n raw = Ok qt" "td = variant qt"
      "as_f32_slice (variant qt) = None" "quantized_of (variant qt) = Some qt" "tensor_type (variant qt) = qt_type qt"
      using assms False by (auto simp: tensor_from_bytes_def rbind_eq_Ok ok_or_eq_Ok Let_def split: if_splits ggml_type.splits)
    from quantized_tensor_new_Ok [OF v(1)] v False block_layout_value show ?thesis
      by (auto simp: represents_def value_layout_def)
  qed
qed

lemma represented_values:
  assumes "represents td t dims n raw" "value_layout t = Some (qk, bs)" "length raw \<le> U64_MAX"
  shows "to_f32_vec td = Ok (row_values bs (block_values t) raw (n div qk))" "decode_tensor_to_f32 raw t n = to_f32_vec td"
proof -
  let ?v = "row_values bs (block_values t) raw (n div qk)"
  have "to_f32_vec td = Ok ?v \<and> decode_tensor_to_f32 raw t n = Ok ?v"
  proof (cases "t \<in> {F32, F16, BF16}")
    case True
    then have "qk = 1" "n * bs \<le> length raw" "as_f32_slice td = Some (row_values bs (block_values t) raw n, dims)" "0 < bs"
      "block_layout t = None"
      using assms(1,2) by (auto simp: represents_def value_layout_def block_layout_def split: if_splits)
    then show ?thesis
      using True assms(2,3) words_values [of bs n raw]
      by (auto simp: to_f32_vec_def decode_tensor_to_f32_def decode_f32_def decode_f16_def decode_bf16_def decode_words_def
        block_values_fun value_layout_def checked_mul_def)
  next
    case False
    then have l: "block_layout t = Some (qk, bs)" and q: "as_f32_slice td = None" "n mod qk = 0" "n div qk * bs \<le> length raw"
      "quantized_of td = Some \<lparr>qt_type = t, qt_shape = dims, qt_elements = n, qt_raw = raw\<rparr>"
      using assms(1,2) by (auto simp: represents_def value_layout_def split: if_splits)
    obtain decode where d: "row_decoder t = Some decode" "decode raw n (replicate n 0) = (?v, Ok ())"
      using row_decoder_values [OF l q(2,3) assms(3), of "replicate n 0"] by auto
    have "decode_tensor_to_f32 raw t n = buffer_of (decode raw n (replicate n 0))"
      using False d(1) by (auto simp: decode_tensor_to_f32_def split: ggml_type.split)
    then show ?thesis using q d by (simp add: to_f32_vec_def dequantize_to_f32_def buffer_of_def)
  qed
  then show "to_f32_vec td = Ok ?v" "decode_tensor_to_f32 raw t n = to_f32_vec td" by simp_all
qed

text \<open>
  C24: A tensor that is read from bytes has the type, the shape and the number of elements of its descriptor, occupies exactly the memory
  that was estimated for it before the read, and its values are those that the direct decoder gives for the same bytes.
\<close>

theorem tensor_from_bytes_sound:
  assumes "tensor_from_bytes t dims n raw = Ok td" "length raw < 2 ^ 63"
  shows "n = prod_list dims \<and> tensor_type td = t \<and> tensor_shape td = dims \<and> tensor_elements td = n
    \<and> resident_bytes_for t n (length raw) = Ok (tensor_resident_bytes td)
    \<and> (\<exists>v. to_f32_vec td = Ok v \<and> decode_tensor_to_f32 raw t n = Ok v \<and> length v = n)"
proof -
  note r = from_bytes_represents [OF assms(1)]
  obtain qk bs where l: "value_layout t = Some (qk, bs)" "n mod qk = 0" "n div qk * bs \<le> length raw"
    using r(2) by (auto simp: represents_def split: option.splits)
  have len: "length (row_values bs (block_values t) raw k) = k * qk" for k
    using length_block_values [OF l(1)] by (rule length_row_blocks)
  have "length raw \<le> U64_MAX" using assms(2) by (simp add: U64_MAX_def)
  note v = represented_values [OF r(2) l(1) this]
  have "tensor_type td = t \<and> tensor_shape td = dims \<and> tensor_elements td = n
    \<and> resident_bytes_for t n (length raw) = Ok (tensor_resident_bytes td)"
  proof (cases "t \<in> {F32, F16, BF16}")
    case True
    then have "qk = 1" "2 \<le> bs" using l(1) by (auto simp: value_layout_def split: if_splits)
    then have "n * 2 \<le> length raw" using l(3) by (simp add: order_trans [OF mult_le_mono2])
    then show ?thesis using True r(2) l(1) len [of n] \<open>qk = 1\<close> assms(2)
      by (auto simp: represents_def tensor_shape_def tensor_elements_def tensor_resident_bytes_def resident_bytes_for_def
        checked_mul_def U64_MAX_def)
  next
    case False
    then have "t \<in> {Q4_0, Q5_0, Q8_0, Q4_K, Q5_K, Q6_K, Q2_K, Q3_K, Q8_K}"
      using l(1) by (auto simp: value_layout_def block_layout_def split: ggml_type.splits)
    then show ?thesis using False r(2) l(1)
      by (auto simp: represents_def tensor_shape_def tensor_elements_def tensor_resident_bytes_def resident_bytes_for_def
        quantized_resident_bytes_def)
  qed
  moreover have "n div qk * qk = n" using l(2) by (simp add: mod_0_imp_dvd)
  ultimately show ?thesis using r(1) v len by simp
qed

lemma decode_row_words_values:
  assumes "length bytes = n * w" "0 < w" "length bytes \<le> U64_MAX" "length out = n"
  shows "decode_row_words w f bytes n out = (row_values w (\<lambda>c. [f c]) bytes n, Ok ())"
proof -
  have c: "map f (chunks w bytes) = row_values w (\<lambda>c. [f c]) bytes n"
    using words_values [OF assms(2), of n bytes f] assms(1) by simp
  have "length (row_values w (\<lambda>c. [f c]) bytes n) = n * 1" by (rule length_row_blocks) simp
  then have l: "length (chunks w bytes) = n" by (simp add: c [symmetric])
  have "fold (\<lambda>(i, chunk) out. out[i := f chunk]) (enumerate k cs) out = take k out @ map f cs @ drop (k + length cs) out"
    if "k + length cs \<le> length out" for k cs and out :: "f32 list"
    using that
  proof (induction cs arbitrary: k out)
    case (Cons c cs)
    have "take (Suc k) (out[k := f c]) = take k out @ [f c]" using Cons.prems by (simp add: take_Suc_conv_app_nth)
    moreover have "drop (Suc k + length cs) (out[k := f c]) = drop (Suc k + length cs) out" by (simp add: drop_update_cancel)
    ultimately show ?case using Cons.prems Cons.IH [of "Suc k" "out[k := f c]"] by simp
  qed simp
  from this [of 0 "chunks w bytes" out] have "fold (\<lambda>(i, chunk) out. out[i := f chunk]) (enumerate 0 (chunks w bytes)) out = map f (chunks w bytes)"
    using assms(4) l by simp
  then show ?thesis using assms c by (simp add: decode_row_words_def checked_mul_def)
qed

lemma row_bytes_decoded:
  assumes "value_layout t = Some (qk, bs)" "n mod qk = 0" "length bytes = n div qk * bs" "length bytes \<le> U64_MAX"
  shows "decode_row_to_f32 t bytes n (replicate n 0) = (row_values bs (block_values t) bytes (n div qk), Ok ())"
proof (cases "t \<in> {F32, F16, BF16}")
  case True
  then have "qk = 1" "0 < bs" using assms(1) by (auto simp: value_layout_def split: if_splits)
  then show ?thesis
    using True assms decode_row_words_values [of bytes n bs "replicate n 0"]
    by (auto simp: decode_row_to_f32_def block_values_fun value_layout_def)
next
  case False
  then have l: "block_layout t = Some (qk, bs)" using assms(1) by (auto simp: value_layout_def split: if_splits)
  obtain decode where "row_decoder t = Some decode"
    "decode bytes n (replicate n 0) = (row_values bs (block_values t) bytes (n div qk), Ok ())"
    using row_decoder_values [OF l assms(2) _ assms(4), of "replicate n 0"] assms(3) by auto
  then show ?thesis using False by (auto simp: decode_row_to_f32_def)
qed

text \<open>
  C25: The row of a token in an embedding matrix holds the elements from \<open>token_id * n_embd\<close> on of the decoded matrix, and the streamed
  read, which decodes nothing but the bytes of the row, gives the same floats. Rows must be whole blocks.
\<close>

theorem embedding_rows_agree:
  assumes "tensor_from_bytes t [n_embd, vocab] n raw = Ok td" "length raw \<le> U64_MAX"
    "value_layout t = Some (qk, bs)" "n_embd mod qk = 0" "token_id < vocab" "to_f32_vec td = Ok v"
  defines "row_bytes \<equiv> n_embd div qk * bs"
  shows "get_embedding td token_id n_embd = Ok (take n_embd (drop (token_id * n_embd) v))
    \<and> decode_row_to_f32 t (take row_bytes (drop (token_id * row_bytes) raw)) n_embd (replicate n_embd 0)
      = (take n_embd (drop (token_id * n_embd) v), Ok ())"
proof -
  note r = from_bytes_represents [OF assms(1)]
  have pos: "0 < qk" "0 < bs" using layout_pos [OF assms(3)] by simp_all
  define k where "k = n_embd div qk"
  have ne: "n_embd = k * qk" using assms(4) by (simp add: k_def mod_0_imp_dvd)
  have n: "n = n_embd * vocab" "n div qk = k * vocab" using r(1) pos ne by (simp_all add: mult.assoc mult.left_commute)
  have raw: "k * vocab * bs \<le> length raw" using r(2) assms(3) n(2) by (simp add: represents_def)
  have v: "v = row_values bs (block_values t) raw (k * vocab)"
    using represented_values(1) [OF r(2) assms(3,2)] assms(6) n(2) by simp
  have tk: "(token_id + 1) * k \<le> k * vocab" "(token_id + 1) * (k * bs) \<le> vocab * (k * bs)" "(token_id + 1) * n_embd \<le> vocab * n_embd"
    using assms(5) by (simp_all only: mult.commute [of k vocab], (intro mult_le_mono1; simp)+)
  have rb: "row_bytes = k * bs" by (simp add: row_bytes_def k_def)
  have le: "token_id * row_bytes + row_bytes \<le> length raw"
  proof -
    have "token_id * row_bytes + row_bytes = (token_id + 1) * (k * bs)" by (simp add: rb)
    also have "\<dots> \<le> vocab * (k * bs)" by (rule tk(2))
    also have "\<dots> = k * vocab * bs" by simp
    finally show ?thesis using raw by linarith
  qed
  let ?bytes = "take row_bytes (drop (token_id * row_bytes) raw)"
  have lb: "length ?bytes = n_embd div qk * bs" using le by (simp add: rb k_def)
  have row: "take n_embd (drop (token_id * n_embd) v) = row_values bs (block_values t) ?bytes k"
    unfolding v ne rb by (rule row_values_slice [OF length_block_values [OF assms(3)] tk(1) raw])
  have dec: "decode_row_to_f32 t ?bytes n_embd (replicate n_embd 0) = (row_values bs (block_values t) ?bytes k, Ok ())"
    using row_bytes_decoded [OF assms(3,4) lb] lb le assms(2) by (simp add: k_def)
  moreover have "get_embedding td token_id n_embd = Ok (take n_embd (drop (token_id * n_embd) v))"
  proof (cases "t \<in> {F32, F16, BF16}")
    case True
    then have f: "as_f32_slice td = Some (v, [n_embd, vocab])" and "qk = 1" "1 \<le> bs"
      using r(2) assms(3) n v ne by (auto simp: represents_def value_layout_def split: if_splits)
    have "length v = n" using length_row_blocks [OF length_block_values [OF assms(3)]] v n ne by simp
    then have end_le: "token_id * n_embd + n_embd \<le> length v" using tk(3) n by (simp add: mult.commute)
    have "k * vocab = n" using n(2) \<open>qk = 1\<close> by simp
    then have "n * bs \<le> length raw" using raw by simp
    moreover have "n \<le> n * bs" using \<open>1 \<le> bs\<close> by simp
    ultimately have "length v \<le> length raw" using \<open>length v = n\<close> by linarith
    then have "token_id * n_embd + n_embd \<le> U64_MAX" using end_le assms(2) by linarith
    then show ?thesis using f end_le
      by (simp add: get_embedding_def tensor_shape_def checked_mul_def checked_add_def rust_slice_def)
  next
    case False
    then have l: "block_layout t = Some (qk, bs)" using assms(3) by (auto simp: value_layout_def split: if_splits)
    have q: "as_f32_slice td = None" "quantized_of td = Some \<lparr>qt_type = t, qt_shape = [n_embd, vocab], qt_elements = n, qt_raw = raw\<rparr>"
      using r(2) assms(3) False by (simp_all add: represents_def)
    obtain decode where d: "row_decoder t = Some decode"
      "decode ?bytes n_embd (replicate n_embd 0) = (row_values bs (block_values t) ?bytes k, Ok ())"
      using row_decoder_values [OF l assms(4), of ?bytes "replicate n_embd 0"] lb le assms(2) by (auto simp: k_def)
    have "rust_slice (token_id * row_bytes) (token_id * row_bytes + row_bytes) raw = (Ok ?bytes :: (byte list, data_source_error) result)"
      using le by (simp add: rust_slice_def)
    then have "tensor_row \<lparr>qt_type = t, qt_shape = [n_embd, vocab], qt_elements = n, qt_raw = raw\<rparr> token_id
      = Ok (row_values bs (block_values t) ?bytes k)"
      using assms(2,4,5) l d le by (simp add: tensor_row_def checked_mul_def checked_add_def buffer_of_def row_bytes_def)
    then show ?thesis using q by (simp add: get_embedding_def tensor_shape_def row)
  qed
  ultimately show ?thesis by (simp add: row)
qed

subsection \<open>Examples\<close>

text \<open>Two rows of one Q8_0 block each, and the single precision numbers 1 and 2.\<close>

lemma example_tensor: "tensor_from_bytes Q8_0 [32, 2] 64 (replicate 68 1)
  = Ok (TD_Q8_0 \<lparr>qt_type = Q8_0, qt_shape = [32, 2], qt_elements = 64, qt_raw = replicate 68 1\<rparr>)"
  by (simp add: tensor_from_bytes_def quantized_tensor_new_def block_layout_def block_sizes checked_mul_def U64_MAX_def)

theorem tensor_from_bytes_sound_witness:
  "(\<exists>v. to_f32_vec (TD_Q8_0 \<lparr>qt_type = Q8_0, qt_shape = [32, 2], qt_elements = 64, qt_raw = replicate 68 1\<rparr>) = Ok v \<and> length v = 64)"
  using tensor_from_bytes_sound [OF example_tensor] by auto

theorem embedding_rows_agree_witness:
  "\<exists>row. get_embedding (TD_Q8_0 \<lparr>qt_type = Q8_0, qt_shape = [32, 2], qt_elements = 64, qt_raw = replicate 68 1\<rparr>) 1 32 = Ok row
    \<and> decode_row_to_f32 Q8_0 (replicate 34 1) 32 (replicate 32 0) = (row, Ok ())"
proof -
  let ?td = "TD_Q8_0 \<lparr>qt_type = Q8_0, qt_shape = [32, 2], qt_elements = 64, qt_raw = replicate 68 1\<rparr>"
  have raw: "length (replicate 68 (1 :: byte)) \<le> U64_MAX" by (simp add: U64_MAX_def)
  have l: "value_layout Q8_0 = Some (32, 34)" by (simp add: value_layout_def block_layout_def block_sizes)
  have "to_f32_vec ?td = Ok (row_values 34 (block_values Q8_0) (replicate 68 1) (64 div 32))"
    by (rule represented_values(1) [OF from_bytes_represents(2) [OF example_tensor] l raw])
  from embedding_rows_agree [OF example_tensor raw l _ _ this, of 1] show ?thesis by simp
qed

end
