(* ===== verification/Matvec_Dispatch.thy ===== *)
theory Matvec_Dispatch
  imports Tensor_Data
begin

section \<open>Dispatch of matrix products\<close>

text \<open>
  \<open>crates/ramforge-runtime/src/compute_dispatch.rs\<close>: the products of quantized tensors, split over a worker pool for Q4_0 and Q6_K. The
  workers write the output through raw pointers, without the checks of a slice: such an access outside of the buffer is
  undefined behaviour, and an outcome of the model. The counters of the profiler are left out. The pool is a parameter: the row
  ranges that it runs, in the order in which they end; the ranges write different parts of the output.
\<close>

datatype 'a outcome = Defined 'a | Undefined

definition raw_parts :: "nat \<Rightarrow> nat \<Rightarrow> 'a list \<Rightarrow> 'a list option" where
  "raw_parts off n xs = (if off + n \<le> length xs then Some (take n (drop off xs)) else None)"

definition QUANT_PARALLEL_ROW_THRESHOLD :: nat where "QUANT_PARALLEL_ROW_THRESHOLD = 128"

definition make_row_chunks :: "usize \<Rightarrow> usize \<Rightarrow> (usize \<times> usize) list" where
  "make_row_chunks out_dim n_chunks =
     (let n = max (min n_chunks out_dim) 1; base = out_dim div n; extra = out_dim mod n in
      fst (fold (\<lambda>i (out, cursor). let c = base + (if i < extra then 1 else 0) in (out @ [(cursor, c)], cursor + c)) [0..<n] ([], 0)))"

definition string_of :: "data_source_error written \<Rightarrow> string written" where
  "string_of p = (fst p, map_err (\<lambda>_. ''kernel'') (snd p))"

definition tensor_f32_view :: "tensor_data \<Rightarrow> (f32 list, string) result" where
  "tensor_f32_view td = (case as_f32_slice td of Some (data, _) \<Rightarrow> Ok data | None \<Rightarrow> map_err (\<lambda>_. ''decode'') (to_f32_vec td))"

definition optimized_quantized_matvec :: "tensor_data \<Rightarrow> f32 list \<Rightarrow> f32 list \<Rightarrow> string written" where
  "optimized_quantized_matvec td x y =
     (case (case td of
        TD_Q2_K qt \<Rightarrow> Some (Q2_K, qt) | TD_Q3_K qt \<Rightarrow> Some (Q3_K, qt) | TD_Q4_K qt \<Rightarrow> Some (Q4_K, qt) | TD_Q5_0 qt \<Rightarrow> Some (Q5_0, qt)
      | TD_Q5_K qt \<Rightarrow> Some (Q5_K, qt) | TD_Q8_0 qt \<Rightarrow> Some (Q8_0, qt) | TD_Q8_K qt \<Rightarrow> Some (Q8_K, qt) | _ \<Rightarrow> None) of
        None \<Rightarrow> (y, Err ''unsupported tensor variant'')
      | Some (t, qt) \<Rightarrow>
          if length (qt_shape qt) \<noteq> 2 then (y, Err ''matvec expects 2D tensor shape'')
          else
            let w_shape = [qt_shape qt ! 1, qt_shape qt ! 0] in
            case block_kernel t of
              Some k \<Rightarrow> string_of (k (qt_raw qt) w_shape x y)
            | None \<Rightarrow> (y, Panic ''unreachable''))"

text \<open>The kernel of one row range, on the parts of the weights and of the output that its pointers reach.\<close>

type_synonym row_kernel = "byte list \<Rightarrow> nat list \<Rightarrow> f32 list \<Rightarrow> f32 list \<Rightarrow> nat \<Rightarrow> nat option \<Rightarrow> data_source_error written"

definition run_range ::
  "row_kernel \<Rightarrow> byte list \<Rightarrow> usize \<Rightarrow> usize \<Rightarrow> f32 list \<Rightarrow> usize \<times> usize \<Rightarrow> f32 list \<Rightarrow> string written outcome"
where
  "run_range k raw in_dim row_bytes x r y =
     (case r of (row_start, row_count) \<Rightarrow>
        case raw_parts (wrapping_mul row_start row_bytes) (wrapping_mul row_count row_bytes) raw of
          None \<Rightarrow> Undefined
        | Some w_sub \<Rightarrow>
            (case raw_parts row_start row_count y of
               None \<Rightarrow> Undefined
             | Some y_sub \<Rightarrow>
                 (case string_of (k w_sub [row_count, in_dim] x y_sub 0 None) of
                    (y', res) \<Rightarrow> Defined (take row_start y @ y' @ drop (row_start + row_count) y, res))))"

fun run_ranges :: "('r \<Rightarrow> f32 list \<Rightarrow> string written outcome) \<Rightarrow> 'r list \<Rightarrow> f32 list \<Rightarrow> string written outcome" where
  "run_ranges step [] y = Defined (y, Ok ())"
| "run_ranges step (r # rs) y =
     (case step r y of
        Undefined \<Rightarrow> Undefined
      | Defined (y, res) \<Rightarrow>
          (case run_ranges step rs y of
             Undefined \<Rightarrow> Undefined
           | Defined (y, rest) \<Rightarrow> Defined (y, if is_ok res then rest else res)))"

type_synonym pool = "(usize \<times> usize) list \<Rightarrow> (usize \<times> usize) list"

text \<open>The kernel and the block of the two types that are split.\<close>

definition row_kernel_for :: "ggml_type \<Rightarrow> row_kernel \<times> nat \<times> nat" where
  "row_kernel_for t =
     (if t = Q4_0 then (matvec_q4_0_row_range, QK4_0, BLOCK_SIZE_Q4_0) else (matvec_q6_k_row_range, QK_K, BLOCK_SIZE_Q6_K))"

definition range_step :: "ggml_type \<Rightarrow> quantized_tensor \<Rightarrow> f32 list \<Rightarrow> usize \<times> usize \<Rightarrow> f32 list \<Rightarrow> string written outcome" where
  "range_step t qt x =
     (case row_kernel_for t of (k, qk, block_size) \<Rightarrow>
        let in_dim = qt_shape qt ! 0; row_bytes = wrapping_mul (in_dim div qk) block_size in
        run_range k (qt_raw qt) in_dim row_bytes x)"

definition row_parallel_matvec :: "ggml_type \<Rightarrow> nat \<Rightarrow> pool \<Rightarrow> quantized_tensor \<Rightarrow> f32 list \<Rightarrow> f32 list \<Rightarrow> string written outcome" where
  "row_parallel_matvec t num_threads pool qt x y =
     (let out_dim = qt_shape qt ! 1; in_dim = qt_shape qt ! 0 in
      if num_threads > 1 \<and> out_dim \<ge> QUANT_PARALLEL_ROW_THRESHOLD
      then run_ranges (range_step t qt x) (pool (make_row_chunks out_dim num_threads)) y
      else Defined (string_of (fst (row_kernel_for t) (qt_raw qt) [out_dim, in_dim] x y 0 None)))"

definition quantized_matvec_dispatch :: "nat \<Rightarrow> pool \<Rightarrow> tensor_data \<Rightarrow> f32 list \<Rightarrow> f32 list \<Rightarrow> string written outcome" where
  "quantized_matvec_dispatch num_threads pool td x y =
     (case (case td of
        TD_Q4_0 qt \<Rightarrow> if length (qt_shape qt) \<noteq> 2 then None else Some (qt, Q4_0)
      | TD_Q6_K qt \<Rightarrow> if length (qt_shape qt) \<noteq> 2 then None else Some (qt, Q6_K)
      | _ \<Rightarrow> None) of
        Some (qt, t) \<Rightarrow> row_parallel_matvec t num_threads pool qt x y
      | None \<Rightarrow> Defined (optimized_quantized_matvec td x y))"

text \<open>What \<open>try_for_each\<close> on a pool promises: it runs every range, or some and reports the error of one that failed.\<close>

definition pool_ok :: "('r \<Rightarrow> f32 list \<Rightarrow> string written outcome) \<Rightarrow> 'r list \<Rightarrow> 'r list \<Rightarrow> f32 list \<Rightarrow> bool" where
  "pool_ok step ranges run y \<longleftrightarrow> set run \<subseteq> set ranges \<and>
     (set run = set ranges \<or> (\<exists>y' e. run_ranges step run y = Defined (y', Err e)))"

subsection \<open>The row ranges\<close>

text \<open>The ranges are the rows in order, each once, and differ by at most one row.\<close>

lemma row_chunk_loop:
  fixes base extra n :: nat
  shows "fold (\<lambda>i (out, cursor). let c = base + (if i < extra then 1 else 0) in (out @ [(cursor, c)], cursor + c)) [0..<n] ([], 0)
    = (map (\<lambda>i. (i * base + min i extra, base + (if i < extra then 1 else 0))) [0..<n], n * base + min n extra)"
  by (induction n) (auto simp: Let_def)

lemma make_row_chunks_eq:
  fixes n_chunks out_dim :: nat
  defines "n \<equiv> max (min n_chunks out_dim) 1"
  shows "make_row_chunks out_dim n_chunks
    = map (\<lambda>i. (i * (out_dim div n) + min i (out_dim mod n), out_dim div n + (if i < out_dim mod n then 1 else 0))) [0..<n]"
  unfolding make_row_chunks_def Let_def n_def [symmetric] using row_chunk_loop [of "out_dim div n" "out_dim mod n" n] by (simp add: Let_def)

lemma row_chunks_cover:
  "concat (map (\<lambda>(s, c). [s..<s + c]) (make_row_chunks out_dim n_chunks)) = [0..<out_dim]"
proof -
  define n where "n = max (min n_chunks out_dim) 1"
  let ?s = "\<lambda>i. i * (out_dim div n) + min i (out_dim mod n)"
  have "concat (map (\<lambda>(s, c). [s..<s + c])
      (map (\<lambda>i. (?s i, out_dim div n + (if i < out_dim mod n then 1 else 0))) [0..<k])) = [0..<?s k]" for k
  proof (induction k)
    case (Suc k)
    let ?c = "out_dim div n + (if k < out_dim mod n then 1 else 0)"
    have e: "?s (Suc k) = ?s k + ?c" by auto
    have "concat (map (\<lambda>(s, c). [s..<s + c]) (map (\<lambda>i. (?s i, out_dim div n + (if i < out_dim mod n then 1 else 0))) [0..<Suc k]))
      = [0..<?s k] @ [?s k..<?s k + ?c]"
      unfolding upt_Suc_append [OF le0] map_append concat_append Suc by simp
    also have "\<dots> = [0..<?s (Suc k)]" unfolding e by (rule upt_add_eq_append [symmetric]) simp
    finally show ?case .
  qed simp
  moreover have "?s n = out_dim"
  proof -
    have "0 < n" by (simp add: n_def)
    then have "min n (out_dim mod n) = out_dim mod n" using mod_less_divisor [of n out_dim] by simp
    then show ?thesis by simp
  qed
  ultimately show ?thesis unfolding make_row_chunks_eq n_def by metis
qed

subsection \<open>Row-range kernels\<close>

text \<open>A row product that cannot fail on a whole row, as those of Q4_0 and Q6_K.\<close>

locale fused_product =
  fixes qk block_size :: nat
    and dot :: "byte list \<Rightarrow> nat \<Rightarrow> f32 list \<Rightarrow> (f32, data_source_error) result"
  assumes width: "0 < qk" "0 < block_size"
    and whole_row: "length row = n * block_size \<Longrightarrow> \<exists>v. dot row n x = Ok v"
begin

definition row_value :: "byte list \<Rightarrow> nat \<Rightarrow> f32 list \<Rightarrow> f32" where
  "row_value row n x = (case dot row n x of Ok v \<Rightarrow> v | _ \<Rightarrow> 0)"

lemma row_range_values:
  assumes "length x = in_dim" "in_dim mod qk = 0" "length y = out_dim" "out_dim * (in_dim div qk * block_size) \<le> length w"
    "length w \<le> U64_MAX" "in_dim div qk * block_size \<le> U64_MAX" "out_dim \<le> U64_MAX"
  shows "matvec_row_range qk block_size dot w [out_dim, in_dim] x y 0 None
    = (map (\<lambda>i. row_value (take (in_dim div qk * block_size) (drop (i * (in_dim div qk * block_size)) w)) (in_dim div qk) x) [0..<out_dim], Ok ())"
proof -
  let ?n = "in_dim div qk"
  let ?rb = "?n * block_size"
  have rb: "wrapping_mul ?n block_size = ?rb" "wrapping_mul out_dim ?rb = out_dim * ?rb" using assms(4-6) by simp_all
  have row: "rbind (rust_slice (wrapping_mul i ?rb) (wrapping_add (wrapping_mul i ?rb) ?rb) w) (\<lambda>row. dot row ?n x)
    = Ok (row_value (take ?rb (drop (i * ?rb) w)) ?n x)" if "i < out_dim" for i
  proof -
    have "(i + 1) * ?rb \<le> out_dim * ?rb" using that by (intro mult_le_mono1) simp
    then have le: "i * ?rb + ?rb \<le> length w" using assms(4) by simp
    then have e: "wrapping_mul i ?rb = i * ?rb" "wrapping_add (i * ?rb) ?rb = i * ?rb + ?rb"
      using assms(5) by (simp_all add: wrapping_add_exact)
    have "length (take ?rb (drop (i * ?rb) w)) = ?n * block_size" using le by simp
    then obtain v where "dot (take ?rb (drop (i * ?rb) w)) ?n x = Ok v" using whole_row by blast
    then show ?thesis unfolding e rust_slice_def row_value_def using le by simp
  qed
  then show ?thesis
    using assms rb write_rows_all [of 0 out_dim, OF row] by (simp add: matvec_row_range_def Let_def checked_add_def)
qed

text \<open>An input of the wrong length, or rows that are no whole blocks, are refused by every range alike.\<close>

lemma row_range_refused:
  assumes "length x \<noteq> in_dim \<or> in_dim mod qk \<noteq> 0" "length y = out_dim" "out_dim \<le> U64_MAX"
  shows "\<exists>e. matvec_row_range qk block_size dot w [out_dim, in_dim] x y 0 None = (y, Err e)"
  using assms by (auto simp: matvec_row_range_def Let_def checked_add_def)

lemma raw_rows:
  assumes "s + c \<le> out_dim" "out_dim * rb \<le> length raw" "length raw \<le> U64_MAX"
  shows "raw_parts (wrapping_mul s rb) (wrapping_mul c rb) raw = Some (take (c * rb) (drop (s * rb) raw))"
    "length (take (c * rb) (drop (s * rb) raw)) = c * rb"
proof -
  have "(s + c) * rb \<le> out_dim * rb" using assms(1) by (intro mult_le_mono1)
  then have le: "s * rb + c * rb \<le> length raw" using assms(2) by (simp add: add_mult_distrib)
  then have "wrapping_mul s rb = s * rb" "wrapping_mul c rb = c * rb" using assms(3) by simp_all
  then show "raw_parts (wrapping_mul s rb) (wrapping_mul c rb) raw = Some (take (c * rb) (drop (s * rb) raw))"
    using le by (simp add: raw_parts_def)
  show "length (take (c * rb) (drop (s * rb) raw)) = c * rb" using le by simp
qed

lemma run_range_values:
  fixes in_dim out_dim :: nat
  assumes "length x = in_dim" "in_dim mod qk = 0" "s + c \<le> out_dim" "length y = out_dim" "out_dim \<le> U64_MAX"
    "out_dim * (in_dim div qk * block_size) \<le> length raw" "length raw \<le> U64_MAX" "in_dim div qk * block_size \<le> U64_MAX"
  shows "run_range (matvec_row_range qk block_size dot) raw in_dim (in_dim div qk * block_size) x (s, c) y
    = Defined (take s y @ map (\<lambda>i. row_value (take (in_dim div qk * block_size) (drop (i * (in_dim div qk * block_size)) raw)) (in_dim div qk) x) [s..<s + c]
        @ drop (s + c) y, Ok ())"
proof -
  let ?rb = "in_dim div qk * block_size"
  let ?w = "take (c * ?rb) (drop (s * ?rb) raw)"
  note r = raw_rows [OF assms(3,6,7)]
  have "matvec_row_range qk block_size dot ?w [c, in_dim] x (take c (drop s y)) 0 None
    = (map (\<lambda>i. row_value (take ?rb (drop (i * ?rb) ?w)) (in_dim div qk) x) [0..<c], Ok ())"
    using assms r(2) by (intro row_range_values) simp_all
  also have "map (\<lambda>i. row_value (take ?rb (drop (i * ?rb) ?w)) (in_dim div qk) x) [0..<c]
    = map (\<lambda>i. row_value (take ?rb (drop (i * ?rb) raw)) (in_dim div qk) x) [s..<s + c]"
  proof (rule nth_equalityI)
    fix i assume "i < length (map (\<lambda>i. row_value (take ?rb (drop (i * ?rb) ?w)) (in_dim div qk) x) [0..<c])"
    then have i: "i < c" by simp
    then have "(i + 1) * ?rb \<le> c * ?rb" by (intro mult_le_mono1) simp
    then have "take ?rb (drop (i * ?rb) ?w) = take ?rb (drop ((s + i) * ?rb) raw)"
      by (simp add: drop_take min_def add_mult_distrib add.commute)
    then show "map (\<lambda>i. row_value (take ?rb (drop (i * ?rb) ?w)) (in_dim div qk) x) [0..<c] ! i
      = map (\<lambda>i. row_value (take ?rb (drop (i * ?rb) raw)) (in_dim div qk) x) [s..<s + c] ! i" using i by simp
  qed simp
  finally show ?thesis using r(1) assms(3,4) by (simp add: run_range_def raw_parts_def string_of_def)
qed

lemma run_range_refused:
  fixes in_dim out_dim :: nat
  assumes "length x \<noteq> in_dim \<or> in_dim mod qk \<noteq> 0" "s + c \<le> out_dim" "length y = out_dim" "out_dim \<le> U64_MAX"
    "out_dim * rb \<le> length raw" "length raw \<le> U64_MAX"
  shows "run_range (matvec_row_range qk block_size dot) raw in_dim rb x (s, c) y = Defined (y, Err ''kernel'')"
proof -
  have "length (take c (drop s y)) = c" using assms(2,3) by simp
  then obtain e where "matvec_row_range qk block_size dot (take (c * rb) (drop (s * rb) raw)) [c, in_dim] x (take c (drop s y)) 0 None
    = (take c (drop s y), Err e)"
    using row_range_refused [OF assms(1), of "take c (drop s y)" c] assms(2,4) by force
  moreover have "take s y @ take c (drop s y) @ drop (s + c) y = y"
    by (metis append_take_drop_id drop_drop add.commute)
  ultimately show ?thesis using raw_rows(1) [OF assms(2,5,6)] assms(2,3) by (simp add: run_range_def raw_parts_def string_of_def)
qed

end

lemma q6_k_blocks_whole: "off + n * BLOCK_SIZE_Q6_K \<le> length row \<Longrightarrow> \<exists>v. q6_k_blocks n row x acc x_off off = Ok v"
  by (induction n arbitrary: acc x_off off) (auto simp: Let_def split: prod.split)

interpretation q4_0_rows: fused_product QK4_0 BLOCK_SIZE_Q4_0 "\<lambda>row n x. Ok (q4_0_row_dot row n x)"
  by unfold_locales (simp_all add: block_sizes)
interpretation q6_k_rows: fused_product QK_K BLOCK_SIZE_Q6_K q6_k_row_dot
  by unfold_locales (simp_all add: block_sizes q6_k_row_dot_def q6_k_blocks_whole [unfolded block_sizes])

subsection \<open>The pool computes what one thread computes\<close>

lemma run_ranges_writes:
  assumes "\<And>s c y. (s, c) \<in> set rs \<Longrightarrow> length y = n \<Longrightarrow> step (s, c) y = Defined (take s y @ map f [s..<s + c] @ drop (s + c) y, Ok ())"
    "\<And>s c. (s, c) \<in> set rs \<Longrightarrow> s + c \<le> n" "length y = n"
  shows "\<exists>y'. run_ranges step rs y = Defined (y', Ok ()) \<and> length y' = n
    \<and> (\<forall>i < n. y' ! i = (if \<exists>(s, c) \<in> set rs. s \<le> i \<and> i < s + c then f i else y ! i))"
  using assms
proof (induction rs arbitrary: y)
  case (Cons r rs)
  obtain s c where r: "r = (s, c)" by (cases r)
  let ?y = "take s y @ map f [s..<s + c] @ drop (s + c) y"
  have sc: "s + c \<le> n" using Cons.prems(2) r by simp
  have l: "length ?y = n" using sc Cons.prems(3) by simp
  have nth: "?y ! i = (if s \<le> i \<and> i < s + c then f i else y ! i)" if "i < n" for i
    using that sc Cons.prems(3) by (auto simp: nth_append)
  obtain y' where y': "run_ranges step rs ?y = Defined (y', Ok ())" "length y' = n"
    "\<forall>i < n. y' ! i = (if \<exists>(s, c) \<in> set rs. s \<le> i \<and> i < s + c then f i else ?y ! i)"
    using Cons.IH [OF _ _ l] Cons.prems(1,2) by auto
  have "run_ranges step (r # rs) y = Defined (y', Ok ())" using Cons.prems(1,3) r y'(1) by simp
  moreover have "\<forall>i < n. y' ! i = (if \<exists>(s, c) \<in> set (r # rs). s \<le> i \<and> i < s + c then f i else y ! i)"
    using y'(3) nth r by auto
  ultimately show ?case using y'(2) by blast
qed simp

lemma run_ranges_refused:
  assumes "\<And>r. r \<in> set rs \<Longrightarrow> step r y = Defined (y, Err e)" "rs \<noteq> []"
  shows "run_ranges step rs y = Defined (y, Err e)"
  using assms
proof (induction rs)
  case (Cons r rs)
  have "run_ranges step rs y = Defined (y, Err e) \<or> run_ranges step rs y = Defined (y, Ok ())"
    using Cons by (cases "rs = []") auto
  then show ?case using Cons.prems(1) [of r] by auto
qed simp

lemma row_chunks_bound: "(s, c) \<in> set (make_row_chunks out_dim n) \<Longrightarrow> 0 < c \<Longrightarrow> s + c \<le> out_dim"
proof -
  assume a: "(s, c) \<in> set (make_row_chunks out_dim n)" "0 < c"
  have "[s..<s + c] \<in> (\<lambda>(s, c). [s..<s + c]) ` set (make_row_chunks out_dim n)" by (rule image_eqI [OF _ a(1)]) simp
  then have "set [s..<s + c] \<subseteq> set (concat (map (\<lambda>(s, c). [s..<s + c]) (make_row_chunks out_dim n)))"
    unfolding set_concat set_map by blast
  then have "s + c - 1 \<in> set [0..<out_dim]" unfolding row_chunks_cover using a(2) by (simp add: subset_iff)
  then show "s + c \<le> out_dim" using a(2) by simp
qed

lemma row_chunks_positive:
  assumes "(s, c) \<in> set (make_row_chunks out_dim n)" "0 < out_dim"
  shows "0 < c"
proof -
  have "0 < out_dim div max (min n out_dim) 1" using assms(2) by (simp add: div_greater_zero_iff)
  then show ?thesis using assms(1) unfolding make_row_chunks_eq by auto
qed

lemma row_chunks_index:
  assumes "i < out_dim"
  shows "\<exists>(s, c) \<in> set (make_row_chunks out_dim n). s \<le> i \<and> i < s + c"
proof -
  have "i \<in> set (concat (map (\<lambda>(s, c). [s..<s + c]) (make_row_chunks out_dim n)))" unfolding row_chunks_cover using assms by simp
  then show ?thesis by (auto split: prod.splits)
qed

context fused_product
begin

lemma pool_computes_product:
  fixes in_dim out_dim :: nat
  defines "k \<equiv> matvec_row_range qk block_size dot" and "rb \<equiv> in_dim div qk * block_size"
  assumes "length y = out_dim" "0 < out_dim" "out_dim \<le> U64_MAX" "out_dim * rb \<le> length raw" "length raw \<le> U64_MAX"
    "pool_ok (run_range k raw in_dim (wrapping_mul (in_dim div qk) block_size) x) (make_row_chunks out_dim n) run y"
  shows "run_ranges (run_range k raw in_dim (wrapping_mul (in_dim div qk) block_size) x) run y
    = Defined (string_of (k raw [out_dim, in_dim] x y 0 None))"
proof -
  have "1 * rb \<le> out_dim * rb" using assms(4) by (intro mult_le_mono1) simp
  then have rb: "rb \<le> U64_MAX" using assms(6,7) by linarith
  then have w: "wrapping_mul (in_dim div qk) block_size = rb" by (simp add: rb_def)
  note pool = assms(8) [unfolded w]
  let ?step = "run_range k raw in_dim rb x"
  have sub: "set run \<subseteq> set (make_row_chunks out_dim n)" using pool by (simp add: pool_ok_def)
  have fit: "s + c \<le> out_dim" if "(s, c) \<in> set run" for s c
    using that sub row_chunks_bound row_chunks_positive [OF _ assms(4)] by blast
  show ?thesis
  proof (cases "length x = in_dim \<and> in_dim mod qk = 0")
    case True
    define f where "f i = row_value (take rb (drop (i * rb) raw)) (in_dim div qk) x" for i
    have "\<exists>y'. run_ranges ?step run y = Defined (y', Ok ()) \<and> length y' = out_dim
      \<and> (\<forall>i < out_dim. y' ! i = (if \<exists>(s, c) \<in> set run. s \<le> i \<and> i < s + c then f i else y ! i))"
      using fit assms(3) True rb run_range_values [OF _ _ _ _ assms(5) assms(6) [unfolded rb_def] assms(7)]
      by (intro run_ranges_writes) (simp_all add: k_def rb_def f_def)
    then obtain y' where y': "run_ranges ?step run y = Defined (y', Ok ())" "length y' = out_dim"
      "\<forall>i < out_dim. y' ! i = (if \<exists>(s, c) \<in> set run. s \<le> i \<and> i < s + c then f i else y ! i)" by blast
    then have all: "set run = set (make_row_chunks out_dim n)" using pool by (simp add: pool_ok_def)
    have "y' = map f [0..<out_dim]"
      using y'(2,3) row_chunks_index [of _ out_dim n] unfolding all by (intro nth_equalityI) auto
    moreover have "k raw [out_dim, in_dim] x y 0 None = (map f [0..<out_dim], Ok ())"
      unfolding k_def f_def rb_def using True assms(3,5-7) rb by (intro row_range_values) (simp_all add: rb_def)
    ultimately show ?thesis using y'(1) by (simp add: w string_of_def)
  next
    case False
    then have bad: "length x \<noteq> in_dim \<or> in_dim mod qk \<noteq> 0" by simp
    have "run \<noteq> []"
    proof
      assume "run = []"
      then show False using pool row_chunks_index [OF assms(4), of n] by (auto simp: pool_ok_def)
    qed
    moreover have "?step r y = Defined (y, Err ''kernel'')" if "r \<in> set run" for r
    proof -
      obtain s c where r: "r = (s, c)" by (cases r)
      show ?thesis unfolding k_def r using that fit assms(3,5-7) r by (intro run_range_refused [OF bad]) simp_all
    qed
    ultimately have "run_ranges ?step run y = Defined (y, Err ''kernel'')" by (intro run_ranges_refused)
    moreover obtain e where "k raw [out_dim, in_dim] x y 0 None = (y, Err e)"
      using row_range_refused [OF bad assms(3,5)] unfolding k_def by blast
    ultimately show ?thesis by (simp add: w string_of_def)
  qed
qed

end

lemma rows_fit:
  fixes in_dim out_dim qk bs :: nat
  assumes "0 < qk" "in_dim * out_dim div qk * bs \<le> length raw"
  shows "out_dim * (in_dim div qk * bs) \<le> length raw"
proof -
  have "out_dim * (in_dim div qk) * qk \<le> in_dim * out_dim" using mult_le_mono1 [OF div_times_less_eq_dividend [of in_dim qk], of out_dim] by (simp add: ac_simps)
  then have "out_dim * (in_dim div qk) \<le> in_dim * out_dim div qk" using assms(1) by (simp add: less_eq_div_iff_mult_less_eq)
  then have "out_dim * (in_dim div qk) * bs \<le> in_dim * out_dim div qk * bs" by (rule mult_le_mono1)
  from order_trans [OF this assms(2)] show ?thesis by (simp only: mult.assoc)
qed

text \<open>
  C26: Whatever ranges the workers run and in whatever order, the product of a Q4_0 or Q6_K tensor is that of the kernel called once for
  all rows, errors included, and every access through the raw pointers is inside of its buffer, when the output has the length of
  the tensor's second dimension.
\<close>

theorem parallel_product_is_sequential:
  assumes "tensor_from_bytes t [in_dim, out_dim] n raw = Ok td" "t = Q4_0 \<or> t = Q6_K"
    "length y = out_dim" "out_dim \<le> U64_MAX" "length raw \<le> U64_MAX"
    "pool_ok (range_step t \<lparr>qt_type = t, qt_shape = [in_dim, out_dim], qt_elements = n, qt_raw = raw\<rparr> x) (make_row_chunks out_dim num_threads)
      (pool (make_row_chunks out_dim num_threads)) y"
  shows "quantized_matvec_dispatch num_threads pool td x y
    = Defined (string_of (fst (row_kernel_for t) raw [out_dim, in_dim] x y 0 None))"
proof -
  let ?qt = "\<lparr>qt_type = t, qt_shape = [in_dim, out_dim], qt_elements = n, qt_raw = raw\<rparr>"
  have n: "n = in_dim * out_dim" using from_bytes_represents(1) [OF assms(1)] by simp
  have td: "td = (if t = Q4_0 then TD_Q4_0 ?qt else TD_Q6_K ?qt)"
    using assms(1,2) by (auto simp: tensor_from_bytes_def rbind_eq_Ok ok_or_eq_Ok dest!: quantized_tensor_new_Ok split: if_splits)
  have "row_parallel_matvec t num_threads pool ?qt x y = Defined (string_of (fst (row_kernel_for t) raw [out_dim, in_dim] x y 0 None))"
  proof (cases "num_threads > 1 \<and> out_dim \<ge> QUANT_PARALLEL_ROW_THRESHOLD")
    case True
    then have "0 < out_dim" by (simp add: QUANT_PARALLEL_ROW_THRESHOLD_def)
    obtain qk bs where l: "value_layout t = Some (qk, bs)" "n div qk * bs \<le> length raw"
      using from_bytes_represents(2) [OF assms(1)] by (auto simp: represents_def split: option.splits)
    have fit: "out_dim * (in_dim div qk * bs) \<le> length raw" using rows_fit [of qk in_dim out_dim bs] l layout_pos [OF l(1)] n by simp
    show ?thesis
      using assms(2)
    proof
      assume t: "t = Q4_0"
      then have "qk = QK4_0" "bs = BLOCK_SIZE_Q4_0" using l(1) by (simp_all add: value_layout_def block_layout_def)
      then show ?thesis
        using True t q4_0_rows.pool_computes_product [OF assms(3) \<open>0 < out_dim\<close> assms(4) _ assms(5)] fit assms(6)
        by (simp add: row_parallel_matvec_def range_step_def row_kernel_for_def matvec_q4_0_row_range_def)
    next
      assume t: "t = Q6_K"
      then have "qk = QK_K" "bs = BLOCK_SIZE_Q6_K" using l(1) by (simp_all add: value_layout_def block_layout_def)
      then show ?thesis
        using True t q6_k_rows.pool_computes_product [OF assms(3) \<open>0 < out_dim\<close> assms(4) _ assms(5)] fit assms(6)
        by (simp add: row_parallel_matvec_def range_step_def row_kernel_for_def matvec_q6_k_row_range_def)
    qed
  next
    case False
    then show ?thesis by (auto simp: row_parallel_matvec_def)
  qed
  then show ?thesis using assms(2) unfolding td by (auto simp: quantized_matvec_dispatch_def)
qed

subsection \<open>An output that is too short\<close>

lemma length_write_rows: "length (fst (write_rows f a rows y)) = length y"
  by (induction f a rows y rule: write_rows.induct) (auto split: result.split)

lemma length_row_range: "length (fst (matvec_row_range qk bs row_prod w w_shape x y a b)) = length y"
  by (simp add: matvec_row_range_def Let_def length_write_rows split: option.split)

lemma length_row_kernel: "length (fst (fst (row_kernel_for t) w w_shape x y a b)) = length y"
  by (simp add: row_kernel_for_def matvec_q4_0_row_range_def matvec_q6_k_row_range_def length_row_range)

lemma length_range_step: "range_step t qt x r y = Defined (z, res) \<Longrightarrow> length z = length y"
  using length_row_kernel [of t]
  by (auto simp: range_step_def run_range_def raw_parts_def string_of_def Let_def split: prod.splits option.splits if_splits)

lemma run_ranges_undefined:
  assumes "r \<in> set rs" "\<And>z. length z = length y \<Longrightarrow> step r z = Undefined"
    "\<And>r y z res. step r y = Defined (z, res) \<Longrightarrow> length z = length y"
  shows "run_ranges step rs y = Undefined"
  using assms(1,2)
proof (induction rs arbitrary: y)
  case (Cons r' rs)
  show ?case
  proof (cases "step r' y")
    case (Defined p)
    obtain z res where p: "p = (z, res)" by (cases p)
    then have l: "length z = length y" using assms(3) Defined by blast
    have "r \<noteq> r'" using Cons.prems(2) [of y] Defined by auto
    then have "run_ranges step rs z = Undefined" using Cons l by simp
    then show ?thesis using Defined p by simp
  qed simp
qed simp

text \<open>
  C27: The split product does not check the length of the output. With an output shorter than the number of rows, where the
  kernel for one thread reports an error and writes nothing, the workers reach through their pointers behind the end of it.
\<close>

theorem short_output_overrun:
  assumes "tensor_from_bytes t [in_dim, out_dim] n raw = Ok td" "t = Q4_0 \<or> t = Q6_K"
    "length y < out_dim" "QUANT_PARALLEL_ROW_THRESHOLD \<le> out_dim" "1 < num_threads"
    "set (pool (make_row_chunks out_dim num_threads)) = set (make_row_chunks out_dim num_threads)"
  shows "quantized_matvec_dispatch num_threads pool td x y = Undefined
    \<and> quantized_matvec_dispatch 1 pool td x y = Defined (y, Err ''kernel'')"
proof -
  let ?qt = "\<lparr>qt_type = t, qt_shape = [in_dim, out_dim], qt_elements = n, qt_raw = raw\<rparr>"
  have td: "td = (if t = Q4_0 then TD_Q4_0 ?qt else TD_Q6_K ?qt)"
    using assms(1,2) by (auto simp: tensor_from_bytes_def rbind_eq_Ok ok_or_eq_Ok dest!: quantized_tensor_new_Ok split: if_splits)
  obtain s c where r: "(s, c) \<in> set (make_row_chunks out_dim num_threads)" "out_dim - 1 < s + c"
    using row_chunks_index [of "out_dim - 1" out_dim num_threads] assms(3) by auto
  have "range_step t ?qt x (s, c) z = Undefined" if "length z = length y" for z
    using that r(2) assms(3)
    by (auto simp: range_step_def run_range_def raw_parts_def Let_def split: prod.split option.split)
  then have "run_ranges (range_step t ?qt x) (pool (make_row_chunks out_dim num_threads)) y = Undefined"
    using r(1) assms(6) length_range_step by (intro run_ranges_undefined [of "(s, c)"]) auto
  then have "row_parallel_matvec t num_threads pool ?qt x y = Undefined"
    using assms(4,5) by (simp add: row_parallel_matvec_def)
  moreover have "row_parallel_matvec t 1 pool ?qt x y = Defined (y, Err ''kernel'')"
    using assms(3) by (auto simp: row_parallel_matvec_def row_kernel_for_def matvec_q4_0_row_range_def matvec_q6_k_row_range_def
      matvec_row_range_def Let_def string_of_def split: option.split)
  ultimately show ?thesis using assms(2) unfolding td by (auto simp: quantized_matvec_dispatch_def)
qed

subsection \<open>Examples\<close>

text \<open>128 rows of one block, on two workers whose ranges end in reverse order.\<close>

lemma example_rows: "tensor_from_bytes Q4_0 [32, 128] 4096 (replicate 2304 1)
  = Ok (TD_Q4_0 \<lparr>qt_type = Q4_0, qt_shape = [32, 128], qt_elements = 4096, qt_raw = replicate 2304 1\<rparr>)"
  by (simp add: tensor_from_bytes_def quantized_tensor_new_def block_layout_def block_sizes checked_mul_def U64_MAX_def)

theorem parallel_product_is_sequential_witness:
  "quantized_matvec_dispatch 2 rev (TD_Q4_0 \<lparr>qt_type = Q4_0, qt_shape = [32, 128], qt_elements = 4096, qt_raw = replicate 2304 1\<rparr>)
      (replicate 32 0) (replicate 128 0)
    = Defined (string_of (matvec_q4_0_row_range (replicate 2304 1) [128, 32] (replicate 32 0) (replicate 128 0) 0 None))"
proof -
  have "fst (row_kernel_for Q4_0) = matvec_q4_0_row_range" by (simp add: row_kernel_for_def)
  then show ?thesis
    using parallel_product_is_sequential [OF example_rows, of "replicate 128 0" "replicate 32 0" 2 rev]
    by (simp only: length_replicate) (simp add: pool_ok_def U64_MAX_def)
qed

theorem short_output_overrun_witness:
  "quantized_matvec_dispatch 2 rev (TD_Q4_0 \<lparr>qt_type = Q4_0, qt_shape = [32, 128], qt_elements = 4096, qt_raw = replicate 2304 1\<rparr>)
    (replicate 32 0) [] = Undefined"
  using short_output_overrun [OF example_rows, of "[]" 2 rev] by (simp add: QUANT_PARALLEL_ROW_THRESHOLD_def)

end
