(* ===== verification/Spec2Isabelle.thy ===== *)
theory Spec2Isabelle
  imports Bounded_Cache Layer_Cache Kv_Cache Gguf_Parse Resource_Accounting Page_Intervals
    Residency_Inventory Graph_Manifest Execution_Profile Residency_Planner Resource_Lifetime
    Residency_Staging Residency_Manager Layer_Reads Model_Support Layer_Memory Static_Plan
    Planner_Profiles Execution_Planner Plan_Compiler Plan_Persistence Tokenizer Chat_Rendering
    Tensor_Reads Prediction_Planner Quant_Values Matvec_Dispatch
begin

text \<open>
  RAMforge runs GGUF language models within a memory budget. This development models its deterministic core: the accounting
  of memory, the caches, the GGUF format and the reads of its files, the residency engine, the planners, the tokenizer, the chat
  templates and the quantized number formats. Paths below are under \<open>src/crates/\<close>; \<open>core\<close> is \<open>ramforge-core/src\<close> and \<open>runtime\<close> is
  \<open>ramforge-runtime/src\<close>.

  \<^bold>\<open>The program and its theories\<close>

  \<^item> \<open>Prelude\<close>, \<open>Ordered_Map\<close>, \<open>Unicode_Text\<close>: results, 64-bit arithmetic, decimal strings; \<open>BTreeMap\<close> as a sorted association list (one locale,
    interpreted on its operations); \<open>String\<close> as code points.
  \<^item> \<open>Memory_Budget\<close> (\<open>core/memory.rs\<close>): the ledger every other part charges. Its invariant over all runs is the base of the cache,
    layer and KV proofs.
  \<^item> \<open>Bounded_Cache\<close> (\<open>core/cache.rs\<close>), \<open>Layer_Cache\<close> (\<open>runtime/layer_cache.rs\<close>), \<open>Kv_Cache\<close> (\<open>runtime/kv_cache.rs\<close>): caches over the ledger. A state is
    the pair of the cache and the budget, so that a failed call shows what it charged; the LRU cache refines a list of pairs.
  \<^item> \<open>Gguf_Types\<close>, \<open>Gguf_Model\<close>, \<open>Gguf_Parse\<close> (\<open>core/types.rs\<close>, \<open>model.rs\<close>, \<open>gguf.rs\<close>): values, tensor types, the parser over the bytes of a file with every
    error, against an encoder. \<open>Model_Set\<close>, \<open>Data_Source\<close>, \<open>Tensor_Reads\<close> (\<open>core/model_set.rs\<close>, \<open>datasource.rs\<close>): from a path to one model over one or more
    files, and the bytes that a read returns.
  \<^item> \<open>Resource_Accounting\<close>, \<open>Page_Intervals\<close>, \<open>Residency_Inventory\<close>, \<open>Graph_Manifest\<close>, \<open>Execution_Profile\<close>, \<open>Resource_Lifetime\<close>, \<open>Residency_Planner\<close>,
    \<open>Residency_Staging\<close>, \<open>Residency_Manager\<close> (\<open>core/resource.rs\<close>, \<open>runtime/residency_engine.rs\<close>, \<open>graph_manifest.rs\<close>, \<open>execution_profile.rs\<close>,
    \<open>resource_lifetime.rs\<close>): what is mapped, what is about to be used, what may be released, and the state machine of the manager.
    \<open>Prediction\<close>, \<open>Prediction_Planner\<close> (\<open>runtime/prediction.rs\<close>, \<open>prediction_planner.rs\<close>): what is fetched ahead.
  \<^item> \<open>Layer_Reads\<close>, \<open>Layer_Memory\<close>, \<open>Model_Support\<close>, \<open>Static_Plan\<close> (\<open>runtime/layer.rs\<close>, \<open>layer_read.rs\<close>, \<open>support.rs\<close>, \<open>accounting.rs\<close>, \<open>model.rs\<close>, \<open>plan.rs\<close>):
    the reads of a layer, its memory and the static plan of a model. \<open>Planner_Profiles\<close>, \<open>Execution_Planner\<close>, \<open>Plan_Compiler\<close>, \<open>Plan_Persistence\<close>
    (\<open>runtime/planner.rs\<close>, \<open>plan_compiler.rs\<close>, \<open>runtime_config.rs\<close>, \<open>plan_persistence.rs\<close>): from the measured machine to the configuration that runs, and its
    binary form.
  \<^item> \<open>Tokenizer\<close>, \<open>Chat_Template\<close>, \<open>Chat_Rendering\<close> (\<open>core/tokenizer.rs\<close>, \<open>chat_template.rs\<close>): text to tokens and back, and the template language.
  \<^item> \<open>Float32\<close>, \<open>Float_Order\<close>, \<open>Half_Float\<close>, \<open>Quant_Blocks\<close>, \<open>Quant_Values\<close>, \<open>Quant_Rows\<close>, \<open>Compute_Core\<close>, \<open>Tensor_Data\<close>,
    \<open>Matvec_Dispatch\<close> (\<open>core/quant.rs\<close>, \<open>compute.rs\<close>, \<open>tensor.rs\<close>, \<open>runtime/compute_dispatch.rs\<close>): IEEE single precision on its
    bits with its order and monotone sum, half precision, the nine block formats and what they decode to, their products
    with vectors against the reference products, the tensors built from them, and the division of a product among threads.

  \<^bold>\<open>How the lemmas are organised\<close>

  Each component has its state as a record, an operation per function, an invariant with a lemma that every operation keeps it
  and, above these, a property over all runs of the component. Interfaces are locales that are interpreted on the
  operations of the model. What spans components: cache and budget (\<open>Bounded_Cache\<close>, \<open>Layer_Cache\<close>, \<open>Kv_Cache\<close>), parser and data source
  (\<open>Tensor_Reads\<close>: an opened model reads the bytes its files encode), planner and compiler (\<open>Plan_Compiler\<close>: what is planned compiles;
  \<open>Plan_Persistence\<close>: what is saved runs), tokenizer and templates.

  \<^bold>\<open>Conventions\<close>

  A \<open>u64\<close> or \<open>usize\<close> is a natural number, and \<open>checked_\<close>, \<open>saturating_\<close> and plain operations are written out, the plain ones as wrapping (release
  profile, 64-bit target). An error is a value of the component's own datatype; formatted parts of its text are left
  out. A panic is an outcome. An \<open>f32\<close> is its bits; the key-value cache, which only stores floats, keeps them as values of any
  type. Parameters stand for what is not in the repository or not deterministic: the operating system and its
  file system, allocators, JSON, the Unicode tables, \<open>f64\<close> printing, the external \<open>forge_core\<close> crate. Locks, clocks and elapsed times
  are not modelled; a call runs alone.

  \<^bold>\<open>Fuel and bounds\<close>

  Loops are structural, or have a measure, or take fuel that is shown to be enough: \<open>dependency_cycles\<close> one unit per node;
  the search for special tokens and the backtracking over segmentations one per character; the expression parser eight per
  token, the template parser one per token and an \<open>if\<close> chain one per token; a read one round per byte; the normalization of a
  half ten rounds.

  \<^bold>\<open>Assumptions\<close>

  A property holds for all inputs that meet its hypotheses, which the text before it states. The main ones: an opened model
  has files of fewer than 2^64 bytes together (\<open>Tensor_Reads\<close>), the scores of a vocabulary are finite (\<open>Tokenizer\<close>, the best
  path), and the sizes of a matrix fit 64 bits (\<open>Compute_Core\<close>).

  \<^bold>\<open>Not modelled\<close>

  The normalization, softmax, rotary and attention functions of \<open>core/compute.rs\<close>, and the kernels of \<open>runtime/simd.rs\<close>.
  The forward pass (\<open>runtime/inference.rs\<close>, \<open>streaming_model.rs\<close>), attention, normalization and sampling rest on
  \<open>exp\<close>, \<open>cos\<close> and \<open>powf\<close>, whose results Rust does not specify. Calibration, discovery, cgroups, the supervisor and page residency measure
  or change the machine. The command line, the terminal interface, profilers and reports print. Their results enter the model as
  arguments where the core reads them.
\<close>

end
